(* ===== verification/Prelude.thy ===== *)
theory Prelude
  imports Main "HOL-Library.Word"
begin

text \<open>
  What every component of the development shares: the machine-integer types of the Rust
  sources (\<open>u8\<close>, \<open>u16\<close>, \<open>u32\<close>, \<open>u64\<close> as words of that width), the fixed-size byte
  arrays \<open>[u8; 3]\<close>, \<open>[u8; 6]\<close> and \<open>[u8; 8]\<close> as datatypes that carry their length in the
  type, the little-endian conversions of the standard library, and the collections of
  rewrite rules the component proofs extend.
\<close>

unbundle bit_operations_syntax

type_synonym u8 = "8 word"
type_synonym u16 = "16 word"
type_synonym u32 = "32 word"
type_synonym u64 = "64 word"

text \<open>
  The collections: \<open>rd_simps\<close> evaluates readers on a cursor, \<open>put_simps\<close> flattens
  writers to appended bytes, \<open>eng_simps\<close> unfolds the small accessors of the engine.
\<close>

named_theorems rd_simps
named_theorems put_simps
named_theorems eng_simps

section \<open>Fixed-size byte arrays\<close>

datatype arr3 = Arr3 u8 u8 u8

datatype arr6 = Arr6 u8 u8 u8 u8 u8 u8

datatype arr8 = Arr8 u8 u8 u8 u8 u8 u8 u8 u8

fun arr3_bytes :: "arr3 \<Rightarrow> u8 list" where
  "arr3_bytes (Arr3 a b c) = [a, b, c]"

fun arr6_bytes :: "arr6 \<Rightarrow> u8 list" where
  "arr6_bytes (Arr6 a b c d e f) = [a, b, c, d, e, f]"

fun arr8_bytes :: "arr8 \<Rightarrow> u8 list" where
  "arr8_bytes (Arr8 a b c d e f g h) = [a, b, c, d, e, f, g, h]"

text \<open>
  \<open>copy_from_slice\<close> into a zeroed array. It panics on a slice of another length; every
  caller passes a slice of the right length, so the last equation is never reached.
\<close>

fun arr3_of :: "u8 list \<Rightarrow> arr3" where
  "arr3_of [a, b, c] = Arr3 a b c"
| "arr3_of _ = Arr3 0 0 0"

fun arr6_of :: "u8 list \<Rightarrow> arr6" where
  "arr6_of [a, b, c, d, e, f] = Arr6 a b c d e f"
| "arr6_of _ = Arr6 0 0 0 0 0 0"

fun arr8_of :: "u8 list \<Rightarrow> arr8" where
  "arr8_of [a, b, c, d, e, f, g, h] = Arr8 a b c d e f g h"
| "arr8_of _ = Arr8 0 0 0 0 0 0 0 0"

lemma length_arr3_bytes [simp]: "length (arr3_bytes a) = 3"
  by (cases a) simp

lemma length_arr6_bytes [simp]: "length (arr6_bytes a) = 6"
  by (cases a) simp

lemma length_arr8_bytes [simp]: "length (arr8_bytes a) = 8"
  by (cases a) simp

lemma arr3_of_bytes [simp]: "arr3_of (arr3_bytes a) = a"
  by (cases a) simp

lemma arr6_of_bytes [simp]: "arr6_of (arr6_bytes a) = a"
  by (cases a) simp

lemma arr8_of_bytes [simp]: "arr8_of (arr8_bytes a) = a"
  by (cases a) simp

lemma arr6_bytes_inject [simp]: "arr6_bytes a = arr6_bytes b \<longleftrightarrow> a = b"
  by (metis arr6_of_bytes)

lemma arr6_bytes_of: "length xs = 6 \<Longrightarrow> arr6_bytes (arr6_of xs) = xs"
  by (auto simp: numeral_eq_Suc length_Suc_conv)

lemma arr8_bytes_of: "length xs = 8 \<Longrightarrow> arr8_bytes (arr8_of xs) = xs"
  by (auto simp: numeral_eq_Suc length_Suc_conv)

lemma arr3_bytes_of: "length xs = 3 \<Longrightarrow> arr3_bytes (arr3_of xs) = xs"
  by (auto simp: numeral_eq_Suc length_Suc_conv)

section \<open>Little-endian bytes\<close>

text \<open>\<open>to_le_bytes\<close> and \<open>from_le_bytes\<close> of the standard library, for any width.\<close>

primrec to_le :: "nat \<Rightarrow> 'a::len word \<Rightarrow> u8 list" where
  "to_le 0 w = []"
| "to_le (Suc n) w = ucast w # to_le n (drop_bit 8 w)"

primrec from_le :: "u8 list \<Rightarrow> 'a::len word" where
  "from_le [] = 0"
| "from_le (b # bs) = ucast b OR push_bit 8 (from_le bs)"

lemma length_to_le [simp]: "length (to_le n w) = n"
  by (induction n arbitrary: w) simp_all

lemma from_le_to_le: "from_le (to_le n w) = take_bit (8 * n) w"
proof (induction n arbitrary: w)
  case 0
  then show ?case by simp
next
  case (Suc n)
  show ?case
    unfolding to_le.simps from_le.simps Suc.IH
    by (rule bit_word_eqI) (auto simp: bit_simps)
qed

lemma to_le_from_le:
  "8 * length bs \<le> LENGTH('a) \<Longrightarrow> to_le (length bs) (from_le bs :: 'a::len word) = bs"
proof (induction bs)
  case Nil
  then show ?case by simp
next
  case (Cons b bs)
  let ?w = "from_le bs :: 'a word"
  have head: "ucast ((ucast b :: 'a word) OR push_bit 8 ?w) = b"
    using Cons.prems by (intro bit_word_eqI) (auto simp: bit_simps)
  have hi: "\<not> bit ?w i" if "8 * length bs \<le> i" for i
    using that
  proof (induction bs arbitrary: i)
    case Nil
    then show ?case by simp
  next
    case (Cons c cs)
    then show ?case by (auto simp: bit_simps dest: bit_imp_le_length)
  qed
  have tail: "drop_bit 8 ((ucast b :: 'a word) OR push_bit 8 ?w) = ?w"
  proof (rule bit_word_eqI)
    fix i
    assume i: "i < LENGTH('a)"
    show "bit (drop_bit 8 ((ucast b :: 'a word) OR push_bit 8 ?w)) i \<longleftrightarrow> bit ?w i"
      using i Cons.prems hi [of i] by (auto simp: bit_simps dest: bit_imp_le_length)
  qed
  show ?case
    using Cons head tail by simp
qed

lemma from_le_to_le_16 [simp]: "from_le (to_le 2 (w :: u16)) = w"
  by (simp add: from_le_to_le take_bit_word_eq_self)

lemma from_le_to_le_32 [simp]: "from_le (to_le 4 (w :: u32)) = w"
  by (simp add: from_le_to_le take_bit_word_eq_self)

lemma from_le_to_le_64 [simp]: "from_le (to_le 8 (w :: u64)) = w"
  by (simp add: from_le_to_le take_bit_word_eq_self)

section \<open>Lists and results\<close>

lemma map_sum_Inr_iff: "(case x of Inl e \<Rightarrow> Inl e | Inr a \<Rightarrow> Inr (f a)) = Inr b
    \<longleftrightarrow> (\<exists>a. x = Inr a \<and> b = f a)"
  by (cases x) auto

lemma unat_of_nat_u8 [simp]: "n < 256 \<Longrightarrow> unat (word_of_nat n :: u8) = n"
  by (simp add: unat_of_nat take_bit_nat_eq_self)

lemma unat_of_nat_u16 [simp]: "n < 65536 \<Longrightarrow> unat (word_of_nat n :: u16) = n"
  by (simp add: unat_of_nat take_bit_nat_eq_self)

text \<open>
  Rust's \<open>Iterator::position\<close>: the index of the first element that satisfies the
  predicate; \<open>Vec::remove\<close>: the vector without the element at an index.
\<close>

primrec position :: "('a \<Rightarrow> bool) \<Rightarrow> 'a list \<Rightarrow> nat option" where
  "position p [] = None"
| "position p (x # xs) = (if p x then Some 0 else map_option Suc (position p xs))"

definition remove_at :: "nat \<Rightarrow> 'a list \<Rightarrow> 'a list" where
  "remove_at i xs = take i xs @ drop (Suc i) xs"

lemma position_None [simp]: "position p xs = None \<longleftrightarrow> (\<forall>x \<in> set xs. \<not> p x)"
  by (induction xs) auto

lemma position_Some: "position p xs = Some i \<Longrightarrow> i < length xs \<and> p (xs ! i)"
  by (induction xs arbitrary: i) (auto split: if_splits)

lemma position_first: "position p xs = Some i \<Longrightarrow> j < i \<Longrightarrow> \<not> p (xs ! j)"
proof (induction xs arbitrary: i j)
  case Nil
  then show ?case by simp
next
  case (Cons x xs)
  then show ?case by (cases j) (auto split: if_splits)
qed

lemma set_remove_at: "set (remove_at i xs) \<subseteq> set xs"
  unfolding remove_at_def by (auto dest: in_set_takeD in_set_dropD)

lemma remove_at_Cons_0 [simp]: "remove_at 0 (x # xs) = xs"
  by (simp add: remove_at_def)

lemma remove_at_Cons_Suc [simp]: "remove_at (Suc i) (x # xs) = x # remove_at i xs"
  by (simp add: remove_at_def)

lemma mem_nth_or_remove_at:
  "x \<in> set xs \<Longrightarrow> i < length xs \<Longrightarrow> x = xs ! i \<or> x \<in> set (remove_at i xs)"
proof (induction xs arbitrary: i)
  case Nil
  then show ?case by simp
next
  case (Cons y ys)
  then show ?case by (cases i) auto
qed

lemma distinct_map_remove_at: "distinct (map f xs) \<Longrightarrow> distinct (map f (remove_at i xs))"
proof (induction xs arbitrary: i)
  case Nil
  then show ?case by (simp add: remove_at_def)
next
  case (Cons x xs)
  then show ?case
    using set_remove_at [of _ xs] by (cases i) (auto simp: image_iff subset_iff)
qed

lemma set_list_update_subset: "set (xs[i := x]) \<subseteq> insert x (set xs)"
  by (rule set_update_subset_insert)

end
