(* ===== verification/Wire.thy ===== *)
theory Wire
  imports Prelude
begin

text \<open>
  \<open>crates/faces/ndn-nan-core/src/wire.rs\<close>: the bounds-checked little-endian cursor
  \<open>Reader\<close> and the append-only writer \<open>WriteExt\<close>. A reader operation takes the cursor by
  \<open>&mut\<close> and returns a \<open>Result\<close>, so it is modelled as a function from the cursor to the
  result and the cursor afterwards; \<open>rd_bind\<close> is Rust's \<open>?\<close>, which leaves the cursor
  where the failing read left it.
\<close>

section \<open>The cursor\<close>

datatype wire_error = Truncated | Invalid

record reader =
  rd_buf :: "u8 list"
  rd_pos :: nat

type_synonym 'a rd = "reader \<Rightarrow> (wire_error + 'a) \<times> reader"

definition rd_return :: "'a \<Rightarrow> 'a rd" where
  "rd_return a = (\<lambda>r. (Inr a, r))"

definition rd_fail :: "wire_error \<Rightarrow> 'a rd" where
  "rd_fail e = (\<lambda>r. (Inl e, r))"

definition rd_bind :: "'a rd \<Rightarrow> ('a \<Rightarrow> 'b rd) \<Rightarrow> 'b rd" where
  "rd_bind m f = (\<lambda>r. case m r of (Inl e, r') \<Rightarrow> (Inl e, r') | (Inr a, r') \<Rightarrow> f a r')"

text \<open>A \<open>Result\<close> computed without the cursor, propagated by \<open>?\<close>; \<open>ok_or\<close> of an option.\<close>

definition rd_lift :: "wire_error + 'a \<Rightarrow> 'a rd" where
  "rd_lift x = (\<lambda>r. (x, r))"

fun ok_or :: "wire_error \<Rightarrow> 'a option \<Rightarrow> wire_error + 'a" where
  "ok_or e None = Inl e"
| "ok_or e (Some a) = Inr a"

definition reader_new :: "u8 list \<Rightarrow> reader" where
  "reader_new buf = \<lparr>rd_buf = buf, rd_pos = 0\<rparr>"

definition rd_remaining :: "reader \<Rightarrow> nat" where
  "rd_remaining r = length (rd_buf r) - rd_pos r"

definition rd_is_empty :: "reader \<Rightarrow> bool" where
  "rd_is_empty r \<longleftrightarrow> rd_remaining r = 0"

definition rd_rest :: "reader \<Rightarrow> u8 list" where
  "rd_rest r = drop (rd_pos r) (rd_buf r)"

definition rd_take :: "nat \<Rightarrow> u8 list rd" where
  "rd_take n r =
     (if rd_remaining r < n then (Inl Truncated, r)
      else (Inr (take n (drop (rd_pos r) (rd_buf r))), r\<lparr>rd_pos := rd_pos r + n\<rparr>))"

text \<open>
  \<open>take_array::<N>\<close>: the conversion to the fixed-size array type is the parameter.
\<close>

definition rd_take_array :: "nat \<Rightarrow> (u8 list \<Rightarrow> 'a) \<Rightarrow> 'a rd" where
  "rd_take_array n mk = rd_bind (rd_take n) (\<lambda>s. rd_return (mk s))"

definition rd_u8 :: "u8 rd" where
  "rd_u8 = rd_bind (rd_take 1) (\<lambda>b. rd_return (b ! 0))"

definition rd_le16 :: "u16 rd" where
  "rd_le16 = rd_bind (rd_take 2) (\<lambda>b. rd_return (from_le b))"

definition rd_le32 :: "u32 rd" where
  "rd_le32 = rd_bind (rd_take 4) (\<lambda>b. rd_return (from_le b))"

definition rd_le64 :: "u64 rd" where
  "rd_le64 = rd_bind (rd_take 8) (\<lambda>b. rd_return (from_le b))"

text \<open>Running a decoder that starts at the beginning of a body and drops its cursor.\<close>

definition rd_run :: "'a rd \<Rightarrow> u8 list \<Rightarrow> wire_error + 'a" where
  "rd_run m body = fst (m (reader_new body))"

section \<open>The writer\<close>

definition put_u8 :: "u8 \<Rightarrow> u8 list \<Rightarrow> u8 list" where
  "put_u8 v out = out @ [v]"

definition put_le16 :: "u16 \<Rightarrow> u8 list \<Rightarrow> u8 list" where
  "put_le16 v out = out @ to_le 2 v"

definition put_le32 :: "u32 \<Rightarrow> u8 list \<Rightarrow> u8 list" where
  "put_le32 v out = out @ to_le 4 v"

definition put_le64 :: "u64 \<Rightarrow> u8 list \<Rightarrow> u8 list" where
  "put_le64 v out = out @ to_le 8 v"

definition put_bytes :: "u8 list \<Rightarrow> u8 list \<Rightarrow> u8 list" where
  "put_bytes v out = out @ v"

lemmas put_defs [put_simps] =
  put_u8_def put_le16_def put_le32_def put_le64_def put_bytes_def

section \<open>Cursors in normal form\<close>

text \<open>
  A well-formed cursor has consumed some bytes and has some left. \<open>cursor xs ys\<close> names it,
  and every reader operation rewrites a cursor to a cursor, so a decoder applied to
  known bytes is evaluated by \<open>simp add: rd_simps\<close>.
\<close>

definition cursor :: "u8 list \<Rightarrow> u8 list \<Rightarrow> reader" where
  "cursor xs ys = \<lparr>rd_buf = xs @ ys, rd_pos = length xs\<rparr>"

definition wf_reader :: "reader \<Rightarrow> bool" where
  "wf_reader r \<longleftrightarrow> rd_pos r \<le> length (rd_buf r)"

lemma reader_new_cursor [rd_simps]: "reader_new buf = cursor [] buf"
  by (simp add: reader_new_def cursor_def)

lemma wf_reader_cursor [rd_simps, simp]: "wf_reader (cursor xs ys)"
  by (simp add: wf_reader_def cursor_def)

lemma wf_reader_cases:
  assumes "wf_reader r"
  obtains xs ys where "r = cursor xs ys"
proof -
  have "r = cursor (take (rd_pos r) (rd_buf r)) (drop (rd_pos r) (rd_buf r))"
    using assms by (simp add: cursor_def wf_reader_def)
  then show thesis by (rule that)
qed

lemma rd_remaining_cursor [rd_simps]: "rd_remaining (cursor xs ys) = length ys"
  by (simp add: rd_remaining_def cursor_def)

lemma rd_is_empty_cursor [rd_simps]: "rd_is_empty (cursor xs ys) \<longleftrightarrow> ys = []"
  by (simp add: rd_is_empty_def rd_remaining_cursor)

lemma rd_rest_cursor [rd_simps]: "rd_rest (cursor xs ys) = ys"
  by (simp add: rd_rest_def cursor_def)

lemma rd_return_app [rd_simps]: "rd_return a r = (Inr a, r)"
  by (simp add: rd_return_def)

lemma rd_fail_app [rd_simps]: "rd_fail e r = (Inl e, r)"
  by (simp add: rd_fail_def)

lemma rd_lift_app [rd_simps]: "rd_lift x r = (x, r)"
  by (simp add: rd_lift_def)

lemma rd_bind_app [rd_simps]:
  "rd_bind m f r = (case m r of (Inl e, r') \<Rightarrow> (Inl e, r') | (Inr a, r') \<Rightarrow> f a r')"
  by (simp add: rd_bind_def)

lemma rd_take_cursor:
  "rd_take n (cursor xs ys) =
     (if length ys < n then (Inl Truncated, cursor xs ys)
      else (Inr (take n ys), cursor (xs @ take n ys) (drop n ys)))"
  by (auto simp: rd_take_def rd_remaining_cursor) (simp_all add: cursor_def)

lemma rd_take_append [rd_simps]:
  "length zs = n \<Longrightarrow> rd_take n (cursor xs (zs @ ys)) = (Inr zs, cursor (xs @ zs) ys)"
  by (simp add: rd_take_cursor)

lemma rd_take_exact [rd_simps]:
  "length zs = n \<Longrightarrow> rd_take n (cursor xs zs) = (Inr zs, cursor (xs @ zs) [])"
  by (simp add: rd_take_cursor)

lemma rd_take_short [rd_simps]:
  "length zs < n \<Longrightarrow> rd_take n (cursor xs zs) = (Inl Truncated, cursor xs zs)"
  by (simp add: rd_take_cursor)

lemma rd_u8_Cons [rd_simps]: "rd_u8 (cursor xs (b # ys)) = (Inr b, cursor (xs @ [b]) ys)"
  by (simp add: rd_u8_def rd_bind_app rd_take_cursor rd_return_app)

lemma rd_u8_Nil [rd_simps]: "rd_u8 (cursor xs []) = (Inl Truncated, cursor xs [])"
  by (simp add: rd_u8_def rd_bind_app rd_take_cursor)

lemma rd_le16_append [rd_simps]:
  "rd_le16 (cursor xs (to_le 2 w @ ys)) = (Inr w, cursor (xs @ to_le 2 w) ys)"
  by (simp add: rd_le16_def rd_bind_app rd_take_append rd_return_app)

lemma rd_le16_exact [rd_simps]:
  "rd_le16 (cursor xs (to_le 2 w)) = (Inr w, cursor (xs @ to_le 2 w) [])"
  using rd_le16_append [of xs w "[]"] by simp

lemma rd_le16_short [rd_simps]:
  "length ys < 2 \<Longrightarrow> rd_le16 (cursor xs ys) = (Inl Truncated, cursor xs ys)"
  by (simp add: rd_le16_def rd_bind_app rd_take_short)

lemma rd_le32_append [rd_simps]:
  "rd_le32 (cursor xs (to_le 4 w @ ys)) = (Inr w, cursor (xs @ to_le 4 w) ys)"
  by (simp add: rd_le32_def rd_bind_app rd_take_append rd_return_app)

lemma rd_le32_exact [rd_simps]:
  "rd_le32 (cursor xs (to_le 4 w)) = (Inr w, cursor (xs @ to_le 4 w) [])"
  using rd_le32_append [of xs w "[]"] by simp

lemma rd_le64_append [rd_simps]:
  "rd_le64 (cursor xs (to_le 8 w @ ys)) = (Inr w, cursor (xs @ to_le 8 w) ys)"
  by (simp add: rd_le64_def rd_bind_app rd_take_append rd_return_app)

lemma rd_le64_exact [rd_simps]:
  "rd_le64 (cursor xs (to_le 8 w)) = (Inr w, cursor (xs @ to_le 8 w) [])"
  using rd_le64_append [of xs w "[]"] by simp

lemma rd_take_array6_append [rd_simps]:
  "rd_take_array 6 arr6_of (cursor xs (arr6_bytes a @ ys)) =
     (Inr a, cursor (xs @ arr6_bytes a) ys)"
  by (simp add: rd_take_array_def rd_bind_app rd_take_append rd_return_app)

lemma rd_take_array6_exact [rd_simps]:
  "rd_take_array 6 arr6_of (cursor xs (arr6_bytes a)) =
     (Inr a, cursor (xs @ arr6_bytes a) [])"
  using rd_take_array6_append [of xs a "[]"] by simp

lemma rd_run_cursor [rd_simps]: "rd_run m body = fst (m (cursor [] body))"
  by (simp add: rd_run_def reader_new_cursor)

section \<open>No read leaves the buffer\<close>

text \<open>
  A reader action is \<open>safe\<close> when it keeps the buffer, never moves the cursor back, and
  never moves it past the end. Every primitive is safe and \<open>rd_bind\<close> composes safe
  actions, so every decoder built from them is.
\<close>

definition rd_safe :: "'a rd \<Rightarrow> bool" where
  "rd_safe m \<longleftrightarrow> (\<forall>r. wf_reader r \<longrightarrow>
     wf_reader (snd (m r)) \<and> rd_buf (snd (m r)) = rd_buf r \<and> rd_pos r \<le> rd_pos (snd (m r)))"

named_theorems rd_safe_intros

lemma rd_safe_return [rd_safe_intros]: "rd_safe (rd_return a)"
  by (simp add: rd_safe_def rd_return_app)

lemma rd_safe_fail [rd_safe_intros]: "rd_safe (rd_fail e)"
  by (simp add: rd_safe_def rd_fail_app)

lemma rd_safe_lift [rd_safe_intros]: "rd_safe (rd_lift x)"
  by (simp add: rd_safe_def rd_lift_app)

lemma rd_safe_take [rd_safe_intros]: "rd_safe (rd_take n)"
  by (auto simp: rd_safe_def rd_take_def wf_reader_def rd_remaining_def)

lemma rd_safe_bind [rd_safe_intros]:
  assumes "rd_safe m" and "\<And>a. rd_safe (f a)"
  shows "rd_safe (rd_bind m f)"
  unfolding rd_safe_def
proof (intro allI impI)
  fix r
  assume wf: "wf_reader r"
  obtain x r' where m: "m r = (x, r')" by fastforce
  have 1: "wf_reader r'" "rd_buf r' = rd_buf r" "rd_pos r \<le> rd_pos r'"
    using assms(1) wf m by (force simp: rd_safe_def)+
  show "wf_reader (snd (rd_bind m f r)) \<and> rd_buf (snd (rd_bind m f r)) = rd_buf r
      \<and> rd_pos r \<le> rd_pos (snd (rd_bind m f r))"
  proof (cases x)
    case (Inl e)
    with m 1 show ?thesis by (simp add: rd_bind_app)
  next
    case (Inr a)
    have "wf_reader (snd (f a r')) \<and> rd_buf (snd (f a r')) = rd_buf r'
        \<and> rd_pos r' \<le> rd_pos (snd (f a r'))"
      using assms(2) [of a] 1(1) by (simp add: rd_safe_def)
    with m 1 Inr show ?thesis by (auto simp: rd_bind_app)
  qed
qed

lemma rd_safe_u8 [rd_safe_intros]: "rd_safe rd_u8"
  unfolding rd_u8_def by (intro rd_safe_intros)

lemma rd_safe_le16 [rd_safe_intros]: "rd_safe rd_le16"
  unfolding rd_le16_def by (intro rd_safe_intros)

lemma rd_safe_le32 [rd_safe_intros]: "rd_safe rd_le32"
  unfolding rd_le32_def by (intro rd_safe_intros)

lemma rd_safe_le64 [rd_safe_intros]: "rd_safe rd_le64"
  unfolding rd_le64_def by (intro rd_safe_intros)

lemma rd_safe_take_array [rd_safe_intros]: "rd_safe (rd_take_array n mk)"
  unfolding rd_take_array_def by (intro rd_safe_intros)

end
