(* ===== verification/Attr.thy ===== *)
theory Attr
  imports Wire
begin

text \<open>
  \<open>crates/faces/ndn-nan-core/src/attr.rs\<close>: the NAN attribute TLVs. An attribute is
  \<open>id (u8) | length (u16 LE) | body\<close>; the typed attributes have an encoder that appends the
  whole TLV and a decoder that reads a body. The interface \<open>tlv_codec\<close> states what an
  encoder/decoder pair promises, and its client lemmas say that an attribute appended to
  a well-formed attribute sequence is found again and decodes to what was encoded.
\<close>

section \<open>Attribute identifiers and TLVs\<close>

datatype attribute_id =
    IdMasterIndication | IdCluster | IdServiceIdList | IdServiceDescriptor
  | IdConnectionCapability | IdWlanInfra | IdP2pOperation | IdIbss | IdMesh
  | IdFurtherNanServiceDiscovery | IdFurtherAvailabilityMap | IdCountryCode | IdRanging
  | IdClusterDiscovery | IdServiceDescriptorExtension | IdDeviceCapability | IdNdp
  | IdNanAvailability | IdNdc | IdNdl | IdNdlQos | IdUnalignedSchedule
  | IdRangingInformation | IdRangingSetup | IdFtmRangeReport | IdElementContainer
  | IdCipherSuiteInfo | IdSecurityContextInfo | IdSharedKeyDescriptor
  | IdPublicAvailability | IdSubscribeServiceIdList | IdNdpExtension
  | IdDeviceCapabilityExtension | IdNanIdentityResolution | IdNanPairingBootstrapping
  | IdVendorSpecific

fun attribute_id_byte :: "attribute_id \<Rightarrow> u8" where
  "attribute_id_byte IdMasterIndication = 0x00"
| "attribute_id_byte IdCluster = 0x01"
| "attribute_id_byte IdServiceIdList = 0x02"
| "attribute_id_byte IdServiceDescriptor = 0x03"
| "attribute_id_byte IdConnectionCapability = 0x04"
| "attribute_id_byte IdWlanInfra = 0x05"
| "attribute_id_byte IdP2pOperation = 0x06"
| "attribute_id_byte IdIbss = 0x07"
| "attribute_id_byte IdMesh = 0x08"
| "attribute_id_byte IdFurtherNanServiceDiscovery = 0x09"
| "attribute_id_byte IdFurtherAvailabilityMap = 0x0A"
| "attribute_id_byte IdCountryCode = 0x0B"
| "attribute_id_byte IdRanging = 0x0C"
| "attribute_id_byte IdClusterDiscovery = 0x0D"
| "attribute_id_byte IdServiceDescriptorExtension = 0x0E"
| "attribute_id_byte IdDeviceCapability = 0x0F"
| "attribute_id_byte IdNdp = 0x10"
| "attribute_id_byte IdNanAvailability = 0x12"
| "attribute_id_byte IdNdc = 0x13"
| "attribute_id_byte IdNdl = 0x14"
| "attribute_id_byte IdNdlQos = 0x15"
| "attribute_id_byte IdUnalignedSchedule = 0x17"
| "attribute_id_byte IdRangingInformation = 0x1A"
| "attribute_id_byte IdRangingSetup = 0x1B"
| "attribute_id_byte IdFtmRangeReport = 0x1C"
| "attribute_id_byte IdElementContainer = 0x1D"
| "attribute_id_byte IdCipherSuiteInfo = 0x22"
| "attribute_id_byte IdSecurityContextInfo = 0x23"
| "attribute_id_byte IdSharedKeyDescriptor = 0x24"
| "attribute_id_byte IdPublicAvailability = 0x27"
| "attribute_id_byte IdSubscribeServiceIdList = 0x28"
| "attribute_id_byte IdNdpExtension = 0x29"
| "attribute_id_byte IdDeviceCapabilityExtension = 0x2A"
| "attribute_id_byte IdNanIdentityResolution = 0x2B"
| "attribute_id_byte IdNanPairingBootstrapping = 0x2C"
| "attribute_id_byte IdVendorSpecific = 0xDD"

record attribute =
  at_id :: u8
  at_body :: "u8 list"

definition attribute_encode :: "attribute \<Rightarrow> u8 list \<Rightarrow> u8 list" where
  "attribute_encode a out =
     put_bytes (at_body a) (put_le16 (word_of_nat (length (at_body a))) (put_u8 (at_id a) out))"

definition attribute_is :: "attribute \<Rightarrow> attribute_id \<Rightarrow> bool" where
  "attribute_is a which \<longleftrightarrow> at_id a = attribute_id_byte which"

text \<open>
  \<open>Attributes::next\<close>. \<open>None\<close> at the end of the buffer; otherwise one TLV is read, and a read
  that fails yields the error with the cursor left where that read left it.
\<close>

definition attribute_read :: "attribute rd" where
  "attribute_read =
     rd_bind rd_u8 (\<lambda>id.
     rd_bind rd_le16 (\<lambda>len.
     rd_bind (rd_take (unat len)) (\<lambda>body.
     rd_return \<lparr>at_id = id, at_body = body\<rparr>)))"

definition attributes_next :: "reader \<Rightarrow> (wire_error + attribute) option \<times> reader" where
  "attributes_next r =
     (if rd_is_empty r then (None, r)
      else (case attribute_read r of (x, r') \<Rightarrow> (Some x, r')))"

lemma attribute_read_progress:
  assumes "\<not> rd_is_empty r"
  shows "rd_remaining (snd (attribute_read r)) < rd_remaining r"
proof -
  have pos: "rd_pos r < length (rd_buf r)"
    using assms by (simp add: rd_is_empty_def rd_remaining_def)
  then have "wf_reader r"
    by (simp add: wf_reader_def)
  then obtain xs ys where r: "r = cursor xs ys"
    by (rule wf_reader_cases)
  obtain b bs where ys: "ys = b # bs"
    using assms by (cases ys) (auto simp: r rd_is_empty_cursor)
  have safe: "rd_safe (rd_bind rd_le16 (\<lambda>len. rd_bind (rd_take (unat len))
      (\<lambda>body. rd_return \<lparr>at_id = b, at_body = body\<rparr>)))" (is "rd_safe ?m")
    by (intro rd_safe_intros)
  have "attribute_read r = ?m (cursor (xs @ [b]) bs)"
    by (simp add: attribute_read_def r ys rd_bind_app [of rd_u8] rd_u8_Cons)
  moreover have "rd_remaining (snd (?m (cursor (xs @ [b]) bs))) \<le> length bs"
    using safe unfolding rd_safe_def
    by (metis diff_le_mono2 rd_remaining_cursor rd_remaining_def wf_reader_cursor)
  ultimately show ?thesis
    by (simp add: r ys rd_remaining_cursor)
qed

lemma attributes_next_progress:
  "attributes_next r = (Some x, r') \<Longrightarrow> rd_remaining r' < rd_remaining r"
  using attribute_read_progress [of r]
  by (auto simp: attributes_next_def split: if_splits prod.splits)

text \<open>The iterator run to its end: every item it yields, in order.\<close>

function attributes_items :: "reader \<Rightarrow> (wire_error + attribute) list" where
  "attributes_items r =
     (case attributes_next r of (None, _) \<Rightarrow> [] | (Some x, r') \<Rightarrow> x # attributes_items r')"
  by pat_completeness auto
termination
  by (relation "measure rd_remaining") (auto dest: attributes_next_progress [OF sym])

declare attributes_items.simps [simp del]

text \<open>\<open>Attributes::new(buf).flatten()\<close>: the attributes read, the errors dropped.\<close>

definition attributes_flatten :: "u8 list \<Rightarrow> attribute list" where
  "attributes_flatten buf =
     map projr (filter (\<lambda>x. \<not> isl x) (attributes_items (reader_new buf)))"

definition attributes_find :: "u8 list \<Rightarrow> attribute_id \<Rightarrow> attribute option" where
  "attributes_find buf which = find (\<lambda>a. attribute_is a which) (attributes_flatten buf)"

section \<open>Attribute sequences\<close>

definition attr_ok :: "attribute \<Rightarrow> bool" where
  "attr_ok a \<longleftrightarrow> length (at_body a) < 65536"

definition tlv_seq :: "attribute list \<Rightarrow> u8 list" where
  "tlv_seq as = foldl (\<lambda>out a. attribute_encode a out) [] as"

lemma attribute_encode_eq:
  "attribute_encode a out =
     out @ at_id a # to_le 2 (word_of_nat (length (at_body a)) :: u16) @ at_body a"
  by (simp add: attribute_encode_def put_simps)

lemma tlv_seq_Nil [simp]: "tlv_seq [] = []"
  by (simp add: tlv_seq_def)

lemma tlv_seq_snoc: "tlv_seq (as @ [a]) = attribute_encode a (tlv_seq as)"
  by (simp add: tlv_seq_def)

lemma tlv_seq_append: "tlv_seq (as @ bs) = tlv_seq as @ tlv_seq bs"
proof (induction bs rule: rev_induct)
  case Nil
  then show ?case by simp
next
  case (snoc b bs)
  have "tlv_seq (as @ bs @ [b]) = attribute_encode b (tlv_seq (as @ bs))"
    using tlv_seq_snoc [of "as @ bs" b] by simp
  with snoc show ?case by (simp add: tlv_seq_snoc attribute_encode_eq)
qed

lemma tlv_seq_Cons: "tlv_seq (a # as) = attribute_encode a [] @ tlv_seq as"
  using tlv_seq_append [of "[a]" as] tlv_seq_snoc [of "[]" a] by simp

lemma attribute_read_encode:
  assumes "attr_ok a"
  shows "attribute_read (cursor xs (attribute_encode a [] @ ys)) =
    (Inr a, cursor (xs @ attribute_encode a []) ys)"
  using assms
  by (simp add: attribute_read_def attribute_encode_eq attr_ok_def rd_simps)

lemma attributes_items_empty: "attributes_items (cursor xs []) = []"
  by (subst attributes_items.simps) (simp add: attributes_next_def rd_is_empty_cursor)

lemma attributes_items_tlv_seq:
  assumes "\<forall>a \<in> set as. attr_ok a"
  shows "attributes_items (cursor xs (tlv_seq as)) = map Inr as"
  using assms
proof (induction as arbitrary: xs)
  case Nil
  then show ?case by (simp add: attributes_items_empty)
next
  case (Cons a as)
  have ne: "\<not> rd_is_empty (cursor xs (tlv_seq (a # as)))"
    by (simp add: rd_is_empty_cursor tlv_seq_Cons attribute_encode_eq)
  have "attributes_items (cursor xs (tlv_seq (a # as))) =
      Inr a # attributes_items (cursor (xs @ attribute_encode a []) (tlv_seq as))"
    using Cons.prems ne
    by (subst attributes_items.simps)
      (simp add: attributes_next_def tlv_seq_Cons attribute_read_encode)
  with Cons show ?case by simp
qed

lemma attributes_flatten_tlv_seq:
  "\<forall>a \<in> set as. attr_ok a \<Longrightarrow> attributes_flatten (tlv_seq as) = as"
  by (simp add: attributes_flatten_def rd_simps attributes_items_tlv_seq comp_def)

lemma attributes_find_tlv_seq:
  "\<forall>a \<in> set as. attr_ok a \<Longrightarrow>
    attributes_find (tlv_seq as) which = find (\<lambda>a. attribute_is a which) as"
  by (simp add: attributes_find_def attributes_flatten_tlv_seq)

section \<open>The interface of a typed attribute\<close>

text \<open>
  A codec for one attribute id: \<open>encode\<close> appends the TLV of \<open>body\<close>, \<open>decode\<close> reads such a
  body back to \<open>view\<close> (the value itself, or what the wire keeps of it). The laws are asked
  of the values that fit (\<open>valid\<close>): lengths that do not overflow their length fields.
\<close>

locale tlv_codec =
  fixes aid :: attribute_id
    and encode :: "'a \<Rightarrow> u8 list \<Rightarrow> u8 list"
    and body :: "'a \<Rightarrow> u8 list"
    and decode :: "u8 list \<Rightarrow> wire_error + 'b"
    and view :: "'a \<Rightarrow> 'b"
    and valid :: "'a \<Rightarrow> bool"
  assumes encode_law: "valid x \<Longrightarrow>
      encode x out = attribute_encode \<lparr>at_id = attribute_id_byte aid, at_body = body x\<rparr> out"
    and body_fits: "valid x \<Longrightarrow> length (body x) < 65536"
    and decode_body: "valid x \<Longrightarrow> decode (body x) = Inr (view x)"
begin

lemma encode_seq:
  "valid x \<Longrightarrow> encode x (tlv_seq as) =
    tlv_seq (as @ [\<lparr>at_id = attribute_id_byte aid, at_body = body x\<rparr>])"
  by (simp add: encode_law tlv_seq_snoc)

lemma attr_ok_encoded: "valid x \<Longrightarrow> attr_ok \<lparr>at_id = i, at_body = body x\<rparr>"
  by (simp add: attr_ok_def body_fits)

lemma find_encoded:
  assumes "valid x" and "\<forall>a \<in> set as. attr_ok a"
    and "\<forall>a \<in> set as. \<not> attribute_is a aid"
  shows "attributes_find (encode x (tlv_seq as)) aid =
    Some \<lparr>at_id = attribute_id_byte aid, at_body = body x\<rparr>"
proof -
  have "\<forall>a \<in> set (as @ [\<lparr>at_id = attribute_id_byte aid, at_body = body x\<rparr>]). attr_ok a"
    using assms by (auto simp: attr_ok_encoded)
  moreover have "find (\<lambda>a. attribute_is a aid)
      (as @ [\<lparr>at_id = attribute_id_byte aid, at_body = body x\<rparr>]) =
      Some \<lparr>at_id = attribute_id_byte aid, at_body = body x\<rparr>"
    using assms(3) by (induction as) (auto simp: attribute_is_def)
  ultimately show ?thesis
    using assms(1) by (simp add: encode_seq attributes_find_tlv_seq)
qed

lemma decode_found:
  assumes "valid x" and "\<forall>a \<in> set as. attr_ok a"
    and "\<forall>a \<in> set as. \<not> attribute_is a aid"
  shows "map_option (\<lambda>a. decode (at_body a)) (attributes_find (encode x (tlv_seq as)) aid) =
    Some (Inr (view x))"
  using assms by (simp add: find_encoded decode_body)

lemma encode_inj: "valid x \<Longrightarrow> valid y \<Longrightarrow> encode x [] = encode y [] \<Longrightarrow> view x = view y"
  using decode_found [of x "[]"] decode_found [of y "[]"] by auto

end

end
