(* ===== verification/Attr_Types.thy ===== *)
theory Attr_Types
  imports Attr
begin

text \<open>
  The typed attributes of \<open>crates/faces/ndn-nan-core/src/attr.rs\<close> that discovery uses:
  Master Indication, Cluster, the Service Descriptor with its control byte, the service-id
  lists, Device Capability, the availability attributes and the descriptor extension.
  Each is interpreted as a \<open>tlv_codec\<close>.
\<close>

section \<open>Master Indication and Cluster\<close>

record master_indication =
  mi_master_preference :: u8
  mi_random_factor :: u8

definition master_indication_encode :: "master_indication \<Rightarrow> u8 list \<Rightarrow> u8 list" where
  "master_indication_encode m out =
     put_u8 (mi_random_factor m)
      (put_u8 (mi_master_preference m)
       (put_le16 2
        (put_u8 (attribute_id_byte IdMasterIndication) out)))"

definition master_indication_decode :: "u8 list \<Rightarrow> wire_error + master_indication" where
  "master_indication_decode body =
     rd_run
      (rd_bind rd_u8 (\<lambda>p.
       rd_bind rd_u8 (\<lambda>f.
       rd_return \<lparr>mi_master_preference = p, mi_random_factor = f\<rparr>))) body"

definition master_indication_body :: "master_indication \<Rightarrow> u8 list" where
  "master_indication_body m = [mi_master_preference m, mi_random_factor m]"

record cluster =
  cl_anchor_master_rank :: u64
  cl_hop_count :: u8
  cl_ambtt :: u32

definition cluster_encode :: "cluster \<Rightarrow> u8 list \<Rightarrow> u8 list" where
  "cluster_encode c out =
     put_le32 (cl_ambtt c)
      (put_u8 (cl_hop_count c)
       (put_le64 (cl_anchor_master_rank c)
        (put_le16 13
         (put_u8 (attribute_id_byte IdCluster) out))))"

definition cluster_decode :: "u8 list \<Rightarrow> wire_error + cluster" where
  "cluster_decode body =
     rd_run
      (rd_bind rd_le64 (\<lambda>a.
       rd_bind rd_u8 (\<lambda>h.
       rd_bind rd_le32 (\<lambda>t.
       rd_return \<lparr>cl_anchor_master_rank = a, cl_hop_count = h, cl_ambtt = t\<rparr>)))) body"

definition cluster_body :: "cluster \<Rightarrow> u8 list" where
  "cluster_body c = to_le 8 (cl_anchor_master_rank c) @ [cl_hop_count c] @ to_le 4 (cl_ambtt c)"

interpretation mi_codec: tlv_codec IdMasterIndication master_indication_encode
  master_indication_body master_indication_decode "\<lambda>m. m" "\<lambda>_. True"
  by unfold_locales
    (simp_all add: master_indication_encode_def master_indication_decode_def
      master_indication_body_def attribute_encode_eq put_simps rd_simps)

interpretation cl_codec: tlv_codec IdCluster cluster_encode
  cluster_body cluster_decode "\<lambda>c. c" "\<lambda>_. True"
  by unfold_locales
    (simp_all add: cluster_encode_def cluster_decode_def
      cluster_body_def attribute_encode_eq put_simps rd_simps)

section \<open>Service Descriptor\<close>

datatype service_control_type = Publish | Subscribe | FollowUp

fun service_control_type_byte :: "service_control_type \<Rightarrow> u8" where
  "service_control_type_byte Publish = 0"
| "service_control_type_byte Subscribe = 1"
| "service_control_type_byte FollowUp = 2"

record service_control =
  sc_control_type :: service_control_type
  sc_matching_filter_present :: bool
  sc_service_response_filter_present :: bool
  sc_service_info_present :: bool
  sc_discovery_range_limited :: bool
  sc_binding_bitmap_present :: bool

definition service_control_new :: "service_control_type \<Rightarrow> service_control" where
  "service_control_new t =
     \<lparr>sc_control_type = t,
      sc_matching_filter_present = False,
      sc_service_response_filter_present = False,
      sc_service_info_present = False,
      sc_discovery_range_limited = False,
      sc_binding_bitmap_present = False\<rparr>"

definition service_control_to_byte :: "service_control \<Rightarrow> u8" where
  "service_control_to_byte c =
     (let b = service_control_type_byte (sc_control_type c);
          b = (if sc_matching_filter_present c then b OR 0x04 else b);
          b = (if sc_service_response_filter_present c then b OR 0x08 else b);
          b = (if sc_service_info_present c then b OR 0x10 else b);
          b = (if sc_discovery_range_limited c then b OR 0x20 else b);
          b = (if sc_binding_bitmap_present c then b OR 0x40 else b)
      in b)"

definition service_control_from_byte :: "u8 \<Rightarrow> wire_error + service_control" where
  "service_control_from_byte b =
     (let t = b AND 0x03;
          ok = (\<lambda>ct. Inr
            \<lparr>sc_control_type = ct,
             sc_matching_filter_present = (b AND 0x04 \<noteq> 0),
             sc_service_response_filter_present = (b AND 0x08 \<noteq> 0),
             sc_service_info_present = (b AND 0x10 \<noteq> 0),
             sc_discovery_range_limited = (b AND 0x20 \<noteq> 0),
             sc_binding_bitmap_present = (b AND 0x40 \<noteq> 0)\<rparr>)
      in if t = 0 then ok Publish
         else if t = 1 then ok Subscribe
         else if t = 2 then ok FollowUp
         else Inl Invalid)"

record service_descriptor =
  sd_service_id :: arr6
  sd_instance_id :: u8
  sd_requestor_instance_id :: u8
  sd_control :: service_control
  sd_matching_filter :: "u8 list"
  sd_service_info :: "u8 list"

definition service_descriptor_new ::
    "arr6 \<Rightarrow> u8 \<Rightarrow> service_control_type \<Rightarrow> service_descriptor" where
  "service_descriptor_new sid inst ct =
     \<lparr>sd_service_id = sid, sd_instance_id = inst, sd_requestor_instance_id = 0,
      sd_control = service_control_new ct, sd_matching_filter = [], sd_service_info = []\<rparr>"

definition with_service_info :: "u8 list \<Rightarrow> service_descriptor \<Rightarrow> service_descriptor" where
  "with_service_info ssi d =
     d\<lparr>sd_service_info := ssi,
       sd_control := (sd_control d)\<lparr>sc_service_info_present := (ssi \<noteq> [])\<rparr>\<rparr>"

definition with_matching_filter :: "u8 list \<Rightarrow> service_descriptor \<Rightarrow> service_descriptor" where
  "with_matching_filter f d =
     d\<lparr>sd_matching_filter := f,
       sd_control := (sd_control d)\<lparr>sc_matching_filter_present := (f \<noteq> [])\<rparr>\<rparr>"

text \<open>The body the encoder builds first; \<open>len() as u8\<close> keeps the low byte of the length.\<close>

definition service_descriptor_body :: "service_descriptor \<Rightarrow> u8 list" where
  "service_descriptor_body d =
     (let body = put_bytes (arr6_bytes (sd_service_id d)) [];
          body = put_u8 (sd_instance_id d) body;
          body = put_u8 (sd_requestor_instance_id d) body;
          body = put_u8 (service_control_to_byte (sd_control d)) body;
          body = (if sc_matching_filter_present (sd_control d)
                  then put_bytes (sd_matching_filter d)
                        (put_u8 (word_of_nat (length (sd_matching_filter d))) body)
                  else body);
          body = (if sc_service_info_present (sd_control d)
                  then put_bytes (sd_service_info d)
                        (put_u8 (word_of_nat (length (sd_service_info d))) body)
                  else body)
      in body)"

definition service_descriptor_encode :: "service_descriptor \<Rightarrow> u8 list \<Rightarrow> u8 list" where
  "service_descriptor_encode d out =
     put_bytes (service_descriptor_body d)
      (put_le16 (word_of_nat (length (service_descriptor_body d)))
       (put_u8 (attribute_id_byte IdServiceDescriptor) out))"

text \<open>An optional field: a length byte and that many bytes, read when its flag is set.\<close>

definition rd_optional_field :: "bool \<Rightarrow> u8 list rd" where
  "rd_optional_field present =
     (if present then rd_bind rd_u8 (\<lambda>len. rd_take (unat len)) else rd_return [])"

definition service_descriptor_read :: "service_descriptor rd" where
  "service_descriptor_read =
     rd_bind (rd_take_array 6 arr6_of) (\<lambda>sid.
     rd_bind rd_u8 (\<lambda>inst.
     rd_bind rd_u8 (\<lambda>req.
     rd_bind rd_u8 (\<lambda>cb.
     rd_bind (rd_lift (service_control_from_byte cb)) (\<lambda>control.
     if sc_service_response_filter_present control \<or> sc_binding_bitmap_present control
     then rd_fail Invalid
     else
       rd_bind (rd_optional_field (sc_matching_filter_present control)) (\<lambda>mf.
       rd_bind (rd_optional_field (sc_service_info_present control)) (\<lambda>si.
       rd_return
        \<lparr>sd_service_id = sid, sd_instance_id = inst, sd_requestor_instance_id = req,
         sd_control = control, sd_matching_filter = mf, sd_service_info = si\<rparr>)))))))"

definition service_descriptor_decode :: "u8 list \<Rightarrow> wire_error + service_descriptor" where
  "service_descriptor_decode body = rd_run service_descriptor_read body"

text \<open>
  What an encoder must respect for its peer to read the descriptor back: the flags of the
  two optional fields agree with the fields, both fit their length byte, and the two
  fields the decoder refuses are not announced.
\<close>

definition sda_valid :: "service_descriptor \<Rightarrow> bool" where
  "sda_valid d \<longleftrightarrow>
     (sc_matching_filter_present (sd_control d) \<or> sd_matching_filter d = []) \<and>
     (sc_service_info_present (sd_control d) \<or> sd_service_info d = []) \<and>
     length (sd_matching_filter d) < 256 \<and> length (sd_service_info d) < 256 \<and>
     \<not> sc_service_response_filter_present (sd_control d) \<and>
     \<not> sc_binding_bitmap_present (sd_control d)"

lemma service_control_from_to_byte: "service_control_from_byte (service_control_to_byte c) = Inr c"
proof -
  have "\<And>t a b' d e f. service_control_from_byte (service_control_to_byte
      \<lparr>sc_control_type = t, sc_matching_filter_present = a,
       sc_service_response_filter_present = b', sc_service_info_present = d,
       sc_discovery_range_limited = e, sc_binding_bitmap_present = f\<rparr>) =
      Inr \<lparr>sc_control_type = t, sc_matching_filter_present = a,
       sc_service_response_filter_present = b', sc_service_info_present = d,
       sc_discovery_range_limited = e, sc_binding_bitmap_present = f\<rparr>"
    subgoal for t a b' d e f
      by (cases t; cases a; cases b'; cases d; cases e; cases f;
          simp add: service_control_to_byte_def service_control_from_byte_def)
    done
  then show ?thesis
    by (cases c) simp
qed

lemma service_descriptor_body_eq:
  "service_descriptor_body d =
     arr6_bytes (sd_service_id d) @ sd_instance_id d # sd_requestor_instance_id d #
     service_control_to_byte (sd_control d) #
     (if sc_matching_filter_present (sd_control d)
      then word_of_nat (length (sd_matching_filter d)) # sd_matching_filter d else []) @
     (if sc_service_info_present (sd_control d)
      then word_of_nat (length (sd_service_info d)) # sd_service_info d else [])"
  by (simp add: service_descriptor_body_def put_simps)

lemma rd_optional_field_True [rd_simps]:
  "length fs < 256 \<Longrightarrow>
    rd_optional_field True (cursor xs (word_of_nat (length fs) # fs @ ys)) =
    (Inr fs, cursor (xs @ word_of_nat (length fs) # fs) ys)"
  by (simp add: rd_optional_field_def rd_simps)

lemma rd_optional_field_True_exact [rd_simps]:
  "length fs < 256 \<Longrightarrow>
    rd_optional_field True (cursor xs (word_of_nat (length fs) # fs)) =
    (Inr fs, cursor (xs @ word_of_nat (length fs) # fs) [])"
  using rd_optional_field_True [of fs xs "[]"] by simp

lemma rd_optional_field_False [rd_simps]: "rd_optional_field False r = (Inr [], r)"
  by (simp add: rd_optional_field_def rd_simps)

interpretation sda_codec: tlv_codec IdServiceDescriptor service_descriptor_encode
  service_descriptor_body service_descriptor_decode "\<lambda>d. d" sda_valid
proof unfold_locales
  fix d out
  assume "sda_valid d"
  show "service_descriptor_encode d out = attribute_encode
      \<lparr>at_id = attribute_id_byte IdServiceDescriptor, at_body = service_descriptor_body d\<rparr> out"
    by (simp add: service_descriptor_encode_def attribute_encode_def)
next
  fix d
  assume "sda_valid d"
  then show "length (service_descriptor_body d) < 65536"
    by (auto simp: sda_valid_def service_descriptor_body_eq)
next
  fix d
  assume v: "sda_valid d"
  let ?c = "sd_control d"
  show "service_descriptor_decode (service_descriptor_body d) = Inr d"
    using v
    by (cases "sc_matching_filter_present ?c"; cases "sc_service_info_present ?c")
      (simp_all add: sda_valid_def service_descriptor_decode_def service_descriptor_read_def
        service_descriptor_body_eq rd_simps service_control_from_to_byte)
qed

section \<open>Service id lists\<close>

type_synonym service_id_list = "arr6 list"

definition service_id_list_encode_with ::
    "u8 \<Rightarrow> service_id_list \<Rightarrow> u8 list \<Rightarrow> u8 list" where
  "service_id_list_encode_with attr_id ids out =
     fold (\<lambda>id o'. put_bytes (arr6_bytes id) o') ids
      (put_le16 (word_of_nat (length ids * 6)) (put_u8 attr_id out))"

definition service_id_list_encode_publish :: "service_id_list \<Rightarrow> u8 list \<Rightarrow> u8 list" where
  "service_id_list_encode_publish =
     service_id_list_encode_with (attribute_id_byte IdServiceIdList)"

definition service_id_list_encode_subscribe :: "service_id_list \<Rightarrow> u8 list \<Rightarrow> u8 list" where
  "service_id_list_encode_subscribe =
     service_id_list_encode_with (attribute_id_byte IdSubscribeServiceIdList)"

lemma rd_take_remaining:
  "rd_take n r = (Inr s, r') \<Longrightarrow> rd_remaining r' = rd_remaining r - n \<and> n \<le> rd_remaining r"
  by (auto simp: rd_take_def rd_remaining_def split: if_splits)

text \<open>The \<open>while !r.is_empty()\<close> loop of the decoder.\<close>

function service_ids_read :: "arr6 list \<Rightarrow> arr6 list rd" where
  "service_ids_read ids r =
     (if rd_is_empty r then (Inr ids, r)
      else (case rd_take_array 6 arr6_of r of
              (Inl e, r') \<Rightarrow> (Inl e, r')
            | (Inr sid, r') \<Rightarrow> service_ids_read (ids @ [sid]) r'))"
  by pat_completeness auto
termination
  by (relation "measure (\<lambda>(_, r). rd_remaining r)")
    (auto simp: rd_take_array_def rd_bind_app rd_return_app rd_is_empty_def
      split: prod.splits sum.splits dest!: rd_take_remaining)

declare service_ids_read.simps [simp del]

definition service_id_list_decode :: "u8 list \<Rightarrow> wire_error + service_id_list" where
  "service_id_list_decode body =
     (if length body mod 6 \<noteq> 0 then Inl Invalid else rd_run (service_ids_read []) body)"

definition service_id_list_body :: "service_id_list \<Rightarrow> u8 list" where
  "service_id_list_body ids = concat (map arr6_bytes ids)"

lemma fold_put_ids:
  "fold (\<lambda>id o'. o' @ arr6_bytes id) ids out = out @ service_id_list_body ids"
  by (induction ids arbitrary: out) (simp_all add: service_id_list_body_def)

lemma length_service_id_list_body [simp]:
  "length (service_id_list_body ids) = length ids * 6"
  by (induction ids) (simp_all add: service_id_list_body_def)

lemma service_ids_read_body:
  "service_ids_read acc (cursor xs (service_id_list_body ids)) =
    (Inr (acc @ ids), cursor (xs @ service_id_list_body ids) [])"
proof (induction ids arbitrary: acc xs)
  case Nil
  then show ?case
    by (subst service_ids_read.simps) (simp add: service_id_list_body_def rd_simps)
next
  case (Cons i ids)
  have "\<not> rd_is_empty (cursor xs (service_id_list_body (i # ids)))"
    by (cases i) (simp add: rd_simps service_id_list_body_def)
  then show ?case
    using Cons by (subst service_ids_read.simps)
      (simp add: service_id_list_body_def rd_simps)
qed

lemma service_id_list_encode_with_eq:
  "service_id_list_encode_with i ids out =
    attribute_encode \<lparr>at_id = i, at_body = service_id_list_body ids\<rparr> out"
  by (simp add: service_id_list_encode_with_def fold_put_ids attribute_encode_eq put_simps)

lemma service_id_list_decode_body: "service_id_list_decode (service_id_list_body ids) = Inr ids"
  by (simp add: service_id_list_decode_def rd_simps service_ids_read_body)

interpretation pub_codec: tlv_codec IdServiceIdList service_id_list_encode_publish
  service_id_list_body service_id_list_decode "\<lambda>ids. ids" "\<lambda>ids. length ids < 10922"
  by unfold_locales
    (simp_all add: service_id_list_encode_publish_def service_id_list_encode_with_eq
      service_id_list_decode_body)

interpretation sub_codec: tlv_codec IdSubscribeServiceIdList service_id_list_encode_subscribe
  service_id_list_body service_id_list_decode "\<lambda>ids. ids" "\<lambda>ids. length ids < 10922"
  by unfold_locales
    (simp_all add: service_id_list_encode_subscribe_def service_id_list_encode_with_eq
      service_id_list_decode_body)

end
