(* ===== verification/Attr_Sched.thy ===== *)
theory Attr_Sched
  imports Attr_Types
begin

text \<open>
  The scheduling attributes of \<open>crates/faces/ndn-nan-core/src/attr.rs\<close>: Device Capability,
  the two verbatim availability attributes, the Service Descriptor Extension, and the
  committed-availability encoder with the header reader that checks its layout.
\<close>

section \<open>Device Capability\<close>

record device_capability =
  dc_map_id :: u8
  dc_committed_dw_info :: u16
  dc_supported_bands :: u8
  dc_operation_mode :: u8
  dc_num_antennas :: u8
  dc_max_channel_switch_time :: u16
  dc_capabilities :: u8

definition device_capability_basic :: device_capability where
  "device_capability_basic =
     \<lparr>dc_map_id = 0, dc_committed_dw_info = 0x0489, dc_supported_bands = 0x14,
      dc_operation_mode = 0x15, dc_num_antennas = 0x11, dc_max_channel_switch_time = 0,
      dc_capabilities = 0\<rparr>"

definition device_capability_encode :: "device_capability \<Rightarrow> u8 list \<Rightarrow> u8 list" where
  "device_capability_encode d out =
     put_u8 (dc_capabilities d)
      (put_le16 (dc_max_channel_switch_time d)
       (put_u8 (dc_num_antennas d)
        (put_u8 (dc_operation_mode d)
         (put_u8 (dc_supported_bands d)
          (put_le16 (dc_committed_dw_info d)
           (put_u8 (dc_map_id d)
            (put_le16 9
             (put_u8 (attribute_id_byte IdDeviceCapability) out))))))))"

definition device_capability_decode :: "u8 list \<Rightarrow> wire_error + device_capability" where
  "device_capability_decode body =
     rd_run
      (rd_bind rd_u8 (\<lambda>m.
       rd_bind rd_le16 (\<lambda>dw.
       rd_bind rd_u8 (\<lambda>bands.
       rd_bind rd_u8 (\<lambda>om.
       rd_bind rd_u8 (\<lambda>ant.
       rd_bind rd_le16 (\<lambda>sw.
       rd_bind rd_u8 (\<lambda>caps.
       rd_return
        \<lparr>dc_map_id = m, dc_committed_dw_info = dw, dc_supported_bands = bands,
         dc_operation_mode = om, dc_num_antennas = ant, dc_max_channel_switch_time = sw,
         dc_capabilities = caps\<rparr>)))))))) body"

definition device_capability_body :: "device_capability \<Rightarrow> u8 list" where
  "device_capability_body d =
     dc_map_id d # to_le 2 (dc_committed_dw_info d) @
     [dc_supported_bands d, dc_operation_mode d, dc_num_antennas d] @
     to_le 2 (dc_max_channel_switch_time d) @ [dc_capabilities d]"

interpretation dc_codec: tlv_codec IdDeviceCapability device_capability_encode
  device_capability_body device_capability_decode "\<lambda>d. d" "\<lambda>_. True"
  by unfold_locales
    (simp_all add: device_capability_encode_def device_capability_decode_def
      device_capability_body_def attribute_encode_eq put_simps rd_simps)

section \<open>Availability, verbatim\<close>

definition avail_a :: "u8 list" where
  "avail_a =
     [0x8c, 0x02, 0x00, 0x0e, 0x00, 0x0a, 0x10, 0x18, 0x00, 0x04, 0xfc, 0xff, 0xff, 0x3f, 0x11,
      0x51, 0xff, 0x07, 0x00, 0x0e, 0x00, 0x0a, 0x10, 0x18, 0x00, 0x04, 0xfe, 0xff, 0xff, 0xff,
      0x11, 0x51, 0x20, 0x00, 0x00]"

definition avail_b :: "u8 list" where
  "avail_b =
     [0x8c, 0x01, 0x00, 0x0e, 0x00, 0x1a, 0x10, 0x18, 0x00, 0x04, 0xff, 0x00, 0xff, 0x00, 0x11,
      0x80, 0x01, 0x00, 0x02, 0x0e, 0x00, 0x0a, 0x10, 0x18, 0x00, 0x04, 0x00, 0xf0, 0x00, 0xff,
      0x11, 0x80, 0x20, 0x00, 0x01, 0x12, 0x00, 0x0a, 0x10, 0x18, 0x00, 0x04, 0x00, 0x0f, 0x00,
      0x00, 0x21, 0x80, 0x20, 0x00, 0x0f, 0x80, 0x01, 0x00, 0x0f]"

definition encode_availability :: "u8 list \<Rightarrow> u8 list" where
  "encode_availability out =
     fold (\<lambda>body o'. put_bytes body
        (put_le16 (word_of_nat (length body)) (put_u8 (attribute_id_byte IdNanAvailability) o')))
       [avail_a, avail_b] out"

lemma length_avail [simp]: "length avail_a = 35" "length avail_b = 55"
  by (simp_all add: avail_a_def avail_b_def)

lemma encode_availability_seq:
  "encode_availability (tlv_seq as) =
    tlv_seq (as @ [\<lparr>at_id = 0x12, at_body = avail_a\<rparr>, \<lparr>at_id = 0x12, at_body = avail_b\<rparr>])"
  by (simp add: encode_availability_def tlv_seq_append tlv_seq_Cons attribute_encode_eq put_simps)

section \<open>Service Descriptor Extension\<close>

record sdea =
  se_instance_id :: u8
  se_control :: u16

definition sdea_plain :: "u8 \<Rightarrow> sdea" where
  "sdea_plain inst = \<lparr>se_instance_id = inst, se_control = 0\<rparr>"

definition sdea_encode :: "sdea \<Rightarrow> u8 list \<Rightarrow> u8 list" where
  "sdea_encode s out =
     put_le16 (se_control s)
      (put_u8 (se_instance_id s)
       (put_le16 3
        (put_u8 (attribute_id_byte IdServiceDescriptorExtension) out)))"

definition sdea_decode :: "u8 list \<Rightarrow> wire_error + sdea" where
  "sdea_decode body =
     rd_run
      (rd_bind rd_u8 (\<lambda>i.
       rd_bind rd_le16 (\<lambda>c.
       rd_return \<lparr>se_instance_id = i, se_control = c\<rparr>))) body"

definition sdea_body :: "sdea \<Rightarrow> u8 list" where
  "sdea_body s = se_instance_id s # to_le 2 (se_control s)"

interpretation sdea_codec: tlv_codec IdServiceDescriptorExtension sdea_encode
  sdea_body sdea_decode "\<lambda>s. s" "\<lambda>_. True"
  by unfold_locales
    (simp_all add: sdea_encode_def sdea_decode_def sdea_body_def attribute_encode_eq
      put_simps rd_simps)

section \<open>Committed availability\<close>

record committed_availability =
  ca_sequence_id :: u8
  ca_map_id :: u8
  ca_operating_class :: u8
  ca_channel :: u8

definition ch_2ghz :: "u8 \<Rightarrow> u8 \<Rightarrow> committed_availability" where
  "ch_2ghz m ch =
     \<lparr>ca_sequence_id = 0, ca_map_id = m, ca_operating_class = 81, ca_channel = ch\<rparr>"

text \<open>\<open>saturating_sub(1)\<close>, then \<open>1u16 << (bit % 16)\<close>.\<close>

definition ca_channel_mask :: "u8 \<Rightarrow> u16" where
  "ca_channel_mask ch =
     (let bit' = (if ch = 0 then 0 else ch - 1) in push_bit (unat (bit' mod 16)) 1)"

definition ca_entry :: "committed_availability \<Rightarrow> u8 list" where
  "ca_entry c =
     (let entry = put_le16 0x1001 [];
          entry = put_le16 0x0018 entry;
          entry = put_u8 4 entry;
          entry = put_bytes [0xff, 0xff, 0xff, 0xff] entry;
          entry = put_u8 (0x01 OR push_bit 4 1) entry;
          entry = put_u8 (ca_operating_class c) entry;
          entry = put_le16 (ca_channel_mask (ca_channel c)) entry;
          entry = put_u8 0x00 entry
      in entry)"

definition ca_body :: "committed_availability \<Rightarrow> u8 list" where
  "ca_body c =
     (let body = put_u8 (ca_sequence_id c) [];
          body = put_le16 ((ucast (ca_map_id c) AND 0x0f) OR 0x0010) body;
          body = put_le16 (word_of_nat (length (ca_entry c))) body;
          body = put_bytes (ca_entry c) body
      in body)"

definition committed_availability_encode ::
    "committed_availability \<Rightarrow> u8 list \<Rightarrow> u8 list" where
  "committed_availability_encode c out =
     put_bytes (ca_body c)
      (put_le16 (word_of_nat (length (ca_body c)))
       (put_u8 (attribute_id_byte IdNanAvailability) out))"

record availability_header =
  ah_sequence_id :: u8
  ah_attribute_control :: u16
  ah_map_id :: u8
  ah_entry_length :: u16
  ah_entry_control :: u16
  ah_time_bitmap_control :: u16
  ah_time_bitmap :: "u8 list"
  ah_band_channel_control :: u8
  ah_operating_class :: u8
  ah_channel_bitmap :: u16

definition availability_header_decode :: "u8 list \<Rightarrow> wire_error + availability_header" where
  "availability_header_decode body =
     rd_run
      (rd_bind rd_u8 (\<lambda>sid.
       rd_bind rd_le16 (\<lambda>ac.
       rd_bind rd_le16 (\<lambda>el.
       rd_bind rd_le16 (\<lambda>ec.
       rd_bind rd_le16 (\<lambda>tbc.
       rd_bind rd_u8 (\<lambda>tb_len.
       rd_bind (rd_take (unat tb_len)) (\<lambda>tb.
       rd_bind rd_u8 (\<lambda>bcc.
       rd_bind rd_u8 (\<lambda>oc.
       rd_bind rd_le16 (\<lambda>cb.
       rd_return
        \<lparr>ah_sequence_id = sid, ah_attribute_control = ac,
         ah_map_id = ucast (ac AND 0x0f), ah_entry_length = el, ah_entry_control = ec,
         ah_time_bitmap_control = tbc, ah_time_bitmap = tb,
         ah_band_channel_control = bcc, ah_operating_class = oc,
         ah_channel_bitmap = cb\<rparr>))))))))))) body"

definition time_bitmap_present :: "availability_header \<Rightarrow> bool" where
  "time_bitmap_present h \<longleftrightarrow> ah_entry_control h AND push_bit 12 1 \<noteq> 0"

lemma ca_entry_eq:
  "ca_entry c = to_le 2 (0x1001 :: u16) @ to_le 2 (0x0018 :: u16) @
     4 # [0xff, 0xff, 0xff, 0xff] @ 0x11 # ca_operating_class c #
     to_le 2 (ca_channel_mask (ca_channel c)) @ [0]"
  by (simp add: ca_entry_def put_simps)

lemma length_ca_entry [simp]: "length (ca_entry c) = 14"
  by (simp add: ca_entry_eq)

lemma ca_body_eq:
  "ca_body c = ca_sequence_id c # to_le 2 ((ucast (ca_map_id c) AND 0x0f) OR 0x0010 :: u16) @
     to_le 2 (14 :: u16) @ ca_entry c"
  by (simp add: ca_body_def put_simps)

lemma length_ca_body [simp]: "length (ca_body c) = 19"
  by (simp add: ca_body_eq)

text \<open>What the header reader recovers from the encoder's body.\<close>

definition ca_header :: "committed_availability \<Rightarrow> availability_header" where
  "ca_header c =
     \<lparr>ah_sequence_id = ca_sequence_id c,
      ah_attribute_control = (ucast (ca_map_id c) AND 0x0f) OR 0x0010,
      ah_map_id = ca_map_id c AND 0x0f,
      ah_entry_length = 14, ah_entry_control = 0x1001, ah_time_bitmap_control = 0x0018,
      ah_time_bitmap = [0xff, 0xff, 0xff, 0xff], ah_band_channel_control = 0x11,
      ah_operating_class = ca_operating_class c,
      ah_channel_bitmap = ca_channel_mask (ca_channel c)\<rparr>"

lemma low_nibble_u16: "ucast (((ucast m :: u16) AND 0x0f OR 0x0010) AND 0x0f) = (m :: u8) AND 0x0f"
  by (rule bit_word_eqI) (auto simp: bit_simps numeral_eq_Suc less_Suc_eq)

lemma rd_u8_len_take [rd_simps]:
  "length zs = unat n \<Longrightarrow> rd_take (unat n) (cursor xs (zs @ ys)) = (Inr zs, cursor (xs @ zs) ys)"
  by (simp add: rd_take_append)

lemma availability_header_decode_body: "availability_header_decode (ca_body c) = Inr (ca_header c)"
proof -
  have tb: "rd_take 4 (cursor xs (255 # 255 # 255 # 255 # ys)) =
      (Inr [255, 255, 255, 255], cursor (xs @ [255, 255, 255, 255]) ys)" for xs ys
    using rd_take_append [of "[255, 255, 255, 255]" 4 xs ys] by simp
  show ?thesis
    by (simp del: to_le.simps append_assoc
        add: availability_header_decode_def ca_body_eq ca_entry_eq rd_simps tb ca_header_def
          low_nibble_u16)
qed

interpretation ca_codec: tlv_codec IdNanAvailability committed_availability_encode
  ca_body availability_header_decode ca_header "\<lambda>_. True"
  by unfold_locales
    (simp_all add: committed_availability_encode_def attribute_encode_def
      availability_header_decode_body)

end
