(* ===== verification/Ndpe.thy ===== *)
theory Ndpe
  imports Attr
begin

text \<open>
  The NAN Data Path Extension attribute (NDPE, \<open>0x29\<close>) of
  \<open>crates/faces/ndn-nan-core/src/attr.rs\<close>: message type and status, the TLV payload list,
  the constructors of the M1-M4 exchange, encoder and decoder.
\<close>

section \<open>Type, status and payload\<close>

datatype ndp_type = NdpRequest | NdpResponse | NdpConfirm | NdpSecurityInstall | NdpTerminate

fun ndp_type_byte :: "ndp_type \<Rightarrow> u8" where
  "ndp_type_byte NdpRequest = 0"
| "ndp_type_byte NdpResponse = 1"
| "ndp_type_byte NdpConfirm = 2"
| "ndp_type_byte NdpSecurityInstall = 3"
| "ndp_type_byte NdpTerminate = 4"

definition ndp_type_from_bits :: "u8 \<Rightarrow> ndp_type option" where
  "ndp_type_from_bits b =
     (let t = b AND 0x0f
      in if t = 0 then Some NdpRequest
         else if t = 1 then Some NdpResponse
         else if t = 2 then Some NdpConfirm
         else if t = 3 then Some NdpSecurityInstall
         else if t = 4 then Some NdpTerminate
         else None)"

datatype ndp_status = NdpContinue | NdpAccepted | NdpRejected

fun ndp_status_byte :: "ndp_status \<Rightarrow> u8" where
  "ndp_status_byte NdpContinue = 0"
| "ndp_status_byte NdpAccepted = 1"
| "ndp_status_byte NdpRejected = 2"

definition ndp_status_from_bits :: "u8 \<Rightarrow> ndp_status option" where
  "ndp_status_from_bits b =
     (let s = drop_bit 4 b AND 0x0f
      in if s = 0 then Some NdpContinue
         else if s = 1 then Some NdpAccepted
         else if s = 2 then Some NdpRejected
         else None)"

definition CONFIRM_REQUIRED :: u8 where "CONFIRM_REQUIRED = 0x01"
definition SECURITY_PRESENT :: u8 where "SECURITY_PRESENT = 0x04"
definition PUBLISH_ID_PRESENT :: u8 where "PUBLISH_ID_PRESENT = 0x08"
definition RESPONDER_NDI_PRESENT :: u8 where "RESPONDER_NDI_PRESENT = 0x10"
definition GTK_REQUIRED :: u8 where "GTK_REQUIRED = 0x20"

datatype ndpe_tlv =
    Ipv6LinkLocal arr8
  | TlvServiceInfo arr3 "u8 list"
  | TlvUnknown u8 "u8 list"

fun ndpe_tlv_type :: "ndpe_tlv \<Rightarrow> u8" where
  "ndpe_tlv_type (Ipv6LinkLocal _) = 0"
| "ndpe_tlv_type (TlvServiceInfo _ _) = 1"
| "ndpe_tlv_type (TlvUnknown t _) = t"

fun ndpe_tlv_encode :: "ndpe_tlv \<Rightarrow> u8 list \<Rightarrow> u8 list" where
  "ndpe_tlv_encode (Ipv6LinkLocal iid) out =
     put_bytes (arr8_bytes iid)
      (put_le16 8 (put_u8 (ndpe_tlv_type (Ipv6LinkLocal iid)) out))"
| "ndpe_tlv_encode (TlvServiceInfo oui body) out =
     put_bytes body
      (put_bytes (arr3_bytes oui)
       (put_le16 (word_of_nat (3 + length body))
        (put_u8 (ndpe_tlv_type (TlvServiceInfo oui body)) out)))"
| "ndpe_tlv_encode (TlvUnknown t body) out =
     put_bytes body
      (put_le16 (word_of_nat (length body))
       (put_u8 (ndpe_tlv_type (TlvUnknown t body)) out))"

definition ndpe_tlv_of :: "u8 \<Rightarrow> u8 list \<Rightarrow> wire_error + ndpe_tlv" where
  "ndpe_tlv_of t body =
     (if t = 0 then
        (if length body \<noteq> 8 then Inl Invalid else Inr (Ipv6LinkLocal (arr8_of body)))
      else if t = 1 then
        (if length body < 3 then Inl Invalid
         else Inr (TlvServiceInfo (arr3_of (take 3 body)) (drop 3 body)))
      else Inr (TlvUnknown t body))"

definition ndpe_tlv_decode :: "ndpe_tlv rd" where
  "ndpe_tlv_decode =
     rd_bind rd_u8 (\<lambda>t.
     rd_bind rd_le16 (\<lambda>len.
     rd_bind (rd_take (unat len)) (\<lambda>body.
     rd_lift (ndpe_tlv_of t body))))"

section \<open>The attribute\<close>

record ndpe =
  np_dialog_token :: u8
  np_type :: ndp_type
  np_status :: ndp_status
  np_reason_code :: u8
  np_initiator_ndi :: arr6
  np_ndp_id :: u8
  np_control :: u8
  np_publish_id :: "u8 option"
  np_responder_ndi :: "arr6 option"
  np_tlvs :: "ndpe_tlv list"

definition ndpe_request :: "u8 \<Rightarrow> u8 \<Rightarrow> arr6 \<Rightarrow> arr8 \<Rightarrow> ndpe" where
  "ndpe_request dialog_token ndp_id initiator_ndi iid =
     \<lparr>np_dialog_token = dialog_token, np_type = NdpRequest, np_status = NdpContinue,
      np_reason_code = 0, np_initiator_ndi = initiator_ndi, np_ndp_id = ndp_id,
      np_control = CONFIRM_REQUIRED, np_publish_id = None, np_responder_ndi = None,
      np_tlvs = [Ipv6LinkLocal iid]\<rparr>"

definition ndpe_accept :: "u8 \<Rightarrow> u8 \<Rightarrow> arr6 \<Rightarrow> arr6 \<Rightarrow> arr8 \<Rightarrow> ndpe" where
  "ndpe_accept dialog_token ndp_id initiator_ndi responder_ndi iid =
     \<lparr>np_dialog_token = dialog_token, np_type = NdpResponse, np_status = NdpAccepted,
      np_reason_code = 0, np_initiator_ndi = initiator_ndi, np_ndp_id = ndp_id,
      np_control = RESPONDER_NDI_PRESENT, np_publish_id = None,
      np_responder_ndi = Some responder_ndi, np_tlvs = [Ipv6LinkLocal iid]\<rparr>"

definition ndpe_confirm :: "u8 \<Rightarrow> u8 \<Rightarrow> arr6 \<Rightarrow> ndpe" where
  "ndpe_confirm dialog_token ndp_id initiator_ndi =
     \<lparr>np_dialog_token = dialog_token, np_type = NdpConfirm, np_status = NdpAccepted,
      np_reason_code = 0, np_initiator_ndi = initiator_ndi, np_ndp_id = ndp_id,
      np_control = 0, np_publish_id = None, np_responder_ndi = None, np_tlvs = []\<rparr>"

fun ndpe_tlvs_iid :: "ndpe_tlv list \<Rightarrow> arr8 option" where
  "ndpe_tlvs_iid [] = None"
| "ndpe_tlvs_iid (Ipv6LinkLocal iid # ts) = Some iid"
| "ndpe_tlvs_iid (_ # ts) = ndpe_tlvs_iid ts"

definition ndpe_ipv6_iid :: "ndpe \<Rightarrow> arr8 option" where
  "ndpe_ipv6_iid n = ndpe_tlvs_iid (np_tlvs n)"

text \<open>The control byte the encoder appends: the presence bits follow the two options.\<close>

definition ndpe_control_byte :: "ndpe \<Rightarrow> u8" where
  "ndpe_control_byte n =
     (let control = np_control n;
          control = (if np_publish_id n \<noteq> None then control OR PUBLISH_ID_PRESENT
                     else control AND NOT PUBLISH_ID_PRESENT);
          control = (if np_responder_ndi n \<noteq> None then control OR RESPONDER_NDI_PRESENT
                     else control AND NOT RESPONDER_NDI_PRESENT)
      in control)"

definition ndpe_carries_responder :: "ndp_type \<Rightarrow> ndp_status \<Rightarrow> bool" where
  "ndpe_carries_responder t s \<longleftrightarrow> t = NdpResponse \<and> (s = NdpContinue \<or> s = NdpAccepted)"

text \<open>The packed byte: message type in the low nibble, status in the high nibble.\<close>

definition ndpe_type_status :: "ndp_type \<Rightarrow> ndp_status \<Rightarrow> u8" where
  "ndpe_type_status t s =
     (ndp_type_byte t AND 0x0f) OR push_bit 4 (ndp_status_byte s AND 0x0f)"

definition ndpe_body :: "ndpe \<Rightarrow> u8 list" where
  "ndpe_body n =
     (let body = put_u8 (np_dialog_token n) [];
          body = put_u8 (ndpe_type_status (np_type n) (np_status n)) body;
          body = put_u8 (np_reason_code n) body;
          body = put_bytes (arr6_bytes (np_initiator_ndi n)) body;
          body = put_u8 (np_ndp_id n) body;
          body = put_u8 (ndpe_control_byte n) body;
          body = (case np_publish_id n of
                    Some pid \<Rightarrow> if np_type n = NdpRequest then put_u8 pid body else body
                  | None \<Rightarrow> body);
          body = (case np_responder_ndi n of
                    Some ndi \<Rightarrow> if ndpe_carries_responder (np_type n) (np_status n)
                                then put_bytes (arr6_bytes ndi) body else body
                  | None \<Rightarrow> body);
          body = fold ndpe_tlv_encode (np_tlvs n) body
      in body)"

definition ndpe_encode :: "ndpe \<Rightarrow> u8 list \<Rightarrow> u8 list" where
  "ndpe_encode n out =
     put_bytes (ndpe_body n)
      (put_le16 (word_of_nat (length (ndpe_body n)))
       (put_u8 (attribute_id_byte IdNdpExtension) out))"

lemma ndpe_tlv_decode_progress:
  assumes "ndpe_tlv_decode r = (Inr t, r')"
  shows "rd_remaining r' < rd_remaining r"
  using assms
  by (auto simp: ndpe_tlv_decode_def rd_bind_app rd_lift_app rd_return_app rd_u8_def rd_le16_def
      rd_take_def rd_remaining_def split: prod.splits sum.splits if_splits)

text \<open>The \<open>while !r.is_empty()\<close> loop of the decoder.\<close>

function ndpe_tlvs_read :: "ndpe_tlv list \<Rightarrow> ndpe_tlv list rd" where
  "ndpe_tlvs_read ts r =
     (if rd_is_empty r then (Inr ts, r)
      else (case ndpe_tlv_decode r of
              (Inl e, r') \<Rightarrow> (Inl e, r')
            | (Inr t, r') \<Rightarrow> ndpe_tlvs_read (ts @ [t]) r'))"
  by pat_completeness auto
termination
  by (relation "measure (\<lambda>(_, r). rd_remaining r)")
    (auto dest: ndpe_tlv_decode_progress [OF sym])

declare ndpe_tlvs_read.simps [simp del]

definition rd_when :: "bool \<Rightarrow> 'a rd \<Rightarrow> 'a option rd" where
  "rd_when c m = (if c then rd_bind m (\<lambda>a. rd_return (Some a)) else rd_return None)"

definition ndpe_read :: "ndpe rd" where
  "ndpe_read =
     rd_bind rd_u8 (\<lambda>dialog.
     rd_bind rd_u8 (\<lambda>ts.
     rd_bind (rd_lift (ok_or Invalid (ndp_type_from_bits ts))) (\<lambda>ty.
     rd_bind (rd_lift (ok_or Invalid (ndp_status_from_bits ts))) (\<lambda>st.
     rd_bind rd_u8 (\<lambda>reason.
     rd_bind (rd_take_array 6 arr6_of) (\<lambda>init.
     rd_bind rd_u8 (\<lambda>ndp_id.
     rd_bind rd_u8 (\<lambda>control.
     rd_bind (rd_when (control AND PUBLISH_ID_PRESENT \<noteq> 0 \<and> ty = NdpRequest) rd_u8) (\<lambda>pid.
     rd_bind (rd_when (ndpe_carries_responder ty st) (rd_take_array 6 arr6_of)) (\<lambda>rndi.
     rd_bind (ndpe_tlvs_read []) (\<lambda>tlvs.
     rd_return
      \<lparr>np_dialog_token = dialog, np_type = ty, np_status = st, np_reason_code = reason,
       np_initiator_ndi = init, np_ndp_id = ndp_id, np_control = control,
       np_publish_id = pid, np_responder_ndi = rndi, np_tlvs = tlvs\<rparr>)))))))))))"

definition ndpe_decode :: "u8 list \<Rightarrow> wire_error + ndpe" where
  "ndpe_decode body = rd_run ndpe_read body"

section \<open>Round trip\<close>

fun ndpe_tlv_valid :: "ndpe_tlv \<Rightarrow> bool" where
  "ndpe_tlv_valid (Ipv6LinkLocal _) = True"
| "ndpe_tlv_valid (TlvServiceInfo _ body) = (3 + length body < 65536)"
| "ndpe_tlv_valid (TlvUnknown t body) = (t \<noteq> 0 \<and> t \<noteq> 1 \<and> length body < 65536)"

definition ndpe_valid :: "ndpe \<Rightarrow> bool" where
  "ndpe_valid n \<longleftrightarrow>
     list_all ndpe_tlv_valid (np_tlvs n) \<and> length (ndpe_body n) < 65536 \<and>
     (ndpe_carries_responder (np_type n) (np_status n) \<longrightarrow> np_responder_ndi n \<noteq> None)"

text \<open>
  What the wire keeps: the presence bits of the control byte are recomputed, and the two
  optional fields survive only in the messages that carry them.
\<close>

definition ndpe_on_wire :: "ndpe \<Rightarrow> ndpe" where
  "ndpe_on_wire n = n\<lparr>
     np_control := ndpe_control_byte n,
     np_publish_id := (if np_type n = NdpRequest then np_publish_id n else None),
     np_responder_ndi :=
       (if ndpe_carries_responder (np_type n) (np_status n) then np_responder_ndi n else None)\<rparr>"

lemma ndp_type_status_bits:
  "ndp_type_from_bits (ndpe_type_status t s) = Some t"
  "ndp_status_from_bits (ndpe_type_status t s) = Some s"
  by (cases t; cases s;
      simp add: ndpe_type_status_def ndp_type_from_bits_def ndp_status_from_bits_def)+

lemma ndpe_tlv_encode_append: "ndpe_tlv_encode t out = out @ ndpe_tlv_encode t []"
  by (cases t) (simp_all add: put_simps)

lemma fold_ndpe_tlv_encode:
  "fold ndpe_tlv_encode ts out = out @ concat (map (\<lambda>t. ndpe_tlv_encode t []) ts)"
proof (induction ts arbitrary: out)
  case Nil
  then show ?case by simp
next
  case (Cons t ts)
  show ?case
    using Cons [of "ndpe_tlv_encode t out"] ndpe_tlv_encode_append [of t out] by simp
qed

lemma ndpe_tlv_decode_encode:
  assumes "ndpe_tlv_valid t"
  shows "ndpe_tlv_decode (cursor xs (ndpe_tlv_encode t [] @ ys)) =
    (Inr t, cursor (xs @ ndpe_tlv_encode t []) ys)"
proof (cases t)
  case (Ipv6LinkLocal iid)
  then show ?thesis
    by (simp add: put_simps ndpe_tlv_decode_def ndpe_tlv_of_def rd_simps)
next
  case (TlvServiceInfo oui body)
  then have len: "unat (word_of_nat (3 + length body) :: u16) = length (arr3_bytes oui @ body)"
    using assms by (simp del: of_nat_add)
  have "rd_take (unat (word_of_nat (3 + length body) :: u16))
      (cursor zs (arr3_bytes oui @ body @ ys)) =
      (Inr (arr3_bytes oui @ body), cursor (zs @ arr3_bytes oui @ body) ys)" for zs
    using rd_take_append [OF len [symmetric], of zs ys] by simp
  then show ?thesis
    using TlvServiceInfo
    by (simp del: of_nat_add add: put_simps ndpe_tlv_decode_def ndpe_tlv_of_def rd_simps)
next
  case (TlvUnknown u body)
  then show ?thesis
    using assms by (simp add: put_simps ndpe_tlv_decode_def ndpe_tlv_of_def rd_simps)
qed

lemma ndpe_tlvs_read_encoded:
  "list_all ndpe_tlv_valid ts \<Longrightarrow>
    ndpe_tlvs_read acc (cursor xs (concat (map (\<lambda>t. ndpe_tlv_encode t []) ts))) =
    (Inr (acc @ ts), cursor (xs @ concat (map (\<lambda>t. ndpe_tlv_encode t []) ts)) [])"
proof (induction ts arbitrary: acc xs)
  case Nil
  then show ?case by (subst ndpe_tlvs_read.simps) (simp add: rd_simps)
next
  case (Cons t ts)
  have "ndpe_tlv_encode t [] \<noteq> []"
    by (cases t) (simp_all add: put_simps)
  then show ?case
    using Cons by (subst ndpe_tlvs_read.simps)
      (simp add: rd_simps ndpe_tlv_decode_encode)
qed

lemma ndpe_body_eq:
  "ndpe_body n =
     np_dialog_token n #
     ndpe_type_status (np_type n) (np_status n) #
     np_reason_code n # arr6_bytes (np_initiator_ndi n) @ np_ndp_id n # ndpe_control_byte n #
     (if np_type n = NdpRequest then (case np_publish_id n of Some p \<Rightarrow> [p] | None \<Rightarrow> []) else []) @
     (if ndpe_carries_responder (np_type n) (np_status n)
      then (case np_responder_ndi n of Some a \<Rightarrow> arr6_bytes a | None \<Rightarrow> []) else []) @
     concat (map (\<lambda>t. ndpe_tlv_encode t []) (np_tlvs n))"
  by (simp add: ndpe_body_def put_simps fold_ndpe_tlv_encode split: option.split)

lemma ndpe_control_byte_publish:
  "ndpe_control_byte n AND PUBLISH_ID_PRESENT \<noteq> 0 \<longleftrightarrow> np_publish_id n \<noteq> None"
proof -
  have "ndpe_control_byte n AND PUBLISH_ID_PRESENT =
      (if np_publish_id n \<noteq> None then 8 else 0)"
    unfolding ndpe_control_byte_def PUBLISH_ID_PRESENT_def RESPONDER_NDI_PRESENT_def Let_def
    by (rule bit_word_eqI) (auto simp: bit_simps numeral_eq_Suc less_Suc_eq)
  then show ?thesis by simp
qed

lemma rd_when_True [rd_simps]: "rd_when True m = rd_bind m (\<lambda>a. rd_return (Some a))"
  by (simp add: rd_when_def)

lemma rd_when_False [rd_simps]: "rd_when False m = rd_return None"
  by (simp add: rd_when_def)

lemma ndpe_decode_body:
  assumes "ndpe_valid n"
  shows "ndpe_decode (ndpe_body n) = Inr (ndpe_on_wire n)"
proof -
  let ?ts = "concat (map (\<lambda>t. ndpe_tlv_encode t []) (np_tlvs n))"
  have tlvs: "ndpe_tlvs_read [] (cursor xs ?ts) = (Inr (np_tlvs n), cursor (xs @ ?ts) [])" for xs
    using assms ndpe_tlvs_read_encoded [of "np_tlvs n" "[]" xs] by (simp add: ndpe_valid_def)
  have pub: "ndpe_control_byte n AND PUBLISH_ID_PRESENT = 0 \<longleftrightarrow> np_publish_id n = None"
    using ndpe_control_byte_publish [of n] by blast
  have resp: "ndpe_carries_responder (np_type n) (np_status n) \<Longrightarrow>
      \<exists>a. np_responder_ndi n = Some a"
    using assms by (auto simp: ndpe_valid_def)
  show ?thesis
  proof (cases "ndpe_carries_responder (np_type n) (np_status n)")
    case True
    then obtain a where a: "np_responder_ndi n = Some a" and ty: "np_type n \<noteq> NdpRequest"
      using resp by (auto simp: ndpe_carries_responder_def)
    then show ?thesis
      using True
      by (simp add: ndpe_decode_def ndpe_read_def ndpe_body_eq rd_simps ndp_type_status_bits
          tlvs ndpe_on_wire_def)
  next
    case False
    then show ?thesis
      by (cases "np_type n = NdpRequest"; cases "np_publish_id n")
        (simp_all add: ndpe_decode_def ndpe_read_def ndpe_body_eq rd_simps ndp_type_status_bits
          tlvs ndpe_on_wire_def pub)
  qed
qed

interpretation ndpe_codec: tlv_codec IdNdpExtension ndpe_encode ndpe_body ndpe_decode
  ndpe_on_wire ndpe_valid
  by unfold_locales
    (simp_all add: ndpe_encode_def attribute_encode_def ndpe_decode_body ndpe_valid_def)

lemma ndpe_valid_constructors:
  "ndpe_valid (ndpe_request d i ndi iid)" "ndpe_valid (ndpe_accept d i ndi rndi iid)"
  "ndpe_valid (ndpe_confirm d i ndi)"
  by (simp_all add: ndpe_valid_def ndpe_request_def ndpe_accept_def ndpe_confirm_def
      ndpe_body_eq put_simps ndpe_carries_responder_def)

end
