(* ===== verification/Frame.thy ===== *)
theory Frame
  imports Attr
begin

text \<open>
  \<open>crates/faces/ndn-nan-core/src/frame.rs\<close> with the constants of \<open>lib.rs\<close>: the 802.11
  management header and the three NAN carriers (beacon, Service Discovery Frame, NAN
  Action Frame), their encoders and parsers, and \<open>classify\<close>.
\<close>

section \<open>Constants\<close>

named_theorems nan_consts

definition NAN_OUI :: "u8 list" where [nan_consts]: "NAN_OUI = [0x50, 0x6F, 0x9A]"
definition NAN_OUI_TYPE :: u8 where [nan_consts]: "NAN_OUI_TYPE = 0x13"
definition NAN_OUI_TYPE_ACTION :: u8 where [nan_consts]: "NAN_OUI_TYPE_ACTION = 0x18"
definition NAN_CLUSTER_ID_BASE :: arr6 where
  [nan_consts]: "NAN_CLUSTER_ID_BASE = Arr6 0x50 0x6F 0x9A 0x01 0x00 0x00"
definition NAN_NETWORK_ID :: arr6 where
  [nan_consts]: "NAN_NETWORK_ID = Arr6 0x51 0x6F 0x9A 0x01 0x00 0x00"
definition BROADCAST :: arr6 where
  [nan_consts]: "BROADCAST = Arr6 0xFF 0xFF 0xFF 0xFF 0xFF 0xFF"

definition FC_BEACON :: u16 where [nan_consts]: "FC_BEACON = 0x0080"
definition FC_ACTION :: u16 where [nan_consts]: "FC_ACTION = 0x00D0"
definition ACTION_CATEGORY_PUBLIC :: u8 where [nan_consts]: "ACTION_CATEGORY_PUBLIC = 0x04"
definition ACTION_PUBLIC_VENDOR_SPECIFIC :: u8 where
  [nan_consts]: "ACTION_PUBLIC_VENDOR_SPECIFIC = 0x09"
definition ELEMENT_ID_VENDOR_SPECIFIC :: u8 where
  [nan_consts]: "ELEMENT_ID_VENDOR_SPECIFIC = 0xDD"
definition DEFAULT_BEACON_CAPABILITY :: u16 where
  [nan_consts]: "DEFAULT_BEACON_CAPABILITY = 0x0420"

section \<open>The management header\<close>

record dot11_header =
  h_frame_control :: u16
  h_duration_id :: u16
  h_addr1 :: arr6
  h_addr2 :: arr6
  h_addr3 :: arr6
  h_seq_ctrl :: u16

definition dot11_header_new :: "u16 \<Rightarrow> arr6 \<Rightarrow> arr6 \<Rightarrow> arr6 \<Rightarrow> u16 \<Rightarrow> dot11_header" where
  "dot11_header_new frame_control addr1 addr2 addr3 sequence =
     \<lparr>h_frame_control = frame_control, h_duration_id = 0, h_addr1 = addr1, h_addr2 = addr2,
      h_addr3 = addr3, h_seq_ctrl = push_bit 4 sequence\<rparr>"

definition dot11_header_encode :: "dot11_header \<Rightarrow> u8 list \<Rightarrow> u8 list" where
  "dot11_header_encode h out =
     put_le16 (h_seq_ctrl h)
      (put_bytes (arr6_bytes (h_addr3 h))
       (put_bytes (arr6_bytes (h_addr2 h))
        (put_bytes (arr6_bytes (h_addr1 h))
         (put_le16 (h_duration_id h)
          (put_le16 (h_frame_control h) out)))))"

definition dot11_header_read :: "dot11_header rd" where
  "dot11_header_read =
     rd_bind rd_le16 (\<lambda>fc.
     rd_bind rd_le16 (\<lambda>dur.
     rd_bind (rd_take_array 6 arr6_of) (\<lambda>a1.
     rd_bind (rd_take_array 6 arr6_of) (\<lambda>a2.
     rd_bind (rd_take_array 6 arr6_of) (\<lambda>a3.
     rd_bind rd_le16 (\<lambda>sc.
     rd_return
      \<lparr>h_frame_control = fc, h_duration_id = dur, h_addr1 = a1, h_addr2 = a2, h_addr3 = a3,
       h_seq_ctrl = sc\<rparr>))))))"

definition dot11_header_decode :: "u8 list \<Rightarrow> wire_error + (dot11_header \<times> reader)" where
  "dot11_header_decode buf =
     (case dot11_header_read (reader_new buf) of
        (Inl e, _) \<Rightarrow> Inl e
      | (Inr h, r) \<Rightarrow> Inr (h, r))"

definition dot11_header_seq :: "dot11_header \<Rightarrow> u16" where
  "dot11_header_seq h = drop_bit 4 (h_seq_ctrl h)"

datatype frame_type = FtBeacon | FtAction | FtNaf u8 | FtOther

record dot11_frame =
  df_header :: dot11_header
  df_kind :: frame_type
  df_attributes :: "u8 list"

definition dot11_frame_find :: "dot11_frame \<Rightarrow> attribute_id \<Rightarrow> attribute option" where
  "dot11_frame_find f which = attributes_find (df_attributes f) which"

section \<open>Beacons\<close>

record nan_beacon =
  bc_header :: dot11_header
  bc_timestamp :: u64
  bc_beacon_interval :: u16
  bc_capability :: u16

definition nan_beacon_new :: "arr6 \<Rightarrow> arr6 \<Rightarrow> arr6 \<Rightarrow> u16 \<Rightarrow> u64 \<Rightarrow> u16 \<Rightarrow> nan_beacon" where
  "nan_beacon_new dst src cluster_id sequence timestamp beacon_interval =
     \<lparr>bc_header = dot11_header_new FC_BEACON dst src cluster_id sequence,
      bc_timestamp = timestamp, bc_beacon_interval = beacon_interval,
      bc_capability = DEFAULT_BEACON_CAPABILITY\<rparr>"

definition nan_beacon_encode :: "nan_beacon \<Rightarrow> u8 list \<Rightarrow> u8 list" where
  "nan_beacon_encode b attributes =
     (let out = dot11_header_encode (bc_header b) [];
          out = put_le64 (bc_timestamp b) out;
          out = put_le16 (bc_beacon_interval b) out;
          out = put_le16 (bc_capability b) out;
          out = put_u8 ELEMENT_ID_VENDOR_SPECIFIC out;
          out = put_u8 (word_of_nat (length NAN_OUI + 1 + length attributes)) out;
          out = put_bytes NAN_OUI out;
          out = put_u8 NAN_OUI_TYPE out;
          out = put_bytes attributes out
      in out)"

text \<open>One information element: id, length byte, that many bytes.\<close>

definition ie_read :: "(u8 \<times> u8 list) rd" where
  "ie_read =
     rd_bind rd_u8 (\<lambda>eid.
     rd_bind rd_u8 (\<lambda>len.
     rd_bind (rd_take (unat len)) (\<lambda>body.
     rd_return (eid, body))))"

definition is_nan_vendor_ie :: "u8 \<Rightarrow> u8 list \<Rightarrow> bool" where
  "is_nan_vendor_ie eid body \<longleftrightarrow>
     eid = ELEMENT_ID_VENDOR_SPECIFIC \<and> 4 \<le> length body \<and> take 3 body = NAN_OUI \<and>
     body ! 3 = NAN_OUI_TYPE"

lemma ie_read_progress:
  "ie_read r = (Inr x, r') \<Longrightarrow> rd_remaining r' < rd_remaining r"
  by (auto simp: ie_read_def rd_bind_app rd_return_app rd_u8_def rd_take_def rd_remaining_def
      split: prod.splits sum.splits if_splits)

function find_nan_vendor_ie :: "u8 list rd" where
  "find_nan_vendor_ie r =
     (if 2 \<le> rd_remaining r then
        (case ie_read r of
           (Inl e, r') \<Rightarrow> (Inl e, r')
         | (Inr (eid, body), r') \<Rightarrow>
             if is_nan_vendor_ie eid body then (Inr (drop 4 body), r')
             else find_nan_vendor_ie r')
      else (Inl Invalid, r))"
  by pat_completeness auto
termination
  by (relation "measure rd_remaining") (auto dest: ie_read_progress [OF sym])

declare find_nan_vendor_ie.simps [simp del]

definition nan_beacon_read :: "(nan_beacon \<times> u8 list) rd" where
  "nan_beacon_read =
     rd_bind dot11_header_read (\<lambda>h.
     if h_frame_control h \<noteq> FC_BEACON then rd_fail Invalid
     else
       rd_bind rd_le64 (\<lambda>ts.
       rd_bind rd_le16 (\<lambda>bi.
       rd_bind rd_le16 (\<lambda>cap.
       rd_bind find_nan_vendor_ie (\<lambda>attributes.
       rd_return
        (\<lparr>bc_header = h, bc_timestamp = ts, bc_beacon_interval = bi, bc_capability = cap\<rparr>,
         attributes))))))"

definition nan_beacon_parse :: "u8 list \<Rightarrow> wire_error + (nan_beacon \<times> u8 list)" where
  "nan_beacon_parse buf = rd_run nan_beacon_read buf"

section \<open>Action frames\<close>

definition rd_rest_of :: "u8 list rd" where
  "rd_rest_of r = (Inr (rd_rest r), r)"

text \<open>
  The guards the two action-frame parsers share: frame control, category, action, OUI and
  OUI type, each read only when the ones before it matched.
\<close>

definition action_guard :: "u8 \<Rightarrow> dot11_header rd" where
  "action_guard oui_type =
     rd_bind dot11_header_read (\<lambda>h.
     if h_frame_control h \<noteq> FC_ACTION then rd_fail Invalid
     else
       rd_bind rd_u8 (\<lambda>cat.
       if cat \<noteq> ACTION_CATEGORY_PUBLIC then rd_fail Invalid
       else
         rd_bind rd_u8 (\<lambda>act.
         if act \<noteq> ACTION_PUBLIC_VENDOR_SPECIFIC then rd_fail Invalid
         else
           rd_bind (rd_take 3) (\<lambda>oui.
           if oui \<noteq> NAN_OUI then rd_fail Invalid
           else
             rd_bind rd_u8 (\<lambda>ty.
             if ty \<noteq> oui_type then rd_fail Invalid else rd_return h)))))"

record service_discovery_frame =
  sf_header :: dot11_header

definition sdf_new :: "arr6 \<Rightarrow> arr6 \<Rightarrow> arr6 \<Rightarrow> u16 \<Rightarrow> service_discovery_frame" where
  "sdf_new dst src cluster_id sequence =
     \<lparr>sf_header = dot11_header_new FC_ACTION dst src cluster_id sequence\<rparr>"

definition sdf_encode :: "service_discovery_frame \<Rightarrow> u8 list \<Rightarrow> u8 list" where
  "sdf_encode f attributes =
     (let out = dot11_header_encode (sf_header f) [];
          out = put_u8 ACTION_CATEGORY_PUBLIC out;
          out = put_u8 ACTION_PUBLIC_VENDOR_SPECIFIC out;
          out = put_bytes NAN_OUI out;
          out = put_u8 NAN_OUI_TYPE out;
          out = put_bytes attributes out
      in out)"

definition sdf_parse :: "u8 list \<Rightarrow> wire_error + (service_discovery_frame \<times> u8 list)" where
  "sdf_parse buf =
     rd_run (rd_bind (action_guard NAN_OUI_TYPE) (\<lambda>h.
             rd_bind rd_rest_of (\<lambda>attributes.
             rd_return (\<lparr>sf_header = h\<rparr>, attributes)))) buf"

datatype naf_subtype =
    RangingRequest | RangingResponse | RangingTermination | RangingReport
  | DataPathRequest | DataPathResponse | DataPathConfirm | DataPathKeyInstallment
  | DataPathTermination | ScheduleRequest | ScheduleResponse | ScheduleConfirm
  | ScheduleUpdateNotification

fun naf_subtype_byte :: "naf_subtype \<Rightarrow> u8" where
  "naf_subtype_byte RangingRequest = 1"
| "naf_subtype_byte RangingResponse = 2"
| "naf_subtype_byte RangingTermination = 3"
| "naf_subtype_byte RangingReport = 4"
| "naf_subtype_byte DataPathRequest = 5"
| "naf_subtype_byte DataPathResponse = 6"
| "naf_subtype_byte DataPathConfirm = 7"
| "naf_subtype_byte DataPathKeyInstallment = 8"
| "naf_subtype_byte DataPathTermination = 9"
| "naf_subtype_byte ScheduleRequest = 10"
| "naf_subtype_byte ScheduleResponse = 11"
| "naf_subtype_byte ScheduleConfirm = 12"
| "naf_subtype_byte ScheduleUpdateNotification = 13"

definition naf_subtype_from_byte :: "u8 \<Rightarrow> naf_subtype option" where
  "naf_subtype_from_byte b =
     (if b = 1 then Some RangingRequest
      else if b = 2 then Some RangingResponse
      else if b = 3 then Some RangingTermination
      else if b = 4 then Some RangingReport
      else if b = 5 then Some DataPathRequest
      else if b = 6 then Some DataPathResponse
      else if b = 7 then Some DataPathConfirm
      else if b = 8 then Some DataPathKeyInstallment
      else if b = 9 then Some DataPathTermination
      else if b = 10 then Some ScheduleRequest
      else if b = 11 then Some ScheduleResponse
      else if b = 12 then Some ScheduleConfirm
      else if b = 13 then Some ScheduleUpdateNotification
      else None)"

record nan_action_frame =
  nf_header :: dot11_header
  nf_subtype :: u8

definition naf_new :: "naf_subtype \<Rightarrow> arr6 \<Rightarrow> arr6 \<Rightarrow> arr6 \<Rightarrow> u16 \<Rightarrow> nan_action_frame" where
  "naf_new subtype dst src cluster_id sequence =
     \<lparr>nf_header = dot11_header_new FC_ACTION dst src cluster_id sequence,
      nf_subtype = naf_subtype_byte subtype\<rparr>"

definition naf_encode :: "nan_action_frame \<Rightarrow> u8 list \<Rightarrow> u8 list" where
  "naf_encode f attributes =
     (let out = dot11_header_encode (nf_header f) [];
          out = put_u8 ACTION_CATEGORY_PUBLIC out;
          out = put_u8 ACTION_PUBLIC_VENDOR_SPECIFIC out;
          out = put_bytes NAN_OUI out;
          out = put_u8 NAN_OUI_TYPE_ACTION out;
          out = put_u8 (nf_subtype f) out;
          out = put_bytes attributes out
      in out)"

definition naf_parse :: "u8 list \<Rightarrow> wire_error + (nan_action_frame \<times> u8 list)" where
  "naf_parse buf =
     rd_run (rd_bind (action_guard NAN_OUI_TYPE_ACTION) (\<lambda>h.
             rd_bind rd_u8 (\<lambda>subtype.
             rd_bind rd_rest_of (\<lambda>attributes.
             rd_return (\<lparr>nf_header = h, nf_subtype = subtype\<rparr>, attributes))))) buf"

section \<open>Classification\<close>

definition classify :: "u8 list \<Rightarrow> wire_error + dot11_frame" where
  "classify buf =
     (case dot11_header_decode buf of
        Inl e \<Rightarrow> Inl e
      | Inr (header, _) \<Rightarrow>
          if h_frame_control header = FC_BEACON then
            (case nan_beacon_parse buf of
               Inl e \<Rightarrow> Inl e
             | Inr (b, attributes) \<Rightarrow>
                 Inr \<lparr>df_header = bc_header b, df_kind = FtBeacon, df_attributes = attributes\<rparr>)
          else if h_frame_control header = FC_ACTION then
            (case sdf_parse buf of
               Inr (s, attributes) \<Rightarrow>
                 Inr \<lparr>df_header = sf_header s, df_kind = FtAction, df_attributes = attributes\<rparr>
             | Inl _ \<Rightarrow>
                 (case naf_parse buf of
                    Inl e \<Rightarrow> Inl e
                  | Inr (n, attributes) \<Rightarrow>
                      Inr \<lparr>df_header = nf_header n, df_kind = FtNaf (nf_subtype n),
                           df_attributes = attributes\<rparr>))
          else Inr \<lparr>df_header = header, df_kind = FtOther, df_attributes = []\<rparr>)"

section \<open>Frames read back\<close>

definition dot11_header_bytes :: "dot11_header \<Rightarrow> u8 list" where
  "dot11_header_bytes h = dot11_header_encode h []"

lemma dot11_header_encode_eq [put_simps]: "dot11_header_encode h out = out @ dot11_header_bytes h"
  by (simp add: dot11_header_bytes_def dot11_header_encode_def put_simps)

lemma length_dot11_header_bytes [simp]: "length (dot11_header_bytes h) = 24"
  by (simp add: dot11_header_bytes_def dot11_header_encode_def put_defs)

lemma dot11_header_read_bytes [rd_simps]:
  "dot11_header_read (cursor xs (dot11_header_bytes h @ ys)) =
     (Inr h, cursor (xs @ dot11_header_bytes h) ys)"
  by (simp add: dot11_header_read_def dot11_header_bytes_def dot11_header_encode_def put_defs
      rd_simps)

lemma dot11_header_decode_bytes:
  "dot11_header_decode (dot11_header_bytes h @ ys) = Inr (h, cursor (dot11_header_bytes h) ys)"
  by (simp add: dot11_header_decode_def rd_simps)

lemma rd_take3_oui [rd_simps]:
  "rd_take 3 (cursor xs (0x50 # 0x6F # 0x9A # ys)) =
    (Inr [0x50, 0x6F, 0x9A], cursor (xs @ [0x50, 0x6F, 0x9A]) ys)"
  using rd_take_append [of "[0x50, 0x6F, 0x9A]" 3 xs ys] by simp

lemma rd_rest_of_cursor [rd_simps]: "rd_rest_of (cursor xs ys) = (Inr ys, cursor xs ys)"
  by (simp add: rd_rest_of_def rd_rest_cursor)

lemma action_guard_match:
  assumes "h_frame_control h = FC_ACTION"
  shows "action_guard t (cursor [] (dot11_header_bytes h @
      ACTION_CATEGORY_PUBLIC # ACTION_PUBLIC_VENDOR_SPECIFIC # NAN_OUI @ t # ys)) =
    (Inr h, cursor (dot11_header_bytes h @
      ACTION_CATEGORY_PUBLIC # ACTION_PUBLIC_VENDOR_SPECIFIC # NAN_OUI @ [t]) ys)"
  using assms by (simp add: action_guard_def rd_simps NAN_OUI_def)

lemma action_guard_other_type:
  assumes "t \<noteq> u"
  shows "fst (action_guard t (cursor [] (dot11_header_bytes h @
      ACTION_CATEGORY_PUBLIC # ACTION_PUBLIC_VENDOR_SPECIFIC # NAN_OUI @ u # ys))) = Inl Invalid"
  using assms by (simp add: action_guard_def rd_simps NAN_OUI_def)

lemma sdf_encode_eq:
  "sdf_encode f attributes = dot11_header_bytes (sf_header f) @
     ACTION_CATEGORY_PUBLIC # ACTION_PUBLIC_VENDOR_SPECIFIC # NAN_OUI @ NAN_OUI_TYPE # attributes"
  by (simp add: sdf_encode_def put_simps)

lemma naf_encode_eq:
  "naf_encode f attributes = dot11_header_bytes (nf_header f) @
     ACTION_CATEGORY_PUBLIC # ACTION_PUBLIC_VENDOR_SPECIFIC # NAN_OUI @
     NAN_OUI_TYPE_ACTION # nf_subtype f # attributes"
  by (simp add: naf_encode_def put_simps)

lemma nan_beacon_encode_eq:
  "nan_beacon_encode b attributes = dot11_header_bytes (bc_header b) @
     to_le 8 (bc_timestamp b) @ to_le 2 (bc_beacon_interval b) @ to_le 2 (bc_capability b) @
     ELEMENT_ID_VENDOR_SPECIFIC # word_of_nat (4 + length attributes) #
     NAN_OUI @ NAN_OUI_TYPE # attributes"
  by (simp add: nan_beacon_encode_def put_simps NAN_OUI_def)

lemma sdf_parse_encode:
  assumes "h_frame_control (sf_header f) = FC_ACTION"
  shows "sdf_parse (sdf_encode f attributes) = Inr (f, attributes)"
  by (simp add: sdf_parse_def sdf_encode_eq rd_run_cursor rd_bind_app action_guard_match assms
      rd_rest_of_cursor rd_return_app)

lemma naf_parse_encode:
  assumes "h_frame_control (nf_header f) = FC_ACTION"
  shows "naf_parse (naf_encode f attributes) = Inr (f, attributes)"
  by (simp add: naf_parse_def naf_encode_eq rd_run_cursor rd_bind_app action_guard_match assms
      rd_u8_Cons rd_rest_of_cursor rd_return_app)

text \<open>
  The vendor element of an encoded beacon declares its length in one byte, so a parser
  takes \<open>(4 + length attributes) mod 256\<close> bytes of it.
\<close>

definition beacon_ie_attrs :: "u8 list \<Rightarrow> u8 list" where
  "beacon_ie_attrs attributes = take ((4 + length attributes) mod 256 - 4) attributes"

lemma find_nan_vendor_ie_encoded:
  assumes "4 \<le> (4 + length attributes) mod 256"
  shows "fst (find_nan_vendor_ie (cursor xs (ELEMENT_ID_VENDOR_SPECIFIC #
      word_of_nat (4 + length attributes) # NAN_OUI @ NAN_OUI_TYPE # attributes))) =
    Inr (beacon_ie_attrs attributes)"
proof -
  let ?n = "(4 + length attributes) mod 256"
  let ?ie = "NAN_OUI @ NAN_OUI_TYPE # attributes"
  have un: "unat (word_of_nat (4 + length attributes) :: u8) = ?n"
    by (simp add: unat_of_nat take_bit_eq_mod del: of_nat_add)
  have le: "?n \<le> length ?ie"
    using mod_less_eq_dividend [of "4 + length attributes" 256] by (simp add: NAN_OUI_def)
  obtain m where m: "?n = 4 + m"
    using assms le_Suc_ex by blast
  have body: "take ?n ?ie = NAN_OUI @ NAN_OUI_TYPE # beacon_ie_attrs attributes"
    unfolding beacon_ie_attrs_def m by (simp add: NAN_OUI_def numeral_eq_Suc)
  have "is_nan_vendor_ie ELEMENT_ID_VENDOR_SPECIFIC (take ?n ?ie)"
    unfolding body by (simp add: is_nan_vendor_ie_def NAN_OUI_def)
  moreover have "drop 4 (take ?n ?ie) = beacon_ie_attrs attributes"
    unfolding body by (simp add: NAN_OUI_def)
  moreover have "ie_read (cursor xs (ELEMENT_ID_VENDOR_SPECIFIC #
      word_of_nat (4 + length attributes) # ?ie)) = (Inr (ELEMENT_ID_VENDOR_SPECIFIC, take ?n ?ie),
      cursor ((xs @ [ELEMENT_ID_VENDOR_SPECIFIC, word_of_nat (4 + length attributes)]) @
        take ?n ?ie) (drop ?n ?ie))"
    using le by (simp del: of_nat_add take_append drop_append add: ie_read_def rd_bind_app rd_u8_Cons
        rd_take_cursor un rd_return_app)
  ultimately show ?thesis
    by (subst find_nan_vendor_ie.simps)
      (simp del: of_nat_add take_append drop_append append_assoc add: rd_remaining_cursor NAN_OUI_def)
qed

lemma nan_beacon_parse_encode:
  assumes "h_frame_control (bc_header b) = FC_BEACON"
    and "4 \<le> (4 + length attributes) mod 256"
  shows "nan_beacon_parse (nan_beacon_encode b attributes) = Inr (b, beacon_ie_attrs attributes)"
proof -
  let ?ie = "ELEMENT_ID_VENDOR_SPECIFIC # word_of_nat (4 + length attributes) #
      NAN_OUI @ NAN_OUI_TYPE # attributes"
  obtain r where r: "find_nan_vendor_ie (cursor (dot11_header_bytes (bc_header b) @
      to_le 8 (bc_timestamp b) @ to_le 2 (bc_beacon_interval b) @ to_le 2 (bc_capability b)) ?ie) =
      (Inr (beacon_ie_attrs attributes), r)"
    using find_nan_vendor_ie_encoded [OF assms(2)] by (metis fst_conv old.prod.exhaust)
  show ?thesis
    using r assms(1)
    by (simp del: of_nat_add add: nan_beacon_parse_def nan_beacon_read_def nan_beacon_encode_eq
        rd_run_cursor rd_bind_app dot11_header_read_bytes rd_le64_append rd_le16_append
        rd_return_app)
qed

lemma beacon_ie_attrs_short:
  "length attributes \<le> 251 \<Longrightarrow> beacon_ie_attrs attributes = attributes"
  by (simp add: beacon_ie_attrs_def)

lemma classify_sdf:
  assumes "h_frame_control (sf_header f) = FC_ACTION"
  shows "classify (sdf_encode f attributes) =
    Inr \<lparr>df_header = sf_header f, df_kind = FtAction, df_attributes = attributes\<rparr>"
proof -
  have "\<exists>r. dot11_header_decode (sdf_encode f attributes) = Inr (sf_header f, r)"
    by (simp add: sdf_encode_eq dot11_header_decode_bytes)
  then show ?thesis
    using assms by (auto simp: classify_def sdf_parse_encode FC_ACTION_def FC_BEACON_def)
qed

lemma classify_naf:
  assumes "h_frame_control (nf_header f) = FC_ACTION"
  shows "classify (naf_encode f attributes) =
    Inr \<lparr>df_header = nf_header f, df_kind = FtNaf (nf_subtype f), df_attributes = attributes\<rparr>"
proof -
  have hd: "\<exists>r. dot11_header_decode (naf_encode f attributes) = Inr (nf_header f, r)"
    by (simp add: naf_encode_eq dot11_header_decode_bytes)
  have "fst (action_guard NAN_OUI_TYPE (cursor [] (naf_encode f attributes))) = Inl Invalid"
    unfolding naf_encode_eq
    by (rule action_guard_other_type) (simp add: NAN_OUI_TYPE_def NAN_OUI_TYPE_ACTION_def)
  then have "sdf_parse (naf_encode f attributes) = Inl Invalid"
    by (auto simp: sdf_parse_def rd_run_cursor rd_bind_app split: prod.splits)
  with hd assms show ?thesis
    by (auto simp: classify_def naf_parse_encode FC_ACTION_def FC_BEACON_def)
qed

lemma classify_beacon:
  assumes "h_frame_control (bc_header b) = FC_BEACON"
    and "4 \<le> (4 + length attributes) mod 256"
  shows "classify (nan_beacon_encode b attributes) =
    Inr \<lparr>df_header = bc_header b, df_kind = FtBeacon,
         df_attributes = beacon_ie_attrs attributes\<rparr>"
proof -
  have "\<exists>r. dot11_header_decode (nan_beacon_encode b attributes) = Inr (bc_header b, r)"
    by (simp add: nan_beacon_encode_eq dot11_header_decode_bytes)
  then show ?thesis
    using assms by (auto simp: classify_def nan_beacon_parse_encode)
qed

lemma naf_subtype_roundtrip [simp]: "naf_subtype_from_byte (naf_subtype_byte s) = Some s"
  by (cases s) (simp_all add: naf_subtype_from_byte_def)

end
