(* ===== verification/Rendezvous.thy ===== *)
theory Rendezvous
  imports Prelude
begin

text \<open>
  \<open>crates/faces/ndn-nan-core/src/rendezvous.rs\<close>: the wake and transmit schedule the engine
  is parameterised with. The trait object is a record of its three methods; the trait's
  contract is the locale \<open>rendezvous_law\<close>, and both implementations are interpreted.
\<close>

definition USEC_PER_TU :: u64 where "USEC_PER_TU = 1024"
definition DW_INTERVAL_TU :: u64 where "DW_INTERVAL_TU = 512"
definition DW_LENGTH_TU :: u64 where "DW_LENGTH_TU = 16"
definition SYNC_BEACON_INTERVAL_TU :: u64 where "SYNC_BEACON_INTERVAL_TU = 512"

lemmas tu_consts = USEC_PER_TU_def DW_INTERVAL_TU_def DW_LENGTH_TU_def

record rendezvous =
  rv_in_window :: "u64 \<Rightarrow> bool"
  rv_window_index :: "u64 \<Rightarrow> u64"
  rv_next_window_start :: "u64 \<Rightarrow> u64"

definition dw_in_window :: "u64 \<Rightarrow> bool" where
  "dw_in_window synced =
     (let tu = synced div USEC_PER_TU in tu mod DW_INTERVAL_TU < DW_LENGTH_TU)"

definition dw_window_index :: "u64 \<Rightarrow> u64" where
  "dw_window_index synced = (synced div USEC_PER_TU) div DW_INTERVAL_TU"

definition dw_next_window_start :: "u64 \<Rightarrow> u64" where
  "dw_next_window_start synced =
     (let tu = synced div USEC_PER_TU;
          next_dw_tu = (tu div DW_INTERVAL_TU + 1) * DW_INTERVAL_TU
      in next_dw_tu * USEC_PER_TU)"

definition discovery_window :: rendezvous where
  "discovery_window =
     \<lparr>rv_in_window = dw_in_window, rv_window_index = dw_window_index,
      rv_next_window_start = dw_next_window_start\<rparr>"

definition ao_window_index :: "u64 \<Rightarrow> u64 \<Rightarrow> u64" where
  "ao_window_index burst_interval synced = synced div max burst_interval 1"

definition ao_next_window_start :: "u64 \<Rightarrow> u64 \<Rightarrow> u64" where
  "ao_next_window_start burst_interval synced =
     (let iv = max burst_interval 1 in (synced div iv + 1) * iv)"

definition always_on :: "u64 \<Rightarrow> rendezvous" where
  "always_on burst_interval =
     \<lparr>rv_in_window = (\<lambda>_. True), rv_window_index = ao_window_index burst_interval,
      rv_next_window_start = ao_next_window_start burst_interval\<rparr>"

definition nan_cadence :: u64 where
  "nan_cadence = DW_INTERVAL_TU * USEC_PER_TU"

section \<open>The contract of a schedule\<close>

text \<open>
  What the engine relies on: the next window start is inside a window, its index differs
  from the current one (so a burst is due there), the index does not decrease along the
  clock, and it does not change before the next window start. The clock is a \<open>u64\<close> that
  wraps; a next start that is not after \<open>s\<close> is the wrapped one, and then the index is
  constant up to the end of the clock's range.
\<close>

locale rendezvous_law =
  fixes rv :: rendezvous
  assumes next_in_window: "rv_in_window rv (rv_next_window_start rv s)"
    and next_index_fresh: "rv_window_index rv (rv_next_window_start rv s) \<noteq> rv_window_index rv s"
    and index_mono: "s \<le> t \<Longrightarrow> rv_window_index rv s \<le> rv_window_index rv t"
    and index_stable: "s \<le> t \<Longrightarrow> t < rv_next_window_start rv s \<or> rv_next_window_start rv s \<le> s
      \<Longrightarrow> rv_window_index rv t = rv_window_index rv s"
begin

lemma next_differs: "rv_next_window_start rv s \<noteq> s"
  using next_index_fresh [of s] by auto

lemma fresh_index_reached:
  assumes "s \<le> t" and "rv_window_index rv t \<noteq> rv_window_index rv s"
  shows "s < rv_next_window_start rv s \<and> rv_next_window_start rv s \<le> t"
  using assms index_stable [of s t] by (meson linorder_not_less)

end

text \<open>
  Both schedules divide the clock by a period: \<open>period iv\<close> is the common arithmetic. The
  product \<open>(s div iv + 1) * iv\<close> either stays in range or wraps.
\<close>

lemma unat_u64_less: "unat (x :: u64) < 2 ^ 64"
  using unsigned_less [of x, where ?'a = nat] by simp

lemma mod_below_excess:
  fixes n m k :: nat
  assumes "m \<le> n" and "n < m + k"
  shows "n mod m < k"
proof -
  have "n mod m = (n - m) mod m"
    using assms(1) by (rule le_mod_geq)
  also have "\<dots> \<le> n - m"
    by (rule mod_less_eq_dividend)
  also have "\<dots> < k"
    using assms by simp
  finally show ?thesis .
qed

lemma unat_period_next:
  fixes s iv :: u64
  assumes "0 < iv"
  shows "unat ((s div iv + 1) * iv) =
    ((unat s div unat iv + 1) * unat iv) mod 2 ^ 64"
proof -
  have "unat ((s div iv + 1) * iv) = (unat (s div iv + 1) * unat iv) mod 2 ^ 64"
    by (simp add: unat_word_ariths)
  also have "unat (s div iv + 1) = (unat s div unat iv + 1) mod 2 ^ 64"
    by (simp add: unat_word_ariths unat_div_distrib mod_simps)
  finally show ?thesis
    by (simp add: mod_mult_left_eq)
qed

lemma period_next_div:
  fixes s iv :: u64
  assumes iv: "0 < iv"
  shows "((s div iv + 1) * iv) div iv \<noteq> s div iv"
proof -
  let ?n = "(unat s div unat iv + 1) * unat iv"
  have pos: "0 < unat iv"
    using iv by (simp add: word_less_nat_alt)
  have lt: "unat s < ?n"
    using dividend_less_div_times [OF pos, of "unat s"] by (simp add: algebra_simps)
  have "?n mod 2 ^ 64 div unat iv \<noteq> unat s div unat iv"
  proof (cases "?n < 2 ^ 64")
    case True
    then show ?thesis using pos by simp
  next
    case False
    have ivb: "unat iv < 2 ^ 64"
      using unat_u64_less [of iv] by simp
    have "unat s div unat iv * unat iv < 2 ^ 64"
      using div_times_less_eq_dividend [of "unat s" "unat iv"] unat_u64_less [of s]
      by (rule le_less_trans)
    then have ub: "?n < 2 ^ 64 + unat iv"
      by (simp add: algebra_simps)
    then have "?n mod 2 ^ 64 < unat iv"
      using False by (intro mod_below_excess) simp_all
    then have "?n mod 2 ^ 64 div unat iv = 0"
      by simp
    moreover have "unat s div unat iv \<noteq> 0"
    proof
      assume "unat s div unat iv = 0"
      then have "?n = unat iv" by simp
      with False ivb show False by auto
    qed
    ultimately show ?thesis by simp
  qed
  then show ?thesis
    using unat_period_next [OF iv, of s]
    by (metis unat_div_distrib)
qed

lemma period_index_stable:
  fixes s t iv :: u64
  assumes iv: "0 < iv" and st: "s \<le> t"
    and before: "t < (s div iv + 1) * iv \<or> (s div iv + 1) * iv \<le> s"
  shows "t div iv = s div iv"
proof -
  let ?n = "(unat s div unat iv + 1) * unat iv"
  have pos: "0 < unat iv"
    using iv by (simp add: word_less_nat_alt)
  have lt: "unat s < ?n"
    using dividend_less_div_times [OF pos, of "unat s"] by (simp add: algebra_simps)
  have tn: "unat t < ?n"
  proof (cases "?n < 2 ^ 64")
    case True
    then have "unat ((s div iv + 1) * iv) = ?n"
      by (simp add: unat_period_next [OF iv])
    then show ?thesis
      using before lt by (auto simp: word_less_nat_alt word_le_nat_alt)
  next
    case False
    then show ?thesis using unat_u64_less [of t] by simp
  qed
  have "unat t div unat iv < unat s div unat iv + 1"
    using tn pos by (simp add: div_less_iff_less_mult)
  moreover have "unat s div unat iv \<le> unat t div unat iv"
    using st by (simp add: div_le_mono word_le_nat_alt)
  ultimately have "unat t div unat iv = unat s div unat iv"
    by simp
  then show ?thesis
    by (simp add: word_unat_eq_iff unat_div_distrib)
qed

lemma period_index_mono: "(s :: u64) \<le> t \<Longrightarrow> s div iv \<le> t div iv"
  by (simp add: div_le_mono unat_div_distrib word_le_nat_alt)

interpretation ao: rendezvous_law "always_on burst_interval"
proof unfold_locales
  fix s t
  have iv: "0 < max burst_interval 1"
    by (simp add: less_max_iff_disj)
  show "rv_in_window (always_on burst_interval)
      (rv_next_window_start (always_on burst_interval) s)"
    by (simp add: always_on_def)
  show "rv_window_index (always_on burst_interval)
      (rv_next_window_start (always_on burst_interval) s) \<noteq>
      rv_window_index (always_on burst_interval) s"
    using period_next_div [OF iv]
    by (simp add: always_on_def ao_window_index_def ao_next_window_start_def Let_def)
  show "s \<le> t \<Longrightarrow> rv_window_index (always_on burst_interval) s \<le>
      rv_window_index (always_on burst_interval) t"
    by (simp add: always_on_def ao_window_index_def period_index_mono)
  show "s \<le> t \<Longrightarrow> t < rv_next_window_start (always_on burst_interval) s \<or>
      rv_next_window_start (always_on burst_interval) s \<le> s \<Longrightarrow>
      rv_window_index (always_on burst_interval) t =
      rv_window_index (always_on burst_interval) s"
    using period_index_stable [OF iv, of s t]
    by (simp add: always_on_def ao_window_index_def ao_next_window_start_def Let_def)
qed

text \<open>The Discovery Window is the same arithmetic with the period of 512 TU.\<close>

lemma dw_window_index_eq: "dw_window_index s = s div 0x80000"
proof -
  have "unat (s div 1024 div 512) = unat (s div 0x80000)"
    by (simp add: unat_div_distrib div_mult2_eq [symmetric])
  then show ?thesis
    by (simp add: dw_window_index_def tu_consts word_unat_eq_iff)
qed

lemma dw_next_window_start_eq: "dw_next_window_start s = (s div 0x80000 + 1) * 0x80000"
  using dw_window_index_eq [of s]
  by (simp add: dw_next_window_start_def dw_window_index_def tu_consts mult.assoc)

lemma dw_in_window_iff: "dw_in_window s \<longleftrightarrow> unat s mod 0x80000 < 0x4000"
proof -
  have "dw_in_window s \<longleftrightarrow> (unat s div 1024) mod 512 < 16"
    by (simp add: dw_in_window_def tu_consts word_less_nat_alt unat_mod_distrib unat_div_distrib)
  also have "\<dots> \<longleftrightarrow> unat s mod 0x80000 < 0x4000"
  proof -
    have e: "unat s mod 0x80000 = 1024 * (unat s div 1024 mod 512) + unat s mod 1024"
      using mod_mult2_eq [of "unat s" 1024 512] by simp
    have "unat s mod 1024 < 1024" by simp
    then show ?thesis unfolding e by arith
  qed
  finally show ?thesis .
qed

interpretation dw: rendezvous_law discovery_window
proof unfold_locales
  fix s t :: u64
  have iv: "(0 :: u64) < 0x80000" by simp
  have "(unat s div 0x80000 + 1) * 0x80000 mod 2 ^ 64 mod 0x80000 = (0 :: nat)"
    by (simp add: mod_mod_cancel)
  then have "unat ((s div 0x80000 + 1) * 0x80000) mod 0x80000 = 0"
    using unat_period_next [OF iv, of s] by simp
  then show "rv_in_window discovery_window (rv_next_window_start discovery_window s)"
    by (simp add: discovery_window_def dw_in_window_iff dw_next_window_start_eq)
  show "rv_window_index discovery_window (rv_next_window_start discovery_window s) \<noteq>
      rv_window_index discovery_window s"
    using period_next_div [OF iv, of s]
    by (simp add: discovery_window_def dw_window_index_eq dw_next_window_start_eq)
  show "s \<le> t \<Longrightarrow> rv_window_index discovery_window s \<le> rv_window_index discovery_window t"
    by (simp add: discovery_window_def dw_window_index_eq period_index_mono)
  show "s \<le> t \<Longrightarrow> t < rv_next_window_start discovery_window s \<or>
      rv_next_window_start discovery_window s \<le> s \<Longrightarrow>
      rv_window_index discovery_window t = rv_window_index discovery_window s"
    using period_index_stable [OF iv, of s t]
    by (simp add: discovery_window_def dw_window_index_eq dw_next_window_start_eq)
qed

end
