(* ===== verification/Nan_Engine.thy ===== *)
theory Nan_Engine
  imports Attr_Sched Ndpe Frame Rendezvous
begin

text \<open>
  \<open>crates/faces/ndn-nan-core/src/engine.rs\<close> (and \<open>service.rs\<close>): the sans-I/O NAN state
  machine, definitions only. \<open>NanEngine\<close> is the record \<open>nan_engine\<close>; a method that takes
  \<open>&mut self\<close> and \<open>&mut Step\<close> is a function from engine and step to engine and step. The
  SHA-256 of the \<open>sha2\<close> crate is a parameter (\<open>sha256\<close>) whose type is a 32-byte digest.
\<close>

section \<open>Service ids\<close>

text \<open>A 32-byte digest, as four 8-byte parts.\<close>

datatype digest = Digest arr8 arr8 arr8 arr8

fun digest_bytes :: "digest \<Rightarrow> u8 list" where
  "digest_bytes (Digest a b c d) = arr8_bytes a @ arr8_bytes b @ arr8_bytes c @ arr8_bytes d"

definition to_ascii_lowercase :: "u8 \<Rightarrow> u8" where
  "to_ascii_lowercase b = (if 0x41 \<le> b \<and> b \<le> 0x5A then b + 0x20 else b)"

definition service_id :: "(u8 list \<Rightarrow> digest) \<Rightarrow> u8 list \<Rightarrow> arr6" where
  "service_id sha256 name =
     (let digest = digest_bytes (sha256 (map to_ascii_lowercase name))
      in arr6_of (take 6 digest))"

section \<open>Configuration, events, sessions\<close>

type_synonym usec = u64

record nan_config =
  nc_nmi :: arr6
  nc_master_preference :: u8
  nc_random_factor :: u8
  nc_channel :: u8
  nc_ndi :: arr6
  nc_ndp_auto_accept :: bool

definition nan_config_new :: "arr6 \<Rightarrow> u8 \<Rightarrow> u8 \<Rightarrow> nan_config" where
  "nan_config_new nmi channel pref =
     \<lparr>nc_nmi = nmi, nc_master_preference = pref, nc_random_factor = 0, nc_channel = channel,
      nc_ndi = nmi, nc_ndp_auto_accept = True\<rparr>"

definition with_ndi :: "arr6 \<Rightarrow> nan_config \<Rightarrow> nan_config" where
  "with_ndi ndi cfg = cfg\<lparr>nc_ndi := ndi\<rparr>"

fun eui64_iid :: "arr6 \<Rightarrow> arr8" where
  "eui64_iid (Arr6 a b c d e f) = Arr8 (a XOR 0x02) b c 0xff 0xfe d e f"

record rx_frame =
  rx_bytes :: "u8 list"
  rx_rssi_dbm :: "u8 option"
  rx_now_usec :: usec

datatype tx_frame = TxFrame (tx_bytes: "u8 list")

datatype ndp_failure = Rejected u8 | TimedOut

datatype ndp_role = Initiator | Responder

datatype ndp_state = AwaitingResponse | AwaitingConfirm | Established

datatype nan_event =
    Discovered arr6 arr6 "u8 list" "u8 option"
  | FollowupReceived arr6 "u8 list" "u8 option"
  | NdpEstablished arr6 u8 ndp_role arr6 arr8
  | NdpFailed arr6 u8 ndp_failure
  | NdpTerminated arr6 u8

definition NDP_RETRY_USEC :: usec where "NDP_RETRY_USEC = 2 * 512 * 1024"
definition NDP_MAX_ATTEMPTS :: u8 where "NDP_MAX_ATTEMPTS = 4"

record ndp_session =
  ns_peer :: arr6
  ns_ndp_id :: u8
  ns_dialog_token :: u8
  ns_role :: ndp_role
  ns_state :: ndp_state
  ns_peer_ndi :: "arr6 option"
  ns_peer_iid :: "arr8 option"
  ns_pending_tx :: "naf_subtype option"
  ns_attempts :: u8
  ns_retry_at_usec :: usec

record step =
  st_tx :: "tx_frame list"
  st_set_channel :: "u8 option"
  st_events :: "nan_event list"
  st_wake_at_usec :: usec

definition step_default :: step where
  "step_default = \<lparr>st_tx = [], st_set_channel = None, st_events = [], st_wake_at_usec = 0\<rparr>"

definition push_event :: "nan_event \<Rightarrow> step \<Rightarrow> step" where
  "push_event ev st = st\<lparr>st_events := st_events st @ [ev]\<rparr>"

definition push_tx :: "u8 list \<Rightarrow> step \<Rightarrow> step" where
  "push_tx bytes st = st\<lparr>st_tx := st_tx st @ [TxFrame bytes]\<rparr>"

datatype function_kind = FnPublish | FnSubscribe

record nan_function =
  fn_service_id :: arr6
  fn_instance_id :: u8
  fn_kind :: function_kind
  fn_ssi :: "u8 list"
  fn_active :: bool

record followup =
  fu_dest :: arr6
  fu_instance_id :: u8
  fu_requestor_instance_id :: u8
  fu_service_id :: arr6
  fu_ssi :: "u8 list"

text \<open>
  The loop over the MAC, then the two election bytes. \<open>enumerate\<close> pairs each byte with
  its index.
\<close>

definition master_rank :: "u8 \<Rightarrow> u8 \<Rightarrow> arr6 \<Rightarrow> u64" where
  "master_rank master_preference random_factor mac =
     (let v = fold (\<lambda>(i, b) v. v OR push_bit (8 * i) (ucast b)) (enumerate 0 (arr6_bytes mac)) 0;
          v = v OR push_bit 48 (ucast random_factor);
          v = v OR push_bit 56 (ucast master_preference)
      in v)"

section \<open>The engine\<close>

record nan_engine =
  ne_cfg :: nan_config
  ne_cluster_id :: arr6
  ne_base_time_usec :: usec
  ne_synced :: bool
  ne_seq :: u16
  ne_next_instance_id :: u8
  ne_functions :: "nan_function list"
  ne_discovered :: "(arr6 \<times> arr6) set"
  ne_peers :: "(arr6 \<times> u8) list"
  ne_followups :: "followup list"
  ne_last_burst_dw :: "u64 option"
  ne_channel_set :: bool
  ne_base_initialized :: bool
  ne_cluster_amr :: u64
  ne_rendezvous :: rendezvous
  ne_ndps :: "ndp_session list"
  ne_next_ndp_id :: u8
  ne_next_dialog_token :: u8

definition nan_engine_new :: "nan_config \<Rightarrow> nan_engine" where
  "nan_engine_new cfg =
     \<lparr>ne_cfg = cfg,
      ne_cluster_id = NAN_CLUSTER_ID_BASE,
      ne_base_time_usec = 0,
      ne_synced = False,
      ne_seq = 0,
      ne_next_instance_id = 1,
      ne_functions = [],
      ne_discovered = {},
      ne_peers = [],
      ne_followups = [],
      ne_last_burst_dw = None,
      ne_channel_set = False,
      ne_base_initialized = False,
      ne_cluster_amr = master_rank (nc_master_preference cfg) (nc_random_factor cfg) (nc_nmi cfg),
      ne_rendezvous = discovery_window,
      ne_ndps = [],
      ne_next_ndp_id = 1,
      ne_next_dialog_token = 1\<rparr>"

definition with_rendezvous :: "nan_config \<Rightarrow> rendezvous \<Rightarrow> nan_engine" where
  "with_rendezvous cfg rv = (nan_engine_new cfg)\<lparr>ne_rendezvous := rv\<rparr>"

definition ne_nmi :: "nan_engine \<Rightarrow> arr6" where
  "ne_nmi e = nc_nmi (ne_cfg e)"

definition ne_rank :: "nan_engine \<Rightarrow> u64" where
  "ne_rank e = master_rank (nc_master_preference (ne_cfg e)) (nc_random_factor (ne_cfg e))
     (nc_nmi (ne_cfg e))"

text \<open>\<open>wrapping_add(1).max(1)\<close>: the next id, skipping zero.\<close>

definition next_id :: "u8 \<Rightarrow> u8" where
  "next_id x = max (x + 1) 1"

definition add_function ::
    "arr6 \<Rightarrow> function_kind \<Rightarrow> u8 list \<Rightarrow> bool \<Rightarrow> nan_engine \<Rightarrow> u8 \<times> nan_engine" where
  "add_function sid kind ssi active e =
     (let instance_id = ne_next_instance_id e
      in (instance_id,
          e\<lparr>ne_next_instance_id := next_id (ne_next_instance_id e),
            ne_functions := ne_functions e @
              [\<lparr>fn_service_id = sid, fn_instance_id = instance_id, fn_kind = kind,
                fn_ssi = ssi, fn_active = active\<rparr>],
            ne_last_burst_dw := None\<rparr>))"

definition publish ::
    "(u8 list \<Rightarrow> digest) \<Rightarrow> u8 list \<Rightarrow> u8 list \<Rightarrow> nan_engine \<Rightarrow> u8 \<times> nan_engine" where
  "publish sha256 name ssi e = add_function (service_id sha256 name) FnPublish ssi False e"

definition subscribe ::
    "(u8 list \<Rightarrow> digest) \<Rightarrow> u8 list \<Rightarrow> bool \<Rightarrow> nan_engine \<Rightarrow> u8 \<times> nan_engine" where
  "subscribe sha256 name active e = add_function (service_id sha256 name) FnSubscribe [] active e"

definition broadcast_followup :: "u8 list \<Rightarrow> nan_engine \<Rightarrow> nat \<times> nan_engine" where
  "broadcast_followup ssi e =
     (let instance_id = (case ne_functions e of [] \<Rightarrow> 0 | f # _ \<Rightarrow> fn_instance_id f);
          service = (case ne_functions e of [] \<Rightarrow> Arr6 0 0 0 0 0 0 | f # _ \<Rightarrow> fn_service_id f);
          peers = ne_peers e
      in (length peers,
          e\<lparr>ne_followups := ne_followups e @
              map (\<lambda>(peer, their_inst).
                \<lparr>fu_dest = peer, fu_instance_id = instance_id,
                 fu_requestor_instance_id = their_inst, fu_service_id = service,
                 fu_ssi = ssi\<rparr>) peers\<rparr>))"

definition request_ndp :: "arr6 \<Rightarrow> nan_engine \<Rightarrow> u8 \<times> nan_engine" where
  "request_ndp peer e =
     (case find (\<lambda>s. ns_peer s = peer \<and> ns_role s = Initiator) (ne_ndps e) of
        Some s \<Rightarrow> (ns_ndp_id s, e)
      | None \<Rightarrow>
          (ne_next_ndp_id e,
           e\<lparr>ne_next_ndp_id := next_id (ne_next_ndp_id e),
             ne_next_dialog_token := next_id (ne_next_dialog_token e),
             ne_ndps := ne_ndps e @
               [\<lparr>ns_peer = peer, ns_ndp_id = ne_next_ndp_id e,
                 ns_dialog_token = ne_next_dialog_token e, ns_role = Initiator,
                 ns_state = AwaitingResponse, ns_peer_ndi = None, ns_peer_iid = None,
                 ns_pending_tx = Some DataPathRequest, ns_attempts = 0,
                 ns_retry_at_usec = 0\<rparr>]\<rparr>))"

definition terminate_ndp :: "arr6 \<Rightarrow> u8 \<Rightarrow> nan_engine \<Rightarrow> nan_engine" where
  "terminate_ndp peer ndp_id e =
     (case position (\<lambda>s. ns_peer s = peer \<and> ns_ndp_id s = ndp_id) (ne_ndps e) of
        None \<Rightarrow> e
      | Some i \<Rightarrow>
          e\<lparr>ne_ndps := (ne_ndps e)[i := (ne_ndps e ! i)
              \<lparr>ns_pending_tx := Some DataPathTermination, ns_state := Established\<rparr>]\<rparr>)"

definition local_ndp_identity :: "nan_engine \<Rightarrow> arr6 \<times> arr8" where
  "local_ndp_identity e = (nc_ndi (ne_cfg e), eui64_iid (nc_ndi (ne_cfg e)))"

definition established_ndps :: "nan_engine \<Rightarrow> nat" where
  "established_ndps e = length (filter (\<lambda>s. ns_state s = Established) (ne_ndps e))"

definition synced_usec :: "nan_engine \<Rightarrow> usec \<Rightarrow> usec" where
  "synced_usec e now = now - ne_base_time_usec e"

definition dw_index :: "nan_engine \<Rightarrow> usec \<Rightarrow> u64" where
  "dw_index e now = rv_window_index (ne_rendezvous e) (synced_usec e now)"

definition in_dw :: "nan_engine \<Rightarrow> usec \<Rightarrow> bool" where
  "in_dw e now = rv_in_window (ne_rendezvous e) (synced_usec e now)"

definition next_dw_start_usec :: "nan_engine \<Rightarrow> usec \<Rightarrow> usec" where
  "next_dw_start_usec e now =
     ne_base_time_usec e + rv_next_window_start (ne_rendezvous e) (synced_usec e now)"

definition rx_addr1 :: "u8 list \<Rightarrow> arr6 option" where
  "rx_addr1 buf = (if 10 \<le> length buf then Some (arr6_of (take 6 (drop 4 buf))) else None)"

definition rx_addr2 :: "u8 list \<Rightarrow> arr6" where
  "rx_addr2 buf =
     (if 16 \<le> length buf then arr6_of (take 6 (drop 10 buf)) else Arr6 0 0 0 0 0 0)"

definition has_function_for :: "nan_engine \<Rightarrow> arr6 \<Rightarrow> bool" where
  "has_function_for e sid \<longleftrightarrow> list_ex (\<lambda>f. fn_service_id f = sid) (ne_functions e)"

definition note_peer :: "arr6 \<Rightarrow> u8 \<Rightarrow> nan_engine \<Rightarrow> nan_engine" where
  "note_peer peer their_instance e =
     (case position (\<lambda>(p, _). p = peer) (ne_peers e) of
        Some i \<Rightarrow> e\<lparr>ne_peers := (ne_peers e)[i := (fst (ne_peers e ! i), their_instance)]\<rparr>
      | None \<Rightarrow> e\<lparr>ne_peers := ne_peers e @ [(peer, their_instance)]\<rparr>)"

definition next_seq :: "nan_engine \<Rightarrow> u16 \<times> nan_engine" where
  "next_seq e = (ne_seq e, e\<lparr>ne_seq := (ne_seq e + 1) AND 0x0FFF\<rparr>)"

section \<open>Receiving beacons and service descriptors\<close>

text \<open>
  The anchor-master rank of a heard beacon: the Cluster attribute if it is there and
  decodes, else the transmitter's own Master Indication.
\<close>

definition ok_of :: "'e + 'a \<Rightarrow> 'a option" where
  "ok_of x = (case x of Inl _ \<Rightarrow> None | Inr a \<Rightarrow> Some a)"

definition beacon_amr :: "nan_beacon \<Rightarrow> u8 list \<Rightarrow> u64 option" where
  "beacon_amr beacon attrs =
     (case Option.bind (attributes_find attrs IdCluster) (\<lambda>a. ok_of (cluster_decode (at_body a))) of
        Some c \<Rightarrow> Some (cl_anchor_master_rank c)
      | None \<Rightarrow>
          map_option (\<lambda>mi. master_rank (mi_master_preference mi) (mi_random_factor mi)
              (h_addr2 (bc_header beacon)))
            (Option.bind (attributes_find attrs IdMasterIndication)
              (\<lambda>a. ok_of (master_indication_decode (at_body a)))))"

definition handle_beacon :: "rx_frame \<Rightarrow> nan_engine \<Rightarrow> nan_engine" where
  "handle_beacon rx e =
     (case nan_beacon_parse (rx_bytes rx) of
        Inl _ \<Rightarrow> e
      | Inr (beacon, attrs) \<Rightarrow>
          (case beacon_amr beacon attrs of
             None \<Rightarrow> e
           | Some amr \<Rightarrow>
               if ne_cluster_amr e < amr then
                 e\<lparr>ne_cluster_id := h_addr3 (bc_header beacon),
                   ne_base_time_usec := rx_now_usec rx - bc_timestamp beacon,
                   ne_cluster_amr := amr,
                   ne_synced := True,
                   ne_last_burst_dw := None\<rparr>
               else if h_addr3 (bc_header beacon) = ne_cluster_id e \<and> amr = ne_cluster_amr e then
                 e\<lparr>ne_base_time_usec := rx_now_usec rx - bc_timestamp beacon\<rparr>
               else e))"

definition handle_sda ::
    "rx_frame \<Rightarrow> bool \<Rightarrow> attribute \<Rightarrow> nan_engine \<times> step \<Rightarrow> nan_engine \<times> step" where
  "handle_sda rx to_us attr es =
     (let (e, st) = es in
      if \<not> attribute_is attr IdServiceDescriptor then (e, st)
      else case service_descriptor_decode (at_body attr) of
        Inl _ \<Rightarrow> (e, st)
      | Inr sda \<Rightarrow>
          let peer = rx_addr2 (rx_bytes rx) in
          case sc_control_type (sd_control sda) of
            FollowUp \<Rightarrow>
              if to_us \<and> has_function_for e (sd_service_id sda)
              then (e, push_event (FollowupReceived peer (sd_service_info sda) (rx_rssi_dbm rx)) st)
              else (e, st)
          | _ \<Rightarrow>
              if has_function_for e (sd_service_id sda) then
                let e = note_peer peer (sd_instance_id sda) e in
                if (peer, sd_service_id sda) \<notin> ne_discovered e then
                  (e\<lparr>ne_discovered := insert (peer, sd_service_id sda) (ne_discovered e)\<rparr>,
                   push_event (Discovered (sd_service_id sda) peer (sd_service_info sda)
                     (rx_rssi_dbm rx)) st)
                else (e, st)
              else (e, st))"

definition handle_sdf ::
    "rx_frame \<Rightarrow> u8 list \<Rightarrow> nan_engine \<Rightarrow> step \<Rightarrow> nan_engine \<times> step" where
  "handle_sdf rx attrs e st =
     (let to_us = (rx_addr1 (rx_bytes rx) = Some (nc_nmi (ne_cfg e)))
      in fold (handle_sda rx to_us) (attributes_flatten attrs) (e, st))"

section \<open>The data path: receive half\<close>

definition ndp_index_role :: "nan_engine \<Rightarrow> arr6 \<Rightarrow> u8 \<Rightarrow> ndp_role \<Rightarrow> nat option" where
  "ndp_index_role e peer ndp_id role =
     position (\<lambda>s. ns_peer s = peer \<and> ns_ndp_id s = ndp_id \<and> ns_role s = role) (ne_ndps e)"

definition ndp_index :: "nan_engine \<Rightarrow> arr6 \<Rightarrow> ndpe \<Rightarrow> nat option" where
  "ndp_index e peer n =
     (let role = (if np_initiator_ndi n = nc_ndi (ne_cfg e) then Initiator else Responder)
      in ndp_index_role e peer (np_ndp_id n) role)"

definition on_ndp_request :: "arr6 \<Rightarrow> ndpe \<Rightarrow> nan_engine \<Rightarrow> nan_engine" where
  "on_ndp_request peer n e =
     (if np_type n \<noteq> NdpRequest then e
      else case ndp_index e peer n of
        Some i \<Rightarrow>
          if ns_role (ne_ndps e ! i) = Responder \<and> ns_state (ne_ndps e ! i) = AwaitingConfirm
          then e\<lparr>ne_ndps := (ne_ndps e)[i := (ne_ndps e ! i)
                  \<lparr>ns_pending_tx := Some DataPathResponse\<rparr>]\<rparr>
          else e
      | None \<Rightarrow>
          e\<lparr>ne_ndps := ne_ndps e @
             [\<lparr>ns_peer = peer, ns_ndp_id = np_ndp_id n, ns_dialog_token = np_dialog_token n,
               ns_role = Responder, ns_state = AwaitingConfirm,
               ns_peer_ndi = Some (np_initiator_ndi n), ns_peer_iid = ndpe_ipv6_iid n,
               ns_pending_tx = Some DataPathResponse, ns_attempts = 0,
               ns_retry_at_usec = 0\<rparr>]\<rparr>)"

definition on_ndp_response ::
    "arr6 \<Rightarrow> ndpe \<Rightarrow> nan_engine \<Rightarrow> step \<Rightarrow> nan_engine \<times> step" where
  "on_ndp_response peer n e st =
     (case ndp_index e peer n of
        None \<Rightarrow> (e, st)
      | Some i \<Rightarrow>
          let s = ne_ndps e ! i in
          if ns_role s \<noteq> Initiator \<or> ns_state s \<noteq> AwaitingResponse then (e, st)
          else case np_status n of
            NdpRejected \<Rightarrow>
              (e\<lparr>ne_ndps := remove_at i (ne_ndps e)\<rparr>,
               push_event (NdpFailed peer (ns_ndp_id s) (Rejected (np_reason_code n))) st)
          | NdpAccepted \<Rightarrow>
              (case (np_responder_ndi n, ndpe_ipv6_iid n) of
                 (Some ndi, Some iid) \<Rightarrow>
                   (e\<lparr>ne_ndps := (ne_ndps e)[i := s\<lparr>ns_peer_ndi := Some ndi,
                        ns_peer_iid := Some iid, ns_state := Established,
                        ns_pending_tx := Some DataPathConfirm\<rparr>]\<rparr>,
                    push_event (NdpEstablished peer (ns_ndp_id s) (ns_role s) ndi iid) st)
               | _ \<Rightarrow>
                   (e\<lparr>ne_ndps := remove_at i (ne_ndps e)\<rparr>,
                    push_event (NdpFailed peer (ns_ndp_id s) (Rejected 0)) st))
          | NdpContinue \<Rightarrow> (e, st))"

definition on_ndp_confirm ::
    "arr6 \<Rightarrow> ndpe \<Rightarrow> nan_engine \<Rightarrow> step \<Rightarrow> nan_engine \<times> step" where
  "on_ndp_confirm peer n e st =
     (case ndp_index e peer n of
        None \<Rightarrow> (e, st)
      | Some i \<Rightarrow>
          let s = ne_ndps e ! i in
          if ns_role s \<noteq> Responder \<or> ns_state s \<noteq> AwaitingConfirm then (e, st)
          else
            let s = s\<lparr>ns_state := Established\<rparr> in
            case (ns_peer_ndi s, ns_peer_iid s) of
              (Some ndi, Some iid) \<Rightarrow>
                (e\<lparr>ne_ndps := (ne_ndps e)[i := s]\<rparr>,
                 push_event (NdpEstablished peer (ns_ndp_id s) (ns_role s) ndi iid) st)
            | _ \<Rightarrow>
                (e\<lparr>ne_ndps := remove_at i (ne_ndps e)\<rparr>,
                 push_event (NdpFailed peer (ns_ndp_id s) (Rejected 0)) st))"

definition handle_naf ::
    "rx_frame \<Rightarrow> u8 \<Rightarrow> u8 list \<Rightarrow> nan_engine \<Rightarrow> step \<Rightarrow> nan_engine \<times> step" where
  "handle_naf rx subtype attrs e st =
     (if rx_addr1 (rx_bytes rx) \<noteq> Some (nc_nmi (ne_cfg e)) then (e, st)
      else case naf_subtype_from_byte subtype of
        None \<Rightarrow> (e, st)
      | Some sub \<Rightarrow>
          (case attributes_find attrs IdNdpExtension of
             None \<Rightarrow> (e, st)
           | Some attr \<Rightarrow>
               (case ndpe_decode (at_body attr) of
                  Inl _ \<Rightarrow> (e, st)
                | Inr n \<Rightarrow>
                    let peer = rx_addr2 (rx_bytes rx) in
                    (case sub of
                       DataPathRequest \<Rightarrow> (on_ndp_request peer n e, st)
                     | DataPathResponse \<Rightarrow> on_ndp_response peer n e st
                     | DataPathConfirm \<Rightarrow> on_ndp_confirm peer n e st
                     | DataPathTermination \<Rightarrow>
                         (case ndp_index e peer n of
                            Some i \<Rightarrow>
                              (e\<lparr>ne_ndps := remove_at i (ne_ndps e)\<rparr>,
                               push_event (NdpTerminated peer (ns_ndp_id (ne_ndps e ! i))) st)
                          | None \<Rightarrow> (e, st))
                     | _ \<Rightarrow> (e, st)))))"

definition handle_rx :: "rx_frame \<Rightarrow> nan_engine \<times> step \<Rightarrow> nan_engine \<times> step" where
  "handle_rx rx es =
     (let (e, st) = es in
      case classify (rx_bytes rx) of
        Inl _ \<Rightarrow> (e, st)
      | Inr frame \<Rightarrow>
          if h_addr2 (df_header frame) = nc_nmi (ne_cfg e) then (e, st)
          else case df_kind frame of
            FtBeacon \<Rightarrow> (handle_beacon rx e, st)
          | FtAction \<Rightarrow> handle_sdf rx (df_attributes frame) e st
          | FtNaf subtype \<Rightarrow> handle_naf rx subtype (df_attributes frame) e st
          | FtOther \<Rightarrow> (e, st))"

section \<open>Transmitting\<close>

definition beacon_attrs :: "nan_engine \<Rightarrow> usec \<Rightarrow> u8 list" where
  "beacon_attrs e timestamp =
     (let attrs = master_indication_encode
            \<lparr>mi_master_preference = nc_master_preference (ne_cfg e),
             mi_random_factor = nc_random_factor (ne_cfg e)\<rparr> [];
          attrs = cluster_encode
            \<lparr>cl_anchor_master_rank = ne_cluster_amr e, cl_hop_count = 0,
             cl_ambtt = ucast timestamp\<rparr> attrs;
          pub_ids = map fn_service_id (filter (\<lambda>f. fn_kind f = FnPublish) (ne_functions e));
          sub_ids = map fn_service_id (filter (\<lambda>f. fn_kind f = FnSubscribe) (ne_functions e));
          attrs = (if pub_ids \<noteq> [] then service_id_list_encode_publish pub_ids attrs else attrs);
          attrs = (if sub_ids \<noteq> [] then service_id_list_encode_subscribe sub_ids attrs else attrs)
      in attrs)"

definition emit_beacon :: "usec \<Rightarrow> nan_engine \<Rightarrow> step \<Rightarrow> nan_engine \<times> step" where
  "emit_beacon now e st =
     (let timestamp = synced_usec e now;
          (sq, e) = next_seq e;
          beacon = nan_beacon_new BROADCAST (nc_nmi (ne_cfg e)) (ne_cluster_id e) sq timestamp
            (ucast SYNC_BEACON_INTERVAL_TU)
      in (e, push_tx (nan_beacon_encode beacon (beacon_attrs e timestamp)) st))"

text \<open>One function's share of the discovery frame; a passive subscriber adds nothing.\<close>

definition advertise_function :: "nan_function \<Rightarrow> u8 list \<Rightarrow> u8 list" where
  "advertise_function f attrs =
     (if fn_kind f = FnSubscribe \<and> \<not> fn_active f then attrs
      else
        let control_type = (case fn_kind f of FnPublish \<Rightarrow> Publish | FnSubscribe \<Rightarrow> Subscribe);
            sda = service_descriptor_new (fn_service_id f) (fn_instance_id f) control_type;
            sda = (if fn_ssi f \<noteq> [] then with_service_info (fn_ssi f) sda else sda)
        in sdea_encode (sdea_plain (fn_instance_id f)) (service_descriptor_encode sda attrs))"

definition emit_discovery :: "nan_engine \<Rightarrow> step \<Rightarrow> nan_engine \<times> step" where
  "emit_discovery e st =
     (if \<not> list_ex (\<lambda>f. fn_kind f = FnPublish \<or> fn_active f) (ne_functions e) then (e, st)
      else
        let attrs = device_capability_encode device_capability_basic [];
            attrs = encode_availability attrs;
            attrs = fold advertise_function (ne_functions e) attrs;
            (sq, e) = next_seq e;
            sdf = sdf_new NAN_NETWORK_ID (nc_nmi (ne_cfg e)) (ne_cluster_id e) sq
        in (e, push_tx (sdf_encode sdf attrs) st))"

definition emit_followup :: "followup \<Rightarrow> nan_engine \<Rightarrow> step \<Rightarrow> nan_engine \<times> step" where
  "emit_followup fu e st =
     (let sda = (service_descriptor_new (fu_service_id fu) (fu_instance_id fu) FollowUp)
            \<lparr>sd_requestor_instance_id := fu_requestor_instance_id fu\<rparr>;
          sda = (if fu_ssi fu \<noteq> [] then with_service_info (fu_ssi fu) sda else sda);
          attrs = service_descriptor_encode sda [];
          (sq, e) = next_seq e;
          sdf = sdf_new (fu_dest fu) (nc_nmi (ne_cfg e)) (ne_cluster_id e) sq
      in (e, push_tx (sdf_encode sdf attrs) st))"

lemma ne_followups_emit_followup [simp]:
  "ne_followups (fst (emit_followup fu e st)) = ne_followups e"
  by (simp add: emit_followup_def next_seq_def Let_def)

text \<open>The \<open>while let Some(fu) = self.followups.pop_front()\<close> loop.\<close>

function emit_followups :: "nan_engine \<Rightarrow> step \<Rightarrow> nan_engine \<times> step" where
  "emit_followups e st =
     (case ne_followups e of
        [] \<Rightarrow> (e, st)
      | fu # rest \<Rightarrow>
          (case emit_followup fu (e\<lparr>ne_followups := rest\<rparr>) st of
             (e', st') \<Rightarrow> emit_followups e' st'))"
  by pat_completeness auto
termination
proof (relation "measure (\<lambda>(e, _). length (ne_followups e))", goal_cases)
  case 1
  then show ?case by simp
next
  case (2 e st fu rest e' st')
  then have "e' = fst (emit_followup fu (e\<lparr>ne_followups := rest\<rparr>) st)"
    by (metis fst_conv)
  with 2 show ?case by (simp add: case_prod_beta)
qed

declare emit_followups.simps [simp del]

section \<open>The data path: transmit half\<close>

definition saturating_inc :: "u8 \<Rightarrow> u8" where
  "saturating_inc a = (if a = 255 then 255 else a + 1)"

text \<open>
  The attribute a session owes for a pending subtype, and the session after sending it;
  \<open>None\<close> for a subtype the engine never queues (the \<open>_ => continue\<close> branch).
\<close>

definition ndp_reply ::
    "nan_config \<Rightarrow> usec \<Rightarrow> naf_subtype \<Rightarrow> ndp_session \<Rightarrow> (ndpe \<times> ndp_session) option" where
  "ndp_reply cfg now sub s =
     (let our_ndi = nc_ndi cfg; our_iid = eui64_iid (nc_ndi cfg) in
      case sub of
        DataPathRequest \<Rightarrow>
          Some (ndpe_request (ns_dialog_token s) (ns_ndp_id s) our_ndi our_iid,
                s\<lparr>ns_attempts := saturating_inc (ns_attempts s),
                  ns_retry_at_usec := now + NDP_RETRY_USEC\<rparr>)
      | DataPathResponse \<Rightarrow>
          (let init_ndi = (case ns_peer_ndi s of Some a \<Rightarrow> a | None \<Rightarrow> ns_peer s);
               m2 = (if nc_ndp_auto_accept cfg
                     then ndpe_accept (ns_dialog_token s) (ns_ndp_id s) init_ndi our_ndi our_iid
                     else (ndpe_confirm (ns_dialog_token s) (ns_ndp_id s) init_ndi)
                       \<lparr>np_type := NdpResponse, np_status := NdpRejected\<rparr>);
               m2 = (if nc_ndp_auto_accept cfg then m2
                     else m2\<lparr>np_responder_ndi := None, np_tlvs := []\<rparr>)
           in Some (m2, s))
      | DataPathConfirm \<Rightarrow>
          Some (ndpe_confirm (ns_dialog_token s) (ns_ndp_id s) our_ndi, s)
      | DataPathTermination \<Rightarrow>
          Some ((ndpe_confirm (ns_dialog_token s) (ns_ndp_id s) our_ndi)
                  \<lparr>np_type := NdpTerminate\<rparr>, s)
      | _ \<Rightarrow> None)"

type_synonym ndp_frame = "arr6 \<times> naf_subtype \<times> u8 list"
type_synonym ndp_key = "arr6 \<times> u8 \<times> ndp_role"

definition ndp_retry_due :: "usec \<Rightarrow> ndp_session \<Rightarrow> bool" where
  "ndp_retry_due now s \<longleftrightarrow>
     ns_pending_tx s = None \<and> ns_role s = Initiator \<and> ns_state s = AwaitingResponse \<and>
     ns_retry_at_usec s \<le> now"

text \<open>One iteration of the loop: the session after it, its frames, its removals.\<close>

definition emit_ndp_session ::
    "nan_config \<Rightarrow> usec \<Rightarrow> ndp_session \<Rightarrow> ndp_session \<times> ndp_frame list \<times> ndp_key list" where
  "emit_ndp_session cfg now s =
     (let key = (ns_peer s, ns_ndp_id s, ns_role s) in
      if ndp_retry_due now s \<and> NDP_MAX_ATTEMPTS \<le> ns_attempts s then (s, [], [key])
      else
        let s = (if ndp_retry_due now s then s\<lparr>ns_pending_tx := Some DataPathRequest\<rparr> else s) in
        case ns_pending_tx s of
          None \<Rightarrow> (s, [], [])
        | Some sub \<Rightarrow>
            let s = s\<lparr>ns_pending_tx := None\<rparr> in
            (case ndp_reply cfg now sub s of
               None \<Rightarrow> (s, [], [])
             | Some (n, s') \<Rightarrow>
                 (s', [(ns_peer s, sub, ndpe_encode n [])],
                  if sub = DataPathResponse \<and> \<not> nc_ndp_auto_accept cfg then [key] else [])))"

definition send_ndp_frame :: "ndp_frame \<Rightarrow> nan_engine \<times> step \<Rightarrow> nan_engine \<times> step" where
  "send_ndp_frame fr es =
     (let (e, st) = es; (peer, sub, attrs) = fr; (sq, e) = next_seq e;
          naf = naf_new sub peer (nc_nmi (ne_cfg e)) (ne_cluster_id e) sq
      in (e, push_tx (naf_encode naf attrs) st))"

definition drop_ndp :: "ndp_key \<Rightarrow> nan_engine \<times> step \<Rightarrow> nan_engine \<times> step" where
  "drop_ndp key es =
     (let (e, st) = es; (peer, ndp_id, role) = key in
      case ndp_index_role e peer ndp_id role of
        None \<Rightarrow> (e, st)
      | Some i \<Rightarrow>
          let s = ne_ndps e ! i; e = e\<lparr>ne_ndps := remove_at i (ne_ndps e)\<rparr> in
          if ns_role s = Initiator
          then (e, push_event (NdpFailed peer ndp_id TimedOut) st) else (e, st))"

definition emit_ndp :: "usec \<Rightarrow> nan_engine \<Rightarrow> step \<Rightarrow> nan_engine \<times> step" where
  "emit_ndp now e st =
     (let results = map (emit_ndp_session (ne_cfg e) now) (ne_ndps e);
          frames = concat (map (\<lambda>(_, fs, _). fs) results);
          timed_out = concat (map (\<lambda>(_, _, ks). ks) results);
          es = (e\<lparr>ne_ndps := map fst results\<rparr>, st);
          es = fold send_ndp_frame frames es
      in fold drop_ndp timed_out es)"

section \<open>The entry point\<close>

text \<open>The two one-time initialisations at the top of \<open>poll\<close>.\<close>

definition poll_init :: "usec \<Rightarrow> nan_engine \<Rightarrow> nan_engine \<times> step" where
  "poll_init now e =
     (let e = (if \<not> ne_base_initialized e
               then e\<lparr>ne_base_time_usec := now, ne_base_initialized := True\<rparr> else e)
      in if \<not> ne_channel_set e
         then (e\<lparr>ne_channel_set := True\<rparr>,
               step_default\<lparr>st_set_channel := Some (nc_channel (ne_cfg e))\<rparr>)
         else (e, step_default))"

definition poll_burst :: "usec \<Rightarrow> nan_engine \<Rightarrow> step \<Rightarrow> nan_engine \<times> step" where
  "poll_burst now e st =
     (let dw = dw_index e now in
      if ne_last_burst_dw e \<noteq> Some dw then
        let e = e\<lparr>ne_last_burst_dw := Some dw\<rparr>;
            (e, st) = emit_beacon now e st
        in emit_discovery e st
      else (e, st))"

definition poll_transmit :: "usec \<Rightarrow> nan_engine \<Rightarrow> step \<Rightarrow> nan_engine \<times> step" where
  "poll_transmit now e st =
     (if in_dw e now then
        let (e, st) = poll_burst now e st;
            (e, st) = emit_followups e st
        in emit_ndp now e st
      else (e, st))"

definition poll :: "usec \<Rightarrow> rx_frame list \<Rightarrow> nan_engine \<Rightarrow> nan_engine \<times> step" where
  "poll now inbound e =
     (let es = poll_init now e;
          (e, st) = fold handle_rx inbound es;
          (e, st) = poll_transmit now e st
      in (e, st\<lparr>st_wake_at_usec := next_dw_start_usec e now\<rparr>))"

end
