(* ===== verification/Nan_Handshake.thy ===== *)
theory Nan_Handshake
  imports Nan_Engine
begin

text \<open>
  The data-path handshake of \<open>engine.rs\<close> end to end, through the wire format: what one
  engine's \<open>emit_ndp\<close> puts on the air is what the other engine's \<open>handle_rx\<close> acts on.
\<close>

section \<open>Receiving a frame an engine sent\<close>

lemma rx_addr1_header [simp]: "rx_addr1 (dot11_header_bytes h @ ys) = Some (h_addr1 h)"
proof -
  have "take 6 (drop 4 (dot11_header_bytes h @ ys)) = arr6_bytes (h_addr1 h)"
    by (simp add: dot11_header_bytes_def dot11_header_encode_def put_defs)
  then show ?thesis
    by (simp add: rx_addr1_def)
qed

lemma rx_addr2_header [simp]: "rx_addr2 (dot11_header_bytes h @ ys) = h_addr2 h"
proof -
  have "take 6 (drop 10 (dot11_header_bytes h @ ys)) = arr6_bytes (h_addr2 h)"
    by (simp add: dot11_header_bytes_def dot11_header_encode_def put_defs)
  then show ?thesis
    by (simp add: rx_addr2_def)
qed

lemma dot11_header_new_sel [simp]:
  "h_frame_control (dot11_header_new fc a1 a2 a3 s) = fc"
  "h_addr1 (dot11_header_new fc a1 a2 a3 s) = a1"
  "h_addr2 (dot11_header_new fc a1 a2 a3 s) = a2"
  "h_addr3 (dot11_header_new fc a1 a2 a3 s) = a3"
  by (simp_all add: dot11_header_new_def)

text \<open>The frame that carries one NDPE attribute.\<close>

definition ndp_frame_bytes :: "naf_subtype \<Rightarrow> arr6 \<Rightarrow> arr6 \<Rightarrow> arr6 \<Rightarrow> u16 \<Rightarrow> ndpe \<Rightarrow> u8 list" where
  "ndp_frame_bytes sub dst src cid sq n = naf_encode (naf_new sub dst src cid sq) (ndpe_encode n [])"

text \<open>The state change an NDPE from \<open>peer\<close> makes, by subtype.\<close>

definition ndp_dispatch ::
    "naf_subtype \<Rightarrow> arr6 \<Rightarrow> ndpe \<Rightarrow> nan_engine \<Rightarrow> step \<Rightarrow> nan_engine \<times> step" where
  "ndp_dispatch sub peer n e st =
     (case sub of
        DataPathRequest \<Rightarrow> (on_ndp_request peer n e, st)
      | DataPathResponse \<Rightarrow> on_ndp_response peer n e st
      | DataPathConfirm \<Rightarrow> on_ndp_confirm peer n e st
      | DataPathTermination \<Rightarrow>
          (case ndp_index e peer n of
             Some i \<Rightarrow> (e\<lparr>ne_ndps := remove_at i (ne_ndps e)\<rparr>,
                        push_event (NdpTerminated peer (ns_ndp_id (ne_ndps e ! i))) st)
           | None \<Rightarrow> (e, st))
      | _ \<Rightarrow> (e, st))"

lemma handle_rx_ndp_frame:
  assumes "rx_bytes rx = ndp_frame_bytes sub dst src cid sq n"
    and "ndpe_valid n" and "src \<noteq> nc_nmi (ne_cfg e)"
  shows "handle_rx rx (e, st) =
    (if dst = nc_nmi (ne_cfg e) then ndp_dispatch sub src (ndpe_on_wire n) e st else (e, st))"
proof -
  let ?f = "naf_new sub dst src cid sq"
  have hdr: "nf_header ?f = dot11_header_new FC_ACTION dst src cid sq"
    "nf_subtype ?f = naf_subtype_byte sub"
    by (simp_all add: naf_new_def)
  have cl: "classify (rx_bytes rx) = Inr \<lparr>df_header = nf_header ?f,
      df_kind = FtNaf (nf_subtype ?f), df_attributes = ndpe_encode n []\<rparr>"
    unfolding assms(1) ndp_frame_bytes_def by (rule classify_naf) (simp add: hdr)
  have a1: "rx_addr1 (rx_bytes rx) = Some dst" and a2: "rx_addr2 (rx_bytes rx) = src"
    unfolding assms(1) ndp_frame_bytes_def naf_encode_eq by (simp_all add: hdr)
  have fnd: "attributes_find (ndpe_encode n []) IdNdpExtension =
      Some \<lparr>at_id = attribute_id_byte IdNdpExtension, at_body = ndpe_body n\<rparr>"
    using ndpe_codec.find_encoded [OF assms(2), of "[]"] by simp
  show ?thesis
    using assms(3)
    by (simp add: handle_rx_def cl hdr handle_naf_def a1 a2 fnd ndpe_decode_body assms(2)
        ndp_dispatch_def Let_def)
qed

lemma send_ndp_frame_eq:
  "send_ndp_frame (peer, sub, ndpe_encode n []) (e, st) =
    (e\<lparr>ne_seq := (ne_seq e + 1) AND 0x0FFF\<rparr>,
     push_tx (ndp_frame_bytes sub peer (nc_nmi (ne_cfg e)) (ne_cluster_id e) (ne_seq e) n) st)"
  by (simp add: send_ndp_frame_def next_seq_def ndp_frame_bytes_def Let_def)

section \<open>The three messages on the wire\<close>

lemma ndpe_request_on_wire:
  "ndpe_on_wire (ndpe_request d i ndi iid) = ndpe_request d i ndi iid"
  by (simp add: ndpe_on_wire_def ndpe_request_def ndpe_control_byte_def CONFIRM_REQUIRED_def
      PUBLISH_ID_PRESENT_def RESPONDER_NDI_PRESENT_def ndpe_carries_responder_def)

lemma ndpe_accept_on_wire:
  "ndpe_on_wire (ndpe_accept d i ndi rndi iid) = ndpe_accept d i ndi rndi iid"
  by (simp add: ndpe_on_wire_def ndpe_accept_def ndpe_control_byte_def
      PUBLISH_ID_PRESENT_def RESPONDER_NDI_PRESENT_def ndpe_carries_responder_def)

lemma ndpe_confirm_on_wire: "ndpe_on_wire (ndpe_confirm d i ndi) = ndpe_confirm d i ndi"
  by (simp add: ndpe_on_wire_def ndpe_confirm_def ndpe_control_byte_def
      PUBLISH_ID_PRESENT_def RESPONDER_NDI_PRESENT_def ndpe_carries_responder_def)

definition ndpe_reject :: "u8 \<Rightarrow> u8 \<Rightarrow> arr6 \<Rightarrow> ndpe" where
  "ndpe_reject d i ndi = (ndpe_confirm d i ndi)\<lparr>np_type := NdpResponse, np_status := NdpRejected,
     np_responder_ndi := None, np_tlvs := []\<rparr>"

lemma ndpe_reject_on_wire: "ndpe_on_wire (ndpe_reject d i ndi) = ndpe_reject d i ndi"
  by (simp add: ndpe_on_wire_def ndpe_reject_def ndpe_confirm_def ndpe_control_byte_def
      PUBLISH_ID_PRESENT_def RESPONDER_NDI_PRESENT_def ndpe_carries_responder_def)

lemma ndpe_reject_valid: "ndpe_valid (ndpe_reject d i ndi)"
  by (simp add: ndpe_valid_def ndpe_reject_def ndpe_confirm_def ndpe_body_eq
      ndpe_carries_responder_def)

lemma ndpe_ipv6_iid_constructors [simp]:
  "ndpe_ipv6_iid (ndpe_request d i ndi iid) = Some iid"
  "ndpe_ipv6_iid (ndpe_accept d i ndi rndi iid) = Some iid"
  "ndpe_ipv6_iid (ndpe_confirm d i ndi) = None"
  by (simp_all add: ndpe_ipv6_iid_def ndpe_request_def ndpe_accept_def ndpe_confirm_def)

section \<open>Sessions of the exchange\<close>

definition initiator_session :: "arr6 \<Rightarrow> u8 \<Rightarrow> u8 \<Rightarrow> ndp_session" where
  "initiator_session peer ndp_id token =
     \<lparr>ns_peer = peer, ns_ndp_id = ndp_id, ns_dialog_token = token, ns_role = Initiator,
      ns_state = AwaitingResponse, ns_peer_ndi = None, ns_peer_iid = None,
      ns_pending_tx = Some DataPathRequest, ns_attempts = 0, ns_retry_at_usec = 0\<rparr>"

definition responder_session :: "arr6 \<Rightarrow> u8 \<Rightarrow> u8 \<Rightarrow> arr6 \<Rightarrow> arr8 \<Rightarrow> ndp_session" where
  "responder_session peer ndp_id token ndi iid =
     \<lparr>ns_peer = peer, ns_ndp_id = ndp_id, ns_dialog_token = token, ns_role = Responder,
      ns_state = AwaitingConfirm, ns_peer_ndi = Some ndi, ns_peer_iid = Some iid,
      ns_pending_tx = Some DataPathResponse, ns_attempts = 0, ns_retry_at_usec = 0\<rparr>"

lemma request_ndp_fresh:
  "ne_ndps e = [] \<Longrightarrow> request_ndp peer e = (ne_next_ndp_id e,
    e\<lparr>ne_next_ndp_id := next_id (ne_next_ndp_id e),
      ne_next_dialog_token := next_id (ne_next_dialog_token e),
      ne_ndps := [initiator_session peer (ne_next_ndp_id e) (ne_next_dialog_token e)]\<rparr>)"
  by (simp add: request_ndp_def initiator_session_def)

text \<open>An engine whose one session owes one message sends that frame and nothing else.\<close>

lemma emit_ndp_single:
  assumes "ne_ndps e = [s]" and "ns_pending_tx s = Some sub"
    and "ndp_reply (ne_cfg e) now sub (s\<lparr>ns_pending_tx := None\<rparr>) = Some (n, s')"
    and "sub \<noteq> DataPathResponse \<or> nc_ndp_auto_accept (ne_cfg e)"
  shows "emit_ndp now e st =
    (e\<lparr>ne_ndps := [s'], ne_seq := (ne_seq e + 1) AND 0x0FFF\<rparr>,
     push_tx (ndp_frame_bytes sub (ns_peer s) (nc_nmi (ne_cfg e)) (ne_cluster_id e)
       (ne_seq e) n) st)"
proof -
  have "\<not> ndp_retry_due now s"
    using assms(2) by (simp add: ndp_retry_due_def)
  then have "emit_ndp_session (ne_cfg e) now s =
      (s', [(ns_peer s, sub, ndpe_encode n [])], [])"
    using assms(2-4) by (auto simp: emit_ndp_session_def Let_def)
  then show ?thesis
    by (simp add: emit_ndp_def assms(1) send_ndp_frame_eq Let_def)
qed

section \<open>The exchange\<close>

definition rx_of :: "usec \<Rightarrow> u8 list \<Rightarrow> rx_frame" where
  "rx_of now bytes = \<lparr>rx_bytes = bytes, rx_rssi_dbm = None, rx_now_usec = now\<rparr>"

text \<open>
  One hop: \<open>a\<close> runs its transmit half at \<open>now\<close> and \<open>b\<close> receives, in order, every frame \<open>a\<close>
  put on the air. The result is the two engines after it and the events \<open>b\<close> surfaces.
\<close>

definition ndp_hop ::
    "usec \<Rightarrow> nan_engine \<Rightarrow> nan_engine \<Rightarrow> nan_engine \<times> nan_engine \<times> nan_event list" where
  "ndp_hop now a b =
     (let (a', sa) = emit_ndp now a step_default;
          (b', sb) = fold handle_rx (map (rx_of now \<circ> tx_bytes) (st_tx sa)) (b, step_default)
      in (a', b', st_events sb))"

text \<open>
  M1, M2 and M3 at three instants: the engines at the end and the events of the
  initiator and of the responder.
\<close>

definition ndp_exchange ::
    "usec \<Rightarrow> usec \<Rightarrow> usec \<Rightarrow> nan_engine \<Rightarrow> nan_engine \<Rightarrow>
     nan_engine \<times> nan_engine \<times> nan_event list \<times> nan_event list" where
  "ndp_exchange t1 t2 t3 a b =
     (let (a, b, ev1) = ndp_hop t1 a b;
          (b, a, ev2) = ndp_hop t2 b a;
          (a, b, ev3) = ndp_hop t3 a b
      in (a, b, ev2, ev1 @ ev3))"

lemma ndp_hop_single:
  assumes "ne_ndps a = [s]" and "ns_pending_tx s = Some sub"
    and "ndp_reply (ne_cfg a) now sub (s\<lparr>ns_pending_tx := None\<rparr>) = Some (n, s')"
    and "sub \<noteq> DataPathResponse \<or> nc_ndp_auto_accept (ne_cfg a)"
    and "ns_peer s = nc_nmi (ne_cfg b)" and "nc_nmi (ne_cfg a) \<noteq> nc_nmi (ne_cfg b)"
    and "ndpe_valid n" and "ndpe_on_wire n = n"
  shows "ndp_hop now a b =
    (a\<lparr>ne_ndps := [s'], ne_seq := (ne_seq a + 1) AND 0x0FFF\<rparr>,
     fst (ndp_dispatch sub (nc_nmi (ne_cfg a)) n b step_default),
     st_events (snd (ndp_dispatch sub (nc_nmi (ne_cfg a)) n b step_default)))"
proof -
  let ?m = "ndp_frame_bytes sub (ns_peer s) (nc_nmi (ne_cfg a)) (ne_cluster_id a) (ne_seq a) n"
  have "handle_rx (rx_of now ?m) (b, step_default) =
      ndp_dispatch sub (nc_nmi (ne_cfg a)) n b step_default"
    using handle_rx_ndp_frame [of "rx_of now ?m" sub "ns_peer s" "nc_nmi (ne_cfg a)"
        "ne_cluster_id a" "ne_seq a" n b step_default] assms(5-8)
    by (simp add: rx_of_def)
  then show ?thesis
    by (simp add: ndp_hop_def emit_ndp_single [OF assms(1-4)] push_tx_def step_default_def
        case_prod_beta)
qed

text \<open>The reply of a node that refuses data paths: M2 with status Rejected, session dropped.\<close>

lemma ndp_hop_reject:
  assumes "ne_ndps b = [responder_session (nc_nmi (ne_cfg a)) i tok ndi iid]"
    and "\<not> nc_ndp_auto_accept (ne_cfg b)" and "nc_nmi (ne_cfg a) \<noteq> nc_nmi (ne_cfg b)"
  shows "ndp_hop now b a =
    (b\<lparr>ne_ndps := [], ne_seq := (ne_seq b + 1) AND 0x0FFF\<rparr>,
     fst (on_ndp_response (nc_nmi (ne_cfg b)) (ndpe_reject tok i ndi) a step_default),
     st_events (snd (on_ndp_response (nc_nmi (ne_cfg b)) (ndpe_reject tok i ndi) a step_default)))"
proof -
  let ?s = "responder_session (nc_nmi (ne_cfg a)) i tok ndi iid"
  let ?n = "ndpe_reject tok i ndi"
  have ses: "emit_ndp_session (ne_cfg b) now ?s =
      (?s\<lparr>ns_pending_tx := None\<rparr>,
       [(nc_nmi (ne_cfg a), DataPathResponse, ndpe_encode ?n [])],
       [(nc_nmi (ne_cfg a), i, Responder)])"
    using assms(2)
    by (simp add: emit_ndp_session_def responder_session_def ndp_retry_due_def ndp_reply_def
        ndpe_reject_def)
  have em: "emit_ndp now b step_default =
      (b\<lparr>ne_ndps := [], ne_seq := (ne_seq b + 1) AND 0x0FFF\<rparr>,
       push_tx (ndp_frame_bytes DataPathResponse (nc_nmi (ne_cfg a)) (nc_nmi (ne_cfg b))
         (ne_cluster_id b) (ne_seq b) ?n) step_default)"
    by (simp add: emit_ndp_def assms(1) ses send_ndp_frame_eq drop_ndp_def ndp_index_role_def
        Let_def) (simp add: responder_session_def)
  have rx: "handle_rx (rx_of now (ndp_frame_bytes DataPathResponse (nc_nmi (ne_cfg a))
        (nc_nmi (ne_cfg b)) (ne_cluster_id b) (ne_seq b) ?n)) (a, step_default) =
      on_ndp_response (nc_nmi (ne_cfg b)) ?n a step_default"
    using handle_rx_ndp_frame [OF _ ndpe_reject_valid, of _ DataPathResponse "nc_nmi (ne_cfg a)"
        "nc_nmi (ne_cfg b)" "ne_cluster_id b" "ne_seq b" tok i ndi a step_default] assms(3)
    by (simp add: rx_of_def ndpe_reject_on_wire ndp_dispatch_def)
  have tx: "st_tx (push_tx bytes step_default) = [TxFrame bytes]" for bytes
    by (simp add: push_tx_def step_default_def)
  show ?thesis
    by (simp add: ndp_hop_def em tx rx case_prod_beta)
qed

section \<open>Outcome of the exchange\<close>

text \<open>The initiator's session after M1, and the two sessions after M3.\<close>

definition initiator_waiting :: "arr6 \<Rightarrow> u8 \<Rightarrow> u8 \<Rightarrow> usec \<Rightarrow> ndp_session" where
  "initiator_waiting peer i tok t =
     (initiator_session peer i tok)\<lparr>ns_pending_tx := None, ns_attempts := 1,
       ns_retry_at_usec := t + NDP_RETRY_USEC\<rparr>"

definition initiator_up :: "arr6 \<Rightarrow> u8 \<Rightarrow> u8 \<Rightarrow> usec \<Rightarrow> arr6 \<Rightarrow> ndp_session" where
  "initiator_up peer i tok t ndi =
     (initiator_waiting peer i tok t)\<lparr>ns_state := Established, ns_peer_ndi := Some ndi,
       ns_peer_iid := Some (eui64_iid ndi)\<rparr>"

definition responder_up :: "arr6 \<Rightarrow> u8 \<Rightarrow> u8 \<Rightarrow> arr6 \<Rightarrow> ndp_session" where
  "responder_up peer i tok ndi =
     (responder_session peer i tok ndi (eui64_iid ndi))\<lparr>ns_state := Established,
       ns_pending_tx := None\<rparr>"

lemmas session_defs = initiator_session_def responder_session_def initiator_waiting_def
  initiator_up_def responder_up_def

lemma on_request_new:
  assumes "nc_ndi (ne_cfg b) \<noteq> ndi" and "ne_ndps b = []"
  shows "on_ndp_request peer (ndpe_request tok i ndi iid) b =
    b\<lparr>ne_ndps := [responder_session peer i tok ndi iid]\<rparr>"
  using assms
  by (simp add: on_ndp_request_def ndp_index_def ndp_index_role_def responder_session_def)
    (simp add: ndpe_request_def)

lemma on_response_accept:
  assumes "ne_ndps a = [initiator_waiting peer i tok t]"
  shows "on_ndp_response peer (ndpe_accept tok i (nc_ndi (ne_cfg a)) rndi (eui64_iid rndi)) a st =
    (a\<lparr>ne_ndps := [(initiator_up peer i tok t rndi)\<lparr>ns_pending_tx := Some DataPathConfirm\<rparr>]\<rparr>,
     push_event (NdpEstablished peer i Initiator rndi (eui64_iid rndi)) st)"
  using assms
  by (simp add: on_ndp_response_def ndp_index_def ndp_index_role_def session_defs)
    (simp add: ndpe_accept_def ndpe_ipv6_iid_def)

lemma on_response_reject:
  assumes "ne_ndps a = [initiator_waiting peer i tok t]"
  shows "on_ndp_response peer (ndpe_reject tok i (nc_ndi (ne_cfg a))) a st =
    (a\<lparr>ne_ndps := []\<rparr>, push_event (NdpFailed peer i (Rejected 0)) st)"
  using assms
  by (simp add: on_ndp_response_def ndp_index_def ndp_index_role_def session_defs
      ndpe_reject_def ndpe_confirm_def)

lemma on_confirm_waiting:
  assumes "ne_ndps b = [(responder_session peer i tok ndi (eui64_iid ndi))\<lparr>ns_pending_tx := p\<rparr>]"
    and "nc_ndi (ne_cfg b) \<noteq> ndi"
  shows "on_ndp_confirm peer (ndpe_confirm tok i ndi) b st =
    (b\<lparr>ne_ndps := [(responder_up peer i tok ndi)\<lparr>ns_pending_tx := p\<rparr>]\<rparr>,
     push_event (NdpEstablished peer i Responder ndi (eui64_iid ndi)) st)"
  using assms
  by (simp add: on_ndp_confirm_def ndp_index_def ndp_index_role_def session_defs
      ndpe_confirm_def)

lemma step_default_events [simp]:
  "st_events step_default = []" "st_events (push_event ev st) = st_events st @ [ev]"
  by (simp_all add: step_default_def push_event_def)

lemma push_tx_sel [simp]:
  "st_tx (push_tx f st) = st_tx st @ [TxFrame f]" "st_events (push_tx f st) = st_events st"
  "st_tx (push_event ev st) = st_tx st" "st_tx step_default = []"
  by (simp_all add: push_tx_def push_event_def step_default_def)

lemma ndp_hop_request:
  assumes "ne_ndps a = [initiator_session (nc_nmi (ne_cfg b)) i tok]" and "ne_ndps b = []"
    and "nc_nmi (ne_cfg a) \<noteq> nc_nmi (ne_cfg b)" and "nc_ndi (ne_cfg a) \<noteq> nc_ndi (ne_cfg b)"
  shows "ndp_hop t a b =
    (a\<lparr>ne_ndps := [initiator_waiting (nc_nmi (ne_cfg b)) i tok t],
       ne_seq := (ne_seq a + 1) AND 0x0FFF\<rparr>,
     b\<lparr>ne_ndps := [responder_session (nc_nmi (ne_cfg a)) i tok (nc_ndi (ne_cfg a))
         (eui64_iid (nc_ndi (ne_cfg a)))]\<rparr>, [])"
proof -
  let ?s = "initiator_session (nc_nmi (ne_cfg b)) i tok"
  let ?n = "ndpe_request tok i (nc_ndi (ne_cfg a)) (eui64_iid (nc_ndi (ne_cfg a)))"
  have "ndp_reply (ne_cfg a) t DataPathRequest (?s\<lparr>ns_pending_tx := None\<rparr>) =
      Some (?n, initiator_waiting (nc_nmi (ne_cfg b)) i tok t)"
    by (simp add: ndp_reply_def session_defs saturating_inc_def)
  from ndp_hop_single [OF assms(1) _ this _ _ assms(3) ndpe_valid_constructors(1)
      ndpe_request_on_wire]
  show ?thesis
    using on_request_new [of b "nc_ndi (ne_cfg a)"] assms(2,4)
    by (simp add: initiator_session_def ndp_dispatch_def)
qed

lemma ndp_hop_accept:
  assumes "ne_ndps b = [responder_session (nc_nmi (ne_cfg a)) i tok (nc_ndi (ne_cfg a)) iid]"
    and "ne_ndps a = [initiator_waiting (nc_nmi (ne_cfg b)) i tok t]"
    and "nc_nmi (ne_cfg b) \<noteq> nc_nmi (ne_cfg a)" and "nc_ndp_auto_accept (ne_cfg b)"
  shows "ndp_hop t' b a =
    (b\<lparr>ne_ndps := [(responder_session (nc_nmi (ne_cfg a)) i tok (nc_ndi (ne_cfg a)) iid)
         \<lparr>ns_pending_tx := None\<rparr>], ne_seq := (ne_seq b + 1) AND 0x0FFF\<rparr>,
     a\<lparr>ne_ndps := [(initiator_up (nc_nmi (ne_cfg b)) i tok t (nc_ndi (ne_cfg b)))
         \<lparr>ns_pending_tx := Some DataPathConfirm\<rparr>]\<rparr>,
     [NdpEstablished (nc_nmi (ne_cfg b)) i Initiator (nc_ndi (ne_cfg b))
        (eui64_iid (nc_ndi (ne_cfg b)))])"
proof -
  let ?s = "responder_session (nc_nmi (ne_cfg a)) i tok (nc_ndi (ne_cfg a)) iid"
  let ?n = "ndpe_accept tok i (nc_ndi (ne_cfg a)) (nc_ndi (ne_cfg b))
      (eui64_iid (nc_ndi (ne_cfg b)))"
  have "ndp_reply (ne_cfg b) t' DataPathResponse (?s\<lparr>ns_pending_tx := None\<rparr>) =
      Some (?n, ?s\<lparr>ns_pending_tx := None\<rparr>)"
    using assms(4) by (simp add: ndp_reply_def session_defs)
  from ndp_hop_single [OF assms(1) _ this _ _ assms(3) ndpe_valid_constructors(2)
      ndpe_accept_on_wire]
  show ?thesis
    using on_response_accept [OF assms(2)] assms(4)
    by (simp add: responder_session_def ndp_dispatch_def)
qed

lemma ndp_hop_confirm:
  assumes "ne_ndps a = [(initiator_up (nc_nmi (ne_cfg b)) i tok t ndi)
      \<lparr>ns_pending_tx := Some DataPathConfirm\<rparr>]"
    and "ne_ndps b = [(responder_session (nc_nmi (ne_cfg a)) i tok (nc_ndi (ne_cfg a))
      (eui64_iid (nc_ndi (ne_cfg a))))\<lparr>ns_pending_tx := None\<rparr>]"
    and "nc_nmi (ne_cfg a) \<noteq> nc_nmi (ne_cfg b)" and "nc_ndi (ne_cfg b) \<noteq> nc_ndi (ne_cfg a)"
  shows "ndp_hop t' a b =
    (a\<lparr>ne_ndps := [initiator_up (nc_nmi (ne_cfg b)) i tok t ndi],
       ne_seq := (ne_seq a + 1) AND 0x0FFF\<rparr>,
     b\<lparr>ne_ndps := [responder_up (nc_nmi (ne_cfg a)) i tok (nc_ndi (ne_cfg a))]\<rparr>,
     [NdpEstablished (nc_nmi (ne_cfg a)) i Responder (nc_ndi (ne_cfg a))
        (eui64_iid (nc_ndi (ne_cfg a)))])"
proof -
  let ?s = "(initiator_up (nc_nmi (ne_cfg b)) i tok t ndi)\<lparr>ns_pending_tx := Some DataPathConfirm\<rparr>"
  let ?n = "ndpe_confirm tok i (nc_ndi (ne_cfg a))"
  have "ndp_reply (ne_cfg a) t' DataPathConfirm (?s\<lparr>ns_pending_tx := None\<rparr>) =
      Some (?n, initiator_up (nc_nmi (ne_cfg b)) i tok t ndi)"
    by (simp add: ndp_reply_def session_defs)
  from ndp_hop_single [OF assms(1) _ this _ _ assms(3) ndpe_valid_constructors(3)
      ndpe_confirm_on_wire]
  show ?thesis
    using on_confirm_waiting [OF assms(2,4)]
    by (simp add: ndp_dispatch_def) (simp add: session_defs)
qed

lemma ndp_exchange_states:
  assumes "nc_nmi (ne_cfg a) \<noteq> nc_nmi (ne_cfg b)" and "nc_ndi (ne_cfg a) \<noteq> nc_ndi (ne_cfg b)"
    and "ne_ndps a = [initiator_session (nc_nmi (ne_cfg b)) i tok]" and "ne_ndps b = []"
    and "nc_ndp_auto_accept (ne_cfg b)"
  shows "ndp_exchange t1 t2 t3 a b =
    (a\<lparr>ne_ndps := [initiator_up (nc_nmi (ne_cfg b)) i tok t1 (nc_ndi (ne_cfg b))],
       ne_seq := (((ne_seq a + 1) AND 0x0FFF) + 1) AND 0x0FFF\<rparr>,
     b\<lparr>ne_ndps := [responder_up (nc_nmi (ne_cfg a)) i tok (nc_ndi (ne_cfg a))],
       ne_seq := (ne_seq b + 1) AND 0x0FFF\<rparr>,
     [NdpEstablished (nc_nmi (ne_cfg b)) i Initiator (nc_ndi (ne_cfg b))
        (eui64_iid (nc_ndi (ne_cfg b)))],
     [NdpEstablished (nc_nmi (ne_cfg a)) i Responder (nc_ndi (ne_cfg a))
        (eui64_iid (nc_ndi (ne_cfg a)))])"
proof -
  note h1 = ndp_hop_request [OF assms(3,4,1,2), of t1]
  let ?a1 = "a\<lparr>ne_ndps := [initiator_waiting (nc_nmi (ne_cfg b)) i tok t1],
       ne_seq := (ne_seq a + 1) AND 0x0FFF\<rparr>"
  let ?b1 = "b\<lparr>ne_ndps := [responder_session (nc_nmi (ne_cfg a)) i tok (nc_ndi (ne_cfg a))
         (eui64_iid (nc_ndi (ne_cfg a)))]\<rparr>"
  have h2: "ndp_hop t2 ?b1 ?a1 =
    (b\<lparr>ne_ndps := [(responder_session (nc_nmi (ne_cfg a)) i tok (nc_ndi (ne_cfg a))
         (eui64_iid (nc_ndi (ne_cfg a))))\<lparr>ns_pending_tx := None\<rparr>],
       ne_seq := (ne_seq b + 1) AND 0x0FFF\<rparr>,
     a\<lparr>ne_ndps := [(initiator_up (nc_nmi (ne_cfg b)) i tok t1 (nc_ndi (ne_cfg b)))
         \<lparr>ns_pending_tx := Some DataPathConfirm\<rparr>], ne_seq := (ne_seq a + 1) AND 0x0FFF\<rparr>,
     [NdpEstablished (nc_nmi (ne_cfg b)) i Initiator (nc_ndi (ne_cfg b))
        (eui64_iid (nc_ndi (ne_cfg b)))])"
    using ndp_hop_accept [of ?b1 ?a1 i tok _ t1 t2] assms(1,5) by simp
  let ?a2 = "a\<lparr>ne_ndps := [(initiator_up (nc_nmi (ne_cfg b)) i tok t1 (nc_ndi (ne_cfg b)))
         \<lparr>ns_pending_tx := Some DataPathConfirm\<rparr>], ne_seq := (ne_seq a + 1) AND 0x0FFF\<rparr>"
  let ?b2 = "b\<lparr>ne_ndps := [(responder_session (nc_nmi (ne_cfg a)) i tok (nc_ndi (ne_cfg a))
         (eui64_iid (nc_ndi (ne_cfg a))))\<lparr>ns_pending_tx := None\<rparr>],
       ne_seq := (ne_seq b + 1) AND 0x0FFF\<rparr>"
  show ?thesis
    using ndp_hop_confirm [of ?a2 ?b2 i tok t1 "nc_ndi (ne_cfg b)" t3] assms(1,2)
    by (simp add: ndp_exchange_def h1 h2)
qed

end
