(* ===== verification/Nan_Dataplane.thy ===== *)
theory Nan_Dataplane
  imports Nan_Handshake
begin

text \<open>
  What the data-path handshake of \<open>engine.rs\<close> promises: an accepted request ends with both
  ends up and knowing each other's data interface, a refused one leaves nothing behind, an
  unanswered one stops after \<open>NDP_MAX_ATTEMPTS\<close> requests; and two places where the
  teardown and the confirm do less than their comments say.
\<close>

section \<open>Two nodes for the concrete runs\<close>

definition node_a :: nan_engine where
  "node_a = with_rendezvous (nan_config_new (Arr6 2 0 0 0 0 0xa) 6 200) (always_on 1000)"

definition node_b :: nan_engine where
  "node_b = with_rendezvous
     (with_ndi (Arr6 2 0 0 0 1 0xb) (nan_config_new (Arr6 2 0 0 0 0 0xb) 6 50)) (always_on 1000)"

definition node_c :: nan_engine where
  "node_c = node_b\<lparr>ne_cfg := (ne_cfg node_b)\<lparr>nc_ndp_auto_accept := False\<rparr>\<rparr>"

lemma node_sel [simp]:
  "nc_nmi (ne_cfg node_a) = Arr6 2 0 0 0 0 0xa" "nc_ndi (ne_cfg node_a) = Arr6 2 0 0 0 0 0xa"
  "nc_nmi (ne_cfg node_b) = Arr6 2 0 0 0 0 0xb" "nc_ndi (ne_cfg node_b) = Arr6 2 0 0 0 1 0xb"
  "nc_nmi (ne_cfg node_c) = Arr6 2 0 0 0 0 0xb" "nc_ndi (ne_cfg node_c) = Arr6 2 0 0 0 1 0xb"
  "ne_ndps node_a = []" "ne_ndps node_b = []" "ne_ndps node_c = []"
  "nc_ndp_auto_accept (ne_cfg node_a)" "nc_ndp_auto_accept (ne_cfg node_b)"
  "\<not> nc_ndp_auto_accept (ne_cfg node_c)"
  "ne_next_ndp_id node_a = 1" "ne_next_ndp_id node_b = 1" "ne_next_ndp_id node_c = 1"
  by (simp_all add: node_a_def node_b_def node_c_def with_rendezvous_def nan_engine_new_def
      nan_config_new_def with_ndi_def)

section \<open>The exchange\<close>

lemma established_up:
  "ne_ndps e = [initiator_up p i tok t ndi] \<Longrightarrow> established_ndps e = 1"
  "ne_ndps e = [responder_up p i tok ndi] \<Longrightarrow> established_ndps e = 1"
  by (simp_all add: established_ndps_def session_defs)

lemma request_ndp_obtain:
  assumes "ne_ndps a = []"
  obtains a1 where "request_ndp peer a = (ne_next_ndp_id a, a1)"
    and "ne_ndps a1 = [initiator_session peer (ne_next_ndp_id a) (ne_next_dialog_token a)]"
    and "ne_cfg a1 = ne_cfg a"
  using request_ndp_fresh [OF assms] by simp

text \<open>
  (C1) A requested data path comes up at both ends. Two nodes with distinct NMIs and NDIs and
  no session, the responder accepting: after the request, M1, M2 and M3 carried over the air
  at any three instants, each side has surfaced exactly one event, \<open>NdpEstablished\<close> with its
  role, the request's id, the other node's NDI and the EUI-64 interface identifier of that
  NDI; each has exactly one session and it is established.
\<close>

theorem ndp_handshake_establishes:
  assumes "nc_nmi (ne_cfg a) \<noteq> nc_nmi (ne_cfg b)" and "nc_ndi (ne_cfg a) \<noteq> nc_ndi (ne_cfg b)"
    and "ne_ndps a = []" and "ne_ndps b = []" and "nc_ndp_auto_accept (ne_cfg b)"
  shows "let (i, a1) = request_ndp (nc_nmi (ne_cfg b)) a;
             (a2, b2, ev_a, ev_b) = ndp_exchange t1 t2 t3 a1 b;
             (ndi_a, iid_a) = local_ndp_identity a; (ndi_b, iid_b) = local_ndp_identity b
         in ev_a = [NdpEstablished (nc_nmi (ne_cfg b)) i Initiator ndi_b iid_b]
          \<and> ev_b = [NdpEstablished (nc_nmi (ne_cfg a)) i Responder ndi_a iid_a]
          \<and> length (ne_ndps a2) = 1 \<and> established_ndps a2 = 1
          \<and> length (ne_ndps b2) = 1 \<and> established_ndps b2 = 1"
proof -
  obtain a1 where req: "request_ndp (nc_nmi (ne_cfg b)) a = (ne_next_ndp_id a, a1)"
    and ndps: "ne_ndps a1 = [initiator_session (nc_nmi (ne_cfg b)) (ne_next_ndp_id a)
        (ne_next_dialog_token a)]"
    and cfg: "ne_cfg a1 = ne_cfg a"
    using assms(3) by (rule request_ndp_obtain)
  show ?thesis
    using ndp_exchange_states [of a1 b, OF _ _ ndps assms(4,5)] assms(1,2)
    by (simp add: req local_ndp_identity_def cfg established_up)
qed

theorem ndp_handshake_establishes_witness:
  "let (i, a1) = request_ndp (nc_nmi (ne_cfg node_b)) node_a;
       (a2, b2, ev_a, ev_b) = ndp_exchange 10 20 30 a1 node_b;
       (ndi_a, iid_a) = local_ndp_identity node_a; (ndi_b, iid_b) = local_ndp_identity node_b
   in ev_a = [NdpEstablished (nc_nmi (ne_cfg node_b)) i Initiator ndi_b iid_b]
    \<and> ev_b = [NdpEstablished (nc_nmi (ne_cfg node_a)) i Responder ndi_a iid_a]
    \<and> length (ne_ndps a2) = 1 \<and> established_ndps a2 = 1
    \<and> length (ne_ndps b2) = 1 \<and> established_ndps b2 = 1"
  by (rule ndp_handshake_establishes) simp_all

text \<open>
  A refused data path leaves nothing behind. If the responder does not accept, M1 is
  answered by an M2 with status Rejected: the initiator surfaces \<open>NdpFailed\<close> with the
  request's id and the reason code on the wire, the responder surfaces nothing, and neither
  keeps a session.
\<close>

theorem ndp_request_refused:
  assumes "nc_nmi (ne_cfg a) \<noteq> nc_nmi (ne_cfg b)" and "nc_ndi (ne_cfg a) \<noteq> nc_ndi (ne_cfg b)"
    and "ne_ndps a = []" and "ne_ndps b = []" and "\<not> nc_ndp_auto_accept (ne_cfg b)"
  shows "let (i, a1) = request_ndp (nc_nmi (ne_cfg b)) a;
             (a2, b2, ev1) = ndp_hop t1 a1 b; (b3, a3, ev2) = ndp_hop t2 b2 a2
         in ev1 = [] \<and> ev2 = [NdpFailed (nc_nmi (ne_cfg b)) i (Rejected 0)]
          \<and> ne_ndps a3 = [] \<and> ne_ndps b3 = []"
proof -
  let ?i = "ne_next_ndp_id a" and ?tok = "ne_next_dialog_token a"
  obtain a1 where req: "request_ndp (nc_nmi (ne_cfg b)) a = (?i, a1)"
    and ndps: "ne_ndps a1 = [initiator_session (nc_nmi (ne_cfg b)) ?i ?tok]"
    and cfg: "ne_cfg a1 = ne_cfg a"
    using assms(3) by (rule request_ndp_obtain)
  let ?a2 = "a1\<lparr>ne_ndps := [initiator_waiting (nc_nmi (ne_cfg b)) ?i ?tok t1],
       ne_seq := (ne_seq a1 + 1) AND 0x0FFF\<rparr>"
  let ?b2 = "b\<lparr>ne_ndps := [responder_session (nc_nmi (ne_cfg a)) ?i ?tok (nc_ndi (ne_cfg a))
         (eui64_iid (nc_ndi (ne_cfg a)))]\<rparr>"
  have h1: "ndp_hop t1 a1 b = (?a2, ?b2, [])"
    using ndp_hop_request [OF ndps assms(4), of t1] assms(1,2) by (simp add: cfg)
  have "on_ndp_response (nc_nmi (ne_cfg b)) (ndpe_reject ?tok ?i (nc_ndi (ne_cfg a))) ?a2
      step_default =
    (?a2\<lparr>ne_ndps := []\<rparr>, push_event (NdpFailed (nc_nmi (ne_cfg b)) ?i (Rejected 0)) step_default)"
    using on_response_reject [of ?a2 "nc_nmi (ne_cfg b)" ?i ?tok t1] by (simp add: cfg)
  then show ?thesis
    using h1 ndp_hop_reject [of ?b2 ?a2 ?i ?tok _ _ t2] assms(1,5)
    by (simp add: req cfg)
qed

theorem ndp_request_refused_witness:
  "let (i, a1) = request_ndp (nc_nmi (ne_cfg node_c)) node_a;
       (a2, b2, ev1) = ndp_hop 10 a1 node_c; (b3, a3, ev2) = ndp_hop 20 b2 a2
   in ev1 = [] \<and> ev2 = [NdpFailed (nc_nmi (ne_cfg node_c)) i (Rejected 0)]
    \<and> ne_ndps a3 = [] \<and> ne_ndps b3 = []"
  by (rule ndp_request_refused) simp_all

section \<open>A request nobody answers\<close>

text \<open>The transmit half run at each instant of a list, no frame coming in.\<close>

definition emit_ndp_run :: "usec list \<Rightarrow> nan_engine \<times> step \<Rightarrow> nan_engine \<times> step" where
  "emit_ndp_run ts es = fold (\<lambda>t (e, st). emit_ndp t e st) ts es"

lemma emit_ndp_run_Nil [simp]: "emit_ndp_run [] es = es"
  by (simp add: emit_ndp_run_def)

lemma emit_ndp_run_Cons [simp]:
  "emit_ndp_run (t # ts) (e, st) = emit_ndp_run ts (emit_ndp t e st)"
  by (simp add: emit_ndp_run_def)

text \<open>The session after the \<open>k\<close>-th request, sent at \<open>t\<close>; sending it again, giving up, idling.\<close>

definition waiting_after :: "arr6 \<Rightarrow> u8 \<Rightarrow> u8 \<Rightarrow> u8 \<Rightarrow> usec \<Rightarrow> ndp_session" where
  "waiting_after peer i tok k t =
     (initiator_session peer i tok)\<lparr>ns_pending_tx := None, ns_attempts := k,
       ns_retry_at_usec := t + NDP_RETRY_USEC\<rparr>"

lemma emit_ndp_empty: "ne_ndps e = [] \<Longrightarrow> emit_ndp t e st = (e, st)"
  by (simp add: emit_ndp_def Let_def)

lemma emit_ndp_first:
  assumes "ne_ndps e = [initiator_session peer i tok]"
  shows "\<exists>e' f. emit_ndp t e st = (e', push_tx f st) \<and> ne_ndps e' = [waiting_after peer i tok 1 t]"
  using emit_ndp_single [OF assms, of DataPathRequest t _ "waiting_after peer i tok 1 t"]
  by (auto simp: initiator_session_def waiting_after_def ndp_reply_def saturating_inc_def)

lemma emit_ndp_again:
  assumes "ne_ndps e = [waiting_after peer i tok k t]" and "t + NDP_RETRY_USEC \<le> u" and "k < 4"
  shows "\<exists>e' f. emit_ndp u e st = (e', push_tx f st) \<and>
    ne_ndps e' = [waiting_after peer i tok (k + 1) u]"
proof -
  let ?w = "waiting_after peer i tok k t"
  have "ndp_retry_due u ?w" and "\<not> NDP_MAX_ATTEMPTS \<le> ns_attempts ?w"
    using assms(2,3)
    by (simp_all add: ndp_retry_due_def waiting_after_def initiator_session_def
        NDP_MAX_ATTEMPTS_def not_le)
  moreover have "k \<noteq> 255"
    using assms(3) by auto
  ultimately have "emit_ndp_session (ne_cfg e) u ?w =
      (waiting_after peer i tok (k + 1) u,
       [(peer, DataPathRequest, ndpe_encode (ndpe_request tok i (nc_ndi (ne_cfg e))
          (eui64_iid (nc_ndi (ne_cfg e)))) [])], [])"
    by (simp add: emit_ndp_session_def ndp_reply_def saturating_inc_def)
      (simp add: waiting_after_def initiator_session_def)
  then show ?thesis
    by (auto simp: emit_ndp_def assms(1) send_ndp_frame_eq Let_def)
qed

lemma emit_ndp_give_up:
  assumes "ne_ndps e = [waiting_after peer i tok 4 t]" and "t + NDP_RETRY_USEC \<le> u"
  shows "emit_ndp u e st = (e\<lparr>ne_ndps := []\<rparr>, push_event (NdpFailed peer i TimedOut) st)"
proof -
  let ?w = "waiting_after peer i tok 4 t"
  have "ndp_retry_due u ?w" and "NDP_MAX_ATTEMPTS \<le> ns_attempts ?w"
    using assms(2)
    by (simp_all add: ndp_retry_due_def waiting_after_def initiator_session_def NDP_MAX_ATTEMPTS_def)
  then have "emit_ndp_session (ne_cfg e) u ?w = (?w, [], [(peer, i, Initiator)])"
    by (simp add: emit_ndp_session_def) (simp add: waiting_after_def initiator_session_def)
  then show ?thesis
    by (simp add: emit_ndp_def assms(1) drop_ndp_def ndp_index_role_def Let_def)
      (simp add: waiting_after_def initiator_session_def)
qed

lemma emit_ndp_idle:
  assumes "ne_ndps e = [waiting_after peer i tok k t]" and "\<not> t + NDP_RETRY_USEC \<le> u"
  shows "emit_ndp u e st = (e, st)"
proof -
  have "emit_ndp_session (ne_cfg e) u (waiting_after peer i tok k t) =
      (waiting_after peer i tok k t, [], [])"
    using assms(2)
    by (simp add: emit_ndp_session_def ndp_retry_due_def)
      (simp add: waiting_after_def initiator_session_def)
  then show ?thesis
    by (simp add: emit_ndp_def assms(1) Let_def)
qed

lemma emit_ndp_run_gone: "ne_ndps e = [] \<Longrightarrow> emit_ndp_run ts (e, st) = (e, st)"
  by (induction ts) (simp_all add: emit_ndp_empty)

text \<open>From the session after request \<open>k\<close> at \<open>t\<close>: at most \<open>4 - k\<close> more frames, whatever the times.\<close>

lemma emit_ndp_run_bound:
  assumes "ne_ndps e = [waiting_after peer i tok k t]" and "k \<le> 4"
  shows "length (st_tx (snd (emit_ndp_run ts (e, st)))) \<le> length (st_tx st) + (4 - unat k)
    \<and> (st_events (snd (emit_ndp_run ts (e, st))) = st_events st \<or>
       st_events (snd (emit_ndp_run ts (e, st))) = st_events st @ [NdpFailed peer i TimedOut])"
  using assms
proof (induction ts arbitrary: e st k t)
  case Nil
  then show ?case by simp
next
  case (Cons u ts)
  consider "\<not> t + NDP_RETRY_USEC \<le> u" | "t + NDP_RETRY_USEC \<le> u" "k < 4"
    | "t + NDP_RETRY_USEC \<le> u" "k = 4"
    using Cons.prems(2) by (auto simp: less_le)
  then show ?case
  proof cases
    case 1
    then show ?thesis using Cons emit_ndp_idle by simp
  next
    case 2
    then obtain e' f where e': "emit_ndp u e st = (e', push_tx f st)"
      "ne_ndps e' = [waiting_after peer i tok (k + 1) u]"
      using emit_ndp_again [OF Cons.prems(1)] by blast
    have "k + 1 \<le> 4" and "unat (k + 1) = Suc (unat k)" and "unat k < 4"
      using 2(2) by (simp_all add: word_less_nat_alt word_le_nat_alt unat_word_ariths)
    with Cons.IH [OF e'(2), of "push_tx f st"] e'(1) show ?thesis by auto
  next
    case 3
    then show ?thesis
      using Cons.prems(1) by (simp add: emit_ndp_give_up emit_ndp_run_gone)
  qed
qed

text \<open>
  An unanswered request cannot transmit forever. Whatever the instants at which the engine
  is polled, a request to a peer that never answers puts at most \<open>NDP_MAX_ATTEMPTS\<close> = 4
  frames on the air, and the only event it can surface is one \<open>TimedOut\<close> failure.
\<close>

theorem ndp_request_attempts_bounded:
  assumes "ne_ndps a = []"
  shows "let (i, a1) = request_ndp peer a; st = snd (emit_ndp_run ts (a1, step_default))
         in length (st_tx st) \<le> unat NDP_MAX_ATTEMPTS
          \<and> (st_events st = [] \<or> st_events st = [NdpFailed peer i TimedOut])"
proof -
  obtain a1 where req: "request_ndp peer a = (ne_next_ndp_id a, a1)"
    and ndps: "ne_ndps a1 = [initiator_session peer (ne_next_ndp_id a) (ne_next_dialog_token a)]"
    using assms by (rule request_ndp_obtain)
  show ?thesis
  proof (cases ts)
    case Nil
    then show ?thesis by (simp add: req)
  next
    case (Cons t ts')
    obtain a2 f where "emit_ndp t a1 step_default = (a2, push_tx f step_default)"
      and w: "ne_ndps a2 = [waiting_after peer (ne_next_ndp_id a) (ne_next_dialog_token a) 1 t]"
      using emit_ndp_first [OF ndps] by blast
    then show ?thesis
      using emit_ndp_run_bound [OF w, of ts' "push_tx f step_default"]
      by (simp add: req Cons NDP_MAX_ATTEMPTS_def)
  qed
qed

theorem ndp_request_attempts_bounded_witness:
  "let (i, a1) = request_ndp (Arr6 2 0 0 0 0 9) node_a;
       st = snd (emit_ndp_run [0, 2000000, 4000000, 6000000, 8000000, 10000000] (a1, step_default))
   in length (st_tx st) \<le> unat NDP_MAX_ATTEMPTS
    \<and> (st_events st = [] \<or> st_events st = [NdpFailed (Arr6 2 0 0 0 0 9) i TimedOut])"
  by (rule ndp_request_attempts_bounded) simp

text \<open>Instants at least one retry interval apart.\<close>

definition retry_spaced :: "usec list \<Rightarrow> bool" where
  "retry_spaced ts = successively (\<lambda>t u. t + NDP_RETRY_USEC \<le> u) ts"

lemma emit_ndp_run_times_out:
  assumes "ne_ndps e = [waiting_after peer i tok k t]" and "k \<le> 4"
    and "retry_spaced (t # ts)" and "4 - unat k < length ts"
  shows "st_events (snd (emit_ndp_run ts (e, st))) = st_events st @ [NdpFailed peer i TimedOut]
    \<and> length (st_tx (snd (emit_ndp_run ts (e, st)))) = length (st_tx st) + (4 - unat k)
    \<and> ne_ndps (fst (emit_ndp_run ts (e, st))) = []"
  using assms
proof (induction ts arbitrary: e st k t)
  case Nil
  then show ?case by simp
next
  case (Cons u ts)
  have u: "t + NDP_RETRY_USEC \<le> u" and sp: "retry_spaced (u # ts)"
    using Cons.prems(3) by (simp_all add: retry_spaced_def)
  show ?case
  proof (cases "k = 4")
    case True
    then show ?thesis
      using Cons.prems(1) u by (simp add: emit_ndp_give_up emit_ndp_run_gone)
  next
    case False
    then have k: "k < 4" using Cons.prems(2) by simp
    obtain e' f where e': "emit_ndp u e st = (e', push_tx f st)"
      "ne_ndps e' = [waiting_after peer i tok (k + 1) u]"
      using emit_ndp_again [OF Cons.prems(1) u k] by blast
    have "k + 1 \<le> 4" and "unat (k + 1) = Suc (unat k)" and "unat k < 4"
      using k by (simp_all add: word_less_nat_alt word_le_nat_alt unat_word_ariths)
    with Cons.IH [OF e'(2) _ sp, of "push_tx f st"] e'(1) Cons.prems(4) show ?thesis by auto
  qed
qed

text \<open>
  (C5) An unanswered request gives up and says so. Polled at five or more instants at least
  \<open>NDP_RETRY_USEC\<close> apart, the engine sends M1 exactly four times, then surfaces exactly one
  \<open>TimedOut\<close> failure with the request's id and keeps no session.
\<close>

theorem ndp_request_times_out:
  assumes "ne_ndps a = []" and "retry_spaced ts" and "5 \<le> length ts"
  shows "let (i, a1) = request_ndp peer a; (a2, st) = emit_ndp_run ts (a1, step_default)
         in length (st_tx st) = 4 \<and> st_events st = [NdpFailed peer i TimedOut] \<and> ne_ndps a2 = []"
proof -
  obtain a1 where req: "request_ndp peer a = (ne_next_ndp_id a, a1)"
    and ndps: "ne_ndps a1 = [initiator_session peer (ne_next_ndp_id a) (ne_next_dialog_token a)]"
    using assms(1) by (rule request_ndp_obtain)
  obtain t ts' where ts: "ts = t # ts'" "4 \<le> length ts'"
    using assms(3) by (cases ts) auto
  obtain a2 f where a2: "emit_ndp t a1 step_default = (a2, push_tx f step_default)"
    and w: "ne_ndps a2 = [waiting_after peer (ne_next_ndp_id a) (ne_next_dialog_token a) 1 t]"
    using emit_ndp_first [OF ndps] by blast
  show ?thesis
    using emit_ndp_run_times_out [OF w, of ts' "push_tx f step_default"] assms(2) ts
    by (simp add: req a2 case_prod_beta)
qed

theorem ndp_request_times_out_witness:
  "let (i, a1) = request_ndp (Arr6 2 0 0 0 0 9) node_a;
       (a2, st) = emit_ndp_run [0, 2000000, 4000000, 6000000, 8000000] (a1, step_default)
   in length (st_tx st) = 4 \<and> st_events st = [NdpFailed (Arr6 2 0 0 0 0 9) i TimedOut]
    \<and> ne_ndps a2 = []"
  by (rule ndp_request_times_out) (simp_all add: retry_spaced_def NDP_RETRY_USEC_def)

section \<open>Both ends asking at once\<close>

text \<open>A hop that carries several messages, to a receiver that may hold several sessions.\<close>

type_synonym ndp_msg = "naf_subtype \<times> ndpe"

definition ndp_msg_ok :: "ndp_msg \<Rightarrow> bool" where
  "ndp_msg_ok m \<longleftrightarrow> ndpe_valid (snd m) \<and> ndpe_on_wire (snd m) = snd m"

definition ndp_dispatch_all ::
    "arr6 \<Rightarrow> ndp_msg list \<Rightarrow> nan_engine \<times> step \<Rightarrow> nan_engine \<times> step" where
  "ndp_dispatch_all peer msgs es = fold (\<lambda>(sub, n) (e, st). ndp_dispatch sub peer n e st) msgs es"

lemma ndp_dispatch_cfg [simp]: "ne_cfg (fst (ndp_dispatch sub peer n e st)) = ne_cfg e"
  by (auto simp: ndp_dispatch_def on_ndp_request_def on_ndp_response_def on_ndp_confirm_def Let_def
      split: naf_subtype.splits option.splits ndp_status.splits)

lemma send_and_receive:
  assumes "list_all ndp_msg_ok msgs" and "nc_nmi (ne_cfg a) \<noteq> nc_nmi (ne_cfg b)"
  shows "\<exists>sq tx. fold send_ndp_frame
        (map (\<lambda>(sub, n). (nc_nmi (ne_cfg b), sub, ndpe_encode n [])) msgs) (a, st) =
      (a\<lparr>ne_seq := sq\<rparr>, st\<lparr>st_tx := st_tx st @ tx\<rparr>) \<and>
    fold handle_rx (map (rx_of now \<circ> tx_bytes) tx) (b, stb) =
      ndp_dispatch_all (nc_nmi (ne_cfg a)) msgs (b, stb)"
  using assms
proof (induction msgs arbitrary: a b st stb)
  case Nil
  show ?case
    by (rule exI [of _ "ne_seq a"], rule exI [of _ "[]"]) (simp add: ndp_dispatch_all_def)
next
  case (Cons m msgs)
  obtain sub n where m: "m = (sub, n)" by fastforce
  have n: "ndpe_valid n" "ndpe_on_wire n = n" and rest: "list_all ndp_msg_ok msgs"
    using Cons.prems(1) by (simp_all add: m) (simp_all add: ndp_msg_ok_def)
  let ?src = "nc_nmi (ne_cfg a)" and ?dst = "nc_nmi (ne_cfg b)"
  let ?f = "ndp_frame_bytes sub ?dst ?src (ne_cluster_id a) (ne_seq a) n"
  let ?a1 = "a\<lparr>ne_seq := (ne_seq a + 1) AND 0x0FFF\<rparr>"
  obtain b1 st1 where d: "ndp_dispatch sub ?src n b stb = (b1, st1)" by fastforce
  then have cfg: "ne_cfg b1 = ne_cfg b"
    using ndp_dispatch_cfg [of sub ?src n b stb] by simp
  have rx: "handle_rx (rx_of now ?f) (b, stb) = (b1, st1)"
    using handle_rx_ndp_frame [of "rx_of now ?f" sub ?dst ?src _ _ n b stb] n Cons.prems(2) d
    by (simp add: rx_of_def)
  have "nc_nmi (ne_cfg ?a1) \<noteq> nc_nmi (ne_cfg b1)"
    using Cons.prems(2) by (simp add: cfg)
  from Cons.IH [OF rest this, of "push_tx ?f st" st1]
  obtain sq tx where "fold send_ndp_frame
        (map (\<lambda>(sub, n). (nc_nmi (ne_cfg b1), sub, ndpe_encode n [])) msgs)
        (?a1, push_tx ?f st) =
      (?a1\<lparr>ne_seq := sq\<rparr>, (push_tx ?f st)\<lparr>st_tx := st_tx (push_tx ?f st) @ tx\<rparr>)"
    and "fold handle_rx (map (rx_of now \<circ> tx_bytes) tx) (b1, st1) =
      ndp_dispatch_all (nc_nmi (ne_cfg ?a1)) msgs (b1, st1)"
    by (elim exE conjE) (rule that)
  then show ?case
    by (intro exI [of _ sq] exI [of _ "TxFrame ?f # tx"])
      (simp add: m send_ndp_frame_eq rx d ndp_dispatch_all_def push_tx_def cfg comp_def)
qed

text \<open>The sessions of \<open>a\<close>, what each becomes and the messages it sends; none gives up.\<close>

lemma ndp_hop_many:
  assumes "map (emit_ndp_session (ne_cfg a) now) (ne_ndps a) =
      map (\<lambda>(s, ms). (s, map (\<lambda>(sub, n). (nc_nmi (ne_cfg b), sub, ndpe_encode n [])) ms, [])) outs"
    and "list_all ndp_msg_ok (concat (map snd outs))"
    and "nc_nmi (ne_cfg a) \<noteq> nc_nmi (ne_cfg b)"
    and "ndp_dispatch_all (nc_nmi (ne_cfg a)) (concat (map snd outs)) (b, step_default) = (b', st')"
  shows "\<exists>sq. ndp_hop now a b = (a\<lparr>ne_ndps := map fst outs, ne_seq := sq\<rparr>, b', st_events st')"
proof -
  have f: "map fst (map (emit_ndp_session (ne_cfg a) now) (ne_ndps a)) = map fst outs"
    unfolding assms(1) by (simp add: case_prod_beta comp_def)
  have fr: "concat (map (\<lambda>(_, fs, _). fs) (map (emit_ndp_session (ne_cfg a) now) (ne_ndps a))) =
      map (\<lambda>(sub, n). (nc_nmi (ne_cfg b), sub, ndpe_encode n [])) (concat (map snd outs))"
    unfolding assms(1) by (simp add: case_prod_beta comp_def map_concat)
  have to: "concat (map (\<lambda>(_, _, ks). ks)
      (map (emit_ndp_session (ne_cfg a) now) (ne_ndps a))) = []"
    unfolding assms(1) by (simp add: case_prod_beta comp_def)
  obtain sq tx where "fold send_ndp_frame
        (map (\<lambda>(sub, n). (nc_nmi (ne_cfg b), sub, ndpe_encode n [])) (concat (map snd outs)))
        (a\<lparr>ne_ndps := map fst outs\<rparr>, step_default) =
      (a\<lparr>ne_ndps := map fst outs, ne_seq := sq\<rparr>, step_default\<lparr>st_tx := st_tx step_default @ tx\<rparr>)"
    and "fold handle_rx (map (rx_of now \<circ> tx_bytes) tx) (b, step_default) = (b', st')"
    using send_and_receive [OF assms(2), of "a\<lparr>ne_ndps := map fst outs\<rparr>" b step_default now
        step_default] assms(3,4) by auto
  then show ?thesis
    unfolding ndp_hop_def emit_ndp_def Let_def f fr to by auto
qed

text \<open>Two accepting nodes with distinct identities; \<open>abbreviation\<close>s for those identities.\<close>

definition ndp_peers :: "nan_engine \<Rightarrow> nan_engine \<Rightarrow> bool" where
  "ndp_peers a b \<longleftrightarrow> nc_nmi (ne_cfg a) \<noteq> nc_nmi (ne_cfg b) \<and> nc_ndi (ne_cfg a) \<noteq> nc_ndi (ne_cfg b)
     \<and> nc_ndp_auto_accept (ne_cfg a) \<and> nc_ndp_auto_accept (ne_cfg b)"

lemma ndp_peers_iff:
  "ndp_peers a b \<longleftrightarrow> nc_nmi (ne_cfg a) \<noteq> nc_nmi (ne_cfg b) \<and> nc_nmi (ne_cfg b) \<noteq> nc_nmi (ne_cfg a)
     \<and> nc_ndi (ne_cfg a) \<noteq> nc_ndi (ne_cfg b) \<and> nc_ndi (ne_cfg b) \<noteq> nc_ndi (ne_cfg a)
     \<and> nc_ndp_auto_accept (ne_cfg a) \<and> nc_ndp_auto_accept (ne_cfg b)"
  by (auto simp: ndp_peers_def)

abbreviation nmi_of :: "nan_engine \<Rightarrow> arr6" where "nmi_of e \<equiv> nc_nmi (ne_cfg e)"
abbreviation ndi_of :: "nan_engine \<Rightarrow> arr6" where "ndi_of e \<equiv> nc_ndi (ne_cfg e)"
abbreviation iid_of :: "nan_engine \<Rightarrow> arr8" where "iid_of e \<equiv> eui64_iid (nc_ndi (ne_cfg e))"

text \<open>What each kind of session sends.\<close>

lemma ses_request:
  "emit_ndp_session cfg t (initiator_session p i tok) =
    (initiator_waiting p i tok t,
     [(p, DataPathRequest, ndpe_encode (ndpe_request tok i (nc_ndi cfg) (eui64_iid (nc_ndi cfg))) [])],
     [])"
  by (simp add: emit_ndp_session_def ndp_retry_due_def ndp_reply_def session_defs
      saturating_inc_def)

lemma ses_accept:
  "nc_ndp_auto_accept cfg \<Longrightarrow> emit_ndp_session cfg t (responder_session p i tok ndi iid) =
    ((responder_session p i tok ndi iid)\<lparr>ns_pending_tx := None\<rparr>,
     [(p, DataPathResponse,
       ndpe_encode (ndpe_accept tok i ndi (nc_ndi cfg) (eui64_iid (nc_ndi cfg))) [])], [])"
  by (simp add: emit_ndp_session_def ndp_retry_due_def ndp_reply_def session_defs)

lemma ses_confirm:
  "emit_ndp_session cfg t' ((initiator_up p i tok t ndi)\<lparr>ns_pending_tx := Some DataPathConfirm\<rparr>) =
    (initiator_up p i tok t ndi,
     [(p, DataPathConfirm, ndpe_encode (ndpe_confirm tok i (nc_ndi cfg)) [])], [])"
  by (simp add: emit_ndp_session_def ndp_retry_due_def ndp_reply_def session_defs)

lemma ses_up_idle: "emit_ndp_session cfg t (responder_up p i tok ndi) = (responder_up p i tok ndi, [], [])"
  by (simp add: emit_ndp_session_def ndp_retry_due_def session_defs)

lemma ndp_msg_ok_constructors [simp]:
  "ndp_msg_ok (sub, ndpe_request d i ndi iid)"
  "ndp_msg_ok (sub, ndpe_accept d i ndi rndi iid)"
  "ndp_msg_ok (sub, ndpe_confirm d i ndi)"
  by (simp_all add: ndp_msg_ok_def ndpe_valid_constructors ndpe_request_on_wire
      ndpe_accept_on_wire ndpe_confirm_on_wire)

lemma session_sel [simp]:
  "ns_peer (initiator_session p i tok) = p" "ns_ndp_id (initiator_session p i tok) = i"
  "ns_role (initiator_session p i tok) = Initiator"
  "ns_state (initiator_session p i tok) = AwaitingResponse"
  "ns_peer (initiator_waiting p i tok t) = p" "ns_ndp_id (initiator_waiting p i tok t) = i"
  "ns_role (initiator_waiting p i tok t) = Initiator"
  "ns_state (initiator_waiting p i tok t) = AwaitingResponse"
  "ns_peer (initiator_up p i tok t ndi) = p" "ns_ndp_id (initiator_up p i tok t ndi) = i"
  "ns_role (initiator_up p i tok t ndi) = Initiator"
  "ns_state (initiator_up p i tok t ndi) = Established"
  "ns_peer (responder_session p i tok ndi iid) = p"
  "ns_ndp_id (responder_session p i tok ndi iid) = i"
  "ns_role (responder_session p i tok ndi iid) = Responder"
  "ns_state (responder_session p i tok ndi iid) = AwaitingConfirm"
  "ns_peer_ndi (responder_session p i tok ndi iid) = Some ndi"
  "ns_peer_iid (responder_session p i tok ndi iid) = Some iid"
  "ns_peer (responder_up p i tok ndi) = p" "ns_ndp_id (responder_up p i tok ndi) = i"
  "ns_role (responder_up p i tok ndi) = Responder"
  "ns_state (responder_up p i tok ndi) = Established"
  by (simp_all add: session_defs)

lemma ndpe_sel [simp]:
  "np_type (ndpe_request d i ndi iid) = NdpRequest"
  "np_ndp_id (ndpe_request d i ndi iid) = i" "np_ndp_id (ndpe_accept d i ndi rndi iid) = i"
  "np_ndp_id (ndpe_confirm d i ndi) = i"
  "np_initiator_ndi (ndpe_request d i ndi iid) = ndi"
  "np_initiator_ndi (ndpe_accept d i ndi rndi iid) = ndi"
  "np_initiator_ndi (ndpe_confirm d i ndi) = ndi"
  "np_dialog_token (ndpe_request d i ndi iid) = d"
  "np_status (ndpe_accept d i ndi rndi iid) = NdpAccepted"
  "np_responder_ndi (ndpe_accept d i ndi rndi iid) = Some rndi"
  by (simp_all add: ndpe_request_def ndpe_accept_def ndpe_confirm_def)

lemma ndp_dispatch_all_Nil [simp]: "ndp_dispatch_all p [] es = es"
  by (simp add: ndp_dispatch_all_def)

lemma ndp_dispatch_all_Cons [simp]:
  "ndp_dispatch_all p ((sub, n) # ms) (e, st) = ndp_dispatch_all p ms (ndp_dispatch sub p n e st)"
  by (simp add: ndp_dispatch_all_def)

text \<open>The receive half on a request that opens a session, an acceptance, and a confirm.\<close>

lemma dispatch_request:
  assumes "position (\<lambda>s. ns_peer s = p \<and> ns_ndp_id s = i \<and> ns_role s = Responder) (ne_ndps e) = None"
    and "ndi \<noteq> ndi_of e"
  shows "ndp_dispatch DataPathRequest p (ndpe_request tok i ndi iid) e st =
    (e\<lparr>ne_ndps := ne_ndps e @ [responder_session p i tok ndi iid]\<rparr>, st)"
  using assms(2)
  by (simp add: ndp_dispatch_def on_ndp_request_def ndp_index_def ndp_index_role_def
      responder_session_def del: position_None add: assms(1))

lemma dispatch_accept:
  assumes "position (\<lambda>s. ns_peer s = p \<and> ns_ndp_id s = i \<and> ns_role s = Initiator) (ne_ndps e) = Some k"
    and "ne_ndps e ! k = initiator_waiting p i tok t" and "ndi = ndi_of e"
  shows "ndp_dispatch DataPathResponse p (ndpe_accept tok i ndi rndi (eui64_iid rndi)) e st =
    (e\<lparr>ne_ndps := (ne_ndps e)[k := (initiator_up p i tok t rndi)
        \<lparr>ns_pending_tx := Some DataPathConfirm\<rparr>]\<rparr>,
     push_event (NdpEstablished p i Initiator rndi (eui64_iid rndi)) st)"
  by (simp add: ndp_dispatch_def on_ndp_response_def ndp_index_def ndp_index_role_def assms)
    (simp add: session_defs)

lemma dispatch_confirm:
  assumes "position (\<lambda>s. ns_peer s = p \<and> ns_ndp_id s = i \<and> ns_role s = Responder) (ne_ndps e) = Some k"
    and "ne_ndps e ! k = (responder_session p i tok ndi (eui64_iid ndi))\<lparr>ns_pending_tx := pend\<rparr>"
    and "ndi \<noteq> ndi_of e"
  shows "ndp_dispatch DataPathConfirm p (ndpe_confirm tok i ndi) e st =
    (e\<lparr>ne_ndps := (ne_ndps e)[k := (responder_up p i tok ndi)\<lparr>ns_pending_tx := pend\<rparr>]\<rparr>,
     push_event (NdpEstablished p i Responder ndi (eui64_iid ndi)) st)"
  using assms(3)
  by (simp add: ndp_dispatch_def on_ndp_confirm_def ndp_index_def ndp_index_role_def assms(1,2))
    (simp add: session_defs)

lemma responder_up_pending [simp]: "(responder_up p i tok ndi)\<lparr>ns_pending_tx := None\<rparr> = responder_up p i tok ndi"
  by (simp add: responder_up_def)

text \<open>
  Four hops: \<open>a\<close> requests, \<open>b\<close> requests and answers, \<open>a\<close> confirms and answers, \<open>b\<close> confirms.
\<close>

definition ndp_exchange_both ::
    "usec \<Rightarrow> usec \<Rightarrow> usec \<Rightarrow> usec \<Rightarrow> nan_engine \<Rightarrow> nan_engine \<Rightarrow>
     nan_engine \<times> nan_engine \<times> nan_event list \<times> nan_event list" where
  "ndp_exchange_both t1 t2 t3 t4 a b =
     (let (a, b, ev1) = ndp_hop t1 a b;
          (b, a, ev2) = ndp_hop t2 b a;
          (a, b, ev3) = ndp_hop t3 a b;
          (b, a, ev4) = ndp_hop t4 b a
      in (a, b, ev2 @ ev4, ev1 @ ev3))"

lemma both_hop1:
  assumes "ndp_peers a b" and "ne_ndps a = [initiator_session (nmi_of b) ia ta]"
    and "ne_ndps b = [initiator_session (nmi_of a) ib tb]"
  shows "\<exists>sq. ndp_hop t1 a b =
    (a\<lparr>ne_ndps := [initiator_waiting (nmi_of b) ia ta t1], ne_seq := sq\<rparr>,
     b\<lparr>ne_ndps := [initiator_session (nmi_of a) ib tb,
        responder_session (nmi_of a) ia ta (ndi_of a) (iid_of a)]\<rparr>, [])"
proof -
  let ?ms = "[(DataPathRequest, ndpe_request ta ia (ndi_of a) (iid_of a))]"
  have d: "ndp_dispatch_all (nmi_of a) ?ms (b, step_default) =
    (b\<lparr>ne_ndps := [initiator_session (nmi_of a) ib tb,
        responder_session (nmi_of a) ia ta (ndi_of a) (iid_of a)]\<rparr>, step_default)"
    using assms(1) by (simp add: ndp_peers_iff assms(3) dispatch_request)
  show ?thesis
    using ndp_hop_many [of a t1 b "[(initiator_waiting (nmi_of b) ia ta t1, ?ms)]"] d assms(1)
    by (simp add: assms(2) ses_request ndp_peers_iff)
qed

lemma both_hop2:
  assumes "ndp_peers a b" and "ne_ndps a = [initiator_waiting (nmi_of b) ia ta t1]"
    and "ne_ndps b = [initiator_session (nmi_of a) ib tb,
        responder_session (nmi_of a) ia ta (ndi_of a) (iid_of a)]"
  shows "\<exists>sq. ndp_hop t2 b a =
    (b\<lparr>ne_ndps := [initiator_waiting (nmi_of a) ib tb t2,
        (responder_session (nmi_of a) ia ta (ndi_of a) (iid_of a))\<lparr>ns_pending_tx := None\<rparr>],
       ne_seq := sq\<rparr>,
     a\<lparr>ne_ndps := [(initiator_up (nmi_of b) ia ta t1 (ndi_of b))
           \<lparr>ns_pending_tx := Some DataPathConfirm\<rparr>,
        responder_session (nmi_of b) ib tb (ndi_of b) (iid_of b)]\<rparr>,
     [NdpEstablished (nmi_of b) ia Initiator (ndi_of b) (iid_of b)])"
proof -
  let ?m1 = "[(DataPathRequest, ndpe_request tb ib (ndi_of b) (iid_of b))]"
  let ?m2 = "[(DataPathResponse, ndpe_accept ta ia (ndi_of a) (ndi_of b) (iid_of b))]"
  have d: "ndp_dispatch_all (nmi_of b) (?m1 @ ?m2) (a, step_default) =
    (a\<lparr>ne_ndps := [(initiator_up (nmi_of b) ia ta t1 (ndi_of b))
           \<lparr>ns_pending_tx := Some DataPathConfirm\<rparr>,
        responder_session (nmi_of b) ib tb (ndi_of b) (iid_of b)]\<rparr>,
     push_event (NdpEstablished (nmi_of b) ia Initiator (ndi_of b) (iid_of b)) step_default)"
    using assms(1) by (simp add: ndp_peers_iff assms(2) dispatch_request dispatch_accept)
  show ?thesis
    using ndp_hop_many [of b t2 a "[(initiator_waiting (nmi_of a) ib tb t2, ?m1),
        ((responder_session (nmi_of a) ia ta (ndi_of a) (iid_of a))\<lparr>ns_pending_tx := None\<rparr>,
         ?m2)]"] d assms(1)
    by (simp add: assms(3) ses_request ses_accept ndp_peers_iff)
qed

lemma both_hop3:
  assumes "ndp_peers a b"
    and "ne_ndps a = [(initiator_up (nmi_of b) ia ta t1 (ndi_of b))
           \<lparr>ns_pending_tx := Some DataPathConfirm\<rparr>,
        responder_session (nmi_of b) ib tb (ndi_of b) (iid_of b)]"
    and "ne_ndps b = [initiator_waiting (nmi_of a) ib tb t2,
        (responder_session (nmi_of a) ia ta (ndi_of a) (iid_of a))\<lparr>ns_pending_tx := None\<rparr>]"
  shows "\<exists>sq. ndp_hop t3 a b =
    (a\<lparr>ne_ndps := [initiator_up (nmi_of b) ia ta t1 (ndi_of b),
        (responder_session (nmi_of b) ib tb (ndi_of b) (iid_of b))\<lparr>ns_pending_tx := None\<rparr>],
       ne_seq := sq\<rparr>,
     b\<lparr>ne_ndps := [(initiator_up (nmi_of a) ib tb t2 (ndi_of a))
           \<lparr>ns_pending_tx := Some DataPathConfirm\<rparr>,
        responder_up (nmi_of a) ia ta (ndi_of a)]\<rparr>,
     [NdpEstablished (nmi_of a) ia Responder (ndi_of a) (iid_of a),
      NdpEstablished (nmi_of a) ib Initiator (ndi_of a) (iid_of a)])"
proof -
  let ?m1 = "[(DataPathConfirm, ndpe_confirm ta ia (ndi_of a))]"
  let ?m2 = "[(DataPathResponse, ndpe_accept tb ib (ndi_of b) (ndi_of a) (iid_of a))]"
  have d: "ndp_dispatch_all (nmi_of a) (?m1 @ ?m2) (b, step_default) =
    (b\<lparr>ne_ndps := [(initiator_up (nmi_of a) ib tb t2 (ndi_of a))
           \<lparr>ns_pending_tx := Some DataPathConfirm\<rparr>,
        responder_up (nmi_of a) ia ta (ndi_of a)]\<rparr>,
     push_event (NdpEstablished (nmi_of a) ib Initiator (ndi_of a) (iid_of a))
       (push_event (NdpEstablished (nmi_of a) ia Responder (ndi_of a) (iid_of a)) step_default))"
    using assms(1) by (simp add: ndp_peers_iff assms(3) dispatch_confirm dispatch_accept)
  show ?thesis
    using ndp_hop_many [of a t3 b "[(initiator_up (nmi_of b) ia ta t1 (ndi_of b), ?m1),
        ((responder_session (nmi_of b) ib tb (ndi_of b) (iid_of b))\<lparr>ns_pending_tx := None\<rparr>,
         ?m2)]"] d assms(1)
    by (simp add: assms(2) ses_confirm ses_accept ndp_peers_iff)
qed

lemma both_hop4:
  assumes "ndp_peers a b"
    and "ne_ndps a = [initiator_up (nmi_of b) ia ta t1 (ndi_of b),
        (responder_session (nmi_of b) ib tb (ndi_of b) (iid_of b))\<lparr>ns_pending_tx := None\<rparr>]"
    and "ne_ndps b = [(initiator_up (nmi_of a) ib tb t2 (ndi_of a))
           \<lparr>ns_pending_tx := Some DataPathConfirm\<rparr>,
        responder_up (nmi_of a) ia ta (ndi_of a)]"
  shows "\<exists>sq. ndp_hop t4 b a =
    (b\<lparr>ne_ndps := [initiator_up (nmi_of a) ib tb t2 (ndi_of a),
        responder_up (nmi_of a) ia ta (ndi_of a)], ne_seq := sq\<rparr>,
     a\<lparr>ne_ndps := [initiator_up (nmi_of b) ia ta t1 (ndi_of b),
        responder_up (nmi_of b) ib tb (ndi_of b)]\<rparr>,
     [NdpEstablished (nmi_of b) ib Responder (ndi_of b) (iid_of b)])"
proof -
  let ?ms = "[(DataPathConfirm, ndpe_confirm tb ib (ndi_of b))]"
  have d: "ndp_dispatch_all (nmi_of b) ?ms (a, step_default) =
    (a\<lparr>ne_ndps := [initiator_up (nmi_of b) ia ta t1 (ndi_of b),
        responder_up (nmi_of b) ib tb (ndi_of b)]\<rparr>,
     push_event (NdpEstablished (nmi_of b) ib Responder (ndi_of b) (iid_of b)) step_default)"
    using assms(1) by (simp add: ndp_peers_iff assms(2) dispatch_confirm)
  show ?thesis
    using ndp_hop_many [of b t4 a "[(initiator_up (nmi_of a) ib tb t2 (ndi_of a), ?ms),
        (responder_up (nmi_of a) ia ta (ndi_of a), [])]"] d assms(1)
    by (simp add: assms(3) ses_confirm ses_up_idle ndp_peers_iff)
qed

text \<open>
  Two nodes that ask each other for a path at the same time both get one. Each allocates
  its own id (the two may be equal); after four hops each node holds two established sessions,
  one as initiator and one as responder, and has surfaced \<open>NdpEstablished\<close> for both.
\<close>

theorem ndp_both_requesting_both_establish:
  assumes "ndp_peers a b" and "ne_ndps a = []" and "ne_ndps b = []"
  shows "let (ia, a1) = request_ndp (nmi_of b) a; (ib, b1) = request_ndp (nmi_of a) b;
             (a2, b2, ev_a, ev_b) = ndp_exchange_both t1 t2 t3 t4 a1 b1
         in ev_a = [NdpEstablished (nmi_of b) ia Initiator (ndi_of b) (iid_of b),
                    NdpEstablished (nmi_of b) ib Responder (ndi_of b) (iid_of b)]
          \<and> ev_b = [NdpEstablished (nmi_of a) ia Responder (ndi_of a) (iid_of a),
                    NdpEstablished (nmi_of a) ib Initiator (ndi_of a) (iid_of a)]
          \<and> length (ne_ndps a2) = 2 \<and> established_ndps a2 = 2
          \<and> length (ne_ndps b2) = 2 \<and> established_ndps b2 = 2"
proof -
  let ?ia = "ne_next_ndp_id a" and ?ta = "ne_next_dialog_token a"
  let ?ib = "ne_next_ndp_id b" and ?tb = "ne_next_dialog_token b"
  obtain a1 where ra: "request_ndp (nmi_of b) a = (?ia, a1)"
    and a1: "ne_ndps a1 = [initiator_session (nmi_of b) ?ia ?ta]" "ne_cfg a1 = ne_cfg a"
    using assms(2) by (rule request_ndp_obtain)
  obtain b1 where rb: "request_ndp (nmi_of a) b = (?ib, b1)"
    and b1: "ne_ndps b1 = [initiator_session (nmi_of a) ?ib ?tb]" "ne_cfg b1 = ne_cfg b"
    using assms(3) by (rule request_ndp_obtain)
  have pr: "ndp_peers x y" if "ne_cfg x = ne_cfg a" "ne_cfg y = ne_cfg b" for x y
    using assms(1) that by (simp add: ndp_peers_def)
  obtain a2 b2 where h1: "ndp_hop t1 a1 b1 = (a2, b2, [])"
    and s1: "ne_cfg a2 = ne_cfg a" "ne_cfg b2 = ne_cfg b"
    "ne_ndps a2 = [initiator_waiting (nmi_of b) ?ia ?ta t1]"
    "ne_ndps b2 = [initiator_session (nmi_of a) ?ib ?tb,
       responder_session (nmi_of a) ?ia ?ta (ndi_of a) (iid_of a)]"
    using both_hop1 [of a1 b1 ?ia ?ta ?ib ?tb t1] pr a1 b1 by auto
  obtain a3 b3 where h2: "ndp_hop t2 b2 a2 =
      (b3, a3, [NdpEstablished (nmi_of b) ?ia Initiator (ndi_of b) (iid_of b)])"
    and s2: "ne_cfg a3 = ne_cfg a" "ne_cfg b3 = ne_cfg b"
    "ne_ndps b3 = [initiator_waiting (nmi_of a) ?ib ?tb t2,
       (responder_session (nmi_of a) ?ia ?ta (ndi_of a) (iid_of a))\<lparr>ns_pending_tx := None\<rparr>]"
    "ne_ndps a3 = [(initiator_up (nmi_of b) ?ia ?ta t1 (ndi_of b))
           \<lparr>ns_pending_tx := Some DataPathConfirm\<rparr>,
        responder_session (nmi_of b) ?ib ?tb (ndi_of b) (iid_of b)]"
    using both_hop2 [of a2 b2 ?ia ?ta t1 ?ib ?tb t2] pr s1 by auto
  obtain a4 b4 where h3: "ndp_hop t3 a3 b3 =
      (a4, b4, [NdpEstablished (nmi_of a) ?ia Responder (ndi_of a) (iid_of a),
        NdpEstablished (nmi_of a) ?ib Initiator (ndi_of a) (iid_of a)])"
    and s3: "ne_cfg a4 = ne_cfg a" "ne_cfg b4 = ne_cfg b"
    "ne_ndps a4 = [initiator_up (nmi_of b) ?ia ?ta t1 (ndi_of b),
       (responder_session (nmi_of b) ?ib ?tb (ndi_of b) (iid_of b))\<lparr>ns_pending_tx := None\<rparr>]"
    "ne_ndps b4 = [(initiator_up (nmi_of a) ?ib ?tb t2 (ndi_of a))
           \<lparr>ns_pending_tx := Some DataPathConfirm\<rparr>, responder_up (nmi_of a) ?ia ?ta (ndi_of a)]"
    using both_hop3 [of a3 b3 ?ia ?ta t1 ?ib ?tb t2 t3] pr s2 by auto
  obtain a5 b5 where h4: "ndp_hop t4 b4 a4 =
      (b5, a5, [NdpEstablished (nmi_of b) ?ib Responder (ndi_of b) (iid_of b)])"
    and s4: "ne_ndps b5 = [initiator_up (nmi_of a) ?ib ?tb t2 (ndi_of a),
        responder_up (nmi_of a) ?ia ?ta (ndi_of a)]"
    "ne_ndps a5 = [initiator_up (nmi_of b) ?ia ?ta t1 (ndi_of b),
        responder_up (nmi_of b) ?ib ?tb (ndi_of b)]"
    using both_hop4 [of a4 b4 ?ia ?ta t1 ?ib ?tb t2 t4] pr s3 by auto
  show ?thesis
    by (simp add: ra rb ndp_exchange_both_def h1 h2 h3 h4 s4 established_ndps_def)
qed

theorem ndp_both_requesting_both_establish_witness:
  "let (ia, a1) = request_ndp (nmi_of node_b) node_a; (ib, b1) = request_ndp (nmi_of node_a) node_b;
       (a2, b2, ev_a, ev_b) = ndp_exchange_both 10 20 30 40 a1 b1
   in ev_a = [NdpEstablished (nmi_of node_b) ia Initiator (ndi_of node_b) (iid_of node_b),
              NdpEstablished (nmi_of node_b) ib Responder (ndi_of node_b) (iid_of node_b)]
    \<and> ev_b = [NdpEstablished (nmi_of node_a) ia Responder (ndi_of node_a) (iid_of node_a),
              NdpEstablished (nmi_of node_a) ib Initiator (ndi_of node_a) (iid_of node_a)]
    \<and> length (ne_ndps a2) = 2 \<and> established_ndps a2 = 2
    \<and> length (ne_ndps b2) = 2 \<and> established_ndps b2 = 2"
  by (rule ndp_both_requesting_both_establish) (simp_all add: ndp_peers_def)

end
