(* ===== verification/Nan_Teardown.thy ===== *)
theory Nan_Teardown
  imports Nan_Dataplane
begin

text \<open>
  Where the data path of \<open>engine.rs\<close> does less than its comments say: tearing a path down
  (\<open>terminate_ndp\<close>, the termination branch of \<open>handle_naf\<close>) and confirming one before it was
  answered (\<open>on_ndp_confirm\<close>); and the repeated request it handles.
\<close>

section \<open>The termination message\<close>

definition ndpe_terminate :: "u8 \<Rightarrow> u8 \<Rightarrow> arr6 \<Rightarrow> ndpe" where
  "ndpe_terminate d i ndi = (ndpe_confirm d i ndi)\<lparr>np_type := NdpTerminate\<rparr>"

lemma ndpe_terminate_ok [simp]:
  "ndpe_valid (ndpe_terminate d i ndi)" "ndpe_on_wire (ndpe_terminate d i ndi) = ndpe_terminate d i ndi"
  by (simp_all add: ndpe_terminate_def ndpe_valid_def ndpe_confirm_def ndpe_body_eq
      ndpe_carries_responder_def ndpe_on_wire_def ndpe_control_byte_def
      PUBLISH_ID_PRESENT_def RESPONDER_NDI_PRESENT_def)

lemma ndpe_terminate_sel [simp]:
  "np_ndp_id (ndpe_terminate d i ndi) = i" "np_initiator_ndi (ndpe_terminate d i ndi) = ndi"
  by (simp_all add: ndpe_terminate_def)

text \<open>One hop that carries the termination of an only session.\<close>

lemma terminate_hop:
  assumes "ne_ndps a = [s]" and "ns_peer s = nmi_of b" and "nmi_of a \<noteq> nmi_of b"
  shows "ndp_hop t (terminate_ndp (nmi_of b) (ns_ndp_id s) a) b =
    (a\<lparr>ne_ndps := [s\<lparr>ns_pending_tx := None, ns_state := Established\<rparr>],
       ne_seq := (ne_seq a + 1) AND 0x0FFF\<rparr>,
     fst (ndp_dispatch DataPathTermination (nmi_of a)
       (ndpe_terminate (ns_dialog_token s) (ns_ndp_id s) (ndi_of a)) b step_default),
     st_events (snd (ndp_dispatch DataPathTermination (nmi_of a)
       (ndpe_terminate (ns_dialog_token s) (ns_ndp_id s) (ndi_of a)) b step_default)))"
proof -
  let ?s = "s\<lparr>ns_pending_tx := Some DataPathTermination, ns_state := Established\<rparr>"
  have t: "terminate_ndp (nmi_of b) (ns_ndp_id s) a = a\<lparr>ne_ndps := [?s]\<rparr>"
    using assms(1,2) by (simp add: terminate_ndp_def)
  have "ndp_reply (ne_cfg a) t DataPathTermination (?s\<lparr>ns_pending_tx := None\<rparr>) =
      Some (ndpe_terminate (ns_dialog_token s) (ns_ndp_id s) (ndi_of a),
        s\<lparr>ns_pending_tx := None, ns_state := Established\<rparr>)"
    by (simp add: ndp_reply_def ndpe_terminate_def)
  then show ?thesis
    using ndp_hop_single [of "a\<lparr>ne_ndps := [?s]\<rparr>" ?s DataPathTermination t _ _ b] assms(2,3)
    by (simp add: t)
qed

text \<open>Both ends up, as the exchange leaves them.\<close>

definition ndp_pair_up :: "u8 \<Rightarrow> nan_engine \<Rightarrow> nan_engine \<Rightarrow> bool" where
  "ndp_pair_up i a b \<longleftrightarrow> nmi_of a \<noteq> nmi_of b \<and> ndi_of a \<noteq> ndi_of b \<and>
     (\<exists>sa sb. ne_ndps a = [sa] \<and> ne_ndps b = [sb] \<and>
       ns_peer sa = nmi_of b \<and> ns_ndp_id sa = i \<and> ns_role sa = Initiator \<and> ns_state sa = Established \<and>
       ns_peer sb = nmi_of a \<and> ns_ndp_id sb = i \<and> ns_role sb = Responder \<and> ns_state sb = Established)"

text \<open>
  Tearing a path down from the side that asked for it: the responder surfaces
  \<open>NdpTerminated\<close> and forgets the session. The side that tore it down keeps its own: it still
  counts the path as established, and a new request to that peer returns the dead path's id
  and sends nothing.
\<close>

theorem ndp_teardown_by_initiator:
  assumes "ndp_pair_up i a b"
  shows "let (a1, b1, ev) = ndp_hop t (terminate_ndp (nmi_of b) i a) b
         in ev = [NdpTerminated (nmi_of a) i] \<and> ne_ndps b1 = []
          \<and> established_ndps a1 = 1 \<and> request_ndp (nmi_of b) a1 = (i, a1)
          \<and> (\<forall>t'. emit_ndp t' a1 step_default = (a1, step_default))"
proof -
  obtain sa sb where s: "ne_ndps a = [sa]" "ne_ndps b = [sb]" "ns_peer sa = nmi_of b"
    "ns_ndp_id sa = i" "ns_role sa = Initiator" "ns_peer sb = nmi_of a" "ns_ndp_id sb = i"
    "ns_role sb = Responder" and ne: "nmi_of a \<noteq> nmi_of b" "ndi_of a \<noteq> ndi_of b"
    using assms by (auto simp: ndp_pair_up_def)
  let ?s = "sa\<lparr>ns_pending_tx := None, ns_state := Established\<rparr>"
  have idle: "emit_ndp_session (ne_cfg a) t' ?s = (?s, [], [])" for t'
    by (simp add: emit_ndp_session_def ndp_retry_due_def)
  show ?thesis
    using terminate_hop [OF s(1,3) ne(1), of t] ne
    by (simp add: s ndp_dispatch_def ndp_index_def ndp_index_role_def established_ndps_def
        request_ndp_def emit_ndp_def idle Let_def)
qed

text \<open>
  Tearing a path down from the side that accepted it does not reach the other side. The
  termination names the sender's NDI as initiator NDI, so the initiator looks for a session in
  which it is the responder, finds none and ignores the message: its engine is unchanged, it
  surfaces nothing and still counts the path as established.
\<close>

theorem ndp_teardown_by_responder_ignored:
  assumes "ndp_pair_up i a b"
  shows "let (b1, a1, ev) = ndp_hop t (terminate_ndp (nmi_of a) i b) a
         in ev = [] \<and> a1 = a \<and> established_ndps a1 = 1"
proof -
  obtain sa sb where s: "ne_ndps a = [sa]" "ne_ndps b = [sb]" "ns_role sa = Initiator"
    "ns_state sa = Established" "ns_peer sb = nmi_of a" "ns_ndp_id sb = i"
    and ne: "nmi_of b \<noteq> nmi_of a" "ndi_of b \<noteq> ndi_of a"
    using assms by (auto simp: ndp_pair_up_def)
  show ?thesis
    using terminate_hop [OF s(2,5) ne(1), of t] ne
    by (simp add: s ndp_dispatch_def ndp_index_def ndp_index_role_def established_ndps_def)
qed

definition node_a_up :: nan_engine where
  "node_a_up = node_a\<lparr>ne_ndps := [initiator_up (nmi_of node_b) 1 1 10 (ndi_of node_b)]\<rparr>"

definition node_b_up :: nan_engine where
  "node_b_up = node_b\<lparr>ne_ndps := [responder_up (nmi_of node_a) 1 1 (ndi_of node_a)]\<rparr>"

lemma node_up_pair: "ndp_pair_up 1 node_a_up node_b_up"
  by (simp add: ndp_pair_up_def node_a_up_def node_b_up_def)

theorem ndp_teardown_by_initiator_witness:
  "let (a1, b1, ev) = ndp_hop 99 (terminate_ndp (nmi_of node_b_up) 1 node_a_up) node_b_up
   in ev = [NdpTerminated (nmi_of node_a_up) 1] \<and> ne_ndps b1 = []
    \<and> established_ndps a1 = 1 \<and> request_ndp (nmi_of node_b_up) a1 = (1, a1)
    \<and> (\<forall>t'. emit_ndp t' a1 step_default = (a1, step_default))"
  by (rule ndp_teardown_by_initiator [OF node_up_pair])

theorem ndp_teardown_by_responder_ignored_witness:
  "let (b1, a1, ev) = ndp_hop 99 (terminate_ndp (nmi_of node_a_up) 1 node_b_up) node_a_up
   in ev = [] \<and> a1 = node_a_up \<and> established_ndps a1 = 1"
  by (rule ndp_teardown_by_responder_ignored [OF node_up_pair])

section \<open>A confirm before the answer\<close>

text \<open>
  A confirm is accepted before the request was answered. A node that refuses data paths
  hears M1 and M3 in the same poll: it surfaces \<open>NdpEstablished\<close> for a path it never accepted
  and counts it, and the next transmit then sends the rejection and drops the session without
  any further event.
\<close>

theorem ndp_confirm_before_response:
  assumes "src \<noteq> nmi_of b" and "ndi \<noteq> ndi_of b" and "ne_ndps b = []"
    and "\<not> nc_ndp_auto_accept (ne_cfg b)"
  shows "let m1 = ndp_frame_bytes DataPathRequest (nmi_of b) src cid sq1
               (ndpe_request tok i ndi (eui64_iid ndi));
             m3 = ndp_frame_bytes DataPathConfirm (nmi_of b) src cid sq2 (ndpe_confirm tok i ndi);
             (b1, st) = fold handle_rx [rx_of t m1, rx_of t m3] (b, step_default);
             (b2, st2) = emit_ndp t b1 step_default
         in st_events st = [NdpEstablished src i Responder ndi (eui64_iid ndi)]
          \<and> established_ndps b1 = 1
          \<and> ne_ndps b2 = [] \<and> st_events st2 = []
          \<and> st_tx st2 = [TxFrame (ndp_frame_bytes DataPathResponse src (nmi_of b)
               (ne_cluster_id b) (ne_seq b) (ndpe_reject tok i ndi))]"
proof -
  let ?m1 = "ndp_frame_bytes DataPathRequest (nmi_of b) src cid sq1
               (ndpe_request tok i ndi (eui64_iid ndi))"
  let ?m3 = "ndp_frame_bytes DataPathConfirm (nmi_of b) src cid sq2 (ndpe_confirm tok i ndi)"
  let ?b1 = "b\<lparr>ne_ndps := [responder_session src i tok ndi (eui64_iid ndi)]\<rparr>"
  let ?u = "(responder_up src i tok ndi)\<lparr>ns_pending_tx := Some DataPathResponse\<rparr>"
  have "handle_rx (rx_of t ?m1) (b, step_default) = (?b1, step_default)"
    using handle_rx_ndp_frame [of "rx_of t ?m1" DataPathRequest "nmi_of b" src cid sq1 _ b]
      assms(1-3) by (simp add: rx_of_def ndpe_valid_constructors ndpe_request_on_wire dispatch_request)
  moreover have "handle_rx (rx_of t ?m3) (?b1, step_default) = (b\<lparr>ne_ndps := [?u]\<rparr>,
      push_event (NdpEstablished src i Responder ndi (eui64_iid ndi)) step_default)"
  proof -
    have r: "(responder_session src i tok ndi (eui64_iid ndi)) =
        (responder_session src i tok ndi (eui64_iid ndi))\<lparr>ns_pending_tx := Some DataPathResponse\<rparr>"
      by (simp add: responder_session_def)
    show ?thesis
      using handle_rx_ndp_frame [of "rx_of t ?m3" DataPathConfirm "nmi_of b" src cid sq2 _ ?b1]
        dispatch_confirm [where p = src and i = i and e = ?b1 and k = 0 and tok = tok and
          ndi = ndi and pend = "Some DataPathResponse" and st = step_default] r assms(1,2)
      by (simp add: rx_of_def ndpe_valid_constructors ndpe_confirm_on_wire)
  qed
  moreover have "emit_ndp_session (ne_cfg b) t ?u = (?u\<lparr>ns_pending_tx := None\<rparr>,
      [(src, DataPathResponse, ndpe_encode (ndpe_reject tok i ndi) [])], [(src, i, Responder)])"
    using assms(4)
    by (simp add: emit_ndp_session_def ndp_retry_due_def ndp_reply_def ndpe_reject_def)
      (simp add: session_defs)
  ultimately show ?thesis
    by (simp add: Let_def emit_ndp_def send_ndp_frame_eq drop_ndp_def ndp_index_role_def
        established_ndps_def)
qed

theorem ndp_confirm_before_response_witness:
  "let m1 = ndp_frame_bytes DataPathRequest (nmi_of node_c) (Arr6 2 0 0 0 0 0xa) (Arr6 0 0 0 0 0 0) 0
         (ndpe_request 1 1 (Arr6 2 0 0 0 0 0xa) (eui64_iid (Arr6 2 0 0 0 0 0xa)));
       m3 = ndp_frame_bytes DataPathConfirm (nmi_of node_c) (Arr6 2 0 0 0 0 0xa) (Arr6 0 0 0 0 0 0) 1
         (ndpe_confirm 1 1 (Arr6 2 0 0 0 0 0xa));
       (b1, st) = fold handle_rx [rx_of 7 m1, rx_of 7 m3] (node_c, step_default);
       (b2, st2) = emit_ndp 7 b1 step_default
   in st_events st = [NdpEstablished (Arr6 2 0 0 0 0 0xa) 1 Responder (Arr6 2 0 0 0 0 0xa)
         (eui64_iid (Arr6 2 0 0 0 0 0xa))]
    \<and> established_ndps b1 = 1
    \<and> ne_ndps b2 = [] \<and> st_events st2 = []
    \<and> st_tx st2 = [TxFrame (ndp_frame_bytes DataPathResponse (Arr6 2 0 0 0 0 0xa) (nmi_of node_c)
         (ne_cluster_id node_c) (ne_seq node_c) (ndpe_reject 1 1 (Arr6 2 0 0 0 0 0xa)))]"
  by (rule ndp_confirm_before_response) simp_all

section \<open>A repeated request\<close>

text \<open>
  A lost answer does not spawn a second session. A node that has answered a request and
  hears the same request again makes the answer pending once more and changes nothing else;
  on a node that still owes the answer the repetition changes nothing at all.
\<close>

theorem ndp_repeated_request_idempotent:
  assumes "ne_ndps b = [(responder_session src i tok ndi iid)\<lparr>ns_pending_tx := p\<rparr>]"
    and "ndi \<noteq> ndi_of b"
  shows "on_ndp_request src (ndpe_request tok i ndi iid) b =
      b\<lparr>ne_ndps := [responder_session src i tok ndi iid]\<rparr>
    \<and> on_ndp_request src (ndpe_request tok i ndi iid)
        (on_ndp_request src (ndpe_request tok i ndi iid) b) =
      on_ndp_request src (ndpe_request tok i ndi iid) b"
  using assms
  by (simp add: on_ndp_request_def ndp_index_def ndp_index_role_def responder_session_def)

theorem ndp_repeated_request_idempotent_witness:
  "on_ndp_request (Arr6 2 0 0 0 0 0xa) (ndpe_request 1 1 (Arr6 2 0 0 0 0 0xa) (Arr8 1 2 3 4 5 6 7 8))
      (node_b\<lparr>ne_ndps := [(responder_session (Arr6 2 0 0 0 0 0xa) 1 1 (Arr6 2 0 0 0 0 0xa)
        (Arr8 1 2 3 4 5 6 7 8))\<lparr>ns_pending_tx := None\<rparr>]\<rparr>) =
    node_b\<lparr>ne_ndps := [responder_session (Arr6 2 0 0 0 0 0xa) 1 1 (Arr6 2 0 0 0 0 0xa)
        (Arr8 1 2 3 4 5 6 7 8)]\<rparr>"
  using ndp_repeated_request_idempotent [where b = "node_b\<lparr>ne_ndps := [(responder_session
      (Arr6 2 0 0 0 0 0xa) 1 1 (Arr6 2 0 0 0 0 0xa) (Arr8 1 2 3 4 5 6 7 8))\<lparr>ns_pending_tx := None\<rparr>]\<rparr>"
      and src = "Arr6 2 0 0 0 0 0xa" and i = 1 and tok = 1 and ndi = "Arr6 2 0 0 0 0 0xa"
      and iid = "Arr8 1 2 3 4 5 6 7 8" and p = None]
  by simp

end
