(* ===== verification/Nan_Progress.thy ===== *)
theory Nan_Progress
  imports Nan_Engine
begin

text \<open>
  What every operation of the engine keeps: the relation \<open>nan_rel\<close> from an engine and step to
  a later engine and step, proved once per primitive of \<open>engine.rs\<close> and closed under
  composition, and the well-formedness \<open>nan_wf\<close> of the session and peer tables.
\<close>

section \<open>The relation\<close>

fun disc_pair :: "nan_event \<Rightarrow> (arr6 \<times> arr6) list" where
  "disc_pair (Discovered sid peer _ _) = [(peer, sid)]"
| "disc_pair _ = []"

definition disc_pairs :: "nan_event list \<Rightarrow> (arr6 \<times> arr6) list" where
  "disc_pairs evs = concat (map disc_pair evs)"

lemma disc_pairs_simps [simp]:
  "disc_pairs [] = []" "disc_pairs (evs @ evs') = disc_pairs evs @ disc_pairs evs'"
  "disc_pairs [ev] = disc_pair ev"
  by (simp_all add: disc_pairs_def)

text \<open>A frame that its own sender would ignore on hearing it back.\<close>

definition own_frame :: "nan_config \<Rightarrow> tx_frame \<Rightarrow> bool" where
  "own_frame cfg f = (case classify (tx_bytes f) of
     Inl _ \<Rightarrow> True | Inr fr \<Rightarrow> h_addr2 (df_header fr) = nc_nmi cfg)"

definition seq_advance :: "nat \<Rightarrow> u16 \<Rightarrow> u16 \<Rightarrow> bool" where
  "seq_advance n sq sq' \<longleftrightarrow>
     (unat sq < 4096 \<longrightarrow> unat sq' = (unat sq + n) mod 4096)"

definition nan_rel :: "nan_engine \<times> step \<Rightarrow> nan_engine \<times> step \<Rightarrow> bool" where
  "nan_rel x y \<longleftrightarrow>
     ne_cfg (fst y) = ne_cfg (fst x) \<and> ne_rendezvous (fst y) = ne_rendezvous (fst x) \<and>
     ne_cluster_amr (fst x) \<le> ne_cluster_amr (fst y) \<and>
     (\<exists>tx new. st_tx (snd y) = st_tx (snd x) @ tx \<and>
        list_all (own_frame (ne_cfg (fst x))) tx \<and>
        seq_advance (length tx) (ne_seq (fst x)) (ne_seq (fst y)) \<and>
        disc_pairs (st_events (snd y)) = disc_pairs (st_events (snd x)) @ new \<and>
        distinct new \<and> set new \<inter> ne_discovered (fst x) = {} \<and>
        ne_discovered (fst y) = ne_discovered (fst x) \<union> set new)"

lemma nan_relI:
  assumes "ne_cfg e' = ne_cfg e" and "ne_rendezvous e' = ne_rendezvous e"
    and "ne_cluster_amr e \<le> ne_cluster_amr e'"
    and "st_tx st' = st_tx st @ tx" and "list_all (own_frame (ne_cfg e)) tx"
    and "seq_advance (length tx) (ne_seq e) (ne_seq e')"
    and "disc_pairs (st_events st') = disc_pairs (st_events st) @ new"
    and "distinct new" and "set new \<inter> ne_discovered e = {}"
    and "ne_discovered e' = ne_discovered e \<union> set new"
  shows "nan_rel (e, st) (e', st')"
  using assms unfolding nan_rel_def by auto

lemma seq_advance_0 [simp]: "seq_advance 0 sq sq"
  by (simp add: seq_advance_def)

lemma seq_advance_next: "seq_advance (Suc 0) sq ((sq + 1) AND 0x0FFF)"
proof -
  have "(sq + 1) AND 0x0FFF = take_bit 12 (sq + 1)"
    by (simp add: take_bit_eq_mask mask_eq_exp_minus_1)
  then show ?thesis
    by (simp add: seq_advance_def unsigned_take_bit_eq take_bit_eq_mod unat_word_ariths mod_mod_cancel)
qed

lemma seq_advance_trans:
  assumes "seq_advance m s t" and "seq_advance n t u"
  shows "seq_advance (m + n) s u"
  using assms by (auto simp: seq_advance_def mod_simps add.assoc)

lemma nan_rel_refl [simp]: "nan_rel x x"
proof (cases x)
  case (Pair e st)
  show ?thesis
    unfolding Pair by (rule nan_relI [where tx = "[]" and new = "[]"]) simp_all
qed

lemma nan_rel_trans:
  assumes "nan_rel x y" and "nan_rel y z"
  shows "nan_rel x z"
proof -
  obtain e st e1 st1 e2 st2 where xyz: "x = (e, st)" "y = (e1, st1)" "z = (e2, st2)"
    by (metis prod.exhaust)
  obtain tx new where 1: "st_tx st1 = st_tx st @ tx" "list_all (own_frame (ne_cfg e)) tx"
    "seq_advance (length tx) (ne_seq e) (ne_seq e1)"
    "disc_pairs (st_events st1) = disc_pairs (st_events st) @ new" "distinct new"
    "set new \<inter> ne_discovered e = {}" "ne_discovered e1 = ne_discovered e \<union> set new"
    "ne_cfg e1 = ne_cfg e" "ne_rendezvous e1 = ne_rendezvous e"
    "ne_cluster_amr e \<le> ne_cluster_amr e1"
    using assms(1) by (auto simp: nan_rel_def xyz)
  obtain tx' new' where 2: "st_tx st2 = st_tx st1 @ tx'" "list_all (own_frame (ne_cfg e1)) tx'"
    "seq_advance (length tx') (ne_seq e1) (ne_seq e2)"
    "disc_pairs (st_events st2) = disc_pairs (st_events st1) @ new'" "distinct new'"
    "set new' \<inter> ne_discovered e1 = {}" "ne_discovered e2 = ne_discovered e1 \<union> set new'"
    "ne_cfg e2 = ne_cfg e1" "ne_rendezvous e2 = ne_rendezvous e1"
    "ne_cluster_amr e1 \<le> ne_cluster_amr e2"
    using assms(2) by (auto simp: nan_rel_def xyz)
  show ?thesis
    unfolding xyz using 1 2
    by (intro nan_relI [where tx = "tx @ tx'" and new = "new @ new'"])
      (auto intro: seq_advance_trans)
qed

lemma nan_rel_fold:
  assumes "\<And>a e st. nan_rel (e, st) (f a (e, st))"
  shows "nan_rel es (fold f as es)"
proof (induction "as" arbitrary: es)
  case Nil
  then show ?case by simp
next
  case (Cons a as)
  show ?case
    using assms [of "fst es" "snd es" a] Cons.IH [of "f a es"]
    by (auto intro: nan_rel_trans)
qed

text \<open>A change that touches none of the fields of the relation, with an event or none.\<close>

lemma nan_rel_quiet:
  assumes "ne_cfg e' = ne_cfg e" and "ne_rendezvous e' = ne_rendezvous e"
    and "ne_cluster_amr e \<le> ne_cluster_amr e'" and "ne_seq e' = ne_seq e"
    and "ne_discovered e' = ne_discovered e"
  shows "nan_rel (e, st) (e', st)"
    and "disc_pair ev = [] \<Longrightarrow> nan_rel (e, st) (e', push_event ev st)"
   apply (rule nan_relI [where tx = "[]" and new = "[]"])
            apply (simp_all add: assms)
  apply (rule nan_relI [where tx = "[]" and new = "[]"])
           apply (simp_all add: assms push_event_def)
  done

text \<open>One frame sent.\<close>

lemma nan_rel_send:
  assumes "own_frame (ne_cfg e) (TxFrame f)" and "e' = e\<lparr>ne_seq := (ne_seq e + 1) AND 0x0FFF\<rparr>"
  shows "nan_rel (e, st) (e', push_tx f st)"
  using assms seq_advance_next [of "ne_seq e"]
  by (intro nan_relI [where tx = "[TxFrame f]" and new = "[]"]) (simp_all add: push_tx_def)

section \<open>The primitives\<close>

lemma own_frame_sdf:
  assumes "h_frame_control (sf_header f) = FC_ACTION" and "h_addr2 (sf_header f) = nc_nmi cfg"
  shows "own_frame cfg (TxFrame (sdf_encode f attrs))"
  using assms by (simp add: own_frame_def classify_sdf)

lemma own_frame_naf:
  assumes "h_frame_control (nf_header f) = FC_ACTION" and "h_addr2 (nf_header f) = nc_nmi cfg"
  shows "own_frame cfg (TxFrame (naf_encode f attrs))"
  using assms by (simp add: own_frame_def classify_naf)

lemma nan_beacon_parse_header:
  assumes "nan_beacon_parse (nan_beacon_encode b attrs) = Inr (b', as)"
  shows "bc_header b' = bc_header b"
proof -
  let ?c = "cursor (dot11_header_bytes (bc_header b) @ to_le 8 (bc_timestamp b) @
      to_le 2 (bc_beacon_interval b) @ to_le 2 (bc_capability b))
      (ELEMENT_ID_VENDOR_SPECIFIC # word_of_nat (4 + length attrs) # NAN_OUI @ NAN_OUI_TYPE # attrs)"
  obtain x r where "find_nan_vendor_ie ?c = (x, r)" by fastforce
  then show ?thesis
    using assms
    by (cases x) (auto simp del: of_nat_add simp: nan_beacon_parse_def nan_beacon_read_def
        nan_beacon_encode_eq rd_run_cursor rd_bind_app dot11_header_read_bytes rd_le64_append
        rd_le16_append rd_return_app rd_fail_def split: if_splits)
qed

lemma own_frame_beacon:
  assumes "h_frame_control (bc_header b) = FC_BEACON" and "h_addr2 (bc_header b) = nc_nmi cfg"
  shows "own_frame cfg (TxFrame (nan_beacon_encode b attrs))"
proof -
  obtain r where hd: "dot11_header_decode (nan_beacon_encode b attrs) = Inr (bc_header b, r)"
    by (simp add: nan_beacon_encode_eq dot11_header_decode_bytes)
  show ?thesis
  proof (cases "nan_beacon_parse (nan_beacon_encode b attrs)")
    case (Inl x)
    then show ?thesis using assms(1) by (simp add: own_frame_def classify_def hd)
  next
    case (Inr y)
    obtain b' as' where y: "y = (b', as')" by fastforce
    have "bc_header b' = bc_header b"
      using nan_beacon_parse_header Inr unfolding y .
    then show ?thesis using assms Inr by (simp add: own_frame_def classify_def hd y)
  qed
qed

lemma header_new_sel [simp]:
  "h_frame_control (dot11_header_new fc a1 a2 a3 s) = fc"
  "h_addr1 (dot11_header_new fc a1 a2 a3 s) = a1"
  "h_addr2 (dot11_header_new fc a1 a2 a3 s) = a2"
  "h_addr3 (dot11_header_new fc a1 a2 a3 s) = a3"
  by (simp_all add: dot11_header_new_def)

lemma rel_emit_beacon: "nan_rel (e, st) (emit_beacon now e st)"
  unfolding emit_beacon_def next_seq_def Let_def prod.case
  by (rule nan_rel_send) (auto intro!: own_frame_beacon simp: nan_beacon_new_def)

lemma rel_emit_discovery: "nan_rel (e, st) (emit_discovery e st)"
  unfolding emit_discovery_def next_seq_def Let_def prod.case
  by (auto intro!: nan_rel_send own_frame_sdf simp: sdf_new_def)

lemma rel_emit_followup: "nan_rel (e, st) (emit_followup fu e st)"
  unfolding emit_followup_def next_seq_def Let_def prod.case
  by (rule nan_rel_send) (auto intro!: own_frame_sdf simp: sdf_new_def)

lemma rel_emit_followups: "nan_rel (e, st) (emit_followups e st)"
proof (induction e st rule: emit_followups.induct)
  case (1 e st)
  show ?case
  proof (cases "ne_followups e")
    case Nil
    then show ?thesis by (simp add: emit_followups.simps)
  next
    case (Cons fu rest)
    let ?e = "e\<lparr>ne_followups := rest\<rparr>"
    obtain e' st' where r: "emit_followup fu ?e st = (e', st')" by fastforce
    have "nan_rel (e, st) (?e, st)" by (rule nan_rel_quiet) simp_all
    moreover have "nan_rel (?e, st) (e', st')"
      using rel_emit_followup [of ?e st fu] r by simp
    moreover have "nan_rel (e', st') (emit_followups e' st')"
      using 1 [OF Cons r [symmetric]] .
    ultimately show ?thesis
      by (subst emit_followups.simps) (auto simp: Cons r intro: nan_rel_trans)
  qed
qed

lemma rel_handle_beacon: "nan_rel (e, st) (handle_beacon rx e, st)"
  unfolding handle_beacon_def
  by (auto intro!: nan_rel_quiet split: sum.splits option.splits)

lemma rel_handle_sda: "nan_rel (e, st) (handle_sda rx to_us attr (e, st))"
proof -
  have note_peer: "ne_cfg (note_peer p i e) = ne_cfg e" "ne_rendezvous (note_peer p i e) = ne_rendezvous e"
    "ne_cluster_amr (note_peer p i e) = ne_cluster_amr e" "ne_seq (note_peer p i e) = ne_seq e"
    "ne_discovered (note_peer p i e) = ne_discovered e" for p i
    by (auto simp: note_peer_def split: option.splits)
  have fresh: "nan_rel (e, st) ((note_peer p i e)\<lparr>ne_discovered := insert (p, sid)
      (ne_discovered (note_peer p i e))\<rparr>, push_event (Discovered sid p ssi r) st)"
    if "(p, sid) \<notin> ne_discovered e" for p i sid ssi r
    using that
    by (intro nan_relI [where tx = "[]" and new = "[(p, sid)]"]) (auto simp: note_peer push_event_def)
  show ?thesis
    unfolding handle_sda_def Let_def
    using fresh
    by (auto intro!: nan_rel_quiet simp: note_peer
        split: sum.splits service_control_type.splits)
qed

lemma rel_handle_sdf: "nan_rel (e, st) (handle_sdf rx attrs e st)"
  unfolding handle_sdf_def Let_def by (rule nan_rel_fold) (rule rel_handle_sda)

lemma rel_ndp_response: "nan_rel (e, st) (on_ndp_response peer n e st)"
  unfolding on_ndp_response_def Let_def
  by (auto intro!: nan_rel_quiet split: option.splits ndp_status.splits)

lemma rel_ndp_confirm: "nan_rel (e, st) (on_ndp_confirm peer n e st)"
  unfolding on_ndp_confirm_def Let_def
  by (auto intro!: nan_rel_quiet split: option.splits)

lemma rel_ndp_request: "nan_rel (e, st) (on_ndp_request peer n e, st)"
  unfolding on_ndp_request_def
  by (auto intro!: nan_rel_quiet split: option.splits)

lemma rel_handle_naf: "nan_rel (e, st) (handle_naf rx subtype attrs e st)"
  unfolding handle_naf_def Let_def
  using rel_ndp_request rel_ndp_response rel_ndp_confirm
  by (auto intro!: nan_rel_quiet split: option.splits sum.splits naf_subtype.splits)

lemma rel_handle_rx: "nan_rel (e, st) (handle_rx rx (e, st))"
  unfolding handle_rx_def Let_def
  using rel_handle_beacon rel_handle_sdf rel_handle_naf
  by (auto split: sum.splits frame_type.splits)

lemma rel_send_ndp_frame: "nan_rel (e, st) (send_ndp_frame fr (e, st))"
  unfolding send_ndp_frame_def next_seq_def Let_def
  by (auto split: prod.splits intro!: nan_rel_send own_frame_naf simp: naf_new_def)

lemma rel_drop_ndp: "nan_rel (e, st) (drop_ndp key (e, st))"
  unfolding drop_ndp_def Let_def
  by (auto intro!: nan_rel_quiet split: option.splits prod.splits)

lemma rel_emit_ndp: "nan_rel (e, st) (emit_ndp now e st)"
proof -
  have "nan_rel (e, st) (e\<lparr>ne_ndps := xs\<rparr>, st)" for xs
    by (rule nan_rel_quiet) simp_all
  moreover have "nan_rel es (fold send_ndp_frame frames es)" for es frames
    by (rule nan_rel_fold) (rule rel_send_ndp_frame)
  moreover have "nan_rel es (fold drop_ndp ks es)" for es ks
    by (rule nan_rel_fold) (rule rel_drop_ndp)
  ultimately show ?thesis
    unfolding emit_ndp_def Let_def by (meson nan_rel_trans)
qed

lemma rel_poll_burst: "nan_rel (e, st) (poll_burst now e st)"
proof -
  let ?e = "e\<lparr>ne_last_burst_dw := Some (dw_index e now)\<rparr>"
  obtain e1 st1 where b: "emit_beacon now ?e st = (e1, st1)" by fastforce
  have "nan_rel (e, st) (?e, st)"
    by (rule nan_rel_quiet) simp_all
  moreover have "nan_rel (?e, st) (e1, st1)"
    using rel_emit_beacon [of ?e st now] b by simp
  ultimately have "nan_rel (e, st) (emit_discovery e1 st1)"
    using rel_emit_discovery by (blast intro: nan_rel_trans)
  then show ?thesis
    by (simp add: poll_burst_def Let_def b)
qed

lemma rel_poll_transmit: "nan_rel (e, st) (poll_transmit now e st)"
proof -
  obtain e1 st1 where b: "poll_burst now e st = (e1, st1)" by fastforce
  obtain e2 st2 where f: "emit_followups e1 st1 = (e2, st2)" by fastforce
  have "nan_rel (e, st) (e1, st1)" "nan_rel (e1, st1) (e2, st2)"
    using rel_poll_burst [of e st now] rel_emit_followups [of e1 st1] b f by simp_all
  then have "nan_rel (e, st) (emit_ndp now e2 st2)"
    using rel_emit_ndp by (blast intro: nan_rel_trans)
  then show ?thesis
    by (simp add: poll_transmit_def b f)
qed

lemma rel_poll:
  assumes "poll now inbound e = (e', st')"
  shows "nan_rel (e, step_default) (e', st'\<lparr>st_wake_at_usec := 0\<rparr>)"
proof -
  obtain e0 st0 where i: "poll_init now e = (e0, st0)" by fastforce
  obtain e1 st1 where r: "fold handle_rx inbound (e0, st0) = (e1, st1)" by fastforce
  obtain e2 st2 where t: "poll_transmit now e1 st1 = (e2, st2)" by fastforce
  have "nan_rel (e, step_default) (e0, st0)"
    using i by (auto intro!: nan_relI [where tx = "[]" and new = "[]"]
        simp: poll_init_def Let_def step_default_def split: if_splits)
  moreover have "nan_rel (e0, st0) (e1, st1)"
    using nan_rel_fold [of handle_rx "(e0, st0)" inbound] rel_handle_rx r by simp
  moreover have "nan_rel (e1, st1) (e2, st2)"
    using rel_poll_transmit [of e1 st1 now] t by simp
  ultimately have "nan_rel (e, step_default) (e2, st2)"
    by (blast intro: nan_rel_trans)
  moreover have "e' = e2" "st' = st2\<lparr>st_wake_at_usec := next_dw_start_usec e2 now\<rparr>"
    using assms by (auto simp: poll_def i r t)
  ultimately show ?thesis
    by (simp add: nan_rel_def)
qed

end
