(* ===== verification/Nan_Reach.thy ===== *)
theory Nan_Reach
  imports Nan_Progress
begin

text \<open>
  Every state an engine can get into: the public operations of \<open>NanEngine\<close> as a datatype, the
  step relation \<open>nan_reach\<close> that runs any sequence of them on any received frames, and the
  invariants of the runs.
\<close>

section \<open>Runs\<close>

datatype nan_op =
    OpPublish "u8 list" "u8 list"
  | OpSubscribe "u8 list" bool
  | OpBroadcastFollowup "u8 list"
  | OpRequestNdp arr6
  | OpTerminateNdp arr6 u8
  | OpPoll usec "rx_frame list"

fun nan_exec :: "(u8 list \<Rightarrow> digest) \<Rightarrow> nan_op \<Rightarrow> nan_engine \<Rightarrow> nan_engine \<times> step" where
  "nan_exec sha256 (OpPublish name ssi) e = (snd (publish sha256 name ssi e), step_default)"
| "nan_exec sha256 (OpSubscribe name active) e = (snd (subscribe sha256 name active e), step_default)"
| "nan_exec sha256 (OpBroadcastFollowup ssi) e = (snd (broadcast_followup ssi e), step_default)"
| "nan_exec sha256 (OpRequestNdp peer) e = (snd (request_ndp peer e), step_default)"
| "nan_exec sha256 (OpTerminateNdp peer i) e = (terminate_ndp peer i e, step_default)"
| "nan_exec sha256 (OpPoll now inbound) e = poll now inbound e"

text \<open>
  \<open>nan_reach sha256 e0 e evs tx\<close>: from \<open>e0\<close> some sequence of operations leads to \<open>e\<close>; \<open>evs\<close>
  are the events surfaced on the way and \<open>tx\<close> the frames handed to the driver, in order.
\<close>

inductive nan_reach ::
    "(u8 list \<Rightarrow> digest) \<Rightarrow> nan_engine \<Rightarrow> nan_engine \<Rightarrow> nan_event list \<Rightarrow> tx_frame list \<Rightarrow> bool"
  for sha256 :: "u8 list \<Rightarrow> digest" and e0 :: nan_engine where
  start: "nan_reach sha256 e0 e0 [] []"
| step: "nan_reach sha256 e0 e evs tx \<Longrightarrow> nan_exec sha256 op e = (e', st) \<Longrightarrow>
    nan_reach sha256 e0 e' (evs @ st_events st) (tx @ st_tx st)"

inductive_cases nan_reach_stepE: "nan_reach sha256 e0 e evs tx"

section \<open>Every operation is in the relation\<close>

lemma st_default_sel [simp]: "st_tx step_default = []" "st_events step_default = []"
  by (simp_all add: step_default_def)

lemma nan_exec_rel:
  assumes "nan_exec sha256 op e = (e', st)"
  shows "nan_rel (e, step_default) (e', st\<lparr>st_wake_at_usec := 0\<rparr>)"
proof (cases op)
  case (OpPoll now inbound)
  then show ?thesis using assms rel_poll by simp
qed (use assms in \<open>auto intro!: nan_relI [where tx = "[]" and new = "[]"]
      simp: publish_def subscribe_def add_function_def broadcast_followup_def request_ndp_def
        terminate_ndp_def Let_def step_default_def split: option.splits\<close>)

text \<open>The relation, read off a whole run.\<close>

definition run_rel :: "nan_engine \<Rightarrow> nan_engine \<Rightarrow> nan_event list \<Rightarrow> tx_frame list \<Rightarrow> bool" where
  "run_rel e0 e evs tx \<longleftrightarrow>
     nan_rel (e0, step_default) (e, step_default\<lparr>st_events := evs, st_tx := tx\<rparr>)"

lemma nan_rel_shift:
  assumes "nan_rel (e, step_default) (e', st)"
  shows "nan_rel (e, s\<lparr>st_events := evs, st_tx := tx\<rparr>)
    (e', s\<lparr>st_events := evs @ st_events st, st_tx := tx @ st_tx st\<rparr>)"
  using assms by (auto simp: nan_rel_def)

lemma nan_reach_rel: "nan_reach sha256 e0 e evs tx \<Longrightarrow> run_rel e0 e evs tx"
proof (induction rule: nan_reach.induct)
  case start
  then show ?case by (simp add: run_rel_def step_default_def)
next
  case (step e evs tx op e' st)
  have "nan_rel (e, step_default\<lparr>st_events := evs, st_tx := tx\<rparr>)
      (e', step_default\<lparr>st_events := evs @ st_events st, st_tx := tx @ st_tx st\<rparr>)"
    using nan_rel_shift [OF nan_exec_rel [OF step.hyps(2)]] by simp
  with step.IH show ?case
    unfolding run_rel_def by (rule nan_rel_trans)
qed

section \<open>Well-formed tables\<close>

definition initiators :: "ndp_session list \<Rightarrow> arr6 list" where
  "initiators xs = map ns_peer (filter (\<lambda>s. ns_role s = Initiator) xs)"

definition session_ok :: "ndp_session \<Rightarrow> bool" where
  "session_ok s \<longleftrightarrow> ns_attempts s \<le> NDP_MAX_ATTEMPTS
     \<and> (ns_pending_tx s = Some DataPathRequest \<longrightarrow> ns_role s = Initiator \<and> ns_attempts s = 0)
     \<and> (ns_pending_tx s \<in> {None, Some DataPathRequest, Some DataPathResponse,
          Some DataPathConfirm, Some DataPathTermination})
     \<and> (ns_role s = Initiator \<longrightarrow> ns_state s \<noteq> AwaitingConfirm)
     \<and> (ns_role s = Responder \<longrightarrow> ns_state s \<noteq> AwaitingResponse)"

definition nan_wf :: "nan_engine \<Rightarrow> bool" where
  "nan_wf e \<longleftrightarrow> distinct (map fst (ne_peers e)) \<and> distinct (initiators (ne_ndps e))
     \<and> list_all session_ok (ne_ndps e)"

lemma initiators_simps [simp]:
  "initiators [] = []" "initiators (xs @ ys) = initiators xs @ initiators ys"
  "initiators (s # xs) = (if ns_role s = Initiator then ns_peer s # initiators xs else initiators xs)"
  by (simp_all add: initiators_def)

lemma initiators_update:
  "i < length xs \<Longrightarrow> ns_peer s = ns_peer (xs ! i) \<Longrightarrow> ns_role s = ns_role (xs ! i) \<Longrightarrow>
   initiators (xs[i := s]) = initiators xs"
  by (induction xs arbitrary: i) (auto split: nat.split)

lemma initiators_map:
  "(\<And>s. ns_peer (f s) = ns_peer s \<and> ns_role (f s) = ns_role s) \<Longrightarrow>
   initiators (map f xs) = initiators xs"
  by (induction xs) auto

lemma distinct_initiators_remove:
  "distinct (initiators xs) \<Longrightarrow> distinct (initiators (remove_at i xs))"
proof (induction xs arbitrary: i)
  case Nil
  then show ?case by (simp add: remove_at_def)
next
  case (Cons s xs)
  have "set (initiators (remove_at j xs)) \<subseteq> set (initiators xs)" for j
    using set_remove_at [of j xs] by (auto simp: initiators_def)
  then have sub: "p \<in> set (initiators xs)" if "p \<in> set (initiators (remove_at j xs))" for p j
    using that by blast
  from Cons show ?case by (cases i) (auto split: if_splits dest: sub)
qed

lemma list_all_remove_at: "list_all P xs \<Longrightarrow> list_all P (remove_at i xs)"
  using set_remove_at [of i xs] by (auto simp: list_all_iff)

lemma list_all_update: "list_all P xs \<Longrightarrow> P x \<Longrightarrow> list_all P (xs[i := x])"
  using set_update_subset_insert [of xs i x] by (auto simp: list_all_iff)

lemma wf_remove: "nan_wf e \<Longrightarrow> nan_wf (e\<lparr>ne_ndps := remove_at i (ne_ndps e)\<rparr>)"
  by (simp add: nan_wf_def distinct_initiators_remove list_all_remove_at)

lemma wf_update:
  assumes "nan_wf e" and "i < length (ne_ndps e)" and "ns_peer s = ns_peer (ne_ndps e ! i)"
    and "ns_role s = ns_role (ne_ndps e ! i)" and "session_ok s"
  shows "nan_wf (e\<lparr>ne_ndps := (ne_ndps e)[i := s]\<rparr>)"
  using assms by (simp add: nan_wf_def initiators_update list_all_update)

lemma wf_nth: "nan_wf e \<Longrightarrow> i < length (ne_ndps e) \<Longrightarrow> session_ok (ne_ndps e ! i)"
  by (simp add: nan_wf_def list_all_length)

lemma ndp_index_lt: "ndp_index e peer n = Some i \<Longrightarrow> i < length (ne_ndps e)"
  by (auto simp: ndp_index_def ndp_index_role_def dest!: position_Some)

text \<open>The tables the transmit functions do not touch.\<close>

definition same_tables :: "nan_engine \<Rightarrow> nan_engine \<Rightarrow> bool" where
  "same_tables e e' \<longleftrightarrow> ne_peers e' = ne_peers e \<and> ne_ndps e' = ne_ndps e"

lemma wf_same_tables: "same_tables e e' \<Longrightarrow> nan_wf e' = nan_wf e"
  by (simp add: same_tables_def nan_wf_def)

lemma same_tables_trans: "same_tables a b \<Longrightarrow> same_tables b c \<Longrightarrow> same_tables a c"
  by (simp add: same_tables_def)

lemma tables_emit_beacon: "same_tables e (fst (emit_beacon now e st))"
  by (simp add: emit_beacon_def next_seq_def Let_def same_tables_def)

lemma tables_emit_discovery: "same_tables e (fst (emit_discovery e st))"
  by (simp add: emit_discovery_def next_seq_def Let_def same_tables_def)

lemma tables_emit_followup: "same_tables e (fst (emit_followup fu e st))"
  by (simp add: emit_followup_def next_seq_def Let_def same_tables_def)

lemma tables_emit_followups: "same_tables e (fst (emit_followups e st))"
proof (induction e st rule: emit_followups.induct)
  case (1 e st)
  show ?case
  proof (cases "ne_followups e")
    case Nil
    then show ?thesis by (simp add: emit_followups.simps same_tables_def)
  next
    case (Cons fu rest)
    obtain e' st' where r: "emit_followup fu (e\<lparr>ne_followups := rest\<rparr>) st = (e', st')"
      by fastforce
    have "same_tables e e'"
      using tables_emit_followup [of "e\<lparr>ne_followups := rest\<rparr>" fu st] r
      by (simp add: same_tables_def)
    with 1 [OF Cons r [symmetric]] show ?thesis
      by (subst emit_followups.simps) (auto simp: Cons r intro: same_tables_trans)
  qed
qed

lemma tables_send: "same_tables e (fst (send_ndp_frame fr (e, st)))"
  by (cases fr) (simp add: send_ndp_frame_def next_seq_def Let_def same_tables_def)

section \<open>Preservation\<close>

lemma wf_note_peer: "nan_wf e \<Longrightarrow> nan_wf (note_peer p i e)"
proof (cases "position (\<lambda>(q, _). q = p) (ne_peers e)")
  case None
  then have "p \<notin> fst ` set (ne_peers e)" by auto
  moreover have "note_peer p i e = e\<lparr>ne_peers := ne_peers e @ [(p, i)]\<rparr>"
    by (simp only: note_peer_def None option.case)
  ultimately show "nan_wf e \<Longrightarrow> nan_wf (note_peer p i e)"
    by (simp add: nan_wf_def)
next
  case (Some k)
  then show "nan_wf e \<Longrightarrow> nan_wf (note_peer p i e)"
    using position_Some [OF Some]
    by (simp add: note_peer_def nan_wf_def map_update)
      (metis (no_types, lifting) length_map list_update_id nth_map)
qed

lemma wf_handle_sda: "nan_wf e \<Longrightarrow> nan_wf (fst (handle_sda rx to_us attr (e, st)))"
proof -
  have "nan_wf (x\<lparr>ne_discovered := d\<rparr>) = nan_wf x" for x d
    by (simp add: nan_wf_def)
  then show "nan_wf e \<Longrightarrow> nan_wf (fst (handle_sda rx to_us attr (e, st)))"
    by (auto simp: handle_sda_def Let_def wf_note_peer split: sum.splits service_control_type.splits)
qed

lemma wf_fold:
  assumes "\<And>a e st. nan_wf e \<Longrightarrow> nan_wf (fst (f a (e, st)))"
  shows "nan_wf (fst es) \<Longrightarrow> nan_wf (fst (fold f as es))"
proof (induction "as" arbitrary: es)
  case (Cons a as)
  then show ?case using assms [of "fst es" a "snd es"] by simp
qed simp

lemma wf_handle_beacon: "nan_wf (handle_beacon rx e) = nan_wf e"
  by (auto simp: handle_beacon_def nan_wf_def split: sum.splits option.splits)

lemma wf_ndp_request:
  assumes "nan_wf e"
  shows "nan_wf (on_ndp_request peer n e)"
proof (cases "ndp_index e peer n")
  case None
  then show ?thesis
    using assms by (simp add: on_ndp_request_def nan_wf_def session_ok_def)
next
  case (Some i)
  then have "i < length (ne_ndps e)" by (rule ndp_index_lt)
  then show ?thesis
    using assms Some wf_nth [OF assms]
    by (auto simp: on_ndp_request_def session_ok_def intro!: wf_update)
qed

lemma wf_ndp_response: "nan_wf e \<Longrightarrow> nan_wf (fst (on_ndp_response peer n e st))"
proof (cases "ndp_index e peer n")
  case (Some i)
  assume wf: "nan_wf e"
  have "i < length (ne_ndps e)" using Some by (rule ndp_index_lt)
  then show "nan_wf (fst (on_ndp_response peer n e st))"
    using wf Some wf_nth [OF wf]
    by (auto simp: on_ndp_response_def Let_def session_ok_def
        intro!: wf_update wf_remove split: ndp_status.splits option.splits)
qed (simp add: on_ndp_response_def)

lemma wf_ndp_confirm: "nan_wf e \<Longrightarrow> nan_wf (fst (on_ndp_confirm peer n e st))"
proof (cases "ndp_index e peer n")
  case (Some i)
  assume wf: "nan_wf e"
  have "i < length (ne_ndps e)" using Some by (rule ndp_index_lt)
  then show "nan_wf (fst (on_ndp_confirm peer n e st))"
    using wf Some wf_nth [OF wf]
    by (auto simp: on_ndp_confirm_def Let_def session_ok_def
        intro!: wf_update wf_remove split: option.splits)
qed (simp add: on_ndp_confirm_def)

lemma wf_handle_naf: "nan_wf e \<Longrightarrow> nan_wf (fst (handle_naf rx subtype attrs e st))"
  using wf_ndp_request wf_ndp_response wf_ndp_confirm wf_remove
  by (auto simp: handle_naf_def Let_def split: option.splits sum.splits naf_subtype.splits)

lemma wf_handle_rx: "nan_wf e \<Longrightarrow> nan_wf (fst (handle_rx rx (e, st)))"
  using wf_fold [of "handle_sda rx _"] wf_handle_sda wf_handle_naf
  by (auto simp: handle_rx_def handle_sdf_def wf_handle_beacon Let_def
      split: sum.splits frame_type.splits)

lemma ndp_reply_session:
  assumes "ndp_reply cfg now sub s = Some (n, s')"
  shows "s' = (if sub = DataPathRequest then s\<lparr>ns_attempts := saturating_inc (ns_attempts s),
    ns_retry_at_usec := now + NDP_RETRY_USEC\<rparr> else s)"
  using assms by (cases sub) (auto simp: ndp_reply_def Let_def)

lemma attempts_inc: "a < NDP_MAX_ATTEMPTS \<Longrightarrow> saturating_inc a \<le> NDP_MAX_ATTEMPTS"
proof -
  assume "a < NDP_MAX_ATTEMPTS"
  then have "unat a < 4" by (simp add: NDP_MAX_ATTEMPTS_def word_less_nat_alt)
  then show ?thesis
    by (auto simp: saturating_inc_def NDP_MAX_ATTEMPTS_def word_le_nat_alt unat_word_ariths)
qed

lemma emit_session_key:
  "ns_peer (fst (emit_ndp_session cfg now s)) = ns_peer s \<and>
   ns_role (fst (emit_ndp_session cfg now s)) = ns_role s"
  by (auto simp: emit_ndp_session_def Let_def dest!: ndp_reply_session split: option.splits)

lemma wf_emit_session:
  assumes "session_ok s"
  shows "session_ok (fst (emit_ndp_session cfg now s))"
proof -
  let ?s = "if ndp_retry_due now s then s\<lparr>ns_pending_tx := Some DataPathRequest\<rparr> else s"
  show ?thesis
  proof (cases "(ndp_retry_due now s \<and> NDP_MAX_ATTEMPTS \<le> ns_attempts s) \<or> ns_pending_tx ?s = None")
    case True
    then show ?thesis
      using assms by (auto simp: emit_ndp_session_def split: if_splits option.splits)
  next
    case False
    then obtain sub where sub: "ns_pending_tx ?s = Some sub" by auto
    have lt: "ns_attempts s < NDP_MAX_ATTEMPTS" if "sub = DataPathRequest"
      using False sub that assms
      by (auto simp: session_ok_def NDP_MAX_ATTEMPTS_def not_le split: if_splits)
    have "session_ok s' " if "ndp_reply cfg now sub (?s\<lparr>ns_pending_tx := None\<rparr>) = Some (n, s')" for n s'
      using ndp_reply_session [OF that] assms attempts_inc [OF lt]
      by (auto simp: session_ok_def split: if_splits)
    moreover have "session_ok (?s\<lparr>ns_pending_tx := None\<rparr>)"
      using assms by (auto simp: session_ok_def)
    moreover have "fst (emit_ndp_session cfg now s) =
        (case ndp_reply cfg now sub (?s\<lparr>ns_pending_tx := None\<rparr>) of
           None \<Rightarrow> ?s\<lparr>ns_pending_tx := None\<rparr> | Some (n, s') \<Rightarrow> s')"
      using False sub
      by (cases "ndp_retry_due now s")
        (auto simp: emit_ndp_session_def Let_def split: option.split prod.split)
    ultimately show ?thesis
      by (simp split: option.split split del: if_split)
  qed
qed

lemma wf_emit_ndp: "nan_wf e \<Longrightarrow> nan_wf (fst (emit_ndp now e st))"
proof -
  assume wf: "nan_wf e"
  let ?f = "\<lambda>s. fst (emit_ndp_session (ne_cfg e) now s)"
  let ?e = "e\<lparr>ne_ndps := map fst (map (emit_ndp_session (ne_cfg e) now) (ne_ndps e))\<rparr>"
  have "map fst (map (emit_ndp_session (ne_cfg e) now) (ne_ndps e)) = map ?f (ne_ndps e)"
    by simp
  then have 1: "nan_wf ?e"
    using wf initiators_map [of ?f] emit_session_key wf_emit_session
    by (simp add: nan_wf_def list_all_iff comp_def)
  have 2: "nan_wf (fst (fold send_ndp_frame frames es))" if "nan_wf (fst es)" for frames es
    using that by (rule wf_fold [rotated]) (metis wf_same_tables tables_send)
  have 3: "nan_wf (fst (fold drop_ndp ks es))" if "nan_wf (fst es)" for ks es
    using that
    by (rule wf_fold [rotated]) (auto simp: drop_ndp_def Let_def wf_remove split: prod.splits option.splits)
  show ?thesis
    unfolding emit_ndp_def Let_def by (rule 3, rule 2) (use 1 in simp)
qed

lemma wf_poll: "nan_wf e \<Longrightarrow> nan_wf (fst (poll now inbound e))"
proof -
  assume "nan_wf e"
  obtain e0 st0 where i: "poll_init now e = (e0, st0)" by fastforce
  obtain e1 st1 where r: "fold handle_rx inbound (e0, st0) = (e1, st1)" by fastforce
  obtain e2 st2 where t: "poll_transmit now e1 st1 = (e2, st2)" by fastforce
  have "nan_wf e0"
    using \<open>nan_wf e\<close> i by (auto simp: poll_init_def Let_def nan_wf_def split: if_splits)
  then have w1: "nan_wf e1"
    using wf_fold [of handle_rx "(e0, st0)" inbound] wf_handle_rx r by simp
  have burst: "same_tables e1 (fst (poll_burst now e1 st1))"
  proof -
    let ?e = "e1\<lparr>ne_last_burst_dw := Some (dw_index e1 now)\<rparr>"
    obtain e3 st3 where b: "emit_beacon now ?e st1 = (e3, st3)" by fastforce
    have "same_tables e1 e3"
      using tables_emit_beacon [of ?e now st1] b by (simp add: same_tables_def)
    then have "same_tables e1 (fst (emit_discovery e3 st3))"
      using tables_emit_discovery by (rule same_tables_trans)
    then show ?thesis
      by (simp add: poll_burst_def Let_def b same_tables_def)
  qed
  have "nan_wf e2"
  proof -
    obtain e3 st3 where b: "poll_burst now e1 st1 = (e3, st3)" by fastforce
    obtain e4 st4 where f: "emit_followups e3 st3 = (e4, st4)" by fastforce
    have "nan_wf e4"
      using burst w1 b tables_emit_followups [of e3 st3] f by (simp add: wf_same_tables)
    then have "nan_wf (fst (emit_ndp now e4 st4))"
      by (rule wf_emit_ndp)
    then show ?thesis
      using t w1 by (auto simp: poll_transmit_def b f split: if_splits)
  qed
  then show ?thesis
    by (simp add: poll_def i r t)
qed

lemma wf_exec:
  assumes "nan_wf e" and "nan_exec sha256 op e = (e', st)"
  shows "nan_wf e'"
proof (cases op)
  case (OpPoll now inbound)
  then show ?thesis using assms wf_poll [of e now inbound] by simp
next
  case (OpRequestNdp peer)
  show ?thesis
  proof (cases "find (\<lambda>s. ns_peer s = peer \<and> ns_role s = Initiator) (ne_ndps e)")
    case None
    then have "peer \<notin> set (initiators (ne_ndps e))"
      by (auto simp: find_None_iff initiators_def)
    then show ?thesis
      using assms None OpRequestNdp
      by (auto simp: request_ndp_def nan_wf_def session_ok_def NDP_MAX_ATTEMPTS_def)
  next
    case (Some s)
    then show ?thesis using assms OpRequestNdp by (auto simp: request_ndp_def)
  qed
next
  case (OpTerminateNdp peer i)
  show ?thesis
  proof (cases "position (\<lambda>s. ns_peer s = peer \<and> ns_ndp_id s = i) (ne_ndps e)")
    case (Some k)
    then have "k < length (ne_ndps e)" using position_Some by blast
    then show ?thesis
      using assms OpTerminateNdp Some wf_nth [OF assms(1)]
      by (auto simp: terminate_ndp_def session_ok_def intro!: wf_update)
  next
    case None
    have "terminate_ndp peer i e = e" by (simp only: terminate_ndp_def None option.case)
    then show ?thesis using assms OpTerminateNdp by auto
  qed
qed (use assms in \<open>auto simp: publish_def subscribe_def add_function_def broadcast_followup_def
      Let_def nan_wf_def\<close>)

lemma nan_reach_wf: "nan_reach sha256 e0 e evs tx \<Longrightarrow> nan_wf e0 \<Longrightarrow> nan_wf e"
  by (induction rule: nan_reach.induct) (auto dest: wf_exec)

lemma wf_new: "nan_wf (with_rendezvous cfg rv)"
  by (simp add: with_rendezvous_def nan_engine_new_def nan_wf_def)

end
