(* ===== verification/Nan_Safety.thy ===== *)
theory Nan_Safety
  imports Nan_Reach Nan_Handshake
begin

text \<open>
  The invariants of the engine over every run of its public operations, on any received frames
  at any instants.
\<close>

lemma new_sel [simp]:
  "ne_cfg (with_rendezvous cfg rv) = cfg" "ne_discovered (with_rendezvous cfg rv) = {}"
  "ne_seq (with_rendezvous cfg rv) = 0" "ne_rendezvous (with_rendezvous cfg rv) = rv"
  "ne_cluster_amr (with_rendezvous cfg rv) = ne_rank (with_rendezvous cfg rv)"
  by (simp_all add: with_rendezvous_def nan_engine_new_def ne_rank_def)

text \<open>A short concrete run, for the instances below: request a path, then poll once.\<close>

definition run_cfg :: nan_config where
  "run_cfg = nan_config_new (Arr6 2 0 0 0 0 0xa) 6 200"

definition run_e0 :: nan_engine where
  "run_e0 = with_rendezvous run_cfg discovery_window"

definition run_e1 :: nan_engine where
  "run_e1 = snd (request_ndp (Arr6 2 0 0 0 0 9) run_e0)"

definition run_poll :: "nan_engine \<times> step" where
  "run_poll = poll 0 [] run_e1"

lemma run_reach:
  "nan_reach sha256 run_e0 (fst run_poll) (st_events (snd run_poll)) (st_tx (snd run_poll))"
proof -
  have "nan_reach sha256 run_e0 run_e1 ([] @ st_events step_default) ([] @ st_tx step_default)"
    by (rule nan_reach.step [OF nan_reach.start, of _ "OpRequestNdp (Arr6 2 0 0 0 0 9)"])
      (simp add: run_e1_def)
  then have "nan_reach sha256 run_e0 run_e1 [] []" by simp
  from nan_reach.step [OF this, of "OpPoll 0 []" "fst run_poll" "snd run_poll"]
  show ?thesis by (simp add: run_poll_def)
qed

text \<open>The poll of that run sends: at least the beacon is among its frames.\<close>

lemma run_poll_tx: "\<exists>f. f \<in> set (st_tx (snd run_poll))"
proof -
  let ?e = "run_e1\<lparr>ne_base_time_usec := 0, ne_base_initialized := True, ne_channel_set := True\<rparr>"
  let ?st = "step_default\<lparr>st_set_channel := Some (nc_channel (ne_cfg run_e1))\<rparr>"
  obtain e1 st1 where b: "emit_beacon 0 (?e\<lparr>ne_last_burst_dw := Some (dw_index ?e 0)\<rparr>) ?st = (e1, st1)"
    by fastforce
  have fresh: "ne_last_burst_dw run_e1 = None" "\<not> ne_base_initialized run_e1"
    "\<not> ne_channel_set run_e1" "ne_rendezvous run_e1 = discovery_window"
    by (simp_all add: run_e1_def request_ndp_def run_e0_def with_rendezvous_def nan_engine_new_def)
  have tx1: "st_tx st1 \<noteq> []"
    using b by (auto simp: emit_beacon_def next_seq_def Let_def push_tx_def)
  obtain e2 st2 where d: "emit_discovery e1 st1 = (e2, st2)" by fastforce
  obtain e3 st3 where f: "emit_followups e2 st2 = (e3, st3)" by fastforce
  obtain e4 st4 where n: "emit_ndp 0 e3 st3 = (e4, st4)" by fastforce
  have "st_tx st4 \<noteq> []"
    using tx1 rel_emit_discovery [of e1 st1] rel_emit_followups [of e2 st2] rel_emit_ndp [of e3 st3 0]
    unfolding d f n by (auto simp: nan_rel_def)
  moreover have "in_dw ?e 0"
    by (simp add: in_dw_def fresh discovery_window_def dw_in_window_def synced_usec_def tu_consts)
  ultimately have "st_tx (snd run_poll) \<noteq> []"
    by (simp add: run_poll_def poll_def poll_init_def poll_transmit_def poll_burst_def fresh Let_def
        b d f n)
  then show ?thesis by (cases "st_tx (snd run_poll)") auto
qed

text \<open>
  (C4) A service match is surfaced once. Over any run of a new engine, no (peer, service) pair
  appears in two \<open>Discovered\<close> events, and the engine's record of discovered pairs is exactly
  the set of pairs surfaced.
\<close>

theorem discovered_at_most_once:
  assumes "nan_reach sha256 (with_rendezvous cfg rv) e evs tx"
  shows "distinct (disc_pairs evs) \<and> set (disc_pairs evs) = ne_discovered e"
  using nan_reach_rel [OF assms] by (auto simp: run_rel_def nan_rel_def)

theorem discovered_at_most_once_witness:
  "distinct (disc_pairs (st_events (snd run_poll))) \<and>
   set (disc_pairs (st_events (snd run_poll))) = ne_discovered (fst run_poll)"
  by (rule discovered_at_most_once [OF run_reach [unfolded run_e0_def]])

text \<open>
  (C6) The session and peer tables stay well formed. Over any run of a new engine there is at
  most one path to a given peer that we asked for and at most one entry per peer; no session
  has sent more than \<open>NDP_MAX_ATTEMPTS\<close> requests; an initiator never awaits a confirm and a
  responder never awaits a response; and only the four data-path subtypes are ever queued.
\<close>

theorem session_table_invariant:
  assumes "nan_reach sha256 (with_rendezvous cfg rv) e evs tx"
  shows "distinct (initiators (ne_ndps e)) \<and> distinct (map fst (ne_peers e))
    \<and> list_all session_ok (ne_ndps e)"
  using nan_reach_wf [OF assms wf_new] by (simp add: nan_wf_def)

theorem session_table_invariant_witness:
  "distinct (initiators (ne_ndps (fst run_poll))) \<and> distinct (map fst (ne_peers (fst run_poll)))
    \<and> list_all session_ok (ne_ndps (fst run_poll))"
  by (rule session_table_invariant [OF run_reach [unfolded run_e0_def]])

text \<open>
  The election only moves up. Along any run the anchor-master rank an engine follows never
  decreases, its identity, its configuration and its schedule never change, and for an engine
  that started on its own the rank it follows is never below its own rank.
\<close>

theorem cluster_rank_monotone:
  assumes "nan_reach sha256 e0 e evs tx"
  shows "ne_cluster_amr e0 \<le> ne_cluster_amr e \<and> ne_cfg e = ne_cfg e0
    \<and> ne_rendezvous e = ne_rendezvous e0
    \<and> (e0 = with_rendezvous cfg rv \<longrightarrow> ne_rank e \<le> ne_cluster_amr e)"
  using nan_reach_rel [OF assms] by (auto simp: run_rel_def nan_rel_def ne_rank_def)

theorem cluster_rank_monotone_witness:
  "ne_cluster_amr run_e0 \<le> ne_cluster_amr (fst run_poll) \<and> ne_cfg (fst run_poll) = ne_cfg run_e0
    \<and> ne_rendezvous (fst run_poll) = ne_rendezvous run_e0
    \<and> ne_rank (fst run_poll) \<le> ne_cluster_amr (fst run_poll)"
  using cluster_rank_monotone [OF run_reach, of run_cfg discovery_window]
  by (simp add: run_e0_def)

text \<open>
  Sequence numbers count the frames. Over any run of a new engine the 12-bit sequence
  counter is the number of frames handed to the driver modulo 4096: every frame takes one
  number and nothing else does.
\<close>

theorem sequence_counts_frames:
  assumes "nan_reach sha256 (with_rendezvous cfg rv) e evs tx"
  shows "unat (ne_seq e) = length tx mod 4096"
  using nan_reach_rel [OF assms] by (auto simp: run_rel_def nan_rel_def seq_advance_def)

theorem sequence_counts_frames_witness:
  "unat (ne_seq (fst run_poll)) = length (st_tx (snd run_poll)) mod 4096"
  by (rule sequence_counts_frames [OF run_reach [unfolded run_e0_def]])

text \<open>
  A node is immune to its own echo. Every frame an engine hands to the driver in any run,
  heard back by that engine later in whatever state and at whatever instant, changes neither
  the engine nor the step: every emitted frame either names the node itself as transmitter or
  does not parse.
\<close>

theorem own_frames_ignored:
  assumes "nan_reach sha256 e0 e evs tx" and "f \<in> set tx" and "rx_bytes rx = tx_bytes f"
    and "ne_cfg e' = ne_cfg e0"
  shows "handle_rx rx (e', st) = (e', st)"
proof -
  have "own_frame (ne_cfg e0) f"
    using nan_reach_rel [OF assms(1)] assms(2)
    by (auto simp: run_rel_def nan_rel_def list_all_iff step_default_def)
  then show ?thesis
    using assms(3,4) by (auto simp: handle_rx_def own_frame_def split: sum.splits)
qed

theorem own_frames_ignored_witness:
  "\<exists>f \<in> set (st_tx (snd run_poll)).
     handle_rx (rx_of 5 (tx_bytes f)) (run_e1, step_default) = (run_e1, step_default)"
proof -
  have cfg: "ne_cfg run_e1 = ne_cfg run_e0"
    by (auto simp: run_e1_def request_ndp_def split: option.splits)
  obtain f where f: "f \<in> set (st_tx (snd run_poll))"
    using run_poll_tx by blast
  show ?thesis
    using own_frames_ignored [OF run_reach f, of "rx_of 5 (tx_bytes f)"] f cfg
    by (auto simp: rx_of_def)
qed

text \<open>
  Data-path setup is unicast. A data-path frame addressed to another node changes neither
  the engine nor the step, whatever it carries.
\<close>

theorem foreign_naf_ignored:
  assumes "classify (rx_bytes rx) = Inr fr" and "df_kind fr = FtNaf subtype"
    and "rx_addr1 (rx_bytes rx) \<noteq> Some (nc_nmi (ne_cfg e))"
  shows "handle_rx rx (e, st) = (e, st)"
  using assms by (simp add: handle_rx_def handle_naf_def)

theorem foreign_naf_ignored_witness:
  "handle_rx (rx_of 5 (ndp_frame_bytes DataPathRequest (Arr6 2 0 0 0 0 7) (Arr6 2 0 0 0 0 9)
      (Arr6 0 0 0 0 0 0) 0 (ndpe_request 1 1 (Arr6 2 0 0 0 0 9) (Arr8 0 0 0 0 0 0 0 0))))
    (run_e0, step_default) = (run_e0, step_default)"
proof (rule foreign_naf_ignored)
  let ?h = "naf_new DataPathRequest (Arr6 2 0 0 0 0 7) (Arr6 2 0 0 0 0 9) (Arr6 0 0 0 0 0 0) 0"
  let ?n = "ndpe_request 1 1 (Arr6 2 0 0 0 0 9) (Arr8 0 0 0 0 0 0 0 0)"
  show "classify (rx_bytes (rx_of 5 (ndp_frame_bytes DataPathRequest (Arr6 2 0 0 0 0 7)
      (Arr6 2 0 0 0 0 9) (Arr6 0 0 0 0 0 0) 0 ?n))) = Inr \<lparr>df_header = nf_header ?h,
      df_kind = FtNaf (nf_subtype ?h), df_attributes = ndpe_encode ?n []\<rparr>"
    unfolding rx_of_def ndp_frame_bytes_def
    by (simp, rule classify_naf) (simp add: naf_new_def)
qed (simp_all add: rx_of_def ndp_frame_bytes_def naf_encode_eq naf_new_def run_e0_def run_cfg_def
      nan_config_new_def)

end
