(* ===== verification/Nan_Cluster.thy ===== *)
theory Nan_Cluster
  imports Nan_Safety "HOL-Library.Product_Lexorder"
begin

text \<open>
  The cluster half of \<open>engine.rs\<close>: the beacon an engine emits, what another engine makes of
  it (\<open>handle_beacon\<close>, the merge), the alignment of the two clocks, and the length limit of
  the vendor element that carries the attributes.
\<close>

section \<open>The beacon on the wire\<close>

definition pub_ids :: "nan_engine \<Rightarrow> arr6 list" where
  "pub_ids e = map fn_service_id (filter (\<lambda>f. fn_kind f = FnPublish) (ne_functions e))"

definition sub_ids :: "nan_engine \<Rightarrow> arr6 list" where
  "sub_ids e = map fn_service_id (filter (\<lambda>f. fn_kind f = FnSubscribe) (ne_functions e))"

definition mi_of :: "nan_engine \<Rightarrow> master_indication" where
  "mi_of e = \<lparr>mi_master_preference = nc_master_preference (ne_cfg e),
     mi_random_factor = nc_random_factor (ne_cfg e)\<rparr>"

definition cluster_of :: "nan_engine \<Rightarrow> usec \<Rightarrow> cluster" where
  "cluster_of e ts = \<lparr>cl_anchor_master_rank = ne_cluster_amr e, cl_hop_count = 0,
     cl_ambtt = ucast ts\<rparr>"

definition beacon_attr_list :: "nan_engine \<Rightarrow> usec \<Rightarrow> attribute list" where
  "beacon_attr_list e ts =
     [\<lparr>at_id = attribute_id_byte IdMasterIndication, at_body = master_indication_body (mi_of e)\<rparr>,
      \<lparr>at_id = attribute_id_byte IdCluster, at_body = cluster_body (cluster_of e ts)\<rparr>] @
     (if pub_ids e = [] then []
      else [\<lparr>at_id = attribute_id_byte IdServiceIdList, at_body = service_id_list_body (pub_ids e)\<rparr>]) @
     (if sub_ids e = [] then []
      else [\<lparr>at_id = attribute_id_byte IdSubscribeServiceIdList,
             at_body = service_id_list_body (sub_ids e)\<rparr>])"

lemma beacon_attrs_seq: "beacon_attrs e ts = tlv_seq (beacon_attr_list e ts)"
proof -
  have mi: "master_indication_encode m [] =
      tlv_seq [\<lparr>at_id = attribute_id_byte IdMasterIndication, at_body = master_indication_body m\<rparr>]" for m
    using mi_codec.encode_seq [of m "[]"] by simp
  have cl: "cluster_encode c (tlv_seq as) = tlv_seq (as @ [\<lparr>at_id = attribute_id_byte IdCluster,
      at_body = cluster_body c\<rparr>])" for c "as"
    by (rule cl_codec.encode_seq) simp
  have ids: "service_id_list_encode_with i xs (tlv_seq as) =
      tlv_seq (as @ [\<lparr>at_id = i, at_body = service_id_list_body xs\<rparr>])" for i xs "as"
    by (simp add: service_id_list_encode_with_eq tlv_seq_snoc)
  show ?thesis
    by (simp add: beacon_attrs_def beacon_attr_list_def Let_def mi cl ids
        service_id_list_encode_publish_def service_id_list_encode_subscribe_def
        flip: mi_of_def cluster_of_def pub_ids_def sub_ids_def)
qed

lemma length_tlv_seq: "length (tlv_seq as) = (\<Sum>a\<leftarrow>as. 3 + length (at_body a))"
  by (induction as) (simp_all add: tlv_seq_Cons attribute_encode_eq)

lemma length_beacon_attrs:
  "length (beacon_attrs e ts) = 21 + (if pub_ids e = [] then 0 else 3 + 6 * length (pub_ids e))
     + (if sub_ids e = [] then 0 else 3 + 6 * length (sub_ids e))"
  by (simp add: beacon_attrs_seq length_tlv_seq beacon_attr_list_def
      master_indication_body_def cluster_body_def)

lemma pub_sub_count: "length (pub_ids e) + length (sub_ids e) = length (ne_functions e)"
proof -
  have "(fn_kind f = FnSubscribe) = (fn_kind f \<noteq> FnPublish)" for f :: nan_function
    by (cases "fn_kind f") simp_all
  then show ?thesis
    using sum_length_filter_compl [of "\<lambda>f. fn_kind f = FnPublish" "ne_functions e"]
    by (simp add: pub_ids_def sub_ids_def)
qed

text \<open>Up to 37 functions the attributes fit the one-byte length of the vendor element.\<close>

lemma beacon_attrs_fit: "length (ne_functions e) \<le> 37 \<Longrightarrow> length (beacon_attrs e ts) \<le> 251"
  using pub_sub_count [of e] unfolding length_beacon_attrs by (simp split: if_splits)

definition beacon_of :: "usec \<Rightarrow> nan_engine \<Rightarrow> nan_beacon" where
  "beacon_of now e = nan_beacon_new BROADCAST (nc_nmi (ne_cfg e)) (ne_cluster_id e) (ne_seq e)
     (synced_usec e now) (ucast SYNC_BEACON_INTERVAL_TU)"

lemma emit_beacon_eq:
  "emit_beacon now e st = (e\<lparr>ne_seq := (ne_seq e + 1) AND 0x0FFF\<rparr>,
     push_tx (nan_beacon_encode (beacon_of now e) (beacon_attrs e (synced_usec e now))) st)"
proof -
  have "beacon_attrs (e\<lparr>ne_seq := s\<rparr>) ts = beacon_attrs e ts" for s ts
    by (simp add: beacon_attrs_def)
  then show ?thesis
    by (simp add: emit_beacon_def next_seq_def Let_def beacon_of_def)
qed

lemma beacon_of_sel [simp]:
  "h_frame_control (bc_header (beacon_of now e)) = FC_BEACON"
  "h_addr2 (bc_header (beacon_of now e)) = nc_nmi (ne_cfg e)"
  "h_addr3 (bc_header (beacon_of now e)) = ne_cluster_id e"
  "bc_timestamp (beacon_of now e) = synced_usec e now"
  by (simp_all add: beacon_of_def nan_beacon_new_def)

lemma beacon_amr_beacon_attrs:
  assumes "length (ne_functions e) \<le> 37"
  shows "beacon_amr b (beacon_attrs e ts) = Some (ne_cluster_amr e)"
proof -
  have ok: "\<forall>a \<in> set (beacon_attr_list e ts). attr_ok a"
    using assms pub_sub_count [of e]
    by (auto simp: beacon_attr_list_def attr_ok_def master_indication_body_def cluster_body_def)
  have "attributes_find (beacon_attrs e ts) IdCluster =
      Some \<lparr>at_id = attribute_id_byte IdCluster, at_body = cluster_body (cluster_of e ts)\<rparr>"
    unfolding beacon_attrs_seq attributes_find_tlv_seq [OF ok]
    by (simp add: beacon_attr_list_def attribute_is_def)
  then show ?thesis
    by (simp add: beacon_amr_def ok_of_def cl_codec.decode_body) (simp add: cluster_of_def)
qed

text \<open>What a node makes of the beacon another node sends at \<open>now\<close> when it hears it at \<open>now'\<close>.\<close>

definition hear_beacon :: "usec \<Rightarrow> usec \<Rightarrow> nan_engine \<Rightarrow> nan_engine \<Rightarrow> nan_engine \<times> step" where
  "hear_beacon now now' a b =
     (case st_tx (snd (emit_beacon now a step_default)) of
        [] \<Rightarrow> (b, step_default)
      | f # _ \<Rightarrow> handle_rx (rx_of now' (tx_bytes f)) (b, step_default))"

lemma hear_beacon_eq:
  assumes "nc_nmi (ne_cfg a) \<noteq> nc_nmi (ne_cfg b)" and "length (ne_functions a) \<le> 37"
  shows "hear_beacon now now' a b =
    ((if ne_cluster_amr b < ne_cluster_amr a then
        b\<lparr>ne_cluster_id := ne_cluster_id a, ne_base_time_usec := now' - synced_usec a now,
          ne_cluster_amr := ne_cluster_amr a, ne_synced := True, ne_last_burst_dw := None\<rparr>
      else if ne_cluster_id a = ne_cluster_id b \<and> ne_cluster_amr a = ne_cluster_amr b then
        b\<lparr>ne_base_time_usec := now' - synced_usec a now\<rparr>
      else b), step_default)"
proof -
  let ?b = "beacon_of now a" and ?as = "beacon_attrs a (synced_usec a now)"
  have fit: "length ?as \<le> 251"
    using assms(2) by (rule beacon_attrs_fit)
  then have len: "4 \<le> (4 + length ?as) mod 256" by simp
  have cl: "classify (nan_beacon_encode ?b ?as) = Inr \<lparr>df_header = bc_header ?b,
      df_kind = FtBeacon, df_attributes = ?as\<rparr>"
    using classify_beacon [OF _ len, of ?b] fit by (simp add: beacon_ie_attrs_short)
  have ps: "nan_beacon_parse (nan_beacon_encode ?b ?as) = Inr (?b, ?as)"
    using nan_beacon_parse_encode [OF _ len, of ?b] fit by (simp add: beacon_ie_attrs_short)
  have "handle_rx (rx_of now' (nan_beacon_encode ?b ?as)) (b, step_default) =
      (handle_beacon (rx_of now' (nan_beacon_encode ?b ?as)) b, step_default)"
    using assms(1) by (simp add: handle_rx_def rx_of_def cl)
  also have "handle_beacon (rx_of now' (nan_beacon_encode ?b ?as)) b =
    (if ne_cluster_amr b < ne_cluster_amr a then
        b\<lparr>ne_cluster_id := ne_cluster_id a, ne_base_time_usec := now' - synced_usec a now,
          ne_cluster_amr := ne_cluster_amr a, ne_synced := True, ne_last_burst_dw := None\<rparr>
      else if ne_cluster_id a = ne_cluster_id b \<and> ne_cluster_amr a = ne_cluster_amr b then
        b\<lparr>ne_base_time_usec := now' - synced_usec a now\<rparr>
      else b)"
    by (simp add: handle_beacon_def ps rx_of_def beacon_amr_beacon_attrs [OF assms(2)])
  finally show ?thesis
    by (simp add: hear_beacon_def emit_beacon_eq)
qed

section \<open>The merge\<close>

text \<open>
  (C2) The lower-graded node joins the higher-graded cluster and its clock. A node that hears
  the beacon of a node whose anchor-master rank is higher adopts that node's cluster id and
  rank, is synced, may burst again at once, and from then on both nodes read the same synced
  time: any delay \<open>d\<close> after the beacon, the receiver's clock shows what the sender's does. It
  surfaces no event. A node of lower or equal rank in another cluster changes nothing.
\<close>

theorem cluster_merge_aligns_clocks:
  assumes "nc_nmi (ne_cfg a) \<noteq> nc_nmi (ne_cfg b)" and "length (ne_functions a) \<le> 37"
    and "length (ne_functions b) \<le> 37" and "ne_cluster_amr b < ne_cluster_amr a"
  shows "let (b', st) = hear_beacon now now' a b; (a', st') = hear_beacon now2 now2' b a
         in ne_cluster_id b' = ne_cluster_id a \<and> ne_cluster_amr b' = ne_cluster_amr a
          \<and> ne_synced b' \<and> ne_last_burst_dw b' = None \<and> st_events st = []
          \<and> (\<forall>d. synced_usec b' (now' + d) = synced_usec a (now + d)) \<and> a' = a"
proof -
  have "fst (hear_beacon now2 now2' b a) = a"
    using assms(1,3,4) hear_beacon_eq [of b a now2 now2'] by auto
  then show ?thesis
    using hear_beacon_eq [OF assms(1,2), of now now'] assms(4)
    by (simp add: synced_usec_def case_prod_beta)
qed

definition merge_a :: nan_engine where
  "merge_a = nan_engine_new (nan_config_new (Arr6 2 0 0 0 0 0xa) 6 200)"

definition merge_b :: nan_engine where
  "merge_b = nan_engine_new (nan_config_new (Arr6 2 0 0 0 0 0xb) 6 50)"

lemma merge_rank: "ne_cluster_amr merge_b < ne_cluster_amr merge_a"
  by code_simp

theorem cluster_merge_aligns_clocks_witness:
  "let (b', st) = hear_beacon 1000 77 merge_a merge_b; (a', st') = hear_beacon 5 6 merge_b merge_a
   in ne_cluster_id b' = ne_cluster_id merge_a \<and> ne_cluster_amr b' = ne_cluster_amr merge_a
    \<and> ne_synced b' \<and> ne_last_burst_dw b' = None \<and> st_events st = []
    \<and> (\<forall>d. synced_usec b' (77 + d) = synced_usec merge_a (1000 + d)) \<and> a' = merge_a"
  by (rule cluster_merge_aligns_clocks [OF _ _ _ merge_rank])
    (simp_all add: merge_a_def merge_b_def nan_engine_new_def nan_config_new_def)

section \<open>The master rank\<close>

text \<open>The order the election uses on MAC addresses: as numbers, \<open>mac[0]\<close> least significant.\<close>

fun arr6_value :: "arr6 \<Rightarrow> nat" where
  "arr6_value (Arr6 a b c d e f) = unat a + 256 * (unat b + 256 * (unat c + 256 *
     (unat d + 256 * (unat e + 256 * unat f))))"

lemma digit_less_iff:
  fixes x x' y y' k :: nat
  assumes "x < k" and "x' < k"
  shows "x + k * y < x' + k * y' \<longleftrightarrow> y < y' \<or> y = y' \<and> x < x'"
    and "x + k * y = x' + k * y' \<longleftrightarrow> y = y' \<and> x = x'"
proof -
  have step: "x + k * y < x' + k * y'" if "y < y'" "x < k" for x x' y y'
  proof -
    have "k * Suc y \<le> k * y'" using that(1) by (intro mult_le_mono2) simp
    then show ?thesis using that(2) by simp
  qed
  consider "y < y'" | "y' < y" | "y = y'" by linarith
  then show "x + k * y < x' + k * y' \<longleftrightarrow> y < y' \<or> y = y' \<and> x < x'"
    and "x + k * y = x' + k * y' \<longleftrightarrow> y = y' \<and> x = x'"
    using step [of y y' x x'] step [of y' y x' x] assms by (cases; simp)+
qed

lemma unat_u8_less: "unat (b :: u8) < 256"
  using unsigned_less [of b, where ?'a = nat] by simp

lemma unat_u8_less_pow: "8 \<le> n \<Longrightarrow> unat (b :: u8) < 2 ^ n"
  using unat_u8_less [of b] power_increasing [of 8 n "2 :: nat"] by simp

lemma arr6_value_inject [simp]: "arr6_value m = arr6_value m' \<longleftrightarrow> m = m'"
  by (cases m; cases m')
    (auto simp: digit_less_iff unat_u8_less word_unat_eq_iff simp del: distrib_left_numeral)

instantiation arr6 :: linorder
begin

definition less_eq_arr6 :: "arr6 \<Rightarrow> arr6 \<Rightarrow> bool" where
  "less_eq_arr6 m m' \<longleftrightarrow> arr6_value m \<le> arr6_value m'"

definition less_arr6 :: "arr6 \<Rightarrow> arr6 \<Rightarrow> bool" where
  "less_arr6 m m' \<longleftrightarrow> arr6_value m < arr6_value m'"

instance
  by standard (auto simp: less_eq_arr6_def less_arr6_def order_antisym)

end

lemma unat_from_le:
  "8 * length bs \<le> LENGTH('a) \<Longrightarrow>
   unat (from_le bs :: 'a::len word) = foldr (\<lambda>b n. unat b + 256 * n) bs 0"
proof (induction bs)
  case Nil
  then show ?case by simp
next
  case (Cons b bs)
  let ?w = "from_le bs :: 'a word"
  have hi: "unat ?w < 2 ^ (8 * length bs)"
  proof -
    have "foldr (\<lambda>b n. unat b + 256 * n) bs 0 < 256 ^ length bs"
    proof (induction bs)
      case (Cons c cs)
      then show ?case using unat_u8_less [of c] by simp
    qed simp
    then show ?thesis using Cons by (simp add: power_mult)
  qed
  have p: "push_bit 8 (unat ?w) = 256 * unat ?w"
    by (simp add: push_bit_eq_mult)
  have "256 * unat ?w < 2 ^ (8 + 8 * length bs)" using hi by (simp add: power_add)
  also have "\<dots> \<le> 2 ^ LENGTH('a)" using Cons.prems by (simp add: power_increasing)
  finally have "take_bit LENGTH('a) (256 * unat ?w) = 256 * unat ?w"
    by (rule take_bit_nat_eq_self)
  then have u: "unat (push_bit 8 ?w) = 256 * unat ?w"
    by (simp only: unsigned_push_bit_eq p)
  have b: "unat (ucast b :: 'a word) = unat b"
    using Cons.prems by (simp add: unsigned_ucast_eq take_bit_nat_eq_self_iff unat_u8_less_pow)
  have "unat b OR push_bit 8 (unat ?w) = unat b + push_bit 8 (unat ?w)"
    by (rule disjunctive_add_eq_or [symmetric]) (auto simp: bit_eq_iff bit_simps dest: bit_imp_le_length)
  then have "unat (ucast b OR push_bit 8 ?w) = unat b + 256 * unat ?w"
    by (simp only: unsigned_or_eq u b p)
  then show ?case
    using Cons by simp
qed

lemma master_rank_from_le: "master_rank p f m = from_le (arr6_bytes m @ [f, p])"
  by (cases m) (simp add: master_rank_def push_bit_or ac_simps)

lemma unat_master_rank:
  "unat (master_rank p f m) = arr6_value m + 2 ^ 48 * (unat f + 256 * unat p)"
proof -
  have "unat (master_rank p f m) = foldr (\<lambda>b n. unat b + 256 * n) (arr6_bytes m @ [f, p]) 0"
    unfolding master_rank_from_le by (rule unat_from_le) simp
  then show ?thesis by (cases m) simp
qed

lemma arr6_value_less: "arr6_value m < 2 ^ 48"
proof (cases m)
  case (Arr6 a b c d e f)
  then show ?thesis
    using unat_u8_less [of a] unat_u8_less [of b] unat_u8_less [of c] unat_u8_less [of d]
      unat_u8_less [of e] unat_u8_less [of f]
    by simp
qed

text \<open>
  The packed rank orders as the election does: by master preference, then by random
  factor, then by MAC address read with its first byte least significant. In particular two
  nodes with different MACs never have the same rank.
\<close>

theorem master_rank_order:
  "master_rank p f m < master_rank p' f' m' \<longleftrightarrow> (p, f, m) < (p', f', m')"
proof -
  have "(p, f, m) < (p', f', m') \<longleftrightarrow> unat p < unat p' \<or> unat p = unat p' \<and>
      (unat f < unat f' \<or> unat f = unat f' \<and> arr6_value m < arr6_value m')"
    by (auto simp: less_arr6_def word_less_nat_alt word_le_nat_alt word_unat_eq_iff)
  then show ?thesis
    unfolding word_less_nat_alt unat_master_rank
    using unat_u8_less [of f] unat_u8_less [of f'] arr6_value_less [of m] arr6_value_less [of m']
    by (simp add: digit_less_iff del: distrib_left_numeral) blast
qed

end
