(* ===== verification/Nan_Driver.thy ===== *)
theory Nan_Driver
  imports Nan_Cluster
begin

text \<open>
  The engine under its driver: one burst per window, and the wake time \<open>poll\<close> returns, proved
  from the contract of a schedule (\<open>rendezvous_law\<close>) and instantiated for both schedules; and
  what happens to the beacon of a node with too many services for one vendor element.
\<close>

section \<open>What the transmit half leaves alone\<close>

definition same_clock :: "nan_engine \<Rightarrow> nan_engine \<Rightarrow> bool" where
  "same_clock e e' \<longleftrightarrow> ne_base_time_usec e' = ne_base_time_usec e \<and>
     ne_rendezvous e' = ne_rendezvous e \<and> ne_last_burst_dw e' = ne_last_burst_dw e \<and>
     ne_base_initialized e' = ne_base_initialized e \<and> ne_channel_set e' = ne_channel_set e"

lemma same_clock_refl [simp]: "same_clock e e"
  by (simp add: same_clock_def)

lemma same_clock_trans: "same_clock a b \<Longrightarrow> same_clock b c \<Longrightarrow> same_clock a c"
  by (simp add: same_clock_def)

lemma same_clock_schedule:
  assumes "same_clock e e'"
  shows "in_dw e' t = in_dw e t" "dw_index e' t = dw_index e t"
    "next_dw_start_usec e' t = next_dw_start_usec e t"
  using assms
  by (simp_all add: same_clock_def in_dw_def dw_index_def next_dw_start_usec_def synced_usec_def)

lemma same_clock_fold:
  assumes "\<And>a e st. same_clock e (fst (f a (e, st)))"
  shows "same_clock (fst es) (fst (fold f as es))"
proof (induction "as" arbitrary: es)
  case (Cons a as)
  show ?case
    using assms [of "fst es" a "snd es"] Cons.IH [of "f a es"] by (auto intro: same_clock_trans)
qed simp

lemma clock_emit_beacon: "same_clock e (fst (emit_beacon now e st))"
  by (simp add: emit_beacon_eq same_clock_def)

lemma clock_emit_discovery: "same_clock e (fst (emit_discovery e st))"
  by (simp add: emit_discovery_def next_seq_def Let_def same_clock_def)

lemma clock_emit_followups: "same_clock e (fst (emit_followups e st))"
proof (induction e st rule: emit_followups.induct)
  case (1 e st)
  show ?case
  proof (cases "ne_followups e")
    case Nil
    then show ?thesis by (simp add: emit_followups.simps)
  next
    case (Cons fu rest)
    obtain e' st' where r: "emit_followup fu (e\<lparr>ne_followups := rest\<rparr>) st = (e', st')"
      by fastforce
    then have "same_clock e e'"
      by (auto simp: emit_followup_def next_seq_def Let_def same_clock_def)
    with 1 [OF Cons r [symmetric]] show ?thesis
      by (subst emit_followups.simps) (auto simp: Cons r intro: same_clock_trans)
  qed
qed

lemma clock_emit_ndp: "same_clock e (fst (emit_ndp now e st))"
proof -
  have send: "same_clock e (fst (send_ndp_frame fr (e, st)))" for fr e st
    by (cases fr) (simp add: send_ndp_frame_def next_seq_def Let_def same_clock_def)
  have drop: "same_clock e (fst (drop_ndp k (e, st)))" for k e st
    by (cases k) (auto simp: drop_ndp_def Let_def same_clock_def split: option.splits)
  have "same_clock e (e\<lparr>ne_ndps := xs\<rparr>)" for xs
    by (simp add: same_clock_def)
  moreover have "same_clock (fst es) (fst (fold send_ndp_frame frames es))" for es frames
    by (rule same_clock_fold) (rule send)
  moreover have "same_clock (fst es) (fst (fold drop_ndp ks es))" for es ks
    by (rule same_clock_fold) (rule drop)
  ultimately have "same_clock e (fst (fold drop_ndp ks (fold send_ndp_frame frames (e\<lparr>ne_ndps := xs\<rparr>, st))))"
    for ks frames xs
    by (metis (no_types, lifting) fst_conv same_clock_trans)
  then show ?thesis
    unfolding emit_ndp_def Let_def .
qed

section \<open>The transmit half in a window\<close>

text \<open>
  In a window not yet served: the beacon goes out first, and the window is marked served. In a
  window already served neither beacon nor discovery frame goes out.
\<close>

lemma poll_transmit_fresh:
  assumes "in_dw e now" and "ne_last_burst_dw e \<noteq> Some (dw_index e now)"
  shows "\<exists>rest. st_tx (snd (poll_transmit now e st)) =
      st_tx st @ TxFrame (nan_beacon_encode (beacon_of now e) (beacon_attrs e (synced_usec e now))) # rest"
    and "same_clock (e\<lparr>ne_last_burst_dw := Some (dw_index e now)\<rparr>) (fst (poll_transmit now e st))"
proof -
  let ?e = "e\<lparr>ne_last_burst_dw := Some (dw_index e now)\<rparr>"
  obtain e1 st1 where b: "emit_beacon now ?e st = (e1, st1)" by fastforce
  obtain e2 st2 where d: "emit_discovery e1 st1 = (e2, st2)" by fastforce
  obtain e3 st3 where f: "emit_followups e2 st2 = (e3, st3)" by fastforce
  obtain e4 st4 where n: "emit_ndp now e3 st3 = (e4, st4)" by fastforce
  have t: "poll_transmit now e st = (e4, st4)"
    using assms by (simp add: poll_transmit_def poll_burst_def Let_def b d f n)
  have "beacon_attrs ?e ts = beacon_attrs e ts" "beacon_of now ?e = beacon_of now e"
    "synced_usec ?e now = synced_usec e now" for ts
    by (simp_all add: beacon_attrs_def beacon_of_def synced_usec_def)
  then have "st_tx st1 =
      st_tx st @ [TxFrame (nan_beacon_encode (beacon_of now e) (beacon_attrs e (synced_usec e now)))]"
    using b by (auto simp: emit_beacon_eq)
  then show "\<exists>rest. st_tx (snd (poll_transmit now e st)) =
      st_tx st @ TxFrame (nan_beacon_encode (beacon_of now e) (beacon_attrs e (synced_usec e now))) # rest"
    using rel_emit_discovery [of e1 st1] rel_emit_followups [of e2 st2] rel_emit_ndp [of e3 st3 now]
    unfolding t d f n by (auto simp: nan_rel_def)
  show "same_clock ?e (fst (poll_transmit now e st))"
    using clock_emit_beacon [of ?e now st] clock_emit_discovery [of e1 st1]
      clock_emit_followups [of e2 st2] clock_emit_ndp [of e3 now st3]
    unfolding t b d f n by (auto intro: same_clock_trans)
qed

lemma poll_quiet_init:
  assumes "ne_base_initialized e"
  shows "\<exists>st0. poll_init now e = (e\<lparr>ne_channel_set := True\<rparr>, st0) \<and> st_tx st0 = []"
proof -
  have "e = e\<lparr>ne_channel_set := True\<rparr>" if "ne_channel_set e" using that by simp
  then show ?thesis using assms by (auto simp: poll_init_def)
qed

text \<open>
  One burst per window. In a window for which the engine has already sent its burst, a
  poll that receives nothing sends neither a beacon nor a discovery frame: what it transmits
  is only the queued follow-ups and what the data-path sessions owe, and with neither it is
  silent.
\<close>

theorem one_burst_per_window:
  assumes "ne_base_initialized e" and "ne_last_burst_dw e = Some (dw_index e now)"
    and "ne_followups e = []" and "ne_ndps e = []"
  shows "st_tx (snd (poll now [] e)) = []"
proof -
  obtain st0 where i: "poll_init now e = (e\<lparr>ne_channel_set := True\<rparr>, st0)" "st_tx st0 = []"
    using poll_quiet_init [OF assms(1)] by blast
  let ?e = "e\<lparr>ne_channel_set := True\<rparr>"
  have "dw_index ?e now = dw_index e now"
    by (simp add: dw_index_def synced_usec_def)
  then have "poll_burst now ?e st0 = (?e, st0)"
    using assms(2) by (simp add: poll_burst_def)
  moreover have "emit_followups ?e st0 = (?e, st0)"
    using assms(3) by (simp add: emit_followups.simps)
  moreover have "emit_ndp now ?e st0 = (?e, st0)"
    using assms(4) by (simp add: emit_ndp_def Let_def)
  ultimately show ?thesis
    by (simp add: poll_def i poll_transmit_def)
qed

section \<open>Waking\<close>

text \<open>The state between two polls of a driver: initialised, and not yet served at \<open>t\<close>.\<close>

definition burst_due :: "usec \<Rightarrow> nan_engine \<Rightarrow> bool" where
  "burst_due t e \<longleftrightarrow> ne_base_initialized e \<and> in_dw e t \<and> ne_last_burst_dw e \<noteq> Some (dw_index e t)"

definition is_beacon :: "tx_frame \<Rightarrow> bool" where
  "is_beacon f \<longleftrightarrow> take 2 (tx_bytes f) = to_le 2 FC_BEACON"

lemma is_beacon_of: "is_beacon (TxFrame (nan_beacon_encode (beacon_of now e) attrs))"
  by (simp add: is_beacon_def nan_beacon_encode_eq dot11_header_bytes_def dot11_header_encode_def
      put_defs)

fun leads_with_beacon :: "tx_frame list \<Rightarrow> bool" where
  "leads_with_beacon [] = False"
| "leads_with_beacon (f # _) = is_beacon f"

text \<open>A driver that polls, sleeps until the returned wake time and polls again, \<open>n\<close> times.\<close>

primrec drive :: "nat \<Rightarrow> usec \<Rightarrow> nan_engine \<Rightarrow> tx_frame list list" where
  "drive 0 t e = []"
| "drive (Suc n) t e =
     (let (e', st) = poll t [] e in st_tx st # drive n (st_wake_at_usec st) e')"

context rendezvous_law
begin

lemma poll_then_due:
  assumes "ne_rendezvous e = rv" and "burst_due t e"
  shows "ne_rendezvous (fst (poll t [] e)) = rv"
    and "burst_due (st_wake_at_usec (snd (poll t [] e))) (fst (poll t [] e))"
    and "leads_with_beacon (st_tx (snd (poll t [] e)))"
proof -
  let ?e = "e\<lparr>ne_channel_set := True\<rparr>"
  have sch: "in_dw ?e t = in_dw e t" "dw_index ?e t = dw_index e t"
    by (simp_all add: in_dw_def dw_index_def synced_usec_def)
  have due: "in_dw ?e t" "ne_last_burst_dw ?e \<noteq> Some (dw_index ?e t)" and init: "ne_base_initialized e"
    using assms(2) unfolding sch by (auto simp: burst_due_def)
  obtain st0 where i: "poll_init t e = (?e, st0)" "st_tx st0 = []"
    using poll_quiet_init [OF init] by blast
  obtain e' st' where p: "poll_transmit t ?e st0 = (e', st')" by fastforce
  have clock: "same_clock (?e\<lparr>ne_last_burst_dw := Some (dw_index ?e t)\<rparr>) e'"
    using poll_transmit_fresh(2) [OF due, of st0] p by simp
  have poll: "poll t [] e = (e', st'\<lparr>st_wake_at_usec := next_dw_start_usec e' t\<rparr>)"
    by (simp add: poll_def i p)
  show "ne_rendezvous (fst (poll t [] e)) = rv"
    using clock assms(1) by (simp add: poll same_clock_def)
  show "leads_with_beacon (st_tx (snd (poll t [] e)))"
    using poll_transmit_fresh(1) [OF due, of st0] i p is_beacon_of by (auto simp: poll)
  let ?s = "synced_usec e t"
  have "synced_usec e' (next_dw_start_usec e' t) = rv_next_window_start rv ?s"
    using clock assms(1) by (simp add: same_clock_def synced_usec_def next_dw_start_usec_def)
  then show "burst_due (st_wake_at_usec (snd (poll t [] e))) (fst (poll t [] e))"
    using clock assms(1) init next_in_window [of ?s] next_index_fresh [of ?s]
    by (simp add: poll burst_due_def in_dw_def dw_index_def) (simp add: same_clock_def dw_index_def
        synced_usec_def)
qed

lemma drive_beacons:
  assumes "ne_rendezvous e = rv" and "burst_due t e"
  shows "length (drive n t e) = n \<and> list_all leads_with_beacon (drive n t e)"
  using assms
proof (induction n arbitrary: t e)
  case 0
  then show ?case by simp
next
  case (Suc n)
  note nx = poll_then_due [OF Suc.prems]
  show ?case
    using Suc.IH [OF nx(1,2)] nx(3) by (auto simp: case_prod_beta)
qed

end

text \<open>
  (C3) The wake time is the next burst. An engine on either schedule, driven only by its own
  wake times and starting at an instant in a window it has not served, sends its beacon as the
  first frame of every poll: the returned wake time never misses a window and never wakes for
  one already served.
\<close>

theorem wake_time_serves_every_window:
  assumes "ne_rendezvous e = discovery_window \<or> ne_rendezvous e = always_on iv"
    and "burst_due t e"
  shows "length (drive n t e) = n \<and> list_all leads_with_beacon (drive n t e)"
  using assms dw.drive_beacons ao.drive_beacons by blast

theorem wake_time_serves_every_window_witness:
  "length (drive 4 0 (merge_a\<lparr>ne_base_initialized := True\<rparr>)) = 4
    \<and> list_all leads_with_beacon (drive 4 0 (merge_a\<lparr>ne_base_initialized := True\<rparr>))"
proof (rule wake_time_serves_every_window)
  show "ne_rendezvous (merge_a\<lparr>ne_base_initialized := True\<rparr>) = discovery_window \<or>
      ne_rendezvous (merge_a\<lparr>ne_base_initialized := True\<rparr>) = always_on 1000"
    by (simp add: merge_a_def nan_engine_new_def)
  show "burst_due 0 (merge_a\<lparr>ne_base_initialized := True\<rparr>)"
    by (simp add: burst_due_def merge_a_def nan_engine_new_def in_dw_def discovery_window_def
        dw_in_window_iff synced_usec_def)
qed

theorem one_burst_per_window_witness:
  "st_tx (snd (poll 5 [] (merge_a\<lparr>ne_base_initialized := True, ne_last_burst_dw := Some 0\<rparr>))) = []"
  by (rule one_burst_per_window)
    (simp_all add: merge_a_def nan_engine_new_def dw_index_def discovery_window_def
      dw_window_index_eq synced_usec_def)

section \<open>A beacon too long for its vendor element\<close>

text \<open>
  A node with 39 published services is not heard. The attributes then take 258 bytes, the
  one-byte length of the vendor element wraps to 6, and what a receiver reads of them is two
  bytes: no receiver changes anything on that beacon, so nobody merges into such a node's
  cluster, whatever its rank.
\<close>

theorem oversized_beacon_ignored:
  assumes "nc_nmi (ne_cfg a) \<noteq> nc_nmi (ne_cfg b)" and "length (pub_ids a) = 39"
    and "sub_ids a = []"
  shows "hear_beacon now now' a b = (b, step_default)"
proof -
  let ?b = "beacon_of now a" and ?as = "beacon_attrs a (synced_usec a now)"
  have l: "length ?as = 258"
    using assms(2,3) by (auto simp: length_beacon_attrs)
  have t2: "to_le 2 (2 :: u16) = [2, 0]"
    by code_simp
  obtain rest where as: "?as = attribute_id_byte IdMasterIndication # 2 # rest"
    by (simp add: beacon_attrs_seq beacon_attr_list_def tlv_seq_Cons attribute_encode_eq
        master_indication_body_def t2)
  have ie: "beacon_ie_attrs ?as = [attribute_id_byte IdMasterIndication, 2]"
    unfolding beacon_ie_attrs_def l by (simp add: as)
  have len: "4 \<le> (4 + length ?as) mod 256" by (simp add: l)
  have none: "attributes_find [attribute_id_byte IdMasterIndication, 2] which = None" for which
  proof -
    have r1: "attributes_next (cursor [] [x, y]) = (Some (Inl Truncated), cursor [x] [y])" for x y
      by (simp add: attributes_next_def attribute_read_def rd_simps)
    have r2: "attributes_next (cursor [x] [y]) = (Some (Inl Truncated), cursor [x, y] [])" for x y
      by (simp add: attributes_next_def attribute_read_def rd_simps)
    have r3: "attributes_next (cursor [x, y] []) = (None, cursor [x, y] [])" for x y
      by (simp add: attributes_next_def rd_simps)
    have "attributes_flatten [x, y] = []" for x y
      unfolding attributes_flatten_def
      by (simp add: rd_simps attributes_items.simps r1 r2 r3)
    then show ?thesis by (simp add: attributes_find_def)
  qed
  have cl: "classify (nan_beacon_encode ?b ?as) = Inr \<lparr>df_header = bc_header ?b,
      df_kind = FtBeacon, df_attributes = [attribute_id_byte IdMasterIndication, 2]\<rparr>"
    using classify_beacon [OF _ len, of ?b] ie by simp
  have ps: "nan_beacon_parse (nan_beacon_encode ?b ?as) =
      Inr (?b, [attribute_id_byte IdMasterIndication, 2])"
    using nan_beacon_parse_encode [OF _ len, of ?b] ie by simp
  have "beacon_amr ?b [attribute_id_byte IdMasterIndication, 2] = None"
    using none by (simp add: beacon_amr_def)
  then have "handle_rx (rx_of now' (nan_beacon_encode ?b ?as)) (b, step_default) = (b, step_default)"
    using assms(1) by (simp add: handle_rx_def rx_of_def cl handle_beacon_def ps)
  then show ?thesis
    by (simp add: hear_beacon_def emit_beacon_eq)
qed

theorem oversized_beacon_ignored_witness:
  "hear_beacon 1000 77 (merge_a\<lparr>ne_functions := replicate 39
      \<lparr>fn_service_id = Arr6 1 2 3 4 5 6, fn_instance_id = 1, fn_kind = FnPublish, fn_ssi = [],
       fn_active = False\<rparr>\<rparr>) merge_b = (merge_b, step_default)"
  by (rule oversized_beacon_ignored)
    (simp_all add: merge_a_def merge_b_def nan_engine_new_def nan_config_new_def pub_ids_def
      sub_ids_def filter_replicate)

end
