(* ===== verification/Nan_Codecs.thy ===== *)
theory Nan_Codecs
  imports Nan_Engine
begin

text \<open>
  What the wire formats of \<open>attr.rs\<close> and \<open>frame.rs\<close> promise: attribute sequences and the two
  structured attributes read back, frames classify as what they were encoded as, every parser
  stays inside its buffer; and two places where the code and its comments differ.
\<close>

section \<open>Attribute sequences\<close>

text \<open>
  A sequence of attributes reads back. Any attributes whose bodies fit their length field,
  encoded one after the other, are yielded by the iterator in order, each without error, and a
  search by id finds the first attribute with that id.
\<close>

theorem attribute_sequence_roundtrip:
  assumes "\<forall>a \<in> set as. attr_ok a"
  shows "attributes_items (reader_new (tlv_seq as)) = map Inr as
    \<and> attributes_find (tlv_seq as) which = find (\<lambda>a. attribute_is a which) as"
  using assms
  by (simp add: reader_new_cursor attributes_items_tlv_seq attributes_find_tlv_seq)

theorem attribute_sequence_roundtrip_witness:
  "attributes_items (reader_new (tlv_seq [\<lparr>at_id = 3, at_body = [1, 2]\<rparr>, \<lparr>at_id = 9, at_body = []\<rparr>])) =
    [Inr \<lparr>at_id = 3, at_body = [1, 2]\<rparr>, Inr \<lparr>at_id = 9, at_body = []\<rparr>]"
  using attribute_sequence_roundtrip [of "[\<lparr>at_id = 3, at_body = [1, 2]\<rparr>, \<lparr>at_id = 9, at_body = []\<rparr>]"]
  by (simp add: attr_ok_def)

text \<open>
  An over-long attribute does not end the iteration. If the last attribute of a buffer
  declares more bytes than are left, the iterator yields the error and then goes on reading
  right after the attribute's header: what follows, here a whole attribute sequence inside the
  truncated body, is yielded as attributes, and a search finds them.
\<close>

theorem truncated_attribute_resumes:
  assumes "\<forall>a \<in> set as. attr_ok a" and "length (tlv_seq as) < unat (len :: u16)"
  shows "attributes_items (reader_new (i # to_le 2 len @ tlv_seq as)) = Inl Truncated # map Inr as
    \<and> attributes_find (i # to_le 2 len @ tlv_seq as) which = find (\<lambda>a. attribute_is a which) as"
proof -
  have "attribute_read (cursor [] (i # to_le 2 len @ tlv_seq as)) =
      (Inl Truncated, cursor (i # to_le 2 len) (tlv_seq as))"
    using assms(2) by (simp add: attribute_read_def rd_simps)
  then have items: "attributes_items (cursor [] (i # to_le 2 len @ tlv_seq as)) =
      Inl Truncated # map Inr as"
    by (subst attributes_items.simps)
      (simp add: attributes_next_def rd_is_empty_cursor attributes_items_tlv_seq assms(1))
  then show ?thesis
    by (simp add: attributes_find_def attributes_flatten_def reader_new_cursor comp_def)
qed

theorem truncated_attribute_resumes_witness:
  "attributes_find (0x29 # to_le 2 (100 :: u16) @ tlv_seq [\<lparr>at_id = 1, at_body = [7]\<rparr>]) IdCluster =
    Some \<lparr>at_id = 1, at_body = [7]\<rparr>"
proof -
  have "length (tlv_seq [\<lparr>at_id = 1, at_body = [7]\<rparr>]) < unat (100 :: u16)"
    by (simp add: tlv_seq_Cons attribute_encode_eq)
  then show ?thesis
    using truncated_attribute_resumes [of "[\<lparr>at_id = 1, at_body = [7]\<rparr>]" "100 :: u16" "0x29" IdCluster]
    by (simp add: attr_ok_def attribute_is_def)
qed

section \<open>The structured attributes\<close>

text \<open>
  A service descriptor survives the air. A descriptor whose presence flags agree with its
  fields and whose fields fit their one-byte lengths, appended to other attributes, is found
  by its id and decodes to itself.
\<close>

theorem service_descriptor_roundtrip:
  assumes "sda_valid d" and "\<forall>a \<in> set as. attr_ok a"
    and "\<forall>a \<in> set as. \<not> attribute_is a IdServiceDescriptor"
  shows "map_option (\<lambda>a. service_descriptor_decode (at_body a))
    (attributes_find (service_descriptor_encode d (tlv_seq as)) IdServiceDescriptor) = Some (Inr d)"
  by (rule sda_codec.decode_found [OF assms])

theorem service_descriptor_roundtrip_witness:
  "map_option (\<lambda>a. service_descriptor_decode (at_body a))
    (attributes_find (service_descriptor_encode
      (with_service_info [1, 2, 3] (service_descriptor_new (Arr6 1 2 3 4 5 6) 1 Publish))
      (tlv_seq [\<lparr>at_id = 0, at_body = [1, 2]\<rparr>])) IdServiceDescriptor) =
   Some (Inr (with_service_info [1, 2, 3] (service_descriptor_new (Arr6 1 2 3 4 5 6) 1 Publish)))"
  by (rule service_descriptor_roundtrip)
    (simp_all add: sda_valid_def with_service_info_def service_descriptor_new_def
      service_control_new_def attr_ok_def attribute_is_def)

text \<open>
  (C13) The data-path attribute survives the air, up to what its format carries: a valid
  attribute decodes to itself with the control byte as the encoder rewrote it, the publish id
  kept only in a Request and the responder NDI only in a Response that is not a rejection. The
  three messages the engine builds, an M1, an accepting M2 and an M3, decode to themselves.
\<close>

theorem ndpe_roundtrip:
  assumes "ndpe_valid n" and "\<forall>a \<in> set as. attr_ok a"
    and "\<forall>a \<in> set as. \<not> attribute_is a IdNdpExtension"
  shows "map_option (\<lambda>a. ndpe_decode (at_body a))
      (attributes_find (ndpe_encode n (tlv_seq as)) IdNdpExtension) = Some (Inr (ndpe_on_wire n))
    \<and> ndpe_on_wire (ndpe_request d i ndi iid) = ndpe_request d i ndi iid
    \<and> ndpe_on_wire (ndpe_accept d i ndi rndi iid) = ndpe_accept d i ndi rndi iid
    \<and> ndpe_on_wire (ndpe_confirm d i ndi) = ndpe_confirm d i ndi"
  using ndpe_codec.decode_found [OF assms]
  by (simp add: ndpe_on_wire_def ndpe_request_def ndpe_accept_def ndpe_confirm_def
      ndpe_control_byte_def CONFIRM_REQUIRED_def PUBLISH_ID_PRESENT_def RESPONDER_NDI_PRESENT_def
      ndpe_carries_responder_def)

theorem ndpe_roundtrip_witness:
  "map_option (\<lambda>a. ndpe_decode (at_body a))
    (attributes_find (ndpe_encode (ndpe_accept 1 2 (Arr6 1 2 3 4 5 6) (Arr6 6 5 4 3 2 1)
      (Arr8 1 2 3 4 5 6 7 8)) (tlv_seq [])) IdNdpExtension) =
   Some (Inr (ndpe_on_wire (ndpe_accept 1 2 (Arr6 1 2 3 4 5 6) (Arr6 6 5 4 3 2 1)
      (Arr8 1 2 3 4 5 6 7 8))))"
  by (rule ndpe_roundtrip [THEN conjunct1]) (simp_all add: ndpe_valid_constructors)

text \<open>
  The presence bits do not follow what is appended. A data-path attribute with a publish
  id announces it in its control byte whatever the message, but appends it only to a Request:
  for every other message the bit is set and the byte is not there, and the attribute decodes
  with the bit set and no publish id.
\<close>

theorem ndpe_presence_bit_unfaithful:
  assumes "ndpe_valid n" and "np_publish_id n = Some pid" and "np_type n \<noteq> NdpRequest"
  shows "ndpe_control_byte n AND PUBLISH_ID_PRESENT \<noteq> 0
    \<and> length (ndpe_body n) = length (ndpe_body (n\<lparr>np_publish_id := None\<rparr>))
    \<and> (\<exists>m. ndpe_decode (ndpe_body n) = Inr m \<and> np_control m AND PUBLISH_ID_PRESENT \<noteq> 0
         \<and> np_publish_id m = None)"
proof -
  have bit: "ndpe_control_byte n AND PUBLISH_ID_PRESENT \<noteq> 0"
    using ndpe_control_byte_publish [of n] assms(2) by simp
  moreover have "length (ndpe_body n) = length (ndpe_body (n\<lparr>np_publish_id := None\<rparr>))"
    using assms(2,3) by (simp add: ndpe_body_eq)
  ultimately show ?thesis
    using ndpe_decode_body [OF assms(1)] assms(3) by (simp add: ndpe_on_wire_def)
qed

theorem ndpe_presence_bit_unfaithful_witness:
  "\<exists>m. ndpe_decode (ndpe_body ((ndpe_confirm 1 2 (Arr6 1 2 3 4 5 6))\<lparr>np_publish_id := Some 9\<rparr>)) = Inr m
    \<and> np_control m AND PUBLISH_ID_PRESENT \<noteq> 0 \<and> np_publish_id m = None"
  using ndpe_presence_bit_unfaithful [of "(ndpe_confirm 1 2 (Arr6 1 2 3 4 5 6))\<lparr>np_publish_id := Some 9\<rparr>" 9]
  by (simp add: ndpe_valid_def ndpe_confirm_def ndpe_body_eq ndpe_carries_responder_def)

section \<open>Frames\<close>

text \<open>
  A frame is classified as what it was built as. A service discovery frame and a data-path
  frame with the action frame control come back with their kind, their header, their subtype
  and exactly their attribute bytes, whatever those bytes are; the two are never confused.
\<close>

theorem action_frames_classified:
  "classify (sdf_encode (sdf_new dst src cid sq) attrs) =
     Inr \<lparr>df_header = sf_header (sdf_new dst src cid sq), df_kind = FtAction, df_attributes = attrs\<rparr>
   \<and> classify (naf_encode (naf_new sub dst src cid sq) attrs) =
     Inr \<lparr>df_header = nf_header (naf_new sub dst src cid sq), df_kind = FtNaf (naf_subtype_byte sub),
          df_attributes = attrs\<rparr>
   \<and> naf_subtype_from_byte (naf_subtype_byte sub) = Some sub"
proof -
  have "h_frame_control (sf_header (sdf_new dst src cid sq)) = FC_ACTION"
    by (simp add: sdf_new_def dot11_header_new_def)
  moreover have "h_frame_control (nf_header (naf_new sub dst src cid sq)) = FC_ACTION"
    "nf_subtype (naf_new sub dst src cid sq) = naf_subtype_byte sub"
    by (simp_all add: naf_new_def dot11_header_new_def)
  ultimately show ?thesis
    by (simp add: classify_sdf classify_naf)
qed

section \<open>Bounds\<close>

lemma rd_safe_take_rest [rd_safe_intros]: "rd_safe rd_rest_of"
  by (simp add: rd_safe_def rd_rest_of_def)

lemma rd_safe_when [rd_safe_intros]: "rd_safe m \<Longrightarrow> rd_safe (rd_when c m)"
  by (simp add: rd_when_def rd_safe_intros)

lemma rd_safe_if [rd_safe_intros]: "rd_safe m \<Longrightarrow> rd_safe m' \<Longrightarrow> rd_safe (if c then m else m')"
  by simp

lemma rd_safe_attribute: "rd_safe attribute_read"
  unfolding attribute_read_def by (intro rd_safe_intros)

lemma rd_safe_header [rd_safe_intros]: "rd_safe dot11_header_read"
  unfolding dot11_header_read_def by (intro rd_safe_intros)

lemma rd_safe_sda: "rd_safe service_descriptor_read"
  unfolding service_descriptor_read_def rd_optional_field_def by (intro rd_safe_intros)

lemma rd_safe_loop:
  assumes body: "rd_safe m"
    and stop: "\<And>a r. rd_is_empty r \<Longrightarrow> loop a r = (Inr a, r)"
    and go: "\<And>a r. \<not> rd_is_empty r \<Longrightarrow> loop a r =
      (case m r of (Inl e, r') \<Rightarrow> (Inl e, r') | (Inr t, r') \<Rightarrow> loop (a @ [t]) r')"
    and less: "\<And>r t r'. m r = (Inr t, r') \<Longrightarrow> \<not> rd_is_empty r \<Longrightarrow> rd_remaining r' < rd_remaining r"
  shows "rd_safe (loop a)"
proof -
  have "wf_reader r \<longrightarrow> wf_reader (snd (loop a r)) \<and> rd_buf (snd (loop a r)) = rd_buf r
      \<and> rd_pos r \<le> rd_pos (snd (loop a r))" for a r
  proof (induction "rd_remaining r" arbitrary: a r rule: less_induct)
    case less
    show ?case
    proof (cases "rd_is_empty r")
      case True
      then show ?thesis by (simp add: stop)
    next
      case False
      obtain x r' where m: "m r = (x, r')" by fastforce
      have s: "wf_reader r \<Longrightarrow> wf_reader r' \<and> rd_buf r' = rd_buf r \<and> rd_pos r \<le> rd_pos r'"
        using body m by (metis rd_safe_def snd_conv)
      show ?thesis
      proof (cases x)
        case (Inl e)
        then show ?thesis using go [OF False] m s by simp
      next
        case (Inr t)
        have "rd_remaining r' < rd_remaining r"
          using assms(4) m Inr False by blast
        from less.hyps [OF this, of "a @ [t]"] show ?thesis
          using go [OF False] m s Inr by auto
      qed
    qed
  qed
  then show ?thesis by (simp add: rd_safe_def)
qed

lemma rd_safe_ndpe_tlv: "rd_safe ndpe_tlv_decode"
  unfolding ndpe_tlv_decode_def by (intro rd_safe_intros)

lemma rd_safe_ndpe_tlvs [rd_safe_intros]: "rd_safe (ndpe_tlvs_read ts)"
  by (rule rd_safe_loop [OF rd_safe_ndpe_tlv])
    (auto simp: ndpe_tlvs_read.simps dest: ndpe_tlv_decode_progress)

lemma rd_safe_service_ids: "rd_safe (service_ids_read ids)"
  by (rule rd_safe_loop [OF rd_safe_take_array])
    (auto simp: service_ids_read.simps rd_take_array_def rd_bind_app rd_return_app rd_is_empty_def
      split: prod.splits sum.splits dest!: rd_take_remaining)

lemma rd_safe_ndpe: "rd_safe ndpe_read"
  unfolding ndpe_read_def by (intro rd_safe_intros)

lemma rd_safe_find_ie [rd_safe_intros]: "rd_safe find_nan_vendor_ie"
proof -
  have ie: "rd_safe ie_read"
    unfolding ie_read_def by (intro rd_safe_intros)
  have "wf_reader r \<longrightarrow> wf_reader (snd (find_nan_vendor_ie r))
      \<and> rd_buf (snd (find_nan_vendor_ie r)) = rd_buf r
      \<and> rd_pos r \<le> rd_pos (snd (find_nan_vendor_ie r))" for r
  proof (induction r rule: find_nan_vendor_ie.induct)
    case (1 r)
    obtain x r' where m: "ie_read r = (x, r')" by fastforce
    have s: "wf_reader r \<Longrightarrow> wf_reader r' \<and> rd_buf r' = rd_buf r \<and> rd_pos r \<le> rd_pos r'"
      using ie m by (metis rd_safe_def snd_conv)
    show ?case
    proof (cases x)
      case (Inl e)
      then show ?thesis using s by (subst (1 2 3) find_nan_vendor_ie.simps) (simp add: m)
    next
      case (Inr y)
      obtain eid body where y: "y = (eid, body)" by fastforce
      show ?thesis
        using 1 [OF _ m [symmetric] Inr y [symmetric]] s m Inr y
        by (subst (1 2 3) find_nan_vendor_ie.simps) auto
    qed
  qed
  then show ?thesis by (simp add: rd_safe_def)
qed

lemma rd_safe_beacon: "rd_safe nan_beacon_read"
  unfolding nan_beacon_read_def by (intro rd_safe_intros)

lemma rd_safe_action_guard [rd_safe_intros]: "rd_safe (action_guard t)"
  unfolding action_guard_def by (intro rd_safe_intros)


end
