(* ===== verification/Cobs.thy ===== *)
theory Cobs
  imports Prelude
begin

text \<open>
  \<open>crates/faces/ndn-face-serial/src/cobs.rs\<close>: the byte-stuffing codec of the serial face. The
  encoder is the loop of \<open>cobs_encode\<close> over (output, index of the pending code byte, code),
  the decoder the index loop of \<open>cobs_decode\<close>, and \<open>codec_decode\<close> the \<open>Decoder\<close> on a
  receive buffer.
\<close>

section \<open>The loops\<close>

datatype io_error = UnexpectedZero | RunExceedsInput | FrameTooLong

type_synonym cobs_state = "u8 list \<times> nat \<times> u8"

definition cobs_flush :: "cobs_state \<Rightarrow> cobs_state" where
  "cobs_flush st =
     (let (dst, code_idx, code) = st; dst = dst[code_idx := code]
      in (dst @ [0], length dst, 1))"

definition cobs_step :: "u8 \<Rightarrow> cobs_state \<Rightarrow> cobs_state" where
  "cobs_step byte st =
     (if byte = 0 then cobs_flush st
      else
        let (dst, code_idx, code) = st; dst = dst @ [byte]; code = code + 1
        in if code = 0xFF then cobs_flush (dst, code_idx, code) else (dst, code_idx, code))"

definition cobs_encode :: "u8 list \<Rightarrow> u8 list \<Rightarrow> u8 list" where
  "cobs_encode src dst =
     (let (dst, code_idx, code) = fold cobs_step src (dst @ [0], length dst, 1)
      in dst[code_idx := code])"

function cobs_decode_from :: "u8 list \<Rightarrow> nat \<Rightarrow> u8 list \<Rightarrow> io_error + u8 list" where
  "cobs_decode_from src i dst =
     (if length src \<le> i then Inr dst
      else
        let code = unat (src ! i); i = i + 1 in
        if code = 0 then Inl UnexpectedZero
        else
          let run_len = code - 1 in
          if length src < i + run_len then Inl RunExceedsInput
          else
            let dst = dst @ take run_len (drop i src); i = i + run_len in
            cobs_decode_from src i (if code < 0xFF \<and> i < length src then dst @ [0] else dst))"
  by pat_completeness auto
termination
  by (relation "measure (\<lambda>(src, i, _). length src - i)") auto

declare cobs_decode_from.simps [simp del]

definition cobs_decode :: "u8 list \<Rightarrow> u8 list \<Rightarrow> io_error + u8 list" where
  "cobs_decode src dst = cobs_decode_from src 0 dst"

section \<open>The codec\<close>

definition DEFAULT_MAX_FRAME_LEN :: nat where "DEFAULT_MAX_FRAME_LEN = 8800"

record cobs_codec =
  max_frame_len :: nat

definition cobs_codec_new :: cobs_codec where
  "cobs_codec_new = \<lparr>max_frame_len = DEFAULT_MAX_FRAME_LEN\<rparr>"

definition codec_encode :: "u8 list \<Rightarrow> u8 list \<Rightarrow> u8 list" where
  "codec_encode item dst = cobs_encode item dst @ [0]"

text \<open>The result of one \<open>decode\<close> call and the buffer after it.\<close>

definition codec_decode ::
    "cobs_codec \<Rightarrow> u8 list \<Rightarrow> (io_error + u8 list option) \<times> u8 list" where
  "codec_decode c buf =
     (case position (\<lambda>b. b = 0) buf of
        None \<Rightarrow> (Inr None, if max_frame_len c * 2 < length buf then [] else buf)
      | Some delim_pos \<Rightarrow>
          let encoded = take delim_pos buf; buf = drop (delim_pos + 1) buf in
          if encoded = [] then (Inr None, buf)
          else case cobs_decode encoded [] of
            Inr decoded \<Rightarrow>
              if max_frame_len c < length decoded then (Inl FrameTooLong, buf)
              else (Inr (Some decoded), buf)
          | Inl _ \<Rightarrow> (Inr None, buf))"

section \<open>The invariant of the encoder\<close>

text \<open>
  After the bytes \<open>src\<close>, on top of the bytes \<open>base\<close> already in the buffer: \<open>done\<close> are the finished
  blocks, then the pending code byte, then the \<open>run\<close> of non-zero bytes it will count. The
  finished blocks decode to \<open>p\<close> whatever non-empty bytes follow, and the source is
  \<open>p @ run\<close>; \<open>full\<close> counts the finished blocks of 254 bytes, the only overhead.
\<close>

definition cobs_inv :: "u8 list \<Rightarrow> u8 list \<Rightarrow> cobs_state \<Rightarrow> bool" where
  "cobs_inv base src st \<longleftrightarrow>
     (\<exists>done run p full. st = (base @ done @ [0] @ run, length (base @ done), of_nat (Suc (length run)))
        \<and> src = p @ run \<and> length run < 254 \<and> 0 \<notin> set run \<and> 0 \<notin> set done
        \<and> length done = length p + full \<and> 254 * full \<le> length p
        \<and> (\<forall>rest. rest \<noteq> [] \<longrightarrow>
             cobs_decode_from (done @ rest) 0 [] = cobs_decode_from (done @ rest) (length done) p))"

lemma decode_block:
  assumes "length run < 255" and "rest \<noteq> []"
  shows "cobs_decode_from (done @ (of_nat (Suc (length run)) # run) @ rest) (length done) p =
    cobs_decode_from (done @ (of_nat (Suc (length run)) # run) @ rest)
      (length (done @ of_nat (Suc (length run)) # run))
      (p @ run @ (if length run < 254 then [0] else []))"
proof -
  have u: "unat (of_nat (Suc (length run)) :: u8) = Suc (length run)"
    using assms(1) by (simp del: of_nat_Suc)
  show ?thesis
    using assms
    by (subst cobs_decode_from.simps) (simp del: of_nat_Suc add: nth_append u Let_def)
qed

lemma decode_last:
  assumes "length run < 255"
  shows "cobs_decode_from (done @ of_nat (Suc (length run)) # run) (length done) p = Inr (p @ run)"
proof -
  have u: "unat (of_nat (Suc (length run)) :: u8) = Suc (length run)"
    using assms by (simp del: of_nat_Suc)
  show ?thesis
    by (subst cobs_decode_from.simps)
      (simp del: of_nat_Suc add: nth_append u Let_def cobs_decode_from.simps)
qed

lemma code_nonzero: "length run < 255 \<Longrightarrow> (of_nat (Suc (length run)) :: u8) \<noteq> 0"
proof
  assume "length run < 255" "(of_nat (Suc (length run)) :: u8) = 0"
  then have "unat (of_nat (Suc (length run)) :: u8) = 0" by simp
  with \<open>length run < 255\<close> show False by (simp del: of_nat_Suc)
qed

text \<open>Closing a block, of fewer than 254 bytes by a zero or of exactly 254 bytes.\<close>

lemma cobs_inv_flush:
  assumes "st = (base @ done @ [0] @ run, length (base @ done), of_nat (Suc (length run)))"
    and "length run < 255" and "0 \<notin> set run" and "0 \<notin> set done"
    and "length done = length p + full" and "254 * full \<le> length p"
    and "\<And>rest. rest \<noteq> [] \<Longrightarrow>
      cobs_decode_from (done @ rest) 0 [] = cobs_decode_from (done @ rest) (length done) p"
  shows "cobs_inv base (p @ run @ (if length run < 254 then [0] else [])) (cobs_flush st)"
proof -
  let ?c = "of_nat (Suc (length run)) :: u8"
  let ?d = "done @ ?c # run" and ?p = "p @ run @ (if length run < 254 then [0] else [])"
  let ?full = "full + (if length run < 254 then 0 else 1)"
  have "cobs_flush st = (base @ ?d @ [0] @ [], length (base @ ?d), of_nat (Suc (length ([] :: u8 list))))"
    by (simp add: assms(1) cobs_flush_def list_update_append del: of_nat_Suc) simp
  moreover have "0 \<notin> set ?d"
    using assms(3,4) code_nonzero [OF assms(2)] by auto
  moreover have "length ?d = length ?p + ?full" and "254 * ?full \<le> length ?p"
    using assms(2,5,6) by auto
  moreover have "cobs_decode_from (?d @ rest) 0 [] = cobs_decode_from (?d @ rest) (length ?d) ?p"
    if "rest \<noteq> []" for rest
    using assms(7) [of "(?c # run) @ rest"] decode_block [OF assms(2) that, of "done" p]
    by (simp del: of_nat_Suc)
  ultimately show ?thesis
    unfolding cobs_inv_def
    by (intro exI [of _ ?d] exI [of _ "[]"] exI [of _ ?p] exI [of _ ?full]) auto
qed

lemma cobs_inv_step:
  assumes "cobs_inv base src st"
  shows "cobs_inv base (src @ [b]) (cobs_step b st)"
proof -
  obtain "done" run p full where st:
    "st = (base @ done @ [0] @ run, length (base @ done), of_nat (Suc (length run)))"
    and src: "src = p @ run" and run: "length run < 254" "0 \<notin> set run" and d: "0 \<notin> set done"
    "length done = length p + full" "254 * full \<le> length p"
    and dec: "\<And>rest. rest \<noteq> [] \<Longrightarrow>
      cobs_decode_from (done @ rest) 0 [] = cobs_decode_from (done @ rest) (length done) p"
    using assms unfolding cobs_inv_def by blast
  show ?thesis
  proof (cases "b = 0")
    case True
    then show ?thesis
      using cobs_inv_flush [OF st _ run(2) d dec] run(1) by (simp add: cobs_step_def src)
  next
    case False
    let ?run = "run @ [b]"
    let ?st = "(base @ done @ [0] @ ?run, length (base @ done), of_nat (Suc (length ?run)) :: u8)"
    have code: "(of_nat (Suc (length run)) :: u8) + 1 = of_nat (Suc (length ?run))"
      by simp
    have full: "(of_nat (Suc (length run)) :: u8) = 254 \<longleftrightarrow> length run = 253"
    proof -
      have "unat (of_nat (Suc (length run)) :: u8) = Suc (length run)"
        using run(1) by (simp del: of_nat_Suc)
      then show ?thesis by (simp del: of_nat_Suc add: word_unat_eq_iff)
    qed
    have step: "cobs_step b st =
        (if length ?run = 254 then cobs_flush ?st else ?st)"
      using False full by (simp add: cobs_step_def st code Let_def del: of_nat_Suc)
    show ?thesis
    proof (cases "length ?run = 254")
      case True
      then show ?thesis
        using cobs_inv_flush [OF refl _ _ d dec, of ?run base] run(2) False step by (simp add: src)
    next
      case n: False
      then show ?thesis
        unfolding step cobs_inv_def using run d dec False
        by (simp del: of_nat_Suc add: src)
          (intro exI [of _ "done"] exI [of _ ?run] exI [of _ p] exI [of _ full], simp)
    qed
  qed
qed

lemma cobs_inv_start: "cobs_inv base [] (base @ [0], length base, 1)"
  unfolding cobs_inv_def
  by (rule exI [of _ "[]"], rule exI [of _ "[]"], rule exI [of _ "[]"], rule exI [of _ 0]) simp

lemma cobs_inv_fold: "cobs_inv base src st \<Longrightarrow> cobs_inv base (src @ xs) (fold cobs_step xs st)"
proof (induction xs arbitrary: src st)
  case (Cons x xs)
  then show ?case using Cons.IH [OF cobs_inv_step [OF Cons.prems]] by simp
qed simp

lemma cobs_encode_shape:
  obtains e where "cobs_encode src base = base @ e" and "0 \<notin> set e" and "e \<noteq> []"
    and "length e \<le> length src + length src div 254 + 1"
    and "cobs_decode e [] = Inr src"
proof -
  obtain "done" run p full where st: "fold cobs_step src (base @ [0], length base, 1) =
      (base @ done @ [0] @ run, length (base @ done), of_nat (Suc (length run)))"
    and src: "src = p @ run" and run: "length run < 254" "0 \<notin> set run" and d: "0 \<notin> set done"
    "length done = length p + full" "254 * full \<le> length p"
    and dec: "\<And>rest. rest \<noteq> [] \<Longrightarrow>
      cobs_decode_from (done @ rest) 0 [] = cobs_decode_from (done @ rest) (length done) p"
    using cobs_inv_fold [OF cobs_inv_start, of base src] unfolding cobs_inv_def append_Nil by blast
  let ?e = "done @ of_nat (Suc (length run)) # run"
  have "cobs_encode src base = base @ ?e"
    by (simp add: cobs_encode_def st list_update_append del: of_nat_Suc)
  moreover have "0 \<notin> set ?e"
    using run d(1) code_nonzero [of run] by auto
  moreover have "full \<le> length src div 254"
    using d(3) by (simp add: src less_eq_div_iff_mult_less_eq mult.commute)
  then have "length ?e \<le> length src + length src div 254 + 1"
    using d(2) by (simp add: src)
  moreover have "cobs_decode ?e [] = Inr src"
    using dec [of "of_nat (Suc (length run)) # run"] decode_last [of run "done" p] run(1)
    by (simp add: cobs_decode_def src del: of_nat_Suc)
  ultimately show thesis using that by blast
qed

section \<open>What the codec promises\<close>

text \<open>
  Byte stuffing is exact, zero-free and cheap. Whatever the bytes, decoding what
  \<open>cobs_encode\<close> produced returns them, the encoding contains no zero byte, so the delimiter is
  unambiguous, and it is at most one byte plus one byte per 254 input bytes longer.
\<close>

theorem cobs_roundtrip:
  "cobs_decode (cobs_encode src []) [] = Inr src \<and> 0 \<notin> set (cobs_encode src [])
   \<and> length (cobs_encode src []) \<le> length src + length src div 254 + 1"
  using cobs_encode_shape [of src "[]"] by (metis append_Nil)

lemma position_delimiter:
  "0 \<notin> set xs \<Longrightarrow> position (\<lambda>b. b = (0 :: u8)) (xs @ 0 # ys) = Some (length xs)"
  by (induction xs) auto

lemma codec_decode_frame:
  assumes "length item \<le> max_frame_len c"
  shows "codec_decode c (codec_encode item [] @ rest) = (Inr (Some item), rest)"
proof -
  obtain e where e: "cobs_encode item [] = e" "0 \<notin> set e" "e \<noteq> []" "cobs_decode e [] = Inr item"
    using cobs_encode_shape [of item "[]"] by (metis append_Nil)
  then show ?thesis
    using assms position_delimiter [OF e(2), of rest]
    by (simp add: codec_decode_def codec_encode_def)
qed

definition cobs_shift :: "u8 list \<Rightarrow> cobs_state \<Rightarrow> cobs_state" where
  "cobs_shift dst st = (case st of (d, i, k) \<Rightarrow> (dst @ d, length dst + i, k))"

lemma cobs_step_shift: "cobs_step b (cobs_shift dst st) = cobs_shift dst (cobs_step b st)"
  by (cases st) (simp add: cobs_shift_def cobs_step_def cobs_flush_def list_update_append Let_def)

lemma fold_cobs_shift: "fold cobs_step src (cobs_shift dst st) = cobs_shift dst (fold cobs_step src st)"
  by (induction src arbitrary: st) (simp_all add: cobs_step_shift)

lemma codec_encode_append: "codec_encode item dst = dst @ codec_encode item []"
  using fold_cobs_shift [of item dst "([0], 0, 1)"]
  by (simp add: cobs_shift_def codec_encode_def cobs_encode_def list_update_append split: prod.splits)

text \<open>\<open>n\<close> calls of \<open>decode\<close> on one buffer: what they return, and the buffer after them.\<close>

primrec codec_drain ::
    "nat \<Rightarrow> cobs_codec \<Rightarrow> u8 list \<Rightarrow> (io_error + u8 list option) list \<times> u8 list" where
  "codec_drain 0 c buf = ([], buf)"
| "codec_drain (Suc n) c buf =
     (let (x, buf) = codec_decode c buf; (xs, buf) = codec_drain n c buf in (x # xs, buf))"

text \<open>
  A stream of frames comes out as it went in. Any packets within the length limit, encoded
  one after the other into one buffer and followed by the start of another frame, are returned
  one per call, in order and unchanged, and what follows them is left in the buffer.
\<close>

theorem codec_stream_roundtrip:
  assumes "list_all (\<lambda>x. length x \<le> max_frame_len c) items"
  shows "codec_drain (length items) c (fold codec_encode items [] @ rest) =
    (map (Inr \<circ> Some) items, rest)"
proof -
  have "codec_drain (length items) c (concat (map (\<lambda>x. codec_encode x []) items) @ rest) =
      (map (Inr \<circ> Some) items, rest)"
    using assms by (induction items) (simp_all add: codec_decode_frame)
  moreover have "fold codec_encode items dst = dst @ concat (map (\<lambda>x. codec_encode x []) items)" for dst
  proof (induction items arbitrary: dst)
    case (Cons x items)
    show ?case using Cons.IH [of "codec_encode x dst"] codec_encode_append [of x dst] by simp
  qed simp
  ultimately show ?thesis by simp
qed

theorem codec_stream_roundtrip_witness:
  "codec_drain 2 cobs_codec_new (fold codec_encode [[1, 0, 2], [0]] [] @ [5]) =
    ([Inr (Some [1, 0, 2]), Inr (Some [0])], [5])"
  using codec_stream_roundtrip [of cobs_codec_new "[[1, 0, 2], [0]]" "[5]"]
  by (simp add: cobs_codec_new_def DEFAULT_MAX_FRAME_LEN_def numeral_2_eq_2)

text \<open>
  A corrupt frame costs only itself, but the call that drops it reports no frame. With a
  complete valid frame in the buffer behind an empty or undecodable one, \<open>decode\<close> answers
  \<open>None\<close>, which to the caller means that more bytes are needed, and leaves the valid frame in
  the buffer; only a further call returns it.
\<close>

theorem corrupt_frame_hides_next:
  assumes "0 \<notin> set junk" and "junk = [] \<or> (\<exists>err. cobs_decode junk [] = Inl err)"
    and "length item \<le> max_frame_len c"
  shows "codec_decode c (junk @ 0 # codec_encode item []) = (Inr None, codec_encode item [])
    \<and> codec_decode c (codec_encode item []) = (Inr (Some item), [])"
  using position_delimiter [OF assms(1), of "codec_encode item []"] assms(2)
    codec_decode_frame [OF assms(3), of "[]"]
  by (auto simp: codec_decode_def [of c "junk @ 0 # codec_encode item []"] Let_def)

theorem corrupt_frame_hides_next_witness:
  "codec_decode cobs_codec_new ([9, 1] @ 0 # codec_encode [7] []) = (Inr None, codec_encode [7] [])
    \<and> codec_decode cobs_codec_new (codec_encode [7] []) = (Inr (Some [7]), [])"
proof (rule corrupt_frame_hides_next)
  have "cobs_decode [9, 1] [] = Inl RunExceedsInput"
    by (simp add: cobs_decode_def cobs_decode_from.simps Let_def)
  then show "[9, 1] = ([] :: u8 list) \<or> (\<exists>err. cobs_decode [9, 1] [] = Inl err)" by blast
qed (simp_all add: cobs_codec_new_def DEFAULT_MAX_FRAME_LEN_def)

end
