(* ===== verification/Maps.thy ===== *)
theory Maps
  imports Prelude "HOL-Library.AList"
begin

text \<open>
  The two map types of the Rust standard library the remaining components keep their state in.
  \<open>BTreeMap\<close> is a list of pairs strictly sorted by key, in iteration order; \<open>HashMap\<close> is a list
  of pairs with distinct keys, in an iteration order of which nothing is assumed. What the
  components rely on is the locale \<open>map_store\<close>, interpreted for both.
\<close>

section \<open>The interface\<close>

datatype ('k, 'v) map_op = MapInsert 'k 'v | MapRemove 'k

locale map_store =
  fixes ok :: "('k \<times> 'v) list \<Rightarrow> bool"
    and insert :: "'k \<Rightarrow> 'v \<Rightarrow> ('k \<times> 'v) list \<Rightarrow> ('k \<times> 'v) list"
    and remove :: "'k \<Rightarrow> ('k \<times> 'v) list \<Rightarrow> ('k \<times> 'v) list"
  assumes ok_empty: "ok []"
    and ok_distinct: "ok m \<Longrightarrow> distinct (map fst m)"
    and ok_insert: "ok m \<Longrightarrow> ok (insert k v m)"
    and ok_remove: "ok m \<Longrightarrow> ok (remove k m)"
    and get_insert: "ok m \<Longrightarrow> map_of (insert k v m) = (map_of m)(k \<mapsto> v)"
    and get_remove: "ok m \<Longrightarrow> map_of (remove k m) = (map_of m)(k := None)"
begin

fun run :: "('k, 'v) map_op list \<Rightarrow> ('k \<times> 'v) list \<Rightarrow> ('k \<times> 'v) list" where
  "run [] m = m"
| "run (MapInsert k v # ops) m = run ops (insert k v m)"
| "run (MapRemove k # ops) m = run ops (remove k m)"

lemma ok_run: "ok m \<Longrightarrow> ok (run ops m)"
  by (induction ops m rule: run.induct) (simp_all add: ok_insert ok_remove)

lemma run_cong:
  "ok m \<Longrightarrow> ok m' \<Longrightarrow> map_of m = map_of m' \<Longrightarrow> map_of (run ops m) = map_of (run ops m')"
  by (induction ops m arbitrary: m' rule: run.induct)
    (simp_all add: ok_insert ok_remove get_insert get_remove)

lemma mem_iff: "ok m \<Longrightarrow> (k, v) \<in> set m \<longleftrightarrow> map_of m k = Some v"
  by (simp add: ok_distinct)

lemma same_entries: "ok m \<Longrightarrow> ok m' \<Longrightarrow> map_of m = map_of m' \<Longrightarrow> set m = set m'"
  by (auto simp: mem_iff)

lemma empty_iff: "m = [] \<longleftrightarrow> map_of m = Map.empty"
  by (cases m) (auto dest: fun_cong)

lemma size_insert:
  assumes "ok m"
  shows "size (insert k v m) = (if map_of m k = None then Suc (size m) else size m)"
proof -
  have card: "size m = card (dom (map_of m))" if "ok m" for m
    using ok_distinct [OF that] by (metis distinct_card dom_map_of_conv_image_fst length_map set_map)
  have "finite (dom (map_of m))" by (rule finite_dom_map_of)
  then show ?thesis
    using card [OF assms] card [OF ok_insert [OF assms]]
    by (simp add: get_insert [OF assms] card_insert_if domIff)
qed

end

section \<open>\<open>BTreeMap\<close>\<close>

fun btm_insert :: "'k::linorder \<Rightarrow> 'v \<Rightarrow> ('k \<times> 'v) list \<Rightarrow> ('k \<times> 'v) list" where
  "btm_insert k v [] = [(k, v)]"
| "btm_insert k v ((k', v') # m) =
     (if k < k' then (k, v) # (k', v') # m
      else if k = k' then (k, v) # m
      else (k', v') # btm_insert k v m)"

definition map_delete :: "'k \<Rightarrow> ('k \<times> 'v) list \<Rightarrow> ('k \<times> 'v) list" where
  "map_delete k m = filter (\<lambda>(k', _). k' \<noteq> k) m"

definition map_contains :: "'k \<Rightarrow> ('k \<times> 'v) list \<Rightarrow> bool" where
  "map_contains k m \<longleftrightarrow> map_of m k \<noteq> None"

definition btm_ok :: "('k::linorder \<times> 'v) list \<Rightarrow> bool" where
  "btm_ok m \<longleftrightarrow> sorted_wrt (<) (map fst m)"

lemma map_of_delete: "map_of (map_delete k m) = (map_of m)(k := None)"
  by (induction m) (auto simp: map_delete_def fun_eq_iff)

lemma set_btm_insert: "fst ` set (btm_insert k v m) = Set.insert k (fst ` set m)"
  by (induction k v m rule: btm_insert.induct) auto

lemma set_btm_insert_pairs: "set (btm_insert k v m) \<subseteq> Set.insert (k, v) (set m)"
  by (induction k v m rule: btm_insert.induct) auto

lemma btm_ok_insert: "btm_ok m \<Longrightarrow> btm_ok (btm_insert k v m)"
proof (induction k v m rule: btm_insert.induct)
  case (2 k v k' v' m)
  have "x \<in> fst ` set (btm_insert k v m) \<Longrightarrow> x = k \<or> x \<in> fst ` set m" for x
    using set_btm_insert [of k v m] by auto
  with 2 show ?case by (force simp: btm_ok_def)
qed (simp add: btm_ok_def)

lemma btm_get_insert: "btm_ok m \<Longrightarrow> map_of (btm_insert k v m) = (map_of m)(k \<mapsto> v)"
  by (induction k v m rule: btm_insert.induct) (auto simp: btm_ok_def fun_eq_iff)

lemma btm_ok_filter: "btm_ok m \<Longrightarrow> btm_ok (filter p m)"
  by (induction m) (auto simp: btm_ok_def)

lemma btm_ok_delete: "btm_ok m \<Longrightarrow> btm_ok (map_delete k m)"
  unfolding map_delete_def by (rule btm_ok_filter)

interpretation btm: map_store btm_ok btm_insert map_delete
proof unfold_locales
  show "btm_ok m \<Longrightarrow> distinct (map fst m)" for m :: "('a \<times> 'b) list"
    by (simp add: btm_ok_def strict_sorted_iff)
qed (simp_all add: btm_ok_insert btm_get_insert map_of_delete btm_ok_delete,
    simp add: btm_ok_def)

lemma btm_length: "btm_ok m \<Longrightarrow> length m = card (fst ` set m)"
  using btm.ok_distinct [of m] by (metis distinct_card length_map set_map)

section \<open>\<open>HashMap\<close>\<close>

definition hm_ok :: "('k \<times> 'v) list \<Rightarrow> bool" where
  "hm_ok m \<longleftrightarrow> distinct (map fst m)"

definition hm_insert :: "'k \<Rightarrow> 'v \<Rightarrow> ('k \<times> 'v) list \<Rightarrow> ('k \<times> 'v) list" where
  "hm_insert k v m = AList.update k v m"

lemma hm_ok_delete: "hm_ok m \<Longrightarrow> hm_ok (map_delete k m)"
  by (auto simp: hm_ok_def map_delete_def intro: distinct_map_filter)

interpretation hm: map_store hm_ok hm_insert map_delete
  by unfold_locales
    (simp_all add: hm_ok_def hm_insert_def distinct_update update_conv' map_of_delete,
      simp add: map_delete_def distinct_map_filter)

end
