(* ===== verification/Reorder.thy ===== *)
theory Reorder
  imports Maps
begin

text \<open>
  \<open>crates/streams/ndn-stream-session/src/reorder.rs\<close>: the seq-keyed reorder buffer. The
  delivery cursor and the sequence numbers are \<open>u64\<close> words; items are of any type.
\<close>

datatype insert_outcome = Accepted | Duplicate | Stale | TooFarAhead

record 'a reorder_buffer =
  rb_next :: u64
  rb_buffered :: "(u64 \<times> 'a) list"
  rb_max_span :: u64

definition reorder_new :: "u64 \<Rightarrow> u64 \<Rightarrow> 'a reorder_buffer" where
  "reorder_new first_seq max_span =
     \<lparr>rb_next = first_seq, rb_buffered = [], rb_max_span = max max_span 1\<rparr>"

definition buffered_len :: "'a reorder_buffer \<Rightarrow> nat" where
  "buffered_len b = length (rb_buffered b)"

definition saturating_add :: "u64 \<Rightarrow> u64 \<Rightarrow> u64" where
  "saturating_add a b = (if a + b < a then -1 else a + b)"

definition reorder_insert ::
    "u64 \<Rightarrow> 'a \<Rightarrow> 'a reorder_buffer \<Rightarrow> insert_outcome \<times> 'a reorder_buffer" where
  "reorder_insert sq item b =
     (if sq < rb_next b then (Stale, b)
      else if saturating_add (rb_next b) (rb_max_span b) \<le> sq then (TooFarAhead, b)
      else if map_contains sq (rb_buffered b) then (Duplicate, b)
      else (Accepted, b\<lparr>rb_buffered := btm_insert sq item (rb_buffered b)\<rparr>))"

definition reorder_has :: "u64 \<Rightarrow> 'a reorder_buffer \<Rightarrow> bool" where
  "reorder_has sq b \<longleftrightarrow> sq < rb_next b \<or> map_contains sq (rb_buffered b)"

lemma map_delete_shorter: "map_of m k = Some v \<Longrightarrow> length (map_delete k m) < length m"
  unfolding map_delete_def by (rule length_filter_less [of "(k, v)"]) (auto dest: map_of_SomeD)

text \<open>The \<open>while let Some(item) = self.buffered.remove(&self.next)\<close> loop.\<close>

function reorder_pop :: "(u64 \<times> 'a) list \<Rightarrow> 'a reorder_buffer \<Rightarrow> (u64 \<times> 'a) list \<times> 'a reorder_buffer" where
  "reorder_pop out b =
     (case map_of (rb_buffered b) (rb_next b) of
        None \<Rightarrow> (out, b)
      | Some item \<Rightarrow>
          reorder_pop (out @ [(rb_next b, item)])
            (b\<lparr>rb_buffered := map_delete (rb_next b) (rb_buffered b), rb_next := rb_next b + 1\<rparr>))"
  by pat_completeness auto
termination
  by (relation "measure (\<lambda>(_, b). length (rb_buffered b))") (auto intro: map_delete_shorter)

declare reorder_pop.simps [simp del]

definition pop_ready :: "'a reorder_buffer \<Rightarrow> (u64 \<times> 'a) list \<times> 'a reorder_buffer" where
  "pop_ready b = reorder_pop [] b"

text \<open>The half-open range \<open>lo..hi\<close> of Rust, over words.\<close>

definition seq_range :: "u64 \<Rightarrow> u64 \<Rightarrow> u64 list" where
  "seq_range lo hi = map of_nat [unat lo ..< unat hi]"

definition reorder_missing :: "'a reorder_buffer \<Rightarrow> u64 list" where
  "reorder_missing b =
     (if rb_buffered b = [] then []
      else filter (\<lambda>s. \<not> map_contains s (rb_buffered b))
        (seq_range (rb_next b) (fst (last (rb_buffered b)))))"

definition skip_to :: "u64 \<Rightarrow> 'a reorder_buffer \<Rightarrow> u64 list \<times> 'a reorder_buffer" where
  "skip_to sq b =
     (if sq \<le> rb_next b then ([], b)
      else
        (filter (\<lambda>s. \<not> map_contains s (rb_buffered b)) (seq_range (rb_next b) sq),
         b\<lparr>rb_buffered := filter (\<lambda>(s, _). sq \<le> s) (rb_buffered b), rb_next := sq\<rparr>))"

section \<open>Well-formed buffers\<close>

text \<open>Sorted, everything at or above the cursor, below the window's end and below \<open>u64::MAX\<close>.\<close>

definition rb_ok :: "'a reorder_buffer \<Rightarrow> bool" where
  "rb_ok b \<longleftrightarrow> btm_ok (rb_buffered b) \<and> 0 < rb_max_span b \<and>
     (\<forall>s \<in> fst ` set (rb_buffered b). rb_next b \<le> s \<and> unat s < unat (rb_next b) + unat (rb_max_span b)
        \<and> s < -1)"

lemma unat_max_u64: "unat (-1 :: u64) = 2 ^ 64 - 1"
  by (simp add: unsigned_minus_1_eq_mask mask_eq_exp_minus_1)

lemma unat_u64_lt: "unat (s :: u64) < 2 ^ 64"
  using unsigned_less [of s, where ?'a = nat] by simp

lemma max_word_less:
  assumes "(s :: u64) < -1"
  shows "unat (s + 1) = Suc (unat s)"
proof -
  have "unat s < 2 ^ 64 - 1"
    using assms by (simp only: word_less_nat_alt unat_max_u64)
  then show ?thesis by (simp add: unat_word_ariths)
qed

lemma saturating_add_bound:
  assumes "s < saturating_add a b"
  shows "unat s < unat a + unat b" and "s < -1"
proof -
  show "s < -1"
    using assms by (rule order_less_le_trans) (rule word_order.extremum)
  have sum: "unat (a + b) = (unat a + unat b) mod 2 ^ 64"
    by (simp add: unat_word_ariths)
  show "unat s < unat a + unat b"
  proof (cases "unat a + unat b < 2 ^ 64")
    case True
    then have "unat (a + b) = unat a + unat b" using sum by simp
    then show ?thesis using assms by (simp add: saturating_add_def word_less_nat_alt)
  next
    case False
    then show ?thesis using unat_u64_lt [of s] by linarith
  qed
qed

section \<open>Preservation\<close>

lemma rb_ok_new: "rb_ok (reorder_new f m)"
  by (simp add: rb_ok_def reorder_new_def btm_ok_def less_max_iff_disj)

lemma rb_ok_insert:
  assumes "rb_ok b"
  shows "rb_ok (snd (reorder_insert sq x b))"
  using assms saturating_add_bound [of sq "rb_next b" "rb_max_span b"]
  by (auto simp: reorder_insert_def rb_ok_def btm_ok_insert not_less not_le
      dest!: subsetD [OF set_btm_insert_pairs])

text \<open>One turn of the delivery loop.\<close>

lemma rb_ok_pop_step:
  assumes "rb_ok b" and "map_of (rb_buffered b) (rb_next b) = Some x"
  shows "rb_ok (b\<lparr>rb_buffered := map_delete (rb_next b) (rb_buffered b), rb_next := rb_next b + 1\<rparr>)"
    and "unat (rb_next b + 1) = Suc (unat (rb_next b))"
proof -
  have mem: "rb_next b \<in> fst ` set (rb_buffered b)"
    using map_of_SomeD [OF assms(2)] by force
  then have nx: "rb_next b < -1"
    using assms(1) by (auto simp: rb_ok_def)
  then show un: "unat (rb_next b + 1) = Suc (unat (rb_next b))"
    by (rule max_word_less)
  have "rb_next b + 1 \<le> s \<and> unat s < unat (rb_next b + 1) + unat (rb_max_span b) \<and> s < -1"
    if "s \<in> fst ` set (map_delete (rb_next b) (rb_buffered b))" for s
  proof -
    have "s \<in> fst ` set (rb_buffered b)" "s \<noteq> rb_next b"
      using that by (auto simp: map_delete_def)
    then have "rb_next b < s" "unat s < unat (rb_next b) + unat (rb_max_span b)" "s < -1"
      using assms(1) by (auto simp: rb_ok_def)
    then show ?thesis
      by (simp add: un word_less_nat_alt word_le_nat_alt)
  qed
  then show "rb_ok (b\<lparr>rb_buffered := map_delete (rb_next b) (rb_buffered b), rb_next := rb_next b + 1\<rparr>)"
    using assms(1) by (simp add: rb_ok_def btm_ok_delete)
qed

text \<open>
  The whole loop: the delivered numbers are the consecutive ones from the cursor, each item is
  the buffered one, what stays buffered is the rest, and nothing is left at the new cursor.
\<close>

lemma reorder_pop_correct:
  assumes "rb_ok b"
  shows "\<exists>ds b'. reorder_pop out b = (out @ ds, b') \<and> rb_ok b'
    \<and> map (\<lambda>d. unat (fst d)) ds = [unat (rb_next b) ..< unat (rb_next b')]
    \<and> unat (rb_next b) \<le> unat (rb_next b')
    \<and> (\<forall>(s, x) \<in> set ds. map_of (rb_buffered b) s = Some x)
    \<and> map_of (rb_buffered b') = (\<lambda>s. if rb_next b' \<le> s then map_of (rb_buffered b) s else None)
    \<and> map_of (rb_buffered b') (rb_next b') = None \<and> rb_max_span b' = rb_max_span b"
  using assms
proof (induction out b rule: reorder_pop.induct)
  case (1 out b)
  show ?case
  proof (cases "map_of (rb_buffered b) (rb_next b)")
    case None
    have "map_of (rb_buffered b) s = None" if "\<not> rb_next b \<le> s" for s
      using "1.prems" that by (auto simp: rb_ok_def map_of_eq_None_iff)
    then have "map_of (rb_buffered b) =
        (\<lambda>s. if rb_next b \<le> s then map_of (rb_buffered b) s else None)"
      by (auto simp: fun_eq_iff)
    then show ?thesis
      using None "1.prems"
      by (intro exI [of _ "[]"] exI [of _ b]) (simp add: reorder_pop.simps)
  next
    case (Some x)
    let ?n = "rb_next b"
    let ?b = "b\<lparr>rb_buffered := map_delete ?n (rb_buffered b), rb_next := ?n + 1\<rparr>"
    note ok = rb_ok_pop_step [OF "1.prems" Some]
    obtain ds b' where r: "reorder_pop (out @ [(?n, x)]) ?b = ((out @ [(?n, x)]) @ ds, b')"
      and ih: "rb_ok b'" "map (\<lambda>d. unat (fst d)) ds = [unat (rb_next ?b) ..< unat (rb_next b')]"
      "unat (rb_next ?b) \<le> unat (rb_next b')"
      "\<forall>(s, y) \<in> set ds. map_of (rb_buffered ?b) s = Some y"
      "map_of (rb_buffered b') =
        (\<lambda>s. if rb_next b' \<le> s then map_of (rb_buffered ?b) s else None)"
      "map_of (rb_buffered b') (rb_next b') = None" "rb_max_span b' = rb_max_span ?b"
      using "1.IH" [OF Some ok(1)] by blast
    have le: "unat ?n < unat (rb_next b')"
      using ih(3) ok(2) by simp
    have upt: "[unat ?n ..< unat (rb_next b')] = unat ?n # [Suc (unat ?n) ..< unat (rb_next b')]"
      using le by (simp add: upt_conv_Cons)
    have mp: "\<forall>(s, y) \<in> set ((?n, x) # ds). map_of (rb_buffered b) s = Some y"
      using ih(4) Some by (auto simp: map_of_delete split: if_splits)
    have "map_of (rb_buffered b') =
        (\<lambda>s. if rb_next b' \<le> s then map_of (rb_buffered b) s else None)"
      using ih(5) le by (auto simp: fun_eq_iff map_of_delete word_le_nat_alt)
    moreover have "reorder_pop out b = (out @ ((?n, x) # ds), b')"
      using r Some by (subst reorder_pop.simps) simp
    ultimately show ?thesis
      using ih(1,2,6,7) mp le upt ok(2)
      by (intro exI [of _ "(?n, x) # ds"] exI [of _ b']) simp
  qed
qed

lemma rb_ok_skip:
  assumes "rb_ok b"
  shows "rb_ok (snd (skip_to sq b))"
  using assms
  by (force simp: skip_to_def rb_ok_def btm_ok_filter not_le word_less_nat_alt)

section \<open>Runs\<close>

text \<open>Any sequence of operations; \<open>delivered\<close> collects what \<open>pop_ready\<close> handed out, in order.\<close>

datatype 'a reorder_op = OpInsert u64 'a | OpPop | OpSkip u64

inductive reorder_reach ::
    "u64 \<Rightarrow> u64 \<Rightarrow> 'a reorder_buffer \<Rightarrow> (u64 \<times> 'a) list \<Rightarrow> (u64 \<times> 'a) list \<Rightarrow> bool"
  for f :: u64 and m :: u64 where
  start: "reorder_reach f m (reorder_new f m) [] []"
| insert: "reorder_reach f m b accepted delivered \<Longrightarrow> reorder_insert sq x b = (r, b') \<Longrightarrow>
    reorder_reach f m b' (if r = Accepted then accepted @ [(sq, x)] else accepted) delivered"
| pop: "reorder_reach f m b accepted delivered \<Longrightarrow> pop_ready b = (ds, b') \<Longrightarrow>
    reorder_reach f m b' accepted (delivered @ ds)"
| skip: "reorder_reach f m b accepted delivered \<Longrightarrow> skip_to sq b = (lost, b') \<Longrightarrow>
    reorder_reach f m b' accepted delivered"

inductive_cases reorder_reachE: "reorder_reach f m b accepted delivered"

definition reorder_inv ::
    "u64 \<Rightarrow> 'a reorder_buffer \<Rightarrow> (u64 \<times> 'a) list \<Rightarrow> (u64 \<times> 'a) list \<Rightarrow> bool" where
  "reorder_inv m b accepted delivered \<longleftrightarrow> rb_ok b \<and> rb_max_span b = max m 1 \<and>
     sorted_wrt (<) (map fst delivered) \<and> (\<forall>d \<in> set delivered. fst d < rb_next b) \<and>
     set delivered \<subseteq> set accepted \<and> set (rb_buffered b) \<subseteq> set accepted"

lemma sorted_wrt_unat:
  "sorted_wrt (<) (map (\<lambda>d. unat (fst d)) ds) \<longleftrightarrow> sorted_wrt (<) (map fst (ds :: (u64 \<times> 'a) list))"
  by (simp add: sorted_wrt_map word_less_nat_alt)

lemma reorder_inv_insert:
  assumes "reorder_inv m b accepted delivered" and "(sq, x) \<in> set accepted"
  shows "reorder_inv m (snd (reorder_insert sq x b)) accepted delivered"
  using assms rb_ok_insert [of b sq x] set_btm_insert_pairs [of sq x "rb_buffered b"]
  by (auto simp: reorder_inv_def reorder_insert_def split: if_splits)

lemma reorder_inv_pop:
  assumes "reorder_inv m b accepted delivered" and "pop_ready b = (ds, b')"
  shows "reorder_inv m b' accepted (delivered @ ds)"
proof -
  obtain ds' b'' where p: "reorder_pop [] b = ([] @ ds', b'')" "rb_ok b''"
    "map (\<lambda>d. unat (fst d)) ds' = [unat (rb_next b) ..< unat (rb_next b'')]"
    "unat (rb_next b) \<le> unat (rb_next b'')"
    "\<forall>(s, y) \<in> set ds'. map_of (rb_buffered b) s = Some y"
    "map_of (rb_buffered b'') = (\<lambda>s. if rb_next b'' \<le> s then map_of (rb_buffered b) s else None)"
    "rb_max_span b'' = rb_max_span b"
    using reorder_pop_correct [of b "[]"] assms(1) by (auto simp: reorder_inv_def)
  have eq: "ds' = ds" "b'' = b'"
    using p(1) assms(2) by (simp_all add: pop_ready_def)
  have okb: "btm_ok (rb_buffered b)" "btm_ok (rb_buffered b')"
    using assms(1) p(2) eq by (auto simp: reorder_inv_def rb_ok_def)
  have sub: "set ds \<subseteq> set (rb_buffered b)"
    using p(5) eq by (auto dest: map_of_SomeD)
  have "set (rb_buffered b') \<subseteq> set (rb_buffered b)"
    using p(6) eq by (auto simp: btm.mem_iff [OF okb(1)] btm.mem_iff [OF okb(2)] split: if_splits)
  moreover have rng: "\<forall>d \<in> set ds. rb_next b \<le> fst d \<and> fst d < rb_next b'"
  proof
    fix d assume "d \<in> set ds"
    then have "unat (fst d) \<in> set (map (\<lambda>d. unat (fst d)) ds)" by force
    then show "rb_next b \<le> fst d \<and> fst d < rb_next b'"
      unfolding p(3) [unfolded eq] by (simp add: word_less_nat_alt word_le_nat_alt)
  qed
  moreover have "sorted_wrt (<) (map fst ds)"
    using p(3) eq sorted_wrt_unat [of ds] by (metis sorted_wrt_upt)
  moreover have "rb_next b \<le> rb_next b'"
    using p(4) eq by (simp add: word_le_nat_alt)
  moreover have "fst d < fst d'" if "d \<in> set delivered" "d' \<in> set ds" for d d'
  proof -
    have "fst d < rb_next b" using assms(1) that(1) by (simp add: reorder_inv_def)
    also have "rb_next b \<le> fst d'" using rng that(2) by simp
    finally show ?thesis .
  qed
  ultimately have
    "sorted_wrt (<) (map fst (delivered @ ds))" "\<forall>d \<in> set (delivered @ ds). fst d < rb_next b'"
    "set (delivered @ ds) \<subseteq> set accepted" "set (rb_buffered b') \<subseteq> set accepted"
    using assms(1) sub unfolding reorder_inv_def
    by (auto simp: sorted_wrt_append intro: order_less_le_trans)
  then show ?thesis
    using assms(1) p(2,7) eq by (simp add: reorder_inv_def)
qed

lemma reorder_inv_skip:
  assumes "reorder_inv m b accepted delivered" and "skip_to sq b = (lost, b')"
  shows "reorder_inv m b' accepted delivered"
  using assms rb_ok_skip [of b sq] by (fastforce simp: reorder_inv_def skip_to_def split: if_splits)

lemma reorder_inv_more:
  "reorder_inv m b accepted delivered \<Longrightarrow> set accepted \<subseteq> set accepted' \<Longrightarrow>
    reorder_inv m b accepted' delivered"
  by (auto simp: reorder_inv_def)

lemma reorder_inv_new: "reorder_inv m (reorder_new f m) accepted []"
  by (simp add: reorder_inv_def rb_ok_new) (simp add: reorder_new_def)

lemma reorder_reach_inv: "reorder_reach f m b accepted delivered \<Longrightarrow> reorder_inv m b accepted delivered"
proof (induction rule: reorder_reach.induct)
  case start
  show ?case by (rule reorder_inv_new)
next
  case (insert b accepted delivered sq x r b')
  show ?case
  proof (cases "r = Accepted")
    case True
    then show ?thesis
      using reorder_inv_insert [OF reorder_inv_more [OF insert.IH, of "accepted @ [(sq, x)]"], of sq x]
        insert.hyps(2) by (simp add: subset_insertI)
  next
    case False
    then have "b' = b" using insert.hyps(2) by (auto simp: reorder_insert_def split: if_splits)
    then show ?thesis using False insert.IH by simp
  qed
qed (simp_all add: reorder_inv_pop reorder_inv_skip)

section \<open>What the buffer promises\<close>

definition reorder_example :: "nat reorder_buffer" where
  "reorder_example = snd (reorder_insert 7 70 (snd (reorder_insert 5 50 (reorder_new 5 4))))"

lemma reorder_example_eq:
  "reorder_example = \<lparr>rb_next = 5, rb_buffered = [(5, 50), (7, 70)], rb_max_span = 4\<rparr>"
  by (simp add: reorder_example_def reorder_insert_def reorder_new_def saturating_add_def
      map_contains_def)

lemma reorder_example_reach: "reorder_reach 5 4 reorder_example [(5, 50), (7, 70)] []"
proof -
  have 1: "reorder_insert 5 50 (reorder_new 5 4) =
      (Accepted, snd (reorder_insert 5 50 (reorder_new 5 4 :: nat reorder_buffer)))"
    by (simp add: reorder_insert_def reorder_new_def saturating_add_def map_contains_def)
  have 2: "reorder_insert 7 70 (snd (reorder_insert 5 50 (reorder_new 5 4))) =
      (Accepted, reorder_example)"
    by (simp add: reorder_insert_def reorder_new_def saturating_add_def map_contains_def
        reorder_example_def)
  show ?thesis
    using reorder_reach.insert [OF reorder_reach.insert [OF reorder_reach.start 1] 2] by simp
qed

text \<open>
  Out of order in, in order out. Over any sequence of inserts, drains and skips, the items
  delivered have strictly increasing sequence numbers, so nothing is delivered twice or late;
  every delivered item is one that was accepted under that number; and everything delivered
  lies below the cursor.
\<close>

theorem reorder_delivers_in_order:
  assumes "reorder_reach f m b accepted delivered"
  shows "sorted_wrt (<) (map fst delivered) \<and> set delivered \<subseteq> set accepted
    \<and> list_all (\<lambda>d. fst d < rb_next b) delivered"
  using reorder_reach_inv [OF assms] by (simp add: reorder_inv_def list_all_iff)

theorem reorder_delivers_in_order_witness:
  "sorted_wrt (<) (map fst [(5, 50 :: nat)]) \<and> set [(5, 50 :: nat)] \<subseteq> set [(5, 50), (7, 70)]
    \<and> list_all (\<lambda>d. fst d < rb_next (snd (pop_ready reorder_example))) [(5, 50 :: nat)]"
proof -
  have "pop_ready reorder_example = ([(5, 50)], snd (pop_ready reorder_example))"
    by (simp add: pop_ready_def reorder_pop.simps reorder_example_eq map_delete_def)
  from reorder_reach.pop [OF reorder_example_reach this] show ?thesis
    using reorder_delivers_in_order [of 5 4 "snd (pop_ready reorder_example)"
        "[(5, 50), (7, 70)]" "[(5, 50)]"] by simp
qed

text \<open>
  The buffer is bounded. In every reachable state at most \<open>max_span\<close> items are buffered
  (one for a span of zero), each within the window at the cursor, and the cursor can advance
  past each of them without wrapping.
\<close>

theorem reorder_bounded:
  assumes "reorder_reach f m b accepted delivered"
  shows "buffered_len b \<le> unat (max m 1)
    \<and> list_all (\<lambda>(s, x). rb_next b \<le> s \<and> unat s < unat (rb_next b) + unat (max m 1) \<and> s + 1 \<noteq> 0)
        (rb_buffered b)"
proof -
  have inv: "rb_ok b" "rb_max_span b = max m 1"
    using reorder_reach_inv [OF assms] by (simp_all add: reorder_inv_def)
  let ?keys = "map fst (rb_buffered b)"
  have d: "distinct ?keys"
    using inv(1) btm.ok_distinct by (auto simp: rb_ok_def)
  have rng: "unat (rb_next b) \<le> unat s" "unat s < unat (rb_next b) + unat (max m 1)"
    "s + 1 \<noteq> 0" if "s \<in> set ?keys" for s
  proof -
    have *: "rb_next b \<le> s" "unat s < unat (rb_next b) + unat (max m 1)" "s < -1"
      using inv that by (auto simp: rb_ok_def)
    then show "unat (rb_next b) \<le> unat s" "unat s < unat (rb_next b) + unat (max m 1)" "s + 1 \<noteq> 0"
      using max_word_less [of s] by (auto simp: word_le_nat_alt)
  qed
  have "length ?keys = card (unat ` set ?keys)"
  proof -
    have "inj_on unat (set ?keys)" by (auto simp: inj_on_def word_unat_eq_iff)
    then show ?thesis using distinct_card [OF d] by (simp add: card_image)
  qed
  also have "\<dots> \<le> card {unat (rb_next b) ..< unat (rb_next b) + unat (max m 1)}"
    by (intro card_mono) (simp_all add: image_subset_iff rng del: set_map)
  finally have "buffered_len b \<le> unat (max m 1)"
    by (simp add: buffered_len_def)
  moreover have "rb_next b \<le> s \<and> unat s < unat (rb_next b) + unat (max m 1) \<and> s + 1 \<noteq> 0"
    if "(s, x) \<in> set (rb_buffered b)" for s x
  proof -
    have "s \<in> set ?keys" using that by force
    then show ?thesis using rng by (simp add: word_le_nat_alt)
  qed
  ultimately show ?thesis by (auto simp: list_all_iff)
qed

theorem reorder_bounded_witness:
  "buffered_len reorder_example \<le> unat (max (4 :: u64) 1)
    \<and> list_all (\<lambda>(s, x). rb_next reorder_example \<le> s
        \<and> unat s < unat (rb_next reorder_example) + unat (max (4 :: u64) 1) \<and> s + 1 \<noteq> 0)
        (rb_buffered reorder_example)"
  by (rule reorder_bounded [OF reorder_example_reach])

text \<open>
  A drain is maximal and gap-free. From a well-formed buffer \<open>pop_ready\<close> returns the
  consecutive numbers from the cursor up to the new cursor, each with its buffered item, stops
  exactly at the first number that is not buffered, and the buffer keeps exactly the items at
  or above the new cursor.
\<close>

theorem pop_ready_exact:
  assumes "rb_ok b"
  shows "let (ds, b') = pop_ready b
         in map fst ds = seq_range (rb_next b) (rb_next b')
          \<and> list_all (\<lambda>(s, x). map_of (rb_buffered b) s = Some x) ds
          \<and> map_of (rb_buffered b) (rb_next b') = None
          \<and> map_of (rb_buffered b') =
              (\<lambda>s. if rb_next b' \<le> s then map_of (rb_buffered b) s else None) \<and> rb_ok b'"
proof -
  obtain ds b' where p: "reorder_pop [] b = ([] @ ds, b')" "rb_ok b'"
    "map (\<lambda>d. unat (fst d)) ds = [unat (rb_next b) ..< unat (rb_next b')]"
    "\<forall>(s, y) \<in> set ds. map_of (rb_buffered b) s = Some y"
    "map_of (rb_buffered b') = (\<lambda>s. if rb_next b' \<le> s then map_of (rb_buffered b) s else None)"
    "map_of (rb_buffered b') (rb_next b') = None"
    using reorder_pop_correct [OF assms, of "[]"] by blast
  have "map fst ds = map of_nat (map (\<lambda>d. unat (fst d)) ds)" by simp
  then show ?thesis
    using p(2-) by (simp add: pop_ready_def p(1) seq_range_def list_all_iff)
qed

theorem pop_ready_exact_witness:
  "let (ds, b') = pop_ready reorder_example
   in map fst ds = seq_range (rb_next reorder_example) (rb_next b')
    \<and> list_all (\<lambda>(s, x). map_of (rb_buffered reorder_example) s = Some x) ds
    \<and> map_of (rb_buffered reorder_example) (rb_next b') = None
    \<and> map_of (rb_buffered b') =
        (\<lambda>s. if rb_next b' \<le> s then map_of (rb_buffered reorder_example) s else None) \<and> rb_ok b'"
proof (rule pop_ready_exact)
  show "rb_ok reorder_example"
    using reorder_reach_inv [OF reorder_example_reach] by (simp add: reorder_inv_def)
qed

end
