(* ===== verification/Dv_Rib.thy ===== *)
theory Dv_Rib
  imports Maps "HOL-Library.Product_Lexorder" "HOL-Library.Multiset"
begin

text \<open>
  \<open>crates/routing/ndn-routing/src/protocols/dv/rib.rs\<close>: the distance-vector RIB. Router names
  are any linearly ordered type (\<open>Name\<close> belongs to the packet crate, and only its equality and
  its order are used). The lock around each map is the sequential access it enforces; a
  \<open>HashMap\<close> is a list of pairs in an arbitrary iteration order (theory \<open>Maps\<close>).
\<close>

section \<open>Data\<close>

definition RIB_INFINITY :: u32 where "RIB_INFINITY = 16"
definition LOCAL_COST :: u32 where "LOCAL_COST = 1"

record 'n adv_entry =
  ae_destination :: 'n
  ae_next_hop :: 'n
  ae_cost :: u64
  ae_other_cost :: u64

record 'n best_route =
  br_neighbor :: 'n
  br_cost :: u32

record 'n rib_change =
  rc_destination :: 'n
  rc_old_best :: "'n best_route option"
  rc_new_best :: "'n best_route option"

record 'n rib_entry =
  re_destination :: 'n
  re_costs :: "('n \<times> u32) list"
  re_lowest1 :: u32
  re_next_hop1 :: "'n option"
  re_lowest2 :: u32
  re_next_hop2 :: "'n option"

record 'n dv_rib =
  dr_self :: 'n
  dr_entries :: "('n \<times> 'n rib_entry) list"
  dr_neighbors :: "'n set"

definition dv_rib_new :: "'n \<Rightarrow> 'n dv_rib" where
  "dv_rib_new self_name =
     \<lparr>dr_self = self_name,
      dr_entries = [(self_name,
        \<lparr>re_destination = self_name, re_costs = [(self_name, 0)], re_lowest1 = 0,
         re_next_hop1 = Some self_name, re_lowest2 = RIB_INFINITY, re_next_hop2 = None\<rparr>)],
      dr_neighbors = {self_name}\<rparr>"

section \<open>Helpers\<close>

definition u32_saturating_add :: "u32 \<Rightarrow> u32 \<Rightarrow> u32" where
  "u32_saturating_add a b = (if a + b < a then -1 else a + b)"

definition compute_received_cost :: "'n adv_entry \<Rightarrow> 'n \<Rightarrow> u32 option" where
  "compute_received_cost adv self_name =
     (let raw =
        (if ae_next_hop adv = self_name then
           (if ucast RIB_INFINITY \<le> ae_other_cost adv then None else Some (ae_other_cost adv))
         else
           (if ucast RIB_INFINITY \<le> ae_cost adv then None else Some (ae_cost adv)))
      in case raw of
           None \<Rightarrow> None
         | Some raw \<Rightarrow>
             let cost = u32_saturating_add (ucast raw) LOCAL_COST
             in if RIB_INFINITY \<le> cost then None else Some cost)"

text \<open>
  The two cached minima while \<open>refresh\<close> runs over the costs; \<open>hop_before\<close> is the tie break
  \<open>is_none_or(|nh| hop < nh)\<close>.
\<close>

definition hop_before :: "'n::linorder \<Rightarrow> 'n option \<Rightarrow> bool" where
  "hop_before hop nh \<longleftrightarrow> (case nh of None \<Rightarrow> True | Some nh \<Rightarrow> hop < nh)"

type_synonym 'n minima = "u32 \<times> 'n option \<times> u32 \<times> 'n option"

definition refresh_step :: "'n::linorder \<times> u32 \<Rightarrow> 'n minima \<Rightarrow> 'n minima" where
  "refresh_step row m =
     (let (hop, cost) = row; (lowest1, next_hop1, lowest2, next_hop2) = m in
      if cost < lowest1 \<or> (cost = lowest1 \<and> hop_before hop next_hop1)
      then (cost, Some hop, lowest1, next_hop1)
      else if cost < lowest2 \<or> (cost = lowest2 \<and> hop_before hop next_hop2)
      then (lowest1, next_hop1, cost, Some hop)
      else m)"

definition refresh_minima :: "('n::linorder \<times> u32) list \<Rightarrow> 'n minima" where
  "refresh_minima costs = fold refresh_step costs (RIB_INFINITY, None, RIB_INFINITY, None)"

definition refresh :: "'n::linorder rib_entry \<Rightarrow> 'n rib_entry" where
  "refresh entry =
     (let (lowest1, next_hop1, lowest2, next_hop2) = refresh_minima (re_costs entry)
      in entry\<lparr>re_lowest1 := lowest1, re_next_hop1 := next_hop1,
               re_lowest2 := lowest2, re_next_hop2 := next_hop2\<rparr>)"

definition best_route_of :: "'n rib_entry \<Rightarrow> 'n best_route option" where
  "best_route_of entry =
     (if RIB_INFINITY \<le> re_lowest1 entry then None
      else map_option (\<lambda>nh. \<lparr>br_neighbor = nh, br_cost = re_lowest1 entry\<rparr>) (re_next_hop1 entry))"

section \<open>Updates\<close>

definition fresh_entry :: "'n \<Rightarrow> 'n rib_entry" where
  "fresh_entry destination =
     \<lparr>re_destination = destination, re_costs = [], re_lowest1 = RIB_INFINITY,
      re_next_hop1 = None, re_lowest2 = RIB_INFINITY, re_next_hop2 = None\<rparr>"

definition dirty_reset ::
    "'n \<Rightarrow> ('n \<times> 'n rib_entry) list \<Rightarrow> ('n \<times> 'n rib_entry) list" where
  "dirty_reset peer entries =
     map (\<lambda>(name, entry).
        (name, if map_contains peer (re_costs entry)
               then entry\<lparr>re_costs := hm_insert peer RIB_INFINITY (re_costs entry)\<rparr>
               else entry)) entries"

definition apply_row ::
    "'n \<Rightarrow> 'n \<Rightarrow> 'n adv_entry \<Rightarrow> ('n \<times> 'n rib_entry) list \<Rightarrow> ('n \<times> 'n rib_entry) list" where
  "apply_row self_name peer adv_entry entries =
     (if ae_destination adv_entry = self_name then entries
      else case compute_received_cost adv_entry self_name of
        None \<Rightarrow> entries
      | Some cost \<Rightarrow>
          let entry = (case map_of entries (ae_destination adv_entry) of
                Some e \<Rightarrow> e | None \<Rightarrow> fresh_entry (ae_destination adv_entry))
          in hm_insert (ae_destination adv_entry)
               (entry\<lparr>re_costs := hm_insert peer cost (re_costs entry)\<rparr>) entries)"

text \<open>The loop that collects the changes, over the refreshed entries.\<close>

definition rib_changes ::
    "('n \<times> 'n best_route option) list \<Rightarrow> ('n \<times> 'n rib_entry) list \<Rightarrow> 'n rib_change list" where
  "rib_changes old_bests entries =
     concat (map (\<lambda>(name, entry).
       let old = (case map_of old_bests name of None \<Rightarrow> None | Some b \<Rightarrow> b);
           new = (if re_lowest1 entry < RIB_INFINITY then best_route_of entry else None)
       in if old \<noteq> new
          then [\<lparr>rc_destination = name, rc_old_best = old, rc_new_best = new\<rparr>] else []) entries)"

definition old_bests :: "('n \<times> 'n rib_entry) list \<Rightarrow> ('n \<times> 'n best_route option) list" where
  "old_bests entries = map (\<lambda>(n, e). (n, best_route_of e)) entries"

definition apply_advertisement ::
    "'n::linorder \<Rightarrow> 'n adv_entry list \<Rightarrow> 'n dv_rib \<Rightarrow> 'n rib_change list \<times> 'n dv_rib" where
  "apply_advertisement peer adv rib =
     (let neighbors = Set.insert peer (dr_neighbors rib);
          olds = old_bests (dr_entries rib);
          entries = dirty_reset peer (dr_entries rib);
          entries = fold (apply_row (dr_self rib) peer) adv entries;
          entries = map (\<lambda>(name, entry). (name, refresh entry)) entries;
          to_remove = map fst (filter (\<lambda>(_, entry). RIB_INFINITY \<le> re_lowest1 entry) entries);
          changes = rib_changes olds entries
      in (changes, rib\<lparr>dr_neighbors := neighbors, dr_entries := fold map_delete to_remove entries\<rparr>))"

definition remove_neighbor :: "'n::linorder \<Rightarrow> 'n dv_rib \<Rightarrow> 'n rib_change list \<times> 'n dv_rib" where
  "remove_neighbor neighbor rib =
     (if neighbor \<notin> dr_neighbors rib then ([], rib)
      else
        let olds = old_bests (dr_entries rib);
            entries = map (\<lambda>(name, entry).
              (name, refresh (entry\<lparr>re_costs := map_delete neighbor (re_costs entry)\<rparr>)))
              (dr_entries rib);
            changes = rib_changes olds entries;
            to_remove = map fst (filter
              (\<lambda>(name, entry). RIB_INFINITY \<le> re_lowest1 entry \<and> name \<noteq> dr_self rib) entries)
        in (changes, rib\<lparr>dr_neighbors := dr_neighbors rib - {neighbor},
                         dr_entries := fold map_delete to_remove entries\<rparr>))"

definition best_route :: "'n dv_rib \<Rightarrow> 'n \<Rightarrow> 'n best_route option" where
  "best_route rib destination = Option.bind (map_of (dr_entries rib) destination) best_route_of"

definition rib_snapshot :: "'n::linorder dv_rib \<Rightarrow> 'n rib_entry list" where
  "rib_snapshot rib = sort_key re_destination (map snd (dr_entries rib))"

text \<open>\<open>None\<close> is the \<open>expect\<close> on a missing next hop.\<close>

primrec adv_rows :: "'n rib_entry list \<Rightarrow> 'n adv_entry list option" where
  "adv_rows [] = Some []"
| "adv_rows (entry # es) =
     (if RIB_INFINITY \<le> re_lowest1 entry then adv_rows es
      else case re_next_hop1 entry of
        None \<Rightarrow> None
      | Some next_hop \<Rightarrow>
          map_option (Cons
            \<lparr>ae_destination = re_destination entry, ae_next_hop = next_hop,
             ae_cost = ucast (re_lowest1 entry), ae_other_cost = ucast (re_lowest2 entry)\<rparr>)
            (adv_rows es))"

definition produce_advertisement :: "'n::linorder dv_rib \<Rightarrow> 'n adv_entry list option" where
  "produce_advertisement rib =
     adv_rows (sort_key re_destination (map snd (dr_entries rib)))"

section \<open>\<open>refresh\<close> finds the two least routes\<close>

text \<open>The costs as (cost, hop) pairs, in the order of the tie break.\<close>

definition by_cost :: "('n \<times> u32) list \<Rightarrow> (u32 \<times> 'n) list" where
  "by_cost costs = map prod.swap costs"

fun two_least :: "(u32 \<times> 'n) list \<Rightarrow> 'n minima" where
  "two_least [] = (RIB_INFINITY, None, RIB_INFINITY, None)"
| "two_least [(c, h)] = (c, Some h, RIB_INFINITY, None)"
| "two_least ((c, h) # (c', h') # _) = (c, Some h, c', Some h')"

lemma lex_before:
  fixes c c1 :: u32 and h h1 :: "'n::linorder"
  assumes "(c, h) \<noteq> (c1, h1)"
  shows "(c < c1 \<or> (c = c1 \<and> h < h1)) = ((c, h) \<le> (c1, h1))"
proof -
  have "(c, h) \<le> (c1, h1) \<longleftrightarrow> (c, h) < (c1, h1)"
    using assms by (simp only: order.order_iff_strict [of "(c, h)"]) blast
  also have "\<dots> \<longleftrightarrow> c < c1 \<or> (c = c1 \<and> h < h1)"
    by (cases "c < c1"; cases "c = c1") simp_all
  finally show ?thesis by simp
qed

lemma refresh_step_insort:
  assumes "c \<le> RIB_INFINITY" and "(c, h) \<notin> set ps"
  shows "refresh_step (h, c) (two_least ps) = two_least (insort (c, h :: 'n::linorder) ps)"
proof (cases ps rule: two_least.cases)
  case 1
  then show ?thesis
    using assms(1) by (cases "c = RIB_INFINITY") (simp_all add: refresh_step_def hop_before_def)
next
  case (2 c1 h1)
  have "(c, h) \<noteq> (c1, h1)" using assms(2) 2 by simp
  note lex = lex_before [OF this]
  have inf: "c < RIB_INFINITY \<or> c = RIB_INFINITY" using assms(1) by (simp add: le_less)
  show ?thesis
    using inf
    by (cases "(c, h) \<le> (c1, h1)")
      (simp_all add: 2 refresh_step_def hop_before_def lex del: less_eq_prod_simp)
next
  case (3 c1 h1 c2 h2 rest)
  have "(c, h) \<noteq> (c1, h1)" "(c, h) \<noteq> (c2, h2)" using assms(2) 3 by simp_all
  note lex = lex_before [OF this(1)] lex_before [OF this(2)]
  show ?thesis
    by (cases "(c, h) \<le> (c1, h1)"; cases "(c, h) \<le> (c2, h2)")
      (simp_all add: 3 refresh_step_def hop_before_def lex del: less_eq_prod_simp)
qed

lemma refresh_fold:
  assumes "\<forall>(h, c) \<in> set costs. c \<le> RIB_INFINITY" and "distinct (by_cost costs @ ps)"
  shows "fold refresh_step costs (two_least (sort ps)) = two_least (sort (by_cost costs @ ps))"
  using assms
proof (induction costs arbitrary: ps)
  case Nil
  then show ?case by (simp add: by_cost_def)
next
  case (Cons row costs)
  obtain h c where row: "row = (h, c)" by fastforce
  have "fold refresh_step (row # costs) (two_least (sort ps)) =
      fold refresh_step costs (two_least (sort ((c, h) # ps)))"
    using Cons.prems refresh_step_insort [of c h "sort ps"] by (simp add: row by_cost_def)
  also have "\<dots> = two_least (sort (by_cost costs @ (c, h) # ps))"
    using Cons.prems by (intro Cons.IH) (auto simp: row by_cost_def)
  also have "sort (by_cost costs @ (c, h) # ps) = sort (by_cost (row # costs) @ ps)"
    by (rule properties_for_sort) (simp_all add: row by_cost_def sorted_insort)
  finally show ?case .
qed

lemma distinct_by_cost: "hm_ok costs \<Longrightarrow> distinct (by_cost costs)"
  by (auto simp: hm_ok_def by_cost_def distinct_map inj_on_def)

lemma refresh_minima_eq:
  assumes "hm_ok costs" and "\<forall>(h, c) \<in> set costs. c \<le> RIB_INFINITY"
  shows "refresh_minima costs = two_least (sort (by_cost costs))"
  using refresh_fold [OF assms(2), of "[]"] distinct_by_cost [OF assms(1)]
  by (simp add: refresh_minima_def)

end
