(* ===== verification/Dv_Routes.thy ===== *)
theory Dv_Routes
  imports Dv_Rib
begin

text \<open>
  What the distance-vector RIB promises: the invariant of its table over any sequence of
  updates, the meaning of one update in terms of the cost of each destination over each
  neighbour, the best route as the least of these, the reported changes, and the absence of
  two-node loops in what it advertises.
\<close>

section \<open>Costs of a table\<close>

definition cost_of :: "('n \<times> 'n rib_entry) list \<Rightarrow> 'n \<Rightarrow> 'n \<Rightarrow> u32 option" where
  "cost_of es d h = Option.bind (map_of es d) (\<lambda>e. map_of (re_costs e) h)"

definition fin_cost :: "u32 option \<Rightarrow> u32 option" where
  "fin_cost x = (case x of None \<Rightarrow> None | Some c \<Rightarrow> if c < RIB_INFINITY then Some c else None)"

text \<open>The finite cost of reaching \<open>d\<close> over the neighbour \<open>h\<close>.\<close>

definition reach_cost :: "'n dv_rib \<Rightarrow> 'n \<Rightarrow> 'n \<Rightarrow> u32 option" where
  "reach_cost rib d h = fin_cost (cost_of (dr_entries rib) d h)"

text \<open>What an advertisement offers for \<open>d\<close>: the last row for it that is not skipped.\<close>

definition adv_cost :: "'n \<Rightarrow> 'n adv_entry list \<Rightarrow> 'n \<Rightarrow> u32 option" where
  "adv_cost self_name adv d =
     (if d = self_name then None
      else fold (\<lambda>row acc. if ae_destination row = d \<and> compute_received_cost row self_name \<noteq> None
             then compute_received_cost row self_name else acc) adv None)"

lemma fin_cost_simps [simp]:
  "fin_cost None = None" "fin_cost (Some RIB_INFINITY) = None"
  "c < RIB_INFINITY \<Longrightarrow> fin_cost (Some c) = Some c"
  by (simp_all add: fin_cost_def)

lemma received_finite: "compute_received_cost row s = Some c \<Longrightarrow> c < RIB_INFINITY"
  by (auto simp: compute_received_cost_def Let_def not_le split: option.splits if_splits)

section \<open>Well-formed tables\<close>

definition costs_ok :: "('n \<times> u32) list \<Rightarrow> bool" where
  "costs_ok costs \<longleftrightarrow> hm_ok costs \<and> (\<forall>(h, c) \<in> set costs. c \<le> RIB_INFINITY)"

definition raw_ok :: "('n \<times> 'n rib_entry) list \<Rightarrow> bool" where
  "raw_ok es \<longleftrightarrow> hm_ok es \<and> (\<forall>(n, e) \<in> set es. re_destination e = n \<and> costs_ok (re_costs e))"

definition cached :: "'n::linorder rib_entry \<Rightarrow> bool" where
  "cached e \<longleftrightarrow> (re_lowest1 e, re_next_hop1 e, re_lowest2 e, re_next_hop2 e) =
     two_least (sort (by_cost (re_costs e)))"

definition self_entry :: "'n \<Rightarrow> 'n rib_entry" where
  "self_entry s = \<lparr>re_destination = s, re_costs = [(s, 0)], re_lowest1 = 0,
     re_next_hop1 = Some s, re_lowest2 = RIB_INFINITY, re_next_hop2 = None\<rparr>"

definition rib_ok :: "'n::linorder dv_rib \<Rightarrow> bool" where
  "rib_ok rib \<longleftrightarrow> raw_ok (dr_entries rib)
     \<and> (\<forall>(n, e) \<in> set (dr_entries rib). cached e \<and> re_lowest1 e < RIB_INFINITY)
     \<and> map_of (dr_entries rib) (dr_self rib) = Some (self_entry (dr_self rib))"

lemma hm_insert_Nil: "map_of (hm_insert k v []) = [k \<mapsto> v]"
  by (simp add: hm_insert_def)

lemma costs_ok_insert: "costs_ok costs \<Longrightarrow> c \<le> RIB_INFINITY \<Longrightarrow> costs_ok (hm_insert h c costs)"
proof -
  assume ok: "costs_ok costs" and c: "c \<le> RIB_INFINITY"
  have h: "hm_ok (hm_insert h c costs)"
    using ok by (simp add: costs_ok_def hm.ok_insert)
  have "c' \<le> RIB_INFINITY" if "(h', c') \<in> set (hm_insert h c costs)" for h' c'
  proof -
    have "map_of (hm_insert h c costs) h' = Some c'" using that hm.mem_iff [OF h] by blast
    then show ?thesis
      using ok c map_of_SomeD by (fastforce simp: costs_ok_def hm.get_insert split: if_splits)
  qed
  then show ?thesis using h by (auto simp: costs_ok_def)
qed

lemma costs_ok_delete: "costs_ok costs \<Longrightarrow> costs_ok (map_delete h costs)"
  by (auto simp: costs_ok_def hm_ok_delete) (auto simp: map_delete_def)

lemma raw_ok_map:
  assumes "raw_ok es" and "\<And>n e. re_destination (f n e) = re_destination e"
    and "\<And>n e. costs_ok (re_costs e) \<Longrightarrow> costs_ok (re_costs (f n e))"
  shows "raw_ok (map (\<lambda>(n, e). (n, f n e)) es)"
  using assms by (auto simp: raw_ok_def hm_ok_def comp_def case_prod_beta)

lemma map_of_map_entries: "map_of (map (\<lambda>(n, e). (n, f n e)) es) d = map_option (f d) (map_of es d)"
  by (induction es) auto

lemma raw_ok_dirty: "raw_ok es \<Longrightarrow> raw_ok (dirty_reset p es)"
  unfolding dirty_reset_def by (rule raw_ok_map) (auto simp: costs_ok_insert)

lemma cost_of_dirty:
  assumes "raw_ok es"
  shows "cost_of (dirty_reset p es) d h =
    (if h = p then map_option (\<lambda>_. RIB_INFINITY) (cost_of es d h) else cost_of es d h)"
proof (cases "map_of es d")
  case (Some e)
  then have "hm_ok (re_costs e)"
    using assms map_of_SomeD by (fastforce simp: raw_ok_def costs_ok_def)
  then show ?thesis
    using Some by (auto simp: cost_of_def dirty_reset_def map_of_map_entries map_contains_def hm.get_insert)
qed (simp add: cost_of_def dirty_reset_def map_of_map_entries)

lemma raw_ok_row: "raw_ok es \<Longrightarrow> raw_ok (apply_row s p row es)"
proof -
  assume ok: "raw_ok es"
  show ?thesis
  proof (cases "ae_destination row = s \<or> compute_received_cost row s = None")
    case True
    then show ?thesis using ok by (auto simp: apply_row_def)
  next
    case False
    then obtain c where c: "compute_received_cost row s = Some c" by auto
    let ?d = "ae_destination row"
    let ?e = "case map_of es ?d of Some e \<Rightarrow> e | None \<Rightarrow> fresh_entry ?d"
    let ?e' = "?e\<lparr>re_costs := hm_insert p c (re_costs ?e)\<rparr>"
    have e: "re_destination ?e = ?d" "costs_ok (re_costs ?e)"
      using ok by (auto simp: raw_ok_def fresh_entry_def costs_ok_def hm_ok_def
          split: option.split dest!: map_of_SomeD)
    have e': "re_destination ?e' = ?d \<and> costs_ok (re_costs ?e')"
      using e costs_ok_insert [OF e(2)] received_finite [OF c] by simp
    have eq: "apply_row s p row es = hm_insert ?d ?e' es"
      using False c by (simp add: apply_row_def Let_def)
    have h: "hm_ok (hm_insert ?d ?e' es)"
      using ok by (simp add: raw_ok_def hm.ok_insert)
    have "re_destination x = n \<and> costs_ok (re_costs x)" if "(n, x) \<in> set (hm_insert ?d ?e' es)" for n x
    proof -
      have "map_of (hm_insert ?d ?e' es) n = Some x" using that hm.mem_iff [OF h] by blast
      then have "n = ?d \<and> x = ?e' \<or> (n, x) \<in> set es"
        using ok by (auto simp: raw_ok_def hm.get_insert split: if_splits dest: map_of_SomeD)
      then show ?thesis using ok e' by (auto simp: raw_ok_def)
    qed
    then show ?thesis using h unfolding eq raw_ok_def by blast
  qed
qed

lemma cost_of_row:
  assumes "raw_ok es"
  shows "cost_of (apply_row s p row es) d h =
    (if d = ae_destination row \<and> d \<noteq> s \<and> h = p \<and> compute_received_cost row s \<noteq> None
     then compute_received_cost row s else cost_of es d h)"
proof (cases "ae_destination row = s \<or> compute_received_cost row s = None")
  case True
  then show ?thesis by (auto simp: apply_row_def)
next
  case False
  then obtain c where c: "compute_received_cost row s = Some c" by auto
  have h: "hm_ok es" using assms by (simp add: raw_ok_def)
  show ?thesis
  proof (cases "map_of es (ae_destination row)")
    case None
    then show ?thesis
      using False c hm.get_insert [OF h]
      by (auto simp: apply_row_def Let_def cost_of_def fresh_entry_def hm_insert_Nil)
  next
    case (Some e)
    then have "hm_ok (re_costs e)"
      using assms map_of_SomeD by (fastforce simp: raw_ok_def costs_ok_def)
    then show ?thesis
      using False c Some hm.get_insert [OF h]
      by (auto simp: apply_row_def Let_def cost_of_def hm.get_insert)
  qed
qed

lemma apply_rows:
  assumes "raw_ok es"
  shows "raw_ok (fold (apply_row s p) adv es) \<and>
    cost_of (fold (apply_row s p) adv es) d h =
      (if d \<noteq> s \<and> h = p then
         fold (\<lambda>row acc. if ae_destination row = d \<and> compute_received_cost row s \<noteq> None
             then compute_received_cost row s else acc) adv (cost_of es d h)
       else cost_of es d h)"
  using assms
proof (induction adv arbitrary: es)
  case (Cons row adv)
  then show ?case
    using Cons.IH [OF raw_ok_row [OF Cons.prems]] cost_of_row [OF Cons.prems]
    by (auto intro!: arg_cong [where f = "fold _ adv"])
qed simp

lemma fold_last_start:
  fixes g :: "'r \<Rightarrow> u32 option"
  assumes "\<And>r c. g r = Some c \<Longrightarrow> c < RIB_INFINITY" and "fin_cost x = None"
  shows "fin_cost (fold (\<lambda>r acc. if P r \<and> g r \<noteq> None then g r else acc) rs x) =
    fold (\<lambda>r acc. if P r \<and> g r \<noteq> None then g r else acc) rs None"
proof -
  have "fin_cost (fold (\<lambda>r acc. if P r \<and> g r \<noteq> None then g r else acc) rs x) =
    fold (\<lambda>r acc. if P r \<and> g r \<noteq> None then g r else acc) rs (fin_cost x)"
  proof (induction rs arbitrary: x)
    case (Cons r rs)
    have "fin_cost (g r) = g r" using assms(1) by (cases "g r") auto
    then show ?case using Cons.IH [of "g r"] Cons.IH [of x] by auto
  qed simp
  then show ?thesis using assms(2) by simp
qed

section \<open>Refreshing and pruning\<close>

abbreviation refresh_all :: "('n::linorder \<times> 'n rib_entry) list \<Rightarrow> ('n \<times> 'n rib_entry) list" where
  "refresh_all es \<equiv> map (\<lambda>(n, e). (n, refresh e)) es"

definition prune :: "('n \<Rightarrow> 'n rib_entry \<Rightarrow> bool) \<Rightarrow> ('n \<times> 'n rib_entry) list \<Rightarrow> ('n \<times> 'n rib_entry) list" where
  "prune dead es = fold map_delete (map fst (filter (\<lambda>(n, e). dead n e) es)) es"

lemma fold_delete: "fold map_delete ks m = filter (\<lambda>(k, _). k \<notin> set ks) m"
proof (induction ks arbitrary: m)
  case (Cons k ks)
  then show ?case by (auto simp: map_delete_def intro!: filter_cong)
qed simp

lemma prune_filter:
  assumes "hm_ok es"
  shows "prune dead es = filter (\<lambda>(n, e). \<not> dead n e) es"
proof -
  have "n \<in> set (map fst (filter (\<lambda>(n, e). dead n e) es)) \<longleftrightarrow> dead n e" if "(n, e) \<in> set es" for n e
    using that assms by (auto simp: hm_ok_def image_iff dest: eq_key_imp_eq_value)
  then show ?thesis
    unfolding prune_def fold_delete by (intro filter_cong) auto
qed

lemma map_of_prune:
  assumes "hm_ok es"
  shows "map_of (prune dead es) d =
    (case map_of es d of None \<Rightarrow> None | Some e \<Rightarrow> if dead d e then None else Some e)"
  using assms unfolding prune_filter [OF assms] hm_ok_def
  by (induction es) (auto split: option.splits dest: map_of_SomeD simp: rev_image_eqI)

lemma raw_ok_prune: "raw_ok es \<Longrightarrow> raw_ok (prune dead es)"
  by (simp add: raw_ok_def prune_filter) (auto simp: hm_ok_def distinct_map_filter)

lemma refresh_fields [simp]:
  "re_costs (refresh e) = re_costs e" "re_destination (refresh e) = re_destination e"
  by (simp_all add: refresh_def case_prod_beta)

lemma cached_refresh: "costs_ok (re_costs e) \<Longrightarrow> cached (refresh e)"
  by (simp add: cached_def refresh_def case_prod_beta costs_ok_def
      flip: refresh_minima_eq)

lemma raw_ok_refresh: "raw_ok es \<Longrightarrow> raw_ok (refresh_all es)"
  by (rule raw_ok_map) auto

lemma cost_of_refresh: "cost_of (refresh_all es) d h = cost_of es d h"
  by (simp add: cost_of_def map_of_map_entries Option.bind_map_option comp_def)

lemma by_cost_mem: "costs_ok costs \<Longrightarrow> (c, h) \<in> set (by_cost costs) \<longleftrightarrow> map_of costs h = Some c"
  by (force simp: by_cost_def costs_ok_def simp flip: hm.mem_iff)

text \<open>The least of the finite costs, with the tie broken by the name of the neighbour.\<close>

definition least_route :: "('n::linorder \<Rightarrow> u32 option) \<Rightarrow> 'n best_route option \<Rightarrow> bool" where
  "least_route f r \<longleftrightarrow> (case r of
       None \<Rightarrow> (\<forall>h. f h = None)
     | Some b \<Rightarrow> f (br_neighbor b) = Some (br_cost b)
         \<and> (\<forall>h c. f h = Some c \<longrightarrow> (br_cost b, br_neighbor b) \<le> (c, h)))"

lemma least_route_unique:
  assumes "least_route f r" and "least_route f r'"
  shows "r = r'"
proof (cases r)
  case None
  then show ?thesis using assms by (cases r') (auto simp: least_route_def)
next
  case (Some b)
  then obtain b' where b': "r' = Some b'"
    using assms by (cases r') (auto simp: least_route_def)
  have "(br_cost b, br_neighbor b) = (br_cost b', br_neighbor b')"
    using assms Some b' by (intro order.antisym) (simp_all add: least_route_def del: less_eq_prod_simp)
  then show ?thesis using Some b' by simp
qed

lemma sorted_least:
  fixes g :: "'n::linorder \<Rightarrow> u32 option"
  assumes "sorted ((c, h) # qs)" and mem: "\<And>c' h'. (c', h') \<in> set ((c, h) # qs) \<longleftrightarrow> g h' = Some c'"
  shows "least_route (\<lambda>h. fin_cost (g h)) (if c < RIB_INFINITY then Some \<lparr>br_neighbor = h, br_cost = c\<rparr> else None)"
proof -
  have least: "(c, h) \<le> (c', h')" if "g h' = Some c'" for c' h'
    using that mem [of c' h'] assms(1) by (auto simp del: less_eq_prod_simp)
  have here: "g h = Some c" using mem [of c h] by simp
  show ?thesis
  proof (cases "c < RIB_INFINITY")
    case True
    have "(c, h) \<le> (c', h')" if "fin_cost (g h') = Some c'" for h' c'
      using least that by (simp add: fin_cost_def split: option.splits if_splits del: less_eq_prod_simp)
    then show ?thesis
      using here True by (simp add: least_route_def del: less_eq_prod_simp)
  next
    case False
    have "fin_cost (g h') = None" for h'
      using least [of h'] False by (cases "g h'") (auto simp: fin_cost_def not_less)
    then show ?thesis using False by (simp add: least_route_def)
  qed
qed

text \<open>The cached fields of an entry in terms of its sorted costs.\<close>

lemma cached_cases:
  fixes e :: "'n::linorder rib_entry"
  assumes "cached e" and "costs_ok (re_costs e)"
  obtains (none) "re_costs e = []" "re_lowest1 e = RIB_INFINITY" "re_next_hop1 e = None"
      "re_lowest2 e = RIB_INFINITY"
    | (one) c h where "re_costs e = [(h, c)]" "re_lowest1 e = c" "re_next_hop1 e = Some h"
      "re_lowest2 e = RIB_INFINITY"
    | (more) c h c2 h2 qs where "re_lowest1 e = c" "re_next_hop1 e = Some h" "re_lowest2 e = c2"
      "sorted ((c, h) # (c2, h2) # qs)"
      "\<And>c' h'. (c', h') \<in> set ((c, h) # (c2, h2) # qs) \<longleftrightarrow> map_of (re_costs e) h' = Some c'"
      "h \<notin> snd ` set ((c2, h2) # qs)"
proof (cases "sort (by_cost (re_costs e))" rule: two_least.cases)
  case 1
  then have "set (by_cost (re_costs e)) = {}" by (metis empty_set set_sort)
  then have "re_costs e = []" by (simp add: by_cost_def)
  with 1 show ?thesis using assms(1) none by (simp add: cached_def)
next
  case (2 c h)
  then have "mset (by_cost (re_costs e)) = {#(c, h)#}" by (metis mset_single_iff mset_sort)
  then have "by_cost (re_costs e) = [(c, h)]" by simp
  then have "re_costs e = [(h, c)]" by (auto simp: by_cost_def)
  with 2 show ?thesis using assms(1) one by (simp add: cached_def)
next
  case (3 c h c2 h2 qs)
  have "set (by_cost (re_costs e)) = set ((c, h) # (c2, h2) # qs)" using 3 by (metis set_sort)
  moreover have "sorted ((c, h) # (c2, h2) # qs)" using 3 by (metis sorted_sort)
  moreover have "distinct (map snd (sort (by_cost (re_costs e))))"
    using assms(2) mset_eq_imp_distinct_iff [of "map snd (sort (by_cost (re_costs e)))" "map fst (re_costs e)"]
    by (simp add: costs_ok_def hm_ok_def by_cost_def multiset.map_comp comp_def)
  then have "h \<notin> snd ` set ((c2, h2) # qs)"
    unfolding 3 by simp
  ultimately show ?thesis
    using assms(1) by_cost_mem [OF assms(2)] 3
    by (intro more [of c h c2 h2 qs])
      (simp_all only: cached_def two_least.simps prod.inject simp_thms)
qed

lemma cached_least:
  fixes e :: "'n::linorder rib_entry"
  assumes "cached e" and ok: "costs_ok (re_costs e)"
  shows "least_route (\<lambda>h. fin_cost (map_of (re_costs e) h)) (best_route_of e)"
  using assms
proof (cases rule: cached_cases)
  case none
  then show ?thesis by (simp add: least_route_def best_route_of_def)
next
  case (one c h)
  have mem: "(c', h') \<in> set [(c, h)] \<longleftrightarrow> map_of (re_costs e) h' = Some c'" for c' h'
    using one(1) by auto
  have best: "best_route_of e = (if c < RIB_INFINITY then Some \<lparr>br_neighbor = h, br_cost = c\<rparr> else None)"
    using one by (auto simp: best_route_of_def dest: leD)
  show ?thesis unfolding best by (rule sorted_least [OF _ mem]) simp
next
  case (more c h c2 h2 qs)
  have best: "best_route_of e = (if c < RIB_INFINITY then Some \<lparr>br_neighbor = h, br_cost = c\<rparr> else None)"
    using more(1,2) by (auto simp: best_route_of_def dest: leD)
  show ?thesis unfolding best by (rule sorted_least [OF more(4,5)])
qed

lemma least_without:
  "least_route f r \<Longrightarrow> (\<And>b. r = Some b \<Longrightarrow> br_neighbor b \<noteq> p) \<Longrightarrow> least_route (f(p := None)) r"
  by (cases r) (auto simp: least_route_def)

text \<open>The cost offered to the neighbour \<open>p\<close>: the second best when \<open>p\<close> is the next hop.\<close>

definition split_cost :: "'n \<Rightarrow> 'n rib_entry \<Rightarrow> u32" where
  "split_cost p e = (if re_next_hop1 e = Some p then re_lowest2 e else re_lowest1 e)"

lemma split_least:
  fixes e :: "'n::linorder rib_entry"
  assumes "cached e" and ok: "costs_ok (re_costs e)"
  obtains r where "least_route ((\<lambda>h. fin_cost (map_of (re_costs e) h))(p := None)) r"
    and "case r of None \<Rightarrow> RIB_INFINITY \<le> split_cost p e
         | Some b \<Rightarrow> split_cost p e = br_cost b \<and> br_cost b < RIB_INFINITY"
proof (cases "re_next_hop1 e = Some p")
  case False
  then have "least_route ((\<lambda>h. fin_cost (map_of (re_costs e) h))(p := None)) (best_route_of e)"
    by (intro least_without cached_least assms) (auto simp: best_route_of_def split: if_splits)
  moreover have "case best_route_of e of None \<Rightarrow> RIB_INFINITY \<le> split_cost p e
         | Some b \<Rightarrow> split_cost p e = br_cost b \<and> br_cost b < RIB_INFINITY"
    using assms
    by (cases rule: cached_cases) (use False in \<open>auto simp: best_route_of_def split_cost_def\<close>)
  ultimately show ?thesis by (rule that)
next
  case True
  from assms show ?thesis
  proof (cases rule: cached_cases)
    case none
    then show ?thesis using True by simp
  next
    case (one c h)
    then show ?thesis using that [of None] True by (simp add: least_route_def split_cost_def)
  next
    case (more c h c2 h2 qs)
    have p: "p = h" using True more by simp
    have mem: "(c', h') \<in> set ((c2, h2) # qs) \<longleftrightarrow> ((map_of (re_costs e))(p := None)) h' = Some c'" for c' h'
      using more(5) [of c' h'] more(6) p by (cases "h' = h") force+
    have "(\<lambda>h. fin_cost (((map_of (re_costs e))(p := None)) h)) =
        (\<lambda>h. fin_cost (map_of (re_costs e) h))(p := None)"
      by auto
    moreover have "sorted ((c2, h2) # qs)" using more(4) by simp
    ultimately have "least_route ((\<lambda>h. fin_cost (map_of (re_costs e) h))(p := None))
        (if c2 < RIB_INFINITY then Some \<lparr>br_neighbor = h2, br_cost = c2\<rparr> else None)"
      using sorted_least [OF _ mem] by simp
    then show ?thesis
      by (rule that) (use True more(3) in \<open>simp add: split_cost_def not_less\<close>)
  qed
qed

section \<open>The table after an update\<close>

lemma cached_dead:
  assumes "cached e" and "costs_ok (re_costs e)" and "RIB_INFINITY \<le> re_lowest1 e"
  shows "fin_cost (map_of (re_costs e) h) = None"
  using cached_least [OF assms(1,2)] assms(3) by (simp add: best_route_of_def least_route_def)

lemma raw_okD: "raw_ok es \<Longrightarrow> map_of es d = Some e \<Longrightarrow> re_destination e = d \<and> costs_ok (re_costs e)"
  by (auto simp: raw_ok_def dest!: map_of_SomeD)

lemma fin_cost_pruned:
  assumes "raw_ok es" and "\<And>n e. dead n e \<Longrightarrow> RIB_INFINITY \<le> re_lowest1 e"
  shows "fin_cost (cost_of (prune dead (refresh_all es)) d h) = fin_cost (cost_of es d h)"
proof (cases "map_of es d")
  case (Some e)
  then have e: "costs_ok (re_costs e)" using raw_okD [OF assms(1)] by blast
  show ?thesis
  proof (cases "dead d (refresh e)")
    case True
    then have "fin_cost (map_of (re_costs e) h) = None"
      using cached_dead [OF cached_refresh [OF e]] e assms(2) by simp
    then show ?thesis
      using Some True raw_ok_refresh [OF assms(1)]
      by (simp add: cost_of_def map_of_prune raw_ok_def map_of_map_entries)
  qed (use Some raw_ok_refresh [OF assms(1)] in
      \<open>simp add: cost_of_def map_of_prune raw_ok_def map_of_map_entries\<close>)
qed (use raw_ok_refresh [OF assms(1)] in
      \<open>simp add: cost_of_def map_of_prune raw_ok_def map_of_map_entries\<close>)

abbreviation applied_rows ::
    "'n::linorder \<Rightarrow> 'n adv_entry list \<Rightarrow> 'n dv_rib \<Rightarrow> ('n \<times> 'n rib_entry) list" where
  "applied_rows peer adv rib \<equiv>
     fold (apply_row (dr_self rib) peer) adv (dirty_reset peer (dr_entries rib))"

abbreviation dead_route :: "'n \<Rightarrow> 'n rib_entry \<Rightarrow> bool" where
  "dead_route n e \<equiv> RIB_INFINITY \<le> re_lowest1 e"

lemma apply_advertisement_eq:
  "apply_advertisement peer adv rib =
     (rib_changes (old_bests (dr_entries rib)) (refresh_all (applied_rows peer adv rib)),
      rib\<lparr>dr_neighbors := Set.insert peer (dr_neighbors rib),
          dr_entries := prune dead_route (refresh_all (applied_rows peer adv rib))\<rparr>)"
  by (simp add: apply_advertisement_def Let_def prune_def)

abbreviation dropped_rows :: "'n \<Rightarrow> ('n \<times> 'n rib_entry) list \<Rightarrow> ('n \<times> 'n rib_entry) list" where
  "dropped_rows nb es \<equiv> map (\<lambda>(n, e). (n, e\<lparr>re_costs := map_delete nb (re_costs e)\<rparr>)) es"

lemma remove_neighbor_eq:
  "remove_neighbor nb rib =
     (if nb \<notin> dr_neighbors rib then ([], rib)
      else (rib_changes (old_bests (dr_entries rib)) (refresh_all (dropped_rows nb (dr_entries rib))),
        rib\<lparr>dr_neighbors := dr_neighbors rib - {nb},
            dr_entries := prune (\<lambda>n e. dead_route n e \<and> n \<noteq> dr_self rib)
              (refresh_all (dropped_rows nb (dr_entries rib)))\<rparr>))"
proof -
  have "refresh_all (dropped_rows nb (dr_entries rib)) =
      map (\<lambda>(n, e). (n, refresh (e\<lparr>re_costs := map_delete nb (re_costs e)\<rparr>))) (dr_entries rib)"
    by auto
  then show ?thesis by (simp only: remove_neighbor_def Let_def prune_def)
qed

lemma raw_ok_applied: "raw_ok (dr_entries rib) \<Longrightarrow> raw_ok (applied_rows peer adv rib)"
  by (simp add: apply_rows raw_ok_dirty)

lemma raw_ok_dropped: "raw_ok es \<Longrightarrow> raw_ok (dropped_rows nb es)"
  by (rule raw_ok_map) (auto simp: costs_ok_delete)

lemma reach_cost_apply:
  assumes "raw_ok (dr_entries rib)"
  shows "reach_cost (snd (apply_advertisement peer adv rib)) d h =
    (if h = peer then adv_cost (dr_self rib) adv d else reach_cost rib d h)"
proof -
  have eq: "reach_cost (snd (apply_advertisement peer adv rib)) d h =
      fin_cost (cost_of (applied_rows peer adv rib) d h)" for h
    using fin_cost_pruned [OF raw_ok_applied [OF assms]]
    by (simp add: reach_cost_def apply_advertisement_eq)
  have start: "fin_cost (cost_of (dirty_reset peer (dr_entries rib)) d peer) = None"
    using cost_of_dirty [OF assms] by (cases "cost_of (dr_entries rib) d peer") auto
  show ?thesis
  proof (cases "h = peer")
    case True
    have row: "fin_cost (cost_of (applied_rows peer adv rib) d peer) =
        fin_cost (if d \<noteq> dr_self rib then
          fold (\<lambda>row acc. if ae_destination row = d \<and> compute_received_cost row (dr_self rib) \<noteq> None
             then compute_received_cost row (dr_self rib) else acc) adv
             (cost_of (dirty_reset peer (dr_entries rib)) d peer)
          else cost_of (dirty_reset peer (dr_entries rib)) d peer)"
      using apply_rows [OF raw_ok_dirty [OF assms]] by simp
    show ?thesis
      unfolding True eq row
      using start fold_last_start [of "\<lambda>row. compute_received_cost row (dr_self rib)"
          "cost_of (dirty_reset peer (dr_entries rib)) d peer" "\<lambda>row. ae_destination row = d" adv]
      by (auto simp: adv_cost_def dest: received_finite)
  next
    case False
    then show ?thesis
      unfolding eq
      by (simp add: reach_cost_def apply_rows raw_ok_dirty assms cost_of_dirty)
  qed
qed

lemma cost_of_dropped:
  "cost_of (dropped_rows nb es) d h = (if h = nb then None else cost_of es d h)"
  by (cases "map_of es d") (auto simp: cost_of_def map_of_map_entries map_of_delete)

lemma reach_cost_remove:
  assumes "raw_ok (dr_entries rib)" and "nb \<in> dr_neighbors rib"
  shows "reach_cost (snd (remove_neighbor nb rib)) d h = (if h = nb then None else reach_cost rib d h)"
proof -
  have "reach_cost (snd (remove_neighbor nb rib)) d h =
      fin_cost (cost_of (dropped_rows nb (dr_entries rib)) d h)"
    unfolding reach_cost_def remove_neighbor_eq using assms(2)
    by (simp del: map_map) (rule fin_cost_pruned [OF raw_ok_dropped [OF assms(1)]], simp)
  then show ?thesis by (simp add: cost_of_dropped reach_cost_def)
qed

section \<open>The invariant\<close>

lemma map_of_self_applied:
  assumes "raw_ok es" and "map_of es s = Some (self_entry s)" and "peer \<noteq> s"
  shows "map_of (fold (apply_row s peer) adv (dirty_reset peer es)) s = Some (self_entry s)"
proof -
  have row: "map_of (apply_row s peer row es) s = map_of es s" if "raw_ok es" for row es
    using that hm.get_insert [of es]
    by (auto simp: apply_row_def Let_def raw_ok_def split: option.split)
  have "map_of (fold (apply_row s peer) adv es) s = map_of es s" if "raw_ok es" for es
    using that by (induction adv arbitrary: es) (simp_all add: row raw_ok_row)
  from this [OF raw_ok_dirty [OF assms(1)]] show ?thesis
    using assms(2,3) by (simp add: dirty_reset_def map_of_map_entries map_contains_def self_entry_def)
qed

lemma cached_self: "cached (self_entry s)"
  by (simp add: cached_def self_entry_def by_cost_def)

lemma refresh_self: "refresh (self_entry s) = self_entry s"
proof -
  have "refresh_minima [(s, 0)] = (0, Some s, RIB_INFINITY, None)"
    by (simp add: refresh_minima_def refresh_step_def RIB_INFINITY_def)
  then show ?thesis by (simp add: refresh_def self_entry_def)
qed

lemma rib_ok_new: "rib_ok (dv_rib_new s)"
  by (simp add: rib_ok_def dv_rib_new_def raw_ok_def hm_ok_def costs_ok_def RIB_INFINITY_def
      self_entry_def cached_def by_cost_def)

lemma rib_okD:
  "rib_ok rib \<Longrightarrow> raw_ok (dr_entries rib)"
  "rib_ok rib \<Longrightarrow> map_of (dr_entries rib) (dr_self rib) = Some (self_entry (dr_self rib))"
  by (simp_all add: rib_ok_def)

lemma rib_ok_entry:
  "rib_ok rib \<Longrightarrow> map_of (dr_entries rib) d = Some e \<Longrightarrow>
     cached e \<and> re_lowest1 e < RIB_INFINITY \<and> costs_ok (re_costs e) \<and> re_destination e = d"
  by (auto simp: rib_ok_def raw_ok_def dest!: map_of_SomeD)

text \<open>A table is well formed when it is pruned after a refresh, and its own entry is intact.\<close>

lemma rib_ok_pruned:
  assumes "raw_ok es" and "map_of es s = Some (self_entry s)"
    and "\<And>n e. dead n e \<longleftrightarrow> dead_route n e \<and> (n = s \<longrightarrow> \<not> keep)"
    and "dr_self rib = s" and "dr_entries rib = prune dead (refresh_all es)"
  shows "rib_ok rib"
proof -
  have ok: "raw_ok (refresh_all es)" by (rule raw_ok_refresh [OF assms(1)])
  then have hm: "hm_ok (refresh_all es)" by (simp add: raw_ok_def)
  have self: "map_of (refresh_all es) s = Some (self_entry s)"
    using assms(2) by (simp add: map_of_map_entries refresh_self)
  have low: "re_lowest1 (self_entry s) < RIB_INFINITY" by (simp add: self_entry_def RIB_INFINITY_def)
  have "cached e \<and> re_lowest1 e < RIB_INFINITY" if "(n, e) \<in> set (prune dead (refresh_all es))" for n e
  proof -
    have mem: "(n, e) \<in> set (refresh_all es)" and alive: "\<not> dead n e"
      using that by (auto simp: prune_filter [OF hm])
    from mem have "cached e" using assms(1) cached_refresh by (auto simp: raw_ok_def)
    moreover have "re_lowest1 e < RIB_INFINITY"
    proof (cases "n = s")
      case True
      have "e = self_entry s" using mem self True hm.mem_iff [OF hm] by force
      then show ?thesis using low by simp
    qed (use alive assms(3) in \<open>simp add: not_le\<close>)
    ultimately show ?thesis ..
  qed
  moreover have "map_of (prune dead (refresh_all es)) s = Some (self_entry s)"
    using self low assms(3) by (simp add: map_of_prune [OF hm] not_le)
  ultimately show ?thesis
    using raw_ok_prune [OF ok] assms(4,5) by (auto simp: rib_ok_def)
qed

lemma rib_ok_apply:
  assumes "rib_ok rib" and "peer \<noteq> dr_self rib"
  shows "rib_ok (snd (apply_advertisement peer adv rib))"
  by (rule rib_ok_pruned [where keep = False, OF raw_ok_applied [OF rib_okD(1) [OF assms(1)]]
        map_of_self_applied [OF rib_okD [OF assms(1)] assms(2)]])
    (simp_all add: apply_advertisement_eq)

lemma rib_ok_remove:
  assumes "rib_ok rib" and "nb \<noteq> dr_self rib"
  shows "rib_ok (snd (remove_neighbor nb rib))"
proof (cases "nb \<in> dr_neighbors rib")
  case True
  have "map_of (dropped_rows nb (dr_entries rib)) (dr_self rib) = Some (self_entry (dr_self rib))"
    using rib_okD(2) [OF assms(1)] assms(2)
    by (simp add: map_of_map_entries self_entry_def map_delete_def)
  then show ?thesis
    by (rule rib_ok_pruned [where keep = True, OF raw_ok_dropped [OF rib_okD(1) [OF assms(1)]]])
      (use True in \<open>auto simp: remove_neighbor_eq\<close>)
qed (simp add: remove_neighbor_eq assms(1))

text \<open>The tables a router can reach; its sync layer never hands it its own advertisement.\<close>

inductive dv_reach :: "'n::linorder \<Rightarrow> 'n dv_rib \<Rightarrow> bool" for s where
  reach_new: "dv_reach s (dv_rib_new s)"
| reach_apply: "dv_reach s rib \<Longrightarrow> peer \<noteq> s \<Longrightarrow> dv_reach s (snd (apply_advertisement peer adv rib))"
| reach_remove: "dv_reach s rib \<Longrightarrow> nb \<noteq> s \<Longrightarrow> dv_reach s (snd (remove_neighbor nb rib))"

lemma dv_reach_ok: "dv_reach s rib \<Longrightarrow> rib_ok rib \<and> dr_self rib = s"
proof (induction rule: dv_reach.induct)
  case (reach_apply rib peer adv)
  then show ?case using rib_ok_apply [of rib peer adv] by (simp add: apply_advertisement_eq)
next
  case (reach_remove rib nb)
  then show ?case using rib_ok_remove [of rib nb] by (simp add: remove_neighbor_eq)
qed (simp add: rib_ok_new, simp add: dv_rib_new_def)

end
