(* ===== verification/Dv_Exchange.thy ===== *)
theory Dv_Exchange
  imports Dv_Routes
begin

text \<open>
  The properties of the distance-vector RIB over the tables a router can reach: the best route,
  the effect of an update on the costs, the changes it reports, the advertisement it produces
  and what a neighbour learns from it.
\<close>

section \<open>Changes\<close>

lemma rib_changes_mem:
  assumes "hm_ok es'"
  shows "ch \<in> set (rib_changes (old_bests es) es') \<longleftrightarrow>
    rc_old_best ch = Option.bind (map_of es (rc_destination ch)) best_route_of
    \<and> rc_new_best ch = Option.bind (map_of es' (rc_destination ch)) best_route_of
    \<and> rc_old_best ch \<noteq> rc_new_best ch \<and> map_of es' (rc_destination ch) \<noteq> None"
proof -
  have olds: "map_of (old_bests es) d = map_option best_route_of (map_of es d)" for d
    by (simp add: old_bests_def map_of_map_entries)
  have new: "(if re_lowest1 e < RIB_INFINITY then best_route_of e else None) = best_route_of e"
    for e :: "'a rib_entry" by (simp add: best_route_of_def not_less)
  have old: "(case map_option best_route_of x of None \<Rightarrow> None | Some b \<Rightarrow> b) = Option.bind x best_route_of"
    for x :: "'a rib_entry option" by (cases x) simp_all
  have "ch \<in> set (rib_changes (old_bests es) es') \<longleftrightarrow>
      (\<exists>n e. (n, e) \<in> set es' \<and> ch = \<lparr>rc_destination = n, rc_old_best = Option.bind (map_of es n) best_route_of,
        rc_new_best = best_route_of e\<rparr> \<and> Option.bind (map_of es n) best_route_of \<noteq> best_route_of e)"
    unfolding rib_changes_def Let_def olds new old by (auto split: if_splits)
  also have "\<dots> \<longleftrightarrow> (\<exists>e. map_of es' (rc_destination ch) = Some e
      \<and> rc_old_best ch = Option.bind (map_of es (rc_destination ch)) best_route_of
      \<and> rc_new_best ch = best_route_of e \<and> rc_old_best ch \<noteq> rc_new_best ch)"
    unfolding hm.mem_iff [OF assms] by (cases ch) auto
  finally show ?thesis by auto
qed

lemma rib_changes_distinct:
  assumes "hm_ok es'"
  shows "distinct (map rc_destination (rib_changes olds es'))"
proof -
  have "distinct (map rc_destination (rib_changes olds es')) \<and>
      set (map rc_destination (rib_changes olds es')) \<subseteq> fst ` set es'"
    using assms unfolding hm_ok_def
    by (induction es') (auto simp: rib_changes_def Let_def image_iff subset_iff)
  then show ?thesis ..
qed

lemma best_route_pruned:
  assumes "hm_ok es" and "\<And>n e. dead n e \<Longrightarrow> RIB_INFINITY \<le> re_lowest1 e"
  shows "Option.bind (map_of (prune dead es) d) best_route_of = Option.bind (map_of es d) best_route_of"
  using assms(2) by (auto simp: map_of_prune [OF assms(1)] best_route_of_def split: option.split)

lemma keys_kept:
  "map_of (dirty_reset peer es) d \<noteq> None \<longleftrightarrow> map_of es d \<noteq> None"
  by (simp add: dirty_reset_def map_of_map_entries)

lemma keys_applied:
  assumes "raw_ok es" and "map_of es d \<noteq> None"
  shows "map_of (fold (apply_row s peer) adv es) d \<noteq> None"
  using assms
proof (induction adv arbitrary: es)
  case (Cons row adv)
  have "map_of (apply_row s peer row es) d \<noteq> None"
    using Cons.prems hm.get_insert [of es]
    by (auto simp: apply_row_def Let_def raw_ok_def split: option.split)
  then show ?case using Cons.IH [OF raw_ok_row [OF Cons.prems(1)]] by simp
qed simp

lemma changes_exact:
  assumes "hm_ok es'" and "\<And>d. map_of es d \<noteq> None \<Longrightarrow> map_of es' d \<noteq> None"
    and "\<And>n e. dead n e \<Longrightarrow> RIB_INFINITY \<le> re_lowest1 e"
  shows "ch \<in> set (rib_changes (old_bests es) es') \<longleftrightarrow>
    rc_old_best ch = Option.bind (map_of es (rc_destination ch)) best_route_of
    \<and> rc_new_best ch = Option.bind (map_of (prune dead es') (rc_destination ch)) best_route_of
    \<and> rc_old_best ch \<noteq> rc_new_best ch"
proof -
  have "Option.bind (map_of (prune dead es') d) best_route_of = Option.bind (map_of es' d) best_route_of" for d
    by (rule best_route_pruned [OF assms(1,3)])
  then show ?thesis
    unfolding rib_changes_mem [OF assms(1)]
    using assms(2) [of "rc_destination ch"]
    by (cases "map_of es' (rc_destination ch)"; cases "map_of es (rc_destination ch)";
        cases "rc_new_best ch") auto
qed

section \<open>Advertisements\<close>

definition row_of :: "'n rib_entry \<Rightarrow> 'n adv_entry" where
  "row_of e = \<lparr>ae_destination = re_destination e, ae_next_hop = the (re_next_hop1 e),
     ae_cost = ucast (re_lowest1 e), ae_other_cost = ucast (re_lowest2 e)\<rparr>"

lemma adv_rows_total:
  "(\<And>e. e \<in> set es \<Longrightarrow> re_lowest1 e < RIB_INFINITY \<and> re_next_hop1 e \<noteq> None) \<Longrightarrow>
     adv_rows es = Some (map row_of es)"
  by (induction es) (force simp: row_of_def)+

lemma cached_hop: "cached e \<Longrightarrow> costs_ok (re_costs e) \<Longrightarrow> re_lowest1 e < RIB_INFINITY \<Longrightarrow> re_next_hop1 e \<noteq> None"
  by (cases rule: cached_cases [of e]) auto

lemma produced:
  assumes "rib_ok rib"
  shows "produce_advertisement rib = Some (map row_of (rib_snapshot rib))"
  unfolding produce_advertisement_def rib_snapshot_def
proof (rule adv_rows_total)
  fix e assume "e \<in> set (sort_key re_destination (map snd (dr_entries rib)))"
  then obtain n where "(n, e) \<in> set (dr_entries rib)" by auto
  then have "map_of (dr_entries rib) n = Some e"
    using rib_okD(1) [OF assms] by (simp add: raw_ok_def hm.mem_iff)
  from rib_ok_entry [OF assms this] show "re_lowest1 e < RIB_INFINITY \<and> re_next_hop1 e \<noteq> None"
    using cached_hop by blast
qed

lemma snapshot_mem:
  assumes "rib_ok rib"
  shows "e \<in> set (rib_snapshot rib) \<longleftrightarrow> map_of (dr_entries rib) (re_destination e) = Some e"
proof -
  have raw: "hm_ok (dr_entries rib)" using rib_okD(1) [OF assms] by (simp add: raw_ok_def)
  have "e \<in> set (rib_snapshot rib) \<longleftrightarrow> (\<exists>n. (n, e) \<in> set (dr_entries rib))"
    by (force simp: rib_snapshot_def)
  also have "\<dots> \<longleftrightarrow> (re_destination e, e) \<in> set (dr_entries rib)"
    using rib_okD(1) [OF assms] by (auto simp: raw_ok_def)
  finally show ?thesis unfolding hm.mem_iff [OF raw] .
qed

lemma snapshot_destinations:
  assumes "rib_ok rib"
  shows "sorted_wrt (<) (map re_destination (rib_snapshot rib))"
proof -
  have eq: "map re_destination (map snd (dr_entries rib)) = map fst (dr_entries rib)"
    using rib_okD(1) [OF assms] by (auto simp: raw_ok_def)
  have "distinct (map re_destination (map snd (dr_entries rib)))"
    unfolding eq using rib_okD(1) [OF assms] by (simp add: raw_ok_def hm_ok_def)
  moreover have "mset (map re_destination (rib_snapshot rib)) =
      mset (map re_destination (map snd (dr_entries rib)))"
    by (simp add: rib_snapshot_def multiset.map_comp)
  ultimately have "distinct (map re_destination (rib_snapshot rib))"
    by (metis mset_eq_imp_distinct_iff)
  then show ?thesis
    by (simp add: strict_sorted_iff rib_snapshot_def)
qed

lemma ucast_u32_back: "ucast (ucast x :: u64) = (x :: u32)"
  by (rule bit_word_eqI) (simp add: bit_unsigned_iff bit_imp_le_length)

lemma ucast_u32_inj: "(ucast x :: u64) = ucast y \<Longrightarrow> x = (y :: u32)"
  by (metis ucast_u32_back)

lemma received_of_row:
  assumes "re_next_hop1 e \<noteq> None"
  shows "compute_received_cost (row_of e) p =
    (if split_cost p e < RIB_INFINITY \<and> split_cost p e + LOCAL_COST < RIB_INFINITY
     then Some (split_cost p e + LOCAL_COST) else None)"
proof -
  have wide: "unat (ucast x :: u64) = unat x" for x :: u32
  proof -
    have "unat x < 2 ^ 32" using unsigned_less [of x, where 'a = nat] by simp
    then show ?thesis by (simp add: unsigned_ucast_eq take_bit_nat_eq_self)
  qed
  have le: "(ucast RIB_INFINITY :: u64) \<le> ucast x \<longleftrightarrow> RIB_INFINITY \<le> x" for x :: u32
    by (simp only: word_le_nat_alt wide)
  have add: "u32_saturating_add x LOCAL_COST = x + LOCAL_COST" if "x < RIB_INFINITY" for x
  proof -
    have "x \<le> x + 1" using that
      by (simp add: word_le_nat_alt word_less_nat_alt RIB_INFINITY_def unat_word_ariths)
    then show ?thesis by (auto simp: u32_saturating_add_def LOCAL_COST_def dest: leD)
  qed
  have hop: "the (re_next_hop1 e) = p \<longleftrightarrow> re_next_hop1 e = Some p" using assms by auto
  show ?thesis
    by (auto simp: compute_received_cost_def row_of_def split_cost_def hop le ucast_u32_back add not_le Let_def
        dest: leD)
qed

lemma adv_fold:
  assumes "distinct (map ae_destination adv)"
  shows "fold (\<lambda>row acc. if ae_destination row = d \<and> compute_received_cost row s \<noteq> None
             then compute_received_cost row s else acc) adv acc =
    (case map_of (map (\<lambda>r. (ae_destination r, r)) adv) d of
       None \<Rightarrow> acc
     | Some row \<Rightarrow> if compute_received_cost row s \<noteq> None then compute_received_cost row s else acc)"
  using assms
proof (induction adv arbitrary: acc)
  case (Cons row adv)
  have "ae_destination row = d \<Longrightarrow> map_of (map (\<lambda>r. (ae_destination r, r)) adv) d = None"
    using Cons.prems by (auto simp: map_of_eq_None_iff)
  then show ?case using Cons.IH Cons.prems by (auto split: option.split)
qed simp

lemma produced_rows:
  assumes "rib_ok rib"
  shows "sorted_wrt (<) (map ae_destination (map row_of (rib_snapshot rib)))"
  using snapshot_destinations [OF assms] by (simp add: comp_def row_of_def)

lemma best_route_reach:
  assumes "rib_ok rib"
  shows "least_route (reach_cost rib d) (best_route rib d)"
proof (cases "map_of (dr_entries rib) d")
  case None
  then show ?thesis
    by (simp add: least_route_def best_route_def reach_cost_def cost_of_def)
next
  case (Some e)
  then have "reach_cost rib d = (\<lambda>h. fin_cost (map_of (re_costs e) h))"
    by (simp add: fun_eq_iff reach_cost_def cost_of_def)
  then show ?thesis
    using cached_least [of e] rib_ok_entry [OF assms Some] Some by (simp add: best_route_def)
qed

lemma offered_cost:
  assumes ok: "rib_ok rib" and "d \<noteq> p"
  obtains r where "least_route ((reach_cost rib d)(p := None)) r"
    and "adv_cost p (map row_of (rib_snapshot rib)) d =
      Option.bind r (\<lambda>b. if br_cost b + LOCAL_COST < RIB_INFINITY then Some (br_cost b + LOCAL_COST) else None)"
proof -
  let ?adv = "map row_of (rib_snapshot rib)"
  have dist: "distinct (map ae_destination ?adv)"
    using produced_rows [OF ok] by (simp only: strict_sorted_iff)
  have adv: "adv_cost p ?adv d =
      (case map_of (map (\<lambda>r. (ae_destination r, r)) ?adv) d of
         None \<Rightarrow> None | Some row \<Rightarrow> compute_received_cost row p)"
    unfolding adv_cost_def adv_fold [OF dist] using assms(2) by (auto split: option.split)
  show ?thesis
  proof (cases "map_of (dr_entries rib) d")
    case None
    have "d \<notin> ae_destination ` set ?adv"
      using None snapshot_mem [OF ok] by (force simp: row_of_def)
    then have "map_of (map (\<lambda>r. (ae_destination r, r)) ?adv) d = None"
      by (auto simp: map_of_eq_None_iff)
    moreover have "least_route ((reach_cost rib d)(p := None)) None"
      using None by (simp add: least_route_def reach_cost_def cost_of_def)
    ultimately show ?thesis using that [of None] adv by simp
  next
    case (Some e)
    note e = rib_ok_entry [OF ok Some]
    have "e \<in> set (rib_snapshot rib)" using Some e snapshot_mem [OF ok] by simp
    then have "(d, row_of e) \<in> set (map (\<lambda>r. (ae_destination r, r)) ?adv)"
      using e by (force simp: row_of_def)
    then have row: "map_of (map (\<lambda>r. (ae_destination r, r)) ?adv) d = Some (row_of e)"
      by (rule map_of_is_SomeI [rotated]) (use dist in \<open>simp add: comp_def\<close>)
    have f: "reach_cost rib d = (\<lambda>h. fin_cost (map_of (re_costs e) h))"
      using Some by (simp add: fun_eq_iff reach_cost_def cost_of_def)
    have hop: "re_next_hop1 e \<noteq> None" using e cached_hop by blast
    have adv_e: "adv_cost p ?adv d = compute_received_cost (row_of e) p"
      unfolding adv row by simp
    obtain r where r: "least_route ((reach_cost rib d)(p := None)) r"
      "case r of None \<Rightarrow> RIB_INFINITY \<le> split_cost p e
         | Some b \<Rightarrow> split_cost p e = br_cost b \<and> br_cost b < RIB_INFINITY"
      using split_least [of e p] e unfolding f by blast
    show ?thesis
      by (rule that [OF r(1)])
        (use r(2) in \<open>auto simp: adv_e received_of_row [OF hop] split: option.splits dest: leD\<close>)
  qed
qed

text \<open>What a neighbour records when it applies a produced advertisement, with poisoned reverse.\<close>

lemma exchange_least:
  assumes ok: "rib_ok rib" and ok': "rib_ok rib'" and "d \<noteq> dr_self rib'"
    and "produce_advertisement rib = Some adv"
  obtains r where "least_route ((reach_cost rib d)(dr_self rib' := None)) r"
    and "reach_cost (snd (apply_advertisement s adv rib')) d s =
        Option.bind r (\<lambda>b. if br_cost b + 1 < 16 then Some (br_cost b + 1) else None)"
proof -
  have adv: "adv = map row_of (rib_snapshot rib)" using produced [OF ok] assms(4) by simp
  obtain r where "least_route ((reach_cost rib d)(dr_self rib' := None)) r"
    and "adv_cost (dr_self rib') adv d =
      Option.bind r (\<lambda>b. if br_cost b + LOCAL_COST < RIB_INFINITY then Some (br_cost b + LOCAL_COST) else None)"
    unfolding adv using offered_cost [OF ok assms(3)] by blast
  then show thesis
    using reach_cost_apply [OF rib_okD(1) [OF ok'], of s adv d s]
    unfolding LOCAL_COST_def RIB_INFINITY_def by (intro that) auto
qed

section \<open>Properties\<close>

text \<open>
  Whatever advertisements and neighbour losses a router has processed, in whatever order its
  maps iterate, the best route it reports for a destination is the least finite cost over its
  neighbours, ties broken by the neighbour's name, and \<open>None\<close> exactly when no neighbour
  reaches it; the route to the router itself is always itself at cost 0.
\<close>

theorem best_route_is_least:
  assumes "dv_reach s rib"
  shows "least_route (reach_cost rib d) (best_route rib d)
    \<and> best_route rib s = Some \<lparr>br_neighbor = s, br_cost = 0\<rparr>"
proof -
  have ok: "rib_ok rib" and s: "dr_self rib = s" using dv_reach_ok [OF assms] by auto
  have "map_of (dr_entries rib) s = Some (self_entry s)" using rib_okD(2) [OF ok] s by simp
  then show ?thesis
    using best_route_reach [OF ok]
    by (simp add: best_route_def best_route_of_def self_entry_def RIB_INFINITY_def)
qed

definition example_adv :: "nat adv_entry list" where
  "example_adv =
     [\<lparr>ae_destination = 3, ae_next_hop = 9, ae_cost = 4, ae_other_cost = 16\<rparr>,
      \<lparr>ae_destination = 4, ae_next_hop = 1, ae_cost = 1, ae_other_cost = 6\<rparr>]"

definition example_rib :: "nat dv_rib" where
  "example_rib = snd (apply_advertisement 2 example_adv (dv_rib_new 1))"

lemma example_reach: "dv_reach 1 example_rib"
  unfolding example_rib_def by (rule reach_apply [OF reach_new]) simp

theorem best_route_is_least_witness:
  "least_route (reach_cost example_rib 4) (best_route example_rib 4)
    \<and> best_route example_rib 4 = Some \<lparr>br_neighbor = 2, br_cost = 7\<rparr>"
proof -
  have "best_route example_rib 4 = Some \<lparr>br_neighbor = 2, br_cost = 7\<rparr>" by code_simp
  then show ?thesis using best_route_is_least [OF example_reach, of 4] by simp
qed

text \<open>
  An advertisement replaces everything the router believed over its sender and nothing
  else: afterwards the cost of a destination over the sender is what the advertisement offers
  for it (none when it is not mentioned), and the cost over any other neighbour is unchanged.
  Losing a neighbour forgets exactly the costs over it.
\<close>

theorem advertisement_replaces_costs:
  assumes "dv_reach s rib"
  shows "reach_cost (snd (apply_advertisement peer adv rib)) d h =
      (if h = peer then adv_cost s adv d else reach_cost rib d h)
    \<and> reach_cost (snd (remove_neighbor nb rib)) d h =
      (if h = nb \<and> nb \<in> dr_neighbors rib then None else reach_cost rib d h)"
proof -
  have raw: "raw_ok (dr_entries rib)" and s: "dr_self rib = s"
    using dv_reach_ok [OF assms] rib_okD(1) by auto
  show ?thesis
    unfolding reach_cost_apply [OF raw] s
    using reach_cost_remove [OF raw, of nb d h]
    by (cases "nb \<in> dr_neighbors rib") (simp_all add: remove_neighbor_eq)
qed

theorem advertisement_replaces_costs_witness:
  "reach_cost (snd (apply_advertisement 2 [] example_rib)) 3 2 = adv_cost (1::nat) [] 3
    \<and> reach_cost example_rib 3 2 = Some 5"
proof -
  have "reach_cost example_rib 3 2 = Some 5" by code_simp
  then show ?thesis
    using advertisement_replaces_costs [OF example_reach, of 2 "[]" 3 2 7] by simp
qed

text \<open>
  The changes an update returns are exact: one per destination, and a destination is
  listed, with its old and its new best route, exactly when the two differ.
\<close>

theorem changes_reported_exactly:
  assumes "dv_reach s rib"
    and "update = apply_advertisement peer adv rib \<or> update = remove_neighbor peer rib"
  shows "distinct (map rc_destination (fst update))
    \<and> (ch \<in> set (fst update) \<longleftrightarrow>
        rc_old_best ch = best_route rib (rc_destination ch)
        \<and> rc_new_best ch = best_route (snd update) (rc_destination ch)
        \<and> rc_old_best ch \<noteq> rc_new_best ch)"
proof -
  have raw: "raw_ok (dr_entries rib)" using dv_reach_ok [OF assms(1)] rib_okD(1) by blast
  have applied: "hm_ok (refresh_all (applied_rows peer adv rib))"
    using raw_ok_refresh [OF raw_ok_applied [OF raw]] by (simp add: raw_ok_def)
  have dropped: "hm_ok (refresh_all (dropped_rows peer (dr_entries rib)))"
    using raw_ok_refresh [OF raw_ok_dropped [OF raw]] by (simp add: raw_ok_def del: map_map)
  have keys: "map_of (refresh_all (applied_rows peer adv rib)) d \<noteq> None"
    if "map_of (dr_entries rib) d \<noteq> None" for d
  proof -
    have "map_of (dirty_reset peer (dr_entries rib)) d \<noteq> None" using keys_kept that by metis
    from keys_applied [OF raw_ok_dirty [OF raw] this] show ?thesis by (simp add: map_of_map_entries)
  qed
  have keys': "map_of (refresh_all (dropped_rows peer (dr_entries rib))) d \<noteq> None"
    if "map_of (dr_entries rib) d \<noteq> None" for d
    using that by (simp add: map_of_map_entries del: map_map)
  from assms(2) show ?thesis
  proof
    assume eq: "update = apply_advertisement peer adv rib"
    show ?thesis
      unfolding eq apply_advertisement_eq best_route_def
      using changes_exact [where dead = dead_route and ch = ch, OF applied keys] rib_changes_distinct [OF applied]
      by simp
  next
    assume eq: "update = remove_neighbor peer rib"
    show ?thesis
    proof (cases "peer \<in> dr_neighbors rib")
      case True
      then show ?thesis
        unfolding eq remove_neighbor_eq best_route_def
        using changes_exact [where dead = "\<lambda>n e. dead_route n e \<and> n \<noteq> dr_self rib" and ch = ch, OF dropped keys']
          rib_changes_distinct [OF dropped]
        by (simp del: map_map)
    qed (use eq in \<open>auto simp: remove_neighbor_eq\<close>)
  qed
qed

theorem changes_reported_exactly_witness:
  "fst (remove_neighbor 2 example_rib) =
     [\<lparr>rc_destination = 3, rc_old_best = Some \<lparr>br_neighbor = 2, br_cost = 5\<rparr>, rc_new_best = None\<rparr>,
      \<lparr>rc_destination = 4, rc_old_best = Some \<lparr>br_neighbor = 2, br_cost = 7\<rparr>, rc_new_best = None\<rparr>]
    \<and> best_route (snd (remove_neighbor 2 example_rib)) 3 = None"
proof -
  have eq: "fst (remove_neighbor 2 example_rib) =
     [\<lparr>rc_destination = 3, rc_old_best = Some \<lparr>br_neighbor = 2, br_cost = 5\<rparr>, rc_new_best = None\<rparr>,
      \<lparr>rc_destination = 4, rc_old_best = Some \<lparr>br_neighbor = 2, br_cost = 7\<rparr>, rc_new_best = None\<rparr>]"
    by code_simp
  show ?thesis
    using eq changes_reported_exactly [OF example_reach,
        of "remove_neighbor 2 example_rib" 2 "[]"
          "\<lparr>rc_destination = 3, rc_old_best = Some \<lparr>br_neighbor = 2, br_cost = 5\<rparr>, rc_new_best = None\<rparr>"]
    by simp
qed

text \<open>
  The advertisement a router produces exists (the \<open>expect\<close> on the next hop is never hit),
  is strictly sorted by destination, and has a row for a destination exactly when the router
  has a route to it, naming the best next hop and its cost; one of the rows is the router
  itself at cost 0.
\<close>

theorem advertisement_is_the_table:
  assumes "dv_reach s rib"
  shows "\<exists>adv. produce_advertisement rib = Some adv
    \<and> sorted_wrt (<) (map ae_destination adv)
    \<and> (\<forall>d h c. (\<exists>row. row \<in> set adv \<and> ae_destination row = d \<and> ae_next_hop row = h \<and> ae_cost row = ucast c)
          \<longleftrightarrow> best_route rib d = Some \<lparr>br_neighbor = h, br_cost = c\<rparr>)
    \<and> \<lparr>ae_destination = s, ae_next_hop = s, ae_cost = 0, ae_other_cost = 16\<rparr> \<in> set adv"
proof -
  have ok: "rib_ok rib" and s: "dr_self rib = s" using dv_reach_ok [OF assms] by auto
  have wide: "(ucast c :: u64) = ucast c' \<longleftrightarrow> c = c'" for c c' :: u32
    by (auto dest: ucast_u32_inj)
  have best: "best_route rib (re_destination e) =
      Some \<lparr>br_neighbor = the (re_next_hop1 e), br_cost = re_lowest1 e\<rparr>"
    if e: "e \<in> set (rib_snapshot rib)" for e
  proof -
    have m: "map_of (dr_entries rib) (re_destination e) = Some e"
      using e snapshot_mem [OF ok] by simp
    note fields = rib_ok_entry [OF ok m]
    have "re_next_hop1 e \<noteq> None" using fields cached_hop by blast
    then show ?thesis using m fields by (auto simp: best_route_def best_route_of_def dest: leD)
  qed
  have "(\<exists>row. row \<in> set (map row_of (rib_snapshot rib)) \<and> ae_destination row = d \<and> ae_next_hop row = h \<and> ae_cost row = ucast c)
          \<longleftrightarrow> best_route rib d = Some \<lparr>br_neighbor = h, br_cost = c\<rparr>" for d h c
  proof
    assume "best_route rib d = Some \<lparr>br_neighbor = h, br_cost = c\<rparr>"
    then obtain e where m: "map_of (dr_entries rib) d = Some e"
      and b: "best_route_of e = Some \<lparr>br_neighbor = h, br_cost = c\<rparr>"
      by (auto simp: best_route_def bind_eq_Some_conv)
    have d: "re_destination e = d" using rib_ok_entry [OF ok m] by simp
    have "e \<in> set (rib_snapshot rib)" using m d snapshot_mem [OF ok] by simp
    moreover have "ae_next_hop (row_of e) = h \<and> ae_cost (row_of e) = ucast c"
      using b by (auto simp: best_route_of_def row_of_def split: if_splits)
    ultimately show "\<exists>row. row \<in> set (map row_of (rib_snapshot rib)) \<and> ae_destination row = d
        \<and> ae_next_hop row = h \<and> ae_cost row = ucast c"
      using d by (intro exI [of _ "row_of e"]) (auto simp: row_of_def)
  qed (auto simp: row_of_def best wide)
  moreover have "map_of (dr_entries rib) s = Some (self_entry s)" using rib_okD(2) [OF ok] s by simp
  then have "self_entry s \<in> set (rib_snapshot rib)"
    using snapshot_mem [OF ok] by (simp add: self_entry_def)
  then have "row_of (self_entry s) \<in> set (map row_of (rib_snapshot rib))" by simp
  then have "\<lparr>ae_destination = s, ae_next_hop = s, ae_cost = 0, ae_other_cost = 16\<rparr>
      \<in> set (map row_of (rib_snapshot rib))"
    by (simp add: row_of_def self_entry_def RIB_INFINITY_def)
  ultimately show ?thesis
    using produced [OF ok] produced_rows [OF ok] by blast
qed

theorem advertisement_is_the_table_witness:
  "\<exists>adv. produce_advertisement example_rib = Some adv
    \<and> sorted_wrt (<) (map ae_destination adv)
    \<and> \<lparr>ae_destination = 1, ae_next_hop = 1, ae_cost = 0, ae_other_cost = 16\<rparr> \<in> set adv"
  using advertisement_is_the_table [OF example_reach] by blast

text \<open>
  Split horizon with poisoned reverse, end to end: when \<open>p\<close> applies the advertisement of
  its neighbour \<open>s\<close>, the cost it records for a destination \<open>d\<close> over \<open>s\<close> is one more than the least
  cost \<open>s\<close> has over its neighbours other than \<open>p\<close> (none when that is unreachable). A route of \<open>s\<close>
  that runs through \<open>p\<close> is never offered back to \<open>p\<close>, so two routers do not form a loop.
\<close>

theorem split_horizon:
  assumes "dv_reach s rib" and "dv_reach p rib'" and "d \<noteq> p"
    and "produce_advertisement rib = Some adv"
  shows "\<exists>r. least_route ((reach_cost rib d)(p := None)) r
    \<and> reach_cost (snd (apply_advertisement s adv rib')) d s =
        Option.bind r (\<lambda>b. if br_cost b + 1 < 16 then Some (br_cost b + 1) else None)"
proof -
  have ok: "rib_ok rib" and ok': "rib_ok rib'" and p: "dr_self rib' = p"
    using dv_reach_ok assms(1,2) by auto
  show ?thesis by (rule exchange_least [OF ok ok' _ assms(4), of d s]) (use assms(3) p in auto)
qed

theorem split_horizon_witness:
  "\<exists>adv r. produce_advertisement example_rib = Some adv
    \<and> least_route ((reach_cost example_rib 3)(2 := None)) r
    \<and> reach_cost (snd (apply_advertisement 1 adv (dv_rib_new 2))) 3 1 =
        Option.bind r (\<lambda>b. if br_cost b + 1 < 16 then Some (br_cost b + 1) else None)"
proof -
  obtain adv where "produce_advertisement example_rib = Some adv"
    using produced dv_reach_ok [OF example_reach] by blast
  then show ?thesis
    using split_horizon [OF example_reach reach_new [of 2], of 3 adv] by auto
qed

end
