(* ===== verification/Dv_Prefix.thy ===== *)
theory Dv_Prefix
  imports Dv_Exchange
begin

text \<open>
  \<open>crates/routing/ndn-routing/src/protocols/dv/prefix.rs\<close> and \<open>fib.rs\<close>: the global prefix
  table, the operation lists that replicate it, and the join of the RIB, the table and the face
  bindings into FIB rows.
\<close>

section \<open>Operation lists (\<open>dv/tlv.rs\<close>)\<close>

record 'n prefix_op_add =
  pa_name :: 'n
  pa_cost :: u64

record 'n prefix_op_remove =
  pr_name :: 'n

record 'n prefix_op_list =
  po_exit_router :: 'n
  po_reset :: bool
  po_adds :: "'n prefix_op_add list"
  po_removes :: "'n prefix_op_remove list"

section \<open>The table\<close>

record 'n prefix_change =
  pc_router :: 'n
  pc_prefix :: 'n
  pc_old_cost :: "u32 option"
  pc_new_cost :: "u32 option"

type_synonym 'n prefix_row = "('n \<times> u32) list"

record 'n prefix_table =
  pt_self_router :: 'n
  pt_local_prefixes :: "'n prefix_row"
  pt_remote :: "('n \<times> 'n prefix_row) list"

definition prefix_table_new :: "'n \<Rightarrow> 'n prefix_table" where
  "prefix_table_new self_router =
     \<lparr>pt_self_router = self_router, pt_local_prefixes = [], pt_remote = []\<rparr>"

definition reset_row ::
    "'n \<Rightarrow> bool \<Rightarrow> 'n prefix_row \<Rightarrow> 'n prefix_change list \<times> 'n prefix_row" where
  "reset_row router reset row =
     (if reset then
        (map (\<lambda>(prefix, old_cost). \<lparr>pc_router = router, pc_prefix = prefix,
               pc_old_cost = Some old_cost, pc_new_cost = None\<rparr>) row, [])
      else ([], row))"

definition add_step ::
    "'n \<Rightarrow> 'n prefix_op_add \<Rightarrow> 'n prefix_change list \<times> 'n prefix_row
     \<Rightarrow> 'n prefix_change list \<times> 'n prefix_row" where
  "add_step router add st =
     (let (changes, row) = st;
          old = map_of row (pa_name add);
          row = hm_insert (pa_name add) (ucast (pa_cost add)) row
      in (if old \<noteq> Some (ucast (pa_cost add))
          then changes @ [\<lparr>pc_router = router, pc_prefix = pa_name add, pc_old_cost = old,
                           pc_new_cost = Some (ucast (pa_cost add))\<rparr>]
          else changes, row))"

definition remove_step ::
    "'n \<Rightarrow> 'n prefix_op_remove \<Rightarrow> 'n prefix_change list \<times> 'n prefix_row
     \<Rightarrow> 'n prefix_change list \<times> 'n prefix_row" where
  "remove_step router rem st =
     (let (changes, row) = st in
      case map_of row (pr_name rem) of
        None \<Rightarrow> (changes, row)
      | Some old \<Rightarrow>
          (changes @ [\<lparr>pc_router = router, pc_prefix = pr_name rem,
                       pc_old_cost = Some old, pc_new_cost = None\<rparr>],
           map_delete (pr_name rem) row))"

definition apply_ops_row ::
    "'n prefix_op_list \<Rightarrow> 'n prefix_row \<Rightarrow> 'n prefix_change list \<times> 'n prefix_row" where
  "apply_ops_row ops row =
     fold (remove_step (po_exit_router ops)) (po_removes ops)
       (fold (add_step (po_exit_router ops)) (po_adds ops)
         (reset_row (po_exit_router ops) (po_reset ops) row))"

definition apply_op_list ::
    "'n prefix_op_list \<Rightarrow> 'n prefix_table \<Rightarrow> 'n prefix_change list \<times> 'n prefix_table" where
  "apply_op_list ops pt =
     (let router = po_exit_router ops in
      if router = pt_self_router pt then ([], pt)
      else
        let row = (case map_of (pt_remote pt) router of Some row \<Rightarrow> row | None \<Rightarrow> []);
            (changes, row) = apply_ops_row ops row;
            remote = hm_insert router row (pt_remote pt)
        in (changes, pt\<lparr>pt_remote := if row = [] then map_delete router remote else remote\<rparr>))"

definition announce_local ::
    "'n \<Rightarrow> u32 \<Rightarrow> 'n prefix_table \<Rightarrow> 'n prefix_op_list option \<times> 'n prefix_table" where
  "announce_local prefix cost pt =
     (if map_of (pt_local_prefixes pt) prefix = Some cost then (None, pt)
      else
        (Some \<lparr>po_exit_router = pt_self_router pt, po_reset = False,
               po_adds = [\<lparr>pa_name = prefix, pa_cost = ucast cost\<rparr>], po_removes = []\<rparr>,
         pt\<lparr>pt_local_prefixes := hm_insert prefix cost (pt_local_prefixes pt)\<rparr>))"

definition withdraw_local ::
    "'n \<Rightarrow> 'n prefix_table \<Rightarrow> 'n prefix_op_list option \<times> 'n prefix_table" where
  "withdraw_local prefix pt =
     (if map_of (pt_local_prefixes pt) prefix = None then (None, pt)
      else
        (Some \<lparr>po_exit_router = pt_self_router pt, po_reset = False, po_adds = [],
               po_removes = [\<lparr>pr_name = prefix\<rparr>]\<rparr>,
         pt\<lparr>pt_local_prefixes := map_delete prefix (pt_local_prefixes pt)\<rparr>))"

definition snap :: "'n::linorder prefix_table \<Rightarrow> 'n prefix_op_list" where
  "snap pt =
     \<lparr>po_exit_router = pt_self_router pt, po_reset = True,
      po_adds = sort_key pa_name
        (map (\<lambda>(name, cost). \<lparr>pa_name = name, pa_cost = ucast cost\<rparr>) (pt_local_prefixes pt)),
      po_removes = []\<rparr>"

definition routers_for_prefix :: "'n::linorder \<Rightarrow> 'n prefix_table \<Rightarrow> ('n \<times> u32) list" where
  "routers_for_prefix prefix pt =
     sort_key fst
       ((case map_of (pt_local_prefixes pt) prefix of
           Some cost \<Rightarrow> [(pt_self_router pt, cost)] | None \<Rightarrow> [])
        @ concat (map (\<lambda>(router, row). case map_of row prefix of
                         Some cost \<Rightarrow> [(router, cost)] | None \<Rightarrow> []) (pt_remote pt)))"

definition prefixes_for_router :: "'n::linorder \<Rightarrow> 'n prefix_table \<Rightarrow> ('n \<times> u32) list" where
  "prefixes_for_router router pt =
     sort_key fst
       (if router = pt_self_router pt then pt_local_prefixes pt
        else case map_of (pt_remote pt) router of Some row \<Rightarrow> row | None \<Rightarrow> [])"

definition routers :: "'n::linorder prefix_table \<Rightarrow> 'n list" where
  "routers pt =
     remdups_adj (sort ((if pt_local_prefixes pt \<noteq> [] then [pt_self_router pt] else [])
       @ map fst (pt_remote pt)))"

section \<open>Rows\<close>

abbreviation row_at :: "'n prefix_table \<Rightarrow> 'n \<Rightarrow> 'n prefix_row" where
  "row_at pt r \<equiv> (case map_of (pt_remote pt) r of Some row \<Rightarrow> row | None \<Rightarrow> [])"

text \<open>The announcements of a router, whether it is this one or another.\<close>

definition announced :: "'n prefix_table \<Rightarrow> 'n \<Rightarrow> 'n \<Rightarrow> u32 option" where
  "announced pt r = map_of (if r = pt_self_router pt then pt_local_prefixes pt else row_at pt r)"

definition pt_ok :: "'n prefix_table \<Rightarrow> bool" where
  "pt_ok pt \<longleftrightarrow> hm_ok (pt_local_prefixes pt) \<and> hm_ok (pt_remote pt)
     \<and> (\<forall>(r, row) \<in> set (pt_remote pt). r \<noteq> pt_self_router pt \<and> hm_ok row \<and> row \<noteq> [])"

text \<open>Each change states the value before and after it, and together they lead from one row to the other.\<close>

primrec change_chain ::
    "'n \<Rightarrow> 'n prefix_change list \<Rightarrow> ('n \<Rightarrow> u32 option) \<Rightarrow> ('n \<Rightarrow> u32 option) \<Rightarrow> bool" where
  "change_chain r [] f g \<longleftrightarrow> f = g"
| "change_chain r (ch # chs) f g \<longleftrightarrow> pc_router ch = r \<and> pc_old_cost ch = f (pc_prefix ch)
     \<and> pc_new_cost ch \<noteq> pc_old_cost ch \<and> change_chain r chs (f(pc_prefix ch := pc_new_cost ch)) g"

lemma change_chain_append:
  "change_chain r (xs @ ys) f h \<longleftrightarrow> (\<exists>g. change_chain r xs f g \<and> change_chain r ys g h)"
  by (induction xs arbitrary: f) auto

definition chained :: "'n \<Rightarrow> ('n \<Rightarrow> u32 option) \<Rightarrow> 'n prefix_change list \<times> 'n prefix_row \<Rightarrow> bool" where
  "chained r f st \<longleftrightarrow> hm_ok (snd st) \<and> change_chain r (fst st) f (map_of (snd st))"

lemma chain_drain:
  assumes "hm_ok row"
  shows "change_chain r (fst (reset_row r True row)) (map_of row) Map.empty"
  using assms unfolding reset_row_def
proof (induction row)
  case (Cons kv row)
  obtain k v where kv: "kv = (k, v)" by fastforce
  have "map_of row k = None"
    using Cons.prems kv by (auto simp: hm_ok_def map_of_eq_None_iff)
  then have drop: "(map_of (kv # row))(k := None) = map_of row"
    using kv by (auto simp: fun_eq_iff)
  show ?case
    using Cons.IH Cons.prems kv drop by (simp add: hm_ok_def del: map_of.simps)
qed simp

lemma chained_reset: "hm_ok row \<Longrightarrow> chained r (map_of row) (reset_row r b row)"
  using chain_drain [of row r] by (auto simp: chained_def reset_row_def hm.ok_empty)

lemma chained_add: "chained r f st \<Longrightarrow> chained r f (add_step r a st)"
  by (cases st) (auto simp: chained_def add_step_def Let_def change_chain_append hm.ok_insert hm.get_insert
      fun_upd_idem)

lemma chained_remove: "chained r f st \<Longrightarrow> chained r f (remove_step r a st)"
  by (cases st) (auto simp: chained_def remove_step_def change_chain_append hm.ok_remove map_of_delete
      split: option.split)

lemma chained_ops:
  assumes "hm_ok row"
  shows "chained (po_exit_router ops) (map_of row) (apply_ops_row ops row)"
proof -
  let ?r = "po_exit_router ops"
  have "chained ?r f (fold (add_step ?r) as st)" if "chained ?r f st" for f as st
    using that by (induction as arbitrary: st) (simp_all add: chained_add)
  moreover have "chained ?r f (fold (remove_step ?r) as st)" if "chained ?r f st" for f as st
    using that by (induction as arbitrary: st) (simp_all add: chained_remove)
  ultimately show ?thesis
    using chained_reset [OF assms] unfolding apply_ops_row_def by blast
qed

section \<open>What an operation list does to a row\<close>

definition op_effect :: "'n prefix_op_list \<Rightarrow> ('n \<Rightarrow> u32 option) \<Rightarrow> 'n \<Rightarrow> u32 option" where
  "op_effect ops f =
     fold (\<lambda>r g. g(pr_name r := None)) (po_removes ops)
       (fold (\<lambda>a g. g(pa_name a \<mapsto> ucast (pa_cost a))) (po_adds ops)
         (if po_reset ops then Map.empty else f))"

lemma add_steps:
  "hm_ok (snd st) \<Longrightarrow> hm_ok (snd (fold (add_step r) as st)) \<and>
     map_of (snd (fold (add_step r) as st)) =
       fold (\<lambda>a g. g(pa_name a \<mapsto> ucast (pa_cost a))) as (map_of (snd st))"
proof (induction as arbitrary: st)
  case (Cons a as)
  have "snd (add_step r a st) = hm_insert (pa_name a) (ucast (pa_cost a)) (snd st)"
    by (simp add: add_step_def Let_def case_prod_beta)
  then show ?case using Cons by (simp add: hm.ok_insert hm.get_insert)
qed simp

lemma remove_steps:
  "hm_ok (snd st) \<Longrightarrow> hm_ok (snd (fold (remove_step r) as st)) \<and>
     map_of (snd (fold (remove_step r) as st)) = fold (\<lambda>a g. g(pr_name a := None)) as (map_of (snd st))"
proof (induction as arbitrary: st)
  case (Cons a as)
  have "hm_ok (snd (remove_step r a st)) \<and> map_of (snd (remove_step r a st)) = (map_of (snd st))(pr_name a := None)"
    using Cons.prems
    by (auto simp: remove_step_def case_prod_beta hm.ok_remove map_of_delete fun_upd_idem split: option.split)
  then show ?case using Cons.IH [of "remove_step r a st"] by simp
qed simp

lemma apply_ops_row_effect:
  assumes "hm_ok row"
  shows "hm_ok (snd (apply_ops_row ops row)) \<and> map_of (snd (apply_ops_row ops row)) = op_effect ops (map_of row)"
proof -
  let ?r = "po_exit_router ops"
  have "hm_ok (snd (reset_row ?r (po_reset ops) row)) \<and>
      map_of (snd (reset_row ?r (po_reset ops) row)) = (if po_reset ops then Map.empty else map_of row)"
    using assms by (simp add: reset_row_def hm.ok_empty)
  then show ?thesis
    using add_steps [of "reset_row ?r (po_reset ops) row" ?r "po_adds ops"]
      remove_steps [of "fold (add_step ?r) (po_adds ops) (reset_row ?r (po_reset ops) row)" ?r "po_removes ops"]
    by (simp add: apply_ops_row_def op_effect_def)
qed

lemma pt_ok_row: "pt_ok pt \<Longrightarrow> hm_ok (row_at pt r)"
  by (auto simp: pt_ok_def hm.ok_empty dest!: map_of_SomeD split: option.split)

lemma apply_op_list_eq:
  "apply_op_list ops pt =
    (if po_exit_router ops = pt_self_router pt then ([], pt)
     else let upd = apply_ops_row ops (row_at pt (po_exit_router ops));
              remote = hm_insert (po_exit_router ops) (snd upd) (pt_remote pt)
          in (fst upd, pt\<lparr>pt_remote := if snd upd = [] then map_delete (po_exit_router ops) remote else remote\<rparr>))"
  by (simp add: apply_op_list_def Let_def case_prod_beta)

lemma row_at_apply:
  assumes "pt_ok pt" and "po_exit_router ops \<noteq> pt_self_router pt"
  shows "row_at (snd (apply_op_list ops pt)) r =
    (if r = po_exit_router ops then snd (apply_ops_row ops (row_at pt r)) else row_at pt r)"
  using assms hm.get_insert [of "pt_remote pt"]
  by (auto simp: apply_op_list_eq Let_def pt_ok_def map_of_delete)

lemma pt_ok_apply:
  assumes "pt_ok pt"
  shows "pt_ok (snd (apply_op_list ops pt)) \<and> pt_self_router (snd (apply_op_list ops pt)) = pt_self_router pt"
proof (cases "po_exit_router ops = pt_self_router pt")
  case False
  let ?row = "snd (apply_ops_row ops (row_at pt (po_exit_router ops)))"
  let ?remote = "pt_remote (snd (apply_op_list ops pt))"
  have row: "hm_ok ?row" using apply_ops_row_effect pt_ok_row [OF assms] by blast
  have hm: "hm_ok (pt_remote pt)" using assms by (simp add: pt_ok_def)
  have ok: "hm_ok ?remote"
    using False hm by (simp add: apply_op_list_eq Let_def hm.ok_insert hm.ok_remove)
  have get: "map_of ?remote = (map_of (pt_remote pt))(po_exit_router ops := if ?row = [] then None else Some ?row)"
    using False hm by (simp add: apply_op_list_eq Let_def hm.get_insert map_of_delete)
  have entry: "r \<noteq> pt_self_router pt \<and> hm_ok rw \<and> rw \<noteq> []" if "(r, rw) \<in> set ?remote" for r rw
  proof -
    have now: "map_of ?remote r = Some rw" using that hm.mem_iff [OF ok] by blast
    show ?thesis
    proof (cases "r = po_exit_router ops")
      case True
      then show ?thesis using now row False unfolding get by (simp split: if_splits)
    next
      case other: False
      then have "(r, rw) \<in> set (pt_remote pt)"
        using now unfolding get hm.mem_iff [OF hm] by simp
      then show ?thesis using assms by (auto simp: pt_ok_def)
    qed
  qed
  have "pt_local_prefixes (snd (apply_op_list ops pt)) = pt_local_prefixes pt
      \<and> pt_self_router (snd (apply_op_list ops pt)) = pt_self_router pt"
    by (simp add: apply_op_list_eq Let_def)
  then show ?thesis
    using ok assms entry unfolding pt_ok_def by auto
qed (use assms in \<open>simp add: apply_op_list_eq\<close>)

lemma announced_apply:
  assumes "pt_ok pt"
  shows "announced (snd (apply_op_list ops pt)) r =
    (if r = po_exit_router ops \<and> r \<noteq> pt_self_router pt then op_effect ops (announced pt r) else announced pt r)"
proof (cases "po_exit_router ops = pt_self_router pt")
  case False
  have local: "pt_local_prefixes (snd (apply_op_list ops pt)) = pt_local_prefixes pt"
    by (simp add: apply_op_list_eq Let_def)
  have "map_of (snd (apply_ops_row ops (row_at pt r))) = op_effect ops (map_of (row_at pt r))"
    using apply_ops_row_effect [OF pt_ok_row [OF assms]] by blast
  then show ?thesis
    unfolding announced_def local conjunct2 [OF pt_ok_apply [OF assms]] row_at_apply [OF assms False]
    using False by auto
qed (simp add: apply_op_list_eq)

text \<open>The tables a router can reach, by its own announcements and the lists it applies.\<close>

inductive pfx_reach :: "'n \<Rightarrow> 'n prefix_table \<Rightarrow> bool" for s where
  pfx_new: "pfx_reach s (prefix_table_new s)"
| pfx_announce: "pfx_reach s pt \<Longrightarrow> pfx_reach s (snd (announce_local p c pt))"
| pfx_withdraw: "pfx_reach s pt \<Longrightarrow> pfx_reach s (snd (withdraw_local p pt))"
| pfx_apply: "pfx_reach s pt \<Longrightarrow> pfx_reach s (snd (apply_op_list ops pt))"

lemma pfx_reach_ok: "pfx_reach s pt \<Longrightarrow> pt_ok pt \<and> pt_self_router pt = s"
proof (induction rule: pfx_reach.induct)
  case (pfx_apply pt ops)
  then show ?case using pt_ok_apply by blast
qed (auto simp: pt_ok_def prefix_table_new_def hm.ok_empty announce_local_def withdraw_local_def
    hm.ok_insert hm.ok_remove)

section \<open>Queries\<close>

definition rows_hit :: "'n \<Rightarrow> ('n \<times> 'n prefix_row) list \<Rightarrow> ('n \<times> u32) list" where
  "rows_hit p rows = concat (map (\<lambda>(router, row). case map_of row p of
     Some cost \<Rightarrow> [(router, cost)] | None \<Rightarrow> []) rows)"

lemma rows_hit_simps [simp]:
  "rows_hit p [] = []"
  "rows_hit p ((r, row) # rows) =
     (case map_of row p of Some cost \<Rightarrow> [(r, cost)] | None \<Rightarrow> []) @ rows_hit p rows"
  by (simp_all add: rows_hit_def)

lemma rows_hit_mem:
  assumes "hm_ok rows"
  shows "(r, c) \<in> set (rows_hit p rows) \<longleftrightarrow> map_of (case map_of rows r of Some row \<Rightarrow> row | None \<Rightarrow> []) p = Some c"
proof -
  have "(r, c) \<in> set (rows_hit p rows) \<longleftrightarrow> (\<exists>row. (r, row) \<in> set rows \<and> map_of row p = Some c)"
    by (induction rows) (auto split: option.splits)
  then show ?thesis unfolding hm.mem_iff [OF assms] by (auto split: option.split)
qed

lemma rows_hit_keys: "set (map fst (rows_hit p rows)) \<subseteq> set (map fst rows)"
proof (induction rows)
  case (Cons kv rows)
  then show ?case by (cases kv) (auto split: option.split)
qed simp

lemma rows_hit_distinct: "hm_ok rows \<Longrightarrow> distinct (map fst (rows_hit p rows))"
proof (induction rows)
  case (Cons kv rows)
  obtain r row where kv: "kv = (r, row)" by fastforce
  have "r \<notin> set (map fst (rows_hit p rows))"
    using Cons.prems rows_hit_keys [of p rows] by (auto simp: hm_ok_def kv)
  moreover have "distinct (map fst (rows_hit p rows))"
    using Cons by (simp add: hm_ok_def)
  ultimately show ?case by (auto simp: kv split: option.split)
qed simp

lemma self_not_remote: "pt_ok pt \<Longrightarrow> map_of (pt_remote pt) (pt_self_router pt) = None"
  by (auto simp: pt_ok_def map_of_eq_None_iff)

lemma routers_for_prefix_mem:
  assumes "pt_ok pt"
  shows "(r, c) \<in> set (routers_for_prefix p pt) \<longleftrightarrow> announced pt r p = Some c"
proof -
  have "hm_ok (pt_remote pt)" using assms by (simp add: pt_ok_def)
  from rows_hit_mem [OF this, of r c p] show ?thesis
    using self_not_remote [OF assms]
    unfolding routers_for_prefix_def announced_def set_sort set_append rows_hit_def [symmetric]
    by (auto split: option.splits)
qed

lemma strictly_sorted_key:
  "distinct (map f xs) \<Longrightarrow> sorted_wrt (<) (map f (sort_key f xs))"
  by (simp add: strict_sorted_iff) (metis mset_map mset_eq_imp_distinct_iff mset_sort)

lemma routers_for_prefix_sorted:
  assumes "pt_ok pt"
  shows "sorted_wrt (<) (map fst (routers_for_prefix p pt))"
proof -
  have "hm_ok (pt_remote pt)" using assms by (simp add: pt_ok_def)
  moreover have "pt_self_router pt \<notin> set (map fst (rows_hit p (pt_remote pt)))"
    using self_not_remote [OF assms] rows_hit_keys [of p "pt_remote pt"]
    by (auto simp: map_of_eq_None_iff)
  ultimately show ?thesis
    using rows_hit_distinct [of "pt_remote pt" p]
    unfolding routers_for_prefix_def rows_hit_def [symmetric]
    by (intro strictly_sorted_key) (auto split: option.split)
qed

lemma row_of_router_ok:
  "pt_ok pt \<Longrightarrow> hm_ok (if r = pt_self_router pt then pt_local_prefixes pt else row_at pt r)"
  using pt_ok_row [of pt r] by (simp add: pt_ok_def)

lemma prefixes_for_router_mem:
  assumes "pt_ok pt"
  shows "(p, c) \<in> set (prefixes_for_router r pt) \<longleftrightarrow> announced pt r p = Some c"
  unfolding prefixes_for_router_def announced_def set_sort hm.mem_iff [OF row_of_router_ok [OF assms]] ..

lemma prefixes_for_router_sorted:
  "pt_ok pt \<Longrightarrow> sorted_wrt (<) (map fst (prefixes_for_router r pt))"
  using row_of_router_ok [of pt r] unfolding prefixes_for_router_def
  by (intro strictly_sorted_key) (simp add: hm_ok_def)

lemma routers_mem:
  assumes "pt_ok pt"
  shows "r \<in> set (routers pt) \<longleftrightarrow> announced pt r \<noteq> Map.empty"
proof -
  have "r \<in> fst ` set (pt_remote pt) \<longleftrightarrow> map_of (pt_remote pt) r \<noteq> None"
    by (simp add: map_of_eq_None_iff)
  moreover have "row \<noteq> []" if "map_of (pt_remote pt) r = Some row" for row
    using that assms by (auto simp: pt_ok_def dest: map_of_SomeD)
  ultimately show ?thesis
    using self_not_remote [OF assms]
    by (auto simp: routers_def announced_def hm.empty_iff [symmetric] split: option.splits)
qed

lemma same_set_same_map:
  assumes "hm_ok m" and "hm_ok m'" and "set m = set m'"
  shows "map_of m = map_of m'"
proof
  fix k
  have eq: "map_of m k = Some v \<longleftrightarrow> map_of m' k = Some v" for v
    using assms(3) hm.mem_iff [OF assms(1), of k v] hm.mem_iff [OF assms(2), of k v] by simp
  show "map_of m k = map_of m' k"
  proof (cases "map_of m k")
    case (Some v)
    then show ?thesis using eq [of v] by simp
  next
    case None
    then show ?thesis using eq by (metis not_None_eq)
  qed
qed

lemma same_map_same_rows:
  assumes "hm_ok m" and "hm_ok m'" and "map_of m = map_of m'"
  shows "sort_key fst m = sort_key fst m'"
proof -
  have "set m = set m'" using hm.same_entries assms by blast
  then have "mset m = mset (sort_key fst m')"
    using assms by (simp add: set_eq_iff_mset_eq_distinct hm_ok_def distinct_map)
  moreover have "inj_on fst (set m)" using assms(1) by (simp add: hm_ok_def distinct_map)
  ultimately show ?thesis by (rule sort_key_inj_key_eq) simp
qed

text \<open>
  The three queries of the prefix table agree: in every table a router can reach, a router
  is listed for a prefix with a cost exactly when the prefix is listed for the router with that
  cost, the routers listed are those with an announcement, and every listing is strictly sorted.
\<close>

theorem prefix_queries_agree:
  assumes "pfx_reach s pt"
  shows "((r, c) \<in> set (routers_for_prefix p pt) \<longleftrightarrow> (p, c) \<in> set (prefixes_for_router r pt))
    \<and> (r \<in> set (routers pt) \<longleftrightarrow> prefixes_for_router r pt \<noteq> [])
    \<and> sorted_wrt (<) (map fst (routers_for_prefix p pt))
    \<and> sorted_wrt (<) (map fst (prefixes_for_router r pt))"
proof -
  have ok: "pt_ok pt" using pfx_reach_ok [OF assms] by blast
  have "prefixes_for_router r pt \<noteq> [] \<longleftrightarrow> (\<exists>p c. (p, c) \<in> set (prefixes_for_router r pt))"
    by (cases "prefixes_for_router r pt") auto
  then have "r \<in> set (routers pt) \<longleftrightarrow> prefixes_for_router r pt \<noteq> []"
    unfolding routers_mem [OF ok] prefixes_for_router_mem [OF ok] by (auto simp: fun_eq_iff)
  then show ?thesis
    using routers_for_prefix_mem [OF ok] prefixes_for_router_mem [OF ok]
      routers_for_prefix_sorted [OF ok] prefixes_for_router_sorted [OF ok] by blast
qed

definition example_table :: "nat prefix_table" where
  "example_table = snd (announce_local 50 7 (snd (announce_local 40 3 (prefix_table_new 1))))"

lemma example_table_reach: "pfx_reach 1 example_table"
  unfolding example_table_def by (intro pfx_reach.intros)

theorem prefix_queries_agree_witness:
  "(1, 7) \<in> set (routers_for_prefix 50 example_table)
    \<and> (50, 7) \<in> set (prefixes_for_router 1 example_table)
    \<and> sorted_wrt (<) (map fst (prefixes_for_router 1 example_table))"
proof -
  have "(1, 7) \<in> set (routers_for_prefix 50 example_table)" by code_simp
  then show ?thesis using prefix_queries_agree [OF example_table_reach, of 1 7 50] by blast
qed

section \<open>Replication\<close>

datatype 'n local_op = LocalAnnounce 'n u32 | LocalWithdraw 'n

text \<open>Local changes in order, with the operation lists they publish.\<close>

fun run_local :: "'n local_op list \<Rightarrow> 'n prefix_table \<Rightarrow> 'n prefix_op_list list \<times> 'n prefix_table" where
  "run_local [] pt = ([], pt)"
| "run_local (op # ops) pt =
     (let (out, pt) = (case op of
            LocalAnnounce p c \<Rightarrow> announce_local p c pt
          | LocalWithdraw p \<Rightarrow> withdraw_local p pt);
          (outs, pt) = run_local ops pt
      in ((case out of None \<Rightarrow> outs | Some ol \<Rightarrow> ol # outs), pt))"

lemma fold_adds:
  "distinct (map pa_name as) \<Longrightarrow>
     fold (\<lambda>a g. g(pa_name a \<mapsto> ucast (pa_cost a))) as f =
       f ++ map_of (map (\<lambda>a. (pa_name a, ucast (pa_cost a) :: u32)) as)"
proof (induction as arbitrary: f)
  case (Cons a as)
  have "map_of (map (\<lambda>a. (pa_name a, ucast (pa_cost a) :: u32)) as) (pa_name a) = None"
    using Cons.prems by (auto simp: map_of_eq_None_iff)
  then show ?case using Cons by (auto simp: fun_eq_iff map_add_def split: option.split)
qed simp

lemma snap_effect:
  assumes "hm_ok (pt_local_prefixes pt)"
  shows "op_effect (snap pt) f = map_of (pt_local_prefixes pt)"
proof -
  let ?adds = "po_adds (snap pt)"
  have names: "mset (map (\<lambda>a. (pa_name a, ucast (pa_cost a))) ?adds) = mset (pt_local_prefixes pt)"
    by (simp add: snap_def multiset.map_comp comp_def case_prod_beta ucast_u32_back)
  then have "mset (map fst (map (\<lambda>a. (pa_name a, ucast (pa_cost a) :: u32)) ?adds)) =
      mset (map fst (pt_local_prefixes pt))"
    by (simp only: mset_map)
  then have dist: "distinct (map pa_name ?adds)"
    using assms mset_eq_imp_distinct_iff by (fastforce simp: hm_ok_def comp_def)
  have "map_of (map (\<lambda>a. (pa_name a, ucast (pa_cost a))) ?adds) = map_of (pt_local_prefixes pt)"
    using dist assms mset_eq_setD [OF names]
    by (intro same_set_same_map) (simp_all add: hm_ok_def comp_def)
  then show ?thesis
    using fold_adds [OF dist] by (simp add: op_effect_def snap_def)
qed

lemma run_local_effect:
  assumes "pt_ok pt"
  shows "fold op_effect (fst (run_local ops pt)) (map_of (pt_local_prefixes pt)) =
      map_of (pt_local_prefixes (snd (run_local ops pt)))
    \<and> pt_self_router (snd (run_local ops pt)) = pt_self_router pt \<and> pt_ok (snd (run_local ops pt))"
  using assms
proof (induction ops arbitrary: pt)
  case (Cons op ops)
  let ?step = "case op of LocalAnnounce p c \<Rightarrow> announce_local p c pt | LocalWithdraw p \<Rightarrow> withdraw_local p pt"
  have hm: "hm_ok (pt_local_prefixes pt)" using Cons.prems by (simp add: pt_ok_def)
  have step: "pt_ok (snd ?step) \<and> pt_self_router (snd ?step) = pt_self_router pt
      \<and> (case fst ?step of None \<Rightarrow> map_of (pt_local_prefixes pt)
           | Some ol \<Rightarrow> op_effect ol (map_of (pt_local_prefixes pt))) = map_of (pt_local_prefixes (snd ?step))"
    using Cons.prems hm
    by (cases op) (auto simp: announce_local_def withdraw_local_def pt_ok_def op_effect_def
        hm.ok_insert hm.ok_remove hm.get_insert map_of_delete ucast_u32_back)
  have split: "run_local (op # ops) pt =
      ((case fst ?step of None \<Rightarrow> fst (run_local ops (snd ?step))
          | Some ol \<Rightarrow> ol # fst (run_local ops (snd ?step))), snd (run_local ops (snd ?step)))"
    by (simp add: Let_def case_prod_beta)
  show ?case
    unfolding split using Cons.IH [of "snd ?step"] step by (cases "fst ?step") auto
qed simp

lemma announced_fold:
  assumes "pt_ok pt" and "r \<noteq> pt_self_router pt"
  shows "announced (fold (\<lambda>m t. snd (apply_op_list m t)) msgs pt) r =
      fold op_effect (filter (\<lambda>m. po_exit_router m = r) msgs) (announced pt r)
    \<and> pt_ok (fold (\<lambda>m t. snd (apply_op_list m t)) msgs pt)
    \<and> pt_self_router (fold (\<lambda>m t. snd (apply_op_list m t)) msgs pt) = pt_self_router pt"
  using assms
proof (induction msgs arbitrary: pt)
  case (Cons m msgs)
  note step = pt_ok_apply [OF Cons.prems(1), of m]
  show ?case
    using Cons.IH [of "snd (apply_op_list m pt)"] step Cons.prems
      announced_apply [OF Cons.prems(1), of m r] by auto
qed simp

text \<open>
  (C22) Prefix tables replicate. Take any router \<open>s\<close>, let it publish a snapshot and then the
  operation lists of any further announcements and withdrawals. A router that applies these
  lists in order, starting from any table and interleaved in any way with the lists of other
  routers, ends with exactly the prefixes and costs \<open>s\<close> announces.
\<close>

theorem prefix_replication:
  assumes "pfx_reach s sender" and "pfx_reach r receiver" and "r \<noteq> s"
    and "filter (\<lambda>m. po_exit_router m = s) msgs = snap sender # fst (run_local ops sender)"
  shows "prefixes_for_router s (fold (\<lambda>m t. snd (apply_op_list m t)) msgs receiver) =
    prefixes_for_router s (snd (run_local ops sender))"
proof -
  let ?t = "fold (\<lambda>m t. snd (apply_op_list m t)) msgs receiver"
  let ?u = "snd (run_local ops sender)"
  have ok: "pt_ok sender" "pt_self_router sender = s" "pt_ok receiver" "pt_self_router receiver = r"
    using pfx_reach_ok [OF assms(1)] pfx_reach_ok [OF assms(2)] by auto
  note local = run_local_effect [OF ok(1), of ops]
  have snap: "op_effect (snap sender) f = map_of (pt_local_prefixes sender)" for f
    by (rule snap_effect) (use ok(1) in \<open>simp add: pt_ok_def\<close>)
  have s: "s \<noteq> pt_self_router receiver" using assms(3) ok(4) by simp
  note t = announced_fold [OF ok(3) s, of msgs, unfolded assms(4)]
  have self: "announced ?u s = map_of (pt_local_prefixes ?u)"
    using local ok(2) by (simp add: announced_def)
  have "announced ?t s = fold op_effect (snap sender # fst (run_local ops sender)) (announced receiver s)"
    using t by blast
  also have "\<dots> = announced ?u s" using local unfolding self by (simp add: snap)
  finally have eq: "announced ?t s = announced ?u s" .
  have "pt_ok ?t" "pt_ok ?u" using t local by blast+
  from row_of_router_ok [OF this(1), of s] row_of_router_ok [OF this(2), of s] show ?thesis
    unfolding prefixes_for_router_def by (rule same_map_same_rows) (rule eq [unfolded announced_def])
qed

definition example_msgs :: "nat prefix_op_list list" where
  "example_msgs =
     [\<lparr>po_exit_router = 9, po_reset = True, po_adds = [\<lparr>pa_name = 40, pa_cost = 1\<rparr>], po_removes = []\<rparr>,
      snap example_table]
     @ fst (run_local [LocalWithdraw 40, LocalAnnounce 60 2] example_table)"

theorem prefix_replication_witness:
  "prefixes_for_router 1 (fold (\<lambda>m t. snd (apply_op_list m t)) example_msgs (prefix_table_new 2)) =
     [(50, 7), (60, 2)]"
proof -
  have split: "filter (\<lambda>m. po_exit_router m = 1) example_msgs =
      snap example_table # fst (run_local [LocalWithdraw 40, LocalAnnounce 60 2] example_table)"
    by code_simp
  have out: "prefixes_for_router 1 (snd (run_local [LocalWithdraw 40, LocalAnnounce 60 2] example_table)) =
      [(50, 7), (60, 2)]"
    by code_simp
  show ?thesis
    using prefix_replication [OF example_table_reach pfx_new [of 2] _ split] out by simp
qed

text \<open>
  The changes \<open>apply_op_list\<close> returns account for everything it did: applied in order to
  the announcements of the sending router, each has the true old cost and a new cost different
  from it, and together they give exactly the resulting announcements; no other router's
  announcements move, and a list that claims to come from the router itself does nothing.
\<close>

theorem prefix_changes_exact:
  assumes "pfx_reach s pt"
  shows "change_chain (po_exit_router ops) (fst (apply_op_list ops pt))
      (announced pt (po_exit_router ops)) (announced (snd (apply_op_list ops pt)) (po_exit_router ops))
    \<and> announced (snd (apply_op_list ops pt)) =
        (announced pt)(po_exit_router ops := announced (snd (apply_op_list ops pt)) (po_exit_router ops))
    \<and> apply_op_list (ops\<lparr>po_exit_router := s\<rparr>) pt = ([], pt)"
proof -
  have ok: "pt_ok pt" and self: "pt_self_router pt = s" using pfx_reach_ok [OF assms] by auto
  have others: "announced (snd (apply_op_list ops pt)) =
        (announced pt)(po_exit_router ops := announced (snd (apply_op_list ops pt)) (po_exit_router ops))"
    using announced_apply [OF ok, of ops] by (auto simp: fun_eq_iff)
  have bounce: "apply_op_list (ops\<lparr>po_exit_router := s\<rparr>) pt = ([], pt)"
    using self by (simp add: apply_op_list_eq)
  have "change_chain (po_exit_router ops) (fst (apply_op_list ops pt))
      (announced pt (po_exit_router ops)) (announced (snd (apply_op_list ops pt)) (po_exit_router ops))"
  proof (cases "po_exit_router ops = pt_self_router pt")
    case False
    have "announced (snd (apply_op_list ops pt)) (po_exit_router ops) =
        map_of (snd (apply_ops_row ops (row_at pt (po_exit_router ops))))"
      using announced_apply [OF ok, of ops] apply_ops_row_effect [OF pt_ok_row [OF ok]] False
      by (simp add: announced_def)
    moreover have "fst (apply_op_list ops pt) = fst (apply_ops_row ops (row_at pt (po_exit_router ops)))"
      using False by (simp add: apply_op_list_eq Let_def)
    ultimately show ?thesis
      using chained_ops [OF pt_ok_row [OF ok]] False by (simp add: chained_def announced_def)
  qed (simp add: apply_op_list_eq)
  then show ?thesis using others bounce by blast
qed

theorem prefix_changes_exact_witness:
  "change_chain 1 (fst (apply_op_list (snap example_table) (prefix_table_new 2)))
      (announced (prefix_table_new 2) 1)
      (announced (snd (apply_op_list (snap example_table) (prefix_table_new 2))) 1)
    \<and> length (fst (apply_op_list (snap example_table) (prefix_table_new 2))) = 2"
proof -
  have "po_exit_router (snap example_table) = 1"
    "length (fst (apply_op_list (snap example_table) (prefix_table_new 2))) = 2" by code_simp+
  then show ?thesis using prefix_changes_exact [OF pfx_new [of 2], of "snap example_table"] by simp
qed

end
