(* ===== verification/Shm_Memory.thy ===== *)
theory Shm_Memory
  imports Prelude "HOL-Library.Monad_Syntax"
begin

text \<open>
  \<open>crates/faces/ndn-face-shm/src/spsc.rs\<close>, the ground of the shared-memory faces: a mapped
  region as a list of bytes whose accesses fail outside it, the 32- and 64-bit cells in it, and
  the geometry of the rings. \<open>usize\<close> is 64 bits wide and a release build wraps on overflow.
  The host is little-endian; both ends of a region run on one host, so nothing depends on it.
\<close>

section \<open>A mapped region\<close>

type_synonym usize = u64
type_synonym mem = "u8 list"

text \<open>\<open>None\<close> is an access outside the mapping.\<close>

definition mem_read :: "nat \<Rightarrow> nat \<Rightarrow> mem \<Rightarrow> u8 list option" where
  "mem_read off n m = (if off + n \<le> length m then Some (take n (drop off m)) else None)"

definition mem_write :: "nat \<Rightarrow> u8 list \<Rightarrow> mem \<Rightarrow> mem option" where
  "mem_write off bs m =
     (if off + length bs \<le> length m
      then Some (take off m @ bs @ drop (off + length bs) m) else None)"

definition load_u32 :: "nat \<Rightarrow> mem \<Rightarrow> u32 option" where
  "load_u32 off m = map_option from_le (mem_read off 4 m)"

definition store_u32 :: "nat \<Rightarrow> u32 \<Rightarrow> mem \<Rightarrow> mem option" where
  "store_u32 off v m = mem_write off (to_le 4 v) m"

definition load_u64 :: "nat \<Rightarrow> mem \<Rightarrow> u64 option" where
  "load_u64 off m = map_option from_le (mem_read off 8 m)"

definition store_u64 :: "nat \<Rightarrow> u64 \<Rightarrow> mem \<Rightarrow> mem option" where
  "store_u64 off v m = mem_write off (to_le 8 v) m"

lemma mem_write_length: "mem_write off bs m = Some m' \<Longrightarrow> length m' = length m"
  by (auto simp: mem_write_def split: if_splits)

lemma mem_write_ok: "off + length bs \<le> length m \<Longrightarrow> \<exists>m'. mem_write off bs m = Some m'"
  by (simp add: mem_write_def)

lemma mem_read_ok: "off + n \<le> length m \<Longrightarrow> \<exists>bs. mem_read off n m = Some bs \<and> length bs = n"
  by (simp add: mem_read_def)

lemma mem_read_write: "mem_write off bs m = Some m' \<Longrightarrow> mem_read off (length bs) m' = Some bs"
  by (auto simp: mem_write_def mem_read_def split: if_splits)

lemma mem_read_write_other:
  assumes "mem_write off bs m = Some m'" and "o' + n \<le> off \<or> off + length bs \<le> o'"
  shows "mem_read o' n m' = mem_read o' n m"
proof -
  have len: "length m' = length m" by (rule mem_write_length [OF assms(1)])
  have m': "m' = take off m @ bs @ drop (off + length bs) m" and le: "off + length bs \<le> length m"
    using assms(1) by (auto simp: mem_write_def split: if_splits)
  have "take n (drop o' m') = take n (drop o' m)" if "o' + n \<le> length m"
  proof (rule nth_equalityI)
    fix i assume "i < length (take n (drop o' m'))"
    then have i: "i < n" "o' + i < length m" using len that by auto
    then show "take n (drop o' m') ! i = take n (drop o' m) ! i"
      using assms(2) le len by (auto simp: m' nth_append)
  qed (use len in simp)
  then show ?thesis using len by (auto simp: mem_read_def)
qed

lemma load_store_u32: "store_u32 off v m = Some m' \<Longrightarrow> load_u32 off m' = Some v"
  using mem_read_write [of off "to_le 4 v" m m'] by (simp add: load_u32_def store_u32_def)

lemma load_store_u64: "store_u64 off v m = Some m' \<Longrightarrow> load_u64 off m' = Some v"
  using mem_read_write [of off "to_le 8 v" m m'] by (simp add: load_u64_def store_u64_def)

lemma load_u32_ok: "off + 4 \<le> length m \<Longrightarrow> \<exists>v. load_u32 off m = Some v"
  using mem_read_ok by (fastforce simp: load_u32_def)

lemma store_u32_ok: "off + 4 \<le> length m \<Longrightarrow> \<exists>m'. store_u32 off v m = Some m'"
  using mem_write_ok [of off "to_le 4 v" m] by (simp add: store_u32_def)

section \<open>Constants and layout\<close>

definition MAGIC :: u64 where "MAGIC = 0x4E444E5F53484D00"
definition DEFAULT_CAPACITY :: u32 where "DEFAULT_CAPACITY = 256"
definition DEFAULT_SLOT_SIZE :: u32 where "DEFAULT_SLOT_SIZE = 8960"
definition SHM_SLOT_OVERHEAD :: usize where "SHM_SLOT_OVERHEAD = 16384"
definition OFF_A2E_TAIL :: nat where "OFF_A2E_TAIL = 64"
definition OFF_A2E_HEAD :: nat where "OFF_A2E_HEAD = 128"
definition OFF_E2A_TAIL :: nat where "OFF_E2A_TAIL = 192"
definition OFF_E2A_HEAD :: nat where "OFF_E2A_HEAD = 256"
definition OFF_A2E_PARKED :: nat where "OFF_A2E_PARKED = 320"
definition OFF_E2A_PARKED :: nat where "OFF_E2A_PARKED = 384"
definition HEADER_SIZE :: usize where "HEADER_SIZE = 448"
definition MAX_REGION_SIZE :: usize where "MAX_REGION_SIZE = 268435456"

lemmas layout_defs = OFF_A2E_TAIL_def OFF_A2E_HEAD_def OFF_E2A_TAIL_def OFF_E2A_HEAD_def
  OFF_A2E_PARKED_def OFF_E2A_PARKED_def HEADER_SIZE_def

definition slot_stride :: "u32 \<Rightarrow> usize" where
  "slot_stride slot_size = 4 + ucast slot_size"

definition SHM_BUDGET :: usize where
  "SHM_BUDGET = 2 * ucast DEFAULT_CAPACITY * slot_stride DEFAULT_SLOT_SIZE"

definition usize_saturating_add :: "usize \<Rightarrow> usize \<Rightarrow> usize" where
  "usize_saturating_add a b = (if a + b < a then -1 else a + b)"

definition usize_checked_add :: "usize \<Rightarrow> usize \<Rightarrow> usize option" where
  "usize_checked_add a b = (if unat a + unat b < 2 ^ 64 then Some (a + b) else None)"

definition usize_checked_mul :: "usize \<Rightarrow> usize \<Rightarrow> usize option" where
  "usize_checked_mul a b = (if unat a * unat b < 2 ^ 64 then Some (a * b) else None)"

definition usize_div_ceil :: "usize \<Rightarrow> usize \<Rightarrow> usize" where
  "usize_div_ceil a b = (if a mod b = 0 then a div b else a div b + 1)"

definition slot_size_for_mtu :: "usize \<Rightarrow> u32" where
  "slot_size_for_mtu mtu =
     (let raw = usize_saturating_add mtu SHM_SLOT_OVERHEAD;
          aligned = usize_div_ceil raw 64 * 64
      in ucast (min aligned 0xFFFFFFFF))"

definition capacity_for_slot :: "u32 \<Rightarrow> u32" where
  "capacity_for_slot slot_size =
     (let stride = slot_stride slot_size; cap = SHM_BUDGET div (2 * stride)
      in max (ucast cap) 16)"

definition shm_total_size :: "u32 \<Rightarrow> u32 \<Rightarrow> usize" where
  "shm_total_size capacity slot_size = HEADER_SIZE + 2 * ucast capacity * slot_stride slot_size"

datatype shm_error = InvalidName | InvalidMagic | InvalidGeometry | PacketTooLarge | Closed | IoError

definition validate_geometry :: "u32 \<Rightarrow> u32 \<Rightarrow> shm_error + unit" where
  "validate_geometry capacity slot_size =
     (if capacity = 0 \<or> slot_size = 0 then Inl InvalidGeometry
      else
        let total = do {
              stride \<leftarrow> usize_checked_add 4 (ucast slot_size);
              one \<leftarrow> usize_checked_mul stride (ucast capacity);
              both \<leftarrow> usize_checked_mul one 2;
              usize_checked_add both HEADER_SIZE }
        in case total of
             Some t \<Rightarrow> if t \<le> MAX_REGION_SIZE then Inr () else Inl InvalidGeometry
           | None \<Rightarrow> Inl InvalidGeometry)"

definition a2e_ring_offset :: usize where "a2e_ring_offset = HEADER_SIZE"

definition e2a_ring_offset :: "u32 \<Rightarrow> u32 \<Rightarrow> usize" where
  "e2a_ring_offset capacity slot_size = HEADER_SIZE + ucast capacity * slot_stride slot_size"

definition write_header :: "u32 \<Rightarrow> u32 \<Rightarrow> mem \<Rightarrow> mem option" where
  "write_header capacity slot_size m = do {
     m \<leftarrow> store_u64 0 MAGIC m; m \<leftarrow> store_u32 8 capacity m; store_u32 12 slot_size m }"

text \<open>The outer \<open>None\<close> is an access outside the mapping.\<close>

definition read_header :: "mem \<Rightarrow> (shm_error + u32 \<times> u32) option" where
  "read_header m = do {
     magic \<leftarrow> load_u64 0 m;
     if magic \<noteq> MAGIC then Some (Inl InvalidMagic)
     else do { capacity \<leftarrow> load_u32 8 m; slot_size \<leftarrow> load_u32 12 m; Some (Inr (capacity, slot_size)) } }"

text \<open>
  \<open>SpscHandle::connect\<close> and \<open>from_fds\<close> up to the mapping of the whole region, on the
  header page: the magic, the geometry and its validation, giving the size to map.
\<close>

definition connect_geometry :: "mem \<Rightarrow> (shm_error + u32 \<times> u32 \<times> usize) option" where
  "connect_geometry header = do {
     r \<leftarrow> read_header header;
     Some (case r of
         Inl e \<Rightarrow> Inl e
       | Inr (capacity, slot_size) \<Rightarrow>
           (case validate_geometry capacity slot_size of
              Inl e \<Rightarrow> Inl e
            | Inr _ \<Rightarrow> Inr (capacity, slot_size, shm_total_size capacity slot_size))) }"

section \<open>The sealed ring's geometry\<close>

definition SEALED_OFF_TAIL :: nat where "SEALED_OFF_TAIL = 64"
definition SEALED_DATA_HEADER :: usize where "SEALED_DATA_HEADER = 128"
definition SEALED_OFF_HEAD :: nat where "SEALED_OFF_HEAD = 0"
definition SEALED_OFF_PARKED :: nat where "SEALED_OFF_PARKED = 64"
definition SEALED_CTRL_SIZE :: nat where "SEALED_CTRL_SIZE = 128"

definition sealed_data_size :: "u32 \<Rightarrow> u32 \<Rightarrow> usize" where
  "sealed_data_size capacity slot_size = SEALED_DATA_HEADER + ucast capacity * slot_stride slot_size"

text \<open>The checks of \<open>SealedReader::from_fds\<close> on the header page, giving the size to map.\<close>

definition sealed_geometry :: "mem \<Rightarrow> (shm_error + u32 \<times> u32 \<times> usize) option" where
  "sealed_geometry header = do {
     magic \<leftarrow> load_u64 0 header; capacity \<leftarrow> load_u32 8 header; slot_size \<leftarrow> load_u32 12 header;
     Some (if magic \<noteq> MAGIC then Inl InvalidMagic
       else if capacity = 0 \<or> slot_size = 0
         \<or> 256 * 1024 * 1024 < sealed_data_size capacity slot_size then Inl InvalidMagic
       else Inr (capacity, slot_size, sealed_data_size capacity slot_size)) }"

section \<open>Facts about the geometry\<close>

lemma unat_ucast_u64 [simp]: "unat (ucast (x :: u32) :: u64) = unat x"
proof -
  have "unat x < 2 ^ 32" using unsigned_less [of x, where 'a = nat] by simp
  then show ?thesis by (simp add: unsigned_ucast_eq take_bit_nat_eq_self)
qed

lemma unat_u32_less: "unat (x :: u32) < 4294967296"
  using unsigned_less [of x, where 'a = nat] by simp

lemma unat_slot_stride: "unat (slot_stride s) = 4 + unat s"
proof -
  have "4 + unat s < 18446744073709551616" using unat_u32_less [of s] by linarith
  then show ?thesis by (simp add: slot_stride_def unat_word_ariths)
qed

text \<open>The size of a ring region in \<open>nat\<close>, before any wrap.\<close>

definition total_bytes :: "u32 \<Rightarrow> u32 \<Rightarrow> nat" where
  "total_bytes capacity slot_size = 448 + 2 * unat capacity * (4 + unat slot_size)"

lemma checked_add_SomeD: "usize_checked_add a b = Some c \<Longrightarrow> unat c = unat a + unat b"
  by (auto simp: usize_checked_add_def unat_word_ariths split: if_splits)

lemma checked_mul_SomeD: "usize_checked_mul a b = Some c \<Longrightarrow> unat c = unat a * unat b"
  by (auto simp: usize_checked_mul_def unat_word_ariths split: if_splits)

lemma validate_geometry_iff:
  "validate_geometry capacity slot_size = Inr () \<longleftrightarrow>
     0 < unat capacity \<and> 0 < unat slot_size \<and> total_bytes capacity slot_size \<le> 268435456"
  (is "?v \<longleftrightarrow> ?r")
proof
  assume ?v
  then obtain t where pos: "capacity \<noteq> 0" "slot_size \<noteq> 0" and t: "t \<le> MAX_REGION_SIZE"
    and total: "do {
              stride \<leftarrow> usize_checked_add 4 (ucast slot_size);
              one \<leftarrow> usize_checked_mul stride (ucast capacity);
              both \<leftarrow> usize_checked_mul one 2;
              usize_checked_add both HEADER_SIZE } = Some t"
    by (auto simp: validate_geometry_def Let_def split: if_splits option.splits)
  from total have "unat t = total_bytes capacity slot_size"
    by (auto simp: bind_eq_Some_conv total_bytes_def HEADER_SIZE_def
        dest!: checked_add_SomeD checked_mul_SomeD)
  then show ?r
    using t pos by (simp add: MAX_REGION_SIZE_def word_le_nat_alt unat_gt_0)
next
  assume r: ?r
  have le: "4 + unat slot_size \<le> (4 + unat slot_size) * unat capacity"
    using r by simp
  have "usize_checked_add 4 (ucast slot_size) = Some (slot_stride slot_size)"
  proof -
    have "unat slot_size < 18446744073709551612" using unat_u32_less [of slot_size] by linarith
    then show ?thesis by (simp add: usize_checked_add_def slot_stride_def)
  qed
  moreover obtain one where one: "usize_checked_mul (slot_stride slot_size) (ucast capacity) = Some one"
    using r by (simp add: usize_checked_mul_def unat_slot_stride total_bytes_def mult.commute)
  moreover obtain both where both: "usize_checked_mul one 2 = Some both"
    using r checked_mul_SomeD [OF one]
    by (simp add: usize_checked_mul_def unat_slot_stride total_bytes_def mult.commute)
  moreover obtain t where t: "usize_checked_add both HEADER_SIZE = Some t"
    using r checked_mul_SomeD [OF one] checked_mul_SomeD [OF both]
    by (simp add: usize_checked_add_def HEADER_SIZE_def unat_slot_stride total_bytes_def mult.commute)
  moreover have "unat t = total_bytes capacity slot_size"
    using checked_add_SomeD [OF t] checked_mul_SomeD [OF both] checked_mul_SomeD [OF one]
    by (simp add: HEADER_SIZE_def unat_slot_stride total_bytes_def mult.commute)
  then have "t \<le> MAX_REGION_SIZE"
    using r by (simp add: word_le_nat_alt MAX_REGION_SIZE_def)
  ultimately show ?v
    using r by (auto simp: validate_geometry_def Let_def)
qed

lemma unat_shm_total_size:
  "total_bytes capacity slot_size < 2 ^ 64 \<Longrightarrow> unat (shm_total_size capacity slot_size) = total_bytes capacity slot_size"
  by (simp add: shm_total_size_def total_bytes_def HEADER_SIZE_def unat_word_ariths unat_slot_stride
      mod_add_right_eq mod_mult_left_eq mod_mult_right_eq)

end
