(* ===== verification/Shm_Ring.thy ===== *)
theory Shm_Ring
  imports Shm_Memory
begin

text \<open>
  The ring operations of \<open>spsc.rs\<close> on the bytes of the mapped region, and their refinement to a
  bounded FIFO queue: an operation never leaves the mapping, a push appends, a pop takes the
  oldest packet, and neither touches a byte outside its own ring and its own counter.
\<close>

section \<open>Operations\<close>

record ring_params =
  rp_ring_off :: nat
  rp_tail_off :: nat
  rp_head_off :: nat
  rp_capacity :: u32
  rp_slot_size :: u32

definition a2e_params :: "u32 \<Rightarrow> u32 \<Rightarrow> ring_params" where
  "a2e_params capacity slot_size =
     \<lparr>rp_ring_off = unat a2e_ring_offset, rp_tail_off = OFF_A2E_TAIL, rp_head_off = OFF_A2E_HEAD,
      rp_capacity = capacity, rp_slot_size = slot_size\<rparr>"

definition e2a_params :: "u32 \<Rightarrow> u32 \<Rightarrow> ring_params" where
  "e2a_params capacity slot_size =
     \<lparr>rp_ring_off = unat (e2a_ring_offset capacity slot_size), rp_tail_off = OFF_E2A_TAIL,
      rp_head_off = OFF_E2A_HEAD, rp_capacity = capacity, rp_slot_size = slot_size\<rparr>"

text \<open>The address of the slot a counter value selects.\<close>

definition slot_at :: "ring_params \<Rightarrow> u32 \<Rightarrow> nat" where
  "slot_at p t = rp_ring_off p + unat (t mod rp_capacity p) * unat (slot_stride (rp_slot_size p))"

definition slot_store :: "ring_params \<Rightarrow> u32 \<Rightarrow> u8 list \<Rightarrow> mem \<Rightarrow> mem option" where
  "slot_store p t data m = do {
     m \<leftarrow> store_u32 (slot_at p t) (of_nat (length data)) m;
     mem_write (slot_at p t + 4) data m }"

definition slot_load :: "ring_params \<Rightarrow> u32 \<Rightarrow> mem \<Rightarrow> u8 list option" where
  "slot_load p h m = do {
     len \<leftarrow> load_u32 (slot_at p h) m;
     mem_read (slot_at p h + 4) (min (unat len) (unat (rp_slot_size p))) m }"

text \<open>\<open>None\<close> is an access outside the mapping, or a division by a zero capacity.\<close>

definition ring_push :: "ring_params \<Rightarrow> u8 list \<Rightarrow> mem \<Rightarrow> (bool \<times> mem) option" where
  "ring_push p data m = do {
     t \<leftarrow> load_u32 (rp_tail_off p) m;
     h \<leftarrow> load_u32 (rp_head_off p) m;
     if rp_capacity p \<le> t - h then Some (False, m)
     else do {
       m \<leftarrow> slot_store p t data m;
       m \<leftarrow> store_u32 (rp_tail_off p) (t + 1) m;
       Some (True, m) } }"

text \<open>\<open>fill\<close> writes the payload in place: it is given the bytes of the slot and gives the new ones.\<close>

definition ring_reserve_commit ::
    "ring_params \<Rightarrow> nat \<Rightarrow> (u8 list \<Rightarrow> u8 list) \<Rightarrow> mem \<Rightarrow> (bool \<times> mem) option" where
  "ring_reserve_commit p len fill m = do {
     t \<leftarrow> load_u32 (rp_tail_off p) m;
     h \<leftarrow> load_u32 (rp_head_off p) m;
     if rp_capacity p \<le> t - h then Some (False, m)
     else do {
       m \<leftarrow> store_u32 (slot_at p t) (of_nat len) m;
       payload \<leftarrow> mem_read (slot_at p t + 4) len m;
       m \<leftarrow> mem_write (slot_at p t + 4) (fill payload) m;
       m \<leftarrow> store_u32 (rp_tail_off p) (t + 1) m;
       Some (True, m) } }"

primrec batch_slots :: "ring_params \<Rightarrow> u8 list list \<Rightarrow> u32 \<Rightarrow> mem \<Rightarrow> (u32 \<times> mem) option" where
  "batch_slots p [] t m = Some (t, m)"
| "batch_slots p (pkt # pkts) t m = do {
     m \<leftarrow> slot_store p t pkt m;
     batch_slots p pkts (t + 1) m }"

definition ring_push_batch :: "ring_params \<Rightarrow> u8 list list \<Rightarrow> mem \<Rightarrow> (nat \<times> mem) option" where
  "ring_push_batch p pkts m =
     (if pkts = [] then Some (0, m)
      else do {
        t \<leftarrow> load_u32 (rp_tail_off p) m;
        h \<leftarrow> load_u32 (rp_head_off p) m;
        let free = rp_capacity p - (t - h);
            to_push = min (unat free) (length pkts)
        in if to_push = 0 then Some (0, m)
           else if rp_capacity p = 0 then None
           else do {
             (t, m) \<leftarrow> batch_slots p (take to_push pkts) t m;
             m \<leftarrow> store_u32 (rp_tail_off p) t m;
             Some (to_push, m) } })"

definition ring_peek_consume ::
    "ring_params \<Rightarrow> (u8 list \<Rightarrow> 'r) \<Rightarrow> mem \<Rightarrow> ('r option \<times> mem) option" where
  "ring_peek_consume p f m = do {
     h \<leftarrow> load_u32 (rp_head_off p) m;
     t \<leftarrow> load_u32 (rp_tail_off p) m;
     if h = t then Some (None, m)
     else if rp_capacity p = 0 then None
     else do {
       view \<leftarrow> slot_load p h m;
       m \<leftarrow> store_u32 (rp_head_off p) (h + 1) m;
       Some (Some (f view), m) } }"

definition ring_pop :: "ring_params \<Rightarrow> mem \<Rightarrow> (u8 list option \<times> mem) option" where
  "ring_pop p m = do {
     h \<leftarrow> load_u32 (rp_head_off p) m;
     t \<leftarrow> load_u32 (rp_tail_off p) m;
     if h = t then Some (None, m)
     else if rp_capacity p = 0 then None
     else do {
       data \<leftarrow> slot_load p h m;
       m \<leftarrow> store_u32 (rp_head_off p) (h + 1) m;
       Some (Some data, m) } }"

definition ring_has_data :: "ring_params \<Rightarrow> mem \<Rightarrow> bool option" where
  "ring_has_data p m = do {
     h \<leftarrow> load_u32 (rp_head_off p) m;
     t \<leftarrow> load_u32 (rp_tail_off p) m;
     Some (h \<noteq> t) }"

definition ring_has_space :: "ring_params \<Rightarrow> mem \<Rightarrow> bool option" where
  "ring_has_space p m = do {
     t \<leftarrow> load_u32 (rp_tail_off p) m;
     h \<leftarrow> load_u32 (rp_head_off p) m;
     Some (t - h < rp_capacity p) }"

section \<open>Layout\<close>

abbreviation slots_end :: "ring_params \<Rightarrow> nat" where
  "slots_end p \<equiv> rp_ring_off p + unat (rp_capacity p) * unat (slot_stride (rp_slot_size p))"

abbreviation apart :: "nat \<Rightarrow> nat \<Rightarrow> nat \<Rightarrow> nat \<Rightarrow> bool" where
  "apart a b c d \<equiv> b \<le> c \<or> d \<le> a"

definition layout_ok :: "ring_params \<Rightarrow> nat \<Rightarrow> bool" where
  "layout_ok p n \<longleftrightarrow> 0 < unat (rp_capacity p)
     \<and> rp_tail_off p + 4 \<le> n \<and> rp_head_off p + 4 \<le> n \<and> slots_end p \<le> n
     \<and> apart (rp_tail_off p) (rp_tail_off p + 4) (rp_head_off p) (rp_head_off p + 4)
     \<and> apart (rp_tail_off p) (rp_tail_off p + 4) (rp_ring_off p) (slots_end p)
     \<and> apart (rp_head_off p) (rp_head_off p + 4) (rp_ring_off p) (slots_end p)"

definition tail_of :: "ring_params \<Rightarrow> mem \<Rightarrow> u32" where
  "tail_of p m = the (load_u32 (rp_tail_off p) m)"

definition head_of :: "ring_params \<Rightarrow> mem \<Rightarrow> u32" where
  "head_of p m = the (load_u32 (rp_head_off p) m)"

lemma load_tail: "layout_ok p (length m) \<Longrightarrow> load_u32 (rp_tail_off p) m = Some (tail_of p m)"
  using load_u32_ok [of "rp_tail_off p" m] by (auto simp: layout_ok_def tail_of_def)

lemma load_head: "layout_ok p (length m) \<Longrightarrow> load_u32 (rp_head_off p) m = Some (head_of p m)"
  using load_u32_ok [of "rp_head_off p" m] by (auto simp: layout_ok_def head_of_def)

text \<open>Two counter values select the same slot or slots that do not overlap, all inside the ring.\<close>

lemma slot_index_less: "0 < unat c \<Longrightarrow> unat ((t :: u32) mod c) < unat c"
  by (simp add: unat_mod)

lemma slot_bounds:
  assumes "0 < unat (rp_capacity p)"
  shows "rp_ring_off p \<le> slot_at p t \<and> slot_at p t + 4 + unat (rp_slot_size p) \<le> slots_end p"
proof -
  let ?s = "unat (slot_stride (rp_slot_size p))"
  have "Suc (unat (t mod rp_capacity p)) * ?s \<le> unat (rp_capacity p) * ?s"
    using slot_index_less [OF assms, of t] by (intro mult_right_mono) auto
  then show ?thesis by (simp add: slot_at_def unat_slot_stride)
qed

lemma slot_apart:
  assumes "unat (t mod rp_capacity p) \<noteq> unat (t' mod rp_capacity p)"
  shows "apart (slot_at p t) (slot_at p t + 4 + unat (rp_slot_size p))
    (slot_at p t') (slot_at p t' + 4 + unat (rp_slot_size p))"
proof -
  let ?s = "4 + unat (rp_slot_size p)"
  let ?i = "unat (t mod rp_capacity p)" and ?j = "unat (t' mod rp_capacity p)"
  have step: "i * ?s + ?s \<le> j * ?s" if "i < j" for i j
  proof -
    have "Suc i * ?s \<le> j * ?s" using that by (intro mult_right_mono) auto
    then show ?thesis by simp
  qed
  have at: "slot_at p t = rp_ring_off p + ?i * ?s" "slot_at p t' = rp_ring_off p + ?j * ?s"
    by (simp_all add: slot_at_def unat_slot_stride)
  from assms consider "?i < ?j" | "?j < ?i" by linarith
  then show ?thesis
  proof cases
    case 1
    show ?thesis unfolding at using step [OF 1] by linarith
  next
    case 2
    show ?thesis unfolding at using step [OF 2] by linarith
  qed
qed

section \<open>Writing and reading a slot\<close>

text \<open>\<open>m'\<close> differs from \<open>m\<close> at most in the bytes from \<open>a\<close> up to \<open>b\<close>.\<close>

definition same_outside :: "nat \<Rightarrow> nat \<Rightarrow> mem \<Rightarrow> mem \<Rightarrow> bool" where
  "same_outside a b m m' \<longleftrightarrow> length m' = length m
     \<and> (\<forall>off n. off + n \<le> a \<or> b \<le> off \<longrightarrow> mem_read off n m' = mem_read off n m)"

lemma same_outside_refl: "same_outside a b m m"
  by (simp add: same_outside_def)

lemma same_outside_trans: "same_outside a b m m' \<Longrightarrow> same_outside a b m' m'' \<Longrightarrow> same_outside a b m m''"
  by (simp add: same_outside_def)

lemma same_outside_write:
  "mem_write off bs m = Some m' \<Longrightarrow> a \<le> off \<Longrightarrow> off + length bs \<le> b \<Longrightarrow> same_outside a b m m'"
  using mem_write_length mem_read_write_other by (fastforce simp: same_outside_def)

lemma same_outside_load_u32:
  "same_outside a b m m' \<Longrightarrow> off + 4 \<le> a \<or> b \<le> off \<Longrightarrow> load_u32 off m' = load_u32 off m"
  unfolding same_outside_def load_u32_def by metis

lemma same_outside_slot_load:
  assumes "same_outside a b m m'" and "apart (slot_at p t) (slot_at p t + 4 + unat (rp_slot_size p)) a b"
  shows "slot_load p t m' = slot_load p t m"
proof -
  have len: "load_u32 (slot_at p t) m' = load_u32 (slot_at p t) m"
    using assms by (intro same_outside_load_u32) auto
  have "mem_read (slot_at p t + 4) n m' = mem_read (slot_at p t + 4) n m"
    if "n \<le> unat (rp_slot_size p)" for n
    using assms that by (auto simp: same_outside_def)
  then show ?thesis by (simp add: slot_load_def len)
qed

lemma slot_load_ok:
  assumes "0 < unat (rp_capacity p)" and "slots_end p \<le> length m"
  shows "\<exists>data. slot_load p t m = Some data \<and> length data \<le> unat (rp_slot_size p)"
proof -
  note b = slot_bounds [OF assms(1), of t]
  obtain len where "load_u32 (slot_at p t) m = Some len"
    using load_u32_ok [of "slot_at p t" m] b assms(2) by auto
  moreover have "slot_at p t + 4 + min (unat len) (unat (rp_slot_size p)) \<le> length m"
    using b assms(2) min.cobounded2 [of "unat len" "unat (rp_slot_size p)"] by linarith
  ultimately show ?thesis by (simp add: slot_load_def mem_read_def)
qed

lemma slot_store_ok:
  assumes "0 < unat (rp_capacity p)" and "slots_end p \<le> length m"
    and "length data \<le> unat (rp_slot_size p)"
  obtains m' where "slot_store p t data m = Some m'"
    and "same_outside (slot_at p t) (slot_at p t + 4 + unat (rp_slot_size p)) m m'"
    and "slot_load p t m' = Some data"
proof -
  let ?a = "slot_at p t"
  note b = slot_bounds [OF assms(1), of t]
  have len: "unat (of_nat (length data) :: u32) = length data"
    using assms(3) unat_u32_less [of "rp_slot_size p"] by (simp add: unat_of_nat take_bit_nat_eq_self)
  obtain m1 where m1: "store_u32 ?a (of_nat (length data)) m = Some m1"
    using store_u32_ok [of ?a m] b assms(2) by fastforce
  have l1: "length m1 = length m" using m1 mem_write_length by (auto simp: store_u32_def)
  obtain m2 where m2: "mem_write (?a + 4) data m1 = Some m2"
    using mem_write_ok [of "?a + 4" data m1] l1 b assms(2,3) by fastforce
  have s1: "same_outside ?a (?a + 4 + unat (rp_slot_size p)) m m1"
    using m1 by (auto simp: store_u32_def intro!: same_outside_write)
  have s2: "same_outside ?a (?a + 4 + unat (rp_slot_size p)) m1 m2"
    using m2 assms(3) by (auto intro!: same_outside_write)
  have "load_u32 ?a m2 = load_u32 ?a m1"
    using mem_read_write_other [OF m2, of ?a 4] by (simp add: load_u32_def)
  then have "load_u32 ?a m2 = Some (of_nat (length data))"
    using load_store_u32 [OF m1] by simp
  then have "slot_load p t m2 = Some data"
    using mem_read_write [OF m2] len assms(3) by (simp add: slot_load_def)
  with m1 m2 s1 s2 show ?thesis
    by (intro that [of m2]) (auto simp: slot_store_def intro: same_outside_trans)
qed

end
