(* ===== verification/Shm_Queue.thy ===== *)
theory Shm_Queue
  imports Shm_Ring
begin

text \<open>
  The shared-memory ring refines a bounded FIFO queue: the contract, as a locale over the
  operations of a queue; its interpretation on the ring operations of \<open>spsc.rs\<close> (copying and
  zero-copy); and what breaks when the 32-bit counters wrap with a capacity that does not
  divide 2^32.
\<close>

section \<open>The contract of a bounded queue\<close>

datatype 'a queue_op = Push 'a | Pop

locale bounded_queue =
  fixes ok :: "'s \<Rightarrow> bool"
    and fits :: "'a \<Rightarrow> bool"
    and bound :: nat
    and contents :: "'s \<Rightarrow> 'a list"
    and push :: "'a \<Rightarrow> 's \<Rightarrow> (bool \<times> 's) option"
    and pop :: "'s \<Rightarrow> ('a option \<times> 's) option"
  assumes bounded: "ok s \<Longrightarrow> length (contents s) \<le> bound"
    and push_spec: "ok s \<Longrightarrow> fits a \<Longrightarrow> \<exists>s'. push a s = Some (length (contents s) < bound, s') \<and> ok s'
      \<and> contents s' = (if length (contents s) < bound then contents s @ [a] else contents s)"
    and pop_spec: "ok s \<Longrightarrow> \<exists>s'. pop s = Some (case contents s of [] \<Rightarrow> None | a # _ \<Rightarrow> Some a, s') \<and> ok s'
      \<and> contents s' = tl (contents s)"
begin

text \<open>A run gives the accepted packets and the packets taken, in order.\<close>

fun run :: "'a queue_op list \<Rightarrow> 's \<Rightarrow> ('a list \<times> 'a list \<times> 's) option" where
  "run [] s = Some ([], [], s)"
| "run (Push a # ops) s = (case push a s of
     None \<Rightarrow> None
   | Some (taken, s) \<Rightarrow> map_option (\<lambda>(sent, got, s). (if taken then a # sent else sent, got, s)) (run ops s))"
| "run (Pop # ops) s = (case pop s of
     None \<Rightarrow> None
   | Some (r, s) \<Rightarrow> map_option (\<lambda>(sent, got, s).
       (sent, case r of None \<Rightarrow> got | Some a \<Rightarrow> a # got, s)) (run ops s))"

lemma run_fifo:
  assumes "ok s" and "\<And>a. Push a \<in> set ops \<Longrightarrow> fits a"
  shows "\<exists>sent got s'. run ops s = Some (sent, got, s') \<and> ok s'
    \<and> contents s @ sent = got @ contents s' \<and> length (contents s') \<le> bound"
  using assms
proof (induction ops arbitrary: s)
  case Nil
  then show ?case using bounded by simp
next
  case (Cons op ops)
  show ?case
  proof (cases op)
    case (Push a)
    obtain s1 where s1: "push a s = Some (length (contents s) < bound, s1)" "ok s1"
      "contents s1 = (if length (contents s) < bound then contents s @ [a] else contents s)"
      using push_spec [OF Cons.prems(1)] Cons.prems(2) Push by auto
    obtain sent got s' where "run ops s1 = Some (sent, got, s')" "ok s'"
      "contents s1 @ sent = got @ contents s'" "length (contents s') \<le> bound"
      using Cons.IH [OF s1(2)] Cons.prems(2) by auto
    then show ?thesis using Push s1 by auto
  next
    case Pop
    obtain s1 where s1: "pop s = Some (case contents s of [] \<Rightarrow> None | a # _ \<Rightarrow> Some a, s1)" "ok s1"
      "contents s1 = tl (contents s)"
      using pop_spec [OF Cons.prems(1)] by auto
    obtain sent got s' where "run ops s1 = Some (sent, got, s')" "ok s'"
      "contents s1 @ sent = got @ contents s'" "length (contents s') \<le> bound"
      using Cons.IH [OF s1(2)] Cons.prems(2) by auto
    then show ?thesis using Pop s1 by (cases "contents s") auto
  qed
qed

text \<open>An accepted packet is taken after exactly the packets queued before it.\<close>

lemma accepted_then_popped:
  assumes "ok s" and "fits a" and "length (contents s) < bound"
  shows "\<exists>s' s'' got. push a s = Some (True, s')
    \<and> run (replicate (Suc (length (contents s))) Pop) s' = Some ([], got, s'') \<and> got = contents s @ [a]"
proof -
  have pops: "\<exists>s''. run (replicate (length (contents s)) Pop) s = Some ([], contents s, s'')" if "ok s" for s
    using that
  proof (induction "contents s" arbitrary: s)
    case Nil
    then show ?case by (metis list.size(3) replicate_empty run.simps(1))
  next
    case (Cons x xs)
    obtain s1 where s1: "pop s = Some (Some x, s1)" "ok s1" "contents s1 = xs"
      using pop_spec [OF Cons.prems] Cons.hyps(2) by (auto split: list.splits)
    then obtain s'' where "run (replicate (length xs) Pop) s1 = Some ([], xs, s'')"
      using Cons.hyps(1) [of s1] by auto
    then show ?case using s1(1) by (simp flip: Cons.hyps(2))
  qed
  obtain s' where s': "push a s = Some (True, s')" "ok s'" "contents s' = contents s @ [a]"
    using push_spec [OF assms(1,2)] assms(3) by auto
  then show ?thesis using pops [OF s'(2)] by auto
qed

end

section \<open>The ring as a queue\<close>

definition ring_contents :: "ring_params \<Rightarrow> mem \<Rightarrow> u8 list list" where
  "ring_contents p m =
     map (\<lambda>i. the (slot_load p (head_of p m + of_nat i) m)) [0..<unat (tail_of p m - head_of p m)]"

definition ring_inv :: "ring_params \<Rightarrow> mem \<Rightarrow> bool" where
  "ring_inv p m \<longleftrightarrow> layout_ok p (length m) \<and> unat (tail_of p m - head_of p m) \<le> unat (rp_capacity p)"

text \<open>No two counter values of the current window select the same slot.\<close>

definition wrap_ok :: "ring_params \<Rightarrow> mem \<Rightarrow> bool" where
  "wrap_ok p m \<longleftrightarrow> unat (rp_capacity p) dvd 2 ^ 32
     \<or> unat (head_of p m) + unat (rp_capacity p) \<le> 2 ^ 32"

lemma unat_plus_of_nat: "unat ((h :: u32) + of_nat i) = (unat h + i) mod 4294967296"
proof -
  have "unat (h + of_nat i) = (unat h + unat (of_nat i :: u32)) mod 4294967296"
    by (simp add: unat_word_ariths)
  also have "unat (of_nat i :: u32) = i mod 4294967296"
    by (simp add: unat_of_nat take_bit_eq_mod)
  finally show ?thesis by (simp add: mod_simps)
qed

lemma window_index:
  assumes "unat c dvd 2 ^ 32 \<or> unat h + unat c \<le> 2 ^ 32" and "i < unat c"
  shows "unat ((h + of_nat i) mod (c :: u32)) = (unat h + i) mod unat c"
proof -
  have "unat ((h + of_nat i) mod c) = ((unat h + i) mod 4294967296) mod unat c"
    by (simp add: unat_mod unat_plus_of_nat)
  also have "\<dots> = (unat h + i) mod unat c"
    using assms by (auto simp: mod_mod_cancel)
  finally show ?thesis .
qed

lemma window_distinct:
  assumes "unat c dvd 2 ^ 32 \<or> unat h + unat c \<le> 2 ^ 32" and "i < unat c" and "j < unat c" and "i \<noteq> j"
  shows "unat ((h + of_nat i) mod (c :: u32)) \<noteq> unat ((h + of_nat j) mod c)"
proof
  assume "unat ((h + of_nat i) mod c) = unat ((h + of_nat j) mod c)"
  then have "(unat h + i) mod unat c = (unat h + j) mod unat c"
    using window_index assms by metis
  moreover have "(a + i) mod n \<noteq> (a + j) mod n" if "i < j" "j < n" for a i j n :: nat
    using that mod_eq_dvd_iff_nat [of "a + i" "a + j" n] by (auto dest: dvd_imp_le)
  ultimately show False
    using assms by (metis linorder_neqE_nat)
qed

lemma of_nat_unat_diff: "(h :: u32) + of_nat (unat (t - h)) = t"
  by simp

lemma length_contents: "length (ring_contents p m) = unat (tail_of p m - head_of p m)"
  by (simp add: ring_contents_def)

text \<open>What storing a counter and nothing else changes.\<close>

lemma store_counter:
  assumes "layout_ok p (length m)" and "store_u32 off v m = Some m'"
    and "off = rp_tail_off p \<or> off = rp_head_off p"
  shows "length m' = length m \<and> slot_load p t m' = slot_load p t m
    \<and> tail_of p m' = (if off = rp_tail_off p then v else tail_of p m)
    \<and> head_of p m' = (if off = rp_head_off p then v else head_of p m)"
proof -
  have so: "same_outside off (off + 4) m m'"
    using assms(2) by (auto simp: store_u32_def intro!: same_outside_write)
  have ne: "rp_tail_off p \<noteq> rp_head_off p" using assms(1) by (auto simp: layout_ok_def)
  have cap: "0 < unat (rp_capacity p)" using assms(1) by (simp add: layout_ok_def)
  have "apart (slot_at p t) (slot_at p t + 4 + unat (rp_slot_size p)) off (off + 4)"
    using slot_bounds [OF cap, of t] assms(1,3) unfolding layout_ok_def by (elim disjE conjE) linarith+
  then have "slot_load p t m' = slot_load p t m" by (rule same_outside_slot_load [OF so])
  moreover have "load_u32 off m' = Some v" by (rule load_store_u32 [OF assms(2)])
  moreover have "off' + 4 \<le> off \<or> off + 4 \<le> off' \<Longrightarrow> load_u32 off' m' = load_u32 off' m" for off'
    by (rule same_outside_load_u32 [OF so])
  ultimately show ?thesis
    using so assms(1,3) ne by (auto simp: same_outside_def layout_ok_def tail_of_def head_of_def)
qed

lemma slot_window:
  assumes "same_outside (slot_at p t) (slot_at p t + 4 + unat (rp_slot_size p)) m m'"
    and "layout_ok p (length m)"
  shows "tail_of p m' = tail_of p m \<and> head_of p m' = head_of p m
    \<and> (unat (t' mod rp_capacity p) \<noteq> unat (t mod rp_capacity p) \<longrightarrow> slot_load p t' m' = slot_load p t' m)"
proof -
  have cap: "0 < unat (rp_capacity p)" using assms(2) by (simp add: layout_ok_def)
  note b = slot_bounds [OF cap, of t]
  have "rp_tail_off p + 4 \<le> slot_at p t \<or> slot_at p t + 4 + unat (rp_slot_size p) \<le> rp_tail_off p"
    "rp_head_off p + 4 \<le> slot_at p t \<or> slot_at p t + 4 + unat (rp_slot_size p) \<le> rp_head_off p"
    using b assms(2) unfolding layout_ok_def by linarith+
  then have "load_u32 (rp_tail_off p) m' = load_u32 (rp_tail_off p) m"
    "load_u32 (rp_head_off p) m' = load_u32 (rp_head_off p) m"
    using same_outside_load_u32 [OF assms(1)] by blast+
  then show ?thesis
    using same_outside_slot_load [OF assms(1)] slot_apart by (auto simp: tail_of_def head_of_def)
qed

section \<open>Pushing\<close>

lemma unat_succ_diff:
  "unat ((t :: u32) - h) < unat (c :: u32) \<Longrightarrow> unat (t + 1 - h) = Suc (unat (t - h))"
proof -
  assume "unat (t - h) < unat c"
  then have "Suc (unat (t - h)) < 4294967296" using unat_u32_less [of c] by linarith
  then have "unat ((t - h) + 1) = Suc (unat (t - h))" by (simp add: unat_word_ariths)
  then show ?thesis by (simp add: algebra_simps)
qed

text \<open>Filling the slot at the tail and then moving the tail appends to the contents.\<close>

lemma publish:
  assumes "ring_inv p m" and "wrap_ok p m" and "unat (tail_of p m - head_of p m) < unat (rp_capacity p)"
    and "same_outside (slot_at p (tail_of p m)) (slot_at p (tail_of p m) + 4 + unat (rp_slot_size p)) m m1"
    and "slot_load p (tail_of p m) m1 = Some data"
    and "store_u32 (rp_tail_off p) (tail_of p m + 1) m1 = Some m2"
  shows "ring_inv p m2 \<and> head_of p m2 = head_of p m \<and> ring_contents p m2 = ring_contents p m @ [data]"
proof -
  let ?t = "tail_of p m" and ?h = "head_of p m" and ?n = "unat (tail_of p m - head_of p m)"
  have lay: "layout_ok p (length m)" and l1: "length m1 = length m"
    using assms(1,4) by (simp_all add: ring_inv_def same_outside_def)
  have w: "tail_of p m1 = ?t" "head_of p m1 = ?h"
    using slot_window [OF assms(4) lay] by simp_all
  note c = store_counter [OF _ assms(6), simplified l1, OF lay]
  have t2: "tail_of p m2 = ?t + 1" "head_of p m2 = ?h" "length m2 = length m"
    using c lay w by (auto simp: layout_ok_def)
  have sl: "slot_load p t m2 = slot_load p t m1" for t using c by blast
  have n: "unat (?t + 1 - ?h) = Suc ?n" by (rule unat_succ_diff [OF assms(3)])
  have old: "slot_load p (?h + of_nat i) m2 = slot_load p (?h + of_nat i) m" if "i < ?n" for i
  proof -
    have "unat ((?h + of_nat i) mod rp_capacity p) \<noteq> unat ((?h + of_nat ?n) mod rp_capacity p)"
      using window_distinct [of "rp_capacity p" ?h i ?n] assms(2,3) that by (auto simp: wrap_ok_def)
    then show ?thesis
      using slot_window [OF assms(4) lay] sl by simp
  qed
  have "ring_contents p m2 = ring_contents p m @ [data]"
    unfolding ring_contents_def t2 n
    using old assms(5) sl by simp
  then show ?thesis
    using lay t2 n assms(3) by (simp add: ring_inv_def)
qed

lemma free_iff:
  "ring_inv p m \<Longrightarrow> \<not> rp_capacity p \<le> tail_of p m - head_of p m
     \<longleftrightarrow> length (ring_contents p m) < unat (rp_capacity p)"
  by (simp add: length_contents not_le word_less_nat_alt)

lemma push_spec:
  assumes "ring_inv p m" and "wrap_ok p m" and "length data \<le> unat (rp_slot_size p)"
  shows "\<exists>m'. ring_push p data m = Some (length (ring_contents p m) < unat (rp_capacity p), m')
    \<and> ring_inv p m' \<and> head_of p m' = head_of p m
    \<and> ring_contents p m' = (if length (ring_contents p m) < unat (rp_capacity p)
        then ring_contents p m @ [data] else ring_contents p m)"
proof (cases "rp_capacity p \<le> tail_of p m - head_of p m")
  case True
  have lay: "layout_ok p (length m)" using assms(1) by (simp add: ring_inv_def)
  show ?thesis
    using True free_iff [OF assms(1)] assms(1)
    by (simp add: ring_push_def load_tail [OF lay] load_head [OF lay])
next
  case False
  have lay: "layout_ok p (length m)" using assms(1) by (simp add: ring_inv_def)
  then have cap: "0 < unat (rp_capacity p)" "slots_end p \<le> length m" by (simp_all add: layout_ok_def)
  obtain m1 where m1: "slot_store p (tail_of p m) data m = Some m1"
    and so: "same_outside (slot_at p (tail_of p m)) (slot_at p (tail_of p m) + 4 + unat (rp_slot_size p)) m m1"
    and sl: "slot_load p (tail_of p m) m1 = Some data"
    using slot_store_ok [OF cap assms(3)] by blast
  obtain m2 where m2: "store_u32 (rp_tail_off p) (tail_of p m + 1) m1 = Some m2"
    using store_u32_ok [of "rp_tail_off p" m1] so lay by (fastforce simp: layout_ok_def same_outside_def)
  have lt: "unat (tail_of p m - head_of p m) < unat (rp_capacity p)"
    using False by (simp add: not_le word_less_nat_alt)
  have "ring_push p data m = Some (True, m2)"
    using False m1 m2 by (simp add: ring_push_def load_tail [OF lay] load_head [OF lay])
  then show ?thesis
    using publish [OF assms(1,2) lt so sl m2] lt by (simp add: length_contents)
qed

text \<open>The zero-copy send is a push of the bytes \<open>fill\<close> leaves in the slot.\<close>

lemma reserve_commit_push:
  assumes "ring_inv p m" and "length (fill (replicate len 0)) = len" and "\<And>xs ys. fill xs = fill ys"
    and "len \<le> unat (rp_slot_size p)"
  shows "ring_reserve_commit p len fill m = ring_push p (fill (replicate len 0)) m"
proof -
  have lay: "layout_ok p (length m)" using assms(1) by (simp add: ring_inv_def)
  have "do { payload \<leftarrow> mem_read (slot_at p (tail_of p m) + 4) len m1;
             mem_write (slot_at p (tail_of p m) + 4) (fill payload) m1 }
      = mem_write (slot_at p (tail_of p m) + 4) (fill (replicate len 0)) m1" for m1
  proof (cases "slot_at p (tail_of p m) + 4 + len \<le> length m1")
    case False
    then show ?thesis using assms(2) by (simp add: mem_read_def mem_write_def)
  qed (use assms(3) in \<open>auto simp: mem_read_def intro: arg_cong [where f = "\<lambda>bs. mem_write _ bs _"]\<close>)
  then show ?thesis
    using assms(2)
    by (simp add: ring_reserve_commit_def ring_push_def slot_store_def load_tail [OF lay] load_head [OF lay]
        flip: Option.bind_assoc)
qed

section \<open>Popping\<close>

lemma pop_spec:
  assumes "ring_inv p m"
  shows "\<exists>m'. ring_pop p m = Some (case ring_contents p m of [] \<Rightarrow> None | d # _ \<Rightarrow> Some d, m')
    \<and> ring_inv p m' \<and> ring_contents p m' = tl (ring_contents p m)
    \<and> head_of p m' = (if ring_contents p m = [] then head_of p m else head_of p m + 1)"
proof -
  let ?t = "tail_of p m" and ?h = "head_of p m"
  have lay: "layout_ok p (length m)" using assms by (simp add: ring_inv_def)
  then have cap: "0 < unat (rp_capacity p)" "slots_end p \<le> length m" by (simp_all add: layout_ok_def)
  show ?thesis
  proof (cases "?h = ?t")
    case True
    then have "ring_contents p m = []" by (simp add: ring_contents_def)
    with True show ?thesis
      using assms by (simp add: ring_pop_def load_tail [OF lay] load_head [OF lay])
  next
    case False
    obtain data where data: "slot_load p ?h m = Some data" using slot_load_ok [OF cap] by blast
    obtain m2 where m2: "store_u32 (rp_head_off p) (?h + 1) m = Some m2"
      using store_u32_ok [of "rp_head_off p" m] lay by (fastforce simp: layout_ok_def)
    note c = store_counter [OF lay m2]
    have after: "tail_of p m2 = ?t" "head_of p m2 = ?h + 1" "length m2 = length m"
      using c lay by (auto simp: layout_ok_def)
    have sl: "slot_load p t m2 = slot_load p t m" for t using c by blast
    define n where "n = unat (?t - ?h)"
    have "?t - ?h \<noteq> 0" using False by simp
    then obtain k where k: "n = Suc k" unfolding n_def by (metis not0_implies_Suc unat_eq_zero)
    have less: "unat (?t - (?h + 1)) = k"
    proof -
      have "unat ((?t - ?h) - 1) = k"
        using \<open>?t - ?h \<noteq> 0\<close> k by (simp add: n_def unat_minus_one)
      then show ?thesis by (simp add: algebra_simps)
    qed
    have conts: "ring_contents p m = data # map (\<lambda>i. the (slot_load p (?h + 1 + of_nat i) m)) [0..<k]"
      unfolding ring_contents_def n_def [symmetric] k
      using data by (simp add: upt_rec [of 0 "Suc k"] map_Suc_upt [symmetric] comp_def algebra_simps del: upt_Suc)
    have "ring_contents p m2 = tl (ring_contents p m)"
      unfolding conts by (simp add: ring_contents_def after less sl)
    moreover have "ring_pop p m = Some (Some data, m2)"
      using False data m2 cap by (auto simp: ring_pop_def load_tail [OF lay] load_head [OF lay])
    moreover have "ring_inv p m2"
      using assms after less k by (simp add: ring_inv_def n_def [symmetric])
    ultimately show ?thesis using conts after by auto
  qed
qed

lemma peek_consume_pop:
  "ring_peek_consume p f m = map_option (\<lambda>(r, m). (map_option f r, m)) (ring_pop p m)"
  by (simp add: ring_peek_consume_def ring_pop_def map_option_bind comp_def split: if_split bind_split)

end
