(* ===== verification/Shm_Safety.thy ===== *)
theory Shm_Safety
  imports Shm_Queue
begin

text \<open>
  The properties of the ring operations over a region whose geometry was validated: memory
  safety whatever the peer wrote into the region, independence of the two rings, the FIFO
  refinement, batches, and the sizes the geometry functions give.
\<close>

section \<open>Any bytes in the region\<close>

definition same_except :: "(nat \<times> nat) list \<Rightarrow> mem \<Rightarrow> mem \<Rightarrow> bool" where
  "same_except cells m m' \<longleftrightarrow> length m' = length m
     \<and> (\<forall>off n. list_all (\<lambda>(a, b). apart off (off + n) a b) cells \<longrightarrow> mem_read off n m' = mem_read off n m)"

lemma same_except_refl: "same_except cells m m"
  by (simp add: same_except_def)

lemma same_except_trans:
  "same_except cells m m' \<Longrightarrow> same_except cells m' m'' \<Longrightarrow> same_except cells m m''"
  by (simp add: same_except_def)

lemma same_except_cell:
  assumes "same_outside a b m m'" and "(a', b') \<in> set cells" and "a' \<le> a" and "b \<le> b'"
  shows "same_except cells m m'"
  using assms unfolding same_except_def same_outside_def list_all_iff by fastforce

abbreviation push_cells :: "ring_params \<Rightarrow> (nat \<times> nat) list" where
  "push_cells p \<equiv> [(rp_tail_off p, rp_tail_off p + 4), (rp_ring_off p, slots_end p)]"

abbreviation pop_cells :: "ring_params \<Rightarrow> (nat \<times> nat) list" where
  "pop_cells p \<equiv> [(rp_head_off p, rp_head_off p + 4)]"

lemma store_tail_safe:
  assumes "layout_ok p (length m)"
  shows "\<exists>m'. store_u32 (rp_tail_off p) v m = Some m' \<and> same_except (push_cells p) m m'"
proof -
  obtain m' where m': "store_u32 (rp_tail_off p) v m = Some m'"
    using store_u32_ok assms by (fastforce simp: layout_ok_def)
  then have so: "same_outside (rp_tail_off p) (rp_tail_off p + 4) m m'"
    by (auto simp: store_u32_def intro!: same_outside_write)
  have "same_except (push_cells p) m m'"
    by (rule same_except_cell [OF so, of "rp_tail_off p" "rp_tail_off p + 4"]) simp_all
  then show ?thesis using m' by blast
qed

lemma slot_store_safe:
  assumes "layout_ok p (length m)" and "length data \<le> unat (rp_slot_size p)"
  shows "\<exists>m'. slot_store p t data m = Some m' \<and> same_except (push_cells p) m m'"
proof -
  have cap: "0 < unat (rp_capacity p)" "slots_end p \<le> length m"
    using assms(1) by (simp_all add: layout_ok_def)
  obtain m' where m': "slot_store p t data m = Some m'"
    and so: "same_outside (slot_at p t) (slot_at p t + 4 + unat (rp_slot_size p)) m m'"
    using slot_store_ok [OF cap assms(2)] by blast
  have "same_except (push_cells p) m m'"
    using slot_bounds [OF cap(1), of t] by (intro same_except_cell [OF so, of "rp_ring_off p" "slots_end p"]) auto
  then show ?thesis using m' by blast
qed

lemma push_safe:
  assumes "layout_ok p (length m)" and "length data \<le> unat (rp_slot_size p)"
  shows "\<exists>b m'. ring_push p data m = Some (b, m') \<and> same_except (push_cells p) m m'"
proof (cases "rp_capacity p \<le> tail_of p m - head_of p m")
  case True
  then have "ring_push p data m = Some (False, m)"
    by (simp add: ring_push_def load_tail [OF assms(1)] load_head [OF assms(1)])
  then show ?thesis using same_except_refl by blast
next
  case False
  obtain m1 where m1: "slot_store p (tail_of p m) data m = Some m1" "same_except (push_cells p) m m1"
    using slot_store_safe [OF assms] by blast
  have l1: "layout_ok p (length m1)" using assms(1) m1(2) by (simp add: same_except_def)
  obtain m2 where "store_u32 (rp_tail_off p) (tail_of p m + 1) m1 = Some m2" "same_except (push_cells p) m1 m2"
    using store_tail_safe [OF l1] by blast
  then have "ring_push p data m = Some (True, m2)" "same_except (push_cells p) m m2"
    using False m1 same_except_trans [OF m1(2)]
    by (simp_all add: ring_push_def load_tail [OF assms(1)] load_head [OF assms(1)])
  then show ?thesis by blast
qed

lemma batch_slots_safe:
  assumes "layout_ok p (length m)" and "list_all (\<lambda>d. length d \<le> unat (rp_slot_size p)) pkts"
  shows "\<exists>m'. batch_slots p pkts t m = Some (t + of_nat (length pkts), m') \<and> same_except (push_cells p) m m'"
  using assms
proof (induction pkts arbitrary: t m)
  case Nil
  then show ?case by (simp add: same_except_refl)
next
  case (Cons d pkts)
  obtain m1 where m1: "slot_store p t d m = Some m1" "same_except (push_cells p) m m1"
    using slot_store_safe [OF Cons.prems(1)] Cons.prems(2) by fastforce
  have "layout_ok p (length m1)" using Cons.prems(1) m1(2) by (simp add: same_except_def)
  then obtain m2 where "batch_slots p pkts (t + 1) m1 = Some (t + 1 + of_nat (length pkts), m2)"
    "same_except (push_cells p) m1 m2"
    using Cons.IH Cons.prems(2) by fastforce
  then show ?case using m1 same_except_trans [OF m1(2)] by (auto simp: algebra_simps)
qed

lemma batch_safe:
  assumes "layout_ok p (length m)" and "list_all (\<lambda>d. length d \<le> unat (rp_slot_size p)) pkts"
  shows "\<exists>n m'. ring_push_batch p pkts m = Some (n, m') \<and> same_except (push_cells p) m m'"
proof -
  let ?free = "unat (rp_capacity p - (tail_of p m - head_of p m))"
  have cap: "rp_capacity p \<noteq> 0" using assms(1) by (auto simp: layout_ok_def)
  show ?thesis
  proof (cases "pkts = [] \<or> min ?free (length pkts) = 0")
    case True
    then show ?thesis
      by (auto simp: ring_push_batch_def load_tail [OF assms(1)] load_head [OF assms(1)] same_except_refl)
  next
    case False
    have "list_all (\<lambda>d. length d \<le> unat (rp_slot_size p)) (take (min ?free (length pkts)) pkts)"
      using assms(2) by (auto simp: list_all_iff dest: in_set_takeD)
    then obtain t' m1 where m1: "batch_slots p (take (min ?free (length pkts)) pkts) (tail_of p m) m = Some (t', m1)"
      "same_except (push_cells p) m m1"
      using batch_slots_safe [OF assms(1)] by blast
    then have l1: "layout_ok p (length m1)" using assms(1) by (simp add: same_except_def)
    obtain m2 where "store_u32 (rp_tail_off p) t' m1 = Some m2" "same_except (push_cells p) m1 m2"
      using store_tail_safe [OF l1] by blast
    then show ?thesis
      using False cap m1 same_except_trans [OF m1(2)]
      by (auto simp: ring_push_batch_def Let_def load_tail [OF assms(1)] load_head [OF assms(1)])
  qed
qed

lemma pop_safe:
  assumes "layout_ok p (length m)"
  shows "\<exists>r m'. ring_pop p m = Some (r, m') \<and> same_except (pop_cells p) m m'"
proof (cases "head_of p m = tail_of p m")
  case True
  then show ?thesis
    by (simp add: ring_pop_def load_tail [OF assms] load_head [OF assms] same_except_refl)
next
  case False
  have cap: "0 < unat (rp_capacity p)" "slots_end p \<le> length m"
    using assms by (simp_all add: layout_ok_def)
  obtain d where "slot_load p (head_of p m) m = Some d" using slot_load_ok [OF cap] by blast
  moreover obtain m' where m': "store_u32 (rp_head_off p) (head_of p m + 1) m = Some m'"
    using store_u32_ok assms by (fastforce simp: layout_ok_def)
  moreover have "same_outside (rp_head_off p) (rp_head_off p + 4) m m'"
    using m' by (auto simp: store_u32_def intro!: same_outside_write)
  then have "same_except (pop_cells p) m m'" using same_except_cell by fastforce
  ultimately show ?thesis
    using False cap by (auto simp: ring_pop_def load_tail [OF assms] load_head [OF assms])
qed

section \<open>The two rings of a validated region\<close>

lemma connect_geometryD:
  assumes "connect_geometry header = Some (Inr (capacity, slot_size, bytes))"
  shows "0 < unat capacity \<and> 0 < unat slot_size \<and> unat bytes = total_bytes capacity slot_size
    \<and> total_bytes capacity slot_size \<le> 268435456"
proof -
  obtain r where "read_header header = Some r"
    using assms by (auto simp: connect_geometry_def bind_eq_Some_conv)
  then have v: "validate_geometry capacity slot_size = Inr () \<and> bytes = shm_total_size capacity slot_size"
    using assms by (cases r) (auto simp: connect_geometry_def split: sum.splits)
  then show ?thesis
    using unat_shm_total_size [of capacity slot_size] by (simp add: validate_geometry_iff)
qed

lemma unat_e2a_offset:
  assumes "total_bytes capacity slot_size \<le> 268435456"
  shows "unat (e2a_ring_offset capacity slot_size) = 448 + unat capacity * (4 + unat slot_size)"
proof -
  have "448 + unat capacity * (4 + unat slot_size) < 18446744073709551616"
    using assms by (simp add: total_bytes_def)
  then show ?thesis
    by (simp add: e2a_ring_offset_def HEADER_SIZE_def unat_word_ariths unat_slot_stride)
qed

lemma layouts:
  assumes "0 < unat capacity" and "total_bytes capacity slot_size \<le> 268435456"
  shows "layout_ok (a2e_params capacity slot_size) (total_bytes capacity slot_size)
    \<and> layout_ok (e2a_params capacity slot_size) (total_bytes capacity slot_size)
    \<and> slots_end (a2e_params capacity slot_size) = rp_ring_off (e2a_params capacity slot_size)"
  using assms unat_e2a_offset [OF assms(2)]
  by (simp add: layout_ok_def a2e_params_def e2a_params_def layout_defs a2e_ring_offset_def
      unat_slot_stride total_bytes_def)

lemma same_except_contents:
  assumes "same_except cells m m'" and "layout_ok p (length m)"
    and "list_all (\<lambda>(a, b). apart (rp_tail_off p) (rp_tail_off p + 4) a b
      \<and> apart (rp_head_off p) (rp_head_off p + 4) a b \<and> apart (rp_ring_off p) (slots_end p) a b) cells"
  shows "ring_contents p m' = ring_contents p m"
proof -
  have cap: "0 < unat (rp_capacity p)" using assms(2) by (simp add: layout_ok_def)
  have read: "mem_read off n m' = mem_read off n m"
    if "list_all (\<lambda>(a, b). apart off (off + n) a b) cells" for off n
    using assms(1) that by (simp add: same_except_def)
  have "mem_read (rp_tail_off p) 4 m' = mem_read (rp_tail_off p) 4 m"
    "mem_read (rp_head_off p) 4 m' = mem_read (rp_head_off p) 4 m"
    by (rule read, use assms(3) in \<open>auto simp: list_all_iff\<close>)+
  then have "load_u32 (rp_tail_off p) m' = load_u32 (rp_tail_off p) m"
    "load_u32 (rp_head_off p) m' = load_u32 (rp_head_off p) m"
    by (simp_all add: load_u32_def)
  moreover have inside: "mem_read off n m' = mem_read off n m"
    if "rp_ring_off p \<le> off" "off + n \<le> slots_end p" for off n
    using that assms(3) by (intro read) (fastforce simp: list_all_iff)
  have "slot_load p t m' = slot_load p t m" for t
  proof -
    note b = slot_bounds [OF cap, of t]
    have "load_u32 (slot_at p t) m' = load_u32 (slot_at p t) m"
      using b inside [of "slot_at p t" 4] by (simp add: load_u32_def)
    moreover have "mem_read (slot_at p t + 4) n m' = mem_read (slot_at p t + 4) n m"
      if "n \<le> unat (rp_slot_size p)" for n
      using b that by (intro inside) linarith+
    ultimately show ?thesis by (simp add: slot_load_def)
  qed
  ultimately show ?thesis by (simp add: ring_contents_def tail_of_def head_of_def)
qed

section \<open>Properties\<close>

text \<open>
  (C23) Memory safety against a hostile peer. Once the header's geometry passed the checks of
  \<open>connect\<close> and a region of the size they give is mapped, then whatever bytes the peer put into
  it, counters and lengths included, every operation of either ring stays inside the mapping;
  a push changes only its own ring and tail cell, a pop only its own head cell, and neither
  changes what the other ring holds.
\<close>

theorem ring_ops_memory_safe:
  assumes "connect_geometry header = Some (Inr (capacity, slot_size, bytes))"
    and "length m = unat bytes" and "length data \<le> unat slot_size"
    and "list_all (\<lambda>d. length d \<le> unat slot_size) pkts"
    and "p = a2e_params capacity slot_size \<and> other = e2a_params capacity slot_size
      \<or> p = e2a_params capacity slot_size \<and> other = a2e_params capacity slot_size"
  shows "\<exists>b m1 n m2 r m3. ring_push p data m = Some (b, m1)
    \<and> ring_push_batch p pkts m = Some (n, m2) \<and> ring_pop p m = Some (r, m3)
    \<and> same_except (push_cells p) m m1 \<and> same_except (push_cells p) m m2 \<and> same_except (pop_cells p) m m3
    \<and> ring_contents other m1 = ring_contents other m
    \<and> ring_contents other m2 = ring_contents other m
    \<and> ring_contents other m3 = ring_contents other m"
proof -
  note geo = connect_geometryD [OF assms(1)]
  note lay = layouts [of capacity slot_size]
  have m: "length m = total_bytes capacity slot_size" using geo assms(2) by simp
  have slot: "rp_slot_size p = slot_size" using assms(5) by (auto simp: a2e_params_def e2a_params_def)
  have p: "layout_ok p (length m)" and other: "layout_ok other (length m)"
    using assms(5) lay geo m by auto
  obtain b m1 where m1: "ring_push p data m = Some (b, m1)" "same_except (push_cells p) m m1"
    using push_safe [OF p, of data] assms(3) slot by auto
  obtain n m2 where m2: "ring_push_batch p pkts m = Some (n, m2)" "same_except (push_cells p) m m2"
    using batch_safe [OF p, of pkts] assms(4) slot by auto
  obtain r m3 where m3: "ring_pop p m = Some (r, m3)" "same_except (pop_cells p) m m3"
    using pop_safe [OF p] by auto
  have push_cells: "list_all (\<lambda>(a, b). apart (rp_tail_off other) (rp_tail_off other + 4) a b
      \<and> apart (rp_head_off other) (rp_head_off other + 4) a b
      \<and> apart (rp_ring_off other) (slots_end other) a b) (push_cells p)"
    using assms(5) lay geo unat_e2a_offset [of capacity slot_size]
    by (auto simp: a2e_params_def e2a_params_def layout_defs a2e_ring_offset_def unat_slot_stride)
  have pop_cells: "list_all (\<lambda>(a, b). apart (rp_tail_off other) (rp_tail_off other + 4) a b
      \<and> apart (rp_head_off other) (rp_head_off other + 4) a b
      \<and> apart (rp_ring_off other) (slots_end other) a b) (pop_cells p)"
    using assms(5) lay geo unat_e2a_offset [of capacity slot_size]
    by (auto simp: a2e_params_def e2a_params_def layout_defs a2e_ring_offset_def unat_slot_stride)
  show ?thesis
    using m1 m2 m3 same_except_contents [OF m1(2) other push_cells]
      same_except_contents [OF m2(2) other push_cells] same_except_contents [OF m3(2) other pop_cells]
    by blast
qed

section \<open>A fresh region\<close>

text \<open>\<open>create_with\<close> and \<open>create_anon_with\<close>: the region is zero-filled, then the header is written.\<close>

definition create_region :: "u32 \<Rightarrow> u32 \<Rightarrow> mem option" where
  "create_region capacity slot_size =
     write_header capacity slot_size (replicate (unat (shm_total_size capacity slot_size)) 0)"

lemma from_le_zeros: "from_le (replicate n 0) = 0"
  by (induction n) simp_all

lemma load_zeros: "off + 4 \<le> n \<Longrightarrow> load_u32 off (replicate n 0) = Some 0"
  by (simp add: load_u32_def mem_read_def from_le_zeros min_def)

lemma write_header_spec:
  assumes "448 \<le> length m"
  shows "\<exists>m'. write_header capacity slot_size m = Some m' \<and> same_outside 0 16 m m'
    \<and> read_header m' = Some (Inr (capacity, slot_size))"
proof -
  obtain m1 where m1: "store_u64 0 MAGIC m = Some m1"
    using mem_write_ok [of 0 "to_le 8 MAGIC" m] assms by (auto simp: store_u64_def)
  have l1: "length m1 = length m" using m1 mem_write_length by (auto simp: store_u64_def)
  obtain m2 where m2: "store_u32 8 capacity m1 = Some m2" using store_u32_ok [of 8 m1] l1 assms by auto
  have l2: "length m2 = length m" using m2 l1 mem_write_length by (fastforce simp: store_u32_def)
  obtain m3 where m3: "store_u32 12 slot_size m2 = Some m3" using store_u32_ok [of 12 m2] l2 assms by auto
  have s1: "same_outside 0 8 m m1" using m1 by (auto simp: store_u64_def intro!: same_outside_write)
  have s2: "same_outside 8 12 m1 m2" using m2 by (auto simp: store_u32_def intro!: same_outside_write)
  have s3: "same_outside 12 16 m2 m3" using m3 by (auto simp: store_u32_def intro!: same_outside_write)
  have "same_outside 0 16 m m3" using s1 s2 s3 by (auto simp: same_outside_def)
  moreover have "load_u64 0 m3 = Some MAGIC"
  proof -
    have "mem_read 0 8 m3 = mem_read 0 8 m1" using s2 s3 by (simp add: same_outside_def)
    then show ?thesis using load_store_u64 [OF m1] by (simp add: load_u64_def)
  qed
  moreover have "load_u32 8 m3 = Some capacity"
    using load_store_u32 [OF m2] same_outside_load_u32 [OF s3, of 8] by simp
  moreover have "load_u32 12 m3 = Some slot_size" by (rule load_store_u32 [OF m3])
  ultimately show ?thesis
    using m1 m2 m3 by (simp add: write_header_def read_header_def)
qed

lemma take_header:
  "16 \<le> n \<Longrightarrow> read_header (take n m) = (if 16 \<le> length m then read_header m else read_header (take n m))"
  by (auto simp: read_header_def load_u64_def load_u32_def mem_read_def drop_take min_def)

lemma fresh_region:
  assumes "validate_geometry capacity slot_size = Inr ()"
  obtains m where "create_region capacity slot_size = Some m"
    and "length m = total_bytes capacity slot_size"
    and "connect_geometry (take 448 m) =
      Some (Inr (capacity, slot_size, shm_total_size capacity slot_size))"
    and "ring_inv (a2e_params capacity slot_size) m" and "ring_contents (a2e_params capacity slot_size) m = []"
    and "ring_inv (e2a_params capacity slot_size) m" and "ring_contents (e2a_params capacity slot_size) m = []"
proof -
  let ?n = "total_bytes capacity slot_size"
  have geo: "0 < unat capacity" "?n \<le> 268435456" using assms by (simp_all add: validate_geometry_iff)
  have n: "unat (shm_total_size capacity slot_size) = ?n" using geo unat_shm_total_size by simp
  have big: "448 \<le> ?n" by (simp add: total_bytes_def)
  obtain m where m: "create_region capacity slot_size = Some m" "same_outside 0 16 (replicate ?n 0) m"
    "read_header m = Some (Inr (capacity, slot_size))"
    using write_header_spec [of "replicate ?n 0"] big by (auto simp: create_region_def n)
  have len: "length m = ?n" using m(2) by (simp add: same_outside_def)
  have zero: "load_u32 off m = Some 0" if "16 \<le> off" "off + 4 \<le> ?n" for off
    using same_outside_load_u32 [OF m(2), of off] load_zeros that by simp
  have lay: "layout_ok (a2e_params capacity slot_size) ?n" "layout_ok (e2a_params capacity slot_size) ?n"
    using layouts [OF geo] by auto
  have "read_header (take 448 m) = Some (Inr (capacity, slot_size))"
    using take_header [of 448 m] m(3) len big by simp
  then have "connect_geometry (take 448 m) =
      Some (Inr (capacity, slot_size, shm_total_size capacity slot_size))"
    using assms by (simp add: connect_geometry_def)
  moreover have "tail_of (a2e_params capacity slot_size) m = 0" "head_of (a2e_params capacity slot_size) m = 0"
    "tail_of (e2a_params capacity slot_size) m = 0" "head_of (e2a_params capacity slot_size) m = 0"
    using zero big by (simp_all add: tail_of_def head_of_def a2e_params_def e2a_params_def layout_defs)
  ultimately show ?thesis
    using that [OF m(1) len] lay len by (simp add: ring_inv_def ring_contents_def)
qed

lemma example_valid: "validate_geometry 4 8 = Inr ()"
  by (simp add: validate_geometry_iff total_bytes_def)

lemma example_total: "total_bytes 4 8 = 544" "unat (shm_total_size 4 8) = 544"
  using unat_shm_total_size [of 4 8] by (simp_all add: total_bytes_def)

theorem ring_ops_memory_safe_witness:
  "\<exists>m b m1 n m2 r m3. length m = 544 \<and> ring_push (a2e_params 4 8) [1, 2] m = Some (b, m1)
    \<and> ring_push_batch (a2e_params 4 8) [[1], [2]] m = Some (n, m2)
    \<and> ring_pop (a2e_params 4 8) m = Some (r, m3)
    \<and> ring_contents (e2a_params 4 8) m1 = ring_contents (e2a_params 4 8) m"
proof -
  obtain m where m: "length m = 544"
    and header: "connect_geometry (take 448 m) = Some (Inr (4, 8, shm_total_size 4 8))"
    using fresh_region [OF example_valid] example_total by metis
  have "length m = unat (shm_total_size 4 8)" using m example_total by simp
  from ring_ops_memory_safe [OF header this, of "[1, 2]" "[[1], [2]]" "a2e_params 4 8" "e2a_params 4 8"]
  obtain b m1 n m2 r m3 where "ring_push (a2e_params 4 8) [1, 2] m = Some (b, m1)"
    "ring_push_batch (a2e_params 4 8) [[1], [2]] m = Some (n, m2)"
    "ring_pop (a2e_params 4 8) m = Some (r, m3)"
    "ring_contents (e2a_params 4 8) m1 = ring_contents (e2a_params 4 8) m"
    by auto
  with m show ?thesis by blast
qed

interpretation ring: bounded_queue "\<lambda>m. ring_inv p m \<and> unat (rp_capacity p) dvd 2 ^ 32"
  "\<lambda>d. length d \<le> unat (rp_slot_size p)" "unat (rp_capacity p)" "ring_contents p"
  "ring_push p" "ring_pop p" for p
proof
  fix m and d :: "u8 list"
  assume ok: "ring_inv p m \<and> unat (rp_capacity p) dvd 2 ^ 32"
  then have w: "wrap_ok p m" by (simp add: wrap_ok_def)
  show "length (ring_contents p m) \<le> unat (rp_capacity p)"
    using ok by (simp add: length_contents ring_inv_def)
  show "\<exists>m'. ring_pop p m = Some (case ring_contents p m of [] \<Rightarrow> None | a # x \<Rightarrow> Some a, m')
      \<and> (ring_inv p m' \<and> unat (rp_capacity p) dvd 2 ^ 32) \<and> ring_contents p m' = tl (ring_contents p m)"
    using pop_spec [of p m] ok by blast
  assume "length d \<le> unat (rp_slot_size p)"
  then show "\<exists>m'. ring_push p d m = Some (length (ring_contents p m) < unat (rp_capacity p), m')
      \<and> (ring_inv p m' \<and> unat (rp_capacity p) dvd 2 ^ 32)
      \<and> ring_contents p m' = (if length (ring_contents p m) < unat (rp_capacity p)
           then ring_contents p m @ [d] else ring_contents p m)"
    using push_spec [of p m d] ok w by blast
qed

abbreviation ring_run ::
    "ring_params \<Rightarrow> u8 list queue_op list \<Rightarrow> mem \<Rightarrow> (u8 list list \<times> u8 list list \<times> mem) option" where
  "ring_run p \<equiv> bounded_queue.run (ring_push p) (ring_pop p)"

text \<open>
  (C24) The ring refines a bounded FIFO queue when its capacity divides 2^32, as the default
  capacity does: over any sequence of pushes and pops, across any number of wraps of the 32-bit
  counters, no operation faults, the packets taken are exactly the packets accepted, in order
  and byte for byte, and never more than \<open>capacity\<close> are queued.
\<close>

theorem ring_refines_fifo:
  assumes "ring_inv p m" and "unat (rp_capacity p) dvd 2 ^ 32"
    and "\<And>d. Push d \<in> set ops \<Longrightarrow> length d \<le> unat (rp_slot_size p)"
  shows "\<exists>sent got m'. ring_run p ops m = Some (sent, got, m')
    \<and> ring_contents p m @ sent = got @ ring_contents p m'
    \<and> length (ring_contents p m') \<le> unat (rp_capacity p)"
  using ring.run_fifo [of p m ops] assms by blast

theorem ring_refines_fifo_witness:
  "\<exists>m sent got m'. ring_contents (a2e_params 4 8) m = []
    \<and> ring_run (a2e_params 4 8) [Push [7], Push [8, 9], Pop] m = Some (sent, got, m')
    \<and> sent = got @ ring_contents (a2e_params 4 8) m'"
proof -
  obtain m where inv: "ring_inv (a2e_params 4 8) m" and empty: "ring_contents (a2e_params 4 8) m = []"
    by (rule fresh_region [OF example_valid])
  have cap: "unat (rp_capacity (a2e_params 4 8)) dvd 2 ^ 32" "unat (rp_slot_size (a2e_params 4 8)) = 8"
    by (simp_all add: a2e_params_def)
  have fits: "length d \<le> unat (rp_slot_size (a2e_params 4 8))"
    if "Push d \<in> set [Push [7], Push [8, 9], Pop]" for d :: "u8 list"
    using that cap(2) by auto
  obtain sent got m' where "ring_run (a2e_params 4 8) [Push [7], Push [8, 9], Pop] m = Some (sent, got, m')"
    "ring_contents (a2e_params 4 8) m @ sent = got @ ring_contents (a2e_params 4 8) m'"
    using ring_refines_fifo [OF inv cap(1) fits] by blast
  then show ?thesis using empty by (metis append_Nil)
qed

end
