(* ===== verification/Shm_Limits.thy ===== *)
theory Shm_Limits
  imports Shm_Safety
begin

text \<open>
  Batches as repeated pushes, the sizes the geometry functions give, and the limits of the
  design: counters that wrap with a capacity that does not divide 2^32, and a size check whose
  product wraps.
\<close>

section \<open>Batches\<close>

lemma batch_slots_spec:
  assumes "layout_ok p (length m)" and "wrap_ok p m" and "t = head_of p m + of_nat k"
    and "k + length pkts \<le> unat (rp_capacity p)"
    and "list_all (\<lambda>d. length d \<le> unat (rp_slot_size p)) pkts"
  shows "\<exists>m'. batch_slots p pkts t m = Some (t + of_nat (length pkts), m') \<and> length m' = length m
    \<and> tail_of p m' = tail_of p m \<and> head_of p m' = head_of p m
    \<and> (\<forall>i. i < k \<longrightarrow> slot_load p (head_of p m + of_nat i) m' = slot_load p (head_of p m + of_nat i) m)
    \<and> (\<forall>j. j < length pkts \<longrightarrow> slot_load p (t + of_nat j) m' = Some (pkts ! j))"
  using assms
proof (induction pkts arbitrary: t k m)
  case Nil
  then show ?case by simp
next
  case (Cons d pkts)
  have cap: "0 < unat (rp_capacity p)" "slots_end p \<le> length m"
    using Cons.prems(1) by (simp_all add: layout_ok_def)
  have d: "length d \<le> unat (rp_slot_size p)" using Cons.prems(5) by simp
  obtain m1 where m1: "slot_store p t d m = Some m1"
    and so: "same_outside (slot_at p t) (slot_at p t + 4 + unat (rp_slot_size p)) m m1"
    and sl: "slot_load p t m1 = Some d"
    by (rule slot_store_ok [OF cap d])
  have l1: "length m1 = length m" using so by (simp add: same_outside_def)
  note w = slot_window [OF so Cons.prems(1)]
  have head1: "head_of p m1 = head_of p m" and tail1: "tail_of p m1 = tail_of p m" using w by auto
  have old: "slot_load p (head_of p m + of_nat i) m1 = slot_load p (head_of p m + of_nat i) m" if "i < k" for i
  proof -
    have "unat ((head_of p m + of_nat i) mod rp_capacity p) \<noteq> unat ((head_of p m + of_nat k) mod rp_capacity p)"
      using Cons.prems(2,4) that by (intro window_distinct) (auto simp: wrap_ok_def)
    then show ?thesis using w Cons.prems(3) by blast
  qed
  have "t + 1 = head_of p m1 + of_nat (Suc k)" using Cons.prems(3) head1 by (simp add: algebra_simps)
  moreover have "layout_ok p (length m1)" "wrap_ok p m1" "Suc k + length pkts \<le> unat (rp_capacity p)"
    "list_all (\<lambda>d. length d \<le> unat (rp_slot_size p)) pkts"
    using Cons.prems l1 head1 by (simp_all add: wrap_ok_def)
  ultimately obtain m2 where m2: "batch_slots p pkts (t + 1) m1 = Some (t + 1 + of_nat (length pkts), m2)"
    "length m2 = length m1" "tail_of p m2 = tail_of p m1" "head_of p m2 = head_of p m1"
    "\<And>i. i < Suc k \<Longrightarrow> slot_load p (head_of p m1 + of_nat i) m2 = slot_load p (head_of p m1 + of_nat i) m1"
    "\<And>j. j < length pkts \<Longrightarrow> slot_load p (t + 1 + of_nat j) m2 = Some (pkts ! j)"
    using Cons.IH [of m1 "t + 1" "Suc k"] by blast
  have new: "slot_load p (t + of_nat j) m2 = Some ((d # pkts) ! j)" if "j < Suc (length pkts)" for j
  proof (cases j)
    case 0
    then show ?thesis using m2(5) [of k] sl Cons.prems(3) head1 by simp
  next
    case (Suc i)
    then show ?thesis using m2(6) [of i] that by (simp add: algebra_simps)
  qed
  have "batch_slots p (d # pkts) t m = Some (t + of_nat (length (d # pkts)), m2)"
    using m1 m2(1) by (simp add: algebra_simps)
  then show ?case
    using m2 old new l1 head1 tail1 by simp
qed

lemma batch_spec:
  assumes "ring_inv p m" and "wrap_ok p m" and "list_all (\<lambda>d. length d \<le> unat (rp_slot_size p)) pkts"
    and "n = min (unat (rp_capacity p) - length (ring_contents p m)) (length pkts)"
  shows "\<exists>m'. ring_push_batch p pkts m = Some (n, m') \<and> ring_inv p m'
    \<and> ring_contents p m' = ring_contents p m @ take n pkts"
proof -
  have lay: "layout_ok p (length m)" using assms(1) by (simp add: ring_inv_def)
  let ?t = "tail_of p m" and ?h = "head_of p m" and ?k = "unat (tail_of p m - head_of p m)"
  have k: "?k \<le> unat (rp_capacity p)" using assms(1) by (simp add: ring_inv_def)
  then have "?t - ?h \<le> rp_capacity p" by (simp add: word_le_nat_alt)
  then have free: "unat (rp_capacity p - (?t - ?h)) = unat (rp_capacity p) - ?k" by (rule unat_sub)
  have cap: "rp_capacity p \<noteq> 0" using lay by (auto simp: layout_ok_def)
  have n: "n = min (unat (rp_capacity p) - ?k) (length pkts)" using assms(4) by (simp add: length_contents)
  show ?thesis
  proof (cases "n = 0")
    case True
    then have "ring_push_batch p pkts m = Some (0, m)"
      using n free by (auto simp: ring_push_batch_def Let_def load_tail [OF lay] load_head [OF lay])
    then show ?thesis using True assms(1) by simp
  next
    case False
    let ?now = "take n pkts"
    have "list_all (\<lambda>d. length d \<le> unat (rp_slot_size p)) ?now"
      using assms(3) by (auto simp: list_all_iff dest: in_set_takeD)
    moreover have len: "length ?now = n" using n by simp
    moreover have "?k + length ?now \<le> unat (rp_capacity p)" using n len k by simp
    ultimately obtain m1 where m1: "batch_slots p ?now ?t m = Some (?t + of_nat n, m1)"
      "length m1 = length m" "tail_of p m1 = ?t" "head_of p m1 = ?h"
      "\<And>i. i < ?k \<Longrightarrow> slot_load p (?h + of_nat i) m1 = slot_load p (?h + of_nat i) m"
      "\<And>j. j < n \<Longrightarrow> slot_load p (?t + of_nat j) m1 = Some (?now ! j)"
      using batch_slots_spec [OF lay assms(2), of ?t ?k ?now] by auto
    have lay1: "layout_ok p (length m1)" using lay m1(2) by simp
    obtain m2 where m2: "store_u32 (rp_tail_off p) (?t + of_nat n) m1 = Some m2"
      using store_u32_ok [of "rp_tail_off p" m1] lay1 by (fastforce simp: layout_ok_def)
    note c = store_counter [OF lay1 m2]
    have after: "tail_of p m2 = ?t + of_nat n" "head_of p m2 = ?h" "length m2 = length m"
      using c m1 lay by (auto simp: layout_ok_def)
    have sl: "slot_load p t m2 = slot_load p t m1" for t using c by blast
    have "unat (?t + of_nat n - ?h) = ?k + n"
    proof -
      have small: "?k + n < 4294967296"
        using n unat_u32_less [of "rp_capacity p"] k by linarith
      have "?t + of_nat n - ?h = (?t - ?h) + of_nat n" by (simp add: algebra_simps)
      then have "unat (?t + of_nat n - ?h) = (?k + n) mod 4294967296"
        by (simp only: unat_plus_of_nat)
      then show ?thesis using small by simp
    qed
    then have conts: "ring_contents p m2 = map (\<lambda>i. the (slot_load p (?h + of_nat i) m1)) [0..<?k + n]"
      by (simp add: ring_contents_def after sl)
    have "ring_contents p m2 = ring_contents p m @ ?now"
    proof (rule nth_equalityI)
      fix i assume "i < length (ring_contents p m2)"
      then have i: "i < ?k + n" by (simp add: conts)
      show "ring_contents p m2 ! i = (ring_contents p m @ ?now) ! i"
      proof (cases "i < ?k")
        case True
        have "ring_contents p m ! i = the (slot_load p (?h + of_nat i) m)"
          using True by (simp add: ring_contents_def)
        then show ?thesis using m1(5) [OF True] i True unfolding conts
          by (simp add: nth_append length_contents)
      next
        case False
        then obtain j where j: "i = ?k + j" "j < n" using i by (metis add_less_cancel_left le_Suc_ex not_less)
        have "?h + of_nat i = ?t + of_nat j" using j(1) by (simp add: algebra_simps)
        then show ?thesis using m1(6) [OF j(2)] i j unfolding conts
          by (simp add: nth_append length_contents)
      qed
    qed (use len in \<open>simp add: conts length_contents\<close>)
    moreover have to_push: "min (unat (rp_capacity p - (?t - ?h))) (length pkts) = n"
      using n free by simp
    have "pkts \<noteq> []" using False n by auto
    then have "ring_push_batch p pkts m = Some (n, m2)"
      using False m1(1) m2 cap
      unfolding ring_push_batch_def load_tail [OF lay] load_head [OF lay] Let_def Option.bind.simps to_push
      by simp
    moreover have "ring_inv p m2"
      using lay after \<open>unat (?t + of_nat n - ?h) = ?k + n\<close> n k by (simp add: ring_inv_def)
    ultimately show ?thesis by blast
  qed
qed

text \<open>
  \<open>ring_push_batch\<close> is \<open>ring_push\<close> repeated: it accepts exactly the packets, and leaves exactly
  the queue, that pushing them one by one does, as far as there is room, while it moves the
  tail once.
\<close>

theorem batch_is_repeated_push:
  assumes "ring_inv p m" and "unat (rp_capacity p) dvd 2 ^ 32"
    and "list_all (\<lambda>d. length d \<le> unat (rp_slot_size p)) pkts"
  shows "\<exists>n m' m''. ring_push_batch p pkts m = Some (n, m')
    \<and> ring_run p (map Push pkts) m = Some (take n pkts, [], m'')
    \<and> ring_contents p m' = ring_contents p m''
    \<and> n = min (unat (rp_capacity p) - length (ring_contents p m)) (length pkts)"
proof -
  have pushes: "\<exists>m''. ring_run p (map Push pkts) m =
        Some (take (unat (rp_capacity p) - length (ring_contents p m)) pkts, [], m'')
      \<and> ring_contents p m'' = ring_contents p m @ take (unat (rp_capacity p) - length (ring_contents p m)) pkts"
    if "ring_inv p m" "list_all (\<lambda>d. length d \<le> unat (rp_slot_size p)) pkts" for m pkts
    using that
  proof (induction pkts arbitrary: m)
    case Nil
    then show ?case by simp
  next
    case (Cons d pkts)
    have w: "wrap_ok p m" using assms(2) by (simp add: wrap_ok_def)
    have d: "length d \<le> unat (rp_slot_size p)" using Cons.prems(2) by simp
    obtain m1 where m1: "ring_push p d m = Some (length (ring_contents p m) < unat (rp_capacity p), m1)"
      "ring_inv p m1" "ring_contents p m1 = (if length (ring_contents p m) < unat (rp_capacity p)
        then ring_contents p m @ [d] else ring_contents p m)"
      using push_spec [OF Cons.prems(1) w d] by blast
    obtain m2 where m2: "ring_run p (map Push pkts) m1 =
        Some (take (unat (rp_capacity p) - length (ring_contents p m1)) pkts, [], m2)"
      "ring_contents p m2 = ring_contents p m1 @ take (unat (rp_capacity p) - length (ring_contents p m1)) pkts"
      using Cons.IH [OF m1(2)] Cons.prems(2) by auto
    show ?case
    proof (cases "length (ring_contents p m) < unat (rp_capacity p)")
      case True
      then have "unat (rp_capacity p) - length (ring_contents p m) =
          Suc (unat (rp_capacity p) - length (ring_contents p m1))"
        using m1(3) by simp
      then show ?thesis using True m1 m2 by simp
    next
      case False
      then show ?thesis using m1 m2 by simp
    qed
  qed
  let ?n = "min (unat (rp_capacity p) - length (ring_contents p m)) (length pkts)"
  have "wrap_ok p m" using assms(2) by (simp add: wrap_ok_def)
  then obtain m' where m': "ring_push_batch p pkts m = Some (?n, m')"
    "ring_contents p m' = ring_contents p m @ take ?n pkts"
    using batch_spec [OF assms(1) _ assms(3) refl] by blast
  have "take (unat (rp_capacity p) - length (ring_contents p m)) pkts = take ?n pkts"
    by (simp add: min_def)
  then show ?thesis using m' pushes [OF assms(1,3)] by metis
qed

theorem batch_is_repeated_push_witness:
  "\<exists>m m' m''. ring_contents (a2e_params 4 8) m = []
    \<and> ring_push_batch (a2e_params 4 8) [[1], [2], [3], [4], [5], [6]] m = Some (4, m')
    \<and> ring_run (a2e_params 4 8) (map Push [[1], [2], [3], [4], [5], [6]]) m = Some ([[1], [2], [3], [4]], [], m'')
    \<and> ring_contents (a2e_params 4 8) m' = ring_contents (a2e_params 4 8) m''"
proof -
  obtain m where inv: "ring_inv (a2e_params 4 8) m" and empty: "ring_contents (a2e_params 4 8) m = []"
    by (rule fresh_region [OF example_valid])
  have cap: "unat (rp_capacity (a2e_params 4 8)) dvd 2 ^ 32" "unat (rp_slot_size (a2e_params 4 8)) = 8"
    "unat (rp_capacity (a2e_params 4 8)) = 4"
    by (simp_all add: a2e_params_def)
  have fits: "list_all (\<lambda>d. length d \<le> unat (rp_slot_size (a2e_params 4 8))) [[1], [2], [3], [4], [5], [6]]"
    by (simp add: cap)
  obtain n m' m'' where "ring_push_batch (a2e_params 4 8) [[1], [2], [3], [4], [5], [6]] m = Some (n, m')"
    "ring_run (a2e_params 4 8) (map Push [[1], [2], [3], [4], [5], [6]]) m =
      Some (take n [[1], [2], [3], [4], [5], [6]], [], m'')"
    "ring_contents (a2e_params 4 8) m' = ring_contents (a2e_params 4 8) m''" "n = 4"
    using batch_is_repeated_push [OF inv cap(1) fits] empty cap(3) by force
  then show ?thesis using empty by (intro exI [of _ m] exI [of _ m'] exI [of _ m'']) simp
qed

section \<open>Sizes\<close>

lemma nat_ceil_64:
  fixes n :: nat
  shows "(n + 63) div 64 = (if n mod 64 = 0 then n div 64 else n div 64 + 1)"
    and "n \<le> (n + 63) div 64 * 64" and "(n + 63) div 64 * 64 < n + 64"
proof -
  define q r where "q = n div 64" and "r = n mod 64"
  have n: "n = 64 * q + r" and r: "r < 64" by (simp_all add: q_def r_def)
  show ceil: "(n + 63) div 64 = (if n mod 64 = 0 then n div 64 else n div 64 + 1)"
  proof (cases "r = 0")
    case True
    then have "(n + 63) div 64 = q" using n by (intro div_nat_eqI) auto
    then show ?thesis using True by (simp add: q_def r_def)
  next
    case False
    then have "(n + 63) div 64 = q + 1" using n r by (intro div_nat_eqI) auto
    then show ?thesis using False by (simp add: q_def r_def)
  qed
  show "n \<le> (n + 63) div 64 * 64" "(n + 63) div 64 * 64 < n + 64"
    unfolding ceil q_def [symmetric] r_def [symmetric] using n r by auto
qed

lemma div_ceil_64:
  assumes "unat x < 2 ^ 63"
  shows "unat (usize_div_ceil x 64 * 64) = (unat x + 63) div 64 * 64"
proof -
  have m: "x mod 64 = 0 \<longleftrightarrow> unat x mod 64 = 0"
  proof -
    have "unat (x mod 64) = unat x mod 64" by (simp add: unat_mod)
    then show ?thesis by (metis unat_eq_zero)
  qed
  have d: "unat (x div 64) = unat x div 64" by (simp add: unat_div)
  have d1: "unat (x div 64 + 1) = unat x div 64 + 1"
    using assms d by (simp add: unat_word_ariths)
  have up: "(unat x + 63) div 64 = (if unat x mod 64 = 0 then unat x div 64 else unat x div 64 + 1)"
    by (rule nat_ceil_64)
  have mul: "unat (y * 64) = unat y * 64" if "unat y \<le> 2 ^ 57" for y :: usize
    using that by (simp add: unat_word_ariths)
  have "unat x div 64 + 1 \<le> 2 ^ 57" using assms by simp
  then show ?thesis
    using mul [of "x div 64"] mul [of "x div 64 + 1"] d d1 unfolding usize_div_ceil_def up m
    by (cases "unat x mod 64 = 0") simp_all
qed

text \<open>
  The slot size for an MTU leaves room for the MTU and the packet overhead, is a multiple
  of the cache line and less than one line larger than needed; the capacity for a slot size is
  at least 16 and otherwise keeps both rings within the memory budget.
\<close>

theorem shm_sizes:
  assumes "unat mtu + 16384 + 64 \<le> 2 ^ 32"
  shows "unat mtu + 16384 \<le> unat (slot_size_for_mtu mtu)
    \<and> unat (slot_size_for_mtu mtu) < unat mtu + 16384 + 64
    \<and> 64 dvd unat (slot_size_for_mtu mtu)
    \<and> (capacity_for_slot slot_size = 16 \<or>
       16 \<le> capacity_for_slot slot_size
       \<and> 2 * unat (capacity_for_slot slot_size) * (4 + unat slot_size) \<le> 4589568)"
proof -
  let ?raw = "unat mtu + 16384"
  have raw: "unat (usize_saturating_add mtu SHM_SLOT_OVERHEAD) = ?raw"
    using assms by (simp add: usize_saturating_add_def SHM_SLOT_OVERHEAD_def word_less_nat_alt unat_word_ariths)
  have al: "unat (usize_div_ceil (usize_saturating_add mtu SHM_SLOT_OVERHEAD) 64 * 64) = (?raw + 63) div 64 * 64"
    using div_ceil_64 [of "usize_saturating_add mtu SHM_SLOT_OVERHEAD"] assms raw by simp
  have le: "(?raw + 63) div 64 * 64 < 2 ^ 32"
    using nat_ceil_64(3) [of ?raw] assms by linarith
  have slot: "unat (slot_size_for_mtu mtu) = (?raw + 63) div 64 * 64"
  proof -
    have "usize_div_ceil (usize_saturating_add mtu SHM_SLOT_OVERHEAD) 64 * 64 \<le> 0xFFFFFFFF"
      unfolding word_le_nat_alt al using le by simp
    then have "unat (slot_size_for_mtu mtu) = take_bit 32 ((?raw + 63) div 64 * 64)"
      by (simp add: slot_size_for_mtu_def Let_def min_absorb1 unsigned_ucast_eq al del: take_bit_of_nat)
    then show ?thesis using le by (simp add: take_bit_nat_eq_self)
  qed
  let ?s = "slot_stride slot_size"
  have budget: "SHM_BUDGET = 4589568"
    by (simp add: SHM_BUDGET_def DEFAULT_CAPACITY_def DEFAULT_SLOT_SIZE_def slot_stride_def)
  have s2: "unat (2 * ?s) = 2 * (4 + unat slot_size)"
    using unat_u32_less [of slot_size] by (simp add: unat_word_ariths unat_slot_stride)
  have q: "unat (SHM_BUDGET div (2 * ?s)) = 4589568 div (2 * (4 + unat slot_size))"
    by (simp add: unat_div budget s2)
  then have "unat (SHM_BUDGET div (2 * ?s)) \<le> 4589568" by simp
  then have small: "unat (SHM_BUDGET div (2 * ?s)) < 2 ^ 32" by (rule le_less_trans) simp
  have cap: "unat (ucast (SHM_BUDGET div (2 * ?s)) :: u32) = 4589568 div (2 * (4 + unat slot_size))"
    using small by (simp add: unsigned_ucast_eq take_bit_nat_eq_self q)
  have "2 * (4589568 div (2 * (4 + unat slot_size))) * (4 + unat slot_size) \<le> 4589568"
    using div_times_less_eq_dividend [of 4589568 "2 * (4 + unat slot_size)"] by (simp add: algebra_simps)
  then have "capacity_for_slot slot_size = 16 \<or> 16 \<le> capacity_for_slot slot_size
       \<and> 2 * unat (capacity_for_slot slot_size) * (4 + unat slot_size) \<le> 4589568"
    using cap by (auto simp: capacity_for_slot_def Let_def max_def)
  moreover have "?raw \<le> (?raw + 63) div 64 * 64" "(?raw + 63) div 64 * 64 < ?raw + 64"
    by (rule nat_ceil_64)+
  ultimately show ?thesis unfolding slot by simp
qed

theorem shm_sizes_witness:
  "slot_size_for_mtu 65536 = 81920 \<and> 65536 + 16384 \<le> unat (slot_size_for_mtu 65536)
    \<and> capacity_for_slot 81920 = 28"
proof -
  have "slot_size_for_mtu 65536 = 81920" "capacity_for_slot 81920 = 28" by code_simp+
  then show ?thesis using shm_sizes [of 65536] by simp
qed

text \<open>The multiplication after the saturating addition wraps: the largest MTU asks for empty slots.\<close>

lemma slot_size_wraps: "slot_size_for_mtu (-1) = 0"
  by code_simp

section \<open>Counters that wrap\<close>

definition wrap_params :: ring_params where
  "wrap_params = \<lparr>rp_ring_off = 8, rp_tail_off = 0, rp_head_off = 4, rp_capacity = 3, rp_slot_size = 1\<rparr>"

text \<open>An empty ring of three slots whose counters both stand at 2^32 - 1.\<close>

definition wrap_region :: mem where
  "wrap_region = replicate 8 255 @ replicate 15 0"

lemma wrap_steps:
  "\<exists>m1 m2 m3 m4. ring_push wrap_params [1] wrap_region = Some (True, m1)
    \<and> ring_push wrap_params [2] m1 = Some (True, m2)
    \<and> ring_pop wrap_params m2 = Some (Some [2], m3) \<and> ring_pop wrap_params m3 = Some (Some [2], m4)"
proof -
  let ?m1 = "[0, 0, 0, 0, 255, 255, 255, 255, 1, 0, 0, 0, 1, 0, 0, 0, 0, 0, 0, 0, 0, 0, 0]"
  let ?m2 = "[1, 0, 0, 0, 255, 255, 255, 255, 1, 0, 0, 0, 2, 0, 0, 0, 0, 0, 0, 0, 0, 0, 0]"
  let ?m3 = "[1, 0, 0, 0, 0, 0, 0, 0, 1, 0, 0, 0, 2, 0, 0, 0, 0, 0, 0, 0, 0, 0, 0]"
  let ?m4 = "[1, 0, 0, 0, 1, 0, 0, 0, 1, 0, 0, 0, 2, 0, 0, 0, 0, 0, 0, 0, 0, 0, 0]"
  have "ring_push wrap_params [1] wrap_region = Some (True, ?m1)" by code_simp
  moreover have "ring_push wrap_params [2] ?m1 = Some (True, ?m2)" by code_simp
  moreover have "ring_pop wrap_params ?m2 = Some (Some [2], ?m3)" by code_simp
  moreover have "ring_pop wrap_params ?m3 = Some (Some [2], ?m4)" by code_simp
  ultimately show ?thesis by blast
qed

text \<open>
  With a capacity that does not divide 2^32 the ring breaks when its counters wrap: the
  slot index jumps, two packets that are queued together share a slot, and the consumer gets
  the second one twice and the first one never. The capacity the face computes for an MTU of
  64 KiB is such a capacity.
\<close>

theorem ring_wrap_loses_packet:
  "\<exists>m. ring_run wrap_params [Push [1], Push [2], Pop, Pop] wrap_region = Some ([[1], [2]], [[2], [2]], m)
    \<and> ring_inv wrap_params wrap_region \<and> ring_contents wrap_params wrap_region = []
    \<and> capacity_for_slot (slot_size_for_mtu 65536) = 28 \<and> \<not> (28 :: nat) dvd 2 ^ 32"
proof -
  obtain m1 m2 m3 m4 where "ring_push wrap_params [1] wrap_region = Some (True, m1)"
    "ring_push wrap_params [2] m1 = Some (True, m2)"
    "ring_pop wrap_params m2 = Some (Some [2], m3)" "ring_pop wrap_params m3 = Some (Some [2], m4)"
    using wrap_steps by blast
  then have "ring_run wrap_params [Push [1], Push [2], Pop, Pop] wrap_region = Some ([[1], [2]], [[2], [2]], m4)"
    by (simp add: ring.run.simps)
  moreover have "tail_of wrap_params wrap_region = -1" "head_of wrap_params wrap_region = -1" by code_simp+
  then have "ring_inv wrap_params wrap_region" "ring_contents wrap_params wrap_region = []"
    by (simp_all add: ring_inv_def ring_contents_def layout_ok_def wrap_params_def wrap_region_def
        unat_slot_stride)
  moreover have "capacity_for_slot (slot_size_for_mtu 65536) = 28" by code_simp
  moreover have "\<not> (28 :: nat) dvd 2 ^ 32" by simp
  ultimately show ?thesis by blast
qed

section \<open>A size check that wraps\<close>

text \<open>
  The size check of the sealed ring's consumer is not the guard it says it is: its product
  is not checked for overflow, so a producer can declare a ring of 2^32 - 1 slots of 4 GiB and
  have the consumer map 127 bytes for it, and then every slot but none of the mapping is
  addressed. The duplex ring's \<open>validate_geometry\<close> refuses the same header.
\<close>

theorem sealed_size_check_wraps:
  "\<exists>header. sealed_geometry header = Some (Inr (0xFFFFFFFF, 0xFFFFFFFD, 127))
    \<and> connect_geometry header = Some (Inl InvalidGeometry)"
proof -
  let ?h = "[0, 0x4D, 0x48, 0x53, 0x5F, 0x4E, 0x44, 0x4E, 255, 255, 255, 255, 253, 255, 255, 255] :: mem"
  have "sealed_geometry ?h = Some (Inr (0xFFFFFFFF, 0xFFFFFFFD, 127))" by code_simp
  moreover have "read_header ?h = Some (Inr (0xFFFFFFFF, 0xFFFFFFFD))" by code_simp
  then have "connect_geometry ?h = Some (Inl InvalidGeometry)"
    using validate_geometry_iff [of "0xFFFFFFFF" "0xFFFFFFFD"]
    by (cases "validate_geometry 0xFFFFFFFF 0xFFFFFFFD")
      (auto simp: connect_geometry_def total_bytes_def validate_geometry_def Let_def split: option.splits if_splits)
  ultimately show ?thesis by blast
qed

end
