(* ===== verification/Shm_Wake.thy ===== *)
theory Shm_Wake
  imports Shm_Limits
begin

text \<open>
  The blocking send and receive of the shared-memory faces as two processes on one region,
  stepping in any order, one shared load or store at a time: the producer of \<open>send_bytes\<close>
  (check, fill, publish, look at the parked flag) and the consumer of \<open>recv_bytes\<close> (try, spin,
  park, try again, sleep on the pipe). First with every store visible at once, then with the
  store buffer of the producer's processor.
\<close>

section \<open>The two processes\<close>

definition SPIN_ITERS :: nat where "SPIN_ITERS = 64"

datatype producer =
  PIdle
| PPush "u8 list"
| PFill "u8 list" u32
| PPublish "u8 list" u32
| PWake

text \<open>The flag of \<open>CCopy\<close> and \<open>CAdvance\<close> is set when the packet was found after parking.\<close>

datatype consumer =
  CTry nat
| CPark
| CRecheck
| CSleep
| CClear
| CCopy bool u32
| CAdvance bool u32 "u8 list"

record world =
  w_mem :: mem
  w_prod :: producer
  w_cons :: consumer
  w_pipe :: nat
  w_sent :: "u8 list list"
  w_got :: "u8 list list"

definition start :: "mem \<Rightarrow> world" where
  "start m = \<lparr>w_mem = m, w_prod = PIdle, w_cons = CTry SPIN_ITERS, w_pipe = 0, w_sent = [], w_got = []\<rparr>"

text \<open>
  One step of \<open>send_bytes\<close>; \<open>next\<close> is the packet of the next call, refused when it exceeds the
  slot. \<open>parked\<close> is the offset of the flag. \<open>None\<close> would be a fault.
\<close>

definition prod_step :: "ring_params \<Rightarrow> nat \<Rightarrow> u8 list \<Rightarrow> world \<Rightarrow> world option" where
  "prod_step p parked next w = (case w_prod w of
     PIdle \<Rightarrow> Some (if unat (rp_slot_size p) < length next then w else w\<lparr>w_prod := PPush next\<rparr>)
   | PPush data \<Rightarrow> do {
       t \<leftarrow> load_u32 (rp_tail_off p) (w_mem w);
       h \<leftarrow> load_u32 (rp_head_off p) (w_mem w);
       Some (if rp_capacity p \<le> t - h then w else w\<lparr>w_prod := PFill data t\<rparr>) }
   | PFill data t \<Rightarrow> do {
       m \<leftarrow> slot_store p t data (w_mem w);
       Some (w\<lparr>w_mem := m, w_prod := PPublish data t\<rparr>) }
   | PPublish data t \<Rightarrow> do {
       m \<leftarrow> store_u32 (rp_tail_off p) (t + 1) (w_mem w);
       Some (w\<lparr>w_mem := m, w_prod := PWake, w_sent := w_sent w @ [data]\<rparr>) }
   | PWake \<Rightarrow> do {
       v \<leftarrow> load_u32 parked (w_mem w);
       Some (w\<lparr>w_prod := PIdle, w_pipe := (if v \<noteq> 0 then w_pipe w + 1 else w_pipe w)\<rparr>) })"

definition look :: "ring_params \<Rightarrow> bool \<Rightarrow> consumer \<Rightarrow> world \<Rightarrow> world option" where
  "look p again otherwise w = do {
     h \<leftarrow> load_u32 (rp_head_off p) (w_mem w);
     t \<leftarrow> load_u32 (rp_tail_off p) (w_mem w);
     Some (w\<lparr>w_cons := if h = t then otherwise else CCopy again h\<rparr>) }"

text \<open>
  One step of \<open>recv_bytes\<close>, over and over. \<open>None\<close> at \<open>CSleep\<close> is waiting on an empty pipe;
  anywhere else it would be a fault. A wakeup reads up to 64 bytes off the pipe.
\<close>

definition cons_step :: "ring_params \<Rightarrow> nat \<Rightarrow> world \<Rightarrow> world option" where
  "cons_step p parked w = (case w_cons w of
     CTry n \<Rightarrow> look p False (case n of 0 \<Rightarrow> CPark | Suc k \<Rightarrow> CTry k) w
   | CPark \<Rightarrow> do {
       m \<leftarrow> store_u32 parked 1 (w_mem w);
       Some (w\<lparr>w_mem := m, w_cons := CRecheck\<rparr>) }
   | CRecheck \<Rightarrow> look p True CSleep w
   | CSleep \<Rightarrow> (if w_pipe w = 0 then None else Some (w\<lparr>w_pipe := w_pipe w - 64, w_cons := CClear\<rparr>))
   | CClear \<Rightarrow> do {
       m \<leftarrow> store_u32 parked 0 (w_mem w);
       Some (w\<lparr>w_mem := m, w_cons := CTry SPIN_ITERS\<rparr>) }
   | CCopy again h \<Rightarrow> do {
       data \<leftarrow> slot_load p h (w_mem w);
       Some (w\<lparr>w_cons := CAdvance again h data\<rparr>) }
   | CAdvance again h data \<Rightarrow> do {
       m \<leftarrow> store_u32 (rp_head_off p) (h + 1) (w_mem w);
       Some (w\<lparr>w_mem := m, w_cons := (if again then CClear else CTry SPIN_ITERS),
               w_got := w_got w @ [data]\<rparr>) })"

inductive shm_reach :: "ring_params \<Rightarrow> nat \<Rightarrow> mem \<Rightarrow> world \<Rightarrow> bool" for p parked m where
  shm_start: "shm_reach p parked m (start m)"
| shm_prod: "shm_reach p parked m w \<Longrightarrow> prod_step p parked d w = Some w' \<Longrightarrow> shm_reach p parked m w'"
| shm_cons: "shm_reach p parked m w \<Longrightarrow> cons_step p parked w = Some w' \<Longrightarrow> shm_reach p parked m w'"

section \<open>The invariant\<close>

definition parked_ok :: "ring_params \<Rightarrow> nat \<Rightarrow> nat \<Rightarrow> bool" where
  "parked_ok p k n \<longleftrightarrow> k + 4 \<le> n
     \<and> apart (rp_tail_off p) (rp_tail_off p + 4) k (k + 4)
     \<and> apart (rp_head_off p) (rp_head_off p + 4) k (k + 4)
     \<and> apart (rp_ring_off p) (slots_end p) k (k + 4)"

definition prod_ok :: "ring_params \<Rightarrow> world \<Rightarrow> bool" where
  "prod_ok p w \<longleftrightarrow> (case w_prod w of
     PPush d \<Rightarrow> length d \<le> unat (rp_slot_size p)
   | PFill d t \<Rightarrow> length d \<le> unat (rp_slot_size p) \<and> t = tail_of p (w_mem w)
       \<and> length (ring_contents p (w_mem w)) < unat (rp_capacity p)
   | PPublish d t \<Rightarrow> t = tail_of p (w_mem w) \<and> slot_load p t (w_mem w) = Some d
       \<and> length (ring_contents p (w_mem w)) < unat (rp_capacity p)
   | _ \<Rightarrow> True)"

definition cons_ok :: "ring_params \<Rightarrow> world \<Rightarrow> bool" where
  "cons_ok p w \<longleftrightarrow> (case w_cons w of
     CCopy again h \<Rightarrow> h = head_of p (w_mem w) \<and> ring_contents p (w_mem w) \<noteq> []
   | CAdvance again h d \<Rightarrow> h = head_of p (w_mem w) \<and> (\<exists>ds. ring_contents p (w_mem w) = d # ds)
   | CSleep \<Rightarrow> ring_contents p (w_mem w) = [] \<or> 0 < w_pipe w \<or> w_prod w = PWake
   | _ \<Rightarrow> True)"

text \<open>What the parked flag holds at each point of the consumer.\<close>

fun flag_at :: "consumer \<Rightarrow> u32" where
  "flag_at (CTry n) = 0"
| "flag_at CPark = 0"
| "flag_at CRecheck = 1"
| "flag_at CSleep = 1"
| "flag_at CClear = 1"
| "flag_at (CCopy again h) = (if again then 1 else 0)"
| "flag_at (CAdvance again h d) = (if again then 1 else 0)"

definition shm_inv :: "ring_params \<Rightarrow> nat \<Rightarrow> world \<Rightarrow> bool" where
  "shm_inv p k w \<longleftrightarrow> ring_inv p (w_mem w) \<and> unat (rp_capacity p) dvd 2 ^ 32
     \<and> parked_ok p k (length (w_mem w))
     \<and> load_u32 k (w_mem w) = Some (flag_at (w_cons w))
     \<and> prod_ok p w \<and> cons_ok p w
     \<and> w_got w @ ring_contents p (w_mem w) = w_sent w"

lemma shm_invD:
  assumes "shm_inv p k w"
  shows "layout_ok p (length (w_mem w))" "wrap_ok p (w_mem w)" "0 < unat (rp_capacity p)"
    "slots_end p \<le> length (w_mem w)"
  using assms by (auto simp: shm_inv_def ring_inv_def wrap_ok_def layout_ok_def)

text \<open>Writing the flag leaves the ring alone, and the ring's writes leave the flag alone.\<close>

lemma flag_store:
  assumes "store_u32 k v m = Some m'" and "parked_ok p k (length m)" and "ring_inv p m"
  shows "ring_inv p m' \<and> ring_contents p m' = ring_contents p m \<and> tail_of p m' = tail_of p m
    \<and> head_of p m' = head_of p m \<and> slot_load p t m' = slot_load p t m \<and> length m' = length m
    \<and> load_u32 k m' = Some v"
proof -
  have lay: "layout_ok p (length m)" using assms(3) by (simp add: ring_inv_def)
  have cap: "0 < unat (rp_capacity p)" using lay by (simp add: layout_ok_def)
  have so: "same_outside k (k + 4) m m'"
    using assms(1) by (auto simp: store_u32_def intro!: same_outside_write)
  have "load_u32 (rp_tail_off p) m' = load_u32 (rp_tail_off p) m"
    "load_u32 (rp_head_off p) m' = load_u32 (rp_head_off p) m"
    using assms(2) by (auto simp: parked_ok_def intro!: same_outside_load_u32 [OF so])
  then have th: "tail_of p m' = tail_of p m" "head_of p m' = head_of p m"
    by (simp_all add: tail_of_def head_of_def)
  have sl: "slot_load p t m' = slot_load p t m" for t
    using slot_bounds [OF cap, of t] assms(2)
    by (intro same_outside_slot_load [OF so]) (auto simp: parked_ok_def)
  show ?thesis
    using th sl so lay assms(3) load_store_u32 [OF assms(1)]
    by (simp add: ring_inv_def ring_contents_def same_outside_def)
qed

lemma flag_kept_counter:
  assumes "store_u32 off v m = Some m'" and "parked_ok p k (length m)"
    and "off = rp_tail_off p \<or> off = rp_head_off p"
  shows "load_u32 k m' = load_u32 k m \<and> length m' = length m"
proof -
  have so: "same_outside off (off + 4) m m'"
    using assms(1) by (auto simp: store_u32_def intro!: same_outside_write)
  have "k + 4 \<le> off \<or> off + 4 \<le> k" using assms(2,3) by (auto simp: parked_ok_def)
  from same_outside_load_u32 [OF so this] show ?thesis using so by (simp add: same_outside_def)
qed

lemma flag_kept_slot:
  assumes "same_outside (slot_at p t) (slot_at p t + 4 + unat (rp_slot_size p)) m m'"
    and "parked_ok p k (length m)" and "0 < unat (rp_capacity p)"
  shows "load_u32 k m' = load_u32 k m"
  using slot_bounds [OF assms(3), of t] assms(2)
  by (intro same_outside_load_u32 [OF assms(1)]) (auto simp: parked_ok_def)

text \<open>Filling the free slot at the tail leaves the queue as it is.\<close>

lemma fill_contents:
  assumes "same_outside (slot_at p (tail_of p m)) (slot_at p (tail_of p m) + 4 + unat (rp_slot_size p)) m m'"
    and "ring_inv p m" and "wrap_ok p m" and "length (ring_contents p m) < unat (rp_capacity p)"
  shows "ring_contents p m' = ring_contents p m \<and> ring_inv p m' \<and> tail_of p m' = tail_of p m
    \<and> head_of p m' = head_of p m"
proof -
  have lay: "layout_ok p (length m)" using assms(2) by (simp add: ring_inv_def)
  note w = slot_window [OF assms(1) lay]
  let ?n = "unat (tail_of p m - head_of p m)"
  have "slot_load p (head_of p m + of_nat i) m' = slot_load p (head_of p m + of_nat i) m" if "i < ?n" for i
  proof -
    have "unat ((head_of p m + of_nat i) mod rp_capacity p) \<noteq> unat ((head_of p m + of_nat ?n) mod rp_capacity p)"
      using window_distinct [of "rp_capacity p" "head_of p m" i ?n] assms(3,4) that
      by (auto simp: wrap_ok_def length_contents)
    then show ?thesis using w by simp
  qed
  then have "ring_contents p m' = ring_contents p m"
    using w by (simp add: ring_contents_def)
  then show ?thesis using w assms(1,2) by (simp add: ring_inv_def same_outside_def)
qed

section \<open>Every step keeps the invariant and faults nowhere\<close>

lemma prod_step_inv:
  assumes inv: "shm_inv p k w"
  shows "\<exists>w'. prod_step p k d w = Some w' \<and> shm_inv p k w'"
proof -
  note lay = shm_invD [OF inv]
  have ring: "ring_inv p (w_mem w)" and park: "parked_ok p k (length (w_mem w))"
    and flag: "load_u32 k (w_mem w) = Some (flag_at (w_cons w))"
    and hist: "w_got w @ ring_contents p (w_mem w) = w_sent w"
    using inv by (simp_all add: shm_inv_def)
  note loads = load_tail [OF lay(1)] load_head [OF lay(1)]
  show ?thesis
  proof (cases "w_prod w")
    case PIdle
    then show ?thesis using inv by (auto simp: prod_step_def shm_inv_def prod_ok_def cons_ok_def split: consumer.splits)
  next
    case (PPush data)
    then show ?thesis
      using inv free_iff [OF ring]
      by (auto simp: prod_step_def loads shm_inv_def prod_ok_def cons_ok_def split: consumer.splits)
  next
    case (PFill data t)
    then have t: "t = tail_of p (w_mem w)" and len: "length data \<le> unat (rp_slot_size p)"
      and room: "length (ring_contents p (w_mem w)) < unat (rp_capacity p)"
      using inv by (simp_all add: shm_inv_def prod_ok_def)
    obtain m' where m': "slot_store p t data (w_mem w) = Some m'"
      and so: "same_outside (slot_at p t) (slot_at p t + 4 + unat (rp_slot_size p)) (w_mem w) m'"
      and sl: "slot_load p t m' = Some data"
      by (rule slot_store_ok [OF lay(3,4) len])
    note fc = fill_contents [OF so [unfolded t] ring lay(2) room]
    have "shm_inv p k (w\<lparr>w_mem := m', w_prod := PPublish data t\<rparr>)"
      using inv fc flag_kept_slot [OF so park lay(3)] so sl t room PFill
      by (auto simp: shm_inv_def prod_ok_def cons_ok_def same_outside_def split: consumer.splits)
    then show ?thesis using PFill m' by (simp add: prod_step_def)
  next
    case (PPublish data t)
    then have t: "t = tail_of p (w_mem w)" and sl: "slot_load p t (w_mem w) = Some data"
      and room: "unat (tail_of p (w_mem w) - head_of p (w_mem w)) < unat (rp_capacity p)"
      using inv by (auto simp add: shm_inv_def prod_ok_def length_contents)
    obtain m' where m': "store_u32 (rp_tail_off p) (t + 1) (w_mem w) = Some m'"
      using store_u32_ok [of "rp_tail_off p" "w_mem w"] lay(1) by (fastforce simp: layout_ok_def)
    note pub = publish [OF ring lay(2) room same_outside_refl sl [unfolded t] m' [unfolded t]]
    note fk = flag_kept_counter [OF m' park disjI1 [OF refl]]
    have "shm_inv p k (w\<lparr>w_mem := m', w_prod := PWake, w_sent := w_sent w @ [data]\<rparr>)"
      using inv pub fk hist by (auto simp: shm_inv_def prod_ok_def cons_ok_def split: consumer.splits)
    then show ?thesis using PPublish m' by (simp add: prod_step_def)
  next
    case PWake
    then show ?thesis
      using inv flag
      by (auto simp: prod_step_def shm_inv_def prod_ok_def cons_ok_def split: consumer.splits)
  qed
qed

lemma contents_empty: "ring_contents p m = [] \<longleftrightarrow> head_of p m = tail_of p m"
proof -
  have "ring_contents p m = [] \<longleftrightarrow> unat (tail_of p m - head_of p m) = 0"
    unfolding length_contents [symmetric] by simp
  then show ?thesis by (metis eq_iff_diff_eq_0 unat_eq_zero)
qed

lemma look_inv:
  assumes inv: "shm_inv p k w" and "flag_at otherwise = flag_at (w_cons w)"
    and "flag_at (CCopy again 0) = flag_at (w_cons w)"
    and "ring_contents p (w_mem w) = [] \<Longrightarrow> cons_ok p (w\<lparr>w_cons := otherwise\<rparr>)"
  shows "\<exists>w'. look p again otherwise w = Some w' \<and> shm_inv p k w'"
proof -
  note lay = shm_invD [OF inv]
  note loads = load_tail [OF lay(1)] load_head [OF lay(1)]
  have "head_of p (w_mem w) = tail_of p (w_mem w) \<longleftrightarrow> ring_contents p (w_mem w) = []"
    by (simp add: contents_empty)
  then show ?thesis
    using inv assms(2-4) by (auto simp: look_def loads shm_inv_def prod_ok_def cons_ok_def split: producer.splits)
qed

lemma flag_write_inv:
  assumes inv: "shm_inv p k w" and "flag_at c' = v" and "\<And>m. cons_ok p (w\<lparr>w_mem := m, w_cons := c'\<rparr>)"
  shows "\<exists>m. store_u32 k v (w_mem w) = Some m \<and> shm_inv p k (w\<lparr>w_mem := m, w_cons := c'\<rparr>)"
proof -
  note lay = shm_invD [OF inv]
  have ring: "ring_inv p (w_mem w)" and park: "parked_ok p k (length (w_mem w))"
    using inv by (simp_all add: shm_inv_def)
  obtain m where m: "store_u32 k v (w_mem w) = Some m"
    using store_u32_ok [of k "w_mem w"] park by (auto simp: parked_ok_def)
  note f = flag_store [OF m park ring]
  show ?thesis
    using inv f assms(2,3) m by (auto simp: shm_inv_def prod_ok_def split: producer.splits)
qed

lemma cons_step_inv:
  assumes inv: "shm_inv p k w" and "w_cons w = CSleep \<Longrightarrow> 0 < w_pipe w"
  shows "\<exists>w'. cons_step p k w = Some w' \<and> shm_inv p k w'"
proof -
  note lay = shm_invD [OF inv]
  have ring: "ring_inv p (w_mem w)" and park: "parked_ok p k (length (w_mem w))"
    and hist: "w_got w @ ring_contents p (w_mem w) = w_sent w"
    using inv by (simp_all add: shm_inv_def)
  show ?thesis
  proof (cases "w_cons w")
    case (CTry n)
    then show ?thesis
      using look_inv [OF inv, of "case n of 0 \<Rightarrow> CPark | Suc k \<Rightarrow> CTry k" False]
      by (auto simp: cons_step_def cons_ok_def split: nat.splits)
  next
    case CPark
    then show ?thesis using flag_write_inv [OF inv, of CRecheck 1] by (auto simp: cons_step_def cons_ok_def)
  next
    case CRecheck
    then show ?thesis using look_inv [OF inv, of CSleep True] by (auto simp: cons_step_def cons_ok_def)
  next
    case CSleep
    then show ?thesis
      using assms(2) inv by (auto simp: cons_step_def shm_inv_def prod_ok_def cons_ok_def split: producer.splits)
  next
    case CClear
    then show ?thesis
      using flag_write_inv [OF inv, of "CTry SPIN_ITERS" 0] by (auto simp: cons_step_def cons_ok_def)
  next
    case (CCopy again h)
    then have h: "h = head_of p (w_mem w)" and ne: "ring_contents p (w_mem w) \<noteq> []"
      using inv by (simp_all add: shm_inv_def cons_ok_def)
    obtain data where data: "slot_load p h (w_mem w) = Some data" using slot_load_ok [OF lay(3,4)] by blast
    have "0 < unat (tail_of p (w_mem w) - head_of p (w_mem w))"
      unfolding length_contents [symmetric] using ne by simp
    then have "ring_contents p (w_mem w) = data # tl (ring_contents p (w_mem w))"
      using data h by (auto simp: ring_contents_def upt_rec)
    then show ?thesis
      using CCopy data inv h by (auto simp: cons_step_def shm_inv_def prod_ok_def cons_ok_def split: producer.splits)
  next
    case (CAdvance again h data)
    then obtain ds where h: "h = head_of p (w_mem w)" and ds: "ring_contents p (w_mem w) = data # ds"
      using inv by (auto simp: shm_inv_def cons_ok_def)
    obtain m' where m': "store_u32 (rp_head_off p) (h + 1) (w_mem w) = Some m'"
      using store_u32_ok [of "rp_head_off p" "w_mem w"] lay(1) by (fastforce simp: layout_ok_def)
    have ne: "head_of p (w_mem w) \<noteq> tail_of p (w_mem w)" using ds by (auto simp: ring_contents_def)
    have sl: "slot_load p h (w_mem w) \<noteq> None" using slot_load_ok [OF lay(3,4), of h] by auto
    have "\<exists>r. ring_pop p (w_mem w) = Some (Some r, m')"
      using ne sl m' h lay(3) by (auto simp: ring_pop_def load_tail [OF lay(1)] load_head [OF lay(1)])
    then have pop: "ring_inv p m'" "ring_contents p m' = ds"
      using pop_spec [OF ring] ds by auto
    note c = store_counter [OF lay(1) m' disjI2 [OF refl]]
    note fk = flag_kept_counter [OF m' park disjI2 [OF refl]]
    have ht: "rp_head_off p \<noteq> rp_tail_off p" using lay(1) by (auto simp: layout_ok_def)
    have "shm_inv p k (w\<lparr>w_mem := m', w_cons := (if again then CClear else CTry SPIN_ITERS),
               w_got := w_got w @ [data]\<rparr>)"
      using inv pop fk hist ds CAdvance c ht
      by (auto simp: shm_inv_def prod_ok_def cons_ok_def split: producer.splits)
    then show ?thesis using CAdvance m' by (simp add: cons_step_def)
  qed
qed

lemma shm_reach_inv:
  assumes "shm_reach p k m w" and "ring_inv p m" and "unat (rp_capacity p) dvd 2 ^ 32"
    and "parked_ok p k (length m)" and "load_u32 k m = Some 0" and "ring_contents p m = []"
  shows "shm_inv p k w"
  using assms(1)
proof induction
  case shm_start
  then show ?case using assms(2-) by (simp add: shm_inv_def start_def prod_ok_def cons_ok_def)
next
  case (shm_prod w d w')
  then show ?case using prod_step_inv [OF shm_prod.IH, of d] by simp
next
  case (shm_cons w w')
  have "w_cons w = CSleep \<Longrightarrow> 0 < w_pipe w"
    using shm_cons.hyps(2) by (auto simp: cons_step_def split: if_splits)
  then show ?case using cons_step_inv [OF shm_cons.IH] shm_cons.hyps(2) by auto
qed

section \<open>The consumer alone\<close>

primrec cons_run :: "ring_params \<Rightarrow> nat \<Rightarrow> nat \<Rightarrow> world \<Rightarrow> world option" where
  "cons_run p parked 0 w = Some w"
| "cons_run p parked (Suc n) w = Option.bind (cons_step p parked w) (cons_run p parked n)"

text \<open>How many steps the consumer is from taking a packet that is there.\<close>

fun distance :: "consumer \<Rightarrow> nat" where
  "distance (CAdvance again h d) = 1"
| "distance (CCopy again h) = 2"
| "distance (CTry n) = 3"
| "distance CRecheck = 3"
| "distance CClear = 4"
| "distance CPark = 4"
| "distance CSleep = 5"

lemma cons_progress:
  assumes inv: "shm_inv p k w" and "w_prod w = PIdle" and ne: "ring_contents p (w_mem w) \<noteq> []"
  shows "\<exists>w'. cons_step p k w = Some w' \<and> shm_inv p k w' \<and> w_prod w' = PIdle \<and> w_sent w' = w_sent w
    \<and> 6 * length (ring_contents p (w_mem w')) + distance (w_cons w')
      < 6 * length (ring_contents p (w_mem w)) + distance (w_cons w)"
proof -
  note lay = shm_invD [OF inv]
  have ring: "ring_inv p (w_mem w)" and park: "parked_ok p k (length (w_mem w))"
    using inv by (simp_all add: shm_inv_def)
  have awake: "w_cons w = CSleep \<Longrightarrow> 0 < w_pipe w"
    using inv assms(2) ne by (auto simp: shm_inv_def cons_ok_def)
  obtain w' where w': "cons_step p k w = Some w'" "shm_inv p k w'"
    using cons_step_inv [OF inv awake] by blast
  have data: "head_of p (w_mem w) \<noteq> tail_of p (w_mem w)" using ne contents_empty by metis
  have same: "ring_contents p m' = ring_contents p (w_mem w)" if "store_u32 k v (w_mem w) = Some m'" for v m'
    using flag_store [OF that park ring] by blast
  have hist: "w_got w' @ ring_contents p (w_mem w') = w_sent w'" "w_got w @ ring_contents p (w_mem w) = w_sent w"
    using w'(2) inv by (simp_all add: shm_inv_def)
  have looks: "look p again otherwise w = Some (w\<lparr>w_cons := CCopy again (head_of p (w_mem w))\<rparr>)"
    for again otherwise
    using data by (simp add: look_def load_tail [OF lay(1)] load_head [OF lay(1)])
  have "w_prod w' = PIdle \<and> w_sent w' = w_sent w
    \<and> 6 * length (ring_contents p (w_mem w')) + distance (w_cons w')
      < 6 * length (ring_contents p (w_mem w)) + distance (w_cons w)"
  proof (cases "w_cons w")
    case (CAdvance again h d)
    then have adv: "w_prod w' = PIdle" "w_sent w' = w_sent w" "w_got w' = w_got w @ [d]"
      "distance (w_cons w') \<le> 5"
      using w'(1) assms(2) by (auto simp: cons_step_def bind_eq_Some_conv)
    have "length (w_got w') + length (ring_contents p (w_mem w')) =
        length (w_got w) + length (ring_contents p (w_mem w))"
      using hist adv(2) by (metis length_append)
    then show ?thesis using adv CAdvance by simp
  qed (use w'(1) assms(2) awake same looks in \<open>auto simp: cons_step_def bind_eq_Some_conv\<close>)
  then show ?thesis using w' by blast
qed

lemma cons_drains:
  assumes "shm_inv p k w" and "w_prod w = PIdle"
  shows "\<exists>n w'. cons_run p k n w = Some w' \<and> w_got w' = w_sent w"
  using assms
proof (induction "6 * length (ring_contents p (w_mem w)) + distance (w_cons w)" arbitrary: w rule: less_induct)
  case less
  show ?case
  proof (cases "ring_contents p (w_mem w) = []")
    case True
    then have "cons_run p k 0 w = Some w \<and> w_got w = w_sent w"
      using less.prems(1) by (simp add: shm_inv_def)
    then show ?thesis by blast
  next
    case False
    obtain w1 where w1: "cons_step p k w = Some w1" "shm_inv p k w1" "w_prod w1 = PIdle"
      "w_sent w1 = w_sent w"
      "6 * length (ring_contents p (w_mem w1)) + distance (w_cons w1)
        < 6 * length (ring_contents p (w_mem w)) + distance (w_cons w)"
      using cons_progress [OF less.prems False] by blast
    obtain n w' where "cons_run p k n w1 = Some w'" "w_got w' = w_sent w1"
      using less.hyps [OF w1(5,2,3)] by blast
    then have "cons_run p k (Suc n) w = Some w' \<and> w_got w' = w_sent w" using w1(1,4) by simp
    then show ?thesis by blast
  qed
qed

section \<open>Properties\<close>

text \<open>
  (C25) However the loads and stores of a sending and a receiving process interleave on one
  ring, the packets received are a prefix of the packets sent, in order and byte for byte, with
  the rest still queued; neither process ever faults, and the receiver is stuck only asleep on
  an empty pipe.
\<close>

theorem shm_interleaving_fifo:
  assumes "shm_reach p parked m w" and "ring_inv p m" and "unat (rp_capacity p) dvd 2 ^ 32"
    and "parked_ok p parked (length m)" and "load_u32 parked m = Some 0" and "ring_contents p m = []"
  shows "w_sent w = w_got w @ ring_contents p (w_mem w) \<and> prod_step p parked d w \<noteq> None
    \<and> (cons_step p parked w \<noteq> None \<or> w_cons w = CSleep \<and> w_pipe w = 0)"
proof -
  have inv: "shm_inv p parked w" by (rule shm_reach_inv [OF assms])
  then have "w_sent w = w_got w @ ring_contents p (w_mem w)" by (simp add: shm_inv_def)
  moreover have "prod_step p parked d w \<noteq> None" using prod_step_inv [OF inv, of d] by auto
  moreover have "cons_step p parked w \<noteq> None \<or> w_cons w = CSleep \<and> w_pipe w = 0"
    using cons_step_inv [OF inv] by fastforce
  ultimately show ?thesis by blast
qed

lemma example_start:
  obtains m where "ring_inv (a2e_params 4 8) m" and "ring_contents (a2e_params 4 8) m = []"
    and "parked_ok (a2e_params 4 8) OFF_A2E_PARKED (length m)" and "load_u32 OFF_A2E_PARKED m = Some 0"
    and "unat (rp_capacity (a2e_params 4 8)) dvd 2 ^ 32" and "layout_ok (a2e_params 4 8) (length m)"
    and "tail_of (a2e_params 4 8) m = 0" and "head_of (a2e_params 4 8) m = 0"
proof -
  define m :: mem where "m = replicate 544 0"
  have len: "length m = 544" unfolding m_def by (rule length_replicate)
  have zero: "load_u32 off m = Some 0" if "off + 4 \<le> 544" for off
    unfolding m_def using that by (rule load_zeros)
  have lay: "layout_ok (a2e_params 4 8) (length m)"
    using layouts [of 4 8] example_total len by simp
  have c: "tail_of (a2e_params 4 8) m = 0" "head_of (a2e_params 4 8) m = 0"
    using zero by (simp_all add: tail_of_def head_of_def a2e_params_def layout_defs)
  show ?thesis
    by (rule that [of m])
      (use lay c zero len in \<open>simp_all add: ring_inv_def ring_contents_def parked_ok_def a2e_params_def
        layout_defs a2e_ring_offset_def unat_slot_stride\<close>)
qed

theorem shm_interleaving_fifo_witness:
  "\<exists>m w. shm_reach (a2e_params 4 8) OFF_A2E_PARKED m w \<and> w_prod w = PPush [7]
    \<and> w_sent w = w_got w @ ring_contents (a2e_params 4 8) (w_mem w)"
proof -
  obtain m where m: "ring_inv (a2e_params 4 8) m" "ring_contents (a2e_params 4 8) m = []"
    "parked_ok (a2e_params 4 8) OFF_A2E_PARKED (length m)" "load_u32 OFF_A2E_PARKED m = Some 0"
    "unat (rp_capacity (a2e_params 4 8)) dvd 2 ^ 32"
    by (rule example_start)
  let ?w = "(start m)\<lparr>w_prod := PPush [7]\<rparr>"
  have "prod_step (a2e_params 4 8) OFF_A2E_PARKED [7] (start m) = Some ?w"
    by (simp add: prod_step_def start_def a2e_params_def)
  then have reach: "shm_reach (a2e_params 4 8) OFF_A2E_PARKED m ?w" by (rule shm_prod [OF shm_start])
  show ?thesis
    using reach shm_interleaving_fifo [OF reach m(1,5,3,4,2)] by (intro exI [of _ m] exI [of _ ?w]) simp
qed

text \<open>
  (C26) No lost wakeup, when stores are seen at once: whenever the receiver sleeps on an empty
  pipe and the sender is not just about to look at the parked flag, everything sent has been
  received. From any reachable state in which the sender is done, the receiver on its own gets
  every packet sent in finitely many steps.
\<close>

theorem shm_no_lost_wakeup:
  assumes "shm_reach p parked m w" and "ring_inv p m" and "unat (rp_capacity p) dvd 2 ^ 32"
    and "parked_ok p parked (length m)" and "load_u32 parked m = Some 0" and "ring_contents p m = []"
  shows "(cons_step p parked w = None \<longrightarrow> w_prod w = PWake \<or> w_got w = w_sent w)
    \<and> (w_prod w = PIdle \<longrightarrow> (\<exists>n w'. cons_run p parked n w = Some w' \<and> w_got w' = w_sent w))"
proof -
  have inv: "shm_inv p parked w" by (rule shm_reach_inv [OF assms])
  have "w_prod w = PWake \<or> w_got w = w_sent w" if none: "cons_step p parked w = None"
  proof -
    have "w_cons w = CSleep \<and> w_pipe w = 0" using cons_step_inv [OF inv] none by fastforce
    then show ?thesis using inv by (auto simp: shm_inv_def cons_ok_def)
  qed
  then show ?thesis using cons_drains [OF inv] by blast
qed

lemma example_sent:
  obtains m w where "ring_inv (a2e_params 4 8) m" and "ring_contents (a2e_params 4 8) m = []"
    and "parked_ok (a2e_params 4 8) OFF_A2E_PARKED (length m)" and "load_u32 OFF_A2E_PARKED m = Some 0"
    and "unat (rp_capacity (a2e_params 4 8)) dvd 2 ^ 32"
    and "shm_reach (a2e_params 4 8) OFF_A2E_PARKED m w" and "w_prod w = PIdle" and "w_sent w = [[7]]"
proof -
  let ?p = "a2e_params 4 8" and ?k = OFF_A2E_PARKED
  obtain m where m: "ring_inv ?p m" "ring_contents ?p m = []" "parked_ok ?p ?k (length m)"
    "load_u32 ?k m = Some 0" "unat (rp_capacity ?p) dvd 2 ^ 32"
    "layout_ok ?p (length m)" "tail_of ?p m = 0" "head_of ?p m = 0"
    by (rule example_start)
  have room: "\<not> rp_capacity ?p \<le> 0" by (simp add: a2e_params_def)
  note inv = shm_reach_inv [OF _ m(1,5,3,4,2)]
  let ?w1 = "(start m)\<lparr>w_prod := PPush [7]\<rparr>"
  let ?w2 = "(start m)\<lparr>w_prod := PFill [7] 0\<rparr>"
  have "prod_step ?p ?k [7] (start m) = Some ?w1" by (simp add: prod_step_def start_def a2e_params_def)
  then have r1: "shm_reach ?p ?k m ?w1" by (rule shm_prod [OF shm_start])
  have "prod_step ?p ?k [7] ?w1 = Some ?w2"
    using load_tail [OF m(6)] load_head [OF m(6)] m(7,8) room by (simp add: prod_step_def start_def)
  then have r2: "shm_reach ?p ?k m ?w2" by (rule shm_prod [OF r1])
  obtain w3 where s3: "prod_step ?p ?k [7] ?w2 = Some w3" using prod_step_inv [OF inv [OF r2]] by blast
  then have r3: "shm_reach ?p ?k m w3" by (rule shm_prod [OF r2])
  have w3: "w_prod w3 = PPublish [7] 0" "w_sent w3 = []"
    using s3 by (auto simp: prod_step_def start_def bind_eq_Some_conv)
  obtain w4 where s4: "prod_step ?p ?k [7] w3 = Some w4" using prod_step_inv [OF inv [OF r3]] by blast
  then have r4: "shm_reach ?p ?k m w4" by (rule shm_prod [OF r3])
  have w4: "w_prod w4 = PWake" "w_sent w4 = [[7]]"
    using s4 w3 by (auto simp: prod_step_def bind_eq_Some_conv)
  obtain w5 where s5: "prod_step ?p ?k [7] w4 = Some w5" using prod_step_inv [OF inv [OF r4]] by blast
  then have r5: "shm_reach ?p ?k m w5" by (rule shm_prod [OF r4])
  have "w_prod w5 = PIdle" "w_sent w5 = [[7]]"
    using s5 w4 by (auto simp: prod_step_def bind_eq_Some_conv)
  then show ?thesis using that [OF m(1-5) r5] by blast
qed

theorem shm_no_lost_wakeup_witness:
  "\<exists>m w n w'. shm_reach (a2e_params 4 8) OFF_A2E_PARKED m w \<and> w_sent w = [[7]]
    \<and> cons_run (a2e_params 4 8) OFF_A2E_PARKED n w = Some w' \<and> w_got w' = [[7]]"
proof -
  obtain m w where m: "ring_inv (a2e_params 4 8) m" "ring_contents (a2e_params 4 8) m = []"
    "parked_ok (a2e_params 4 8) OFF_A2E_PARKED (length m)" "load_u32 OFF_A2E_PARKED m = Some 0"
    "unat (rp_capacity (a2e_params 4 8)) dvd 2 ^ 32"
    and w: "shm_reach (a2e_params 4 8) OFF_A2E_PARKED m w" "w_prod w = PIdle" "w_sent w = [[7]]"
    by (rule example_sent)
  then show ?thesis
    using shm_no_lost_wakeup [OF w(1) m(1,5,3,4,2)] by metis
qed

section \<open>With a store buffer\<close>

text \<open>
  \<open>ring_push\<close> publishes with a Release store and \<open>send_bytes\<close> then loads the flag: no fence and
  no SeqCst store stands between the two, and a Release store followed by a load of another
  location may be reordered (on x86-64 both are plain moves, and the store waits in the store
  buffer of its processor while the load reads memory). The producer's stores here go to such
  a buffer, first in first out, and the processor drains it when it likes; the producer itself
  reads through it. The consumer's stores, the SeqCst store of the flag among them, reach
  memory at once.
\<close>

type_synonym store_buffer = "(nat \<times> u8 list) list"

primrec drain :: "store_buffer \<Rightarrow> mem \<Rightarrow> mem option" where
  "drain [] m = Some m"
| "drain (st # sts) m = Option.bind (mem_write (fst st) (snd st) m) (drain sts)"

definition buffered_prod_step ::
    "ring_params \<Rightarrow> nat \<Rightarrow> u8 list \<Rightarrow> world \<Rightarrow> store_buffer \<Rightarrow> (world \<times> store_buffer) option" where
  "buffered_prod_step p parked next w buf = (case w_prod w of
     PFill data t \<Rightarrow>
       Some (w\<lparr>w_prod := PPublish data t\<rparr>,
             buf @ [(slot_at p t, to_le 4 (of_nat (length data) :: u32)), (slot_at p t + 4, data)])
   | PPublish data t \<Rightarrow>
       Some (w\<lparr>w_prod := PWake, w_sent := w_sent w @ [data]\<rparr>, buf @ [(rp_tail_off p, to_le 4 (t + 1))])
   | _ \<Rightarrow> do {
       seen \<leftarrow> drain buf (w_mem w);
       w' \<leftarrow> prod_step p parked next (w\<lparr>w_mem := seen\<rparr>);
       Some (w'\<lparr>w_mem := w_mem w\<rparr>, buf) })"

inductive buffered_reach :: "ring_params \<Rightarrow> nat \<Rightarrow> mem \<Rightarrow> world \<Rightarrow> store_buffer \<Rightarrow> bool"
  for p parked m where
  buf_start: "buffered_reach p parked m (start m) []"
| buf_prod: "buffered_reach p parked m w buf \<Longrightarrow> buffered_prod_step p parked d w buf = Some (w', buf')
    \<Longrightarrow> buffered_reach p parked m w' buf'"
| buf_cons: "buffered_reach p parked m w buf \<Longrightarrow> cons_step p parked w = Some w'
    \<Longrightarrow> buffered_reach p parked m w' buf"
| buf_drain: "buffered_reach p parked m w (st # buf) \<Longrightarrow> mem_write (fst st) (snd st) (w_mem w) = Some m'
    \<Longrightarrow> buffered_reach p parked m (w\<lparr>w_mem := m'\<rparr>) buf"

definition small_params :: ring_params where
  "small_params = \<lparr>rp_ring_off = 12, rp_tail_off = 0, rp_head_off = 4, rp_capacity = 4, rp_slot_size = 1\<rparr>"

definition small_region :: mem where
  "small_region = [0, 0, 0, 0, 0, 0, 0, 0, 0, 0, 0, 0, 0, 0, 0, 0, 0, 0, 0, 0, 0, 0, 0, 0, 0, 0, 0, 0, 0, 0, 0, 0]"

definition small_world :: "mem \<Rightarrow> producer \<Rightarrow> consumer \<Rightarrow> u8 list list \<Rightarrow> world" where
  "small_world m pr c sent = \<lparr>w_mem = m, w_prod = pr, w_cons = c, w_pipe = 0, w_sent = sent, w_got = []\<rparr>"

lemma small_spin:
  assumes "buffered_reach small_params 8 small_region (small_world small_region PIdle (CTry n) sent) buf"
  shows "buffered_reach small_params 8 small_region (small_world small_region PIdle CPark sent) buf"
  using assms
proof (induction n)
  case 0
  have "cons_step small_params 8 (small_world small_region PIdle (CTry 0) sent) =
      Some (small_world small_region PIdle CPark sent)"
    by code_simp
  then show ?case by (rule buf_cons [OF 0])
next
  case (Suc n)
  have "load_u32 0 small_region = Some 0" "load_u32 4 small_region = Some 0" by code_simp+
  then have "cons_step small_params 8 (small_world small_region PIdle (CTry (Suc n)) sent) =
      Some (small_world small_region PIdle (CTry n) sent)"
    by (simp add: cons_step_def look_def small_world_def small_params_def)
  then show ?case using Suc.IH buf_cons [OF Suc.prems] by blast
qed

text \<open>
  With a store buffer the wakeup protocol loses wakeups: a run ends with the packet sent and
  visible in the ring, the sender done, no store pending, and the receiver asleep on an empty
  pipe, where it stays until some later send. The Release store of the tail and the SeqCst
  load of the flag are not ordered, so the total order the protocol relies on does not exist.
\<close>

theorem shm_wakeup_lost_with_store_buffer:
  "\<exists>w. buffered_reach small_params 8 small_region w [] \<and> w_prod w = PIdle
    \<and> cons_step small_params 8 w = None
    \<and> w_sent w = [[7]] \<and> w_got w = [] \<and> ring_contents small_params (w_mem w) = [[7]]"
proof -
  let ?p = small_params and ?m = small_region
  let ?b1 = "[(12, [1, 0, 0, 0]), (16, [7])] :: store_buffer"
  let ?b2 = "[(12, [1, 0, 0, 0]), (16, [7]), (0, [1, 0, 0, 0])] :: store_buffer"
  let ?k = "[0, 0, 0, 0, 0, 0, 0, 0, 1, 0, 0, 0, 0, 0, 0, 0, 0, 0, 0, 0, 0, 0, 0, 0, 0, 0, 0, 0, 0, 0, 0, 0]"
  let ?k1 = "[0, 0, 0, 0, 0, 0, 0, 0, 1, 0, 0, 0, 1, 0, 0, 0, 0, 0, 0, 0, 0, 0, 0, 0, 0, 0, 0, 0, 0, 0, 0, 0]"
  let ?k2 = "[0, 0, 0, 0, 0, 0, 0, 0, 1, 0, 0, 0, 1, 0, 0, 0, 7, 0, 0, 0, 0, 0, 0, 0, 0, 0, 0, 0, 0, 0, 0, 0]"
  let ?k3 = "[1, 0, 0, 0, 0, 0, 0, 0, 1, 0, 0, 0, 1, 0, 0, 0, 7, 0, 0, 0, 0, 0, 0, 0, 0, 0, 0, 0, 0, 0, 0, 0]"
  have s: "start ?m = small_world ?m PIdle (CTry SPIN_ITERS) []"
    by (simp add: start_def small_world_def)
  have th: "load_u32 0 ?m = Some 0" "load_u32 4 ?m = Some 0" "load_u32 8 ?m = Some 0"
    "drain [(12, [1, 0, 0, 0]), (16, [7]), (0, [1, 0, 0, 0])] ?m = Some [1, 0, 0, 0, 0, 0, 0, 0, 0, 0, 0, 0, 1, 0, 0, 0, 7, 0, 0, 0, 0, 0, 0, 0, 0, 0, 0, 0, 0, 0, 0, 0]"
    "load_u32 8 [1, 0, 0, 0, 0, 0, 0, 0, 0, 0, 0, 0, 1, 0, 0, 0, 7, 0, 0, 0, 0, 0, 0, 0, 0, 0, 0, 0, 0, 0, 0, 0] = Some 0"
    "slot_at ?p 0 = 12" "to_le 4 (1 :: u32) = [1, 0, 0, 0]"
    by code_simp+
  note defs = buffered_prod_step_def prod_step_def small_world_def
  have r0: "buffered_reach ?p 8 ?m (small_world ?m PIdle (CTry SPIN_ITERS) []) []"
    using buf_start [of ?p 8 ?m] unfolding s .
  have r1: "buffered_reach ?p 8 ?m (small_world ?m (PPush [7]) (CTry SPIN_ITERS) []) []"
    by (rule buf_prod [OF r0, of "[7]"]) (simp add: defs small_params_def)
  have r2: "buffered_reach ?p 8 ?m (small_world ?m (PFill [7] 0) (CTry SPIN_ITERS) []) []"
    by (rule buf_prod [OF r1, of "[7]"]) (simp add: defs th small_params_def)
  have r3: "buffered_reach ?p 8 ?m (small_world ?m (PPublish [7] 0) (CTry SPIN_ITERS) []) ?b1"
    by (rule buf_prod [OF r2, of "[7]"]) (simp add: defs th)
  have r4: "buffered_reach ?p 8 ?m (small_world ?m PWake (CTry SPIN_ITERS) [[7]]) ?b2"
    by (rule buf_prod [OF r3, of "[7]"]) (simp add: defs th, simp add: small_params_def)
  have r5: "buffered_reach ?p 8 ?m (small_world ?m PIdle (CTry SPIN_ITERS) [[7]]) ?b2"
    by (rule buf_prod [OF r4, of "[7]"]) (simp add: defs th del: drain.simps)
  have r6: "buffered_reach ?p 8 ?m (small_world ?m PIdle CPark [[7]]) ?b2"
    by (rule small_spin [OF r5])
  have r7: "buffered_reach ?p 8 ?m (small_world ?k PIdle CRecheck [[7]]) ?b2"
    by (rule buf_cons [OF r6]) code_simp
  have r8: "buffered_reach ?p 8 ?m (small_world ?k PIdle CSleep [[7]]) ?b2"
    by (rule buf_cons [OF r7]) code_simp
  have r9: "buffered_reach ?p 8 ?m (small_world ?k1 PIdle CSleep [[7]]) [(16, [7]), (0, [1, 0, 0, 0])]"
    using buf_drain [of ?p 8 ?m "small_world ?k PIdle CSleep [[7]]" "(12, [1, 0, 0, 0])" "[(16, [7]), (0, [1, 0, 0, 0])]" ?k1] r8
    by (simp add: small_world_def mem_write_def)
  have r10: "buffered_reach ?p 8 ?m (small_world ?k2 PIdle CSleep [[7]]) [(0, [1, 0, 0, 0])]"
    using buf_drain [OF r9, of ?k2] by (simp add: small_world_def mem_write_def)
  have r11: "buffered_reach ?p 8 ?m (small_world ?k3 PIdle CSleep [[7]]) []"
    using buf_drain [OF r10, of ?k3] by (simp add: small_world_def mem_write_def)
  have "ring_contents ?p ?k3 = [[7]]" by code_simp
  then show ?thesis
    using r11 by (intro exI [of _ "small_world ?k3 PIdle CSleep [[7]]"]) (simp add: small_world_def cons_step_def)
qed

end
