(* ===== verification/Nlsr_Dijkstra.thy ===== *)
theory Nlsr_Dijkstra
  imports Prelude Complex_Main "HOL-Library.Product_Lexorder"
begin

text \<open>
  The shortest-path computation of NLSR (\<open>dijkstra\<close> of \<open>routing_table.rs\<close>) on an adjacency
  matrix, and its correctness against walks in a graph: the loop ends, and the distance of a
  node is the least cost of a walk to it, or the stand-in for infinity when no walk is cheaper.
  Costs are exact rationals where the code has \<open>f64\<close>: rounding, \<open>NaN\<close> and infinities are not modelled.
\<close>

section \<open>Walks\<close>

type_synonym cost = rat

type_synonym 'v graph = "'v \<Rightarrow> 'v \<Rightarrow> cost option"

inductive walk :: "'v graph \<Rightarrow> 'v \<Rightarrow> 'v \<Rightarrow> cost \<Rightarrow> bool" for g where
  walk_nil: "walk g a a 0"
| walk_step: "walk g a b c \<Longrightarrow> g b d = Some w \<Longrightarrow> walk g a d (c + w)"

definition least_walk :: "'v graph \<Rightarrow> 'v \<Rightarrow> 'v \<Rightarrow> cost \<Rightarrow> bool" where
  "least_walk g a b c \<longleftrightarrow> walk g a b c \<and> (\<forall>c'. walk g a b c' \<longrightarrow> c \<le> c')"

definition nonneg :: "'v graph \<Rightarrow> bool" where
  "nonneg g \<longleftrightarrow> (\<forall>a b w. g a b = Some w \<longrightarrow> 0 \<le> w)"

lemma nonnegD: "nonneg g \<Longrightarrow> g a b = Some w \<Longrightarrow> 0 \<le> w"
  by (simp add: nonneg_def)

lemma walk_nonneg: "walk g a b c \<Longrightarrow> nonneg g \<Longrightarrow> 0 \<le> c"
  by (induction rule: walk.induct) (auto dest: nonnegD)

lemma walk_edge: "g a b = Some w \<Longrightarrow> walk g a b w"
  using walk_step [OF walk_nil] by fastforce

lemma walk_trans:
  assumes "walk g b d c'" and "walk g a b c" shows "walk g a d (c + c')"
  using assms
proof (induction rule: walk.induct)
  case (walk_step b0 b1 c1 d w)
  then show ?case using walk.walk_step [of g a b1 "c + c1" d w] by (simp add: add.assoc)
qed (auto intro: walk.intros)

lemma walk_Cons: "g a b = Some w \<Longrightarrow> walk g b d c \<Longrightarrow> walk g a d (w + c)"
  using walk_trans [of g b d c a w] walk_edge [of g a b w] by simp

lemma walk_rev:
  assumes "walk g a b c" and "\<And>x y. g x y = g y x" shows "walk g b a c"
  using assms(1)
proof (induction rule: walk.induct)
  case (walk_step a b c d w)
  then show ?case using walk_Cons [of g d b w a c] assms(2) by (simp add: add.commute)
qed (rule walk_nil)

lemma least_walk_unique: "least_walk g a b c \<Longrightarrow> least_walk g a b c' \<Longrightarrow> c = c'"
  by (auto simp: least_walk_def intro: order.antisym)

section \<open>The algorithm\<close>

type_synonym matrix = "cost list list"

text \<open>The binary min-heap of cost and node: popped in increasing order, so kept sorted here.\<close>

type_synonym heap = "(cost \<times> nat) list"

text \<open>\<open>f64::MAX / 2.0\<close>.\<close>

definition COST_INF :: cost where "COST_INF = (2 ^ 53 - 1) * 2 ^ 970"

definition relax :: "matrix \<Rightarrow> nat \<Rightarrow> nat \<Rightarrow> cost list \<times> heap \<Rightarrow> cost list \<times> heap" where
  "relax m u v = (\<lambda>(dst, heap).
     let edge = m ! u ! v in
     if edge < 0 then (dst, heap)
     else let new_dist = dst ! u + edge in
       if new_dist < dst ! v then (dst[v := new_dist], insort (new_dist, v) heap)
       else (dst, heap))"

text \<open>One round of the loop on a non-empty heap.\<close>

definition dijkstra_step :: "matrix \<Rightarrow> nat \<Rightarrow> cost \<times> nat \<Rightarrow> cost list \<times> heap \<Rightarrow> cost list \<times> heap" where
  "dijkstra_step m n = (\<lambda>(d, u) (dst, heap).
     if dst ! u < d then (dst, heap) else fold (relax m u) [0..<n] (dst, heap))"

partial_function (option) dijkstra_loop :: "matrix \<Rightarrow> nat \<Rightarrow> cost list \<times> heap \<Rightarrow> cost list option" where
  "dijkstra_loop m n st = (case st of
     (dst, []) \<Rightarrow> Some dst
   | (dst, e # heap) \<Rightarrow> dijkstra_loop m n (dijkstra_step m n e (dst, heap)))"

definition dijkstra :: "matrix \<Rightarrow> nat \<Rightarrow> nat \<Rightarrow> cost list option" where
  "dijkstra m s n = dijkstra_loop m n ((replicate n COST_INF)[s := 0], [(0, s)])"

declare dijkstra_loop.simps [code]

lemma loop_Nil: "dijkstra_loop m n (dst, []) = Some dst"
  by (subst dijkstra_loop.simps) simp

lemma loop_Cons: "dijkstra_loop m n (dst, e # heap) = dijkstra_loop m n (dijkstra_step m n e (dst, heap))"
  by (subst dijkstra_loop.simps) simp

text \<open>The graph of a matrix.\<close>

definition matrix_graph :: "matrix \<Rightarrow> nat \<Rightarrow> nat graph" where
  "matrix_graph m n u v = (if u < n \<and> v < n \<and> 0 \<le> m ! u ! v then Some (m ! u ! v) else None)"

lemma matrix_graph_nonneg: "nonneg (matrix_graph m n)"
  by (simp add: nonneg_def matrix_graph_def)

section \<open>The invariant\<close>

definition settled :: "matrix \<Rightarrow> nat \<Rightarrow> cost list \<Rightarrow> nat \<Rightarrow> bool" where
  "settled m n dst u \<longleftrightarrow> (\<forall>v<n. 0 \<le> m ! u ! v \<longrightarrow> dst ! v \<le> dst ! u + m ! u ! v)"

text \<open>Distances are costs of walks or infinite; a finite one is in the heap or settled.\<close>

definition sound :: "matrix \<Rightarrow> nat \<Rightarrow> nat \<Rightarrow> cost list \<times> heap \<Rightarrow> bool" where
  "sound m s n = (\<lambda>(dst, heap). length dst = n \<and> dst ! s = 0
     \<and> (\<forall>v<n. dst ! v \<le> COST_INF \<and> (dst ! v < COST_INF \<longrightarrow> walk (matrix_graph m n) s v (dst ! v)))
     \<and> (\<forall>(d, u) \<in> set heap. u < n \<and> dst ! u \<le> d \<and> d < COST_INF))"

definition pending :: "matrix \<Rightarrow> nat \<Rightarrow> nat set \<Rightarrow> cost list \<times> heap \<Rightarrow> bool" where
  "pending m n X = (\<lambda>(dst, heap). \<forall>u<n. dst ! u < COST_INF \<longrightarrow>
     u \<in> X \<or> (dst ! u, u) \<in> set heap \<or> settled m n dst u)"

lemma sound_nonneg: "sound m s n (dst, heap) \<Longrightarrow> v < n \<Longrightarrow> 0 \<le> dst ! v"
  using walk_nonneg [OF _ matrix_graph_nonneg] by (fastforce simp: sound_def COST_INF_def)

lemma sound_le:
  assumes "sound m s n st" and "v < n" shows "fst st ! v \<le> COST_INF"
  using assms by (cases st) (simp add: sound_def)

lemma relax_cases:
  assumes "relax m u v (dst, heap) = (dst', heap')"
  obtains "dst' = dst" "heap' = heap" "0 \<le> m ! u ! v \<longrightarrow> dst ! v \<le> dst ! u + m ! u ! v"
  | "0 \<le> m ! u ! v" "dst ! u + m ! u ! v < dst ! v" "dst' = dst[v := dst ! u + m ! u ! v]"
    "heap' = insort (dst ! u + m ! u ! v, v) heap"
  using assms by (fastforce simp: relax_def Let_def split: if_splits)

lemma relax_sound:
  assumes "sound m s n (dst, heap)" and "u < n" and "v < n" and "dst ! u < COST_INF" and "s < n"
    and "relax m u v (dst, heap) = (dst', heap')"
  shows "sound m s n (dst', heap') \<and> dst' ! u = dst ! u \<and> (\<forall>x<n. dst' ! x \<le> dst ! x)
    \<and> (dst' = dst \<and> heap' = heap \<or> dst' ! v < dst ! v)"
proof (rule relax_cases [OF assms(6)])
  assume "dst' = dst" "heap' = heap"
  then show ?thesis using assms(1) by simp
next
  let ?w = "m ! u ! v" and ?d = "dst ! u + m ! u ! v"
  assume w: "0 \<le> ?w" "?d < dst ! v" and d': "dst' = dst[v := ?d]" and h': "heap' = insort (?d, v) heap"
  have len: "length dst = n" and le: "\<And>x. x < n \<Longrightarrow> dst ! x \<le> COST_INF" and s0: "dst ! s = 0"
    and walks: "\<And>x. x < n \<Longrightarrow> dst ! x < COST_INF \<Longrightarrow> walk (matrix_graph m n) s x (dst ! x)"
    and hp: "\<And>d x. (d, x) \<in> set heap \<Longrightarrow> x < n \<and> dst ! x \<le> d \<and> d < COST_INF"
    using assms(1) by (auto simp: sound_def)
  have uv: "u \<noteq> v" and sv: "s \<noteq> v"
    using w s0 sound_nonneg [OF assms(1,2)] by auto
  have lt: "?d < COST_INF" using w(2) le [OF assms(3)] by linarith
  have "matrix_graph m n u v = Some ?w" using assms(2,3) w(1) by (simp add: matrix_graph_def)
  then have "walk (matrix_graph m n) s v ?d" using walks [OF assms(2,4)] by (blast intro: walk_step)
  then have "sound m s n (dst', heap')"
    using len le walks s0 lt sv w(2) assms(3) hp unfolding d' h'
    by (auto simp: sound_def set_insort_key nth_list_update dest!: hp)
  then show ?thesis using uv w(2) len assms(3) by (simp add: d' nth_list_update)
qed

lemma relax_pending:
  assumes "pending m n X (dst, heap)" and "length dst = n" and "v < n"
    and "relax m u v (dst, heap) = (dst', heap')"
  shows "pending m n X (dst', heap')"
proof (rule relax_cases [OF assms(4)])
  assume "dst' = dst" "heap' = heap"
  then show ?thesis using assms(1) by simp
next
  let ?d = "dst ! u + m ! u ! v"
  assume less: "?d < dst ! v" and d': "dst' = dst[v := ?d]" and h': "heap' = insort (?d, v) heap"
  have low: "dst' ! x \<le> dst ! x" for x using less assms(2,3) by (auto simp: d' nth_list_update)
  have "x \<in> X \<or> (dst' ! x, x) \<in> set heap' \<or> settled m n dst' x" if x: "x < n" "dst' ! x < COST_INF" for x
  proof (cases "x = v")
    case True
    then show ?thesis using assms(2,3) by (simp add: d' h' set_insort_key)
  next
    case False
    then have same: "dst' ! x = dst ! x" by (simp add: d')
    then have "x \<in> X \<or> (dst ! x, x) \<in> set heap \<or> settled m n dst x"
      using assms(1) x by (simp add: pending_def)
    moreover have "settled m n dst' x" if "settled m n dst x"
      using that low same order_trans unfolding settled_def by metis
    ultimately show ?thesis by (auto simp: same h' set_insort_key)
  qed
  then show ?thesis by (simp add: pending_def)
qed

lemma relax_all:
  assumes "sound m s n (dst, heap)" and "pending m n {u} (dst, heap)"
    and "u < n" and "dst ! u < COST_INF" and "s < n" and "set vs \<subseteq> {..<n}"
    and "fold (relax m u) vs (dst, heap) = (dst', heap')"
  shows "sound m s n (dst', heap') \<and> pending m n {u} (dst', heap') \<and> dst' ! u = dst ! u
    \<and> (\<forall>x<n. dst' ! x \<le> dst ! x) \<and> (dst' = dst \<and> heap' = heap \<or> (\<exists>x<n. dst' ! x < dst ! x))
    \<and> (\<forall>v \<in> set vs. 0 \<le> m ! u ! v \<longrightarrow> dst' ! v \<le> dst ! u + m ! u ! v)"
  using assms
proof (induction vs arbitrary: dst heap)
  case (Cons v vs)
  obtain d1 h1 where r: "relax m u v (dst, heap) = (d1, h1)" by force
  have v: "v < n" and vs: "set vs \<subseteq> {..<n}" using Cons.prems(6) by auto
  note one = relax_sound [OF Cons.prems(1,3) v Cons.prems(4,5) r]
  have len: "length dst = n" using Cons.prems(1) by (simp add: sound_def)
  note p1 = relax_pending [OF Cons.prems(2) len v r]
  have edge: "0 \<le> m ! u ! v \<longrightarrow> d1 ! v \<le> dst ! u + m ! u ! v"
    using relax_cases [OF r] v len by (metis nth_list_update_eq order_refl)
  have rest: "fold (relax m u) vs (d1, h1) = (dst', heap')" using Cons.prems(7) r by simp
  have u1: "d1 ! u < COST_INF" using one Cons.prems(4) by simp
  note ih = Cons.IH [OF _ p1 Cons.prems(3) u1 Cons.prems(5) vs rest]
  have s1: "sound m s n (d1, h1)" using one by blast
  have same: "d1 ! u = dst ! u" and low1: "\<And>x. x < n \<Longrightarrow> d1 ! x \<le> dst ! x" using one by auto
  have low2: "\<And>x. x < n \<Longrightarrow> dst' ! x \<le> d1 ! x" using ih [OF s1] by blast
  have low: "dst' ! x \<le> dst ! x" if "x < n" for x
    using low1 [OF that] low2 [OF that] by linarith
  have "0 \<le> m ! u ! x \<longrightarrow> dst' ! x \<le> dst ! u + m ! u ! x" if x: "x \<in> set (v # vs)" for x
  proof (cases "x = v")
    case True
    then show ?thesis using edge low2 [OF v] by (simp add: order_trans)
  next
    case False
    then have "x \<in> set vs" using x by simp
    then show ?thesis using ih [OF s1] same by metis
  qed
  moreover have "dst' = dst \<and> heap' = heap \<or> (\<exists>x<n. dst' ! x < dst ! x)"
  proof (cases "d1 = dst \<and> h1 = heap")
    case True
    then show ?thesis using ih [OF s1] by blast
  next
    case False
    then have "d1 ! v < dst ! v" using one by blast
    then have "dst' ! v < dst ! v" using low2 [OF v] by linarith
    then show ?thesis using v by blast
  qed
  ultimately show ?case using ih [OF s1] same low by simp
qed simp

lemma step_sound:
  assumes "sound m s n (dst, e # heap)" and "pending m n {} (dst, e # heap)" and "s < n"
  shows "sound m s n (dijkstra_step m n e (dst, heap)) \<and> pending m n {} (dijkstra_step m n e (dst, heap))"
proof -
  obtain d u where e: "e = (d, u)" by force
  have u: "u < n" "dst ! u \<le> d" "d < COST_INF" and snd': "sound m s n (dst, heap)"
    using assms(1) by (auto simp: e sound_def)
  show ?thesis
  proof (cases "dst ! u < d")
    case True
    have "pending m n {} (dst, heap)" using assms(2) True by (auto simp: e pending_def)
    then show ?thesis using True snd' by (simp add: dijkstra_step_def e)
  next
    case False
    have pend: "pending m n {u} (dst, heap)" using assms(2) by (auto simp: e pending_def)
    obtain dst' heap' where f: "fold (relax m u) [0..<n] (dst, heap) = (dst', heap')" by force
    have lt: "dst ! u < COST_INF" using u by linarith
    have vs: "set [0..<n] \<subseteq> {..<n}" by auto
    note r = relax_all [OF snd' pend u(1) lt assms(3) vs f]
    have "settled m n dst' u" using r by (auto simp: settled_def)
    then have "pending m n {} (dst', heap')" using r by (auto simp: pending_def)
    then show ?thesis using r False by (simp add: dijkstra_step_def e f)
  qed
qed

section \<open>Termination\<close>

text \<open>The entries of a matrix have a common denominator, and so have all distances.\<close>

definition scaled :: "int \<Rightarrow> cost \<Rightarrow> bool" where
  "scaled q x \<longleftrightarrow> x * of_int q \<in> \<int>"

lemma scaled_add: "scaled q x \<Longrightarrow> scaled q y \<Longrightarrow> scaled q (x + y)"
  by (simp add: scaled_def distrib_right)

lemma scaled_sum: "(\<And>v. v \<in> A \<Longrightarrow> scaled q (f v)) \<Longrightarrow> scaled q (sum f A)"
  by (auto simp: scaled_def sum_distrib_right intro!: Ints_sum)

lemma scaled_INF: "scaled q COST_INF" and scaled_0: "scaled q 0"
proof -
  have "COST_INF = of_int ((2 ^ 53 - 1) * 2 ^ 970)" by (simp add: COST_INF_def)
  then show "scaled q COST_INF" unfolding scaled_def by (metis Ints_mult Ints_of_int)
qed (simp add: scaled_def)

lemma common_denominator: "\<exists>q > 0. \<forall>x \<in> set xs. scaled q x"
proof (induction xs)
  case Nil
  show ?case by (intro exI [of _ 1]) simp
next
  case (Cons x xs)
  then obtain q where q: "0 < q" "\<forall>y \<in> set xs. scaled q y" by blast
  obtain a b where x: "quotient_of x = (a, b)" by force
  have b: "0 < b" using quotient_of_denom_pos [OF x] .
  have "x * of_int b = of_int a" using quotient_of_div [OF x] b by simp
  then have "x * of_int (q * b) = of_int (a * q)" by (simp add: mult.commute mult.left_commute)
  then have "scaled (q * b) x" by (metis scaled_def Ints_of_int)
  moreover have "scaled (q * b) y" if "y \<in> set xs" for y
  proof -
    have "y * of_int q * of_int b \<in> \<int>" using q(2) that by (simp add: scaled_def)
    then show ?thesis by (simp add: scaled_def mult.assoc)
  qed
  ultimately show ?case using q(1) b by (intro exI [of _ "q * b"]) simp
qed

definition integral :: "int \<Rightarrow> nat \<Rightarrow> cost list \<Rightarrow> bool" where
  "integral q n dst \<longleftrightarrow> (\<forall>v<n. scaled q (dst ! v))"

definition mass :: "int \<Rightarrow> nat \<Rightarrow> cost list \<Rightarrow> nat" where
  "mass q n dst = nat \<lfloor>(\<Sum>v<n. dst ! v) * of_int q\<rfloor>"

lemma mass_less:
  assumes "0 < q" and "integral q n dst" and "integral q n dst'"
    and "\<And>v. v < n \<Longrightarrow> 0 \<le> dst' ! v" and "\<And>v. v < n \<Longrightarrow> dst' ! v \<le> dst ! v"
    and "v < n" and "dst' ! v < dst ! v"
  shows "mass q n dst' < mass q n dst"
proof -
  let ?s = "\<lambda>d :: cost list. (\<Sum>v<n. d ! v) * of_int q"
  have "?s dst' \<in> \<int>" "?s dst \<in> \<int>"
    using scaled_sum [of "{..<n}" q "\<lambda>v. dst' ! v"] scaled_sum [of "{..<n}" q "\<lambda>v. dst ! v"] assms(2,3)
    by (auto simp: integral_def scaled_def)
  then obtain a b where ab: "?s dst' = of_int a" "?s dst = of_int b" by (elim Ints_cases)
  have "(\<Sum>v<n. dst' ! v) < (\<Sum>v<n. dst ! v)"
    using assms(5-7) by (intro sum_strict_mono_ex1) auto
  then have "?s dst' < ?s dst" using assms(1) by simp
  moreover have "0 \<le> (\<Sum>v<n. dst' ! v)" using assms(4) by (intro sum_nonneg) auto
  then have "0 \<le> ?s dst'" using assms(1) by simp
  ultimately show ?thesis unfolding mass_def ab by simp
qed

lemma relax_integral:
  assumes "integral q n dst" and "u < n" and "v < n" and "scaled q (m ! u ! v)" and "length dst = n"
    and "relax m u v (dst, heap) = (dst', heap')"
  shows "integral q n dst' \<and> length dst' = n"
  using assms(1-5) scaled_add
  by (cases rule: relax_cases [OF assms(6)]) (auto simp: integral_def nth_list_update)

lemma relax_all_integral:
  assumes "integral q n dst" and "length dst = n" and "u < n" and "set vs \<subseteq> {..<n}"
    and "\<And>v. v < n \<Longrightarrow> scaled q (m ! u ! v)" and "fold (relax m u) vs (dst, heap) = (dst', heap')"
  shows "integral q n dst'"
  using assms
proof (induction vs arbitrary: dst heap)
  case (Cons v vs)
  obtain d1 h1 where r: "relax m u v (dst, heap) = (d1, h1)" by force
  have "integral q n d1 \<and> length d1 = n" using relax_integral [OF _ _ _ _ _ r] Cons.prems by auto
  then show ?case using Cons.IH [of d1 h1] Cons.prems r by simp
qed simp

text \<open>A round lowers a distance, or leaves all as they were and takes an entry off the heap.\<close>

lemma step_progress:
  assumes "sound m s n (dst, e # heap)" and "pending m n {} (dst, e # heap)" and "s < n" and "0 < q"
    and "integral q n dst" and "\<And>u v. u < n \<Longrightarrow> v < n \<Longrightarrow> scaled q (m ! u ! v)"
    and "dijkstra_step m n e (dst, heap) = (dst', heap')"
  shows "integral q n dst' \<and> ((mass q n dst', length heap'), (mass q n dst, Suc (length heap)))
    \<in> less_than <*lex*> less_than"
proof -
  obtain d u where e: "e = (d, u)" by force
  have u: "u < n" "dst ! u \<le> d" "d < COST_INF" and so: "sound m s n (dst, heap)" and len: "length dst = n"
    using assms(1) by (auto simp: e sound_def)
  show ?thesis
  proof (cases "dst ! u < d")
    case True
    then show ?thesis using assms(5,7) by (auto simp: dijkstra_step_def e)
  next
    case False
    have pend: "pending m n {u} (dst, heap)" using assms(2) by (auto simp: e pending_def)
    have f: "fold (relax m u) [0..<n] (dst, heap) = (dst', heap')"
      using assms(7) False by (simp add: dijkstra_step_def e)
    have lt: "dst ! u < COST_INF" using u by linarith
    have vs: "set [0..<n] \<subseteq> {..<n}" by auto
    note r = relax_all [OF so pend u(1) lt assms(3) vs f]
    have i: "integral q n dst'" using relax_all_integral [OF assms(5) len u(1) vs _ f] assms(6) u(1) by blast
    have so': "sound m s n (dst', heap')" using r by blast
    consider "dst' = dst" "heap' = heap" | v where "v < n" "dst' ! v < dst ! v" using r by blast
    then show ?thesis
    proof cases
      case 1
      then show ?thesis using i by simp
    next
      case (2 v)
      have "mass q n dst' < mass q n dst"
        using mass_less [OF assms(4,5) i _ _ 2] sound_nonneg [OF so'] r by blast
      then show ?thesis using i by simp
    qed
  qed
qed

lemma loop_ends:
  assumes "sound m s n st" and "pending m n {} st" and "s < n" and "0 < q"
    and "integral q n (fst st)" and "\<And>u v. u < n \<Longrightarrow> v < n \<Longrightarrow> scaled q (m ! u ! v)"
  shows "\<exists>dst. dijkstra_loop m n st = Some dst \<and> sound m s n (dst, []) \<and> pending m n {} (dst, [])"
  using assms
proof (induction st rule: wf_induct_rule
    [OF wf_inv_image [OF wf_lex_prod [OF wf_less_than wf_less_than],
      of "\<lambda>(dst, heap). (mass q n dst, length heap)"]])
  case (1 st)
  obtain dst heap where st: "st = (dst, heap)" by force
  show ?case
  proof (cases heap)
    case Nil
    then show ?thesis using 1 by (simp add: st loop_Nil)
  next
    case (Cons e h)
    obtain dst' heap' where step: "dijkstra_step m n e (dst, h) = (dst', heap')" by force
    have so: "sound m s n (dst, e # h)" and pe: "pending m n {} (dst, e # h)" and i: "integral q n dst"
      using 1 by (auto simp: st Cons)
    note p = step_progress [OF so pe assms(3,4) i assms(6) step]
    have "\<exists>d. dijkstra_loop m n (dst', heap') = Some d \<and> sound m s n (d, []) \<and> pending m n {} (d, [])"
      using 1(1) [of "(dst', heap')"] p step_sound [OF so pe assms(3)] assms(3,4,6)
      by (simp add: st Cons step in_inv_image)
    then show ?thesis by (simp add: st Cons loop_Cons step)
  qed
qed

section \<open>Correctness\<close>

lemma distance_le_walk:
  assumes "walk (matrix_graph m n) s v c" and "sound m s n (dst, [])" and "pending m n {} (dst, [])"
    and "s < n"
  shows "v < n \<and> dst ! v \<le> c"
  using assms
proof (induction rule: walk.induct)
  case (walk_nil s)
  then show ?case by (simp add: sound_def)
next
  case (walk_step s b c d w)
  then have b: "b < n" "dst ! b \<le> c" and d: "d < n" and w: "m ! b ! d = w" "0 \<le> w"
    by (auto simp: matrix_graph_def split: if_splits)
  have "dst ! d \<le> c + w"
  proof (cases "dst ! b < COST_INF")
    case True
    then have "settled m n dst b" using walk_step.prems(2) b(1) by (simp add: pending_def)
    then have "dst ! d \<le> dst ! b + w" using d w by (auto simp: settled_def)
    then show ?thesis using b(2) by linarith
  next
    case False
    then show ?thesis using sound_le [OF walk_step.prems(1) d] b(2) w(2) by simp
  qed
  then show ?case using d by simp
qed

lemma start_sound:
  assumes "s < n"
  shows "sound m s n ((replicate n COST_INF)[s := 0], [(0, s)])
    \<and> pending m n {} ((replicate n COST_INF)[s := 0], [(0, s)])"
  using assms by (auto simp: sound_def pending_def nth_list_update COST_INF_def intro: walk_nil)

lemma dijkstra_spec:
  assumes "s < n"
  shows "\<exists>dst. dijkstra m s n = Some dst \<and> length dst = n
    \<and> (\<forall>v c. walk (matrix_graph m n) s v c \<longrightarrow> dst ! v \<le> c)
    \<and> (\<forall>v<n. dst ! v = COST_INF \<or> least_walk (matrix_graph m n) s v (dst ! v))"
proof -
  obtain q where q: "0 < q" "\<forall>x \<in> set (concat (map (\<lambda>u. map (\<lambda>v. m ! u ! v) [0..<n]) [0..<n])). scaled q x"
    using common_denominator by blast
  then have "scaled q (m ! u ! v)" if "u < n" "v < n" for u v using that by fastforce
  moreover have "integral q n ((replicate n COST_INF)[s := 0])"
    using scaled_INF scaled_0 assms by (simp add: integral_def nth_list_update)
  ultimately obtain dst where d: "dijkstra m s n = Some dst" "sound m s n (dst, [])" "pending m n {} (dst, [])"
    using loop_ends [of m s n "((replicate n COST_INF)[s := 0], [(0, s)])" q] start_sound [OF assms]
      assms q(1) by (auto simp: dijkstra_def)
  have le: "dst ! v \<le> c" if "walk (matrix_graph m n) s v c" for v c
    using distance_le_walk [OF that d(2,3) assms] by blast
  have "dst ! v = COST_INF \<or> least_walk (matrix_graph m n) s v (dst ! v)" if "v < n" for v
    using d(2) that le by (auto simp: sound_def least_walk_def order.order_iff_strict)
  then show ?thesis using d le by (auto simp: sound_def)
qed

text \<open>
  (C17) \<open>dijkstra\<close> returns for every adjacency matrix, and the distance of a node is at most the
  cost of every walk to it over the non-negative entries and, unless it is the stand-in for
  infinity, is the cost of one.
\<close>

theorem dijkstra_shortest:
  assumes "s < n"
  shows "\<exists>dst. dijkstra m s n = Some dst \<and> length dst = n
    \<and> (\<forall>v c. walk (matrix_graph m n) s v c \<longrightarrow> dst ! v \<le> c)
    \<and> (\<forall>v<n. dst ! v = COST_INF \<or> least_walk (matrix_graph m n) s v (dst ! v))"
  using dijkstra_spec [OF assms] .

theorem dijkstra_shortest_witness:
  "\<exists>dst. dijkstra [[-1, 5, 10], [5, -1, 2], [10, 2, -1]] 0 3 = Some dst \<and> length dst = 3 \<and> dst ! 2 \<le> 7"
proof -
  let ?m = "[[-1, 5, 10], [5, -1, 2], [10, 2, -1]] :: matrix"
  obtain dst where d: "dijkstra ?m 0 3 = Some dst" "length dst = 3"
    "\<forall>v c. walk (matrix_graph ?m 3) 0 v c \<longrightarrow> dst ! v \<le> c"
    using dijkstra_shortest [of 0 3 ?m] by auto
  have "walk (matrix_graph ?m 3) 0 2 (5 + 2)"
    by (rule walk_step [OF walk_edge [of _ 0 1]]) (simp_all add: matrix_graph_def)
  then show ?thesis using d by fastforce
qed

end
