(* ===== verification/Nlsr_Lsa.thy ===== *)
theory Nlsr_Lsa
  imports Nlsr_Dijkstra
begin

text \<open>
  The link-state advertisements of NLSR (\<open>lsa/mod.rs\<close>, \<open>lsa/adjacency.rs\<close>, \<open>lsa/name.rs\<close>,
  \<open>lsa/coordinate.rs\<close>): their data and accessors. Names are any type; costs are exact rationals.
\<close>

record 'n adjacent =
  adj_name :: 'n
  adj_face_uri :: string
  adj_link_cost :: cost

record 'n adjacency_lsa =
  al_origin_router :: 'n
  al_seq_no :: u64
  al_expiration_ms :: u64
  al_adjacencies :: "'n adjacent list"

record 'n prefix_info =
  pi_name :: 'n
  pi_cost :: cost

record 'n name_lsa =
  nl_origin_router :: 'n
  nl_seq_no :: u64
  nl_expiration_ms :: u64
  nl_prefixes :: "'n prefix_info list"

record 'n coordinate_lsa =
  cl_origin_router :: 'n
  cl_seq_no :: u64
  cl_expiration_ms :: u64
  cl_radius :: cost
  cl_angles :: "cost list"

datatype lsa_type = AdjacencyType | NameType | CoordinateType

datatype 'n lsa =
  Adjacency "'n adjacency_lsa"
| Name "'n name_lsa"
| Coordinate "'n coordinate_lsa"

fun lsa_type_of :: "'n lsa \<Rightarrow> lsa_type" where
  "lsa_type_of (Adjacency _) = AdjacencyType"
| "lsa_type_of (Name _) = NameType"
| "lsa_type_of (Coordinate _) = CoordinateType"

fun origin_router :: "'n lsa \<Rightarrow> 'n" where
  "origin_router (Adjacency l) = al_origin_router l"
| "origin_router (Name l) = nl_origin_router l"
| "origin_router (Coordinate l) = cl_origin_router l"

fun seq_no :: "'n lsa \<Rightarrow> u64" where
  "seq_no (Adjacency l) = al_seq_no l"
| "seq_no (Name l) = nl_seq_no l"
| "seq_no (Coordinate l) = cl_seq_no l"

fun expiration_ms :: "'n lsa \<Rightarrow> u64" where
  "expiration_ms (Adjacency l) = al_expiration_ms l"
| "expiration_ms (Name l) = nl_expiration_ms l"
| "expiration_ms (Coordinate l) = cl_expiration_ms l"

end
