(* ===== verification/Nlsr_Lsdb.thy ===== *)
theory Nlsr_Lsdb
  imports Nlsr_Lsa Maps
begin

text \<open>
  The link-state database of NLSR (\<open>lsdb.rs\<close>): installation by sequence number, lookup, removal,
  ageing, the LSAs the router builds itself, and the events every change sends. Clocks are
  arguments: \<open>now_sys\<close> the wall clock in milliseconds, \<open>now\<close> the monotonic one.
\<close>

section \<open>State\<close>

type_synonym 'n lsa_key = "'n \<times> lsa_type"

datatype install_result = Newer | Stale | Duplicate | Invalid

datatype lsdb_update = Installed | Updated | Removed

record 'n lsdb_event =
  ev_update :: lsdb_update
  ev_lsa :: "'n lsa"
  ev_prefixes_added :: "'n list"
  ev_prefixes_removed :: "'n list"

record 'n lsa_entry =
  le_lsa :: "'n lsa"
  le_expires_at :: nat
  le_lifetime :: nat

record 'n lsdb =
  db_store :: "('n lsa_key \<times> 'n lsa_entry) list"
  db_own_router :: 'n

definition lsdb_new :: "'n \<Rightarrow> 'n lsdb" where
  "lsdb_new own = \<lparr>db_store = [], db_own_router = own\<rparr>"

definition lsa_key :: "'n lsa \<Rightarrow> 'n lsa_key" where
  "lsa_key l = (origin_router l, lsa_type_of l)"

definition plain_event :: "lsdb_update \<Rightarrow> 'n lsa \<Rightarrow> 'n lsdb_event" where
  "plain_event u l = \<lparr>ev_update = u, ev_lsa = l, ev_prefixes_added = [], ev_prefixes_removed = []\<rparr>"

section \<open>Operations\<close>

text \<open>The events an operation sends are part of its result.\<close>

definition lsdb_install ::
    "u64 \<Rightarrow> nat \<Rightarrow> 'n lsa \<Rightarrow> 'n lsdb \<Rightarrow> install_result \<times> 'n lsdb_event list \<times> 'n lsdb" where
  "lsdb_install now_sys now lsa db =
     (if expiration_ms lsa \<le> now_sys then (Invalid, [], db)
      else let lifetime = unat (expiration_ms lsa - now_sys);
               entry = \<lparr>le_lsa = lsa, le_expires_at = now + lifetime, le_lifetime = lifetime\<rparr>;
               db' = db\<lparr>db_store := hm_insert (lsa_key lsa) entry (db_store db)\<rparr>
           in case map_of (db_store db) (lsa_key lsa) of
                None \<Rightarrow> (Newer, [plain_event Installed lsa], db')
              | Some e \<Rightarrow>
                  if seq_no (le_lsa e) < seq_no lsa then (Newer, [plain_event Updated lsa], db')
                  else if seq_no lsa = seq_no (le_lsa e) then (Duplicate, [], db)
                  else (Stale, [], db))"

definition lsdb_lookup :: "'n \<Rightarrow> lsa_type \<Rightarrow> 'n lsdb \<Rightarrow> 'n lsa option" where
  "lsdb_lookup originator t db = map_option le_lsa (map_of (db_store db) (originator, t))"

definition lsdb_remove :: "'n lsa_key \<Rightarrow> 'n lsdb \<Rightarrow> bool \<times> 'n lsdb_event list \<times> 'n lsdb" where
  "lsdb_remove key db = (case map_of (db_store db) key of
     Some e \<Rightarrow> (True, [plain_event Removed (le_lsa e)], db\<lparr>db_store := map_delete key (db_store db)\<rparr>)
   | None \<Rightarrow> (False, [], db))"

definition iter_by_type :: "lsa_type \<Rightarrow> 'n lsdb \<Rightarrow> 'n lsa list" where
  "iter_by_type t db = map (le_lsa \<circ> snd) (filter (\<lambda>((_, t'), _). t' = t) (db_store db))"

definition expire_due :: "nat \<Rightarrow> 'n lsdb \<Rightarrow> ('n lsa_key \<times> 'n lsa) list \<times> 'n lsdb" where
  "expire_due now db =
     (let due = filter (\<lambda>(_, e). le_expires_at e \<le> now) (db_store db)
      in (map (\<lambda>(k, e). (k, le_lsa e)) due,
          db\<lparr>db_store := fold (\<lambda>(k, _). map_delete k) due (db_store db)\<rparr>))"

text \<open>One tick of the ageing task.\<close>

definition age_out_tick :: "nat \<Rightarrow> 'n lsdb \<Rightarrow> 'n lsdb_event list \<times> 'n lsdb" where
  "age_out_tick now db = (let (expired, db) = expire_due now db
     in (map (\<lambda>(_, l). plain_event Removed l) expired, db))"

text \<open>A fifth of the lifetime is left; computed exactly, without the rounding of \<open>mul_f64\<close>.\<close>

definition own_lsas_due_for_refresh :: "nat \<Rightarrow> 'n lsdb \<Rightarrow> 'n lsa list" where
  "own_lsas_due_for_refresh now db =
     map (le_lsa \<circ> snd) (filter (\<lambda>((origin, _), e). origin = db_own_router db
       \<and> 5 * (le_expires_at e - now) \<le> le_lifetime e) (db_store db))"

definition lsdb_snapshot :: "'n lsdb \<Rightarrow> 'n lsa list \<times> 'n lsa list \<times> 'n lsa list" where
  "lsdb_snapshot db =
     (iter_by_type AdjacencyType db, iter_by_type NameType db, iter_by_type CoordinateType db)"

definition is_lsa_new :: "'n \<Rightarrow> lsa_type \<Rightarrow> u64 \<Rightarrow> 'n lsdb \<Rightarrow> bool" where
  "is_lsa_new originator t seq db = (case lsdb_lookup originator t db of
     Some existing \<Rightarrow> seq_no existing < seq | None \<Rightarrow> True)"

definition build_own_name_lsa ::
    "u64 \<Rightarrow> nat \<Rightarrow> 'n list \<Rightarrow> u64 \<Rightarrow> u64 \<Rightarrow> 'n lsdb \<Rightarrow> install_result \<times> 'n lsdb_event list \<times> 'n lsdb" where
  "build_own_name_lsa now_sys now prefixes seq refresh_ms db =
     lsdb_install now_sys now (Name \<lparr>nl_origin_router = db_own_router db, nl_seq_no = seq,
       nl_expiration_ms = now_sys + refresh_ms,
       nl_prefixes = map (\<lambda>n. \<lparr>pi_name = n, pi_cost = 0\<rparr>) prefixes\<rparr>) db"

definition build_own_adj_lsa ::
    "u64 \<Rightarrow> nat \<Rightarrow> 'n adjacent list \<Rightarrow> u64 \<Rightarrow> u64 \<Rightarrow> 'n lsdb \<Rightarrow> install_result \<times> 'n lsdb_event list \<times> 'n lsdb" where
  "build_own_adj_lsa now_sys now adjacencies seq refresh_ms db =
     lsdb_install now_sys now (Adjacency \<lparr>al_origin_router = db_own_router db, al_seq_no = seq,
       al_expiration_ms = now_sys + refresh_ms, al_adjacencies = adjacencies\<rparr>) db"

text \<open>What \<open>compute_routes\<close> reads of the database.\<close>

definition adjacency_lsas :: "'n lsdb \<Rightarrow> 'n adjacency_lsa list" where
  "adjacency_lsas db = List.map_filter (\<lambda>l. case l of Adjacency a \<Rightarrow> Some a | _ \<Rightarrow> None)
     (iter_by_type AdjacencyType db)"

section \<open>The invariant\<close>

text \<open>One entry for every key, which is the key of its LSA.\<close>

definition lsdb_ok :: "'n lsdb \<Rightarrow> bool" where
  "lsdb_ok db \<longleftrightarrow> hm_ok (db_store db) \<and> (\<forall>(k, e) \<in> set (db_store db). k = lsa_key (le_lsa e))"

lemma lsdb_ok_iff:
  "lsdb_ok db \<longleftrightarrow> hm_ok (db_store db) \<and> (\<forall>k e. map_of (db_store db) k = Some e \<longrightarrow> k = lsa_key (le_lsa e))"
  by (auto simp: lsdb_ok_def hm_ok_def)

lemma lsdb_ok_new [simp]: "lsdb_ok (lsdb_new own)"
  by (simp add: lsdb_ok_def lsdb_new_def hm_ok_def)

lemma install_store:
  assumes "lsdb_ok db" and "lsdb_install now_sys now lsa db = (r, evs, db')"
  shows "map_of (db_store db') k = (if k = lsa_key lsa \<and> r = Newer
      then Some \<lparr>le_lsa = lsa, le_expires_at = now + unat (expiration_ms lsa - now_sys),
             le_lifetime = unat (expiration_ms lsa - now_sys)\<rparr>
      else map_of (db_store db) k)"
    and "lsdb_ok db'" and "db_own_router db' = db_own_router db"
proof -
  have ok: "hm_ok (db_store db)" using assms(1) by (simp add: lsdb_ok_def)
  note cases = assms(2) [unfolded lsdb_install_def Let_def]
  show map: "map_of (db_store db') k = (if k = lsa_key lsa \<and> r = Newer
      then Some \<lparr>le_lsa = lsa, le_expires_at = now + unat (expiration_ms lsa - now_sys),
             le_lifetime = unat (expiration_ms lsa - now_sys)\<rparr>
      else map_of (db_store db) k)" for k
    using cases by (auto simp: hm.get_insert [OF ok] split: if_splits option.splits)
  have "hm_ok (db_store db')"
    using cases ok by (auto simp: hm.ok_insert split: if_splits option.splits)
  then show "lsdb_ok db'"
    using assms(1) map by (auto simp: lsdb_ok_iff split: if_splits)
  show "db_own_router db' = db_own_router db"
    using cases by (auto split: if_splits option.splits)
qed

end
