(* ===== verification/Nlsr_Routes.thy ===== *)
theory Nlsr_Routes
  imports Nlsr_Lsa
begin

text \<open>
  The route computation of NLSR (\<open>compute_routes\<close> of \<open>routing_table.rs\<close>): the adjacency matrix
  of the LSAs, its symmetrisation, one shortest-path run for every neighbour, and what the
  resulting next hops are in terms of the links the routers advertise.
\<close>

section \<open>Definitions\<close>

record next_hop =
  nh_face_uri :: string
  nh_cost :: cost

record 'n routing_table_entry =
  rte_dest_router :: 'n
  rte_nexthops :: "next_hop list"

type_synonym 'n routing_snapshot = "'n routing_table_entry list"

definition snapshot_get :: "'n routing_snapshot \<Rightarrow> 'n \<Rightarrow> 'n routing_table_entry option" where
  "snapshot_get snap dest = find (\<lambda>e. rte_dest_router e = dest) snap"

definition NON_ADJACENT :: cost where "NON_ADJACENT = -1"

text \<open>The map from names to indices is kept as the list of the names in the order of their indices.\<close>

definition register_name :: "'n \<Rightarrow> 'n list \<Rightarrow> 'n list" where
  "register_name x names = (if x \<in> set names then names else names @ [x])"

definition router_names :: "'n adjacency_lsa list \<Rightarrow> 'n list" where
  "router_names lsas =
     fold (\<lambda>lsa names. fold (\<lambda>adj. register_name (adj_name adj)) (al_adjacencies lsa)
       (register_name (al_origin_router lsa) names)) lsas []"

definition index_of :: "'n list \<Rightarrow> 'n \<Rightarrow> nat option" where
  "index_of names x = (if x \<in> set names then Some (length (takeWhile (\<lambda>y. y \<noteq> x) names)) else None)"

definition own_adjacencies :: "'n adjacency_lsa list \<Rightarrow> 'n \<Rightarrow> 'n adjacent list" where
  "own_adjacencies lsas self =
     (case find (\<lambda>l. al_origin_router l = self) lsas of Some l \<Rightarrow> al_adjacencies l | None \<Rightarrow> [])"

definition set_cell :: "nat \<Rightarrow> nat \<Rightarrow> cost \<Rightarrow> matrix \<Rightarrow> matrix" where
  "set_cell r c v m = m[r := (m ! r)[c := v]]"

definition fill_row :: "'n list \<Rightarrow> 'n adjacency_lsa \<Rightarrow> matrix \<Rightarrow> matrix" where
  "fill_row names lsa m = (case index_of names (al_origin_router lsa) of
     None \<Rightarrow> m
   | Some row \<Rightarrow> fold (\<lambda>adj m. case index_of names (adj_name adj) of
         None \<Rightarrow> m
       | Some col \<Rightarrow> set_cell row col (adj_link_cost adj) m) (al_adjacencies lsa) m)"

definition adjacency_matrix :: "'n list \<Rightarrow> 'n adjacency_lsa list \<Rightarrow> matrix" where
  "adjacency_matrix names lsas =
     fold (fill_row names) lsas (replicate (length names) (replicate (length names) NON_ADJACENT))"

definition corrected :: "cost \<Rightarrow> cost \<Rightarrow> cost" where
  "corrected to from = (if 0 \<le> to \<and> 0 \<le> from then max to from else NON_ADJACENT)"

definition symmetrize_cell :: "nat \<times> nat \<Rightarrow> matrix \<Rightarrow> matrix" where
  "symmetrize_cell = (\<lambda>(r, c) m. let to = m ! r ! c; from = m ! c ! r in
     if to = from then m
     else set_cell c r (corrected to from) (set_cell r c (corrected to from) m))"

definition symmetrize :: "nat \<Rightarrow> matrix \<Rightarrow> matrix" where
  "symmetrize n m = fold symmetrize_cell (concat (map (\<lambda>r. map (Pair r) [r + 1..<n]) [0..<n])) m"

text \<open>Only the link to one neighbour is left to the source.\<close>

definition isolate :: "nat \<Rightarrow> nat \<Rightarrow> nat \<Rightarrow> matrix \<Rightarrow> matrix" where
  "isolate source nbr n m = fold (\<lambda>c m. if c \<noteq> nbr
     then set_cell c source NON_ADJACENT (set_cell source c NON_ADJACENT m) else m) [0..<n] m"

text \<open>The next hops of every destination, in the order of the indices; none stands for no entry.\<close>

definition push_hops :: "nat \<Rightarrow> string \<Rightarrow> cost list \<Rightarrow> next_hop list list \<Rightarrow> next_hop list list" where
  "push_hops source face dst result =
     map (\<lambda>(dest, hops). if dest \<noteq> source \<and> dst ! dest < COST_INF
        then hops @ [\<lparr>nh_face_uri = face, nh_cost = dst ! dest\<rparr>] else hops) (enumerate 0 result)"

primrec neighbor_routes ::
    "'n list \<Rightarrow> matrix \<Rightarrow> nat \<Rightarrow> 'n adjacent list \<Rightarrow> next_hop list list \<Rightarrow> next_hop list list option" where
  "neighbor_routes names m source [] result = Some result"
| "neighbor_routes names m source (adj # adjs) result = (case index_of names (adj_name adj) of
     None \<Rightarrow> neighbor_routes names m source adjs result
   | Some nbr \<Rightarrow>
       if m ! source ! nbr < 0 then neighbor_routes names m source adjs result
       else (case dijkstra (isolate source nbr (length names) m) source (length names) of
           None \<Rightarrow> None
         | Some dst \<Rightarrow> neighbor_routes names m source adjs (push_hops source (adj_face_uri adj) dst result)))"

definition table_entries :: "'n list \<Rightarrow> next_hop list list \<Rightarrow> 'n routing_snapshot" where
  "table_entries names result =
     map (\<lambda>(name, hops). \<lparr>rte_dest_router = name, rte_nexthops = hops\<rparr>)
       (filter (\<lambda>(name, hops). hops \<noteq> []) (zip names result))"

text \<open>\<open>None\<close> would be a shortest-path run that does not return.\<close>

definition compute_routes :: "'n adjacency_lsa list \<Rightarrow> 'n \<Rightarrow> 'n routing_snapshot option" where
  "compute_routes lsas self =
     (if lsas = [] then Some []
      else let names = router_names lsas; n = length names in
        case index_of names self of
          None \<Rightarrow> Some []
        | Some source \<Rightarrow>
            let own = own_adjacencies lsas self in
            if own = [] then Some []
            else let m = symmetrize n (adjacency_matrix names lsas) in
              map_option (table_entries names) (neighbor_routes names m source own (replicate n [])))"

section \<open>Links\<close>

text \<open>
  What the LSAs say, without indices: the last cost a router advertises for a neighbour, and
  the link between two routers, which both ends advertise, at the higher cost.
\<close>

definition advertised :: "'n adjacency_lsa list \<Rightarrow> 'n \<Rightarrow> 'n \<Rightarrow> cost option" where
  "advertised lsas a b =
     (let costs = concat (map (\<lambda>l. if al_origin_router l = a
        then map adj_link_cost (filter (\<lambda>adj. adj_name adj = b) (al_adjacencies l)) else []) lsas)
      in if costs = [] then None else Some (last costs))"

definition link :: "'n adjacency_lsa list \<Rightarrow> 'n graph" where
  "link lsas a b = (case (advertised lsas a b, advertised lsas b a) of
     (Some x, Some y) \<Rightarrow> if 0 \<le> x \<and> 0 \<le> y then Some (max x y) else None
   | _ \<Rightarrow> None)"

text \<open>The graph without a router.\<close>

definition without :: "'n \<Rightarrow> 'n graph \<Rightarrow> 'n graph" where
  "without s g a b = (if a = s \<or> b = s then None else g a b)"

lemma link_sym: "link lsas a b = link lsas b a"
  by (auto simp: link_def max.commute split: option.splits)

lemma link_nonneg: "nonneg (link lsas)"
  by (auto simp: nonneg_def link_def split: option.splits if_splits)

section \<open>Names and indices\<close>

lemma register_name_set: "set (register_name x names) = insert x (set names)"
  by (auto simp: register_name_def)

lemma register_name_distinct: "distinct names \<Longrightarrow> distinct (register_name x names)"
  by (simp add: register_name_def)

lemma register_all:
  "set (fold (\<lambda>adj. register_name (adj_name adj)) adjs names) = adj_name ` set adjs \<union> set names
   \<and> (distinct names \<longrightarrow> distinct (fold (\<lambda>adj. register_name (adj_name adj)) adjs names))"
  by (induction adjs arbitrary: names) (auto simp: register_name_set register_name_distinct)

abbreviation register_lsa :: "'n adjacency_lsa \<Rightarrow> 'n list \<Rightarrow> 'n list" where
  "register_lsa lsa names \<equiv> fold (\<lambda>adj. register_name (adj_name adj)) (al_adjacencies lsa)
     (register_name (al_origin_router lsa) names)"

abbreviation lsa_names :: "'n adjacency_lsa \<Rightarrow> 'n set" where
  "lsa_names lsa \<equiv> insert (al_origin_router lsa) (adj_name ` set (al_adjacencies lsa))"

lemma register_lsa_set: "set (register_lsa lsa names) = lsa_names lsa \<union> set names"
  using register_all [of "al_adjacencies lsa"] by (simp add: register_name_set)

lemma register_lsa_distinct: "distinct names \<Longrightarrow> distinct (register_lsa lsa names)"
  by (simp add: register_all register_name_distinct)

lemma router_names_spec:
  "distinct (router_names lsas) \<and> set (router_names lsas) = (\<Union>l \<in> set lsas. lsa_names l)"
proof -
  have "distinct names \<Longrightarrow> distinct (fold register_lsa lsas names)
      \<and> set (fold register_lsa lsas names) = (\<Union>l \<in> set lsas. lsa_names l) \<union> set names" for names
  proof (induction lsas arbitrary: names)
    case (Cons l lsas)
    note ih = Cons.IH [OF register_lsa_distinct [OF Cons.prems], of l]
    have "fold register_lsa (l # lsas) names = fold register_lsa lsas (register_lsa l names)" by simp
    moreover have "(\<Union>k \<in> set (l # lsas). lsa_names k) = lsa_names l \<union> (\<Union>k \<in> set lsas. lsa_names k)" by simp
    ultimately show ?case using ih register_lsa_set [of l names] by (simp only:) blast
  qed simp
  from this [of "[]"] show ?thesis by (simp add: router_names_def)
qed

lemma index_of_Some: "index_of names x = Some i \<Longrightarrow> i < length names \<and> names ! i = x"
  using nth_length_takeWhile [of "\<lambda>y. y \<noteq> x" names] takeWhile_eq_all_conv [of "\<lambda>y. y \<noteq> x" names]
    length_takeWhile_le [of "\<lambda>y. y \<noteq> x" names] takeWhile_eq_take [of "\<lambda>y. y \<noteq> x" names]
  by (auto simp: index_of_def le_less split: if_splits)

lemma index_of_nth:
  assumes "distinct names" and "i < length names" shows "index_of names (names ! i) = Some i"
proof -
  have "names ! i \<in> set names" using assms(2) by simp
  then obtain j where j: "index_of names (names ! i) = Some j" by (simp add: index_of_def)
  then have "j < length names" "names ! j = names ! i" by (auto dest: index_of_Some)
  then show ?thesis using j assms by (simp add: nth_eq_iff_index_eq)
qed

section \<open>The matrix\<close>

definition square :: "nat \<Rightarrow> matrix \<Rightarrow> bool" where
  "square n m \<longleftrightarrow> length m = n \<and> (\<forall>r<n. length (m ! r) = n)"

lemma set_cell_square: "square n m \<Longrightarrow> square n (set_cell r c v m)"
  by (cases "r < length m") (auto simp: square_def set_cell_def nth_list_update)

lemma set_cell_nth:
  "square n m \<Longrightarrow> r < n \<Longrightarrow> c < n \<Longrightarrow> i < n \<Longrightarrow> j < n \<Longrightarrow>
    set_cell r c v m ! i ! j = (if i = r \<and> j = c then v else m ! i ! j)"
  by (auto simp: square_def set_cell_def nth_list_update)

primrec last_or :: "cost list \<Rightarrow> cost \<Rightarrow> cost" where
  "last_or [] d = d"
| "last_or (c # cs) d = last_or cs c"

lemma last_or_append: "last_or (cs @ cs') d = last_or cs' (last_or cs d)"
  by (induction cs arbitrary: d) simp_all

lemma last_or_last: "last_or cs d = (if cs = [] then d else last cs)"
  by (induction cs arbitrary: d) simp_all

abbreviation costs_to :: "'n \<Rightarrow> 'n adjacent list \<Rightarrow> cost list" where
  "costs_to b adjs \<equiv> map adj_link_cost (filter (\<lambda>adj. adj_name adj = b) adjs)"

abbreviation costs_of :: "'n \<Rightarrow> 'n \<Rightarrow> 'n adjacency_lsa \<Rightarrow> cost list" where
  "costs_of a b l \<equiv> (if al_origin_router l = a then costs_to b (al_adjacencies l) else [])"

lemma fill_columns:
  assumes "distinct names" and "row < length names" and "adj_name ` set adjs \<subseteq> set names"
    and "square (length names) m"
  shows "square (length names) (fold (\<lambda>adj m. case index_of names (adj_name adj) of
         None \<Rightarrow> m | Some col \<Rightarrow> set_cell row col (adj_link_cost adj) m) adjs m)
    \<and> (\<forall>i<length names. \<forall>j<length names. fold (\<lambda>adj m. case index_of names (adj_name adj) of
         None \<Rightarrow> m | Some col \<Rightarrow> set_cell row col (adj_link_cost adj) m) adjs m ! i ! j
       = last_or (if i = row then costs_to (names ! j) adjs else []) (m ! i ! j))"
  using assms
proof (induction adjs arbitrary: m)
  case Nil
  then show ?case by simp
next
  case (Cons adj adjs)
  have "adj_name adj \<in> set names" using Cons.prems(3) by simp
  then obtain col where col: "index_of names (adj_name adj) = Some col" by (simp add: index_of_def)
  then have c: "col < length names" "names ! col = adj_name adj" by (auto dest: index_of_Some)
  let ?m = "set_cell row col (adj_link_cost adj) m"
  have sq: "square (length names) ?m" using Cons.prems(4) by (rule set_cell_square)
  have cell: "?m ! i ! j = last_or (if i = row then costs_to (names ! j) [adj] else []) (m ! i ! j)"
    if "i < length names" "j < length names" for i j
    using set_cell_nth [OF Cons.prems(4,2) c(1) that] c nth_eq_iff_index_eq [OF Cons.prems(1) c(1) that(2)]
    by auto
  note ih = Cons.IH [OF Cons.prems(1,2) _ sq]
  show ?case
    using ih Cons.prems(3) cell col by auto
qed

lemma fill_row_spec:
  assumes "distinct names" and "lsa_names l \<subseteq> set names" and "square (length names) m"
  shows "square (length names) (fill_row names l m) \<and> (\<forall>i<length names. \<forall>j<length names.
    fill_row names l m ! i ! j = last_or (costs_of (names ! i) (names ! j) l) (m ! i ! j))"
proof -
  obtain row where row: "index_of names (al_origin_router l) = Some row"
    using assms(2) by (auto simp: index_of_def)
  then have r: "row < length names" "names ! row = al_origin_router l" by (auto dest: index_of_Some)
  have adjs: "adj_name ` set (al_adjacencies l) \<subseteq> set names" using assms(2) by auto
  have "al_origin_router l = names ! i \<longleftrightarrow> i = row" if "i < length names" for i
    using r nth_eq_iff_index_eq [OF assms(1) r(1) that] by auto
  then show ?thesis using fill_columns [OF assms(1) r(1) adjs assms(3)] by (simp add: fill_row_def row)
qed

lemma fill_rows:
  assumes "distinct names" and "(\<Union>l \<in> set lsas. lsa_names l) \<subseteq> set names" and "square (length names) m"
  shows "square (length names) (fold (fill_row names) lsas m) \<and> (\<forall>i<length names. \<forall>j<length names.
    fold (fill_row names) lsas m ! i ! j
      = last_or (concat (map (costs_of (names ! i) (names ! j)) lsas)) (m ! i ! j))"
  using assms
proof (induction lsas arbitrary: m)
  case (Cons l lsas)
  have l: "lsa_names l \<subseteq> set names" using Cons.prems(2) by simp
  note row = fill_row_spec [OF Cons.prems(1) l Cons.prems(3)]
  then have "square (length names) (fill_row names l m)" by blast
  then show ?case using Cons.IH [of "fill_row names l m"] Cons.prems row by (simp add: last_or_append)
qed simp

lemma adjacency_matrix_spec:
  assumes "distinct names" and "(\<Union>l \<in> set lsas. lsa_names l) \<subseteq> set names"
  shows "square (length names) (adjacency_matrix names lsas) \<and> (\<forall>i<length names. \<forall>j<length names.
    adjacency_matrix names lsas ! i ! j
      = (case advertised lsas (names ! i) (names ! j) of Some c \<Rightarrow> c | None \<Rightarrow> NON_ADJACENT))"
proof -
  have "square (length names) (replicate (length names) (replicate (length names) NON_ADJACENT))"
    by (simp add: square_def)
  from fill_rows [OF assms this] show ?thesis
    by (simp add: adjacency_matrix_def advertised_def last_or_last Let_def)
qed

definition joined :: "cost \<Rightarrow> cost \<Rightarrow> cost" where
  "joined x y = (if x = y then x else corrected x y)"

lemma joined_sym: "joined x y = joined y x"
  by (auto simp: joined_def corrected_def max_def)

lemma joined_idem: "joined (joined x y) (joined y x) = joined x y"
  by (auto simp: joined_def corrected_def max_def)

lemma symmetrize_cell_spec:
  assumes "square n m" and "r < n" and "c < n" and "r \<noteq> c"
  shows "square n (symmetrize_cell (r, c) m) \<and> (\<forall>i<n. \<forall>j<n. symmetrize_cell (r, c) m ! i ! j =
    (if (i, j) = (r, c) \<or> (j, i) = (r, c) then joined (m ! i ! j) (m ! j ! i) else m ! i ! j))"
proof -
  let ?m = "set_cell r c (corrected (m ! r ! c) (m ! c ! r)) m"
  have sq: "square n ?m" using assms(1) by (rule set_cell_square)
  have "corrected x y = corrected y x" for x y by (simp add: corrected_def max.commute conj_commute)
  then show ?thesis
    using assms set_cell_square [OF sq] set_cell_nth [OF sq assms(3,2)] set_cell_nth [OF assms(1-3)]
    by (auto simp: symmetrize_cell_def Let_def joined_def)
qed

lemma symmetrize_cells:
  assumes "square n m" and "\<forall>(r, c) \<in> set ps. r < n \<and> c < n \<and> r \<noteq> c"
  shows "square n (fold symmetrize_cell ps m) \<and> (\<forall>i<n. \<forall>j<n. fold symmetrize_cell ps m ! i ! j =
    (if (i, j) \<in> set ps \<or> (j, i) \<in> set ps then joined (m ! i ! j) (m ! j ! i) else m ! i ! j))"
  using assms
proof (induction ps arbitrary: m)
  case (Cons p ps)
  obtain r c where p: "p = (r, c)" by force
  have rc: "r < n" "c < n" "r \<noteq> c" using Cons.prems(2) by (auto simp: p)
  note one = symmetrize_cell_spec [OF Cons.prems(1) rc]
  then have sq: "square n (symmetrize_cell (r, c) m)" by blast
  have rest: "\<forall>(r, c) \<in> set ps. r < n \<and> c < n \<and> r \<noteq> c" using Cons.prems(2) by simp
  have "(if (i, j) \<in> set ps \<or> (j, i) \<in> set ps
      then joined (symmetrize_cell (r, c) m ! i ! j) (symmetrize_cell (r, c) m ! j ! i)
      else symmetrize_cell (r, c) m ! i ! j)
    = (if (i, j) \<in> set (p # ps) \<or> (j, i) \<in> set (p # ps) then joined (m ! i ! j) (m ! j ! i) else m ! i ! j)"
    if "i < n" "j < n" for i j
    using one that joined_idem by (auto simp: p)
  then show ?case using Cons.IH [OF sq rest] by (simp add: p)
qed simp

lemma symmetrize_spec:
  assumes "square n m"
  shows "square n (symmetrize n m) \<and> (\<forall>i<n. \<forall>j<n. symmetrize n m ! i ! j = joined (m ! i ! j) (m ! j ! i))"
proof -
  let ?ps = "concat (map (\<lambda>r. map (Pair r) [r + 1..<n]) [0..<n])"
  have mem: "(i, j) \<in> set ?ps \<longleftrightarrow> i < j \<and> j < n" for i j
  proof -
    have "(i, j) \<in> set ?ps \<longleftrightarrow> (\<exists>r \<in> {0..<n}. (i, j) \<in> Pair r ` {r + 1..<n})" by simp
    moreover have "(i, j) \<in> Pair r ` {r + 1..<n} \<longleftrightarrow> i = r \<and> r < j \<and> j < n" for r by auto
    ultimately show ?thesis by auto
  qed
  have "\<forall>(r, c) \<in> set ?ps. r < n \<and> c < n \<and> r \<noteq> c" by auto
  note cells = symmetrize_cells [OF assms this, folded symmetrize_def, unfolded mem]
  have "symmetrize n m ! i ! j = joined (m ! i ! j) (m ! j ! i)" if "i < n" "j < n" for i j
    using cells that by (cases "i = j") (auto simp: joined_def)
  then show ?thesis using cells by blast
qed

lemma link_matrix:
  fixes lsas :: "'n adjacency_lsa list"
  defines "n \<equiv> length (router_names lsas)"
  defines "m \<equiv> symmetrize n (adjacency_matrix (router_names lsas) lsas)"
  shows "square n m \<and> (\<forall>u<n. \<forall>v<n. matrix_graph m n u v = link lsas (router_names lsas ! u) (router_names lsas ! v))"
proof -
  let ?names = "router_names lsas"
  have names: "distinct ?names" "(\<Union>l \<in> set lsas. lsa_names l) \<subseteq> set ?names"
    using router_names_spec [of lsas] by simp_all
  note am = adjacency_matrix_spec [OF names, folded n_def]
  then have sq: "square n (adjacency_matrix ?names lsas)" by blast
  have "matrix_graph m n u v = link lsas (?names ! u) (?names ! v)" if "u < n" "v < n" for u v
  proof -
    have "m ! u ! v = joined (case advertised lsas (?names ! u) (?names ! v) of Some c \<Rightarrow> c | None \<Rightarrow> NON_ADJACENT)
        (case advertised lsas (?names ! v) (?names ! u) of Some c \<Rightarrow> c | None \<Rightarrow> NON_ADJACENT)"
      using symmetrize_spec [OF sq] am that by (simp add: m_def)
    then show ?thesis
      using that by (auto simp: matrix_graph_def link_def joined_def corrected_def NON_ADJACENT_def split: option.splits)
  qed
  then show ?thesis using symmetrize_spec [OF sq] by (simp add: m_def)
qed

lemma isolate_cells:
  assumes "square n m" and "s < n" and "\<forall>c \<in> set cs. c < n"
  shows "\<forall>i<n. \<forall>j<n. fold (\<lambda>c m. if c \<noteq> nbr
     then set_cell c s NON_ADJACENT (set_cell s c NON_ADJACENT m) else m) cs m ! i ! j
   = (if i = s \<and> j \<in> set cs \<and> j \<noteq> nbr \<or> j = s \<and> i \<in> set cs \<and> i \<noteq> nbr then NON_ADJACENT else m ! i ! j)"
  using assms
proof (induction cs arbitrary: m)
  case (Cons c cs)
  define m1 where "m1 = (if c \<noteq> nbr then set_cell c s NON_ADJACENT (set_cell s c NON_ADJACENT m) else m)"
  have c: "c < n" using Cons.prems(3) by simp
  have sq1: "square n (set_cell s c NON_ADJACENT m)" using Cons.prems(1) by (rule set_cell_square)
  have sq: "square n m1" using Cons.prems(1) set_cell_square [OF sq1] by (simp add: m1_def)
  have cell: "m1 ! i ! j = (if c \<noteq> nbr \<and> (i = s \<and> j = c \<or> j = s \<and> i = c) then NON_ADJACENT else m ! i ! j)"
    if "i < n" "j < n" for i j
    using set_cell_nth [OF sq1 c assms(2) that] set_cell_nth [OF Cons.prems(1) assms(2) c that]
    by (auto simp: m1_def)
  have "(if i = s \<and> j \<in> set cs \<and> j \<noteq> nbr \<or> j = s \<and> i \<in> set cs \<and> i \<noteq> nbr then NON_ADJACENT else m1 ! i ! j)
      = (if i = s \<and> j \<in> set (c # cs) \<and> j \<noteq> nbr \<or> j = s \<and> i \<in> set (c # cs) \<and> i \<noteq> nbr
         then NON_ADJACENT else m ! i ! j)" if "i < n" "j < n" for i j
    unfolding cell [OF that] by auto
  moreover have "\<forall>c \<in> set cs. c < n" using Cons.prems(3) by simp
  ultimately show ?case using Cons.IH [OF sq assms(2)] by (simp flip: m1_def)
qed simp

lemma isolate_graph:
  assumes "square n m" and "s < n" and "u < n" and "v < n"
  shows "matrix_graph (isolate s nbr n m) n u v =
    (if u = s \<and> v \<noteq> nbr \<or> v = s \<and> u \<noteq> nbr then None else matrix_graph m n u v)"
  using isolate_cells [OF assms(1,2), of "[0..<n]" nbr] assms(3,4)
  by (simp add: isolate_def matrix_graph_def NON_ADJACENT_def)

section \<open>Walks that leave the source once\<close>

text \<open>The cost of reaching \<open>dest\<close> over the neighbour \<open>nbr\<close> without coming back to \<open>s\<close>.\<close>

definition least_via :: "'n graph \<Rightarrow> 'n \<Rightarrow> 'n \<Rightarrow> 'n \<Rightarrow> cost \<Rightarrow> bool" where
  "least_via g s nbr dest c \<longleftrightarrow> nbr \<noteq> s
     \<and> (\<exists>w c'. g s nbr = Some w \<and> least_walk (without s g) nbr dest c' \<and> c = w + c')"

lemma walk_leaves:
  assumes "walk g s v c" and "v \<noteq> s" and "nonneg g"
  shows "\<exists>nbr w c'. nbr \<noteq> s \<and> g s nbr = Some w \<and> walk (without s g) nbr v c' \<and> w + c' \<le> c"
  using assms
proof (induction rule: walk.induct)
  case (walk_step s b c d w)
  show ?case
  proof (cases "b = s")
    case True
    have "0 \<le> c" using walk_nonneg [OF walk_step.hyps(1) walk_step.prems(2)] .
    then show ?thesis using True walk_step walk_nil by fastforce
  next
    case False
    then obtain nbr x c' where n: "nbr \<noteq> s" "g s nbr = Some x" "walk (without s g) nbr b c'" "x + c' \<le> c"
      using walk_step by blast
    have "without s g b d = Some w" using False walk_step by (simp add: without_def)
    then have "walk (without s g) nbr d (c' + w)" using n(3) by (rule walk.walk_step [rotated])
    moreover have "x + (c' + w) \<le> c + w" using n(4) by simp
    ultimately show ?thesis using n(1,2) by blast
  qed
qed simp

lemma walk_without: "walk (without s g) a b c \<Longrightarrow> walk g a b c"
  by (induction rule: walk.induct) (auto simp: without_def intro: walk.intros split: if_splits)

lemma least_via_walk: "least_via g s nbr dest c \<Longrightarrow> walk g s dest c"
  by (auto simp: least_via_def least_walk_def intro: walk_Cons walk_without)

lemma isolated_walks:
  assumes "square n m" and "s < n" and "nbr < n" and "v \<noteq> s"
  defines "g \<equiv> matrix_graph m n"
  defines "sim \<equiv> matrix_graph (isolate s nbr n m) n"
  shows "walk sim s v c \<Longrightarrow> \<exists>w c'. nbr \<noteq> s \<and> g s nbr = Some w \<and> walk (without s g) nbr v c' \<and> w + c' \<le> c"
    and "nbr \<noteq> s \<Longrightarrow> g s nbr = Some w \<Longrightarrow> walk (without s g) nbr v c' \<Longrightarrow> walk sim s v (w + c')"
proof -
  have sim: "sim u x = (if u = s \<and> x \<noteq> nbr \<or> x = s \<and> u \<noteq> nbr then None else g u x)" if "u < n" "x < n" for u x
    using isolate_graph [OF assms(1,2) that] by (simp add: sim_def g_def)
  have outside: "sim u x = None \<and> g u x = None" if "\<not> (u < n \<and> x < n)" for u x
    using that by (auto simp: sim_def g_def matrix_graph_def)
  have "without s sim u x = without s g u x" for u x
    using sim [of u x] outside [of u x] by (cases "u < n \<and> x < n") (auto simp: without_def)
  then have same: "without s sim = without s g" by blast
  { assume "walk sim s v c"
    then obtain y w c' where "y \<noteq> s" "sim s y = Some w" "walk (without s g) y v c'" "w + c' \<le> c"
      using walk_leaves [of sim s v c] assms(4) same matrix_graph_nonneg by (auto simp: sim_def)
    moreover from this have "y < n" using outside [of s y] by (metis option.distinct(1))
    ultimately show "\<exists>w c'. nbr \<noteq> s \<and> g s nbr = Some w \<and> walk (without s g) nbr v c' \<and> w + c' \<le> c"
      using sim [OF assms(2), of y] by (auto split: if_splits) }
  { assume "nbr \<noteq> s" "g s nbr = Some w" "walk (without s g) nbr v c'"
    moreover from this have "sim s nbr = Some w" using sim [OF assms(2,3)] by simp
    ultimately show "walk sim s v (w + c')"
      using walk_Cons [of sim s nbr w v c'] walk_without [of s sim] same by metis }
qed

lemma isolated_least:
  assumes "square n m" and "s < n" and "nbr < n" and "v \<noteq> s"
  shows "least_walk (matrix_graph (isolate s nbr n m) n) s v c \<longleftrightarrow> least_via (matrix_graph m n) s nbr v c"
    (is "?L \<longleftrightarrow> ?R")
proof -
  let ?g = "matrix_graph m n" and ?sim = "matrix_graph (isolate s nbr n m) n"
  note out = isolated_walks(1) [OF assms]
  note conv = isolated_walks(2) [OF assms]
  show ?thesis
  proof
    assume L: ?L
    then obtain w c' where w: "nbr \<noteq> s" "?g s nbr = Some w" "walk (without s ?g) nbr v c'" "w + c' \<le> c"
      using out by (fastforce simp: least_walk_def)
    have least: "c \<le> w + c''" if "walk (without s ?g) nbr v c''" for c''
      using conv [OF w(1,2) that] L by (simp add: least_walk_def)
    then have c: "c = w + c'" using w(3,4) by (simp add: order.antisym)
    then have "least_walk (without s ?g) nbr v c'" using w(3) least by (simp add: least_walk_def)
    then show ?R using w c by (auto simp: least_via_def)
  next
    assume ?R
    then obtain w c' where w: "nbr \<noteq> s" "?g s nbr = Some w" "least_walk (without s ?g) nbr v c'" "c = w + c'"
      by (auto simp: least_via_def)
    have "walk ?sim s v c" using conv [OF w(1,2)] w(3,4) by (simp add: least_walk_def)
    moreover have "c \<le> d" if d: "walk ?sim s v d" for d
    proof -
      obtain c'' where "walk (without s ?g) nbr v c''" "w + c'' \<le> d" using out [OF d] w(2) by auto
      then show ?thesis using w(3,4) by (fastforce simp: least_walk_def)
    qed
    ultimately show ?L by (simp add: least_walk_def)
  qed
qed

section \<open>From indices to names\<close>

lemma walk_names:
  assumes "distinct names" and "\<And>u v. u < length names \<Longrightarrow> v < length names \<Longrightarrow> g u v = G (names ! u) (names ! v)"
    and "\<And>u v w. g u v = Some w \<Longrightarrow> u < length names \<and> v < length names"
    and "\<And>a b w. G a b = Some w \<Longrightarrow> a \<in> set names \<and> b \<in> set names"
    and "u < length names" and "v < length names"
  shows "walk g u v c \<longleftrightarrow> walk G (names ! u) (names ! v) c"
proof
  assume "walk g u v c"
  then show "walk G (names ! u) (names ! v) c"
  proof (induction rule: walk.induct)
    case (walk_step a b c d w)
    then show ?case using assms(2,3) by (metis walk.walk_step)
  qed (rule walk_nil)
next
  have "x < length names \<Longrightarrow> names ! x = a \<Longrightarrow> y < length names \<Longrightarrow> names ! y = b \<Longrightarrow> walk g x y c"
    if "walk G a b c" for a b c x y
    using that
  proof (induction arbitrary: y rule: walk.induct)
    case (walk_nil a)
    then have "x = y" using nth_eq_iff_index_eq [OF assms(1), of x y] by metis
    then show ?case by (simp add: walk.walk_nil)
  next
    case (walk_step a b c d w)
    then have "b \<in> set names" using assms(4) by blast
    then obtain z where "z < length names" "names ! z = b" by (auto simp: in_set_conv_nth)
    then show ?case using walk_step assms(2) by (metis walk.walk_step)
  qed
  then show "walk G (names ! u) (names ! v) c \<Longrightarrow> walk g u v c" using assms(5,6) by blast
qed

lemma link_names: "link lsas a b = Some w \<Longrightarrow> a \<in> set (router_names lsas) \<and> b \<in> set (router_names lsas)"
  using router_names_spec [of lsas]
  by (fastforce simp: link_def advertised_def Let_def split: option.splits if_splits)

end
