(* ===== verification/Nlsr_Paths.thy ===== *)
theory Nlsr_Paths
  imports Nlsr_Routes
begin

text \<open>
  What \<open>compute_routes\<close> computes: the next hops of every destination in terms of the advertised
  links, and what follows for a network of routers that hold the same adjacency LSAs, each
  with its own order: equal distances in both directions and loop-free forwarding.
\<close>

section \<open>The next hops of a destination\<close>

lemma without_names:
  fixes lsas :: "'n adjacency_lsa list"
  defines "names \<equiv> router_names lsas"
  defines "m \<equiv> symmetrize (length names) (adjacency_matrix names lsas)"
  assumes "s < length names" and "u < length names" and "v < length names"
  shows "walk (without s (matrix_graph m (length names))) u v d
    \<longleftrightarrow> walk (without (names ! s) (link lsas)) (names ! u) (names ! v) d"
proof -
  let ?n = "length names" and ?g = "matrix_graph m (length names)"
  have dist: "distinct names" using router_names_spec [of lsas] by (simp add: names_def)
  have g: "?g u x = link lsas (names ! u) (names ! x)" if "u < ?n" "x < ?n" for u x
    using link_matrix [of lsas] that by (simp add: m_def names_def)
  show ?thesis
  proof (rule walk_names [OF dist _ _ _ assms(4,5)])
    fix u x assume "u < ?n" "x < ?n"
    then show "without s ?g u x = without (names ! s) (link lsas) (names ! u) (names ! x)"
      using g nth_eq_iff_index_eq [OF dist] assms(3) by (auto simp: without_def)
  next
    fix u x w assume "without s ?g u x = Some w"
    then show "u < ?n \<and> x < ?n" by (auto simp: without_def matrix_graph_def split: if_splits)
  next
    fix a b w assume "without (names ! s) (link lsas) a b = Some w"
    then show "a \<in> set names \<and> b \<in> set names"
      by (auto simp: without_def names_def dest: link_names split: if_splits)
  qed
qed

lemma least_via_names:
  fixes lsas :: "'n adjacency_lsa list"
  defines "names \<equiv> router_names lsas"
  defines "m \<equiv> symmetrize (length names) (adjacency_matrix names lsas)"
  assumes "s < length names" and "nbr < length names" and "v < length names"
  shows "least_via (matrix_graph m (length names)) s nbr v c
    \<longleftrightarrow> least_via (link lsas) (names ! s) (names ! nbr) (names ! v) c"
proof -
  have dist: "distinct names" using router_names_spec [of lsas] by (simp add: names_def)
  have "matrix_graph m (length names) s nbr = link lsas (names ! s) (names ! nbr)"
    using link_matrix [of lsas] assms(3,4) by (simp add: m_def names_def)
  then show ?thesis
    using without_names [OF assms(3-5) [unfolded names_def]] nth_eq_iff_index_eq [OF dist assms(4,3)]
    by (simp add: least_via_def least_walk_def m_def names_def)
qed

lemma walk_ends:
  assumes "walk g a b c" shows "a = b \<or> (\<exists>x w. g x b = Some w)"
  using assms by (cases rule: walk.cases) auto

text \<open>A walk below the stand-in for infinity has a least one.\<close>

lemma least_via_exists:
  assumes "link lsas self nbr = Some w" and "nbr \<noteq> self" and "dest \<noteq> self"
    and "walk (without self (link lsas)) nbr dest c'" and "w + c' < COST_INF"
  shows "\<exists>c \<le> w + c'. least_via (link lsas) self nbr dest c"
proof -
  let ?names = "router_names lsas" and ?n = "length (router_names lsas)"
  let ?m = "symmetrize ?n (adjacency_matrix ?names lsas)"
  have mem: "self \<in> set ?names" "nbr \<in> set ?names" using link_names [OF assms(1)] by auto
  moreover have "dest \<in> set ?names"
    using walk_ends [OF assms(4)] mem by (auto simp: without_def dest: link_names split: if_splits)
  ultimately obtain s y d where i: "s < ?n" "?names ! s = self" "y < ?n" "?names ! y = nbr" "d < ?n" "?names ! d = dest"
    by (metis in_set_conv_nth)
  have sq: "square ?n ?m" and e: "matrix_graph ?m ?n s y = Some w"
    using link_matrix [of lsas] i assms(1) by simp_all
  have ne: "d \<noteq> s" "y \<noteq> s" using i assms(2,3) by auto
  have "walk (without s (matrix_graph ?m ?n)) y d c'" using without_names [OF i(1,3,5)] assms(4) i by simp
  then have "walk (matrix_graph (isolate s y ?n ?m) ?n) s d (w + c')"
    using isolated_walks(2) [OF sq i(1,3) ne(1) ne(2) e] by blast
  then obtain c where "least_walk (matrix_graph (isolate s y ?n ?m) ?n) s d c" "c \<le> w + c'"
    using dijkstra_spec [OF i(1), of "isolate s y ?n ?m"] assms(5) i(5) by fastforce
  then show ?thesis
    using isolated_least [OF sq i(1,3) ne(1)] least_via_names [OF i(1,3,5)] i by auto
qed

lemma push_hops_nth:
  "dest < length result \<Longrightarrow> push_hops source face dst result ! dest =
     (if dest \<noteq> source \<and> dst ! dest < COST_INF
      then result ! dest @ [\<lparr>nh_face_uri = face, nh_cost = dst ! dest\<rparr>] else result ! dest)"
  by (simp add: push_hops_def nth_enumerate_eq)

lemma push_hops_length: "length (push_hops source face dst result) = length result"
  by (simp add: push_hops_def)

text \<open>A hop leads over an adjacency at the least cost of the walks over it that do not come back.\<close>

definition hop_over :: "'n graph \<Rightarrow> 'n \<Rightarrow> 'n \<Rightarrow> next_hop \<Rightarrow> 'n adjacent \<Rightarrow> bool" where
  "hop_over g self dest h adj \<longleftrightarrow> nh_face_uri h = adj_face_uri adj \<and> nh_cost h < COST_INF
     \<and> least_via g self (adj_name adj) dest (nh_cost h)"

lemma neighbor_routes_spec:
  fixes lsas :: "'n adjacency_lsa list"
  defines "names \<equiv> router_names lsas"
  defines "m \<equiv> symmetrize (length names) (adjacency_matrix names lsas)"
  assumes "s < length names" and "length result = length names"
  shows "\<exists>result'. neighbor_routes names m s adjs result = Some result' \<and> length result' = length names
    \<and> (\<forall>dest<length names. \<forall>h. h \<in> set (result' ! dest) \<longleftrightarrow> h \<in> set (result ! dest)
        \<or> dest \<noteq> s \<and> (\<exists>adj \<in> set adjs. hop_over (link lsas) (names ! s) (names ! dest) h adj))"
  using assms(4)
proof (induction adjs arbitrary: result)
  case (Cons adj adjs)
  let ?n = "length names" and ?G = "link lsas"
  have none: "\<not> least_via ?G (names ! s) (adj_name adj) d c" if "?G (names ! s) (adj_name adj) = None" for d c
    using that by (simp add: least_via_def)
  show ?case
  proof (cases "index_of names (adj_name adj)")
    case None
    then have "?G (names ! s) (adj_name adj) = None"
      using link_names [of lsas "names ! s" "adj_name adj"]
      by (cases "?G (names ! s) (adj_name adj)") (auto simp: index_of_def names_def split: if_splits)
    then show ?thesis using Cons None none by (simp add: hop_over_def)
  next
    case (Some nbr)
    then have nbr: "nbr < ?n" "names ! nbr = adj_name adj" by (auto dest: index_of_Some)
    have edge: "matrix_graph m ?n s nbr = ?G (names ! s) (adj_name adj)"
      using link_matrix [of lsas] assms(3) nbr by (simp add: m_def names_def)
    show ?thesis
    proof (cases "m ! s ! nbr < 0")
      case True
      then have "?G (names ! s) (adj_name adj) = None" using edge by (simp add: matrix_graph_def)
      then show ?thesis using Cons Some True none by (simp add: hop_over_def)
    next
      case False
      have sq: "square ?n m" using link_matrix [of lsas] by (simp add: m_def names_def)
      obtain dst where dst: "dijkstra (isolate s nbr ?n m) s ?n = Some dst" "length dst = ?n"
        and least: "\<And>v. v < ?n \<Longrightarrow> dst ! v = COST_INF \<or> least_walk (matrix_graph (isolate s nbr ?n m) ?n) s v (dst ! v)"
        and le: "\<And>v c. walk (matrix_graph (isolate s nbr ?n m) ?n) s v c \<Longrightarrow> dst ! v \<le> c"
        using dijkstra_spec [OF assms(3)] by blast
      have hop: "c = dst ! d \<and> c < COST_INF \<longleftrightarrow> c < COST_INF \<and> least_via ?G (names ! s) (adj_name adj) (names ! d) c"
        if d: "d < ?n" "d \<noteq> s" for c d
      proof -
        have "least_via ?G (names ! s) (adj_name adj) (names ! d) c \<longleftrightarrow>
            least_walk (matrix_graph (isolate s nbr ?n m) ?n) s d c"
          using least_via_names [of s lsas nbr d c] isolated_least [OF sq assms(3) nbr(1) d(2)] assms(3) nbr d(1)
          by (simp add: m_def names_def)
        moreover have "c = dst ! d" if "least_walk (matrix_graph (isolate s nbr ?n m) ?n) s d c" "c < COST_INF"
        proof -
          have "dst ! d \<le> c" using le that(1) by (simp add: least_walk_def)
          then have "dst ! d \<noteq> COST_INF" using that(2) by linarith
          then show ?thesis using least [OF d(1)] least_walk_unique [OF that(1)] by blast
        qed
        ultimately show ?thesis using least [OF d(1)] by (metis less_irrefl)
      qed
      let ?r = "push_hops s (adj_face_uri adj) dst result"
      have len: "length ?r = ?n" using Cons.prems by (simp add: push_hops_length)
      have new: "h \<in> set (?r ! d) \<longleftrightarrow> h \<in> set (result ! d) \<or> d \<noteq> s \<and> hop_over ?G (names ! s) (names ! d) h adj"
        if d: "d < ?n" for d and h :: next_hop
      proof -
        have "h = \<lparr>nh_face_uri = adj_face_uri adj, nh_cost = dst ! d\<rparr> \<longleftrightarrow>
            nh_face_uri h = adj_face_uri adj \<and> nh_cost h = dst ! d" by (cases h) auto
        then show ?thesis using hop [OF d, of "nh_cost h"] Cons.prems d by (auto simp: push_hops_nth hop_over_def)
      qed
      obtain result' where r': "neighbor_routes names m s adjs ?r = Some result'" "length result' = ?n"
        and rest: "\<And>d h. d < ?n \<Longrightarrow> h \<in> set (result' ! d) \<longleftrightarrow> h \<in> set (?r ! d)
          \<or> d \<noteq> s \<and> (\<exists>adj \<in> set adjs. hop_over ?G (names ! s) (names ! d) h adj)"
        using Cons.IH [OF len] by blast
      have "h \<in> set (result' ! d) \<longleftrightarrow> h \<in> set (result ! d)
          \<or> d \<noteq> s \<and> (\<exists>adj \<in> set (adj # adjs). hop_over ?G (names ! s) (names ! d) h adj)"
        if d: "d < ?n" for d h
        unfolding rest [OF d] new [OF d] by auto
      moreover have "neighbor_routes names m s (adj # adjs) result = Some result'"
        using Some False dst(1) r'(1) by simp
      ultimately show ?thesis using r'(2) by blast
    qed
  qed
qed simp

definition hops_to :: "'n routing_snapshot \<Rightarrow> 'n \<Rightarrow> next_hop list" where
  "hops_to snap dest = (case snapshot_get snap dest of Some e \<Rightarrow> rte_nexthops e | None \<Rightarrow> [])"

lemma hops_to_Cons: "hops_to (e # es) x = (if rte_dest_router e = x then rte_nexthops e else hops_to es x)"
  by (simp add: hops_to_def snapshot_get_def)

lemma table_entries_Cons:
  "table_entries (y # names) (r # result) = (if r = [] then table_entries names result
     else \<lparr>rte_dest_router = y, rte_nexthops = r\<rparr> # table_entries names result)"
  by (simp add: table_entries_def)

lemma table_entries_dests: "rte_dest_router ` set (table_entries names result) \<subseteq> set names"
  by (auto simp: table_entries_def dest: set_zip_leftD)

lemma hops_to_absent: "x \<notin> rte_dest_router ` set snap \<Longrightarrow> hops_to snap x = []"
  by (induction snap) (auto simp: hops_to_Cons, simp add: hops_to_def snapshot_get_def)

lemma hops_to_entries:
  assumes "length names = length result" and "distinct names"
  shows "hops_to (table_entries names result) x = (case map_of (zip names result) x of Some r \<Rightarrow> r | None \<Rightarrow> [])
    \<and> distinct (map rte_dest_router (table_entries names result))"
  using assms
proof (induction names result rule: list_induct2)
  case Nil
  then show ?case by (simp add: table_entries_def hops_to_def snapshot_get_def)
next
  case (Cons y names r result)
  have "y \<notin> rte_dest_router ` set (table_entries names result)"
    using table_entries_dests [of names result] Cons.prems by auto
  then show ?case using Cons by (auto simp: table_entries_Cons hops_to_Cons hops_to_absent)
qed

lemma hops_to_nth:
  assumes "length names = length result" and "distinct names" and "i < length names"
  shows "hops_to (table_entries names result) (names ! i) = result ! i"
  using hops_to_entries [OF assms(1,2)] map_of_zip_nth [OF assms(1,2), of i] assms by simp

lemma least_via_dest:
  assumes "least_via (link lsas) self nbr dest c" shows "dest \<in> set (router_names lsas)"
proof -
  obtain w c' where w: "link lsas self nbr = Some w" "walk (without self (link lsas)) nbr dest c'"
    using assms by (auto simp: least_via_def least_walk_def)
  from walk_ends [OF w(2)] show ?thesis
    using link_names [OF w(1)] by (auto simp: without_def dest: link_names split: if_splits)
qed

lemma compute_routes_spec:
  "\<exists>snap. compute_routes lsas self = Some snap \<and> distinct (map rte_dest_router snap)
    \<and> hops_to snap self = []
    \<and> (\<forall>dest h. dest \<noteq> self \<longrightarrow> (h \<in> set (hops_to snap dest)
        \<longleftrightarrow> (\<exists>adj \<in> set (own_adjacencies lsas self). hop_over (link lsas) self dest h adj)))"
proof (cases "own_adjacencies lsas self = []")
  case True
  then have "compute_routes lsas self = Some []"
    by (auto simp: compute_routes_def Let_def split: option.splits)
  then show ?thesis using True by (simp add: hops_to_def snapshot_get_def)
next
  case False
  let ?names = "router_names lsas"
  obtain l where l: "find (\<lambda>l. al_origin_router l = self) lsas = Some l"
    using False by (auto simp: own_adjacencies_def split: option.splits)
  then have "l \<in> set lsas" "al_origin_router l = self" by (auto simp: find_Some_iff)
  then have "self \<in> set ?names" using router_names_spec [of lsas] by auto
  then obtain s where s: "index_of ?names self = Some s" by (simp add: index_of_def)
  then have s': "s < length ?names" "?names ! s = self" by (auto dest: index_of_Some)
  have dist: "distinct ?names" using router_names_spec [of lsas] by blast
  obtain result where r: "neighbor_routes ?names (symmetrize (length ?names) (adjacency_matrix ?names lsas)) s
      (own_adjacencies lsas self) (replicate (length ?names) []) = Some result" "length result = length ?names"
    and hops: "\<And>d h. d < length ?names \<Longrightarrow> h \<in> set (result ! d) \<longleftrightarrow> d \<noteq> s
      \<and> (\<exists>adj \<in> set (own_adjacencies lsas self). hop_over (link lsas) self (?names ! d) h adj)"
    using neighbor_routes_spec [OF s'(1), of "replicate (length ?names) []" "own_adjacencies lsas self"] s'(2)
    by auto
  let ?snap = "table_entries ?names result"
  have at: "hops_to ?snap (?names ! d) = result ! d" if "d < length ?names" for d
    using hops_to_nth [OF _ dist that, of result] r(2) by simp
  have "compute_routes lsas self = Some ?snap"
    using l False s r(1) by (auto simp: compute_routes_def Let_def)
  moreover have "distinct (map rte_dest_router ?snap)" using hops_to_entries [OF r(2) [symmetric] dist] by blast
  moreover have "hops_to ?snap self = []"
  proof -
    have "result ! s = []" using hops [OF s'(1), of "hd (result ! s)"] by (cases "result ! s") auto
    then show ?thesis using at [OF s'(1)] s'(2) by metis
  qed
  moreover have "h \<in> set (hops_to ?snap dest)
      \<longleftrightarrow> (\<exists>adj \<in> set (own_adjacencies lsas self). hop_over (link lsas) self dest h adj)"
    if dest: "dest \<noteq> self" for dest h
  proof (cases "dest \<in> set ?names")
    case True
    then obtain d where "d < length ?names" "?names ! d = dest" by (auto simp: in_set_conv_nth)
    then show ?thesis using at [of d] hops [of d h] s'(2) dest by auto
  next
    case False
    then have "dest \<notin> rte_dest_router ` set ?snap" using table_entries_dests by fast
    then have "hops_to ?snap dest = []" by (rule hops_to_absent)
    moreover have "\<not> hop_over (link lsas) self dest h adj" for adj :: "'a adjacent"
      using False least_via_dest [of lsas self "adj_name adj" dest "nh_cost h"] unfolding hop_over_def by blast
    ultimately show ?thesis by simp
  qed
  ultimately show ?thesis by blast
qed

section \<open>Best routes\<close>

text \<open>One adjacency LSA for every router: the database keeps one for every origin and type.\<close>

abbreviation one_each :: "'n adjacency_lsa list \<Rightarrow> bool" where
  "one_each lsas \<equiv> distinct (map al_origin_router lsas)"

lemma own_adjacencies_mem:
  assumes "one_each lsas" and "l \<in> set lsas"
  shows "own_adjacencies lsas (al_origin_router l) = al_adjacencies l"
  using assms
proof (induction lsas)
  case (Cons k lsas)
  then show ?case by (cases "k = l") (auto simp: own_adjacencies_def rev_image_eqI)
qed simp

lemma own_adjacencies_none:
  assumes "\<forall>l \<in> set lsas. al_origin_router l \<noteq> a" shows "own_adjacencies lsas a = []"
proof -
  have "find (\<lambda>l. al_origin_router l = a) lsas = None" using assms by (simp add: find_None_iff)
  then show ?thesis by (simp add: own_adjacencies_def)
qed

lemma concat_costs:
  assumes "one_each lsas" and "l \<in> set lsas"
  shows "concat (map (costs_of (al_origin_router l) b) lsas) = costs_to b (al_adjacencies l)"
  using assms
proof (induction lsas)
  case (Cons k lsas)
  show ?case
  proof (cases "k = l")
    case True
    then have "concat (map (costs_of (al_origin_router l) b) lsas) = []"
      using Cons.prems(1) by (auto simp: rev_image_eqI)
    then show ?thesis using True by simp
  next
    case False
    then have "al_origin_router k \<noteq> al_origin_router l" using Cons.prems by (auto simp: rev_image_eqI)
    then show ?thesis using Cons False by simp
  qed
qed simp

lemma advertised_own:
  assumes "one_each lsas"
  shows "advertised lsas a b = (let cs = costs_to b (own_adjacencies lsas a) in if cs = [] then None else Some (last cs))"
proof (cases "\<exists>l \<in> set lsas. al_origin_router l = a")
  case True
  then obtain l where l: "l \<in> set lsas" "al_origin_router l = a" by blast
  show ?thesis
    unfolding advertised_def concat_costs [OF assms l(1), unfolded l(2)]
    unfolding l(2) [symmetric] own_adjacencies_mem [OF assms l(1)] ..
next
  case False
  then have "concat (map (costs_of a b) lsas) = []" by simp
  moreover have "own_adjacencies lsas a = []" using False by (intro own_adjacencies_none) blast
  ultimately show ?thesis by (simp add: advertised_def)
qed

lemma link_own:
  assumes "one_each lsas" and "link lsas a b = Some w"
  shows "\<exists>adj \<in> set (own_adjacencies lsas a). adj_name adj = b"
proof -
  have "advertised lsas a b \<noteq> None" using assms(2) by (auto simp: link_def split: option.splits)
  then have "filter (\<lambda>adj. adj_name adj = b) (own_adjacencies lsas a) \<noteq> []"
    unfolding advertised_own [OF assms(1)] Let_def by auto
  then show ?thesis by (simp add: filter_empty_conv)
qed

lemma own_adjacencies_cong:
  assumes "one_each lsas" and "one_each lsas'" and "set lsas = set lsas'"
  shows "own_adjacencies lsas a = own_adjacencies lsas' a"
proof (cases "\<exists>l \<in> set lsas. al_origin_router l = a")
  case True
  then obtain l where l: "l \<in> set lsas" "al_origin_router l = a" by blast
  then have "l \<in> set lsas'" using assms(3) by simp
  from own_adjacencies_mem [OF assms(2) this] own_adjacencies_mem [OF assms(1) l(1)]
  show ?thesis unfolding l(2) by simp
next
  case False
  then have "\<forall>l \<in> set lsas. al_origin_router l \<noteq> a" by blast
  from own_adjacencies_none [OF this] own_adjacencies_none [OF this [unfolded assms(3)]]
  show ?thesis by simp
qed

lemma link_cong:
  assumes "one_each lsas" and "one_each lsas'" and "set lsas = set lsas'"
  shows "link lsas = link lsas'"
proof -
  have "advertised lsas a b = advertised lsas' a b" for a b
    unfolding advertised_own [OF assms(1)] advertised_own [OF assms(2)] own_adjacencies_cong [OF assms] ..
  then show ?thesis by (simp add: fun_eq_iff link_def)
qed

lemma route_exists:
  assumes "one_each lsas" and "compute_routes lsas self = Some snap" and "dest \<noteq> self"
    and "walk (link lsas) self dest d" and "d < COST_INF"
  shows "\<exists>h \<in> set (hops_to snap dest). nh_cost h \<le> d"
proof -
  let ?G = "link lsas"
  obtain nbr w c' where w: "nbr \<noteq> self" "?G self nbr = Some w" "walk (without self ?G) nbr dest c'" "w + c' \<le> d"
    using walk_leaves [OF assms(4,3) link_nonneg] by blast
  then obtain e where e: "e \<le> w + c'" "least_via ?G self nbr dest e"
    using least_via_exists [OF w(2,1) assms(3) w(3)] assms(5) by fastforce
  obtain adj where adj: "adj \<in> set (own_adjacencies lsas self)" "adj_name adj = nbr"
    using link_own [OF assms(1) w(2)] by blast
  let ?h = "\<lparr>nh_face_uri = adj_face_uri adj, nh_cost = e\<rparr>"
  have "hop_over ?G self dest ?h adj" using e w(4) assms(5) adj by (simp add: hop_over_def)
  then have "?h \<in> set (hops_to snap dest)"
    using compute_routes_spec [of lsas self] assms(2,3) adj(1) by auto
  moreover have "nh_cost ?h \<le> d" using e(1) w(4) by simp
  ultimately show ?thesis by blast
qed

lemma best_route:
  assumes "one_each lsas" and "compute_routes lsas self = Some snap" and "dest \<noteq> self" and "c < COST_INF"
  shows "least_walk (link lsas) self dest c \<longleftrightarrow>
    (\<exists>h \<in> set (hops_to snap dest). nh_cost h = c) \<and> (\<forall>h \<in> set (hops_to snap dest). c \<le> nh_cost h)"
    (is "?L \<longleftrightarrow> ?R")
proof -
  let ?G = "link lsas"
  have hops: "h \<in> set (hops_to snap dest)
      \<longleftrightarrow> (\<exists>adj \<in> set (own_adjacencies lsas self). hop_over ?G self dest h adj)" for h
    using compute_routes_spec [of lsas self] assms(2,3) by auto
  have walks: "walk ?G self dest (nh_cost h)" if "h \<in> set (hops_to snap dest)" for h
    using that hops least_via_walk by (auto simp: hop_over_def)
  note route = route_exists [OF assms(1-3)]
  show ?thesis
  proof
    assume L: ?L
    then obtain h where h: "h \<in> set (hops_to snap dest)" "nh_cost h \<le> c"
      using route assms(4) by (auto simp: least_walk_def)
    have "c \<le> nh_cost h" if "h \<in> set (hops_to snap dest)" for h
      using walks [OF that] L by (simp add: least_walk_def)
    then show ?R using h by (auto intro: order.antisym)
  next
    assume R: ?R
    then have "walk ?G self dest c" using walks by auto
    moreover have "c \<le> d" if "walk ?G self dest d" for d
      using route [OF that] R assms(4) by (cases "d < COST_INF") fastforce+
    ultimately show ?L by (simp add: least_walk_def)
  qed
qed

lemma best_exists:
  assumes "one_each lsas" and "compute_routes lsas self = Some snap" and "dest \<noteq> self"
    and "walk (link lsas) self dest d" and "d < COST_INF"
  shows "\<exists>h \<in> set (hops_to snap dest). nh_cost h \<le> d \<and> (\<forall>h' \<in> set (hops_to snap dest). nh_cost h \<le> nh_cost h')
    \<and> least_walk (link lsas) self dest (nh_cost h)"
proof -
  let ?C = "nh_cost ` set (hops_to snap dest)"
  obtain h0 where h0: "h0 \<in> set (hops_to snap dest)" "nh_cost h0 \<le> d" using route_exists [OF assms] by blast
  then have "Min ?C \<in> ?C" by (intro Min_in) auto
  then obtain h where h: "h \<in> set (hops_to snap dest)" "nh_cost h = Min ?C" by auto
  have least: "nh_cost h \<le> nh_cost h'" if "h' \<in> set (hops_to snap dest)" for h' using h(2) that by simp
  then have "nh_cost h \<le> d" using h0 by (meson order_trans)
  then show ?thesis
    using best_route [OF assms(1-3), of "nh_cost h"] h(1) least assms(5) by (intro bexI [of _ h]) auto
qed

section \<open>Properties\<close>

text \<open>
  (C15) \<open>compute_routes\<close> returns, and the next hops it gives for a destination are exactly one for
  every adjacency of the router over which the destination can be reached: the face of the
  adjacency, at the least cost of the walks that take this link first and do not come back, in
  the graph of the links both ends advertise. Every destination has one entry at most, the
  router itself none.
\<close>

theorem routes_exact:
  "\<exists>snap. compute_routes lsas self = Some snap \<and> distinct (map rte_dest_router snap)
    \<and> hops_to snap self = []
    \<and> (\<forall>dest h. dest \<noteq> self \<longrightarrow> (h \<in> set (hops_to snap dest)
        \<longleftrightarrow> (\<exists>adj \<in> set (own_adjacencies lsas self). hop_over (link lsas) self dest h adj)))"
  by (rule compute_routes_spec)

definition triangle :: "nat adjacency_lsa list" where
  "triangle = map (\<lambda>(a, adjs). \<lparr>al_origin_router = a, al_seq_no = 1, al_expiration_ms = 1,
      al_adjacencies = map (\<lambda>(b, face, c). \<lparr>adj_name = b, adj_face_uri = face, adj_link_cost = c\<rparr>) adjs\<rparr>)
    [(0, [(1, ''b'', 5), (2, ''c'', 10)]), (1, [(0, ''a'', 5), (2, ''c'', 17)]), (2, [(0, ''a'', 10), (1, ''b'', 17)])]"

lemma triangle_links:
  "link triangle 0 1 = Some 5" "link triangle 0 2 = Some 10" "link triangle 1 2 = Some 17" "link triangle 2 1 = Some 17"
  by (simp_all add: link_def advertised_def triangle_def)

lemma without_nonneg: "nonneg g \<Longrightarrow> nonneg (without s g)"
  by (auto simp: nonneg_def without_def split: if_splits)

lemma least_via_neighbor:
  assumes "g s nbr = Some w" and "nbr \<noteq> s" and "nonneg g" shows "least_via g s nbr nbr w"
  using assms walk_nonneg [OF _ without_nonneg [OF assms(3)]]
  by (auto simp: least_via_def least_walk_def intro!: exI [of _ 0] walk_nil)

theorem routes_exact_witness:
  "\<exists>snap. compute_routes triangle 0 = Some snap \<and> hops_to snap 0 = []
    \<and> \<lparr>nh_face_uri = ''b'', nh_cost = 5\<rparr> \<in> set (hops_to snap 1)"
proof -
  obtain snap where snap: "compute_routes triangle 0 = Some snap" "hops_to snap 0 = []"
    "\<forall>dest h. dest \<noteq> 0 \<longrightarrow> (h \<in> set (hops_to snap dest)
      \<longleftrightarrow> (\<exists>adj \<in> set (own_adjacencies triangle 0). hop_over (link triangle) 0 dest h adj))"
    using routes_exact [of triangle 0] by blast
  have own: "\<lparr>adj_name = 1, adj_face_uri = ''b'', adj_link_cost = 5\<rparr> \<in> set (own_adjacencies triangle 0)"
    by (simp add: own_adjacencies_def triangle_def)
  have "hop_over (link triangle) 0 1 \<lparr>nh_face_uri = ''b'', nh_cost = 5\<rparr>
      \<lparr>adj_name = 1, adj_face_uri = ''b'', adj_link_cost = 5\<rparr>"
    using least_via_neighbor [OF triangle_links(1) _ link_nonneg] by (simp add: hop_over_def COST_INF_def)
  then show ?thesis using snap own by (metis zero_neq_one)
qed

text \<open>
  (C16) The cheapest next hop of a destination costs exactly what the cheapest walk to it costs in
  the graph of the links both ends advertise, and there is one whenever there is a walk.
\<close>

theorem best_route_is_shortest:
  assumes "one_each lsas" and "compute_routes lsas self = Some snap" and "dest \<noteq> self" and "c < COST_INF"
  shows "least_walk (link lsas) self dest c \<longleftrightarrow>
    (\<exists>h \<in> set (hops_to snap dest). nh_cost h = c) \<and> (\<forall>h \<in> set (hops_to snap dest). c \<le> nh_cost h)"
  using best_route [OF assms] .

lemma triangle_one_each: "one_each triangle"
  by (simp add: triangle_def)

lemma triangle_walks:
  assumes "walk (link triangle) a b c" and "nonneg (link triangle)"
  shows "a = b \<or> 5 \<le> c"
proof -
  have "link triangle x y = Some w \<Longrightarrow> 5 \<le> w" for x y w
    by (auto simp: link_def advertised_def triangle_def Let_def split: if_splits)
  moreover from assms have "a = b \<and> 0 \<le> c \<or> 5 \<le> c"
  proof (induction rule: walk.induct)
    case (walk_step a b c d w)
    then have "5 \<le> w" using calculation by blast
    then show ?case using walk_step by auto
  qed simp
  ultimately show ?thesis by blast
qed

lemma triangle_distance: "least_walk (link triangle) 0 1 5"
  using walk_edge [of "link triangle", OF triangle_links(1)] triangle_walks link_nonneg
  by (fastforce simp: least_walk_def)

theorem best_route_is_shortest_witness:
  "\<exists>snap. compute_routes triangle 0 = Some snap \<and> (\<exists>h \<in> set (hops_to snap 1). nh_cost h = 5)"
proof -
  obtain snap where snap: "compute_routes triangle 0 = Some snap" using compute_routes_spec [of triangle 0] by blast
  then show ?thesis
    using best_route_is_shortest [OF triangle_one_each snap, of 1 5] triangle_distance by (auto simp: COST_INF_def)
qed

text \<open>
  Two routers with the same adjacency LSAs, held in any order, agree on their distance: the
  cheapest next hop of one for the other costs as much as that of the other for the one.
\<close>

theorem routers_agree_on_distance:
  assumes "one_each lsas" and "one_each lsas'" and "set lsas = set lsas'" and "a \<noteq> b"
    and "compute_routes lsas a = Some snap" and "compute_routes lsas' b = Some snap'" and "c < COST_INF"
  shows "(\<exists>h \<in> set (hops_to snap b). nh_cost h = c) \<and> (\<forall>h \<in> set (hops_to snap b). c \<le> nh_cost h)
    \<longleftrightarrow> (\<exists>h \<in> set (hops_to snap' a). nh_cost h = c) \<and> (\<forall>h \<in> set (hops_to snap' a). c \<le> nh_cost h)"
proof -
  have "least_walk (link lsas) a b c \<longleftrightarrow> least_walk (link lsas) b a c"
    using walk_rev [of "link lsas"] link_sym [of lsas] by (metis least_walk_def)
  then show ?thesis
    using best_route [OF assms(1,5) assms(4) [symmetric] assms(7)] best_route [OF assms(2,6,4,7)]
      link_cong [OF assms(1-3)] by simp
qed

theorem routers_agree_on_distance_witness:
  "\<exists>snap snap'. compute_routes triangle 0 = Some snap \<and> compute_routes (rev triangle) 1 = Some snap'
    \<and> (\<exists>h \<in> set (hops_to snap 1). nh_cost h = 5) \<and> (\<exists>h \<in> set (hops_to snap' 0). nh_cost h = 5)"
proof -
  obtain snap where snap: "compute_routes triangle 0 = Some snap" using compute_routes_spec [of triangle 0] by blast
  obtain snap' where snap': "compute_routes (rev triangle) 1 = Some snap'"
    using compute_routes_spec [of "rev triangle" 1] by blast
  have "one_each (rev triangle)" "set triangle = set (rev triangle)"
    using triangle_one_each by (simp_all add: rev_map [symmetric])
  from routers_agree_on_distance [OF triangle_one_each this _ snap snap', of 5] show ?thesis
    using snap snap' best_route [OF triangle_one_each snap, of 1 5] triangle_distance by (auto simp: COST_INF_def)
qed

section \<open>Forwarding\<close>

text \<open>
  A packet for \<open>dest\<close> goes from \<open>a\<close> to \<open>b\<close> when a cheapest next hop at \<open>a\<close> uses the face of the
  adjacency with \<open>b\<close>; \<open>db a\<close> is what router \<open>a\<close> holds.
\<close>

definition forwards :: "('n \<Rightarrow> 'n adjacency_lsa list) \<Rightarrow> 'n \<Rightarrow> ('n \<times> 'n) set" where
  "forwards db dest = {(a, b). a \<noteq> dest \<and> (\<exists>snap h adj. compute_routes (db a) a = Some snap
     \<and> h \<in> set (hops_to snap dest) \<and> (\<forall>h' \<in> set (hops_to snap dest). nh_cost h \<le> nh_cost h')
     \<and> adj \<in> set (own_adjacencies (db a) a) \<and> adj_face_uri adj = nh_face_uri h \<and> adj_name adj = b)}"

text \<open>One set of LSAs everywhere; every router has a face of its own for each neighbour, and links cost.\<close>

definition converged :: "('n \<Rightarrow> 'n adjacency_lsa list) \<Rightarrow> bool" where
  "converged db \<longleftrightarrow> (\<forall>a b. one_each (db a) \<and> set (db a) = set (db b)
     \<and> distinct (map adj_face_uri (own_adjacencies (db a) a))
     \<and> (\<forall>l \<in> set (db a). \<forall>adj \<in> set (al_adjacencies l). 0 < adj_link_cost adj))"

lemma link_positive:
  assumes "\<forall>l \<in> set lsas. \<forall>adj \<in> set (al_adjacencies l). 0 < adj_link_cost adj" and "link lsas a b = Some w"
  shows "0 < w"
proof -
  obtain x where x: "advertised lsas a b = Some x" "x \<le> w"
    using assms(2) by (auto simp: link_def split: option.splits if_splits)
  let ?cs = "concat (map (costs_of a b) lsas)"
  have "x \<in> set ?cs" using x(1) last_in_set [of ?cs] by (auto simp: advertised_def Let_def split: if_splits)
  then have "0 < x" using assms(1) by (auto split: if_splits)
  then show ?thesis using x(2) by simp
qed

lemma forwards_closer:
  assumes "converged db" and "(a, b) \<in> forwards db dest"
  shows "\<exists>c. least_walk (link (db dest)) a dest c \<and> c < COST_INF
    \<and> (b = dest \<or> (\<exists>d < c. least_walk (link (db dest)) b dest d \<and> b \<in> Domain (forwards db dest)))"
proof -
  obtain snap h adj where a: "a \<noteq> dest" "compute_routes (db a) a = Some snap" "h \<in> set (hops_to snap dest)"
    and least: "\<forall>h' \<in> set (hops_to snap dest). nh_cost h \<le> nh_cost h'"
    and adj: "adj \<in> set (own_adjacencies (db a) a)" "adj_face_uri adj = nh_face_uri h" "adj_name adj = b"
    using assms(2) by (auto simp: forwards_def)
  have db: "one_each (db x)" "set (db x) = set (db y)" "distinct (map adj_face_uri (own_adjacencies (db x) x))"
    "\<forall>l \<in> set (db x). \<forall>adj \<in> set (al_adjacencies l). 0 < adj_link_cost adj" for x y
    using assms(1) unfolding converged_def by blast+
  have same: "link (db x) = link (db y)" for x y using link_cong [OF db(1) db(1) db(2)] .
  let ?G = "link (db dest)"
  obtain adj' where adj': "adj' \<in> set (own_adjacencies (db a) a)" "hop_over ?G a dest h adj'"
    using compute_routes_spec [of "db a" a] a same [of a dest] by auto
  then have "adj' = adj" using adj db(3) [of a] by (simp add: hop_over_def distinct_map inj_on_def)
  then have via: "least_via ?G a b dest (nh_cost h)" and inf: "nh_cost h < COST_INF"
    using adj' adj(3) by (auto simp: hop_over_def)
  have c: "least_walk ?G a dest (nh_cost h)"
    using best_route [OF db(1) a(2) a(1) [symmetric] inf] a(3) least same [of a dest] by auto
  obtain w c' where w: "?G a b = Some w" "walk (without a ?G) b dest c'" "nh_cost h = w + c'"
    using via by (auto simp: least_via_def least_walk_def)
  have "\<exists>d < nh_cost h. least_walk ?G b dest d \<and> b \<in> Domain (forwards db dest)" if b: "b \<noteq> dest"
  proof -
    have w0: "0 < w" using link_positive [OF db(4) w(1)] .
    have bd: "walk ?G b dest c'" using walk_without [OF w(2)] .
    obtain snap' where snap': "compute_routes (db b) b = Some snap'"
      using compute_routes_spec [of "db b" b] by blast
    have lt: "c' < COST_INF" using w(3) w0 inf by linarith
    obtain h' where h': "h' \<in> set (hops_to snap' dest)" "nh_cost h' \<le> c'"
      "\<forall>h'' \<in> set (hops_to snap' dest). nh_cost h' \<le> nh_cost h''" "least_walk ?G b dest (nh_cost h')"
      using best_exists [OF db(1) snap' b [symmetric] _ lt] bd same [of b dest] by auto
    obtain adj'' where "adj'' \<in> set (own_adjacencies (db b) b)" "adj_face_uri adj'' = nh_face_uri h'"
      using compute_routes_spec [of "db b" b] snap' b h'(1) by (auto simp: hop_over_def)
    then have "(b, adj_name adj'') \<in> forwards db dest"
      using b snap' h'(1,3) by (auto simp: forwards_def)
    then show ?thesis using h'(2,4) w(3) w0 by (intro exI [of _ "nh_cost h'"]) auto
  qed
  then show ?thesis using c inf by blast
qed

text \<open>In a converged network forwarding is free of loops and never stops short.\<close>

lemma converged_loop_free:
  assumes "converged db"
  shows "acyclic (forwards db dest) \<and> Range (forwards db dest) \<subseteq> insert dest (Domain (forwards db dest))"
proof -
  let ?G = "link (db dest)"
  have "\<exists>c. least_walk ?G a dest c \<and> a \<noteq> dest \<and> (b = dest \<or> (\<exists>d < c. least_walk ?G b dest d))"
    if "(a, b) \<in> (forwards db dest)\<^sup>+" for a b
    using that
  proof (induction rule: trancl.induct)
    case (r_into_trancl a b)
    then show ?case using forwards_closer [OF assms r_into_trancl] by (auto simp: forwards_def)
  next
    case (trancl_into_trancl a b e)
    have "b \<noteq> dest" using trancl_into_trancl.hyps(2) by (auto simp: forwards_def)
    then show ?case
      using trancl_into_trancl.IH forwards_closer [OF assms trancl_into_trancl.hyps(2)]
      by (metis least_walk_unique order_less_trans)
  qed
  then have "acyclic (forwards db dest)"
    unfolding acyclic_def using least_walk_unique by (metis less_irrefl)
  then show ?thesis using forwards_closer [OF assms] by blast
qed

lemma triangle_own:
  "own_adjacencies triangle a = (if a = 0 then map (\<lambda>(b, face, c). \<lparr>adj_name = b, adj_face_uri = face, adj_link_cost = c\<rparr>) [(1, ''b'', 5), (2, ''c'', 10)]
     else if a = 1 then map (\<lambda>(b, face, c). \<lparr>adj_name = b, adj_face_uri = face, adj_link_cost = c\<rparr>) [(0, ''a'', 5), (2, ''c'', 17)]
     else if a = 2 then map (\<lambda>(b, face, c). \<lparr>adj_name = b, adj_face_uri = face, adj_link_cost = c\<rparr>) [(0, ''a'', 10), (1, ''b'', 17)]
     else [])"
  by (simp add: own_adjacencies_def triangle_def)

lemma triangle_converged: "converged (\<lambda>_. triangle)"
proof -
  have "distinct (map adj_face_uri (own_adjacencies triangle a))" for a by (simp add: triangle_own)
  moreover have "\<forall>l \<in> set triangle. \<forall>adj \<in> set (al_adjacencies l). 0 < adj_link_cost adj"
    by (simp add: triangle_def)
  ultimately show ?thesis using triangle_one_each by (simp add: converged_def)
qed

lemma triangle_forwards: "(0, 1) \<in> forwards (\<lambda>_. triangle) 1"
proof -
  obtain snap where snap: "compute_routes triangle 0 = Some snap"
    and hops: "\<And>h. h \<in> set (hops_to snap 1)
      \<longleftrightarrow> (\<exists>adj \<in> set (own_adjacencies triangle 0). hop_over (link triangle) 0 1 h adj)"
    using compute_routes_spec [of triangle 0] by auto
  obtain h where h: "h \<in> set (hops_to snap 1)" "nh_cost h = 5"
    and least: "\<forall>h' \<in> set (hops_to snap 1). nh_cost h \<le> nh_cost h'"
    using best_route [OF triangle_one_each snap, of 1 5] triangle_distance by (auto simp: COST_INF_def)
  obtain adj where adj: "adj \<in> set (own_adjacencies triangle 0)" "hop_over (link triangle) 0 1 h adj"
    using h(1) hops by blast
  have "adj_name adj \<noteq> 2"
  proof
    assume "adj_name adj = 2"
    then obtain c' where "walk (without 0 (link triangle)) 2 1 c'" "5 = 10 + c'"
      using adj(2) h(2) triangle_links(2) by (auto simp: hop_over_def least_via_def least_walk_def)
    then show False using walk_nonneg without_nonneg link_nonneg by fastforce
  qed
  then have "adj_name adj = 1" using adj(1) by (auto simp: triangle_own)
  moreover have "adj_face_uri adj = nh_face_uri h" using adj(2) by (simp add: hop_over_def)
  ultimately show ?thesis
    using snap h(1) least adj(1) unfolding forwards_def mem_Collect_eq prod.case by (metis zero_neq_one)
qed

end
