(* ===== verification/Nlsr_Network.thy ===== *)
theory Nlsr_Network
  imports Nlsr_Lsdb Nlsr_Paths
begin

text \<open>
  The database and the route computation together: what a database holds after LSAs arrived in
  some order, and forwarding in a network whose routers received the same LSAs.
\<close>

section \<open>Arrivals\<close>

text \<open>An arrival: the two clocks and the LSA.\<close>

type_synonym 'n arrival = "u64 \<times> nat \<times> 'n lsa"

primrec install_all :: "'n arrival list \<Rightarrow> 'n lsdb \<Rightarrow> 'n lsdb" where
  "install_all [] db = db"
| "install_all (x # xs) db = (case x of (now_sys, now, lsa) \<Rightarrow>
     install_all xs (snd (snd (lsdb_install now_sys now lsa db))))"

definition valid_lsas :: "'n arrival list \<Rightarrow> 'n lsa set" where
  "valid_lsas xs = {l. \<exists>now_sys now. (now_sys, now, l) \<in> set xs \<and> now_sys < expiration_ms l}"

definition newest :: "'n lsa set \<Rightarrow> 'n lsa_key \<Rightarrow> 'n lsa option \<Rightarrow> bool" where
  "newest S k r = (case r of
     None \<Rightarrow> \<forall>l \<in> S. lsa_key l \<noteq> k
   | Some l \<Rightarrow> l \<in> S \<and> lsa_key l = k \<and> (\<forall>l' \<in> S. lsa_key l' = k \<longrightarrow> seq_no l' \<le> seq_no l))"

lemma valid_lsas_Cons:
  "valid_lsas ((now_sys, now, l) # xs) = (if now_sys < expiration_ms l then insert l (valid_lsas xs) else valid_lsas xs)"
  by (auto simp: valid_lsas_def)

lemma install_newest:
  assumes "lsdb_ok db" and "newest S k (map_option le_lsa (map_of (db_store db) k))"
    and "lsdb_install now_sys now l db = (r, evs, db')"
  shows "newest (if now_sys < expiration_ms l then insert l S else S) k (map_option le_lsa (map_of (db_store db') k))"
proof (cases "now_sys < expiration_ms l \<and> lsa_key l = k")
  case True
  then have "r = Newer \<longleftrightarrow> (case map_of (db_store db) k of None \<Rightarrow> True | Some e \<Rightarrow> seq_no (le_lsa e) < seq_no l)"
    using assms(3) by (auto simp: lsdb_install_def Let_def split: option.splits if_splits)
  then show ?thesis
    using True assms(2) install_store(1) [OF assms(1,3), of k]
    by (cases "map_of (db_store db) k") (auto simp: newest_def not_less)
next
  case False
  have "r \<noteq> Newer" if "\<not> now_sys < expiration_ms l"
    using that assms(3) by (auto simp: lsdb_install_def not_less)
  then have "map_of (db_store db') k = map_of (db_store db) k"
    using False install_store(1) [OF assms(1,3), of k] by auto
  then show ?thesis using False assms(2) by (auto simp: newest_def split: option.splits)
qed

lemma install_all_newest:
  assumes "lsdb_ok db" and "newest S k (map_option le_lsa (map_of (db_store db) k))"
  shows "newest (valid_lsas xs \<union> S) k (map_option le_lsa (map_of (db_store (install_all xs db)) k))
    \<and> lsdb_ok (install_all xs db)"
  using assms
proof (induction xs arbitrary: db S)
  case (Cons x xs)
  obtain now_sys now l where x: "x = (now_sys, now, l)" by (cases x) auto
  obtain r evs db' where i: "lsdb_install now_sys now l db = (r, evs, db')" by (metis prod_cases3)
  have "valid_lsas (x # xs) \<union> S = valid_lsas xs \<union> (if now_sys < expiration_ms l then insert l S else S)"
    by (simp add: x valid_lsas_Cons)
  then show ?case
    using Cons.IH [OF install_store(2) [OF Cons.prems(1) i] install_newest [OF Cons.prems i]] by (simp add: x i)
qed (simp add: valid_lsas_def)

lemma newest_start: "newest {} k (map_option le_lsa (map_of (db_store (lsdb_new own)) k))"
  by (simp add: newest_def lsdb_new_def)

lemma lookup_install_all:
  "newest (valid_lsas xs) (origin, t) (lsdb_lookup origin t (install_all xs (lsdb_new own)))"
  using install_all_newest [OF lsdb_ok_new newest_start, where xs = xs and own1 = own and k = "(origin, t)"]
  by (simp add: lsdb_lookup_def)

lemma install_all_ok: "lsdb_ok (install_all xs (lsdb_new own))"
  using install_all_newest [OF lsdb_ok_new newest_start, where xs = xs and own1 = own] by blast

text \<open>
  After any arrivals the database holds, for every router and type, an LSA with the highest
  sequence number among those that had not expired when they arrived, and none when there was
  none.
\<close>

theorem lsdb_holds_newest:
  "newest (valid_lsas xs) (origin, t) (lsdb_lookup origin t (install_all xs (lsdb_new own)))"
  by (rule lookup_install_all)

section \<open>Networks\<close>

text \<open>A sequence number names one LSA of a router and type.\<close>

definition identified :: "'n lsa set \<Rightarrow> bool" where
  "identified S \<longleftrightarrow> (\<forall>l \<in> S. \<forall>l' \<in> S. lsa_key l = lsa_key l' \<and> seq_no l = seq_no l' \<longrightarrow> l = l')"

lemma newest_unique:
  assumes "identified S" and "newest S k r" and "newest S k r'" shows "r = r'"
proof (cases r)
  case None
  then show ?thesis using assms by (cases r') (auto simp: newest_def)
next
  case (Some l)
  then obtain l' where l': "r' = Some l'" using assms by (cases r') (auto simp: newest_def)
  then have "seq_no l = seq_no l'" using Some assms by (intro order.antisym) (auto simp: newest_def)
  then show ?thesis using Some l' assms by (auto simp: newest_def identified_def)
qed

lemma lookup_same:
  assumes "identified (valid_lsas xs)" and "valid_lsas xs = valid_lsas ys"
  shows "lsdb_lookup origin t (install_all xs (lsdb_new a)) = lsdb_lookup origin t (install_all ys (lsdb_new b))"
  using newest_unique [OF assms(1)] lookup_install_all [of xs] lookup_install_all [of ys] assms(2) by metis

lemma adjacency_lsas_iff:
  assumes "lsdb_ok db"
  shows "a \<in> set (adjacency_lsas db) \<longleftrightarrow> lsdb_lookup (al_origin_router a) AdjacencyType db = Some (Adjacency a)"
proof -
  have hm: "hm_ok (db_store db)" and keys: "\<And>k e. map_of (db_store db) k = Some e \<Longrightarrow> k = lsa_key (le_lsa e)"
    using assms by (auto simp: lsdb_ok_iff)
  have mem: "a \<in> set (adjacency_lsas db) \<longleftrightarrow> (\<exists>o' e. ((o', AdjacencyType), e) \<in> set (db_store db) \<and> le_lsa e = Adjacency a)"
    by (force simp: adjacency_lsas_def iter_by_type_def map_filter_def split: lsa.splits)
  show ?thesis
  proof
    assume "a \<in> set (adjacency_lsas db)"
    then obtain o' e where "map_of (db_store db) (o', AdjacencyType) = Some e" "le_lsa e = Adjacency a"
      using mem hm.mem_iff [OF hm] by blast
    then show "lsdb_lookup (al_origin_router a) AdjacencyType db = Some (Adjacency a)"
      using keys by (fastforce simp: lsa_key_def lsdb_lookup_def)
  next
    assume "lsdb_lookup (al_origin_router a) AdjacencyType db = Some (Adjacency a)"
    then show "a \<in> set (adjacency_lsas db)"
      using mem hm.mem_iff [OF hm] by (fastforce simp: lsdb_lookup_def)
  qed
qed

lemma adjacency_origins:
  assumes "\<forall>(k, e) \<in> set store. k = lsa_key (le_lsa e)"
  shows "map al_origin_router (adjacency_lsas \<lparr>db_store = store, db_own_router = own\<rparr>)
    = map (fst \<circ> fst) (filter (\<lambda>((_, t), _). t = AdjacencyType) store)"
  using assms
proof (induction store)
  case (Cons x store)
  obtain k e where x: "x = (k, e)" by (cases x)
  then show ?case using Cons
    by (cases "le_lsa e") (auto simp: adjacency_lsas_def iter_by_type_def map_filter_simps lsa_key_def)
qed (simp add: adjacency_lsas_def iter_by_type_def map_filter_simps)

lemma adjacency_lsas_one_each:
  assumes "lsdb_ok db" shows "one_each (adjacency_lsas db)"
proof -
  obtain store own where db: "db = \<lparr>db_store = store, db_own_router = own\<rparr>" by (cases db)
  let ?store = "filter (\<lambda>((_, t), _). t = AdjacencyType) store"
  have "distinct (map fst store)" and keys: "\<forall>(k, e) \<in> set store. k = lsa_key (le_lsa e)"
    using assms by (auto simp: db lsdb_ok_def hm_ok_def)
  then have "distinct (map fst ?store)" by (simp add: distinct_map_filter)
  moreover have "inj_on fst (set (map fst ?store))" by (auto simp: inj_on_def)
  ultimately have "distinct (map fst (map fst ?store))" unfolding distinct_map [of fst "map fst ?store"] by blast
  then show ?thesis using adjacency_origins [OF keys] by (simp add: db)
qed

text \<open>
  A network of routers, \<open>arrived r\<close> being what came in at router \<open>r\<close>: the same unexpired LSAs
  everywhere, in any order and with any repetitions, a sequence number naming one LSA, a
  face of its own for every adjacency of a router, and links that cost something.
\<close>

definition same_news :: "('n \<Rightarrow> 'n arrival list) \<Rightarrow> bool" where
  "same_news arrived \<longleftrightarrow> (\<forall>a b. valid_lsas (arrived a) = valid_lsas (arrived b))
     \<and> (\<forall>a. identified (valid_lsas (arrived a))
          \<and> (\<forall>l. Adjacency l \<in> valid_lsas (arrived a) \<longrightarrow> distinct (map adj_face_uri (al_adjacencies l))
               \<and> (\<forall>adj \<in> set (al_adjacencies l). 0 < adj_link_cost adj)))"

definition network_db :: "('n \<Rightarrow> 'n arrival list) \<Rightarrow> 'n \<Rightarrow> 'n adjacency_lsa list" where
  "network_db arrived r = adjacency_lsas (install_all (arrived r) (lsdb_new r))"

lemma network_converged:
  assumes "same_news arrived" shows "converged (network_db arrived)"
proof -
  let ?db = "network_db arrived"
  have one: "one_each (?db a)" for a
    unfolding network_db_def by (rule adjacency_lsas_one_each [OF install_all_ok])
  have mem: "l \<in> set (?db a) \<longleftrightarrow> lsdb_lookup (al_origin_router l) AdjacencyType (install_all (arrived a) (lsdb_new a))
      = Some (Adjacency l)" for l a
    unfolding network_db_def by (rule adjacency_lsas_iff [OF install_all_ok])
  have valid: "Adjacency l \<in> valid_lsas (arrived a)" if "l \<in> set (?db a)" for l a
    using lookup_install_all [of "arrived a" "al_origin_router l" AdjacencyType a] that by (simp add: mem newest_def)
  have "set (?db a) = set (?db b)" for a b
  proof -
    have "lsdb_lookup o' AdjacencyType (install_all (arrived a) (lsdb_new a))
        = lsdb_lookup o' AdjacencyType (install_all (arrived b) (lsdb_new b))" for o'
      using assms by (intro lookup_same) (auto simp: same_news_def)
    then show ?thesis by (auto simp: mem)
  qed
  moreover have "distinct (map adj_face_uri (own_adjacencies (?db a) a))" for a
  proof (cases "\<exists>l \<in> set (?db a). al_origin_router l = a")
    case True
    then obtain l where "l \<in> set (?db a)" "own_adjacencies (?db a) a = al_adjacencies l"
      using own_adjacencies_mem [OF one] by metis
    then show ?thesis using valid [of l a] assms by (simp add: same_news_def)
  next
    case False
    then show ?thesis using own_adjacencies_none [of "?db a" a] by simp
  qed
  moreover have "0 < adj_link_cost adj" if "l \<in> set (?db a)" "adj \<in> set (al_adjacencies l)" for a l adj
    using valid [OF that(1)] that(2) assms by (auto simp: same_news_def)
  ultimately show ?thesis using one unfolding converged_def by blast
qed


definition triangle_arrived :: "nat \<Rightarrow> nat arrival list" where
  "triangle_arrived r = map (\<lambda>l. (0, 0, Adjacency l)) (if r = 0 then triangle else rev triangle)"

lemma valid_adjacencies:
  "valid_lsas (map (\<lambda>l. (now_sys, now, Adjacency l)) ls) = Adjacency ` {l \<in> set ls. now_sys < al_expiration_ms l}"
proof -
  have "(s, t, l) \<in> set (map (\<lambda>l. (now_sys, now, Adjacency l)) ls)
      \<longleftrightarrow> s = now_sys \<and> t = now \<and> (\<exists>a \<in> set ls. l = Adjacency a)" for s t l by auto
  then show ?thesis unfolding valid_lsas_def by auto
qed

lemma triangle_valid: "valid_lsas (triangle_arrived r) = Adjacency ` set triangle"
proof -
  have "{l \<in> set triangle. (0 :: u64) < al_expiration_ms l} = set triangle" by (auto simp: triangle_def)
  then show ?thesis by (simp add: triangle_arrived_def valid_adjacencies)
qed

lemma triangle_news: "same_news triangle_arrived"
proof -
  have "\<forall>l \<in> set triangle. \<forall>l' \<in> set triangle. al_origin_router l = al_origin_router l' \<longrightarrow> l = l'"
    by (simp add: triangle_def)
  then have "identified (Adjacency ` set triangle)" by (auto simp: identified_def lsa_key_def)
  moreover have "\<forall>l \<in> set triangle. distinct (map adj_face_uri (al_adjacencies l))
      \<and> (\<forall>adj \<in> set (al_adjacencies l). 0 < adj_link_cost adj)"
    by (simp add: triangle_def)
  ultimately show ?thesis unfolding same_news_def triangle_valid by blast
qed


end
