(* ===== verification/Nlsr_Names.thy ===== *)
theory Nlsr_Names
  imports Nlsr_Network
begin

text \<open>
  The name prefix table of NLSR (\<open>name_prefix_table.rs\<close>), fed by the events of the database: the
  table follows the database as long as no router changes its prefixes, and no longer.
\<close>

section \<open>The table\<close>

text \<open>Hash sets are lists without repetitions.\<close>

definition hs_insert :: "'a \<Rightarrow> 'a list \<Rightarrow> 'a list" where
  "hs_insert x xs = (if x \<in> set xs then xs else xs @ [x])"

record 'n name_prefix_table =
  npt_entries :: "('n \<times> 'n list) list"
  npt_router_pool :: "('n \<times> 'n routing_table_entry) list"

definition npt_new :: "'n name_prefix_table" where
  "npt_new = \<lparr>npt_entries = [], npt_router_pool = []\<rparr>"

definition add_prefix :: "'n \<Rightarrow> 'n \<Rightarrow> 'n name_prefix_table \<Rightarrow> 'n name_prefix_table" where
  "add_prefix prefix dest_router npt =
     npt\<lparr>npt_entries := hm_insert prefix
       (hs_insert dest_router (case map_of (npt_entries npt) prefix of Some rs \<Rightarrow> rs | None \<Rightarrow> []))
       (npt_entries npt)\<rparr>"

definition remove_prefix :: "'n \<Rightarrow> 'n \<Rightarrow> 'n name_prefix_table \<Rightarrow> 'n name_prefix_table" where
  "remove_prefix prefix dest_router npt = (case map_of (npt_entries npt) prefix of
     None \<Rightarrow> npt
   | Some rs \<Rightarrow>
       let rs = filter (\<lambda>r. r \<noteq> dest_router) rs
       in npt\<lparr>npt_entries := (if rs = [] then map_delete prefix (npt_entries npt)
            else hm_insert prefix rs (npt_entries npt))\<rparr>)"

definition update_from_lsdb ::
    "'n lsdb_event \<Rightarrow> 'n \<Rightarrow> 'n name_prefix_table \<Rightarrow> 'n name_prefix_table" where
  "update_from_lsdb event own_router npt = (case ev_lsa event of
     Name name_lsa \<Rightarrow>
       let router = nl_origin_router name_lsa in
       if router = own_router then npt
       else (case ev_update event of
           Installed \<Rightarrow>
             let npt = add_prefix router router npt;
                 npt = fold (\<lambda>p. add_prefix (pi_name p) router) (nl_prefixes name_lsa) npt
             in if map_contains router (npt_router_pool npt) then npt
                else npt\<lparr>npt_router_pool := hm_insert router
                  \<lparr>rte_dest_router = router, rte_nexthops = []\<rparr> (npt_router_pool npt)\<rparr>
         | Updated \<Rightarrow>
             let npt = fold (\<lambda>p. add_prefix p router) (ev_prefixes_added event) npt
             in fold (\<lambda>p. remove_prefix p router) (ev_prefixes_removed event) npt
         | Removed \<Rightarrow>
             let npt = remove_prefix router router npt;
                 npt = fold (\<lambda>p. remove_prefix (pi_name p) router) (nl_prefixes name_lsa) npt
             in npt\<lparr>npt_router_pool := map_delete router (npt_router_pool npt)\<rparr>)
   | _ \<Rightarrow> npt)"

definition update_with_new_route :: "'n routing_snapshot \<Rightarrow> 'n name_prefix_table \<Rightarrow> 'n name_prefix_table" where
  "update_with_new_route snap npt = npt\<lparr>npt_router_pool :=
     map (\<lambda>(router, e). (router, e\<lparr>rte_nexthops :=
       (case snapshot_get snap router of Some r \<Rightarrow> rte_nexthops r | None \<Rightarrow> [])\<rparr>)) (npt_router_pool npt)\<rparr>"

definition nexthops_for_prefix :: "'n \<Rightarrow> 'n name_prefix_table \<Rightarrow> next_hop list" where
  "nexthops_for_prefix prefix npt = (case map_of (npt_entries npt) prefix of
     None \<Rightarrow> []
   | Some rs \<Rightarrow> concat (map (\<lambda>router. case map_of (npt_router_pool npt) router of
       Some e \<Rightarrow> rte_nexthops e | None \<Rightarrow> []) rs))"

definition npt_snapshot :: "'n name_prefix_table \<Rightarrow> ('n \<times> next_hop list) list" where
  "npt_snapshot npt = map (\<lambda>(prefix, _). (prefix, nexthops_for_prefix prefix npt)) (npt_entries npt)"

section \<open>What the table says\<close>

definition routed_to :: "'n name_prefix_table \<Rightarrow> 'n \<Rightarrow> 'n \<Rightarrow> bool" where
  "routed_to npt prefix router \<longleftrightarrow> (\<exists>rs. map_of (npt_entries npt) prefix = Some rs \<and> router \<in> set rs)"

lemma routed_to_pool [simp]: "routed_to (npt\<lparr>npt_router_pool := x\<rparr>) p r \<longleftrightarrow> routed_to npt p r"
  by (simp add: routed_to_def)

abbreviation entries_ok :: "'n name_prefix_table \<Rightarrow> bool" where
  "entries_ok npt \<equiv> hm_ok (npt_entries npt)"

lemma add_prefix_spec:
  assumes "entries_ok npt"
  shows "entries_ok (add_prefix p r npt)"
    and "routed_to (add_prefix p r npt) p' r' \<longleftrightarrow> routed_to npt p' r' \<or> p' = p \<and> r' = r"
  using assms by (cases "map_of (npt_entries npt) p";
      auto simp: add_prefix_def routed_to_def hs_insert_def hm.ok_insert hm.get_insert)+

lemma remove_prefix_spec:
  assumes "entries_ok npt"
  shows "entries_ok (remove_prefix p r npt)"
    and "routed_to (remove_prefix p r npt) p' r' \<longleftrightarrow> routed_to npt p' r' \<and> \<not> (p' = p \<and> r' = r)"
  using assms by (cases "map_of (npt_entries npt) p";
      auto simp: remove_prefix_def routed_to_def Let_def hm.ok_insert hm.ok_remove hm.get_insert
        hm.get_remove filter_empty_conv)+

lemma add_all_spec:
  assumes "entries_ok npt"
  shows "entries_ok (fold (\<lambda>p. add_prefix (f p) r) ps npt) \<and> (routed_to (fold (\<lambda>p. add_prefix (f p) r) ps npt) p' r'
    \<longleftrightarrow> routed_to npt p' r' \<or> p' \<in> f ` set ps \<and> r' = r)"
  using assms by (induction ps arbitrary: npt) (auto simp: add_prefix_spec)

lemma remove_all_spec:
  assumes "entries_ok npt"
  shows "entries_ok (fold (\<lambda>p. remove_prefix (f p) r) ps npt) \<and> (routed_to (fold (\<lambda>p. remove_prefix (f p) r) ps npt) p' r'
    \<longleftrightarrow> routed_to npt p' r' \<and> \<not> (p' \<in> f ` set ps \<and> r' = r))"
  using assms by (induction ps arbitrary: npt) (auto simp: remove_prefix_spec)

text \<open>The prefixes a name LSA stands for: those it lists and the router's own name.\<close>

definition announced_in :: "'n name_lsa \<Rightarrow> 'n set" where
  "announced_in l = insert (nl_origin_router l) (pi_name ` set (nl_prefixes l))"

lemma update_installed:
  assumes "entries_ok npt" and "nl_origin_router l \<noteq> own"
  shows "entries_ok (update_from_lsdb (plain_event Installed (Name l)) own npt)"
    and "routed_to (update_from_lsdb (plain_event Installed (Name l)) own npt) p r
      \<longleftrightarrow> routed_to npt p r \<or> p \<in> announced_in l \<and> r = nl_origin_router l"
  using assms add_all_spec [OF add_prefix_spec(1) [OF assms(1), of "nl_origin_router l" "nl_origin_router l"],
      where f = pi_name and r = "nl_origin_router l" and ps = "nl_prefixes l"]
  by (auto simp: update_from_lsdb_def plain_event_def Let_def announced_in_def add_prefix_spec)

lemma update_removed:
  assumes "entries_ok npt" and "nl_origin_router l \<noteq> own"
  shows "entries_ok (update_from_lsdb (plain_event Removed (Name l)) own npt)"
    and "routed_to (update_from_lsdb (plain_event Removed (Name l)) own npt) p r
      \<longleftrightarrow> routed_to npt p r \<and> \<not> (p \<in> announced_in l \<and> r = nl_origin_router l)"
  using assms remove_all_spec [OF remove_prefix_spec(1) [OF assms(1), of "nl_origin_router l" "nl_origin_router l"],
      where f = pi_name and r = "nl_origin_router l" and ps = "nl_prefixes l"]
  by (auto simp: update_from_lsdb_def plain_event_def Let_def announced_in_def remove_prefix_spec)

section \<open>The table behind the database\<close>

datatype 'n lsdb_op =
  Install u64 nat "'n lsa"
| Withdraw "'n lsa_key"
| Tick nat

fun lsdb_apply :: "'n lsdb_op \<Rightarrow> 'n lsdb \<Rightarrow> 'n lsdb_event list \<times> 'n lsdb" where
  "lsdb_apply (Install now_sys now lsa) db = snd (lsdb_install now_sys now lsa db)"
| "lsdb_apply (Withdraw key) db = snd (lsdb_remove key db)"
| "lsdb_apply (Tick now) db = age_out_tick now db"

text \<open>The recompute task hands every event to the table.\<close>

definition npt_step :: "'n \<Rightarrow> 'n lsdb_op \<Rightarrow> 'n lsdb \<times> 'n name_prefix_table \<Rightarrow> 'n lsdb \<times> 'n name_prefix_table" where
  "npt_step own op = (\<lambda>(db, npt). let (evs, db) = lsdb_apply op db
     in (db, fold (\<lambda>ev. update_from_lsdb ev own) evs npt))"

definition npt_run :: "'n \<Rightarrow> 'n lsdb_op list \<Rightarrow> 'n lsdb \<times> 'n name_prefix_table" where
  "npt_run own ops = fold (npt_step own) ops (lsdb_new own, npt_new)"

definition mirrors :: "'n \<Rightarrow> 'n lsdb \<Rightarrow> 'n name_prefix_table \<Rightarrow> bool" where
  "mirrors own db npt \<longleftrightarrow> entries_ok npt \<and> (\<forall>p r. routed_to npt p r
     \<longleftrightarrow> r \<noteq> own \<and> (\<exists>l. lsdb_lookup r NameType db = Some (Name l) \<and> p \<in> announced_in l))"

lemma update_other:
  "(\<forall>l. ev_lsa ev = Name l \<longrightarrow> nl_origin_router l = own) \<Longrightarrow> update_from_lsdb ev own npt = npt"
  by (auto simp: update_from_lsdb_def Let_def split: lsa.splits)

lemma update_updated: "update_from_lsdb (plain_event Updated l) own npt = npt"
  by (auto simp: update_from_lsdb_def plain_event_def Let_def split: lsa.splits)

lemma mirrors_removed:
  assumes "lsdb_ok db" and "mirrors own db npt" and "map_of (db_store db) k = Some e"
  shows "mirrors own (db\<lparr>db_store := map_delete k (db_store db)\<rparr>)
    (update_from_lsdb (plain_event Removed (le_lsa e)) own npt)"
proof -
  define db' where "db' = db\<lparr>db_store := map_delete k (db_store db)\<rparr>"
  have k: "k = lsa_key (le_lsa e)" using assms(1,3) by (cases k) (auto simp: lsdb_ok_iff)
  have look: "lsdb_lookup r t db' = (if (r, t) = k then None else lsdb_lookup r t db)" for r t
    by (simp add: db'_def lsdb_lookup_def map_of_delete)
  have "mirrors own db' (update_from_lsdb (plain_event Removed (le_lsa e)) own npt)"
  proof (cases "\<exists>l. le_lsa e = Name l \<and> nl_origin_router l \<noteq> own")
    case True
    then obtain l where l: "le_lsa e = Name l" "nl_origin_router l \<noteq> own" by blast
    have ok: "entries_ok npt" using assms(2) by (simp add: mirrors_def)
    have "lsdb_lookup (nl_origin_router l) NameType db = Some (Name l)"
      using assms(3) k l by (simp add: lsdb_lookup_def lsa_key_def)
    then show ?thesis
      using assms(2) update_removed [OF ok l(2)] k l by (auto simp: mirrors_def look lsa_key_def)
  next
    case False
    then have "update_from_lsdb (plain_event Removed (le_lsa e)) own npt = npt"
      by (intro update_other) (simp add: plain_event_def)
    moreover have "(r, NameType) \<noteq> k" if "r \<noteq> own" for r
      using False that k by (cases "le_lsa e") (auto simp: lsa_key_def)
    ultimately show ?thesis using assms(2) by (auto simp: mirrors_def look)
  qed
  then show ?thesis by (simp add: db'_def)
qed

lemma lsdb_ok_delete: "lsdb_ok db \<Longrightarrow> lsdb_ok (db\<lparr>db_store := map_delete k (db_store db)\<rparr>)"
  by (auto simp: lsdb_ok_iff hm.ok_remove map_of_delete split: if_splits)

lemma mirrors_expired:
  assumes "lsdb_ok db" and "mirrors own db npt" and "\<forall>(k, e) \<in> set due. map_of (db_store db) k = Some e"
    and "distinct (map fst due)"
  shows "mirrors own (db\<lparr>db_store := fold (\<lambda>(k, _). map_delete k) due (db_store db)\<rparr>)
      (fold (\<lambda>ev. update_from_lsdb ev own) (map (\<lambda>(_, e). plain_event Removed (le_lsa e)) due) npt)
    \<and> lsdb_ok (db\<lparr>db_store := fold (\<lambda>(k, _). map_delete k) due (db_store db)\<rparr>)"
  using assms
proof (induction due arbitrary: db npt)
  case (Cons d due)
  obtain k e where d: "d = (k, e)" by (cases d)
  let ?db = "db\<lparr>db_store := map_delete k (db_store db)\<rparr>"
  have "map_of (db_store db) k = Some e" using Cons.prems(3) by (simp add: d)
  note one = mirrors_removed [OF Cons.prems(1,2) this]
  have "\<forall>(k', e') \<in> set due. map_of (db_store ?db) k' = Some e'"
    using Cons.prems(3,4) by (force simp: d map_of_delete)
  then show ?case using Cons.IH [OF lsdb_ok_delete [OF Cons.prems(1)] one] Cons.prems(4) by (simp add: d)
qed simp

lemma lookup_install:
  assumes "lsdb_ok db" and "lsdb_install now_sys now lsa db = (r, evs, db')"
  shows "lsdb_lookup o' t db' = (if (o', t) = lsa_key lsa \<and> r = Newer then Some lsa else lsdb_lookup o' t db)"
  using install_store(1) [OF assms, of "(o', t)"] by (simp add: lsdb_lookup_def)

lemma mirrors_install:
  assumes "lsdb_ok db" and "mirrors own db npt" and "lsdb_install now_sys now lsa db = (r, evs, db')"
    and "\<And>l l'. lsa = Name l \<Longrightarrow> lsdb_lookup (nl_origin_router l) NameType db = Some (Name l')
      \<Longrightarrow> announced_in l = announced_in l'"
  shows "mirrors own db' (fold (\<lambda>ev. update_from_lsdb ev own) evs npt)"
proof (cases "r = Newer")
  case False
  then have "evs = []" "db' = db" using assms(3) by (auto simp: lsdb_install_def Let_def split: option.splits if_splits)
  then show ?thesis using assms(2) by simp
next
  case True
  note look = lookup_install [OF assms(1,3), unfolded True]
  show ?thesis
  proof (cases "map_of (db_store db) (lsa_key lsa)")
    case None
    then have evs: "evs = [plain_event Installed lsa]"
      using assms(3) True by (auto simp: lsdb_install_def Let_def split: if_splits)
    have ok: "entries_ok npt" using assms(2) by (simp add: mirrors_def)
    show ?thesis
    proof (cases "\<exists>l. lsa = Name l \<and> nl_origin_router l \<noteq> own")
      case True
      then obtain l where l: "lsa = Name l" "nl_origin_router l \<noteq> own" by blast
      have "lsdb_lookup (nl_origin_router l) NameType db = None" using None l by (simp add: lsdb_lookup_def lsa_key_def)
      then show ?thesis
        using assms(2) update_installed [OF ok l(2)] l by (auto simp: mirrors_def look lsa_key_def evs)
    next
      case False
      then have "update_from_lsdb (plain_event Installed lsa) own npt = npt"
        by (intro update_other) (simp add: plain_event_def)
      moreover have "(o', NameType) \<noteq> lsa_key lsa" if "o' \<noteq> own" for o'
        using False that by (cases lsa) (auto simp: lsa_key_def)
      ultimately show ?thesis using assms(2) by (auto simp: mirrors_def look evs)
    qed
  next
    case (Some e)
    then have evs: "evs = [plain_event Updated lsa]"
      using assms(3) True by (auto simp: lsdb_install_def Let_def split: if_splits)
    have "lsa_key (le_lsa e) = lsa_key lsa" using assms(1) Some by (cases "lsa_key lsa") (auto simp: lsdb_ok_iff)
    moreover have "lsdb_lookup (origin_router lsa) (lsa_type_of lsa) db = Some (le_lsa e)"
      using Some by (simp add: lsdb_lookup_def lsa_key_def)
    ultimately have same: "(\<exists>l. lsdb_lookup o' NameType db' = Some (Name l) \<and> p \<in> announced_in l)
        \<longleftrightarrow> (\<exists>l. lsdb_lookup o' NameType db = Some (Name l) \<and> p \<in> announced_in l)" for o' p
      using assms(4) by (cases lsa; cases "le_lsa e") (auto simp: look lsa_key_def)
    show ?thesis using assms(2) by (simp add: mirrors_def evs update_updated same)
  qed
qed

text \<open>Every name LSA of a router that comes in announces the same prefixes.\<close>

definition fixed_prefixes :: "'n lsdb_op list \<Rightarrow> bool" where
  "fixed_prefixes ops \<longleftrightarrow> (\<forall>l l'. (\<exists>s n. Install s n (Name l) \<in> set ops) \<and> (\<exists>s n. Install s n (Name l') \<in> set ops)
     \<and> nl_origin_router l = nl_origin_router l' \<longrightarrow> announced_in l = announced_in l')"

definition holds_from :: "'n lsdb_op list \<Rightarrow> 'n lsdb \<Rightarrow> bool" where
  "holds_from ops db \<longleftrightarrow> (\<forall>o' t l. lsdb_lookup o' t db = Some l \<longrightarrow> (\<exists>s n. Install s n l \<in> set ops))"

lemma npt_step_mirrors:
  assumes "lsdb_ok db" and "mirrors own db npt" and "holds_from ops db" and "fixed_prefixes ops"
    and "op \<in> set ops" and "npt_step own op (db, npt) = (db', npt')"
  shows "lsdb_ok db' \<and> mirrors own db' npt' \<and> holds_from ops db'"
proof (cases op)
  case (Install now_sys now lsa)
  obtain r evs db1 where i: "lsdb_install now_sys now lsa db = (r, evs, db1)" by (metis prod_cases3)
  have "announced_in l = announced_in l'" if "lsa = Name l" "lsdb_lookup (nl_origin_router l) NameType db = Some (Name l')" for l l'
  proof -
    have "lsa_key (Name l') = (nl_origin_router l, NameType)"
      using assms(1) that(2) by (fastforce simp: lsdb_lookup_def lsdb_ok_iff)
    then have "nl_origin_router l = nl_origin_router l'" by (simp add: lsa_key_def)
    moreover have "\<exists>s n. Install s n (Name l') \<in> set ops" "\<exists>s n. Install s n (Name l) \<in> set ops"
      using assms(3,5) that Install by (auto simp: holds_from_def)
    ultimately show ?thesis using assms(4) unfolding fixed_prefixes_def by blast
  qed
  from mirrors_install [OF assms(1,2) i this] show ?thesis
    using assms(3,5,6) Install i install_store(2) [OF assms(1) i] lookup_install [OF assms(1) i]
    by (auto simp: npt_step_def holds_from_def split: if_splits)
next
  case (Withdraw key)
  show ?thesis
  proof (cases "map_of (db_store db) key")
    case None
    then show ?thesis using assms Withdraw by (simp add: npt_step_def lsdb_remove_def)
  next
    case (Some e)
    have "holds_from ops (db\<lparr>db_store := map_delete key (db_store db)\<rparr>)"
      using assms(3) by (auto simp: holds_from_def lsdb_lookup_def map_of_delete)
    then show ?thesis
      using assms(6) Withdraw Some mirrors_removed [OF assms(1,2) Some] lsdb_ok_delete [OF assms(1), of key]
      by (auto simp: npt_step_def lsdb_remove_def)
  qed
next
  case (Tick now)
  let ?due = "filter (\<lambda>(_, e). le_expires_at e \<le> now) (db_store db)"
  have hm: "hm_ok (db_store db)" using assms(1) by (simp add: lsdb_ok_def)
  have "\<forall>(k, e) \<in> set ?due. map_of (db_store db) k = Some e" using hm.mem_iff [OF hm] by auto
  moreover have "distinct (map fst ?due)" using hm by (simp add: hm_ok_def distinct_map_filter)
  ultimately have m: "mirrors own (db\<lparr>db_store := fold (\<lambda>(k, _). map_delete k) ?due (db_store db)\<rparr>)
      (fold (\<lambda>ev. update_from_lsdb ev own) (map (\<lambda>(_, e). plain_event Removed (le_lsa e)) ?due) npt)
    \<and> lsdb_ok (db\<lparr>db_store := fold (\<lambda>(k, _). map_delete k) ?due (db_store db)\<rparr>)"
    by (rule mirrors_expired [OF assms(1,2)])
  have del: "map_of (fold (\<lambda>(k, _). map_delete k) xs st) k = Some e \<Longrightarrow> map_of st k = Some e" for xs st k and e :: "'a lsa_entry"
    by (induction xs arbitrary: st) (auto, metis map_of_delete fun_upd_apply option.distinct(1))
  have "db' = db\<lparr>db_store := fold (\<lambda>(k, _). map_delete k) ?due (db_store db)\<rparr>"
    "npt' = fold (\<lambda>ev. update_from_lsdb ev own) (map (\<lambda>(_, e). plain_event Removed (le_lsa e)) ?due) npt"
    using assms(6) by (auto simp: Tick npt_step_def age_out_tick_def expire_due_def Let_def comp_def case_prod_unfold)
  moreover from this(1) have "holds_from ops db'"
    using assms(3) by (fastforce simp: holds_from_def lsdb_lookup_def dest: del)
  ultimately show ?thesis using m by simp
qed

lemma names_follow_lsdb_aux:
  assumes "fixed_prefixes ops" and "npt_run own ops = (db, npt)"
  shows "routed_to npt p r \<longleftrightarrow>
    r \<noteq> own \<and> (\<exists>l. lsdb_lookup r NameType db = Some (Name l) \<and> p \<in> announced_in l)"
proof -
  have "lsdb_ok db1 \<and> mirrors own db1 npt1 \<and> holds_from ops db1"
    if "set done' \<subseteq> set ops" "fold (npt_step own) done' (lsdb_new own, npt_new) = (db1, npt1)" for done' db1 npt1
    using that
  proof (induction done' arbitrary: db1 npt1 rule: rev_induct)
    case Nil
    then show ?case
      by (auto simp: mirrors_def npt_new_def hm_ok_def routed_to_def lsdb_new_def lsdb_lookup_def holds_from_def lsdb_ok_def)
  next
    case (snoc op done')
    obtain db0 npt0 where mid: "fold (npt_step own) done' (lsdb_new own, npt_new) = (db0, npt0)" by force
    then have step: "npt_step own op (db0, npt0) = (db1, npt1)" using snoc.prems(2) by simp
    have ih: "lsdb_ok db0 \<and> mirrors own db0 npt0 \<and> holds_from ops db0" and op: "op \<in> set ops"
      using snoc.IH [OF _ mid] snoc.prems(1) by simp_all
    show ?case using npt_step_mirrors [OF _ _ _ assms(1) op step] ih by blast
  qed
  from this [of ops db npt] show ?thesis using assms(2) by (simp add: npt_run_def mirrors_def)
qed


definition announce :: "u64 \<Rightarrow> nat \<Rightarrow> nat name_lsa" where
  "announce seq prefix = \<lparr>nl_origin_router = 1, nl_seq_no = seq, nl_expiration_ms = 1000,
     nl_prefixes = [\<lparr>pi_name = prefix, pi_cost = 0\<rparr>]\<rparr>"


text \<open>
  A router that changes its prefixes is not followed: when its newer name LSA replaces the
  stored one, the event leaves the table as it was, whatever the LSA announces, so a new
  prefix gets no route and a withdrawn one keeps its routes.
\<close>

theorem prefix_change_ignored:
  assumes "lsdb_ok db" and "lsdb_lookup (nl_origin_router l) NameType db \<noteq> None"
    and "lsdb_install now_sys now (Name l) db = (Newer, evs, db')"
  shows "fold (\<lambda>ev. update_from_lsdb ev own) evs npt = npt
    \<and> lsdb_lookup (nl_origin_router l) NameType db' = Some (Name l)"
proof -
  obtain e where "map_of (db_store db) (lsa_key (Name l)) = Some e"
    using assms(2) by (auto simp: lsdb_lookup_def lsa_key_def)
  then have "evs = [plain_event Updated (Name l)]"
    using assms(3) by (auto simp: lsdb_install_def Let_def split: if_splits)
  then show ?thesis
    using lookup_install [OF assms(1,3)] by (simp add: update_updated lsa_key_def)
qed

theorem prefix_change_ignored_witness:
  "\<exists>db npt db'. npt_run 0 [Install 5 0 (Name (announce 1 10))] = (db, npt)
    \<and> npt_run 0 [Install 5 0 (Name (announce 1 10)), Install 6 1 (Name (announce 2 20))] = (db', npt)
    \<and> lsdb_lookup 1 NameType db' = Some (Name (announce 2 20)) \<and> routed_to npt 10 1 \<and> \<not> routed_to npt 20 1"
proof -
  let ?op1 = "Install 5 0 (Name (announce 1 10))" and ?op2 = "Install 6 1 (Name (announce 2 20))"
  obtain db npt where run: "npt_run 0 [?op1] = (db, npt)" by force
  have db: "db = \<lparr>db_store = [((1, NameType), \<lparr>le_lsa = Name (announce 1 10), le_expires_at = 995, le_lifetime = 995\<rparr>)],
      db_own_router = 0\<rparr>"
    using run by (auto simp: npt_run_def npt_step_def lsdb_new_def lsdb_install_def lsa_key_def announce_def hm_insert_def)
  have ok: "lsdb_ok db" and there: "lsdb_lookup (nl_origin_router (announce 2 20)) NameType db \<noteq> None"
    by (simp_all add: db lsdb_ok_def hm_ok_def lsa_key_def announce_def lsdb_lookup_def)
  obtain evs db' where i: "lsdb_install 6 1 (Name (announce 2 20)) db = (Newer, evs, db')"
    by (simp add: db lsdb_install_def lsa_key_def announce_def)
  note change = prefix_change_ignored [OF ok there i, of 0 npt]
  have fixed: "fixed_prefixes [?op1]" by (auto simp: fixed_prefixes_def)
  have "lsdb_lookup 1 NameType db = Some (Name (announce 1 10))" by (simp add: db lsdb_lookup_def)
  then have "routed_to npt 10 1 \<and> \<not> routed_to npt 20 1"
    using names_follow_lsdb_aux [OF fixed run] by (simp add: announced_in_def announce_def)
  moreover have "npt_run 0 [?op1, ?op2] = (db', npt)"
    using run change i by (simp add: npt_run_def npt_step_def)
  ultimately show ?thesis using run change by (auto simp: announce_def)
qed

end
