(* ===== verification/Fec.thy ===== *)
theory Fec
  imports Maps "HOL-Library.Monad_Syntax"
begin

text \<open>
  \<open>crates/streams/ndn-stream-session/src/fec.rs\<close>: repair groups of \<open>k\<close> source items and
  \<open>r\<close> parity items. The systematic erasure code itself is the package \<open>ndn_coding\<close>, outside
  the repository: it is the parameter \<open>codec\<close>, a record of its functions, and \<open>mds\<close> states
  what its documentation promises (any \<open>k\<close> of the \<open>n\<close> rows give the sources back).
\<close>

section \<open>The code outside the repository\<close>

text \<open>
  \<open>Encoder::new\<close>, \<open>feed\<close>, \<open>parity\<close> and \<open>Decoder::new\<close>, \<open>absorb\<close>, \<open>is_complete\<close>,
  \<open>recover\<close>; an \<open>Err\<close> is \<open>None\<close>. The result of \<open>absorb\<close> is ignored by the caller, so only
  the decoder after the call is returned.
\<close>

record ('e, 'd) fec_codec =
  cd_enc_new :: "u16 \<Rightarrow> u16 \<Rightarrow> 'e option"
  cd_feed :: "u8 list \<Rightarrow> 'e \<Rightarrow> 'e option"
  cd_parity :: "u16 \<Rightarrow> 'e \<Rightarrow> u8 list option"
  cd_dec_new :: "u16 \<Rightarrow> u16 \<Rightarrow> 'd option"
  cd_absorb :: "u16 \<Rightarrow> u8 list \<Rightarrow> 'd \<Rightarrow> 'd"
  cd_complete :: "'d \<Rightarrow> bool"
  cd_recover :: "'d \<Rightarrow> u8 list list option"

primrec feed_all :: "('e, 'd) fec_codec \<Rightarrow> u8 list list \<Rightarrow> 'e \<Rightarrow> 'e option" where
  "feed_all c [] e = Some e"
| "feed_all c (row # rows) e = do { e \<leftarrow> cd_feed c row e; feed_all c rows e }"

text \<open>Row \<open>i\<close> of the code word of \<open>rows\<close>: a source row or a parity row.\<close>

definition code_row :: "('e, 'd) fec_codec \<Rightarrow> u16 \<Rightarrow> u16 \<Rightarrow> u8 list list \<Rightarrow> u16 \<Rightarrow> u8 list option" where
  "code_row c k n rows i =
     (if i < k then Some (rows ! unat i)
      else do { e \<leftarrow> cd_enc_new c k n; e \<leftarrow> feed_all c rows e; cd_parity c i e })"

definition mds :: "('e, 'd) fec_codec \<Rightarrow> u16 \<Rightarrow> u16 \<Rightarrow> bool" where
  "mds c k n \<longleftrightarrow>
     (\<forall>rows w. length rows = unat k \<and> list_all (\<lambda>row. length row = w) rows \<longrightarrow>
        (\<forall>i. i < n \<longrightarrow> (\<exists>row. code_row c k n rows i = Some row \<and> length row = w))
        \<and> (\<exists>d. cd_dec_new c k n = Some d \<and>
            (\<forall>items. distinct (map fst items)
                \<and> list_all (\<lambda>(i, row). i < n \<and> code_row c k n rows i = Some row) items
                \<and> unat k \<le> length items \<longrightarrow>
              cd_complete c (fold (\<lambda>(i, row). cd_absorb c i row) items d)
              \<and> cd_recover c (fold (\<lambda>(i, row). cd_absorb c i row) items d) = Some rows)))"

section \<open>Groups and frames\<close>

definition group_of :: "u64 \<Rightarrow> u16 \<Rightarrow> u64" where
  "group_of sq k = sq div ucast (max k 1)"

record fec_config =
  fc_k :: u16
  fc_r :: u16

record parity_item =
  pi_group :: u64
  pi_index :: u16
  pi_payload :: "u8 list"

text \<open>\<open>put_u32\<close> and \<open>u32::from_be_bytes\<close>: big-endian.\<close>

definition put_u32 :: "u32 \<Rightarrow> u8 list" where
  "put_u32 n = rev (to_le 4 n)"

definition from_be_u32 :: "u8 list \<Rightarrow> u32" where
  "from_be_u32 bs = from_le (rev bs)"

text \<open>\<open>BytesMut::resize\<close>: cut or fill with zeros.\<close>

definition resize :: "nat \<Rightarrow> u8 list \<Rightarrow> u8 list" where
  "resize n b = take n b @ replicate (n - length b) 0"

definition frame :: "u8 list \<Rightarrow> nat \<Rightarrow> u8 list" where
  "frame payload width = resize width (put_u32 (of_nat (length payload)) @ payload)"

definition unframe :: "u8 list \<Rightarrow> u8 list option" where
  "unframe row =
     (if length row < 4 then None
      else let len = unat (from_be_u32 (take 4 row)) in
        if length row < 4 + len then None else Some (take len (drop 4 row)))"

text \<open>\<open>Iterator::max\<close>, and the range \<open>0..n\<close> of \<open>u16\<close>.\<close>

definition iter_max :: "nat list \<Rightarrow> nat option" where
  "iter_max xs = (if xs = [] then None else Some (Max (set xs)))"

definition range_u16 :: "u16 \<Rightarrow> u16 list" where
  "range_u16 n = map of_nat [0 ..< unat n]"

section \<open>The producer's side\<close>

record group_encoder =
  ge_cfg :: fec_config
  ge_current :: "u8 list list"
  ge_next_seq :: u64

definition group_encoder_new :: "u64 \<Rightarrow> fec_config \<Rightarrow> group_encoder" where
  "group_encoder_new first_seq cfg = \<lparr>ge_cfg = cfg, ge_current = [], ge_next_seq = first_seq\<rparr>"

definition group_width :: "u8 list list \<Rightarrow> nat" where
  "group_width current =
     (case iter_max (map (\<lambda>p. 4 + length p) current) of None \<Rightarrow> 4 | Some w \<Rightarrow> w)"

definition emit_parity :: "('e, 'd) fec_codec \<Rightarrow> u64 \<Rightarrow> group_encoder \<Rightarrow> parity_item list" where
  "emit_parity c grp e =
     (if fc_r (ge_cfg e) = 0 then []
      else
        let width = group_width (ge_current e); k = fc_k (ge_cfg e); n = k + fc_r (ge_cfg e)
        in case cd_enc_new c k n of
             None \<Rightarrow> []
           | Some enc \<Rightarrow>
               (case feed_all c (map (\<lambda>p. frame p width) (ge_current e)) enc of
                  None \<Rightarrow> []
                | Some enc \<Rightarrow>
                    List.map_filter
                      (\<lambda>i. map_option (\<lambda>payload. \<lparr>pi_group = grp, pi_index = i, pi_payload = payload\<rparr>)
                        (cd_parity c (k + i) enc))
                      (range_u16 (fc_r (ge_cfg e)))))"

definition group_push ::
    "('e, 'd) fec_codec \<Rightarrow> u8 list \<Rightarrow> group_encoder \<Rightarrow> parity_item list \<times> group_encoder" where
  "group_push c payload e =
     (let seqno = ge_next_seq e;
          e = e\<lparr>ge_next_seq := seqno + 1, ge_current := ge_current e @ [payload]\<rparr>
      in if length (ge_current e) < unat (max (fc_k (ge_cfg e)) 1) then ([], e)
         else let grp = group_of seqno (fc_k (ge_cfg e)); items = emit_parity c grp e
              in (items, e\<lparr>ge_current := []\<rparr>))"

section \<open>The consumer's side\<close>

record group_state =
  gs_sources :: "(u16 \<times> u8 list) list"
  gs_parities :: "(u16 \<times> u8 list) list"
  gs_recovered :: bool

definition group_state_default :: group_state where
  "group_state_default = \<lparr>gs_sources = [], gs_parities = [], gs_recovered = False\<rparr>"

record group_decoder =
  gd_cfg :: fec_config
  gd_groups :: "(u64 \<times> group_state) list"

definition group_decoder_new :: "fec_config \<Rightarrow> group_decoder" where
  "group_decoder_new cfg = \<lparr>gd_cfg = cfg, gd_groups = []\<rparr>"

text \<open>\<open>entry(k).or_insert(v)\<close> and \<open>entry(k).or_default()\<close>.\<close>

definition or_insert :: "u16 \<Rightarrow> u8 list \<Rightarrow> (u16 \<times> u8 list) list \<Rightarrow> (u16 \<times> u8 list) list" where
  "or_insert i p m = (if map_contains i m then m else btm_insert i p m)"

definition group_or_default :: "u64 \<Rightarrow> (u64 \<times> group_state) list \<Rightarrow> group_state" where
  "group_or_default g m = (case map_of m g of None \<Rightarrow> group_state_default | Some s \<Rightarrow> s)"

text \<open>
  The missing sources of a recovered grp: each row is unframed, kept as a source and
  returned under its sequence number.
\<close>

definition fill_missing ::
    "u16 \<Rightarrow> u64 \<Rightarrow> u8 list list \<Rightarrow> u16 \<Rightarrow> group_state \<times> (u64 \<times> u8 list) list
      \<Rightarrow> group_state \<times> (u64 \<times> u8 list) list" where
  "fill_missing k grp rows idx = (\<lambda>(state, out).
     case unframe (rows ! unat idx) of
       None \<Rightarrow> (state, out)
     | Some payload \<Rightarrow>
         (state\<lparr>gs_sources := btm_insert idx payload (gs_sources state)\<rparr>,
          out @ [(grp * ucast k + ucast idx, payload)]))"

text \<open>The absorbed rows: the framed sources, then the parities at \<open>k + index\<close>.\<close>

definition absorbed_rows :: "u16 \<Rightarrow> nat \<Rightarrow> group_state \<Rightarrow> (u16 \<times> u8 list) list" where
  "absorbed_rows k width state =
     map (\<lambda>(idx, payload). (idx, frame payload width)) (gs_sources state)
     @ map (\<lambda>(idx, row). (k + idx, row)) (gs_parities state)"

definition recover_group ::
    "('e, 'd) fec_codec \<Rightarrow> fec_config \<Rightarrow> u64 \<Rightarrow> group_state
      \<Rightarrow> (group_state \<times> (u64 \<times> u8 list) list) option" where
  "recover_group c cfg grp state =
     (let k = unat (max (fc_k cfg) 1)
      in if gs_recovered state \<or> k \<le> length (gs_sources state) \<or> gs_parities state = []
            \<or> length (gs_sources state) + length (gs_parities state) < k then None
         else let width = (case iter_max (map (length \<circ> snd) (gs_parities state)) of
                             None \<Rightarrow> 0 | Some w \<Rightarrow> w)
         in if list_ex (\<lambda>(_, p). length p \<noteq> width) (gs_parities state)
              \<or> list_ex (\<lambda>(_, s). width < 4 + length s) (gs_sources state) then None
         else let n = fc_k cfg + fc_r cfg in do {
           dec \<leftarrow> cd_dec_new c (fc_k cfg) n;
           let dec = fold (\<lambda>(idx, row). cd_absorb c idx row)
             (absorbed_rows (fc_k cfg) width state) dec;
           if \<not> cd_complete c dec then None
           else do {
             rows \<leftarrow> cd_recover c dec;
             let missing = filter (\<lambda>i. \<not> map_contains i (gs_sources state)) (range_u16 (fc_k cfg));
             let (state, out) = fold (fill_missing (fc_k cfg) grp rows) missing (state, []);
             Some (state\<lparr>gs_recovered := True\<rparr>, out) } })"

definition try_recover ::
    "('e, 'd) fec_codec \<Rightarrow> u64 \<Rightarrow> group_decoder \<Rightarrow> (u64 \<times> u8 list) list \<times> group_decoder" where
  "try_recover c grp dec =
     (case map_of (gd_groups dec) grp of
        None \<Rightarrow> ([], dec)
      | Some state \<Rightarrow>
          (case recover_group c (gd_cfg dec) grp state of
             None \<Rightarrow> ([], dec)
           | Some (state, out) \<Rightarrow>
               (out, dec\<lparr>gd_groups := hm_insert grp state (gd_groups dec)\<rparr>)))"

definition add_source ::
    "('e, 'd) fec_codec \<Rightarrow> u64 \<Rightarrow> u8 list \<Rightarrow> group_decoder
      \<Rightarrow> (u64 \<times> u8 list) list \<times> group_decoder" where
  "add_source c sq payload dec =
     (let k = fc_k (gd_cfg dec); grp = group_of sq k;
          idx = ucast (sq mod ucast (max k 1)) :: u16;
          state = group_or_default grp (gd_groups dec);
          state = state\<lparr>gs_sources := or_insert idx payload (gs_sources state)\<rparr>
      in try_recover c grp (dec\<lparr>gd_groups := hm_insert grp state (gd_groups dec)\<rparr>))"

definition add_parity ::
    "('e, 'd) fec_codec \<Rightarrow> parity_item \<Rightarrow> group_decoder
      \<Rightarrow> (u64 \<times> u8 list) list \<times> group_decoder" where
  "add_parity c item dec =
     (if fc_r (gd_cfg dec) \<le> pi_index item then ([], dec)
      else
        let state = group_or_default (pi_group item) (gd_groups dec);
            state = state\<lparr>gs_parities := or_insert (pi_index item) (pi_payload item) (gs_parities state)\<rparr>
        in try_recover c (pi_group item)
             (dec\<lparr>gd_groups := hm_insert (pi_group item) state (gd_groups dec)\<rparr>))"

definition evict_below :: "u64 \<Rightarrow> group_decoder \<Rightarrow> group_decoder" where
  "evict_below sq dec =
     (let keep_from = group_of sq (fc_k (gd_cfg dec))
      in dec\<lparr>gd_groups := filter (\<lambda>(g, _). keep_from \<le> g) (gd_groups dec)\<rparr>)"

definition tracked_groups :: "group_decoder \<Rightarrow> nat" where
  "tracked_groups dec = length (gd_groups dec)"

end
