(* ===== verification/Fetch.thy ===== *)
theory Fetch
  imports Reorder
begin

text \<open>
  \<open>crates/streams/ndn-stream-session/src/fetch.rs\<close>: the adaptive windowed fetcher, which
  decides what sequence numbers to request and when. Times, numbers and counters are \<open>u64\<close>
  words with the wrap of a release build, \<open>usize\<close> is 64 bits wide.
\<close>

section \<open>The machine\<close>

record fetcher_config =
  fg_initial_window :: u64
  fg_max_window :: u64
  fg_initial_rtt_ms :: u64
  fg_rtt_alpha_percent :: u8
  fg_timeout_multiplier :: u32
  fg_max_retries :: u32
  fg_lookahead :: u64

definition fetcher_config_default :: fetcher_config where
  "fetcher_config_default =
     \<lparr>fg_initial_window = 4, fg_max_window = 64, fg_initial_rtt_ms = 200,
      fg_rtt_alpha_percent = 25, fg_timeout_multiplier = 4, fg_max_retries = 3,
      fg_lookahead = 256\<rparr>"

datatype fetch_action = Fetch u64 bool | GiveUp u64

record outstanding =
  os_sent_at_ms :: u64
  os_retries :: u32

record fetch_counters =
  fn_requested :: u64
  fn_retries :: u64
  fn_satisfied :: u64
  fn_gave_up :: u64

record fetcher =
  fe_cfg :: fetcher_config
  fe_srtt_ms :: u64
  fe_window :: u64
  fe_next_to_request :: u64
  fe_cursor :: u64
  fe_frontier :: "u64 option"
  fe_outstanding :: "(u64 \<times> outstanding) list"
  fe_counters :: fetch_counters

definition fetcher_new :: "u64 \<Rightarrow> fetcher_config \<Rightarrow> fetcher" where
  "fetcher_new first_seq cfg =
     \<lparr>fe_cfg = cfg, fe_srtt_ms = max (fg_initial_rtt_ms cfg) 1,
      fe_window = max (fg_initial_window cfg) 1, fe_next_to_request = first_seq,
      fe_cursor = first_seq, fe_frontier = None, fe_outstanding = [],
      fe_counters = \<lparr>fn_requested = 0, fn_retries = 0, fn_satisfied = 0, fn_gave_up = 0\<rparr>\<rparr>"

definition u64_saturating_mul :: "u64 \<Rightarrow> u64 \<Rightarrow> u64" where
  "u64_saturating_mul a b = (if uint a * uint b < 2 ^ 64 then a * b else -1)"

definition u64_saturating_sub :: "u64 \<Rightarrow> u64 \<Rightarrow> u64" where
  "u64_saturating_sub a b = (if a < b then 0 else a - b)"

definition rto_ms :: "fetcher \<Rightarrow> u64" where
  "rto_ms f = max (u64_saturating_mul (fe_srtt_ms f) (ucast (fg_timeout_multiplier (fe_cfg f)))) 1"

definition on_frontier :: "u64 \<Rightarrow> fetcher \<Rightarrow> fetcher" where
  "on_frontier sq f =
     f\<lparr>fe_frontier := Some (case fe_frontier f of None \<Rightarrow> sq | Some fr \<Rightarrow> max fr sq)\<rparr>"

definition on_cursor :: "u64 \<Rightarrow> fetcher \<Rightarrow> fetcher" where
  "on_cursor sq f =
     f\<lparr>fe_cursor := max (fe_cursor f) sq,
       fe_next_to_request := max (fe_next_to_request f) sq,
       fe_outstanding := filter (\<lambda>(s, _). sq \<le> s) (fe_outstanding f)\<rparr>"

text \<open>\<open>self.counters.satisfied += 1\<close>, and the window after a loss: \<open>(self.window / 2).max(1)\<close>.\<close>

definition count_satisfied :: "fetcher \<Rightarrow> fetcher" where
  "count_satisfied f =
     f\<lparr>fe_counters := (fe_counters f)\<lparr>fn_satisfied := fn_satisfied (fe_counters f) + 1\<rparr>\<rparr>"

definition halve_window :: "fetcher \<Rightarrow> fetcher" where
  "halve_window f = f\<lparr>fe_window := max (fe_window f div 2) 1\<rparr>"

definition smoothed_rtt :: "u64 \<Rightarrow> outstanding \<Rightarrow> fetcher \<Rightarrow> u64" where
  "smoothed_rtt now_ms og f =
     (let sample = max (u64_saturating_sub now_ms (os_sent_at_ms og)) 1;
          a = ucast (min (fg_rtt_alpha_percent (fe_cfg f)) 100) :: u64
      in max (((100 - a) * fe_srtt_ms f + a * sample) div 100) 1)"

definition on_data :: "u64 \<Rightarrow> u64 \<Rightarrow> fetcher \<Rightarrow> fetcher" where
  "on_data now_ms sq f =
     (case map_of (fe_outstanding f) sq of
        None \<Rightarrow> f
      | Some og \<Rightarrow>
          let f = count_satisfied (f\<lparr>fe_outstanding := map_delete sq (fe_outstanding f)\<rparr>);
              f = (if os_retries og = 0 then f\<lparr>fe_srtt_ms := smoothed_rtt now_ms og f\<rparr> else f)
          in f\<lparr>fe_window := min (fe_window f + 1) (fg_max_window (fe_cfg f))\<rparr>)"

definition mark_have :: "u64 \<Rightarrow> fetcher \<Rightarrow> fetcher" where
  "mark_have sq f =
     (if map_contains sq (fe_outstanding f)
      then count_satisfied (f\<lparr>fe_outstanding := map_delete sq (fe_outstanding f)\<rparr>) else f)"

definition on_nack :: "u64 \<Rightarrow> fetcher \<Rightarrow> fetcher" where
  "on_nack sq f =
     (case map_of (fe_outstanding f) sq of
        None \<Rightarrow> f
      | Some og \<Rightarrow> halve_window
          (f\<lparr>fe_outstanding := btm_insert sq (og\<lparr>os_sent_at_ms := 0\<rparr>) (fe_outstanding f)\<rparr>))"

text \<open>
  One overdue request: retried within the budget, given up otherwise. The source looks the
  number up with \<open>expect\<close>; it is there, as the numbers were just collected from the map and
  are distinct, so the first branch is never taken.
\<close>

definition overdue_step ::
    "u64 \<Rightarrow> u64 \<Rightarrow> fetch_action list \<times> fetcher \<Rightarrow> fetch_action list \<times> fetcher" where
  "overdue_step now_ms sq = (\<lambda>(out, f).
     case map_of (fe_outstanding f) sq of
       None \<Rightarrow> (out, f)
     | Some og \<Rightarrow>
         if fg_max_retries (fe_cfg f) \<le> os_retries og then
           (out @ [GiveUp sq],
            halve_window (f\<lparr>fe_outstanding := map_delete sq (fe_outstanding f),
              fe_counters := (fe_counters f)\<lparr>fn_gave_up := fn_gave_up (fe_counters f) + 1\<rparr>\<rparr>))
         else
           (out @ [Fetch sq True],
            halve_window (f\<lparr>fe_outstanding :=
                btm_insert sq \<lparr>os_sent_at_ms = now_ms, os_retries = os_retries og + 1\<rparr> (fe_outstanding f),
              fe_counters := (fe_counters f)\<lparr>fn_requested := fn_requested (fe_counters f) + 1,
                fn_retries := fn_retries (fe_counters f) + 1\<rparr>\<rparr>)))"

definition overdue :: "u64 \<Rightarrow> fetcher \<Rightarrow> u64 list" where
  "overdue now_ms f =
     (let rto = rto_ms f
      in map fst (filter (\<lambda>(_, og). rto \<le> u64_saturating_sub now_ms (os_sent_at_ms og))
           (fe_outstanding f)))"

definition request_limit :: "fetcher \<Rightarrow> u64" where
  "request_limit f =
     (let lookahead_limit = saturating_add (fe_cursor f) (fg_lookahead (fe_cfg f))
      in case fe_frontier f of None \<Rightarrow> lookahead_limit | Some fr \<Rightarrow> min fr lookahead_limit)"

definition fill_step :: "u64 \<Rightarrow> fetcher \<Rightarrow> fetcher" where
  "fill_step now_ms f =
     f\<lparr>fe_next_to_request := fe_next_to_request f + 1,
       fe_outstanding := btm_insert (fe_next_to_request f)
         \<lparr>os_sent_at_ms = now_ms, os_retries = 0\<rparr> (fe_outstanding f),
       fe_counters := (fe_counters f)\<lparr>fn_requested := fn_requested (fe_counters f) + 1\<rparr>\<rparr>"

text \<open>
  The loop that fills the window. It ends whatever the state is, even if the next number wraps
  onto one that is outstanding: as long as the map is smaller than the window some number is
  missing from it, and until the loop reaches it nothing is inserted.
\<close>

function fill_window ::
    "u64 \<Rightarrow> u64 \<Rightarrow> fetch_action list \<Rightarrow> fetcher \<Rightarrow> fetch_action list \<times> fetcher" where
  "fill_window now_ms limit out f =
     (if length (fe_outstanding f) < unat (fe_window f) \<and> fe_next_to_request f \<le> limit
      then fill_window now_ms limit (out @ [Fetch (fe_next_to_request f) False]) (fill_step now_ms f)
      else (out, f))"
  by pat_completeness auto

definition absent :: "fetcher \<Rightarrow> u64 set" where
  "absent f = UNIV - fst ` set (fe_outstanding f)"

definition gap_to_absent :: "fetcher \<Rightarrow> nat" where
  "gap_to_absent f = (LEAST d. fe_next_to_request f + of_nat d \<in> absent f)"

lemma fill_step_absent: "absent (fill_step now_ms f) = absent f - {fe_next_to_request f}"
  by (auto simp: absent_def fill_step_def set_btm_insert)

lemma small_map_absent:
  assumes "length (fe_outstanding f) < unat (fe_window f)"
  shows "absent f \<noteq> {}"
proof
  assume "absent f = {}"
  then have "card (UNIV :: u64 set) \<le> card (fst ` set (fe_outstanding f))"
    by (intro card_mono) (auto simp: absent_def)
  also have "\<dots> \<le> length (fe_outstanding f)"
    by (metis card_length length_map set_map)
  also have "\<dots> < 2 ^ 64" using assms unat_u64_lt [of "fe_window f"] by simp
  finally show False by (simp add: card_word)
qed

lemma gap_step:
  assumes "absent f \<noteq> {}" and "fe_next_to_request f \<notin> absent f"
  shows "gap_to_absent (fill_step now_ms f) < gap_to_absent f"
proof -
  let ?n = "fe_next_to_request f"
  obtain s where "s \<in> absent f" using assms(1) by auto
  then have ex: "?n + of_nat (unat (s - ?n)) \<in> absent f" by simp
  then have at: "?n + of_nat (gap_to_absent f) \<in> absent f"
    unfolding gap_to_absent_def by (rule LeastI)
  then have "gap_to_absent f \<noteq> 0" using assms(2) by (cases "gap_to_absent f") auto
  then obtain d where d: "gap_to_absent f = Suc d" by (cases "gap_to_absent f") auto
  have "fe_next_to_request (fill_step now_ms f) = ?n + 1" by (simp add: fill_step_def)
  moreover have "absent (fill_step now_ms f) = absent f"
    using assms(2) by (simp add: fill_step_absent)
  ultimately have "fe_next_to_request (fill_step now_ms f) + of_nat d \<in> absent (fill_step now_ms f)"
    using at by (simp add: d add.assoc)
  then have "gap_to_absent (fill_step now_ms f) \<le> d"
    unfolding gap_to_absent_def by (rule Least_le)
  then show ?thesis by (simp add: d)
qed

termination fill_window
proof (relation "measures [\<lambda>(_, _, _, f). card (absent f), \<lambda>(_, _, _, f). gap_to_absent f]")
  fix now_ms limit :: u64 and out and f :: fetcher
  assume *: "length (fe_outstanding f) < unat (fe_window f) \<and> fe_next_to_request f \<le> limit"
  then have ne: "absent f \<noteq> {}" using small_map_absent by simp
  show "((now_ms, limit, out @ [Fetch (fe_next_to_request f) False], fill_step now_ms f),
      (now_ms, limit, out, f))
    \<in> measures [\<lambda>(_, _, _, f). card (absent f), \<lambda>(_, _, _, f). gap_to_absent f]"
  proof (cases "fe_next_to_request f \<in> absent f")
    case True
    then have "card (absent (fill_step now_ms f)) < card (absent f)"
      unfolding fill_step_absent by (intro card_Diff1_less) simp_all
    then show ?thesis by simp
  next
    case False
    then have "absent (fill_step now_ms f) = absent f" by (simp add: fill_step_absent)
    then show ?thesis using gap_step [OF ne False] by simp
  qed
qed simp

declare fill_window.simps [simp del]

definition fetch_actions :: "u64 \<Rightarrow> fetcher \<Rightarrow> fetch_action list \<times> fetcher" where
  "fetch_actions now_ms f =
     (let (out, f) = fold (overdue_step now_ms) (overdue now_ms f) ([], f)
      in fill_window now_ms (request_limit f) out f)"

end
