(* ===== verification/Session.thy ===== *)
theory Session
  imports Fec Fetch
begin

text \<open>
  \<open>crates/streams/ndn-stream-session/src/lib.rs\<close>: the two sides of one stream. The consumer
  composes the session lock, the reorder buffer (\<open>Reorder\<close>), the fetcher (\<open>Fetch\<close>) and the
  repair groups (\<open>Fec\<close>); the producer numbers, retains and protects the items. The erasure
  code is the parameter \<open>c\<close>, as in \<open>Fec\<close>.
\<close>

section \<open>The consumer\<close>

record consumer_config =
  cc_fetcher :: fetcher_config
  cc_reorder_span :: u64
  cc_fec :: "fec_config option"

definition consumer_config_default :: consumer_config where
  "consumer_config_default =
     \<lparr>cc_fetcher = fetcher_config_default, cc_reorder_span = 1024, cc_fec = None\<rparr>"

datatype stream_event = Item u64 "u8 list" | Lost "u64 list" | SessionReset u64

record session_consumer =
  sn_cfg :: consumer_config
  sn_session :: "u64 option"
  sn_reorder :: "u8 list reorder_buffer"
  sn_fetcher :: fetcher
  sn_fec :: "group_decoder option"

definition consumer_new :: "u64 \<Rightarrow> consumer_config \<Rightarrow> session_consumer" where
  "consumer_new first_seq cfg =
     \<lparr>sn_cfg = cfg, sn_session = None, sn_reorder = reorder_new first_seq (cc_reorder_span cfg),
      sn_fetcher = fetcher_new first_seq (cc_fetcher cfg),
      sn_fec = map_option group_decoder_new (cc_fec cfg)\<rparr>"

definition consumer_next_seq :: "session_consumer \<Rightarrow> u64" where
  "consumer_next_seq s = rb_next (sn_reorder s)"

text \<open>\<open>Ok\<close> is \<open>Inr\<close>; \<open>Err\<close> carries the events of a stale or a newer session.\<close>

definition admit_session :: "u64 \<Rightarrow> session_consumer \<Rightarrow> (stream_event list + unit) \<times> session_consumer" where
  "admit_session session s =
     (case sn_session s of
        None \<Rightarrow> (Inr (), s\<lparr>sn_session := Some session\<rparr>)
      | Some current \<Rightarrow>
          if session = current then (Inr (), s)
          else if session < current then (Inl [], s)
          else (Inl [SessionReset session],
            s\<lparr>sn_session := Some session,
              sn_reorder := reorder_new 0 (cc_reorder_span (sn_cfg s)),
              sn_fetcher := fetcher_new 0 (cc_fetcher (sn_cfg s)),
              sn_fec := map_option group_decoder_new (cc_fec (sn_cfg s))\<rparr>))"

definition sync_cursor :: "session_consumer \<Rightarrow> session_consumer" where
  "sync_cursor s =
     (let cursor = rb_next (sn_reorder s)
      in s\<lparr>sn_fetcher := on_cursor cursor (sn_fetcher s),
           sn_fec := map_option (evict_below cursor) (sn_fec s)\<rparr>)"

text \<open>\<open>for (s, p) in self.reorder.pop_ready()\<close> with the events it pushes.\<close>

definition pop_items :: "session_consumer \<Rightarrow> stream_event list \<times> session_consumer" where
  "pop_items s =
     (let (ready, reorder) = pop_ready (sn_reorder s)
      in (map (\<lambda>(sq, p). Item sq p) ready, s\<lparr>sn_reorder := reorder\<rparr>))"

definition insert_item :: "u64 \<Rightarrow> u8 list \<Rightarrow> session_consumer \<Rightarrow> session_consumer" where
  "insert_item sq payload s = s\<lparr>sn_reorder := snd (reorder_insert sq payload (sn_reorder s))\<rparr>"

definition deliver_recovered ::
    "(u64 \<times> u8 list) list \<Rightarrow> session_consumer \<Rightarrow> stream_event list \<times> session_consumer" where
  "deliver_recovered recovered s =
     (let s = fold (\<lambda>(sq, payload) s.
              insert_item sq payload (s\<lparr>sn_fetcher := mark_have sq (sn_fetcher s)\<rparr>)) recovered s;
          (events, s) = pop_items s
      in (events, sync_cursor s))"

definition absorb ::
    "u64 \<Rightarrow> u8 list \<Rightarrow> (u64 \<times> u8 list) list \<Rightarrow> session_consumer \<Rightarrow> stream_event list \<times> session_consumer" where
  "absorb sq payload recovered s =
     (let s = insert_item sq payload s;
          (events, s) = deliver_recovered recovered s;
          (ready, s) = pop_items s
      in (events @ ready, sync_cursor s))"

definition on_item ::
    "('e, 'd) fec_codec \<Rightarrow> u64 \<Rightarrow> u64 \<Rightarrow> u64 \<Rightarrow> u8 list \<Rightarrow> session_consumer
      \<Rightarrow> stream_event list \<times> session_consumer" where
  "on_item c now_ms session sq payload s =
     (case admit_session session s of
        (Inl events, s) \<Rightarrow> (events, s)
      | (Inr _, s) \<Rightarrow>
          let s = s\<lparr>sn_fetcher := on_data now_ms sq (sn_fetcher s)\<rparr>
          in case sn_fec s of
               None \<Rightarrow> absorb sq payload [] s
             | Some fec \<Rightarrow>
                 let (recovered, fec) = add_source c sq payload fec
                 in absorb sq payload recovered (s\<lparr>sn_fec := Some fec\<rparr>))"

definition on_parity ::
    "('e, 'd) fec_codec \<Rightarrow> u64 \<Rightarrow> parity_item \<Rightarrow> session_consumer
      \<Rightarrow> stream_event list \<times> session_consumer" where
  "on_parity c session item s =
     (case admit_session session s of
        (Inl events, s) \<Rightarrow> (events, s)
      | (Inr _, s) \<Rightarrow>
          (case sn_fec s of
             None \<Rightarrow> ([], s)
           | Some fec \<Rightarrow>
               let (recovered, fec) = add_parity c item fec
               in deliver_recovered recovered (s\<lparr>sn_fec := Some fec\<rparr>)))"

definition consumer_on_frontier ::
    "u64 \<Rightarrow> u64 \<Rightarrow> session_consumer \<Rightarrow> stream_event list \<times> session_consumer" where
  "consumer_on_frontier session sq s =
     (case admit_session session s of
        (Inl events, s) \<Rightarrow> (events, s)
      | (Inr _, s) \<Rightarrow> ([], s\<lparr>sn_fetcher := on_frontier sq (sn_fetcher s)\<rparr>))"

definition consumer_on_nack :: "u64 \<Rightarrow> session_consumer \<Rightarrow> session_consumer" where
  "consumer_on_nack sq s = s\<lparr>sn_fetcher := on_nack sq (sn_fetcher s)\<rparr>"

definition give_up :: "u64 \<Rightarrow> session_consumer \<Rightarrow> stream_event list \<times> session_consumer" where
  "give_up sq s =
     (let (lost, reorder) = skip_to (sq + 1) (sn_reorder s);
          (ready, s) = pop_items (s\<lparr>sn_reorder := reorder\<rparr>)
      in ((if lost = [] then [] else [Lost lost]) @ ready, sync_cursor s))"

fun action_step ::
    "fetch_action \<Rightarrow> fetch_action list \<times> stream_event list \<times> session_consumer
      \<Rightarrow> fetch_action list \<times> stream_event list \<times> session_consumer" where
  "action_step (Fetch sq retry) (fetches, events, s) = (fetches @ [Fetch sq retry], events, s)"
| "action_step (GiveUp sq) (fetches, events, s) =
     (let (new, s) = give_up sq s in (fetches, events @ new, s))"

definition consumer_actions ::
    "u64 \<Rightarrow> session_consumer \<Rightarrow> fetch_action list \<times> stream_event list \<times> session_consumer" where
  "consumer_actions now_ms s =
     (let (actions, fetcher) = fetch_actions now_ms (sn_fetcher s)
      in fold action_step actions ([], [], s\<lparr>sn_fetcher := fetcher\<rparr>))"

section \<open>The producer\<close>

record producer_config =
  pc_retention :: u64
  pc_fec :: "fec_config option"

record session_producer =
  sp_session :: u64
  sp_cfg :: producer_config
  sp_next_seq :: u64
  sp_retained :: "(u64 \<times> u8 list) list"
  sp_fec :: "group_encoder option"

definition producer_new :: "u64 \<Rightarrow> producer_config \<Rightarrow> session_producer" where
  "producer_new session cfg =
     \<lparr>sp_session = session, sp_cfg = cfg, sp_next_seq = 0, sp_retained = [],
      sp_fec = map_option (group_encoder_new 0) (pc_fec cfg)\<rparr>"

record published =
  pb_seq :: u64
  pb_parity :: "parity_item list"

text \<open>\<open>while self.retained.len() > n { self.retained.pop_front() }\<close>.\<close>

definition keep_last :: "nat \<Rightarrow> 'a list \<Rightarrow> 'a list" where
  "keep_last n xs = drop (length xs - n) xs"

definition session_publish ::
    "('e, 'd) fec_codec \<Rightarrow> u8 list \<Rightarrow> session_producer \<Rightarrow> published \<times> session_producer" where
  "session_publish c payload p =
     (let sq = sp_next_seq p;
          p = p\<lparr>sp_next_seq := sq + 1,
            sp_retained := keep_last (unat (max (pc_retention (sp_cfg p)) 1))
              (sp_retained p @ [(sq, payload)])\<rparr>
      in case sp_fec p of
           None \<Rightarrow> (\<lparr>pb_seq = sq, pb_parity = []\<rparr>, p)
         | Some enc \<Rightarrow>
             let (parity, enc) = group_push c payload enc
             in (\<lparr>pb_seq = sq, pb_parity = parity\<rparr>, p\<lparr>sp_fec := Some enc\<rparr>))"

definition retained :: "u64 \<Rightarrow> session_producer \<Rightarrow> u8 list option" where
  "retained sq p = map_option snd (find (\<lambda>(s, _). s = sq) (sp_retained p))"

end
