(* ===== verification/Fec_Recovery.thy ===== *)
theory Fec_Recovery
  imports Fec
begin

text \<open>
  What the repair groups of \<open>Fec\<close> achieve: the parity the encoder emits over a stream, and
  what a decoder returns when any of the stream's items and parities arrive, in any order.
\<close>

section \<open>Frames and numbers\<close>

lemma from_be_put_u32: "from_be_u32 (put_u32 n) = n"
  by (simp add: from_be_u32_def put_u32_def)

lemma length_put_u32 [simp]: "length (put_u32 n) = 4"
  by (simp add: put_u32_def)

lemma length_resize [simp]: "length (resize n b) = n"
  by (simp add: resize_def)

lemma length_frame [simp]: "length (frame p w) = w"
  by (simp add: frame_def)

lemma unframe_frame:
  assumes "length p < 2 ^ 32" and "4 + length p \<le> w"
  shows "unframe (frame p w) = Some p"
proof -
  let ?h = "put_u32 (of_nat (length p))"
  have f: "frame p w = ?h @ p @ replicate (w - (4 + length p)) 0"
    using assms(2) by (simp add: frame_def resize_def)
  have len: "unat (of_nat (length p) :: u32) = length p"
    using assms(1) by (simp add: unat_of_nat take_bit_nat_eq_self)
  show ?thesis
    using assms(2) by (simp add: unframe_def f from_be_put_u32 len)
qed

definition seq_of :: "u16 \<Rightarrow> nat \<Rightarrow> nat \<Rightarrow> nat" where
  "seq_of k g i = g * unat k + i"

lemma max_pos [simp]: "0 < (k :: u16) \<Longrightarrow> max k 1 = k"
proof -
  assume "0 < k"
  then have "1 \<le> k" by (simp add: word_less_nat_alt word_le_nat_alt)
  then show ?thesis by (rule max.absorb1)
qed

lemma unat_ucast_64 [simp]: "unat (ucast (k :: u16) :: u64) = unat k"
proof -
  have "unat k < 2 ^ 16" using unsigned_less [of k, where ?'a = nat] by simp
  then show ?thesis by (simp add: unsigned_ucast_eq take_bit_nat_eq_self)
qed

lemma unat_group_of: "0 < k \<Longrightarrow> unat (group_of s k) = unat s div unat k"
  by (simp add: group_of_def unat_div)

lemma unat_index_of:
  assumes "0 < (k :: u16)"
  shows "unat (ucast ((s :: u64) mod ucast k) :: u16) = unat s mod unat k"
proof -
  have "unat s mod unat k < unat k"
    using assms by (intro mod_less_divisor) (simp add: word_less_nat_alt)
  also have "unat k < 2 ^ 16" using unsigned_less [of k, where ?'a = nat] by simp
  finally show ?thesis
    by (simp add: unsigned_ucast_eq unat_mod_distrib take_bit_nat_eq_self)
qed

lemma unat_seq:
  assumes "seq_of k (unat g) (unat (i :: u16)) < 2 ^ 64"
  shows "unat ((g :: u64) * ucast k + ucast i) = seq_of k (unat g) (unat i)"
proof -
  have "unat (g * ucast k + ucast i) = (unat g * unat k + unat i) mod 2 ^ 64"
    by (simp add: unat_word_ariths mod_simps)
  then show ?thesis using assms by (simp add: seq_of_def)
qed

section \<open>The parity of a stream\<close>

definition fec_rows :: "u16 \<Rightarrow> u8 list list \<Rightarrow> nat \<Rightarrow> u8 list list" where
  "fec_rows k ps g = take (unat k) (drop (g * unat k) ps)"

definition fec_frames :: "u16 \<Rightarrow> u8 list list \<Rightarrow> nat \<Rightarrow> u8 list list" where
  "fec_frames k ps g = map (\<lambda>p. frame p (group_width (fec_rows k ps g))) (fec_rows k ps g)"

text \<open>An item that is parity \<open>pi_index\<close> of the complete group \<open>pi_group\<close> of the stream.\<close>

definition parity_of :: "('e, 'd) fec_codec \<Rightarrow> fec_config \<Rightarrow> u8 list list \<Rightarrow> parity_item \<Rightarrow> bool" where
  "parity_of c cfg ps it \<longleftrightarrow>
     Suc (unat (pi_group it)) * unat (fc_k cfg) \<le> length ps \<and> pi_index it < fc_r cfg \<and>
     code_row c (fc_k cfg) (fc_k cfg + fc_r cfg) (fec_frames (fc_k cfg) ps (unat (pi_group it)))
       (fc_k cfg + pi_index it) = Some (pi_payload it)"

definition fec_stream :: "('e, 'd) fec_codec \<Rightarrow> fec_config \<Rightarrow> u8 list list \<Rightarrow> bool" where
  "fec_stream c cfg ps \<longleftrightarrow> mds c (fc_k cfg) (fc_k cfg + fc_r cfg) \<and> 0 < fc_k cfg
     \<and> unat (fc_k cfg) + unat (fc_r cfg) < 2 ^ 16 \<and> length ps < 2 ^ 64
     \<and> list_all (\<lambda>p. length p < 2 ^ 32) ps"

primrec push_all ::
    "('e, 'd) fec_codec \<Rightarrow> u8 list list \<Rightarrow> group_encoder \<Rightarrow> parity_item list \<times> group_encoder" where
  "push_all c [] e = ([], e)"
| "push_all c (p # ps) e =
     (let (items, e) = group_push c p e; (rest, e) = push_all c ps e in (items @ rest, e))"

lemma fec_rows_append: "Suc g * unat k \<le> length ps \<Longrightarrow> fec_rows k (ps @ qs) g = fec_rows k ps g"
  by (simp add: fec_rows_def)

lemma parity_of_append:
  assumes "parity_of c cfg ps it"
  shows "parity_of c cfg (ps @ qs) it"
  using assms fec_rows_append [of "unat (pi_group it)" "fc_k cfg" ps qs]
  by (simp add: parity_of_def fec_frames_def)

lemma index_no_wrap:
  assumes "unat k + unat (r :: u16) < 2 ^ 16" and "i < r"
  shows "unat (k + i) = unat k + unat i" and "\<not> k + i < k" and "k + i < k + r"
proof -
  have i: "unat i < unat r" using assms(2) by (simp add: word_less_nat_alt)
  then show ki: "unat (k + i) = unat k + unat i"
    using assms(1) by (intro unat_add_lem [THEN iffD1]) simp
  have "unat (k + r) = unat k + unat r"
    using assms(1) by (intro unat_add_lem [THEN iffD1]) simp
  then show "\<not> k + i < k" "k + i < k + r"
    using ki i by (simp_all add: word_less_nat_alt)
qed

lemma set_range_u16: "set (range_u16 n) = {i. i < n}"
proof -
  have "i \<in> of_nat ` {0 ..< unat n}" if "i < n" for i :: u16
  proof -
    have "i = of_nat (unat i)" by simp
    moreover have "unat i \<in> {0 ..< unat n}" using that by (simp add: word_less_nat_alt)
    ultimately show ?thesis by (rule image_eqI)
  qed
  moreover have "(of_nat j :: u16) < n" if "j < unat n" for j
  proof -
    have "j < 2 ^ 16" using that unsigned_less [of n, where ?'a = nat] by simp
    then have "unat (of_nat j :: u16) = j" by simp
    then show ?thesis using that by (simp add: word_less_nat_alt)
  qed
  ultimately show ?thesis by (auto simp: range_u16_def)
qed

lemma emit_parity_of:
  assumes "unat (fc_k cfg) + unat (fc_r cfg) < 2 ^ 16" and "ge_cfg e = cfg"
    and "ge_current e = fec_rows (fc_k cfg) ps (unat g)"
    and "Suc (unat g) * unat (fc_k cfg) \<le> length ps"
    and "it \<in> set (emit_parity c g e)"
  shows "parity_of c cfg ps it"
proof -
  let ?k = "fc_k cfg"
  obtain enc0 enc i payload where e: "cd_enc_new c ?k (?k + fc_r cfg) = Some enc0"
    "feed_all c (fec_frames ?k ps (unat g)) enc0 = Some enc" "i < fc_r cfg"
    "cd_parity c (?k + i) enc = Some payload"
    "it = \<lparr>pi_group = g, pi_index = i, pi_payload = payload\<rparr>"
    using assms(2,3,5)
    by (auto simp: emit_parity_def Let_def fec_frames_def map_filter_def set_range_u16
        split: if_splits option.splits dest!: sym [of "Some _"])
  show ?thesis
    using e assms(4) index_no_wrap(2) [OF assms(1) e(3)]
    by (simp add: parity_of_def code_row_def)
qed

lemma group_push_parity:
  assumes "0 < fc_k cfg" "unat (fc_k cfg) + unat (fc_r cfg) < 2 ^ 16" "length pre < 2 ^ 64"
    and "ge_cfg e = cfg" "ge_next_seq e = of_nat (length pre)"
    and "ge_current e = drop (unat (fc_k cfg) * (length pre div unat (fc_k cfg))) pre"
    and "group_push c p e = (items, e')"
  shows "list_all (parity_of c cfg (pre @ [p])) items"
    and "ge_cfg e' = cfg" "ge_next_seq e' = of_nat (length (pre @ [p]))"
    and "ge_current e' =
      drop (unat (fc_k cfg) * (length (pre @ [p]) div unat (fc_k cfg))) (pre @ [p])"
proof -
  let ?k = "unat (fc_k cfg)" and ?g = "length pre div unat (fc_k cfg)"
  have kpos: "0 < ?k" using assms(1) by (simp add: word_less_nat_alt)
  have len: "length (ge_current e) = length pre mod ?k"
    using assms(6) by (simp add: minus_mult_div_eq_mod)
  show "ge_cfg e' = cfg" "ge_next_seq e' = of_nat (length (pre @ [p]))"
    using assms(4,5,7) by (auto simp: group_push_def Let_def split: if_splits)
  have gle: "?k * ?g \<le> length pre" by simp
  show "ge_current e' = drop (?k * (length (pre @ [p]) div ?k)) (pre @ [p])"
  proof (cases "Suc (length pre mod ?k) < ?k")
    case True
    then have "Suc (length pre) div ?k = ?g" by (simp add: div_Suc mod_Suc)
    then show ?thesis
      using True assms(1,4,6,7) len gle by (auto simp: group_push_def)
  next
    case False
    then have full: "Suc (length pre mod ?k) = ?k"
      using mod_less_divisor [OF kpos, of "length pre"] by simp
    then have "?k dvd Suc (length pre)" by (simp add: mod_Suc mod_eq_0_iff_dvd [symmetric])
    then show ?thesis
      using False assms(1,4,7) len by (auto simp: group_push_def Let_def)
  qed
  show "list_all (parity_of c cfg (pre @ [p])) items"
  proof (cases "Suc (length pre mod ?k) < ?k")
    case True
    then show ?thesis using assms(1,4,7) len by (auto simp: group_push_def)
  next
    case False
    let ?grp = "group_of (of_nat (length pre)) (fc_k cfg)"
    have g: "unat ?grp = ?g"
      using assms(1,3) by (simp add: unat_group_of unat_of_nat take_bit_nat_eq_self)
    have full: "Suc (length pre mod ?k) = ?k"
      using False mod_less_divisor [OF kpos, of "length pre"] by simp
    have tot: "Suc ?g * ?k = Suc (length pre)"
      using full div_mult_mod_eq [of "length pre" ?k] unfolding mult_Suc by linarith
    have rows: "ge_current e @ [p] = fec_rows (fc_k cfg) (pre @ [p]) ?g"
      using assms(6) full gle len by (simp add: fec_rows_def mult.commute)
    have items: "items = emit_parity c ?grp
        (e\<lparr>ge_next_seq := ge_next_seq e + 1, ge_current := ge_current e @ [p]\<rparr>)"
      using assms(1,4,5,7) False len by (auto simp: group_push_def Let_def)
    show ?thesis
      unfolding items list_all_iff
      using tot g by (intro ballI emit_parity_of [OF assms(2)]) (auto simp: assms(4) rows)
  qed
qed

lemma push_all_parity:
  assumes "0 < fc_k cfg" "unat (fc_k cfg) + unat (fc_r cfg) < 2 ^ 16"
    and "length (pre @ ps) < 2 ^ 64"
    and "ge_cfg e = cfg" "ge_next_seq e = of_nat (length pre)"
    and "ge_current e = drop (unat (fc_k cfg) * (length pre div unat (fc_k cfg))) pre"
  shows "list_all (parity_of c cfg (pre @ ps)) (fst (push_all c ps e))"
  using assms(3-6)
proof (induction ps arbitrary: pre e)
  case Nil
  then show ?case by simp
next
  case (Cons p ps)
  obtain items e' where g: "group_push c p e = (items, e')" by fastforce
  have len: "length pre < 2 ^ 64" using Cons.prems(1) by simp
  note step = group_push_parity [OF assms(1,2) len Cons.prems(2-4) g]
  have "list_all (parity_of c cfg (pre @ p # ps)) items"
    using step(1) parity_of_append [of c cfg "pre @ [p]" _ ps] by (auto simp: list_all_iff)
  moreover have "list_all (parity_of c cfg ((pre @ [p]) @ ps)) (fst (push_all c ps e'))"
    using Cons.prems(1) by (intro Cons.IH step(2-4)) simp
  ultimately show ?case
    using g by (simp add: case_prod_beta)
qed

section \<open>One group\<close>

text \<open>A group's state when everything in it comes from the stream \<open>ps\<close>.\<close>

definition group_ok :: "('e, 'd) fec_codec \<Rightarrow> fec_config \<Rightarrow> u8 list list \<Rightarrow> u64 \<Rightarrow> group_state \<Rightarrow> bool" where
  "group_ok c cfg ps g st \<longleftrightarrow>
     btm_ok (gs_sources st) \<and> btm_ok (gs_parities st)
     \<and> list_all (\<lambda>(i, p). i < fc_k cfg \<and> seq_of (fc_k cfg) (unat g) (unat i) < length ps
         \<and> p = ps ! seq_of (fc_k cfg) (unat g) (unat i)) (gs_sources st)
     \<and> list_all (\<lambda>(i, row). parity_of c cfg ps \<lparr>pi_group = g, pi_index = i, pi_payload = row\<rparr>)
         (gs_parities st)
     \<and> (gs_recovered st \<longrightarrow> unat (fc_k cfg) \<le> length (gs_sources st))"

lemma fill_missing_fold:
  assumes "\<forall>i \<in> set is. unframe (rows ! unat i) = Some (f i)"
  shows "fold (fill_missing k g rows) is (st, out) =
    (st\<lparr>gs_sources := fold (\<lambda>i. btm_insert i (f i)) is (gs_sources st)\<rparr>,
     out @ map (\<lambda>i. (g * ucast k + ucast i, f i)) is)"
  using assms
proof (induction "is" arbitrary: st out)
  case Nil
  then show ?case by simp
next
  case (Cons i "is")
  then show ?case by (simp add: fill_missing_def)
qed

lemma fold_btm_insert:
  assumes "btm_ok m"
  shows "btm_ok (fold (\<lambda>i. btm_insert i (f i)) is m)
    \<and> fst ` set (fold (\<lambda>i. btm_insert i (f i)) is m) = fst ` set m \<union> set is
    \<and> set (fold (\<lambda>i. btm_insert i (f i)) is m) \<subseteq> set m \<union> (\<lambda>i. (i, f i)) ` set is"
  using assms
proof (induction "is" arbitrary: m)
  case Nil
  then show ?case by simp
next
  case (Cons i "is")
  show ?case
    using Cons.IH [OF btm_ok_insert [OF Cons.prems, of i "f i"]] set_btm_insert [of i "f i" m]
      set_btm_insert_pairs [of i "f i" m] by auto
qed

lemma group_width_ge: "p \<in> set rows \<Longrightarrow> 4 + length p \<le> group_width rows"
  by (auto simp: group_width_def iter_max_def)

lemma nth_fec_rows:
  assumes "Suc g * unat k \<le> length ps" and "i < unat k"
  shows "fec_rows k ps g ! i = ps ! seq_of k g i" "seq_of k g i < length ps"
    "ps ! seq_of k g i \<in> set (fec_rows k ps g)"
proof -
  have len: "length (fec_rows k ps g) = unat k" using assms(1) by (simp add: fec_rows_def)
  have b: "g * unat k + i < length ps" using assms by simp
  show nth: "fec_rows k ps g ! i = ps ! seq_of k g i"
    using b assms(2) by (simp add: fec_rows_def seq_of_def)
  show "seq_of k g i < length ps" using b by (simp add: seq_of_def)
  show "ps ! seq_of k g i \<in> set (fec_rows k ps g)"
    using assms(2) len by (simp add: nth [symmetric])
qed

lemma nth_fec_frames:
  assumes "Suc g * unat k \<le> length ps" and "i < unat k"
  shows "fec_frames k ps g ! i = frame (ps ! seq_of k g i) (group_width (fec_rows k ps g))"
  using assms nth_fec_rows(1) [OF assms] by (simp add: fec_frames_def) (simp add: fec_rows_def)

lemma fec_frames_shape:
  "Suc g * unat k \<le> length ps \<Longrightarrow> length (fec_frames k ps g) = unat k"
  "list_all (\<lambda>row. length row = group_width (fec_rows k ps g)) (fec_frames k ps g)"
  by (simp_all add: fec_frames_def fec_rows_def list_all_iff)

lemma unframe_fec_frame:
  assumes "fec_stream c cfg ps" and "Suc g * unat (fc_k cfg) \<le> length ps" and "i < fc_k cfg"
  shows "unframe (fec_frames (fc_k cfg) ps g ! unat i) = Some (ps ! seq_of (fc_k cfg) g (unat i))"
proof -
  have i: "unat i < unat (fc_k cfg)" using assms(3) by (simp add: word_less_nat_alt)
  note row = nth_fec_rows [OF assms(2) i]
  have "length (ps ! seq_of (fc_k cfg) g (unat i)) < 2 ^ 32"
    using assms(1) row(2) by (simp add: fec_stream_def list_all_length)
  then show ?thesis
    using unframe_frame [OF _ group_width_ge [OF row(3)]] nth_fec_frames [OF assms(2) i] by simp
qed

lemma parity_row:
  assumes "fec_stream c cfg ps" "parity_of c cfg ps it"
  shows "length (pi_payload it) = group_width (fec_rows (fc_k cfg) ps (unat (pi_group it)))"
proof -
  have "pi_index it < fc_r cfg" using assms(2) by (simp add: parity_of_def)
  then have "fc_k cfg + pi_index it < fc_k cfg + fc_r cfg"
    using assms(1) index_no_wrap(3) by (simp add: fec_stream_def)
  then show ?thesis
    using assms fec_frames_shape(1) [of "unat (pi_group it)" "fc_k cfg" ps]
      fec_frames_shape(2) [of "fc_k cfg" ps "unat (pi_group it)"]
    unfolding fec_stream_def mds_def parity_of_def by fastforce
qed

lemma mds_decode:
  assumes "fec_stream c cfg ps" and "Suc g * unat (fc_k cfg) \<le> length ps"
    and "distinct (map fst items)"
    and "list_all (\<lambda>(i, row). i < fc_k cfg + fc_r cfg
      \<and> code_row c (fc_k cfg) (fc_k cfg + fc_r cfg) (fec_frames (fc_k cfg) ps g) i = Some row) items"
    and "unat (fc_k cfg) \<le> length items"
  obtains d where "cd_dec_new c (fc_k cfg) (fc_k cfg + fc_r cfg) = Some d"
    and "cd_complete c (fold (\<lambda>(i, row). cd_absorb c i row) items d)"
    and "cd_recover c (fold (\<lambda>(i, row). cd_absorb c i row) items d)
      = Some (fec_frames (fc_k cfg) ps g)"
  using assms fec_frames_shape(1) [OF assms(2)] fec_frames_shape(2) [of "fc_k cfg" ps g]
  unfolding fec_stream_def mds_def by blast

lemma group_complete:
  assumes "group_ok c cfg ps g st" and "gs_parities st \<noteq> []"
  shows "Suc (unat g) * unat (fc_k cfg) \<le> length ps"
  using assms by (cases "gs_parities st") (auto simp: group_ok_def parity_of_def)

lemma parity_widths:
  assumes "fec_stream c cfg ps" "group_ok c cfg ps g st"
  shows "list_all (\<lambda>(_, row). length row = group_width (fec_rows (fc_k cfg) ps (unat g)))
    (gs_parities st)"
  using assms(2) parity_row [OF assms(1)] by (fastforce simp: group_ok_def list_all_iff)

lemma absorbed_rows_ok:
  assumes "fec_stream c cfg ps" and "group_ok c cfg ps g st" and "gs_parities st \<noteq> []"
    and "w = group_width (fec_rows (fc_k cfg) ps (unat g))"
  shows "distinct (map fst (absorbed_rows (fc_k cfg) w st))"
    and "list_all (\<lambda>(i, row). i < fc_k cfg + fc_r cfg
      \<and> code_row c (fc_k cfg) (fc_k cfg + fc_r cfg) (fec_frames (fc_k cfg) ps (unat g)) i = Some row)
      (absorbed_rows (fc_k cfg) w st)"
proof -
  let ?k = "fc_k cfg"
  have wrap: "unat ?k + unat (fc_r cfg) < 2 ^ 16" using assms(1) by (simp add: fec_stream_def)
  have src: "i < ?k \<and> p = ps ! seq_of ?k (unat g) (unat i)" if "(i, p) \<in> set (gs_sources st)" for i p
    using that assms(2) by (auto simp: group_ok_def list_all_iff)
  have par: "parity_of c cfg ps \<lparr>pi_group = g, pi_index = i, pi_payload = row\<rparr>"
    if "(i, row) \<in> set (gs_parities st)" for i row
    using that assms(2) by (auto simp: group_ok_def list_all_iff)
  have ilt: "i < fc_r cfg" if "(i, row) \<in> set (gs_parities st)" for i row
    using par [OF that] by (simp add: parity_of_def)
  have d1: "distinct (map fst (gs_sources st))" "distinct (map fst (gs_parities st))"
    using assms(2) btm.ok_distinct by (auto simp: group_ok_def)
  have keys: "map fst (absorbed_rows ?k w st) =
      map fst (gs_sources st) @ map (\<lambda>i. ?k + i) (map fst (gs_parities st))"
    by (simp add: absorbed_rows_def comp_def case_prod_beta)
  show "distinct (map fst (absorbed_rows ?k w st))"
    unfolding keys distinct_append
  proof (intro conjI)
    show "set (map fst (gs_sources st)) \<inter> set (map ((+) ?k) (map fst (gs_parities st))) = {}"
    proof (rule equals0I)
      fix x assume "x \<in> set (map fst (gs_sources st)) \<inter> set (map ((+) ?k) (map fst (gs_parities st)))"
      then obtain i p row where "(?k + i, p) \<in> set (gs_sources st)" "(i, row) \<in> set (gs_parities st)"
        by auto
      then show False using src ilt index_no_wrap(2) [OF wrap] by blast
    qed
  qed (use d1 in \<open>auto simp: distinct_map inj_on_def\<close>)
  have kle: "i < ?k + fc_r cfg" if "i < ?k" for i
  proof -
    have "unat (?k + fc_r cfg) = unat ?k + unat (fc_r cfg)"
      using wrap by (intro unat_add_lem [THEN iffD1]) simp
    then show ?thesis using that by (simp add: word_less_nat_alt)
  qed
  have "i < ?k + fc_r cfg \<and> code_row c ?k (?k + fc_r cfg) (fec_frames ?k ps (unat g)) i
      = Some (frame p w)" if "(i, p) \<in> set (gs_sources st)" for i p
    using src [OF that] kle nth_fec_frames [OF group_complete [OF assms(2,3)], of "unat i"] assms(4)
    by (simp add: code_row_def word_less_nat_alt)
  moreover have "?k + i < ?k + fc_r cfg \<and>
      code_row c ?k (?k + fc_r cfg) (fec_frames ?k ps (unat g)) (?k + i) = Some row"
    if "(i, row) \<in> set (gs_parities st)" for i row
    using par [OF that] index_no_wrap(3) [OF wrap ilt [OF that]] by (simp add: parity_of_def)
  ultimately show "list_all (\<lambda>(i, row). i < ?k + fc_r cfg
      \<and> code_row c ?k (?k + fc_r cfg) (fec_frames ?k ps (unat g)) i = Some row)
      (absorbed_rows ?k w st)"
    by (auto simp: absorbed_rows_def list_all_iff)
qed

text \<open>The sources of the group that are not there, as the decoder returns them.\<close>

definition lost_sources :: "fec_config \<Rightarrow> u8 list list \<Rightarrow> u64 \<Rightarrow> group_state \<Rightarrow> (u64 \<times> u8 list) list" where
  "lost_sources cfg ps g st =
     map (\<lambda>i. (g * ucast (fc_k cfg) + ucast i, ps ! seq_of (fc_k cfg) (unat g) (unat i)))
       (filter (\<lambda>i. \<not> map_contains i (gs_sources st)) (range_u16 (fc_k cfg)))"

definition due :: "fec_config \<Rightarrow> group_state \<Rightarrow> bool" where
  "due cfg st \<longleftrightarrow> gs_parities st \<noteq> [] \<and> length (gs_sources st) < unat (fc_k cfg)
     \<and> unat (fc_k cfg) \<le> length (gs_sources st) + length (gs_parities st)"

lemma card_below: "card {i. i < (k :: u16)} = unat k"
proof -
  have "inj_on (of_nat :: nat \<Rightarrow> u16) {0 ..< unat k}"
    using unsigned_less [of k, where ?'a = nat]
    by (intro inj_on_inverseI [where g = unat]) simp
  then have "distinct (range_u16 k)" by (simp add: range_u16_def distinct_map)
  then have "card (set (range_u16 k)) = length (range_u16 k)" by (rule distinct_card)
  then show ?thesis unfolding set_range_u16 by (simp add: range_u16_def)
qed

lemma recover_group_due:
  assumes "fec_stream c cfg ps" and "group_ok c cfg ps g st" and "due cfg st"
  shows "\<exists>st'. recover_group c cfg g st = Some (st', lost_sources cfg ps g st)
    \<and> group_ok c cfg ps g st' \<and> gs_parities st' = gs_parities st
    \<and> fst ` set (gs_sources st') = {i. i < fc_k cfg}"
proof -
  let ?k = "fc_k cfg" and ?w = "group_width (fec_rows (fc_k cfg) ps (unat g))"
  let ?f = "\<lambda>i. ps ! seq_of (fc_k cfg) (unat g) (unat i)"
  let ?missing = "filter (\<lambda>i. \<not> map_contains i (gs_sources st)) (range_u16 ?k)"
  have ne: "gs_parities st \<noteq> []" using assms(3) by (simp add: due_def)
  note complete = group_complete [OF assms(2) ne]
  have kpos: "0 < ?k" using assms(1) by (simp add: fec_stream_def)
  have widths: "iter_max (map (length \<circ> snd) (gs_parities st)) = Some ?w"
    "\<not> list_ex (\<lambda>(_, p). length p \<noteq> ?w) (gs_parities st)"
  proof -
    have all: "\<forall>x \<in> set (gs_parities st). length (snd x) = ?w"
      using parity_widths [OF assms(1,2)] by (auto simp: list_all_iff)
    then have "set (map (length \<circ> snd) (gs_parities st)) = {?w}"
      using ne by (cases "gs_parities st") auto
    then show "iter_max (map (length \<circ> snd) (gs_parities st)) = Some ?w"
      using ne by (simp add: iter_max_def)
    show "\<not> list_ex (\<lambda>(_, p). length p \<noteq> ?w) (gs_parities st)"
      using all by (auto simp: list_ex_iff)
  qed
  have srcs: "\<not> list_ex (\<lambda>(_, s). ?w < 4 + length s) (gs_sources st)"
  proof -
    have "4 + length p \<le> ?w" if "(i, p) \<in> set (gs_sources st)" for i p
    proof -
      have "i < ?k" "p = ?f i" using that assms(2) by (auto simp: group_ok_def list_all_iff)
      then show ?thesis
        using group_width_ge [OF nth_fec_rows(3) [OF complete, of "unat i"]]
        by (simp add: word_less_nat_alt)
    qed
    then show ?thesis by (fastforce simp: list_ex_iff)
  qed
  obtain d where dec: "cd_dec_new c ?k (?k + fc_r cfg) = Some d"
    "cd_complete c (fold (\<lambda>(i, row). cd_absorb c i row) (absorbed_rows ?k ?w st) d)"
    "cd_recover c (fold (\<lambda>(i, row). cd_absorb c i row) (absorbed_rows ?k ?w st) d)
      = Some (fec_frames ?k ps (unat g))"
    using mds_decode [OF assms(1) complete absorbed_rows_ok [OF assms(1,2) ne refl]] assms(3)
    by (auto simp: due_def absorbed_rows_def)
  have fill: "fold (fill_missing ?k g (fec_frames ?k ps (unat g))) ?missing (st, []) =
      (st\<lparr>gs_sources := fold (\<lambda>i. btm_insert i (?f i)) ?missing (gs_sources st)\<rparr>,
       lost_sources cfg ps g st)"
    using unframe_fec_frame [OF assms(1) complete]
    by (subst fill_missing_fold [where f = ?f]) (auto simp: set_range_u16 lost_sources_def)
  let ?st = "st\<lparr>gs_sources := fold (\<lambda>i. btm_insert i (?f i)) ?missing (gs_sources st),
    gs_recovered := True\<rparr>"
  have ok: "btm_ok (gs_sources st)" using assms(2) by (simp add: group_ok_def)
  note ins = fold_btm_insert [OF ok, of ?f ?missing]
  have nrec: "\<not> gs_recovered st" using assms(2,3) by (auto simp: group_ok_def due_def)
  have rec: "recover_group c cfg g st = Some (?st, lost_sources cfg ps g st)"
    using assms(3) nrec widths srcs dec fill kpos
    by (simp add: recover_group_def due_def Let_def)
  have sub: "fst ` set (gs_sources st) \<subseteq> {i. i < ?k}"
    using assms(2) by (auto simp: group_ok_def list_all_iff)
  have keys: "fst ` set (gs_sources ?st) = {i. i < ?k}"
    using ins sub by (auto simp: set_range_u16 map_contains_def map_of_eq_None_iff)
  have full: "length (gs_sources ?st) = unat ?k"
    using btm_length [of "gs_sources ?st"] ins keys card_below by simp
  have "i < ?k \<and> seq_of ?k (unat g) (unat i) < length ps \<and> p = ?f i"
    if "(i, p) \<in> set (gs_sources ?st)" for i p
  proof -
    have "(i, p) \<in> set (gs_sources st) \<or> i < ?k \<and> p = ?f i"
      using that ins by (auto simp: set_range_u16)
    then have "i < ?k \<and> p = ?f i" using assms(2) by (auto simp: group_ok_def list_all_iff)
    then show ?thesis
      using nth_fec_rows(2) [OF complete, of "unat i"] by (simp add: word_less_nat_alt)
  qed
  then have "group_ok c cfg ps g ?st"
    using assms(2) ins full by (auto simp: group_ok_def list_all_iff)
  then show ?thesis using rec keys by (intro exI [of _ ?st]) simp
qed

lemma recover_group_not_due: "0 < fc_k cfg \<Longrightarrow> \<not> due cfg st \<Longrightarrow> recover_group c cfg g st = None"
  by (auto simp: recover_group_def due_def)

section \<open>Runs of a decoder\<close>

datatype fec_event = GotSource u64 "u8 list" | GotParity parity_item | Evicted u64

fun fec_step ::
    "('e, 'd) fec_codec \<Rightarrow> fec_event \<Rightarrow> group_decoder \<Rightarrow> (u64 \<times> u8 list) list \<times> group_decoder" where
  "fec_step c (GotSource sq payload) dec = add_source c sq payload dec"
| "fec_step c (GotParity it) dec = add_parity c it dec"
| "fec_step c (Evicted sq) dec = ([], evict_below sq dec)"

definition fec_run ::
    "('e, 'd) fec_codec \<Rightarrow> fec_config \<Rightarrow> fec_event list \<Rightarrow> (u64 \<times> u8 list) list \<times> group_decoder" where
  "fec_run c cfg evs =
     fold (\<lambda>ev (out, dec). let (new, dec) = fec_step c ev dec in (out @ new, dec)) evs
       ([], group_decoder_new cfg)"

fun genuine :: "('e, 'd) fec_codec \<Rightarrow> fec_config \<Rightarrow> u8 list list \<Rightarrow> fec_event \<Rightarrow> bool" where
  "genuine c cfg ps (GotSource sq payload) \<longleftrightarrow> unat sq < length ps \<and> payload = ps ! unat sq"
| "genuine c cfg ps (GotParity it) \<longleftrightarrow> parity_of c cfg ps it"
| "genuine c cfg ps (Evicted sq) \<longleftrightarrow> True"

definition from_stream :: "u8 list list \<Rightarrow> u64 \<times> u8 list \<Rightarrow> bool" where
  "from_stream ps = (\<lambda>(sq, payload). unat sq < length ps \<and> payload = ps ! unat sq)"

abbreviation keys :: "('k \<times> 'v) list \<Rightarrow> 'k set" where
  "keys m \<equiv> fst ` set m"

definition groups_ok :: "('e, 'd) fec_codec \<Rightarrow> fec_config \<Rightarrow> u8 list list \<Rightarrow> group_decoder \<Rightarrow> bool" where
  "groups_ok c cfg ps dec \<longleftrightarrow> gd_cfg dec = cfg \<and> hm_ok (gd_groups dec)
     \<and> (\<forall>g. group_ok c cfg ps g (group_or_default g (gd_groups dec))
          \<and> \<not> due cfg (group_or_default g (gd_groups dec)))"

lemma source_keys_below: "group_ok c cfg ps g st \<Longrightarrow> keys (gs_sources st) \<subseteq> {i. i < fc_k cfg}"
  by (auto simp: group_ok_def list_all_iff)

text \<open>What one attempt at recovery does to the group it is for.\<close>

definition attempt ::
    "fec_config \<Rightarrow> u8 list list \<Rightarrow> u64 \<Rightarrow> group_state \<Rightarrow> (u64 \<times> u8 list) list \<Rightarrow> group_state \<Rightarrow> bool" where
  "attempt cfg ps g st out st' \<longleftrightarrow> gs_parities st' = gs_parities st
     \<and> keys (gs_sources st) \<subseteq> keys (gs_sources st')
     \<and> keys (gs_sources st') \<subseteq> keys (gs_sources st) \<union> {i. g * ucast (fc_k cfg) + ucast i \<in> fst ` set out}
     \<and> list_all (from_stream ps) out"

lemma lost_sources_from_stream:
  assumes "fec_stream c cfg ps" and "Suc (unat g) * unat (fc_k cfg) \<le> length ps"
  shows "list_all (from_stream ps) (lost_sources cfg ps g st)"
  unfolding list_all_iff
proof
  fix x assume "x \<in> set (lost_sources cfg ps g st)"
  then obtain i where i: "i < fc_k cfg"
    "x = (g * ucast (fc_k cfg) + ucast i, ps ! seq_of (fc_k cfg) (unat g) (unat i))"
    by (auto simp: lost_sources_def set_range_u16)
  have lt: "seq_of (fc_k cfg) (unat g) (unat i) < length ps"
    using nth_fec_rows(2) [OF assms(2)] i(1) by (simp add: word_less_nat_alt)
  moreover have "length ps < 2 ^ 64" using assms(1) by (simp add: fec_stream_def)
  ultimately have "seq_of (fc_k cfg) (unat g) (unat i) < 2 ^ 64" by simp
  then show "from_stream ps x"
    using lt unat_seq by (simp add: i(2) from_stream_def)
qed

lemma recover_attempt:
  assumes "fec_stream c cfg ps" and "group_ok c cfg ps g st"
  shows "case recover_group c cfg g st of
      None \<Rightarrow> \<not> due cfg st
    | Some (st', out) \<Rightarrow> group_ok c cfg ps g st' \<and> \<not> due cfg st' \<and> attempt cfg ps g st out st'"
proof (cases "due cfg st")
  case False
  moreover have "0 < fc_k cfg" using assms(1) by (simp add: fec_stream_def)
  ultimately show ?thesis by (simp add: recover_group_not_due)
next
  case True
  obtain st' where r: "recover_group c cfg g st = Some (st', lost_sources cfg ps g st)"
    "group_ok c cfg ps g st'" "gs_parities st' = gs_parities st"
    "keys (gs_sources st') = {i. i < fc_k cfg}"
    using recover_group_due [OF assms True] by auto
  have complete: "Suc (unat g) * unat (fc_k cfg) \<le> length ps"
    using group_complete [OF assms(2)] True by (simp add: due_def)
  have "length (gs_sources st') = unat (fc_k cfg)"
    using r(2,4) btm_length [of "gs_sources st'"] card_below by (simp add: group_ok_def)
  then have "\<not> due cfg st'" by (simp add: due_def)
  moreover have "i \<in> keys (gs_sources st) \<or>
      g * ucast (fc_k cfg) + ucast i \<in> fst ` set (lost_sources cfg ps g st)" if "i < fc_k cfg" for i
    using that by (force simp: lost_sources_def set_range_u16 map_contains_def map_of_eq_None_iff)
  ultimately show ?thesis
    using r source_keys_below [OF assms(2)] lost_sources_from_stream [OF assms(1) complete]
    by (auto simp: attempt_def)
qed

lemma group_or_default_insert:
  "hm_ok m \<Longrightarrow> group_or_default h (hm_insert g st m) = (if h = g then st else group_or_default h m)"
  by (simp add: group_or_default_def hm.get_insert)

lemma try_recover_step:
  assumes "fec_stream c cfg ps" and "gd_cfg dec = cfg" and "hm_ok (gd_groups dec)"
    and "\<forall>h. h \<noteq> g \<longrightarrow> group_ok c cfg ps h (group_or_default h (gd_groups dec))
      \<and> \<not> due cfg (group_or_default h (gd_groups dec))"
    and "group_ok c cfg ps g st"
    and "try_recover c g (dec\<lparr>gd_groups := hm_insert g st (gd_groups dec)\<rparr>) = (out, dec')"
  shows "groups_ok c cfg ps dec'"
    and "\<exists>st'. attempt cfg ps g st out st' \<and>
      (\<forall>h. group_or_default h (gd_groups dec') =
        (if h = g then st' else group_or_default h (gd_groups dec)))"
proof -
  note ins = group_or_default_insert [OF assms(3)]
  have hm: "hm_ok (hm_insert g st (gd_groups dec))" using assms(3) by (rule hm.ok_insert)
  have get: "map_of (hm_insert g st (gd_groups dec)) g = Some st"
    using hm.get_insert [OF assms(3)] by simp
  have "groups_ok c cfg ps dec' \<and> (\<exists>st'. attempt cfg ps g st out st' \<and>
      (\<forall>h. group_or_default h (gd_groups dec') =
        (if h = g then st' else group_or_default h (gd_groups dec))))"
  proof (cases "recover_group c cfg g st")
    case None
    then have e: "out = []" "dec' = dec\<lparr>gd_groups := hm_insert g st (gd_groups dec)\<rparr>"
      using assms(2,6) get by (simp_all add: try_recover_def)
    have nd: "\<not> due cfg st" using recover_attempt [OF assms(1,5)] None by simp
    have "groups_ok c cfg ps dec'"
      using assms(2,4,5) hm nd ins by (simp add: groups_ok_def e(2))
    moreover have "attempt cfg ps g st out st" by (simp add: attempt_def e(1))
    ultimately show ?thesis using ins e(2) by (intro conjI exI [of _ st]) simp_all
  next
    case (Some r)
    obtain st' o' where so: "r = (st', o')" by fastforce
    have e: "out = o'" "dec' = dec\<lparr>gd_groups := hm_insert g st' (hm_insert g st (gd_groups dec))\<rparr>"
      using assms(2,6) get Some so by (simp_all add: try_recover_def)
    have rec: "group_ok c cfg ps g st' \<and> \<not> due cfg st' \<and> attempt cfg ps g st out st'"
      using recover_attempt [OF assms(1,5)] Some so e(1) by simp
    have get': "group_or_default h (gd_groups dec') =
        (if h = g then st' else group_or_default h (gd_groups dec))" for h
      using group_or_default_insert [OF hm] ins by (simp add: e(2))
    have "groups_ok c cfg ps dec'"
      using assms(2,4) hm.ok_insert [OF hm, of g st'] rec get' by (simp add: groups_ok_def) (simp add: e(2))
    then show ?thesis using rec get' by (intro conjI exI [of _ st']) simp_all
  qed
  then show "groups_ok c cfg ps dec'" and "\<exists>st'. attempt cfg ps g st out st' \<and>
      (\<forall>h. group_or_default h (gd_groups dec') =
        (if h = g then st' else group_or_default h (gd_groups dec)))" by simp_all
qed

text \<open>
  What has arrived for group \<open>g\<close>: the indices of its sources and of its parities; \<open>kept\<close>
  when no eviction reached it.
\<close>

definition got_sources :: "u16 \<Rightarrow> u64 \<Rightarrow> fec_event list \<Rightarrow> u16 set" where
  "got_sources k g evs = {ucast (sq mod ucast k) | sq p. GotSource sq p \<in> set evs \<and> group_of sq k = g}"

definition got_parities :: "u64 \<Rightarrow> fec_event list \<Rightarrow> u16 set" where
  "got_parities g evs = {pi_index it | it. GotParity it \<in> set evs \<and> pi_group it = g}"

definition kept :: "u16 \<Rightarrow> u64 \<Rightarrow> fec_event list \<Rightarrow> bool" where
  "kept k g evs \<longleftrightarrow> (\<forall>sq. Evicted sq \<in> set evs \<longrightarrow> group_of sq k \<le> g)"

definition history :: "fec_config \<Rightarrow> fec_event list \<Rightarrow> (u64 \<times> u8 list) list \<Rightarrow> group_decoder \<Rightarrow> u64 \<Rightarrow> bool" where
  "history cfg evs out dec g \<longleftrightarrow>
     (let st = group_or_default g (gd_groups dec); got = got_sources (fc_k cfg) g evs
      in got \<subseteq> keys (gs_sources st) \<and> got_parities g evs \<subseteq> keys (gs_parities st)
       \<and> keys (gs_sources st) \<subseteq> got \<union> {i. g * ucast (fc_k cfg) + ucast i \<in> fst ` set out})"

lemma got_simps [simp]:
  "got_sources k g [] = {}" "got_parities g [] = {}"
  "got_sources k g (evs @ [GotSource sq p]) =
     got_sources k g evs \<union> (if group_of sq k = g then {ucast (sq mod ucast k)} else {})"
  "got_sources k g (evs @ [GotParity it]) = got_sources k g evs"
  "got_sources k g (evs @ [Evicted sq]) = got_sources k g evs"
  "got_parities g (evs @ [GotParity it]) =
     got_parities g evs \<union> (if pi_group it = g then {pi_index it} else {})"
  "got_parities g (evs @ [GotSource sq p]) = got_parities g evs"
  "got_parities g (evs @ [Evicted sq]) = got_parities g evs"
  by (auto simp: got_sources_def got_parities_def)

lemma keys_or_insert: "keys (or_insert i p m) = Set.insert i (keys m)"
  by (auto simp: or_insert_def map_contains_def set_btm_insert intro: rev_image_eqI dest: map_of_SomeD)

lemma or_insert_ok:
  assumes "btm_ok m" and "list_all P m" and "P (i, p)"
  shows "btm_ok (or_insert i p m)" and "list_all P (or_insert i p m)"
  using assms set_btm_insert_pairs [of i p m]
  by (auto simp: or_insert_def btm_ok_insert list_all_iff)

lemma history_update:
  assumes "history cfg evs out dec g" and "attempt cfg ps grp st new st'"
    and "\<forall>h. group_or_default h (gd_groups dec') =
      (if h = grp then st' else group_or_default h (gd_groups dec))"
    and "g = grp \<Longrightarrow> keys (gs_sources st) =
      keys (gs_sources (group_or_default g (gd_groups dec))) \<union> got_sources (fc_k cfg) g (evs @ [ev])"
    and "g = grp \<Longrightarrow> keys (gs_parities st) =
      keys (gs_parities (group_or_default g (gd_groups dec))) \<union> got_parities g (evs @ [ev])"
    and "got_sources (fc_k cfg) g evs \<subseteq> got_sources (fc_k cfg) g (evs @ [ev])"
    and "g \<noteq> grp \<Longrightarrow> got_sources (fc_k cfg) g (evs @ [ev]) = got_sources (fc_k cfg) g evs
      \<and> got_parities g (evs @ [ev]) = got_parities g evs"
  shows "history cfg (evs @ [ev]) (out @ new) dec' g"
proof (cases "g = grp")
  case False
  have "group_or_default g (gd_groups dec') = group_or_default g (gd_groups dec)"
    using assms(3) False by simp
  then show ?thesis
    using assms(1) assms(7) [OF False] unfolding history_def Let_def by auto
next
  case True
  have st': "group_or_default g (gd_groups dec') = st'" using assms(3) True by simp
  show ?thesis
    using assms(1,2,6) assms(4,5) [OF True] True
    unfolding history_def Let_def st' attempt_def by (auto 0 3)
qed

lemma add_source_step:
  assumes "fec_stream c cfg ps" "groups_ok c cfg ps dec" "genuine c cfg ps (GotSource sq p)"
    and "add_source c sq p dec = (new, dec')"
  shows "groups_ok c cfg ps dec' \<and> list_all (from_stream ps) new
    \<and> (history cfg evs out dec g \<longrightarrow> history cfg (evs @ [GotSource sq p]) (out @ new) dec' g)"
proof -
  let ?k = "fc_k cfg" and ?g = "group_of sq (fc_k cfg)"
  let ?i = "ucast (sq mod ucast (fc_k cfg)) :: u16"
  let ?st = "group_or_default ?g (gd_groups dec)"
  let ?st1 = "?st\<lparr>gs_sources := or_insert ?i p (gs_sources ?st)\<rparr>"
  have k: "0 < ?k" using assms(1) by (simp add: fec_stream_def)
  have d: "gd_cfg dec = cfg" "hm_ok (gd_groups dec)" "group_ok c cfg ps ?g ?st"
    using assms(2) by (simp_all add: groups_ok_def)
  have idx: "unat ?i = unat sq mod unat ?k" using k by (rule unat_index_of)
  have lt: "?i < ?k" using k by (simp add: word_less_nat_alt idx)
  have seq: "seq_of ?k (unat ?g) (unat ?i) = unat sq"
    using idx unat_group_of [OF k, of sq] by (simp add: seq_of_def)
  have sub: "length (gs_sources ?st) \<le> length (or_insert ?i p (gs_sources ?st))"
    using d(3) btm.size_insert [of "gs_sources ?st" ?i p] by (auto simp: or_insert_def group_ok_def)
  have ok1: "group_ok c cfg ps ?g ?st1"
    using d(3) assms(3) sub lt seq
      or_insert_ok [of "gs_sources ?st" "\<lambda>(i, p). i < ?k \<and> seq_of ?k (unat ?g) (unat i) < length ps
        \<and> p = ps ! seq_of ?k (unat ?g) (unat i)" ?i p]
    by (auto simp: group_ok_def)
  have tr: "try_recover c ?g (dec\<lparr>gd_groups := hm_insert ?g ?st1 (gd_groups dec)\<rparr>) = (new, dec')"
    using assms(4) d(1) k by (simp add: add_source_def Let_def)
  have others: "\<forall>h. h \<noteq> ?g \<longrightarrow> group_ok c cfg ps h (group_or_default h (gd_groups dec))
      \<and> \<not> due cfg (group_or_default h (gd_groups dec))"
    using assms(2) by (simp add: groups_ok_def)
  note step = try_recover_step [OF assms(1) d(1,2) others ok1 tr]
  obtain st' where st': "attempt cfg ps ?g ?st1 new st'"
    "\<forall>h. group_or_default h (gd_groups dec') = (if h = ?g then st' else group_or_default h (gd_groups dec))"
    using step(2) by auto
  have "history cfg (evs @ [GotSource sq p]) (out @ new) dec' g" if h: "history cfg evs out dec g"
  proof (rule history_update [OF h st'])
    show "keys (gs_sources ?st1) = keys (gs_sources (group_or_default g (gd_groups dec)))
        \<union> got_sources ?k g (evs @ [GotSource sq p])" if "g = ?g"
      using h that by (auto simp: keys_or_insert history_def Let_def)
    show "keys (gs_parities ?st1) = keys (gs_parities (group_or_default g (gd_groups dec)))
        \<union> got_parities g (evs @ [GotSource sq p])" if "g = ?g"
      using h that by (auto simp: history_def Let_def)
  qed auto
  then show ?thesis using step(1) st'(1) by (simp add: attempt_def)
qed

lemma add_parity_step:
  assumes "fec_stream c cfg ps" "groups_ok c cfg ps dec" "genuine c cfg ps (GotParity it)"
    and "add_parity c it dec = (new, dec')"
  shows "groups_ok c cfg ps dec' \<and> list_all (from_stream ps) new
    \<and> (history cfg evs out dec g \<longrightarrow> history cfg (evs @ [GotParity it]) (out @ new) dec' g)"
proof -
  let ?k = "fc_k cfg" and ?g = "pi_group it"
  let ?st = "group_or_default ?g (gd_groups dec)"
  let ?st1 = "?st\<lparr>gs_parities := or_insert (pi_index it) (pi_payload it) (gs_parities ?st)\<rparr>"
  have d: "gd_cfg dec = cfg" "hm_ok (gd_groups dec)" "group_ok c cfg ps ?g ?st"
    using assms(2) by (simp_all add: groups_ok_def)
  have par: "parity_of c cfg ps it" "pi_index it < fc_r cfg"
    using assms(3) by (simp_all add: parity_of_def)
  have self: "parity_of c cfg ps \<lparr>pi_group = ?g, pi_index = pi_index it, pi_payload = pi_payload it\<rparr>"
    using par(1) by (cases it) simp
  have ok1: "group_ok c cfg ps ?g ?st1"
    using self d(3) or_insert_ok [of "gs_parities ?st" "\<lambda>(i, row). parity_of c cfg ps
        \<lparr>pi_group = ?g, pi_index = i, pi_payload = row\<rparr>" "pi_index it" "pi_payload it"]
    by (auto simp: group_ok_def)
  have tr: "try_recover c ?g (dec\<lparr>gd_groups := hm_insert ?g ?st1 (gd_groups dec)\<rparr>) = (new, dec')"
    using assms(4) d(1) par(2) by (auto simp: add_parity_def Let_def split: if_splits)
  have others: "\<forall>h. h \<noteq> ?g \<longrightarrow> group_ok c cfg ps h (group_or_default h (gd_groups dec))
      \<and> \<not> due cfg (group_or_default h (gd_groups dec))"
    using assms(2) by (simp add: groups_ok_def)
  note step = try_recover_step [OF assms(1) d(1,2) others ok1 tr]
  obtain st' where st': "attempt cfg ps ?g ?st1 new st'"
    "\<forall>h. group_or_default h (gd_groups dec') = (if h = ?g then st' else group_or_default h (gd_groups dec))"
    using step(2) by auto
  have "history cfg (evs @ [GotParity it]) (out @ new) dec' g" if h: "history cfg evs out dec g"
  proof (rule history_update [OF h st'])
    show "keys (gs_sources ?st1) = keys (gs_sources (group_or_default g (gd_groups dec)))
        \<union> got_sources ?k g (evs @ [GotParity it])" if "g = ?g"
      using h that by (auto simp: history_def Let_def)
    show "keys (gs_parities ?st1) = keys (gs_parities (group_or_default g (gd_groups dec)))
        \<union> got_parities g (evs @ [GotParity it])" if "g = ?g"
      using h that by (auto simp: keys_or_insert history_def Let_def)
  qed auto
  then show ?thesis using step(1) st'(1) by (simp add: attempt_def)
qed

lemma evict_step:
  assumes "0 < fc_k cfg" "groups_ok c cfg ps dec"
  shows "groups_ok c cfg ps (evict_below sq dec)"
    and "history cfg evs out dec g \<Longrightarrow> group_of sq (fc_k cfg) \<le> g \<Longrightarrow>
      history cfg (evs @ [Evicted sq]) out (evict_below sq dec) g"
proof -
  let ?m = "filter (\<lambda>(g, _). group_of sq (fc_k cfg) \<le> g) (gd_groups dec)"
  have d: "gd_cfg dec = cfg" "hm_ok (gd_groups dec)" using assms(2) by (simp_all add: groups_ok_def)
  have e: "evict_below sq dec = dec\<lparr>gd_groups := ?m\<rparr>" by (simp add: evict_below_def d(1))
  have get: "group_or_default h ?m =
      (if group_of sq (fc_k cfg) \<le> h then group_or_default h (gd_groups dec) else group_state_default)"
    for h
  proof -
    have "map_of (filter (\<lambda>(g, _). t \<le> g) m) h = (if t \<le> h then map_of m h else None)"
      for t and m :: "(u64 \<times> group_state) list"
      by (induction m) auto
    then show ?thesis by (simp add: group_or_default_def)
  qed
  have hm: "hm_ok ?m" using d(2) by (simp add: hm_ok_def distinct_map_filter)
  have "group_ok c cfg ps h group_state_default \<and> \<not> due cfg group_state_default" for h
    by (simp add: group_ok_def due_def group_state_default_def btm_ok_def)
  then show "groups_ok c cfg ps (evict_below sq dec)"
    using assms(2) hm get by (simp add: groups_ok_def e)
  show "history cfg (evs @ [Evicted sq]) out (evict_below sq dec) g"
    if "history cfg evs out dec g" "group_of sq (fc_k cfg) \<le> g"
    using that by (simp add: history_def e get)
qed

lemma fec_run_inv:
  assumes "fec_stream c cfg ps" and "list_all (genuine c cfg ps) evs"
    and "fec_run c cfg evs = (out, dec)"
  shows "groups_ok c cfg ps dec \<and> list_all (from_stream ps) out
    \<and> (kept (fc_k cfg) g evs \<longrightarrow> history cfg evs out dec g)"
  using assms(2,3)
proof (induction evs arbitrary: out dec rule: rev_induct)
  case Nil
  then show ?case
    by (auto simp: fec_run_def groups_ok_def group_decoder_new_def hm_ok_def group_or_default_def
        group_state_default_def group_ok_def due_def btm_ok_def history_def)
next
  case (snoc ev evs)
  obtain out0 dec0 where r: "fec_run c cfg evs = (out0, dec0)" by fastforce
  obtain new where s: "fec_step c ev dec0 = (new, dec)" "out = out0 @ new"
    using snoc.prems(2) r by (auto simp: fec_run_def split: prod.splits)
  have ih: "groups_ok c cfg ps dec0" "list_all (from_stream ps) out0"
    "kept (fc_k cfg) g evs \<longrightarrow> history cfg evs out0 dec0 g"
    using snoc.IH [OF _ r] snoc.prems(1) by simp_all
  have gen: "genuine c cfg ps ev" using snoc.prems(1) by simp
  show ?case
  proof (cases ev)
    case (GotSource sq p)
    then show ?thesis
      using add_source_step [OF assms(1) ih(1), of sq p new dec evs out0 g] gen s ih
      by (auto simp: kept_def)
  next
    case (GotParity it)
    then show ?thesis
      using add_parity_step [OF assms(1) ih(1), of it new dec evs out0 g] gen s ih
      by (auto simp: kept_def)
  next
    case (Evicted sq)
    have k: "0 < fc_k cfg" using assms(1) by (simp add: fec_stream_def)
    show ?thesis
      using evict_step(1) [OF k ih(1), of sq] evict_step(2) [OF k ih(1), of evs out0 g sq] s ih Evicted by (auto simp: kept_def)
  qed
qed

end
