(* ===== verification/Fec_Guarantee.thy ===== *)
theory Fec_Guarantee
  imports Fec_Recovery
begin

text \<open>
  The two properties of the repair groups: what a decoder gives back of a stream whose
  parity came from the encoder, and what happens to a stream that does not start at a
  multiple of the group size. The witnesses run on an exclusive-or code for groups of two.
\<close>

section \<open>A code for two sources and one parity\<close>

definition xor_rows :: "u8 list \<Rightarrow> u8 list \<Rightarrow> u8 list" where
  "xor_rows a b = map2 (XOR) a b"

definition xor_codec :: "(u8 list list, (u16 \<times> u8 list) list) fec_codec" where
  "xor_codec =
     \<lparr>cd_enc_new = (\<lambda>_ _. Some []), cd_feed = (\<lambda>row e. Some (e @ [row])),
      cd_parity = (\<lambda>_ e. case e of [a, b] \<Rightarrow> Some (xor_rows a b) | _ \<Rightarrow> None),
      cd_dec_new = (\<lambda>_ _. Some []), cd_absorb = (\<lambda>i row d. d @ [(i, row)]),
      cd_complete = (\<lambda>d. 2 \<le> length d),
      cd_recover = (\<lambda>d. case (map_of d 0, map_of d 1, map_of d 2) of
          (Some a, Some b, _) \<Rightarrow> Some [a, b]
        | (Some a, None, Some p) \<Rightarrow> Some [a, xor_rows a p]
        | (None, Some b, Some p) \<Rightarrow> Some [xor_rows b p, b]
        | _ \<Rightarrow> None)\<rparr>"

lemma xor_rows_cancel:
  "length a = length b \<Longrightarrow> xor_rows a (xor_rows a b) = b"
  "length a = length b \<Longrightarrow> xor_rows b (xor_rows a b) = a"
proof -
  have w: "x XOR (x XOR y) = y" "y XOR (x XOR y) = x" for x y :: u8
    by (rule bit_word_eqI, auto simp: bit_simps)+
  show "length a = length b \<Longrightarrow> xor_rows a (xor_rows a b) = b"
    "length a = length b \<Longrightarrow> xor_rows b (xor_rows a b) = a"
    by (induction a b rule: list_induct2) (simp_all add: xor_rows_def w)
qed

lemma fold_append_items: "fold (\<lambda>(i, row) d. d @ [(i, row)]) items d = d @ items"
  by (induction items arbitrary: d) auto

lemma less_3_cases: "(i :: u16) < 3 \<Longrightarrow> i = 0 \<or> i = 1 \<or> i = 2"
proof -
  assume "i < 3"
  then have "unat i < 3" by (simp add: word_less_nat_alt)
  then have "unat i = 0 \<or> unat i = 1 \<or> unat i = 2" by linarith
  moreover have "i = of_nat n" if "unat i = n" for n using that by (simp flip: that)
  ultimately show ?thesis by fastforce
qed

lemma two_of_three:
  assumes "distinct (map fst items)" and "2 \<le> length items" and "fst ` set items \<subseteq> {x, y, z}"
  shows "x \<in> fst ` set items \<or> y \<in> fst ` set items"
    and "x \<in> fst ` set items \<or> z \<in> fst ` set items"
    and "y \<in> fst ` set items \<or> z \<in> fst ` set items"
proof -
  have card: "card (fst ` set items) = length items"
    using distinct_card [OF assms(1)] by simp
  have small: "\<not> fst ` set items \<subseteq> {w}" for w
  proof
    assume "fst ` set items \<subseteq> {w}"
    then have "card (fst ` set items) \<le> 1" using card_mono [of "{w}"] by fastforce
    then show False using card assms(2) by simp
  qed
  show "x \<in> fst ` set items \<or> y \<in> fst ` set items"
    "x \<in> fst ` set items \<or> z \<in> fst ` set items"
    "y \<in> fst ` set items \<or> z \<in> fst ` set items"
    using small [of x] small [of y] small [of z] assms(3) by auto
qed

lemma mds_xor: "mds xor_codec 2 3"
  unfolding mds_def
proof (intro allI impI)
  fix rows :: "u8 list list" and w
  assume "length rows = unat (2 :: u16) \<and> list_all (\<lambda>row. length row = w) rows"
  then have len: "length rows = 2" and all: "list_all (\<lambda>row. length row = w) rows" by simp_all
  from len obtain a b where ab: "rows = [a, b]" by (auto simp: length_Suc_conv numeral_2_eq_2)
  with all have rows: "rows = [a, b]" "length a = w" "length b = w" by simp_all
  have row: "code_row xor_codec 2 3 rows 0 = Some a" "code_row xor_codec 2 3 rows 1 = Some b"
    "code_row xor_codec 2 3 rows 2 = Some (xor_rows a b)"
    by (simp_all add: code_row_def xor_codec_def rows)
  have "\<exists>row. code_row xor_codec 2 3 rows i = Some row \<and> length row = w" if "i < 3" for i
    using less_3_cases [OF that] row rows by (auto simp: xor_rows_def)
  moreover have "cd_complete xor_codec (fold (\<lambda>(i, row). cd_absorb xor_codec i row) items [])
      \<and> cd_recover xor_codec (fold (\<lambda>(i, row). cd_absorb xor_codec i row) items []) = Some rows"
    if items: "distinct (map fst items)" "unat (2 :: u16) \<le> length items"
      "list_all (\<lambda>(i, row). i < 3 \<and> code_row xor_codec 2 3 rows i = Some row) items"
    for items
  proof -
    have fold: "fold (\<lambda>(i, row). cd_absorb xor_codec i row) items [] = items"
      using fold_append_items [of items "[]"] by (simp add: xor_codec_def)
    have sub: "fst ` set items \<subseteq> {0, 1, 2}"
      using items(3) less_3_cases by (fastforce simp: list_all_iff)
    have get: "map_of items i = None \<or> map_of items i = code_row xor_codec 2 3 rows i" for i
      using items(3) map_of_SomeD [of items i] by (cases "map_of items i") (auto simp: list_all_iff)
    have none: "\<not> (map_of items 0 = None \<and> map_of items 1 = None)"
      "\<not> (map_of items 0 = None \<and> map_of items 2 = None)"
      "\<not> (map_of items 1 = None \<and> map_of items 2 = None)"
      using two_of_three [OF items(1) _ sub] items(2) by (simp_all add: map_of_eq_None_iff)
    have m: "map_of items 0 = None \<or> map_of items 0 = Some a"
      "map_of items 1 = None \<or> map_of items 1 = Some b"
      "map_of items 2 = None \<or> map_of items 2 = Some (xor_rows a b)"
      using get [of 0] get [of 1] get [of 2] row by simp_all
    have cancel: "xor_rows a (xor_rows a b) = b" "xor_rows b (xor_rows a b) = a"
      using xor_rows_cancel [of a b] rows by simp_all
    have "cd_recover xor_codec items = Some rows"
      using m none by (elim disjE) (simp_all add: xor_codec_def rows(1) cancel)
    then show ?thesis using fold items(2) by (simp add: xor_codec_def)
  qed
  ultimately show "(\<forall>i<3. \<exists>row. code_row xor_codec 2 3 rows i = Some row \<and> length row = w) \<and>
      (\<exists>d. cd_dec_new xor_codec 2 3 = Some d \<and>
        (\<forall>items. distinct (map fst items) \<and>
           list_all (\<lambda>(i, row). i < 3 \<and> code_row xor_codec 2 3 rows i = Some row) items \<and>
           unat (2 :: u16) \<le> length items \<longrightarrow>
           cd_complete xor_codec (fold (\<lambda>(i, row). cd_absorb xor_codec i row) items d) \<and>
           cd_recover xor_codec (fold (\<lambda>(i, row). cd_absorb xor_codec i row) items d) = Some rows))"
    by (intro conjI exI [of _ "[]"]) (simp_all add: xor_codec_def)
qed

section \<open>What a decoder gives back\<close>

text \<open>The stream's own items, the parity its encoder emitted, and evictions.\<close>

fun transmitted :: "('e, 'd) fec_codec \<Rightarrow> fec_config \<Rightarrow> u8 list list \<Rightarrow> fec_event \<Rightarrow> bool" where
  "transmitted c cfg ps (GotSource sq payload) \<longleftrightarrow> unat sq < length ps \<and> payload = ps ! unat sq"
| "transmitted c cfg ps (GotParity it) \<longleftrightarrow>
     it \<in> set (fst (push_all c ps (group_encoder_new 0 cfg)))"
| "transmitted c cfg ps (Evicted sq) \<longleftrightarrow> True"

lemma transmitted_genuine:
  assumes "fec_stream c cfg ps" and "transmitted c cfg ps ev"
  shows "genuine c cfg ps ev"
proof (cases ev)
  case (GotParity it)
  have "list_all (parity_of c cfg ([] @ ps)) (fst (push_all c ps (group_encoder_new 0 cfg)))"
    using assms(1) by (intro push_all_parity) (simp_all add: fec_stream_def group_encoder_new_def)
  then show ?thesis using assms(2) GotParity by (simp add: list_all_iff)
qed (use assms(2) in simp_all)

lemma fec_run_complete:
  assumes "fec_stream c cfg ps" and "list_all (genuine c cfg ps) evs"
    and "kept (fc_k cfg) g evs"
    and "unat (fc_k cfg) \<le> card (got_sources (fc_k cfg) g evs) + card (got_parities g evs)"
    and "i < fc_k cfg" and "i \<notin> got_sources (fc_k cfg) g evs"
  shows "(g * ucast (fc_k cfg) + ucast i, ps ! seq_of (fc_k cfg) (unat g) (unat i))
    \<in> set (fst (fec_run c cfg evs))"
proof -
  obtain out dec where r: "fec_run c cfg evs = (out, dec)" by fastforce
  note inv = fec_run_inv [OF assms(1,2) r, of g]
  let ?st = "group_or_default g (gd_groups dec)" and ?k = "fc_k cfg"
  have ok: "group_ok c cfg ps g ?st" "\<not> due cfg ?st" using inv by (simp_all add: groups_ok_def)
  have h: "got_sources ?k g evs \<subseteq> keys (gs_sources ?st)" "got_parities g evs \<subseteq> keys (gs_parities ?st)"
    "keys (gs_sources ?st) \<subseteq>
      got_sources ?k g evs \<union> {i. g * ucast ?k + ucast i \<in> fst ` set out}"
    using inv assms(3) by (simp_all add: history_def Let_def)
  have len: "length (gs_sources ?st) = card (keys (gs_sources ?st))"
    "length (gs_parities ?st) = card (keys (gs_parities ?st))"
    using ok(1) by (simp_all add: group_ok_def btm_length)
  have "card (got_sources ?k g evs) + card (got_parities g evs)
      \<le> length (gs_sources ?st) + length (gs_parities ?st)"
    unfolding len by (intro add_mono card_mono h(1,2)) simp_all
  then have "gs_parities ?st = [] \<or> unat ?k \<le> length (gs_sources ?st)"
    using ok(2) assms(4) by (auto simp: due_def)
  moreover have "card (got_sources ?k g evs) \<le> length (gs_sources ?st)"
    unfolding len by (intro card_mono h(1)) simp
  ultimately have "unat ?k \<le> card (keys (gs_sources ?st))"
    using assms(4) h(2) len by auto
  then have "keys (gs_sources ?st) = {i. i < ?k}"
    using source_keys_below [OF ok(1)] card_below [of ?k]
    by (intro card_seteq) simp_all
  then have i: "i \<in> keys (gs_sources ?st)" "g * ucast ?k + ucast i \<in> fst ` set out"
    using assms(5,6) h(3) by auto
  have lt: "seq_of ?k (unat g) (unat i) < length ps"
    using ok(1) i(1) by (auto simp: group_ok_def list_all_iff)
  moreover have "length ps < 2 ^ 64" using assms(1) by (simp add: fec_stream_def)
  ultimately have "unat (g * ucast ?k + ucast i) = seq_of ?k (unat g) (unat i)"
    by (intro unat_seq) simp
  then show ?thesis
    using i(2) inv r by (auto simp: list_all_iff from_stream_def)
qed

text \<open>The example: two payloads, the second and the parity of the group arrive.\<close>

definition fec_example_cfg :: fec_config where
  "fec_example_cfg = \<lparr>fc_k = 2, fc_r = 1\<rparr>"

definition fec_example_parity :: parity_item where
  "fec_example_parity =
     \<lparr>pi_group = 0, pi_index = 0, pi_payload = xor_rows (frame [7] 6) (frame [8, 9] 6)\<rparr>"

lemma fec_example_stream: "fec_stream xor_codec fec_example_cfg [[7], [8, 9]]"
  using mds_xor by (simp add: fec_stream_def fec_example_cfg_def)

lemma fec_example_push:
  "push_all xor_codec [[7], [8, 9]] (group_encoder_new 0 fec_example_cfg) =
     ([fec_example_parity], group_encoder_new 2 fec_example_cfg)"
  by code_simp



section \<open>A stream that starts inside a group\<close>

text \<open>
  The first number must be a multiple of the group size. \<open>GroupEncoder::new\<close> takes any
  first number, counts its groups from there and labels each with the group of its last item,
  while the decoder places a number by its quotient and remainder. For a stream that starts at
  1 in groups of two, the decoder that gets item 2 and the parity the encoder labelled group 1
  returns the item sent under 1 as the item 3.
\<close>

theorem fec_unaligned_start_returns_wrong_item:
  "let (parity, _) = push_all xor_codec [[7], [8], [9], [10]] (group_encoder_new 1 fec_example_cfg)
   in fst (fec_run xor_codec fec_example_cfg [GotSource 2 [8], GotParity (parity ! 0)]) = [(3, [7])]"
  by code_simp

end
