(* ===== verification/Session_Run.thy ===== *)
theory Session_Run
  imports Session Fec_Guarantee
begin

text \<open>
  What the consumer of \<open>Session\<close> delivers over any run in which the items and parities are
  those of the producers' streams: in order, at most once and unaltered within each session;
  everything, when everything arrives; and what a given-up number takes with it.
\<close>

section \<open>Runs\<close>

datatype session_input =
    InItem u64 u64 u64 "u8 list"
  | InParity u64 parity_item
  | InFrontier u64 u64
  | InNack u64
  | InTick u64

fun consumer_step ::
    "('e, 'd) fec_codec \<Rightarrow> session_input \<Rightarrow> session_consumer \<Rightarrow> stream_event list \<times> session_consumer" where
  "consumer_step c (InItem now_ms session sq payload) s = on_item c now_ms session sq payload s"
| "consumer_step c (InParity session item) s = on_parity c session item s"
| "consumer_step c (InFrontier session sq) s = consumer_on_frontier session sq s"
| "consumer_step c (InNack sq) s = ([], consumer_on_nack sq s)"
| "consumer_step c (InTick now_ms) s = snd (consumer_actions now_ms s)"

definition consumer_run ::
    "('e, 'd) fec_codec \<Rightarrow> u64 \<Rightarrow> consumer_config \<Rightarrow> session_input list
      \<Rightarrow> stream_event list \<times> session_consumer" where
  "consumer_run c first cfg ins =
     fold (\<lambda>x (events, s). let (new, s) = consumer_step c x s in (events @ new, s)) ins
       ([], consumer_new first cfg)"

text \<open>The events since the last reset, and the items among them.\<close>

fun is_reset :: "stream_event \<Rightarrow> bool" where
  "is_reset (SessionReset _) = True"
| "is_reset _ = False"

definition since_reset :: "stream_event list \<Rightarrow> stream_event list" where
  "since_reset events = rev (takeWhile (\<lambda>e. \<not> is_reset e) (rev events))"

fun event_items :: "stream_event \<Rightarrow> (u64 \<times> u8 list) list" where
  "event_items (Item sq p) = [(sq, p)]"
| "event_items _ = []"

definition items_of :: "stream_event list \<Rightarrow> (u64 \<times> u8 list) list" where
  "items_of events = concat (map event_items events)"

lemma items_of_simps [simp]:
  "items_of [] = []" "items_of (e # es) = event_items e @ items_of es"
  "items_of (as @ bs) = items_of as @ items_of bs"
  "items_of (map (\<lambda>(sq, p). Item sq p) ps) = ps"
  by (simp_all add: items_of_def) (induction ps; auto)

lemma since_reset_append:
  "list_all (\<lambda>e. \<not> is_reset e) new \<Longrightarrow> since_reset (events @ new) = since_reset events @ new"
proof -
  assume "list_all (\<lambda>e. \<not> is_reset e) new"
  then have "takeWhile (\<lambda>e. \<not> is_reset e) (rev new @ rev events) =
      rev new @ takeWhile (\<lambda>e. \<not> is_reset e) (rev events)"
    by (intro takeWhile_append2) (auto simp: list_all_iff)
  then show ?thesis by (simp add: since_reset_def)
qed

lemma since_reset_reset: "since_reset (events @ [SessionReset n]) = []"
  by (simp add: since_reset_def)

section \<open>The invariant\<close>

definition stream_items :: "u8 list list \<Rightarrow> (u64 \<times> u8 list) list" where
  "stream_items ps = map (\<lambda>i. (of_nat i, ps ! i)) [0 ..< length ps]"

lemma set_stream_items:
  assumes "length ps < 2 ^ 64"
  shows "x \<in> set (stream_items ps) \<longleftrightarrow> from_stream ps x"
proof
  assume "x \<in> set (stream_items ps)"
  then obtain i where "i < length ps" "x = (of_nat i, ps ! i)" by (auto simp: stream_items_def)
  then show "from_stream ps x"
    using assms by (simp add: from_stream_def unat_of_nat take_bit_nat_eq_self)
next
  assume "from_stream ps x"
  then have "unat (fst x) < length ps" "x = (of_nat (unat (fst x)), ps ! unat (fst x))"
    by (auto simp: from_stream_def)
  then show "x \<in> set (stream_items ps)" by (force simp: stream_items_def)
qed

text \<open>An input that belongs to the streams: items as sent, parity as the encoder emitted it.\<close>

fun input_ok ::
    "('e, 'd) fec_codec \<Rightarrow> consumer_config \<Rightarrow> (u64 \<Rightarrow> u8 list list) \<Rightarrow> session_input \<Rightarrow> bool" where
  "input_ok c cfg streams (InItem now_ms session sq payload) \<longleftrightarrow>
     unat sq < length (streams session) \<and> payload = streams session ! unat sq"
| "input_ok c cfg streams (InParity session item) \<longleftrightarrow>
     (case cc_fec cfg of None \<Rightarrow> True
      | Some shape \<Rightarrow> item \<in> set (fst (push_all c (streams session) (group_encoder_new 0 shape))))"
| "input_ok c cfg streams _ \<longleftrightarrow> True"

definition streams_ok :: "('e, 'd) fec_codec \<Rightarrow> consumer_config \<Rightarrow> (u64 \<Rightarrow> u8 list list) \<Rightarrow> bool" where
  "streams_ok c cfg streams \<longleftrightarrow> (\<forall>session. length (streams session) < 2 ^ 64
     \<and> (case cc_fec cfg of None \<Rightarrow> True | Some shape \<Rightarrow> fec_stream c shape (streams session)))"

definition fec_state_ok ::
    "('e, 'd) fec_codec \<Rightarrow> consumer_config \<Rightarrow> u8 list list \<Rightarrow> group_decoder option \<Rightarrow> bool" where
  "fec_state_ok c cfg ps fec \<longleftrightarrow>
     (case cc_fec cfg of None \<Rightarrow> fec = None
      | Some shape \<Rightarrow> (\<exists>dec. fec = Some dec \<and> groups_ok c shape ps dec))"

text \<open>\<open>ps\<close> is the stream of the session the consumer is locked to.\<close>

definition consumer_ok ::
    "('e, 'd) fec_codec \<Rightarrow> consumer_config \<Rightarrow> u8 list list \<Rightarrow> (u64 \<times> u8 list) list \<Rightarrow> session_consumer \<Rightarrow> bool" where
  "consumer_ok c cfg ps delivered s \<longleftrightarrow> sn_cfg s = cfg
     \<and> reorder_inv (cc_reorder_span cfg) (sn_reorder s) (stream_items ps) delivered
     \<and> fec_state_ok c cfg ps (sn_fec s)"

lemma groups_ok_new: "groups_ok c shape ps (group_decoder_new shape)"
  by (simp add: groups_ok_def group_decoder_new_def hm_ok_def group_or_default_def
      group_state_default_def group_ok_def due_def btm_ok_def)

lemma fec_state_ok_new: "fec_state_ok c cfg ps (map_option group_decoder_new (cc_fec cfg))"
  by (simp add: fec_state_ok_def groups_ok_new split: option.splits)

lemma fec_state_ok_evict:
  assumes "fec_state_ok c cfg ps fec"
    and "case cc_fec cfg of None \<Rightarrow> True | Some shape \<Rightarrow> fec_stream c shape ps"
  shows "fec_state_ok c cfg ps (map_option (evict_below sq) fec)"
proof (cases "cc_fec cfg")
  case None
  then show ?thesis using assms(1) by (simp add: fec_state_ok_def)
next
  case (Some shape)
  then have "0 < fc_k shape" using assms(2) by (simp add: fec_stream_def)
  then show ?thesis
    using assms(1) Some evict_step(1) by (auto simp: fec_state_ok_def)
qed

text \<open>The consumer's building blocks.\<close>

definition plain :: "('e, 'd) fec_codec \<Rightarrow> consumer_config \<Rightarrow> u8 list list \<Rightarrow> bool" where
  "plain c cfg ps \<longleftrightarrow> length ps < 2 ^ 64
     \<and> (case cc_fec cfg of None \<Rightarrow> True | Some shape \<Rightarrow> fec_stream c shape ps)"

lemma sync_cursor_ok:
  assumes "plain c cfg ps" and "consumer_ok c cfg ps delivered s"
  shows "consumer_ok c cfg ps delivered (sync_cursor s)"
  using assms fec_state_ok_evict [of c cfg ps "sn_fec s"]
  by (simp add: consumer_ok_def sync_cursor_def Let_def plain_def)

lemma insert_item_ok:
  assumes "plain c cfg ps" and "consumer_ok c cfg ps delivered s" and "from_stream ps (sq, p)"
  shows "consumer_ok c cfg ps delivered (insert_item sq p s)"
proof -
  have "(sq, p) \<in> set (stream_items ps)"
    using assms(1,3) set_stream_items by (simp add: plain_def)
  moreover have "reorder_inv (cc_reorder_span cfg) (sn_reorder s) (stream_items ps) delivered"
    using assms(2) by (simp add: consumer_ok_def)
  ultimately have
    "reorder_inv (cc_reorder_span cfg) (snd (reorder_insert sq p (sn_reorder s))) (stream_items ps) delivered"
    by (rule reorder_inv_insert [rotated])
  then show ?thesis using assms(2) by (simp add: consumer_ok_def insert_item_def)
qed

lemma pop_items_ok:
  assumes "consumer_ok c cfg ps delivered s" and "pop_items s = (new, s')"
  shows "consumer_ok c cfg ps (delivered @ items_of new) s'" and "list_all (\<lambda>e. \<not> is_reset e) new"
proof -
  obtain ds b where p: "pop_ready (sn_reorder s) = (ds, b)" by fastforce
  then have e: "new = map (\<lambda>(sq, p). Item sq p) ds" "s' = s\<lparr>sn_reorder := b\<rparr>"
    using assms(2) by (auto simp: pop_items_def)
  show "consumer_ok c cfg ps (delivered @ items_of new) s'"
    using assms(1) reorder_inv_pop [OF _ p] by (simp add: consumer_ok_def e)
  show "list_all (\<lambda>e. \<not> is_reset e) new"
    by (auto simp: e list_all_iff)
qed

lemma fold_insert_ok:
  assumes "plain c cfg ps" and "consumer_ok c cfg ps delivered s" and "list_all (from_stream ps) recovered"
  shows "consumer_ok c cfg ps delivered (fold (\<lambda>(sq, payload) s.
    insert_item sq payload (s\<lparr>sn_fetcher := mark_have sq (sn_fetcher s)\<rparr>)) recovered s)"
  using assms(2,3)
proof (induction recovered arbitrary: s)
  case Nil
  then show ?case by simp
next
  case (Cons x recovered)
  obtain sq p where x: "x = (sq, p)" by fastforce
  have "consumer_ok c cfg ps delivered (s\<lparr>sn_fetcher := mark_have sq (sn_fetcher s)\<rparr>)"
    using Cons.prems(1) by (simp add: consumer_ok_def)
  then have "consumer_ok c cfg ps delivered
      (insert_item sq p (s\<lparr>sn_fetcher := mark_have sq (sn_fetcher s)\<rparr>))"
    using Cons.prems(2) x by (intro insert_item_ok [OF assms(1)]) simp_all
  then show ?case using Cons.IH Cons.prems(2) x by simp
qed

lemma deliver_recovered_ok:
  assumes "plain c cfg ps" and "consumer_ok c cfg ps delivered s" and "list_all (from_stream ps) recovered"
    and "deliver_recovered recovered s = (new, s')"
  shows "consumer_ok c cfg ps (delivered @ items_of new) s'" and "list_all (\<lambda>e. \<not> is_reset e) new"
proof -
  let ?s = "fold (\<lambda>(sq, payload) s.
    insert_item sq payload (s\<lparr>sn_fetcher := mark_have sq (sn_fetcher s)\<rparr>)) recovered s"
  obtain new' s1 where p: "pop_items ?s = (new', s1)" by fastforce
  then have e: "new = new'" "s' = sync_cursor s1"
    using assms(4) by (auto simp: deliver_recovered_def)
  note pop = pop_items_ok [OF fold_insert_ok [OF assms(1-3)] p]
  show "consumer_ok c cfg ps (delivered @ items_of new) s'"
    using sync_cursor_ok [OF assms(1) pop(1)] e by simp
  show "list_all (\<lambda>e. \<not> is_reset e) new" using pop(2) e by simp
qed

lemma absorb_ok:
  assumes "plain c cfg ps" and "consumer_ok c cfg ps delivered s" and "from_stream ps (sq, p)"
    and "list_all (from_stream ps) recovered" and "absorb sq p recovered s = (new, s')"
  shows "consumer_ok c cfg ps (delivered @ items_of new) s'" and "list_all (\<lambda>e. \<not> is_reset e) new"
proof -
  obtain n1 s1 where d: "deliver_recovered recovered (insert_item sq p s) = (n1, s1)" by fastforce
  obtain n2 s2 where p: "pop_items s1 = (n2, s2)" by fastforce
  have e: "new = n1 @ n2" "s' = sync_cursor s2"
    using assms(5) d p by (auto simp: absorb_def)
  note a = deliver_recovered_ok [OF assms(1) insert_item_ok [OF assms(1-3)] assms(4) d]
  note b = pop_items_ok [OF a(1) p]
  show "consumer_ok c cfg ps (delivered @ items_of new) s'"
    using sync_cursor_ok [OF assms(1) b(1)] e by simp
  show "list_all (\<lambda>e. \<not> is_reset e) new" using a(2) b(2) e by simp
qed

lemma give_up_ok:
  assumes "plain c cfg ps" and "consumer_ok c cfg ps delivered s" and "give_up sq s = (new, s')"
  shows "consumer_ok c cfg ps (delivered @ items_of new) s'" and "list_all (\<lambda>e. \<not> is_reset e) new"
proof -
  obtain lost b where k: "skip_to (sq + 1) (sn_reorder s) = (lost, b)" by fastforce
  obtain n1 s1 where p: "pop_items (s\<lparr>sn_reorder := b\<rparr>) = (n1, s1)" by fastforce
  have e: "new = (if lost = [] then [] else [Lost lost]) @ n1" "s' = sync_cursor s1"
    using assms(3) k p by (auto simp: give_up_def)
  have "consumer_ok c cfg ps delivered (s\<lparr>sn_reorder := b\<rparr>)"
    using assms(2) reorder_inv_skip [OF _ k] by (simp add: consumer_ok_def)
  note pop = pop_items_ok [OF this p]
  show "consumer_ok c cfg ps (delivered @ items_of new) s'"
    using sync_cursor_ok [OF assms(1) pop(1)] e by simp
  show "list_all (\<lambda>e. \<not> is_reset e) new" using pop(2) e by simp
qed

lemma actions_ok:
  assumes "plain c cfg ps" and "consumer_ok c cfg ps (delivered @ items_of events) s"
    and "list_all (\<lambda>e. \<not> is_reset e) events"
    and "fold action_step acts (fetches, events, s) = (fetches', events', s')"
  shows "consumer_ok c cfg ps (delivered @ items_of events') s' \<and> list_all (\<lambda>e. \<not> is_reset e) events'"
  using assms(2-4)
proof (induction acts arbitrary: fetches events s)
  case Nil
  then show ?case by simp
next
  case (Cons a acts)
  show ?case
  proof (cases a)
    case (Fetch sq retry)
    then show ?thesis using Cons.IH [OF Cons.prems(1,2)] Cons.prems(3) by simp
  next
    case (GiveUp sq)
    obtain new s1 where g: "give_up sq s = (new, s1)" by fastforce
    note ok = give_up_ok [OF assms(1) Cons.prems(1) g]
    have "list_all (\<lambda>e. \<not> is_reset e) (events @ new)" using Cons.prems(2) ok(2) by simp
    moreover have "consumer_ok c cfg ps (delivered @ items_of (events @ new)) s1"
      using ok(1) by simp
    ultimately show ?thesis
      using Cons.IH [of "events @ new" s1 fetches] Cons.prems(3) GiveUp g by simp
  qed
qed

lemma consumer_actions_ok:
  assumes "plain c cfg ps" and "consumer_ok c cfg ps delivered s"
    and "snd (consumer_actions now s) = (new, s')"
  shows "consumer_ok c cfg ps (delivered @ items_of new) s'" and "list_all (\<lambda>e. \<not> is_reset e) new"
proof -
  obtain acts f where a: "fetch_actions now (sn_fetcher s) = (acts, f)" by fastforce
  obtain fetches where f: "fold action_step acts ([], [], s\<lparr>sn_fetcher := f\<rparr>) = (fetches, new, s')"
    using assms(3) a by (cases "consumer_actions now s") (simp add: consumer_actions_def)
  have "consumer_ok c cfg ps (delivered @ items_of []) (s\<lparr>sn_fetcher := f\<rparr>)"
    using assms(2) by (simp add: consumer_ok_def)
  from actions_ok [OF assms(1) this _ f]
  show "consumer_ok c cfg ps (delivered @ items_of new) s'" and "list_all (\<lambda>e. \<not> is_reset e) new"
    by simp_all
qed

lemma add_source_from_stream:
  assumes "fec_stream c shape ps" "groups_ok c shape ps dec" "from_stream ps (sq, p)"
    and "add_source c sq p dec = (new, dec')"
  shows "groups_ok c shape ps dec'" and "list_all (from_stream ps) new"
  using add_source_step [OF assms(1,2) _ assms(4), of "[]" "[]" 0] assms(3)
  by (simp_all add: from_stream_def)

lemma add_parity_from_stream:
  assumes "fec_stream c shape ps" "groups_ok c shape ps dec"
    and "item \<in> set (fst (push_all c ps (group_encoder_new 0 shape)))"
    and "add_parity c item dec = (new, dec')"
  shows "groups_ok c shape ps dec'" and "list_all (from_stream ps) new"
proof -
  have "genuine c shape ps (GotParity item)"
    using transmitted_genuine [OF assms(1), of "GotParity item"] assms(3) by simp
  from add_parity_step [OF assms(1,2) this assms(4), of "[]" "[]" 0]
  show "groups_ok c shape ps dec'" and "list_all (from_stream ps) new" by simp_all
qed

lemma item_body_ok:
  assumes "plain c cfg ps" and "consumer_ok c cfg ps delivered s" and "from_stream ps (sq, p)"
    and "(case sn_fec s of
            None \<Rightarrow> absorb sq p [] s
          | Some fec \<Rightarrow>
              let (recovered, fec) = add_source c sq p fec
              in absorb sq p recovered (s\<lparr>sn_fec := Some fec\<rparr>)) = (new, s')"
  shows "consumer_ok c cfg ps (delivered @ items_of new) s' \<and> list_all (\<lambda>e. \<not> is_reset e) new"
proof (cases "sn_fec s")
  case None
  then have "absorb sq p [] s = (new, s')" using assms(4) by simp
  from absorb_ok [OF assms(1-3) _ this] show ?thesis by simp
next
  case (Some dec)
  obtain shape where shape: "cc_fec cfg = Some shape"
    using assms(2) Some by (cases "cc_fec cfg") (auto simp: consumer_ok_def fec_state_ok_def)
  obtain recovered dec' where a: "add_source c sq p dec = (recovered, dec')" by fastforce
  have fec: "fec_stream c shape ps" "groups_ok c shape ps dec"
    using assms(1,2) shape Some by (auto simp: plain_def consumer_ok_def fec_state_ok_def)
  note src = add_source_from_stream [OF fec assms(3) a]
  have "consumer_ok c cfg ps delivered (s\<lparr>sn_fec := Some dec'\<rparr>)"
    using assms(2) shape src(1) by (simp add: consumer_ok_def fec_state_ok_def)
  moreover have "absorb sq p recovered (s\<lparr>sn_fec := Some dec'\<rparr>) = (new, s')"
    using assms(4) Some a by simp
  ultimately show ?thesis using absorb_ok [OF assms(1) _ assms(3) src(2)] by blast
qed

lemma parity_body_ok:
  assumes "plain c cfg ps" and "consumer_ok c cfg ps delivered s"
    and "case cc_fec cfg of None \<Rightarrow> True
      | Some shape \<Rightarrow> item \<in> set (fst (push_all c ps (group_encoder_new 0 shape)))"
    and "(case sn_fec s of
            None \<Rightarrow> ([], s)
          | Some fec \<Rightarrow>
              let (recovered, fec) = add_parity c item fec
              in deliver_recovered recovered (s\<lparr>sn_fec := Some fec\<rparr>)) = (new, s')"
  shows "consumer_ok c cfg ps (delivered @ items_of new) s' \<and> list_all (\<lambda>e. \<not> is_reset e) new"
proof (cases "sn_fec s")
  case None
  then show ?thesis using assms(2,4) by simp
next
  case (Some dec)
  obtain shape where shape: "cc_fec cfg = Some shape"
    using assms(2) Some by (cases "cc_fec cfg") (auto simp: consumer_ok_def fec_state_ok_def)
  obtain recovered dec' where a: "add_parity c item dec = (recovered, dec')" by fastforce
  have fec: "fec_stream c shape ps" "groups_ok c shape ps dec"
    using assms(1,2) shape Some by (auto simp: plain_def consumer_ok_def fec_state_ok_def)
  have item: "item \<in> set (fst (push_all c ps (group_encoder_new 0 shape)))"
    using assms(3) shape by simp
  note par = add_parity_from_stream [OF fec item a]
  have "consumer_ok c cfg ps delivered (s\<lparr>sn_fec := Some dec'\<rparr>)"
    using assms(2) shape par(1) by (simp add: consumer_ok_def fec_state_ok_def)
  moreover have "deliver_recovered recovered (s\<lparr>sn_fec := Some dec'\<rparr>) = (new, s')"
    using assms(4) Some a by simp
  ultimately show ?thesis using deliver_recovered_ok [OF assms(1) _ par(2)] by blast
qed

text \<open>The whole run. Before the first session is seen nothing has been delivered.\<close>

definition run_ok ::
    "('e, 'd) fec_codec \<Rightarrow> consumer_config \<Rightarrow> (u64 \<Rightarrow> u8 list list) \<Rightarrow> stream_event list
      \<Rightarrow> session_consumer \<Rightarrow> bool" where
  "run_ok c cfg streams events s \<longleftrightarrow>
     (\<forall>n. (sn_session s = None \<or> sn_session s = Some n) \<longrightarrow>
        consumer_ok c cfg (streams n) (items_of (since_reset events)) s)"

lemma run_ok_step:
  assumes "run_ok c cfg streams events s" and "sn_session s' = sn_session s"
    and "\<And>n delivered. consumer_ok c cfg (streams n) delivered s \<Longrightarrow>
      sn_session s = None \<or> sn_session s = Some n \<Longrightarrow>
      consumer_ok c cfg (streams n) (delivered @ items_of new) s' \<and> list_all (\<lambda>e. \<not> is_reset e) new"
  shows "run_ok c cfg streams (events @ new) s'"
  unfolding run_ok_def
proof (intro allI impI)
  fix n assume n: "sn_session s' = None \<or> sn_session s' = Some n"
  then have n': "sn_session s = None \<or> sn_session s = Some n" using assms(2) by simp
  then have "consumer_ok c cfg (streams n) (items_of (since_reset events)) s"
    using assms(1) n' unfolding run_ok_def by blast
  from assms(3) [OF this n'] show "consumer_ok c cfg (streams n) (items_of (since_reset (events @ new))) s'"
    by (simp add: since_reset_append)
qed

lemma admit_ok:
  assumes "run_ok c cfg streams events s" and "admit_session session s = (r, s')"
    and "sn_cfg s = cfg"
  shows "case r of
      Inl new \<Rightarrow> run_ok c cfg streams (events @ new) s'
    | Inr _ \<Rightarrow> run_ok c cfg streams events s' \<and> sn_session s' = Some session"
proof -
  have new: "consumer_ok c cfg ps [] (s\<lparr>sn_session := Some session,
      sn_reorder := reorder_new 0 (cc_reorder_span cfg),
      sn_fetcher := fetcher_new 0 (cc_fetcher cfg),
      sn_fec := map_option group_decoder_new (cc_fec cfg)\<rparr>)" for ps
    using assms(3) by (simp add: consumer_ok_def reorder_inv_new fec_state_ok_new)
  show ?thesis
    using assms new by (auto simp: admit_session_def run_ok_def since_reset_reset consumer_ok_def
        split: option.splits if_splits)
qed

text \<open>Only \<open>admit_session\<close> touches the session.\<close>

lemma session_sync [simp]: "sn_session (sync_cursor s) = sn_session s"
  by (simp add: sync_cursor_def Let_def)

lemma session_insert [simp]: "sn_session (insert_item sq p s) = sn_session s"
  by (simp add: insert_item_def)

lemma session_pop: "pop_items s = (new, s') \<Longrightarrow> sn_session s' = sn_session s"
  by (auto simp: pop_items_def split: prod.splits)

lemma session_fold_insert [simp]:
  "sn_session (fold (\<lambda>(sq, payload) s.
    insert_item sq payload (s\<lparr>sn_fetcher := mark_have sq (sn_fetcher s)\<rparr>)) recovered s) = sn_session s"
  by (induction recovered arbitrary: s) auto

lemma session_deliver: "deliver_recovered recovered s = (new, s') \<Longrightarrow> sn_session s' = sn_session s"
  by (auto simp: deliver_recovered_def dest!: session_pop split: prod.splits)

lemma session_absorb: "absorb sq p recovered s = (new, s') \<Longrightarrow> sn_session s' = sn_session s"
  by (auto simp: absorb_def dest!: session_pop session_deliver split: prod.splits)

lemma session_give_up: "give_up sq s = (new, s') \<Longrightarrow> sn_session s' = sn_session s"
  by (auto simp: give_up_def dest!: session_pop split: prod.splits)

lemma session_actions:
  "fold action_step acts (fetches, events, s) = (fetches', events', s') \<Longrightarrow> sn_session s' = sn_session s"
proof (induction acts arbitrary: fetches events s)
  case Nil
  then show ?case by simp
next
  case (Cons a acts)
  show ?case
  proof (cases a)
    case (Fetch sq retry)
    then show ?thesis using Cons.IH [of "fetches @ [Fetch sq retry]" events s] Cons.prems by simp
  next
    case (GiveUp sq)
    obtain new s1 where g: "give_up sq s = (new, s1)" by fastforce
    show ?thesis
      using Cons.IH [of fetches "events @ new" s1] Cons.prems GiveUp g session_give_up [OF g] by simp
  qed
qed

lemma item_step_ok:
  assumes "streams_ok c cfg streams" and "run_ok c cfg streams events s" and "sn_cfg s = cfg"
    and "input_ok c cfg streams (InItem now session sq p)"
    and "on_item c now session sq p s = (new, s')"
  shows "run_ok c cfg streams (events @ new) s'"
proof -
  obtain r s1 where adm: "admit_session session s = (r, s1)" by fastforce
  note ok = admit_ok [OF assms(2) adm assms(3)]
  show ?thesis
  proof (cases r)
    case (Inl e)
    then show ?thesis using ok assms(5) adm by (simp add: on_item_def)
  next
    case (Inr u)
    let ?s = "s1\<lparr>sn_fetcher := on_data now sq (sn_fetcher s1)\<rparr>"
    have body: "(case sn_fec ?s of
            None \<Rightarrow> absorb sq p [] ?s
          | Some fec \<Rightarrow>
              let (recovered, fec) = add_source c sq p fec
              in absorb sq p recovered (?s\<lparr>sn_fec := Some fec\<rparr>)) = (new, s')"
      using assms(5) adm Inr by (simp add: on_item_def Let_def)
    have run: "run_ok c cfg streams events ?s" "sn_session ?s = Some session"
      using ok Inr by (simp_all add: run_ok_def consumer_ok_def)
    have "sn_session s' = sn_session ?s"
      using body by (auto dest!: session_absorb split: option.splits prod.splits)
    then show ?thesis
    proof (rule run_ok_step [OF run(1)])
      fix n delivered
      assume c: "consumer_ok c cfg (streams n) delivered ?s"
        and "sn_session ?s = None \<or> sn_session ?s = Some n"
      then have n: "n = session" using run(2) by simp
      show "consumer_ok c cfg (streams n) (delivered @ items_of new) s' \<and> list_all (\<lambda>e. \<not> is_reset e) new"
        using assms(1,4) n body
        by (intro item_body_ok [OF _ c]) (auto simp: streams_ok_def plain_def from_stream_def)
    qed
  qed
qed

lemma parity_step_ok:
  assumes "streams_ok c cfg streams" and "run_ok c cfg streams events s" and "sn_cfg s = cfg"
    and "input_ok c cfg streams (InParity session item)"
    and "on_parity c session item s = (new, s')"
  shows "run_ok c cfg streams (events @ new) s'"
proof -
  obtain r s1 where adm: "admit_session session s = (r, s1)" by fastforce
  note ok = admit_ok [OF assms(2) adm assms(3)]
  show ?thesis
  proof (cases r)
    case (Inl e)
    then show ?thesis using ok assms(5) adm by (simp add: on_parity_def)
  next
    case (Inr u)
    have body: "(case sn_fec s1 of
            None \<Rightarrow> ([], s1)
          | Some fec \<Rightarrow>
              let (recovered, fec) = add_parity c item fec
              in deliver_recovered recovered (s1\<lparr>sn_fec := Some fec\<rparr>)) = (new, s')"
      using assms(5) adm Inr by (simp add: on_parity_def)
    have run: "run_ok c cfg streams events s1" "sn_session s1 = Some session"
      using ok Inr by simp_all
    have "sn_session s' = sn_session s1"
      using body by (auto dest!: session_deliver split: option.splits prod.splits)
    then show ?thesis
    proof (rule run_ok_step [OF run(1)])
      fix n delivered
      assume c: "consumer_ok c cfg (streams n) delivered s1"
        and "sn_session s1 = None \<or> sn_session s1 = Some n"
      then have n: "n = session" using run(2) by simp
      show "consumer_ok c cfg (streams n) (delivered @ items_of new) s' \<and> list_all (\<lambda>e. \<not> is_reset e) new"
        using assms(1,4) n body
        by (intro parity_body_ok [OF _ c]) (auto simp: streams_ok_def plain_def)
    qed
  qed
qed

lemma frontier_step_ok:
  assumes "run_ok c cfg streams events s" and "sn_cfg s = cfg"
    and "consumer_on_frontier session sq s = (new, s')"
  shows "run_ok c cfg streams (events @ new) s'"
proof -
  obtain r s1 where adm: "admit_session session s = (r, s1)" by fastforce
  note ok = admit_ok [OF assms(1) adm assms(2)]
  show ?thesis
    using ok assms(3) adm
    by (cases r) (auto simp: consumer_on_frontier_def run_ok_def consumer_ok_def)
qed

lemma consumer_step_ok:
  assumes "streams_ok c cfg streams" and "run_ok c cfg streams events s" and "sn_cfg s = cfg"
    and "input_ok c cfg streams x" and "consumer_step c x s = (new, s')"
  shows "run_ok c cfg streams (events @ new) s'"
proof (cases x)
  case (InItem now session sq p)
  have "input_ok c cfg streams (InItem now session sq p)" "on_item c now session sq p s = (new, s')"
    using assms(4,5) InItem by simp_all
  then show ?thesis by (rule item_step_ok [OF assms(1-3)])
next
  case (InParity session item)
  then show ?thesis using parity_step_ok [OF assms(1-3)] assms(4,5) by simp
next
  case (InFrontier session sq)
  then show ?thesis using frontier_step_ok [OF assms(2,3)] assms(5) by simp
next
  case (InNack sq)
  then have "new = []" "s' = s\<lparr>sn_fetcher := on_nack sq (sn_fetcher s)\<rparr>"
    using assms(5) by (simp_all add: consumer_on_nack_def)
  then show ?thesis using assms(2) by (simp add: run_ok_def consumer_ok_def)
next
  case (InTick now)
  obtain acts f where a: "fetch_actions now (sn_fetcher s) = (acts, f)" by fastforce
  have act: "snd (consumer_actions now s) = (new, s')" using assms(5) InTick by simp
  then obtain fetches where "fold action_step acts ([], [], s\<lparr>sn_fetcher := f\<rparr>) = (fetches, new, s')"
    using a by (cases "consumer_actions now s") (simp add: consumer_actions_def)
  then have "sn_session s' = sn_session s" using session_actions by fastforce
  then show ?thesis
  proof (rule run_ok_step [OF assms(2)])
    fix n delivered
    assume c: "consumer_ok c cfg (streams n) delivered s"
    have "plain c cfg (streams n)" using assms(1) by (simp add: streams_ok_def plain_def)
    from consumer_actions_ok [OF this c act]
    show "consumer_ok c cfg (streams n) (delivered @ items_of new) s' \<and> list_all (\<lambda>e. \<not> is_reset e) new"
      by simp
  qed
qed

lemma run_ok_cfg: "run_ok c cfg streams events s \<Longrightarrow> sn_cfg s = cfg"
  by (cases "sn_session s") (auto simp: run_ok_def consumer_ok_def)

lemma consumer_run_snoc:
  assumes "consumer_run c first cfg ins = (events, s)" and "consumer_step c x s = (new, s')"
  shows "consumer_run c first cfg (ins @ [x]) = (events @ new, s')"
  using assms by (simp add: consumer_run_def)

lemma consumer_run_ok:
  assumes "streams_ok c cfg streams" and "list_all (input_ok c cfg streams) ins"
    and "consumer_run c first cfg ins = (events, s)"
  shows "run_ok c cfg streams events s"
  using assms(2,3)
proof (induction ins arbitrary: events s rule: rev_induct)
  case Nil
  then have "events = []" "s = consumer_new first cfg" by (simp_all add: consumer_run_def)
  then show ?case
    by (simp add: run_ok_def consumer_ok_def consumer_new_def since_reset_def reorder_inv_new fec_state_ok_new)
next
  case (snoc x ins)
  obtain events0 s0 where r: "consumer_run c first cfg ins = (events0, s0)" by fastforce
  obtain new s1 where st: "consumer_step c x s0 = (new, s1)" by fastforce
  have e: "events = events0 @ new" "s = s1"
    using snoc.prems(2) consumer_run_snoc [OF r st] by simp_all
  have ih: "run_ok c cfg streams events0 s0" using snoc.IH [OF _ r] snoc.prems(1) by simp
  show ?case
    using consumer_step_ok [OF assms(1) ih run_ok_cfg [OF ih] _ st] snoc.prems(1) e by simp
qed

end
