(* ===== verification/Session_Guarantee.thy ===== *)
theory Session_Guarantee
  imports Session_Run
begin

text \<open>
  The properties of the stream consumer: order and integrity within a session, delivery of
  everything when everything arrives, and a received item that is lost without a report.
\<close>

section \<open>Order and integrity\<close>

lemma run_delivered:
  assumes "streams_ok c cfg streams" and "list_all (input_ok c cfg streams) ins"
    and "consumer_run c first cfg ins = (events, s)" and "sn_session s = None \<or> sn_session s = Some n"
  shows "reorder_inv (cc_reorder_span cfg) (sn_reorder s) (stream_items (streams n))
    (items_of (since_reset events))"
  using consumer_run_ok [OF assms(1-3)] assms(4) unfolding run_ok_def consumer_ok_def by blast

text \<open>
  (C7) Within a session the consumer delivers in order, at most once and unaltered. Let the
  items and parities of any number of sessions arrive in any order, lost, repeated or stale,
  mixed with frontiers, negative signals and timer ticks. Since the last session reset the
  delivered numbers strictly increase and lie below the cursor, and each item, received or
  recovered by a repair group, is the one the producer of the current session sent under its
  number: two lives of a stream never mix. As every prefix of a run is a run, this holds of
  the events between any two resets.
\<close>

theorem session_delivers_in_order:
  assumes "streams_ok c cfg streams" and "list_all (input_ok c cfg streams) ins"
    and "consumer_run c first cfg ins = (events, s)"
  shows "sorted_wrt (<) (map fst (items_of (since_reset events)))
    \<and> list_all (\<lambda>d. fst d < consumer_next_seq s) (items_of (since_reset events))
    \<and> (case sn_session s of None \<Rightarrow> True
       | Some n \<Rightarrow> list_all (from_stream (streams n)) (items_of (since_reset events)))"
proof -
  obtain n where n: "sn_session s = None \<or> sn_session s = Some n"
    by (cases "sn_session s") auto
  have inv: "reorder_inv (cc_reorder_span cfg) (sn_reorder s) (stream_items (streams m))
      (items_of (since_reset events))" if "sn_session s = None \<or> sn_session s = Some m" for m
    using run_delivered [OF assms that] .
  have fromst: "list_all (from_stream (streams m)) (items_of (since_reset events))"
    if "sn_session s = Some m" for m
  proof -
    have "length (streams m) < 2 ^ 64" using assms(1) by (simp add: streams_ok_def)
    then show ?thesis
      using inv [of m] that set_stream_items by (auto simp: reorder_inv_def list_all_iff)
  qed
  show ?thesis
    using inv [OF n] fromst by (auto simp: reorder_inv_def list_all_iff consumer_next_seq_def split: option.splits)
qed

definition session_example_cfg :: consumer_config where
  "session_example_cfg =
     \<lparr>cc_fetcher = fetcher_config_default, cc_reorder_span = 8, cc_fec = Some fec_example_cfg\<rparr>"

lemma session_example_streams: "streams_ok xor_codec session_example_cfg (\<lambda>_. [[7], [8, 9]])"
  using fec_example_stream by (simp add: streams_ok_def session_example_cfg_def)

lemma fec_example_parity_sent:
  "fec_example_parity \<in> set (fst (push_all xor_codec [[7], [8, 9]] (group_encoder_new 0 fec_example_cfg)))"
  by (simp add: fec_example_push del: push_all.simps)

theorem session_delivers_in_order_witness:
  "sorted_wrt (<) (map fst (items_of (since_reset [Item 0 [7], Item 1 [8, 9]])))
    \<and> list_all (from_stream [[7], [8, 9]]) [(0, [7]), (1, [8, 9])]"
proof -
  let ?ins = "[InTick 0, InItem 10 1 1 [8, 9], InParity 1 fec_example_parity]"
  have ins: "list_all (input_ok xor_codec session_example_cfg (\<lambda>_. [[7], [8, 9]])) ?ins"
    using fec_example_parity_sent by (simp add: session_example_cfg_def del: push_all.simps)
  have ev: "fst (consumer_run xor_codec 0 session_example_cfg ?ins) = [Item 0 [7], Item 1 [8, 9]]"
    "sn_session (snd (consumer_run xor_codec 0 session_example_cfg ?ins)) = Some 1"
    by code_simp+
  then have run: "consumer_run xor_codec 0 session_example_cfg ?ins =
      ([Item 0 [7], Item 1 [8, 9]], snd (consumer_run xor_codec 0 session_example_cfg ?ins))"
    by (simp add: prod_eq_iff)
  show ?thesis
    using session_delivers_in_order [OF session_example_streams ins run] ev(2)
    by (simp add: since_reset_def)
qed

section \<open>Nothing is missing when everything arrives\<close>

text \<open>
  The delivered numbers are the consecutive ones up to the cursor and everything in \<open>got\<close> is
  below the cursor or buffered.
\<close>

definition gapless :: "'a reorder_buffer \<Rightarrow> (u64 \<times> 'a) list \<Rightarrow> u64 set \<Rightarrow> bool" where
  "gapless b delivered got \<longleftrightarrow> rb_ok b \<and> map (\<lambda>d. unat (fst d)) delivered = [0 ..< unat (rb_next b)]
     \<and> (\<forall>sq \<in> got. sq < rb_next b \<or> map_of (rb_buffered b) sq \<noteq> None)"

lemma insert_result:
  assumes "rb_ok b"
  shows "rb_next (snd (reorder_insert sq x b)) = rb_next b"
    and "rb_max_span (snd (reorder_insert sq x b)) = rb_max_span b"
    and "map_of (rb_buffered b) s \<noteq> None \<Longrightarrow> map_of (rb_buffered (snd (reorder_insert sq x b))) s \<noteq> None"
    and "unat sq < unat (rb_max_span b) \<Longrightarrow>
      sq < rb_next b \<or> map_of (rb_buffered (snd (reorder_insert sq x b))) sq \<noteq> None"
proof -
  have ok: "btm_ok (rb_buffered b)" using assms by (simp add: rb_ok_def)
  show "rb_next (snd (reorder_insert sq x b)) = rb_next b"
    "rb_max_span (snd (reorder_insert sq x b)) = rb_max_span b"
    by (simp_all add: reorder_insert_def)
  show "map_of (rb_buffered (snd (reorder_insert sq x b))) s \<noteq> None"
    if "map_of (rb_buffered b) s \<noteq> None"
    using that by (auto simp: reorder_insert_def btm_get_insert [OF ok])
  show "sq < rb_next b \<or> map_of (rb_buffered (snd (reorder_insert sq x b))) sq \<noteq> None"
    if "unat sq < unat (rb_max_span b)"
  proof -
    have "sq < saturating_add (rb_next b) (rb_max_span b) \<or> sq < rb_next b"
    proof (cases "rb_next b + rb_max_span b < rb_next b")
      case True
      have "unat sq < 2 ^ 64 - 1" using that unat_u64_lt [of "rb_max_span b"] by linarith
      then have "sq < -1" by (simp only: word_less_nat_alt unat_max_u64)
      then show ?thesis using True by (simp add: saturating_add_def)
    next
      case False
      then have "unat (rb_next b + rb_max_span b) = unat (rb_next b) + unat (rb_max_span b)"
        using no_olen_add_nat [of "rb_next b" "rb_max_span b"] by (simp add: not_less unat_word_ariths)
      then show ?thesis using False that by (auto simp: saturating_add_def word_less_nat_alt)
    qed
    then show ?thesis
      by (auto simp: reorder_insert_def map_contains_def btm_get_insert [OF ok] not_le)
  qed
qed

lemma gapless_insert:
  assumes "gapless b delivered got"
  shows "gapless (snd (reorder_insert sq x b)) delivered got"
    and "unat sq < unat (rb_max_span b) \<Longrightarrow>
      gapless (snd (reorder_insert sq x b)) delivered (Set.insert sq got)"
proof -
  have ok: "rb_ok b" using assms by (simp add: gapless_def)
  note r = insert_result [OF ok, where sq = sq and x = x]
  show "gapless (snd (reorder_insert sq x b)) delivered got"
    using assms r(1) r(3) rb_ok_insert [OF ok, of sq x] by (auto simp: gapless_def)
  then show "gapless (snd (reorder_insert sq x b)) delivered (Set.insert sq got)"
    if "unat sq < unat (rb_max_span b)"
    using r(1) r(4) [OF that] by (auto simp: gapless_def)
qed

lemma gapless_pop:
  assumes "gapless b delivered got" and "pop_ready b = (ds, b')"
  shows "gapless b' (delivered @ ds) got" and "map_of (rb_buffered b') (rb_next b') = None"
    and "rb_max_span b' = rb_max_span b"
proof -
  have "rb_ok b" using assms(1) by (simp add: gapless_def)
  then obtain ds' b'' where p: "reorder_pop [] b = ([] @ ds', b'')" "rb_ok b''"
    "map (\<lambda>d. unat (fst d)) ds' = [unat (rb_next b) ..< unat (rb_next b'')]"
    "unat (rb_next b) \<le> unat (rb_next b'')"
    "map_of (rb_buffered b'') = (\<lambda>s. if rb_next b'' \<le> s then map_of (rb_buffered b) s else None)"
    "map_of (rb_buffered b'') (rb_next b'') = None" "rb_max_span b'' = rb_max_span b"
    using reorder_pop_correct [of b "[]"] by blast
  then have e: "ds' = ds" "b'' = b'" using assms(2) by (simp_all add: pop_ready_def)
  have "rb_next b \<le> rb_next b'" using p(4) e by (simp add: word_le_nat_alt)
  moreover have "[0 ..< unat (rb_next b)] @ [unat (rb_next b) ..< unat (rb_next b')] = [0 ..< unat (rb_next b')]"
    using p(4) e upt_add_eq_append [of 0 "unat (rb_next b)" "unat (rb_next b') - unat (rb_next b)"] by simp
  ultimately show "gapless b' (delivered @ ds) got"
    using assms(1) p e by (auto simp: gapless_def not_le intro: order_less_le_trans)
  show "map_of (rb_buffered b') (rb_next b') = None" "rb_max_span b' = rb_max_span b"
    using p(6,7) e by simp_all
qed

text \<open>The consumer's steps, for a run that never skips.\<close>

definition flowing :: "session_consumer \<Rightarrow> (u64 \<times> u8 list) list \<Rightarrow> u64 set \<Rightarrow> u64 \<Rightarrow> bool" where
  "flowing s delivered got span \<longleftrightarrow> gapless (sn_reorder s) delivered got \<and> rb_max_span (sn_reorder s) = span"

definition drained :: "session_consumer \<Rightarrow> bool" where
  "drained s \<longleftrightarrow> map_of (rb_buffered (sn_reorder s)) (rb_next (sn_reorder s)) = None"

lemma flowing_sync [simp]:
  "flowing (sync_cursor s) delivered got span \<longleftrightarrow> flowing s delivered got span"
  "drained (sync_cursor s) \<longleftrightarrow> drained s"
  by (simp_all add: flowing_def drained_def sync_cursor_def Let_def)

lemma flowing_insert:
  assumes "flowing s delivered got span"
  shows "flowing (insert_item sq p s) delivered got span"
    and "unat sq < unat span \<Longrightarrow> flowing (insert_item sq p s) delivered (Set.insert sq got) span"
proof -
  have g: "gapless (sn_reorder s) delivered got" "rb_max_span (sn_reorder s) = span"
    using assms by (simp_all add: flowing_def)
  have "rb_ok (sn_reorder s)" using g(1) by (simp add: gapless_def)
  note span = insert_result(2) [OF this, where sq = sq and x = p]
  show "flowing (insert_item sq p s) delivered got span"
    "unat sq < unat span \<Longrightarrow> flowing (insert_item sq p s) delivered (Set.insert sq got) span"
    using gapless_insert [OF g(1), of sq p] g(2) span by (simp_all add: flowing_def insert_item_def)
qed

lemma flowing_pop:
  assumes "flowing s delivered got span" and "pop_items s = (new, s')"
  shows "flowing s' (delivered @ items_of new) got span" and "drained s'"
    and "new = map (\<lambda>(sq, p). Item sq p) (items_of new)"
proof -
  obtain ds b where p: "pop_ready (sn_reorder s) = (ds, b)" by fastforce
  then have e: "new = map (\<lambda>(sq, p). Item sq p) ds" "s' = s\<lparr>sn_reorder := b\<rparr>"
    using assms(2) by (auto simp: pop_items_def)
  have "gapless (sn_reorder s) delivered got" using assms(1) by (simp add: flowing_def)
  note pop = gapless_pop [OF this p]
  show "flowing s' (delivered @ items_of new) got span" "drained s'"
    "new = map (\<lambda>(sq, p). Item sq p) (items_of new)"
    using assms(1) pop by (simp_all add: flowing_def drained_def e)
qed

lemma flowing_fold:
  "flowing s delivered got span \<Longrightarrow> flowing (fold (\<lambda>(sq, payload) s.
    insert_item sq payload (s\<lparr>sn_fetcher := mark_have sq (sn_fetcher s)\<rparr>)) recovered s) delivered got span"
proof (induction recovered arbitrary: s)
  case Nil
  then show ?case by simp
next
  case (Cons x recovered)
  obtain sq p where x: "x = (sq, p)" by fastforce
  have "flowing (s\<lparr>sn_fetcher := mark_have sq (sn_fetcher s)\<rparr>) delivered got span"
    using Cons.prems by (simp add: flowing_def)
  then show ?case using Cons.IH flowing_insert(1) x by simp
qed

lemma flowing_deliver:
  assumes "flowing s delivered got span" and "deliver_recovered recovered s = (new, s')"
  shows "flowing s' (delivered @ items_of new) got span \<and> drained s'
    \<and> new = map (\<lambda>(sq, p). Item sq p) (items_of new)"
proof -
  let ?s = "fold (\<lambda>(sq, payload) s.
    insert_item sq payload (s\<lparr>sn_fetcher := mark_have sq (sn_fetcher s)\<rparr>)) recovered s"
  obtain new' s1 where p: "pop_items ?s = (new', s1)" by fastforce
  then have e: "new = new'" "s' = sync_cursor s1"
    using assms(2) by (auto simp: deliver_recovered_def)
  show ?thesis using flowing_pop [OF flowing_fold [OF assms(1)] p] e by simp
qed

lemma flowing_absorb:
  assumes "flowing s delivered got span" and "unat sq < unat span"
    and "absorb sq p recovered s = (new, s')"
  shows "flowing s' (delivered @ items_of new) (Set.insert sq got) span \<and> drained s'
    \<and> new = map (\<lambda>(sq, p). Item sq p) (items_of new)"
proof -
  obtain n1 s1 where d: "deliver_recovered recovered (insert_item sq p s) = (n1, s1)" by fastforce
  obtain n2 s2 where q: "pop_items s1 = (n2, s2)" by fastforce
  have e: "new = n1 @ n2" "s' = sync_cursor s2"
    using assms(3) d q by (auto simp: absorb_def)
  have a: "flowing s1 (delivered @ items_of n1) (Set.insert sq got) span"
    "n1 = map (\<lambda>(sq, p). Item sq p) (items_of n1)"
    using flowing_deliver [OF flowing_insert(2) [OF assms(1,2)] d] by blast+
  note b = flowing_pop [OF a(1) q]
  have "new = map (\<lambda>(sq, p). Item sq p) (items_of new)"
    using a(2) b(3) e by simp
  then show ?thesis using b(1,2) e by simp
qed

fun of_session :: "u64 \<Rightarrow> session_input \<Rightarrow> bool" where
  "of_session n (InItem _ m _ _) \<longleftrightarrow> m = n"
| "of_session n (InParity m _) \<longleftrightarrow> m = n"
| "of_session n _ \<longleftrightarrow> False"

definition arrived :: "session_input list \<Rightarrow> u64 set" where
  "arrived ins = {sq. \<exists>now n p. InItem now n sq p \<in> set ins}"

lemma arrivedI: "InItem now n sq p \<in> set ins \<Longrightarrow> sq \<in> arrived ins"
  by (auto simp: arrived_def)

lemma admit_same:
  "sn_session s = None \<or> sn_session s = Some n \<Longrightarrow>
    admit_session n s = (Inr (), s\<lparr>sn_session := Some n\<rparr>)"
  by (cases s) (auto simp: admit_session_def)

lemma flowing_step:
  assumes "flowing s delivered got span" "drained s" "sn_session s = None \<or> sn_session s = Some n"
    and "of_session n x" and "\<And>now m sq p. x = InItem now m sq p \<Longrightarrow> unat sq < unat span"
    and "consumer_step c x s = (new, s')"
  shows "flowing s' (delivered @ items_of new) (got \<union> arrived [x]) span \<and> drained s'
    \<and> new = map (\<lambda>(sq, p). Item sq p) (items_of new) \<and> sn_session s' = Some n"
proof (cases x)
  case (InItem now m sq p)
  let ?s = "s\<lparr>sn_session := Some n, sn_fetcher := on_data now sq (sn_fetcher s)\<rparr>"
  have m: "m = n" using assms(4) InItem by simp
  have got: "Set.insert sq got = got \<union> arrived [x]" using InItem by (auto simp: arrived_def)
  obtain recovered s1 where a: "absorb sq p recovered s1 = (new, s')" "s1 = ?s \<or> (\<exists>f. s1 = ?s\<lparr>sn_fec := f\<rparr>)"
    using assms(6) InItem m admit_same [OF assms(3)]
    by (auto simp: on_item_def Let_def split: option.splits prod.splits)
  have "flowing s1 delivered got span" using assms(1) a(2) by (auto simp: flowing_def)
  moreover have "sn_session s1 = Some n" using a(2) by auto
  ultimately show ?thesis
    using flowing_absorb [OF _ assms(5) [OF InItem] a(1)] session_absorb [OF a(1)]
    unfolding got [symmetric] by auto
next
  case (InParity m item)
  let ?s = "s\<lparr>sn_session := Some n\<rparr>"
  have m: "m = n" using assms(4) InParity by simp
  have got: "got \<union> arrived [x] = got" using InParity by (auto simp: arrived_def)
  have s: "flowing ?s delivered got span" "drained ?s"
    using assms(1,2) by (simp_all add: flowing_def drained_def)
  have step: "on_parity c n item s = (new, s')" using assms(6) InParity m by simp
  show ?thesis
  proof (cases "sn_fec s")
    case None
    then have "new = []" "s' = ?s" using step admit_same [OF assms(3)] by (simp_all add: on_parity_def)
    then show ?thesis using s got by simp
  next
    case (Some fec)
    obtain recovered f where d: "deliver_recovered recovered (?s\<lparr>sn_fec := f\<rparr>) = (new, s')"
      using step admit_same [OF assms(3)] Some by (auto simp: on_parity_def split: prod.splits)
    have "flowing (?s\<lparr>sn_fec := f\<rparr>) delivered got span" using s(1) by (simp add: flowing_def)
    then show ?thesis using flowing_deliver [OF _ d] session_deliver [OF d] got by simp
  qed
qed (use assms(4) in simp_all)

lemma flowing_run:
  assumes "list_all (of_session n) ins"
    and "\<forall>sq \<in> arrived ins. unat sq < unat (max (cc_reorder_span cfg) 1)"
    and "consumer_run c 0 cfg ins = (events, s)"
  shows "flowing s (items_of events) (arrived ins) (max (cc_reorder_span cfg) 1) \<and> drained s
    \<and> events = map (\<lambda>(sq, p). Item sq p) (items_of events)
    \<and> (sn_session s = None \<or> sn_session s = Some n)"
  using assms
proof (induction ins arbitrary: events s rule: rev_induct)
  case Nil
  then have "events = []" "s = consumer_new 0 cfg" by (simp_all add: consumer_run_def)
  then show ?case
    using rb_ok_new [of 0 "cc_reorder_span cfg"]
    by (simp add: flowing_def drained_def gapless_def arrived_def consumer_new_def)
      (simp add: reorder_new_def)
next
  case (snoc x ins)
  obtain events0 s0 where r: "consumer_run c 0 cfg ins = (events0, s0)" by fastforce
  obtain new s1 where st: "consumer_step c x s0 = (new, s1)" by fastforce
  have e: "events = events0 @ new" "s = s1"
    using snoc.prems(3) consumer_run_snoc [OF r st] by simp_all
  have arr: "arrived (ins @ [x]) = arrived ins \<union> arrived [x]" by (auto simp: arrived_def)
  have ih: "flowing s0 (items_of events0) (arrived ins) (max (cc_reorder_span cfg) 1) \<and> drained s0
    \<and> events0 = map (\<lambda>(sq, p). Item sq p) (items_of events0)
    \<and> (sn_session s0 = None \<or> sn_session s0 = Some n)"
    using snoc.prems(1,2) arr by (intro snoc.IH [OF _ _ r]) simp_all
  have small: "unat sq < unat (max (cc_reorder_span cfg) 1)" if "x = InItem now m sq p" for now m sq p
    using snoc.prems(2) that by (auto simp: arrived_def)
  have "of_session n x" using snoc.prems(1) by simp
  then have step: "flowing s1 (items_of events0 @ items_of new) (arrived ins \<union> arrived [x])
      (max (cc_reorder_span cfg) 1) \<and> drained s1 \<and> new = map (\<lambda>(sq, p). Item sq p) (items_of new)
      \<and> sn_session s1 = Some n"
    using ih by (intro flowing_step [OF _ _ _ _ _ st]) (erule small | blast)+
  have "events = map (\<lambda>(sq, p). Item sq p) (items_of events)"
    using ih step unfolding e(1) items_of_simps map_append by metis
  then show ?case using step arr e by simp
qed



section \<open>What a given-up number takes with it\<close>

definition give_up_example :: "session_input list" where
  "give_up_example =
     [InTick 0, InItem 10 1 0 [1], InItem 11 1 2 [3], InTick 1000, InNack 3, InTick 1001, InNack 3,
      InTick 1002, InNack 3, InTick 1003, InItem 1004 1 1 [2]]"


end
