(* ===== verification/Session_Producer.thy ===== *)
theory Session_Producer
  imports Session_Run
begin

text \<open>
  The producer of \<open>Session\<close> over a whole stream: the numbers it assigns, the parity it emits
  and what it can serve again.
\<close>

primrec publish_all ::
    "('e, 'd) fec_codec \<Rightarrow> u8 list list \<Rightarrow> session_producer \<Rightarrow> published list \<times> session_producer" where
  "publish_all c [] p = ([], p)"
| "publish_all c (x # xs) p =
     (let (pb, p) = session_publish c x p; (rest, p) = publish_all c xs p in (pb # rest, p))"

lemma keep_last_snoc: "keep_last n (keep_last n xs @ [x]) = keep_last n (xs @ [x])"
  by (cases "n \<le> length xs") (auto simp: keep_last_def Suc_diff_le)

definition numbered_from :: "nat \<Rightarrow> u8 list list \<Rightarrow> (u64 \<times> u8 list) list" where
  "numbered_from k ps = map (\<lambda>i. (of_nat (k + i), ps ! i)) [0 ..< length ps]"

lemma numbered_Cons: "numbered_from k (x # xs) = (of_nat k, x) # numbered_from (Suc k) xs"
  by (simp add: numbered_from_def map_upt_Suc algebra_simps del: upt_Suc)

definition parity_all :: "('e, 'd) fec_codec \<Rightarrow> u8 list list \<Rightarrow> group_encoder option \<Rightarrow> parity_item list" where
  "parity_all c ps enc = (case enc of None \<Rightarrow> [] | Some enc \<Rightarrow> fst (push_all c ps enc))"

lemma publish_all_from:
  assumes "sp_next_seq p = of_nat k" and "sp_retained p = keep_last n old"
    and "n = unat (max (pc_retention (sp_cfg p)) 1)" and "publish_all c ps p = (pubs, p')"
  shows "map pb_seq pubs = map fst (numbered_from k ps)
    \<and> concat (map pb_parity pubs) = parity_all c ps (sp_fec p)
    \<and> sp_next_seq p' = of_nat (k + length ps)
    \<and> sp_retained p' = keep_last n (old @ numbered_from k ps)"
  using assms
proof (induction ps arbitrary: p k old pubs p')
  case Nil
  then show ?case
    by (simp add: numbered_from_def parity_all_def split: option.splits)
next
  case (Cons x xs)
  obtain pb p1 where one: "session_publish c x p = (pb, p1)" by fastforce
  obtain rest p2 where two: "publish_all c xs p1 = (rest, p2)" by fastforce
  have e: "pubs = pb # rest" "p' = p2" using Cons.prems(4) one two by simp_all
  have p1: "pb_seq pb = of_nat k" "sp_next_seq p1 = of_nat (Suc k)" "sp_cfg p1 = sp_cfg p"
    "sp_retained p1 = keep_last n (keep_last n old @ [(of_nat k, x)])"
    using one Cons.prems(1-3)
    by (auto simp: session_publish_def Let_def algebra_simps split: option.splits prod.splits)
  have "pb_parity pb @ parity_all c xs (sp_fec p1) = parity_all c (x # xs) (sp_fec p)"
    using one by (auto simp: session_publish_def Let_def parity_all_def split: option.splits prod.splits)
  moreover have "map pb_seq rest = map fst (numbered_from (Suc k) xs)
      \<and> concat (map pb_parity rest) = parity_all c xs (sp_fec p1)
      \<and> sp_next_seq p2 = of_nat (Suc k + length xs)
      \<and> sp_retained p2 = keep_last n ((old @ [(of_nat k, x)]) @ numbered_from (Suc k) xs)"
    using p1 Cons.prems(3) two by (intro Cons.IH) (simp_all add: keep_last_snoc)
  ultimately show ?case using e p1(1) by (simp add: numbered_Cons)
qed

lemma numbered_stream_items: "numbered_from 0 ps = stream_items ps"
  by (simp add: numbered_from_def stream_items_def)

lemma find_last_items:
  assumes "length ps < 2 ^ 64"
  shows "map_option snd (find (\<lambda>(s, _). s = sq) (keep_last n (stream_items ps))) =
    (if unat sq < length ps \<and> length ps \<le> unat sq + n then Some (ps ! unat sq) else None)"
proof -
  let ?m = "length ps - n"
  have "keep_last n (stream_items ps) = map (\<lambda>i. (of_nat i, ps ! i)) [?m ..< length ps]"
    by (simp add: keep_last_def stream_items_def drop_map)
  moreover have get: "map_option snd (find (\<lambda>(s, _). s = sq) (map (\<lambda>i. (of_nat i, ps ! i)) is)) =
      (if unat sq \<in> set is then Some (ps ! unat sq) else None)" if "set is \<subseteq> {..< length ps}" for "is"
    using that
  proof (induction "is")
    case Nil
    then show ?case by simp
  next
    case (Cons i "is")
    have "i < 2 ^ 64" using Cons.prems assms by auto
    then have "unat (of_nat i :: u64) = i" by (simp add: unat_of_nat take_bit_nat_eq_self)
    then have "of_nat i = sq \<longleftrightarrow> i = unat sq" by auto
    then show ?case using Cons by auto
  qed
  moreover have "set [?m ..< length ps] \<subseteq> {..< length ps}" by auto
  ultimately show ?thesis using get [of "[?m ..< length ps]"] by auto
qed

text \<open>
  The producer numbers, protects and retains. Publishing a stream assigns the consecutive
  numbers from 0, emits exactly the parity of the group encoder over the stream, and afterwards
  the producer serves exactly the last \<open>retention\<close> items (one for a retention of zero), each
  under its number.
\<close>

theorem producer_numbers_and_retains:
  assumes "length ps < 2 ^ 64" and "publish_all c ps (producer_new session cfg) = (pubs, p)"
  shows "map pb_seq pubs = map fst (stream_items ps)
    \<and> concat (map pb_parity pubs) = (case pc_fec cfg of None \<Rightarrow> []
        | Some shape \<Rightarrow> fst (push_all c ps (group_encoder_new 0 shape)))
    \<and> sp_next_seq p = of_nat (length ps)
    \<and> retained sq p =
        (if unat sq < length ps \<and> length ps \<le> unat sq + unat (max (pc_retention cfg) 1)
         then Some (ps ! unat sq) else None)"
proof -
  let ?n = "unat (max (pc_retention cfg) 1)"
  have "map pb_seq pubs = map fst (numbered_from 0 ps)
      \<and> concat (map pb_parity pubs) = parity_all c ps (sp_fec (producer_new session cfg))
      \<and> sp_next_seq p = of_nat (0 + length ps)
      \<and> sp_retained p = keep_last ?n ([] @ numbered_from 0 ps)"
    using assms(2) by (intro publish_all_from) (simp_all add: producer_new_def keep_last_def)
  then show ?thesis
    using find_last_items [OF assms(1), of sq ?n]
    by (simp add: numbered_stream_items retained_def producer_new_def parity_all_def
        split: option.splits)
qed

theorem producer_numbers_and_retains_witness:
  "retained 0 (snd (publish_all xor_codec [[7], [8, 9]]
      (producer_new 1 \<lparr>pc_retention = 1, pc_fec = Some fec_example_cfg\<rparr>))) = None"
  using producer_numbers_and_retains [of "[[7], [8, 9]]" xor_codec 1
      "\<lparr>pc_retention = 1, pc_fec = Some fec_example_cfg\<rparr>" _ _ 0, OF _ surjective_pairing]
  by simp

end
