(* ===== verification/Fetch_Life.thy ===== *)
theory Fetch_Life
  imports Fetch
begin

text \<open>
  What the fetcher of \<open>Fetch\<close> guarantees over any run: how often a number is requested and in
  which order its actions come, how many requests are outstanding, and that an unanswered
  number is given up.
\<close>

section \<open>Runs\<close>

datatype fetch_op =
  OpFrontier u64 | OpCursor u64 | OpData u64 u64 | OpHave u64 | OpNack u64 | OpActions u64

fun fetch_apply :: "fetch_op \<Rightarrow> fetcher \<Rightarrow> fetch_action list \<times> fetcher" where
  "fetch_apply (OpFrontier sq) f = ([], on_frontier sq f)"
| "fetch_apply (OpCursor sq) f = ([], on_cursor sq f)"
| "fetch_apply (OpData now_ms sq) f = ([], on_data now_ms sq f)"
| "fetch_apply (OpHave sq) f = ([], mark_have sq f)"
| "fetch_apply (OpNack sq) f = ([], on_nack sq f)"
| "fetch_apply (OpActions now_ms) f = fetch_actions now_ms f"

definition fetch_run :: "u64 \<Rightarrow> fetcher_config \<Rightarrow> fetch_op list \<Rightarrow> fetch_action list \<times> fetcher" where
  "fetch_run first cfg ops =
     fold (\<lambda>op (out, f). let (new, f) = fetch_apply op f in (out @ new, f)) ops
       ([], fetcher_new first cfg)"

fun action_seq :: "fetch_action \<Rightarrow> u64" where
  "action_seq (Fetch sq _) = sq"
| "action_seq (GiveUp sq) = sq"

text \<open>The actions about one number, in order.\<close>

definition about :: "u64 \<Rightarrow> fetch_action list \<Rightarrow> fetch_action list" where
  "about sq acts = filter (\<lambda>a. action_seq a = sq) acts"

lemma about_simps [simp]:
  "about sq [] = []" "about sq (a # as) = (if action_seq a = sq then a # about sq as else about sq as)"
  "about sq (as @ bs) = about sq as @ about sq bs"
  by (simp_all add: about_def)

section \<open>The life of a number\<close>

definition asked :: "u64 \<Rightarrow> nat \<Rightarrow> fetch_action list" where
  "asked sq j = Fetch sq False # replicate j (Fetch sq True)"

text \<open>Never asked for, asked for at most \<open>1 + m\<close> times, or that and then given up.\<close>

definition life :: "nat \<Rightarrow> u64 \<Rightarrow> fetch_action list \<Rightarrow> bool" where
  "life m sq acts \<longleftrightarrow> acts = [] \<or> (\<exists>j \<le> m. acts = asked sq j) \<or> acts = asked sq m @ [GiveUp sq]"

text \<open>The cursor never comes so near the last number that the lookahead reaches it.\<close>

definition cursor_room :: "fetcher_config \<Rightarrow> u64 \<Rightarrow> bool" where
  "cursor_room cfg c \<longleftrightarrow> unat c + unat (fg_lookahead cfg) < 2 ^ 64 - 1"

fun op_room :: "fetcher_config \<Rightarrow> fetch_op \<Rightarrow> bool" where
  "op_room cfg (OpCursor c) = cursor_room cfg c"
| "op_room cfg _ = True"

definition window_cap :: "fetcher_config \<Rightarrow> nat" where
  "window_cap cfg = max (max (unat (fg_initial_window cfg)) 1) (unat (fg_max_window cfg))"

definition fetch_inv :: "fetcher_config \<Rightarrow> fetch_action list \<Rightarrow> fetcher \<Rightarrow> bool" where
  "fetch_inv cfg acts f \<longleftrightarrow> fe_cfg f = cfg \<and> btm_ok (fe_outstanding f) \<and> cursor_room cfg (fe_cursor f)
     \<and> unat (fe_window f) \<le> window_cap cfg \<and> length (fe_outstanding f) \<le> window_cap cfg
     \<and> (\<forall>sq og. map_of (fe_outstanding f) sq = Some og \<longrightarrow>
          sq < fe_next_to_request f \<and> os_retries og \<le> fg_max_retries cfg
          \<and> about sq acts = asked sq (unat (os_retries og)))
     \<and> (\<forall>sq. map_of (fe_outstanding f) sq = None \<longrightarrow>
          life (unat (fg_max_retries cfg)) sq (about sq acts)
          \<and> (fe_next_to_request f \<le> sq \<longrightarrow> about sq acts = []))"

lemma life_asked: "j \<le> m \<Longrightarrow> life m sq (asked sq j)"
  by (auto simp: life_def)

lemma fetch_inv_life: "fetch_inv cfg acts f \<Longrightarrow> life (unat (fg_max_retries cfg)) sq (about sq acts)"
  by (cases "map_of (fe_outstanding f) sq")
    (auto simp: fetch_inv_def word_le_nat_alt intro!: life_asked)

text \<open>Forgetting requests keeps the invariant; so does everything that touches only the rest.\<close>

lemma fetch_inv_forget:
  assumes "fetch_inv cfg acts f" and "fe_cfg f' = cfg" and "cursor_room cfg (fe_cursor f')"
    and "unat (fe_window f') \<le> window_cap cfg" and "fe_next_to_request f \<le> fe_next_to_request f'"
    and "btm_ok (fe_outstanding f')" and "length (fe_outstanding f') \<le> length (fe_outstanding f)"
    and "\<And>sq. map_of (fe_outstanding f') sq = None \<or>
      map_option os_retries (map_of (fe_outstanding f') sq) = map_option os_retries (map_of (fe_outstanding f) sq)"
  shows "fetch_inv cfg acts f'"
  unfolding fetch_inv_def
proof (intro conjI allI impI)
  show "fe_cfg f' = cfg" "cursor_room cfg (fe_cursor f')" "unat (fe_window f') \<le> window_cap cfg"
    "btm_ok (fe_outstanding f')" using assms(2-4,6) by simp_all
  show "length (fe_outstanding f') \<le> window_cap cfg"
    using assms(1,7) by (simp add: fetch_inv_def)
next
  fix sq og assume some: "map_of (fe_outstanding f') sq = Some og"
  then obtain og' where og': "map_of (fe_outstanding f) sq = Some og'" "os_retries og' = os_retries og"
    using assms(8) [of sq] by (cases "map_of (fe_outstanding f) sq") auto
  have "sq < fe_next_to_request f \<and> os_retries og' \<le> fg_max_retries cfg
      \<and> about sq acts = asked sq (unat (os_retries og'))"
    using assms(1) og'(1) by (auto simp: fetch_inv_def)
  then have "sq < fe_next_to_request f" "os_retries og \<le> fg_max_retries cfg"
    "about sq acts = asked sq (unat (os_retries og))"
    unfolding og'(2) by simp_all
  then show "sq < fe_next_to_request f'" "os_retries og \<le> fg_max_retries cfg"
    "about sq acts = asked sq (unat (os_retries og))"
    using assms(5) by auto
next
  fix sq assume none: "map_of (fe_outstanding f') sq = None"
  show "life (unat (fg_max_retries cfg)) sq (about sq acts)"
    using assms(1) by (rule fetch_inv_life)
  show "about sq acts = []" if "fe_next_to_request f' \<le> sq"
  proof -
    have le: "fe_next_to_request f \<le> sq" using assms(5) that by simp
    then have "map_of (fe_outstanding f) sq = None"
      using assms(1) by (cases "map_of (fe_outstanding f) sq") (auto simp: fetch_inv_def not_less [symmetric])
    then show ?thesis using assms(1) le by (simp add: fetch_inv_def)
  qed
qed

lemma halve_cap: "unat w \<le> window_cap cfg \<Longrightarrow> unat (max ((w :: u64) div 2) 1) \<le> window_cap cfg"
  by (auto simp: max_def unat_div window_cap_def)

lemma size_update:
  "btm_ok m \<Longrightarrow> map_of m k = Some x \<Longrightarrow> length (btm_insert k v m) = length m"
  by (simp add: btm.size_insert)

lemma length_delete: "length (map_delete k m) \<le> length m"
  by (simp add: map_delete_def)

lemma fetch_inv_forget_ops:
  assumes "fetch_inv cfg acts f"
  shows "fetch_inv cfg acts (on_frontier sq f)"
    and "cursor_room cfg c \<Longrightarrow> fetch_inv cfg acts (on_cursor c f)"
    and "fetch_inv cfg acts (on_data now sq f)"
    and "fetch_inv cfg acts (mark_have sq f)"
    and "fetch_inv cfg acts (on_nack sq f)"
proof -
  have f: "fe_cfg f = cfg" "btm_ok (fe_outstanding f)" "cursor_room cfg (fe_cursor f)"
    "unat (fe_window f) \<le> window_cap cfg" using assms by (simp_all add: fetch_inv_def)
  show "fetch_inv cfg acts (on_frontier sq f)"
    by (rule fetch_inv_forget [OF assms]) (simp_all add: on_frontier_def f)
  have filt: "map_of (filter (\<lambda>(s, _). c \<le> s) m) s = (if c \<le> s then map_of m s else None)"
    for c s and m :: "(u64 \<times> outstanding) list" by (induction m) auto
  show "fetch_inv cfg acts (on_cursor c f)" if "cursor_room cfg c"
    using that f by (intro fetch_inv_forget [OF assms])
      (auto simp: on_cursor_def btm_ok_filter filt max_def)
  show "fetch_inv cfg acts (mark_have sq f)"
    using f length_delete [of sq "fe_outstanding f"] by (intro fetch_inv_forget [OF assms])
      (auto simp: mark_have_def count_satisfied_def btm_ok_delete map_of_delete)
  have "unat (min (w + 1) (fg_max_window cfg)) \<le> window_cap cfg" for w :: u64
  proof -
    have "unat (min (w + 1) (fg_max_window cfg)) \<le> unat (fg_max_window cfg)"
      by (simp add: word_le_nat_alt [symmetric])
    then show ?thesis by (simp add: window_cap_def)
  qed
  then show "fetch_inv cfg acts (on_data now sq f)"
    using f length_delete [of sq "fe_outstanding f"] by (intro fetch_inv_forget [OF assms])
      (auto simp: on_data_def Let_def count_satisfied_def btm_ok_delete map_of_delete split: option.splits)
  show "fetch_inv cfg acts (on_nack sq f)"
    using f halve_cap [OF f(4)] by (intro fetch_inv_forget [OF assms])
      (auto simp: on_nack_def halve_window_def btm_ok_insert btm_get_insert size_update split: option.splits)
qed

lemma overdue_step_inv:
  assumes "fetch_inv cfg (acts @ out) f" and "overdue_step now sq (out, f) = (out', f')"
  shows "fetch_inv cfg (acts @ out') f'"
proof (cases "map_of (fe_outstanding f) sq")
  case None
  then show ?thesis using assms by (simp add: overdue_step_def)
next
  case (Some og)
  have f: "fe_cfg f = cfg" "btm_ok (fe_outstanding f)" "cursor_room cfg (fe_cursor f)"
    "unat (fe_window f) \<le> window_cap cfg" "length (fe_outstanding f) \<le> window_cap cfg"
    using assms(1) by (simp_all add: fetch_inv_def)
  have og: "sq < fe_next_to_request f" "os_retries og \<le> fg_max_retries cfg"
    "about sq (acts @ out) = asked sq (unat (os_retries og))"
    using assms(1) Some by (auto simp: fetch_inv_def)
  have other: "map_of (fe_outstanding f) s = Some og' \<Longrightarrow>
      s < fe_next_to_request f \<and> os_retries og' \<le> fg_max_retries cfg
      \<and> about s (acts @ out) = asked s (unat (os_retries og'))"
    "map_of (fe_outstanding f) s = None \<Longrightarrow> life (unat (fg_max_retries cfg)) s (about s (acts @ out))
      \<and> (fe_next_to_request f \<le> s \<longrightarrow> about s (acts @ out) = [])" for s og'
    using assms(1) by (auto simp: fetch_inv_def)
  show ?thesis
  proof (cases "fg_max_retries cfg \<le> os_retries og")
    case True
    then have eq: "os_retries og = fg_max_retries cfg" using og(2) by simp
    have "out' = out @ [GiveUp sq]" "fe_outstanding f' = map_delete sq (fe_outstanding f)"
      "fe_window f' = max (fe_window f div 2) 1" "fe_cfg f' = cfg" "fe_cursor f' = fe_cursor f"
      "fe_next_to_request f' = fe_next_to_request f"
      using assms(2) Some True f(1) by (auto simp: overdue_step_def halve_window_def)
    then show ?thesis
      using f og other halve_cap [OF f(4)] length_delete [of sq "fe_outstanding f"] eq
      by (auto simp: fetch_inv_def btm_ok_delete map_of_delete life_def not_less [symmetric])
  next
    case False
    have lt: "unat (os_retries og + 1) = Suc (unat (os_retries og))"
    proof -
      have "os_retries og < fg_max_retries cfg" using False by simp
      then have "unat (os_retries og) < unat (fg_max_retries cfg)" by (simp add: word_less_nat_alt)
      also have "\<dots> < 2 ^ 32" using unsigned_less [of "fg_max_retries cfg", where ?'a = nat] by simp
      finally have "Suc (unat (os_retries og)) < 2 ^ 32"
        using \<open>unat (os_retries og) < unat (fg_max_retries cfg)\<close>
          unsigned_less [of "fg_max_retries cfg", where ?'a = nat] by simp
      then show ?thesis by (simp add: unat_word_ariths)
    qed
    then have le: "os_retries og + 1 \<le> fg_max_retries cfg"
      using False by (simp add: word_le_nat_alt)
    have "about sq (acts @ out) @ [Fetch sq True] = asked sq (Suc (unat (os_retries og)))"
      unfolding og(3) by (simp add: asked_def replicate_append_same)
    then have rep: "about sq acts @ about sq out @ [Fetch sq True] = asked sq (Suc (unat (os_retries og)))"
      by simp
    have "out' = out @ [Fetch sq True]"
      "fe_outstanding f' = btm_insert sq \<lparr>os_sent_at_ms = now, os_retries = os_retries og + 1\<rparr> (fe_outstanding f)"
      "fe_window f' = max (fe_window f div 2) 1" "fe_cfg f' = cfg" "fe_cursor f' = fe_cursor f"
      "fe_next_to_request f' = fe_next_to_request f"
      using assms(2) Some False f(1) by (auto simp: overdue_step_def halve_window_def)
    then show ?thesis
      using f og other halve_cap [OF f(4)] size_update [OF f(2) Some] le lt rep
      by (auto simp: fetch_inv_def btm_ok_insert btm_get_insert)
  qed
qed

lemma overdue_fold_inv:
  "fetch_inv cfg (acts @ out) f \<Longrightarrow> fold (overdue_step now) sqs (out, f) = (out', f') \<Longrightarrow>
    fetch_inv cfg (acts @ out') f'"
proof (induction sqs arbitrary: out f)
  case Nil
  then show ?case by simp
next
  case (Cons sq sqs)
  obtain out1 f1 where s: "overdue_step now sq (out, f) = (out1, f1)" by fastforce
  show ?case
    using Cons.IH [OF overdue_step_inv [OF Cons.prems(1) s]] Cons.prems(2) s by simp
qed

lemma request_limit_room: "fetch_inv cfg acts f \<Longrightarrow> request_limit f < -1"
proof -
  assume inv: "fetch_inv cfg acts f"
  then have room: "unat (fe_cursor f) + unat (fg_lookahead (fe_cfg f)) < 2 ^ 64 - 1"
    by (simp add: fetch_inv_def cursor_room_def)
  then have sum: "unat (fe_cursor f + fg_lookahead (fe_cfg f)) =
      unat (fe_cursor f) + unat (fg_lookahead (fe_cfg f))"
    by (intro unat_add_lem [THEN iffD1]) simp
  then have "saturating_add (fe_cursor f) (fg_lookahead (fe_cfg f)) < -1"
    using room unfolding saturating_add_def word_less_nat_alt unat_max_u64 by simp
  moreover have "request_limit f \<le> saturating_add (fe_cursor f) (fg_lookahead (fe_cfg f))"
    by (simp add: request_limit_def Let_def split: option.splits)
  ultimately show ?thesis by simp
qed

lemma fill_step_inv:
  assumes "fetch_inv cfg (acts @ out) f" and "limit < -1"
    and "length (fe_outstanding f) < unat (fe_window f) \<and> fe_next_to_request f \<le> limit"
  shows "fetch_inv cfg (acts @ (out @ [Fetch (fe_next_to_request f) False])) (fill_step now f)"
proof -
  let ?n = "fe_next_to_request f"
  have f: "fe_cfg f = cfg" "btm_ok (fe_outstanding f)" "cursor_room cfg (fe_cursor f)"
    "unat (fe_window f) \<le> window_cap cfg" using assms(1) by (simp_all add: fetch_inv_def)
  have "?n < -1" using assms(3) assms(2) by (blast intro: order_le_less_trans)
  then have n1: "unat (?n + 1) = Suc (unat ?n)" by (rule max_word_less)
  have some: "map_of (fe_outstanding f) s = Some og \<Longrightarrow> s < ?n \<and> os_retries og \<le> fg_max_retries cfg
      \<and> about s (acts @ out) = asked s (unat (os_retries og))"
    and none: "map_of (fe_outstanding f) s = None \<Longrightarrow>
      life (unat (fg_max_retries cfg)) s (about s (acts @ out)) \<and> (?n \<le> s \<longrightarrow> about s (acts @ out) = [])"
    for s og using assms(1) by (auto simp: fetch_inv_def)
  have fresh: "map_of (fe_outstanding f) ?n = None" using some [of ?n] by fastforce
  have less: "s < ?n \<Longrightarrow> s < ?n + 1" "?n < ?n + 1" "?n + 1 \<le> s \<Longrightarrow> ?n \<le> s" for s
    using n1 by (simp_all add: word_less_nat_alt word_le_nat_alt)
  have len: "length (fe_outstanding (fill_step now f)) \<le> window_cap cfg"
    using btm.size_insert [OF f(2), of ?n] assms(3) f(4) fresh by (simp add: fill_step_def)
  show ?thesis
    using f len some none none [OF fresh] less
    by (auto simp: fetch_inv_def fill_step_def btm_ok_insert btm_get_insert asked_def)
qed

lemma fill_window_inv:
  "fetch_inv cfg (acts @ out) f \<Longrightarrow> limit < -1 \<Longrightarrow> fill_window now limit out f = (out', f') \<Longrightarrow>
    fetch_inv cfg (acts @ out') f'"
proof (induction now limit out f rule: fill_window.induct)
  case (1 now limit out f)
  let ?n = "fe_next_to_request f"
  show ?case
  proof (cases "length (fe_outstanding f) < unat (fe_window f) \<and> ?n \<le> limit")
    case False
    then show ?thesis
      using "1.prems"(1,3) unfolding fill_window.simps [of now limit out f] if_not_P [OF False] by simp
  next
    case True
    have inv: "fetch_inv cfg (acts @ (out @ [Fetch ?n False])) (fill_step now f)"
      by (rule fill_step_inv [OF "1.prems"(1,2) True])
    show ?thesis
      using "1.IH" [OF True inv "1.prems"(2)] "1.prems"(3) True
      by (simp add: fill_window.simps [of now limit out f])
  qed
qed

lemma fetch_actions_inv:
  assumes "fetch_inv cfg acts f" and "fetch_actions now f = (out, f')"
  shows "fetch_inv cfg (acts @ out) f'"
proof -
  obtain out1 f1 where s: "fold (overdue_step now) (overdue now f) ([], f) = (out1, f1)" by fastforce
  have inv: "fetch_inv cfg (acts @ out1) f1"
    using overdue_fold_inv [OF _ s] assms(1) by simp
  show ?thesis
    using fill_window_inv [OF inv request_limit_room [OF inv]] assms(2) s
    by (simp add: fetch_actions_def)
qed

lemma fetch_run_inv:
  assumes "cursor_room cfg first" and "list_all (op_room cfg) ops"
    and "fetch_run first cfg ops = (acts, f)"
  shows "fetch_inv cfg acts f"
  using assms(2,3)
proof (induction ops arbitrary: acts f rule: rev_induct)
  case Nil
  then show ?case
    using assms(1)
    by (auto simp: fetch_run_def fetch_inv_def fetcher_new_def btm_ok_def window_cap_def life_def max_def)
next
  case (snoc op ops)
  obtain acts0 f0 where r: "fetch_run first cfg ops = (acts0, f0)" by fastforce
  obtain new where s: "fetch_apply op f0 = (new, f)" "acts = acts0 @ new"
    using snoc.prems(2) r by (auto simp: fetch_run_def split: prod.splits)
  have ih: "fetch_inv cfg acts0 f0" using snoc.IH [OF _ r] snoc.prems(1) by simp
  show ?case
    using s ih fetch_inv_forget_ops [OF ih] fetch_actions_inv [OF ih] snoc.prems(1)
    by (cases op) auto
qed

section \<open>An unanswered number\<close>

lemma fill_window_keeps:
  "fetch_inv cfg (acts @ out) f \<Longrightarrow> limit < -1 \<Longrightarrow> fill_window now limit out f = (out', f') \<Longrightarrow>
    s < fe_next_to_request f \<Longrightarrow>
    map_of (fe_outstanding f') s = map_of (fe_outstanding f) s \<and> about s out' = about s out
      \<and> rto_ms f' = rto_ms f"
proof (induction now limit out f rule: fill_window.induct)
  case (1 now limit out f)
  let ?n = "fe_next_to_request f"
  show ?case
  proof (cases "length (fe_outstanding f) < unat (fe_window f) \<and> ?n \<le> limit")
    case False
    then show ?thesis
      using "1.prems"(3) unfolding fill_window.simps [of now limit out f] if_not_P [OF False] by simp
  next
    case True
    have fill: "fill_window now limit (out @ [Fetch ?n False]) (fill_step now f) = (out', f')"
      using "1.prems"(3) True unfolding fill_window.simps [of now limit out f] by simp
    have "?n < -1" using True "1.prems"(2) by (blast intro: order_le_less_trans)
    then have "unat (?n + 1) = Suc (unat ?n)" by (rule max_word_less)
    then have s: "s < fe_next_to_request (fill_step now f)" "s \<noteq> ?n"
      using "1.prems"(4) by (auto simp: fill_step_def word_less_nat_alt)
    have inv: "fetch_inv cfg (acts @ (out @ [Fetch ?n False])) (fill_step now f)"
      by (rule fill_step_inv [OF "1.prems"(1,2) True])
    have ok: "btm_ok (fe_outstanding f)" using "1.prems"(1) by (simp add: fetch_inv_def)
    have "map_of (fe_outstanding f') s = map_of (fe_outstanding (fill_step now f)) s
        \<and> about s out' = about s (out @ [Fetch ?n False]) \<and> rto_ms f' = rto_ms (fill_step now f)"
      by (rule "1.IH" [OF True inv "1.prems"(2) fill s(1)])
    then show ?thesis
      using s(2) by (simp add: fill_step_def btm_get_insert [OF ok] rto_ms_def)
  qed
qed

lemma overdue_step_other:
  assumes "overdue_step now sq (out, f) = (out', f')" and "btm_ok (fe_outstanding f)"
  shows "btm_ok (fe_outstanding f') \<and> fe_cfg f' = fe_cfg f \<and> rto_ms f' = rto_ms f
    \<and> fe_next_to_request f' = fe_next_to_request f
    \<and> (s \<noteq> sq \<longrightarrow> map_of (fe_outstanding f') s = map_of (fe_outstanding f) s \<and> about s out' = about s out)"
  using assms by (auto simp: overdue_step_def halve_window_def btm_ok_delete btm_ok_insert map_of_delete
      btm_get_insert rto_ms_def split: option.splits if_splits)

lemma overdue_fold_other:
  assumes "fold (overdue_step now) sqs (out, f) = (out', f')" and "btm_ok (fe_outstanding f)"
    and "s \<notin> set sqs"
  shows "btm_ok (fe_outstanding f') \<and> fe_cfg f' = fe_cfg f \<and> rto_ms f' = rto_ms f
    \<and> fe_next_to_request f' = fe_next_to_request f
    \<and> map_of (fe_outstanding f') s = map_of (fe_outstanding f) s \<and> about s out' = about s out"
  using assms
proof (induction sqs arbitrary: out f)
  case Nil
  then show ?case by simp
next
  case (Cons sq sqs)
  obtain out1 f1 where one: "overdue_step now sq (out, f) = (out1, f1)" by fastforce
  have step: "btm_ok (fe_outstanding f1) \<and> fe_cfg f1 = fe_cfg f \<and> rto_ms f1 = rto_ms f
      \<and> fe_next_to_request f1 = fe_next_to_request f
      \<and> map_of (fe_outstanding f1) s = map_of (fe_outstanding f) s \<and> about s out1 = about s out"
    using overdue_step_other [OF one Cons.prems(2), of s] Cons.prems(3) by auto
  then show ?case
    using Cons.IH [of out1 f1] Cons.prems(1,3) one by simp
qed

text \<open>One poll at which the number is overdue.\<close>

lemma poll_overdue:
  assumes inv: "fetch_inv cfg acts f" and some: "map_of (fe_outstanding f) s = Some og"
    and due: "rto_ms f \<le> u64_saturating_sub now (os_sent_at_ms og)"
    and act: "fetch_actions now f = (out, f')"
  shows "rto_ms f' = rto_ms f \<and>
    (if fg_max_retries cfg \<le> os_retries og
     then about s out = [GiveUp s] \<and> map_of (fe_outstanding f') s = None
     else about s out = [Fetch s True] \<and> map_of (fe_outstanding f') s =
       Some \<lparr>os_sent_at_ms = now, os_retries = os_retries og + 1\<rparr>)"
proof -
  have ok: "btm_ok (fe_outstanding f)" and cfg: "fe_cfg f = cfg" and lt: "s < fe_next_to_request f"
    using inv some by (auto simp: fetch_inv_def)
  have dist: "distinct (overdue now f)"
    using btm.ok_distinct [OF ok] by (auto simp: overdue_def Let_def intro: distinct_map_filter)
  have "(s, og) \<in> set (fe_outstanding f)" using some by (rule map_of_SomeD)
  then have "s \<in> set (overdue now f)" using due by (force simp: overdue_def Let_def)
  then obtain xs ys where split: "overdue now f = xs @ s # ys" by (auto simp: in_set_conv_decomp)
  have notin: "s \<notin> set xs" "s \<notin> set ys" using dist split by auto
  obtain o1 f1 where 1: "fold (overdue_step now) xs ([], f) = (o1, f1)" by fastforce
  obtain o2 f2 where 2: "overdue_step now s (o1, f1) = (o2, f2)" by fastforce
  obtain o3 f3 where 3: "fold (overdue_step now) ys (o2, f2) = (o3, f3)" by fastforce
  note a = overdue_fold_other [OF 1 ok notin(1)]
  have b: "btm_ok (fe_outstanding f2) \<and> rto_ms f2 = rto_ms f \<and> fe_next_to_request f2 = fe_next_to_request f"
    using overdue_step_other [OF 2, of s] a by simp
  have c: "btm_ok (fe_outstanding f3) \<and> rto_ms f3 = rto_ms f2
      \<and> fe_next_to_request f3 = fe_next_to_request f2
      \<and> map_of (fe_outstanding f3) s = map_of (fe_outstanding f2) s \<and> about s o3 = about s o2"
    using overdue_fold_other [OF 3 _ notin(2)] b by simp
  have fold: "fold (overdue_step now) (overdue now f) ([], f) = (o3, f3)"
    using 1 2 3 by (simp add: split)
  have inv3: "fetch_inv cfg (acts @ o3) f3"
    using overdue_fold_inv [OF _ fold] inv by simp
  have fill: "fill_window now (request_limit f3) o3 f3 = (out, f')"
    using act fold by (simp add: fetch_actions_def)
  have d: "map_of (fe_outstanding f') s = map_of (fe_outstanding f3) s \<and> about s out = about s o3
      \<and> rto_ms f' = rto_ms f3"
    using fill_window_keeps [OF inv3 request_limit_room [OF inv3] fill] b c lt by simp
  have "if fg_max_retries cfg \<le> os_retries og
      then about s o2 = [GiveUp s] \<and> map_of (fe_outstanding f2) s = None
      else about s o2 = [Fetch s True] \<and> map_of (fe_outstanding f2) s =
        Some \<lparr>os_sent_at_ms = now, os_retries = os_retries og + 1\<rparr>"
    using 2 a some cfg by (auto simp: overdue_step_def halve_window_def map_of_delete btm_get_insert)
  then show ?thesis using b c d by simp
qed

text \<open>Polls whose distance from the send before is at least the timeout.\<close>

primrec spaced :: "u64 \<Rightarrow> u64 \<Rightarrow> u64 list \<Rightarrow> bool" where
  "spaced rto sent [] \<longleftrightarrow> True"
| "spaced rto sent (now # ts) \<longleftrightarrow> rto \<le> u64_saturating_sub now sent \<and> spaced rto now ts"

definition poll_all :: "u64 list \<Rightarrow> fetcher \<Rightarrow> fetch_action list \<times> fetcher" where
  "poll_all ts f = fold (\<lambda>now (out, f). let (new, f) = fetch_actions now f in (out @ new, f)) ts ([], f)"

lemma poll_out:
  "fold (\<lambda>now (out, f). let (new, f) = fetch_actions now f in (out @ new, f)) ts (out, f) =
    (out @ fst (poll_all ts f), snd (poll_all ts f))"
proof (induction ts arbitrary: out f)
  case Nil
  then show ?case by (simp add: poll_all_def)
next
  case (Cons now ts)
  obtain new f1 where one: "fetch_actions now f = (new, f1)" by fastforce
  show ?case
    using Cons.IH [of "out @ new" f1] Cons.IH [of new f1] one by (simp add: poll_all_def)
qed

lemma poll_all_Cons:
  "fetch_actions now f = (new, f1) \<Longrightarrow> poll_all (now # ts) f = (new @ fst (poll_all ts f1), snd (poll_all ts f1))"
  using poll_out [of ts new f1] by (simp add: poll_all_def)

lemma fetch_run_polls:
  assumes "fetch_run first cfg ops = (acts, f)"
  shows "fetch_run first cfg (ops @ map OpActions ts) = (acts @ fst (poll_all ts f), snd (poll_all ts f))"
  using assms poll_out [of ts acts f] by (simp add: fetch_run_def fold_map comp_def)

lemma polls_give_up:
  assumes "fetch_inv cfg acts f" and "map_of (fe_outstanding f) s = Some og"
    and "length ts = Suc (unat (fg_max_retries cfg) - unat (os_retries og))"
    and "spaced (rto_ms f) (os_sent_at_ms og) ts"
  shows "about s (fst (poll_all ts f)) =
    replicate (unat (fg_max_retries cfg) - unat (os_retries og)) (Fetch s True) @ [GiveUp s]"
  using assms
proof (induction ts arbitrary: acts f og)
  case Nil
  then show ?case by simp
next
  case (Cons now ts)
  let ?m = "unat (fg_max_retries cfg)"
  obtain new f1 where one: "fetch_actions now f = (new, f1)" by fastforce
  have le: "os_retries og \<le> fg_max_retries cfg" using Cons.prems(1,2) by (auto simp: fetch_inv_def)
  note poll = poll_overdue [OF Cons.prems(1,2) _ one]
  have due: "rto_ms f \<le> u64_saturating_sub now (os_sent_at_ms og)" "spaced (rto_ms f) now ts"
    using Cons.prems(4) by simp_all
  show ?case
  proof (cases "fg_max_retries cfg \<le> os_retries og")
    case True
    then have "unat (os_retries og) = ?m" using le by simp
    then have "ts = []" using Cons.prems(3) by simp
    then show ?thesis
      using poll [OF due(1)] True \<open>unat (os_retries og) = ?m\<close> poll_all_Cons [OF one, of ts]
      by (simp add: poll_all_def)
  next
    case False
    then have lt: "unat (os_retries og) < ?m" by (simp add: word_le_nat_alt)
    have "?m < 2 ^ 32" using unsigned_less [of "fg_max_retries cfg", where ?'a = nat] by simp
    then have "Suc (unat (os_retries og)) < 2 ^ 32" using lt by linarith
    then have suc: "unat (os_retries og + 1) = Suc (unat (os_retries og))"
      by (simp add: unat_word_ariths)
    let ?og = "\<lparr>os_sent_at_ms = now, os_retries = os_retries og + 1\<rparr>"
    have p: "rto_ms f1 = rto_ms f" "about s new = [Fetch s True]" "map_of (fe_outstanding f1) s = Some ?og"
      using poll [OF due(1)] False by simp_all
    have "length ts = Suc (?m - unat (os_retries ?og))"
      using Cons.prems(3) lt suc by simp
    then have "about s (fst (poll_all ts f1)) = replicate (?m - unat (os_retries ?og)) (Fetch s True) @ [GiveUp s]"
      using due(2) p(1) by (intro Cons.IH [OF fetch_actions_inv [OF Cons.prems(1) one] p(3)]) simp_all
    moreover have "?m - unat (os_retries og) = Suc (?m - Suc (unat (os_retries og)))"
      using lt by simp
    ultimately show ?thesis
      using p(2) suc by (simp add: poll_all_Cons [OF one])
  qed
qed

section \<open>What the fetcher guarantees\<close>

text \<open>
  (C10) The life of a request. Over any run whose cursor leaves the lookahead room below the last
  number, the actions about one number are, in order: nothing; or one first request and at most
  \<open>max_retries\<close> retransmissions; or all of those and then one \<open>GiveUp\<close>, after which it is never
  asked for again. And never more requests are outstanding than the largest configured window.
\<close>

theorem fetch_request_life:
  assumes "cursor_room cfg first" and "list_all (op_room cfg) ops"
  shows "life (unat (fg_max_retries cfg)) sq (about sq (fst (fetch_run first cfg ops)))
    \<and> length (fe_outstanding (snd (fetch_run first cfg ops))) \<le> window_cap cfg"
proof -
  have "fetch_inv cfg (fst (fetch_run first cfg ops)) (snd (fetch_run first cfg ops))"
    using assms by (rule fetch_run_inv) simp
  then show ?thesis
    using fetch_inv_life [of cfg "fst (fetch_run first cfg ops)" "snd (fetch_run first cfg ops)" sq]
    unfolding fetch_inv_def by blast
qed

theorem fetch_request_life_witness:
  "life 3 1 (about 1 (fst (fetch_run 0 fetcher_config_default [OpActions 0, OpNack 1, OpActions 900])))
    \<and> length (fe_outstanding (snd (fetch_run 0 fetcher_config_default
        [OpActions 0, OpNack 1, OpActions 900]))) \<le> 64"
proof -
  have "cursor_room fetcher_config_default 0" "window_cap fetcher_config_default = 64"
    "unat (fg_max_retries fetcher_config_default) = 3"
    by (simp_all add: cursor_room_def window_cap_def fetcher_config_default_def)
  then show ?thesis
    using fetch_request_life [of fetcher_config_default 0 "[OpActions 0, OpNack 1, OpActions 900]" 1]
    by simp
qed

text \<open>
  An unanswered number is given up. After any run, let a number be outstanding and let the
  caller poll at instants each a retransmission timeout after the one before, as many as retries
  are left and one more. Then the actions about it over the whole run are one request,
  \<open>max_retries\<close> retransmissions and one \<open>GiveUp\<close>, so the stream is not stuck on it.
\<close>

theorem fetch_unanswered_given_up:
  assumes "cursor_room cfg first" and "list_all (op_room cfg) ops"
    and "map_of (fe_outstanding (snd (fetch_run first cfg ops))) sq = Some og"
    and "length ts = Suc (unat (fg_max_retries cfg) - unat (os_retries og))"
    and "spaced (rto_ms (snd (fetch_run first cfg ops))) (os_sent_at_ms og) ts"
  shows "about sq (fst (fetch_run first cfg (ops @ map OpActions ts))) =
    asked sq (unat (fg_max_retries cfg)) @ [GiveUp sq]"
proof -
  obtain acts f where r: "fetch_run first cfg ops = (acts, f)" by fastforce
  have inv: "fetch_inv cfg acts f" using fetch_run_inv [OF assms(1,2) r] .
  have some: "map_of (fe_outstanding f) sq = Some og" using assms(3) r by simp
  have before: "about sq acts = asked sq (unat (os_retries og))"
    and le: "unat (os_retries og) \<le> unat (fg_max_retries cfg)"
    using inv some by (auto simp: fetch_inv_def word_le_nat_alt)
  have "about sq (fst (poll_all ts f)) =
      replicate (unat (fg_max_retries cfg) - unat (os_retries og)) (Fetch sq True) @ [GiveUp sq]"
    using polls_give_up [OF inv some assms(4)] assms(5) r by simp
  moreover have "replicate (unat (os_retries og)) x @ replicate (unat (fg_max_retries cfg) - unat (os_retries og)) x
      = replicate (unat (fg_max_retries cfg)) x" for x :: fetch_action
    using le by (simp flip: replicate_add)
  ultimately show ?thesis
    using before by (simp add: fetch_run_polls [OF r] asked_def flip: append_assoc)
qed

theorem fetch_unanswered_given_up_witness:
  "about 1 (fst (fetch_run 0 fetcher_config_default
      ([OpActions 0] @ map OpActions [800, 1600, 2400, 3200]))) = asked 1 3 @ [GiveUp 1]"
proof -
  let ?f = "snd (fetch_run 0 fetcher_config_default [OpActions 0])"
  have "cursor_room fetcher_config_default 0" "unat (fg_max_retries fetcher_config_default) = 3"
    by (simp_all add: cursor_room_def fetcher_config_default_def)
  moreover have "map_of (fe_outstanding ?f) 1 = Some \<lparr>os_sent_at_ms = 0, os_retries = 0\<rparr>"
    "spaced (rto_ms ?f) 0 [800, 1600, 2400, 3200]" by code_simp+
  ultimately show ?thesis
    using fetch_unanswered_given_up [of fetcher_config_default 0 "[OpActions 0]" 1
        "\<lparr>os_sent_at_ms = 0, os_retries = 0\<rparr>" "[800, 1600, 2400, 3200]"] by simp
qed

text \<open>
  A negative signal does not make the request due. \<open>on_nack\<close> sets the send time to 0 so that the
  request is "due immediately"; it is due once the clock has passed one timeout. With a clock
  that started 11 ms before, the next pass neither repeats the number nor gives it up.
\<close>

theorem nack_not_due_on_a_young_clock:
  "about 1 (fst (fetch_run 0 fetcher_config_default [OpActions 0, OpNack 1, OpActions 11])) = asked 1 0"
  by code_simp

end
