(* ===== verification/Dv_Converge.thy ===== *)
theory Dv_Converge
  imports Dv_Exchange
begin

text \<open>
  Convergence of the distance-vector protocol on a network of routers that exchange the
  advertisements of \<open>Dv_Rib\<close>: whatever stale or wrong costs the tables start with, once every link
  has carried an advertisement sixteen times over, in any order, every router's best routes are
  the shortest paths, and the destinations further than the 15 hops of the metric are gone.
\<close>

section \<open>The network\<close>

text \<open>Router \<open>s\<close> applies the advertisement \<open>p\<close> produces now.\<close>

definition hear :: "'n \<times> 'n \<Rightarrow> ('n::linorder \<Rightarrow> 'n dv_rib) \<Rightarrow> 'n \<Rightarrow> 'n dv_rib" where
  "hear = (\<lambda>(s, p) net. case produce_advertisement (net p) of
     None \<Rightarrow> net
   | Some adv \<Rightarrow> net(s := snd (apply_advertisement p adv (net s))))"

definition net_ok :: "('n \<times> 'n) set \<Rightarrow> ('n::linorder \<Rightarrow> 'n dv_rib) \<Rightarrow> bool" where
  "net_ok links net \<longleftrightarrow> (\<forall>v. dv_reach v (net v))
    \<and> (\<forall>v d h. reach_cost (net v) d h \<noteq> None \<longrightarrow> (v, h) \<in> links \<or> h = v \<and> d = v)"

lemma net_okD:
  "net_ok links net \<Longrightarrow> dv_reach v (net v)"
  "net_ok links net \<Longrightarrow> reach_cost (net v) d h = Some c \<Longrightarrow> (v, h) \<in> links \<or> h = v \<and> d = v"
  "net_ok links net \<Longrightarrow> rib_ok (net v) \<and> dr_self (net v) = v"
  using dv_reach_ok by (auto simp: net_ok_def)

lemma self_cost: "dv_reach v rib \<Longrightarrow> reach_cost rib v h = (if h = v then Some 0 else None)"
  using dv_reach_ok [of v rib] rib_okD(2) [of rib]
  by (auto simp: reach_cost_def cost_of_def self_entry_def RIB_INFINITY_def fin_cost_def)

lemma reach_cost_bound: "reach_cost rib d h = Some c \<Longrightarrow> unat c < 16"
  by (auto simp: reach_cost_def fin_cost_def RIB_INFINITY_def word_less_nat_alt split: option.splits if_splits)

text \<open>The columns of the tables after one event: only \<open>s\<close>'s costs over \<open>p\<close> change.\<close>

lemma hear_cost:
  assumes "net_ok links net" and "d \<noteq> s"
  obtains r where "least_route ((reach_cost (net p) d)(s := None)) r"
    and "\<And>v h. reach_cost (hear (s, p) net v) d h =
      (if v = s \<and> h = p then Option.bind r (\<lambda>b. if br_cost b + 1 < 16 then Some (br_cost b + 1) else None)
       else reach_cost (net v) d h)"
proof -
  have ok: "rib_ok (net v)" and self: "dr_self (net v) = v" for v
    using net_okD(3) [OF assms(1)] by auto
  obtain adv where adv: "produce_advertisement (net p) = Some adv" using produced [OF ok] by blast
  obtain r where r: "least_route ((reach_cost (net p) d)(s := None)) r"
    "reach_cost (snd (apply_advertisement p adv (net s))) d p =
        Option.bind r (\<lambda>b. if br_cost b + 1 < 16 then Some (br_cost b + 1) else None)"
    using exchange_least [OF ok ok _ adv, of d s p] assms(2) unfolding self by blast
  have "reach_cost (hear (s, p) net v) d h =
      (if v = s \<and> h = p then Option.bind r (\<lambda>b. if br_cost b + 1 < 16 then Some (br_cost b + 1) else None)
       else reach_cost (net v) d h)" for v h
    using r(2) reach_cost_apply [OF rib_okD(1) [OF ok], of p adv s d h]
    by (auto simp: hear_def adv)
  with r(1) show thesis by (rule that)
qed

lemma net_ok_hear:
  assumes "net_ok links net" and "(s, p) \<in> links" and "s \<noteq> p"
  shows "net_ok links (hear (s, p) net)"
proof -
  have reach: "dv_reach v (hear (s, p) net v)" for v
    using net_okD(1) [OF assms(1), of v] reach_apply [of v "net v" p] assms(3)
    by (auto simp: hear_def split: option.split)
  have "(v, h) \<in> links \<or> h = v \<and> d = v" if "reach_cost (hear (s, p) net v) d h = Some c" for v d h c
  proof (cases "v = d")
    case True
    then show ?thesis using that self_cost [OF reach, of v h] by (simp split: if_splits)
  next
    case False
    show ?thesis
    proof (cases "v = s")
      case True
      then have "d \<noteq> s" using False by simp
      from hear_cost [OF assms(1) this, of p] show ?thesis
        using that assms(2) net_okD(2) [OF assms(1)] True by (metis (no_types))
    next
      case False
      then have "hear (s, p) net v = net v" by (simp add: hear_def split: option.split)
      then show ?thesis using that net_okD(2) [OF assms(1)] by metis
    qed
  qed
  then show ?thesis using reach unfolding net_ok_def by (metis option.exhaust_sel)
qed

section \<open>How far a column has converged\<close>

text \<open>
  The cost \<open>c\<close> of \<open>d\<close> at \<open>s\<close> over \<open>p\<close> is right up to \<open>k\<close> hops: it is no rumour (a walk that short
  exists) unless it is at least \<open>k\<close>, and the next hops of the shortest paths up to \<open>k\<close> hops have it.
\<close>

definition shortest :: "('n \<times> 'n) set \<Rightarrow> nat \<Rightarrow> 'n \<Rightarrow> 'n \<Rightarrow> bool" where
  "shortest links m v d \<longleftrightarrow> (v, d) \<in> links ^^ m \<and> (\<forall>j<m. (v, d) \<notin> links ^^ j)"

definition col_ok :: "('n \<times> 'n) set \<Rightarrow> nat \<Rightarrow> ('n::linorder \<Rightarrow> 'n dv_rib) \<Rightarrow> 'n \<Rightarrow> 'n \<times> 'n \<Rightarrow> bool" where
  "col_ok links k net d = (\<lambda>(s, p).
     (\<forall>c. reach_cost (net s) d p = Some c \<longrightarrow>
        k \<le> unat c \<or> (\<exists>m. Suc m \<le> unat c \<and> (p, d) \<in> links ^^ m))
   \<and> (\<forall>m<15. Suc m \<le> k \<longrightarrow> shortest links (Suc m) s d \<longrightarrow> (p, d) \<in> links ^^ m \<longrightarrow>
        (\<exists>c. reach_cost (net s) d p = Some c \<and> unat c \<le> Suc m)))"

lemma shortest_step:
  assumes "shortest links (Suc m) v d"
  obtains p where "(v, p) \<in> links" and "shortest links m p d"
proof -
  obtain p where p: "(v, p) \<in> links" "(p, d) \<in> links ^^ m"
    using assms relpow_Suc_D2 by (metis shortest_def)
  have "(p, d) \<notin> links ^^ j" if "j < m" for j
    using assms p(1) that relpow_Suc_I2 by (metis shortest_def Suc_less_eq)
  then show thesis using that p by (simp add: shortest_def)
qed

lemma shortest_exists:
  assumes "(v, d) \<in> links ^^ m"
  obtains j where "j \<le> m" and "shortest links j v d"
  using assms exists_least_iff [of "\<lambda>j. (v, d) \<in> links ^^ j"] unfolding shortest_def
  by (metis linorder_not_le)

lemma shortest_pos:
  assumes "shortest links j v d" and "v \<noteq> d"
  obtains i where "j = Suc i"
  using assms by (cases j) (auto simp: shortest_def)

lemma shortest_through:
  assumes "shortest links (Suc m) s d" and "(s, p) \<in> links" and "(p, d) \<in> links ^^ m"
  shows "shortest links m p d"
  using assms relpow_Suc_I2 unfolding shortest_def by (metis Suc_less_eq)

lemma col_ok_down: "col_ok links (Suc k) net d l \<Longrightarrow> col_ok links k net d l"
  unfolding col_ok_def by (auto dest: Suc_leD)

lemma col_ok_zero: "col_ok links 0 net d l"
  by (simp add: col_ok_def)

text \<open>Hearing \<open>p\<close> brings the column over \<open>p\<close> one hop further.\<close>

lemma least_mono: "least_route f r \<Longrightarrow> f h = Some c \<Longrightarrow> \<exists>b. r = Some b \<and> unat (br_cost b) \<le> unat c"
  by (cases r) (fastforce simp: least_route_def word_le_nat_alt word_less_nat_alt)+

lemma least_holds: "least_route f (Some b) \<Longrightarrow> f (br_neighbor b) = Some (br_cost b)"
  by (simp add: least_route_def)

lemma plus_one: "unat (c :: u32) < 16 \<Longrightarrow> unat (c + 1) = Suc (unat c)"
  by (simp add: unat_word_ariths)

lemma hear_col:
  assumes ok: "net_ok links net" and link: "(s, p) \<in> links" and d: "d \<noteq> s" and irr: "s \<noteq> p"
    and cols: "\<And>l. l \<in> links \<Longrightarrow> fst l \<noteq> d \<Longrightarrow> col_ok links k net d l"
  shows "col_ok links (Suc k) (hear (s, p) net) d (s, p)"
proof -
  obtain r where r: "least_route ((reach_cost (net p) d)(s := None)) r"
    and now: "reach_cost (hear (s, p) net s) d p =
      Option.bind r (\<lambda>b. if br_cost b + 1 < 16 then Some (br_cost b + 1) else None)"
    by (rule hear_cost [OF ok d, of p]) (use that in auto)
  have low: "Suc k \<le> unat c \<or> (\<exists>m. Suc m \<le> unat c \<and> (p, d) \<in> links ^^ m)"
    if c: "reach_cost (hear (s, p) net s) d p = Some c" for c
  proof -
    obtain b where b: "r = Some b" "c = br_cost b + 1"
      using c unfolding now by (auto simp: bind_eq_Some_conv split: if_splits)
    have "reach_cost (net p) d (br_neighbor b) = Some (br_cost b)"
      using least_holds r unfolding b(1) by (fastforce split: if_splits)
    note at_p = this reach_cost_bound [OF this]
    have cost: "unat c = Suc (unat (br_cost b))" using b(2) plus_one at_p(2) by simp
    show ?thesis
    proof (cases "p = d")
      case True
      then have "(p, d) \<in> links ^^ 0" by simp
      then show ?thesis using cost by (metis Suc_le_mono zero_le)
    next
      case False
      then have here: "(p, br_neighbor b) \<in> links" using net_okD(2) [OF ok at_p(1)] by auto
      then have "k \<le> unat (br_cost b) \<or> (\<exists>m. Suc m \<le> unat (br_cost b) \<and> (br_neighbor b, d) \<in> links ^^ m)"
        using cols [OF here] False at_p(1) by (simp add: col_ok_def)
      then show ?thesis
        using cost relpow_Suc_I2 [OF here] by (metis Suc_le_mono)
    qed
  qed
  have up: "\<exists>c. reach_cost (hear (s, p) net s) d p = Some c \<and> unat c \<le> Suc m"
    if m: "m < 15" "m \<le> k" and far: "shortest links (Suc m) s d" and near: "(p, d) \<in> links ^^ m" for m
  proof -
    have p: "shortest links m p d" by (rule shortest_through [OF far link near])
    have "\<exists>h c. ((reach_cost (net p) d)(s := None)) h = Some c \<and> unat c \<le> m"
    proof (cases m)
      case 0
      then have "p = d" using near by simp
      then have "((reach_cost (net p) d)(s := None)) d = Some 0"
        using self_cost [OF net_okD(1) [OF ok]] d by simp
      then show ?thesis using unat_0 by (metis zero_le)
    next
      case (Suc j)
      obtain h where h: "(p, h) \<in> links" "shortest links j h d"
        by (rule shortest_step [of links j p d]) (use p Suc in auto)
      have "h \<noteq> s"
      proof
        assume "h = s"
        then have "(s, d) \<in> links ^^ j" using h(2) by (simp add: shortest_def)
        moreover have "(s, d) \<notin> links ^^ j" using far Suc by (simp add: shortest_def)
        ultimately show False by simp
      qed
      moreover have "p \<noteq> d" using p Suc by (auto simp: shortest_def)
      then have "col_ok links k net d (p, h)" using cols [OF h(1)] by simp
      then have "\<exists>c. reach_cost (net p) d h = Some c \<and> unat c \<le> Suc j"
        using h(2) p m unfolding Suc col_ok_def shortest_def by simp
      ultimately show ?thesis using Suc by (metis fun_upd_other)
    qed
    then obtain b where b: "r = Some b" "unat (br_cost b) \<le> m"
      using least_mono [OF r] by (metis le_trans)
    have "unat (br_cost b + 1) \<le> Suc m \<and> unat (br_cost b + 1) < 16"
      using plus_one [of "br_cost b"] b(2) m(1) by simp
    then show ?thesis unfolding now b(1) by (simp add: word_less_nat_alt)
  qed
  show ?thesis using low up by (simp add: col_ok_def)
qed

lemma hear_col_other:
  assumes "net_ok links net" and "d \<noteq> s" and "l \<noteq> (s, p)"
  shows "col_ok links k (hear (s, p) net) d l = col_ok links k net d l"
proof -
  obtain v h where l: "l = (v, h)" by (cases l)
  have "reach_cost (hear (s, p) net v) d h = reach_cost (net v) d h"
    by (rule hear_cost [OF assms(1,2), of p]) (use assms(3) l in auto)
  then show ?thesis by (simp add: col_ok_def l)
qed

lemma hear_col_self:
  assumes "fst l \<noteq> s"
  shows "col_ok links k (hear (s, p) net) d l = col_ok links k net d l"
  using assms by (cases l) (simp add: col_ok_def hear_def split: option.split)

section \<open>Phases\<close>

text \<open>Every link below \<open>d\<close> has converged up to \<open>k\<close> hops, the links of \<open>seen\<close> one hop further.\<close>

definition net_level :: "('n \<times> 'n) set \<Rightarrow> nat \<Rightarrow> ('n::linorder \<Rightarrow> 'n dv_rib) \<Rightarrow> 'n \<Rightarrow> ('n \<times> 'n) set \<Rightarrow> bool" where
  "net_level links k net d seen \<longleftrightarrow>
     (\<forall>l\<in>links. fst l \<noteq> d \<longrightarrow> col_ok links (if l \<in> seen then Suc k else k) net d l)"

lemma level_hear:
  assumes ok: "net_ok links net" and irr: "irrefl links" and link: "l \<in> links"
    and level: "net_level links k net d seen"
  shows "net_level links k (hear l net) d (insert l seen)"
  unfolding net_level_def
proof (intro ballI impI)
  fix l' assume l': "l' \<in> links" "fst l' \<noteq> d"
  obtain s p where l: "l = (s, p)" by (cases l)
  have sp: "s \<noteq> p" using irr link l by (auto simp: irrefl_def)
  have cols: "col_ok links k net d l'" if "l' \<in> links" "fst l' \<noteq> d" for l'
  proof (cases "l' \<in> seen")
    case True
    then show ?thesis using level that unfolding net_level_def by (metis col_ok_down)
  next
    case False
    then show ?thesis using level that by (auto simp: net_level_def)
  qed
  have here: "col_ok links (if l' \<in> seen then Suc k else k) net d l'"
    using level l' by (simp add: net_level_def)
  show "col_ok links (if l' \<in> insert l seen then Suc k else k) (hear l net) d l'"
  proof (cases "l' = l")
    case True
    then have "col_ok links (Suc k) (hear (s, p) net) d (s, p)"
      using hear_col [OF ok _ _ sp, of d k] link l' cols l by auto
    then show ?thesis using True l by simp
  next
    case False
    show ?thesis
    proof (cases "s = d")
      case True
      then have "fst l' \<noteq> s" using l' by simp
      then show ?thesis using here hear_col_self False l by (metis insert_iff)
    next
      case ds: False
      then have "d \<noteq> s" by simp
      from hear_col_other [OF ok this, of l' p] show ?thesis using here False l by simp
    qed
  qed
qed

lemma level_phase:
  assumes "set es \<subseteq> links" and "net_ok links net" and irr: "irrefl links"
    and "net_level links k net d seen"
  shows "net_ok links (fold hear es net) \<and> net_level links k (fold hear es net) d (seen \<union> set es)"
  using assms(1,2,4)
proof (induction es arbitrary: net seen)
  case (Cons l es)
  obtain s p where l: "l = (s, p)" by (cases l)
  have link: "(s, p) \<in> links" "s \<noteq> p" using Cons.prems(1) irr l by (auto simp: irrefl_def)
  have "net_ok links (hear l net)" using net_ok_hear [OF Cons.prems(2) link] l by simp
  moreover have "net_level links k (hear l net) d (insert l seen)"
    by (rule level_hear [OF Cons.prems(2) irr _ Cons.prems(3)]) (use Cons.prems(1) in simp)
  ultimately have "net_ok links (fold hear es (hear l net)) \<and>
      net_level links k (fold hear es (hear l net)) d (insert l seen \<union> set es)"
    by (rule Cons.IH [rotated]) (use Cons.prems(1) in simp)
  then show ?case by simp
qed simp

lemma level_phases:
  assumes "\<And>es. es \<in> set phases \<Longrightarrow> set es = links" and "net_ok links net" and irr: "irrefl links"
    and "net_level links k net d {}"
  shows "net_ok links (fold hear (concat phases) net)
    \<and> net_level links (k + length phases) (fold hear (concat phases) net) d {}"
  using assms(1,2,4)
proof (induction phases arbitrary: net k)
  case (Cons es phases)
  have es: "set es = links" using Cons.prems(1) by simp
  have "net_ok links (fold hear es net)" and "net_level links k (fold hear es net) d links"
    using level_phase [OF _ Cons.prems(2) irr Cons.prems(3), of es] es by auto
  moreover from this(2) have "net_level links (Suc k) (fold hear es net) d {}"
    by (simp add: net_level_def)
  ultimately show ?case using Cons.IH [of "fold hear es net" "Suc k"] Cons.prems(1) by simp
qed simp

text \<open>At level 16 the columns are the shortest paths.\<close>

definition shortest_route :: "('n \<times> 'n) set \<Rightarrow> 'n \<Rightarrow> 'n \<Rightarrow> 'n best_route option \<Rightarrow> bool" where
  "shortest_route links v d r \<longleftrightarrow> (case r of
     None \<Rightarrow> \<forall>m<16. (v, d) \<notin> links ^^ m
   | Some b \<Rightarrow> (v, br_neighbor b) \<in> links \<and> 0 < br_cost b \<and> unat (br_cost b) < 16
       \<and> (br_neighbor b, d) \<in> links ^^ (unat (br_cost b) - 1)
       \<and> shortest links (unat (br_cost b)) v d)"

lemma routes_at_level_16:
  assumes ok: "net_ok links net" and level: "net_level links k net d {}" and "16 \<le> k" and vd: "v \<noteq> d"
  shows "shortest_route links v d (best_route (net v) d)"
proof -
  have least: "least_route (reach_cost (net v) d) (best_route (net v) d)"
    by (rule best_route_reach) (use net_okD(3) [OF ok] in blast)
  have col: "col_ok links k net d (v, p)" if "(v, p) \<in> links" for p
    using level that vd by (auto simp: net_level_def)
  have real: "\<exists>b m. best_route (net v) d = Some b \<and> (v, br_neighbor b) \<in> links
      \<and> Suc m \<le> unat (br_cost b) \<and> unat (br_cost b) < 16 \<and> (br_neighbor b, d) \<in> links ^^ m"
    if b: "best_route (net v) d = Some b" for b
  proof -
    have c: "reach_cost (net v) d (br_neighbor b) = Some (br_cost b)"
      using least b least_holds by metis
    have link: "(v, br_neighbor b) \<in> links" using net_okD(2) [OF ok c] vd by auto
    show ?thesis
      using col [OF link] c reach_cost_bound [OF c] assms(3) b link by (auto simp: col_ok_def)
  qed
  have found: "\<exists>b. best_route (net v) d = Some b \<and> unat (br_cost b) \<le> Suc m"
    if m: "m < 15" "shortest links (Suc m) v d" for m
  proof -
    obtain p where p: "(v, p) \<in> links" "shortest links m p d" using shortest_step [OF m(2)] .
    have "\<exists>c. reach_cost (net v) d p = Some c \<and> unat c \<le> Suc m"
      using col [OF p(1)] m p(2) assms(3) by (simp add: col_ok_def shortest_def)
    then show ?thesis using least_mono [OF least] by (metis le_trans)
  qed
  show ?thesis
  proof (cases "best_route (net v) d")
    case None
    have "(v, d) \<notin> links ^^ m" if "m < 16" for m
    proof
      assume "(v, d) \<in> links ^^ m"
      then obtain j where j: "j \<le> m" "shortest links j v d" by (rule shortest_exists)
      obtain i where "j = Suc i" by (rule shortest_pos [OF j(2) vd])
      then show False using found [of i] j that None by simp
    qed
    then show ?thesis using None by (simp add: shortest_route_def)
  next
    case (Some b)
    obtain m where m: "(v, br_neighbor b) \<in> links" "Suc m \<le> unat (br_cost b)" "unat (br_cost b) < 16"
      "(br_neighbor b, d) \<in> links ^^ m"
      using real [OF Some] Some by auto
    have "(v, d) \<in> links ^^ Suc m" by (rule relpow_Suc_I2 [OF m(1,4)])
    then obtain j where j: "j \<le> Suc m" "shortest links j v d" by (rule shortest_exists)
    obtain i where i: "j = Suc i" by (rule shortest_pos [OF j(2) vd])
    have "unat (br_cost b) \<le> j" using found [of i] j m i Some by simp
    then have "unat (br_cost b) = Suc m" and "j = Suc m" using j(1) m(2) by simp_all
    then show ?thesis using m j(2) Some by (simp add: shortest_route_def word_less_nat_alt)
  qed
qed

section \<open>Properties\<close>

text \<open>
  (C20) The distance-vector protocol converges: from any reachable tables, however stale, that hold costs
  over existing links only, after sixteen phases in each of which every link carries at least one
  advertisement, in any order, the best route of every router for every destination is a shortest
  path of the link graph (its cost the distance, its neighbour one hop closer), and there is a
  route exactly for the destinations less than 16 hops away: a stale route does not survive.
\<close>

theorem dv_converges:
  assumes "\<And>v. dv_reach v (net v)"
    and "\<And>v d h. reach_cost (net v) d h \<noteq> None \<Longrightarrow> (v, h) \<in> links \<or> h = v \<and> d = v"
    and "irrefl links" and "16 \<le> length phases" and "\<And>es. es \<in> set phases \<Longrightarrow> set es = links"
    and "v \<noteq> d"
  shows "case best_route (fold hear (concat phases) net v) d of
      None \<Rightarrow> \<forall>m<16. (v, d) \<notin> links ^^ m
    | Some b \<Rightarrow> (v, br_neighbor b) \<in> links \<and> 0 < br_cost b \<and> unat (br_cost b) < 16
        \<and> (br_neighbor b, d) \<in> links ^^ (unat (br_cost b) - 1)
        \<and> (v, d) \<in> links ^^ unat (br_cost b) \<and> (\<forall>m < unat (br_cost b). (v, d) \<notin> links ^^ m)"
proof -
  have "net_ok links net" using assms(1,2) unfolding net_ok_def by blast
  moreover have "net_level links 0 net d {}" by (simp add: net_level_def col_ok_zero)
  ultimately have "net_ok links (fold hear (concat phases) net) \<and>
      net_level links (0 + length phases) (fold hear (concat phases) net) d {}"
    using level_phases [OF assms(5) _ assms(3), of phases net 0 d] by blast
  then show ?thesis
    using routes_at_level_16 [of links "fold hear (concat phases) net" "length phases" d v] assms(4,6)
    by (simp add: shortest_route_def shortest_def split: option.splits)
qed

text \<open>
  A line of three routers; router 1 starts with stale routes over router 2: to 3 at cost 5 and to
  4, which no longer exists, at cost 7.
\<close>

definition line :: "(nat \<times> nat) list" where
  "line = [(2, 1), (1, 2), (3, 2), (2, 3)]"

definition stale_net :: "nat \<Rightarrow> nat dv_rib" where
  "stale_net = (\<lambda>v. if v = 1 then example_rib else dv_rib_new v)"

lemma line_stays: "(v, w) \<in> set line ^^ m \<Longrightarrow> v \<le> 3 \<Longrightarrow> w \<le> 3"
  by (induction m arbitrary: w) (auto simp: line_def)

lemma new_costs: "reach_cost (dv_rib_new s) d h = (if d = s \<and> h = s then Some 0 else None)"
  by (auto simp: reach_cost_def cost_of_def dv_rib_new_def RIB_INFINITY_def fin_cost_def
      hm_insert_Nil)

theorem dv_converges_witness:
  "\<exists>b. best_route (fold hear (concat (replicate 16 line)) stale_net 1) 3 = Some b
      \<and> br_neighbor b = 2 \<and> unat (br_cost b) = 2
    \<and> best_route (fold hear (concat (replicate 16 line)) stale_net 1) 4 = None
    \<and> best_route (stale_net 1) 4 = Some \<lparr>br_neighbor = 2, br_cost = 7\<rparr>"
proof -
  have raw: "raw_ok (dr_entries (dv_rib_new s))" for s :: nat using rib_okD(1) [OF rib_ok_new] .
  have reach: "dv_reach v (stale_net v)" for v
    using example_reach reach_new [of v] by (simp add: stale_net_def)
  have over: "(v, h) \<in> set line \<or> h = v \<and> d = v" if "reach_cost (stale_net v) d h \<noteq> None" for v d h
    using that reach_cost_apply [OF raw, of 2 example_adv 1 d h]
    by (auto simp: stale_net_def example_rib_def new_costs line_def split: if_splits)
  have irr: "irrefl (set line)" by (auto simp: irrefl_def line_def)
  note conv = dv_converges [OF reach over irr, of "replicate 16 line" 1]
  let ?net = "fold hear (concat (replicate 16 line)) stale_net"
  have walk: "(1, 3) \<in> set line ^^ 2" by (auto simp: line_def numeral_2_eq_2 relcomp_unfold)
  have "case best_route (?net 1) 3 of None \<Rightarrow> False
    | Some b \<Rightarrow> br_neighbor b = 2 \<and> unat (br_cost b) = 2"
  proof (cases "best_route (?net 1) 3")
    case None
    then show ?thesis using conv [of 3] walk by auto
  next
    case (Some b)
    have c: "(1, br_neighbor b) \<in> set line" "(1, 3) \<in> set line ^^ unat (br_cost b)"
      "unat (br_cost b) \<le> 2"
      using conv [of 3] walk Some by (auto simp: not_less)
    have "(1, 3) \<notin> set line ^^ 0" and "(1, 3) \<notin> set line ^^ 1" by (auto simp: line_def)
    then have "unat (br_cost b) \<noteq> 0" and "unat (br_cost b) \<noteq> 1" using c(2) by metis+
    then have "unat (br_cost b) = 2" using c(3) by linarith
    then show ?thesis using c(1) Some by (simp add: line_def)
  qed
  moreover have "best_route (?net 1) 4 = None"
  proof (cases "best_route (?net 1) 4")
    case (Some b)
    then have "(1, 4) \<in> set line ^^ unat (br_cost b)" using conv [of 4] by auto
    then show ?thesis using line_stays [of 1 4] by auto
  qed simp
  moreover have "best_route (stale_net 1) 4 = Some \<lparr>br_neighbor = 2, br_cost = 7\<rparr>" by code_simp
  ultimately show ?thesis by (auto split: option.splits)
qed

end
