(* ===== verification/Dv_Fib.thy ===== *)
theory Dv_Fib
  imports Dv_Exchange Dv_Prefix
begin

text \<open>
  The forwarding table the distance-vector protocol computes (\<open>dv/fib.rs\<close>): the join of the RIB,
  the prefix table and the faces of the neighbours. Names are any linear order; appending a
  component to a name and the components of a name are the name library's, given as \<open>name_ops\<close>.
\<close>

record ('n, 'c) name_ops =
  no_append_component :: "'n \<Rightarrow> 'c \<Rightarrow> 'n"
  no_components :: "'n \<Rightarrow> 'c list"
  no_keyword :: "string \<Rightarrow> 'c"

record fib_next_hop =
  nh_cost :: u32
  nh_face :: u64

record 'n fib_update =
  fu_prefix :: 'n
  fu_next_hops :: "fib_next_hop list"

definition next_hop_key :: "fib_next_hop \<Rightarrow> u32 \<times> u64" where
  "next_hop_key nh = (nh_cost nh, nh_face nh)"

definition prefix_sync_route :: "('n, 'c) name_ops \<Rightarrow> 'n \<Rightarrow> 'n \<Rightarrow> 'n" where
  "prefix_sync_route ops network router =
     (let name = no_append_component ops network (no_keyword ops ''DV'');
          name = no_append_component ops name (no_keyword ops ''PFS'')
      in fold (\<lambda>c name. no_append_component ops name c) (no_components ops router) name)"

definition collect_next_hops :: "('n \<times> u32) list \<Rightarrow> ('n \<Rightarrow> u64 option) \<Rightarrow> fib_next_hop list" where
  "collect_next_hops costs face_for_neighbor =
     concat (map (\<lambda>(neighbor, cost).
       if RIB_INFINITY \<le> cost then []
       else case face_for_neighbor neighbor of
         Some face \<Rightarrow> [\<lparr>nh_cost = cost, nh_face = face\<rparr>]
       | None \<Rightarrow> []) costs)"

type_synonym 'n fib_rows = "('n \<times> fib_next_hop list) list"

definition merge_into :: "'n \<Rightarrow> fib_next_hop list \<Rightarrow> u32 \<Rightarrow> 'n fib_rows \<Rightarrow> 'n fib_rows" where
  "merge_into prefix base extra rows =
     (let row = (case map_of rows prefix of Some row \<Rightarrow> row | None \<Rightarrow> [])
      in hm_insert prefix
           (row @ map (\<lambda>nh. \<lparr>nh_cost = u32_saturating_add (nh_cost nh) extra, nh_face = nh_face nh\<rparr>) base)
           rows)"

definition fib_entry ::
    "('n::linorder, 'c) name_ops \<Rightarrow> 'n prefix_table \<Rightarrow> 'n \<Rightarrow> ('n \<Rightarrow> u64 option) \<Rightarrow> 'n \<Rightarrow> 'n rib_entry
      \<Rightarrow> 'n fib_rows \<Rightarrow> 'n fib_rows" where
  "fib_entry ops prefix_table network face_for_neighbor self_name entry out =
     (if re_destination entry = self_name then out
      else if RIB_INFINITY \<le> re_lowest1 entry then out
      else
        let next_hops_to_router = collect_next_hops (re_costs entry) face_for_neighbor
        in if next_hops_to_router = [] then out
           else
             fold (\<lambda>(prefix, announce_cost). merge_into prefix next_hops_to_router announce_cost)
               (prefixes_for_router (re_destination entry) prefix_table)
               (merge_into (prefix_sync_route ops network (re_destination entry)) next_hops_to_router 0 out))"

definition compute_fib_updates ::
    "('n::linorder, 'c) name_ops \<Rightarrow> 'n dv_rib \<Rightarrow> 'n prefix_table \<Rightarrow> 'n \<Rightarrow> ('n \<Rightarrow> u64 option)
      \<Rightarrow> 'n fib_update list" where
  "compute_fib_updates ops rib prefix_table network face_for_neighbor =
     (let out = fold (fib_entry ops prefix_table network face_for_neighbor (dr_self rib)) (rib_snapshot rib) []
      in sort_key fu_prefix
           (map (\<lambda>(prefix, next_hops). \<lparr>fu_prefix = prefix, fu_next_hops = sort_key next_hop_key next_hops\<rparr>) out))"

section \<open>The rows of a table under construction\<close>

definition row_set :: "'n fib_rows \<Rightarrow> 'n \<Rightarrow> fib_next_hop set" where
  "row_set rows p = (case map_of rows p of Some row \<Rightarrow> set row | None \<Rightarrow> {})"

definition rows_ok :: "'n fib_rows \<Rightarrow> bool" where
  "rows_ok rows \<longleftrightarrow> hm_ok rows \<and> (\<forall>(p, row) \<in> set rows. row \<noteq> [])"

definition raised :: "u32 \<Rightarrow> fib_next_hop \<Rightarrow> fib_next_hop" where
  "raised extra nh = \<lparr>nh_cost = u32_saturating_add (nh_cost nh) extra, nh_face = nh_face nh\<rparr>"

lemma rows_okD: "rows_ok rows \<Longrightarrow> map_of rows p = Some row \<Longrightarrow> row \<noteq> []"
  by (auto simp: rows_ok_def dest: map_of_SomeD)

lemma merge_row_set:
  assumes "rows_ok rows"
  shows "row_set (merge_into p base extra rows) q =
    row_set rows q \<union> (if q = p then raised extra ` set base else {})"
  using hm.get_insert [of rows] assms
  by (auto simp: merge_into_def row_set_def raised_def rows_ok_def Let_def split: option.splits)

lemma merge_rows_ok:
  assumes "rows_ok rows" and "base \<noteq> []"
  shows "rows_ok (merge_into p base extra rows)"
proof -
  let ?row = "(case map_of rows p of Some row \<Rightarrow> row | None \<Rightarrow> [])
      @ map (\<lambda>nh. \<lparr>nh_cost = u32_saturating_add (nh_cost nh) extra, nh_face = nh_face nh\<rparr>) base"
  have ok: "hm_ok (hm_insert p ?row rows)" and raw: "hm_ok rows"
    using hm.ok_insert assms(1) by (auto simp: rows_ok_def)
  have "row \<noteq> []" if "(q, row) \<in> set (hm_insert p ?row rows)" for q row
    using that assms unfolding hm.mem_iff [OF ok] hm.get_insert [OF raw]
    by (auto split: if_splits dest: rows_okD)
  then show ?thesis using ok by (auto simp: merge_into_def rows_ok_def Let_def)
qed

lemma merge_fold:
  assumes "rows_ok rows" and "base \<noteq> []"
  shows "rows_ok (fold (\<lambda>(p, a). merge_into p base a) pas rows)
    \<and> row_set (fold (\<lambda>(p, a). merge_into p base a) pas rows) q =
        row_set rows q \<union> {raised a nh | a nh. (q, a) \<in> set pas \<and> nh \<in> set base}"
  using assms(1)
proof (induction pas arbitrary: rows)
  case (Cons pa pas)
  obtain p a where pa: "pa = (p, a)" by (cases pa)
  have "row_set (merge_into p base a rows) q =
      row_set rows q \<union> (if q = p then raised a ` set base else {})"
    by (rule merge_row_set [OF Cons.prems])
  then show ?case
    using Cons.IH [OF merge_rows_ok [OF Cons.prems assms(2)], of p a] pa by auto
qed simp

text \<open>The next hops towards a router, and what the router contributes to the row of a prefix.\<close>

lemma collect_mem:
  fixes nh :: fib_next_hop
  assumes "hm_ok costs"
  shows "nh \<in> set (collect_next_hops costs face) \<longleftrightarrow>
    (\<exists>h. fin_cost (map_of costs h) = Some (nh_cost nh) \<and> face h = Some (nh_face nh))"
proof -
  have "nh \<in> set (collect_next_hops costs face) \<longleftrightarrow>
      (\<exists>h c. (h, c) \<in> set costs \<and> c < RIB_INFINITY \<and> c = nh_cost nh \<and> face h = Some (nh_face nh))"
    by (induction costs; cases nh) (auto simp: collect_next_hops_def not_le split: option.splits)
  also have "\<dots> \<longleftrightarrow> (\<exists>h. fin_cost (map_of costs h) = Some (nh_cost nh) \<and> face h = Some (nh_face nh))"
    unfolding hm.mem_iff [OF assms] by (fastforce simp: fin_cost_def split: option.splits if_splits)
  finally show ?thesis .
qed

definition prefix_extra ::
    "('n::linorder, 'c) name_ops \<Rightarrow> 'n \<Rightarrow> 'n prefix_table \<Rightarrow> 'n \<Rightarrow> 'n \<Rightarrow> u32 \<Rightarrow> bool" where
  "prefix_extra ops network pt r q a \<longleftrightarrow>
     q = prefix_sync_route ops network r \<and> a = 0 \<or> announced pt r q = Some a"

definition entry_hops ::
    "('n::linorder, 'c) name_ops \<Rightarrow> 'n \<Rightarrow> 'n prefix_table \<Rightarrow> ('n \<Rightarrow> u64 option) \<Rightarrow> 'n \<Rightarrow> 'n rib_entry
      \<Rightarrow> 'n \<Rightarrow> fib_next_hop set" where
  "entry_hops ops network pt face s entry q =
     {raised a nh | a nh h. re_destination entry \<noteq> s \<and> prefix_extra ops network pt (re_destination entry) q a
        \<and> fin_cost (map_of (re_costs entry) h) = Some (nh_cost nh) \<and> face h = Some (nh_face nh)}"

lemma lowest_finite:
  assumes "cached e" and "costs_ok (re_costs e)" and "fin_cost (map_of (re_costs e) h) = Some c"
  shows "re_lowest1 e < RIB_INFINITY"
proof (rule ccontr)
  assume "\<not> re_lowest1 e < RIB_INFINITY"
  then have "RIB_INFINITY \<le> re_lowest1 e" by simp
  from cached_dead [OF assms(1,2) this] show False using assms(3) by simp
qed

lemma fib_entry_rows:
  assumes rows: "rows_ok rows" and pt: "pt_ok pt" and e: "cached e" "costs_ok (re_costs e)"
  shows "rows_ok (fib_entry ops pt network face s e rows)
    \<and> row_set (fib_entry ops pt network face s e rows) q =
        row_set rows q \<union> entry_hops ops network pt face s e q"
proof -
  let ?hops = "collect_next_hops (re_costs e) face"
  have hm: "hm_ok (re_costs e)" using e(2) by (simp add: costs_ok_def)
  note mem = collect_mem [OF hm, where face = face]
  show ?thesis
  proof (cases "re_destination e = s \<or> RIB_INFINITY \<le> re_lowest1 e \<or> ?hops = []")
    case True
    have "entry_hops ops network pt face s e q = {}"
    proof (cases "re_destination e = s")
      case False
      have "\<not> (fin_cost (map_of (re_costs e) h) = Some (nh_cost nh) \<and> face h = Some (nh_face nh))" for h
        and nh :: fib_next_hop
        using True False lowest_finite [OF e, of h] mem [of nh] by (auto simp: leD)
      then show ?thesis by (auto simp: entry_hops_def)
    qed (simp add: entry_hops_def)
    then show ?thesis using True rows by (auto simp: fib_entry_def)
  next
    case False
    let ?start = "merge_into (prefix_sync_route ops network (re_destination e)) ?hops 0 rows"
    have eq: "fib_entry ops pt network face s e rows =
        fold (\<lambda>(p, a). merge_into p ?hops a) (prefixes_for_router (re_destination e) pt) ?start"
      using False by (simp add: fib_entry_def Let_def)
    have start: "rows_ok ?start" by (rule merge_rows_ok [OF rows]) (use False in simp)
    have "row_set (fib_entry ops pt network face s e rows) q =
        row_set rows q \<union> {raised a nh | a nh. prefix_extra ops network pt (re_destination e) q a \<and> nh \<in> set ?hops}"
      unfolding eq conjunct2 [OF merge_fold [OF start]] merge_row_set [OF rows]
      using merge_fold [OF start, of ?hops "prefixes_for_router (re_destination e) pt" q] False
      unfolding merge_row_set [OF rows] prefixes_for_router_mem [OF pt]
      by (auto simp: prefix_extra_def)
    also have "{raised a nh | a nh. prefix_extra ops network pt (re_destination e) q a \<and> nh \<in> set ?hops}
        = entry_hops ops network pt face s e q"
      using False unfolding mem entry_hops_def by auto
    finally show ?thesis using merge_fold [OF start, of ?hops] False by (simp add: eq)
  qed
qed

lemma fib_rows:
  assumes "pt_ok pt" and "rows_ok rows"
    and "\<And>e. e \<in> set es \<Longrightarrow> cached e \<and> costs_ok (re_costs e)"
  shows "rows_ok (fold (fib_entry ops pt network face s) es rows)
    \<and> row_set (fold (fib_entry ops pt network face s) es rows) q =
        row_set rows q \<union> (\<Union>e\<in>set es. entry_hops ops network pt face s e q)"
  using assms(2,3)
proof (induction es arbitrary: rows)
  case (Cons e es)
  have e: "cached e" "costs_ok (re_costs e)" using Cons.prems(2) by auto
  note step = fib_entry_rows [OF Cons.prems(1) assms(1) e, of ops network face s]
  show ?case using Cons.IH [OF conjunct1 [OF step]] Cons.prems(2) step [of q] by auto
qed simp

section \<open>Properties\<close>

text \<open>
  (C21) The forwarding rows are exactly what the routing tables say. For reachable tables: there is one row
  per prefix, in strictly increasing order, none empty, each sorted by cost and face; and a row
  forwards its prefix to a face at a cost exactly when some other router, reachable over a
  neighbour bound to that face at a finite cost, announces the prefix (the cost then is the sum,
  saturating) or has the prefix as its prefix-sync route (the cost then is the path cost).
\<close>

theorem fib_rows_exact:
  assumes "dv_reach s rib" and "pfx_reach s pt"
  shows "sorted_wrt (<) (map fu_prefix (compute_fib_updates ops rib pt network face))
    \<and> (\<forall>u \<in> set (compute_fib_updates ops rib pt network face).
        fu_next_hops u \<noteq> [] \<and> sorted (map next_hop_key (fu_next_hops u)))
    \<and> ((\<exists>u \<in> set (compute_fib_updates ops rib pt network face). fu_prefix u = p \<and>
          \<lparr>nh_cost = c, nh_face = f\<rparr> \<in> set (fu_next_hops u)) \<longleftrightarrow>
       (\<exists>r h base extra. r \<noteq> s \<and> reach_cost rib r h = Some base \<and> face h = Some f
          \<and> (p = prefix_sync_route ops network r \<and> extra = 0 \<or> announced pt r p = Some extra)
          \<and> c = u32_saturating_add base extra))"
proof -
  have ok: "rib_ok rib" and s: "dr_self rib = s" using dv_reach_ok [OF assms(1)] by auto
  have pt: "pt_ok pt" using pfx_reach_ok [OF assms(2)] by simp
  define out where "out = fold (fib_entry ops pt network face s) (rib_snapshot rib) []"
  define res where "res = compute_fib_updates ops rib pt network face"
  have entry: "cached e \<and> costs_ok (re_costs e)" if "e \<in> set (rib_snapshot rib)" for e
    using that snapshot_mem [OF ok] rib_ok_entry [OF ok] by blast
  have start: "rows_ok []" by (simp add: rows_ok_def hm_ok_def)
  have rows: "rows_ok out" and out: "row_set out q = (\<Union>e\<in>set (rib_snapshot rib). entry_hops ops network pt face s e q)" for q
    using fib_rows [OF pt start entry, of "rib_snapshot rib" ops network face s q]
    by (simp_all add: out_def row_set_def)
  have hm: "hm_ok out" using rows by (simp add: rows_ok_def)
  let ?up = "\<lambda>(p, hops). \<lparr>fu_prefix = p, fu_next_hops = sort_key next_hop_key hops\<rparr>"
  have res: "res = sort_key fu_prefix (map ?up out)"
    by (simp add: res_def compute_fib_updates_def out_def s Let_def)
  have "map fu_prefix (map ?up out) = map fst out" by auto
  then have sorted: "sorted_wrt (<) (map fu_prefix res)"
    unfolding res using hm by (intro strictly_sorted_key) (simp only: hm_ok_def)
  have tidy: "\<forall>u\<in>set res. fu_next_hops u \<noteq> [] \<and> sorted (map next_hop_key (fu_next_hops u))"
    using rows by (auto simp: res rows_ok_def simp flip: set_empty)
  have "(\<exists>u\<in>set res. fu_prefix u = p \<and> nh \<in> set (fu_next_hops u)) \<longleftrightarrow>
      (\<exists>row. (p, row) \<in> set out \<and> nh \<in> set row)" for nh
    by (force simp: res)
  also have "(\<exists>row. (p, row) \<in> set out \<and> nh \<in> set row) \<longleftrightarrow> nh \<in> row_set out p" for nh
    unfolding hm.mem_iff [OF hm] by (simp add: row_set_def split: option.split)
  also have "\<lparr>nh_cost = c, nh_face = f\<rparr> \<in> row_set out p \<longleftrightarrow>
      (\<exists>e. map_of (dr_entries rib) (re_destination e) = Some e \<and>
        \<lparr>nh_cost = c, nh_face = f\<rparr> \<in> entry_hops ops network pt face s e p)"
    unfolding out using snapshot_mem [OF ok] by auto
  also have "\<dots> \<longleftrightarrow> (\<exists>r h base extra. r \<noteq> s \<and> reach_cost rib r h = Some base \<and> face h = Some f
          \<and> prefix_extra ops network pt r p extra \<and> c = u32_saturating_add base extra)"
    (is "_ \<longleftrightarrow> ?rhs")
  proof
    assume ?rhs
    then obtain r h base extra where r: "r \<noteq> s" "reach_cost rib r h = Some base" "face h = Some f"
      "prefix_extra ops network pt r p extra" "c = u32_saturating_add base extra" by blast
    then obtain e where e: "map_of (dr_entries rib) r = Some e" "fin_cost (map_of (re_costs e) h) = Some base"
      by (auto simp: reach_cost_def cost_of_def split: option.splits bind_splits)
    have "re_destination e = r" using rib_ok_entry [OF ok e(1)] by simp
    then show "\<exists>e. map_of (dr_entries rib) (re_destination e) = Some e \<and>
        \<lparr>nh_cost = c, nh_face = f\<rparr> \<in> entry_hops ops network pt face s e p"
      using r e unfolding entry_hops_def
      by (intro exI [of _ e] conjI CollectI exI [of _ extra] exI [of _ "\<lparr>nh_cost = base, nh_face = f\<rparr>"] exI [of _ h])
        (simp_all add: raised_def)
  qed (fastforce simp: entry_hops_def raised_def reach_cost_def cost_of_def)
  finally show ?thesis
    using sorted tidy unfolding res_def prefix_extra_def by blast
qed

definition example_ops :: "(nat, nat) name_ops" where
  "example_ops = \<lparr>no_append_component = (\<lambda>n c. n + c), no_components = (\<lambda>n. [n]),
     no_keyword = (\<lambda>k. if k = ''DV'' then 1 else 2)\<rparr>"

definition remote_table :: "nat prefix_table" where
  "remote_table = snd (apply_op_list \<lparr>po_exit_router = 3, po_reset = True,
     po_adds = [\<lparr>pa_name = 60, pa_cost = 10\<rparr>], po_removes = []\<rparr> example_table)"

lemma remote_table_reach: "pfx_reach 1 remote_table"
  unfolding remote_table_def by (rule pfx_apply [OF example_table_reach])

theorem fib_rows_exact_witness:
  "(let fib = compute_fib_updates example_ops example_rib remote_table 9 (\<lambda>h. if h = 2 then Some 7 else None)
    in map fu_prefix fib = [15, 16, 60]
      \<and> sorted_wrt (<) (map fu_prefix fib)
      \<and> (\<exists>u. u \<in> set fib \<and> fu_prefix u = 60 \<and> \<lparr>nh_cost = 15, nh_face = 7\<rparr> \<in> set (fu_next_hops u)))"
proof -
  let ?face = "\<lambda>h::nat. if h = 2 then Some (7::u64) else None"
  have "map fu_prefix (compute_fib_updates example_ops example_rib remote_table 9 ?face) = [15, 16, 60]"
    by code_simp
  moreover have "reach_cost example_rib 3 2 = Some 5" and "announced remote_table 3 60 = Some 10"
    and "u32_saturating_add 5 10 = 15"
    by code_simp+
  then have "\<exists>r h base extra. r \<noteq> 1 \<and> reach_cost example_rib r h = Some base \<and> ?face h = Some 7
      \<and> (60 = prefix_sync_route example_ops 9 r \<and> extra = 0 \<or> announced remote_table r 60 = Some extra)
      \<and> 15 = u32_saturating_add base extra"
    by (intro exI [of _ 3] exI [of _ 2] exI [of _ 5] exI [of _ 10]) simp
  ultimately show ?thesis
    using fib_rows_exact [OF example_reach remote_table_reach, of example_ops 9 ?face 60 15 7]
    unfolding Let_def by blast
qed

end
