(* ===== verification/Tlv.thy ===== *)
theory Tlv
  imports Prelude
begin

text \<open>
  What the message codecs of the repository share. The TLV reader and writer (\<open>ndn_tlv\<close>), names and
  the decoding of non-negative integers (\<open>ndn_packet\<close>) are packages outside the repository: they
  are the record \<open>wire_lib\<close>, a parameter of every codec, with what the NDN packet format says of them as
  the predicate \<open>wire_ok\<close>. The loop over the elements of a value, big-endian numbers and the check of
  UTF-8 strings are of the repository and the standard library.
\<close>

section \<open>The packages outside the repository\<close>

record 'n wire_lib =
  wl_read_tlv :: "u8 list \<Rightarrow> (u64 \<times> u8 list \<times> u8 list) option"
  wl_write_tlv :: "u64 \<Rightarrow> u8 list \<Rightarrow> u8 list"
  wl_name_to_tlv :: "'n \<Rightarrow> u8 list"
  wl_name_decode :: "u8 list \<Rightarrow> 'n option"
  wl_name_from_tlv :: "u8 list \<Rightarrow> 'n option"
  wl_decode_nni :: "u8 list \<Rightarrow> u64 option"

text \<open>Big-endian numbers of the standard library.\<close>

definition to_be :: "nat \<Rightarrow> 'a::len word \<Rightarrow> u8 list" where
  "to_be n w = rev (to_le n w)"

definition from_be :: "u8 list \<Rightarrow> 'a::len word" where
  "from_be bs = from_le (rev bs)"

definition TLV_NAME :: u64 where "TLV_NAME = 7"

text \<open>
  The reader returns the type and value the writer wrote and what follows, and always advances; a name is
  an element of type 7 that decodes to the name; a non-negative integer has 1, 2, 4 or 8 bytes.
\<close>

definition wire_ok :: "'n wire_lib \<Rightarrow> bool" where
  "wire_ok lib \<longleftrightarrow>
     (\<forall>t v rest. wl_read_tlv lib (wl_write_tlv lib t v @ rest) = Some (t, v, rest))
   \<and> (\<forall>bs t v rest. wl_read_tlv lib bs = Some (t, v, rest) \<longrightarrow> length rest < length bs)
   \<and> (\<forall>n. \<exists>v. wl_name_to_tlv lib n = wl_write_tlv lib TLV_NAME v \<and> wl_name_decode lib v = Some n)
   \<and> (\<forall>n. wl_name_from_tlv lib (wl_name_to_tlv lib n) = Some n)
   \<and> (\<forall>bs. wl_decode_nni lib bs = (if length bs \<in> {1, 2, 4, 8} then Some (from_be bs) else None))"

lemma wire_okD:
  assumes "wire_ok lib"
  shows "wl_read_tlv lib (wl_write_tlv lib t v @ rest) = Some (t, v, rest)"
    and "wl_read_tlv lib bs = Some (t, v, rest) \<Longrightarrow> length rest < length bs"
    and "wl_name_from_tlv lib (wl_name_to_tlv lib n) = Some n"
    and "length bs \<in> {1, 2, 4, 8} \<Longrightarrow> wl_decode_nni lib bs = Some (from_be bs)"
  using assms unfolding wire_ok_def by auto

lemma wire_ok_name:
  assumes "wire_ok lib"
  obtains v where "wl_name_to_tlv lib n = wl_write_tlv lib TLV_NAME v" and "wl_name_decode lib v = Some n"
  using assms unfolding wire_ok_def by blast

lemma write_tlv_not_Nil: "wire_ok lib \<Longrightarrow> wl_write_tlv lib t v \<noteq> []"
  using wire_okD(1) [of lib t v "[]"] wire_okD(2) [of lib "wl_write_tlv lib t v" t v "[]"] by auto

section \<open>The loop over the elements of a value\<close>

text \<open>
  \<open>while !r.is_empty() { let (typ, v) = r.read_tlv()?; ... }\<close>. The reader advances, so the length of
  the value is fuel enough.
\<close>

fun tlv_loop ::
    "'n wire_lib \<Rightarrow> 'e \<Rightarrow> (u64 \<Rightarrow> u8 list \<Rightarrow> 'a \<Rightarrow> 'e + 'a) \<Rightarrow> nat \<Rightarrow> u8 list \<Rightarrow> 'a \<Rightarrow> 'e + 'a" where
  "tlv_loop lib malformed step fuel [] acc = Inr acc"
| "tlv_loop lib malformed step 0 bs acc = Inl malformed"
| "tlv_loop lib malformed step (Suc fuel) bs acc =
     (case wl_read_tlv lib bs of
        None \<Rightarrow> Inl malformed
      | Some (typ, v, rest) \<Rightarrow>
          (case step typ v acc of
             Inl e \<Rightarrow> Inl e
           | Inr acc \<Rightarrow> tlv_loop lib malformed step fuel rest acc))"

definition tlv_run ::
    "'n wire_lib \<Rightarrow> 'e \<Rightarrow> (u64 \<Rightarrow> u8 list \<Rightarrow> 'a \<Rightarrow> 'e + 'a) \<Rightarrow> u8 list \<Rightarrow> 'a \<Rightarrow> 'e + 'a" where
  "tlv_run lib malformed step bs acc = tlv_loop lib malformed step (length bs) bs acc"

lemma tlv_loop_fuel:
  assumes "wire_ok lib" and "length bs \<le> fuel"
  shows "tlv_loop lib malformed step fuel bs acc = tlv_run lib malformed step bs acc"
  using assms(2)
proof (induction "length bs" arbitrary: bs fuel acc rule: less_induct)
  case less
  show ?case
  proof (cases bs)
    case (Cons b bs')
    obtain fuel' where fuel: "fuel = Suc fuel'" using less.prems Cons by (cases fuel) auto
    show ?thesis
    proof (cases "wl_read_tlv lib bs")
      case None
      then show ?thesis by (simp add: Cons fuel tlv_run_def)
    next
      case (Some x)
      obtain t v rest where x: "x = (t, v, rest)" by (cases x)
      have "length rest < length bs" using wire_okD(2) [OF assms(1)] Some x by blast
      then have "length rest \<le> fuel'" and "length rest \<le> length bs'" using less.prems fuel Cons by simp_all
      then have "tlv_loop lib malformed step fuel' rest a = tlv_run lib malformed step rest a"
        and "tlv_loop lib malformed step (length bs') rest a = tlv_run lib malformed step rest a" for a
        using less.hyps [of rest] \<open>length rest < length bs\<close> by blast+
      then show ?thesis using Some x by (simp add: Cons fuel tlv_run_def split: sum.split)
    qed
  qed (simp add: tlv_run_def)
qed

lemma tlv_run_Nil [simp]: "tlv_run lib malformed step [] acc = Inr acc"
  by (simp add: tlv_run_def)

lemma tlv_run_write [simp]:
  assumes "wire_ok lib"
  shows "tlv_run lib malformed step (wl_write_tlv lib t v @ rest) acc =
    (case step t v acc of Inl e \<Rightarrow> Inl e | Inr acc \<Rightarrow> tlv_run lib malformed step rest acc)"
proof -
  obtain b bs where bs: "wl_write_tlv lib t v @ rest = b # bs"
    using write_tlv_not_Nil [OF assms, of t v] by (cases "wl_write_tlv lib t v") auto
  have read: "wl_read_tlv lib (b # bs) = Some (t, v, rest)"
    using wire_okD(1) [OF assms, of t v rest] bs by simp
  have "length rest \<le> length bs" using wire_okD(2) [OF assms read] by simp
  then show ?thesis
    using tlv_loop_fuel [OF assms, of rest "length bs" malformed step]
    by (simp add: bs tlv_run_def [of _ _ _ "b # bs"] read split: sum.split)
qed

lemma tlv_run_write_last [simp]:
  "wire_ok lib \<Longrightarrow> tlv_run lib malformed step (wl_write_tlv lib t v) acc = step t v acc"
  using tlv_run_write [of lib malformed step t v "[]" acc] by (auto split: sum.split)

lemma tlv_run_items:
  assumes "wire_ok lib"
    and "\<And>x acc. x \<in> set xs \<Longrightarrow> step t (enc x) acc = Inr (upd x acc)"
  shows "tlv_run lib malformed step (concat (map (\<lambda>x. wl_write_tlv lib t (enc x)) xs) @ rest) acc =
    tlv_run lib malformed step rest (fold upd xs acc)"
  using assms(2) by (induction xs arbitrary: acc) (simp_all add: tlv_run_write [OF assms(1)])

lemma tlv_run_items_last:
  assumes "wire_ok lib"
    and "\<And>x acc. x \<in> set xs \<Longrightarrow> step t (enc x) acc = Inr (upd x acc)"
  shows "tlv_run lib malformed step (concat (map (\<lambda>x. wl_write_tlv lib t (enc x)) xs)) acc =
    Inr (fold upd xs acc)"
  using tlv_run_items [of lib xs step t enc upd malformed "[]", OF assms] by simp

text \<open>The \<open>?\<close> operator, and \<open>or_err\<close>.\<close>

definition and_then :: "'e + 'a \<Rightarrow> ('a \<Rightarrow> 'e + 'b) \<Rightarrow> 'e + 'b" where
  "and_then r f = (case r of Inl e \<Rightarrow> Inl e | Inr a \<Rightarrow> f a)"

definition or_err :: "'a option \<Rightarrow> 'e \<Rightarrow> 'e + 'a" where
  "or_err x e = (case x of None \<Rightarrow> Inl e | Some a \<Rightarrow> Inr a)"

lemma and_then_simps [simp]: "and_then (Inl e) f = Inl e" "and_then (Inr a) f = f a"
  by (simp_all add: and_then_def)

lemma ok_or_simps [simp]: "or_err None e = Inl e" "or_err (Some a) e = Inr a"
  by (simp_all add: or_err_def)

section \<open>Non-negative integers\<close>

definition encode_nni :: "u64 \<Rightarrow> u8 list" where
  "encode_nni value =
     (if value \<le> 0xFF then to_be 1 value
      else if value \<le> 0xFFFF then to_be 2 value
      else if value \<le> 0xFFFFFFFF then to_be 4 value
      else to_be 8 value)"

lemma length_to_be [simp]: "length (to_be n w) = n"
  by (simp add: to_be_def)

lemma from_be_to_be: "from_be (to_be n w) = take_bit (8 * n) w"
  by (simp add: from_be_def to_be_def from_le_to_le)

lemma foldl_from_be: "foldl (\<lambda>acc x. push_bit 8 acc OR ucast x) 0 b = (from_be b :: u64)"
  by (induction b rule: rev_induct) (simp_all add: from_be_def or.commute)

lemma take_bit_small:
  fixes w :: u64
  shows "w \<le> 0xFF \<Longrightarrow> take_bit 8 w = w" and "w \<le> 0xFFFF \<Longrightarrow> take_bit 16 w = w"
    and "w \<le> 0xFFFFFFFF \<Longrightarrow> take_bit 32 w = w"
  by (simp_all add: word_le_def word_uint_eq_iff unsigned_take_bit_eq take_bit_int_eq_self)

lemma from_be_encode_nni [simp]: "from_be (encode_nni v) = (v :: u64)"
  by (simp add: encode_nni_def from_be_to_be take_bit_small take_bit_word_eq_self)

lemma length_encode_nni: "length (encode_nni v) \<in> {1, 2, 4, 8}"
  by (simp add: encode_nni_def)

lemma decode_encode_nni [simp]: "wire_ok lib \<Longrightarrow> wl_decode_nni lib (encode_nni v) = Some v"
  using wire_okD(4) [of lib "encode_nni v"] length_encode_nni [of v] by simp

section \<open>UTF-8\<close>

text \<open>\<open>String::from_utf8\<close> succeeds on the well-formed byte sequences of the Unicode standard.\<close>

definition cont :: "u8 \<Rightarrow> bool" where
  "cont b \<longleftrightarrow> 0x80 \<le> b \<and> b \<le> 0xBF"

fun utf8_valid :: "u8 list \<Rightarrow> bool" where
  "utf8_valid [] \<longleftrightarrow> True"
| "utf8_valid (b0 # bs) \<longleftrightarrow>
     (if b0 < 0x80 then utf8_valid bs
      else case bs of
        [] \<Rightarrow> False
      | b1 # bs1 \<Rightarrow>
          if 0xC2 \<le> b0 \<and> b0 \<le> 0xDF then cont b1 \<and> utf8_valid bs1
          else (case bs1 of
            [] \<Rightarrow> False
          | b2 # bs2 \<Rightarrow>
              if 0xE0 \<le> b0 \<and> b0 \<le> 0xEF
              then cont b1 \<and> cont b2 \<and> (b0 = 0xE0 \<longrightarrow> 0xA0 \<le> b1) \<and> (b0 = 0xED \<longrightarrow> b1 \<le> 0x9F) \<and> utf8_valid bs2
              else (case bs2 of
                [] \<Rightarrow> False
              | b3 # bs3 \<Rightarrow>
                  0xF0 \<le> b0 \<and> b0 \<le> 0xF4 \<and> cont b1 \<and> cont b2 \<and> cont b3
                  \<and> (b0 = 0xF0 \<longrightarrow> 0x90 \<le> b1) \<and> (b0 = 0xF4 \<longrightarrow> b1 \<le> 0x8F) \<and> utf8_valid bs3)))"

definition ascii :: "string \<Rightarrow> u8 list" where
  "ascii s = map (\<lambda>c. of_nat (of_char c)) s"

text \<open>\<open>char::from_digit\<close> of the two halves of a byte.\<close>

definition hex_lower :: "u8 \<Rightarrow> u8 list" where
  "hex_lower b = ascii [''0123456789abcdef'' ! unat (drop_bit 4 b), ''0123456789abcdef'' ! unat (b AND 0x0f)]"

lemma utf8_valid_ascii: "(\<And>b. b \<in> set bs \<Longrightarrow> b < 0x80) \<Longrightarrow> utf8_valid bs"
  by (induction bs) simp_all

section \<open>An instance\<close>

text \<open>A concrete library for the witnesses: a unary length, and names that are byte strings.\<close>

definition unary_write :: "u64 \<Rightarrow> u8 list \<Rightarrow> u8 list" where
  "unary_write t v = to_be 8 t @ replicate (length v) 1 @ 0 # v"

definition unary_read :: "u8 list \<Rightarrow> (u64 \<times> u8 list \<times> u8 list) option" where
  "unary_read bs =
     (let n = length (takeWhile (\<lambda>b. b = 1) (drop 8 bs)); body = drop (8 + n + 1) bs in
      if length bs < 8 + n + 1 + n then None
      else Some (from_be (take 8 bs), take n body, drop n body))"

definition unary_lib :: "('n \<Rightarrow> u8 list) \<Rightarrow> (u8 list \<Rightarrow> 'n option) \<Rightarrow> 'n wire_lib" where
  "unary_lib enc dec = \<lparr>wl_read_tlv = unary_read, wl_write_tlv = unary_write,
     wl_name_to_tlv = (\<lambda>n. unary_write TLV_NAME (enc n)), wl_name_decode = dec,
     wl_name_from_tlv = (\<lambda>bs. Option.bind (unary_read bs) (\<lambda>(_, v, _). dec v)),
     wl_decode_nni = (\<lambda>bs. if length bs \<in> {1, 2, 4, 8} then Some (from_be bs) else None)\<rparr>"

definition bytes_lib :: "u8 list wire_lib" where
  "bytes_lib = unary_lib (\<lambda>n. n) Some"

lemma unary_read_write: "unary_read (unary_write t v @ rest) = Some (t, v, rest)"
proof -
  have ones: "takeWhile (\<lambda>b. b = (1 :: u8)) (replicate n 1 @ 0 # xs) = replicate n 1" for n xs
    by (induction n) simp_all
  have "take_bit 64 t = t" by (simp add: take_bit_word_eq_self)
  then show ?thesis
    by (simp add: unary_read_def unary_write_def Let_def ones from_be_to_be)
qed

lemma unary_lib_ok:
  assumes "\<And>n. dec (enc n) = Some n"
  shows "wire_ok (unary_lib enc dec)"
proof -
  have "length rest < length bs" if "unary_read bs = Some (t, v, rest)" for bs t v rest
    using that by (auto simp: unary_read_def Let_def split: if_splits)
  then show ?thesis
    using unary_read_write [of _ _ "[]"] assms
    by (auto simp: wire_ok_def unary_lib_def unary_read_write)
qed

lemma bytes_lib_ok: "wire_ok bytes_lib"
  unfolding bytes_lib_def by (rule unary_lib_ok) simp

section \<open>Names as lists of byte strings, for the witnesses\<close>

definition nibbles :: "u8 \<Rightarrow> u8 list" where
  "nibbles b = [0x40 + drop_bit 4 b, 0x40 + (b AND 0x0f)]"

definition names_uri_string :: "u8 list list \<Rightarrow> u8 list" where
  "names_uri_string n = 0x2F # concat (map (\<lambda>c. concat (map nibbles c) @ [0x2F]) n)"

fun names_comps :: "u8 list \<Rightarrow> u8 list list option" where
  "names_comps [] = Some []"
| "names_comps (a # s) =
     (if a = 0x2F then map_option (Cons []) (names_comps s)
      else case s of
        [] \<Rightarrow> None
      | b # s' \<Rightarrow> (case names_comps s' of
          Some (c # n) \<Rightarrow> Some (((push_bit 4 (a - 0x40) OR (b - 0x40)) # c) # n)
        | _ \<Rightarrow> None))"

definition names_parse :: "u8 list \<Rightarrow> u8 list list option" where
  "names_parse s = (case s of [] \<Rightarrow> None | _ # s \<Rightarrow> names_comps s)"

lemma nibble_small:
  fixes b :: u8
  shows "0x40 + drop_bit 4 b \<noteq> 0x2F" and "0x40 + drop_bit 4 b < 0x80" and "0x40 + (b AND 0x0f) < 0x80"
proof -
  have hi: "drop_bit 4 b \<le> 0x0f"
    using unsigned_less [of b, where 'a = nat] by (simp add: word_le_nat_alt drop_bit_eq_div unat_div)
  have lo: "b AND 0x0f \<le> 0x0f" by (rule word_and_le1)
  show "0x40 + drop_bit 4 b \<noteq> 0x2F" and "0x40 + drop_bit 4 b < 0x80" and "0x40 + (b AND 0x0f) < 0x80"
    using hi lo by (simp_all add: word_le_nat_alt word_less_nat_alt word_unat_eq_iff unat_word_ariths)
qed

lemma nibbles_join: "push_bit 4 (drop_bit 4 b) OR (b AND 0x0f) = (b :: u8)"
proof -
  have m: "(0x0f :: u8) = mask 4" by (simp add: mask_eq_exp_minus_1)
  show ?thesis unfolding m by (rule bit_word_eqI) (auto simp: bit_simps)
qed

lemma names_comps_byte: "names_comps s = Some (c # n) \<Longrightarrow> names_comps (nibbles b @ s) = Some ((b # c) # n)"
  by (simp add: nibbles_def nibble_small nibbles_join)

lemma names_comps_back: "names_comps (concat (map (\<lambda>c. concat (map nibbles c) @ [0x2F]) n)) = Some n"
proof (induction n)
  case (Cons c n)
  let ?s = "concat (map (\<lambda>c. concat (map nibbles c) @ [0x2F]) n)"
  have "names_comps (concat (map nibbles c) @ 0x2F # ?s) = Some (c # n)"
    by (induction c) (simp_all add: Cons.IH names_comps_byte)
  then show ?case by simp
qed simp

lemma names_parse_back: "names_parse (names_uri_string n) = Some n"
  by (simp add: names_parse_def names_uri_string_def names_comps_back)

lemma names_uri_utf8: "utf8_valid (names_uri_string n)"
proof (rule utf8_valid_ascii)
  fix b assume "b \<in> set (names_uri_string n)"
  then have "b = 0x2F \<or> (\<exists>x. b = 0x40 + drop_bit 4 x \<or> b = 0x40 + (x AND 0x0f))"
    by (auto simp: names_uri_string_def nibbles_def split: if_splits)
  then show "b < 0x80" using nibble_small by auto
qed

definition names_lib :: "u8 list list wire_lib" where
  "names_lib = unary_lib names_uri_string names_parse"

lemma names_lib_ok: "wire_ok names_lib"
  unfolding names_lib_def by (rule unary_lib_ok) (rule names_parse_back)

end
