(* ===== verification/Dv_Tlv.thy ===== *)
theory Dv_Tlv
  imports Tlv Dv_Prefix
begin

text \<open>
  The wire format of the distance-vector protocol (\<open>dv/tlv.rs\<close>): advertisements, lists of prefix
  operations and the status report, with the errors of their decoders. The data are those of the
  modelled RIB and prefix table.
\<close>

datatype dv_tlv_error =
  DvMalformed
| DvWrongType u64 u64
| DvMissingField string
| DvInvalidNniWidth nat

definition T_ADVERTISEMENT :: u64 where "T_ADVERTISEMENT = 201"
definition T_ADV_ENTRY :: u64 where "T_ADV_ENTRY = 202"
definition T_DESTINATION :: u64 where "T_DESTINATION = 204"
definition T_NEXT_HOP :: u64 where "T_NEXT_HOP = 206"
definition T_COST :: u64 where "T_COST = 208"
definition T_OTHER_COST :: u64 where "T_OTHER_COST = 210"
definition T_PREFIX_OP_LIST :: u64 where "T_PREFIX_OP_LIST = 301"
definition T_PREFIX_OP_RESET :: u64 where "T_PREFIX_OP_RESET = 302"
definition T_PREFIX_OP_ADD :: u64 where "T_PREFIX_OP_ADD = 304"
definition T_PREFIX_OP_REMOVE :: u64 where "T_PREFIX_OP_REMOVE = 306"
definition T_VERSION :: u64 where "T_VERSION = 0x191"
definition T_NETWORK_NAME :: u64 where "T_NETWORK_NAME = 0x193"
definition T_ROUTER_NAME :: u64 where "T_ROUTER_NAME = 0x195"
definition T_N_RIB_ENTRIES :: u64 where "T_N_RIB_ENTRIES = 0x197"
definition T_N_NEIGHBORS :: u64 where "T_N_NEIGHBORS = 0x199"
definition T_N_FIB_ENTRIES :: u64 where "T_N_FIB_ENTRIES = 0x19B"

lemmas dv_types = T_ADVERTISEMENT_def T_ADV_ENTRY_def T_DESTINATION_def T_NEXT_HOP_def T_COST_def
  T_OTHER_COST_def T_PREFIX_OP_LIST_def T_PREFIX_OP_RESET_def T_PREFIX_OP_ADD_def
  T_PREFIX_OP_REMOVE_def T_VERSION_def T_NETWORK_NAME_def T_ROUTER_NAME_def T_N_RIB_ENTRIES_def
  T_N_NEIGHBORS_def T_N_FIB_ENTRIES_def TLV_NAME_def

record 'n dv_status =
  ds_version :: "u8 list"
  ds_network_name :: 'n
  ds_router_name :: 'n
  ds_n_rib_entries :: u64
  ds_n_neighbors :: u64
  ds_n_fib_entries :: u64

datatype 'n dv_packet =
  DvAdvertisement "'n adv_entry list"
| DvPrefixOpList "'n prefix_op_list"

section \<open>Fields\<close>

definition write_nni_tlv :: "'n wire_lib \<Rightarrow> u64 \<Rightarrow> u64 \<Rightarrow> u8 list" where
  "write_nni_tlv lib typ value = wl_write_tlv lib typ (encode_nni value)"

definition write_name_field :: "'n wire_lib \<Rightarrow> u64 \<Rightarrow> 'n \<Rightarrow> u8 list" where
  "write_name_field lib outer_type name = wl_write_tlv lib outer_type (wl_name_to_tlv lib name)"

definition decode_name_field :: "'n wire_lib \<Rightarrow> u8 list \<Rightarrow> dv_tlv_error + 'n" where
  "decode_name_field lib value = or_err (wl_name_from_tlv lib value) DvMalformed"

definition decode_nni_value :: "'n wire_lib \<Rightarrow> u8 list \<Rightarrow> dv_tlv_error + u64" where
  "decode_nni_value lib value = or_err (wl_decode_nni lib value) (DvInvalidNniWidth (length value))"

definition decode_inner_name :: "'n wire_lib \<Rightarrow> u8 list \<Rightarrow> dv_tlv_error + 'n" where
  "decode_inner_name lib value = or_err (wl_name_decode lib value) DvMalformed"

section \<open>Advertisements\<close>

definition adv_entry_value :: "'n wire_lib \<Rightarrow> 'n adv_entry \<Rightarrow> u8 list" where
  "adv_entry_value lib e =
     write_name_field lib T_DESTINATION (ae_destination e)
     @ write_name_field lib T_NEXT_HOP (ae_next_hop e)
     @ write_nni_tlv lib T_COST (ae_cost e)
     @ write_nni_tlv lib T_OTHER_COST (ae_other_cost e)"

definition adv_encode_content :: "'n wire_lib \<Rightarrow> 'n adv_entry list \<Rightarrow> u8 list" where
  "adv_encode_content lib entries =
     concat (map (\<lambda>entry. wl_write_tlv lib T_ADV_ENTRY (adv_entry_value lib entry)) entries)"

definition adv_encode :: "'n wire_lib \<Rightarrow> 'n adv_entry list \<Rightarrow> u8 list" where
  "adv_encode lib entries = wl_write_tlv lib T_ADVERTISEMENT (adv_encode_content lib entries)"

type_synonym 'n adv_fields = "'n option \<times> 'n option \<times> u64 option \<times> u64 option"

definition adv_entry_step :: "'n wire_lib \<Rightarrow> u64 \<Rightarrow> u8 list \<Rightarrow> 'n adv_fields \<Rightarrow> dv_tlv_error + 'n adv_fields" where
  "adv_entry_step lib typ v = (\<lambda>(destination, next_hop, cost, other_cost).
     if typ = T_DESTINATION then and_then (decode_name_field lib v) (\<lambda>n. Inr (Some n, next_hop, cost, other_cost))
     else if typ = T_NEXT_HOP then and_then (decode_name_field lib v) (\<lambda>n. Inr (destination, Some n, cost, other_cost))
     else if typ = T_COST then and_then (decode_nni_value lib v) (\<lambda>c. Inr (destination, next_hop, Some c, other_cost))
     else if typ = T_OTHER_COST then and_then (decode_nni_value lib v) (\<lambda>c. Inr (destination, next_hop, cost, Some c))
     else Inr (destination, next_hop, cost, other_cost))"

definition adv_entry_decode :: "'n wire_lib \<Rightarrow> u8 list \<Rightarrow> dv_tlv_error + 'n adv_entry" where
  "adv_entry_decode lib value =
     and_then (tlv_run lib DvMalformed (adv_entry_step lib) value (None, None, None, None))
       (\<lambda>(destination, next_hop, cost, other_cost).
          and_then (or_err destination (DvMissingField ''Destination'')) (\<lambda>destination.
          and_then (or_err next_hop (DvMissingField ''NextHop'')) (\<lambda>next_hop.
          and_then (or_err cost (DvMissingField ''Cost'')) (\<lambda>cost.
          and_then (or_err other_cost (DvMissingField ''OtherCost'')) (\<lambda>other_cost.
            Inr \<lparr>ae_destination = destination, ae_next_hop = next_hop, ae_cost = cost,
                 ae_other_cost = other_cost\<rparr>)))))"

definition adv_step :: "'n wire_lib \<Rightarrow> u64 \<Rightarrow> u8 list \<Rightarrow> 'n adv_entry list \<Rightarrow> dv_tlv_error + 'n adv_entry list" where
  "adv_step lib typ v entries =
     (if typ \<noteq> T_ADV_ENTRY then Inl (DvWrongType T_ADV_ENTRY typ)
      else and_then (adv_entry_decode lib v) (\<lambda>e. Inr (entries @ [e])))"

definition adv_decode_content :: "'n wire_lib \<Rightarrow> u8 list \<Rightarrow> dv_tlv_error + 'n adv_entry list" where
  "adv_decode_content lib value = tlv_run lib DvMalformed (adv_step lib) value []"

definition adv_decode :: "'n wire_lib \<Rightarrow> u8 list \<Rightarrow> dv_tlv_error + 'n adv_entry list" where
  "adv_decode lib bytes =
     (case wl_read_tlv lib bytes of
        None \<Rightarrow> Inl DvMalformed
      | Some (typ, value, _) \<Rightarrow>
          if typ \<noteq> T_ADVERTISEMENT then Inl (DvWrongType T_ADVERTISEMENT typ)
          else adv_decode_content lib value)"

section \<open>Prefix operations\<close>

definition op_add_value :: "'n wire_lib \<Rightarrow> 'n prefix_op_add \<Rightarrow> u8 list" where
  "op_add_value lib a = wl_name_to_tlv lib (pa_name a) @ write_nni_tlv lib T_COST (pa_cost a)"

definition op_remove_value :: "'n wire_lib \<Rightarrow> 'n prefix_op_remove \<Rightarrow> u8 list" where
  "op_remove_value lib rm = wl_name_to_tlv lib (pr_name rm)"

definition ops_encode_content :: "'n wire_lib \<Rightarrow> 'n prefix_op_list \<Rightarrow> u8 list" where
  "ops_encode_content lib ops =
     write_name_field lib T_DESTINATION (po_exit_router ops)
     @ (if po_reset ops then wl_write_tlv lib T_PREFIX_OP_RESET [] else [])
     @ concat (map (\<lambda>a. wl_write_tlv lib T_PREFIX_OP_ADD (op_add_value lib a)) (po_adds ops))
     @ concat (map (\<lambda>rm. wl_write_tlv lib T_PREFIX_OP_REMOVE (op_remove_value lib rm)) (po_removes ops))"

definition ops_encode :: "'n wire_lib \<Rightarrow> 'n prefix_op_list \<Rightarrow> u8 list" where
  "ops_encode lib ops = wl_write_tlv lib T_PREFIX_OP_LIST (ops_encode_content lib ops)"

definition op_add_step :: "'n wire_lib \<Rightarrow> u64 \<Rightarrow> u8 list \<Rightarrow> 'n option \<times> u64 option
    \<Rightarrow> dv_tlv_error + 'n option \<times> u64 option" where
  "op_add_step lib typ v = (\<lambda>(name, cost).
     if typ = TLV_NAME then and_then (decode_inner_name lib v) (\<lambda>n. Inr (Some n, cost))
     else if typ = T_COST then and_then (decode_nni_value lib v) (\<lambda>c. Inr (name, Some c))
     else Inr (name, cost))"

definition op_add_decode :: "'n wire_lib \<Rightarrow> u8 list \<Rightarrow> dv_tlv_error + 'n prefix_op_add" where
  "op_add_decode lib value =
     and_then (tlv_run lib DvMalformed (op_add_step lib) value (None, None)) (\<lambda>(name, cost).
       and_then (or_err name (DvMissingField ''Name (PrefixOpAdd)'')) (\<lambda>name.
       and_then (or_err cost (DvMissingField ''Cost (PrefixOpAdd)'')) (\<lambda>cost.
         Inr \<lparr>pa_name = name, pa_cost = cost\<rparr>)))"

definition op_remove_step :: "'n wire_lib \<Rightarrow> u64 \<Rightarrow> u8 list \<Rightarrow> 'n option \<Rightarrow> dv_tlv_error + 'n option" where
  "op_remove_step lib typ v name =
     (if typ = TLV_NAME then and_then (decode_inner_name lib v) (\<lambda>n. Inr (Some n)) else Inr name)"

definition op_remove_decode :: "'n wire_lib \<Rightarrow> u8 list \<Rightarrow> dv_tlv_error + 'n prefix_op_remove" where
  "op_remove_decode lib value =
     and_then (tlv_run lib DvMalformed (op_remove_step lib) value None) (\<lambda>name.
       and_then (or_err name (DvMissingField ''Name (PrefixOpRemove)'')) (\<lambda>name.
         Inr \<lparr>pr_name = name\<rparr>))"

type_synonym 'n ops_fields = "'n option \<times> bool \<times> 'n prefix_op_add list \<times> 'n prefix_op_remove list"

definition ops_step :: "'n wire_lib \<Rightarrow> u64 \<Rightarrow> u8 list \<Rightarrow> 'n ops_fields \<Rightarrow> dv_tlv_error + 'n ops_fields" where
  "ops_step lib typ v = (\<lambda>(exit_router, reset, adds, removes).
     if typ = T_DESTINATION then and_then (decode_name_field lib v) (\<lambda>n. Inr (Some n, reset, adds, removes))
     else if typ = T_PREFIX_OP_RESET then Inr (exit_router, True, adds, removes)
     else if typ = T_PREFIX_OP_ADD then and_then (op_add_decode lib v) (\<lambda>a. Inr (exit_router, reset, adds @ [a], removes))
     else if typ = T_PREFIX_OP_REMOVE then and_then (op_remove_decode lib v) (\<lambda>rm. Inr (exit_router, reset, adds, removes @ [rm]))
     else Inr (exit_router, reset, adds, removes))"

definition ops_decode_content :: "'n wire_lib \<Rightarrow> u8 list \<Rightarrow> dv_tlv_error + 'n prefix_op_list" where
  "ops_decode_content lib value =
     and_then (tlv_run lib DvMalformed (ops_step lib) value (None, False, [], []))
       (\<lambda>(exit_router, reset, adds, removes).
          and_then (or_err exit_router (DvMissingField ''ExitRouter'')) (\<lambda>exit_router.
            Inr \<lparr>po_exit_router = exit_router, po_reset = reset, po_adds = adds, po_removes = removes\<rparr>))"

definition ops_decode :: "'n wire_lib \<Rightarrow> u8 list \<Rightarrow> dv_tlv_error + 'n prefix_op_list" where
  "ops_decode lib bytes =
     (case wl_read_tlv lib bytes of
        None \<Rightarrow> Inl DvMalformed
      | Some (typ, value, _) \<Rightarrow>
          if typ \<noteq> T_PREFIX_OP_LIST then Inl (DvWrongType T_PREFIX_OP_LIST typ)
          else ops_decode_content lib value)"

section \<open>Packets and the status report\<close>

fun dv_packet_encode :: "'n wire_lib \<Rightarrow> 'n dv_packet \<Rightarrow> u8 list" where
  "dv_packet_encode lib (DvAdvertisement a) = adv_encode lib a"
| "dv_packet_encode lib (DvPrefixOpList p) = ops_encode lib p"

definition dv_packet_decode :: "'n wire_lib \<Rightarrow> u8 list \<Rightarrow> dv_tlv_error + 'n dv_packet" where
  "dv_packet_decode lib bytes =
     (case wl_read_tlv lib bytes of
        None \<Rightarrow> Inl DvMalformed
      | Some (typ, value, _) \<Rightarrow>
          if typ = T_ADVERTISEMENT
          then and_then (adv_decode_content lib value) (\<lambda>a. Inr (DvAdvertisement a))
          else if typ = T_PREFIX_OP_LIST
          then and_then (ops_decode_content lib value) (\<lambda>p. Inr (DvPrefixOpList p))
          else Inl (DvWrongType T_ADVERTISEMENT typ))"

definition status_encode_content :: "'n wire_lib \<Rightarrow> 'n dv_status \<Rightarrow> u8 list" where
  "status_encode_content lib s =
     wl_write_tlv lib T_VERSION (ds_version s)
     @ write_name_field lib T_NETWORK_NAME (ds_network_name s)
     @ write_name_field lib T_ROUTER_NAME (ds_router_name s)
     @ write_nni_tlv lib T_N_RIB_ENTRIES (ds_n_rib_entries s)
     @ write_nni_tlv lib T_N_NEIGHBORS (ds_n_neighbors s)
     @ write_nni_tlv lib T_N_FIB_ENTRIES (ds_n_fib_entries s)"

record 'n status_fields =
  sf_version :: "u8 list option"
  sf_network_name :: "'n option"
  sf_router_name :: "'n option"
  sf_n_rib_entries :: "u64 option"
  sf_n_neighbors :: "u64 option"
  sf_n_fib_entries :: "u64 option"

definition status_step :: "'n wire_lib \<Rightarrow> u64 \<Rightarrow> u8 list \<Rightarrow> 'n status_fields \<Rightarrow> dv_tlv_error + 'n status_fields" where
  "status_step lib typ v s =
     (if typ = T_VERSION then (if utf8_valid v then Inr (s\<lparr>sf_version := Some v\<rparr>) else Inl DvMalformed)
      else if typ = T_NETWORK_NAME then and_then (decode_name_field lib v) (\<lambda>n. Inr (s\<lparr>sf_network_name := Some n\<rparr>))
      else if typ = T_ROUTER_NAME then and_then (decode_name_field lib v) (\<lambda>n. Inr (s\<lparr>sf_router_name := Some n\<rparr>))
      else if typ = T_N_RIB_ENTRIES then and_then (decode_nni_value lib v) (\<lambda>n. Inr (s\<lparr>sf_n_rib_entries := Some n\<rparr>))
      else if typ = T_N_NEIGHBORS then and_then (decode_nni_value lib v) (\<lambda>n. Inr (s\<lparr>sf_n_neighbors := Some n\<rparr>))
      else if typ = T_N_FIB_ENTRIES then and_then (decode_nni_value lib v) (\<lambda>n. Inr (s\<lparr>sf_n_fib_entries := Some n\<rparr>))
      else Inr s)"

definition status_decode_content :: "'n wire_lib \<Rightarrow> u8 list \<Rightarrow> dv_tlv_error + 'n dv_status" where
  "status_decode_content lib bytes =
     and_then (tlv_run lib DvMalformed (status_step lib) bytes
         \<lparr>sf_version = None, sf_network_name = None, sf_router_name = None, sf_n_rib_entries = None,
          sf_n_neighbors = None, sf_n_fib_entries = None\<rparr>) (\<lambda>s.
     and_then (or_err (sf_version s) (DvMissingField ''Version'')) (\<lambda>version.
     and_then (or_err (sf_network_name s) (DvMissingField ''NetworkName'')) (\<lambda>network_name.
     and_then (or_err (sf_router_name s) (DvMissingField ''RouterName'')) (\<lambda>router_name.
     and_then (or_err (sf_n_rib_entries s) (DvMissingField ''NRibEntries'')) (\<lambda>n_rib_entries.
     and_then (or_err (sf_n_neighbors s) (DvMissingField ''NNeighbors'')) (\<lambda>n_neighbors.
     and_then (or_err (sf_n_fib_entries s) (DvMissingField ''NFibEntries'')) (\<lambda>n_fib_entries.
       Inr \<lparr>ds_version = version, ds_network_name = network_name, ds_router_name = router_name,
            ds_n_rib_entries = n_rib_entries, ds_n_neighbors = n_neighbors,
            ds_n_fib_entries = n_fib_entries\<rparr>)))))))"

section \<open>Round trips\<close>

lemma name_field_back [simp]: "wire_ok lib \<Longrightarrow> decode_name_field lib (wl_name_to_tlv lib n) = Inr n"
  by (simp add: decode_name_field_def wire_okD)

lemma nni_value_back [simp]: "wire_ok lib \<Longrightarrow> decode_nni_value lib (encode_nni v) = Inr v"
  by (simp add: decode_nni_value_def)

lemma adv_entry_back [simp]: "wire_ok lib \<Longrightarrow> adv_entry_decode lib (adv_entry_value lib e) = Inr e"
  by (cases e)
    (simp add: adv_entry_decode_def adv_entry_value_def write_name_field_def write_nni_tlv_def
      adv_entry_step_def dv_types)

lemma fold_snoc: "fold (\<lambda>x acc. acc @ [x]) xs acc = acc @ xs"
  by (induction xs arbitrary: acc) simp_all

lemma adv_content_back: "wire_ok lib \<Longrightarrow> adv_decode_content lib (adv_encode_content lib es) = Inr es"
  unfolding adv_decode_content_def adv_encode_content_def
  by (subst tlv_run_items_last [where upd = "\<lambda>x acc. acc @ [x]"]) (simp_all add: adv_step_def fold_snoc)

lemma op_add_back [simp]:
  assumes "wire_ok lib"
  shows "op_add_decode lib (op_add_value lib a) = Inr a"
proof -
  obtain v where "wl_name_to_tlv lib (pa_name a) = wl_write_tlv lib TLV_NAME v"
    "wl_name_decode lib v = Some (pa_name a)"
    using wire_ok_name [OF assms] .
  then show ?thesis
    using assms
    by (cases a) (simp add: op_add_decode_def op_add_value_def op_add_step_def write_nni_tlv_def
        decode_inner_name_def dv_types)
qed

lemma op_remove_back [simp]:
  assumes "wire_ok lib"
  shows "op_remove_decode lib (op_remove_value lib rm) = Inr rm"
proof -
  obtain v where "wl_name_to_tlv lib (pr_name rm) = wl_write_tlv lib TLV_NAME v"
    "wl_name_decode lib v = Some (pr_name rm)"
    using wire_ok_name [OF assms] .
  then show ?thesis
    using assms
    by (cases rm) (simp add: op_remove_decode_def op_remove_value_def op_remove_step_def decode_inner_name_def)
qed

lemma fold_adds_fields:
  "fold (\<lambda>a (x, r, as, rs). (x, r, as @ [a], rs)) adds (x, r, as, rs) = (x, r, as @ adds, rs)"
  by (induction adds arbitrary: as) simp_all

lemma fold_removes_fields:
  "fold (\<lambda>a (x, r, as, rs). (x, r, as, rs @ [a])) rms (x, r, as, rs) = (x, r, as, rs @ rms)"
  by (induction rms arbitrary: rs) simp_all

lemma ops_content_back:
  assumes "wire_ok lib"
  shows "ops_decode_content lib (ops_encode_content lib ops) = Inr ops"
proof -
  let ?run = "tlv_run lib DvMalformed (ops_step lib)"
  let ?adds = "concat (map (\<lambda>a. wl_write_tlv lib T_PREFIX_OP_ADD (op_add_value lib a)) (po_adds ops))"
  let ?rms = "concat (map (\<lambda>rm. wl_write_tlv lib T_PREFIX_OP_REMOVE (op_remove_value lib rm)) (po_removes ops))"
  have adds: "?run (?adds @ ?rms) (x, r, [], []) = ?run ?rms (x, r, po_adds ops, [])" for x r
    by (subst tlv_run_items [OF assms, where upd = "\<lambda>a (x, r, as, rs). (x, r, as @ [a], rs)"])
      (auto simp: ops_step_def dv_types assms fold_adds_fields)
  have rms: "?run ?rms (x, r, as, []) = Inr (x, r, as, po_removes ops)" for x r as
    by (subst tlv_run_items_last [OF assms, where upd = "\<lambda>a (x, r, as, rs). (x, r, as, rs @ [a])"])
      (auto simp: ops_step_def dv_types assms fold_removes_fields)
  have name: "ops_step lib T_DESTINATION (wl_name_to_tlv lib n) (x, r, as, rs) = Inr (Some n, r, as, rs)"
    for n x r as rs
    using assms by (simp add: ops_step_def)
  have reset: "ops_step lib T_PREFIX_OP_RESET v (x, r, as, rs) = Inr (x, True, as, rs)" for v x r as rs
    by (simp add: ops_step_def dv_types)
  show ?thesis
    by (cases ops) (use adds rms name reset assms in
      \<open>simp add: ops_decode_content_def ops_encode_content_def write_name_field_def\<close>)
qed

lemma status_back:
  assumes "wire_ok lib" and "utf8_valid (ds_version s)"
  shows "status_decode_content lib (status_encode_content lib s) = Inr s"
  using assms
  by (cases s) (simp add: status_decode_content_def status_encode_content_def write_name_field_def
      write_nni_tlv_def status_step_def dv_types)

lemma read_tlv_one: "wire_ok lib \<Longrightarrow> wl_read_tlv lib (wl_write_tlv lib t v) = Some (t, v, [])"
  using wire_okD(1) [of lib t v "[]"] by simp

section \<open>Properties\<close>

text \<open>
  Every message of the distance-vector protocol survives the wire: decoding the encoding of a
  packet, of the bare contents of an advertisement or an operation list, and of a status report
  (whose version is UTF-8) gives back exactly the message; decoding a packet as the other kind is
  refused as such; and an element of an unknown type is skipped in an operation list and refused
  in an advertisement.
\<close>

theorem dv_messages_roundtrip:
  assumes "wire_ok lib" and "utf8_valid (ds_version status)"
    and "unknown \<notin> {T_ADV_ENTRY, T_DESTINATION, T_PREFIX_OP_RESET, T_PREFIX_OP_ADD, T_PREFIX_OP_REMOVE}"
  shows "dv_packet_decode lib (dv_packet_encode lib packet) = Inr packet
    \<and> adv_decode_content lib (adv_encode_content lib adv) = Inr adv
    \<and> ops_decode_content lib (ops_encode_content lib ops) = Inr ops
    \<and> status_decode_content lib (status_encode_content lib status) = Inr status
    \<and> adv_decode lib (dv_packet_encode lib packet) =
        (case packet of DvAdvertisement a \<Rightarrow> Inr a
         | DvPrefixOpList _ \<Rightarrow> Inl (DvWrongType T_ADVERTISEMENT T_PREFIX_OP_LIST))
    \<and> ops_decode lib (dv_packet_encode lib packet) =
        (case packet of DvPrefixOpList p \<Rightarrow> Inr p
         | DvAdvertisement _ \<Rightarrow> Inl (DvWrongType T_PREFIX_OP_LIST T_ADVERTISEMENT))
    \<and> ops_decode_content lib (wl_write_tlv lib unknown v @ bs) = ops_decode_content lib bs
    \<and> adv_decode_content lib (wl_write_tlv lib unknown v @ bs) = Inl (DvWrongType T_ADV_ENTRY unknown)"
proof -
  have packet: "dv_packet_decode lib (dv_packet_encode lib packet) = Inr packet"
    and "adv_decode lib (dv_packet_encode lib packet) =
        (case packet of DvAdvertisement a \<Rightarrow> Inr a
         | DvPrefixOpList _ \<Rightarrow> Inl (DvWrongType T_ADVERTISEMENT T_PREFIX_OP_LIST))"
    and "ops_decode lib (dv_packet_encode lib packet) =
        (case packet of DvPrefixOpList p \<Rightarrow> Inr p
         | DvAdvertisement _ \<Rightarrow> Inl (DvWrongType T_PREFIX_OP_LIST T_ADVERTISEMENT))"
    using assms(1)
    by (cases packet; simp add: dv_packet_decode_def adv_encode_def ops_encode_def read_tlv_one
        adv_content_back ops_content_back adv_decode_def ops_decode_def dv_types)+
  moreover have "ops_decode_content lib (wl_write_tlv lib unknown v @ bs) = ops_decode_content lib bs"
    using assms(1,3) by (simp add: ops_decode_content_def ops_step_def)
  moreover have "adv_decode_content lib (wl_write_tlv lib unknown v @ bs) = Inl (DvWrongType T_ADV_ENTRY unknown)"
    using assms(1,3) by (simp add: adv_decode_content_def adv_step_def)
  ultimately show ?thesis
    using adv_content_back [OF assms(1)] ops_content_back [OF assms(1)] status_back [OF assms(1,2)]
    by simp
qed

definition example_ops_msg :: "u8 list prefix_op_list" where
  "example_ops_msg = \<lparr>po_exit_router = ascii ''/r1'', po_reset = True,
     po_adds = [\<lparr>pa_name = ascii ''/p'', pa_cost = 0x1234\<rparr>], po_removes = [\<lparr>pr_name = ascii ''/q''\<rparr>]\<rparr>"

definition example_status :: "u8 list dv_status" where
  "example_status = \<lparr>ds_version = ascii ''v1'', ds_network_name = ascii ''/ndn'', ds_router_name = ascii ''/r1'',
     ds_n_rib_entries = 3, ds_n_neighbors = 2, ds_n_fib_entries = 70000\<rparr>"

theorem dv_messages_roundtrip_witness:
  "dv_packet_decode bytes_lib (dv_packet_encode bytes_lib (DvPrefixOpList example_ops_msg)) =
      Inr (DvPrefixOpList example_ops_msg)
    \<and> status_decode_content bytes_lib (status_encode_content bytes_lib example_status) = Inr example_status
    \<and> adv_decode bytes_lib (dv_packet_encode bytes_lib (DvPrefixOpList example_ops_msg)) =
      Inl (DvWrongType T_ADVERTISEMENT T_PREFIX_OP_LIST)"
proof -
  have "utf8_valid (ds_version example_status)" by code_simp
  from dv_messages_roundtrip [OF bytes_lib_ok this, of 0 "DvPrefixOpList example_ops_msg"] show ?thesis
    by (simp add: dv_types)
qed

end
