(* ===== verification/Nlsr_Date.thy ===== *)
theory Nlsr_Date
  imports Tlv "HOL-Library.Signed_Division"
begin

text \<open>
  The expiration time of a link-state advertisement as text (\<open>lsa/mod.rs\<close>): milliseconds of the Unix
  clock are written as \<open>YYYY-MM-DD HH:MM:SS\<close> and read back. Strings are their UTF-8 bytes;
  \<open>i64\<close> values are integers where they cannot overflow and \<open>u64\<close> values are words.
\<close>

section \<open>Days and dates\<close>

text \<open>\<open>/\<close> on \<open>i64\<close> truncates towards zero.\<close>

definition days_to_ymd :: "int \<Rightarrow> int \<times> u32 \<times> u32" where
  "days_to_ymd z0 =
     (let z = z0 + 719468;
          era = (if 0 \<le> z then z div 146097 else (z - 146096) sdiv 146097);
          doe = word_of_int (z - era * 146097) :: u64;
          yoe = (doe - doe div 1460 + doe div 36524 - doe div 146096) div 365;
          y = uint yoe + era * 400;
          doy = doe - (365 * yoe + yoe div 4 - yoe div 100);
          mp = (5 * doy + 2) div 153;
          d = ucast (doy - (153 * mp + 2) div 5 + 1);
          m = (if mp < 10 then ucast (mp + 3) else ucast (mp - 9));
          y = (if m \<le> 2 then y + 1 else y)
      in (y, m, d))"

definition ymd_to_days :: "int \<Rightarrow> u32 \<Rightarrow> u32 \<Rightarrow> int" where
  "ymd_to_days y0 m d =
     (let y = (if m \<le> 2 then y0 - 1 else y0);
          era = (if 0 \<le> y then y div 400 else (y - 399) sdiv 400);
          yoe = word_of_int (y - era * 400) :: u64;
          mp = (if 2 < m then ucast m - 3 else ucast m + 9) :: u64;
          doy = (153 * mp + 2) div 5 + ucast d - 1;
          doe = yoe * 365 + yoe div 4 - yoe div 100 + doy
      in era * 146097 + sint doe - 719468)"

section \<open>Decimal text\<close>

function digits :: "nat \<Rightarrow> u8 list" where
  "digits n = (if n < 10 then [of_nat (48 + n)] else digits (n div 10) @ [of_nat (48 + n mod 10)])"
  by pat_completeness auto
termination by (relation "measure id") auto

declare digits.simps [simp del]

text \<open>\<open>{:0w}\<close>\<close>

definition pad_nat :: "nat \<Rightarrow> nat \<Rightarrow> u8 list" where
  "pad_nat w n = replicate (w - length (digits n)) 48 @ digits n"

definition pad_int :: "nat \<Rightarrow> int \<Rightarrow> u8 list" where
  "pad_int w i = (if i < 0 then 45 # pad_nat (w - 1) (nat (- i)) else pad_nat w (nat i))"

definition digit :: "u8 \<Rightarrow> bool" where
  "digit b \<longleftrightarrow> 48 \<le> b \<and> b \<le> 57"

definition digits_value :: "u8 list \<Rightarrow> nat" where
  "digits_value = foldl (\<lambda>acc b. 10 * acc + unat (b - 48)) 0"

text \<open>
  \<open>str::parse\<close> of an integer type: an optional sign, \<open>-\<close> only for a signed type, and digits. The
  slices have at most four bytes, so no type overflows.
\<close>

definition parse_digits :: "u8 list \<Rightarrow> nat option" where
  "parse_digits s = (if s \<noteq> [] \<and> list_all digit s then Some (digits_value s) else None)"

definition parse_unsigned :: "u8 list \<Rightarrow> nat option" where
  "parse_unsigned s =
     (case s of
        [] \<Rightarrow> None
      | b # bs \<Rightarrow> if b = 43 \<and> bs \<noteq> [] then parse_digits bs else parse_digits s)"

definition parse_signed :: "u8 list \<Rightarrow> int option" where
  "parse_signed s =
     (case s of
        [] \<Rightarrow> None
      | b # bs \<Rightarrow>
          if b = 45 \<and> bs \<noteq> [] then map_option (\<lambda>n. - int n) (parse_digits bs)
          else map_option int (parse_unsigned s))"

section \<open>The expiration time\<close>

definition format_expiration_time :: "u64 \<Rightarrow> u8 list" where
  "format_expiration_time ms =
     (let secs = ms div 1000;
          (year, month, day) = days_to_ymd (uint (secs div 86400));
          t = ucast (secs mod 86400) :: u32;
          h = t div 3600; m = t mod 3600 div 60; s = t mod 60
      in pad_int 4 year @ [45] @ pad_nat 2 (unat month) @ [45] @ pad_nat 2 (unat day) @ [32]
         @ pad_nat 2 (unat h) @ [58] @ pad_nat 2 (unat m) @ [58] @ pad_nat 2 (unat s))"

text \<open>
  Slicing a string in the middle of a character panics: \<open>s[a..b]\<close> needs a boundary at \<open>a\<close> and at \<open>b\<close>.
\<close>

datatype lsa_codec_error =
  LsaTlv
| LsaWrongType u64 u64
| LsaMissingField string
| LsaInvalidUtf8
| LsaInvalidDateTime
| LsaInvalidDouble
| LsaPanic

definition char_boundary :: "u8 list \<Rightarrow> nat \<Rightarrow> bool" where
  "char_boundary s i \<longleftrightarrow> i = 0 \<or> i = length s \<or> i < length s \<and> \<not> cont (s ! i)"

definition str_slice :: "nat \<Rightarrow> nat \<Rightarrow> u8 list \<Rightarrow> lsa_codec_error + u8 list" where
  "str_slice a b s =
     (if char_boundary s a \<and> char_boundary s b then Inr (take (b - a) (drop a s)) else Inl LsaPanic)"

definition parse_expiration_time :: "u8 list \<Rightarrow> lsa_codec_error + u64" where
  "parse_expiration_time s =
     (if length s \<noteq> 19 then Inl LsaInvalidDateTime
      else
        let signed = (\<lambda>a b. and_then (str_slice a b s) (\<lambda>t. or_err (parse_signed t) LsaInvalidDateTime));
            unsigned = (\<lambda>a b. and_then (str_slice a b s) (\<lambda>t. or_err (parse_unsigned t) LsaInvalidDateTime))
        in and_then (signed 0 4) (\<lambda>year.
           and_then (unsigned 5 7) (\<lambda>month.
           and_then (unsigned 8 10) (\<lambda>day.
           and_then (signed 11 13) (\<lambda>h.
           and_then (signed 14 16) (\<lambda>m.
           and_then (signed 17 19) (\<lambda>sec.
             let days = ymd_to_days year (of_nat month) (of_nat day);
                 unix_secs = days * 86400 + h * 3600 + m * 60 + sec
             in Inr (word_of_int unix_secs * 1000))))))))"

section \<open>A date names its day\<close>

text \<open>A day of an era of 400 years: its century, its four-year cycle, its year and the day in the year.\<close>

definition era_year :: "nat \<Rightarrow> nat" where
  "era_year d = (d - d div 1460 + d div 36524 - d div 146096) div 365"

definition year_start :: "nat \<Rightarrow> nat" where
  "year_start y = 365 * y + y div 4 - y div 100"

lemma era_day:
  assumes "d < (146097 :: nat)"
  obtains c q s u where "d = 36524 * c + 1461 * q + 365 * s + u" and "c \<le> 3" and "q \<le> 24" and "s \<le> 3"
    and "u \<le> 364 \<or> u = 365 \<and> s = 3 \<and> (q < 24 \<or> c = 3)"
proof -
  define c where "c = min 3 (d div 36524)"
  define e where "e = d - 36524 * c"
  define q where "q = e div 1461"
  define t where "t = e mod 1461"
  define s where "s = min 3 (t div 365)"
  define u where "u = t - 365 * s"
  have "36524 * (d div 36524) \<le> d" "d < 36524 * (d div 36524) + 36524" by (simp_all add: dividend_less_times_div)
  moreover have "c \<le> 3" "c = d div 36524 \<or> c = 3 \<and> 3 \<le> d div 36524" by (auto simp: c_def)
  ultimately have c: "d = 36524 * c + e" "e < 36524 \<or> e = 36524 \<and> c = 3" "c \<le> 3"
    using assms unfolding e_def by linarith+
  have qt: "e = 1461 * q + t" "t \<le> 1460" unfolding q_def t_def by (simp_all add: less_Suc_eq_le [symmetric])
  have "365 * (t div 365) \<le> t" "t < 365 * (t div 365) + 365" by (simp_all add: dividend_less_times_div)
  moreover have "s \<le> 3" "s = t div 365 \<or> s = 3 \<and> 3 \<le> t div 365" by (auto simp: s_def)
  ultimately have su: "t = 365 * s + u" "u \<le> 364 \<or> u = 365 \<and> s = 3" "s \<le> 3"
    using qt(2) unfolding u_def by linarith+
  have "d = 36524 * c + 1461 * q + 365 * s + u" using c(1) qt(1) su(1) by linarith
  moreover have "q \<le> 24" using c(2) qt by linarith
  moreover have "q < 24 \<or> c = 3" if "u = 365" using c(2) qt su that by linarith
  ultimately show ?thesis using that [of c q s u] c(3) su(2,3) by blast
qed

lemma era_year_eq:
  fixes c q s u :: nat
  assumes "d = 36524 * c + 1461 * q + 365 * s + u" and "c \<le> 3" and "q \<le> 24" and "s \<le> 3"
    and "u \<le> 364 \<or> u = 365 \<and> s = 3 \<and> (q < 24 \<or> c = 3)"
  shows "era_year d = 100 * c + 4 * q + s"
    and "year_start (100 * c + 4 * q + s) = 36524 * c + 1461 * q + 365 * s"
proof -
  define w :: nat where "w = (if 24 * c + q + 365 * s + u < 1460 then 0 else 1)"
  have a: "d div 1460 = 25 * c + q + w"
    by (rule div_nat_eqI) (use assms in \<open>auto simp: w_def\<close>)
  have "d < 36524 * 4 \<or> d = 146096" using assms by linarith
  then have bg: "d div 36524 - d div 146096 = c \<and> d div 146096 \<le> d div 36524"
  proof (elim disjE)
    assume d: "d < 36524 * 4"
    have "d < 36524 * Suc c" using assms(5) by (elim disjE conjE) (use d assms(1-4) in simp_all)
    then have "d div 36524 = c" using assms(1) by (intro div_nat_eqI) simp_all
    moreover have "d div 146096 = 0" using d by simp
    ultimately show ?thesis by simp
  next
    assume d: "d = 146096"
    then have "c = 3" using assms by linarith
    then show ?thesis using d by simp
  qed
  then have "d - d div 1460 + d div 36524 - d div 146096 = d - (25 * c + q + w) + c" unfolding a using bg by linarith
  also have "\<dots> = 36500 * c + 1460 * q + 365 * s + u - w" using assms unfolding w_def by auto
  finally have "era_year d = (36500 * c + 1460 * q + 365 * s + u - w) div 365" by (simp add: era_year_def)
  also have "\<dots> = 100 * c + 4 * q + s"
    by (rule div_nat_eqI) (use assms in \<open>auto simp: w_def\<close>)
  finally show "era_year d = 100 * c + 4 * q + s" .
  have "(100 * c + 4 * q + s) div 4 = 25 * c + q" by (rule div_nat_eqI) (use assms in simp_all)
  moreover have "(100 * c + 4 * q + s) div 100 = c" by (rule div_nat_eqI) (use assms in simp_all)
  ultimately show "year_start (100 * c + 4 * q + s) = 36524 * c + 1461 * q + 365 * s"
    by (simp only: year_start_def) simp
qed

lemma era_year_bounds:
  assumes "d < 146097"
  shows "era_year d < 400" and "year_start (era_year d) \<le> d" and "d \<le> year_start (era_year d) + 365"
proof -
  obtain c q s u where d: "d = 36524 * c + 1461 * q + 365 * s + u" "c \<le> 3" "q \<le> 24" "s \<le> 3"
    "u \<le> 364 \<or> u = 365 \<and> s = 3 \<and> (q < 24 \<or> c = 3)" using era_day [OF assms] .
  show "era_year d < 400" "year_start (era_year d) \<le> d" "d \<le> year_start (era_year d) + 365"
    unfolding era_year_eq [OF d] using d by linarith+
qed

text \<open>The same on \<open>u64\<close> words, where nothing overflows.\<close>

lemma u64_div:
  assumes "n < 2 ^ 64" and "k < 2 ^ 64"
  shows "(of_nat n :: u64) div of_nat k = of_nat (n div k)"
proof -
  have "unat (of_nat n :: u64) = n" "unat (of_nat k :: u64) = k" using assms by (simp_all add: unat_of_nat take_bit_nat_eq_self)
  moreover have "n div k < 2 ^ 64" using assms(1) div_le_dividend le_less_trans by blast
  ultimately show ?thesis
    by (simp add: word_unat_eq_iff unat_div unat_of_nat take_bit_nat_eq_self)
qed

lemmas u64_div_numeral = u64_div [of _ "numeral k" for k, simplified]

definition doe_year :: "u64 \<Rightarrow> u64" where
  "doe_year doe = (doe - doe div 1460 + doe div 36524 - doe div 146096) div 365"

definition doe_day :: "u64 \<Rightarrow> u64" where
  "doe_day doe = doe - (365 * doe_year doe + doe_year doe div 4 - doe_year doe div 100)"

lemma doe_words:
  assumes "d < 146097"
  shows "doe_year (of_nat d) = of_nat (era_year d)" and "doe_day (of_nat d) = of_nat (d - year_start (era_year d))"
proof -
  have d: "d < 2 ^ 64" using assms by simp
  have parts: "d div 1460 \<le> d" "d div 146096 \<le> d - d div 1460 + d div 36524" "d - d div 1460 + d div 36524 - d div 146096 < 2 ^ 64"
  proof -
    show "d div 1460 \<le> d" by simp
    have "d div 146096 \<le> d div 36524" by (rule div_le_mono2) simp_all
    then show "d div 146096 \<le> d - d div 1460 + d div 36524" by linarith
    have "d div 36524 \<le> d" by simp
    then have "d - d div 1460 + d div 36524 - d div 146096 \<le> d + d" by linarith
    then show "d - d div 1460 + d div 36524 - d div 146096 < 2 ^ 64" using assms by simp
  qed
  have count: "(of_nat d :: u64) - of_nat d div 1460 + of_nat d div 36524 - of_nat d div 146096 =
      of_nat (d - d div 1460 + d div 36524 - d div 146096)"
    unfolding of_nat_diff [OF parts(2)] of_nat_add of_nat_diff [OF parts(1)]
    using d by (simp add: u64_div_numeral)
  show year: "doe_year (of_nat d) = of_nat (era_year d)"
    unfolding doe_year_def era_year_def count by (rule u64_div [OF parts(3), of 365, unfolded of_nat_numeral]) simp
  let ?y = "era_year d"
  have y: "?y < 2 ^ 64" "?y div 100 \<le> 365 * ?y + ?y div 4" "year_start ?y \<le> d"
    using era_year_bounds [OF assms] div_le_mono2 [of 4 100 ?y] by simp_all
  then have "365 * of_nat ?y + of_nat ?y div 4 - of_nat ?y div 100 = (of_nat (year_start ?y) :: u64)"
    unfolding year_start_def of_nat_diff [OF y(2)] by (simp add: u64_div_numeral)
  then show "doe_day (of_nat d) = of_nat (d - year_start (era_year d))"
    using y(3) unfolding doe_day_def year by (simp add: of_nat_diff)
qed

lemma month_bounds:
  assumes "y \<le> (365 :: nat)"
  shows "(5 * y + 2) div 153 \<le> 11" and "(153 * ((5 * y + 2) div 153) + 2) div 5 \<le> y"
    and "y - (153 * ((5 * y + 2) div 153) + 2) div 5 \<le> 30"
proof -
  define m where "m = (5 * y + 2) div 153"
  define s where "s = (153 * m + 2) div 5"
  have m: "153 * m \<le> 5 * y + 2" "5 * y + 2 < 153 * m + 153" unfolding m_def by (simp_all add: dividend_less_times_div)
  have s: "5 * s \<le> 153 * m + 2" "153 * m + 2 < 5 * s + 5" unfolding s_def by (simp_all add: dividend_less_times_div)
  show "(5 * y + 2) div 153 \<le> 11" "(153 * ((5 * y + 2) div 153) + 2) div 5 \<le> y"
    "y - (153 * ((5 * y + 2) div 153) + 2) div 5 \<le> 30"
    unfolding m_def [symmetric] s_def [symmetric] using m s assms by linarith+
qed

lemma unat_small: "n < 2 ^ 32 \<Longrightarrow> unat (of_nat n :: u32) = n" "n < 2 ^ 32 \<Longrightarrow> unat (of_nat n :: u64) = n"
  by (simp_all add: unat_of_nat take_bit_nat_eq_self)

lemma ucast_small:
  assumes "n < 2 ^ 32"
  shows "(ucast (of_nat n :: u64) :: u32) = of_nat n" and "(ucast (of_nat n :: u32) :: u64) = of_nat n"
  using assms by (simp_all add: word_unat_eq_iff unsigned_ucast_eq unat_of_nat take_bit_nat_eq_self)

lemma days_to_ymd_eq:
  assumes "0 \<le> z" and "(z + 719468) div 146097 = e" and "word_of_int (z + 719468 - e * 146097) = doe"
  shows "days_to_ymd z =
    (let mp = (5 * doe_day doe + 2) div 153; m = (if mp < 10 then ucast (mp + 3) else ucast (mp - 9))
     in (if m \<le> 2 then uint (doe_year doe) + e * 400 + 1 else uint (doe_year doe) + e * 400, m,
         ucast (doe_day doe - (153 * mp + 2) div 5 + 1)))"
proof -
  have "0 \<le> z + 719468" using assms(1) by simp
  then show ?thesis
    unfolding days_to_ymd_def Let_def assms(2) doe_day_def doe_year_def by (simp only: if_True assms(3))
qed

text \<open>A day by its parts: the era, the day in the era, the year, the day in the year and the month.\<close>

lemma date_parts:
  assumes "0 \<le> z"
  obtains e d y dy m where "z + 719468 = int e * 146097 + int d" and "d < 146097"
    and "y = era_year d" and "dy = d - year_start y" and "m = (5 * dy + 2) div 153"
    and "days_to_ymd z = (int y + int e * 400 + (if m < 10 then 0 else 1),
      of_nat (if m < 10 then m + 3 else m - 9), of_nat (dy - (153 * m + 2) div 5 + 1))"
proof -
  define e where "e = nat ((z + 719468) div 146097)"
  define d where "d = nat ((z + 719468) mod 146097)"
  define y where "y = era_year d"
  define dy where "dy = d - year_start y"
  define m where "m = (5 * dy + 2) div 153"
  have e: "(z + 719468) div 146097 = int e" "z + 719468 = int e * 146097 + int d" "d < 146097"
    using assms by (simp_all add: e_def d_def)
  have dy: "dy \<le> 365" "y < 400" using era_year_bounds [OF e(3)] by (auto simp: dy_def y_def)
  note mb = month_bounds [OF dy(1), folded m_def]
  have doe: "(word_of_int (z + 719468 - int e * 146097) :: u64) = of_nat d" using e(2) by simp
  have year: "doe_year (of_nat d) = of_nat y" "uint (of_nat y :: u64) = int y"
    using doe_words(1) [OF e(3)] unat_small(2) [of y] dy(2) by (simp_all add: y_def uint_nat)
  have day: "doe_day (of_nat d) = of_nat dy" using doe_words(2) [OF e(3)] by (simp add: dy_def y_def)
  have mp: "(5 * of_nat dy + 2) div 153 = (of_nat m :: u64)"
    using u64_div [of "5 * dy + 2" 153] dy(1) by (simp add: m_def add.commute)
  have sum: "(153 * of_nat m + 2) div 5 = (of_nat ((153 * m + 2) div 5) :: u64)"
    using u64_div [of "153 * m + 2" 5] mb(1) by (simp add: add.commute)
  have "of_nat dy - of_nat s + 1 = (of_nat (dy - s + 1) :: u64)" if "s \<le> dy" for s
    using that by (simp add: of_nat_diff)
  note this [OF mb(2)]
  moreover have small: "dy - (153 * m + 2) div 5 + 1 < 2 ^ 32" using mb(3) by (simp del: One_nat_def)
  ultimately have d': "(ucast (of_nat dy - of_nat ((153 * m + 2) div 5) + 1 :: u64) :: u32) = of_nat (dy - (153 * m + 2) div 5 + 1)"
    using ucast_small(1) [OF small] by (simp only:)
  have lt: "(of_nat m :: u64) < 10 \<longleftrightarrow> m < 10" using unat_small(2) [of m] mb(1) by (simp add: word_less_nat_alt)
  have m': "(if m < 10 then ucast (of_nat m + 3 :: u64) else ucast (of_nat m - 9 :: u64)) =
      (of_nat (if m < 10 then m + 3 else m - 9) :: u32)"
  proof (cases "m < 10")
    case False
    then have "(of_nat m :: u64) - 9 = of_nat (m - 9)" by (simp add: of_nat_diff)
    moreover have "m - 9 < 2 ^ 32" using mb(1) by simp
    ultimately show ?thesis using ucast_small(1) [of "m - 9"] False by (simp only: if_False)
  qed (use ucast_small(1) [of "m + 3"] in simp)
  have le: "(of_nat (if m < 10 then m + 3 else m - 9) :: u32) \<le> 2 \<longleftrightarrow> \<not> m < 10"
    using unat_small(1) [of "if m < 10 then m + 3 else m - 9"] mb(1) by (auto simp: word_le_nat_alt split: if_splits)
  have "days_to_ymd z = (int y + int e * 400 + (if m < 10 then 0 else 1),
      of_nat (if m < 10 then m + 3 else m - 9), of_nat (dy - (153 * m + 2) div 5 + 1))"
    unfolding days_to_ymd_eq [OF assms e(1) doe] Let_def day year mp sum d' lt m' le by simp
  then show ?thesis using that [OF e(2,3) y_def dy_def m_def] by blast
qed

lemma ymd_to_days_eq:
  assumes "(if m \<le> 2 then y0 - 1 else y0) = int y + int e * 400" and "y < 400"
    and "(if 2 < m then ucast m - 3 else ucast m + 9) = (mp :: u64)"
  shows "ymd_to_days y0 m d =
    int e * 146097 + sint (of_nat y * 365 + of_nat y div 4 - of_nat y div 100 + ((153 * mp + 2) div 5 + ucast d - 1)) - 719468"
proof -
  have "(int y + int e * 400) div 400 = int e" "0 \<le> int y + int e * 400" using assms(2) by simp_all
  then show ?thesis
    unfolding ymd_to_days_def Let_def assms(1,3) by simp
qed

lemma ymd_back:
  assumes "0 \<le> z" and "days_to_ymd z = (y0, m0, d0)"
  shows "ymd_to_days y0 m0 d0 = z" and "unat m0 \<le> 12" and "unat d0 \<le> 31"
proof -
  obtain e d y dy m where p: "z + 719468 = int e * 146097 + int d" "d < 146097" "y = era_year d"
    "dy = d - year_start y" "m = (5 * dy + 2) div 153"
    "days_to_ymd z = (int y + int e * 400 + (if m < 10 then 0 else 1),
      of_nat (if m < 10 then m + 3 else m - 9), of_nat (dy - (153 * m + 2) div 5 + 1))"
    using date_parts [OF assms(1)] .
  have dy: "dy \<le> 365" "y < 400" using era_year_bounds [OF p(2)] p(3,4) by auto
  note mb = month_bounds [OF dy(1), folded p(5)]
  let ?k = "if m < 10 then m + 3 else m - 9" and ?d = "dy - (153 * m + 2) div 5 + 1"
  have e: "y0 = int y + int e * 400 + (if m < 10 then 0 else 1)" "m0 = of_nat ?k" "d0 = of_nat ?d"
    using p(6) assms(2) by simp_all
  have k: "?k \<le> 12" "?d \<le> 31" "?k < 2 ^ 32" "?d < 2 ^ 32" using mb by auto
  show small: "unat m0 \<le> 12" "unat d0 \<le> 31" unfolding e using unat_small(1) [OF k(3)] unat_small(1) [OF k(4)] k(1,2) by (simp_all only:)
  have le: "m0 \<le> 2 \<longleftrightarrow> \<not> m < 10"
    unfolding e word_le_nat_alt unat_small(1) [OF k(3)] using mb(1) by auto
  have year: "(if m0 \<le> 2 then y0 - 1 else y0) = int y + int e * 400" unfolding le using e(1) by simp
  have mp: "(if 2 < m0 then ucast m0 - 3 else ucast m0 + 9) = (of_nat m :: u64)"
    unfolding not_le [symmetric] le unfolding e ucast_small(2) [OF k(3)] using mb(1) by (auto simp: of_nat_diff)
  have S: "(153 * of_nat m + 2) div 5 = (of_nat ((153 * m + 2) div 5) :: u64)"
    using u64_div [of "153 * m + 2" 5] mb(1) by (simp add: add.commute)
  have "of_nat s + of_nat (dy - s + 1) - 1 = (of_nat dy :: u64)" if "s \<le> dy" for s
    using that by (simp add: of_nat_diff)
  from this [OF mb(2)] have day: "(153 * of_nat m + 2) div 5 + ucast d0 - 1 = (of_nat dy :: u64)"
    unfolding e ucast_small(2) [OF k(4)] S .
  have dw: "doe_day (of_nat d) = of_nat dy" "doe_year (of_nat d) = of_nat y"
    using doe_words [OF p(2)] p(3,4) by simp_all
  have "of_nat y * 365 + of_nat y div 4 - of_nat y div 100 + of_nat dy = (of_nat d :: u64)"
    using dw(1) unfolding doe_day_def dw(2) by (simp add: algebra_simps)
  moreover have "sint (of_nat d :: u64) = int d"
    using p(2) by (simp add: sint_uint signed_take_bit_int_eq_self uint_nat unat_small)
  ultimately have "ymd_to_days y0 m0 d0 = int e * 146097 + int d - 719468"
    unfolding ymd_to_days_eq [OF year dy(2) mp] day by simp
  then show "ymd_to_days y0 m0 d0 = z" using p(1) by simp
qed

text \<open>Years after 1969, and before 10000 when the day is.\<close>

lemma year_range:
  assumes "0 \<le> z" and "z < 2932897" and "days_to_ymd z = (y0, m0, d0)"
  shows "0 \<le> y0" and "y0 \<le> 9999"
proof -
  obtain e d y dy m where p: "z + 719468 = int e * 146097 + int d" "d < 146097" "y = era_year d"
    "dy = d - year_start y" "m = (5 * dy + 2) div 153"
    "days_to_ymd z = (int y + int e * 400 + (if m < 10 then 0 else 1),
      of_nat (if m < 10 then m + 3 else m - 9), of_nat (dy - (153 * m + 2) div 5 + 1))"
    using date_parts [OF assms(1)] .
  have y0: "y0 = int y + int e * 400 + (if m < 10 then 0 else 1)" using p(6) assms(3) by simp
  then show "0 \<le> y0" by simp
  have e: "e \<le> 24" "y < 400" using p(1,2) assms(2) era_year_bounds(1) [OF p(2)] p(3) by simp_all
  show "y0 \<le> 9999"
  proof (cases "e = 24 \<and> y = 399")
    case True
    have "year_start 399 = 145731" by (simp add: year_start_def)
    moreover have "d < 146037" using p(1) assms(2) True by simp
    ultimately have "dy < 306" using p(4) True by simp
    then have "m < 10" unfolding p(5) by linarith
    then show ?thesis using y0 True by simp
  qed (use e y0 in auto)
qed

section \<open>A number reads back from its digits\<close>

lemma digit_byte:
  assumes "n < 10"
  shows "digit (of_nat (48 + n))" and "unat ((of_nat (48 + n) :: u8) - 48) = n"
    and "of_nat (48 + n) \<noteq> (43 :: u8)" and "of_nat (48 + n) \<noteq> (45 :: u8)"
proof -
  have u: "unat (of_nat (48 + n) :: u8) = 48 + n" using assms by (simp add: unat_of_nat take_bit_nat_eq_self del: of_nat_add)
  then show "digit (of_nat (48 + n))" using assms by (simp add: digit_def word_le_nat_alt del: of_nat_add)
  have "(of_nat (48 + n) :: u8) - 48 = of_nat n" by simp
  then show "unat ((of_nat (48 + n) :: u8) - 48) = n" using assms by (simp add: unat_of_nat take_bit_nat_eq_self)
  show "of_nat (48 + n) \<noteq> (43 :: u8)" "of_nat (48 + n) \<noteq> (45 :: u8)"
    using u by (simp_all add: word_unat_eq_iff del: of_nat_add)
qed

lemma digits_value_snoc: "digits_value (xs @ [b]) = 10 * digits_value xs + unat (b - 48)"
  by (simp add: digits_value_def)

lemma digits_value_zeros: "digits_value (replicate k 48 @ xs) = digits_value xs"
proof (induction xs rule: rev_induct)
  case Nil
  have "digits_value (replicate k 48) = 0" by (induction k) (simp_all add: digits_value_def)
  then show ?case by (simp add: digits_value_def)
next
  case (snoc b xs)
  then show ?case using digits_value_snoc [of "replicate k 48 @ xs" b] digits_value_snoc [of xs b] by simp
qed

lemma digits_spec: "digits n \<noteq> []" "list_all digit (digits n)" "digits_value (digits n) = n"
proof (induction n rule: digits.induct)
  case (1 n)
  show "digits n \<noteq> []" by (simp add: digits.simps [of n])
  show "list_all digit (digits n)"
    using 1(2) digit_byte(1) by (cases "n < 10") (simp_all add: digits.simps [of n] del: of_nat_add)
  show "digits_value (digits n) = n"
  proof (cases "n < 10")
    case True
    then show ?thesis using digit_byte(2) [OF True] by (simp add: digits.simps [of n] digits_value_def del: of_nat_add)
  next
    case False
    have "n mod 10 < 10" by simp
    from digit_byte(2) [OF this] show ?thesis
      using 1(3) [OF False] False by (simp add: digits.simps [of n] digits_value_snoc del: of_nat_add)
  qed
qed

lemma digits_length: "n < 10 ^ w \<Longrightarrow> 0 < w \<Longrightarrow> length (digits n) \<le> w"
proof (induction w arbitrary: n)
  case (Suc w)
  show ?case
  proof (cases "n < 10")
    case False
    then have "n div 10 < 10 ^ w" "0 < w" using Suc.prems by (auto simp: less_mult_imp_div_less intro: ccontr)
    then show ?thesis using Suc.IH False by (simp add: digits.simps [of n])
  qed (simp add: digits.simps [of n])
qed simp

lemma pad_spec:
  shows "list_all digit (pad_nat w n)" and "pad_nat w n \<noteq> []" and "digits_value (pad_nat w n) = n"
    and "n < 10 ^ w \<Longrightarrow> 0 < w \<Longrightarrow> length (pad_nat w n) = w"
  using digits_spec [of n] digits_length [of n w]
  by (auto simp: pad_nat_def digits_value_zeros list_all_iff digit_def)

lemma digit_sign: "digit b \<Longrightarrow> b \<noteq> 43 \<and> b \<noteq> 45 \<and> b < 0x80"
  by (auto simp: digit_def word_le_nat_alt word_less_nat_alt)

lemma parse_pad: "parse_unsigned (pad_nat w n) = Some n" "parse_signed (pad_nat w n) = Some (int n)"
proof -
  obtain b bs where b: "pad_nat w n = b # bs" using pad_spec(2) by (cases "pad_nat w n") auto
  then have "b \<noteq> 43" "b \<noteq> 45" using pad_spec(1) [of w n] digit_sign [of b] by auto
  moreover have "parse_digits (pad_nat w n) = Some n" using pad_spec by (simp add: parse_digits_def)
  ultimately show "parse_unsigned (pad_nat w n) = Some n" "parse_signed (pad_nat w n) = Some (int n)"
    using b by (simp_all add: parse_unsigned_def parse_signed_def)
qed

lemma ascii_slice:
  assumes "\<And>b. b \<in> set s \<Longrightarrow> b < 0x80" and "a \<le> length s" and "b \<le> length s"
  shows "str_slice a b s = Inr (take (b - a) (drop a s))"
proof -
  have "\<not> cont (s ! i)" if "i < length s" for i
    using assms(1) [OF nth_mem [OF that]] by (auto simp: cont_def)
  then show ?thesis using assms(2,3) by (auto simp: str_slice_def char_boundary_def)
qed

text \<open>The whole string, from its six numbers.\<close>

definition stamp :: "nat \<Rightarrow> nat \<Rightarrow> nat \<Rightarrow> nat \<Rightarrow> nat \<Rightarrow> nat \<Rightarrow> u8 list" where
  "stamp year month day h m s = pad_nat 4 year @ [45] @ pad_nat 2 month @ [45] @ pad_nat 2 day @ [32]
     @ pad_nat 2 h @ [58] @ pad_nat 2 m @ [58] @ pad_nat 2 s"

lemma stamp_back:
  assumes "year < 10000" and "month < 100" and "day < 100" and "h < 100" and "m < 100" and "s < 100"
  shows "parse_expiration_time (stamp year month day h m s) =
      Inr (word_of_int (ymd_to_days (int year) (of_nat month) (of_nat day) * 86400 + int h * 3600 + int m * 60 + int s) * 1000)"
    and "utf8_valid (stamp year month day h m s)"
proof -
  let ?s = "stamp year month day h m s"
  have len: "length (pad_nat 4 year) = 4" "length (pad_nat 2 month) = 2" "length (pad_nat 2 day) = 2"
    "length (pad_nat 2 h) = 2" "length (pad_nat 2 m) = 2" "length (pad_nat 2 s) = 2"
    using assms by (simp_all add: pad_spec(4))
  have pad: "b < 0x80" if "b \<in> set (pad_nat w n)" for b w n
    using pad_spec(1) [of w n] that digit_sign by (auto simp: list_all_iff)
  have small: "b < 0x80" if "b \<in> set ?s" for b
    using that by (auto simp: stamp_def dest: pad)
  then show "utf8_valid ?s" by (rule utf8_valid_ascii)
  have "length ?s = 19" using len by (simp add: stamp_def)
  moreover have "str_slice a b ?s = Inr (take (b - a) (drop a ?s))" if "a \<le> 19" "b \<le> 19" for a b
    using ascii_slice [OF small] that calculation by simp
  ultimately show "parse_expiration_time ?s =
      Inr (word_of_int (ymd_to_days (int year) (of_nat month) (of_nat day) * 86400 + int h * 3600 + int m * 60 + int s) * 1000)"
    by (simp add: parse_expiration_time_def Let_def stamp_def len parse_pad)
qed

text \<open>The last millisecond of the year 9999 is 253402300799999.\<close>

lemma expiration_back:
  assumes "ms < 253402300800000"
  shows "parse_expiration_time (format_expiration_time ms) = Inr (ms - ms mod 1000)"
    and "utf8_valid (format_expiration_time ms)"
proof -
  define secs where "secs = ms div 1000"
  define days where "days = uint (secs div 86400)"
  define t where "t = unat (secs mod 86400)"
  obtain y mo d where ymd: "days_to_ymd days = (y, mo, d)" using prod_cases3 by blast
  have ms: "uint ms < 253402300800000" using assms by (simp add: word_less_def)
  have "days = uint ms div 1000 div 86400" unfolding days_def secs_def by (simp add: uint_div)
  then have "days < 2932897" using ms by linarith
  moreover have "0 \<le> days" by (simp add: days_def)
  ultimately have days: "0 \<le> days" "days < 2932897" by simp_all
  have y: "0 \<le> y" "y \<le> 9999" using year_range [OF days ymd] .
  note ymd_of = ymd_back [OF days(1) ymd]
  have t: "t < 86400" unfolding t_def by (simp add: unat_mod)
  have tw: "(ucast (secs mod 86400) :: u32) = of_nat t"
    unfolding t_def by (simp add: of_nat_unat)
  have hms: "unat ((of_nat t :: u32) div 3600) = t div 3600" "unat ((of_nat t :: u32) mod 3600 div 60) = t mod 3600 div 60"
    "unat ((of_nat t :: u32) mod 60) = t mod 60"
    using t by (simp_all add: unat_div unat_mod unat_small)
  have fmt: "format_expiration_time ms = stamp (nat y) (unat mo) (unat d) (t div 3600) (t mod 3600 div 60) (t mod 60)"
    unfolding format_expiration_time_def Let_def secs_def [symmetric] days_def [symmetric] ymd tw prod.case hms
    using y(1) by (simp add: stamp_def pad_int_def)
  have bounds: "nat y < 10000" "unat mo < 100" "unat d < 100" "t div 3600 < 100" "t mod 3600 div 60 < 100" "t mod 60 < 100"
    using y ymd_of(2,3) t by (simp_all add: div_less_iff_less_mult less_mult_imp_div_less)
  have "days * 86400 + int (t div 3600) * 3600 + int (t mod 3600 div 60) * 60 + int (t mod 60) = uint secs"
  proof -
    have "t div 3600 * 3600 + t mod 3600 div 60 * 60 + t mod 60 = t"
      unfolding mod_mod_cancel [of 60 3600 t, simplified, symmetric] add.assoc div_mult_mod_eq ..
    from arg_cong [OF this, of int]
    have "int (t div 3600) * 3600 + int (t mod 3600 div 60) * 60 + int (t mod 60) = int t"
      unfolding of_nat_add of_nat_mult of_nat_numeral .
    moreover have "days * 86400 + int t = uint secs"
      using div_mult_mod_eq [of "uint secs" 86400] by (simp add: days_def t_def uint_div uint_mod)
    ultimately show ?thesis by simp
  qed
  moreover have "secs * 1000 = ms - ms mod 1000"
    unfolding secs_def by (simp add: minus_mod_eq_div_mult)
  ultimately show "parse_expiration_time (format_expiration_time ms) = Inr (ms - ms mod 1000)"
    unfolding fmt stamp_back(1) [OF bounds] using y(1) ymd_of(1) by simp
  show "utf8_valid (format_expiration_time ms)"
    unfolding fmt by (rule stamp_back(2) [OF bounds])
qed

text \<open>A string of 19 bytes with a character across a slice stops the reader.\<close>

lemma expiration_slice_panics:
  "utf8_valid (ascii ''202'' @ [0xC3, 0xA9] @ ascii ''03-26 04:13:34'')
   \<and> parse_expiration_time (ascii ''202'' @ [0xC3, 0xA9] @ ascii ''03-26 04:13:34'') = Inl LsaPanic"
  by code_simp

end
