(* ===== verification/Nlsr_Wire.thy ===== *)
theory Nlsr_Wire
  imports Nlsr_Lsa Nlsr_Date
begin

text \<open>
  The wire format of the link-state advertisements (\<open>lsa/mod.rs\<close>, \<open>adjacency.rs\<close>, \<open>name.rs\<close>,
  \<open>coordinate.rs\<close>). Costs are rationals in the rest of the model; their IEEE 754 bit pattern and the value
  of one are the two functions of \<open>lsa_lib\<close>. Of a face URI, a character stands for a UTF-8 byte.
\<close>

section \<open>Fields\<close>

definition TLV_LSA :: u64 where "TLV_LSA = 128"
definition TLV_SEQ_NO :: u64 where "TLV_SEQ_NO = 130"
definition TLV_ADJACENCY_LSA :: u64 where "TLV_ADJACENCY_LSA = 131"
definition TLV_ADJACENCY :: u64 where "TLV_ADJACENCY = 132"
definition TLV_COORDINATE_LSA :: u64 where "TLV_COORDINATE_LSA = 133"
definition TLV_HYPERBOLIC_RADIUS :: u64 where "TLV_HYPERBOLIC_RADIUS = 135"
definition TLV_HYPERBOLIC_ANGLE :: u64 where "TLV_HYPERBOLIC_ANGLE = 136"
definition TLV_NAME_LSA :: u64 where "TLV_NAME_LSA = 137"
definition TLV_EXPIRATION_TIME :: u64 where "TLV_EXPIRATION_TIME = 139"
definition TLV_COST :: u64 where "TLV_COST = 140"
definition TLV_URI :: u64 where "TLV_URI = 141"
definition TLV_PREFIX_INFO :: u64 where "TLV_PREFIX_INFO = 146"

lemmas lsa_types = TLV_LSA_def TLV_SEQ_NO_def TLV_ADJACENCY_LSA_def TLV_ADJACENCY_def TLV_COORDINATE_LSA_def
  TLV_HYPERBOLIC_RADIUS_def TLV_HYPERBOLIC_ANGLE_def TLV_NAME_LSA_def TLV_EXPIRATION_TIME_def TLV_COST_def
  TLV_URI_def TLV_PREFIX_INFO_def TLV_NAME_def

record 'n lsa_lib =
  lw_wire :: "'n wire_lib"
  lw_bits :: "cost \<Rightarrow> u64"
  lw_value :: "u64 \<Rightarrow> cost"

definition write_nonneg_integer :: "'n wire_lib \<Rightarrow> u64 \<Rightarrow> u64 \<Rightarrow> u8 list" where
  "write_nonneg_integer lib typ v = wl_write_tlv lib typ (encode_nni v)"

definition read_nonneg_integer :: "u8 list \<Rightarrow> u64" where
  "read_nonneg_integer data = foldl (\<lambda>val b. push_bit 8 val OR ucast b) 0 data"

definition write_double :: "'n lsa_lib \<Rightarrow> u64 \<Rightarrow> cost \<Rightarrow> u8 list" where
  "write_double ll typ v = wl_write_tlv (lw_wire ll) typ (to_be 8 (lw_bits ll v))"

definition read_double :: "'n lsa_lib \<Rightarrow> u8 list \<Rightarrow> lsa_codec_error + cost" where
  "read_double ll data = (if length data = 8 then Inr (lw_value ll (from_be data)) else Inl LsaInvalidDouble)"

text \<open>\<open>read_tlv\<close> of an element whose type is checked; the value and what follows.\<close>

definition expect_tlv :: "'n wire_lib \<Rightarrow> u64 \<Rightarrow> u8 list \<Rightarrow> lsa_codec_error + u8 list \<times> u8 list" where
  "expect_tlv lib typ r =
     (case wl_read_tlv lib r of
        None \<Rightarrow> Inl LsaTlv
      | Some (got, v, r) \<Rightarrow> if got \<noteq> typ then Inl (LsaWrongType typ got) else Inr (v, r))"

definition read_name :: "'n wire_lib \<Rightarrow> u8 list \<Rightarrow> lsa_codec_error + 'n \<times> u8 list" where
  "read_name lib r =
     and_then (expect_tlv lib TLV_NAME r) (\<lambda>(inner, r).
     and_then (or_err (wl_name_decode lib inner) (LsaMissingField ''Name'')) (\<lambda>n. Inr (n, r)))"

section \<open>The header\<close>

definition write_lsa_header :: "'n wire_lib \<Rightarrow> 'n \<Rightarrow> u64 \<Rightarrow> u64 \<Rightarrow> u8 list" where
  "write_lsa_header lib origin seq ms =
     wl_write_tlv lib TLV_LSA
       (wl_name_to_tlv lib origin @ write_nonneg_integer lib TLV_SEQ_NO seq
        @ wl_write_tlv lib TLV_EXPIRATION_TIME (format_expiration_time ms))"

definition read_lsa_header :: "'n wire_lib \<Rightarrow> u8 list \<Rightarrow> lsa_codec_error + ('n \<times> u64 \<times> u64) \<times> u8 list" where
  "read_lsa_header lib r =
     and_then (expect_tlv lib TLV_LSA r) (\<lambda>(inner, r).
     and_then (read_name lib inner) (\<lambda>(origin, inner).
     and_then (expect_tlv lib TLV_SEQ_NO inner) (\<lambda>(seq_bytes, inner).
     and_then (expect_tlv lib TLV_EXPIRATION_TIME inner) (\<lambda>(exp_bytes, inner).
     if \<not> utf8_valid exp_bytes then Inl LsaInvalidUtf8
     else and_then (parse_expiration_time exp_bytes) (\<lambda>ms.
       Inr ((origin, read_nonneg_integer seq_bytes, ms), r))))))"

section \<open>Adjacency LSAs\<close>

definition adjacent_value :: "'n lsa_lib \<Rightarrow> 'n adjacent \<Rightarrow> u8 list" where
  "adjacent_value ll a =
     wl_name_to_tlv (lw_wire ll) (adj_name a) @ wl_write_tlv (lw_wire ll) TLV_URI (ascii (adj_face_uri a))
     @ write_double ll TLV_COST (adj_link_cost a)"

definition adjacency_wire_encode :: "'n lsa_lib \<Rightarrow> 'n adjacency_lsa \<Rightarrow> u8 list" where
  "adjacency_wire_encode ll l =
     wl_write_tlv (lw_wire ll) TLV_ADJACENCY_LSA
       (write_lsa_header (lw_wire ll) (al_origin_router l) (al_seq_no l) (al_expiration_ms l)
        @ concat (map (\<lambda>a. wl_write_tlv (lw_wire ll) TLV_ADJACENCY (adjacent_value ll a)) (al_adjacencies l)))"

definition adjacent_read :: "'n lsa_lib \<Rightarrow> u8 list \<Rightarrow> lsa_codec_error + 'n adjacent" where
  "adjacent_read ll adj_r =
     and_then (read_name (lw_wire ll) adj_r) (\<lambda>(name, adj_r).
     and_then (expect_tlv (lw_wire ll) TLV_URI adj_r) (\<lambda>(uri, adj_r).
     if \<not> utf8_valid uri then Inl LsaInvalidUtf8
     else and_then (expect_tlv (lw_wire ll) TLV_COST adj_r) (\<lambda>(cost, adj_r).
       and_then (read_double ll cost) (\<lambda>c.
         Inr \<lparr>adj_name = name, adj_face_uri = map (\<lambda>b. char_of (unat b)) uri, adj_link_cost = c\<rparr>))))"

definition adjacency_step :: "'n lsa_lib \<Rightarrow> u64 \<Rightarrow> u8 list \<Rightarrow> 'n adjacent list \<Rightarrow> lsa_codec_error + 'n adjacent list" where
  "adjacency_step ll typ v acc =
     (if typ \<noteq> TLV_ADJACENCY then Inl (LsaWrongType TLV_ADJACENCY typ)
      else and_then (adjacent_read ll v) (\<lambda>a. Inr (acc @ [a])))"

definition adjacency_wire_decode :: "'n lsa_lib \<Rightarrow> u8 list \<Rightarrow> lsa_codec_error + 'n adjacency_lsa" where
  "adjacency_wire_decode ll input =
     and_then (expect_tlv (lw_wire ll) TLV_ADJACENCY_LSA input) (\<lambda>(outer, _).
     and_then (read_lsa_header (lw_wire ll) outer) (\<lambda>((origin, seq, ms), outer).
     and_then (tlv_run (lw_wire ll) LsaTlv (adjacency_step ll) outer []) (\<lambda>adjacencies.
       Inr \<lparr>al_origin_router = origin, al_seq_no = seq, al_expiration_ms = ms, al_adjacencies = adjacencies\<rparr>)))"

section \<open>Name LSAs\<close>

definition prefix_info_value :: "'n lsa_lib \<Rightarrow> 'n prefix_info \<Rightarrow> u8 list" where
  "prefix_info_value ll p = wl_name_to_tlv (lw_wire ll) (pi_name p) @ write_double ll TLV_COST (pi_cost p)"

definition name_wire_encode :: "'n lsa_lib \<Rightarrow> 'n name_lsa \<Rightarrow> u8 list" where
  "name_wire_encode ll l =
     wl_write_tlv (lw_wire ll) TLV_NAME_LSA
       (write_lsa_header (lw_wire ll) (nl_origin_router l) (nl_seq_no l) (nl_expiration_ms l)
        @ concat (map (\<lambda>p. wl_write_tlv (lw_wire ll) TLV_PREFIX_INFO (prefix_info_value ll p)) (nl_prefixes l)))"

definition prefix_info_read :: "'n lsa_lib \<Rightarrow> u8 list \<Rightarrow> lsa_codec_error + 'n prefix_info" where
  "prefix_info_read ll pi_r =
     and_then (read_name (lw_wire ll) pi_r) (\<lambda>(name, pi_r).
     and_then (expect_tlv (lw_wire ll) TLV_COST pi_r) (\<lambda>(cost, pi_r).
     and_then (read_double ll cost) (\<lambda>c. Inr \<lparr>pi_name = name, pi_cost = c\<rparr>)))"

definition prefix_step :: "'n lsa_lib \<Rightarrow> u64 \<Rightarrow> u8 list \<Rightarrow> 'n prefix_info list \<Rightarrow> lsa_codec_error + 'n prefix_info list" where
  "prefix_step ll typ v acc =
     (if typ \<noteq> TLV_PREFIX_INFO then Inl (LsaWrongType TLV_PREFIX_INFO typ)
      else and_then (prefix_info_read ll v) (\<lambda>p. Inr (acc @ [p])))"

definition name_wire_decode :: "'n lsa_lib \<Rightarrow> u8 list \<Rightarrow> lsa_codec_error + 'n name_lsa" where
  "name_wire_decode ll input =
     and_then (expect_tlv (lw_wire ll) TLV_NAME_LSA input) (\<lambda>(outer, _).
     and_then (read_lsa_header (lw_wire ll) outer) (\<lambda>((origin, seq, ms), outer).
     and_then (tlv_run (lw_wire ll) LsaTlv (prefix_step ll) outer []) (\<lambda>prefixes.
       Inr \<lparr>nl_origin_router = origin, nl_seq_no = seq, nl_expiration_ms = ms, nl_prefixes = prefixes\<rparr>)))"

section \<open>Coordinate LSAs\<close>

definition coordinate_wire_encode :: "'n lsa_lib \<Rightarrow> 'n coordinate_lsa \<Rightarrow> u8 list" where
  "coordinate_wire_encode ll l =
     wl_write_tlv (lw_wire ll) TLV_COORDINATE_LSA
       (write_lsa_header (lw_wire ll) (cl_origin_router l) (cl_seq_no l) (cl_expiration_ms l)
        @ write_double ll TLV_HYPERBOLIC_RADIUS (cl_radius l)
        @ concat (map (write_double ll TLV_HYPERBOLIC_ANGLE) (cl_angles l)))"

definition angle_step :: "'n lsa_lib \<Rightarrow> u64 \<Rightarrow> u8 list \<Rightarrow> cost list \<Rightarrow> lsa_codec_error + cost list" where
  "angle_step ll typ v acc =
     (if typ \<noteq> TLV_HYPERBOLIC_ANGLE then Inl (LsaWrongType TLV_HYPERBOLIC_ANGLE typ)
      else and_then (read_double ll v) (\<lambda>a. Inr (acc @ [a])))"

definition coordinate_wire_decode :: "'n lsa_lib \<Rightarrow> u8 list \<Rightarrow> lsa_codec_error + 'n coordinate_lsa" where
  "coordinate_wire_decode ll input =
     and_then (expect_tlv (lw_wire ll) TLV_COORDINATE_LSA input) (\<lambda>(outer, _).
     and_then (read_lsa_header (lw_wire ll) outer) (\<lambda>((origin, seq, ms), outer).
     if outer = [] then Inl (LsaMissingField ''HyperbolicRadius'')
     else and_then (expect_tlv (lw_wire ll) TLV_HYPERBOLIC_RADIUS outer) (\<lambda>(radius_bytes, outer).
       and_then (read_double ll radius_bytes) (\<lambda>radius.
       and_then (tlv_run (lw_wire ll) LsaTlv (angle_step ll) outer []) (\<lambda>angles.
         Inr \<lparr>cl_origin_router = origin, cl_seq_no = seq, cl_expiration_ms = ms, cl_radius = radius,
              cl_angles = angles\<rparr>)))))"

section \<open>Any LSA\<close>

fun lsa_wire_encode :: "'n lsa_lib \<Rightarrow> 'n lsa \<Rightarrow> u8 list" where
  "lsa_wire_encode ll (Adjacency l) = adjacency_wire_encode ll l"
| "lsa_wire_encode ll (Name l) = name_wire_encode ll l"
| "lsa_wire_encode ll (Coordinate l) = coordinate_wire_encode ll l"

fun lsa_wire_decode :: "'n lsa_lib \<Rightarrow> lsa_type \<Rightarrow> u8 list \<Rightarrow> lsa_codec_error + 'n lsa" where
  "lsa_wire_decode ll AdjacencyType input = and_then (adjacency_wire_decode ll input) (\<lambda>l. Inr (Adjacency l))"
| "lsa_wire_decode ll NameType input = and_then (name_wire_decode ll input) (\<lambda>l. Inr (Name l))"
| "lsa_wire_decode ll CoordinateType input = and_then (coordinate_wire_decode ll input) (\<lambda>l. Inr (Coordinate l))"

section \<open>Round trips\<close>

lemma expect_write [simp]: "wire_ok lib \<Longrightarrow> expect_tlv lib t (wl_write_tlv lib t v @ rest) = Inr (v, rest)"
  by (simp add: expect_tlv_def wire_okD)

lemma expect_write_last [simp]: "wire_ok lib \<Longrightarrow> expect_tlv lib t (wl_write_tlv lib t v) = Inr (v, [])"
  using expect_write [of lib t v "[]"] by simp

lemma expect_wrong: "wire_ok lib \<Longrightarrow> t' \<noteq> t \<Longrightarrow> expect_tlv lib t' (wl_write_tlv lib t v) = Inl (LsaWrongType t' t)"
  using wire_okD(1) [of lib t v "[]"] by (simp add: expect_tlv_def)

lemma read_name_back [simp]:
  assumes "wire_ok lib"
  shows "read_name lib (wl_name_to_tlv lib n @ rest) = Inr (n, rest)"
proof -
  obtain v where "wl_name_to_tlv lib n = wl_write_tlv lib TLV_NAME v" "wl_name_decode lib v = Some n"
    using wire_ok_name [OF assms] .
  then show ?thesis using assms by (simp add: read_name_def)
qed

definition is_double :: "'n lsa_lib \<Rightarrow> cost \<Rightarrow> bool" where
  "is_double ll c \<longleftrightarrow> lw_value ll (lw_bits ll c) = c"

lemma double_back [simp]: "is_double ll c \<Longrightarrow> read_double ll (to_be 8 (lw_bits ll c)) = Inr c"
  by (simp add: read_double_def is_double_def from_be_to_be take_bit_word_eq_self)

lemma read_nonneg_back [simp]: "read_nonneg_integer (encode_nni v) = v"
  by (simp add: read_nonneg_integer_def foldl_from_be)

lemma header_back:
  assumes "wire_ok lib" and "ms < 253402300800000"
  shows "read_lsa_header lib (write_lsa_header lib origin seq ms @ rest) = Inr ((origin, seq, ms - ms mod 1000), rest)"
  using assms expiration_back [OF assms(2)]
  by (simp add: read_lsa_header_def write_lsa_header_def write_nonneg_integer_def)

lemma uri_back: "map (\<lambda>b. char_of (unat b)) (ascii s) = s"
  by (induction s) (simp_all add: ascii_def unat_of_nat take_bit_nat_eq_self)

definition adjacent_ok :: "'n lsa_lib \<Rightarrow> 'n adjacent \<Rightarrow> bool" where
  "adjacent_ok ll a \<longleftrightarrow> utf8_valid (ascii (adj_face_uri a)) \<and> is_double ll (adj_link_cost a)"

lemma adjacent_back:
  assumes "wire_ok (lw_wire ll)" and "adjacent_ok ll a"
  shows "adjacent_read ll (adjacent_value ll a) = Inr a"
  using assms by (simp add: adjacent_read_def adjacent_value_def adjacent_ok_def write_double_def uri_back)

lemma prefix_info_back:
  assumes "wire_ok (lw_wire ll)" and "is_double ll (pi_cost p)"
  shows "prefix_info_read ll (prefix_info_value ll p) = Inr p"
  using assms by (simp add: prefix_info_read_def prefix_info_value_def write_double_def)

lemma fold_append_one: "fold (\<lambda>x acc. acc @ [x]) xs acc = acc @ xs"
  by (induction xs arbitrary: acc) simp_all

lemma items_back:
  assumes "wire_ok lib" and "\<And>x acc. x \<in> set xs \<Longrightarrow> step t (enc x) acc = Inr (acc @ [x])"
  shows "tlv_run lib malformed step (concat (map (\<lambda>x. wl_write_tlv lib t (enc x)) xs)) [] = Inr xs"
  using tlv_run_items_last [OF assms(1), of xs step t enc "\<lambda>x acc. acc @ [x]"] assms(2)
  by (simp add: fold_append_one)

text \<open>An LSA the format can carry, and what it becomes: its expiration time loses its milliseconds.\<close>

fun lsa_ok :: "'n lsa_lib \<Rightarrow> 'n lsa \<Rightarrow> bool" where
  "lsa_ok ll (Adjacency l) = list_all (adjacent_ok ll) (al_adjacencies l)"
| "lsa_ok ll (Name l) = list_all (\<lambda>p. is_double ll (pi_cost p)) (nl_prefixes l)"
| "lsa_ok ll (Coordinate l) = (is_double ll (cl_radius l) \<and> list_all (is_double ll) (cl_angles l))"

fun lsa_seconds :: "'n lsa \<Rightarrow> 'n lsa" where
  "lsa_seconds (Adjacency l) = Adjacency (l\<lparr>al_expiration_ms := al_expiration_ms l - al_expiration_ms l mod 1000\<rparr>)"
| "lsa_seconds (Name l) = Name (l\<lparr>nl_expiration_ms := nl_expiration_ms l - nl_expiration_ms l mod 1000\<rparr>)"
| "lsa_seconds (Coordinate l) = Coordinate (l\<lparr>cl_expiration_ms := cl_expiration_ms l - cl_expiration_ms l mod 1000\<rparr>)"

lemma format_seconds: "format_expiration_time (ms - ms mod 1000) = format_expiration_time ms"
proof -
  have "(ms - ms mod 1000) div 1000 = ms div (1000 :: u64)"
  proof (rule word_uint_eqI)
    have "uint (ms mod 1000) \<le> uint ms" by (simp add: uint_mod zmod_le_nonneg_dividend)
    then have "uint (ms - ms mod 1000) = uint ms - uint ms mod 1000"
      by (simp add: uint_sub_if' uint_mod word_le_def)
    then show "uint ((ms - ms mod 1000) div 1000) = uint (ms div 1000)"
      by (simp add: uint_div minus_mod_eq_mult_div)
  qed
  then show ?thesis by (simp add: format_expiration_time_def)
qed

lemma reencode: "lsa_wire_encode ll (lsa_seconds l) = lsa_wire_encode ll l"
  by (cases l) (simp_all add: adjacency_wire_encode_def name_wire_encode_def coordinate_wire_encode_def
      write_lsa_header_def format_seconds)

lemma lsa_back:
  assumes wire: "wire_ok (lw_wire ll)" and "lsa_ok ll l" and ms: "expiration_ms l < 253402300800000"
  shows "lsa_wire_decode ll (lsa_type_of l) (lsa_wire_encode ll l) = Inr (lsa_seconds l)"
proof (cases l)
  case (Adjacency al)
  have "tlv_run (lw_wire ll) LsaTlv (adjacency_step ll)
      (concat (map (\<lambda>a. wl_write_tlv (lw_wire ll) TLV_ADJACENCY (adjacent_value ll a)) (al_adjacencies al))) [] = Inr (al_adjacencies al)"
    by (rule items_back [OF wire])
      (use assms(2) Adjacency adjacent_back [OF wire] in \<open>auto simp: adjacency_step_def list_all_iff\<close>)
  then show ?thesis
    using Adjacency wire ms by (simp add: adjacency_wire_decode_def adjacency_wire_encode_def header_back)
next
  case (Name nl)
  have "tlv_run (lw_wire ll) LsaTlv (prefix_step ll)
      (concat (map (\<lambda>p. wl_write_tlv (lw_wire ll) TLV_PREFIX_INFO (prefix_info_value ll p)) (nl_prefixes nl))) [] = Inr (nl_prefixes nl)"
    by (rule items_back [OF wire])
      (use assms(2) Name prefix_info_back [OF wire] in \<open>auto simp: prefix_step_def list_all_iff\<close>)
  then show ?thesis
    using Name wire ms by (simp add: name_wire_decode_def name_wire_encode_def header_back)
next
  case (Coordinate cl)
  have "tlv_run (lw_wire ll) LsaTlv (angle_step ll)
      (concat (map (\<lambda>a. wl_write_tlv (lw_wire ll) TLV_HYPERBOLIC_ANGLE (to_be 8 (lw_bits ll a))) (cl_angles cl))) [] = Inr (cl_angles cl)"
    by (rule items_back [OF wire])
      (use assms(2) Coordinate in \<open>auto simp: angle_step_def list_all_iff\<close>)
  then show ?thesis
    using Coordinate wire ms assms(2) write_tlv_not_Nil [OF wire]
    by (simp add: coordinate_wire_decode_def coordinate_wire_encode_def header_back write_double_def [abs_def])
qed

lemma lsa_other_type:
  "wire_ok (lw_wire ll) \<Longrightarrow> t \<noteq> lsa_type_of l \<Longrightarrow> \<exists>want got. lsa_wire_decode ll t (lsa_wire_encode ll l) = Inl (LsaWrongType want got)"
  by (cases l; cases t)
    (auto simp: adjacency_wire_decode_def name_wire_decode_def coordinate_wire_decode_def
      adjacency_wire_encode_def name_wire_encode_def coordinate_wire_encode_def expect_wrong lsa_types)

text \<open>
  (C33) A link-state advertisement survives flooding: any LSA whose costs are doubles, whose face URIs are UTF-8
  and which expires before the year 10000 decodes to itself with the expiration time cut to whole
  seconds, which is the fixed point: the decoded LSA encodes to the same bytes. Decoded as
  another kind of LSA it is refused for its type.
\<close>

theorem lsa_roundtrip:
  assumes "wire_ok (lw_wire ll)" and "lsa_ok ll l" and "expiration_ms l < 253402300800000"
  shows "lsa_wire_decode ll (lsa_type_of l) (lsa_wire_encode ll l) = Inr (lsa_seconds l)
    \<and> lsa_wire_encode ll (lsa_seconds l) = lsa_wire_encode ll l
    \<and> (\<forall>t. t \<noteq> lsa_type_of l \<longrightarrow>
         (\<exists>want got. lsa_wire_decode ll t (lsa_wire_encode ll l) = Inl (LsaWrongType want got)))"
  using lsa_back [OF assms] reencode lsa_other_type [OF assms(1)] by blast

text \<open>A link of cost 10 expiring on 26 March 2020 at 04:13:34 and a half.\<close>

definition example_lsa_lib :: "u8 list lsa_lib" where
  "example_lsa_lib = \<lparr>lw_wire = bytes_lib, lw_bits = (\<lambda>c. if c = 10 then 0x4024000000000000 else 0),
     lw_value = (\<lambda>b. if b = 0x4024000000000000 then 10 else 0)\<rparr>"

definition example_lsa :: "u64 \<Rightarrow> u8 list lsa" where
  "example_lsa ms = Adjacency \<lparr>al_origin_router = [1], al_seq_no = 12, al_expiration_ms = ms,
     al_adjacencies = [\<lparr>adj_name = [2], adj_face_uri = ''udp://10.0.0.1'', adj_link_cost = 10\<rparr>]\<rparr>"

lemma lsa_roundtrip_witness:
  "lsa_wire_decode example_lsa_lib AdjacencyType (lsa_wire_encode example_lsa_lib (example_lsa 1585196014500)) =
     Inr (example_lsa 1585196014000)"
proof -
  have "wire_ok (lw_wire example_lsa_lib)"
    using unary_lib_ok [of Some "\<lambda>n. n"] by (simp add: example_lsa_lib_def bytes_lib_def)
  moreover have "utf8_valid (ascii ''udp://10.0.0.1'')" by code_simp
  then have "lsa_ok example_lsa_lib (example_lsa 1585196014500)"
    by (simp add: example_lsa_def adjacent_ok_def is_double_def example_lsa_lib_def)
  ultimately show ?thesis using lsa_roundtrip [of example_lsa_lib "example_lsa 1585196014500"]
    by (simp add: example_lsa_def)
qed

end
