(* ===== verification/Nlsr_Hello.thy ===== *)
theory Nlsr_Hello
  imports Nlsr_Lsdb
begin

text \<open>
  Neighbour liveness in NLSR (\<open>hello.rs\<close>): the state of each configured neighbour, what an answered or an
  unanswered hello does to it, and the adjacency LSA the router then builds and installs. A round of
  hellos to one neighbour is its answers in order. The loops of different neighbours run in parallel; the
  first part takes their results one at a time, the last lets their steps interleave.
\<close>

datatype neighbor_state = NeighborActive | NeighborInactive

record neighbor_entry =
  nb_state :: neighbor_state
  nb_face_uri :: string
  nb_link_cost :: cost

record 'n hello_neighbor_config =
  hn_name :: 'n
  hn_face_uri :: string
  hn_link_cost :: cost

record 'n hello =
  hl_states :: "('n \<times> neighbor_entry) list"
  hl_adj_seq :: u64
  hl_refresh_ms :: u64
  hl_snapshots :: "('n \<times> neighbor_state) list list"
  hl_lsdb :: "'n lsdb"

text \<open>The channel starts with the snapshot of the configured neighbours; \<open>hl_snapshots\<close> has what it was sent, newest first.\<close>

definition hello_new :: "'n hello_neighbor_config list \<Rightarrow> u64 \<Rightarrow> 'n lsdb \<Rightarrow> 'n hello" where
  "hello_new neighbors refresh_ms db =
     \<lparr>hl_states = fold (\<lambda>n. hm_insert (hn_name n)
          \<lparr>nb_state = NeighborInactive, nb_face_uri = hn_face_uri n, nb_link_cost = hn_link_cost n\<rparr>) neighbors [],
      hl_adj_seq = 1, hl_refresh_ms = refresh_ms,
      hl_snapshots = [map (\<lambda>n. (hn_name n, NeighborInactive)) neighbors], hl_lsdb = db\<rparr>"

definition active_adjacencies :: "('n \<times> neighbor_entry) list \<Rightarrow> 'n adjacent list" where
  "active_adjacencies states =
     map (\<lambda>(name, e). \<lparr>adj_name = name, adj_face_uri = nb_face_uri e, adj_link_cost = nb_link_cost e\<rparr>)
       (filter (\<lambda>(_, e). nb_state e = NeighborActive) states)"

definition rebuild_and_install_adj_lsa :: "u64 \<Rightarrow> nat \<Rightarrow> 'n hello \<Rightarrow> 'n hello" where
  "rebuild_and_install_adj_lsa now_sys now h =
     (let adjacencies = active_adjacencies (hl_states h);
          seq = hl_adj_seq h;
          h = h\<lparr>hl_adj_seq := seq + 1\<rparr>;
          (_, _, db) = build_own_adj_lsa now_sys now adjacencies seq (hl_refresh_ms h) (hl_lsdb h)
      in h\<lparr>hl_lsdb := db\<rparr>)"

definition publish_snapshot :: "'n hello \<Rightarrow> 'n hello" where
  "publish_snapshot h = h\<lparr>hl_snapshots := map (\<lambda>(name, e). (name, nb_state e)) (hl_states h) # hl_snapshots h\<rparr>"

definition on_hello_data :: "u64 \<Rightarrow> nat \<Rightarrow> 'n \<Rightarrow> 'n hello \<Rightarrow> 'n hello" where
  "on_hello_data now_sys now neighbor h =
     (case map_of (hl_states h) neighbor of
        None \<Rightarrow> h
      | Some e \<Rightarrow>
          let h = h\<lparr>hl_states := hm_insert neighbor (e\<lparr>nb_state := NeighborActive\<rparr>) (hl_states h)\<rparr>
          in if nb_state e \<noteq> NeighborActive then publish_snapshot (rebuild_and_install_adj_lsa now_sys now h) else h)"

definition on_hello_failure :: "u64 \<Rightarrow> nat \<Rightarrow> 'n \<Rightarrow> 'n hello \<Rightarrow> 'n hello" where
  "on_hello_failure now_sys now neighbor h =
     (case map_of (hl_states h) neighbor of
        None \<Rightarrow> h
      | Some e \<Rightarrow>
          let h = h\<lparr>hl_states := hm_insert neighbor (e\<lparr>nb_state := NeighborInactive\<rparr>) (hl_states h)\<rparr>
          in if nb_state e = NeighborActive then publish_snapshot (rebuild_and_install_adj_lsa now_sys now h) else h)"

text \<open>One tick for a neighbour: at most \<open>retries\<close> Interests, \<open>True\<close> for one that is answered.\<close>

fun send_hello_with_retries :: "u64 \<Rightarrow> nat \<Rightarrow> 'n \<Rightarrow> nat \<Rightarrow> bool list \<Rightarrow> 'n hello \<Rightarrow> 'n hello" where
  "send_hello_with_retries now_sys now neighbor 0 answers h = on_hello_failure now_sys now neighbor h"
| "send_hello_with_retries now_sys now neighbor (Suc retries) [] h = on_hello_failure now_sys now neighbor h"
| "send_hello_with_retries now_sys now neighbor (Suc retries) (answered # answers) h =
     (if answered then on_hello_data now_sys now neighbor h
      else send_hello_with_retries now_sys now neighbor retries answers h)"

text \<open>Whether an Interest for a hello is answered: its name is split by the parameters.\<close>

definition handle_incoming_interest ::
    "('i \<Rightarrow> u8 list list) \<Rightarrow> (u8 list \<Rightarrow> 'n option) \<Rightarrow> u8 list \<Rightarrow> u8 list \<Rightarrow> 'i \<Rightarrow> 'n hello \<Rightarrow> bool" where
  "handle_incoming_interest components decode_name nlsr info name h =
     (let comps = components name
      in if length comps < 4 then False
         else if comps ! (length comps - 2) \<noteq> info then False
         else if comps ! (length comps - 3) \<noteq> nlsr then False
         else (case decode_name (comps ! (length comps - 1)) of
             None \<Rightarrow> False
           | Some requester \<Rightarrow> map_contains requester (hl_states h)))"

section \<open>Rounds one at a time\<close>

text \<open>The results of hello rounds, and LSAs of other routers that arrive in between.\<close>

datatype 'n hello_event =
  HelloRound u64 nat 'n nat "bool list"
| ForeignLsa u64 nat "'n lsa"

fun hello_do :: "'n hello_event \<Rightarrow> 'n hello \<Rightarrow> 'n hello" where
  "hello_do (HelloRound now_sys now neighbor retries answers) h = send_hello_with_retries now_sys now neighbor retries answers h"
| "hello_do (ForeignLsa now_sys now l) h = h\<lparr>hl_lsdb := snd (snd (lsdb_install now_sys now l (hl_lsdb h)))\<rparr>"

definition hello_run :: "'n hello_event list \<Rightarrow> 'n hello \<Rightarrow> 'n hello" where
  "hello_run evs h = fold hello_do evs h"

definition answered :: "nat \<Rightarrow> bool list \<Rightarrow> bool" where
  "answered retries answers \<longleftrightarrow> list_ex (\<lambda>a. a) (take retries answers)"

text \<open>Whether the last round to a neighbour was answered.\<close>

definition heard :: "'n hello_event list \<Rightarrow> 'n \<Rightarrow> bool" where
  "heard evs n = fold (\<lambda>ev b. case ev of HelloRound _ _ m retries answers \<Rightarrow> (if m = n then answered retries answers else b) | _ \<Rightarrow> b) evs False"

definition installed_adjacencies :: "'n lsdb \<Rightarrow> 'n adjacent list" where
  "installed_adjacencies db = (case lsdb_lookup (db_own_router db) AdjacencyType db of Some (Adjacency a) \<Rightarrow> al_adjacencies a | _ \<Rightarrow> [])"

fun event_ok :: "u64 \<Rightarrow> 'n \<Rightarrow> 'n hello_event \<Rightarrow> bool" where
  "event_ok refresh own (HelloRound now_sys _ _ _ _) \<longleftrightarrow> now_sys < now_sys + refresh"
| "event_ok refresh own (ForeignLsa _ _ l) \<longleftrightarrow> lsa_key l \<noteq> (own, AdjacencyType)"

definition set_state :: "bool \<Rightarrow> 'n \<Rightarrow> ('n \<times> neighbor_entry) list \<Rightarrow> ('n \<times> neighbor_entry) list" where
  "set_state b n states =
     (case map_of states n of
        None \<Rightarrow> states
      | Some e \<Rightarrow> hm_insert n (e\<lparr>nb_state := (if b then NeighborActive else NeighborInactive)\<rparr>) states)"

lemma insert_same: "map_of m k = Some v \<Longrightarrow> hm_insert k v m = m"
  by (induction m) (auto simp: hm_insert_def)

text \<open>A round sets the state of its neighbour, and rebuilds the LSA when the state changed.\<close>

lemma round_eq:
  "send_hello_with_retries now_sys now n retries answers h =
     (let h' = h\<lparr>hl_states := set_state (answered retries answers) n (hl_states h)\<rparr>
      in if hl_states h' = hl_states h then h else publish_snapshot (rebuild_and_install_adj_lsa now_sys now h'))"
proof -
  let ?set = "\<lambda>b. let h' = h\<lparr>hl_states := set_state b n (hl_states h)\<rparr>
      in if hl_states h' = hl_states h then h else publish_snapshot (rebuild_and_install_adj_lsa now_sys now h')"
  have changed: "hm_insert n (e\<lparr>nb_state := s\<rparr>) (hl_states h) = hl_states h \<longleftrightarrow> nb_state e = s"
    if "map_of (hl_states h) n = Some e" for e s
  proof
    assume "nb_state e = s"
    then have "e\<lparr>nb_state := s\<rparr> = e" by simp
    then show "hm_insert n (e\<lparr>nb_state := s\<rparr>) (hl_states h) = hl_states h" using insert_same [OF that] by simp
  next
    assume "hm_insert n (e\<lparr>nb_state := s\<rparr>) (hl_states h) = hl_states h"
    then have "map_of (hl_states h) n = Some (e\<lparr>nb_state := s\<rparr>)"
      by (metis hm_insert_def update_conv' fun_upd_same)
    then show "nb_state e = s" using that by (cases e) simp
  qed
  have data: "on_hello_data now_sys now n h = ?set True"
    by (auto simp: on_hello_data_def set_state_def Let_def changed split: option.split)
  have failure: "on_hello_failure now_sys now n h = ?set False"
    by (auto simp: on_hello_failure_def set_state_def Let_def changed split: option.split)
      (metis neighbor_state.exhaust)+
  show ?thesis
  proof (induction retries arbitrary: answers)
    case 0
    then show ?case using failure by (simp add: answered_def)
  next
    case (Suc retries)
    show ?case
    proof (cases answers)
      case Nil
      then show ?thesis using failure by (simp add: answered_def)
    next
      case (Cons a rest)
      then show ?thesis using Suc.IH [of rest] data by (cases a) (simp_all add: answered_def)
    qed
  qed
qed

definition lsa_tracks :: "nat \<Rightarrow> 'n \<Rightarrow> 'n hello \<Rightarrow> bool" where
  "lsa_tracks m own h \<longleftrightarrow> hl_adj_seq h = of_nat (m + 1)
     \<and> (case lsdb_lookup own AdjacencyType (hl_lsdb h) of
          None \<Rightarrow> m = 0 \<and> active_adjacencies (hl_states h) = []
        | Some l \<Rightarrow> (\<exists>a. l = Adjacency a \<and> al_seq_no a = of_nat m \<and> al_adjacencies a = active_adjacencies (hl_states h)))"

definition hello_inv :: "nat \<Rightarrow> u64 \<Rightarrow> 'n \<Rightarrow> 'n hello \<Rightarrow> bool" where
  "hello_inv k refresh own h \<longleftrightarrow> lsdb_ok (hl_lsdb h) \<and> db_own_router (hl_lsdb h) = own \<and> hl_refresh_ms h = refresh
     \<and> (\<exists>m\<le>k. lsa_tracks m own h)"

lemma lsa_tracks_cong:
  "hl_adj_seq h' = hl_adj_seq h \<Longrightarrow> hl_states h' = hl_states h \<Longrightarrow>
     lsdb_lookup own AdjacencyType (hl_lsdb h') = lsdb_lookup own AdjacencyType (hl_lsdb h) \<Longrightarrow> lsa_tracks m own h' = lsa_tracks m own h"
  unfolding lsa_tracks_def by (simp only:)

lemma install_lookup:
  assumes "lsdb_ok db" and "lsdb_install now_sys now lsa db = (r, evs, db')"
  shows "lsdb_lookup n t db' = (if (n, t) = lsa_key lsa \<and> r = Newer then Some lsa else lsdb_lookup n t db)"
  using install_store(1) [OF assms, of "(n, t)"] by (simp add: lsdb_lookup_def)

lemma rebuild_tracks:
  assumes inv: "hello_inv k refresh own h" and "Suc (Suc k) < 2 ^ 64" and "now_sys < now_sys + refresh"
  shows "hello_inv (Suc k) refresh own (publish_snapshot (rebuild_and_install_adj_lsa now_sys now (h\<lparr>hl_states := states\<rparr>)))"
proof -
  obtain m where m: "m \<le> k" "lsa_tracks m own h" using inv by (auto simp: hello_inv_def)
  let ?l = "\<lparr>al_origin_router = own, al_seq_no = of_nat (m + 1), al_expiration_ms = now_sys + refresh,
    al_adjacencies = active_adjacencies states\<rparr>"
  obtain r evs db' where i: "lsdb_install now_sys now (Adjacency ?l) (hl_lsdb h) = (r, evs, db')"
    by (cases "lsdb_install now_sys now (Adjacency ?l) (hl_lsdb h)") auto
  have ok: "lsdb_ok (hl_lsdb h)" "db_own_router (hl_lsdb h) = own" using inv by (simp_all add: hello_inv_def)
  have key: "lsa_key (Adjacency ?l) = (own, AdjacencyType)" by (simp add: lsa_key_def)
  have seq: "hl_adj_seq h = of_nat (m + 1)" using m(2) by (simp add: lsa_tracks_def)
  have less: "(of_nat m :: u64) < of_nat (m + 1)"
    using m(1) assms(2) by (simp add: word_less_nat_alt unsigned_of_nat take_bit_nat_eq_self del: of_nat_add of_nat_Suc)
  have newer: "r = Newer"
  proof (cases "map_of (db_store (hl_lsdb h)) (own, AdjacencyType)")
    case None
    then show ?thesis using i assms(3) unfolding lsdb_install_def key by (auto simp: Let_def not_le split: if_splits)
  next
    case (Some e)
    then have "seq_no (le_lsa e) = of_nat m" using m(2) by (auto simp: lsa_tracks_def lsdb_lookup_def)
    then have "seq_no (le_lsa e) < seq_no (Adjacency ?l)" using less by (simp del: of_nat_add of_nat_Suc)
    then show ?thesis using i assms(3) Some unfolding lsdb_install_def key by (auto simp: Let_def not_le split: if_splits)
  qed
  note new = install_store(2,3) [OF ok(1) i] install_lookup [OF ok(1) i, of own AdjacencyType]
  have look: "lsdb_lookup own AdjacencyType db' = Some (Adjacency ?l)"
    using new(3) newer by (simp only: key) simp
  have result: "publish_snapshot (rebuild_and_install_adj_lsa now_sys now (h\<lparr>hl_states := states\<rparr>)) =
      publish_snapshot (h\<lparr>hl_states := states, hl_adj_seq := of_nat (m + 1) + 1, hl_lsdb := db'\<rparr>)"
    using inv i by (simp add: rebuild_and_install_adj_lsa_def build_own_adj_lsa_def Let_def seq ok(2) hello_inv_def)
  have "lsa_tracks (Suc m) own (publish_snapshot (h\<lparr>hl_states := states, hl_adj_seq := of_nat (m + 1) + 1, hl_lsdb := db'\<rparr>))"
    unfolding lsa_tracks_def publish_snapshot_def by (simp add: look)
  then show ?thesis
    using inv m(1) new(1,2) ok(2) unfolding result
    by (auto simp: hello_inv_def publish_snapshot_def intro!: exI [of _ "Suc m"])
qed

lemma hello_inv_do:
  assumes inv: "hello_inv k refresh own h" and "Suc (Suc k) < 2 ^ 64" and "event_ok refresh own ev"
  shows "hello_inv (Suc k) refresh own (hello_do ev h)"
proof -
  have later: "hello_inv (Suc k) refresh own h" using inv by (auto simp: hello_inv_def intro: le_SucI)
  show ?thesis
  proof (cases ev)
    case (HelloRound now_sys now n retries answers)
    then show ?thesis
      using later rebuild_tracks [OF inv assms(2), of now_sys now] assms(3)
      by (simp add: round_eq Let_def)
  next
    case (ForeignLsa now_sys now l)
    obtain r evs db' where i: "lsdb_install now_sys now l (hl_lsdb h) = (r, evs, db')"
      by (cases "lsdb_install now_sys now l (hl_lsdb h)") auto
    have ok: "lsdb_ok (hl_lsdb h)" using inv by (simp add: hello_inv_def)
    have "lsdb_lookup own AdjacencyType db' = lsdb_lookup own AdjacencyType (hl_lsdb h)"
      using install_lookup [OF ok i, of own AdjacencyType] assms(3) ForeignLsa by auto
    then show ?thesis
      using later install_store(2,3) [OF ok i] lsa_tracks_cong [of "h\<lparr>hl_lsdb := db'\<rparr>" h own]
      by (simp add: ForeignLsa i hello_inv_def)
  qed
qed

lemma heard_snoc:
  "heard (evs @ [ev]) n = (case ev of HelloRound _ _ m retries answers \<Rightarrow> (if m = n then answered retries answers else heard evs n) | _ \<Rightarrow> heard evs n)"
  by (cases ev) (simp_all add: heard_def)

definition states_heard :: "('n \<Rightarrow> bool) \<Rightarrow> ('n \<times> neighbor_entry) list \<Rightarrow> bool" where
  "states_heard b states \<longleftrightarrow>
     (\<forall>n e. map_of states n = Some e \<longrightarrow> nb_state e = (if b n then NeighborActive else NeighborInactive))"

lemma rebuild_states [simp]:
  "hl_states (publish_snapshot (rebuild_and_install_adj_lsa now_sys now h)) = hl_states h"
  by (simp add: publish_snapshot_def rebuild_and_install_adj_lsa_def Let_def case_prod_unfold)

lemma states_heard_do:
  assumes "states_heard (heard evs) (hl_states h)"
  shows "states_heard (heard (evs @ [ev])) (hl_states (hello_do ev h))"
proof (cases ev)
  case (HelloRound now_sys now n retries answers)
  have "hl_states (hello_do ev h) = set_state (answered retries answers) n (hl_states h)"
    by (auto simp: HelloRound round_eq Let_def)
  then show ?thesis
    using assms by (auto simp: states_heard_def heard_snoc HelloRound set_state_def hm_insert_def update_conv' split: option.splits)
qed (use assms in \<open>simp add: states_heard_def heard_snoc\<close>)


text \<open>
  Two neighbours: the first answers its second Interest, the second its first; another router's LSA
  arrives; then the first misses three hellos.
\<close>

definition two_neighbors :: "nat hello_neighbor_config list" where
  "two_neighbors = [\<lparr>hn_name = 1, hn_face_uri = ''udp4://a'', hn_link_cost = 10\<rparr>, \<lparr>hn_name = 2, hn_face_uri = ''udp4://b'', hn_link_cost = 25\<rparr>]"

definition some_rounds :: "nat hello_event list" where
  "some_rounds =
     [HelloRound 1000 0 1 3 [False, True], HelloRound 1005 5 2 3 [True],
      ForeignLsa 1010 10 (Adjacency \<lparr>al_origin_router = 1, al_seq_no = 7, al_expiration_ms = 9000, al_adjacencies = []\<rparr>),
      HelloRound 2000 1000 1 3 [False, False, False, True]]"

lemma some_rounds_run:
  "map adj_name (installed_adjacencies (hl_lsdb (hello_run (take 2 some_rounds) (hello_new two_neighbors 60 (lsdb_new 0))))) = [1, 2]"
  "map adj_name (installed_adjacencies (hl_lsdb (hello_run some_rounds (hello_new two_neighbors 60 (lsdb_new 0))))) = [2]"
  by code_simp+


section \<open>An adjacency LSA that ages out\<close>

text \<open>
  A round rebuilds the LSA only when the state changes. So a neighbour that keeps answering never
  renews it: once the database has aged it out, hellos that are answered do not bring it back.
\<close>

lemma answered_rounds_change_nothing:
  assumes "list_all (\<lambda>ev. case ev of
      HelloRound _ _ n retries answers \<Rightarrow> answered retries answers \<and> map_option nb_state (map_of (hl_states h) n) = Some NeighborActive
    | _ \<Rightarrow> False) evs"
  shows "hello_run evs h = h"
  using assms
proof (induction evs)
  case (Cons ev evs)
  then obtain now_sys now n retries answers e where ev: "ev = HelloRound now_sys now n retries answers"
    and e: "answered retries answers" "map_of (hl_states h) n = Some e" "nb_state e = NeighborActive"
    by (auto split: hello_event.splits)
  have "e\<lparr>nb_state := NeighborActive\<rparr> = e" using e(3) by simp
  then have "hello_do ev h = h" using e by (simp add: ev round_eq set_state_def insert_same)
  then show ?case using Cons by (simp add: hello_run_def)
qed (simp add: hello_run_def)

definition age_out :: "nat \<Rightarrow> 'n hello \<Rightarrow> 'n hello" where
  "age_out now h = h\<lparr>hl_lsdb := snd (age_out_tick now (hl_lsdb h))\<rparr>"

lemma stable_neighbor_lsa_ages_out:
  "let h = hello_run [HelloRound 1000 0 1 3 [True]] (hello_new two_neighbors 60 (lsdb_new 0));
       h' = hello_run [HelloRound 1070 70 1 3 [True]] (age_out 60 h)
   in map adj_name (installed_adjacencies (hl_lsdb h)) = [1]
      \<and> map adj_name (active_adjacencies (hl_states h')) = [1] \<and> installed_adjacencies (hl_lsdb h') = []"
  by code_simp

section \<open>Rounds that interleave\<close>

text \<open>
  The loops of two neighbours are two tasks. What a result does is five steps that lock the states,
  the counter and the database one after the other.
\<close>

datatype 'n hello_task =
  Marking 'n bool
| Collecting
| Numbering "'n adjacent list"
| Installing "'n adjacent list" u64
| Publishing
| Finished

fun task_step :: "u64 \<Rightarrow> nat \<Rightarrow> 'n hello_task \<Rightarrow> 'n hello \<Rightarrow> 'n hello_task \<times> 'n hello" where
  "task_step now_sys now (Marking n b) h =
     (let h' = h\<lparr>hl_states := set_state b n (hl_states h)\<rparr>
      in (if hl_states h' = hl_states h then Finished else Collecting, h'))"
| "task_step now_sys now Collecting h = (Numbering (active_adjacencies (hl_states h)), h)"
| "task_step now_sys now (Numbering adjacencies) h = (Installing adjacencies (hl_adj_seq h), h\<lparr>hl_adj_seq := hl_adj_seq h + 1\<rparr>)"
| "task_step now_sys now (Installing adjacencies seq) h =
     (Publishing, h\<lparr>hl_lsdb := snd (snd (build_own_adj_lsa now_sys now adjacencies seq (hl_refresh_ms h) (hl_lsdb h)))\<rparr>)"
| "task_step now_sys now Publishing h = (Finished, publish_snapshot h)"
| "task_step now_sys now Finished h = (Finished, h)"

text \<open>A schedule says which of the tasks takes the next step.\<close>

definition tasks_run :: "u64 \<Rightarrow> nat \<Rightarrow> nat list \<Rightarrow> 'n hello_task list \<times> 'n hello \<Rightarrow> 'n hello_task list \<times> 'n hello" where
  "tasks_run now_sys now schedule s = fold (\<lambda>i (tasks, h).
     if i < length tasks then (let (t, h') = task_step now_sys now (tasks ! i) h in (tasks[i := t], h')) else (tasks, h)) schedule s"

text \<open>A task that is not interrupted does what a round does.\<close>

lemma uninterrupted_task_is_round:
  "tasks_run now_sys now (replicate 5 0) ([Marking n (answered retries answers)], h) =
     ([Finished], send_hello_with_retries now_sys now n retries answers h)"
proof (cases "set_state (answered retries answers) n (hl_states h) = hl_states h")
  case True
  then have "h\<lparr>hl_states := set_state (answered retries answers) n (hl_states h)\<rparr> = h" by (cases h) simp
  then show ?thesis using True by (simp add: tasks_run_def eval_nat_numeral round_eq Let_def)
next
  case False
  then show ?thesis
    by (simp add: tasks_run_def eval_nat_numeral round_eq Let_def rebuild_and_install_adj_lsa_def case_prod_unfold)
qed

text \<open>
  Two that interleave need not: the first collects before the second marks its neighbour, but takes the
  higher sequence number. Both neighbours are active, and the LSA that stays names only one.
\<close>

lemma interleaved_rounds_lose_a_neighbor:
  "let (tasks, h) = tasks_run 1000 0 [0, 0, 1, 1, 1, 1, 1, 0, 0, 0]
         ([Marking 1 True, Marking 2 True], hello_new two_neighbors 60 (lsdb_new 0))
   in tasks = [Finished, Finished] \<and> map adj_name (active_adjacencies (hl_states h)) = [1, 2]
      \<and> map adj_name (installed_adjacencies (hl_lsdb h)) = [1]"
  by code_simp

end
