(* ===== verification/Nsf_Messages.thy ===== *)
theory Nsf_Messages
  imports Tlv
begin

text \<open>
  The four messages of the service framework and their wire format (\<open>ndnsf-rs/src/messages.rs\<close>):
  request, acknowledgement, selection and response, with the proof hash of a compact selection.
  Strings are their UTF-8 bytes. The URI of a name and SHA-256 are packages outside the repository.
\<close>

definition REQUEST_MSG :: u64 where "REQUEST_MSG = 128"
definition RESPONSE_MSG :: u64 where "RESPONSE_MSG = 129"
definition ACK_MSG :: u64 where "ACK_MSG = 130"
definition SELECTION_MSG :: u64 where "SELECTION_MSG = 131"
definition F_PAYLOAD :: u64 where "F_PAYLOAD = 151"
definition F_STATUS :: u64 where "F_STATUS = 152"
definition F_ERROR_INFO :: u64 where "F_ERROR_INFO = 153"
definition F_REQUEST_ID :: u64 where "F_REQUEST_ID = 154"
definition F_STRATEGY :: u64 where "F_STRATEGY = 155"
definition F_PROVIDER_NAME :: u64 where "F_PROVIDER_NAME = 158"
definition F_TARGET_IDENTITY :: u64 where "F_TARGET_IDENTITY = 161"
definition F_USER_TOKEN :: u64 where "F_USER_TOKEN = 170"
definition F_PROVIDER_TOKEN :: u64 where "F_PROVIDER_TOKEN = 171"
definition F_ASSIGNMENT_PAYLOAD :: u64 where "F_ASSIGNMENT_PAYLOAD = 184"
definition F_REQUEST_MODE :: u64 where "F_REQUEST_MODE = 189"
definition F_SELECTION_PROVIDER_ENTRY :: u64 where "F_SELECTION_PROVIDER_ENTRY = 0xF503"
definition F_ATTEMPT :: u64 where "F_ATTEMPT = 0xF626"

lemmas nsf_types = REQUEST_MSG_def RESPONSE_MSG_def ACK_MSG_def SELECTION_MSG_def F_PAYLOAD_def
  F_STATUS_def F_ERROR_INFO_def F_REQUEST_ID_def F_STRATEGY_def F_PROVIDER_NAME_def F_TARGET_IDENTITY_def
  F_USER_TOKEN_def F_PROVIDER_TOKEN_def F_ASSIGNMENT_PAYLOAD_def F_REQUEST_MODE_def
  F_SELECTION_PROVIDER_ENTRY_def F_ATTEMPT_def

record 'n uri_lib =
  ul_to_string :: "'n \<Rightarrow> u8 list"
  ul_parse :: "u8 list \<Rightarrow> 'n option"
  ul_sha256 :: "u8 list \<Rightarrow> u8 list"

definition uri_ok :: "'n uri_lib \<Rightarrow> bool" where
  "uri_ok ul \<longleftrightarrow> (\<forall>n. ul_parse ul (ul_to_string ul n) = Some n \<and> utf8_valid (ul_to_string ul n)
     \<and> ul_to_string ul n \<noteq> [])"

section \<open>The messages\<close>

datatype strategy = FirstResponding | RandomSelection | AllSelected

fun strategy_to_u8 :: "strategy \<Rightarrow> u8" where
  "strategy_to_u8 FirstResponding = 0"
| "strategy_to_u8 RandomSelection = 1"
| "strategy_to_u8 AllSelected = 2"

definition strategy_from_u8 :: "u8 \<Rightarrow> strategy" where
  "strategy_from_u8 v = (if v = 1 then RandomSelection else if v = 2 then AllSelected else FirstResponding)"

datatype request_mode = NormalMode | TargetedMode | TargetedBootstrap

fun request_mode_to_u8 :: "request_mode \<Rightarrow> u8" where
  "request_mode_to_u8 NormalMode = 0"
| "request_mode_to_u8 TargetedMode = 1"
| "request_mode_to_u8 TargetedBootstrap = 2"

definition request_mode_from_u8 :: "u8 \<Rightarrow> request_mode" where
  "request_mode_from_u8 v = (if v = 1 then TargetedMode else if v = 2 then TargetedBootstrap else NormalMode)"

datatype msg_error = MsgWrongType | MsgMalformed

record 'n request_message =
  rm_request_id :: "u8 list"
  rm_user_token :: "u8 list"
  rm_payload :: "u8 list"
  rm_strategy :: strategy
  rm_request_mode :: request_mode
  rm_target_provider :: "'n option"
  rm_provider_token :: "u8 list"

record ack_message =
  am_status :: bool
  am_error_info :: "u8 list"
  am_user_token :: "u8 list"
  am_provider_token :: "u8 list"
  am_payload :: "u8 list"

record 'n selection_entry =
  se_provider_name :: 'n
  se_provider_token_hash :: "u8 list"
  se_assignment_payload :: "u8 list"

record 'n selection_message =
  sm_provider_token :: "u8 list"
  sm_request_id :: "u8 list"
  sm_provider_entries :: "'n selection_entry list"
  sm_attempt :: u64

record response_message =
  rs_status :: bool
  rs_error_info :: "u8 list"
  rs_payload :: "u8 list"

definition default_request :: "'n request_message" where
  "default_request = \<lparr>rm_request_id = [], rm_user_token = [], rm_payload = [], rm_strategy = FirstResponding,
     rm_request_mode = NormalMode, rm_target_provider = None, rm_provider_token = []\<rparr>"

definition default_ack :: ack_message where
  "default_ack = \<lparr>am_status = False, am_error_info = [], am_user_token = [], am_provider_token = [],
     am_payload = []\<rparr>"

definition default_selection :: "'n selection_message" where
  "default_selection = \<lparr>sm_provider_token = [], sm_request_id = [], sm_provider_entries = [], sm_attempt = 1\<rparr>"

definition default_response :: response_message where
  "default_response = \<lparr>rs_status = False, rs_error_info = [], rs_payload = []\<rparr>"

definition negative_ack :: "u8 list \<Rightarrow> u8 list \<Rightarrow> ack_message" where
  "negative_ack reason user_token =
     default_ack\<lparr>am_status := False, am_error_info := reason, am_user_token := user_token\<rparr>"

definition QUEUE_FULL :: "u8 list" where "QUEUE_FULL = ascii ''QUEUE_FULL''"

section \<open>The proof hash\<close>

definition hex_upper :: "u8 \<Rightarrow> u8 list" where
  "hex_upper b = ascii [''0123456789ABCDEF'' ! unat (drop_bit 4 b), ''0123456789ABCDEF'' ! unat (b AND 0x0f)]"

definition selection_token_proof_hash :: "'n uri_lib \<Rightarrow> 'n \<Rightarrow> 'n \<Rightarrow> 'n \<Rightarrow> u8 list \<Rightarrow> u8 list" where
  "selection_token_proof_hash ul requester provider service provider_token =
     (if provider_token = [] then []
      else concat (map hex_upper (ul_sha256 ul
        (ascii ''SELECTION'' @ ul_to_string ul requester @ ul_to_string ul provider
          @ ul_to_string ul service @ provider_token))))"

section \<open>Fields\<close>

definition put_str :: "'n wire_lib \<Rightarrow> u64 \<Rightarrow> u8 list \<Rightarrow> u8 list" where
  "put_str lib typ s = (if s \<noteq> [] then wl_write_tlv lib typ s else [])"

definition put_bool :: "'n wire_lib \<Rightarrow> u64 \<Rightarrow> bool \<Rightarrow> u8 list" where
  "put_bool lib typ v = wl_write_tlv lib typ [if v then 1 else 0]"

definition put_u8_tlv :: "'n wire_lib \<Rightarrow> u64 \<Rightarrow> u8 \<Rightarrow> u8 list" where
  "put_u8_tlv lib typ v = wl_write_tlv lib typ [v]"

definition put_name :: "'n wire_lib \<Rightarrow> u64 \<Rightarrow> 'n \<Rightarrow> u8 list" where
  "put_name lib typ name = wl_write_tlv lib typ (wl_name_to_tlv lib name)"

definition put_nonneg :: "'n wire_lib \<Rightarrow> u64 \<Rightarrow> u64 \<Rightarrow> u8 list" where
  "put_nonneg lib typ v = wl_write_tlv lib typ (encode_nni v)"

definition as_nonneg :: "u8 list \<Rightarrow> u64" where
  "as_nonneg b =
     (if b = [] \<or> 8 < length b then 0 else foldl (\<lambda>acc x. push_bit 8 acc OR ucast x) 0 b)"

definition as_bool :: "u8 list \<Rightarrow> bool" where
  "as_bool val = ((case val of [] \<Rightarrow> 0 | b # _ \<Rightarrow> b) \<noteq> 0)"

definition as_u8 :: "u8 list \<Rightarrow> u8" where
  "as_u8 val = (case val of [] \<Rightarrow> 0 | b # _ \<Rightarrow> b)"

definition as_str :: "u8 list \<Rightarrow> msg_error + u8 list" where
  "as_str b = (if utf8_valid b then Inr b else Inl MsgMalformed)"

definition as_name :: "'n wire_lib \<Rightarrow> u8 list \<Rightarrow> msg_error + 'n" where
  "as_name lib b =
     (case wl_read_tlv lib b of
        None \<Rightarrow> Inl MsgMalformed
      | Some (typ, inner, _) \<Rightarrow>
          if typ \<noteq> TLV_NAME then Inl MsgMalformed
          else or_err (wl_name_decode lib inner) MsgMalformed)"

definition open_envelope :: "'n wire_lib \<Rightarrow> u8 list \<Rightarrow> u64 \<Rightarrow> msg_error + (u64 \<times> u8 list) list" where
  "open_envelope lib bytes expected =
     (case wl_read_tlv lib bytes of
        None \<Rightarrow> Inl MsgMalformed
      | Some (typ, body, _) \<Rightarrow>
          if typ \<noteq> expected then Inl MsgWrongType
          else tlv_run lib MsgMalformed (\<lambda>t v fs. Inr (fs @ [(t, v)])) body [])"

text \<open>\<open>for (typ, val) in fields { ... ? }\<close>\<close>

fun fields_fold :: "(u64 \<Rightarrow> u8 list \<Rightarrow> 'm \<Rightarrow> 'e + 'm) \<Rightarrow> (u64 \<times> u8 list) list \<Rightarrow> 'm \<Rightarrow> 'e + 'm" where
  "fields_fold step [] m = Inr m"
| "fields_fold step ((typ, val) # fs) m = and_then (step typ val m) (fields_fold step fs)"

section \<open>Encoders and decoders\<close>

definition request_encode :: "'n wire_lib \<Rightarrow> 'n request_message \<Rightarrow> u8 list" where
  "request_encode lib m = wl_write_tlv lib REQUEST_MSG
     (put_str lib F_REQUEST_ID (rm_request_id m)
      @ put_str lib F_USER_TOKEN (rm_user_token m)
      @ put_str lib F_PAYLOAD (rm_payload m)
      @ put_u8_tlv lib F_STRATEGY (strategy_to_u8 (rm_strategy m))
      @ put_u8_tlv lib F_REQUEST_MODE (request_mode_to_u8 (rm_request_mode m))
      @ (case rm_target_provider m of Some tp \<Rightarrow> put_name lib F_TARGET_IDENTITY tp | None \<Rightarrow> [])
      @ put_str lib F_PROVIDER_TOKEN (rm_provider_token m))"

definition request_step :: "'n wire_lib \<Rightarrow> u64 \<Rightarrow> u8 list \<Rightarrow> 'n request_message \<Rightarrow> msg_error + 'n request_message" where
  "request_step lib typ val m =
     (if typ = F_REQUEST_ID then and_then (as_str val) (\<lambda>s. Inr (m\<lparr>rm_request_id := s\<rparr>))
      else if typ = F_USER_TOKEN then and_then (as_str val) (\<lambda>s. Inr (m\<lparr>rm_user_token := s\<rparr>))
      else if typ = F_PAYLOAD then Inr (m\<lparr>rm_payload := val\<rparr>)
      else if typ = F_STRATEGY then Inr (m\<lparr>rm_strategy := strategy_from_u8 (as_u8 val)\<rparr>)
      else if typ = F_REQUEST_MODE then Inr (m\<lparr>rm_request_mode := request_mode_from_u8 (as_u8 val)\<rparr>)
      else if typ = F_TARGET_IDENTITY then and_then (as_name lib val) (\<lambda>n. Inr (m\<lparr>rm_target_provider := Some n\<rparr>))
      else if typ = F_PROVIDER_TOKEN then and_then (as_str val) (\<lambda>s. Inr (m\<lparr>rm_provider_token := s\<rparr>))
      else Inr m)"

definition request_decode :: "'n wire_lib \<Rightarrow> u8 list \<Rightarrow> msg_error + 'n request_message" where
  "request_decode lib bytes =
     and_then (open_envelope lib bytes REQUEST_MSG) (\<lambda>fs. fields_fold (request_step lib) fs default_request)"

definition ack_encode :: "'n wire_lib \<Rightarrow> ack_message \<Rightarrow> u8 list" where
  "ack_encode lib m = wl_write_tlv lib ACK_MSG
     (put_bool lib F_STATUS (am_status m)
      @ put_str lib F_ERROR_INFO (am_error_info m)
      @ put_str lib F_USER_TOKEN (am_user_token m)
      @ put_str lib F_PROVIDER_TOKEN (am_provider_token m)
      @ put_str lib F_PAYLOAD (am_payload m))"

definition ack_step :: "u64 \<Rightarrow> u8 list \<Rightarrow> ack_message \<Rightarrow> msg_error + ack_message" where
  "ack_step typ val m =
     (if typ = F_STATUS then Inr (m\<lparr>am_status := as_bool val\<rparr>)
      else if typ = F_ERROR_INFO then and_then (as_str val) (\<lambda>s. Inr (m\<lparr>am_error_info := s\<rparr>))
      else if typ = F_USER_TOKEN then and_then (as_str val) (\<lambda>s. Inr (m\<lparr>am_user_token := s\<rparr>))
      else if typ = F_PROVIDER_TOKEN then and_then (as_str val) (\<lambda>s. Inr (m\<lparr>am_provider_token := s\<rparr>))
      else if typ = F_PAYLOAD then Inr (m\<lparr>am_payload := val\<rparr>)
      else Inr m)"

definition ack_decode :: "'n wire_lib \<Rightarrow> u8 list \<Rightarrow> msg_error + ack_message" where
  "ack_decode lib bytes =
     and_then (open_envelope lib bytes ACK_MSG) (\<lambda>fs. fields_fold ack_step fs default_ack)"

definition selection_entry_value :: "'n wire_lib \<Rightarrow> 'n uri_lib \<Rightarrow> 'n selection_entry \<Rightarrow> u8 list" where
  "selection_entry_value lib ul e =
     put_str lib F_PROVIDER_NAME (ul_to_string ul (se_provider_name e))
     @ put_str lib F_PROVIDER_TOKEN (se_provider_token_hash e)
     @ put_str lib F_ASSIGNMENT_PAYLOAD (se_assignment_payload e)"

definition selection_entry_step ::
    "'n uri_lib \<Rightarrow> u64 \<Rightarrow> u8 list \<Rightarrow> 'n option \<times> u8 list \<times> u8 list \<Rightarrow> msg_error + 'n option \<times> u8 list \<times> u8 list" where
  "selection_entry_step ul typ val = (\<lambda>(provider_name, hash, payload).
     if typ = F_PROVIDER_NAME then
       and_then (as_str val) (\<lambda>s. and_then (or_err (ul_parse ul s) MsgMalformed) (\<lambda>n. Inr (Some n, hash, payload)))
     else if typ = F_PROVIDER_TOKEN then and_then (as_str val) (\<lambda>s. Inr (provider_name, s, payload))
     else if typ = F_ASSIGNMENT_PAYLOAD then Inr (provider_name, hash, val)
     else Inr (provider_name, hash, payload))"

definition selection_entry_decode :: "'n wire_lib \<Rightarrow> 'n uri_lib \<Rightarrow> u8 list \<Rightarrow> msg_error + 'n selection_entry" where
  "selection_entry_decode lib ul body =
     and_then (tlv_run lib MsgMalformed (selection_entry_step ul) body (None, [], []))
       (\<lambda>(provider_name, hash, payload). and_then (or_err provider_name MsgMalformed) (\<lambda>provider_name.
          Inr \<lparr>se_provider_name = provider_name, se_provider_token_hash = hash,
               se_assignment_payload = payload\<rparr>))"

definition selection_encode :: "'n wire_lib \<Rightarrow> 'n uri_lib \<Rightarrow> 'n selection_message \<Rightarrow> u8 list" where
  "selection_encode lib ul m = wl_write_tlv lib SELECTION_MSG
     (put_str lib F_REQUEST_ID (sm_request_id m)
      @ put_str lib F_PROVIDER_TOKEN (sm_provider_token m)
      @ put_nonneg lib F_ATTEMPT (sm_attempt m)
      @ concat (map (\<lambda>entry. wl_write_tlv lib F_SELECTION_PROVIDER_ENTRY (selection_entry_value lib ul entry))
          (sm_provider_entries m)))"

definition selection_step ::
    "'n wire_lib \<Rightarrow> 'n uri_lib \<Rightarrow> u64 \<Rightarrow> u8 list \<Rightarrow> 'n selection_message \<Rightarrow> msg_error + 'n selection_message" where
  "selection_step lib ul typ val m =
     (if typ = F_PROVIDER_TOKEN then and_then (as_str val) (\<lambda>s. Inr (m\<lparr>sm_provider_token := s\<rparr>))
      else if typ = F_REQUEST_ID then and_then (as_str val) (\<lambda>s. Inr (m\<lparr>sm_request_id := s\<rparr>))
      else if typ = F_ATTEMPT then Inr (m\<lparr>sm_attempt := as_nonneg val\<rparr>)
      else if typ = F_SELECTION_PROVIDER_ENTRY then
        and_then (selection_entry_decode lib ul val)
          (\<lambda>e. Inr (m\<lparr>sm_provider_entries := sm_provider_entries m @ [e]\<rparr>))
      else Inr m)"

definition selection_decode :: "'n wire_lib \<Rightarrow> 'n uri_lib \<Rightarrow> u8 list \<Rightarrow> msg_error + 'n selection_message" where
  "selection_decode lib ul bytes =
     and_then (open_envelope lib bytes SELECTION_MSG)
       (\<lambda>fs. fields_fold (selection_step lib ul) fs default_selection)"

definition response_encode :: "'n wire_lib \<Rightarrow> response_message \<Rightarrow> u8 list" where
  "response_encode lib m = wl_write_tlv lib RESPONSE_MSG
     (put_bool lib F_STATUS (rs_status m)
      @ put_str lib F_ERROR_INFO (rs_error_info m)
      @ put_str lib F_PAYLOAD (rs_payload m))"

definition response_step :: "u64 \<Rightarrow> u8 list \<Rightarrow> response_message \<Rightarrow> msg_error + response_message" where
  "response_step typ val m =
     (if typ = F_STATUS then Inr (m\<lparr>rs_status := as_bool val\<rparr>)
      else if typ = F_ERROR_INFO then and_then (as_str val) (\<lambda>s. Inr (m\<lparr>rs_error_info := s\<rparr>))
      else if typ = F_PAYLOAD then Inr (m\<lparr>rs_payload := val\<rparr>)
      else Inr m)"

definition response_decode :: "'n wire_lib \<Rightarrow> u8 list \<Rightarrow> msg_error + response_message" where
  "response_decode lib bytes =
     and_then (open_envelope lib bytes RESPONSE_MSG) (\<lambda>fs. fields_fold response_step fs default_response)"

section \<open>Round trips\<close>

definition tlv_bytes :: "'n wire_lib \<Rightarrow> (u64 \<times> u8 list) list \<Rightarrow> u8 list" where
  "tlv_bytes lib fs = concat (map (\<lambda>(t, v). wl_write_tlv lib t v) fs)"

definition opt_field :: "u64 \<Rightarrow> u8 list \<Rightarrow> (u64 \<times> u8 list) list" where
  "opt_field typ s = (if s = [] then [] else [(typ, s)])"

lemma puts_fields:
  "put_str lib t s = tlv_bytes lib (opt_field t s)"
  "put_bool lib t b = tlv_bytes lib [(t, [if b then 1 else 0])]"
  "put_u8_tlv lib t u = tlv_bytes lib [(t, [u])]"
  "put_name lib t n = tlv_bytes lib [(t, wl_name_to_tlv lib n)]"
  "put_nonneg lib t v = tlv_bytes lib [(t, encode_nni v)]"
  "[] = tlv_bytes lib []"
  by (simp_all add: put_str_def put_bool_def put_u8_tlv_def put_name_def put_nonneg_def tlv_bytes_def opt_field_def)

lemma tlv_bytes_append: "tlv_bytes lib xs @ tlv_bytes lib ys = tlv_bytes lib (xs @ ys)"
  by (simp add: tlv_bytes_def)

lemma collect_fields:
  assumes "wire_ok lib"
  shows "tlv_run lib e (\<lambda>t v fs. Inr (fs @ [(t, v)])) (tlv_bytes lib fs) acc = Inr (acc @ fs)"
  by (induction fs arbitrary: acc) (auto simp: tlv_bytes_def tlv_run_write [OF assms])

lemma open_envelope_fields:
  assumes "wire_ok lib"
  shows "open_envelope lib (wl_write_tlv lib t (tlv_bytes lib fs)) t = Inr fs"
  using wire_okD(1) [OF assms, of t "tlv_bytes lib fs" "[]"] collect_fields [OF assms, of MsgMalformed fs "[]"]
  by (simp add: open_envelope_def)

lemma fields_fold_append:
  "fields_fold step (xs @ ys) m = and_then (fields_fold step xs m) (fields_fold step ys)"
  by (induction step xs m rule: fields_fold.induct) (simp_all add: and_then_def split: sum.split)

lemma as_str_back: "utf8_valid s \<Longrightarrow> as_str s = Inr s"
  by (simp add: as_str_def)

lemma as_name_back:
  assumes "wire_ok lib"
  shows "as_name lib (wl_name_to_tlv lib n) = Inr n"
proof -
  obtain v where v: "wl_name_to_tlv lib n = wl_write_tlv lib TLV_NAME v" "wl_name_decode lib v = Some n"
    using wire_ok_name [OF assms] .
  then show ?thesis using wire_okD(1) [OF assms, of TLV_NAME v "[]"] by (simp add: as_name_def)
qed

lemma modes_back:
  "strategy_from_u8 (strategy_to_u8 s) = s" "request_mode_from_u8 (request_mode_to_u8 m) = m"
  by (cases s; simp add: strategy_from_u8_def) (cases m; simp add: request_mode_from_u8_def)

lemma as_nonneg_back: "as_nonneg (encode_nni v) = v"
proof -
  have "encode_nni v \<noteq> []" and "length (encode_nni v) \<le> 8"
    using length_encode_nni [of v] by auto
  then show ?thesis by (simp add: as_nonneg_def foldl_from_be)
qed

lemma opt_field_fold:
  assumes "s \<noteq> [] \<Longrightarrow> step t s m = Inr (upd s)" and "s = [] \<Longrightarrow> upd s = m"
  shows "fields_fold step (opt_field t s) m = Inr (upd s)"
  using assms by (simp add: opt_field_def)

definition request_utf8 :: "'n request_message \<Rightarrow> bool" where
  "request_utf8 m \<longleftrightarrow> utf8_valid (rm_request_id m) \<and> utf8_valid (rm_user_token m) \<and> utf8_valid (rm_provider_token m)"

lemma request_back:
  assumes "wire_ok lib" and "request_utf8 m"
  shows "request_decode lib (request_encode lib m) = Inr m"
proof -
  have target: "(case t of Some tp \<Rightarrow> put_name lib F_TARGET_IDENTITY tp | None \<Rightarrow> []) =
      tlv_bytes lib (case t of Some tp \<Rightarrow> [(F_TARGET_IDENTITY, wl_name_to_tlv lib tp)] | None \<Rightarrow> [])" for t
    by (cases t) (simp_all add: puts_fields(4) tlv_bytes_def)
  show ?thesis
    using assms(2) as_name_back [OF assms(1)]
    unfolding request_decode_def request_encode_def target puts_fields(1-5) tlv_bytes_append
      open_envelope_fields [OF assms(1)]
    by (cases m; cases "rm_target_provider m")
      (simp_all add: fields_fold_append opt_field_def request_step_def nsf_types as_str_back modes_back
        request_utf8_def default_request_def as_u8_def)
qed

definition ack_utf8 :: "ack_message \<Rightarrow> bool" where
  "ack_utf8 m \<longleftrightarrow> utf8_valid (am_error_info m) \<and> utf8_valid (am_user_token m) \<and> utf8_valid (am_provider_token m)"

lemma ack_back:
  assumes "wire_ok lib" and "ack_utf8 m"
  shows "ack_decode lib (ack_encode lib m) = Inr m"
  using assms(2)
  unfolding ack_decode_def ack_encode_def puts_fields(1-5) tlv_bytes_append open_envelope_fields [OF assms(1)]
  by (cases m)
    (simp add: fields_fold_append opt_field_def ack_step_def nsf_types as_str_back ack_utf8_def
      default_ack_def as_bool_def)

lemma response_back:
  assumes "wire_ok lib" and "utf8_valid (rs_error_info m)"
  shows "response_decode lib (response_encode lib m) = Inr m"
  using assms(2)
  unfolding response_decode_def response_encode_def puts_fields(1-5) tlv_bytes_append
    open_envelope_fields [OF assms(1)]
  by (cases m)
    (simp add: fields_fold_append opt_field_def response_step_def nsf_types as_str_back
      default_response_def as_bool_def)

lemma selection_entry_back:
  assumes "wire_ok lib" and "uri_ok ul" and "utf8_valid (se_provider_token_hash e)"
  shows "selection_entry_decode lib ul (selection_entry_value lib ul e) = Inr e"
proof -
  have uri: "ul_parse ul (ul_to_string ul n) = Some n" "utf8_valid (ul_to_string ul n)" "ul_to_string ul n \<noteq> []" for n
    using assms(2) by (auto simp: uri_ok_def)
  show ?thesis
    using assms(3) uri
    by (cases e)
      (simp add: selection_entry_decode_def selection_entry_value_def put_str_def assms(1)
        selection_entry_step_def nsf_types as_str_back)
qed

definition selection_utf8 :: "'n selection_message \<Rightarrow> bool" where
  "selection_utf8 m \<longleftrightarrow> utf8_valid (sm_provider_token m) \<and> utf8_valid (sm_request_id m)
     \<and> (\<forall>e \<in> set (sm_provider_entries m). utf8_valid (se_provider_token_hash e))"

lemma entries_fold:
  assumes "\<And>e. e \<in> set es \<Longrightarrow> selection_entry_decode lib ul (f e) = Inr e"
  shows "fields_fold (selection_step lib ul) (map (\<lambda>e. (F_SELECTION_PROVIDER_ENTRY, f e)) es) m =
    Inr (m\<lparr>sm_provider_entries := sm_provider_entries m @ es\<rparr>)"
  using assms by (induction es arbitrary: m) (simp_all add: selection_step_def nsf_types)

lemma selection_back:
  assumes "wire_ok lib" and "uri_ok ul" and "selection_utf8 m"
  shows "selection_decode lib ul (selection_encode lib ul m) = Inr m"
proof -
  have entries: "concat (map (\<lambda>e. wl_write_tlv lib F_SELECTION_PROVIDER_ENTRY (selection_entry_value lib ul e)) es) =
      tlv_bytes lib (map (\<lambda>e. (F_SELECTION_PROVIDER_ENTRY, selection_entry_value lib ul e)) es)" for es
    by (simp add: tlv_bytes_def comp_def)
  have entry: "selection_entry_decode lib ul (selection_entry_value lib ul e) = Inr e"
    if "e \<in> set (sm_provider_entries m)" for e
    using that assms selection_entry_back by (auto simp: selection_utf8_def)
  show ?thesis
    using assms(3) entries_fold [OF entry, of "sm_provider_entries m"]
    unfolding selection_decode_def selection_encode_def puts_fields(1-5) entries tlv_bytes_append
      open_envelope_fields [OF assms(1)]
    by (cases m)
      (simp add: fields_fold_append opt_field_def selection_step_def nsf_types as_str_back
        selection_utf8_def default_selection_def as_nonneg_back)
qed

lemma wrong_envelope:
  "wire_ok lib \<Longrightarrow> t \<noteq> t' \<Longrightarrow> open_envelope lib (wl_write_tlv lib t v) t' = Inl MsgWrongType"
  using wire_okD(1) [of lib t v "[]"] by (simp add: open_envelope_def)

section \<open>Properties\<close>

text \<open>
  The four messages of the service framework survive the wire: decoding the encoding gives back
  the message, fields left out because they are empty included, provided the strings are UTF-8 (which
  Rust strings are); a message decoded as another kind is refused; and an element of an unknown
  type, in any place between the elements of a request, changes nothing.
\<close>

theorem nsf_messages_roundtrip:
  assumes "wire_ok lib" and "uri_ok ul" and "request_utf8 req" and "ack_utf8 ack"
    and "selection_utf8 sel" and "utf8_valid (rs_error_info resp)"
    and "unknown \<notin> {F_REQUEST_ID, F_USER_TOKEN, F_PAYLOAD, F_STRATEGY, F_REQUEST_MODE, F_TARGET_IDENTITY, F_PROVIDER_TOKEN}"
  shows "request_decode lib (request_encode lib req) = Inr req
    \<and> ack_decode lib (ack_encode lib ack) = Inr ack
    \<and> selection_decode lib ul (selection_encode lib ul sel) = Inr sel
    \<and> response_decode lib (response_encode lib resp) = Inr resp
    \<and> request_decode lib (ack_encode lib ack) = Inl MsgWrongType
    \<and> selection_decode lib ul (request_encode lib req) = Inl MsgWrongType
    \<and> request_decode lib (wl_write_tlv lib REQUEST_MSG (tlv_bytes lib (xs @ (unknown, v) # ys))) =
        request_decode lib (wl_write_tlv lib REQUEST_MSG (tlv_bytes lib (xs @ ys)))"
proof -
  have "request_decode lib (ack_encode lib ack) = Inl MsgWrongType"
    unfolding request_decode_def ack_encode_def
    by (subst wrong_envelope) (use assms(1) in \<open>simp_all add: nsf_types\<close>)
  moreover have "selection_decode lib ul (request_encode lib req) = Inl MsgWrongType"
    unfolding selection_decode_def request_encode_def
    by (subst wrong_envelope) (use assms(1) in \<open>simp_all add: nsf_types\<close>)
  moreover have skip: "request_step lib unknown v m = Inr m" for m
    using assms(7) by (simp add: request_step_def)
  have "fields_fold (request_step lib) ((unknown, v) # ys) = fields_fold (request_step lib) ys"
    by (simp add: fun_eq_iff skip)
  then have "request_decode lib (wl_write_tlv lib REQUEST_MSG (tlv_bytes lib (xs @ (unknown, v) # ys))) =
        request_decode lib (wl_write_tlv lib REQUEST_MSG (tlv_bytes lib (xs @ ys)))"
    by (simp only: request_decode_def open_envelope_fields [OF assms(1)] and_then_simps fields_fold_append)
  ultimately show ?thesis
    using request_back ack_back selection_back response_back assms(1-6) by blast
qed

definition names_uri :: "u8 list list uri_lib" where
  "names_uri = \<lparr>ul_to_string = names_uri_string, ul_parse = names_parse, ul_sha256 = rev\<rparr>"

lemma names_uri_ok: "uri_ok names_uri"
  by (simp add: uri_ok_def names_uri_def names_parse_back names_uri_utf8) (simp add: names_uri_string_def)

definition example_request :: "u8 list list request_message" where
  "example_request = default_request\<lparr>rm_request_id := ascii ''r1'', rm_user_token := ascii ''utok'',
     rm_payload := [1, 0xff], rm_strategy := AllSelected, rm_target_provider := Some [ascii ''p'', ascii ''a'']\<rparr>"

definition example_selection :: "u8 list list selection_message" where
  "example_selection = default_selection\<lparr>sm_request_id := ascii ''r1'', sm_attempt := 300, sm_provider_entries :=
     [\<lparr>se_provider_name = [ascii ''p'', ascii ''a''], se_provider_token_hash = ascii ''00FF'',
       se_assignment_payload = []\<rparr>]\<rparr>"

theorem nsf_messages_roundtrip_witness:
  "request_decode names_lib (request_encode names_lib example_request) = Inr example_request
    \<and> selection_decode names_lib names_uri (selection_encode names_lib names_uri example_selection) = Inr example_selection
    \<and> ack_decode names_lib (ack_encode names_lib (negative_ack QUEUE_FULL (ascii ''utok''))) =
        Inr (negative_ack QUEUE_FULL (ascii ''utok''))"
proof -
  have "request_utf8 example_request" and "ack_utf8 (negative_ack QUEUE_FULL (ascii ''utok''))"
    and "selection_utf8 example_selection" and "utf8_valid (rs_error_info default_response)"
    by code_simp+
  from nsf_messages_roundtrip [OF names_lib_ok names_uri_ok this, of 0] show ?thesis
    by (simp add: nsf_types)
qed

end
