(* ===== verification/Nsf_Tokens.thy ===== *)
theory Nsf_Tokens
  imports Nsf_Messages Maps "HOL-Library.Multiset"
begin

text \<open>
  The pending-token table of the service framework (\<open>ndnsf-rs/src/tokens.rs\<close>). The random bytes of a
  token are an argument of the operation that draws them, and the order in which the hash map is
  iterated is a parameter \<open>ord\<close>, some permutation of the entries. Times are seconds and only
  compared and subtracted with saturation, which is the subtraction of \<open>nat\<close>.
\<close>

definition token_random :: "u8 list \<Rightarrow> u8 list" where
  "token_random raw = concat (map hex_lower raw)"

record 'n coordination =
  co_requester :: 'n
  co_service :: 'n
  co_user_token :: "u8 list"

datatype token_error = UnknownToken | ExpiredToken | UnauthorizedToken

type_synonym 'n token_entries = "(u8 list \<times> 'n coordination \<times> nat) list"

record 'n token_table =
  tt_entries :: "'n token_entries"
  tt_ttl_secs :: nat

definition MAX_PENDING_TOKENS :: nat where "MAX_PENDING_TOKENS = 8192"

definition token_table_new :: "nat \<Rightarrow> 'n token_table" where
  "token_table_new ttl_secs = \<lparr>tt_entries = [], tt_ttl_secs = ttl_secs\<rparr>"

definition shed :: "('n token_entries \<Rightarrow> 'n token_entries) \<Rightarrow> 'n token_entries \<Rightarrow> 'n token_entries" where
  "shed ord entries =
     (if MAX_PENDING_TOKENS \<le> length entries
      then (case ord entries of [] \<Rightarrow> entries | (victim, _) # _ \<Rightarrow> map_delete victim entries)
      else entries)"

definition token_issue ::
    "('n token_entries \<Rightarrow> 'n token_entries) \<Rightarrow> nat \<Rightarrow> 'n \<Rightarrow> 'n \<Rightarrow> u8 list \<Rightarrow> u8 list \<Rightarrow> 'n token_table
      \<Rightarrow> u8 list \<times> 'n token_table" where
  "token_issue ord now_secs requester service user_token raw t =
     (let entries = shed ord (tt_entries t);
          token = token_random raw
      in (token, t\<lparr>tt_entries := hm_insert token
            (\<lparr>co_requester = requester, co_service = service, co_user_token = user_token\<rparr>, now_secs) entries\<rparr>))"

definition is_expired :: "'n token_table \<Rightarrow> nat \<Rightarrow> nat \<Rightarrow> bool" where
  "is_expired t created_at_secs now_secs \<longleftrightarrow> tt_ttl_secs t \<le> now_secs - created_at_secs"

definition take_token ::
    "nat \<Rightarrow> u8 list \<Rightarrow> 'n coordination \<times> nat \<Rightarrow> 'n token_table \<Rightarrow> (token_error + 'n coordination) \<times> 'n token_table" where
  "take_token now_secs token entry t =
     (let (coord, created) = entry;
          t' = t\<lparr>tt_entries := map_delete token (tt_entries t)\<rparr>
      in (if is_expired t created now_secs then Inl ExpiredToken else Inr coord, t'))"

definition token_consume ::
    "nat \<Rightarrow> u8 list \<Rightarrow> 'n \<Rightarrow> 'n token_table \<Rightarrow> (token_error + 'n coordination) \<times> 'n token_table" where
  "token_consume now_secs token requester t =
     (case map_of (tt_entries t) token of
        None \<Rightarrow> (Inl UnknownToken, t)
      | Some entry \<Rightarrow>
          if co_requester (fst entry) \<noteq> requester then (Inl UnauthorizedToken, t)
          else take_token now_secs token entry t)"

definition token_consume_where ::
    "('n token_entries \<Rightarrow> 'n token_entries) \<Rightarrow> nat \<Rightarrow> 'n \<Rightarrow> (u8 list \<Rightarrow> bool) \<Rightarrow> 'n token_table
      \<Rightarrow> (token_error + 'n coordination) \<times> 'n token_table" where
  "token_consume_where ord now_secs requester matches t =
     (case find (\<lambda>(tok, coord, _). co_requester coord = requester \<and> matches tok) (ord (tt_entries t)) of
        None \<Rightarrow> (Inl UnknownToken, t)
      | Some (token, entry) \<Rightarrow> take_token now_secs token entry t)"

definition token_cleanup_expired :: "nat \<Rightarrow> 'n token_table \<Rightarrow> nat \<times> 'n token_table" where
  "token_cleanup_expired now_secs t =
     (let ttl = tt_ttl_secs t;
          entries = filter (\<lambda>(_, _, created). now_secs - created < ttl) (tt_entries t)
      in (length (tt_entries t) - length entries, t\<lparr>tt_entries := entries\<rparr>))"

definition token_pending_count :: "'n token_table \<Rightarrow> nat" where
  "token_pending_count t = length (tt_entries t)"

section \<open>The entries as a multiset\<close>

definition ord_ok :: "('n token_entries \<Rightarrow> 'n token_entries) \<Rightarrow> bool" where
  "ord_ok ord \<longleftrightarrow> (\<forall>m. mset (ord m) = mset m)"

definition vals :: "'n token_entries \<Rightarrow> ('n coordination \<times> nat) multiset" where
  "vals m = mset (map snd m)"

lemma ord_set: "ord_ok ord \<Longrightarrow> set (ord m) = set m"
  unfolding ord_ok_def by (metis set_mset_mset)

lemma vals_simps [simp]: "vals [] = {#}" "vals (x # m) = add_mset (snd x) (vals m)"
  by (simp_all add: vals_def)

lemma subseteq_add: "A \<subseteq># B \<Longrightarrow> A \<subseteq># add_mset x B"
  by (auto simp: subseteq_mset_def intro: le_SucI)

lemma vals_insert: "vals (hm_insert k v m) \<subseteq># add_mset v (vals m)"
proof (induction m)
  case (Cons x m)
  have "add_mset (snd x) (vals (hm_insert k v m)) \<subseteq># add_mset (snd x) (add_mset v (vals m))"
    using Cons by simp
  then show ?case
    by (cases x) (auto simp: hm_insert_def subseteq_add add_mset_commute)
qed (simp add: hm_insert_def)

lemma vals_filter: "vals (filter P m) \<subseteq># vals m"
  by (induction m) (auto simp: subseteq_add)

lemma vals_delete: "vals (map_delete k m) \<subseteq># vals m"
  unfolding map_delete_def by (rule vals_filter)

lemma vals_take:
  "(k, v) \<in> set m \<Longrightarrow> add_mset v (vals (map_delete k m)) \<subseteq># vals m"
proof (induction m)
  case (Cons x m)
  show ?case
  proof (cases "x = (k, v)")
    case True
    then show ?thesis using vals_delete [of k m] by (simp add: map_delete_def)
  next
    case False
    then have "add_mset v (vals (map_delete k m)) \<subseteq># vals m" using Cons by simp
    then show ?thesis
      by (cases "fst x = k")
        (auto simp: map_delete_def case_prod_unfold subseteq_add add_mset_commute)
  qed
qed simp

section \<open>Sequences of operations\<close>

datatype 'n token_op =
  IssueOp nat 'n 'n "u8 list" "u8 list"
| ConsumeOp nat "u8 list" 'n
| ConsumeWhereOp nat 'n "u8 list \<Rightarrow> bool"
| CleanupOp nat

text \<open>
  The history of a sequence: the coordinations issued with their times, and the coordinations redeemed
  with the time and the requester of the redemption.
\<close>

record 'n token_history =
  th_issued :: "('n coordination \<times> nat) list"
  th_redeemed :: "('n coordination \<times> nat \<times> 'n) list"

fun token_step ::
    "('n token_entries \<Rightarrow> 'n token_entries) \<Rightarrow> 'n token_op \<Rightarrow> 'n token_table
      \<Rightarrow> ('n coordination \<times> nat) list \<times> ('n coordination \<times> nat \<times> 'n) list \<times> 'n token_table" where
  "token_step ord (IssueOp now requester service user_token raw) t =
     ([(\<lparr>co_requester = requester, co_service = service, co_user_token = user_token\<rparr>, now)], [],
      snd (token_issue ord now requester service user_token raw t))"
| "token_step ord (ConsumeOp now token requester) t =
     (case token_consume now token requester t of
        (Inl _, t) \<Rightarrow> ([], [], t) | (Inr coord, t) \<Rightarrow> ([], [(coord, now, requester)], t))"
| "token_step ord (ConsumeWhereOp now requester matches) t =
     (case token_consume_where ord now requester matches t of
        (Inl _, t) \<Rightarrow> ([], [], t) | (Inr coord, t) \<Rightarrow> ([], [(coord, now, requester)], t))"
| "token_step ord (CleanupOp now) t = ([], [], snd (token_cleanup_expired now t))"

fun token_run ::
    "('n token_entries \<Rightarrow> 'n token_entries) \<Rightarrow> 'n token_op list \<Rightarrow> 'n token_table
      \<Rightarrow> ('n coordination \<times> nat) list \<times> ('n coordination \<times> nat \<times> 'n) list \<times> 'n token_table" where
  "token_run ord [] t = ([], [], t)"
| "token_run ord (op # ops) t =
     (let (iss, red, t) = token_step ord op t; (isss, reds, t) = token_run ord ops t
      in (iss @ isss, red @ reds, t))"

text \<open>What the redemptions account for: the coordination, the time it was issued, within the time to live.\<close>

definition accounts :: "nat \<Rightarrow> ('n coordination \<times> nat \<times> 'n) list \<Rightarrow> ('n coordination \<times> nat) list \<Rightarrow> bool" where
  "accounts ttl reds from_issue \<longleftrightarrow>
     list_all2 (\<lambda>(coord, now, requester) (coord', created).
       coord = coord' \<and> co_requester coord = requester \<and> now - created < ttl) reds from_issue"

lemma token_issue_ttl [simp]: "tt_ttl_secs (snd (token_issue ord now r s u raw t)) = tt_ttl_secs t"
  by (simp add: token_issue_def Let_def)

lemma shed_vals: "vals (shed ord m) \<subseteq># vals m"
  using vals_delete by (auto simp: shed_def split: list.split)

lemma take_token_spec:
  assumes "(tok, entry) \<in> set (tt_entries t)" and "take_token now tok entry t = (res, t')"
  shows "add_mset entry (vals (tt_entries t')) \<subseteq># vals (tt_entries t) \<and> tt_ttl_secs t' = tt_ttl_secs t
    \<and> length (tt_entries t') \<le> length (tt_entries t)
    \<and> (case res of Inl e \<Rightarrow> e = ExpiredToken | Inr coord \<Rightarrow> coord = fst entry \<and> now - snd entry < tt_ttl_secs t)"
  using vals_take [OF assms(1)] assms(2)
  by (cases entry) (auto simp: take_token_def Let_def is_expired_def map_delete_def split: if_splits)

lemma find_mem: "find P xs = Some x \<Longrightarrow> x \<in> set xs \<and> P x"
  by (induction xs) (auto split: if_splits)

lemma consume_spec:
  assumes "token_consume now tok requester t = (res, t')
      \<or> ord_ok ord \<and> token_consume_where ord now requester matches t = (res, t')"
  shows "tt_ttl_secs t' = tt_ttl_secs t \<and> length (tt_entries t') \<le> length (tt_entries t)
    \<and> (case res of
         Inl _ \<Rightarrow> vals (tt_entries t') \<subseteq># vals (tt_entries t)
       | Inr coord \<Rightarrow> \<exists>created. add_mset (coord, created) (vals (tt_entries t')) \<subseteq># vals (tt_entries t)
           \<and> co_requester coord = requester \<and> now - created < tt_ttl_secs t)"
proof -
  have "res = Inl UnknownToken \<and> t' = t \<or> res = Inl UnauthorizedToken \<and> t' = t
      \<or> (\<exists>tok entry. (tok, entry) \<in> set (tt_entries t) \<and> co_requester (fst entry) = requester
          \<and> take_token now tok entry t = (res, t'))"
    using assms
  proof
    assume "token_consume now tok requester t = (res, t')"
    then show ?thesis
      by (auto simp: token_consume_def split: option.splits if_splits dest: map_of_SomeD)
  next
    assume "ord_ok ord \<and> token_consume_where ord now requester matches t = (res, t')"
    then show ?thesis
      using ord_set [of ord "tt_entries t"]
      by (fastforce simp: token_consume_where_def split: option.splits dest: find_mem)
  qed
  then show ?thesis
  proof (elim disjE exE conjE)
    fix tok entry
    assume "(tok, entry) \<in> set (tt_entries t)" and "take_token now tok entry t = (res, t')"
      and r: "co_requester (fst entry) = requester"
    from take_token_spec [OF this(1,2)] r show ?thesis
      by (cases entry) (auto split: sum.splits dest: subset_mset.order_trans [rotated] simp: subseteq_add
          intro: subset_mset.order_trans [OF subseteq_add [OF subset_mset.order_refl]])
  qed auto
qed

lemma accounts_one:
  assumes "add_mset (coord, created) v' \<subseteq># v" and "now - created < ttl"
  shows "\<exists>cs. accounts ttl [(coord, now, co_requester coord)] cs \<and> mset cs + v' \<subseteq># v"
  using assms by (intro exI [of _ "[(coord, created)]"]) (simp add: accounts_def)

lemma accounts_none: "accounts ttl [] cs \<longleftrightarrow> cs = []"
  by (simp add: accounts_def)

lemma step_accounts:
  assumes "ord_ok ord" and "token_step ord op t = (iss, reds, t')"
  shows "tt_ttl_secs t' = tt_ttl_secs t
    \<and> (\<exists>cs. accounts (tt_ttl_secs t) reds cs \<and> mset cs + vals (tt_entries t') \<subseteq># mset iss + vals (tt_entries t))"
proof (cases op)
  case (IssueOp now requester service user_token raw)
  let ?coord = "\<lparr>co_requester = requester, co_service = service, co_user_token = user_token\<rparr>"
  have "vals (tt_entries t') \<subseteq># add_mset (?coord, now) (vals (shed ord (tt_entries t)))"
    using assms(2) vals_insert by (auto simp: IssueOp token_issue_def Let_def)
  also have "\<dots> \<subseteq># add_mset (?coord, now) (vals (tt_entries t))" using shed_vals by simp
  finally show ?thesis using assms(2) by (auto simp: IssueOp accounts_def)
next
  case (ConsumeOp now tok requester)
  obtain res t'' where res: "token_consume now tok requester t = (res, t'')" by fastforce
  show ?thesis
    using consume_spec [of now tok requester t res t''] res assms(2)
    by (cases res) (auto simp: ConsumeOp accounts_none intro!: accounts_one)
next
  case (ConsumeWhereOp now requester matches)
  obtain res t'' where res: "token_consume_where ord now requester matches t = (res, t'')" by fastforce
  show ?thesis
    using consume_spec [of now "[]" requester t res t'' ord matches] res assms
    by (cases res) (auto simp: ConsumeWhereOp accounts_none intro!: accounts_one)
next
  case (CleanupOp now)
  then show ?thesis
    using assms(2) vals_filter by (auto simp: token_cleanup_expired_def Let_def accounts_def)
qed

lemma run_accounts:
  assumes "ord_ok ord" and "token_run ord ops t = (iss, reds, t')"
  shows "tt_ttl_secs t' = tt_ttl_secs t
    \<and> (\<exists>cs. accounts (tt_ttl_secs t) reds cs \<and> mset cs + vals (tt_entries t') \<subseteq># mset iss + vals (tt_entries t))"
  using assms(2)
proof (induction ops arbitrary: t iss reds)
  case Nil
  then show ?case by (auto simp: accounts_def)
next
  case (Cons op ops)
  obtain iss1 reds1 t1 where s: "token_step ord op t = (iss1, reds1, t1)" using prod_cases3 by blast
  obtain iss2 reds2 where r: "token_run ord ops t1 = (iss2, reds2, t')" "iss = iss1 @ iss2" "reds = reds1 @ reds2"
    using Cons.prems s by (auto split: prod.splits)
  obtain cs1 where 1: "accounts (tt_ttl_secs t) reds1 cs1" "tt_ttl_secs t1 = tt_ttl_secs t"
    "mset cs1 + vals (tt_entries t1) \<subseteq># mset iss1 + vals (tt_entries t)"
    using step_accounts [OF assms(1) s] by blast
  obtain cs2 where 2: "accounts (tt_ttl_secs t) reds2 cs2" "tt_ttl_secs t' = tt_ttl_secs t"
    "mset cs2 + vals (tt_entries t') \<subseteq># mset iss2 + vals (tt_entries t1)"
    using Cons.IH [OF r(1)] 1(2) by auto
  have "mset (cs1 @ cs2) + vals (tt_entries t') \<subseteq># mset cs1 + (mset iss2 + vals (tt_entries t1))"
    using 2(3) by (simp add: union_assoc)
  also have "\<dots> = mset iss2 + (mset cs1 + vals (tt_entries t1))" by (simp add: ac_simps)
  also have "\<dots> \<subseteq># mset iss + vals (tt_entries t)"
    using subset_mset.add_left_mono [OF 1(3), of "mset iss2"] by (simp add: r(2) ac_simps)
  finally show ?case
    using 1(1) 2(1,2) list_all2_appendI unfolding r(3) accounts_def by blast
qed

text \<open>The table never exceeds its cap.\<close>

lemma consume_length:
  "length (tt_entries (snd (token_consume now tok requester t))) \<le> length (tt_entries t)"
  "length (tt_entries (snd (token_consume_where ord now requester matches t))) \<le> length (tt_entries t)"
  by (auto simp: token_consume_def token_consume_where_def take_token_def Let_def map_delete_def
      split: option.split prod.split)

lemma step_bound:
  assumes "ord_ok ord" and "token_step ord op t = (iss, reds, t')" and "length (tt_entries t) \<le> MAX_PENDING_TOKENS"
  shows "length (tt_entries t') \<le> MAX_PENDING_TOKENS"
proof (cases op)
  case (IssueOp now requester service user_token raw)
  have "length (shed ord (tt_entries t)) < MAX_PENDING_TOKENS"
  proof (cases "MAX_PENDING_TOKENS \<le> length (tt_entries t)")
    case True
    then have "length (ord (tt_entries t)) \<noteq> 0"
      using assms(1) unfolding ord_ok_def by (metis MAX_PENDING_TOKENS_def le_zero_eq size_mset zero_neq_numeral)
    then obtain k v m where m: "ord (tt_entries t) = (k, v) # m" by (cases "ord (tt_entries t)") auto
    then have "(k, v) \<in> set (tt_entries t)" using ord_set [OF assms(1), of "tt_entries t"] by auto
    then have "length (map_delete k (tt_entries t)) < length (tt_entries t)"
      unfolding map_delete_def by (intro length_filter_less) auto
    then show ?thesis using m True assms(3) by (simp add: shed_def)
  qed (simp add: shed_def)
  moreover have "length (hm_insert k v m) \<le> Suc (length m)" for k v and m :: "'a token_entries"
    by (induction m) (auto simp: hm_insert_def)
  ultimately have "length (hm_insert k v (shed ord (tt_entries t))) \<le> MAX_PENDING_TOKENS" for k v
    by (meson Suc_leI le_trans)
  then show ?thesis
    using assms(2) by (auto simp: IssueOp token_issue_def Let_def)
next
  case (ConsumeOp now tok requester)
  then show ?thesis
    using consume_length(1) [of now tok requester t] assms(2,3)
    by (auto split: prod.splits sum.splits)
next
  case (ConsumeWhereOp now requester matches)
  then show ?thesis
    using consume_length(2) [of ord now requester matches t] assms(2,3)
    by (auto split: prod.splits sum.splits)
next
  case (CleanupOp now)
  then show ?thesis
    using assms(2,3) by (auto simp: token_cleanup_expired_def Let_def intro: le_trans [OF length_filter_le])
qed

lemma run_bound:
  assumes "ord_ok ord" and "token_run ord ops t = (iss, reds, t')" and "length (tt_entries t) \<le> MAX_PENDING_TOKENS"
  shows "length (tt_entries t') \<le> MAX_PENDING_TOKENS"
  using assms(2,3)
proof (induction ops arbitrary: t iss reds)
  case (Cons op ops)
  obtain iss1 reds1 t1 where s: "token_step ord op t = (iss1, reds1, t1)" using prod_cases3 by blast
  then have "length (tt_entries t1) \<le> MAX_PENDING_TOKENS" using step_bound [OF assms(1)] Cons.prems by blast
  then show ?case using Cons.IH Cons.prems s by (auto split: prod.splits)
qed simp

text \<open>Operations that leave a pending token alone: none redeems it for its requester or outlives it.\<close>

fun spares :: "u8 list \<Rightarrow> 'n \<Rightarrow> nat \<Rightarrow> nat \<Rightarrow> 'n token_op \<Rightarrow> bool" where
  "spares tok requester created ttl (IssueOp now r s u raw) \<longleftrightarrow> token_random raw \<noteq> tok"
| "spares tok requester created ttl (ConsumeOp now tok' r) \<longleftrightarrow> tok' \<noteq> tok \<or> r \<noteq> requester"
| "spares tok requester created ttl (ConsumeWhereOp now r matches) \<longleftrightarrow> r \<noteq> requester \<or> \<not> matches tok"
| "spares tok requester created ttl (CleanupOp now) \<longleftrightarrow> now - created < ttl"

lemma take_token_other:
  assumes "map_of (tt_entries t) tok = Some entry" and "tok' \<noteq> tok"
  shows "map_of (tt_entries (snd (take_token now tok' e t))) tok = Some entry"
  using assms by (auto simp: take_token_def Let_def map_of_delete split: prod.split)

lemma take_token_hm: "hm_ok (tt_entries t) \<Longrightarrow> hm_ok (tt_entries (snd (take_token now tok e t)))"
  by (auto simp: take_token_def Let_def hm_ok_delete split: prod.split)

lemma issue_length:
  "hm_ok m \<Longrightarrow> length (hm_insert k v m) \<le> Suc (length m)"
  using hm.size_insert [of m k v] by simp

lemma step_spares:
  assumes ord: "ord_ok ord" and hm: "hm_ok (tt_entries t)"
    and tok: "map_of (tt_entries t) tok = Some (coord, created)"
    and op: "spares tok (co_requester coord) created (tt_ttl_secs t) op"
    and room: "length (tt_entries t) < MAX_PENDING_TOKENS"
    and run: "token_step ord op t = (iss, reds, t')"
  shows "hm_ok (tt_entries t') \<and> map_of (tt_entries t') tok = Some (coord, created)
    \<and> tt_ttl_secs t' = tt_ttl_secs t \<and> length (tt_entries t') \<le> Suc (length (tt_entries t))"
proof (cases op)
  case (IssueOp now requester service user_token raw)
  then show ?thesis
    using op run tok room hm.ok_insert [OF hm] hm.get_insert [OF hm] issue_length [OF hm]
    by (auto simp: token_issue_def Let_def shed_def)
next
  case (ConsumeOp now tok' r)
  have "t' = snd (token_consume now tok' r t)" using run by (auto simp: ConsumeOp split: prod.splits sum.splits)
  moreover have "snd (token_consume now tok' r t) = t
      \<or> tok' \<noteq> tok \<and> (\<exists>e. snd (token_consume now tok' r t) = snd (take_token now tok' e t))"
    using op tok by (auto simp: ConsumeOp token_consume_def split: option.split)
  ultimately show ?thesis
    using hm tok take_token_other [OF tok] take_token_hm [OF hm] consume_length(1) [of now tok' r t]
    by (auto simp: take_token_def Let_def split: prod.splits)
next
  case (ConsumeWhereOp now r matches)
  have "t' = snd (token_consume_where ord now r matches t)"
    using run by (auto simp: ConsumeWhereOp split: prod.splits sum.splits)
  moreover have "snd (token_consume_where ord now r matches t) = t
      \<or> (\<exists>tok' e. tok' \<noteq> tok \<and> snd (token_consume_where ord now r matches t) = snd (take_token now tok' e t))"
  proof (cases "find (\<lambda>(tok, coord, _). co_requester coord = r \<and> matches tok) (ord (tt_entries t))")
    case (Some found)
    obtain tok' e where f: "found = (tok', e)" by (cases found)
    then have mem: "(tok', e) \<in> set (tt_entries t)" and "co_requester (fst e) = r \<and> matches tok'"
      using find_mem [OF Some] ord_set [OF ord] by (auto split: prod.splits)
    then have "tok' \<noteq> tok" using op tok hm.mem_iff [OF hm, of tok' e] by (auto simp: ConsumeWhereOp)
    moreover have "snd (token_consume_where ord now r matches t) = snd (take_token now tok' e t)"
      using Some f by (simp add: token_consume_where_def)
    ultimately show ?thesis by blast
  qed (simp add: token_consume_where_def)
  ultimately show ?thesis
    using hm tok take_token_other [OF tok] take_token_hm [OF hm] consume_length(2) [of ord now r matches t]
    by (auto simp: take_token_def Let_def split: prod.splits)
next
  case (CleanupOp now)
  let ?P = "\<lambda>(_, _, c). now - c < tt_ttl_secs t"
  have hm': "hm_ok (filter ?P (tt_entries t))" using hm by (auto simp: hm_ok_def distinct_map_filter)
  have "(tok, coord, created) \<in> set (filter ?P (tt_entries t))"
    using map_of_SomeD [OF tok] op by (auto simp: CleanupOp)
  then have "map_of (filter ?P (tt_entries t)) tok = Some (coord, created)" unfolding hm.mem_iff [OF hm'] .
  then show ?thesis
    using run hm' length_filter_le [of ?P "tt_entries t"]
    by (auto simp: CleanupOp token_cleanup_expired_def Let_def intro: le_SucI)
qed

lemma run_spares:
  assumes ord: "ord_ok ord" and "hm_ok (tt_entries t)"
    and "map_of (tt_entries t) tok = Some (coord, created)"
    and "\<And>op. op \<in> set ops \<Longrightarrow> spares tok (co_requester coord) created (tt_ttl_secs t) op"
    and "length (tt_entries t) + length ops \<le> MAX_PENDING_TOKENS"
    and "token_run ord ops t = (iss, reds, t')"
  shows "hm_ok (tt_entries t') \<and> map_of (tt_entries t') tok = Some (coord, created) \<and> tt_ttl_secs t' = tt_ttl_secs t"
  using assms(2-)
proof (induction ops arbitrary: t iss reds)
  case (Cons op ops)
  obtain iss1 reds1 t1 where s: "token_step ord op t = (iss1, reds1, t1)" using prod_cases3 by blast
  have "hm_ok (tt_entries t1) \<and> map_of (tt_entries t1) tok = Some (coord, created)
    \<and> tt_ttl_secs t1 = tt_ttl_secs t \<and> length (tt_entries t1) \<le> Suc (length (tt_entries t))"
    by (rule step_spares [OF ord Cons.prems(1,2) _ _ s]) (use Cons.prems in auto)
  then show ?case using Cons.IH [of t1] Cons.prems s by (auto split: prod.splits)
qed simp

lemma redeem_once:
  assumes "map_of (tt_entries t) tok = Some (coord, created)" and "now - created < tt_ttl_secs t"
  shows "\<exists>t'. token_consume now tok (co_requester coord) t = (Inr coord, t')
    \<and> (\<forall>later r. token_consume later tok r t' = (Inl UnknownToken, t'))"
  using assms by (simp add: token_consume_def take_token_def is_expired_def Let_def map_of_delete not_le)

section \<open>Properties\<close>

text \<open>
  Single use. Whatever a provider's table is asked to do, in any order, with any random bytes and any
  iteration order of its hash map: the redeemed coordinations are, counted with multiplicity, among the
  issued ones; each was redeemed by the requester it was issued to, before its time to live was over;
  and the table never holds more than 8192 pending tokens.
\<close>

theorem tokens_redeemed_at_most_once:
  assumes "ord_ok ord" and "token_run ord ops (token_table_new ttl) = (iss, reds, t)"
  shows "token_pending_count t \<le> 8192
    \<and> (\<exists>cs. mset cs \<subseteq># mset iss
        \<and> list_all2 (\<lambda>(coord, now, requester) (coord', created).
            coord = coord' \<and> co_requester coord = requester \<and> now - created < ttl) reds cs)"
proof -
  obtain cs where cs: "accounts ttl reds cs" "mset cs + vals (tt_entries t) \<subseteq># mset iss"
    using run_accounts [OF assms] by (auto simp: token_table_new_def)
  have "mset cs \<subseteq># mset iss" using cs(2) subset_mset.add_increasing2 subset_mset.dual_order.trans by fastforce
  then show ?thesis
    using cs(1) run_bound [OF assms]
    by (auto simp: accounts_def token_pending_count_def token_table_new_def MAX_PENDING_TOKENS_def)
qed

definition example_run :: "nat token_op list" where
  "example_run = [IssueOp 0 7 1 [] (replicate 16 0), ConsumeOp 3 (token_random (replicate 16 0)) 8,
     ConsumeOp 4 (token_random (replicate 16 0)) 7, ConsumeOp 5 (token_random (replicate 16 0)) 7]"

theorem tokens_redeemed_at_most_once_witness:
  "(case token_run (\<lambda>m. m) example_run (token_table_new 60) of (iss, reds, t) \<Rightarrow>
      reds = [(\<lparr>co_requester = 7, co_service = 1, co_user_token = []\<rparr>, 4, 7)]
      \<and> token_pending_count t \<le> 8192
      \<and> (\<exists>cs. mset cs \<subseteq># mset iss \<and> list_all2 (\<lambda>(coord, now, requester) (coord', created).
            coord = coord' \<and> co_requester coord = requester \<and> now - created < 60) reds cs))"
proof -
  obtain iss reds t where run: "token_run (\<lambda>m. m) example_run (token_table_new 60) = (iss, reds, t)"
    using prod_cases3 by blast
  have "fst (snd (token_run (\<lambda>m. m) example_run (token_table_new 60))) =
      [(\<lparr>co_requester = 7, co_service = 1, co_user_token = []\<rparr>, 4, 7)]"
    by code_simp
  then show ?thesis
    using tokens_redeemed_at_most_once [OF _ run] run by (simp add: ord_ok_def)
qed

text \<open>
  A token works. A token just issued stays redeemable, exactly once, for its requester: after any operations
  that do not redeem it themselves (others may try to steal it, by the plain token or by proof),
  do not draw the same random bytes, are too few to fill the table, and reap only before its time
  is over, redeeming it within the time to live returns its coordination; every later attempt, by
  anyone, is refused as unknown.
\<close>

theorem issued_token_redeems_once:
  assumes "ord_ok ord" and "hm_ok (tt_entries t0)"
    and "token_issue ord created requester service user_token raw t0 = (tok, t1)"
    and "\<And>op. op \<in> set ops \<Longrightarrow> spares tok requester created (tt_ttl_secs t0) op"
    and "length (tt_entries t0) + length ops < MAX_PENDING_TOKENS"
    and "token_run ord ops t1 = (iss, reds, t2)" and "now - created < tt_ttl_secs t0"
  shows "\<exists>t3. token_consume now tok requester t2 =
      (Inr \<lparr>co_requester = requester, co_service = service, co_user_token = user_token\<rparr>, t3)
    \<and> (\<forall>later r. token_consume later tok r t3 = (Inl UnknownToken, t3))"
proof -
  let ?coord = "\<lparr>co_requester = requester, co_service = service, co_user_token = user_token\<rparr>"
  have t1: "t1 = t0\<lparr>tt_entries := hm_insert tok (?coord, created) (tt_entries t0)\<rparr>"
    using assms(3,5) by (auto simp: token_issue_def shed_def Let_def)
  have "hm_ok (tt_entries t1)" and "map_of (tt_entries t1) tok = Some (?coord, created)"
    using hm.ok_insert [OF assms(2)] hm.get_insert [OF assms(2)] by (simp_all add: t1)
  moreover have "length (tt_entries t1) + length ops \<le> MAX_PENDING_TOKENS"
    using issue_length [OF assms(2), of tok "(?coord, created)"] assms(5) by (simp add: t1)
  ultimately have "map_of (tt_entries t2) tok = Some (?coord, created) \<and> tt_ttl_secs t2 = tt_ttl_secs t0"
    using run_spares [OF assms(1) _ _ _ _ assms(6)] assms(4) by (auto simp: t1)
  then show ?thesis using redeem_once [of t2 tok ?coord created now] assms(7) by simp
qed

theorem issued_token_redeems_once_witness:
  "\<exists>t2 t3. snd (token_issue (\<lambda>m. m) 0 (7::nat) 1 [] [1] (token_table_new 60)) = t2
    \<and> token_consume 9 (token_random [1]) 7 (snd (token_consume 8 (token_random [1]) 8 t2)) =
        (Inr \<lparr>co_requester = 7, co_service = 1, co_user_token = []\<rparr>, t3)
    \<and> token_consume 10 (token_random [1]) 7 t3 = (Inl UnknownToken, t3)"
proof -
  let ?t0 = "token_table_new 60 :: nat token_table"
  let ?t1 = "snd (token_issue (\<lambda>m. m) 0 (7::nat) 1 [] [1] ?t0)"
  have issue: "token_issue (\<lambda>m. m) 0 (7::nat) 1 [] [1] ?t0 = (token_random [1], ?t1)"
    by (simp add: token_issue_def Let_def)
  have run: "token_run (\<lambda>m. m) [ConsumeOp 8 (token_random [1]) 8] ?t1 =
      ([], [], snd (token_consume 8 (token_random [1]) 8 ?t1))"
    by code_simp
  have spared: "spares (token_random [1]) (7::nat) 0 (tt_ttl_secs ?t0) op"
    if "op \<in> set [ConsumeOp 8 (token_random [1]) 8]" for op
    using that by auto
  have "\<exists>t3. token_consume 9 (token_random [1]) 7 (snd (token_consume 8 (token_random [1]) 8 ?t1)) =
        (Inr \<lparr>co_requester = 7, co_service = 1, co_user_token = []\<rparr>, t3)
    \<and> (\<forall>later r. token_consume later (token_random [1]) r t3 = (Inl UnknownToken, t3))"
    by (rule issued_token_redeems_once [OF _ _ issue spared _ run])
      (simp_all add: ord_ok_def hm_ok_def token_table_new_def MAX_PENDING_TOKENS_def)
  then show ?thesis by blast
qed

end
