(* ===== verification/Nsf_Flow.thy ===== *)
theory Nsf_Flow
  imports Nsf_Tokens
begin

text \<open>
  The four-phase core of the service framework (\<open>ndnsf-rs/src/flow.rs\<close>): the provider's engine, the
  user's choice among the providers that answered, and the messages the user makes. The draws of the
  random generator are arguments.
\<close>

datatype flow_error = TokenRejected token_error | NotForUs

record 'n provider_engine =
  pe_tokens :: "'n token_table"

definition provider_engine_new :: "nat \<Rightarrow> 'n provider_engine" where
  "provider_engine_new ttl_secs = \<lparr>pe_tokens = token_table_new ttl_secs\<rparr>"

type_synonym 'n ord = "'n token_entries \<Rightarrow> 'n token_entries"

definition issue_token ::
    "'n ord \<Rightarrow> nat \<Rightarrow> 'n \<Rightarrow> 'n \<Rightarrow> u8 list \<Rightarrow> u8 list \<Rightarrow> 'n provider_engine \<Rightarrow> u8 list \<times> 'n provider_engine" where
  "issue_token ord now_secs requester service user_token raw pe =
     (let (token, tokens) = token_issue ord now_secs requester service user_token raw (pe_tokens pe)
      in (token, pe\<lparr>pe_tokens := tokens\<rparr>))"

definition on_request ::
    "'n ord \<Rightarrow> nat \<Rightarrow> 'n \<Rightarrow> 'n \<Rightarrow> 'n request_message \<Rightarrow> u8 list \<Rightarrow> 'n provider_engine
      \<Rightarrow> ack_message \<times> 'n provider_engine" where
  "on_request ord now_secs requester service req raw pe =
     (let (token, pe) = issue_token ord now_secs requester service (rm_user_token req) raw pe
      in (\<lparr>am_status = True, am_error_info = [], am_user_token = rm_user_token req,
           am_provider_token = token, am_payload = []\<rparr>, pe))"

definition consume_selection ::
    "nat \<Rightarrow> 'n selection_message \<Rightarrow> 'n \<Rightarrow> 'n provider_engine
      \<Rightarrow> (flow_error + 'n coordination) \<times> 'n provider_engine" where
  "consume_selection now_secs sel requester pe =
     (let (res, tokens) = token_consume now_secs (sm_provider_token sel) requester (pe_tokens pe)
      in (case res of Inl e \<Rightarrow> Inl (TokenRejected e) | Inr coord \<Rightarrow> Inr coord, pe\<lparr>pe_tokens := tokens\<rparr>))"

definition on_selection ::
    "nat \<Rightarrow> 'n selection_message \<Rightarrow> 'n \<Rightarrow> ('n coordination \<Rightarrow> u8 list) \<Rightarrow> 'n provider_engine
      \<Rightarrow> (flow_error + response_message) \<times> 'n provider_engine" where
  "on_selection now_secs sel requester handler pe =
     (let (res, pe) = consume_selection now_secs sel requester pe
      in (and_then res (\<lambda>coord.
            Inr \<lparr>rs_status = True, rs_error_info = [], rs_payload = handler coord\<rparr>), pe))"

definition consume_selection_compact ::
    "'n uri_lib \<Rightarrow> 'n ord \<Rightarrow> nat \<Rightarrow> 'n selection_message \<Rightarrow> 'n \<Rightarrow> 'n \<Rightarrow> 'n \<Rightarrow> 'n provider_engine
      \<Rightarrow> (flow_error + 'n coordination \<times> u8 list) \<times> 'n provider_engine" where
  "consume_selection_compact ul ord now_secs sel requester node service pe =
     (case find (\<lambda>e. se_provider_name e = node) (sm_provider_entries sel) of
        None \<Rightarrow> (Inl NotForUs, pe)
      | Some entry \<Rightarrow>
          if se_provider_token_hash entry = [] then (Inl (TokenRejected UnknownToken), pe)
          else
            let (res, tokens) = token_consume_where ord now_secs requester
                  (\<lambda>token. selection_token_proof_hash ul requester node service token = se_provider_token_hash entry)
                  (pe_tokens pe)
            in (case res of Inl e \<Rightarrow> Inl (TokenRejected e)
                | Inr coord \<Rightarrow> Inr (coord, se_assignment_payload entry), pe\<lparr>pe_tokens := tokens\<rparr>))"

definition pending_count :: "'n provider_engine \<Rightarrow> nat" where
  "pending_count pe = token_pending_count (pe_tokens pe)"

definition cleanup_expired :: "nat \<Rightarrow> 'n provider_engine \<Rightarrow> nat \<times> 'n provider_engine" where
  "cleanup_expired now_secs pe =
     (let (reaped, tokens) = token_cleanup_expired now_secs (pe_tokens pe)
      in (reaped, pe\<lparr>pe_tokens := tokens\<rparr>))"

section \<open>The user\<close>

text \<open>
  Rejection sampling over the successive draws; \<open>None\<close> when all of them were rejected, the loop
  of the source going on. \<open>n\<close> must not be zero.
\<close>

definition index_limit :: "u64 \<Rightarrow> u64" where
  "index_limit n = (push_bit 32 1 div n) * n"

fun uniform_index :: "u64 \<Rightarrow> u32 list \<Rightarrow> nat option" where
  "uniform_index n [] = None"
| "uniform_index n (r # draws) =
     (if (ucast r :: u64) < index_limit n then Some (unat ((ucast r :: u64) mod n))
      else uniform_index n draws)"

definition select_providers :: "strategy \<Rightarrow> u32 list \<Rightarrow> ('n \<times> ack_message) list \<Rightarrow> ('n \<times> ack_message) list option" where
  "select_providers strategy draws acks =
     (case strategy of
        FirstResponding \<Rightarrow> Some (take 1 acks)
      | AllSelected \<Rightarrow> Some acks
      | RandomSelection \<Rightarrow>
          if acks = [] then Some []
          else map_option (\<lambda>i. [acks ! i]) (uniform_index (of_nat (length acks)) draws))"

definition make_request :: "u8 list \<Rightarrow> u8 list \<Rightarrow> u8 list \<Rightarrow> 'n request_message" where
  "make_request request_id user_token payload =
     default_request\<lparr>rm_request_id := request_id, rm_user_token := user_token, rm_payload := payload\<rparr>"

definition make_selection :: "ack_message \<Rightarrow> u8 list \<Rightarrow> 'n selection_message" where
  "make_selection ack request_id =
     default_selection\<lparr>sm_provider_token := am_provider_token ack, sm_request_id := request_id\<rparr>"

definition make_compact_selection ::
    "'n uri_lib \<Rightarrow> 'n \<Rightarrow> 'n \<Rightarrow> u8 list \<Rightarrow> ('n \<times> ack_message) list \<Rightarrow> 'n selection_message" where
  "make_compact_selection ul requester service request_id selected =
     default_selection\<lparr>sm_request_id := request_id,
       sm_provider_entries := map (\<lambda>(provider, ack).
         \<lparr>se_provider_name = provider,
          se_provider_token_hash = selection_token_proof_hash ul requester provider service (am_provider_token ack),
          se_assignment_payload = []\<rparr>) selected\<rparr>"

section \<open>Uniform choice\<close>

lemma uniform_index_first:
  "uniform_index n draws =
     (case find (\<lambda>r. (ucast r :: u64) < index_limit n) draws of
        None \<Rightarrow> None | Some r \<Rightarrow> Some (unat ((ucast r :: u64) mod n)))"
  by (induction draws) simp_all

lemma wide_u32: "unat (ucast (r :: u32) :: u64) = unat r"
proof -
  have "unat r < 2 ^ 32" using unsigned_less [of r, where 'a = nat] by simp
  then show ?thesis by (simp add: unsigned_ucast_eq take_bit_nat_eq_self)
qed

lemma limit_nat:
  assumes "0 < n"
  shows "unat (index_limit n) = 2 ^ 32 div unat n * unat n"
proof -
  have one: "unat (push_bit 32 1 :: u64) = 2 ^ 32" by simp
  have "2 ^ 32 div unat n * unat n \<le> (2 :: nat) ^ 32" by (rule div_times_less_eq_dividend)
  also have "(2 :: nat) ^ 32 < 2 ^ LENGTH(64)" by simp
  finally have "2 ^ 32 div unat n * unat n < (2 :: nat) ^ LENGTH(64)" .
  then show ?thesis
    unfolding index_limit_def unat_word_ariths(2) unat_div one by (rule mod_less)
qed

text \<open>Of the draws accepted, each index is hit by exactly \<open>2^32 div n\<close>.\<close>

lemma card_residues:
  fixes n q i :: nat
  assumes "i < n"
  shows "card {r. r < q * n \<and> r mod n = i} = q"
proof -
  have "{r. r < q * n \<and> r mod n = i} = (\<lambda>j. j * n + i) ` {..<q}"
  proof (intro equalityI subsetI)
    fix r assume "r \<in> {r. r < q * n \<and> r mod n = i}"
    then have "r div n < q" and "r = r div n * n + i"
      using less_mult_imp_div_less div_mult_mod_eq [of r n] by auto
    then show "r \<in> (\<lambda>j. j * n + i) ` {..<q}" by blast
  next
    fix r assume "r \<in> (\<lambda>j. j * n + i) ` {..<q}"
    then obtain j where j: "j < q" "r = j * n + i" by auto
    then have "Suc j * n \<le> q * n" by (intro mult_right_mono) auto
    then show "r \<in> {r. r < q * n \<and> r mod n = i}" using j assms by simp
  qed
  moreover have "inj_on (\<lambda>j. j * n + i) {..<q}" using assms by (auto simp: inj_on_def)
  ultimately show ?thesis by (simp add: card_image)
qed

lemma card_draws:
  assumes "0 < n" and "i < unat n" and "unat n \<le> 2 ^ 32"
  shows "card {r :: u32. (ucast r :: u64) < index_limit n \<and> unat ((ucast r :: u64) mod n) = i} = 2 ^ 32 div unat n"
proof -
  let ?q = "2 ^ 32 div unat n"
  have "?q * unat n \<le> 2 ^ 32" by (rule div_times_less_eq_dividend)
  then have small: "unat (of_nat r :: u32) = r" if "r < ?q * unat n" for r
  proof -
    have "r < 2 ^ LENGTH(32)" using less_le_trans [OF that \<open>?q * unat n \<le> 2 ^ 32\<close>] by simp
    then show ?thesis by (simp only: unat_of_nat mod_less)
  qed
  have img: "unat ` {r :: u32. (ucast r :: u64) < index_limit n \<and> unat ((ucast r :: u64) mod n) = i}
      = {r. r < ?q * unat n \<and> r mod unat n = i}" (is "unat ` ?A = ?B")
  proof (intro equalityI subsetI)
    fix r assume r: "r \<in> ?B"
    then have "(of_nat r :: u32) \<in> ?A"
      using small by (simp add: word_less_nat_alt limit_nat [OF assms(1)] wide_u32 unat_mod)
    then show "r \<in> unat ` ?A" using small r by (metis (no_types, lifting) image_eqI mem_Collect_eq)
  qed (auto simp: word_less_nat_alt limit_nat [OF assms(1)] wide_u32 unat_mod)
  have "card ?A = card (unat ` ?A)" by (rule card_image [symmetric]) (simp add: inj_on_def word_unat_eq_iff)
  then show ?thesis unfolding img card_residues [OF assms(2)] .
qed

section \<open>Properties\<close>

text \<open>
  The user's random choice is uniform: the index drawn is always below \<open>n\<close>, it is decided by the first
  draw that is not rejected, of the accepted draws every index has exactly \<open>2^32 div n\<close>, and more
  than half of all draws are accepted. So \<open>RandomSelection\<close> selects one of the providers that
  answered, each with the same probability.
\<close>

theorem random_choice_is_uniform:
  assumes "0 < n" and "unat n \<le> 2 ^ 32" and "i < unat n"
  shows "uniform_index n draws =
      (case find (\<lambda>r. (ucast r :: u64) < index_limit n) draws of
         None \<Rightarrow> None | Some r \<Rightarrow> Some (unat ((ucast r :: u64) mod n)))
    \<and> unat ((ucast (r :: u32) :: u64) mod n) < unat n
    \<and> card {r :: u32. (ucast r :: u64) < index_limit n \<and> unat ((ucast r :: u64) mod n) = i} = 2 ^ 32 div unat n
    \<and> 2 ^ 31 < 2 ^ 32 div unat n * unat n"
proof -
  have pos: "0 < unat n" using assms(1) by (simp add: word_less_nat_alt)
  have half: "2 ^ 31 < p" if "2 ^ 32 = p + q" and "q < m" and "m \<le> p" for p q m :: nat
    using that by simp
  have "1 \<le> 2 ^ 32 div unat n" using assms(2) pos by (simp add: Suc_le_eq div_greater_zero_iff)
  then have "unat n \<le> 2 ^ 32 div unat n * unat n" using mult_le_mono1 by fastforce
  then have "2 ^ 31 < 2 ^ 32 div unat n * unat n"
    by (rule half [OF div_mult_mod_eq [symmetric] mod_less_divisor [OF pos]])
  then show ?thesis
    using uniform_index_first card_draws [OF assms(1,3,2)] pos by (simp add: unat_mod)
qed

theorem random_choice_is_uniform_witness:
  "uniform_index 3 [0xFFFFFFFF, 8] = Some 2
    \<and> card {r :: u32. (ucast r :: u64) < index_limit 3 \<and> unat ((ucast r :: u64) mod 3) = 1} = 2 ^ 32 div 3"
proof -
  have "uniform_index 3 [0xFFFFFFFF, 8] = Some 2" by code_simp
  then show ?thesis using random_choice_is_uniform [of 3 1 "[]" 0] by simp
qed

end
