(* ===== verification/Ratelimit.thy ===== *)
theory Ratelimit
  imports Maps
begin

text \<open>
  Rate limiting (\<open>ndn-ratelimit\<close>): the token bucket over the limiters of the package \<open>governor\<close>,
  the table of policies and the decision on a packet. The limiter is a parameter; names are lists
  of components.
\<close>

section \<open>The bucket (\<open>bucket.rs\<close>)\<close>

text \<open>The result of \<open>check_n\<close>: permitted, not now, or more than the burst can ever hold.\<close>

datatype check_result = CheckOk | CheckNotUntil | CheckInsufficient

record 'l limiter_lib =
  ll_direct :: "u32 \<Rightarrow> u32 \<Rightarrow> 'l"
  ll_check_n :: "nat \<Rightarrow> u32 \<Rightarrow> 'l \<Rightarrow> check_result \<times> 'l"

record bucket_spec =
  bs_interest_pps :: "u32 option"
  bs_interest_burst :: "u32 option"
  bs_data_bps :: "u64 option"
  bs_data_burst_bytes :: "u64 option"

definition spec_pps :: "u32 \<Rightarrow> u32 \<Rightarrow> bucket_spec" where
  "spec_pps rate burst = \<lparr>bs_interest_pps = Some rate, bs_interest_burst = Some burst,
     bs_data_bps = None, bs_data_burst_bytes = None\<rparr>"

definition spec_bps :: "u64 \<Rightarrow> u64 \<Rightarrow> bucket_spec" where
  "spec_bps rate burst_bytes = \<lparr>bs_interest_pps = None, bs_interest_burst = None,
     bs_data_bps = Some rate, bs_data_burst_bytes = Some burst_bytes\<rparr>"

datatype bucket_outcome = PermitBucket | DenyBucket

record 'l token_bucket =
  tb_interest_pps :: "'l option"
  tb_data_bps :: "'l option"
  tb_overflow_events :: u64

definition u32_of_u64 :: "u64 \<Rightarrow> u32 option" where
  "u32_of_u64 r = (if r \<le> 0xFFFFFFFF then Some (ucast r) else None)"

definition direct_interest :: "'l limiter_lib \<Rightarrow> u32 option \<Rightarrow> u32 option \<Rightarrow> string + 'l option" where
  "direct_interest lib pps burst =
     (case pps of
        None \<Rightarrow> Inr None
      | Some r \<Rightarrow> if r = 0 then Inl ''interest_pps must be > 0''
          else Inr (Some (ll_direct lib r (max (case burst of Some b \<Rightarrow> b | None \<Rightarrow> r) 1))))"

definition direct_data :: "'l limiter_lib \<Rightarrow> u64 option \<Rightarrow> u64 option \<Rightarrow> string + 'l option" where
  "direct_data lib bps burst =
     (case bps of
        None \<Rightarrow> Inr None
      | Some r \<Rightarrow>
          (case u32_of_u64 r of
             None \<Rightarrow> Inl ''data_bps > u32::MAX is not supported''
           | Some r32 \<Rightarrow>
               if r32 = 0 then Inl ''data_bps must be > 0''
               else (case u32_of_u64 (case burst of Some b \<Rightarrow> b | None \<Rightarrow> r) of
                   None \<Rightarrow> Inl ''data_burst_bytes > u32::MAX is not supported''
                 | Some b32 \<Rightarrow> Inr (Some (ll_direct lib r32 (max b32 1))))))"

definition from_spec :: "'l limiter_lib \<Rightarrow> bucket_spec \<Rightarrow> string + 'l token_bucket" where
  "from_spec lib spec =
     (if bs_interest_pps spec = None \<and> bs_data_bps spec = None
      then Inl ''BucketSpec must set at least one limit''
      else case direct_interest lib (bs_interest_pps spec) (bs_interest_burst spec) of
        Inl e \<Rightarrow> Inl e
      | Inr interest_pps \<Rightarrow>
          (case direct_data lib (bs_data_bps spec) (bs_data_burst_bytes spec) of
             Inl e \<Rightarrow> Inl e
           | Inr data_bps \<Rightarrow> Inr \<lparr>tb_interest_pps = interest_pps, tb_data_bps = data_bps,
               tb_overflow_events = 0\<rparr>))"

text \<open>One dimension of a bucket: no cost or no limit is not checked.\<close>

definition check_dim :: "'l limiter_lib \<Rightarrow> nat \<Rightarrow> u32 \<Rightarrow> 'l option \<Rightarrow> bool \<times> 'l option" where
  "check_dim lib now cost lim =
     (case lim of
        None \<Rightarrow> (True, None)
      | Some l \<Rightarrow>
          if cost = 0 then (True, Some l)
          else let (r, l) = ll_check_n lib now cost l in (r = CheckOk, Some l))"

definition try_consume ::
    "'l limiter_lib \<Rightarrow> nat \<Rightarrow> u32 \<Rightarrow> u32 \<Rightarrow> 'l token_bucket \<Rightarrow> bucket_outcome \<times> 'l token_bucket" where
  "try_consume lib now interest_cost data_bytes b =
     (let (ok, lim) = check_dim lib now interest_cost (tb_interest_pps b);
          b = b\<lparr>tb_interest_pps := lim\<rparr>
      in if \<not> ok then (DenyBucket, b\<lparr>tb_overflow_events := tb_overflow_events b + 1\<rparr>)
         else
           let (ok, lim) = check_dim lib now data_bytes (tb_data_bps b);
               b = b\<lparr>tb_data_bps := lim\<rparr>
           in if \<not> ok then (DenyBucket, b\<lparr>tb_overflow_events := tb_overflow_events b + 1\<rparr>)
              else (PermitBucket, b))"

section \<open>The table of policies (\<open>policy.rs\<close>)\<close>

datatype direction = Inbound | Outbound

datatype overflow = NackPacket | DropPacket | QueuePacket

record 'c rate_cell =
  rc_face :: "u64 option"
  rc_prefix :: "'c list option"
  rc_direction :: direction

record 'c rate_policy =
  rp_cell :: "'c rate_cell"
  rp_bucket :: bucket_spec
  rp_overflow :: overflow
  rp_queue_max :: "u32 option"

datatype rate_error = InvalidCell string | TableFull

definition policy_validate :: "'c rate_policy \<Rightarrow> rate_error option" where
  "policy_validate p =
     (if rp_overflow p = QueuePacket \<and> rp_queue_max p = None
      then Some (InvalidCell ''overflow = queue requires queue_max'')
      else if bs_interest_pps (rp_bucket p) = None \<and> bs_data_bps (rp_bucket p) = None
      then Some (InvalidCell ''BucketSpec must set at least one limit'')
      else None)"

record ('c, 'l) cell_entry =
  ce_policy :: "'c rate_policy"
  ce_bucket :: "'l token_bucket"

record ('c, 'l) policy_table =
  pt_cells :: "('c rate_cell \<times> ('c, 'l) cell_entry) list"
  pt_max_cells :: nat

definition policy_table_new :: "nat \<Rightarrow> ('c, 'l) policy_table" where
  "policy_table_new max_cells = \<lparr>pt_cells = [], pt_max_cells = max_cells\<rparr>"

definition policy_set ::
    "'l limiter_lib \<Rightarrow> 'c rate_policy \<Rightarrow> ('c, 'l) policy_table \<Rightarrow> rate_error option \<times> ('c, 'l) policy_table" where
  "policy_set lib policy t =
     (case policy_validate policy of
        Some e \<Rightarrow> (Some e, t)
      | None \<Rightarrow>
          (case from_spec lib (rp_bucket policy) of
             Inl e \<Rightarrow> (Some (InvalidCell e), t)
           | Inr bucket \<Rightarrow>
               if \<not> map_contains (rp_cell policy) (pt_cells t) \<and> pt_max_cells t \<le> length (pt_cells t)
               then (Some TableFull, t)
               else (None, t\<lparr>pt_cells := hm_insert (rp_cell policy)
                      \<lparr>ce_policy = policy, ce_bucket = bucket\<rparr> (pt_cells t)\<rparr>)))"

definition policy_unset :: "'c rate_cell \<Rightarrow> ('c, 'l) policy_table \<Rightarrow> ('c, 'l) policy_table" where
  "policy_unset cell t = t\<lparr>pt_cells := map_delete cell (pt_cells t)\<rparr>"

text \<open>The prefixes of a name, longest first, down to the empty one.\<close>

function prefix_chain :: "'c list \<Rightarrow> 'c list list" where
  "prefix_chain p = p # (if p = [] then [] else prefix_chain (butlast p))"
  by pat_completeness auto
termination by (relation "measure length") auto

declare prefix_chain.simps [simp del]

definition rate_matches ::
    "('c, 'l) policy_table \<Rightarrow> u64 \<Rightarrow> 'c list option \<Rightarrow> direction \<Rightarrow> 'c rate_cell list" where
  "rate_matches t face name direction =
     concat (map (\<lambda>face_key.
       filter (\<lambda>c. map_contains c (pt_cells t))
         ((case name of
             Some n \<Rightarrow> map (\<lambda>p. \<lparr>rc_face = face_key, rc_prefix = Some p, rc_direction = direction\<rparr>) (prefix_chain n)
           | None \<Rightarrow> [])
          @ [\<lparr>rc_face = face_key, rc_prefix = None, rc_direction = direction\<rparr>])) [Some face, None])"

section \<open>The decision on a packet (\<open>stage.rs\<close>)\<close>

datatype rate_decision = RatePermit | RateNack | RateDrop

datatype packet_kind = InterestPacket | DataPacket

definition packet_cost :: "packet_kind \<Rightarrow> u64 \<Rightarrow> u32 \<times> u32" where
  "packet_cost kind wire_bytes =
     (case kind of
        InterestPacket \<Rightarrow> (1, 0)
      | DataPacket \<Rightarrow> (0, case u32_of_u64 wire_bytes of Some n \<Rightarrow> n | None \<Rightarrow> 0xFFFFFFFF))"

fun overflow_decision :: "overflow \<Rightarrow> rate_decision" where
  "overflow_decision NackPacket = RateNack"
| "overflow_decision DropPacket = RateDrop"
| "overflow_decision QueuePacket = RateDrop"

text \<open>The entries are shared: charging one changes the table.\<close>

fun consult_cells ::
    "'l limiter_lib \<Rightarrow> nat \<Rightarrow> u32 \<times> u32 \<Rightarrow> 'c rate_cell list \<Rightarrow> ('c, 'l) policy_table
      \<Rightarrow> rate_decision \<times> ('c, 'l) policy_table" where
  "consult_cells lib now cost [] t = (RatePermit, t)"
| "consult_cells lib now cost (c # cs) t =
     (case map_of (pt_cells t) c of
        None \<Rightarrow> consult_cells lib now cost cs t
      | Some entry \<Rightarrow>
          let (outcome, bucket) = try_consume lib now (fst cost) (snd cost) (ce_bucket entry);
              t = t\<lparr>pt_cells := hm_insert c (entry\<lparr>ce_bucket := bucket\<rparr>) (pt_cells t)\<rparr>
          in if outcome = DenyBucket then (overflow_decision (rp_overflow (ce_policy entry)), t)
             else consult_cells lib now cost cs t)"

definition rate_consult ::
    "'l limiter_lib \<Rightarrow> nat \<Rightarrow> u64 \<Rightarrow> 'c list \<Rightarrow> packet_kind \<Rightarrow> u64 \<Rightarrow> direction \<Rightarrow> ('c, 'l) policy_table
      \<Rightarrow> rate_decision \<times> ('c, 'l) policy_table" where
  "rate_consult lib now face name kind wire_bytes direction t =
     consult_cells lib now (packet_cost kind wire_bytes) (rate_matches t face (Some name) direction) t"

section \<open>The cells that match\<close>

lemma prefix_chain_set: "set (prefix_chain n) = {p. \<exists>q. n = p @ q}"
proof (induction n rule: rev_induct)
  case Nil
  then show ?case by (auto simp: prefix_chain.simps [of "[]"])
next
  case (snoc x n)
  have "{p. \<exists>q. n @ [x] = p @ q} = insert (n @ [x]) {p. \<exists>q. n = p @ q}"
    by (auto simp: append_eq_append_conv2 append_eq_Cons_conv Cons_eq_append_conv)
  then show ?case using snoc by (simp add: prefix_chain.simps [of "n @ [x]"])
qed

lemma prefix_chain_sorted: "sorted_wrt (\<lambda>p q. length q < length p) (prefix_chain n)"
proof (induction n rule: rev_induct)
  case Nil
  then show ?case by (simp add: prefix_chain.simps [of "[]"])
next
  case (snoc x n)
  have "length q < length (n @ [x])" if "q \<in> set (prefix_chain n)" for q
    using that by (auto simp: prefix_chain_set)
  then show ?case using snoc by (simp add: prefix_chain.simps [of "n @ [x]"])
qed

text \<open>How specific a cell is: its face first, then the length of its prefix.\<close>

definition specificity :: "'c rate_cell \<Rightarrow> nat \<times> nat" where
  "specificity c = (case rc_face c of Some _ \<Rightarrow> 1 | None \<Rightarrow> 0,
     case rc_prefix c of Some p \<Rightarrow> Suc (length p) | None \<Rightarrow> 0)"

definition more_specific :: "'c rate_cell \<Rightarrow> 'c rate_cell \<Rightarrow> bool" where
  "more_specific c c' \<longleftrightarrow> fst (specificity c') < fst (specificity c)
     \<or> fst (specificity c') = fst (specificity c) \<and> snd (specificity c') < snd (specificity c)"

definition cell_row :: "u64 option \<Rightarrow> 'c list option \<Rightarrow> direction \<Rightarrow> 'c rate_cell list" where
  "cell_row face_key name direction =
     (case name of
        Some n \<Rightarrow> map (\<lambda>p. \<lparr>rc_face = face_key, rc_prefix = Some p, rc_direction = direction\<rparr>) (prefix_chain n)
      | None \<Rightarrow> [])
     @ [\<lparr>rc_face = face_key, rc_prefix = None, rc_direction = direction\<rparr>]"

lemma rate_matches_rows:
  "rate_matches t face name direction =
     filter (\<lambda>c. map_contains c (pt_cells t)) (cell_row (Some face) name direction @ cell_row None name direction)"
  by (simp add: rate_matches_def cell_row_def)

lemma cell_row_set:
  "set (cell_row fk name dir) = {c. rc_face c = fk \<and> rc_direction c = dir
     \<and> (\<forall>p. rc_prefix c = Some p \<longrightarrow> (\<exists>q. name = Some (p @ q)))}"
proof -
  have "c \<in> set (cell_row fk name dir) \<longleftrightarrow> rc_face c = fk \<and> rc_direction c = dir
     \<and> (\<forall>p. rc_prefix c = Some p \<longrightarrow> (\<exists>q. name = Some (p @ q)))" for c
    by (cases c; cases "rc_prefix c"; cases name) (auto simp: cell_row_def prefix_chain_set)
  then show ?thesis by blast
qed

lemma cell_row_sorted: "sorted_wrt more_specific (cell_row fk name dir)"
  using prefix_chain_sorted
  by (auto simp: cell_row_def sorted_wrt_append sorted_wrt_map more_specific_def specificity_def
      split: option.split elim!: sorted_wrt_mono_rel [rotated])

lemma rate_matches_sorted: "sorted_wrt more_specific (rate_matches t face name dir)"
proof -
  have "more_specific c c'" if "c \<in> set (cell_row (Some face) name dir)" and "c' \<in> set (cell_row None name dir)" for c c'
    using that by (simp add: cell_row_set more_specific_def specificity_def)
  then show ?thesis
    unfolding rate_matches_rows by (intro sorted_wrt_filter) (simp add: sorted_wrt_append cell_row_sorted)
qed

lemma sorted_distinct: "sorted_wrt R xs \<Longrightarrow> (\<And>x. \<not> R x x) \<Longrightarrow> distinct xs"
  by (induction xs) auto

lemma rate_matches_distinct: "distinct (rate_matches t face name dir)"
  by (rule sorted_distinct [OF rate_matches_sorted]) (simp add: more_specific_def)

section \<open>Charging\<close>

text \<open>The entry after one packet was charged to it, and whether it permits it.\<close>

definition charged :: "'l limiter_lib \<Rightarrow> nat \<Rightarrow> u32 \<times> u32 \<Rightarrow> ('c, 'l) cell_entry \<Rightarrow> ('c, 'l) cell_entry" where
  "charged lib now cost e = e\<lparr>ce_bucket := snd (try_consume lib now (fst cost) (snd cost) (ce_bucket e))\<rparr>"

definition permits :: "'l limiter_lib \<Rightarrow> nat \<Rightarrow> u32 \<times> u32 \<Rightarrow> ('c, 'l) cell_entry \<Rightarrow> bool" where
  "permits lib now cost e \<longleftrightarrow> fst (try_consume lib now (fst cost) (snd cost) (ce_bucket e)) = PermitBucket"

lemma consult_spec:
  assumes "hm_ok (pt_cells t)" and "distinct cs" and "\<And>c. c \<in> set cs \<Longrightarrow> map_of (pt_cells t) c \<noteq> None"
  shows "\<exists>dn rest. cs = dn @ rest
    \<and> (\<forall>c\<in>set dn. permits lib now cost (the (map_of (pt_cells t) c)))
    \<and> (case rest of
         [] \<Rightarrow> fst (consult_cells lib now cost cs t) = RatePermit
           \<and> map_of (pt_cells (snd (consult_cells lib now cost cs t))) =
               (\<lambda>c. if c \<in> set cs then map_option (charged lib now cost) (map_of (pt_cells t) c) else map_of (pt_cells t) c)
       | c' # _ \<Rightarrow> \<not> permits lib now cost (the (map_of (pt_cells t) c'))
           \<and> fst (consult_cells lib now cost cs t) =
               overflow_decision (rp_overflow (ce_policy (the (map_of (pt_cells t) c'))))
           \<and> map_of (pt_cells (snd (consult_cells lib now cost cs t))) =
               (\<lambda>c. if c \<in> set (dn @ [c']) then map_option (charged lib now cost) (map_of (pt_cells t) c)
                    else map_of (pt_cells t) c))"
  using assms
proof (induction cs arbitrary: t)
  case Nil
  then show ?case by simp
next
  case (Cons c cs)
  obtain e where e: "map_of (pt_cells t) c = Some e" using Cons.prems(3) [of c] by auto
  obtain out b where tc: "try_consume lib now (fst cost) (snd cost) (ce_bucket e) = (out, b)" by fastforce
  let ?t = "t\<lparr>pt_cells := hm_insert c (e\<lparr>ce_bucket := b\<rparr>) (pt_cells t)\<rparr>"
  have hm: "hm_ok (pt_cells ?t)" using hm.ok_insert [OF Cons.prems(1)] by simp
  have get: "map_of (pt_cells ?t) = (map_of (pt_cells t))(c \<mapsto> charged lib now cost e)"
    using hm.get_insert [OF Cons.prems(1)] tc by (simp add: charged_def)
  have perm: "permits lib now cost e \<longleftrightarrow> out \<noteq> DenyBucket" using tc by (cases out) (simp_all add: permits_def)
  show ?case
  proof (cases "out = DenyBucket")
    case True
    then have "\<not> permits lib now cost e" using perm by simp
    then show ?thesis
      using True e tc get by (intro exI [of _ "[]"] exI [of _ "c # cs"]) (auto simp: fun_eq_iff)
  next
    case False
    have run: "consult_cells lib now cost (c # cs) t = consult_cells lib now cost cs ?t"
      using False e tc by simp
    have same: "map_of (pt_cells ?t) c' = map_of (pt_cells t) c'" if "c' \<in> set cs" for c'
      using that Cons.prems(2) get by auto
    obtain dn rest where IH: "cs = dn @ rest"
      "\<forall>c\<in>set dn. permits lib now cost (the (map_of (pt_cells ?t) c))"
      "case rest of
         [] \<Rightarrow> fst (consult_cells lib now cost cs ?t) = RatePermit
           \<and> map_of (pt_cells (snd (consult_cells lib now cost cs ?t))) =
               (\<lambda>c. if c \<in> set cs then map_option (charged lib now cost) (map_of (pt_cells ?t) c) else map_of (pt_cells ?t) c)
       | c' # _ \<Rightarrow> \<not> permits lib now cost (the (map_of (pt_cells ?t) c'))
           \<and> fst (consult_cells lib now cost cs ?t) =
               overflow_decision (rp_overflow (ce_policy (the (map_of (pt_cells ?t) c'))))
           \<and> map_of (pt_cells (snd (consult_cells lib now cost cs ?t))) =
               (\<lambda>c. if c \<in> set (dn @ [c']) then map_option (charged lib now cost) (map_of (pt_cells ?t) c)
                    else map_of (pt_cells ?t) c)"
      using Cons.IH [OF hm, of ] Cons.prems(2,3) same by (auto 0 4)
    have "\<forall>c'\<in>set (c # dn). permits lib now cost (the (map_of (pt_cells t) c'))"
      using IH(1,2) same e perm False by auto
    moreover have "c \<notin> set cs" using Cons.prems(2) by simp
    ultimately show ?thesis
      using IH e get same unfolding run
      by (intro exI [of _ "c # dn"] exI [of _ rest]) (cases rest; auto simp: fun_eq_iff)
  qed
qed

section \<open>Reachable tables\<close>

inductive rate_reach :: "'l limiter_lib \<Rightarrow> nat \<Rightarrow> ('c, 'l) policy_table \<Rightarrow> bool" for lib max_cells where
  rate_new: "rate_reach lib max_cells (policy_table_new max_cells)"
| rate_set: "rate_reach lib max_cells t \<Longrightarrow> rate_reach lib max_cells (snd (policy_set lib p t))"
| rate_unset: "rate_reach lib max_cells t \<Longrightarrow> rate_reach lib max_cells (policy_unset c t)"
| rate_packet: "rate_reach lib max_cells t \<Longrightarrow>
    rate_reach lib max_cells (snd (rate_consult lib now face name kind wire_bytes dir t))"

lemma consult_table:
  assumes "hm_ok (pt_cells t)"
  shows "hm_ok (pt_cells (snd (consult_cells lib now cost cs t)))
    \<and> length (pt_cells (snd (consult_cells lib now cost cs t))) = length (pt_cells t)
    \<and> pt_max_cells (snd (consult_cells lib now cost cs t)) = pt_max_cells t"
  using assms
proof (induction cs arbitrary: t)
  case (Cons c cs)
  show ?case
    using Cons.IH Cons.prems hm.ok_insert [OF Cons.prems] hm.size_insert [OF Cons.prems]
    by (auto simp: Let_def split: option.split prod.split)
qed simp

lemma rate_reach_ok:
  "rate_reach lib max_cells t \<Longrightarrow> hm_ok (pt_cells t) \<and> length (pt_cells t) \<le> max_cells \<and> pt_max_cells t = max_cells"
proof (induction rule: rate_reach.induct)
  case rate_new
  then show ?case by (simp add: policy_table_new_def hm_ok_def)
next
  case (rate_set t p)
  then have hm: "hm_ok (pt_cells t)" by simp
  show ?case
    using rate_set hm.ok_insert [OF hm] hm.size_insert [OF hm]
    by (auto simp: policy_set_def map_contains_def split: option.split sum.split)
next
  case (rate_unset t c)
  moreover have "length (map_delete c (pt_cells t)) \<le> length (pt_cells t)" by (simp add: map_delete_def)
  ultimately show ?case by (auto simp: policy_unset_def hm_ok_delete)
next
  case (rate_packet t now face name kind wire_bytes dir)
  then show ?case using consult_table [of t] by (simp add: rate_consult_def)
qed

lemma takeWhile_split:
  assumes "\<forall>x\<in>set dn. P x" and "case rest of [] \<Rightarrow> True | c # _ \<Rightarrow> \<not> P c"
  shows "takeWhile P (dn @ rest) = dn \<and> dropWhile P (dn @ rest) = rest"
  using assms by (cases rest) (simp_all add: takeWhile_append2 dropWhile_append2)

section \<open>Properties\<close>

text \<open>
  The rate limiter decides as documented, in every table reachable by installing, removing and
  charging policies. The cells consulted are exactly those installed for the direction whose face is
  this one or any and whose prefix is one of the name or any, more specific ones first (the face
  before the prefix). The packet is permitted exactly when each of them, charged once, permits it; else
  the first that does not decides what happens, and the cells after it are not charged. Nothing else
  changes, and the table never has more cells than its bound.
\<close>

theorem rate_limit_decides:
  assumes "rate_reach lib max_cells t"
    and "cells = rate_matches t face (Some name) dir" and "cost = packet_cost kind wire_bytes"
    and "P = (\<lambda>c. permits lib now cost (the (map_of (pt_cells t) c)))"
    and "rate_consult lib now face name kind wire_bytes dir t = (decision, t')"
  shows "(c \<in> set cells \<longleftrightarrow> map_contains c (pt_cells t) \<and> rc_direction c = dir
        \<and> (rc_face c = None \<or> rc_face c = Some face)
        \<and> (rc_prefix c = None \<or> (\<exists>p q. rc_prefix c = Some p \<and> name = p @ q)))
    \<and> sorted_wrt more_specific cells
    \<and> decision = (case dropWhile P cells of
          [] \<Rightarrow> RatePermit
        | first # _ \<Rightarrow> overflow_decision (rp_overflow (ce_policy (the (map_of (pt_cells t) first)))))
    \<and> map_of (pt_cells t') c =
        (if c \<in> set (takeWhile P cells @ take 1 (dropWhile P cells))
         then map_option (charged lib now cost) (map_of (pt_cells t) c) else map_of (pt_cells t) c)
    \<and> length (pt_cells t') \<le> max_cells"
proof -
  have ok: "hm_ok (pt_cells t)" "length (pt_cells t) \<le> max_cells" using rate_reach_ok [OF assms(1)] by auto
  have mem: "c \<in> set cells \<longleftrightarrow> map_contains c (pt_cells t) \<and> rc_direction c = dir
        \<and> (rc_face c = None \<or> rc_face c = Some face)
        \<and> (rc_prefix c = None \<or> (\<exists>p q. rc_prefix c = Some p \<and> name = p @ q))" for c
    unfolding assms(2) rate_matches_rows by (cases "rc_prefix c") (auto simp: cell_row_set)
  have present: "map_of (pt_cells t) c \<noteq> None" if "c \<in> set cells" for c
    using that mem by (simp add: map_contains_def)
  have run: "consult_cells lib now cost cells t = (decision, t')"
    using assms(5) by (simp add: rate_consult_def assms(2,3))
  have dist: "distinct cells" unfolding assms(2) by (rule rate_matches_distinct)
  obtain dn rest where split: "cells = dn @ rest" "\<forall>c\<in>set dn. P c"
    and res: "case rest of
         [] \<Rightarrow> decision = RatePermit \<and> map_of (pt_cells t') =
               (\<lambda>c. if c \<in> set cells then map_option (charged lib now cost) (map_of (pt_cells t) c) else map_of (pt_cells t) c)
       | c' # _ \<Rightarrow> \<not> P c'
           \<and> decision = overflow_decision (rp_overflow (ce_policy (the (map_of (pt_cells t) c'))))
           \<and> map_of (pt_cells t') =
               (\<lambda>c. if c \<in> set (dn @ [c']) then map_option (charged lib now cost) (map_of (pt_cells t) c)
                    else map_of (pt_cells t) c)"
    using consult_spec [OF ok(1) dist present, of lib now cost] unfolding run assms(4) fst_conv snd_conv by blast
  have parts: "takeWhile P cells = dn \<and> dropWhile P cells = rest"
    unfolding split(1) by (rule takeWhile_split [OF split(2)]) (use res in \<open>cases rest; simp\<close>)
  have "decision = (case rest of [] \<Rightarrow> RatePermit
          | first # _ \<Rightarrow> overflow_decision (rp_overflow (ce_policy (the (map_of (pt_cells t) first)))))
      \<and> map_of (pt_cells t') c = (if c \<in> set (dn @ take 1 rest)
         then map_option (charged lib now cost) (map_of (pt_cells t) c) else map_of (pt_cells t) c)"
    using res by (cases rest) (simp_all add: split(1))
  moreover have "length (pt_cells t') \<le> max_cells"
    using consult_table [OF ok(1), of lib now cost cells] run ok(2) by simp
  moreover have "sorted_wrt more_specific cells" unfolding assms(2) by (rule rate_matches_sorted)
  ultimately show ?thesis using mem parts by simp
qed

text \<open>A limiter that permits a fixed number of packets, and a table with a wildcard cell and one for \<open>/1\<close>.\<close>

definition count_limiter :: "nat limiter_lib" where
  "count_limiter = \<lparr>ll_direct = (\<lambda>rate burst. unat burst),
     ll_check_n = (\<lambda>now n l. if unat n \<le> l then (CheckOk, l - unat n) else (CheckNotUntil, l))\<rparr>"

definition example_policies :: "(nat, nat) policy_table" where
  "example_policies =
     snd (policy_set count_limiter \<lparr>rp_cell = \<lparr>rc_face = None, rc_prefix = Some [1], rc_direction = Inbound\<rparr>,
            rp_bucket = spec_pps 1 0, rp_overflow = NackPacket, rp_queue_max = None\<rparr>
     (snd (policy_set count_limiter \<lparr>rp_cell = \<lparr>rc_face = None, rc_prefix = None, rc_direction = Inbound\<rparr>,
            rp_bucket = spec_pps 5 5, rp_overflow = DropPacket, rp_queue_max = None\<rparr> (policy_table_new 4))))"

lemma example_policies_reach: "rate_reach count_limiter 4 example_policies"
  unfolding example_policies_def by (intro rate_set rate_new)

theorem rate_limit_decides_witness:
  "(let t = snd (rate_consult count_limiter 0 7 [1, 2] InterestPacket 100 Inbound example_policies) in
     fst (rate_consult count_limiter 0 7 [1, 2] InterestPacket 100 Inbound t) = RateNack
     \<and> fst (rate_consult count_limiter 0 7 [3] InterestPacket 100 Inbound t) = RatePermit
     \<and> sorted_wrt more_specific (rate_matches t 7 (Some [1, 2]) Inbound)
     \<and> length (pt_cells t) \<le> 4)"
proof -
  let ?t = "snd (rate_consult count_limiter 0 7 [1, 2] InterestPacket 100 Inbound example_policies)"
  have reach: "rate_reach count_limiter 4 ?t" by (rule rate_packet [OF example_policies_reach])
  have "fst (rate_consult count_limiter 0 7 [1, 2] InterestPacket 100 Inbound ?t) = RateNack"
    and "fst (rate_consult count_limiter 0 7 [3] InterestPacket 100 Inbound ?t) = RatePermit"
    by code_simp+
  then show ?thesis
    using rate_limit_decides [OF reach refl refl refl surjective_pairing, where face = 7 and name = "[1, 2]"
        and dir = Inbound] rate_reach_ok [OF reach]
    by (simp add: Let_def)
qed

end
