(* ===== verification/Nsf_Driver.thy ===== *)
theory Nsf_Driver
  imports Nsf_Flow Ratelimit
begin

text \<open>
  The four-phase driver of the service framework (\<open>ndnsf-rs/src/driver.rs\<close>) over its names
  (\<open>names.rs\<close>) and its trust check (\<open>trust.rs\<close>): one turn of the provider's loop on a publication, and
  the user's side of a call as a function of the publications received. Names are lists of components;
  the Data packets, signatures and validators of other packages are parameters.
\<close>

section \<open>The packages outside the repository\<close>

record 'c signed_data =
  sd_name :: "'c list"
  sd_key_locator :: "'c list option"
  sd_content :: "u8 list option"

record 'c nsf_lib =
  nl_wire :: "'c list wire_lib"
  nl_uri :: "'c list uri_lib"
  nl_generic :: "u8 list \<Rightarrow> 'c"
  nl_decode_data :: "u8 list \<Rightarrow> 'c signed_data option"
  nl_ord :: "'c list ord"

definition comp :: "'c nsf_lib \<Rightarrow> string \<Rightarrow> 'c" where
  "comp lib s = nl_generic lib (ascii s)"

abbreviation name_string :: "'c nsf_lib \<Rightarrow> 'c list \<Rightarrow> u8 list" where
  "name_string lib n \<equiv> ul_to_string (nl_uri lib) n"

section \<open>Names (\<open>names.rs\<close>)\<close>

definition append_peer_uri :: "'c nsf_lib \<Rightarrow> 'c list \<Rightarrow> 'c list \<Rightarrow> 'c list" where
  "append_peer_uri lib base peer = base @ [nl_generic lib (name_string lib peer)]"

definition request_name :: "'c nsf_lib \<Rightarrow> 'c list \<Rightarrow> 'c list \<Rightarrow> 'c list \<Rightarrow> 'c list" where
  "request_name lib requester service request_id =
     (requester @ [comp lib ''NDNSF''] @ [comp lib ''REQUEST'']) @ service @ request_id"

definition ack_name :: "'c nsf_lib \<Rightarrow> 'c list \<Rightarrow> 'c list \<Rightarrow> 'c list \<Rightarrow> 'c list \<Rightarrow> 'c list" where
  "ack_name lib provider requester service request_id =
     append_peer_uri lib (provider @ [comp lib ''NDNSF''] @ [comp lib ''ACK'']) requester @ service @ request_id"

definition selection_name :: "'c nsf_lib \<Rightarrow> 'c list \<Rightarrow> 'c list \<Rightarrow> 'c list \<Rightarrow> 'c list \<Rightarrow> 'c list" where
  "selection_name lib requester provider service request_id =
     append_peer_uri lib (requester @ [comp lib ''NDNSF''] @ [comp lib ''SELECTION'']) provider @ service @ request_id"

definition response_name :: "'c nsf_lib \<Rightarrow> 'c list \<Rightarrow> 'c list \<Rightarrow> 'c list \<Rightarrow> 'c list \<Rightarrow> 'c list" where
  "response_name lib provider requester service request_id =
     append_peer_uri lib (provider @ [comp lib ''NDNSF''] @ [comp lib ''RESPONSE'']) requester @ service @ request_id"

definition compact_selection_name :: "'c nsf_lib \<Rightarrow> 'c list \<Rightarrow> 'c list \<Rightarrow> 'c list \<Rightarrow> 'c list" where
  "compact_selection_name lib requester service request_id =
     (requester @ [comp lib ''NDNSF''] @ [comp lib ''SELECTION'']) @ service @ request_id"

section \<open>Reading a name\<close>

datatype phase = RequestPhase | AckPhase | SelectionPhase | ResponsePhase

definition marker :: "'c nsf_lib \<Rightarrow> 'c list \<Rightarrow> nat option" where
  "marker lib name = position (\<lambda>c. c = comp lib ''NDNSF'') name"

definition component_get :: "'c list \<Rightarrow> nat \<Rightarrow> 'c option" where
  "component_get xs i = (if i < length xs then Some (xs ! i) else None)"

definition phase_of :: "'c nsf_lib \<Rightarrow> 'c list \<Rightarrow> phase option" where
  "phase_of lib name =
     (case marker lib name of
        None \<Rightarrow> None
      | Some idx \<Rightarrow>
          (case component_get name (idx + 1) of
             None \<Rightarrow> None
           | Some p \<Rightarrow>
               if p = comp lib ''REQUEST'' then Some RequestPhase
               else if p = comp lib ''ACK'' then Some AckPhase
               else if p = comp lib ''SELECTION'' then Some SelectionPhase
               else if p = comp lib ''RESPONSE'' then Some ResponsePhase
               else None))"

definition before_ndnsf :: "'c nsf_lib \<Rightarrow> 'c list \<Rightarrow> 'c list" where
  "before_ndnsf lib name =
     take (case marker lib name of Some idx \<Rightarrow> idx | None \<Rightarrow> length name) name"

definition request_id_of :: "'c list \<Rightarrow> 'c list" where
  "request_id_of name = (if name = [] then [] else [last name])"

text \<open>\<open>comps[start..end]\<close>\<close>

definition name_slice :: "nat \<Rightarrow> nat \<Rightarrow> 'c list \<Rightarrow> 'c list" where
  "name_slice start stop comps = take (stop - start) (drop start comps)"

definition service_of :: "'c nsf_lib \<Rightarrow> 'c list \<Rightarrow> 'c list option" where
  "service_of lib name =
     (case marker lib name of
        None \<Rightarrow> None
      | Some idx \<Rightarrow>
          if component_get name (idx + 1) \<noteq> Some (comp lib ''REQUEST'') then None
          else if length name = 0 then None
          else
            let start = idx + 2; stop = length name - 1
            in if stop < start then None else Some (name_slice start stop name))"

definition selection_matches_service :: "'c nsf_lib \<Rightarrow> 'c list \<Rightarrow> 'c list \<Rightarrow> bool" where
  "selection_matches_service lib name service =
     (case marker lib name of
        None \<Rightarrow> False
      | Some idx \<Rightarrow>
          if component_get name (idx + 1) \<noteq> Some (comp lib ''SELECTION'') then False
          else if length name = 0 then False
          else
            let stop = length name - 1;
                slice_eq = (\<lambda>start. start \<le> stop \<and> name_slice start stop name = service)
            in slice_eq (idx + 2) \<or> slice_eq (idx + 3))"

section \<open>Trust (\<open>trust.rs\<close>)\<close>

text \<open>A validator returns the validated Data; a signer may fail.\<close>

record 'c trust_ctx =
  tx_signer :: "('c list \<Rightarrow> u8 list \<Rightarrow> u8 list option) option"
  tx_validator :: "('c signed_data \<Rightarrow> 'c signed_data option) option"
  tx_allow_unsigned :: bool

definition trust_default :: "'c trust_ctx" where
  "trust_default = \<lparr>tx_signer = None, tx_validator = None, tx_allow_unsigned = False\<rparr>"

definition trust_insecure :: "'c trust_ctx" where
  "trust_insecure = \<lparr>tx_signer = None, tx_validator = None, tx_allow_unsigned = True\<rparr>"

definition trust_seal :: "'c trust_ctx \<Rightarrow> 'c list \<Rightarrow> u8 list \<Rightarrow> u8 list" where
  "trust_seal trust name msg =
     (case tx_signer trust of
        Some s \<Rightarrow> (case s name msg of Some blob \<Rightarrow> blob | None \<Rightarrow> msg)
      | None \<Rightarrow> msg)"

definition verify_message ::
    "'c nsf_lib \<Rightarrow> ('c signed_data \<Rightarrow> 'c signed_data option) \<Rightarrow> u8 list \<Rightarrow> 'c list \<Rightarrow> 'c list \<Rightarrow> u8 list option" where
  "verify_message lib validator blob expected_sender expected_name =
     (case nl_decode_data lib blob of
        None \<Rightarrow> None
      | Some data \<Rightarrow>
          if sd_name data \<noteq> expected_name then None
          else (case sd_key_locator data of
              None \<Rightarrow> None
            | Some signer \<Rightarrow>
                if take (length expected_sender) signer \<noteq> expected_sender then None
                else (case validator data of
                    None \<Rightarrow> None
                  | Some safe \<Rightarrow> sd_content safe)))"

definition trust_unseal ::
    "'c nsf_lib \<Rightarrow> 'c trust_ctx \<Rightarrow> u8 list \<Rightarrow> 'c list \<Rightarrow> 'c list \<Rightarrow> u8 list option" where
  "trust_unseal lib trust payload expected_sender expected_name =
     (case tx_validator trust of
        Some v \<Rightarrow> verify_message lib v payload expected_sender expected_name
      | None \<Rightarrow> if tx_allow_unsigned trust then Some payload else None)"

section \<open>Admission of requesters\<close>

definition RL_REQUESTS_PER_SEC :: u32 where "RL_REQUESTS_PER_SEC = 50"
definition RL_BURST :: u32 where "RL_BURST = 100"
definition RL_MAX_IDENTITIES :: nat where "RL_MAX_IDENTITIES = 4096"
definition MAX_PENDING_PAYLOADS :: nat where "MAX_PENDING_PAYLOADS = 1024"
definition TARGETED_BATCH :: nat where "TARGETED_BATCH = 4"

type_synonym ('c, 'l) buckets = "('c list \<times> 'l token_bucket) list"

text \<open>\<open>victim_of\<close> is the first key the hash map iterates, of a map that is not empty.\<close>

definition limiter_admit ::
    "'l limiter_lib \<Rightarrow> (('c, 'l) buckets \<Rightarrow> 'c list) \<Rightarrow> nat \<Rightarrow> 'c list \<Rightarrow> ('c, 'l) buckets \<Rightarrow> bool \<times> ('c, 'l) buckets" where
  "limiter_admit rl victim_of clock who buckets =
     (let ready =
        (if map_contains who buckets then Inr buckets
         else
           let buckets =
             (if RL_MAX_IDENTITIES \<le> length buckets then map_delete (victim_of buckets) buckets else buckets)
           in case from_spec rl (spec_pps RL_REQUESTS_PER_SEC RL_BURST) of
                Inr bucket \<Rightarrow> Inr (hm_insert who bucket buckets)
              | Inl _ \<Rightarrow> Inl buckets)
      in case ready of
           Inl buckets \<Rightarrow> (True, buckets)
         | Inr buckets \<Rightarrow>
             (case map_of buckets who of
                None \<Rightarrow> (False, buckets)
              | Some b \<Rightarrow>
                  let (outcome, b) = try_consume rl clock 1 0 b
                  in (outcome = PermitBucket, hm_insert who b buckets)))"

section \<open>The provider's loop\<close>

record 'c publication =
  pub_name :: "'c list"
  pub_payload :: "u8 list"

record ('c, 'l) provider_cfg =
  pv_lib :: "'c nsf_lib"
  pv_rate :: "'l limiter_lib"
  pv_victim :: "('c, 'l) buckets \<Rightarrow> 'c list"
  pv_node :: "'c list"
  pv_service :: "'c list"
  pv_ttl :: nat
  pv_trust :: "'c trust_ctx"
  pv_handler :: "'c list coordination \<Rightarrow> u8 list \<Rightarrow> u8 list"

record ('c, 'l) provider_state =
  pv_engine :: "'c list provider_engine"
  pv_pending :: "(u8 list \<times> u8 list \<times> nat) list"
  pv_limiter :: "('c, 'l) buckets"

definition provider_start :: "('c, 'l) provider_cfg \<Rightarrow> ('c, 'l) provider_state" where
  "provider_start cfg = \<lparr>pv_engine = provider_engine_new (pv_ttl cfg), pv_pending = [], pv_limiter = []\<rparr>"

text \<open>What is published: a name and the sealed message.\<close>

definition publish_ack :: "('c, 'l) provider_cfg \<Rightarrow> 'c list \<Rightarrow> 'c list \<Rightarrow> ack_message \<Rightarrow> 'c publication" where
  "publish_ack cfg requester reqid ack =
     (let name = ack_name (pv_lib cfg) (pv_node cfg) requester (pv_service cfg) reqid
      in \<lparr>pub_name = name, pub_payload = trust_seal (pv_trust cfg) name (ack_encode (nl_wire (pv_lib cfg)) ack)\<rparr>)"

definition publish_response :: "('c, 'l) provider_cfg \<Rightarrow> 'c list \<Rightarrow> 'c list \<Rightarrow> response_message \<Rightarrow> 'c publication" where
  "publish_response cfg requester reqid resp =
     (let name = response_name (pv_lib cfg) (pv_node cfg) requester (pv_service cfg) reqid
      in \<lparr>pub_name = name, pub_payload = trust_seal (pv_trust cfg) name (response_encode (nl_wire (pv_lib cfg)) resp)\<rparr>)"

definition issue_batch ::
    "('c, 'l) provider_cfg \<Rightarrow> nat \<Rightarrow> 'c list \<Rightarrow> u8 list \<Rightarrow> u8 list list \<Rightarrow> 'c list provider_engine
      \<Rightarrow> u8 list list \<times> 'c list provider_engine" where
  "issue_batch cfg now requester user_token raws pe =
     fold (\<lambda>raw (toks, pe).
         let (tok, pe) = issue_token (nl_ord (pv_lib cfg)) now requester (pv_service cfg) user_token raw pe
         in (toks @ [tok], pe)) (take TARGETED_BATCH raws) ([], pe)"

definition join_newline :: "u8 list list \<Rightarrow> u8 list" where
  "join_newline toks = (case toks of [] \<Rightarrow> [] | t # ts \<Rightarrow> t @ concat (map (\<lambda>t. 10 # t) ts))"

definition handle_request ::
    "('c, 'l) provider_cfg \<Rightarrow> nat \<Rightarrow> u8 list list \<Rightarrow> 'c list \<Rightarrow> 'c list \<Rightarrow> 'c list request_message
      \<Rightarrow> ('c, 'l) provider_state \<Rightarrow> 'c publication list \<times> ('c, 'l) provider_state" where
  "handle_request cfg now raws requester reqid req st =
     (let reqkey = name_string (pv_lib cfg) reqid in
      case rm_request_mode req of
        NormalMode \<Rightarrow>
          if MAX_PENDING_PAYLOADS \<le> length (pv_pending st)
          then ([publish_ack cfg requester reqid (negative_ack QUEUE_FULL (rm_user_token req))], st)
          else
            let (ack, pe) = on_request (nl_ord (pv_lib cfg)) now requester (pv_service cfg) req (hd raws) (pv_engine st)
            in ([publish_ack cfg requester reqid ack],
                st\<lparr>pv_pending := hm_insert reqkey (rm_payload req, now) (pv_pending st), pv_engine := pe\<rparr>)
      | TargetedBootstrap \<Rightarrow>
          let (toks, pe) = issue_batch cfg now requester (rm_user_token req) raws (pv_engine st)
          in ([publish_response cfg requester reqid
                 \<lparr>rs_status = True, rs_error_info = [], rs_payload = join_newline toks\<rparr>],
              st\<lparr>pv_engine := pe\<rparr>)
      | TargetedMode \<Rightarrow>
          let sel = default_selection\<lparr>sm_provider_token := rm_provider_token req, sm_request_id := reqkey\<rparr>;
              (res, pe) = on_selection now sel requester (\<lambda>coord. pv_handler cfg coord (rm_payload req)) (pv_engine st)
          in (case res of Inr resp \<Rightarrow> [publish_response cfg requester reqid resp] | Inl _ \<Rightarrow> [],
              st\<lparr>pv_engine := pe\<rparr>))"

definition handle_selection ::
    "('c, 'l) provider_cfg \<Rightarrow> nat \<Rightarrow> 'c list \<Rightarrow> 'c list \<Rightarrow> 'c list selection_message
      \<Rightarrow> ('c, 'l) provider_state \<Rightarrow> 'c publication list \<times> ('c, 'l) provider_state" where
  "handle_selection cfg now requester reqid sel st =
     (let reqkey = name_string (pv_lib cfg) reqid;
          payload = (case map_of (pv_pending st) reqkey of Some (p, _) \<Rightarrow> p | None \<Rightarrow> []);
          (coord, pe) =
            (if sm_provider_entries sel \<noteq> []
             then let (res, pe) = consume_selection_compact (nl_uri (pv_lib cfg)) (nl_ord (pv_lib cfg)) now sel
                        requester (pv_node cfg) (pv_service cfg) (pv_engine st)
                  in (and_then res (\<lambda>(coord, _). Inr coord), pe)
             else consume_selection now sel requester (pv_engine st));
          st = st\<lparr>pv_engine := pe\<rparr>
      in case coord of
           Inl _ \<Rightarrow> ([], st)
         | Inr coord \<Rightarrow>
             ([publish_response cfg requester reqid
                 \<lparr>rs_status = True, rs_error_info = [], rs_payload = pv_handler cfg coord payload\<rparr>],
              st\<lparr>pv_pending := map_delete reqkey (pv_pending st)\<rparr>))"

text \<open>
  One publication received at \<open>now\<close> (seconds of the loop's monotonic clock; \<open>clock\<close> is the
  limiter's); \<open>raws\<close> are the random bytes of the tokens this turn issues.
\<close>

definition serve_step ::
    "('c, 'l) provider_cfg \<Rightarrow> nat \<Rightarrow> nat \<Rightarrow> u8 list list \<Rightarrow> 'c publication
      \<Rightarrow> ('c, 'l) provider_state \<Rightarrow> 'c publication list \<times> ('c, 'l) provider_state" where
  "serve_step cfg now clock raws pub st =
     (let lib = pv_lib cfg;
          st = st\<lparr>pv_engine := snd (cleanup_expired now (pv_engine st)),
                  pv_pending := filter (\<lambda>(_, _, created). now - created < pv_ttl cfg) (pv_pending st)\<rparr>
      in case phase_of lib (pub_name pub) of
           Some RequestPhase \<Rightarrow>
             if service_of lib (pub_name pub) \<noteq> Some (pv_service cfg) then ([], st)
             else
               let requester = before_ndnsf lib (pub_name pub);
                   (ok, buckets) = limiter_admit (pv_rate cfg) (pv_victim cfg) clock requester (pv_limiter st);
                   st = st\<lparr>pv_limiter := buckets\<rparr>
               in if \<not> ok then ([], st)
                  else (case trust_unseal lib (pv_trust cfg) (pub_payload pub) requester (pub_name pub) of
                      None \<Rightarrow> ([], st)
                    | Some payload \<Rightarrow>
                        (case request_decode (nl_wire lib) payload of
                           Inl _ \<Rightarrow> ([], st)
                         | Inr req \<Rightarrow> handle_request cfg now raws requester (request_id_of (pub_name pub)) req st))
         | Some SelectionPhase \<Rightarrow>
             if \<not> selection_matches_service lib (pub_name pub) (pv_service cfg) then ([], st)
             else
               let requester = before_ndnsf lib (pub_name pub)
               in (case trust_unseal lib (pv_trust cfg) (pub_payload pub) requester (pub_name pub) of
                     None \<Rightarrow> ([], st)
                   | Some payload \<Rightarrow>
                       (case selection_decode (nl_wire lib) (nl_uri lib) payload of
                          Inl _ \<Rightarrow> ([], st)
                        | Inr sel \<Rightarrow> handle_selection cfg now requester (request_id_of (pub_name pub)) sel st))
         | _ \<Rightarrow> ([], st))"

end
