(* ===== verification/Nsf_User.thy ===== *)
theory Nsf_User
  imports Nsf_Driver
begin

text \<open>
  The user's side of the four-phase driver (\<open>ndnsf-rs/src/driver.rs\<close>): the messages of a call and what
  the call does with each publication it receives; the collection of acknowledgements and responses
  within a window, as functions of the publications received before the window ends; and the two
  targeted calls.
\<close>

section \<open>Calling one provider\<close>

record 'c user_cfg =
  uc_lib :: "'c nsf_lib"
  uc_trust :: "'c trust_ctx"
  uc_requester :: "'c list"
  uc_service :: "'c list"
  uc_request_id :: "'c list"

definition publish_request :: "'c user_cfg \<Rightarrow> 'c list request_message \<Rightarrow> 'c publication" where
  "publish_request u req =
     (let name = request_name (uc_lib u) (uc_requester u) (uc_service u) (uc_request_id u)
      in \<lparr>pub_name = name, pub_payload = trust_seal (uc_trust u) name (request_encode (nl_wire (uc_lib u)) req)\<rparr>)"

definition publish_selection :: "'c user_cfg \<Rightarrow> ('c list \<times> ack_message) list \<Rightarrow> 'c publication" where
  "publish_selection u selected =
     (let lib = uc_lib u;
          sel = make_compact_selection (nl_uri lib) (uc_requester u) (uc_service u)
                  (name_string lib (uc_request_id u)) selected;
          name = compact_selection_name lib (uc_requester u) (uc_service u) (uc_request_id u)
      in \<lparr>pub_name = name,
          pub_payload = trust_seal (uc_trust u) name (selection_encode (nl_wire lib) (nl_uri lib) sel)\<rparr>)"

datatype call_state = AwaitAck | AwaitResponse | CallDone "u8 list option"

definition call_start :: "'c user_cfg \<Rightarrow> u8 list \<Rightarrow> u8 list \<Rightarrow> 'c publication list \<times> call_state" where
  "call_start u user_token payload =
     ([publish_request u (make_request (name_string (uc_lib u) (uc_request_id u)) user_token payload)], AwaitAck)"

definition is_for :: "'c user_cfg \<Rightarrow> phase \<Rightarrow> 'c publication \<Rightarrow> bool" where
  "is_for u ph pub \<longleftrightarrow> phase_of (uc_lib u) (pub_name pub) = Some ph \<and> request_id_of (pub_name pub) = uc_request_id u"

definition take_response :: "'c user_cfg \<Rightarrow> 'c list \<Rightarrow> 'c publication \<Rightarrow> response_message option" where
  "take_response u provider pub =
     (case trust_unseal (uc_lib u) (uc_trust u) (pub_payload pub) provider (pub_name pub) of
        None \<Rightarrow> None
      | Some payload \<Rightarrow>
          (case response_decode (nl_wire (uc_lib u)) payload of Inl _ \<Rightarrow> None | Inr r \<Rightarrow> Some r))"

fun call_step :: "'c user_cfg \<Rightarrow> 'c list \<Rightarrow> 'c publication \<Rightarrow> call_state \<Rightarrow> 'c publication list \<times> call_state" where
  "call_step u provider pub AwaitAck =
     (if is_for u AckPhase pub then
        (case trust_unseal (uc_lib u) (uc_trust u) (pub_payload pub) provider (pub_name pub) of
           None \<Rightarrow> ([], CallDone None)
         | Some payload \<Rightarrow>
             (case ack_decode (nl_wire (uc_lib u)) payload of
                Inl _ \<Rightarrow> ([], CallDone None)
              | Inr ack \<Rightarrow>
                  if \<not> am_status ack then ([], CallDone None)
                  else ([publish_selection u [(provider, ack)]], AwaitResponse)))
      else ([], AwaitAck))"
| "call_step u provider pub AwaitResponse =
     (if is_for u ResponsePhase pub
      then ([], CallDone (map_option rs_payload (take_response u provider pub)))
      else ([], AwaitResponse))"
| "call_step u provider pub (CallDone r) = ([], CallDone r)"

fun call_run :: "'c user_cfg \<Rightarrow> 'c list \<Rightarrow> 'c publication list \<Rightarrow> call_state \<Rightarrow> 'c publication list \<times> call_state" where
  "call_run u provider [] cs = ([], cs)"
| "call_run u provider (pub # pubs) cs =
     (let (outs, cs) = call_step u provider pub cs; (outs', cs) = call_run u provider pubs cs in (outs @ outs', cs))"

section \<open>Choosing among the providers that answer\<close>

text \<open>\<open>None\<close> as the authorizer admits every provider whose acknowledgement verifies.\<close>

fun collect_acks ::
    "'c user_cfg \<Rightarrow> strategy \<Rightarrow> ('c list \<Rightarrow> 'c list \<Rightarrow> bool) option \<Rightarrow> 'c publication list
      \<Rightarrow> ('c list \<times> ack_message) list \<Rightarrow> ('c list \<times> ack_message) list \<times> 'c publication list" where
  "collect_acks u strategy authorizer [] acks = (acks, [])"
| "collect_acks u strategy authorizer (pub # pubs) acks =
     (if strategy = FirstResponding \<and> acks \<noteq> [] then (acks, pub # pubs)
      else
        let provider = before_ndnsf (uc_lib u) (pub_name pub)
        in if is_for u AckPhase pub
              \<and> (case authorizer of None \<Rightarrow> True | Some allows \<Rightarrow> allows (uc_service u) provider)
           then (case trust_unseal (uc_lib u) (uc_trust u) (pub_payload pub) provider (pub_name pub) of
               None \<Rightarrow> collect_acks u strategy authorizer pubs acks
             | Some payload \<Rightarrow>
                 (case ack_decode (nl_wire (uc_lib u)) payload of
                    Inl _ \<Rightarrow> collect_acks u strategy authorizer pubs acks
                  | Inr ack \<Rightarrow>
                      if \<not> am_status ack then collect_acks u strategy authorizer pubs acks
                      else collect_acks u strategy authorizer pubs (acks @ [(provider, ack)])))
           else collect_acks u strategy authorizer pubs acks)"

fun collect_responses ::
    "'c user_cfg \<Rightarrow> 'c list list \<Rightarrow> 'c publication list \<Rightarrow> ('c list \<times> u8 list) list \<Rightarrow> ('c list \<times> u8 list) list" where
  "collect_responses u want [] responses = responses"
| "collect_responses u want (pub # pubs) responses =
     (if length want \<le> length responses then responses
      else if is_for u ResponsePhase pub then
        let provider = before_ndnsf (uc_lib u) (pub_name pub)
        in if provider \<in> set want \<and> provider \<notin> fst ` set responses then
             (case take_response u provider pub of
                None \<Rightarrow> collect_responses u want pubs responses
              | Some resp \<Rightarrow> collect_responses u want pubs (responses @ [(provider, rs_payload resp)]))
           else collect_responses u want pubs responses
      else collect_responses u want pubs responses)"

definition select_request :: "'c user_cfg \<Rightarrow> strategy \<Rightarrow> u8 list \<Rightarrow> u8 list \<Rightarrow> 'c publication" where
  "select_request u strategy user_token payload =
     publish_request u (default_request\<lparr>rm_request_id := name_string (uc_lib u) (uc_request_id u),
       rm_user_token := user_token, rm_payload := payload, rm_strategy := strategy\<rparr>)"

text \<open>
  \<open>ack_pubs\<close> is received within the first window, \<open>resp_pubs\<close> within the second; \<open>None\<close> only when
  the random choice ran out of draws.
\<close>

definition select_and_call ::
    "'c user_cfg \<Rightarrow> strategy \<Rightarrow> u8 list \<Rightarrow> u8 list \<Rightarrow> ('c list \<Rightarrow> 'c list \<Rightarrow> bool) option \<Rightarrow> u32 list
      \<Rightarrow> 'c publication list \<Rightarrow> 'c publication list \<Rightarrow> ('c publication list \<times> ('c list \<times> u8 list) list) option" where
  "select_and_call u strategy user_token payload authorizer draws ack_pubs resp_pubs =
     (let (acks, left) = collect_acks u strategy authorizer ack_pubs []
      in map_option (\<lambda>selected.
           (select_request u strategy user_token payload
              # (if selected \<noteq> [] then [publish_selection u selected] else []),
            collect_responses u (map fst selected) (left @ resp_pubs) []))
         (select_providers strategy draws acks))"

section \<open>Targeted calls\<close>

definition bootstrap_request :: "'c user_cfg \<Rightarrow> 'c list \<Rightarrow> u8 list \<Rightarrow> 'c publication" where
  "bootstrap_request u provider user_token =
     publish_request u (default_request\<lparr>rm_request_id := name_string (uc_lib u) (uc_request_id u),
       rm_user_token := user_token, rm_request_mode := TargetedBootstrap, rm_target_provider := Some provider\<rparr>)"

text \<open>\<open>split('\n')\<close> without the empty pieces, of a payload that is UTF-8 (which a batch of tokens is).\<close>

fun split_lines :: "u8 list \<Rightarrow> u8 list \<Rightarrow> u8 list list" where
  "split_lines [] acc = (if acc = [] then [] else [acc])"
| "split_lines (b # bs) acc =
     (if b = 10 then (if acc = [] then [] else [acc]) @ split_lines bs [] else split_lines bs (acc @ [b]))"

fun bootstrap_tokens :: "'c user_cfg \<Rightarrow> 'c list \<Rightarrow> 'c publication list \<Rightarrow> u8 list list" where
  "bootstrap_tokens u provider [] = []"
| "bootstrap_tokens u provider (pub # pubs) =
     (if is_for u ResponsePhase pub then
        (case take_response u provider pub of
           None \<Rightarrow> []
         | Some resp \<Rightarrow> split_lines (rs_payload resp) [])
      else bootstrap_tokens u provider pubs)"

definition targeted_request :: "'c user_cfg \<Rightarrow> 'c list \<Rightarrow> u8 list \<Rightarrow> u8 list \<Rightarrow> u8 list \<Rightarrow> 'c publication" where
  "targeted_request u provider payload user_token provider_token =
     publish_request u (default_request\<lparr>rm_request_id := name_string (uc_lib u) (uc_request_id u),
       rm_user_token := user_token, rm_payload := payload, rm_request_mode := TargetedMode,
       rm_target_provider := Some provider, rm_provider_token := provider_token\<rparr>)"

fun targeted_response :: "'c user_cfg \<Rightarrow> 'c list \<Rightarrow> 'c publication list \<Rightarrow> u8 list option" where
  "targeted_response u provider [] = None"
| "targeted_response u provider (pub # pubs) =
     (if is_for u ResponsePhase pub then map_option rs_payload (take_response u provider pub)
      else targeted_response u provider pubs)"

end
