(* ===== verification/Nsf_Provider.thy ===== *)
theory Nsf_Provider
  imports Nsf_User
begin

text \<open>
  Lemmas about the driver of the service framework: what its names say, what one turn of the
  provider's loop does to the token table, and the exchange of one honest call.
\<close>

section \<open>Names\<close>

definition comps_ok :: "'c nsf_lib \<Rightarrow> bool" where
  "comps_ok lib \<longleftrightarrow> inj (nl_generic lib)"

lemma ascii_names:
  "ascii ''REQUEST'' \<noteq> ascii ''ACK''" "ascii ''REQUEST'' \<noteq> ascii ''SELECTION''"
  "ascii ''REQUEST'' \<noteq> ascii ''RESPONSE''" "ascii ''ACK'' \<noteq> ascii ''SELECTION''"
  "ascii ''ACK'' \<noteq> ascii ''RESPONSE''" "ascii ''SELECTION'' \<noteq> ascii ''RESPONSE''"
  by code_simp+

lemma comps_differ:
  assumes "comps_ok lib"
  shows "comp lib ''REQUEST'' \<noteq> comp lib ''ACK''" "comp lib ''REQUEST'' \<noteq> comp lib ''SELECTION''"
    "comp lib ''REQUEST'' \<noteq> comp lib ''RESPONSE''" "comp lib ''ACK'' \<noteq> comp lib ''SELECTION''"
    "comp lib ''ACK'' \<noteq> comp lib ''RESPONSE''" "comp lib ''SELECTION'' \<noteq> comp lib ''RESPONSE''"
  using assms ascii_names unfolding comps_ok_def comp_def by (simp_all add: inj_eq)

lemma position_append: "(\<forall>x\<in>set xs. \<not> P x) \<Longrightarrow> P y \<Longrightarrow> position P (xs @ y # ys) = Some (length xs)"
  by (induction xs) simp_all

definition plain_node :: "'c nsf_lib \<Rightarrow> 'c list \<Rightarrow> bool" where
  "plain_node lib n \<longleftrightarrow> comp lib ''NDNSF'' \<notin> set n"

lemma marker_at: "plain_node lib n \<Longrightarrow> marker lib (n @ comp lib ''NDNSF'' # rest) = Some (length n)"
  unfolding marker_def by (rule position_append) (auto simp: plain_node_def)

lemma name_reading:
  assumes "plain_node lib n"
  shows "before_ndnsf lib (n @ comp lib ''NDNSF'' # c # rest) = n"
    and "component_get (n @ comp lib ''NDNSF'' # c # rest) (Suc (length n)) = Some c"
    and "request_id_of (n @ comp lib ''NDNSF'' # c # mid @ [rid]) = [rid]"
  using assms by (simp_all add: before_ndnsf_def marker_at component_get_def nth_append request_id_of_def)

lemma request_name_reading:
  assumes "comps_ok lib" and "plain_node lib requester"
  shows "phase_of lib (request_name lib requester service [rid]) = Some RequestPhase"
    and "service_of lib (request_name lib requester service [rid]) = Some service"
    and "before_ndnsf lib (request_name lib requester service [rid]) = requester"
    and "request_id_of (request_name lib requester service [rid]) = [rid]"
  using assms
  by (simp_all add: request_name_def phase_of_def marker_at name_reading service_of_def name_slice_def Let_def)

lemma selection_name_reading:
  assumes "comps_ok lib" and "plain_node lib requester"
  shows "phase_of lib (compact_selection_name lib requester service [rid]) = Some SelectionPhase"
    and "selection_matches_service lib (compact_selection_name lib requester service [rid]) service"
    and "before_ndnsf lib (compact_selection_name lib requester service [rid]) = requester"
    and "request_id_of (compact_selection_name lib requester service [rid]) = [rid]"
  using assms comps_differ [OF assms(1)]
  by (simp_all add: compact_selection_name_def phase_of_def marker_at name_reading
      selection_matches_service_def name_slice_def Let_def eq_commute)

lemma reply_name_reading:
  assumes "comps_ok lib" and "plain_node lib provider"
  shows "phase_of lib (ack_name lib provider requester service [rid]) = Some AckPhase"
    and "before_ndnsf lib (ack_name lib provider requester service [rid]) = provider"
    and "request_id_of (ack_name lib provider requester service [rid]) = [rid]"
    and "phase_of lib (response_name lib provider requester service [rid]) = Some ResponsePhase"
    and "before_ndnsf lib (response_name lib provider requester service [rid]) = provider"
    and "request_id_of (response_name lib provider requester service [rid]) = [rid]"
  using assms comps_differ [OF assms(1)]
  by (simp_all add: ack_name_def response_name_def append_peer_uri_def phase_of_def marker_at name_reading
      eq_commute request_id_of_def)

section \<open>What a turn of the loop does to the token table\<close>

abbreviation table_of :: "('c, 'l) provider_state \<Rightarrow> 'c list token_table" where
  "table_of st \<equiv> pe_tokens (pv_engine st)"

text \<open>
  The publications of a turn that redeemed \<open>reds\<close>: none, an acknowledgement or a batch of tokens when
  nothing was redeemed, and one response with the handler's answer for the coordination redeemed.
\<close>

definition turn_outputs ::
    "('c, 'l) provider_cfg \<Rightarrow> 'c list \<Rightarrow> 'c list \<Rightarrow> 'c publication list
      \<Rightarrow> ('c list coordination \<times> nat \<times> 'c list) list \<Rightarrow> bool" where
  "turn_outputs cfg requester reqid outs reds \<longleftrightarrow>
     (case reds of
        [] \<Rightarrow> outs = [] \<or> (\<exists>ack. outs = [publish_ack cfg requester reqid ack])
          \<or> (\<exists>toks. outs = [publish_response cfg requester reqid
               \<lparr>rs_status = True, rs_error_info = [], rs_payload = join_newline toks\<rparr>])
      | red # rest \<Rightarrow> rest = [] \<and> snd (snd red) = requester
          \<and> (\<exists>payload. outs = [publish_response cfg requester reqid
               \<lparr>rs_status = True, rs_error_info = [], rs_payload = pv_handler cfg (fst red) payload\<rparr>]))"

lemma run_append:
  "token_run ord ops t = (iss, reds, t1) \<Longrightarrow> token_run ord ops' t1 = (iss', reds', t2) \<Longrightarrow>
     token_run ord (ops @ ops') t = (iss @ iss', reds @ reds', t2)"
  by (induction ops arbitrary: t iss reds) (auto split: prod.splits)

lemma run_one: "token_step ord op t = (iss, reds, t') \<Longrightarrow> token_run ord [op] t = (iss, reds, t')"
  by simp

definition issued_by :: "'c list \<Rightarrow> nat \<Rightarrow> ('c list coordination \<times> nat) list \<Rightarrow> bool" where
  "issued_by requester now iss \<longleftrightarrow> (\<forall>(coord, t) \<in> set iss. co_requester coord = requester \<and> t = now)"

definition turn ::
    "('c, 'l) provider_cfg \<Rightarrow> nat \<Rightarrow> 'c list \<Rightarrow> 'c list \<Rightarrow> 'c list token_table \<Rightarrow> 'c publication list
      \<Rightarrow> 'c list token_table \<Rightarrow> bool" where
  "turn cfg now requester reqid t outs t' \<longleftrightarrow>
     (\<exists>ops iss reds. token_run (nl_ord (pv_lib cfg)) ops t = (iss, reds, t')
        \<and> turn_outputs cfg requester reqid outs reds \<and> issued_by requester now iss)"

lemma turn_quiet: "turn cfg now requester reqid t [] t"
  unfolding turn_def by (intro exI [of _ "[]"]) (simp add: turn_outputs_def issued_by_def)

lemma turn_first:
  assumes "token_step (nl_ord (pv_lib cfg)) op t = ([], [], t1)" and "turn cfg now requester reqid t1 outs t'"
  shows "turn cfg now requester reqid t outs t'"
  using assms run_append [OF run_one [OF assms(1)]] unfolding turn_def by fastforce

lemma turn_issue:
  "turn cfg now requester reqid t [publish_ack cfg requester reqid ack]
     (snd (token_issue (nl_ord (pv_lib cfg)) now requester service user_token raw t))"
  unfolding turn_def
  by (intro exI [of _ "[IssueOp now requester service user_token raw]"]) (auto simp: turn_outputs_def issued_by_def)

lemma turn_rejected:
  "token_consume now tok requester t = (Inl e, t') \<Longrightarrow> turn cfg now requester reqid t [] t'"
  "token_consume_where (nl_ord (pv_lib cfg)) now requester matches t = (Inl e, t') \<Longrightarrow>
     turn cfg now requester reqid t [] t'"
  unfolding turn_def turn_outputs_def issued_by_def
  by (rule exI [of _ "[ConsumeOp now tok requester]"], simp)
    (rule exI [of _ "[ConsumeWhereOp now requester matches]"], simp)

lemma turn_served:
  fixes payload
  defines "outs \<equiv> \<lambda>cfg requester reqid coord. [publish_response cfg requester reqid
    \<lparr>rs_status = True, rs_error_info = [], rs_payload = pv_handler cfg coord payload\<rparr>]"
  shows "token_consume now tok requester t = (Inr coord, t') \<Longrightarrow>
      turn cfg now requester reqid t (outs cfg requester reqid coord) t'"
    and "token_consume_where (nl_ord (pv_lib cfg)) now requester matches t = (Inr coord, t') \<Longrightarrow>
      turn cfg now requester reqid t (outs cfg requester reqid coord) t'"
  unfolding turn_def turn_outputs_def issued_by_def outs_def
  by (rule exI [of _ "[ConsumeOp now tok requester]"], auto)
    (rule exI [of _ "[ConsumeWhereOp now requester matches]"], auto)

lemma issue_batch_run:
  "\<exists>ops iss. token_run (nl_ord (pv_lib cfg)) ops (pe_tokens pe) =
      (iss, [], pe_tokens (snd (issue_batch cfg now requester user_token raws pe))) \<and> issued_by requester now iss"
proof -
  let ?f = "\<lambda>raw (toks, pe).
         let (tok, pe) = issue_token (nl_ord (pv_lib cfg)) now requester (pv_service cfg) user_token raw pe
         in (toks @ [tok], pe)"
  have "\<exists>ops iss. token_run (nl_ord (pv_lib cfg)) ops (pe_tokens pe) = (iss, [], pe_tokens (snd (fold ?f rs (toks, pe))))
      \<and> issued_by requester now iss" for rs toks
  proof (induction rs arbitrary: toks pe)
    case Nil
    show ?case by (intro exI [of _ "[]"]) (simp add: issued_by_def)
  next
    case (Cons raw rs)
    let ?pe = "snd (issue_token (nl_ord (pv_lib cfg)) now requester (pv_service cfg) user_token raw pe)"
    let ?tok = "fst (issue_token (nl_ord (pv_lib cfg)) now requester (pv_service cfg) user_token raw pe)"
    obtain ops iss where IH: "token_run (nl_ord (pv_lib cfg)) ops (pe_tokens ?pe) =
        (iss, [], pe_tokens (snd (fold ?f rs (toks @ [?tok], ?pe))))" "issued_by requester now iss"
      using Cons.IH [of ?pe "toks @ [?tok]"] by blast
    have "pe_tokens ?pe = snd (token_issue (nl_ord (pv_lib cfg)) now requester (pv_service cfg) user_token raw (pe_tokens pe))"
      by (simp add: issue_token_def split: prod.split)
    then show ?case
      using IH by (intro exI [of _ "IssueOp now requester (pv_service cfg) user_token raw # ops"])
        (simp add: issued_by_def case_prod_unfold Let_def)
  qed
  then show ?thesis by (simp add: issue_batch_def)
qed

lemma on_selection_consume:
  "on_selection now sel requester h pe = (res, pe') \<Longrightarrow>
     \<exists>r t'. token_consume now (sm_provider_token sel) requester (pe_tokens pe) = (r, t') \<and> pe' = pe\<lparr>pe_tokens := t'\<rparr>
       \<and> res = (case r of Inl e \<Rightarrow> Inl (TokenRejected e)
           | Inr coord \<Rightarrow> Inr \<lparr>rs_status = True, rs_error_info = [], rs_payload = h coord\<rparr>)"
  by (auto simp: on_selection_def consume_selection_def split: prod.splits sum.splits)

lemma handle_request_turn:
  assumes "handle_request cfg now raws requester reqid req st = (outs, st')"
  shows "turn cfg now requester reqid (table_of st) outs (table_of st')"
proof (cases "rm_request_mode req")
  case NormalMode
  show ?thesis
  proof (cases "MAX_PENDING_PAYLOADS \<le> length (pv_pending st)")
    case True
    then show ?thesis
      using assms NormalMode unfolding turn_def
      by (intro exI [of _ "[]"]) (auto simp: handle_request_def turn_outputs_def issued_by_def)
  next
    case False
    then show ?thesis
      using assms NormalMode turn_issue [of cfg now requester reqid "table_of st" _ "pv_service cfg" "rm_user_token req" "hd raws"]
      by (auto simp: handle_request_def on_request_def issue_token_def Let_def split: prod.splits)
  qed
next
  case TargetedMode
  then show ?thesis
    using assms by (auto simp: handle_request_def Let_def split: prod.splits dest!: on_selection_consume
        intro: turn_rejected(1) turn_served(1) split: sum.splits)
next
  case TargetedBootstrap
  obtain toks pe where b: "issue_batch cfg now requester (rm_user_token req) raws (pv_engine st) = (toks, pe)" by fastforce
  obtain ops iss where "token_run (nl_ord (pv_lib cfg)) ops (table_of st) = (iss, [], pe_tokens pe)" "issued_by requester now iss"
    using issue_batch_run [of cfg "pv_engine st" now requester "rm_user_token req" raws] b by auto
  then show ?thesis
    using assms TargetedBootstrap b unfolding turn_def
    by (intro exI [of _ ops] exI [of _ iss] exI [of _ "[]"]) (auto simp: handle_request_def turn_outputs_def)
qed

lemma handle_selection_turn:
  assumes "handle_selection cfg now requester reqid sel st = (outs, st')"
  shows "turn cfg now requester reqid (table_of st) outs (table_of st')"
proof (cases "sm_provider_entries sel = []")
  case True
  then show ?thesis
    using assms
    by (auto simp: handle_selection_def consume_selection_def Let_def split: prod.splits sum.splits
        intro: turn_rejected(1) turn_served(1))
next
  case False
  let ?n = "\<lambda>e. se_provider_name e = pv_node cfg"
  show ?thesis
  proof (cases "find ?n (sm_provider_entries sel)")
    case None
    then show ?thesis
      using assms False turn_quiet by (auto simp: handle_selection_def consume_selection_compact_def Let_def)
  next
    case (Some entry)
    show ?thesis
    proof (cases "se_provider_token_hash entry = []")
      case True
      then show ?thesis
        using assms False Some turn_quiet by (auto simp: handle_selection_def consume_selection_compact_def Let_def)
    next
      case hash: False
      then show ?thesis
        using assms False Some
        by (auto simp: handle_selection_def consume_selection_compact_def Let_def split: prod.splits sum.splits
            intro: turn_rejected(2) turn_served(2))
    qed
  qed
qed

text \<open>A turn that publishes anything accepted the message as signed by its requester.\<close>

definition accepted :: "('c, 'l) provider_cfg \<Rightarrow> 'c publication \<Rightarrow> bool" where
  "accepted cfg pub \<longleftrightarrow> trust_unseal (pv_lib cfg) (pv_trust cfg) (pub_payload pub)
     (before_ndnsf (pv_lib cfg) (pub_name pub)) (pub_name pub) \<noteq> None"

lemma cleanup_step:
  "token_step ord (CleanupOp now) t = ([], [], snd (token_cleanup_expired now t))"
  by simp

lemma serve_step_turn:
  assumes "serve_step cfg now clock raws pub st = (outs, st')"
  shows "turn cfg now (before_ndnsf (pv_lib cfg) (pub_name pub)) (request_id_of (pub_name pub)) (table_of st) outs (table_of st')
    \<and> (outs \<noteq> [] \<longrightarrow> accepted cfg pub)"
proof -
  let ?lib = "pv_lib cfg" and ?name = "pub_name pub"
  let ?req = "before_ndnsf ?lib ?name" and ?id = "request_id_of ?name"
  define st1 where "st1 = st\<lparr>pv_engine := snd (cleanup_expired now (pv_engine st)),
                  pv_pending := filter (\<lambda>(_, _, created). now - created < pv_ttl cfg) (pv_pending st)\<rparr>"
  have t1: "table_of st1 = snd (token_cleanup_expired now (table_of st))"
    by (simp add: st1_def cleanup_expired_def split: prod.split)
  have first: "turn cfg now ?req ?id (table_of st1) outs t \<Longrightarrow> turn cfg now ?req ?id (table_of st) outs t" for t
    unfolding t1 by (rule turn_first [OF cleanup_step])
  have quiet: "turn cfg now ?req ?id (table_of st1) [] (table_of (st1\<lparr>pv_limiter := b\<rparr>))" for b
    using turn_quiet by simp
  have step: "outs = [] \<and> (st' = st1 \<or> (\<exists>b. st' = st1\<lparr>pv_limiter := b\<rparr>))
      \<or> accepted cfg pub \<and> ((\<exists>b req. handle_request cfg now raws ?req ?id req (st1\<lparr>pv_limiter := b\<rparr>) = (outs, st'))
          \<or> (\<exists>sel. handle_selection cfg now ?req ?id sel st1 = (outs, st')))"
    using assms unfolding serve_step_def Let_def st1_def [symmetric]
    by (auto simp: accepted_def split: option.splits phase.splits sum.splits prod.splits if_splits)
  then show ?thesis
  proof (elim disjE conjE exE)
    fix b req assume "accepted cfg pub" and "handle_request cfg now raws ?req ?id req (st1\<lparr>pv_limiter := b\<rparr>) = (outs, st')"
    then show ?thesis using handle_request_turn first by fastforce
  next
    fix sel assume "accepted cfg pub" and "handle_selection cfg now ?req ?id sel st1 = (outs, st')"
    then show ?thesis using handle_selection_turn first by fastforce
  qed (use first turn_quiet quiet in auto)
qed

section \<open>Runs of the loop\<close>

text \<open>A publication with the time, the limiter's clock and the random bytes of its turn.\<close>

record 'c serve_event =
  ev_now :: nat
  ev_clock :: nat
  ev_raws :: "u8 list list"
  ev_pub :: "'c publication"

fun serve_run ::
    "('c, 'l) provider_cfg \<Rightarrow> 'c serve_event list \<Rightarrow> ('c, 'l) provider_state
      \<Rightarrow> 'c publication list list \<times> ('c, 'l) provider_state" where
  "serve_run cfg [] st = ([], st)"
| "serve_run cfg (ev # evs) st =
     (let (outs, st) = serve_step cfg (ev_now ev) (ev_clock ev) (ev_raws ev) (ev_pub ev) st;
          (outss, st) = serve_run cfg evs st
      in (outs # outss, st))"

text \<open>The requester and the request id a publication names.\<close>

abbreviation ev_requester :: "('c, 'l) provider_cfg \<Rightarrow> 'c serve_event \<Rightarrow> 'c list" where
  "ev_requester cfg ev \<equiv> before_ndnsf (pv_lib cfg) (pub_name (ev_pub ev))"

abbreviation ev_reqid :: "'c serve_event \<Rightarrow> 'c list" where
  "ev_reqid ev \<equiv> request_id_of (pub_name (ev_pub ev))"

definition turn_of ::
    "('c, 'l) provider_cfg \<Rightarrow> 'c serve_event \<Rightarrow> 'c publication list
      \<Rightarrow> ('c list coordination \<times> nat) list \<times> ('c list coordination \<times> nat \<times> 'c list) list \<Rightarrow> bool" where
  "turn_of cfg ev outs tr \<longleftrightarrow> turn_outputs cfg (ev_requester cfg ev) (ev_reqid ev) outs (snd tr)
     \<and> issued_by (ev_requester cfg ev) (ev_now ev) (fst tr) \<and> (outs \<noteq> [] \<longrightarrow> accepted cfg (ev_pub ev))"

lemma serve_run_turns:
  assumes "serve_run cfg evs st = (outss, st')"
  shows "\<exists>ops trs. token_run (nl_ord (pv_lib cfg)) ops (table_of st) =
      (concat (map fst trs), concat (map snd trs), table_of st')
    \<and> length trs = length evs \<and> length outss = length evs
    \<and> (\<forall>i<length evs. turn_of cfg (evs ! i) (outss ! i) (trs ! i))"
  using assms
proof (induction evs arbitrary: st outss)
  case Nil
  then show ?case by (intro exI [of _ "[]"]) simp
next
  case (Cons ev evs)
  obtain outs st1 where s: "serve_step cfg (ev_now ev) (ev_clock ev) (ev_raws ev) (ev_pub ev) st = (outs, st1)" by fastforce
  then obtain outss' where r: "serve_run cfg evs st1 = (outss', st')" "outss = outs # outss'"
    using Cons.prems by (auto split: prod.splits)
  obtain ops1 iss reds where 1: "token_run (nl_ord (pv_lib cfg)) ops1 (table_of st) = (iss, reds, table_of st1)"
    "turn_of cfg ev outs (iss, reds)"
    using serve_step_turn [OF s] unfolding turn_def turn_of_def by auto
  obtain ops2 trs where 2: "token_run (nl_ord (pv_lib cfg)) ops2 (table_of st1) =
      (concat (map fst trs), concat (map snd trs), table_of st')" "length trs = length evs" "length outss' = length evs"
    "\<forall>i<length evs. turn_of cfg (evs ! i) (outss' ! i) (trs ! i)"
    using Cons.IH [OF r(1)] by blast
  have "turn_of cfg ((ev # evs) ! i) (outss ! i) (((iss, reds) # trs) ! i)" if "i < length (ev # evs)" for i
    using that 1(2) 2(4) r(2) by (cases i) simp_all
  then show ?case
    using run_append [OF 1(1) 2(1)] 2(2,3) r(2)
    by (intro exI [of _ "ops1 @ ops2"] exI [of _ "(iss, reds) # trs"]) simp
qed

end
