(* ===== verification/Nsf_Exchange.thy ===== *)
theory Nsf_Exchange
  imports Nsf_Provider
begin

text \<open>
  One honest exchange of the service framework, step by step: what the provider does with a request and
  with a compact selection, and that the user's call ends with the handler's answer.
\<close>

section \<open>The maps of the provider\<close>

lemma hm_get: "map_of (hm_insert k v m) = (map_of m)(k \<mapsto> v)"
  by (simp add: hm_insert_def update_conv')

lemma hm_ok_filter: "hm_ok m \<Longrightarrow> hm_ok (filter P m)"
  by (auto simp: hm_ok_def distinct_map_filter)

lemma map_of_filter_keep:
  assumes "hm_ok m" and "map_of m k = Some v" and "P (k, v)"
  shows "map_of (filter P m) k = Some v"
  using assms hm.mem_iff [OF hm_ok_filter [OF assms(1)], of k v P] by (auto dest: map_of_SomeD)

lemma map_of_filter_sub:
  assumes "hm_ok m" and "map_of (filter P m) k = Some v"
  shows "map_of m k = Some v"
  using map_of_SomeD [OF assms(2)] hm.mem_iff [OF assms(1), of k v] by simp

lemma shed_hm: "hm_ok m \<Longrightarrow> hm_ok (shed ord m)"
  by (auto simp: shed_def hm_ok_delete split: list.split)

lemma token_step_hm:
  assumes "hm_ok (tt_entries t)" and "token_step ord op t = (iss, reds, t')"
  shows "hm_ok (tt_entries t')"
proof (cases op)
  case (IssueOp now r s u raw)
  then show ?thesis using assms hm.ok_insert [OF shed_hm] by (auto simp: token_issue_def Let_def)
next
  case (ConsumeOp now tok r)
  have "hm_ok (tt_entries (snd (token_consume now tok r t)))"
    using assms(1) by (simp add: token_consume_def take_token_hm split: option.split)
  then show ?thesis using assms(2) by (auto simp: ConsumeOp split: prod.splits sum.splits)
next
  case (ConsumeWhereOp now r matches)
  have "hm_ok (tt_entries (snd (token_consume_where ord now r matches t)))"
    using assms(1) by (simp add: token_consume_where_def take_token_hm split: option.split)
  then show ?thesis using assms(2) by (auto simp: ConsumeWhereOp split: prod.splits sum.splits)
next
  case (CleanupOp now)
  then show ?thesis using assms hm_ok_filter by (auto simp: token_cleanup_expired_def Let_def)
qed

lemma token_run_hm:
  "hm_ok (tt_entries t) \<Longrightarrow> token_run ord ops t = (iss, reds, t') \<Longrightarrow> hm_ok (tt_entries t')"
proof (induction ops arbitrary: t iss reds)
  case (Cons op ops)
  obtain iss1 reds1 t1 where s: "token_step ord op t = (iss1, reds1, t1)" using prod_cases3 by blast
  then show ?case using Cons token_step_hm [OF Cons.prems(1) s] by (auto split: prod.splits)
qed simp

definition provider_ok :: "('c, 'l) provider_cfg \<Rightarrow> ('c, 'l) provider_state \<Rightarrow> bool" where
  "provider_ok cfg st \<longleftrightarrow> hm_ok (tt_entries (table_of st)) \<and> hm_ok (pv_pending st)
     \<and> tt_ttl_secs (table_of st) = pv_ttl cfg"

lemma pending_kept:
  assumes "serve_step cfg now clock raws pub st = (outs, st')" and "hm_ok (pv_pending st)"
  shows "hm_ok (pv_pending st')"
  using assms
  by (auto simp: serve_step_def handle_request_def handle_selection_def Let_def
      split: option.splits phase.splits sum.splits prod.splits if_splits request_mode.splits
      intro!: hm.ok_insert hm_ok_delete hm_ok_filter)

lemma provider_ok_run:
  assumes "ord_ok (nl_ord (pv_lib cfg))" and "serve_run cfg evs (provider_start cfg) = (outss, st)"
  shows "provider_ok cfg st"
proof -
  have start: "hm_ok (tt_entries (table_of (provider_start cfg)))" "tt_ttl_secs (table_of (provider_start cfg)) = pv_ttl cfg"
    by (simp_all add: provider_start_def provider_engine_new_def token_table_new_def hm_ok_def)
  obtain ops trs where run: "token_run (nl_ord (pv_lib cfg)) ops (table_of (provider_start cfg)) =
      (concat (map fst trs), concat (map snd trs), table_of st)"
    using serve_run_turns [OF assms(2)] by blast
  have "hm_ok (pv_pending st')" if "serve_run cfg evs st = (outss, st')" and "hm_ok (pv_pending st)" for evs outss st st'
    using that
  proof (induction evs arbitrary: outss st)
    case (Cons ev evs)
    then show ?case using pending_kept by (fastforce split: prod.splits)
  qed simp
  then have "hm_ok (pv_pending st)" using assms(2) by (auto simp: provider_start_def hm_ok_def)
  then show ?thesis
    using token_run_hm [OF start(1) run] run_accounts [OF assms(1) run] start(2) by (simp add: provider_ok_def)
qed

section \<open>Strings\<close>

lemma utf8_append_ascii: "(\<And>b. b \<in> set xs \<Longrightarrow> b < 0x80) \<Longrightarrow> utf8_valid xs"
  by (rule utf8_valid_ascii)

lemma hex_digit_small:
  assumes "n < 16"
  shows "of_nat (of_char (''0123456789abcdef'' ! n)) < (0x80 :: u8)"
    and "of_nat (of_char (''0123456789ABCDEF'' ! n)) < (0x80 :: u8)"
proof -
  have "n \<in> set [0..<16]" using assms by simp
  moreover have "\<forall>n\<in>set [0..<16]. of_nat (of_char (''0123456789abcdef'' ! n)) < (0x80 :: u8)
      \<and> of_nat (of_char (''0123456789ABCDEF'' ! n)) < (0x80 :: u8)"
    by code_simp
  ultimately show "of_nat (of_char (''0123456789abcdef'' ! n)) < (0x80 :: u8)"
    and "of_nat (of_char (''0123456789ABCDEF'' ! n)) < (0x80 :: u8)"
    by blast+
qed

lemma nibble_bound: "unat (drop_bit 4 (b :: u8)) < 16" "unat (b AND 0x0f) < 16"
proof -
  have "b AND 0x0f \<le> 0x0f" by (rule word_and_le1)
  then show "unat (b AND 0x0f) < 16" by (simp add: word_le_nat_alt)
  show "unat (drop_bit 4 b) < 16"
    using unsigned_less [of b, where 'a = nat] by (simp add: drop_bit_eq_div unat_div)
qed

lemma hex_utf8: "utf8_valid (concat (map hex_lower raw))" "utf8_valid (concat (map hex_upper raw))"
  by (rule utf8_valid_ascii, auto simp: hex_lower_def hex_upper_def ascii_def nibble_bound hex_digit_small)+

lemma token_utf8: "utf8_valid (token_random raw)"
  by (simp add: token_random_def hex_utf8)

lemma token_not_Nil: "raw \<noteq> [] \<Longrightarrow> token_random raw \<noteq> []"
  by (cases raw) (simp_all add: token_random_def hex_lower_def ascii_def)

lemma proof_hash_utf8: "utf8_valid (selection_token_proof_hash ul r p s tok)"
  by (simp add: selection_token_proof_hash_def hex_utf8)

lemma hex_not_Nil: "xs \<noteq> [] \<Longrightarrow> concat (map hex_upper xs) \<noteq> []"
  by (cases xs) (simp_all add: hex_upper_def ascii_def)

lemma proof_hash_not_Nil:
  assumes "tok \<noteq> []" and "\<And>x. ul_sha256 ul x \<noteq> []"
  shows "selection_token_proof_hash ul r p s tok \<noteq> []"
  unfolding selection_token_proof_hash_def using hex_not_Nil [OF assms(2)] assms(1) by simp

section \<open>The steps of an exchange\<close>

text \<open>The libraries behave as documented; user and provider accept each other's messages.\<close>

definition env_ok :: "('c, 'l) provider_cfg \<Rightarrow> bool" where
  "env_ok cfg \<longleftrightarrow> wire_ok (nl_wire (pv_lib cfg)) \<and> uri_ok (nl_uri (pv_lib cfg)) \<and> comps_ok (pv_lib cfg)
     \<and> ord_ok (nl_ord (pv_lib cfg)) \<and> (\<forall>x. ul_sha256 (nl_uri (pv_lib cfg)) x \<noteq> [])"

definition trusts :: "('c, 'l) provider_cfg \<Rightarrow> 'c trust_ctx \<Rightarrow> 'c list \<Rightarrow> 'c trust_ctx \<Rightarrow> bool" where
  "trusts cfg receiver sender_name sender \<longleftrightarrow>
     (\<forall>name msg. trust_unseal (pv_lib cfg) receiver (trust_seal sender name msg) sender_name name = Some msg)"

definition user_ok :: "('c, 'l) provider_cfg \<Rightarrow> 'c user_cfg \<Rightarrow> 'c \<Rightarrow> bool" where
  "user_ok cfg u rid \<longleftrightarrow> uc_lib u = pv_lib cfg \<and> uc_service u = pv_service cfg \<and> uc_request_id u = [rid]
     \<and> plain_node (pv_lib cfg) (uc_requester u) \<and> trusts cfg (pv_trust cfg) (uc_requester u) (uc_trust u)"

definition fresh_entries :: "('c, 'l) provider_cfg \<Rightarrow> nat \<Rightarrow> ('c, 'l) provider_state \<Rightarrow> 'c list token_entries" where
  "fresh_entries cfg now st = filter (\<lambda>(_, _, created). now - created < pv_ttl cfg) (tt_entries (table_of st))"

definition fresh_pending :: "('c, 'l) provider_cfg \<Rightarrow> nat \<Rightarrow> ('c, 'l) provider_state \<Rightarrow> (u8 list \<times> u8 list \<times> nat) list" where
  "fresh_pending cfg now st = filter (\<lambda>(_, _, created). now - created < pv_ttl cfg) (pv_pending st)"

text \<open>The state after the housekeeping every turn starts with.\<close>

definition turn_start :: "('c, 'l) provider_cfg \<Rightarrow> nat \<Rightarrow> ('c, 'l) provider_state \<Rightarrow> ('c, 'l) provider_state" where
  "turn_start cfg now st = st\<lparr>pv_engine := snd (cleanup_expired now (pv_engine st)),
     pv_pending := fresh_pending cfg now st\<rparr>"

lemma serve_step_eq:
  "serve_step cfg now clock raws pub st =
     (let lib = pv_lib cfg; name = pub_name pub; requester = before_ndnsf lib name; st = turn_start cfg now st
      in case phase_of lib name of
           Some RequestPhase \<Rightarrow>
             if service_of lib name \<noteq> Some (pv_service cfg) then ([], st)
             else
               let (ok, buckets) = limiter_admit (pv_rate cfg) (pv_victim cfg) clock requester (pv_limiter st);
                   st = st\<lparr>pv_limiter := buckets\<rparr>
               in if \<not> ok then ([], st)
                  else (case trust_unseal lib (pv_trust cfg) (pub_payload pub) requester name of
                      None \<Rightarrow> ([], st)
                    | Some payload \<Rightarrow>
                        (case request_decode (nl_wire lib) payload of
                           Inl _ \<Rightarrow> ([], st)
                         | Inr req \<Rightarrow> handle_request cfg now raws requester (request_id_of name) req st))
         | Some SelectionPhase \<Rightarrow>
             if \<not> selection_matches_service lib name (pv_service cfg) then ([], st)
             else (case trust_unseal lib (pv_trust cfg) (pub_payload pub) requester name of
                     None \<Rightarrow> ([], st)
                   | Some payload \<Rightarrow>
                       (case selection_decode (nl_wire lib) (nl_uri lib) payload of
                          Inl _ \<Rightarrow> ([], st)
                        | Inr sel \<Rightarrow> handle_selection cfg now requester (request_id_of name) sel st))
         | _ \<Rightarrow> ([], st))"
  unfolding serve_step_def turn_start_def fresh_pending_def Let_def ..

lemma turn_start_limiter: "pv_limiter (turn_start cfg now st) = pv_limiter st"
  by (simp add: turn_start_def)

text \<open>The acknowledgement of a request whose token is drawn from \<open>raw\<close>, and its coordination.\<close>

definition token_ack :: "u8 list \<Rightarrow> u8 list \<Rightarrow> ack_message" where
  "token_ack user_token raw = \<lparr>am_status = True, am_error_info = [], am_user_token = user_token,
     am_provider_token = token_random raw, am_payload = []\<rparr>"

definition user_coord :: "'c user_cfg \<Rightarrow> u8 list \<Rightarrow> 'c list coordination" where
  "user_coord u user_token =
     \<lparr>co_requester = uc_requester u, co_service = uc_service u, co_user_token = user_token\<rparr>"

definition user_request :: "'c user_cfg \<Rightarrow> u8 list \<Rightarrow> u8 list \<Rightarrow> 'c publication" where
  "user_request u user_token payload =
     publish_request u (make_request (name_string (uc_lib u) (uc_request_id u)) user_token payload)"

lemma request_step:
  assumes env: "env_ok cfg" and u: "user_ok cfg u rid" and ok: "provider_ok cfg st"
    and utf8: "utf8_valid user_token"
    and room: "length (tt_entries (table_of st)) < MAX_PENDING_TOKENS" "length (pv_pending st) < MAX_PENDING_PAYLOADS"
    and admit: "fst (limiter_admit (pv_rate cfg) (pv_victim cfg) clock (uc_requester u) (pv_limiter st))"
    and step: "serve_step cfg now clock (raw # raws) (user_request u user_token payload) st = (outs, st')"
  shows "outs = [publish_ack cfg (uc_requester u) [rid] (token_ack user_token raw)]
    \<and> tt_entries (table_of st') = hm_insert (token_random raw) (user_coord u user_token, now) (fresh_entries cfg now st)
    \<and> pv_pending st' = hm_insert (name_string (pv_lib cfg) [rid]) (payload, now) (fresh_pending cfg now st)
    \<and> tt_ttl_secs (table_of st') = pv_ttl cfg"
proof -
  let ?lib = "pv_lib cfg"
  let ?req = "make_request (name_string ?lib [rid]) user_token payload :: 'a list request_message"
  have lib: "wire_ok (nl_wire ?lib)" "uri_ok (nl_uri ?lib)" "comps_ok ?lib" using env by (auto simp: env_ok_def)
  have us: "uc_lib u = ?lib" "uc_service u = pv_service cfg" "uc_request_id u = [rid]" "plain_node ?lib (uc_requester u)"
    "\<And>name msg. trust_unseal ?lib (pv_trust cfg) (trust_seal (uc_trust u) name msg) (uc_requester u) name = Some msg"
    using u by (auto simp: user_ok_def trusts_def)
  note reading = request_name_reading [OF lib(3) us(4), of "pv_service cfg" rid]
  have "request_utf8 ?req"
    using utf8 lib(2) by (simp add: request_utf8_def make_request_def default_request_def uri_ok_def)
  from request_back [OF lib(1) this]
  have decode: "request_decode (nl_wire ?lib) (request_encode (nl_wire ?lib) ?req) = Inr ?req" .
  have small: "length (filter P (tt_entries (table_of st))) < MAX_PENDING_TOKENS" for P
    using room(1) length_filter_le [of P "tt_entries (table_of st)"] by linarith
  have small': "length (filter P (pv_pending st)) < MAX_PENDING_PAYLOADS" for P
    using room(2) length_filter_le [of P "pv_pending st"] by linarith
  obtain b where b: "limiter_admit (pv_rate cfg) (pv_victim cfg) clock (uc_requester u) (pv_limiter st) = (True, b)"
    using admit by (cases "limiter_admit (pv_rate cfg) (pv_victim cfg) clock (uc_requester u) (pv_limiter st)") auto
  let ?st = "turn_start cfg now st\<lparr>pv_limiter := b\<rparr>"
  have run: "handle_request cfg now (raw # raws) (uc_requester u) [rid] ?req ?st = (outs, st')"
    using step
    by (simp add: serve_step_eq user_request_def publish_request_def us(1-3) reading turn_start_limiter b Let_def)
      (simp add: reading us(5) decode)
  have table: "pe_tokens (snd (cleanup_expired now (pv_engine st))) =
      table_of st\<lparr>tt_entries := fresh_entries cfg now st\<rparr>"
    using ok by (simp add: cleanup_expired_def token_cleanup_expired_def provider_ok_def fresh_entries_def Let_def)
  have size: "length (fresh_entries cfg now st) < MAX_PENDING_TOKENS" "length (fresh_pending cfg now st) < MAX_PENDING_PAYLOADS"
    using small small' by (simp_all add: fresh_entries_def fresh_pending_def)
  have req: "rm_request_mode ?req = NormalMode" "rm_payload ?req = payload" "rm_user_token ?req = user_token"
    by (simp_all add: make_request_def default_request_def)
  show ?thesis
    using run size ok
    by (auto simp: handle_request_def req turn_start_def on_request_def issue_token_def token_issue_def shed_def
        table Let_def token_ack_def user_coord_def us provider_ok_def fresh_pending_def not_le leD)
qed

text \<open>The proof hashes of the pending tokens of a requester tell them apart.\<close>

definition hashes_apart :: "('c, 'l) provider_cfg \<Rightarrow> 'c list \<Rightarrow> 'c list token_entries \<Rightarrow> bool" where
  "hashes_apart cfg requester entries \<longleftrightarrow>
     inj_on (selection_token_proof_hash (nl_uri (pv_lib cfg)) requester (pv_node cfg) (pv_service cfg))
       (fst ` {e \<in> set entries. co_requester (fst (snd e)) = requester})"

lemma find_exists: "x \<in> set xs \<Longrightarrow> P x \<Longrightarrow> \<exists>y. find P xs = Some y"
  by (induction xs) auto

lemma selection_step:
  assumes env: "env_ok cfg" and u: "user_ok cfg u rid" and ok: "provider_ok cfg st" and "raw \<noteq> []"
    and token: "map_of (tt_entries (table_of st)) (token_random raw) = Some (user_coord u user_token, created)"
    and alive: "now - created < pv_ttl cfg"
    and pending: "map_of (pv_pending st) (name_string (pv_lib cfg) [rid]) = Some (payload, created')"
    and alive': "now - created' < pv_ttl cfg"
    and apart: "hashes_apart cfg (uc_requester u) (tt_entries (table_of st))"
    and step: "serve_step cfg now clock raws (publish_selection u [(pv_node cfg, token_ack user_token raw)]) st = (outs, st')"
  shows "outs = [publish_response cfg (uc_requester u) [rid] \<lparr>rs_status = True, rs_error_info = [],
      rs_payload = pv_handler cfg (user_coord u user_token) payload\<rparr>]"
proof -
  let ?lib = "pv_lib cfg" and ?r = "uc_requester u" and ?tok = "token_random raw"
  let ?hash = "selection_token_proof_hash (nl_uri ?lib) ?r (pv_node cfg) (pv_service cfg)"
  let ?sel = "make_compact_selection (nl_uri ?lib) ?r (pv_service cfg) (name_string ?lib [rid])
    [(pv_node cfg, token_ack user_token raw)]"
  let ?entry = "\<lparr>se_provider_name = pv_node cfg, se_provider_token_hash = ?hash ?tok, se_assignment_payload = []\<rparr>"
  have lib: "wire_ok (nl_wire ?lib)" "uri_ok (nl_uri ?lib)" "comps_ok ?lib" "ord_ok (nl_ord ?lib)"
    "\<And>x. ul_sha256 (nl_uri ?lib) x \<noteq> []"
    using env by (auto simp: env_ok_def)
  have us: "uc_lib u = ?lib" "uc_service u = pv_service cfg" "uc_request_id u = [rid]" "plain_node ?lib ?r"
    "\<And>name msg. trust_unseal ?lib (pv_trust cfg) (trust_seal (uc_trust u) name msg) ?r name = Some msg"
    using u by (auto simp: user_ok_def trusts_def)
  note reading = selection_name_reading [OF lib(3) us(4), of "pv_service cfg" rid]
  have entries: "sm_provider_entries ?sel = [?entry]"
    by (simp add: make_compact_selection_def token_ack_def)
  have "selection_utf8 ?sel"
    using lib(2) by (simp add: selection_utf8_def entries proof_hash_utf8)
      (simp add: make_compact_selection_def default_selection_def uri_ok_def)
  from selection_back [OF lib(1,2) this]
  have decode: "selection_decode (nl_wire ?lib) (nl_uri ?lib) (selection_encode (nl_wire ?lib) (nl_uri ?lib) ?sel) = Inr ?sel" .
  let ?st = "turn_start cfg now st"
  have run: "handle_selection cfg now ?r [rid] ?sel ?st = (outs, st')"
    using step by (simp add: serve_step_eq publish_selection_def us(1-3,5) reading decode Let_def)
  have table: "table_of ?st = table_of st\<lparr>tt_entries := fresh_entries cfg now st\<rparr>"
    using ok by (simp add: turn_start_def cleanup_expired_def token_cleanup_expired_def provider_ok_def fresh_entries_def Let_def)
  have hm: "hm_ok (tt_entries (table_of st))" "hm_ok (pv_pending st)" "tt_ttl_secs (table_of st) = pv_ttl cfg"
    using ok by (auto simp: provider_ok_def)
  have here: "map_of (fresh_entries cfg now st) ?tok = Some (user_coord u user_token, created)"
    unfolding fresh_entries_def by (rule map_of_filter_keep [OF hm(1) token]) (simp add: alive)
  have payload: "map_of (pv_pending ?st) (name_string ?lib [rid]) = Some (payload, created')"
    unfolding turn_start_def fresh_pending_def
    by simp (rule map_of_filter_keep [OF hm(2) pending], simp add: alive')
  let ?P = "\<lambda>(tok, coord, _). co_requester coord = ?r \<and> ?hash tok = ?hash ?tok"
  have mem: "set (nl_ord ?lib (fresh_entries cfg now st)) = set (fresh_entries cfg now st)" by (rule ord_set [OF lib(4)])
  then have "(?tok, user_coord u user_token, created) \<in> set (nl_ord ?lib (fresh_entries cfg now st))"
    using map_of_SomeD [OF here] by simp
  then obtain y where y: "find ?P (nl_ord ?lib (fresh_entries cfg now st)) = Some y"
    using find_exists [of _ _ ?P] by (fastforce simp: user_coord_def)
  obtain tok' coord' c' where y': "y = (tok', coord', c')" by (cases y)
  have found: "(tok', coord', c') \<in> set (fresh_entries cfg now st)" "co_requester coord' = ?r" "?hash tok' = ?hash ?tok"
    using find_mem [OF y] y' mem by auto
  have old: "(tok', coord', c') \<in> set (tt_entries (table_of st))"
    "(?tok, user_coord u user_token, created) \<in> set (tt_entries (table_of st))"
    using found(1) map_of_SomeD [OF token] by (auto simp: fresh_entries_def)
  have "tok' = ?tok"
    by (rule inj_onD [OF apart [unfolded hashes_apart_def] found(3)])
      (use old found(2) in \<open>force simp: user_coord_def image_iff\<close>)+
  then have "y = (?tok, user_coord u user_token, created)"
    using old hm.mem_iff [OF hm(1)] y' by (metis option.inject prod.inject)
  moreover have "?hash ?tok \<noteq> []" by (rule proof_hash_not_Nil [OF token_not_Nil [OF assms(4)] lib(5)])
  ultimately show ?thesis
    using run y payload alive hm(3)
    by (simp add: handle_selection_def entries consume_selection_compact_def token_consume_where_def table
        take_token_def is_expired_def Let_def)
qed

section \<open>The user's side\<close>

lemma user_takes_ack:
  assumes env: "env_ok cfg" and u: "user_ok cfg u rid" and node: "plain_node (pv_lib cfg) (pv_node cfg)"
    and trust: "trusts cfg (uc_trust u) (pv_node cfg) (pv_trust cfg)" and "utf8_valid user_token"
  shows "call_step u (pv_node cfg) (publish_ack cfg r [rid] (token_ack user_token raw)) AwaitAck =
    ([publish_selection u [(pv_node cfg, token_ack user_token raw)]], AwaitResponse)"
proof -
  let ?lib = "pv_lib cfg"
  have lib: "wire_ok (nl_wire ?lib)" "comps_ok ?lib" using env by (auto simp: env_ok_def)
  have us: "uc_lib u = ?lib" "uc_request_id u = [rid]" using u by (auto simp: user_ok_def)
  note reading = reply_name_reading [OF lib(2) node, of r "pv_service cfg" rid]
  have "ack_utf8 (token_ack user_token raw)" using assms(5) by (simp add: ack_utf8_def token_ack_def token_utf8)
  from ack_back [OF lib(1) this] show ?thesis
    using trust by (simp add: is_for_def publish_ack_def us reading trusts_def Let_def token_ack_def)
qed

lemma user_takes_response:
  assumes env: "env_ok cfg" and u: "user_ok cfg u rid" and node: "plain_node (pv_lib cfg) (pv_node cfg)"
    and trust: "trusts cfg (uc_trust u) (pv_node cfg) (pv_trust cfg)"
  shows "call_step u (pv_node cfg) (publish_response cfg r [rid]
      \<lparr>rs_status = True, rs_error_info = [], rs_payload = p\<rparr>) AwaitResponse = ([], CallDone (Some p))"
proof -
  let ?lib = "pv_lib cfg"
  have lib: "wire_ok (nl_wire ?lib)" "comps_ok ?lib" using env by (auto simp: env_ok_def)
  have us: "uc_lib u = ?lib" "uc_request_id u = [rid]" using u by (auto simp: user_ok_def)
  note reading = reply_name_reading [OF lib(2) node, of r "pv_service cfg" rid]
  have "response_decode (nl_wire ?lib) (response_encode (nl_wire ?lib)
      \<lparr>rs_status = True, rs_error_info = [], rs_payload = p\<rparr>) =
      Inr \<lparr>rs_status = True, rs_error_info = [], rs_payload = p\<rparr>"
    by (rule response_back [OF lib(1)]) simp
  then show ?thesis
    using trust by (simp add: is_for_def publish_response_def us reading trusts_def Let_def take_response_def)
qed

end
