(* ===== verification/Nsf_Guarantee.thy ===== *)
theory Nsf_Guarantee
  imports Nsf_Exchange
begin

text \<open>
  What the service framework promises across its components: a provider serves only redeemed tokens, an
  honest call is answered by the handler, and what sharing a request id does to a pending payload.
\<close>

section \<open>Every response of a provider is paid for\<close>

lemma growth: "length (hm_insert k v m) \<le> Suc (length m)"
  by (induction m) (auto simp: hm_insert_def)

lemma pending_bound:
  assumes "serve_step cfg now clock raws pub st = (outs, st')" and "length (pv_pending st) \<le> MAX_PENDING_PAYLOADS"
  shows "length (pv_pending st') \<le> MAX_PENDING_PAYLOADS"
proof -
  have "length (filter P (pv_pending st)) \<le> MAX_PENDING_PAYLOADS" for P
    using assms(2) length_filter_le [of P "pv_pending st"] by linarith
  moreover have "length (map_delete k m) \<le> MAX_PENDING_PAYLOADS" if "length m \<le> MAX_PENDING_PAYLOADS"
    for k :: "u8 list" and m :: "(u8 list \<times> u8 list \<times> nat) list"
    unfolding map_delete_def by (rule le_trans [OF length_filter_le that])
  moreover have "length (hm_insert k v m) \<le> MAX_PENDING_PAYLOADS" if "length m < MAX_PENDING_PAYLOADS"
    for k :: "u8 list" and v and m :: "(u8 list \<times> u8 list \<times> nat) list"
    using that growth [of k v m] by linarith
  ultimately show ?thesis
    using assms
    by (auto simp: serve_step_def handle_request_def handle_selection_def Let_def not_le
        split: option.splits phase.splits sum.splits prod.splits if_splits request_mode.splits)
qed

lemma pending_bound_run:
  "serve_run cfg evs st = (outss, st') \<Longrightarrow> length (pv_pending st) \<le> MAX_PENDING_PAYLOADS \<Longrightarrow>
     length (pv_pending st') \<le> MAX_PENDING_PAYLOADS"
proof (induction evs arbitrary: st outss)
  case (Cons ev evs)
  then show ?case using pending_bound by (fastforce split: prod.splits)
qed simp


section \<open>An honest call ends with the handler's answer\<close>

lemma serve_run_append:
  "serve_run cfg evs st = (outss, st') \<Longrightarrow> serve_run cfg evs' st' = (outss', st'') \<Longrightarrow>
     serve_run cfg (evs @ evs') st = (outss @ outss', st'')"
  by (induction evs arbitrary: st outss) (auto split: prod.splits)

definition mk_event :: "nat \<Rightarrow> nat \<Rightarrow> u8 list list \<Rightarrow> 'c publication \<Rightarrow> 'c serve_event" where
  "mk_event now clock raws pub = \<lparr>ev_now = now, ev_clock = clock, ev_raws = raws, ev_pub = pub\<rparr>"

lemma serve_run_one:
  "serve_step cfg now clock raws pub st = (outs, st') \<Longrightarrow>
     serve_run cfg [mk_event now clock raws pub] st = ([outs], st')"
  by (simp add: mk_event_def)

definition unrelated :: "'c user_cfg \<Rightarrow> 'c publication list \<Rightarrow> bool" where
  "unrelated u pubs \<longleftrightarrow> (\<forall>p\<in>set pubs. request_id_of (pub_name p) \<noteq> uc_request_id u)"

lemma call_skip:
  assumes "unrelated u xs" and "cs = AwaitAck \<or> cs = AwaitResponse"
  shows "call_run u provider (xs @ ys) cs = call_run u provider ys cs"
  using assms by (induction xs) (auto simp: unrelated_def is_for_def)

text \<open>Both sides of a call: the libraries, the names and the trust between the two.\<close>

definition peers_ok :: "('c, 'l) provider_cfg \<Rightarrow> 'c user_cfg \<Rightarrow> 'c \<Rightarrow> bool" where
  "peers_ok cfg u rid \<longleftrightarrow> env_ok cfg \<and> user_ok cfg u rid \<and> plain_node (pv_lib cfg) (pv_node cfg)
     \<and> trusts cfg (uc_trust u) (pv_node cfg) (pv_trust cfg)"

text \<open>The provider has room for one more request and admits the requester.\<close>

definition has_room :: "('c, 'l) provider_cfg \<Rightarrow> nat \<Rightarrow> 'c list \<Rightarrow> ('c, 'l) provider_state \<Rightarrow> bool" where
  "has_room cfg clock requester st \<longleftrightarrow> length (tt_entries (table_of st)) < MAX_PENDING_TOKENS
     \<and> length (pv_pending st) < MAX_PENDING_PAYLOADS
     \<and> fst (limiter_admit (pv_rate cfg) (pv_victim cfg) clock requester (pv_limiter st))"

text \<open>What a request leaves pending at the provider.\<close>

definition is_pending ::
    "('c, 'l) provider_cfg \<Rightarrow> 'c user_cfg \<Rightarrow> u8 list \<Rightarrow> u8 list \<Rightarrow> u8 list \<Rightarrow> nat \<Rightarrow> ('c, 'l) provider_state \<Rightarrow> bool" where
  "is_pending cfg u user_token raw payload now st \<longleftrightarrow>
     map_of (tt_entries (table_of st)) (token_random raw) = Some (user_coord u user_token, now)
     \<and> map_of (pv_pending st) (name_string (pv_lib cfg) (uc_request_id u)) = Some (payload, now)"

lemma request_pends:
  assumes "peers_ok cfg u rid" and "provider_ok cfg st" and "utf8_valid user_token"
    and "has_room cfg clock (uc_requester u) st"
    and "serve_step cfg now clock (raw # raws) (user_request u user_token payload) st = (outs, st')"
  shows "outs = [publish_ack cfg (uc_requester u) [rid] (token_ack user_token raw)]
    \<and> is_pending cfg u user_token raw payload now st'"
proof -
  have parts: "env_ok cfg" "user_ok cfg u rid" "uc_request_id u = [rid]"
    using assms(1) by (auto simp: peers_ok_def user_ok_def)
  from request_step [OF parts(1,2) assms(2,3) _ _ _ assms(5)] assms(4) show ?thesis
    by (simp add: has_room_def is_pending_def hm_get parts(3))
qed

lemma call_completes:
  assumes peers: "peers_ok cfg u rid" and utf8: "utf8_valid user_token" and "raw \<noteq> []" and ok: "provider_ok cfg st2"
    and acks: "acks = [publish_ack cfg (uc_requester u) [rid] (token_ack user_token raw)]"
    and pending: "is_pending cfg u user_token raw payload now st2" and alive: "now' - now < pv_ttl cfg"
    and apart: "hashes_apart cfg (uc_requester u) (tt_entries (table_of st2))"
    and sel: "serve_step cfg now' clock' raws' (hd (fst (call_run u (pv_node cfg) acks AwaitAck))) st2 = (resps, st3)"
    and other: "unrelated u xs" "unrelated u ys"
  shows "call_run u (pv_node cfg) (xs @ acks @ ys @ resps) AwaitAck =
    ([publish_selection u [(pv_node cfg, token_ack user_token raw)]],
     CallDone (Some (pv_handler cfg (user_coord u user_token) payload)))"
proof -
  have p: "env_ok cfg" "user_ok cfg u rid" "plain_node (pv_lib cfg) (pv_node cfg)"
    "trusts cfg (uc_trust u) (pv_node cfg) (pv_trust cfg)" "uc_request_id u = [rid]"
    using peers by (auto simp: peers_ok_def user_ok_def)
  note ack = user_takes_ack [OF p(1-4) utf8, of "uc_requester u" raw]
  have sel': "serve_step cfg now' clock' raws' (publish_selection u [(pv_node cfg, token_ack user_token raw)]) st2 = (resps, st3)"
    using sel by (simp add: acks ack del: call_step.simps)
  from pending have tok: "map_of (tt_entries (table_of st2)) (token_random raw) = Some (user_coord u user_token, now)"
    and pay: "map_of (pv_pending st2) (name_string (pv_lib cfg) [rid]) = Some (payload, now)"
    by (simp_all add: is_pending_def p(5))
  note resp = selection_step [OF p(1,2) ok assms(3) tok alive pay alive apart sel']
  have skip: "call_run u (pv_node cfg) (xs @ zs) AwaitAck = call_run u (pv_node cfg) zs AwaitAck"
    "call_run u (pv_node cfg) (ys @ zs) AwaitResponse = call_run u (pv_node cfg) zs AwaitResponse" for zs
    using call_skip other by blast+
  show ?thesis
    unfolding skip(1) by (simp add: acks ack skip(2) resp user_takes_response [OF p(1-4)] del: call_step.simps)
qed

lemma provider_ok_reach:
  assumes "ord_ok (nl_ord (pv_lib cfg))" and "serve_run cfg evs (provider_start cfg) = (outss, st)"
    and "serve_step cfg now clock raws pub st = (outs, st1)" and "serve_run cfg evs' st1 = (outss', st2)"
  shows "provider_ok cfg st" and "provider_ok cfg st2"
proof -
  show "provider_ok cfg st" by (rule provider_ok_run [OF assms(1,2)])
  have "serve_run cfg ((evs @ [mk_event now clock raws pub]) @ evs') (provider_start cfg) = ((outss @ [outs]) @ outss', st2)"
    by (intro serve_run_append [OF _ assms(4)] serve_run_append [OF assms(2)] serve_run_one [OF assms(3)])
  then show "provider_ok cfg st2" by (rule provider_ok_run [OF assms(1)])
qed


section \<open>Where a request id is shared\<close>

text \<open>
  Pending payloads are kept under the request id alone: the request of another requester with the same id
  replaces the payload, and the first requester's selection runs the handler on it.
\<close>

lemma shared_request_id_mixes_payloads:
  assumes u: "peers_ok cfg u rid" and v: "peers_ok cfg v rid" and utf8: "utf8_valid t" "utf8_valid t'"
    and raw: "raw \<noteq> []" "token_random raw' \<noteq> token_random raw"
    and ok: "provider_ok cfg st" "provider_ok cfg st1" "provider_ok cfg st2"
    and room: "has_room cfg clock (uc_requester u) st" "has_room cfg clock' (uc_requester v) st1"
    and steps: "serve_step cfg now clock (raw # raws) (user_request u t payload) st = (acks, st1)"
      "serve_step cfg now' clock' (raw' # raws') (user_request v t' payload') st1 = (acks', st2)"
      "serve_step cfg now'' clock'' raws'' (publish_selection u [(pv_node cfg, token_ack t raw)]) st2 = (outs, st3)"
    and time: "now \<le> now'" "now' \<le> now''" "now'' - now < pv_ttl cfg"
    and apart: "hashes_apart cfg (uc_requester u) (tt_entries (table_of st2))"
  shows "outs = [publish_response cfg (uc_requester u) [rid]
    \<lparr>rs_status = True, rs_error_info = [], rs_payload = pv_handler cfg (user_coord u t) payload'\<rparr>]"
proof -
  have p: "env_ok cfg" "user_ok cfg u rid" "user_ok cfg v rid" using u v by (auto simp: peers_ok_def)
  have id: "uc_request_id u = [rid]" "uc_request_id v = [rid]" using p by (auto simp: user_ok_def)
  have "is_pending cfg u t raw payload now st1" using request_pends [OF u ok(1) utf8(1) room(1) steps(1)] by blast
  then have tok: "map_of (tt_entries (table_of st1)) (token_random raw) = Some (user_coord u t, now)"
    by (simp add: is_pending_def)
  have second: "tt_entries (table_of st2) = hm_insert (token_random raw') (user_coord v t', now') (fresh_entries cfg now' st1)"
    using request_step [OF p(1,3) ok(2) utf8(2) _ _ _ steps(2)] room(2) by (simp add: has_room_def)
  have "map_of (fresh_entries cfg now' st1) (token_random raw) = Some (user_coord u t, now)"
    unfolding fresh_entries_def by (rule map_of_filter_keep [OF _ tok]) (use ok(2) time in \<open>auto simp: provider_ok_def\<close>)
  then have tok2: "map_of (tt_entries (table_of st2)) (token_random raw) = Some (user_coord u t, now)"
    using raw(2) by (simp add: second hm_get)
  have pay: "map_of (pv_pending st2) (name_string (pv_lib cfg) [rid]) = Some (payload', now')"
    using request_pends [OF v ok(2) utf8(2) room(2) steps(2)] by (simp add: is_pending_def id)
  show ?thesis
    by (rule selection_step [OF p(1,2) ok(3) raw(1) tok2 time(3) pay _ apart steps(3)]) (use time in simp)
qed

text \<open>
  A call waiting for its acknowledgement ends at the first one under its request id that does not verify as
  its provider's, whoever published it.
\<close>

lemma call_ends_at_foreign_ack:
  assumes "is_for u AckPhase pub"
    and "trust_unseal (uc_lib u) (uc_trust u) (pub_payload pub) provider (pub_name pub) = None"
  shows "call_run u provider (pub # pubs) AwaitAck = ([], CallDone None)"
proof -
  have "call_run u provider pubs (CallDone None) = ([], CallDone None)" by (induction pubs) simp_all
  then show ?thesis using assms by simp
qed

section \<open>A small service\<close>

definition example_lib :: "u8 list nsf_lib" where
  "example_lib = \<lparr>nl_wire = names_lib, nl_uri = names_uri\<lparr>ul_sha256 := (#) 1\<rparr>, nl_generic = (\<lambda>b. b),
     nl_decode_data = (\<lambda>_. None), nl_ord = (\<lambda>m. m)\<rparr>"

definition example_provider :: "(u8 list, nat) provider_cfg" where
  "example_provider = \<lparr>pv_lib = example_lib, pv_rate = count_limiter, pv_victim = (\<lambda>m. fst (hd m)),
     pv_node = [ascii ''p''], pv_service = [ascii ''svc''], pv_ttl = 60, pv_trust = trust_insecure,
     pv_handler = (\<lambda>coord payload. rev payload)\<rparr>"

definition example_user :: "string \<Rightarrow> u8 list user_cfg" where
  "example_user who = \<lparr>uc_lib = example_lib, uc_trust = trust_insecure, uc_requester = [ascii who],
     uc_service = [ascii ''svc''], uc_request_id = [ascii ''1'']\<rparr>"

lemma example_lib_ok: "env_ok example_provider"
  using names_lib_ok names_uri_ok
  by (simp add: env_ok_def example_provider_def example_lib_def comps_ok_def ord_ok_def uri_ok_def)

lemma example_names: "ascii ''NDNSF'' \<notin> {ascii ''p'', ascii ''u'', ascii ''v''}"
  by code_simp

lemma example_trusts: "pv_lib cfg = lib \<Longrightarrow> trusts cfg trust_insecure n trust_insecure"
  by (simp add: trusts_def trust_unseal_def trust_seal_def trust_insecure_def)

lemma example_peers:
  assumes "who = ''u'' \<or> who = ''v''"
  shows "peers_ok example_provider (example_user who) (ascii ''1'')"
  unfolding peers_ok_def user_ok_def
  using example_names assms
  by (auto simp: example_lib_ok example_trusts plain_node_def comp_def)
    (auto simp: example_provider_def example_user_def example_lib_def example_trusts)

lemma example_room: "has_room example_provider 0 (uc_requester (example_user ''u'')) (provider_start example_provider)"
  by code_simp

abbreviation example_call :: "u8 list publication" where
  "example_call \<equiv> hd (fst (call_start (example_user ''u'') (ascii ''t'') [7, 8]))"

lemma example_call_eq: "example_call = user_request (example_user ''u'') (ascii ''t'') [7, 8]"
  unfolding call_start_def user_request_def fst_conv list.sel ..

lemma example_sizes:
  "utf8_valid (ascii ''t'')" "pv_ttl example_provider = 60" "pv_lib example_provider = example_lib"
  "uc_request_id (example_user who) = [ascii ''1'']"
  by (code_simp, simp_all add: example_provider_def example_user_def)

lemma example_apart:
  assumes "serve_step example_provider 0 0 ([5] # []) (user_request (example_user ''u'') (ascii ''t'') [7, 8])
      (provider_start example_provider) = (acks, st1)"
  shows "hashes_apart example_provider (uc_requester (example_user ''u'')) (tt_entries (table_of st1))"
proof -
  have ok: "provider_ok example_provider (provider_start example_provider)"
    by (simp add: provider_ok_def provider_start_def provider_engine_new_def token_table_new_def hm_ok_def)
  have u: "env_ok example_provider" "user_ok example_provider (example_user ''u'') (ascii ''1'')"
    using example_peers by (auto simp: peers_ok_def)
  have "tt_entries (table_of st1) = [(token_random [5], user_coord (example_user ''u'') (ascii ''t''), 0)]"
    using request_step [OF u ok example_sizes(1) _ _ _ assms] example_room
    by (simp add: has_room_def fresh_entries_def provider_start_def provider_engine_new_def token_table_new_def hm_insert_def)
  then show ?thesis by (auto simp: hashes_apart_def inj_on_def)
qed



end
