(* ===== verification/Lease.thy ===== *)
theory Lease
  imports Tlv Maps
begin

text \<open>
  Execution leases (\<open>ndn-lease/src/lib.rs\<close>): the table of a provider's leases as a record, each operation as
  a function from the time and the table to its answer and the table it leaves. The random bytes of an
  id are an argument; seconds are \<open>u64\<close> words.
\<close>

datatype lease_state = Prepared | Committed | Executing | Released | Aborted | Expired

fun is_live :: "lease_state \<Rightarrow> bool" where
  "is_live Prepared \<longleftrightarrow> True"
| "is_live Committed \<longleftrightarrow> True"
| "is_live Executing \<longleftrightarrow> True"
| "is_live Released \<longleftrightarrow> False"
| "is_live Aborted \<longleftrightarrow> False"
| "is_live Expired \<longleftrightarrow> False"

datatype lease_error =
  StaleEpoch
| UnknownLease
| LeaseExpired
| WrongHolder
| LeaseConflict string
| IdempotencyConflict
| PlanMismatch
| InvalidTransition lease_state
| LeaseTableFull

type_synonym lease_id = "u8 list"

record 'n lease_request =
  lq_holder :: 'n
  lq_conflict_keys :: "string list"
  lq_plan_digest :: string
  lq_idempotency_key :: "string option"
  lq_ttl_secs :: u64

record lease =
  ls_id :: lease_id
  ls_boot_epoch :: u64
  ls_expires_at_secs :: u64

record 'n lease_entry =
  lz_holder :: 'n
  lz_state :: lease_state
  lz_conflict_keys :: "string list"
  lz_plan_digest :: string
  lz_idempotency_key :: "string option"
  lz_expires_at_secs :: u64

record lease_counters =
  lc_prepared :: u64
  lc_replayed :: u64
  lc_released :: u64
  lc_aborted :: u64
  lc_expired :: u64
  lc_refused :: u64

record 'n lease_table =
  lt_boot_epoch :: u64
  lt_leases :: "(lease_id \<times> 'n lease_entry) list"
  lt_idempotency :: "(string \<times> lease_id \<times> string) list"
  lt_counters :: lease_counters

definition MAX_LEASES :: nat where "MAX_LEASES = 8192"

definition lease_id_random :: "u8 list \<Rightarrow> lease_id" where
  "lease_id_random raw = concat (map hex_lower raw)"

definition u64_saturating_add :: "u64 \<Rightarrow> u64 \<Rightarrow> u64" where
  "u64_saturating_add a b = (if a + b < a then -1 else a + b)"

definition lease_table_new :: "u64 \<Rightarrow> 'n lease_table" where
  "lease_table_new boot_epoch = \<lparr>lt_boot_epoch = boot_epoch, lt_leases = [], lt_idempotency = [],
     lt_counters = \<lparr>lc_prepared = 0, lc_replayed = 0, lc_released = 0, lc_aborted = 0, lc_expired = 0, lc_refused = 0\<rparr>\<rparr>"

definition live_count :: "'n lease_table \<Rightarrow> nat" where
  "live_count t = length (filter (\<lambda>(_, e). is_live (lz_state e)) (lt_leases t))"

definition refuse :: "lease_error \<Rightarrow> 'n lease_table \<Rightarrow> (lease_error + 'a) \<times> 'n lease_table" where
  "refuse e t = (Inl e, t\<lparr>lt_counters := (lt_counters t)\<lparr>lc_refused := lc_refused (lt_counters t) + 1\<rparr>\<rparr>)"

definition lazily_expire :: "lease_id \<Rightarrow> u64 \<Rightarrow> 'n lease_table \<Rightarrow> bool \<times> 'n lease_table" where
  "lazily_expire lid now t =
     (case map_of (lt_leases t) lid of
        None \<Rightarrow> (False, t)
      | Some entry \<Rightarrow>
          let t = (if is_live (lz_state entry) \<and> lz_expires_at_secs entry \<le> now
                   then t\<lparr>lt_leases := hm_insert lid (entry\<lparr>lz_state := Expired\<rparr>) (lt_leases t),
                          lt_counters := (lt_counters t)\<lparr>lc_expired := lc_expired (lt_counters t) + 1\<rparr>\<rparr>
                   else t)
          in (map_option lz_state (map_of (lt_leases t) lid) = Some Expired, t))"

definition grant :: "'n lease_table \<Rightarrow> lease_id \<Rightarrow> u64 \<Rightarrow> lease" where
  "grant t lid expires = \<lparr>ls_id = lid, ls_boot_epoch = lt_boot_epoch t, ls_expires_at_secs = expires\<rparr>"

definition held :: "'n lease_table \<Rightarrow> string \<Rightarrow> bool" where
  "held t key \<longleftrightarrow> list_ex (\<lambda>(_, e). is_live (lz_state e) \<and> key \<in> set (lz_conflict_keys e)) (lt_leases t)"

definition prepare_new ::
    "u64 \<Rightarrow> u8 list \<Rightarrow> 'n lease_request \<Rightarrow> 'n lease_table \<Rightarrow> (lease_error + lease) \<times> 'n lease_table" where
  "prepare_new now raw req t =
     (if MAX_LEASES \<le> length (lt_leases t) then refuse LeaseTableFull t
      else (case find (held t) (lq_conflict_keys req) of
          Some key \<Rightarrow> refuse (LeaseConflict key) t
        | None \<Rightarrow>
            let lid = lease_id_random raw;
                expires = u64_saturating_add now (lq_ttl_secs req);
                t = t\<lparr>lt_leases := hm_insert lid
                       \<lparr>lz_holder = lq_holder req, lz_state = Prepared, lz_conflict_keys = lq_conflict_keys req,
                        lz_plan_digest = lq_plan_digest req, lz_idempotency_key = lq_idempotency_key req,
                        lz_expires_at_secs = expires\<rparr> (lt_leases t)\<rparr>;
                t = (case lq_idempotency_key req of
                       None \<Rightarrow> t
                     | Some key \<Rightarrow> t\<lparr>lt_idempotency := hm_insert key (lid, lq_plan_digest req) (lt_idempotency t)\<rparr>)
            in (Inr (grant t lid expires),
                t\<lparr>lt_counters := (lt_counters t)\<lparr>lc_prepared := lc_prepared (lt_counters t) + 1\<rparr>\<rparr>)))"

definition lease_prepare ::
    "u64 \<Rightarrow> u8 list \<Rightarrow> 'n lease_request \<Rightarrow> 'n lease_table \<Rightarrow> (lease_error + lease) \<times> 'n lease_table" where
  "lease_prepare now raw req t =
     (case Option.bind (lq_idempotency_key req) (map_of (lt_idempotency t)) of
        None \<Rightarrow> prepare_new now raw req t
      | Some (lid, digest) \<Rightarrow>
          if digest \<noteq> lq_plan_digest req then refuse IdempotencyConflict t
          else
            let (expired, t) = lazily_expire lid now t
            in if expired then refuse LeaseExpired t
               else (case map_of (lt_leases t) lid of
                   None \<Rightarrow> refuse UnknownLease t
                 | Some entry \<Rightarrow>
                     if is_live (lz_state entry)
                     then (Inr (grant t lid (lz_expires_at_secs entry)),
                           t\<lparr>lt_counters := (lt_counters t)\<lparr>lc_replayed := lc_replayed (lt_counters t) + 1\<rparr>\<rparr>)
                     else refuse UnknownLease t))"

definition checked_entry ::
    "u64 \<Rightarrow> lease_id \<Rightarrow> 'n \<Rightarrow> u64 \<Rightarrow> 'n lease_table \<Rightarrow> (lease_error + 'n lease_entry) \<times> 'n lease_table" where
  "checked_entry now lid holder boot_epoch t =
     (if boot_epoch \<noteq> lt_boot_epoch t then refuse StaleEpoch t
      else (case map_of (lt_leases t) lid of
          None \<Rightarrow> refuse UnknownLease t
        | Some entry \<Rightarrow>
            if lz_holder entry \<noteq> holder then refuse WrongHolder t
            else
              let (expired, t) = lazily_expire lid now t
              in if expired then refuse LeaseExpired t else (Inr entry, t)))"

definition count_end :: "lease_state \<Rightarrow> lease_counters \<Rightarrow> lease_counters" where
  "count_end to c =
     (case to of
        Released \<Rightarrow> c\<lparr>lc_released := lc_released c + 1\<rparr>
      | Aborted \<Rightarrow> c\<lparr>lc_aborted := lc_aborted c + 1\<rparr>
      | _ \<Rightarrow> c)"

definition transition ::
    "u64 \<Rightarrow> lease_id \<Rightarrow> 'n \<Rightarrow> u64 \<Rightarrow> lease_state list \<Rightarrow> lease_state \<Rightarrow> 'n lease_table
      \<Rightarrow> (lease_error + unit) \<times> 'n lease_table" where
  "transition now lid holder boot_epoch sources to t =
     (let (checked, t) = checked_entry now lid holder boot_epoch t
      in case checked of
           Inl e \<Rightarrow> (Inl e, t)
         | Inr entry \<Rightarrow>
             if lz_state entry \<notin> set sources then refuse (InvalidTransition (lz_state entry)) t
             else (Inr (), t\<lparr>lt_leases := hm_insert lid (entry\<lparr>lz_state := to\<rparr>) (lt_leases t),
                     lt_counters := count_end to (lt_counters t)\<rparr>))"

definition lease_commit where
  "lease_commit now lid holder boot_epoch = transition now lid holder boot_epoch [Prepared] Committed"

definition lease_activate ::
    "u64 \<Rightarrow> lease_id \<Rightarrow> 'n \<Rightarrow> u64 \<Rightarrow> string \<Rightarrow> 'n lease_table \<Rightarrow> (lease_error + unit) \<times> 'n lease_table" where
  "lease_activate now lid holder boot_epoch plan_digest t =
     (let (checked, t) = checked_entry now lid holder boot_epoch t
      in case checked of
           Inl e \<Rightarrow> (Inl e, t)
         | Inr entry \<Rightarrow>
             if lz_plan_digest entry \<noteq> plan_digest then refuse PlanMismatch t
             else transition now lid holder boot_epoch [Committed] Executing t)"

definition lease_renew ::
    "u64 \<Rightarrow> lease_id \<Rightarrow> 'n \<Rightarrow> u64 \<Rightarrow> u64 \<Rightarrow> 'n lease_table \<Rightarrow> (lease_error + lease) \<times> 'n lease_table" where
  "lease_renew now lid holder boot_epoch extend_secs t =
     (let (checked, t) = checked_entry now lid holder boot_epoch t
      in case checked of
           Inl e \<Rightarrow> (Inl e, t)
         | Inr entry \<Rightarrow>
             let expires = u64_saturating_add now extend_secs;
                 t = t\<lparr>lt_leases := hm_insert lid (entry\<lparr>lz_expires_at_secs := expires\<rparr>) (lt_leases t)\<rparr>
             in (Inr (grant t lid expires), t))"

definition lease_abort where
  "lease_abort now lid holder boot_epoch = transition now lid holder boot_epoch [Prepared, Committed] Aborted"

definition lease_release where
  "lease_release now lid holder boot_epoch = transition now lid holder boot_epoch [Executing] Released"

definition lease_state_of :: "u64 \<Rightarrow> lease_id \<Rightarrow> 'n lease_table \<Rightarrow> lease_state option \<times> 'n lease_table" where
  "lease_state_of now lid t =
     (let t = snd (lazily_expire lid now t) in (map_option lz_state (map_of (lt_leases t) lid), t))"

definition remove_dead :: "lease_id \<Rightarrow> 'n lease_table \<Rightarrow> 'n lease_table" where
  "remove_dead lid t =
     (case map_of (lt_leases t) lid of
        None \<Rightarrow> t
      | Some entry \<Rightarrow>
          let t = t\<lparr>lt_leases := map_delete lid (lt_leases t)\<rparr>
          in case lz_idempotency_key entry of
               None \<Rightarrow> t
             | Some key \<Rightarrow>
                 if map_option fst (map_of (lt_idempotency t) key) = Some lid
                 then t\<lparr>lt_idempotency := map_delete key (lt_idempotency t)\<rparr> else t)"

definition lease_cleanup :: "u64 \<Rightarrow> 'n lease_table \<Rightarrow> nat \<times> 'n lease_table" where
  "lease_cleanup now t =
     (let t = fold (\<lambda>lid t. snd (lazily_expire lid now t)) (map fst (lt_leases t)) t;
          before = length (lt_leases t);
          dead = map fst (filter (\<lambda>(_, e). \<not> is_live (lz_state e)) (lt_leases t));
          t = fold remove_dead dead t
      in (before - length (lt_leases t), t))"

end
