(* ===== verification/Lease_Life.thy ===== *)
theory Lease_Life
  imports Lease
begin

text \<open>
  What a lease table guarantees over any sequence of operations: exclusive conflict keys, the life cycle
  of every lease, and that a holder who acts in time gets through it.
\<close>

section \<open>Operations and runs\<close>

datatype 'n lease_op =
  LPrepare u64 "u8 list" "'n lease_request"
| LCommit u64 lease_id 'n u64
| LActivate u64 lease_id 'n u64 string
| LRenew u64 lease_id 'n u64 u64
| LAbort u64 lease_id 'n u64
| LRelease u64 lease_id 'n u64
| LState u64 lease_id
| LCleanup u64

definition answer :: "(lease_error + 'a) \<times> 's \<Rightarrow> lease_error option \<times> 's" where
  "answer r = (case fst r of Inl e \<Rightarrow> Some e | Inr _ \<Rightarrow> None, snd r)"

fun lease_do :: "'n lease_op \<Rightarrow> 'n lease_table \<Rightarrow> lease_error option \<times> 'n lease_table" where
  "lease_do (LPrepare now raw req) t = answer (lease_prepare now raw req t)"
| "lease_do (LCommit now lid holder epoch) t = answer (lease_commit now lid holder epoch t)"
| "lease_do (LActivate now lid holder epoch digest) t = answer (lease_activate now lid holder epoch digest t)"
| "lease_do (LRenew now lid holder epoch ext) t = answer (lease_renew now lid holder epoch ext t)"
| "lease_do (LAbort now lid holder epoch) t = answer (lease_abort now lid holder epoch t)"
| "lease_do (LRelease now lid holder epoch) t = answer (lease_release now lid holder epoch t)"
| "lease_do (LState now lid) t = (None, snd (lease_state_of now lid t))"
| "lease_do (LCleanup now) t = (None, snd (lease_cleanup now t))"

definition lease_run :: "'n lease_op list \<Rightarrow> 'n lease_table \<Rightarrow> 'n lease_table" where
  "lease_run ops t = fold (\<lambda>op t. snd (lease_do op t)) ops t"

fun op_time :: "'n lease_op \<Rightarrow> u64" where
  "op_time (LPrepare now _ _) = now"
| "op_time (LCommit now _ _ _) = now"
| "op_time (LActivate now _ _ _ _) = now"
| "op_time (LRenew now _ _ _ _) = now"
| "op_time (LAbort now _ _ _) = now"
| "op_time (LRelease now _ _ _) = now"
| "op_time (LState now _) = now"
| "op_time (LCleanup now) = now"

section \<open>What one operation does to one lease\<close>

text \<open>The same lease in another state, or with another deadline.\<close>

definition same_lease :: "'n lease_entry \<Rightarrow> 'n lease_entry \<Rightarrow> bool" where
  "same_lease e e' \<longleftrightarrow> lz_holder e' = lz_holder e \<and> lz_conflict_keys e' = lz_conflict_keys e
     \<and> lz_plan_digest e' = lz_plan_digest e \<and> lz_idempotency_key e' = lz_idempotency_key e"

definition lease_overdue :: "u64 \<Rightarrow> 'n lease_entry \<Rightarrow> bool" where
  "lease_overdue now e \<longleftrightarrow> is_live (lz_state e) \<and> lz_expires_at_secs e \<le> now"

text \<open>The step of an operation that the holder of the lease asked for, in the boot epoch of the table.\<close>

definition drives :: "'n lease_op \<Rightarrow> u64 \<Rightarrow> lease_id \<Rightarrow> 'n lease_entry \<Rightarrow> 'n lease_entry \<Rightarrow> bool" where
  "drives op epoch lid e e' \<longleftrightarrow>
     (\<exists>now. \<not> lease_overdue now e
        \<and> (op = LCommit now lid (lz_holder e) epoch \<and> lz_state e = Prepared \<and> e' = e\<lparr>lz_state := Committed\<rparr>
         \<or> op = LActivate now lid (lz_holder e) epoch (lz_plan_digest e) \<and> lz_state e = Committed \<and> e' = e\<lparr>lz_state := Executing\<rparr>
         \<or> op = LAbort now lid (lz_holder e) epoch \<and> lz_state e \<in> {Prepared, Committed} \<and> e' = e\<lparr>lz_state := Aborted\<rparr>
         \<or> op = LRelease now lid (lz_holder e) epoch \<and> lz_state e = Executing \<and> e' = e\<lparr>lz_state := Released\<rparr>
         \<or> (\<exists>ext. op = LRenew now lid (lz_holder e) epoch ext \<and> lz_state e \<noteq> Expired
              \<and> e' = e\<lparr>lz_expires_at_secs := u64_saturating_add now ext\<rparr>)))"

definition lease_moves :: "'n lease_op \<Rightarrow> u64 \<Rightarrow> lease_id \<Rightarrow> 'n lease_entry \<Rightarrow> 'n lease_entry option \<Rightarrow> bool" where
  "lease_moves op epoch lid e r \<longleftrightarrow>
     (case r of
        None \<Rightarrow> op = LCleanup (op_time op) \<and> (\<not> is_live (lz_state e) \<or> lease_overdue (op_time op) e)
      | Some e' \<Rightarrow> e' = e \<or> lease_overdue (op_time op) e \<and> e' = e\<lparr>lz_state := Expired\<rparr> \<or> drives op epoch lid e e')"

lemma moves_stay: "lease_moves op epoch lid e (Some e)"
  by (simp add: lease_moves_def)

lemma moves_expire: "lease_overdue (op_time op) e \<Longrightarrow> lease_moves op epoch lid e (Some (e\<lparr>lz_state := Expired\<rparr>))"
  by (simp add: lease_moves_def)

lemma refuse_fields [simp]:
  "lt_leases (snd (refuse e t)) = lt_leases t" "lt_boot_epoch (snd (refuse e t)) = lt_boot_epoch t"
  "lt_idempotency (snd (refuse e t)) = lt_idempotency t" "fst (refuse e t) = Inl e"
  by (simp_all add: refuse_def)

lemma hm_lookup: "map_of (hm_insert k v m) = (map_of m)(k \<mapsto> v)"
  by (simp add: hm_insert_def update_conv')

text \<open>The table with the overdue lease \<open>lid\<close> expired, and nothing else changed.\<close>

lemma lazily_lookup:
  "map_of (lt_leases (snd (lazily_expire lid now t))) k =
     (case map_of (lt_leases t) k of
        None \<Rightarrow> None
      | Some e \<Rightarrow> Some (if k = lid \<and> lease_overdue now e then e\<lparr>lz_state := Expired\<rparr> else e))"
  by (auto simp: lazily_expire_def lease_overdue_def hm_lookup Let_def split: option.split)

lemma lazily_keeps [simp]:
  "lt_boot_epoch (snd (lazily_expire lid now t)) = lt_boot_epoch t"
  "lt_idempotency (snd (lazily_expire lid now t)) = lt_idempotency t"
  by (simp_all add: lazily_expire_def Let_def split: option.split)

lemma lazily_hm: "hm_ok (lt_leases t) \<Longrightarrow> hm_ok (lt_leases (snd (lazily_expire lid now t)))"
  by (simp add: lazily_expire_def Let_def hm.ok_insert split: option.split)

lemma lazily_length: "length (lt_leases (snd (lazily_expire lid now t))) = length (lt_leases t)"
proof -
  have "length (hm_insert k v m) = length m" if "map_of m k = Some w" for k v w and m :: "(lease_id \<times> 'a lease_entry) list"
    using that by (induction m) (auto simp: hm_insert_def split: if_splits)
  then show ?thesis by (simp add: lazily_expire_def Let_def split: option.split)
qed

lemma lazily_not:
  assumes "fst (lazily_expire lid now t) = False"
  shows "snd (lazily_expire lid now t) = t"
  using assms by (auto simp: lazily_expire_def Let_def hm_lookup split: option.splits if_splits)

lemma lazily_answer:
  "map_of (lt_leases t) lid = Some e \<Longrightarrow> fst (lazily_expire lid now t) \<longleftrightarrow> lease_overdue now e \<or> lz_state e = Expired"
  by (auto simp: lazily_expire_def lease_overdue_def Let_def hm_lookup split: if_splits)

text \<open>The shared check either lets the table be, or refuses after expiring the lease.\<close>

lemma checked_cases:
  obtains (granted) e where "checked_entry now lid holder epoch t = (Inr e, t)" and "map_of (lt_leases t) lid = Some e"
      and "lz_holder e = holder" and "epoch = lt_boot_epoch t" and "\<not> lease_overdue now e" and "lz_state e \<noteq> Expired"
  | (refused) err where "checked_entry now lid holder epoch t = (Inl err, snd (refuse err t :: (lease_error + unit) \<times> 'n lease_table))"
  | (expired) "checked_entry now lid holder epoch t = refuse LeaseExpired (snd (lazily_expire lid now t))"
proof (cases "epoch \<noteq> lt_boot_epoch t")
  case True
  then have "checked_entry now lid holder epoch t = (Inl StaleEpoch, snd (refuse StaleEpoch t :: (lease_error + unit) \<times> 'n lease_table))"
    by (simp add: checked_entry_def refuse_def)
  then show ?thesis by (rule refused)
next
  case epoch: False
  show ?thesis
  proof (cases "map_of (lt_leases t) lid")
    case None
    then have "checked_entry now lid holder epoch t = (Inl UnknownLease, snd (refuse UnknownLease t :: (lease_error + unit) \<times> 'n lease_table))"
      using epoch by (simp add: checked_entry_def refuse_def)
    then show ?thesis by (rule refused)
  next
    case (Some e)
    show ?thesis
    proof (cases "lz_holder e = holder")
      case False
      then have "checked_entry now lid holder epoch t = (Inl WrongHolder, snd (refuse WrongHolder t :: (lease_error + unit) \<times> 'n lease_table))"
        using epoch Some by (simp add: checked_entry_def refuse_def)
      then show ?thesis by (rule refused)
    next
      case True
      show ?thesis
      proof (cases "fst (lazily_expire lid now t)")
        case expired': True
        then have "checked_entry now lid holder epoch t = refuse LeaseExpired (snd (lazily_expire lid now t))"
          using epoch Some True by (simp add: checked_entry_def case_prod_unfold)
        then show ?thesis by (rule expired)
      next
        case False
        then have "checked_entry now lid holder epoch t = (Inr e, t)"
          using epoch Some True lazily_not [of lid now t]
          by (cases "lazily_expire lid now t") (auto simp: checked_entry_def)
        then show ?thesis
          using granted [of e] Some True epoch False lazily_answer [OF Some, of now] by blast
      qed
    qed
  qed
qed

lemma transition_cases:
  obtains (stays) err where "fst (transition now lid holder epoch sources to t) = Inl err"
      and "lt_leases (snd (transition now lid holder epoch sources to t)) = lt_leases t"
  | (expires) err where "fst (transition now lid holder epoch sources to t) = Inl err"
      and "lt_leases (snd (transition now lid holder epoch sources to t)) = lt_leases (snd (lazily_expire lid now t))"
  | (moves) e where "map_of (lt_leases t) lid = Some e" and "lz_holder e = holder" and "epoch = lt_boot_epoch t"
      and "\<not> lease_overdue now e" and "lz_state e \<noteq> Expired" and "lz_state e \<in> set sources"
      and "transition now lid holder epoch sources to t =
        (Inr (), t\<lparr>lt_leases := hm_insert lid (e\<lparr>lz_state := to\<rparr>) (lt_leases t), lt_counters := count_end to (lt_counters t)\<rparr>)"
proof (cases rule: checked_cases [of now lid holder epoch t])
  case (granted e)
  show ?thesis
  proof (cases "lz_state e \<in> set sources")
    case True
    show ?thesis by (rule moves [OF granted(2-6) True]) (simp add: transition_def granted(1) True)
  next
    case False
    show ?thesis by (rule stays [of "InvalidTransition (lz_state e)"]) (simp_all add: transition_def granted(1) False)
  qed
next
  case (refused err)
  show ?thesis by (rule stays [of err]) (simp_all add: transition_def refused)
next
  case expired
  show ?thesis
    by (rule expires [of LeaseExpired]) (simp_all add: transition_def expired refuse_def)
qed

lemma moves_lazily:
  assumes "map_of (lt_leases t) k = Some e" and "now = op_time op"
  shows "lease_moves op epoch k e (map_of (lt_leases (snd (lazily_expire lid now t))) k)"
  using assms moves_stay moves_expire by (auto simp: lazily_lookup)

lemma moves_transition:
  assumes "map_of (lt_leases t) k = Some e" and "now = op_time op" and "epoch' = lt_boot_epoch t"
    and "\<And>e. \<not> lease_overdue now e \<Longrightarrow> lz_state e \<in> set sources \<Longrightarrow> lz_holder e = holder \<Longrightarrow> epoch = epoch' \<Longrightarrow>
       map_of (lt_leases t) lid = Some e \<Longrightarrow> drives op epoch' lid e (e\<lparr>lz_state := to\<rparr>)"
  shows "lease_moves op epoch' k e (map_of (lt_leases (snd (transition now lid holder epoch sources to t))) k)"
proof (cases rule: transition_cases [of now lid holder epoch sources to t])
  case (stays err)
  then show ?thesis using assms(1) moves_stay by simp
next
  case (expires err)
  then show ?thesis using moves_lazily [OF assms(1,2)] by simp
next
  case (moves e')
  show ?thesis
  proof (cases "k = lid")
    case True
    then have "e' = e" using moves(1) assms(1) by simp
    then have "drives op epoch' lid e (e\<lparr>lz_state := to\<rparr>)"
      using assms(3,4) moves by simp
    then show ?thesis using True moves(7) \<open>e' = e\<close> by (simp add: hm_lookup lease_moves_def)
  next
    case False
    then show ?thesis using assms(1) moves(7) moves_stay by (simp add: hm_lookup)
  qed
qed

section \<open>Preparing and cleaning up\<close>

lemma held_iff:
  "hm_ok (lt_leases t) \<Longrightarrow> held t key \<longleftrightarrow>
     (\<exists>lid e. map_of (lt_leases t) lid = Some e \<and> is_live (lz_state e) \<and> key \<in> set (lz_conflict_keys e))"
  by (auto simp: held_def list_ex_iff hm.mem_iff [symmetric])

definition new_entry :: "u64 \<Rightarrow> 'n lease_request \<Rightarrow> 'n lease_entry" where
  "new_entry now req = \<lparr>lz_holder = lq_holder req, lz_state = Prepared, lz_conflict_keys = lq_conflict_keys req,
     lz_plan_digest = lq_plan_digest req, lz_idempotency_key = lq_idempotency_key req,
     lz_expires_at_secs = u64_saturating_add now (lq_ttl_secs req)\<rparr>"

lemma prepare_cases:
  obtains (stays) "lt_leases (snd (lease_prepare now raw req t)) = lt_leases t"
  | (expires) lid where "lt_leases (snd (lease_prepare now raw req t)) = lt_leases (snd (lazily_expire lid now t))"
  | (adds) "lt_leases (snd (lease_prepare now raw req t)) = hm_insert (lease_id_random raw) (new_entry now req) (lt_leases t)"
      and "length (lt_leases t) < MAX_LEASES" and "\<And>key. key \<in> set (lq_conflict_keys req) \<Longrightarrow> \<not> held t key"
      and "fst (lease_prepare now raw req t) = Inr (grant t (lease_id_random raw) (u64_saturating_add now (lq_ttl_secs req)))"
proof -
  let ?o = "Option.bind (lq_idempotency_key req) (map_of (lt_idempotency t))"
  show ?thesis
  proof (cases ?o)
    case None
    then have p: "lease_prepare now raw req t = prepare_new now raw req t" by (simp add: lease_prepare_def)
    show ?thesis
    proof (cases "MAX_LEASES \<le> length (lt_leases t) \<or> find (held t) (lq_conflict_keys req) \<noteq> None")
      case True
      then show ?thesis using stays p by (auto simp: prepare_new_def split: if_splits)
    next
      case False
      then have "\<not> held t key" if "key \<in> set (lq_conflict_keys req)" for key
        using that by (simp add: find_None_iff)
      then show ?thesis
        using adds False p by (auto simp: prepare_new_def new_entry_def grant_def Let_def not_le split: option.splits)
    qed
  next
    case (Some x)
    obtain lid digest where x: "x = (lid, digest)" by (cases x)
    show ?thesis
    proof (cases "digest = lq_plan_digest req")
      case False
      then show ?thesis using stays Some x by (simp add: lease_prepare_def)
    next
      case True
      have "lt_leases (snd (lease_prepare now raw req t)) = lt_leases (snd (lazily_expire lid now t))"
        using Some x True by (simp add: lease_prepare_def case_prod_unfold Let_def split: option.split)
      then show ?thesis by (rule expires)
    qed
  qed
qed

lemma fold_lazily:
  "map_of (lt_leases (fold (\<lambda>lid t. snd (lazily_expire lid now t)) lids t)) k =
     (case map_of (lt_leases t) k of
        None \<Rightarrow> None
      | Some e \<Rightarrow> Some (if k \<in> set lids \<and> lease_overdue now e then e\<lparr>lz_state := Expired\<rparr> else e))"
proof (induction lids arbitrary: t)
  case (Cons lid lids)
  show ?case
    by (simp add: Cons.IH lazily_lookup split: option.split) (auto simp: lease_overdue_def)
qed (simp split: option.split)

lemma fold_lazily_keeps:
  "hm_ok (lt_leases t) \<Longrightarrow> hm_ok (lt_leases (fold (\<lambda>lid t. snd (lazily_expire lid now t)) lids t))"
  "lt_boot_epoch (fold (\<lambda>lid t. snd (lazily_expire lid now t)) lids t) = lt_boot_epoch t"
  "length (lt_leases (fold (\<lambda>lid t. snd (lazily_expire lid now t)) lids t)) = length (lt_leases t)"
  by (induction lids arbitrary: t) (simp_all add: lazily_hm lazily_length)

lemma remove_dead_leases: "lt_leases (remove_dead lid t) = map_delete lid (lt_leases t)"
proof (cases "map_of (lt_leases t) lid")
  case None
  then have "map_delete lid (lt_leases t) = lt_leases t"
    by (auto simp: map_delete_def filter_id_conv map_of_eq_None_iff image_iff)
  then show ?thesis using None by (simp add: remove_dead_def)
qed (simp add: remove_dead_def Let_def split: option.split)

lemma remove_dead_epoch: "lt_boot_epoch (remove_dead lid t) = lt_boot_epoch t"
  by (simp add: remove_dead_def Let_def split: option.split)

lemma fold_remove:
  "map_of (lt_leases (fold remove_dead lids t)) k = (if k \<in> set lids then None else map_of (lt_leases t) k)"
  by (induction lids arbitrary: t) (auto simp: remove_dead_leases map_of_delete)

lemma fold_remove_keeps:
  "hm_ok (lt_leases t) \<Longrightarrow> hm_ok (lt_leases (fold remove_dead lids t))"
  "lt_boot_epoch (fold remove_dead lids t) = lt_boot_epoch t"
  by (induction lids arbitrary: t) (simp_all add: remove_dead_leases remove_dead_epoch hm_ok_delete)

lemma fold_remove_length: "length (lt_leases (fold remove_dead lids t)) \<le> length (lt_leases t)"
proof (induction lids arbitrary: t)
  case (Cons lid lids)
  have "length (lt_leases (remove_dead lid t)) \<le> length (lt_leases t)" by (simp add: remove_dead_leases map_delete_def)
  then show ?case using Cons.IH [of "remove_dead lid t"] by simp
qed simp

lemma cleanup_lookup:
  assumes "hm_ok (lt_leases t)"
  shows "map_of (lt_leases (snd (lease_cleanup now t))) k =
    (case map_of (lt_leases t) k of
       None \<Rightarrow> None
     | Some e \<Rightarrow> if is_live (lz_state e) \<and> \<not> lease_overdue now e then Some e else None)"
proof -
  define u where "u = fold (\<lambda>lid t. snd (lazily_expire lid now t)) (map fst (lt_leases t)) t"
  define dead where "dead = map fst (filter (\<lambda>(_, e). \<not> is_live (lz_state e)) (lt_leases u))"
  have ok: "hm_ok (lt_leases u)" unfolding u_def by (rule fold_lazily_keeps(1) [OF assms])
  have dead: "k \<in> set dead \<longleftrightarrow> (\<exists>e. map_of (lt_leases u) k = Some e \<and> \<not> is_live (lz_state e))"
    unfolding dead_def by (force simp: hm.mem_iff [OF ok, symmetric])
  have mem: "k \<in> set (map fst (lt_leases t))" if "map_of (lt_leases t) k = Some e" for e
    using map_of_SomeD [OF that] by force
  have "snd (lease_cleanup now t) = fold remove_dead dead u" by (simp add: lease_cleanup_def Let_def u_def dead_def)
  then have "map_of (lt_leases (snd (lease_cleanup now t))) k =
      (if k \<in> set dead then None else map_of (lt_leases u) k)"
    by (simp add: fold_remove)
  moreover have "map_of (lt_leases u) k =
      (case map_of (lt_leases t) k of None \<Rightarrow> None | Some e \<Rightarrow> Some (if lease_overdue now e then e\<lparr>lz_state := Expired\<rparr> else e))"
    unfolding u_def fold_lazily using mem by (auto split: option.split)
  ultimately show ?thesis unfolding dead by (auto simp: lease_overdue_def split: option.splits)
qed

section \<open>One operation\<close>

text \<open>The id a preparation would draw is another one.\<close>

fun fresh_id :: "'n lease_op \<Rightarrow> lease_id \<Rightarrow> bool" where
  "fresh_id (LPrepare now raw req) lid \<longleftrightarrow> lease_id_random raw \<noteq> lid"
| "fresh_id _ lid \<longleftrightarrow> True"

lemma snd_answer [simp]: "snd (answer r) = snd r"
  by (simp add: answer_def)

lemma transition_epoch [simp]: "lt_boot_epoch (snd (transition now lid holder epoch sources to t)) = lt_boot_epoch t"
  by (cases rule: checked_cases [of now lid holder epoch t]) (simp_all add: transition_def refuse_def)

lemma activate_cases:
  obtains (stays) "lt_leases (snd (lease_activate now lid holder epoch digest t)) = lt_leases t"
  | (expires) "lt_leases (snd (lease_activate now lid holder epoch digest t)) = lt_leases (snd (lazily_expire lid now t))"
  | (moves) e where "map_of (lt_leases t) lid = Some e" and "lz_plan_digest e = digest"
      and "lease_activate now lid holder epoch digest t = transition now lid holder epoch [Committed] Executing t"
proof (cases rule: checked_cases [of now lid holder epoch t])
  case (granted e)
  show ?thesis
  proof (cases "lz_plan_digest e = digest")
    case True
    show ?thesis by (rule moves [OF granted(2) True]) (simp add: lease_activate_def granted(1) True)
  qed (use stays granted(1) in \<open>simp add: lease_activate_def\<close>)
next
  case (refused err)
  then show ?thesis using stays by (simp add: lease_activate_def)
next
  case expired
  then show ?thesis using expires by (simp add: lease_activate_def refuse_def)
qed

lemma lease_step_moves:
  assumes "hm_ok (lt_leases t)" and "fresh_id op k" and e: "map_of (lt_leases t) k = Some e"
  shows "lease_moves op (lt_boot_epoch t) k e (map_of (lt_leases (snd (lease_do op t))) k)"
proof (cases op)
  case (LPrepare now raw req)
  then have "k \<noteq> lease_id_random raw" using assms(2) by simp
  then show ?thesis
    using e moves_stay moves_lazily [OF e, of now op] unfolding LPrepare
    by (cases rule: prepare_cases [of now raw req t]) (simp_all add: hm_lookup)
next
  case (LCommit now lid holder epoch)
  then show ?thesis
    using moves_transition [OF e, of now op _ "[Prepared]" holder epoch lid Committed]
    by (auto simp: lease_commit_def drives_def)
next
  case (LActivate now lid holder epoch digest)
  show ?thesis
  proof (cases rule: activate_cases [of now lid holder epoch digest t])
    case (moves e')
    have "lease_moves op (lt_boot_epoch t) k e (map_of (lt_leases (snd (transition now lid holder epoch [Committed] Executing t))) k)"
      by (rule moves_transition [OF e]) (use moves(1,2) LActivate in \<open>auto simp: drives_def\<close>)
    then show ?thesis using moves(3) LActivate by simp
  qed (use LActivate e moves_stay moves_lazily [OF e, of now op] in simp_all)
next
  case (LRenew now lid holder epoch ext)
  show ?thesis
  proof (cases rule: checked_cases [of now lid holder epoch t])
    case (granted e')
    then show ?thesis
      using e LRenew moves_stay
      by (auto simp: lease_renew_def Let_def hm_lookup lease_moves_def drives_def)
  qed (use LRenew e moves_stay moves_lazily [OF e, of now op] in \<open>auto simp: lease_renew_def refuse_def\<close>)
next
  case (LAbort now lid holder epoch)
  then show ?thesis
    using moves_transition [OF e, of now op _ "[Prepared, Committed]" holder epoch lid Aborted]
    by (auto simp: lease_abort_def drives_def)
next
  case (LRelease now lid holder epoch)
  then show ?thesis
    using moves_transition [OF e, of now op _ "[Executing]" holder epoch lid Released]
    by (auto simp: lease_release_def drives_def)
next
  case (LState now lid)
  then show ?thesis using moves_lazily [OF e, of now op] by (simp add: lease_state_of_def Let_def)
next
  case (LCleanup now)
  then show ?thesis using e moves_stay by (simp add: cleanup_lookup [OF assms(1)] lease_moves_def)
qed

text \<open>What is new in the table after an operation.\<close>

lemma lease_step_new:
  assumes "hm_ok (lt_leases t)" and "map_of (lt_leases (snd (lease_do op t))) k = Some e'" and "map_of (lt_leases t) k = None"
  shows "\<exists>now raw req. op = LPrepare now raw req \<and> k = lease_id_random raw \<and> e' = new_entry now req
    \<and> (\<forall>key\<in>set (lq_conflict_keys req). \<not> held t key)"
proof (cases op)
  case (LPrepare now raw req)
  then show ?thesis
    using assms(2,3)
    by (cases rule: prepare_cases [of now raw req t]) (auto simp: lazily_lookup hm_lookup split: if_splits)
next
  case (LCommit now lid holder epoch)
  then show ?thesis
    using assms(2,3)
    by (cases rule: transition_cases [of now lid holder epoch "[Prepared]" Committed t])
      (auto simp: lease_commit_def lazily_lookup hm_lookup split: if_splits)
next
  case (LActivate now lid holder epoch digest)
  have "map_of (lt_leases (snd (transition now lid holder epoch [Committed] Executing t))) k = None"
    using assms(3) by (cases rule: transition_cases [of now lid holder epoch "[Committed]" Executing t])
      (auto simp: lazily_lookup hm_lookup)
  then show ?thesis
    using assms(2,3) LActivate
    by (cases rule: activate_cases [of now lid holder epoch digest t]) (auto simp: lazily_lookup)
next
  case (LRenew now lid holder epoch ext)
  then show ?thesis
    using assms(2,3)
    by (cases rule: checked_cases [of now lid holder epoch t])
      (auto simp: lease_renew_def refuse_def Let_def lazily_lookup hm_lookup split: if_splits)
next
  case (LAbort now lid holder epoch)
  then show ?thesis
    using assms(2,3)
    by (cases rule: transition_cases [of now lid holder epoch "[Prepared, Committed]" Aborted t])
      (auto simp: lease_abort_def lazily_lookup hm_lookup split: if_splits)
next
  case (LRelease now lid holder epoch)
  then show ?thesis
    using assms(2,3)
    by (cases rule: transition_cases [of now lid holder epoch "[Executing]" Released t])
      (auto simp: lease_release_def lazily_lookup hm_lookup split: if_splits)
next
  case (LState now lid)
  then show ?thesis using assms(2,3) by (simp add: lease_state_of_def Let_def lazily_lookup)
next
  case (LCleanup now)
  then show ?thesis using assms by (simp add: cleanup_lookup)
qed

section \<open>The invariant of the table\<close>

definition exclusive :: "'n lease_table \<Rightarrow> bool" where
  "exclusive t \<longleftrightarrow> (\<forall>i j e f key. map_of (lt_leases t) i = Some e \<longrightarrow> map_of (lt_leases t) j = Some f \<longrightarrow>
     is_live (lz_state e) \<longrightarrow> is_live (lz_state f) \<longrightarrow> key \<in> set (lz_conflict_keys e) \<longrightarrow> key \<in> set (lz_conflict_keys f) \<longrightarrow> i = j)"

definition lease_inv :: "'n lease_table \<Rightarrow> bool" where
  "lease_inv t \<longleftrightarrow> hm_ok (lt_leases t) \<and> length (lt_leases t) \<le> MAX_LEASES \<and> exclusive t"

lemma replace_length: "map_of m k = Some w \<Longrightarrow> length (hm_insert k v m) = length m"
  by (induction m) (auto simp: hm_insert_def split: if_splits)

lemma insert_length: "length (hm_insert k v m) \<le> Suc (length m)"
  by (induction m) (auto simp: hm_insert_def)

definition table_ok :: "'n lease_table \<Rightarrow> bool" where
  "table_ok t \<longleftrightarrow> hm_ok (lt_leases t) \<and> length (lt_leases t) \<le> MAX_LEASES"

lemma table_ok_lazily: "table_ok t \<Longrightarrow> table_ok (snd (lazily_expire lid now t))"
  by (simp add: table_ok_def lazily_hm lazily_length)

lemma table_ok_same: "lt_leases t' = lt_leases t \<Longrightarrow> table_ok t \<Longrightarrow> table_ok t'"
  by (simp add: table_ok_def)

lemma table_ok_replace:
  "table_ok t \<Longrightarrow> map_of (lt_leases t) lid = Some e \<Longrightarrow> lt_leases t' = hm_insert lid e' (lt_leases t) \<Longrightarrow> table_ok t'"
  by (simp add: table_ok_def hm.ok_insert replace_length)

lemma table_ok_transition: "table_ok t \<Longrightarrow> table_ok (snd (transition now lid holder epoch sources to t))"
  by (cases rule: transition_cases [of now lid holder epoch sources to t])
    (auto intro: table_ok_same table_ok_same [OF _ table_ok_lazily] table_ok_replace)

lemma table_ok_step: "table_ok t \<Longrightarrow> table_ok (snd (lease_do op t))"
proof (cases op)
  case (LPrepare now raw req)
  assume t: "table_ok t"
  show ?thesis
  proof (cases rule: prepare_cases [of now raw req t])
    case adds
    then show ?thesis
      using t insert_length [of "lease_id_random raw" "new_entry now req" "lt_leases t"] LPrepare
      by (simp add: table_ok_def hm.ok_insert)
  qed (use t LPrepare table_ok_lazily in \<open>auto intro: table_ok_same\<close>)
next
  case (LActivate now lid holder epoch digest)
  assume "table_ok t"
  then show ?thesis
    using LActivate table_ok_transition
    by (cases rule: activate_cases [of now lid holder epoch digest t])
      (auto intro: table_ok_same table_ok_same [OF _ table_ok_lazily])
next
  case (LRenew now lid holder epoch ext)
  assume t: "table_ok t"
  show ?thesis
  proof (cases rule: checked_cases [of now lid holder epoch t])
    case (granted e)
    show ?thesis
      by (rule table_ok_replace [OF t granted(2), of _ "e\<lparr>lz_expires_at_secs := u64_saturating_add now ext\<rparr>"])
        (simp add: LRenew lease_renew_def granted(1) Let_def)
  next
    case (refused err)
    then show ?thesis using t LRenew by (auto simp: lease_renew_def intro: table_ok_same)
  next
    case expired
    show ?thesis by (rule table_ok_same [OF _ table_ok_lazily [OF t]])
        (simp add: LRenew lease_renew_def expired refuse_def)
  qed
next
  case (LCleanup now)
  assume t: "table_ok t"
  let ?t = "fold (\<lambda>lid t. snd (lazily_expire lid now t)) (map fst (lt_leases t)) t"
  have "table_ok ?t" using t by (simp add: table_ok_def fold_lazily_keeps)
  then show ?thesis
    using fold_remove_length [of _ ?t] fold_remove_keeps(1) [of ?t]
    by (auto simp: LCleanup lease_cleanup_def Let_def table_ok_def intro: le_trans)
qed (simp_all add: lease_commit_def lease_abort_def lease_release_def lease_state_of_def Let_def
    table_ok_transition table_ok_lazily)

text \<open>A lease that is live was live before, under the same keys, unless it is new.\<close>

lemma moves_live:
  "lease_moves op epoch lid e (Some e') \<Longrightarrow> is_live (lz_state e') \<Longrightarrow> is_live (lz_state e)"
  "lease_moves op epoch lid e (Some e') \<Longrightarrow> same_lease e e'"
  by (auto simp: lease_moves_def drives_def same_lease_def)

lemma exclusive_step:
  assumes ok: "hm_ok (lt_leases t)" and ex: "exclusive t"
  shows "exclusive (snd (lease_do op t))"
proof -
  let ?m = "map_of (lt_leases (snd (lease_do op t)))"
  have old: "(\<exists>e. map_of (lt_leases t) i = Some e \<and> is_live (lz_state e) \<and> lz_conflict_keys e = lz_conflict_keys e')
      \<or> (\<exists>now raw req. op = LPrepare now raw req \<and> i = lease_id_random raw \<and> e' = new_entry now req
          \<and> (\<forall>key\<in>set (lq_conflict_keys req). \<not> held t key))"
    if i: "?m i = Some e'" "is_live (lz_state e')" for i e'
  proof (cases "map_of (lt_leases t) i")
    case None
    then show ?thesis using lease_step_new [OF ok i(1)] by blast
  next
    case (Some e)
    show ?thesis
    proof (cases "fresh_id op i")
      case True
      then have "lease_moves op (lt_boot_epoch t) i e (Some e')"
        using lease_step_moves [OF ok _ Some, of op] i(1) by simp
      from moves_live(1) [OF this i(2)] moves_live(2) [OF this] show ?thesis
        using Some by (auto simp: same_lease_def)
    next
      case False
      then obtain now raw req where op: "op = LPrepare now raw req" "lease_id_random raw = i" by (cases op) auto
      show ?thesis
        using i op Some
        by (cases rule: prepare_cases [of now raw req t]) (auto simp: lazily_lookup hm_lookup split: if_splits)
    qed
  qed
  have free: "\<not> (map_of (lt_leases t) j = Some f \<and> is_live (lz_state f) \<and> key \<in> set (lz_conflict_keys f))"
    if "\<not> held t key" for j f key
    using that by (auto simp: held_iff [OF ok])
  have keys: "lz_conflict_keys (new_entry now req) = lq_conflict_keys req" for now req by (simp add: new_entry_def)
  show ?thesis
    unfolding exclusive_def
  proof (intro allI impI)
    fix i j e f key
    assume *: "?m i = Some e" "?m j = Some f" "is_live (lz_state e)" "is_live (lz_state f)"
      "key \<in> set (lz_conflict_keys e)" "key \<in> set (lz_conflict_keys f)"
    have new: "\<not> (map_of (lt_leases t) j = Some f' \<and> is_live (lz_state f') \<and> key \<in> set (lz_conflict_keys f'))"
      if "e' = new_entry now req" "\<forall>key\<in>set (lq_conflict_keys req). \<not> held t key" "key \<in> set (lz_conflict_keys e')"
      for e' now req j f'
      using that free keys by metis
    from old [OF *(1,3)] consider (old) e' where "map_of (lt_leases t) i = Some e'" "is_live (lz_state e')"
        "lz_conflict_keys e' = lz_conflict_keys e"
      | (new) now raw req where "op = LPrepare now raw req" "i = lease_id_random raw" "e = new_entry now req"
        "\<forall>key\<in>set (lq_conflict_keys req). \<not> held t key" by blast
    then show "i = j"
    proof cases
      case i: old
      from old [OF *(2,4)] consider (old) f' where "map_of (lt_leases t) j = Some f'" "is_live (lz_state f')"
          "lz_conflict_keys f' = lz_conflict_keys f"
        | (new) now req where "f = new_entry now req" "\<forall>key\<in>set (lq_conflict_keys req). \<not> held t key" by blast
      then show ?thesis
      proof cases
        case old
        have "key \<in> set (lz_conflict_keys e')" "key \<in> set (lz_conflict_keys f')" using i(3) old(3) *(5,6) by simp_all
        then show ?thesis using ex i(1,2) old(1,2) unfolding exclusive_def by blast
      next
        case f: new
        have "key \<in> set (lz_conflict_keys e')" using i(3) *(5) by simp
        then show ?thesis using new [OF f *(6)] i(1,2) by blast
      qed
    next
      case e: new
      from old [OF *(2,4)] consider (old) f' where "map_of (lt_leases t) j = Some f'" "is_live (lz_state f')"
          "lz_conflict_keys f' = lz_conflict_keys f"
        | (new) now' raw' req' where "op = LPrepare now' raw' req'" "j = lease_id_random raw'" by blast
      then show ?thesis
      proof cases
        case old
        have "key \<in> set (lz_conflict_keys f')" using old(3) *(6) by simp
        then show ?thesis using new [OF e(3,4) *(5)] old(1,2) by blast
      next
        case new
        then show ?thesis using e by simp
      qed
    qed
  qed
qed

lemma lease_inv_step: "lease_inv t \<Longrightarrow> lease_inv (snd (lease_do op t))"
  using table_ok_step [of t op] exclusive_step [of t op] by (simp add: lease_inv_def table_ok_def)

lemma lease_run_append: "lease_run (ops @ ops') t = lease_run ops' (lease_run ops t)"
  by (simp add: lease_run_def)

lemma lease_run_Cons: "lease_run (op # ops) t = lease_run ops (snd (lease_do op t))"
  by (simp add: lease_run_def)

lemma lease_inv_run: "lease_inv t \<Longrightarrow> lease_inv (lease_run ops t)"
proof (induction ops arbitrary: t)
  case (Cons op ops)
  then show ?case using lease_inv_step [of t op] by (simp add: lease_run_Cons)
qed (simp add: lease_run_def)

lemma lease_inv_new: "lease_inv (lease_table_new epoch)"
  by (simp add: lease_inv_def lease_table_new_def hm_ok_def exclusive_def)

lemma prepare_epoch: "lt_boot_epoch (snd (lease_prepare now raw req t)) = lt_boot_epoch t"
  by (simp add: lease_prepare_def prepare_new_def case_prod_unfold Let_def split: option.split)

lemma activate_epoch: "lt_boot_epoch (snd (lease_activate now lid holder epoch digest t)) = lt_boot_epoch t"
  by (cases rule: checked_cases [of now lid holder epoch t]) (simp_all add: lease_activate_def refuse_def)

lemma renew_epoch: "lt_boot_epoch (snd (lease_renew now lid holder epoch ext t)) = lt_boot_epoch t"
  by (cases rule: checked_cases [of now lid holder epoch t]) (simp_all add: lease_renew_def refuse_def Let_def)

lemma lease_epoch_step: "lt_boot_epoch (snd (lease_do op t)) = lt_boot_epoch t"
  by (cases op) (simp_all add: prepare_epoch activate_epoch renew_epoch lease_commit_def lease_abort_def
      lease_release_def lease_state_of_def lease_cleanup_def Let_def fold_remove_keeps(2) fold_lazily_keeps(2))

lemma lease_epoch_run: "lt_boot_epoch (lease_run ops t) = lt_boot_epoch t"
proof (induction ops arbitrary: t)
  case (Cons op ops)
  then show ?case by (simp add: lease_run_Cons lease_epoch_step)
qed (simp add: lease_run_def)

end
