(* ===== verification/Lease_Guarantee.thy ===== *)
theory Lease_Guarantee
  imports Lease_Life
begin

text \<open>
  The properties of the lease table over every run, and where it does otherwise than documented: an
  overdue lease that nobody touched keeps its keys, and a finished lease can be renewed.
\<close>

section \<open>Exclusive keys and the life cycle\<close>

text \<open>
  (C34) Exclusivity. After any operations, at any times, with any random ids: two live leases that name a common
  conflict key are the same lease, and the table holds at most 8192 leases.
\<close>

theorem lease_exclusive:
  "length (lt_leases (lease_run ops (lease_table_new epoch))) \<le> 8192 \<and> exclusive (lease_run ops (lease_table_new epoch))"
  using lease_inv_run [OF lease_inv_new, of ops epoch] unfolding lease_inv_def by (simp add: MAX_LEASES_def)

text \<open>
  (C35) The life cycle. In any reachable table one operation leaves a lease as it is, or expires it when its time
  is over, or takes the one step its holder asks for in the current boot epoch before that time: Prepared to
  Committed, Committed to Executing with the digest prepared, Prepared or Committed to Aborted,
  Executing to Released, or another deadline; a cleanup removes exactly the finished and overdue ones.
  Nothing else happens to it, so a finished lease stays finished; and the leases that appear are those
  prepared, under keys no live lease held.
\<close>

theorem lease_life_cycle:
  assumes "t = lease_run ops (lease_table_new epoch)" and "fresh_id op lid"
  shows "(case map_of (lt_leases t) lid of
      Some e \<Rightarrow> lease_moves op epoch lid e (map_of (lt_leases (snd (lease_do op t))) lid)
        \<and> (op = LCleanup (op_time op) \<longrightarrow>
             (map_of (lt_leases (snd (lease_do op t))) lid = None \<longleftrightarrow> \<not> is_live (lz_state e) \<or> lease_overdue (op_time op) e))
    | None \<Rightarrow> map_of (lt_leases (snd (lease_do op t))) lid = None)"
proof -
  have inv: "hm_ok (lt_leases t)" using lease_inv_run [OF lease_inv_new, of ops epoch] by (simp add: assms(1) lease_inv_def)
  have epoch: "lt_boot_epoch t = epoch" by (simp add: assms(1) lease_epoch_run lease_table_new_def)
  show ?thesis
  proof (cases "map_of (lt_leases t) lid")
    case None
    have "map_of (lt_leases (snd (lease_do op t))) lid = None"
    proof (cases "map_of (lt_leases (snd (lease_do op t))) lid")
      case (Some e')
      then show ?thesis using lease_step_new [OF inv Some None] assms(2) by (cases op) auto
    qed
    then show ?thesis using None by simp
  next
    case (Some e)
    have "map_of (lt_leases (snd (lease_do op t))) lid = None \<longleftrightarrow> \<not> is_live (lz_state e) \<or> lease_overdue (op_time op) e"
      if "op = LCleanup (op_time op)"
    proof -
      obtain now where "op = LCleanup now" using \<open>op = LCleanup (op_time op)\<close> by blast
      then show ?thesis using Some by (simp add: cleanup_lookup [OF inv])
    qed
    then show ?thesis using lease_step_moves [OF inv assms(2) Some] Some epoch by simp
  qed
qed

section \<open>The course of a lease\<close>

text \<open>Operations that come before the deadline and do not drive the lease \<open>lid\<close> of \<open>holder\<close>.\<close>

fun asks_for :: "lease_id \<Rightarrow> 'n \<Rightarrow> 'n lease_op \<Rightarrow> bool" where
  "asks_for lid holder (LCommit _ lid' holder' _) \<longleftrightarrow> lid' = lid \<and> holder' = holder"
| "asks_for lid holder (LActivate _ lid' holder' _ _) \<longleftrightarrow> lid' = lid \<and> holder' = holder"
| "asks_for lid holder (LRenew _ lid' holder' _ _) \<longleftrightarrow> lid' = lid \<and> holder' = holder"
| "asks_for lid holder (LAbort _ lid' holder' _) \<longleftrightarrow> lid' = lid \<and> holder' = holder"
| "asks_for lid holder (LRelease _ lid' holder' _) \<longleftrightarrow> lid' = lid \<and> holder' = holder"
| "asks_for lid holder _ \<longleftrightarrow> False"

definition others_until :: "u64 \<Rightarrow> lease_id \<Rightarrow> 'n \<Rightarrow> 'n lease_op list \<Rightarrow> bool" where
  "others_until deadline lid holder ops \<longleftrightarrow>
     list_all (\<lambda>op. op_time op < deadline \<and> \<not> asks_for lid holder op \<and> fresh_id op lid) ops"

lemma others_leave:
  assumes "lease_inv t" and "map_of (lt_leases t) lid = Some e" and "is_live (lz_state e)"
    and "others_until (lz_expires_at_secs e) lid (lz_holder e) ops"
  shows "map_of (lt_leases (lease_run ops t)) lid = Some e"
  using assms
proof (induction ops arbitrary: t)
  case (Cons op ops)
  have op: "op_time op < lz_expires_at_secs e" "\<not> asks_for lid (lz_holder e) op" "fresh_id op lid"
    using Cons.prems(4) by (auto simp: others_until_def)
  have hm: "hm_ok (lt_leases t)" using Cons.prems(1) by (simp add: lease_inv_def)
  have "lease_moves op (lt_boot_epoch t) lid e (map_of (lt_leases (snd (lease_do op t))) lid)"
    by (rule lease_step_moves [OF hm op(3) Cons.prems(2)])
  moreover have "\<not> lease_overdue (op_time op) e" using op(1) by (simp add: lease_overdue_def not_le)
  moreover have "\<not> drives op epoch lid e e'" for epoch e' using op(2) by (auto simp: drives_def)
  ultimately have "map_of (lt_leases (snd (lease_do op t))) lid = Some e"
    using Cons.prems(3) by (auto simp: lease_moves_def split: option.splits)
  then show ?case
    using Cons.IH [OF lease_inv_step [OF Cons.prems(1)]] Cons.prems(3,4) by (simp add: lease_run_Cons others_until_def)
qed (simp add: lease_run_def)

text \<open>A step the holder takes in time succeeds.\<close>

lemma transition_succeeds:
  assumes "map_of (lt_leases t) lid = Some e" and "now < lz_expires_at_secs e" and "lz_state e \<in> set sources"
    and "is_live (lz_state e)"
  shows "fst (transition now lid (lz_holder e) (lt_boot_epoch t) sources to t) = Inr ()"
    and "map_of (lt_leases (snd (transition now lid (lz_holder e) (lt_boot_epoch t) sources to t))) lid = Some (e\<lparr>lz_state := to\<rparr>)"
proof -
  have "\<not> (lease_overdue now e \<or> lz_state e = Expired)" using assms(2,4) by (auto simp: lease_overdue_def not_le)
  then have no: "fst (lazily_expire lid now t) = False" using lazily_answer [OF assms(1), of now] by simp
  have "lazily_expire lid now t = (False, t)" using no lazily_not [OF no] by (metis prod.collapse)
  then have "checked_entry now lid (lz_holder e) (lt_boot_epoch t) t = (Inr e, t)"
    using assms(1) by (simp add: checked_entry_def)
  then show "fst (transition now lid (lz_holder e) (lt_boot_epoch t) sources to t) = Inr ()"
    and "map_of (lt_leases (snd (transition now lid (lz_holder e) (lt_boot_epoch t) sources to t))) lid = Some (e\<lparr>lz_state := to\<rparr>)"
    using assms(3) by (simp_all add: transition_def hm_lookup)
qed

lemma activate_succeeds:
  assumes "map_of (lt_leases t) lid = Some e" and "now < lz_expires_at_secs e" and "lz_state e = Committed"
  shows "fst (lease_activate now lid (lz_holder e) (lt_boot_epoch t) (lz_plan_digest e) t) = Inr ()"
    and "map_of (lt_leases (snd (lease_activate now lid (lz_holder e) (lt_boot_epoch t) (lz_plan_digest e) t))) lid = Some (e\<lparr>lz_state := Executing\<rparr>)"
proof -
  have "lease_activate now lid (lz_holder e) (lt_boot_epoch t) (lz_plan_digest e) t =
      transition now lid (lz_holder e) (lt_boot_epoch t) [Committed] Executing t"
  proof (cases rule: checked_cases [of now lid "lz_holder e" "lt_boot_epoch t" t])
    case (granted e')
    then show ?thesis using assms(1) by (simp add: lease_activate_def)
  next
    case (refused err)
    have "checked_entry now lid (lz_holder e) (lt_boot_epoch t) t = (Inr e, t) \<or> fst (lazily_expire lid now t)"
      using assms(1) lazily_not [of lid now t] by (cases "lazily_expire lid now t") (auto simp: checked_entry_def)
    then show ?thesis using refused lazily_answer [OF assms(1), of now] assms(2,3) by (auto simp: lease_overdue_def not_le)
  next
    case expired
    have "checked_entry now lid (lz_holder e) (lt_boot_epoch t) t = (Inr e, t) \<or> fst (lazily_expire lid now t)"
      using assms(1) lazily_not [of lid now t] by (cases "lazily_expire lid now t") (auto simp: checked_entry_def)
    then show ?thesis using expired lazily_answer [OF assms(1), of now] assms(2,3) by (auto simp: lease_overdue_def not_le refuse_def)
  qed
  then show "fst (lease_activate now lid (lz_holder e) (lt_boot_epoch t) (lz_plan_digest e) t) = Inr ()"
    and "map_of (lt_leases (snd (lease_activate now lid (lz_holder e) (lt_boot_epoch t) (lz_plan_digest e) t))) lid = Some (e\<lparr>lz_state := Executing\<rparr>)"
    using transition_succeeds [OF assms(1,2), of "[Committed]" Executing] assms(3) by simp_all
qed

lemma prepare_succeeds:
  assumes "Option.bind (lq_idempotency_key req) (map_of (lt_idempotency t)) = None"
    and "length (lt_leases t) < MAX_LEASES" and "list_all (\<lambda>key. \<not> held t key) (lq_conflict_keys req)"
  shows "fst (lease_prepare now raw req t) =
      Inr (grant t (lease_id_random raw) (u64_saturating_add now (lq_ttl_secs req)))"
    and "map_of (lt_leases (snd (lease_prepare now raw req t))) (lease_id_random raw) = Some (new_entry now req)"
proof -
  have free: "find (held t) (lq_conflict_keys req) = None" using assms(3) by (simp add: find_None_iff list_all_iff)
  show "fst (lease_prepare now raw req t) =
      Inr (grant t (lease_id_random raw) (u64_saturating_add now (lq_ttl_secs req)))"
    using assms(1,2) free
    by (simp add: lease_prepare_def prepare_new_def Let_def grant_def split: option.split)
  show "map_of (lt_leases (snd (lease_prepare now raw req t))) (lease_id_random raw) = Some (new_entry now req)"
    using assms(1,2) free
    by (simp add: lease_prepare_def prepare_new_def Let_def new_entry_def hm_lookup split: option.split)
qed

text \<open>Once the lease that holds a key has ended, the key is free.\<close>

lemma ended_frees:
  assumes "lease_inv t" and "map_of (lt_leases t) lid = Some e" and "is_live (lz_state e)"
    and "lease_inv t'" and "\<And>k. k \<noteq> lid \<Longrightarrow> map_of (lt_leases t') k = map_of (lt_leases t) k"
    and "map_of (lt_leases t') lid = Some e'" and "\<not> is_live (lz_state e')"
  shows "list_all (\<lambda>key. \<not> held t' key) (lz_conflict_keys e)"
proof -
  have ok: "hm_ok (lt_leases t')" and ex: "exclusive t" using assms(1,4) by (simp_all add: lease_inv_def)
  have "\<not> (map_of (lt_leases t') j = Some f \<and> is_live (lz_state f) \<and> key \<in> set (lz_conflict_keys f))"
    if "key \<in> set (lz_conflict_keys e)" for key j f
  proof
    assume j: "map_of (lt_leases t') j = Some f \<and> is_live (lz_state f) \<and> key \<in> set (lz_conflict_keys f)"
    have "j \<noteq> lid" using j assms(6,7) by auto
    then have "map_of (lt_leases t) j = Some f" using j assms(5) by simp
    then have "j = lid" using ex assms(2,3) j that unfolding exclusive_def by blast
    then show False using \<open>j \<noteq> lid\<close> by simp
  qed
  then show ?thesis by (auto simp: list_all_iff held_iff [OF ok])
qed

lemma transition_others:
  "k \<noteq> lid \<Longrightarrow> map_of (lt_leases (snd (transition now lid holder epoch sources to t))) k = map_of (lt_leases t) k"
proof (cases rule: transition_cases [of now lid holder epoch sources to t])
  case (expires err)
  assume "k \<noteq> lid"
  then show ?thesis using expires by (simp add: lazily_lookup split: option.split)
qed (simp_all add: hm_lookup)

text \<open>
  (C36) A lease runs its course. Whatever the history of the table: when it has room, no live lease holds a requested
  key and the idempotency key is not in use, \<open>prepare\<close> grants the lease; and if its holder commits,
  activates with the digest prepared, and releases, each before the deadline, then each of the three
  succeeds, whatever other operations (by anyone, on any lease) come in between before the deadline. After
  the release none of its keys is held.
\<close>

theorem lease_runs_its_course:
  assumes "t = lease_run ops (lease_table_new epoch)"
    and "Option.bind (lq_idempotency_key req) (map_of (lt_idempotency t)) = None"
    and "length (lt_leases t) < MAX_LEASES" and "list_all (\<lambda>key. \<not> held t key) (lq_conflict_keys req)"
    and "lid = lease_id_random raw" and "deadline = u64_saturating_add now (lq_ttl_secs req)"
    and "list_all (\<lambda>s. s < deadline) [s1, s2, s3]"
    and "list_all (others_until deadline lid (lq_holder req)) [a, b, c]"
    and "ta = lease_run a (snd (lease_prepare now raw req t))"
    and "tb = lease_run b (snd (lease_commit s1 lid (lq_holder req) epoch ta))"
    and "tc = lease_run c (snd (lease_activate s2 lid (lq_holder req) epoch (lq_plan_digest req) tb))"
  shows "fst (lease_prepare now raw req t) = Inr \<lparr>ls_id = lid, ls_boot_epoch = epoch, ls_expires_at_secs = deadline\<rparr>
    \<and> fst (lease_commit s1 lid (lq_holder req) epoch ta) = Inr ()
    \<and> fst (lease_activate s2 lid (lq_holder req) epoch (lq_plan_digest req) tb) = Inr ()
    \<and> fst (lease_release s3 lid (lq_holder req) epoch tc) = Inr ()
    \<and> list_all (\<lambda>key. \<not> held (snd (lease_release s3 lid (lq_holder req) epoch tc)) key) (lq_conflict_keys req)"
proof -
  let ?h = "lq_holder req" let ?e = "new_entry now req"
  have times: "s1 < deadline" "s2 < deadline" "s3 < deadline"
    and others: "others_until deadline lid ?h a" "others_until deadline lid ?h b" "others_until deadline lid ?h c"
    using assms(7,8) by simp_all
  have e: "lz_holder ?e = ?h" "lz_expires_at_secs ?e = deadline" "lz_state ?e = Prepared"
    "lz_plan_digest ?e = lq_plan_digest req" "lz_conflict_keys ?e = lq_conflict_keys req"
    by (simp_all add: new_entry_def assms(6))
  note step = lease_inv_step [where op = "LPrepare now raw req", simplified answer_def lease_do.simps snd_conv]
    lease_inv_step [where op = "LCommit s1 lid ?h epoch", simplified answer_def lease_do.simps snd_conv]
    lease_inv_step [where op = "LActivate s2 lid ?h epoch (lq_plan_digest req)", simplified answer_def lease_do.simps snd_conv]
    lease_inv_step [where op = "LRelease s3 lid ?h epoch", simplified answer_def lease_do.simps snd_conv]
  have t: "lease_inv t" "lt_boot_epoch t = epoch"
    using lease_inv_run [OF lease_inv_new] by (simp_all add: assms(1) lease_epoch_run lease_table_new_def)
  have prepared: "fst (lease_prepare now raw req t) = Inr (grant t lid deadline)"
    "map_of (lt_leases (snd (lease_prepare now raw req t))) lid = Some ?e"
    using prepare_succeeds [OF assms(2-4), of now raw] by (simp_all add: assms(5,6))
  have ta: "lease_inv ta" "lt_boot_epoch ta = epoch" "map_of (lt_leases ta) lid = Some ?e"
    using lease_inv_run [OF step(1) [OF t(1)]] others_leave [OF step(1) [OF t(1)] prepared(2)] others(1) e
    by (simp_all add: assms(9) lease_epoch_run prepare_epoch t(2))
  have commit: "fst (lease_commit s1 lid ?h epoch ta) = Inr ()"
    "map_of (lt_leases (snd (lease_commit s1 lid ?h epoch ta))) lid = Some (?e\<lparr>lz_state := Committed\<rparr>)"
    using transition_succeeds [OF ta(3), of s1 "[Prepared]" Committed] times(1) e
    by (simp_all add: lease_commit_def ta(2))
  have tb: "lease_inv tb" "lt_boot_epoch tb = epoch" "map_of (lt_leases tb) lid = Some (?e\<lparr>lz_state := Committed\<rparr>)"
    using lease_inv_run [OF step(2) [OF ta(1)]] others_leave [OF step(2) [OF ta(1)] commit(2)] others(2) e
      lease_epoch_step [of "LCommit s1 lid ?h epoch" ta]
    by (simp_all add: assms(10) lease_epoch_run answer_def ta(2))
  have activate: "fst (lease_activate s2 lid ?h epoch (lq_plan_digest req) tb) = Inr ()"
    "map_of (lt_leases (snd (lease_activate s2 lid ?h epoch (lq_plan_digest req) tb))) lid = Some (?e\<lparr>lz_state := Executing\<rparr>)"
    using activate_succeeds [OF tb(3), of s2] times(2) e by (simp_all add: tb(2))
  have tc: "lease_inv tc" "lt_boot_epoch tc = epoch" "map_of (lt_leases tc) lid = Some (?e\<lparr>lz_state := Executing\<rparr>)"
    using lease_inv_run [OF step(3) [OF tb(1)]] others_leave [OF step(3) [OF tb(1)] activate(2)] others(3) e
    by (simp_all add: assms(11) lease_epoch_run activate_epoch tb(2))
  have release: "fst (lease_release s3 lid ?h epoch tc) = Inr ()"
    "map_of (lt_leases (snd (lease_release s3 lid ?h epoch tc))) lid = Some (?e\<lparr>lz_state := Released\<rparr>)"
    using transition_succeeds [OF tc(3), of s3 "[Executing]" Released] times(3) e
    by (simp_all add: lease_release_def tc(2))
  have "list_all (\<lambda>key. \<not> held (snd (lease_release s3 lid ?h epoch tc)) key) (lz_conflict_keys (?e\<lparr>lz_state := Executing\<rparr>))"
    by (rule ended_frees [OF tc(1,3) _ step(4) [OF tc(1)] _ release(2)]) (simp_all add: lease_release_def transition_others)
  then show ?thesis using prepared(1) commit(1) activate(1) release(1) e(5) by (simp add: grant_def t(2))
qed

section \<open>Witnesses\<close>

definition gpu_request :: "string lease_request" where
  "gpu_request = \<lparr>lq_holder = ''alice'', lq_conflict_keys = [''gpu''], lq_plan_digest = ''plan'', lq_idempotency_key = None, lq_ttl_secs = 60\<rparr>"

definition bobs_ops :: "string lease_op list" where
  "bobs_ops = [LCommit 105 (lease_id_random [7]) ''bob'' 3, LPrepare 106 [9] (gpu_request\<lparr>lq_holder := ''bob''\<rparr>), LCleanup 107]"

theorem lease_life_cycle_witness:
  "case map_of (lt_leases (lease_run [LPrepare 100 [7] gpu_request] (lease_table_new 3))) (lease_id_random [7]) of
      Some e \<Rightarrow> lease_moves (LCommit 101 (lease_id_random [7]) ''alice'' 3) 3 (lease_id_random [7]) e
        (map_of (lt_leases (snd (lease_do (LCommit 101 (lease_id_random [7]) ''alice'' 3)
           (lease_run [LPrepare 100 [7] gpu_request] (lease_table_new 3))))) (lease_id_random [7]))
    | None \<Rightarrow> False"
proof -
  have "\<not> Option.is_none (map_of (lt_leases (lease_run [LPrepare 100 [7] gpu_request] (lease_table_new 3))) (lease_id_random [7]))"
    by code_simp
  then obtain e where some: "map_of (lt_leases (lease_run [LPrepare 100 [7] gpu_request] (lease_table_new 3))) (lease_id_random [7]) = Some e"
    by (auto simp: Option.is_none_def)
  show ?thesis
    using some lease_life_cycle [OF refl, of "LCommit 101 (lease_id_random [7]) ''alice'' 3" "lease_id_random [7]"
        "[LPrepare 100 [7] gpu_request]" 3]
    by auto
qed

theorem lease_runs_its_course_witness:
  "fst (lease_release 120 (lease_id_random [7]) ''alice'' 3
     (lease_run [LState 115 (lease_id_random [7])] (snd (lease_activate 110 (lease_id_random [7]) ''alice'' 3 ''plan''
       (lease_run [] (snd (lease_commit 108 (lease_id_random [7]) ''alice'' 3
         (lease_run bobs_ops (snd (lease_prepare 100 [7] gpu_request (lease_table_new 3))))))))))) = Inr ()"
proof -
  have new: "lease_table_new 3 = lease_run [] (lease_table_new 3)" by (simp add: lease_run_def)
  have room: "length (lt_leases (lease_table_new 3)) < MAX_LEASES" "Option.bind (lq_idempotency_key gpu_request) (map_of (lt_idempotency (lease_table_new 3))) = None"
    by (simp_all add: MAX_LEASES_def lease_table_new_def gpu_request_def)
  have free: "list_all (\<lambda>key. \<not> held (lease_table_new 3) key) (lq_conflict_keys gpu_request)" by code_simp
  have times: "list_all (\<lambda>s. s < u64_saturating_add 100 (lq_ttl_secs gpu_request)) [108, 110, 120]" by code_simp
  have others: "list_all (others_until (u64_saturating_add 100 (lq_ttl_secs gpu_request)) (lease_id_random [7]) (lq_holder gpu_request))
      [bobs_ops, [], [LState 115 (lease_id_random [7])]]" by code_simp
  have req: "lq_holder gpu_request = ''alice''" "lq_plan_digest gpu_request = ''plan''" by (simp_all add: gpu_request_def)
  show ?thesis
    using lease_runs_its_course [OF new room(2,1) free refl refl times others refl refl refl] unfolding req by blast
qed

section \<open>Two departures from the documentation\<close>

text \<open>
  \<open>prepare\<close> expires no lease but the one it replays: a lease whose time is over still blocks its keys, until
  somebody asks for that lease or a cleanup runs.
\<close>

lemma overdue_lease_still_blocks:
  "fst (lease_prepare 9000 [9] gpu_request (snd (lease_prepare 100 [7] gpu_request (lease_table_new 3)))) = Inl (LeaseConflict ''gpu'')"
  by code_simp

text \<open>\<open>renew\<close> accepts a lease that has been released: its answer is a lease nobody holds any more.\<close>

lemma released_lease_renewed:
  "(let (r, t) = lease_prepare 100 [7] gpu_request (lease_table_new 3); lid = lease_id_random [7];
        t = snd (lease_commit 101 lid ''alice'' 3 t);
        t = snd (lease_activate 102 lid ''alice'' 3 ''plan'' t);
        t = snd (lease_release 103 lid ''alice'' 3 t)
    in (fst (lease_state_of 104 lid t), fst (lease_renew 104 lid ''alice'' 3 60 t))) =
   (Some Released, Inr \<lparr>ls_id = lease_id_random [7], ls_boot_epoch = 3, ls_expires_at_secs = 164\<rparr>)"
  by code_simp

end
