(* ===== verification/Link_Table.thy ===== *)
theory Link_Table
  imports Maps
begin

text \<open>
  The live links of a device (\<open>ndn-link/src/table.rs\<close>): one entry per linked device, by the fingerprint of
  its key, with the paths that reach it. The table is a record, each operation a function that returns its
  answer, the closes it sends and the table it leaves. A fingerprint is 32 bytes that compare byte by
  byte: a word of 256 bits. Faces, handles and names are parameters; a path's sender, its start time
  and its cancellation token decide nothing here and are left out.
\<close>

type_synonym key_fingerprint = "256 word"
type_synonym peer_id = nat
type_synonym face_id = u64

datatype link_direction = Dialed | DialAccepted

datatype path_kind = PathLink | PathDirect | PathRelay

datatype close_reason =
  CloseShutdown | CloseReplaced | CloseIdle | CloseEnrolled | ClosePathExpired | CloseAsleep | CloseReleased
| CloseUnrecognized | CloseCertificateForAnotherKey | CloseRevoked | CloseRoleNotAllowed | CloseNotTheExpectedDevice
| CloseProtocol | CloseBusy | CloseNoLinkKey | CloseDirectPathsOff | CloseNotServed | CloseMembershipNotBound

record 'n link_route =
  lr_prefix :: 'n
  lr_cost :: u32

record 'n link_identity =
  li_namespace :: 'n
  li_version :: u64
  li_device :: 'n
  li_role :: string
  li_certificates :: "'n list"
  li_served :: "key_fingerprint option"

record ('h, 'n) link_path =
  lp_face :: face_id
  lp_handle :: 'h
  lp_direction :: link_direction
  lp_kind :: path_kind
  lp_routes :: "'n link_route list"

record ('h, 'n) live_path =
  vp_path :: "('h, 'n) link_path"
  vp_generation :: u64

record ('h, 'n) live_link =
  lk_peer :: "peer_id option"
  lk_identities :: "'n link_identity list"
  lk_shown :: "'n list"
  lk_enrolling :: "'n list"
  lk_paths :: "('h, 'n) live_path list"

record ('h, 'n) registration =
  rg_fingerprint :: key_fingerprint
  rg_peer :: "peer_id option"
  rg_identities :: "'n link_identity list"
  rg_shown :: "'n list"
  rg_enrolling :: "'n list"
  rg_path :: "('h, 'n) link_path"

record ('h, 'n) link_table =
  tb_live :: "(key_fingerprint \<times> ('h, 'n) live_link) list"
  tb_generation :: u64
  tb_relink :: "peer_id list"

record 'n path_ended =
  pe_peer :: "peer_id option"
  pe_identities :: "'n link_identity list"
  pe_kind :: path_kind
  pe_routes :: "'n link_route list"
  pe_enrolling :: bool
  pe_last :: bool

record ('h, 'n) link_member =
  mb_fingerprint :: key_fingerprint
  mb_identity :: "'n link_identity"
  mb_handle :: 'h

record ('h, 'n) membership_dropped =
  md_namespace :: 'n
  md_routes :: "(face_id \<times> 'n list) list"
  md_handle :: "'h option"

type_synonym 'h closes = "('h \<times> close_reason) list"

definition link_table_new :: "('h, 'n) link_table" where
  "link_table_new = \<lparr>tb_live = [], tb_generation = 0, tb_relink = []\<rparr>"

section \<open>Registering and ending paths\<close>

definition keeps_existing ::
    "link_direction \<Rightarrow> link_direction \<Rightarrow> key_fingerprint option \<Rightarrow> key_fingerprint \<Rightarrow> bool" where
  "keeps_existing existing new mine theirs \<longleftrightarrow>
     existing \<noteq> new \<and> (case mine of None \<Rightarrow> False | Some mine \<Rightarrow> (existing = Dialed) = (mine < theirs))"

definition of_kind :: "path_kind \<Rightarrow> ('h, 'n) live_path \<Rightarrow> bool" where
  "of_kind kind p \<longleftrightarrow> lp_kind (vp_path p) = kind"

definition join_link ::
    "('h, 'n) registration \<Rightarrow> ('h, 'n) live_path \<Rightarrow> ('h, 'n) live_link \<Rightarrow> ('h, 'n) live_link" where
  "join_link reg new l =
     (let kind = lp_kind (rg_path reg);
          l = l\<lparr>lk_paths := filter (\<lambda>p. \<not> of_kind kind p) (lk_paths l)\<rparr>;
          l = (if rg_peer reg \<noteq> None then l\<lparr>lk_peer := rg_peer reg\<rparr> else l);
          l = (if rg_identities reg \<noteq> [] then l\<lparr>lk_identities := rg_identities reg\<rparr> else l);
          l = (if kind = PathLink then l\<lparr>lk_enrolling := rg_enrolling reg, lk_shown := rg_shown reg\<rparr> else l)
      in l\<lparr>lk_paths := lk_paths l @ [new]\<rparr>)"

definition link_register ::
    "('h, 'n) registration \<Rightarrow> key_fingerprint option \<Rightarrow> ('h, 'n) link_table
      \<Rightarrow> u64 option \<times> 'h closes \<times> ('h, 'n) link_table" where
  "link_register reg mine t =
     (let generation = tb_generation t + 1;
          t = t\<lparr>tb_generation := generation\<rparr>;
          kind = lp_kind (rg_path reg);
          new = \<lparr>vp_path = rg_path reg, vp_generation = generation\<rparr>
      in case map_of (tb_live t) (rg_fingerprint reg) of
           None \<Rightarrow>
             (Some generation, [],
              t\<lparr>tb_live := hm_insert (rg_fingerprint reg)
                   \<lparr>lk_peer = rg_peer reg, lk_identities = rg_identities reg, lk_shown = rg_shown reg,
                    lk_enrolling = rg_enrolling reg, lk_paths = [new]\<rparr> (tb_live t)\<rparr>)
         | Some existing \<Rightarrow>
             if list_ex (\<lambda>p. keeps_existing (lp_direction (vp_path p)) (lp_direction (rg_path reg)) mine (rg_fingerprint reg))
                  (filter (of_kind kind) (lk_paths existing))
             then (None, [(lp_handle (rg_path reg), CloseReplaced)], t)
             else
               (Some generation,
                map (\<lambda>p. (lp_handle (vp_path p), CloseReplaced)) (filter (of_kind kind) (lk_paths existing)),
                t\<lparr>tb_live := hm_insert (rg_fingerprint reg) (join_link reg new existing) (tb_live t)\<rparr>))"

text \<open>\<open>paths.iter().position(..)\<close> and \<open>paths.remove(at)\<close>.\<close>

fun take_path :: "u64 \<Rightarrow> ('h, 'n) live_path list \<Rightarrow> (('h, 'n) live_path \<times> ('h, 'n) live_path list) option" where
  "take_path generation [] = None"
| "take_path generation (p # ps) =
     (if vp_generation p = generation then Some (p, ps)
      else map_option (\<lambda>(q, qs). (q, p # qs)) (take_path generation ps))"

definition link_unregister ::
    "key_fingerprint \<Rightarrow> u64 \<Rightarrow> ('h, 'n) link_table \<Rightarrow> 'n path_ended option \<times> ('h, 'n) link_table" where
  "link_unregister fp generation t =
     (case map_of (tb_live t) fp of
        None \<Rightarrow> (None, t)
      | Some l \<Rightarrow>
          (case take_path generation (lk_paths l) of
             None \<Rightarrow> (None, t)
           | Some (p, paths) \<Rightarrow>
               (Some \<lparr>pe_peer = lk_peer l, pe_identities = lk_identities l, pe_kind = lp_kind (vp_path p),
                  pe_routes = lp_routes (vp_path p), pe_enrolling = (lk_enrolling l \<noteq> []), pe_last = (paths = [])\<rparr>,
                t\<lparr>tb_live := (if paths = [] then map_delete fp (tb_live t)
                              else hm_insert fp (l\<lparr>lk_paths := paths\<rparr>) (tb_live t))\<rparr>)))"

section \<open>Queries\<close>

text \<open>They take the links in the order of the map, of which nothing is assumed.\<close>

definition links_of :: "peer_id \<Rightarrow> ('h, 'n) link_table \<Rightarrow> (key_fingerprint \<times> ('h, 'n) live_link) list" where
  "links_of peer t = filter (\<lambda>(_, l). lk_peer l = Some peer) (tb_live t)"

definition link_paths_of :: "peer_id \<Rightarrow> ('h, 'n) link_table \<Rightarrow> ('h, 'n) live_path option" where
  "link_paths_of peer t = find (of_kind PathLink) (concat (map (lk_paths \<circ> snd) (links_of peer t)))"

definition link_face :: "peer_id \<Rightarrow> ('h, 'n) link_table \<Rightarrow> face_id option" where
  "link_face peer t = map_option (lp_face \<circ> vp_path) (link_paths_of peer t)"

definition link_to :: "peer_id \<Rightarrow> ('h, 'n) link_table \<Rightarrow> 'h option" where
  "link_to peer t = map_option (lp_handle \<circ> vp_path) (link_paths_of peer t)"

definition is_linked :: "key_fingerprint \<Rightarrow> ('h, 'n) link_table \<Rightarrow> bool" where
  "is_linked fp t \<longleftrightarrow> map_contains fp (tb_live t)"

definition sender_to :: "key_fingerprint \<Rightarrow> ('h, 'n) link_table \<Rightarrow> ('h, 'n) link_path option" where
  "sender_to fp t =
     (case map_of (tb_live t) fp of
        None \<Rightarrow> None
      | Some l \<Rightarrow>
          (case find (of_kind PathLink) (lk_paths l) of
             Some p \<Rightarrow> Some (vp_path p)
           | None \<Rightarrow> (case lk_paths l of [] \<Rightarrow> None | p # _ \<Rightarrow> Some (vp_path p))))"

definition link_members :: "'n \<Rightarrow> ('h, 'n) link_table \<Rightarrow> ('h, 'n) link_member list" where
  "link_members namespace t =
     List.map_filter (\<lambda>(fp, l).
       case (find (\<lambda>i. li_namespace i = namespace) (lk_identities l), find (of_kind PathLink) (lk_paths l)) of
         (Some i, Some p) \<Rightarrow> Some \<lparr>mb_fingerprint = fp, mb_identity = i, mb_handle = lp_handle (vp_path p)\<rparr>
       | _ \<Rightarrow> None) (filter (\<lambda>(_, l). lk_enrolling l = []) (tb_live t))"

definition direct_count :: "('h, 'n) link_table \<Rightarrow> nat" where
  "direct_count t = length (filter (\<lambda>(_, l). list_ex (of_kind PathDirect) (lk_paths l)) (tb_live t))"

definition open_direct :: "('h \<Rightarrow> bool) \<Rightarrow> ('h, 'n) live_path \<Rightarrow> bool" where
  "open_direct is_closed p \<longleftrightarrow> of_kind PathDirect p \<and> \<not> is_closed (lp_handle (vp_path p))"

fun find_map :: "('a \<Rightarrow> 'b option) \<Rightarrow> 'a list \<Rightarrow> 'b option" where
  "find_map f [] = None"
| "find_map f (x # xs) = (case f x of Some y \<Rightarrow> Some y | None \<Rightarrow> find_map f xs)"

definition direct_paths ::
    "('h \<Rightarrow> bool) \<Rightarrow> ('h, 'n) link_table \<Rightarrow> (key_fingerprint \<times> peer_id option \<times> 'n option \<times> 'h) list" where
  "direct_paths is_closed t =
     concat (map (\<lambda>(fp, l).
         map (\<lambda>p. (fp, lk_peer l, (case lk_identities l of [] \<Rightarrow> None | i # _ \<Rightarrow> Some (li_device i)), lp_handle (vp_path p)))
           (filter (open_direct is_closed) (lk_paths l)))
       (tb_live t))"

definition peer_sender :: "peer_id \<Rightarrow> ('h, 'n) link_table \<Rightarrow> (key_fingerprint \<times> ('h, 'n) link_path) option" where
  "peer_sender peer t =
     find_map (\<lambda>(fp, l). map_option (\<lambda>p. (fp, vp_path p)) (find (of_kind PathLink) (lk_paths l))) (links_of peer t)"

definition direct_to ::
    "('h \<Rightarrow> bool) \<Rightarrow> key_fingerprint option \<Rightarrow> peer_id option \<Rightarrow> ('h, 'n) link_table \<Rightarrow> (key_fingerprint \<times> 'h) option" where
  "direct_to is_closed fingerprint peer t =
     find_map (\<lambda>(fp, l). map_option (\<lambda>p. (fp, lp_handle (vp_path p))) (find (open_direct is_closed) (lk_paths l)))
       (filter (\<lambda>(fp, l). Some fp = fingerprint \<or> peer \<noteq> None \<and> lk_peer l = peer) (tb_live t))"

definition observed ::
    "('h \<Rightarrow> 'a option) \<Rightarrow> ('h \<Rightarrow> 'a option) \<Rightarrow> 'a \<Rightarrow> ('h, 'n) link_table \<Rightarrow> 'a list" where
  "observed local_address observed_address local t =
     fold (\<lambda>p out.
         if local_address (lp_handle (vp_path p)) = Some local then
           (case observed_address (lp_handle (vp_path p)) of
              Some addr \<Rightarrow> if addr \<in> set out then out else out @ [addr]
            | None \<Rightarrow> out)
         else out)
       (concat (map (lk_paths \<circ> snd) (filter (\<lambda>(_, l). lk_enrolling l = []) (tb_live t)))) []"

section \<open>Links to make again\<close>

definition relink_where :: "(('h, 'n) live_link \<Rightarrow> bool) \<Rightarrow> ('h, 'n) link_table \<Rightarrow> 'h closes \<times> ('h, 'n) link_table" where
  "relink_where why t =
     (let closing = concat (map (\<lambda>(_, l).
            if why l then map (\<lambda>p. (lp_handle (vp_path p), lk_peer l)) (filter (of_kind PathLink) (lk_paths l)) else [])
            (tb_live t))
      in (map (\<lambda>(h, _). (h, CloseEnrolled)) closing,
          t\<lparr>tb_relink := fold List.insert (List.map_filter snd closing) (tb_relink t)\<rparr>))"

definition relink_enrolled ::
    "('n \<Rightarrow> 'n \<Rightarrow> bool) \<Rightarrow> 'n list \<Rightarrow> ('h, 'n) link_table \<Rightarrow> 'h closes \<times> ('h, 'n) link_table" where
  "relink_enrolled is_device_key certificates =
     relink_where (\<lambda>l. list_ex (\<lambda>ns. list_ex (is_device_key ns) certificates) (lk_enrolling l))"

definition relink_changed :: "'n list \<Rightarrow> ('h, 'n) link_table \<Rightarrow> 'h closes \<times> ('h, 'n) link_table" where
  "relink_changed shown = relink_where (\<lambda>l. \<not> (lk_enrolling l \<noteq> [] \<or> lk_shown l = shown))"

definition take_relink :: "peer_id \<Rightarrow> ('h, 'n) link_table \<Rightarrow> bool \<times> ('h, 'n) link_table" where
  "take_relink peer t = (peer \<in> set (tb_relink t), t\<lparr>tb_relink := removeAll peer (tb_relink t)\<rparr>)"

section \<open>Revocation\<close>

definition id_revoked :: "('n \<Rightarrow> 'n \<Rightarrow> bool) \<Rightarrow> 'n \<Rightarrow> ('n \<Rightarrow> bool) \<Rightarrow> 'n link_identity \<Rightarrow> bool" where
  "id_revoked has_prefix namespace is_revoked i \<longleftrightarrow>
     has_prefix (li_device i) namespace \<and> list_ex is_revoked (li_certificates i)"

text \<open>\<open>identities.iter().position(..)\<close> and \<open>identities.remove(at)\<close>.\<close>

fun take_first :: "('a \<Rightarrow> bool) \<Rightarrow> 'a list \<Rightarrow> ('a \<times> 'a list) option" where
  "take_first p [] = None"
| "take_first p (x # xs) = (if p x then Some (x, xs) else map_option (\<lambda>(y, ys). (y, x # ys)) (take_first p xs))"

definition revoke_link ::
    "('n \<Rightarrow> 'n \<Rightarrow> bool) \<Rightarrow> 'n \<Rightarrow> ('n \<Rightarrow> bool) \<Rightarrow> ('h, 'n) live_link
      \<Rightarrow> 'h closes \<times> ('h, 'n) membership_dropped list \<times> ('h, 'n) live_link" where
  "revoke_link has_prefix namespace is_revoked l =
     (case take_first (id_revoked has_prefix namespace is_revoked) (lk_identities l) of
        None \<Rightarrow> ([], [], l)
      | Some (i, rest) \<Rightarrow>
          let l = l\<lparr>lk_identities := rest\<rparr>
          in if rest = [] then (map (\<lambda>p. (lp_handle (vp_path p), CloseRevoked)) (lk_paths l), [], l)
             else
               let prefixes = [li_device i, li_namespace i];
                   gone = (\<lambda>p. map lr_prefix (filter (\<lambda>r. lr_prefix r \<in> set prefixes) (lp_routes (vp_path p))));
                   keep = (\<lambda>p. p\<lparr>vp_path := (vp_path p)\<lparr>lp_routes :=
                            filter (\<lambda>r. lr_prefix r \<notin> set prefixes) (lp_routes (vp_path p))\<rparr>\<rparr>)
               in ([], [\<lparr>md_namespace = li_namespace i,
                         md_routes = List.map_filter (\<lambda>p. if gone p = [] then None else Some (lp_face (vp_path p), gone p)) (lk_paths l),
                         md_handle = map_option (lp_handle \<circ> vp_path) (find (of_kind PathLink) (lk_paths l))\<rparr>],
                   l\<lparr>lk_paths := map keep (lk_paths l)\<rparr>))"

definition close_revoked ::
    "('n \<Rightarrow> 'n \<Rightarrow> bool) \<Rightarrow> 'n \<Rightarrow> ('n \<Rightarrow> bool) \<Rightarrow> ('h, 'n) link_table
      \<Rightarrow> 'h closes \<times> ('h, 'n) membership_dropped list \<times> ('h, 'n) link_table" where
  "close_revoked has_prefix namespace is_revoked t =
     (let step = (\<lambda>(_, l). revoke_link has_prefix namespace is_revoked l)
      in (concat (map (fst \<circ> step) (tb_live t)),
          concat (map (fst \<circ> snd \<circ> step) (tb_live t)),
          t\<lparr>tb_live := map (\<lambda>(fp, l). (fp, snd (snd (step (fp, l))))) (tb_live t)\<rparr>))"

end
