(* ===== verification/Link_Pair.thy ===== *)
theory Link_Pair
  imports Link_Table
begin

text \<open>
  Two devices that dial each other at the same time. Each end registers the two connections when its
  handshakes are done, and takes a path out of its table when it learns that the connection ended
  (\<open>Links::admit\<close> in \<open>ndn-link/src/links.rs\<close>); the steps of the two ends interleave in any order. Both ends
  settle on the same connection, the one dialled by the smaller key, which nobody ever closes.
\<close>

datatype conn = DialByA | DialByB

datatype 'n end_step =
  Comes conn "(conn, 'n) registration"
| Fails conn
| Ends conn

record 'n link_end =
  en_table :: "(conn, 'n) link_table"
  en_seen :: "conn list"
  en_watch :: "(conn \<times> u64) list"

text \<open>
  A connection comes up: it is registered, and a task is spawned that waits for its end. A connection
  that was closed before its admission fails; the end of a registered one is handled once.
\<close>

definition conn_registration ::
    "key_fingerprint \<Rightarrow> link_direction \<Rightarrow> conn \<Rightarrow> (conn, 'n) registration \<Rightarrow> (conn, 'n) registration" where
  "conn_registration theirs direction c reg =
     reg\<lparr>rg_fingerprint := theirs,
         rg_path := (rg_path reg)\<lparr>lp_handle := c, lp_direction := direction, lp_kind := PathLink\<rparr>\<rparr>"

fun end_do ::
    "key_fingerprint \<Rightarrow> key_fingerprint \<Rightarrow> (conn \<Rightarrow> link_direction) \<Rightarrow> 'n end_step
      \<Rightarrow> conn list \<times> 'n link_end \<Rightarrow> conn list \<times> 'n link_end" where
  "end_do mine theirs dir (Comes c reg) (closed, e) =
     (if c \<in> set (en_seen e) then (closed, e)
      else
        let (generation, closes, t) = link_register (conn_registration theirs (dir c) c reg) (Some mine) (en_table e)
        in (map fst closes @ closed,
            e\<lparr>en_table := t, en_seen := c # en_seen e,
              en_watch := (case generation of None \<Rightarrow> en_watch e | Some g \<Rightarrow> (c, g) # en_watch e)\<rparr>))"
| "end_do mine theirs dir (Fails c) (closed, e) =
     (closed, if c \<in> set closed \<and> c \<notin> set (en_seen e) then e\<lparr>en_seen := c # en_seen e\<rparr> else e)"
| "end_do mine theirs dir (Ends c) (closed, e) =
     (closed,
      case map_of (en_watch e) c of
        Some g \<Rightarrow>
          if c \<in> set closed
          then e\<lparr>en_table := snd (link_unregister theirs g (en_table e)), en_watch := map_delete c (en_watch e)\<rparr>
          else e
      | None \<Rightarrow> e)"

record 'n pair =
  pr_closed :: "conn list"
  pr_a :: "'n link_end"
  pr_b :: "'n link_end"

datatype side = SideA | SideB

fun dir_at :: "side \<Rightarrow> conn \<Rightarrow> link_direction" where
  "dir_at SideA DialByA = Dialed"
| "dir_at SideA DialByB = DialAccepted"
| "dir_at SideB DialByA = DialAccepted"
| "dir_at SideB DialByB = Dialed"

fun pair_do :: "key_fingerprint \<Rightarrow> key_fingerprint \<Rightarrow> side \<times> 'n end_step \<Rightarrow> 'n pair \<Rightarrow> 'n pair" where
  "pair_do ka kb (SideA, step) p =
     (let (closed, e) = end_do ka kb (dir_at SideA) step (pr_closed p, pr_a p) in p\<lparr>pr_closed := closed, pr_a := e\<rparr>)"
| "pair_do ka kb (SideB, step) p =
     (let (closed, e) = end_do kb ka (dir_at SideB) step (pr_closed p, pr_b p) in p\<lparr>pr_closed := closed, pr_b := e\<rparr>)"

definition pair_start :: "(conn, 'n) link_table \<Rightarrow> (conn, 'n) link_table \<Rightarrow> 'n pair" where
  "pair_start ta tb = \<lparr>pr_closed = [], pr_a = \<lparr>en_table = ta, en_seen = [], en_watch = []\<rparr>,
     pr_b = \<lparr>en_table = tb, en_seen = [], en_watch = []\<rparr>\<rparr>"

definition pair_run ::
    "key_fingerprint \<Rightarrow> key_fingerprint \<Rightarrow> (side \<times> 'n end_step) list \<Rightarrow> 'n pair \<Rightarrow> 'n pair" where
  "pair_run ka kb steps p = fold (pair_do ka kb) steps p"

text \<open>The connections an end's table holds to the other device.\<close>

definition conns_to :: "key_fingerprint \<Rightarrow> 'n link_end \<Rightarrow> conn list" where
  "conns_to theirs e =
     (case map_of (tb_live (en_table e)) theirs of
        None \<Rightarrow> []
      | Some l \<Rightarrow> map (lp_handle \<circ> vp_path) (lk_paths l))"

section \<open>One end\<close>

definition path_is :: "(conn \<Rightarrow> link_direction) \<Rightarrow> conn \<Rightarrow> u64 \<Rightarrow> (conn, 'n) live_path \<Rightarrow> bool" where
  "path_is dir c g p \<longleftrightarrow> vp_generation p = g \<and> lp_handle (vp_path p) = c \<and> lp_direction (vp_path p) = dir c
     \<and> of_kind PathLink p"

definition holds_only :: "(conn \<Rightarrow> link_direction) \<Rightarrow> key_fingerprint \<Rightarrow> conn \<Rightarrow> u64 \<Rightarrow> 'n link_end \<Rightarrow> bool" where
  "holds_only dir theirs c g e \<longleftrightarrow>
     (\<exists>l p. map_of (tb_live (en_table e)) theirs = Some l \<and> lk_paths l = [p] \<and> path_is dir c g p)"

definition unlinked :: "key_fingerprint \<Rightarrow> 'n link_end \<Rightarrow> bool" where
  "unlinked theirs e \<longleftrightarrow> map_of (tb_live (en_table e)) theirs = None"

text \<open>What the rule for two dials decides at an end: \<open>w\<close> stays when it is there, and takes the place of \<open>l\<close>.\<close>

definition rule_keeps :: "key_fingerprint \<Rightarrow> key_fingerprint \<Rightarrow> (conn \<Rightarrow> link_direction) \<Rightarrow> conn \<Rightarrow> conn \<Rightarrow> bool" where
  "rule_keeps mine theirs dir w l \<longleftrightarrow> w \<noteq> l
     \<and> keeps_existing (dir w) (dir l) (Some mine) theirs \<and> \<not> keeps_existing (dir l) (dir w) (Some mine) theirs"

definition end_inv ::
    "key_fingerprint \<Rightarrow> (conn \<Rightarrow> link_direction) \<Rightarrow> conn \<Rightarrow> conn \<Rightarrow> conn list \<Rightarrow> 'n link_end \<Rightarrow> bool" where
  "end_inv theirs dir w l closed e \<longleftrightarrow>
     (if w \<in> set (en_seen e) then
        (\<exists>g. holds_only dir theirs w g e \<and> map_of (en_watch e) l \<noteq> Some g) \<and> (l \<in> set (en_seen e) \<longrightarrow> l \<in> set closed)
      else if l \<in> set (en_seen e) then
        (\<exists>g. holds_only dir theirs l g e \<and> map_of (en_watch e) l = Some g \<and> g = tb_generation (en_table e))
        \<or> unlinked theirs e \<and> l \<in> set closed \<and> map_of (en_watch e) l = None
      else unlinked theirs e \<and> map_of (en_watch e) l = None)"

lemma end_inv_closed: "end_inv theirs dir w l closed e \<Longrightarrow> set closed \<subseteq> set closed' \<Longrightarrow> end_inv theirs dir w l closed' e"
  by (auto simp: end_inv_def split: if_splits)

lemma register_first:
  assumes "unlinked theirs e"
  shows "\<exists>t. link_register (conn_registration theirs (dir c) c reg) mine (en_table e) = (Some (tb_generation (en_table e) + 1), [], t)
    \<and> holds_only dir theirs c (tb_generation (en_table e) + 1) (e\<lparr>en_table := t, en_seen := s, en_watch := v\<rparr>)
    \<and> tb_generation t = tb_generation (en_table e) + 1"
  using assms
  by (simp add: link_register_def conn_registration_def unlinked_def Let_def holds_only_def path_is_def of_kind_def
      hm_insert_def update_conv')

lemma register_second:
  assumes "holds_only dir theirs c g e" and "\<not> keeps_existing (dir c) (dir d) mine theirs"
  shows "\<exists>t. link_register (conn_registration theirs (dir d) d reg) mine (en_table e) =
      (Some (tb_generation (en_table e) + 1), [(c, CloseReplaced)], t)
    \<and> holds_only dir theirs d (tb_generation (en_table e) + 1) (e\<lparr>en_table := t, en_seen := s, en_watch := v\<rparr>)"
  using assms
  by (auto simp: link_register_def conn_registration_def Let_def holds_only_def path_is_def of_kind_def
      hm_insert_def update_conv' join_link_def)

lemma register_refused:
  assumes "holds_only dir theirs c g e" and "keeps_existing (dir c) (dir d) mine theirs"
  shows "\<exists>t. link_register (conn_registration theirs (dir d) d reg) mine (en_table e) = (None, [(d, CloseReplaced)], t)
    \<and> holds_only dir theirs c g (e\<lparr>en_table := t, en_seen := s, en_watch := v\<rparr>)"
  using assms
  by (auto simp: link_register_def conn_registration_def Let_def holds_only_def path_is_def of_kind_def)

lemma unregister_last:
  "holds_only dir theirs c g e \<Longrightarrow>
     map_of (tb_live (snd (link_unregister theirs g (en_table e)))) theirs = None"
  by (auto simp: link_unregister_def holds_only_def path_is_def map_of_delete)

lemma unregister_other:
  "holds_only dir theirs c g e \<Longrightarrow> g' \<noteq> g \<Longrightarrow> snd (link_unregister theirs g' (en_table e)) = en_table e"
  by (auto simp: link_unregister_def holds_only_def path_is_def)

lemma word_suc_neq: "(g :: u64) + 1 \<noteq> g"
  by simp

lemma end_inv_comes:
  assumes rule: "rule_keeps mine theirs dir w l" and c: "c = w \<or> c = l" and "c \<notin> set (en_seen e)"
    and inv: "end_inv theirs dir w l closed e" and "w \<notin> set closed"
    and step: "end_do mine theirs dir (Comes c reg) (closed, e) = (closed', e')"
  shows "end_inv theirs dir w l closed' e' \<and> w \<notin> set closed' \<and> set closed \<subseteq> set closed'"
proof -
  note rule = rule [unfolded rule_keeps_def]
  consider (first) "c = w" "unlinked theirs e" "l \<in> set (en_seen e) \<longrightarrow> l \<in> set closed" "map_of (en_watch e) l = None"
    | (second) "c = w" "l \<in> set (en_seen e)" "holds_only dir theirs l (tb_generation (en_table e)) e"
        "map_of (en_watch e) l = Some (tb_generation (en_table e))"
    | (alone) "c = l" "w \<notin> set (en_seen e)" "unlinked theirs e"
    | (late) g where "c = l" "w \<in> set (en_seen e)" "holds_only dir theirs w g e" "map_of (en_watch e) l \<noteq> Some g"
    using inv c assms(3) by (auto simp: end_inv_def split: if_splits)
  then show ?thesis
  proof cases
    case first
    then show ?thesis
      using register_first [OF first(2), where dir = dir and c = w and reg = reg and mine = "Some mine" and s = "w # en_seen e" and v = "(w, tb_generation (en_table e) + 1) # en_watch e"]
        step assms(3,5) rule
      by (auto simp: end_inv_def intro!: exI [of _ "tb_generation (en_table e) + 1"])
  next
    case second
    then show ?thesis
      using register_second [OF second(3), where d = w and mine = "Some mine" and reg = reg and s = "w # en_seen e" and v = "(w, tb_generation (en_table e) + 1) # en_watch e"]
        step assms(3,5) rule
      by (auto simp: end_inv_def intro!: exI [of _ "tb_generation (en_table e) + 1"])
  next
    case alone
    then show ?thesis
      using register_first [OF alone(3), where dir = dir and c = l and reg = reg and mine = "Some mine" and s = "l # en_seen e" and v = "(l, tb_generation (en_table e) + 1) # en_watch e"]
        step assms(3,5) rule
      by (auto simp: end_inv_def intro!: exI [of _ "tb_generation (en_table e) + 1"])
  next
    case late
    then show ?thesis
      using register_refused [OF late(3), where d = l and mine = "Some mine" and reg = reg and s = "l # en_seen e" and v = "en_watch e"] step assms(3,5) rule
      by (auto simp: end_inv_def intro!: exI [of _ g])
  qed
qed

lemma end_inv_ends:
  assumes inv: "end_inv theirs dir w l closed e" and c: "c = w \<or> c = l" and "w \<notin> set closed" and "w \<noteq> l"
    and step: "end_do mine theirs dir (Ends c) (closed, e) = (closed', e')"
  shows "end_inv theirs dir w l closed' e' \<and> closed' = closed"
proof (cases "c \<in> set closed \<and> map_of (en_watch e) c \<noteq> None")
  case False
  then show ?thesis using step inv by (auto split: option.splits)
next
  case True
  then have c: "c = l" "l \<in> set closed" using c assms(3) by auto
  obtain g where g: "map_of (en_watch e) l = Some g" using True c by auto
  have e': "e' = e\<lparr>en_table := snd (link_unregister theirs g (en_table e)), en_watch := map_delete l (en_watch e)\<rparr>"
    and closed: "closed' = closed"
    using step g c by simp_all
  show ?thesis
  proof (cases "w \<in> set (en_seen e)")
    case seen: True
    then obtain g' where g': "holds_only dir theirs w g' e" "g \<noteq> g'" using inv g by (auto simp: end_inv_def)
    then have "en_table e' = en_table e" using unregister_other [OF g'(1,2)] e' by simp
    then have "holds_only dir theirs w g' e'" using g' by (simp add: holds_only_def)
    then show ?thesis using seen inv e' closed c by (auto simp: end_inv_def map_of_delete)
  next
    case False
    then have "holds_only dir theirs l g e" "l \<in> set (en_seen e)" using inv g by (auto simp: end_inv_def split: if_splits)
    then show ?thesis using False unregister_last [of dir theirs l g e] e' closed c
      by (simp add: end_inv_def unlinked_def map_of_delete)
  qed
qed

lemma end_inv_step:
  assumes "rule_keeps mine theirs dir w l" and "\<And>c. c = w \<or> c = l"
    and "end_inv theirs dir w l closed e" and "w \<notin> set closed"
    and "end_do mine theirs dir step (closed, e) = (closed', e')"
  shows "end_inv theirs dir w l closed' e' \<and> w \<notin> set closed' \<and> set closed \<subseteq> set closed'"
proof (cases step)
  case (Comes c reg)
  show ?thesis
  proof (cases "c \<in> set (en_seen e)")
    case True
    then show ?thesis using assms(3-5) Comes by auto
  next
    case False
    show ?thesis by (rule end_inv_comes [OF assms(1,2) False assms(3,4) assms(5) [unfolded Comes]])
  qed
next
  case (Fails c)
  have "c \<in> set closed \<Longrightarrow> c = l" using assms(2) [of c] assms(4) by auto
  then show ?thesis using assms(3-5) Fails by (auto simp: end_inv_def holds_only_def unlinked_def split: if_splits)
next
  case (Ends c)
  have "w \<noteq> l" using assms(1) by (simp add: rule_keeps_def)
  from end_inv_ends [OF assms(3,2,4) this assms(5) [unfolded Ends]] show ?thesis using assms(4) by auto
qed

section \<open>Both ends\<close>

text \<open>The connection that both keep: the one dialled by the device with the smaller key.\<close>

definition kept_conn :: "key_fingerprint \<Rightarrow> key_fingerprint \<Rightarrow> conn" where
  "kept_conn ka kb = (if ka < kb then DialByA else DialByB)"

definition given_up :: "key_fingerprint \<Rightarrow> key_fingerprint \<Rightarrow> conn" where
  "given_up ka kb = (if ka < kb then DialByB else DialByA)"

lemma rule_agrees:
  assumes "ka \<noteq> kb"
  shows "rule_keeps ka kb (dir_at SideA) (kept_conn ka kb) (given_up ka kb)"
    and "rule_keeps kb ka (dir_at SideB) (kept_conn ka kb) (given_up ka kb)"
  using assms by (auto simp: rule_keeps_def keeps_existing_def kept_conn_def given_up_def)

lemma two_conns: "c = kept_conn ka kb \<or> c = given_up ka kb"
  by (cases c) (auto simp: kept_conn_def given_up_def)

definition pair_inv :: "key_fingerprint \<Rightarrow> key_fingerprint \<Rightarrow> 'n pair \<Rightarrow> bool" where
  "pair_inv ka kb p \<longleftrightarrow> kept_conn ka kb \<notin> set (pr_closed p)
     \<and> end_inv kb (dir_at SideA) (kept_conn ka kb) (given_up ka kb) (pr_closed p) (pr_a p)
     \<and> end_inv ka (dir_at SideB) (kept_conn ka kb) (given_up ka kb) (pr_closed p) (pr_b p)"

lemma pair_inv_do:
  assumes "ka \<noteq> kb" and inv: "pair_inv ka kb p"
  shows "pair_inv ka kb (pair_do ka kb st p)"
proof -
  obtain sd step where st: "st = (sd, step)" by (cases st)
  show ?thesis
  proof (cases sd)
    case SideA
    obtain closed e where s: "end_do ka kb (dir_at SideA) step (pr_closed p, pr_a p) = (closed, e)" by fastforce
    from end_inv_step [OF rule_agrees(1) [OF assms(1)] two_conns _ _ s] inv show ?thesis
      using end_inv_closed by (auto simp: pair_inv_def st SideA s)
  next
    case SideB
    obtain closed e where s: "end_do kb ka (dir_at SideB) step (pr_closed p, pr_b p) = (closed, e)" by fastforce
    from end_inv_step [OF rule_agrees(2) [OF assms(1)] two_conns _ _ s] inv show ?thesis
      using end_inv_closed by (auto simp: pair_inv_def st SideB s)
  qed
qed

lemma pair_inv_run:
  assumes "ka \<noteq> kb" and "pair_inv ka kb p"
  shows "pair_inv ka kb (pair_run ka kb steps p)"
  using assms(2)
proof (induction steps arbitrary: p)
  case (Cons st steps)
  then show ?case using pair_inv_do [OF assms(1) Cons.prems, of st] by (simp add: pair_run_def)
qed (simp add: pair_run_def)

lemma end_inv_conns:
  "end_inv theirs dir w l closed e \<Longrightarrow> w \<in> set (en_seen e) \<Longrightarrow> conns_to theirs e = [w]"
  "end_inv theirs dir w l closed e \<Longrightarrow> w \<notin> set (en_seen e) \<Longrightarrow> conns_to theirs e = [] \<or> conns_to theirs e = [l]"
  "end_inv theirs dir w l closed e \<Longrightarrow> w \<in> set (en_seen e) \<Longrightarrow> l \<in> set (en_seen e) \<Longrightarrow> l \<in> set closed"
  by (auto simp: end_inv_def conns_to_def holds_only_def path_is_def unlinked_def split: if_splits)

text \<open>
  (C37) Two devices that dial each other settle on one link. From any tables in which neither knows the other, and
  in any interleaving of admissions, failed admissions and handled ends of the two connections at the
  two ends: the connection dialled by the device with the smaller key is never closed; an end that has
  admitted it holds that connection and no other, an end that has not holds at most the other one; and once an
  end has seen both, the other connection is closed. So both ends agree, whichever came first where.
\<close>

theorem both_dial_one_link:
  assumes "ka \<noteq> kb" and "map_of (tb_live ta) kb = None" and "map_of (tb_live tb) ka = None"
    and "p = pair_run ka kb steps (pair_start ta tb)"
  shows "kept_conn ka kb \<notin> set (pr_closed p)
    \<and> (conns_to kb (pr_a p), conns_to ka (pr_b p)) \<in>
        (if kept_conn ka kb \<in> set (en_seen (pr_a p)) then {[kept_conn ka kb]} else {[], [given_up ka kb]})
        \<times> (if kept_conn ka kb \<in> set (en_seen (pr_b p)) then {[kept_conn ka kb]} else {[], [given_up ka kb]})
    \<and> (if {kept_conn ka kb, given_up ka kb} \<subseteq> set (en_seen (pr_a p)) \<or> {kept_conn ka kb, given_up ka kb} \<subseteq> set (en_seen (pr_b p))
       then given_up ka kb \<in> set (pr_closed p) else True)"
proof -
  have "pair_inv ka kb (pair_start ta tb)"
    using assms(2,3) by (simp add: pair_inv_def pair_start_def end_inv_def unlinked_def)
  then have inv: "pair_inv ka kb p" using pair_inv_run [OF assms(1)] by (simp add: assms(4))
  then have a: "end_inv kb (dir_at SideA) (kept_conn ka kb) (given_up ka kb) (pr_closed p) (pr_a p)"
    and b: "end_inv ka (dir_at SideB) (kept_conn ka kb) (given_up ka kb) (pr_closed p) (pr_b p)"
    and never: "kept_conn ka kb \<notin> set (pr_closed p)" by (simp_all add: pair_inv_def)
  show ?thesis using end_inv_conns [OF a] end_inv_conns [OF b] never by auto
qed

definition plain_registration :: "(conn, string) registration" where
  "plain_registration = \<lparr>rg_fingerprint = 0, rg_peer = None, rg_identities = [], rg_shown = [], rg_enrolling = [],
     rg_path = \<lparr>lp_face = 7, lp_handle = DialByA, lp_direction = Dialed, lp_kind = PathLink, lp_routes = []\<rparr>\<rparr>"

definition crossing_steps :: "(side \<times> string end_step) list" where
  "crossing_steps =
     [(SideA, Comes DialByB plain_registration), (SideB, Comes DialByB plain_registration),
      (SideB, Comes DialByA plain_registration), (SideA, Ends DialByB), (SideA, Comes DialByA plain_registration)]"

theorem both_dial_one_link_witness:
  "conns_to 2 (pr_a (pair_run 1 2 crossing_steps (pair_start link_table_new link_table_new))) = [DialByA]
   \<and> conns_to 1 (pr_b (pair_run 1 2 crossing_steps (pair_start link_table_new link_table_new))) = [DialByA]
   \<and> DialByB \<in> set (pr_closed (pair_run 1 2 crossing_steps (pair_start link_table_new link_table_new)))"
proof -
  let ?p = "pair_run 1 2 crossing_steps (pair_start link_table_new link_table_new)"
  have keys: "(1 :: key_fingerprint) \<noteq> 2" "kept_conn 1 2 = DialByA" "given_up 1 2 = DialByB" by (simp_all add: kept_conn_def given_up_def)
  have seen: "DialByA \<in> set (en_seen (pr_a ?p))" "DialByA \<in> set (en_seen (pr_b ?p))" "DialByB \<in> set (en_seen (pr_a ?p))" by code_simp+
  show ?thesis
    using both_dial_one_link [OF keys(1) _ _ refl, of link_table_new link_table_new crossing_steps] seen
    by (simp add: keys link_table_new_def)
qed

end
