(* ===== verification/Link_Guarantee.thy ===== *)
theory Link_Guarantee
  imports Link_Table
begin

text \<open>
  What the table of live links keeps over any sequence of operations: one entry per device, at most one path of
  each kind, and generations that name paths, so the late end of a replaced path never takes a newer
  one out. And what a revocation does to the links it concerns.
\<close>

section \<open>Operations and runs\<close>

datatype ('h, 'n) link_op =
  LinkRegister "('h, 'n) registration" "key_fingerprint option"
| LinkUnregister key_fingerprint u64
| LinkRelinkEnrolled "'n \<Rightarrow> 'n \<Rightarrow> bool" "'n list"
| LinkRelinkChanged "'n list"
| LinkTakeRelink peer_id
| LinkRevoked "'n \<Rightarrow> 'n \<Rightarrow> bool" 'n "'n \<Rightarrow> bool"

text \<open>The table after an operation, with the registrations answered so far and their generations.\<close>

type_synonym ('h, 'n) link_log = "(u64 \<times> ('h, 'n) registration) list"

fun link_do :: "('h, 'n) link_op \<Rightarrow> ('h, 'n) link_log \<times> ('h, 'n) link_table \<Rightarrow> ('h, 'n) link_log \<times> ('h, 'n) link_table" where
  "link_do (LinkRegister reg mine) (log, t) =
     (let (generation, _, t) = link_register reg mine t
      in ((case generation of None \<Rightarrow> log | Some g \<Rightarrow> (g, reg) # log), t))"
| "link_do (LinkUnregister fp g) (log, t) = (log, snd (link_unregister fp g t))"
| "link_do (LinkRelinkEnrolled is_key certs) (log, t) = (log, snd (relink_enrolled is_key certs t))"
| "link_do (LinkRelinkChanged shown) (log, t) = (log, snd (relink_changed shown t))"
| "link_do (LinkTakeRelink peer) (log, t) = (log, snd (take_relink peer t))"
| "link_do (LinkRevoked has_prefix ns is_revoked) (log, t) = (log, snd (snd (close_revoked has_prefix ns is_revoked t)))"

definition link_run :: "('h, 'n) link_op list \<Rightarrow> ('h, 'n) link_log \<times> ('h, 'n) link_table" where
  "link_run ops = fold link_do ops ([], link_table_new)"

definition is_registration :: "('h, 'n) link_op \<Rightarrow> bool" where
  "is_registration op = (case op of LinkRegister _ _ \<Rightarrow> True | _ \<Rightarrow> False)"

section \<open>The invariant\<close>

text \<open>The path a registration recorded, its routes aside (a revocation takes some away).\<close>

definition path_of :: "('h, 'n) link_log \<Rightarrow> key_fingerprint \<Rightarrow> ('h, 'n) live_path \<Rightarrow> bool" where
  "path_of log fp p \<longleftrightarrow> list_ex (\<lambda>(g, reg). g = vp_generation p \<and> rg_fingerprint reg = fp
     \<and> lp_face (rg_path reg) = lp_face (vp_path p) \<and> lp_handle (rg_path reg) = lp_handle (vp_path p)
     \<and> lp_direction (rg_path reg) = lp_direction (vp_path p) \<and> lp_kind (rg_path reg) = lp_kind (vp_path p)) log"

definition link_ok :: "('h, 'n) link_log \<Rightarrow> key_fingerprint \<times> ('h, 'n) live_link \<Rightarrow> bool" where
  "link_ok log x \<longleftrightarrow> lk_paths (snd x) \<noteq> [] \<and> distinct (map (lp_kind \<circ> vp_path) (lk_paths (snd x)))
     \<and> list_all (path_of log (fst x)) (lk_paths (snd x))"

definition links_ok :: "('h, 'n) link_log \<times> ('h, 'n) link_table \<Rightarrow> bool" where
  "links_ok lt \<longleftrightarrow> hm_ok (tb_live (snd lt)) \<and> list_all (link_ok (fst lt)) (tb_live (snd lt))"

definition log_ok :: "nat \<Rightarrow> ('h, 'n) link_log \<times> ('h, 'n) link_table \<Rightarrow> bool" where
  "log_ok n lt \<longleftrightarrow> tb_generation (snd lt) = of_nat n \<and> distinct (map fst (fst lt))
     \<and> list_all (\<lambda>(g, _). \<exists>m\<le>n. g = of_nat m) (fst lt)"

lemma path_of_mono: "path_of log fp p \<Longrightarrow> path_of ((g, reg) # log) fp p"
  by (simp add: path_of_def)

lemma link_ok_mono: "link_ok log x \<Longrightarrow> link_ok ((g, reg) # log) x"
  by (auto simp: link_ok_def list_all_iff path_of_mono)

lemma links_ok_lookup: "links_ok (log, t) \<Longrightarrow> map_of (tb_live t) fp = Some l \<Longrightarrow> link_ok log (fp, l)"
  by (auto simp: links_ok_def list_all_iff dest: map_of_SomeD)

lemma links_ok_insert:
  assumes "links_ok (log, t)" and "link_ok log (fp, l)" and "tb_live t' = hm_insert fp l (tb_live t)"
  shows "links_ok (log, t')"
proof -
  have ok: "hm_ok (tb_live t)" and all: "list_all (link_ok log) (tb_live t)" using assms(1) by (simp_all add: links_ok_def)
  have "link_ok log (k, v)" if "map_of (hm_insert fp l (tb_live t)) k = Some v" for k v
    using that assms(2) all hm.get_insert [OF ok, of fp l]
    by (auto simp: list_all_iff split: if_splits dest: map_of_SomeD)
  then show ?thesis
    using hm.ok_insert [OF ok, of fp l] assms(3)
    by (auto simp: links_ok_def list_all_iff hm.mem_iff [OF hm.ok_insert [OF ok]])
qed

lemma links_ok_same: "links_ok (log, t) \<Longrightarrow> tb_live t' = tb_live t \<Longrightarrow> links_ok (log, t')"
  by (simp add: links_ok_def)

lemma links_ok_mono: "links_ok (log, t) \<Longrightarrow> links_ok ((g, reg) # log, t)"
  by (auto simp: links_ok_def list_all_iff link_ok_mono)

lemma links_ok_register:
  assumes ok: "links_ok (log, t)"
  shows "links_ok (link_do (LinkRegister reg mine) (log, t))"
proof -
  let ?g = "tb_generation t + 1" let ?new = "\<lparr>vp_path = rg_path reg, vp_generation = ?g\<rparr>"
  have new: "path_of ((?g, reg) # log) (rg_fingerprint reg) ?new" by (simp add: path_of_def)
  show ?thesis
  proof (cases "map_of (tb_live t) (rg_fingerprint reg)")
    case None
    show ?thesis
      using None new
      by (auto simp: link_register_def Let_def link_ok_def intro!: links_ok_insert [OF links_ok_mono [OF ok]])
  next
    case (Some l)
    have l: "link_ok ((?g, reg) # log) (rg_fingerprint reg, l)" by (rule link_ok_mono [OF links_ok_lookup [OF ok Some]])
    have paths: "lk_paths (join_link reg ?new l) = filter (\<lambda>p. \<not> of_kind (lp_kind (rg_path reg)) p) (lk_paths l) @ [?new]"
      by (simp add: join_link_def Let_def)
    have "distinct (map (lp_kind \<circ> vp_path) (filter (\<lambda>p. \<not> of_kind (lp_kind (rg_path reg)) p) (lk_paths l)))"
      using l by (simp add: link_ok_def distinct_map_filter)
    then have "link_ok ((?g, reg) # log) (rg_fingerprint reg, join_link reg ?new l)"
      using l new by (auto simp: link_ok_def paths list_all_iff of_kind_def)
    then show ?thesis
      using Some ok links_ok_same [OF ok]
      by (auto simp: link_register_def Let_def intro!: links_ok_insert [OF links_ok_mono [OF ok]])
  qed
qed

lemma take_path_set:
  "take_path g ps = Some (p, qs) \<Longrightarrow> set qs \<subseteq> set ps \<and> p \<in> set ps \<and> vp_generation p = g
     \<and> (\<exists>as bs. ps = as @ p # bs \<and> qs = as @ bs)"
proof (induction ps arbitrary: qs)
  case (Cons q ps)
  show ?case
  proof (cases "vp_generation q = g")
    case True
    then show ?thesis using Cons.prems by (auto intro: exI [of _ "[]"])
  next
    case False
    then obtain rs where rs: "take_path g ps = Some (p, rs)" "qs = q # rs" using Cons.prems by auto
    from Cons.IH [OF rs(1)] obtain as bs where "ps = as @ p # bs" "rs = as @ bs" "vp_generation p = g" by auto
    then show ?thesis using rs(2) by (auto intro: exI [of _ "q # as"])
  qed
qed simp

lemma links_ok_unregister:
  assumes ok: "links_ok (log, t)"
  shows "links_ok (log, snd (link_unregister fp g t))"
proof (cases "map_of (tb_live t) fp")
  case None
  then show ?thesis using ok by (simp add: link_unregister_def)
next
  case (Some l)
  note l = links_ok_lookup [OF ok Some]
  show ?thesis
  proof (cases "take_path g (lk_paths l)")
    case None
    then show ?thesis using ok Some by (simp add: link_unregister_def)
  next
    case taken: (Some x)
    obtain p qs where x: "x = (p, qs)" by (cases x)
    obtain as bs where split: "lk_paths l = as @ p # bs" "qs = as @ bs" using take_path_set [of g "lk_paths l" p qs] taken x by auto
    have "link_ok log (fp, l\<lparr>lk_paths := qs\<rparr>)" if "qs \<noteq> []" using l that split by (auto simp: link_ok_def)
    moreover have "links_ok (log, t\<lparr>tb_live := map_delete fp (tb_live t)\<rparr>)"
      using ok by (auto simp: links_ok_def list_all_iff map_delete_def hm_ok_def distinct_map_filter)
    ultimately show ?thesis
      using Some taken x by (auto simp: link_unregister_def intro: links_ok_insert [OF ok])
  qed
qed

lemma links_ok_map:
  assumes "links_ok (log, t)" and "tb_live t' = map (\<lambda>(fp, l). (fp, f fp l)) (tb_live t)"
    and "\<And>fp l. link_ok log (fp, l) \<Longrightarrow> link_ok log (fp, f fp l)"
  shows "links_ok (log, t')"
proof -
  have "fst \<circ> (\<lambda>(fp, l). (fp, f fp l)) = fst" by auto
  then show ?thesis using assms by (auto simp: links_ok_def hm_ok_def list_all_iff)
qed

lemma revoke_link_ok: "link_ok log (fp, l) \<Longrightarrow> link_ok log (fp, snd (snd (revoke_link has_prefix ns is_revoked l)))"
  by (auto simp: revoke_link_def Let_def link_ok_def list_all_iff path_of_def comp_def split: option.split)

lemma links_ok_do: "links_ok lt \<Longrightarrow> links_ok (link_do op lt)"
proof (cases op)
  case (LinkRegister reg mine)
  assume "links_ok lt"
  then show ?thesis using links_ok_register [of "fst lt" "snd lt"] LinkRegister by simp
next
  case (LinkUnregister fp g)
  assume "links_ok lt"
  then show ?thesis using links_ok_unregister [of "fst lt" "snd lt"] LinkUnregister by (cases lt) simp
next
  case (LinkRevoked has_prefix ns is_revoked)
  assume lt: "links_ok lt"
  obtain log t where [simp]: "lt = (log, t)" by (cases lt)
  show ?thesis
    using lt revoke_link_ok
    by (auto simp: LinkRevoked close_revoked_def Let_def
        intro!: links_ok_map [of log t _ "\<lambda>fp l. snd (snd (revoke_link has_prefix ns is_revoked l))"])
qed (cases lt; auto simp: relink_enrolled_def relink_changed_def relink_where_def take_relink_def Let_def intro: links_ok_same)+

lemma generation_new: "Suc n < 2 ^ 64 \<Longrightarrow> m \<le> n \<Longrightarrow> (of_nat m :: u64) \<noteq> of_nat (Suc n)"
  by (simp add: word_of_nat_eq_iff take_bit_nat_eq_self del: of_nat_Suc)

lemma log_ok_register:
  assumes "log_ok n (log, t)" and "Suc n < 2 ^ 64"
  shows "log_ok (Suc n) (link_do (LinkRegister reg mine) (log, t))"
proof -
  have g: "tb_generation t = of_nat n" "distinct (map fst log)" "\<And>g reg. (g, reg) \<in> set log \<Longrightarrow> \<exists>m\<le>n. g = of_nat m"
    using assms(1) by (auto simp: log_ok_def list_all_iff)
  have new: "(of_nat (Suc n), reg') \<notin> set log" for reg'
    using g(3) [of "of_nat (Suc n)" reg'] generation_new [OF assms(2)] by metis
  have old: "\<exists>m\<le>Suc n. g = of_nat m" if "(g, reg') \<in> set log" for g reg' using g(3) [OF that] le_SucI by blast
  have gen: "tb_generation t + 1 = of_nat (Suc n)" using g(1) by simp
  have keep: "log_ok (Suc n) (log, t')" "log_ok (Suc n) ((of_nat (Suc n), reg) # log, t')"
    if "tb_generation t' = of_nat (Suc n)" for t' :: "('a, 'b) link_table"
    using that g(2) new old by (auto simp: log_ok_def list_all_iff simp del: of_nat_Suc)
  show ?thesis
    by (auto simp: link_register_def Let_def gen simp del: of_nat_Suc intro!: keep split: option.split)
qed

lemma log_ok_other: "\<not> is_registration op \<Longrightarrow> log_ok n lt \<Longrightarrow> log_ok n (link_do op lt)"
  by (cases lt; cases op) (auto simp: is_registration_def log_ok_def link_unregister_def relink_enrolled_def relink_changed_def
      relink_where_def take_relink_def close_revoked_def Let_def split: option.splits)

lemma link_run_ok:
  assumes "n + length (filter is_registration ops) < 2 ^ 64" and "log_ok n lt" and "links_ok lt"
  shows "links_ok (fold link_do ops lt) \<and> log_ok (n + length (filter is_registration ops)) (fold link_do ops lt)"
  using assms
proof (induction ops arbitrary: n lt)
  case (Cons op ops)
  show ?case
  proof (cases "is_registration op")
    case True
    then obtain reg mine where op: "op = LinkRegister reg mine" by (cases op) (auto simp: is_registration_def)
    have "log_ok (Suc n) (link_do op lt)"
      using log_ok_register [of n "fst lt" "snd lt" reg mine] Cons.prems op by (simp add: is_registration_def)
    then show ?thesis using Cons.IH [of "Suc n" "link_do op lt"] Cons.prems(1,3) links_ok_do [of lt op] True by simp
  next
    case False
    then show ?thesis
      using Cons.IH [of n "link_do op lt"] log_ok_other [OF False Cons.prems(2)] links_ok_do [OF Cons.prems(3), of op] Cons.prems(1)
      by simp
  qed
qed simp

lemma links_ok_run:
  assumes "length (filter is_registration ops) < 2 ^ 64"
  shows "links_ok (link_run ops)" and "distinct (map fst (fst (link_run ops)))"
proof -
  show "links_ok (link_run ops)" "distinct (map fst (fst (link_run ops)))"
    using link_run_ok [of 0 ops "([], link_table_new)"] assms
    by (simp_all add: link_run_def log_ok_def links_ok_def link_table_new_def hm_ok_def)
qed

text \<open>
  (C38) One link per device. After any operations with fewer than \<open>2^64\<close> registrations the table has one entry per
  device; each entry has a path, and at most one of each kind; each path is the one that the
  registration of its generation recorded for that device; and no two registrations had the same generation. So
  the end of a path that was replaced finds nothing to take out.
\<close>

theorem one_link_per_device:
  assumes "length (filter is_registration ops) < 2 ^ 64" and "link_run ops = (log, t)"
  shows "distinct (map fst (tb_live t)) \<and> list_all (link_ok log) (tb_live t) \<and> distinct (map fst log)"
  using links_ok_run [OF assms(1)] assms(2) by (simp add: links_ok_def hm_ok_def)

section \<open>Revocation\<close>

lemma take_first_split:
  "take_first p xs = Some (x, ys) \<Longrightarrow> \<exists>as bs. xs = as @ x # bs \<and> ys = as @ bs \<and> p x \<and> list_all (\<lambda>a. \<not> p a) as"
proof (induction xs arbitrary: ys)
  case (Cons a xs)
  show ?case
  proof (cases "p a")
    case True
    then show ?thesis using Cons.prems by (auto intro: exI [of _ "[]"])
  next
    case False
    then obtain zs where zs: "take_first p xs = Some (x, zs)" "ys = a # zs" using Cons.prems by auto
    from Cons.IH [OF zs(1)] obtain as bs where "xs = as @ x # bs" "zs = as @ bs" "p x" "list_all (\<lambda>a. \<not> p a) as" by auto
    then have "a # xs = (a # as) @ x # bs \<and> ys = (a # as) @ bs \<and> p x \<and> list_all (\<lambda>a. \<not> p a) (a # as)"
      using zs(2) False by simp
    then show ?thesis by blast
  qed
qed simp

lemma take_first_none: "take_first p xs = None \<longleftrightarrow> list_all (\<lambda>x. \<not> p x) xs"
  by (induction xs) auto

text \<open>What a link must be after a revocation that takes the identity \<open>i\<close> from it.\<close>

definition without_routes :: "'n link_identity \<Rightarrow> ('h, 'n) live_path \<Rightarrow> ('h, 'n) live_path" where
  "without_routes i p = p\<lparr>vp_path := (vp_path p)\<lparr>lp_routes :=
     filter (\<lambda>r. lr_prefix r \<notin> {li_device i, li_namespace i}) (lp_routes (vp_path p))\<rparr>\<rparr>"

definition lost_routes :: "'n link_identity \<Rightarrow> ('h, 'n) live_path \<Rightarrow> 'n list" where
  "lost_routes i p = map lr_prefix (filter (\<lambda>r. lr_prefix r \<in> {li_device i, li_namespace i}) (lp_routes (vp_path p)))"

definition reports :: "'n link_identity \<Rightarrow> ('h, 'n) live_link \<Rightarrow> ('h, 'n) membership_dropped \<Rightarrow> bool" where
  "reports i l d \<longleftrightarrow> md_namespace d = li_namespace i
     \<and> md_routes d = map (\<lambda>p. (lp_face (vp_path p), lost_routes i p)) (filter (\<lambda>p. lost_routes i p \<noteq> []) (lk_paths l))"

lemma map_filter_if: "List.map_filter (\<lambda>p. if a p then None else Some (b p)) ps = map b (filter (\<lambda>p. \<not> a p) ps)"
  by (induction ps) (auto simp: List.map_filter_def)

lemma revoke_link_none: "filter (id_revoked hp ns rvk) (lk_identities l) = [] \<Longrightarrow> revoke_link hp ns rvk l = ([], [], l)"
  using take_first_none [of "id_revoked hp ns rvk" "lk_identities l"]
  by (auto simp: revoke_link_def list_all_iff filter_empty_conv split: option.split)

lemma revoke_link_one:
  assumes "filter (id_revoked hp ns rvk) (lk_identities l) = [i]"
  shows "lk_identities (snd (snd (revoke_link hp ns rvk l))) = filter (\<lambda>i. \<not> id_revoked hp ns rvk i) (lk_identities l)"
    and "filter (\<lambda>i. \<not> id_revoked hp ns rvk i) (lk_identities l) = [] \<Longrightarrow>
      lk_paths (snd (snd (revoke_link hp ns rvk l))) = lk_paths l
      \<and> fst (revoke_link hp ns rvk l) = map (\<lambda>p. (lp_handle (vp_path p), CloseRevoked)) (lk_paths l)"
    and "filter (\<lambda>i. \<not> id_revoked hp ns rvk i) (lk_identities l) \<noteq> [] \<Longrightarrow>
      lk_paths (snd (snd (revoke_link hp ns rvk l))) = map (without_routes i) (lk_paths l)
      \<and> list_ex (reports i l) (fst (snd (revoke_link hp ns rvk l)))"
proof -
  let ?rev = "id_revoked hp ns rvk"
  have "take_first ?rev (lk_identities l) \<noteq> None"
  proof
    assume "take_first ?rev (lk_identities l) = None"
    then have "filter ?rev (lk_identities l) = []" using take_first_none [of ?rev "lk_identities l"] by (auto simp: filter_empty_conv list_all_iff)
    then show False using assms by simp
  qed
  then obtain j ys where first: "take_first ?rev (lk_identities l) = Some (j, ys)" by auto
  from take_first_split [OF first] obtain as bs where split: "lk_identities l = as @ j # bs" "ys = as @ bs" "?rev j"
    "list_all (\<lambda>a. \<not> ?rev a) as" by blast
  have none: "filter ?rev as = []" using split(4) by (auto simp: filter_empty_conv list_all_iff)
  then have ij: "i = j" "filter ?rev bs = []" using assms split(1,3) by simp_all
  have "filter (\<lambda>i. \<not> ?rev i) as = as" "filter (\<lambda>i. \<not> ?rev i) bs = bs"
    using none ij(2) by (auto simp: filter_id_conv filter_empty_conv)
  then have rest: "filter (\<lambda>i. \<not> ?rev i) (lk_identities l) = ys" using split by simp
  show "lk_identities (snd (snd (revoke_link hp ns rvk l))) = filter (\<lambda>i. \<not> ?rev i) (lk_identities l)"
    by (simp add: revoke_link_def first Let_def rest)
  show "lk_paths (snd (snd (revoke_link hp ns rvk l))) = lk_paths l
      \<and> fst (revoke_link hp ns rvk l) = map (\<lambda>p. (lp_handle (vp_path p), CloseRevoked)) (lk_paths l)"
    if "filter (\<lambda>i. \<not> ?rev i) (lk_identities l) = []"
    using that by (simp add: revoke_link_def first Let_def rest)
  show "lk_paths (snd (snd (revoke_link hp ns rvk l))) = map (without_routes i) (lk_paths l)
      \<and> list_ex (reports i l) (fst (snd (revoke_link hp ns rvk l)))"
    if "filter (\<lambda>i. \<not> ?rev i) (lk_identities l) \<noteq> []"
    using that
    by (simp add: revoke_link_def first Let_def rest ij reports_def without_routes_def lost_routes_def
        map_filter_if)
qed


section \<open>Witnesses\<close>

definition home_id :: "string link_identity" where
  "home_id = \<lparr>li_namespace = ''/home'', li_version = 1, li_device = ''/home/phone'', li_role = ''member'',
     li_certificates = [''cert-home''], li_served = None\<rparr>"

definition work_id :: "string link_identity" where
  "work_id = \<lparr>li_namespace = ''/work'', li_version = 1, li_device = ''/work/phone'', li_role = ''member'',
     li_certificates = [''cert-work''], li_served = None\<rparr>"

definition phone_registration :: "path_kind \<Rightarrow> nat \<Rightarrow> (nat, string) registration" where
  "phone_registration kind h = \<lparr>rg_fingerprint = 5, rg_peer = None, rg_identities = [home_id, work_id], rg_shown = [],
     rg_enrolling = [], rg_path = \<lparr>lp_face = of_nat h, lp_handle = h, lp_direction = DialAccepted, lp_kind = kind,
       lp_routes = [\<lparr>lr_prefix = ''/home/phone'', lr_cost = 0\<rparr>, \<lparr>lr_prefix = ''/work/phone'', lr_cost = 0\<rparr>]\<rparr>\<rparr>"

definition phone_ops :: "(nat, string) link_op list" where
  "phone_ops = [LinkRegister (phone_registration PathLink 1) (Some 9), LinkRegister (phone_registration PathDirect 2) (Some 9),
     LinkRegister (phone_registration PathLink 3) (Some 9), LinkUnregister 5 1]"

theorem one_link_per_device_witness:
  "list_all (link_ok (fst (link_run phone_ops))) (tb_live (snd (link_run phone_ops)))
   \<and> map (map (lp_handle \<circ> vp_path) \<circ> lk_paths \<circ> snd) (tb_live (snd (link_run phone_ops))) = [[2, 3]]"
proof -
  have "length (filter is_registration phone_ops) < 2 ^ 64" by (simp add: phone_ops_def is_registration_def)
  from one_link_per_device [OF this prod.collapse [symmetric]]
  have "list_all (link_ok (fst (link_run phone_ops))) (tb_live (snd (link_run phone_ops)))" by simp
  moreover have "map (map (lp_handle \<circ> vp_path) \<circ> lk_paths \<circ> snd) (tb_live (snd (link_run phone_ops))) = [[2, 3]]" by code_simp
  ultimately show ?thesis by simp
qed

definition home_prefix :: "string \<Rightarrow> string \<Rightarrow> bool" where
  "home_prefix name ns = (take (length ns) name = ns)"

definition phone_link :: "(nat, string) live_link" where
  "phone_link = \<lparr>lk_peer = None, lk_identities = [home_id, work_id], lk_shown = [], lk_enrolling = [],
     lk_paths = [\<lparr>vp_path = rg_path (phone_registration PathLink 1), vp_generation = 1\<rparr>]\<rparr>"


end
