(* ===== verification/Link_Policy.thy ===== *)
theory Link_Policy
  imports Maps
begin

text \<open>
  When a device dials again, and how many enrollment links a relay holds (\<open>ndn-link/src/policy.rs\<close>,
  \<open>slots.rs\<close>). Durations are milliseconds; none of them comes near the range of \<open>Duration\<close>.
\<close>

section \<open>The backoff\<close>

definition BACKOFF_FIRST :: nat where "BACKOFF_FIRST = 500"
definition BACKOFF_MAX :: nat where "BACKOFF_MAX = 30000"
definition BACKOFF_REFUSED :: nat where "BACKOFF_REFUSED = 60000"
definition DIRECT_RETRY_FIRST :: nat where "DIRECT_RETRY_FIRST = 5000"
definition DIRECT_RETRY_MAX :: nat where "DIRECT_RETRY_MAX = 300000"
definition DIRECT_RETRY_REFUSED :: nat where "DIRECT_RETRY_REFUSED = 600000"
definition ENROLLMENT_LINKS_MAX :: nat where "ENROLLMENT_LINKS_MAX = 32"
definition ENROLLMENT_LINKS_PER_SOURCE :: nat where "ENROLLMENT_LINKS_PER_SOURCE = 4"

record backoff =
  bo_next :: nat
  bo_first :: nat
  bo_max :: nat
  bo_refused :: nat

definition backoff_default :: backoff where
  "backoff_default = \<lparr>bo_next = BACKOFF_FIRST, bo_first = BACKOFF_FIRST, bo_max = BACKOFF_MAX, bo_refused = BACKOFF_REFUSED\<rparr>"

definition backoff_direct :: backoff where
  "backoff_direct = \<lparr>bo_next = DIRECT_RETRY_FIRST, bo_first = DIRECT_RETRY_FIRST, bo_max = DIRECT_RETRY_MAX,
     bo_refused = DIRECT_RETRY_REFUSED\<rparr>"

definition backoff_reset :: "backoff \<Rightarrow> backoff" where
  "backoff_reset b = b\<lparr>bo_next := bo_first b\<rparr>"

definition after_failure :: "bool \<Rightarrow> backoff \<Rightarrow> nat \<times> backoff" where
  "after_failure refused b =
     (if refused then (bo_refused b, b) else (bo_next b, b\<lparr>bo_next := min (bo_next b * 2) (bo_max b)\<rparr>))"

definition after_drop :: "backoff \<Rightarrow> nat" where
  "after_drop b = bo_first b"

text \<open>What a dial loop does with its backoff, and the waits it gets.\<close>

datatype dial_event = LinkUp | LinkDropped | DialFailed | DialRefused

fun dial_wait :: "dial_event \<Rightarrow> backoff \<Rightarrow> nat option \<times> backoff" where
  "dial_wait LinkUp b = (None, backoff_reset b)"
| "dial_wait LinkDropped b = (Some (after_drop b), b)"
| "dial_wait DialFailed b = (let (w, b) = after_failure False b in (Some w, b))"
| "dial_wait DialRefused b = (let (w, b) = after_failure True b in (Some w, b))"

definition dial_run :: "dial_event list \<Rightarrow> backoff \<Rightarrow> backoff" where
  "dial_run evs b = fold (\<lambda>ev b. snd (dial_wait ev b)) evs b"

text \<open>The failures that may pass, since the link was up last.\<close>

definition failures_since_up :: "dial_event list \<Rightarrow> nat" where
  "failures_since_up evs = length (filter (\<lambda>ev. ev = DialFailed) (takeWhile (\<lambda>ev. ev \<noteq> LinkUp) (rev evs)))"

lemma failures_snoc:
  "failures_since_up (evs @ [ev]) =
     (case ev of LinkUp \<Rightarrow> 0 | DialFailed \<Rightarrow> Suc (failures_since_up evs) | _ \<Rightarrow> failures_since_up evs)"
  by (cases ev) (simp_all add: failures_since_up_def)

definition backoff_ok :: "backoff \<Rightarrow> backoff \<Rightarrow> nat \<Rightarrow> bool" where
  "backoff_ok b0 b n \<longleftrightarrow> b = b0\<lparr>bo_next := min (bo_first b0 * 2 ^ n) (bo_max b0)\<rparr>"

lemma backoff_run:
  assumes "bo_next b = bo_first b" and "bo_first b \<le> bo_max b"
  shows "backoff_ok b (dial_run evs b) (failures_since_up evs)"
proof (induction evs rule: rev_induct)
  case Nil
  then show ?case using assms by (simp add: dial_run_def backoff_ok_def failures_since_up_def)
next
  case (snoc ev evs)
  have "min (min (bo_first b * 2 ^ n) (bo_max b) * 2) (bo_max b) = min (bo_first b * 2 ^ Suc n) (bo_max b)" for n
    by (auto simp: min_def)
  moreover have run: "dial_run (evs @ [ev]) b = snd (dial_wait ev (dial_run evs b))" by (simp add: dial_run_def)
  ultimately show ?case
    using snoc assms by (cases ev) (simp_all add: failures_snoc run backoff_ok_def backoff_reset_def after_failure_def mult.commute)
qed

text \<open>
  The dial backoff. Whatever happened before: a dial that fails in a way that may pass waits 500 ms doubled for
  each such failure since the link was up last, and at most 30 s; a dial that was refused waits 60 s and
  leaves the doubling alone; a link that drops is dialled again after 500 ms.
\<close>

theorem dial_backoff_waits:
  "fst (dial_wait ev (dial_run evs backoff_default)) =
     (case ev of
        LinkUp \<Rightarrow> None
      | LinkDropped \<Rightarrow> Some 500
      | DialFailed \<Rightarrow> Some (min (500 * 2 ^ failures_since_up evs) 30000)
      | DialRefused \<Rightarrow> Some 60000)"
  using backoff_run [of backoff_default evs]
  by (cases ev) (simp_all add: backoff_ok_def backoff_default_def after_failure_def after_drop_def BACKOFF_FIRST_def
      BACKOFF_MAX_def BACKOFF_REFUSED_def)

section \<open>Places for enrollment links\<close>

record 'i slot_counts =
  sl_total :: nat
  sl_by_source :: "('i \<times> nat) list"

definition slots_new :: "'i slot_counts" where
  "slots_new = \<lparr>sl_total = 0, sl_by_source = []\<rparr>"

definition from_source :: "'i \<Rightarrow> 'i slot_counts \<Rightarrow> nat" where
  "from_source i c = (case map_of (sl_by_source c) i of None \<Rightarrow> 0 | Some n \<Rightarrow> n)"

text \<open>\<open>None\<close> refuses the link as \<open>Busy\<close>; a place remembers the address it was taken from.\<close>

definition slot_reserve :: "'i \<Rightarrow> 'i slot_counts \<Rightarrow> 'i option \<times> 'i slot_counts" where
  "slot_reserve i c =
     (if ENROLLMENT_LINKS_MAX \<le> sl_total c \<or> ENROLLMENT_LINKS_PER_SOURCE \<le> from_source i c then (None, c)
      else (Some i, \<lparr>sl_total = sl_total c + 1, sl_by_source = hm_insert i (from_source i c + 1) (sl_by_source c)\<rparr>))"

definition slot_drop :: "'i \<Rightarrow> 'i slot_counts \<Rightarrow> 'i slot_counts" where
  "slot_drop i c =
     \<lparr>sl_total = sl_total c - 1,
      sl_by_source =
        (case map_of (sl_by_source c) i of
           None \<Rightarrow> sl_by_source c
         | Some n \<Rightarrow> if n - 1 = 0 then map_delete i (sl_by_source c) else hm_insert i (n - 1) (sl_by_source c))\<rparr>"

text \<open>The places held: \<open>SlotDrop k\<close> drops the \<open>k\<close>-th of them, if there is one.\<close>

datatype 'i slot_op = SlotReserve 'i | SlotDrop nat

fun slot_do :: "'i slot_op \<Rightarrow> 'i list \<times> 'i slot_counts \<Rightarrow> 'i list \<times> 'i slot_counts" where
  "slot_do (SlotReserve i) (held, c) =
     (case slot_reserve i c of (None, c) \<Rightarrow> (held, c) | (Some i, c) \<Rightarrow> (held @ [i], c))"
| "slot_do (SlotDrop k) (held, c) =
     (if k < length held then (take k held @ drop (Suc k) held, slot_drop (held ! k) c) else (held, c))"

definition slot_run :: "'i slot_op list \<Rightarrow> 'i list \<times> 'i slot_counts" where
  "slot_run ops = fold slot_do ops ([], slots_new)"

definition slots_inv :: "'i list \<times> 'i slot_counts \<Rightarrow> bool" where
  "slots_inv hc \<longleftrightarrow> sl_total (snd hc) = length (fst hc)
     \<and> (\<forall>i. map_of (sl_by_source (snd hc)) i = (if count_list (fst hc) i = 0 then None else Some (count_list (fst hc) i)))
     \<and> length (fst hc) \<le> ENROLLMENT_LINKS_MAX \<and> (\<forall>i. count_list (fst hc) i \<le> ENROLLMENT_LINKS_PER_SOURCE)"

lemma slots_from: "slots_inv (held, c) \<Longrightarrow> from_source i c = count_list held i"
  by (simp add: slots_inv_def from_source_def)

lemma slots_reserve:
  assumes "slots_inv (held, c)"
  shows "slots_inv (slot_do (SlotReserve i) (held, c))"
proof (cases "ENROLLMENT_LINKS_MAX \<le> length held \<or> ENROLLMENT_LINKS_PER_SOURCE \<le> count_list held i")
  case True
  then show ?thesis using assms slots_from [OF assms, of i] by (auto simp: slot_reserve_def slots_inv_def)
next
  case False
  then have "slot_do (SlotReserve i) (held, c) =
      (held @ [i], \<lparr>sl_total = length held + 1, sl_by_source = hm_insert i (count_list held i + 1) (sl_by_source c)\<rparr>)"
    using assms slots_from [OF assms, of i] by (simp add: slot_reserve_def slots_inv_def)
  then show ?thesis
    using assms False by (auto simp: slots_inv_def hm_insert_def update_conv' not_le Suc_le_eq)
qed

lemma split_nth: "k < length xs \<Longrightarrow> xs = take k xs @ xs ! k # drop (Suc k) xs"
  by (rule id_take_nth_drop)

lemma slots_drop:
  assumes inv: "slots_inv (held, c)"
  shows "slots_inv (slot_do (SlotDrop k) (held, c))"
proof (cases "k < length held")
  case False
  then show ?thesis using inv by simp
next
  case True
  define rest x where "rest = take k held @ drop (Suc k) held" and "x = held ! k"
  have held: "held = take k held @ x # drop (Suc k) held" unfolding x_def by (rule split_nth [OF True])
  have len: "length held = Suc (length rest)" using True by (simp add: rest_def)
  have count: "count_list held i = (if i = x then Suc (count_list rest i) else count_list rest i)" for i
    by (subst held) (simp add: rest_def)
  have by_source: "map_of (sl_by_source c) i = (if count_list held i = 0 then None else Some (count_list held i))" for i
    using inv by (simp add: slots_inv_def)
  have source: "map_of (sl_by_source c) x = Some (Suc (count_list rest x))" by (simp add: by_source count)
  have "map_of (sl_by_source (slot_drop x c)) i = (if count_list rest i = 0 then None else Some (count_list rest i))" for i
  proof (cases "i = x")
    case True
    then show ?thesis by (simp add: slot_drop_def source map_of_delete hm_insert_def update_conv')
  next
    case False
    then have "map_of (sl_by_source (slot_drop x c)) i = map_of (sl_by_source c) i"
      by (simp add: slot_drop_def source map_of_delete hm_insert_def update_conv')
    then show ?thesis using False by (simp add: by_source count)
  qed
  moreover have "length rest \<le> ENROLLMENT_LINKS_MAX" using inv len by (simp add: slots_inv_def)
  moreover have "count_list rest i \<le> ENROLLMENT_LINKS_PER_SOURCE" for i
  proof -
    have "count_list rest i \<le> count_list held i" by (simp add: count)
    also have "\<dots> \<le> ENROLLMENT_LINKS_PER_SOURCE" using inv by (simp add: slots_inv_def)
    finally show ?thesis .
  qed
  moreover have "sl_total (slot_drop x c) = length rest" using inv len by (simp add: slots_inv_def slot_drop_def)
  moreover have "slot_do (SlotDrop k) (held, c) = (rest, slot_drop x c)" using True by (simp add: rest_def x_def)
  ultimately show ?thesis by (simp add: slots_inv_def del: slot_do.simps)
qed

lemma slots_inv_run: "slots_inv (slot_run ops)"
proof -
  have "slots_inv (fold slot_do ops hc)" if "slots_inv hc" for hc :: "'a list \<times> 'a slot_counts"
    using that
  proof (induction ops arbitrary: hc)
    case (Cons op ops)
    obtain held c where hc: "hc = (held, c)" by (cases hc)
    have "slots_inv (slot_do op hc)" using Cons.prems slots_reserve [of held c] slots_drop [of held c] hc
      by (cases op) (simp_all del: slot_do.simps)
    then show ?case using Cons.IH by simp
  qed simp
  then show ?thesis by (simp add: slot_run_def slots_inv_def slots_new_def ENROLLMENT_LINKS_MAX_def)
qed

text \<open>
  Places are counted exactly. After any sequence of reservations and ended links the counters are those of the
  places held: at most 32, at most 4 from one address; so a reservation is refused exactly when one of the two limits is
  reached by places that are really held, and every place comes back when its link ends.
\<close>

theorem enrollment_slots_exact:
  "length (fst (slot_run ops)) \<le> 32 \<and> count_list (fst (slot_run ops)) i \<le> 4
   \<and> (fst (slot_reserve i (snd (slot_run ops))) = None \<longleftrightarrow>
        length (fst (slot_run ops)) = 32 \<or> count_list (fst (slot_run ops)) i = 4)"
proof -
  obtain held c where run: "slot_run ops = (held, c)" by fastforce
  have inv: "slots_inv (held, c)" using slots_inv_run [of ops] run by simp
  then have "length held \<le> 32" "count_list held i \<le> 4" "sl_total c = length held"
    by (simp_all add: slots_inv_def ENROLLMENT_LINKS_MAX_def ENROLLMENT_LINKS_PER_SOURCE_def)
  then show ?thesis
    using run slots_from [OF inv, of i]
    by (auto simp: slot_reserve_def ENROLLMENT_LINKS_MAX_def ENROLLMENT_LINKS_PER_SOURCE_def)
qed

end
