(* ===== verification/Link_Waiting.thy ===== *)
theory Link_Waiting
  imports Link_Table
begin

text \<open>
  Interests that wait for a link (\<open>ndn-link/src/waiting.rs\<close>): the routes that lead to the waiting face, and a
  queue for each peer that is dialled on demand and for each device asleep. Times are milliseconds; an
  Interest is its wire bytes; names and their prefix order are parameters.
\<close>

datatype wait_for = WaitPeer peer_id | WaitAsleep key_fingerprint

fun is_asleep :: "wait_for \<Rightarrow> bool" where
  "is_asleep (WaitAsleep _) \<longleftrightarrow> True"
| "is_asleep (WaitPeer _) \<longleftrightarrow> False"

record 'w held_interest =
  hi_wire :: 'w
  hi_until :: nat

section \<open>Routes to the waiting face\<close>

definition WAITING_COST :: u32 where "WAITING_COST = 1000"

text \<open>\<open>Waiting::route\<close>: the routes it takes from the forwarder, those it adds, and its own list.\<close>

definition waiting_route ::
    "wait_for \<Rightarrow> 'n list \<Rightarrow> ('n \<times> wait_for) list \<Rightarrow> 'n list \<times> 'n link_route list \<times> ('n \<times> wait_for) list" where
  "waiting_route target prefixes routes =
     (let stale = map fst (filter (\<lambda>(p, t). t = target \<and> p \<notin> set prefixes) routes);
          routes = filter (\<lambda>(_, t). t \<noteq> target) routes;
          fresh = filter (\<lambda>p. \<not> list_ex (\<lambda>(q, _). q = p) routes) prefixes;
          routes = routes @ map (\<lambda>p. (p, target)) prefixes;
          stale = filter (\<lambda>p. \<not> list_ex (\<lambda>(q, _). q = p) routes) stale
      in (stale, map (\<lambda>p. \<lparr>lr_prefix = p, lr_cost = WAITING_COST\<rparr>) fresh, routes))"

definition waiting_unroute :: "wait_for \<Rightarrow> ('n \<times> wait_for) list \<Rightarrow> 'n list \<times> 'n link_route list \<times> ('n \<times> wait_for) list" where
  "waiting_unroute target = waiting_route target []"

text \<open>\<open>max_by_key\<close> answers the last of the longest.\<close>

definition target_of :: "('n \<Rightarrow> 'n \<Rightarrow> bool) \<Rightarrow> ('n \<Rightarrow> nat) \<Rightarrow> 'n \<Rightarrow> ('n \<times> wait_for) list \<Rightarrow> wait_for option" where
  "target_of has_prefix len name routes =
     map_option snd (fold (\<lambda>x best. case best of None \<Rightarrow> Some x
         | Some y \<Rightarrow> if len (fst x) < len (fst y) then Some y else Some x)
       (filter (\<lambda>(p, _). has_prefix name p) routes) None)"

datatype 'n route_op = RouteTo wait_for "'n list" | Unroute wait_for

fun route_do :: "'n route_op \<Rightarrow> 'n set \<times> ('n \<times> wait_for) list \<Rightarrow> 'n set \<times> ('n \<times> wait_for) list" where
  "route_do (RouteTo target prefixes) (face, routes) =
     (let (stale, fresh, routes) = waiting_route target prefixes routes
      in ((face - set stale) \<union> lr_prefix ` set fresh, routes))"
| "route_do (Unroute target) (face, routes) =
     (let (stale, fresh, routes) = waiting_unroute target routes
      in ((face - set stale) \<union> lr_prefix ` set fresh, routes))"

text \<open>What each target waits under: what its last \<open>route\<close> said.\<close>

fun wanted_by :: "'n route_op list \<Rightarrow> wait_for \<Rightarrow> 'n set" where
  "wanted_by [] t = {}"
| "wanted_by (RouteTo target prefixes # ops) t = (if t = target then set prefixes else wanted_by ops t)"
| "wanted_by (Unroute target # ops) t = (if t = target then {} else wanted_by ops t)"

definition routes_inv :: "(wait_for \<Rightarrow> 'n set) \<Rightarrow> 'n set \<times> ('n \<times> wait_for) list \<Rightarrow> bool" where
  "routes_inv want fr \<longleftrightarrow> fst fr = fst ` set (snd fr) \<and> (\<forall>p t. (p, t) \<in> set (snd fr) \<longleftrightarrow> p \<in> want t)"

lemma route_inv:
  assumes "routes_inv want (face, routes)"
  shows "routes_inv (want(target := set prefixes)) (route_do (RouteTo target prefixes) (face, routes))"
proof -
  let ?kept = "filter (\<lambda>(_, t). t \<noteq> target) routes"
  let ?new = "?kept @ map (\<lambda>p. (p, target)) prefixes"
  have face: "face = fst ` set routes" and want: "\<And>p t. (p, t) \<in> set routes \<longleftrightarrow> p \<in> want t"
    using assms by (simp_all add: routes_inv_def)
  have result: "route_do (RouteTo target prefixes) (face, routes) =
    ((face - {p. (p, target) \<in> set routes \<and> p \<notin> fst ` set ?new}) \<union> {p \<in> set prefixes. p \<notin> fst ` set ?kept}, ?new)"
    by (force simp: waiting_route_def Let_def list_ex_iff)
  have "(face - {p. (p, target) \<in> set routes \<and> p \<notin> fst ` set ?new}) \<union> {p \<in> set prefixes. p \<notin> fst ` set ?kept} = fst ` set ?new"
    unfolding face by force
  moreover have "(p, t) \<in> set ?new \<longleftrightarrow> p \<in> (want(target := set prefixes)) t" for p t using want by auto
  ultimately show ?thesis unfolding result routes_inv_def by simp
qed

lemma unroute_is_route: "route_do (Unroute target) fr = route_do (RouteTo target []) fr"
  by (cases fr) (simp add: waiting_unroute_def)

text \<open>
  The waiting face is routed exactly as needed. After any sequence of calls, the forwarder's routes to the
  waiting face are those some target wants, each target by its last call: a prefix two targets share stays until the
  last of them lets go of it. (The latest call is the head of the list.)
\<close>

theorem waiting_routes_exact:
  "fst (foldr route_do ops ({}, [])) = (\<Union>t. wanted_by ops t)
   \<and> (\<forall>p t. (p, t) \<in> set (snd (foldr route_do ops ({}, []))) \<longleftrightarrow> p \<in> wanted_by ops t)"
proof -
  have inv: "routes_inv (wanted_by ops) (foldr route_do ops ({}, []))"
  proof (induction ops)
    case (Cons op ops)
    obtain face routes where fr: "foldr route_do ops ({}, []) = (face, routes)" by fastforce
    show ?case
      using Cons.IH route_inv [of "wanted_by ops" face routes] route_inv [of "wanted_by ops" face routes _ "[]"]
      by (cases op) (simp_all add: fr fun_upd_def unroute_is_route del: route_do.simps)
  qed (simp add: routes_inv_def)
  obtain face routes where fr: "foldr route_do ops ({}, []) = (face, routes)" by fastforce
  have face: "face = fst ` set routes" and want: "\<And>p t. (p, t) \<in> set routes \<longleftrightarrow> p \<in> wanted_by ops t"
    using inv by (simp_all add: routes_inv_def fr)
  have "p \<in> fst ` set routes \<longleftrightarrow> (\<exists>t. p \<in> wanted_by ops t)" for p unfolding want [symmetric] by force
  then have "face = (\<Union>t. wanted_by ops t)" unfolding face by blast
  then show ?thesis using want by (simp add: fr)
qed

section \<open>The queues\<close>

type_synonym 'w wait_queues = "(wait_for \<times> 'w held_interest list) list"

definition still_held :: "nat \<Rightarrow> 'w held_interest list \<Rightarrow> 'w held_interest list" where
  "still_held now = filter (\<lambda>h. now < hi_until h)"

definition queue_of :: "wait_for \<Rightarrow> 'w wait_queues \<Rightarrow> 'w held_interest list" where
  "queue_of target q = (case map_of q target of None \<Rightarrow> [] | Some hs \<Rightarrow> hs)"

definition waiting_take :: "nat \<Rightarrow> wait_for \<Rightarrow> 'w wait_queues \<Rightarrow> 'w list \<times> 'w wait_queues" where
  "waiting_take now target q = (map hi_wire (still_held now (queue_of target q)), map_delete target q)"

definition waiting_count :: "nat \<Rightarrow> wait_for \<Rightarrow> 'w wait_queues \<Rightarrow> nat" where
  "waiting_count now target q = length (still_held now (queue_of target q))"

definition waiting_total :: "nat \<Rightarrow> bool \<Rightarrow> 'w wait_queues \<Rightarrow> nat" where
  "waiting_total now asleep q =
     sum_list (map (\<lambda>(_, hs). length (still_held now hs)) (filter (\<lambda>(t, _). is_asleep t = asleep) q))"

definition prune_waiting :: "nat \<Rightarrow> 'w wait_queues \<Rightarrow> 'w wait_queues" where
  "prune_waiting now q = filter (\<lambda>(_, hs). hs \<noteq> []) (map (\<lambda>(t, hs). (t, still_held now hs)) q)"

definition waiting_hold ::
    "nat \<Rightarrow> wait_for \<Rightarrow> 'w \<Rightarrow> nat \<Rightarrow> nat \<Rightarrow> nat \<Rightarrow> nat option \<Rightarrow> 'w wait_queues \<Rightarrow> bool \<times> 'w wait_queues" where
  "waiting_hold now target wire lifetime per_target all_targets max_hold q =
     (let q = prune_waiting now q;
          held = sum_list (map (\<lambda>(_, hs). length hs) (filter (\<lambda>(t, _). is_asleep t = is_asleep target) q))
      in if all_targets \<le> held then (False, q)
         else
           let queue = queue_of target q
           in if per_target \<le> length queue then (False, hm_insert target queue q)
              else
                let wait = (case max_hold of None \<Rightarrow> lifetime | Some m \<Rightarrow> min lifetime m)
                in (True, hm_insert target (queue @ [\<lparr>hi_wire = wire, hi_until = now + wait\<rparr>]) q))"

section \<open>The queues as one list\<close>

text \<open>
  What the queues mean: one list of the Interests accepted and not yet taken, in the order they came. An
  Interest is dropped from it only when it is taken; those whose time is over do not count.
\<close>

type_synonym 'w wait_list = "(wait_for \<times> 'w held_interest) list"

definition waiting_at :: "nat \<Rightarrow> (wait_for \<Rightarrow> bool) \<Rightarrow> 'w wait_list \<Rightarrow> 'w held_interest list" where
  "waiting_at now p ws = still_held now (map snd (filter (\<lambda>(t, _). p t) ws))"

definition list_take :: "nat \<Rightarrow> wait_for \<Rightarrow> 'w wait_list \<Rightarrow> 'w list \<times> 'w wait_list" where
  "list_take now target ws = (map hi_wire (waiting_at now (\<lambda>t. t = target) ws), filter (\<lambda>(t, _). t \<noteq> target) ws)"

definition list_hold ::
    "nat \<Rightarrow> wait_for \<Rightarrow> 'w \<Rightarrow> nat \<Rightarrow> nat \<Rightarrow> nat \<Rightarrow> nat option \<Rightarrow> 'w wait_list \<Rightarrow> bool \<times> 'w wait_list" where
  "list_hold now target wire lifetime per_target all_targets max_hold ws =
     (if all_targets \<le> length (waiting_at now (\<lambda>t. is_asleep t = is_asleep target) ws)
        \<or> per_target \<le> length (waiting_at now (\<lambda>t. t = target) ws) then (False, ws)
      else (True, ws @ [(target, \<lparr>hi_wire = wire,
             hi_until = now + (case max_hold of None \<Rightarrow> lifetime | Some m \<Rightarrow> min lifetime m)\<rparr>)]))"

datatype 'w wait_op = WaitHold wait_for 'w nat nat nat "nat option" | WaitTake wait_for

datatype 'w wait_answer = Held bool | Taken "'w list"

fun wait_do :: "nat \<times> 'w wait_op \<Rightarrow> 'w wait_queues \<Rightarrow> 'w wait_answer \<times> 'w wait_queues" where
  "wait_do (now, WaitHold target wire lifetime per_target all_targets max_hold) q =
     (let (b, q) = waiting_hold now target wire lifetime per_target all_targets max_hold q in (Held b, q))"
| "wait_do (now, WaitTake target) q = (let (ws, q) = waiting_take now target q in (Taken ws, q))"

fun list_do :: "nat \<times> 'w wait_op \<Rightarrow> 'w wait_list \<Rightarrow> 'w wait_answer \<times> 'w wait_list" where
  "list_do (now, WaitHold target wire lifetime per_target all_targets max_hold) q =
     (let (b, q) = list_hold now target wire lifetime per_target all_targets max_hold q in (Held b, q))"
| "list_do (now, WaitTake target) q = (let (ws, q) = list_take now target q in (Taken ws, q))"

fun answers :: "('a \<Rightarrow> 's \<Rightarrow> 'r \<times> 's) \<Rightarrow> 'a list \<Rightarrow> 's \<Rightarrow> 'r list" where
  "answers f [] s = []"
| "answers f (x # xs) s = (let (r, s) = f x s in r # answers f xs s)"

definition means :: "nat \<Rightarrow> 'w wait_list \<Rightarrow> 'w wait_queues \<Rightarrow> bool" where
  "means now ws q \<longleftrightarrow> hm_ok q
     \<and> (\<forall>t later. now \<le> later \<longrightarrow> still_held later (queue_of t q) = waiting_at later (\<lambda>t'. t' = t) ws)"

lemma still_held_twice: "now \<le> later \<Longrightarrow> still_held later (still_held now hs) = still_held later hs"
  by (induction hs) (auto simp: still_held_def)

lemma means_later: "means now ws q \<Longrightarrow> now \<le> later \<Longrightarrow> means later ws q"
  by (auto simp: means_def)

lemma prune_waiting_lookup:
  "hm_ok q \<Longrightarrow> map_of (prune_waiting now q) t =
     (case map_of q t of None \<Rightarrow> None | Some hs \<Rightarrow> if still_held now hs = [] then None else Some (still_held now hs))"
proof (induction q)
  case (Cons x q)
  obtain k hs where x: "x = (k, hs)" by (cases x)
  have ok: "hm_ok q" "k \<notin> fst ` set q" using Cons.prems by (simp_all add: hm_ok_def x)
  then have "map_of q k = None" by (simp add: map_of_eq_None_iff)
  then show ?case using Cons.IH [OF ok(1)] by (auto simp: x prune_waiting_def)
qed (simp add: prune_waiting_def)

lemma prune_waiting_ok:
  assumes "hm_ok q"
  shows "hm_ok (prune_waiting now q)"
proof -
  have "distinct (map fst (map (\<lambda>(t, hs). (t, still_held now hs)) q))"
    using assms by (simp add: hm_ok_def comp_def case_prod_unfold)
  then show ?thesis by (simp only: hm_ok_def prune_waiting_def distinct_map_filter)
qed

lemma queue_of_prune: "hm_ok q \<Longrightarrow> queue_of t (prune_waiting now q) = still_held now (queue_of t q)"
  by (simp add: queue_of_def prune_waiting_lookup still_held_def split: option.split)

lemma sum_queues:
  assumes "distinct (map fst q)" and "\<And>t hs. (t, hs) \<in> set q \<Longrightarrow> length hs = length (filter (\<lambda>(t', _). t' = t) vs)"
    and "\<And>t v. (t, v) \<in> set vs \<Longrightarrow> p t \<Longrightarrow> t \<in> fst ` set q"
  shows "sum_list (map (\<lambda>(_, hs). length hs) (filter (\<lambda>(t, _). p t) q)) = length (filter (\<lambda>(t, _). p t) vs)"
  using assms
proof (induction q arbitrary: vs)
  case Nil
  then have "filter (\<lambda>(t, _). p t) vs = []" by (auto simp: filter_empty_conv)
  then show ?case by simp
next
  case (Cons x q)
  obtain k hs where x: "x = (k, hs)" by (cases x)
  let ?vs = "filter (\<lambda>(t, _). t \<noteq> k) vs"
  have eq: "filter (\<lambda>(t', _). t' = t) ?vs = filter (\<lambda>(t', _). t' = t) vs" if "t \<noteq> k" for t
    using that by (auto intro: filter_cong simp: filter_filter)
  have "sum_list (map (\<lambda>(_, hs). length hs) (filter (\<lambda>(t, _). p t) q)) = length (filter (\<lambda>(t, _). p t) ?vs)"
  proof (rule Cons.IH)
    show "length hs' = length (filter (\<lambda>(t', _). t' = t) ?vs)" if "(t, hs') \<in> set q" for t hs'
    proof -
      have "t \<noteq> k" using that Cons.prems(1) by (force simp: x)
      then show ?thesis using Cons.prems(2) [of t hs'] that eq by simp
    qed
    show "distinct (map fst q)" using Cons.prems(1) by (simp add: x)
    show "t \<in> fst ` set q" if "(t, v) \<in> set ?vs" "p t" for t v
      using Cons.prems(3) [of t v] that by (auto simp: x)
  qed
  moreover have "length (filter (\<lambda>(t, _). p t) vs) =
      length (filter (\<lambda>(t, _). p t) ?vs) + (if p k then length (filter (\<lambda>(t, _). t = k) vs) else 0)"
    by (induction vs) auto
  moreover have "length hs = length (filter (\<lambda>(t, _). t = k) vs)" using Cons.prems(2) [of k hs] by (simp add: x)
  ultimately show ?case by (simp add: x)
qed

lemma waiting_at_filter: "waiting_at now p ws = map snd (filter (\<lambda>(t, _). p t) (filter (\<lambda>(_, h). now < hi_until h) ws))"
  by (induction ws) (auto simp: waiting_at_def still_held_def)

lemma kind_count:
  assumes "means now ws q"
  shows "sum_list (map (\<lambda>(_, hs). length hs) (filter (\<lambda>(t, _). p t) (prune_waiting now q))) = length (waiting_at now p ws)"
proof -
  let ?vs = "filter (\<lambda>(_, h). now < hi_until h) ws"
  have ok: "hm_ok q" and at: "\<And>t. still_held now (queue_of t q) = waiting_at now (\<lambda>t'. t' = t) ws"
    using assms by (auto simp: means_def)
  have ok': "hm_ok (prune_waiting now q)" by (rule prune_waiting_ok [OF ok])
  have queue: "queue_of t (prune_waiting now q) = map snd (filter (\<lambda>(t', _). t' = t) ?vs)" for t
    by (simp add: queue_of_prune [OF ok] at waiting_at_filter)
  have "sum_list (map (\<lambda>(_, hs). length hs) (filter (\<lambda>(t, _). p t) (prune_waiting now q))) = length (filter (\<lambda>(t, _). p t) ?vs)"
  proof (rule sum_queues)
    show "distinct (map fst (prune_waiting now q))" using ok' by (simp add: hm_ok_def)
    show "length hs = length (filter (\<lambda>(t', _). t' = t) ?vs)" if "(t, hs) \<in> set (prune_waiting now q)" for t hs
      using that queue [of t] by (simp add: hm.mem_iff [OF ok'] queue_of_def)
    show "t \<in> fst ` set (prune_waiting now q)" if "(t, v) \<in> set ?vs" for t v
    proof -
      have "queue_of t (prune_waiting now q) \<noteq> []" using that queue [of t] by (force simp: filter_empty_conv)
      then have "map_of (prune_waiting now q) t \<noteq> None" by (auto simp: queue_of_def split: option.splits)
      then show ?thesis by (simp add: map_of_eq_None_iff)
    qed
  qed
  then show ?thesis by (simp add: waiting_at_filter)
qed

lemma means_prune:
  assumes "means now ws q"
  shows "means now ws (prune_waiting now q)"
proof -
  have ok: "hm_ok q" using assms by (simp add: means_def)
  have "still_held later (queue_of t (prune_waiting now q)) = still_held later (queue_of t q)" if "now \<le> later" for t later
    using that by (simp add: queue_of_prune [OF ok] still_held_twice)
  then show ?thesis using assms prune_waiting_ok [OF ok] by (simp add: means_def)
qed

lemma queue_of_insert: "queue_of t (hm_insert k hs q) = (if t = k then hs else queue_of t q)"
  by (simp add: queue_of_def hm_insert_def update_conv')

lemma queue_of_delete: "queue_of t (map_delete k q) = (if t = k then [] else queue_of t q)"
  by (simp add: queue_of_def map_of_delete)

lemma means_same: "means now ws q \<Longrightarrow> means now ws (hm_insert k (queue_of k q) q)"
  by (simp add: means_def hm.ok_insert queue_of_insert)

lemma waiting_at_append: "waiting_at now p (ws @ [(t, h)]) = waiting_at now p ws @ (if p t \<and> now < hi_until h then [h] else [])"
  by (simp add: waiting_at_def still_held_def)

lemma means_add: "means now ws q \<Longrightarrow> means now (ws @ [(k, h)]) (hm_insert k (queue_of k q @ [h]) q)"
  by (auto simp: means_def hm.ok_insert queue_of_insert waiting_at_append) (auto simp: still_held_def)

lemma hold_refines:
  assumes means: "means now ws q"
  shows "fst (waiting_hold now k w life per all m q) = fst (list_hold now k w life per all m ws)
    \<and> means now (snd (list_hold now k w life per all m ws)) (snd (waiting_hold now k w life per all m q))"
proof -
  note pruned = means_prune [OF means]
  have queue: "length (queue_of k (prune_waiting now q)) = length (waiting_at now (\<lambda>t. t = k) ws)"
    using means by (simp add: queue_of_prune means_def)
  show ?thesis
    using means_same [OF pruned, of k] means_add [OF pruned, of k] pruned kind_count [OF means] queue
    by (simp add: waiting_hold_def list_hold_def Let_def)
qed

lemma take_refines:
  assumes "means now ws q"
  shows "fst (waiting_take now k q) = fst (list_take now k ws) \<and> means now (snd (list_take now k ws)) (snd (waiting_take now k q))"
proof -
  have "waiting_at later (\<lambda>t'. t' = t) (filter (\<lambda>(t, _). t \<noteq> k) ws) = (if t = k then [] else waiting_at later (\<lambda>t'. t' = t) ws)" for later t
    by (induction ws) (auto simp: waiting_at_def still_held_def)
  then show ?thesis
    using assms by (auto simp: means_def waiting_take_def list_take_def queue_of_delete hm_ok_delete still_held_def)
qed

text \<open>
  (C40) The queues hold and deliver like one list. With a clock that does not go back: an Interest is accepted exactly when
  the Interests that still wait for targets of its kind, and for its target, are below their bounds; and taking a target
  delivers exactly those accepted for it since it was last taken whose time is not over, oldest first,
  each once. The answers of the queues are those of the list, over any sequence of operations.
\<close>

theorem waiting_queues_refine:
  assumes "sorted (map fst ops)"
  shows "answers wait_do ops ([] :: 'w wait_queues) = answers list_do ops ([] :: 'w wait_list)"
proof -
  have refine: "answers wait_do ops q = answers list_do ops ws" if "means now ws q" and "sorted (now # map fst ops)" 
    for now and ws :: "'w wait_list" and q
    using that
  proof (induction ops arbitrary: now ws q)
    case (Cons op ops)
    obtain t op' where op: "op = (t, op')" by (cases op)
    have means: "means t ws q" using Cons.prems means_later [of now ws q t] by (simp add: op)
    have "fst (wait_do op q) = fst (list_do op ws) \<and> means t (snd (list_do op ws)) (snd (wait_do op q))"
      using hold_refines [OF means] take_refines [OF means]
      by (cases op') (simp_all add: op case_prod_unfold Let_def)
    then show ?case
      using Cons.IH [of t "snd (list_do op ws)" "snd (wait_do op q)"] Cons.prems(2) by (simp add: op case_prod_unfold Let_def)
  qed simp
  have "means 0 [] []" by (simp add: means_def hm_ok_def queue_of_def waiting_at_def still_held_def)
  then show ?thesis by (rule refine) (simp add: assms)
qed

theorem waiting_queues_refine_witness:
  "answers wait_do [(1, WaitHold (WaitPeer 3) ''a'' 4000 64 1024 None), (2, WaitHold (WaitPeer 3) ''b'' 10 64 1024 None),
      (500, WaitHold (WaitAsleep 7) ''c'' 4000 64 4096 (Some 60)), (600, WaitTake (WaitPeer 3)), (600, WaitTake (WaitPeer 3))] []
   = [Held True, Held True, Held True, Taken [''a''], Taken []]"
  by (subst waiting_queues_refine) (simp, code_simp)

end
