(* ===== verification/Link_Relays.thy ===== *)
theory Link_Relays
  imports Link_Table "HOL-Library.Product_Lexorder"
begin

text \<open>
  The peers of a device, the relays it chooses among them, and the routes a link gets
  (\<open>ndn-link/src/peer.rs\<close>, \<open>relays.rs\<close>, \<open>routes.rs\<close>). Names are a parameter; what the trust contexts advertise,
  which relays are linked, failing or asked for are arguments of the choice.
\<close>

section \<open>Peers\<close>

datatype link_mode = ModeAlways | ModeOnDemand nat | ModeOff

datatype 'n relay_source = RelayUser | RelayNamespace 'n

record 'n relay_use =
  ru_source :: "'n relay_source"
  ru_preference :: u32

record 'n peer_spec =
  ps_label :: string
  ps_key :: "key_fingerprint option"
  ps_device :: "'n option"
  ps_endpoints :: "string list"
  ps_relay :: "peer_id option"
  ps_routes :: "'n list option"
  ps_persistent :: bool
  ps_reliability :: bool
  ps_direct :: bool
  ps_mode :: link_mode
  ps_relay_use :: "'n relay_use option"
  ps_hold :: bool

definition peer_spec_default :: "'n peer_spec" where
  "peer_spec_default = \<lparr>ps_label = '''', ps_key = None, ps_device = None, ps_endpoints = [], ps_relay = None,
     ps_routes = None, ps_persistent = True, ps_reliability = False, ps_direct = True, ps_mode = ModeAlways,
     ps_relay_use = None, ps_hold = False\<rparr>"

type_synonym 'n peers = "'n peer_spec option list"

definition peers_new :: "'n peer_spec list \<Rightarrow> 'n peers" where
  "peers_new = map Some"

definition peers_get :: "peer_id \<Rightarrow> 'n peers \<Rightarrow> 'n peer_spec option" where
  "peers_get i ps = (if i < length ps then ps ! i else None)"

definition peers_add :: "'n peer_spec \<Rightarrow> 'n peers \<Rightarrow> peer_id \<times> 'n peers" where
  "peers_add spec ps = (length ps, ps @ [Some spec])"

definition peers_remove :: "peer_id \<Rightarrow> 'n peers \<Rightarrow> 'n peer_spec option \<times> 'n peers" where
  "peers_remove i ps = (if i < length ps then (ps ! i, ps[i := None]) else (None, ps))"

definition peers_update :: "peer_id \<Rightarrow> ('n peer_spec \<Rightarrow> 'n peer_spec) \<Rightarrow> 'n peers \<Rightarrow> bool \<times> 'n peers" where
  "peers_update i change ps =
     (case peers_get i ps of None \<Rightarrow> (False, ps) | Some spec \<Rightarrow> (True, ps[i := Some (change spec)]))"

definition peers_is_relay :: "peer_id \<Rightarrow> 'n peers \<Rightarrow> bool" where
  "peers_is_relay i ps \<longleftrightarrow>
     (case peers_get i ps of None \<Rightarrow> False | Some p \<Rightarrow> ps_relay_use p \<noteq> None)
     \<or> list_ex (\<lambda>p. case p of None \<Rightarrow> False | Some p \<Rightarrow> ps_relay p = Some i) ps"

definition peers_iter :: "'n peers \<Rightarrow> (peer_id \<times> 'n peer_spec) list" where
  "peers_iter ps = List.map_filter (\<lambda>(i, p). map_option (Pair i) p) (zip [0..<length ps] ps)"

definition expects :: "key_fingerprint \<Rightarrow> 'n list \<Rightarrow> 'n peer_spec option \<Rightarrow> bool" where
  "expects fp devices p = (case p of None \<Rightarrow> False
     | Some p \<Rightarrow> ps_key p = Some fp \<or> (case ps_device p of None \<Rightarrow> False | Some d \<Rightarrow> d \<in> set devices))"

definition peers_find_any :: "key_fingerprint \<Rightarrow> 'n list \<Rightarrow> 'n peers \<Rightarrow> peer_id option" where
  "peers_find_any fp devices ps = find (\<lambda>i. expects fp devices (ps ! i)) [0..<length ps]"

definition peers_find :: "key_fingerprint \<Rightarrow> 'n option \<Rightarrow> 'n peers \<Rightarrow> peer_id option" where
  "peers_find fp device = peers_find_any fp (case device of None \<Rightarrow> [] | Some d \<Rightarrow> [d])"

definition reached_through :: "peer_id \<Rightarrow> 'n peers \<Rightarrow> 'n peer_spec list" where
  "reached_through relay ps = filter (\<lambda>p. ps_relay p = Some relay) (List.map_filter (\<lambda>p. p) ps)"

section \<open>The choice of relays\<close>

text \<open>A \<open>sort_by_key\<close> with the preference, then the user's before the namespace's, then the id.\<close>

definition relay_key :: "peer_id \<times> 'n peer_spec \<Rightarrow> u32 \<times> bool \<times> peer_id" where
  "relay_key x = (case ps_relay_use (snd x) of
     Some u \<Rightarrow> (ru_preference u, ru_source u \<noteq> RelayUser, fst x)
   | None \<Rightarrow> (0, False, fst x))"

definition relay_order :: "'n peers \<Rightarrow> (peer_id \<times> 'n peer_spec) list" where
  "relay_order ps = sort_key relay_key (filter (\<lambda>(_, p). ps_relay_use p \<noteq> None) (peers_iter ps))"

text \<open>What the trust contexts advertise: for each namespace its relays, by device name and perhaps key.\<close>

type_synonym 'n advertised = "('n \<times> ('n \<times> key_fingerprint option) list) list"

definition relay_namespaces_of :: "'n advertised \<Rightarrow> 'n peer_spec \<Rightarrow> 'n list \<Rightarrow> 'n list" where
  "relay_namespaces_of contexts peer own =
     (case map_option ru_source (ps_relay_use peer) of
        Some (RelayNamespace _) \<Rightarrow>
          filter (\<lambda>ns. list_ex (\<lambda>(cns, relays). cns = ns \<and>
              list_ex (\<lambda>(device, key). ps_device peer = Some device \<or> (ps_key peer \<noteq> None \<and> ps_key peer = key)) relays) contexts) own
      | Some RelayUser \<Rightarrow> own
      | None \<Rightarrow> [])"

text \<open>What the choice looks at: the state of a relay's link and of its dial loop.\<close>

record relay_view =
  rv_linked :: "peer_id \<Rightarrow> bool"
  rv_asked :: "peer_id \<Rightarrow> bool"
  rv_failing :: "peer_id \<Rightarrow> bool"

record 'n relay_choosing =
  rc_chosen :: "peer_id list"
  rc_retrying :: "peer_id list"
  rc_chosen_for :: "('n \<times> nat) list"

definition serves :: "'n \<Rightarrow> 'n advertised \<Rightarrow> 'n list \<Rightarrow> 'n peer_spec \<Rightarrow> 'n list" where
  "serves root contexts own p = (let s = relay_namespaces_of contexts p own in if s = [] then [root] else s)"

definition bump :: "'n \<Rightarrow> ('n \<times> nat) list \<Rightarrow> ('n \<times> nat) list" where
  "bump ns cf = (case map_of cf ns of Some c \<Rightarrow> hm_insert ns (c + 1) cf | None \<Rightarrow> cf @ [(ns, 1)])"

definition choice_step ::
    "relay_view \<Rightarrow> nat \<Rightarrow> ('n peer_spec \<Rightarrow> 'n list) \<Rightarrow> peer_id \<times> 'n peer_spec \<Rightarrow> 'n relay_choosing \<Rightarrow> 'n relay_choosing" where
  "choice_step v count served x c =
     (let (i, p) = x;
          needed = list_ex (\<lambda>ns. case map_of (rc_chosen_for c) ns of None \<Rightarrow> True | Some n \<Rightarrow> n < count) (served p)
      in if \<not> needed then c
         else if ps_mode p = ModeOff \<and> \<not> rv_asked v i \<and> \<not> rv_linked v i then c
         else if rv_linked v i \<or> \<not> rv_failing v i
         then c\<lparr>rc_chosen := rc_chosen c @ [i], rc_chosen_for := fold bump (served p) (rc_chosen_for c)\<rparr>
         else c\<lparr>rc_retrying := rc_retrying c @ [i]\<rparr>)"

definition relay_choice ::
    "relay_view \<Rightarrow> nat \<Rightarrow> 'n \<Rightarrow> 'n advertised \<Rightarrow> 'n list \<Rightarrow> 'n peers \<Rightarrow> 'n relay_choosing" where
  "relay_choice v count root contexts own ps =
     fold (choice_step v count (serves root contexts own)) (relay_order ps)
       \<lparr>rc_chosen = [], rc_retrying = [], rc_chosen_for = []\<rparr>"

definition relay_wanted :: "peer_id \<Rightarrow> 'n relay_choosing \<Rightarrow> bool" where
  "relay_wanted i c \<longleftrightarrow> i \<in> set (rc_chosen c) \<or> i \<in> set (rc_retrying c)"

definition relay_cost :: "peer_id \<Rightarrow> 'n peers \<Rightarrow> u32" where
  "relay_cost i ps = (case find (\<lambda>k. fst (relay_order ps ! k) = i) [0..<length (relay_order ps)] of
     None \<Rightarrow> 0 | Some rank \<Rightarrow> if rank < 2 ^ 32 then of_nat rank else -1)"

section \<open>Routes\<close>

definition VIA_RELAY_COST :: u32 where "VIA_RELAY_COST = 10"

datatype 'n enrollment = EnrollRelay "'n list" | EnrollDevice 'n

record 'n admitted =
  ad_fingerprint :: key_fingerprint
  ad_identities :: "'n link_identity list"
  ad_peer :: "peer_id option"
  ad_enrollment :: "'n enrollment option"

record 'n relay_routes =
  rr_namespaces :: "'n list"
  rr_cost :: u32

definition identity_route :: "(string \<Rightarrow> bool) \<Rightarrow> 'n link_identity \<Rightarrow> bool \<Rightarrow> 'n" where
  "identity_route is_node i dialled_peer = (if is_node (li_role i) \<and> dialled_peer then li_namespace i else li_device i)"

definition default_routes :: "(string \<Rightarrow> bool) \<Rightarrow> 'n peer_spec option \<Rightarrow> 'n link_identity list \<Rightarrow> bool \<Rightarrow> 'n list" where
  "default_routes is_node peer ids dials =
     (case Option.bind peer ps_routes of
        Some routes \<Rightarrow> routes
      | None \<Rightarrow>
          if ids = [] then (case Option.bind peer ps_device of None \<Rightarrow> [] | Some d \<Rightarrow> [d])
          else fold (\<lambda>i out. let p = identity_route is_node i (peer \<noteq> None \<and> dials) in if p \<in> set out then out else out @ [p]) ids [])"

definition routes_for ::
    "(string \<Rightarrow> bool) \<Rightarrow> 'n peers \<Rightarrow> 'n admitted \<Rightarrow> bool \<Rightarrow> 'n relay_routes option \<Rightarrow> 'n link_route list" where
  "routes_for is_node ps a dials relay =
     (case ad_enrollment a of
        Some (EnrollRelay _) \<Rightarrow> []
      | Some (EnrollDevice ns) \<Rightarrow> [\<lparr>lr_prefix = ns, lr_cost = 0\<rparr>]
      | None \<Rightarrow>
          let base = (case relay of None \<Rightarrow> 0 | Some r \<Rightarrow> rr_cost r);
              peer = Option.bind (ad_peer a) (\<lambda>i. peers_get i ps);
              own = (case (relay, Option.bind peer ps_routes) of
                       (Some r, None) \<Rightarrow> if rr_namespaces r \<noteq> [] then rr_namespaces r
                                        else default_routes is_node peer (ad_identities a) dials
                     | _ \<Rightarrow> default_routes is_node peer (ad_identities a) dials)
          in map (\<lambda>p. \<lparr>lr_prefix = p, lr_cost = base\<rparr>) own
             @ (case ad_peer a of
                  None \<Rightarrow> []
                | Some index \<Rightarrow>
                    concat (map (\<lambda>reached. map (\<lambda>p. \<lparr>lr_prefix = p, lr_cost = base + VIA_RELAY_COST\<rparr>)
                        (default_routes is_node (Some reached) [] False)) (reached_through index ps))))"

definition predicted_routes :: "'n peer_spec \<Rightarrow> 'n list \<Rightarrow> 'n list" where
  "predicted_routes peer relay_namespaces =
     (case ps_routes peer of
        Some routes \<Rightarrow> routes
      | None \<Rightarrow> if ps_relay_use peer \<noteq> None \<and> relay_namespaces \<noteq> [] then relay_namespaces
                else (case ps_device peer of None \<Rightarrow> [] | Some d \<Rightarrow> [d]))"

section \<open>What is chosen\<close>

text \<open>A relay that can be linked now, and how many of the relays chosen serve a namespace.\<close>

definition considered :: "relay_view \<Rightarrow> peer_id \<times> 'n peer_spec \<Rightarrow> bool" where
  "considered v x \<longleftrightarrow> \<not> (ps_mode (snd x) = ModeOff \<and> \<not> rv_asked v (fst x) \<and> \<not> rv_linked v (fst x))"

definition available :: "relay_view \<Rightarrow> peer_id \<Rightarrow> bool" where
  "available v i \<longleftrightarrow> rv_linked v i \<or> \<not> rv_failing v i"

definition chosen_serving :: "peer_id list \<Rightarrow> ('n peer_spec \<Rightarrow> 'n list) \<Rightarrow> 'n \<Rightarrow> (peer_id \<times> 'n peer_spec) list \<Rightarrow> nat" where
  "chosen_serving chosen served ns xs = length (filter (\<lambda>(i, p). i \<in> set chosen \<and> ns \<in> set (served p)) xs)"

text \<open>Some namespace the relay serves still lacks a relay: the first one is always taken.\<close>

definition lacks :: "nat \<Rightarrow> peer_id list \<Rightarrow> ('n peer_spec \<Rightarrow> 'n list) \<Rightarrow> (peer_id \<times> 'n peer_spec) list \<Rightarrow> 'n peer_spec \<Rightarrow> bool" where
  "lacks count chosen served before p \<longleftrightarrow> list_ex (\<lambda>ns. chosen_serving chosen served ns before < max 1 count) (served p)"

definition choice_inv ::
    "relay_view \<Rightarrow> nat \<Rightarrow> ('n peer_spec \<Rightarrow> 'n list) \<Rightarrow> (peer_id \<times> 'n peer_spec) list \<Rightarrow> 'n relay_choosing \<Rightarrow> bool" where
  "choice_inv v count served xs c \<longleftrightarrow>
     set (rc_chosen c) \<union> set (rc_retrying c) \<subseteq> fst ` set xs
     \<and> (\<forall>ns. map_of (rc_chosen_for c) ns =
          (let n = chosen_serving (rc_chosen c) served ns xs in if n = 0 then None else Some n))
     \<and> (\<forall>pre i p post. xs = pre @ (i, p) # post \<longrightarrow>
          (i \<in> set (rc_chosen c) \<longleftrightarrow> considered v (i, p) \<and> available v i \<and> lacks count (rc_chosen c) served pre p)
        \<and> (i \<in> set (rc_retrying c) \<longleftrightarrow> considered v (i, p) \<and> \<not> available v i \<and> lacks count (rc_chosen c) served pre p))"

lemma bump_lookup: "map_of (bump ns cf) k = (if k = ns then Some (case map_of cf ns of None \<Rightarrow> 1 | Some c \<Rightarrow> c + 1) else map_of cf k)"
  by (auto simp: bump_def hm_insert_def update_conv' map_add_def split: option.split)

lemma fold_bump_lookup:
  "distinct nss \<Longrightarrow> map_of (fold bump nss cf) k =
     (if k \<in> set nss then Some (case map_of cf k of None \<Rightarrow> 1 | Some c \<Rightarrow> c + 1) else map_of cf k)"
  by (induction nss arbitrary: cf) (auto simp: bump_lookup)

lemma chosen_serving_cong:
  "(\<And>i p. (i, p) \<in> set xs \<Longrightarrow> i \<in> set c \<longleftrightarrow> i \<in> set c') \<Longrightarrow> chosen_serving c served ns xs = chosen_serving c' served ns xs"
  unfolding chosen_serving_def by (rule arg_cong [of _ _ length], rule filter_cong) auto

lemma lacks_cong:
  "(\<And>i p. (i, p) \<in> set xs \<Longrightarrow> i \<in> set c \<longleftrightarrow> i \<in> set c') \<Longrightarrow> lacks count c served xs p = lacks count c' served xs p"
  using chosen_serving_cong [of xs c c' served] by (simp add: lacks_def)

lemma needed_lacks:
  assumes "choice_inv v count served xs c"
  shows "list_ex (\<lambda>ns. case map_of (rc_chosen_for c) ns of None \<Rightarrow> True | Some n \<Rightarrow> n < count) (served p)
    \<longleftrightarrow> lacks count (rc_chosen c) served xs p"
proof -
  have "(case map_of (rc_chosen_for c) ns of None \<Rightarrow> True | Some n \<Rightarrow> n < count) \<longleftrightarrow>
      chosen_serving (rc_chosen c) served ns xs < max 1 count" for ns
    using assms by (auto simp: choice_inv_def Let_def)
  then show ?thesis by (simp add: lacks_def)
qed

lemma snoc_split: "xs @ [x] = pre @ y # post \<longleftrightarrow> (post = [] \<and> pre = xs \<and> y = x) \<or> (\<exists>post'. post = post' @ [x] \<and> xs = pre @ y # post')"
  by (cases post rule: rev_cases) auto

text \<open>One more relay at the end: what is said of the earlier ones stays true.\<close>

lemma choice_inv_snoc:
  assumes inv: "choice_inv v count served xs c" and new: "i \<notin> fst ` set xs"
    and ch: "rc_chosen c' = rc_chosen c \<and> \<not> (b1 :: bool) \<or> rc_chosen c' = rc_chosen c @ [i] \<and> b1"
    and re: "rc_retrying c' = rc_retrying c \<and> \<not> b2 \<or> rc_retrying c' = rc_retrying c @ [i] \<and> b2"
    and b1: "b1 \<longleftrightarrow> considered v (i, p) \<and> available v i \<and> lacks count (rc_chosen c) served xs p"
    and b2: "b2 \<longleftrightarrow> considered v (i, p) \<and> \<not> available v i \<and> lacks count (rc_chosen c) served xs p"
    and cf: "\<And>ns. map_of (rc_chosen_for c') ns =
      (if b1 \<and> ns \<in> set (served p) then Some (case map_of (rc_chosen_for c) ns of None \<Rightarrow> 1 | Some n \<Rightarrow> n + 1)
       else map_of (rc_chosen_for c) ns)"
  shows "choice_inv v count served (xs @ [(i, p)]) c'"
proof -
  have sub: "set (rc_chosen c) \<union> set (rc_retrying c) \<subseteq> fst ` set xs" using inv by (simp add: choice_inv_def)
  have mem: "j \<in> set (rc_chosen c') \<longleftrightarrow> j \<in> set (rc_chosen c) \<or> j = i \<and> b1"
    "j \<in> set (rc_retrying c') \<longleftrightarrow> j \<in> set (rc_retrying c) \<or> j = i \<and> b2" for j
    using ch re by auto
  have old: "j \<in> set (rc_chosen c') \<longleftrightarrow> j \<in> set (rc_chosen c)" if "(j, q) \<in> set xs" for j q
    using that new mem by force
  have serving: "chosen_serving (rc_chosen c') served ns xs = chosen_serving (rc_chosen c) served ns xs" for ns
    by (rule chosen_serving_cong) (rule old)
  have ic: "i \<notin> set (rc_chosen c)" "i \<notin> set (rc_retrying c)" using sub new by auto
  have count: "chosen_serving (rc_chosen c') served ns (xs @ [(i, p)]) =
      chosen_serving (rc_chosen c) served ns xs + (if b1 \<and> ns \<in> set (served p) then 1 else 0)" for ns
  proof -
    have "chosen_serving (rc_chosen c') served ns (xs @ [(i, p)]) =
        chosen_serving (rc_chosen c') served ns xs + (if i \<in> set (rc_chosen c') \<and> ns \<in> set (served p) then 1 else 0)"
      by (simp add: chosen_serving_def)
    then show ?thesis using serving mem(1) [of i] ic by simp
  qed
  have cf': "map_of (rc_chosen_for c') ns =
      (let n = chosen_serving (rc_chosen c') served ns (xs @ [(i, p)]) in if n = 0 then None else Some n)" for ns
    using inv by (auto simp: cf count choice_inv_def Let_def)
  have one: "(j \<in> set (rc_chosen c') \<longleftrightarrow> considered v (j, q) \<and> available v j \<and> lacks count (rc_chosen c') served pre q)
      \<and> (j \<in> set (rc_retrying c') \<longleftrightarrow> considered v (j, q) \<and> \<not> available v j \<and> lacks count (rc_chosen c') served pre q)"
    if "xs @ [(i, p)] = pre @ (j, q) # post" for pre j q post
    using that unfolding snoc_split
  proof (elim disjE conjE exE)
    assume "pre = xs" "(j, q) = (i, p)"
    moreover have "lacks count (rc_chosen c') served xs p = lacks count (rc_chosen c) served xs p"
      by (rule lacks_cong) (rule old)
    ultimately show ?thesis using mem [of i] ic b1 b2 by simp
  next
    fix post' assume xs: "xs = pre @ (j, q) # post'"
    then have "j \<noteq> i" using new by force
    moreover have "lacks count (rc_chosen c') served pre q = lacks count (rc_chosen c) served pre q"
      by (rule lacks_cong) (use old xs in auto)
    ultimately show ?thesis using inv xs mem [of j] unfolding choice_inv_def by blast
  qed
  have "set (rc_chosen c') \<union> set (rc_retrying c') \<subseteq> fst ` set (xs @ [(i, p)])" using sub mem by force
  then show ?thesis using cf' one unfolding choice_inv_def by blast
qed

lemma choice_inv_step:
  assumes inv: "choice_inv v count served xs c" and new: "i \<notin> fst ` set xs" and "distinct (served p)"
  shows "choice_inv v count served (xs @ [(i, p)]) (choice_step v count served (i, p) c)"
proof -
  note needed = needed_lacks [OF inv, of p]
  let ?b1 = "considered v (i, p) \<and> available v i \<and> lacks count (rc_chosen c) served xs p"
  let ?b2 = "considered v (i, p) \<and> \<not> available v i \<and> lacks count (rc_chosen c) served xs p"
  have step: "choice_step v count served (i, p) c =
    (if ?b1 then c\<lparr>rc_chosen := rc_chosen c @ [i], rc_chosen_for := fold bump (served p) (rc_chosen_for c)\<rparr>
     else if ?b2 then c\<lparr>rc_retrying := rc_retrying c @ [i]\<rparr> else c)"
    unfolding choice_step_def prod.case Let_def needed by (auto simp: considered_def available_def)
  show ?thesis
    unfolding step
    by (rule choice_inv_snoc [OF inv new, of _ ?b1 ?b2]) (auto simp: fold_bump_lookup [OF assms(3)])
qed

lemma choice_inv_fold:
  assumes "distinct (map fst xs)" and "list_all (\<lambda>x. distinct (served (snd x))) xs"
  shows "choice_inv v count served xs (fold (choice_step v count served) xs \<lparr>rc_chosen = [], rc_retrying = [], rc_chosen_for = []\<rparr>)"
  using assms
proof (induction xs rule: rev_induct)
  case Nil
  then show ?case by (simp add: choice_inv_def chosen_serving_def)
next
  case (snoc x xs)
  obtain i p where x: "x = (i, p)" by (cases x)
  show ?case
    using choice_inv_step [OF snoc.IH, of i p] snoc.prems by (simp add: x)
qed

lemma iter_distinct:
  "distinct (map fst xs) \<Longrightarrow> distinct (map fst (List.map_filter (\<lambda>(i, p). map_option (Pair i) p) xs))
     \<and> fst ` set (List.map_filter (\<lambda>(i, p). map_option (Pair i) p) xs) \<subseteq> fst ` set xs"
proof (induction xs)
  case (Cons x xs)
  obtain i p where x: "x = (i, p)" by (cases x)
  have IH: "distinct (map fst (List.map_filter (\<lambda>(i, p). map_option (Pair i) p) xs))"
    "fst ` set (List.map_filter (\<lambda>(i, p). map_option (Pair i) p) xs) \<subseteq> fst ` set xs" using Cons by simp_all
  show ?case
  proof (cases p)
    case None
    then show ?thesis using IH by (auto simp: x List.map_filter_simps)
  next
    case (Some q)
    have "i \<notin> fst ` set (List.map_filter (\<lambda>(i, p). map_option (Pair i) p) xs)"
      using IH(2) Cons.prems by (auto simp: x)
    then show ?thesis using IH Some by (auto simp: x List.map_filter_simps)
  qed
qed (simp add: List.map_filter_simps)

lemma order_distinct: "distinct (map fst (relay_order ps))"
proof -
  have "distinct (map fst (peers_iter ps))" using iter_distinct [of "zip [0..<length ps] ps"] by (simp add: peers_iter_def)
  then have d: "distinct (map fst (filter (\<lambda>(_, p). ps_relay_use p \<noteq> None) (peers_iter ps)))" by (rule distinct_map_filter)
  then have "distinct (relay_order ps)" by (simp add: relay_order_def distinct_map)
  moreover have "inj_on fst (set (relay_order ps))" using d by (simp add: relay_order_def distinct_map)
  ultimately show ?thesis by (simp add: distinct_map)
qed

lemma serves_distinct: "distinct own \<Longrightarrow> distinct (serves root contexts own p)"
  by (auto simp: serves_def relay_namespaces_of_def Let_def split: option.splits relay_source.splits)

text \<open>
  The choice of relays. A relay is chosen exactly when it can be linked now (it is linked or its last dial did not
  fail, and it is not turned off) and some namespace it serves is served by fewer than \<open>count\<close> (at least one) of the
  chosen relays preferred to it; it is dialled again with backoff exactly when the same holds and its last
  dial failed. So of a relay that could be linked and is not chosen, every namespace has \<open>count\<close> chosen relays:
  a namespace is left without a relay only when none that serves it can be linked.
\<close>

theorem relay_choice_exact:
  assumes "distinct own" and "c = relay_choice v count root contexts own ps" and "served = serves root contexts own"
    and "relay_order ps = before @ (i, p) # after"
  shows "(i \<in> set (rc_chosen c) \<longleftrightarrow>
        considered v (i, p) \<and> available v i \<and> lacks count (rc_chosen c) served before p)
    \<and> (i \<in> set (rc_retrying c) \<longleftrightarrow>
        considered v (i, p) \<and> \<not> available v i \<and> lacks count (rc_chosen c) served before p)
    \<and> (if considered v (i, p) \<and> available v i \<and> i \<notin> set (rc_chosen c)
       then list_all (\<lambda>ns. max 1 count \<le> chosen_serving (rc_chosen c) served ns (relay_order ps)) (served p) else True)"
proof -
  have "list_all (\<lambda>x. distinct (served (snd x))) (relay_order ps)"
    using serves_distinct [OF assms(1)] by (simp add: assms(3) list_all_iff)
  from choice_inv_fold [OF order_distinct this, of v count]
  have inv: "choice_inv v count served (relay_order ps) c" by (simp add: assms(2,3) relay_choice_def)
  then have *: "i \<in> set (rc_chosen c) \<longleftrightarrow> considered v (i, p) \<and> available v i \<and> lacks count (rc_chosen c) served before p"
    "i \<in> set (rc_retrying c) \<longleftrightarrow> considered v (i, p) \<and> \<not> available v i \<and> lacks count (rc_chosen c) served before p"
    using assms(4) unfolding choice_inv_def by blast+
  have "chosen_serving (rc_chosen c) served ns before \<le> chosen_serving (rc_chosen c) served ns (relay_order ps)" for ns
    by (simp add: assms(4) chosen_serving_def)
  then have "list_all (\<lambda>ns. max 1 count \<le> chosen_serving (rc_chosen c) served ns (relay_order ps)) (served p)"
    if "\<not> lacks count (rc_chosen c) served before p"
    using that by (auto simp: lacks_def list_all_iff list_ex_iff not_less intro: le_trans)
  then show ?thesis using * by auto
qed

definition example_relays :: "string peers" where
  "example_relays =
     [Some (peer_spec_default\<lparr>ps_label := ''a'', ps_relay_use := Some \<lparr>ru_source = RelayUser, ru_preference = 5\<rparr>\<rparr>),
      Some (peer_spec_default\<lparr>ps_label := ''b'', ps_relay_use := Some \<lparr>ru_source = RelayUser, ru_preference = 1\<rparr>\<rparr>),
      Some (peer_spec_default\<lparr>ps_label := ''c''\<rparr>),
      Some (peer_spec_default\<lparr>ps_label := ''d'', ps_relay_use := Some \<lparr>ru_source = RelayUser, ru_preference = 7\<rparr>\<rparr>)]"

definition example_view :: relay_view where
  "example_view = \<lparr>rv_linked = (\<lambda>i. i = 0), rv_asked = (\<lambda>_. False), rv_failing = (\<lambda>i. i = 1)\<rparr>"

theorem relay_choice_exact_witness:
  "1 \<in> set (rc_retrying (relay_choice example_view 1 ''/'' [] [''/home''] example_relays))
   \<and> rc_chosen (relay_choice example_view 1 ''/'' [] [''/home''] example_relays) = [0]"
proof -
  have order: "map fst (relay_order example_relays) = [1, 0, 3]" by code_simp
  then obtain p xs where xs: "relay_order example_relays = (1, p) # xs" by (cases "relay_order example_relays") auto
  then have p: "p = snd (hd (relay_order example_relays))" by simp
  have "ps_mode p = ModeAlways" "serves ''/'' [] [''/home''] p = [''/home'']" unfolding p by code_simp+
  moreover have "rc_chosen (relay_choice example_view 1 ''/'' [] [''/home''] example_relays) = [0]" by code_simp
  ultimately show ?thesis
    using relay_choice_exact [OF _ refl refl, of "[''/home'']" example_relays "[]" 1 p xs example_view 1 "''/''" "[]"] xs
    by (simp add: considered_def available_def example_view_def lacks_def chosen_serving_def)
qed

end
