(* ===== verification/Pipe_Messages.thy ===== *)
theory Pipe_Messages
  imports Nlsr_Date Tlv
begin

text \<open>
  The message contract of \<open>ndn-pipes\<close> (\<open>message.rs\<close>): the names of SEEK, JOIN, CONTEXT, LINK, PIPE and
  CHECK, their classification, the bodies of a SEEK reply and of a PIPE bundle, and the hop index.
  A name is the list of its components, each with its type and value as the packet crate has them.
\<close>

record name_component =
  nc_typ :: u64
  nc_value :: "u8 list"

type_synonym pname = "name_component list"

text \<open>The component types of the NDN packet format.\<close>

definition GENERIC_COMPONENT :: u64 where "GENERIC_COMPONENT = 8"

definition PARAMETERS_SHA256 :: u64 where "PARAMETERS_SHA256 = 2"

definition generic :: "u8 list \<Rightarrow> name_component" where
  "generic v = \<lparr>nc_typ = GENERIC_COMPONENT, nc_value = v\<rparr>"

definition GHL :: u8 where "GHL = 64"

definition SEEK_PREFIX :: pname where "SEEK_PREFIX = [generic (ascii ''NPD''), generic (ascii ''SEEK'')]"

definition JOIN_PREFIX :: pname where "JOIN_PREFIX = [generic (ascii ''NPD''), generic (ascii ''JOIN'')]"

definition COMMON_PREFIX :: pname where "COMMON_PREFIX = [generic (ascii ''COMMON'')]"

datatype message_kind = Seek | Hide | Join | Context | Link | Pipe | Check

section \<open>Names\<close>

definition seek_name :: "pname \<Rightarrow> pname" where
  "seek_name namespace = SEEK_PREFIX @ namespace"

definition join_name :: "pname \<Rightarrow> u8 list \<Rightarrow> pname" where
  "join_name namespace pipe_id = (JOIN_PREFIX @ namespace) @ [generic pipe_id]"

definition context_name :: "u8 list \<Rightarrow> u32 \<Rightarrow> pname" where
  "context_name pipe_id hop = COMMON_PREFIX @ [generic pipe_id] @ [generic (digits (unat hop))] @ [generic (ascii ''CONTEXT'')]"

definition link_name :: "u8 list \<Rightarrow> u32 \<Rightarrow> pname" where
  "link_name pipe_id hop = COMMON_PREFIX @ [generic pipe_id] @ [generic (digits (unat hop))] @ [generic (ascii ''LINK'')]"

definition pipe_name :: "u8 list \<Rightarrow> u32 \<Rightarrow> pname" where
  "pipe_name pipe_id hop = COMMON_PREFIX @ [generic pipe_id] @ [generic (digits (unat hop))] @ [generic (ascii ''PIPE'')]"

definition check_name :: "u8 list \<Rightarrow> u32 \<Rightarrow> pname" where
  "check_name pipe_id pipe_length = [generic pipe_id] @ [generic (digits (unat pipe_length))] @ [generic (ascii ''CHECK'')]"

text \<open>A value that is the bytes of an ASCII literal is UTF-8, so the check of the bytes is the match on the string.\<close>

definition classify_message :: "pname \<Rightarrow> message_kind option" where
  "classify_message name =
     (let at = (\<lambda>i. if i < length name then Some (nc_value (name ! i)) else None)
      in if at 0 = Some (ascii ''NPD'') \<and> at 1 = Some (ascii ''SEEK'') then Some Seek
         else if at 0 = Some (ascii ''NPD'') \<and> at 1 = Some (ascii ''JOIN'') then Some Join
         else (case find (\<lambda>c. nc_typ c \<noteq> PARAMETERS_SHA256) (rev name) of
             None \<Rightarrow> None
           | Some c \<Rightarrow>
               if nc_value c = ascii ''CONTEXT'' then Some Context
               else if nc_value c = ascii ''LINK'' then Some Link
               else if nc_value c = ascii ''PIPE'' then Some Pipe
               else if nc_value c = ascii ''CHECK'' then Some Check
               else None))"

section \<open>Bodies\<close>

definition encode_seek_reply :: "u8 list \<Rightarrow> u8 \<Rightarrow> u8 list" where
  "encode_seek_reply sealed pipe_len = [pipe_len] @ sealed"

definition decode_seek_reply :: "u8 list \<Rightarrow> (u8 list \<times> u8) option" where
  "decode_seek_reply content =
     (case content of
        [] \<Rightarrow> None
      | pipe_len # sealed \<Rightarrow> if sealed = [] then None else Some (sealed, pipe_len))"

definition encode_pipe_bundle :: "u8 list \<Rightarrow> u64 \<Rightarrow> u8 list" where
  "encode_pipe_bundle pipe_key pui_ms = pipe_key @ to_be 8 pui_ms"

definition decode_pipe_bundle :: "u8 list \<Rightarrow> (u8 list \<times> u64) option" where
  "decode_pipe_bundle plain =
     (if length plain \<le> 8 then None
      else let n = length plain - 8 in Some (take n plain, from_be (drop n plain)))"

definition hop_index :: "u8 \<Rightarrow> u8 \<Rightarrow> u8" where
  "hop_index global_hop_limit remaining_hop_limit =
     (if remaining_hop_limit \<le> global_hop_limit then global_hop_limit - remaining_hop_limit else 0)"

section \<open>Lemmas\<close>

lemma seek_reply_back:
  "decode_seek_reply (encode_seek_reply sealed pipe_len) = (if sealed = [] then None else Some (sealed, pipe_len))"
  by (simp add: decode_seek_reply_def encode_seek_reply_def)

lemma pipe_bundle_back:
  "decode_pipe_bundle (encode_pipe_bundle key pui) = (if key = [] then None else Some (key, pui))"
  by (simp add: decode_pipe_bundle_def encode_pipe_bundle_def Let_def from_be_to_be take_bit_word_eq_self)

lemma hop_index_GHL: "n \<le> GHL \<Longrightarrow> hop_index GHL (GHL - n) = n"
  by (simp add: hop_index_def word_sub_le)

text \<open>Digits are no letters, so the length in a CHECK name is not a verb.\<close>

lemma digits_ne_ascii [simp]: "digits n \<noteq> ascii ''SEEK''" "digits n \<noteq> ascii ''JOIN''"
  "digits n \<noteq> ascii ''CONTEXT''" "digits n \<noteq> ascii ''LINK''" "digits n \<noteq> ascii ''PIPE''" "digits n \<noteq> ascii ''CHECK''"
  using digits_spec(2) [of n] by (auto simp: digit_def ascii_def)

text \<open>
  Every name is classified as what it was built for, whatever the namespace, the pipe id and the hop,
  also with the digest component that parameters add.
\<close>

lemma classify_names:
  assumes "list_all (\<lambda>c. nc_typ c = PARAMETERS_SHA256) digest"
  shows "classify_message (seek_name namespace @ digest) = Some Seek"
    and "classify_message (join_name namespace pipe_id @ digest) = Some Join"
    and "classify_message (context_name pipe_id hop @ digest) = Some Context"
    and "classify_message (link_name pipe_id hop @ digest) = Some Link"
    and "classify_message (pipe_name pipe_id hop @ digest) = Some Pipe"
    and "classify_message (check_name pipe_id hop @ digest) = Some Check"
proof -
  have skip: "find (\<lambda>c. nc_typ c \<noteq> PARAMETERS_SHA256) (rev digest @ xs) = find (\<lambda>c. nc_typ c \<noteq> PARAMETERS_SHA256) xs" for xs
    using assms by (induction digest arbitrary: xs) simp_all
  note names = seek_name_def join_name_def context_name_def link_name_def pipe_name_def check_name_def
    SEEK_PREFIX_def JOIN_PREFIX_def COMMON_PREFIX_def generic_def
  have types: "GENERIC_COMPONENT \<noteq> PARAMETERS_SHA256" by (simp add: GENERIC_COMPONENT_def PARAMETERS_SHA256_def)
  show "classify_message (seek_name namespace @ digest) = Some Seek"
    and "classify_message (join_name namespace pipe_id @ digest) = Some Join"
    and "classify_message (context_name pipe_id hop @ digest) = Some Context"
    and "classify_message (link_name pipe_id hop @ digest) = Some Link"
    and "classify_message (pipe_name pipe_id hop @ digest) = Some Pipe"
    by (simp_all add: classify_message_def names skip types) (simp_all add: ascii_def)
  show "classify_message (check_name pipe_id hop @ digest) = Some Check"
    by (simp add: classify_message_def names skip types) (simp add: ascii_def)
qed

end
