(* ===== verification/Pipe_Store.thy ===== *)
theory Pipe_Store
  imports Pipe_Messages Maps
begin

text \<open>
  The pipe state of a node: the producer's table (\<open>registry.rs\<close>), a relay's table with its inactivity
  monitor (\<open>relay.rs\<close>), and the teardown that walks a path (\<open>pathcontrol.rs\<close>), which sees either
  table through the trait \<open>PipeMembership\<close>. Instants and durations are milliseconds. Hashing is of a
  package outside the repository.
\<close>

type_synonym pipe_id = "u8 list"

section \<open>The producer's table\<close>

record pipe_entry =
  pe_deadline :: nat
  pe_pipe_key :: "u8 list"

type_synonym registry = "(pipe_id \<times> pipe_entry) list"

definition registry_insert :: "pipe_id \<Rightarrow> nat \<Rightarrow> u8 list \<Rightarrow> registry \<Rightarrow> registry" where
  "registry_insert i deadline pipe_key r = hm_insert i \<lparr>pe_deadline = deadline, pe_pipe_key = pipe_key\<rparr> r"

definition refresh_if_live :: "nat \<Rightarrow> pipe_id \<Rightarrow> nat \<Rightarrow> registry \<Rightarrow> bool \<times> registry" where
  "refresh_if_live now i pui r =
     (case map_of r i of
        Some e \<Rightarrow>
          if now \<le> pe_deadline e then (True, hm_insert i (e\<lparr>pe_deadline := now + pui\<rparr>) r)
          else (False, map_delete i r)
      | None \<Rightarrow> (False, r))"

definition registry_pipe_key :: "nat \<Rightarrow> registry \<Rightarrow> pipe_id \<Rightarrow> u8 list option" where
  "registry_pipe_key now r i =
     (case map_of r i of
        Some e \<Rightarrow> if now \<le> pe_deadline e then Some (pe_pipe_key e) else None
      | None \<Rightarrow> None)"

definition registry_reap_now :: "pipe_id \<Rightarrow> registry \<Rightarrow> registry" where
  "registry_reap_now i r = map_delete i r"

section \<open>A relay's table\<close>

record relay_entry =
  re_namespace :: pname
  re_hop :: u32
  re_pipe_key :: "u8 list"
  re_pui :: nat
  re_last_activity :: nat
  re_announced :: bool

type_synonym relay_store = "(pipe_id \<times> relay_entry) list"

record due_teardown =
  dt_namespace :: pname
  dt_id :: pipe_id
  dt_pipe_key :: "u8 list"

definition relay_insert :: "nat \<Rightarrow> pipe_id \<Rightarrow> pname \<Rightarrow> u32 \<Rightarrow> u8 list \<Rightarrow> nat \<Rightarrow> relay_store \<Rightarrow> relay_store" where
  "relay_insert now i namespace hop pipe_key pui s =
     hm_insert i \<lparr>re_namespace = namespace, re_hop = hop, re_pipe_key = pipe_key, re_pui = pui,
       re_last_activity = now, re_announced = False\<rparr> s"

definition relay_bundle :: "relay_store \<Rightarrow> pipe_id \<Rightarrow> (u8 list \<times> nat) option" where
  "relay_bundle s i = map_option (\<lambda>e. (re_pipe_key e, re_pui e)) (map_of s i)"

definition relay_pipe_key :: "relay_store \<Rightarrow> pipe_id \<Rightarrow> u8 list option" where
  "relay_pipe_key s i = map_option fst (relay_bundle s i)"

definition namespace_of :: "relay_store \<Rightarrow> pipe_id \<Rightarrow> pname option" where
  "namespace_of s i = map_option re_namespace (map_of s i)"

definition has_prefix :: "pname \<Rightarrow> pname \<Rightarrow> bool" where
  "has_prefix name p \<longleftrightarrow> take (length p) name = p"

definition renew :: "nat \<Rightarrow> relay_entry \<Rightarrow> relay_entry" where
  "renew now e = e\<lparr>re_last_activity := now, re_announced := False\<rparr>"

definition note_traffic :: "nat \<Rightarrow> pname \<Rightarrow> relay_store \<Rightarrow> relay_store" where
  "note_traffic now name s = map (\<lambda>(i, e). (i, if has_prefix name (re_namespace e) then renew now e else e)) s"

definition note_activity :: "nat \<Rightarrow> pname \<Rightarrow> relay_store \<Rightarrow> relay_store" where
  "note_activity now namespace s = map (\<lambda>(i, e). (i, if re_namespace e = namespace then renew now e else e)) s"

definition threshold :: "nat \<Rightarrow> relay_entry \<Rightarrow> nat" where
  "threshold quantum e = re_pui e + quantum * unat (re_hop e)"

definition is_due :: "nat \<Rightarrow> nat \<Rightarrow> relay_entry \<Rightarrow> bool" where
  "is_due now quantum e \<longleftrightarrow> \<not> re_announced e \<and> threshold quantum e < now - re_last_activity e"

definition relay_due :: "nat \<Rightarrow> nat \<Rightarrow> relay_store \<Rightarrow> due_teardown list \<times> relay_store" where
  "relay_due now quantum s =
     (map (\<lambda>(i, e). \<lparr>dt_namespace = re_namespace e, dt_id = i, dt_pipe_key = re_pipe_key e\<rparr>)
        (filter (\<lambda>(_, e). is_due now quantum e) s),
      map (\<lambda>(i, e). (i, if is_due now quantum e then e\<lparr>re_announced := True\<rparr> else e)) s)"

definition suppress :: "pname \<Rightarrow> relay_store \<Rightarrow> relay_store" where
  "suppress namespace s = map (\<lambda>(i, e). (i, if re_namespace e = namespace then e\<lparr>re_announced := True\<rparr> else e)) s"

definition teardown_authorized :: "pipe_id \<Rightarrow> u8 list option \<Rightarrow> relay_store \<Rightarrow> bool \<times> relay_store" where
  "teardown_authorized i secret s =
     (case map_of s i of
        Some e \<Rightarrow> if secret = Some (re_pipe_key e) then (True, map_delete i s) else (False, s)
      | None \<Rightarrow> (True, s))"

definition relay_reap_now :: "pipe_id \<Rightarrow> relay_store \<Rightarrow> pname option \<times> relay_store" where
  "relay_reap_now i s = (map_option re_namespace (map_of s i), map_delete i s)"

section \<open>Teardown over PathControl\<close>

text \<open>What the packages for names, hashing and path control provide; the operation is cast to its byte.\<close>

record 'op path_lib =
  pl_name_to_tlv :: "pname \<Rightarrow> u8 list"
  pl_sha256 :: "u8 list \<Rightarrow> u8 list"
  pl_op_byte :: "'op \<Rightarrow> u8"
  pl_teardown :: 'op

record 'op path_control =
  pc_target :: pname
  pc_op :: 'op
  pc_seq :: u64

text \<open>What is hashed, piece by piece.\<close>

definition teardown_input :: "'op path_lib \<Rightarrow> u8 list \<Rightarrow> pname \<Rightarrow> 'op \<Rightarrow> u64 \<Rightarrow> pipe_id \<Rightarrow> u8 list" where
  "teardown_input lib key target op seq i =
     ascii ''ndn-pipes/teardown-mac/v1''
     @ to_be 4 (of_nat (length key) :: u32) @ key
     @ to_be 4 (of_nat (length (pl_name_to_tlv lib target)) :: u32) @ pl_name_to_tlv lib target
     @ [pl_op_byte lib op] @ to_be 8 seq
     @ to_be 4 (of_nat (length i) :: u32) @ i"

definition teardown_mac :: "'op path_lib \<Rightarrow> u8 list \<Rightarrow> pname \<Rightarrow> 'op \<Rightarrow> u64 \<Rightarrow> pipe_id \<Rightarrow> u8 list" where
  "teardown_mac lib key target op seq i = pl_sha256 lib (teardown_input lib key target op seq i)"

definition TEARDOWN_MAC_LEN :: nat where "TEARDOWN_MAC_LEN = 32"

definition ct_eq :: "u8 list \<Rightarrow> u8 list \<Rightarrow> bool" where
  "ct_eq a b = (if length a \<noteq> length b then False
     else fold (\<lambda>(x, y) diff. diff OR (x XOR y)) (zip a b) 0 = 0)"

definition encode_pipe_teardown_params :: "pipe_id \<Rightarrow> u8 list \<Rightarrow> u8 list" where
  "encode_pipe_teardown_params i mac = to_be 4 (of_nat (length i) :: u32) @ i @ mac"

definition decode_pipe_teardown_params :: "u8 list \<Rightarrow> (pipe_id \<times> u8 list) option" where
  "decode_pipe_teardown_params p =
     (if length p < 4 then None
      else let i_len = unat (from_be (take 4 p) :: u32); rest = drop 4 p
           in if length rest < i_len then None
              else let i = take i_len rest; mac = drop i_len rest
                   in if length mac \<noteq> TEARDOWN_MAC_LEN then None else Some (i, mac))"

definition pipe_teardown_target :: "pname \<Rightarrow> pipe_id \<Rightarrow> pname" where
  "pipe_teardown_target namespace i = namespace @ [generic i]"

definition pipe_teardown_interest ::
    "'op path_lib \<Rightarrow> pname \<Rightarrow> pipe_id \<Rightarrow> u8 list \<Rightarrow> u64 \<Rightarrow> 'op path_control \<times> u8 list" where
  "pipe_teardown_interest lib namespace i key seq =
     (let target = pipe_teardown_target namespace i;
          mac = teardown_mac lib key target (pl_teardown lib) seq i
      in (\<lparr>pc_target = target, pc_op = pl_teardown lib, pc_seq = seq\<rparr>, encode_pipe_teardown_params i mac))"

text \<open>The trait \<open>PipeMembership\<close> and its two implementations.\<close>

record 's pipe_membership =
  pm_pipe_key :: "'s \<Rightarrow> pipe_id \<Rightarrow> u8 list option"
  pm_reap_authorized :: "pipe_id \<Rightarrow> 's \<Rightarrow> pname option \<times> 's"
  pm_suppress_namespace :: "pname \<Rightarrow> 's \<Rightarrow> 's"

definition relay_membership :: "relay_store pipe_membership" where
  "relay_membership = \<lparr>pm_pipe_key = relay_pipe_key, pm_reap_authorized = relay_reap_now, pm_suppress_namespace = suppress\<rparr>"

definition registry_membership :: "nat \<Rightarrow> registry pipe_membership" where
  "registry_membership now = \<lparr>pm_pipe_key = registry_pipe_key now,
     pm_reap_authorized = (\<lambda>i r. (None, registry_reap_now i r)), pm_suppress_namespace = (\<lambda>_ r. r)\<rparr>"

definition verify_teardown :: "'op path_lib \<Rightarrow> 's pipe_membership \<Rightarrow> 's \<Rightarrow> 'op path_control \<Rightarrow> pipe_id \<Rightarrow> u8 list \<Rightarrow> bool" where
  "verify_teardown lib m s pc i mac =
     (case pm_pipe_key m s i of
        None \<Rightarrow> False
      | Some key \<Rightarrow> ct_eq (teardown_mac lib key (pc_target pc) (pc_op pc) (pc_seq pc) i) mac)"

definition authorize :: "'op path_lib \<Rightarrow> 's pipe_membership \<Rightarrow> 's \<Rightarrow> 'op path_control \<Rightarrow> u8 list option \<Rightarrow> bool" where
  "authorize lib m s pc app_parameters =
     (if pc_op pc \<noteq> pl_teardown lib then False
      else (case app_parameters of
          None \<Rightarrow> False
        | Some params \<Rightarrow>
            (case decode_pipe_teardown_params params of
               None \<Rightarrow> False
             | Some (i, mac) \<Rightarrow> verify_teardown lib m s pc i mac)))"

definition on_teardown :: "'op path_lib \<Rightarrow> 's pipe_membership \<Rightarrow> 'op path_control \<Rightarrow> u8 list \<Rightarrow> 's \<Rightarrow> 's" where
  "on_teardown lib m pc params s =
     (case decode_pipe_teardown_params params of
        None \<Rightarrow> s
      | Some (i, mac) \<Rightarrow>
          if verify_teardown lib m s pc i mac
          then (case pm_reap_authorized m i s of
                  (Some namespace, s') \<Rightarrow> pm_suppress_namespace m namespace s'
                | (None, s') \<Rightarrow> s')
          else s)"

section \<open>Lemmas\<close>

lemma ct_eq_iff: "ct_eq a b \<longleftrightarrow> a = b"
proof -
  have acc: "fold (\<lambda>(x, y) diff. diff OR (x XOR y)) (zip a b) d = 0 \<longleftrightarrow> d = 0 \<and> a = b" if "length a = length b" for d :: u8
    using that
  proof (induction a b arbitrary: d rule: list_induct2)
    case (Cons x a y b)
    have "d OR (x XOR y) = 0 \<longleftrightarrow> d = 0 \<and> x = y"
      by (auto simp: or_eq_0_iff) (metis xor.assoc xor_self_eq xor.right_neutral xor.left_neutral)
    then show ?case using Cons.IH [of "d OR (x XOR y)"] by auto
  qed simp
  show ?thesis using acc [of 0] by (auto simp: ct_eq_def)
qed

text \<open>A field after its length is read back; so two such fields that start equal strings are equal.\<close>

lemma length_field_inj:
  assumes "to_be 4 (of_nat (length xs) :: u32) @ xs @ us = to_be 4 (of_nat (length ys) :: u32) @ ys @ vs"
    and "length xs < 2 ^ 32" and "length ys < 2 ^ 32"
  shows "xs = ys" and "us = vs"
proof -
  have "to_be 4 (of_nat (length xs) :: u32) = to_be 4 (of_nat (length ys) :: u32)" and rest: "xs @ us = ys @ vs"
    using assms(1) by (simp_all add: append_eq_append_conv)
  then have "(from_be (to_be 4 (of_nat (length xs) :: u32)) :: u32) = from_be (to_be 4 (of_nat (length ys) :: u32))" by simp
  then have "(of_nat (length xs) :: u32) = of_nat (length ys)" by (simp add: from_be_to_be take_bit_word_eq_self)
  then have "length xs = length ys" using assms(2,3) by (simp add: word_of_nat_eq_iff take_bit_nat_eq_self)
  then show "xs = ys" "us = vs" using rest by simp_all
qed

lemma teardown_params_back:
  assumes "length i < 2 ^ 32" and "length mac = TEARDOWN_MAC_LEN"
  shows "decode_pipe_teardown_params (encode_pipe_teardown_params i mac) = Some (i, mac)"
proof -
  have "unat (from_be (to_be 4 (of_nat (length i) :: u32)) :: u32) = length i"
    using assms(1) by (simp add: from_be_to_be take_bit_word_eq_self unsigned_of_nat take_bit_nat_eq_self)
  then show ?thesis
    using assms(2) by (simp add: decode_pipe_teardown_params_def encode_pipe_teardown_params_def Let_def TEARDOWN_MAC_LEN_def)
qed

end
