(* ===== verification/Pipe_Node.thy ===== *)
theory Pipe_Node
  imports Pipe_Store
begin

text \<open>
  The nodes of a pipe: the producer's answers (\<open>producer.rs\<close>), a relay's (\<open>relay.rs\<close>), the consumer's
  exchanges (\<open>consumer.rs\<close>, \<open>keyexchange.rs\<close>) and the protection of the bulk (\<open>confidentiality.rs\<close>). The
  network is a function: an Interest and the state behind it give an answer and the new state.
  Sealed boxes, ciphers, signatures and the coding of the bulk are of packages outside.
\<close>

section \<open>Packets\<close>

record interest =
  in_name :: pname
  in_app_parameters :: "u8 list option"
  in_hop_limit :: "u8 option"
  in_reflexive_name :: "pname option"

datatype 'sig signature = Signed 'sig | DigestOnly

record 'sig data =
  da_name :: pname
  da_content :: "u8 list option"
  da_signature :: "'sig signature"

definition reply :: "pname \<Rightarrow> u8 list \<Rightarrow> 'sig data" where
  "reply name content = \<lparr>da_name = name, da_content = Some content, da_signature = DigestOnly\<rparr>"

text \<open>\<open>seal\<close> to a public key and \<open>open\<close> with the private half; the salt is fixed.\<close>

record 'sk box_lib =
  bx_seal :: "u8 list \<Rightarrow> u8 list \<Rightarrow> u8 list option"
  bx_open :: "'sk \<Rightarrow> u8 list \<Rightarrow> u8 list option"

record 'sk consumer_session =
  ss_public :: "u8 list"
  ss_secret :: 'sk

definition PIPE_ID_LEN :: nat where "PIPE_ID_LEN = 16"

definition PIPE_KEY_LEN :: nat where "PIPE_KEY_LEN = 16"

section \<open>The producer\<close>

text \<open>The signer, else the identity, makes the signature of a SEEK reply; segments are keyed by the full name.\<close>

record 'sig pipe_producer =
  pr_segments :: "(pname \<times> u8 list) list"
  pr_pui :: nat
  pr_registry :: registry
  pr_identity :: "(pname \<Rightarrow> u8 list \<Rightarrow> 'sig) option"
  pr_signer :: "(pname \<Rightarrow> u8 list \<Rightarrow> 'sig) option"
  pr_push :: "u8 list list option"

definition DEFAULT_PUI :: nat where "DEFAULT_PUI = 10000"

definition pipe_producer_new :: "'sig pipe_producer" where
  "pipe_producer_new = \<lparr>pr_segments = [], pr_pui = DEFAULT_PUI, pr_registry = [], pr_identity = None, pr_signer = None, pr_push = None\<rparr>"

definition component_value :: "pname \<Rightarrow> nat \<Rightarrow> u8 list option" where
  "component_value name idx = (if idx < length name then Some (nc_value (name ! idx)) else None)"

text \<open>The random id and key are arguments, \<open>None\<close> when the generator fails.\<close>

definition mint_and_seal ::
    "'sk box_lib \<Rightarrow> u8 list option \<Rightarrow> u8 list option \<Rightarrow> u8 list option \<Rightarrow> (u8 list \<times> u8 list \<times> u8 list) option" where
  "mint_and_seal bx consumer_pub random_id random_key =
     (case (consumer_pub, random_id, random_key) of
        (Some pubk, Some i, Some key) \<Rightarrow>
          (case bx_seal bx pubk (i @ key) of
             Some sealed \<Rightarrow> Some (i, key, sealed)
           | None \<Rightarrow> None)
      | _ \<Rightarrow> None)"

definition seek_signature :: "'sig pipe_producer \<Rightarrow> pname \<Rightarrow> u8 list \<Rightarrow> 'sig signature" where
  "seek_signature p name body =
     (case pr_signer p of
        Some sign \<Rightarrow> Signed (sign name body)
      | None \<Rightarrow> (case pr_identity p of Some sign \<Rightarrow> Signed (sign name body) | None \<Rightarrow> DigestOnly))"

definition push_interests :: "'sig pipe_producer \<Rightarrow> interest \<Rightarrow> interest list" where
  "push_interests p i =
     (case (pr_push p, in_reflexive_name i) of
        (Some segs, Some r) \<Rightarrow>
          map (\<lambda>(k, seg). \<lparr>in_name = r @ [generic (ascii ''push'')] @ [generic (digits k)], in_app_parameters = Some seg,
              in_hop_limit = None, in_reflexive_name = None\<rparr>) (enumerate 0 segs)
      | _ \<Rightarrow> [])"

definition producer_serve ::
    "'sk box_lib \<Rightarrow> nat \<Rightarrow> u8 list option \<Rightarrow> u8 list option \<Rightarrow> interest \<Rightarrow> 'sig pipe_producer
      \<Rightarrow> interest list \<times> 'sig data option \<times> 'sig pipe_producer" where
  "producer_serve bx now random_id random_key i p =
     (let name = in_name i
      in case classify_message name of
           Some Seek \<Rightarrow>
             (let remaining = (case in_hop_limit i of Some h \<Rightarrow> h | None \<Rightarrow> GHL);
                  pipe_len = hop_index GHL remaining
              in case mint_and_seal bx (in_app_parameters i) random_id random_key of
                   Some (pipe_id, pipe_key, sealed) \<Rightarrow>
                     (let p' = p\<lparr>pr_registry := registry_insert pipe_id (now + pr_pui p) pipe_key (pr_registry p)\<rparr>;
                          body = encode_seek_reply sealed pipe_len
                      in ([], Some \<lparr>da_name = name, da_content = Some body, da_signature = seek_signature p name body\<rparr>, p'))
                 | None \<Rightarrow> ([], None, p))
         | Some Join \<Rightarrow> (push_interests p i, Some (reply name (ascii ''JOINED'')), p)
         | Some Check \<Rightarrow>
             (case component_value name 0 of
                Some k \<Rightarrow>
                  (let (alive, r) = refresh_if_live now k (pr_pui p) (pr_registry p); p' = p\<lparr>pr_registry := r\<rparr>
                   in ([], if alive then Some (reply name (ascii ''OK'')) else None, p'))
              | None \<Rightarrow> ([], None, p))
         | Some Pipe \<Rightarrow>
             ([], (case (Option.bind (component_value name 1) (registry_pipe_key now (pr_registry p)), in_app_parameters i) of
                (Some key, Some pubkey) \<Rightarrow>
                  map_option (reply name) (bx_seal bx pubkey (encode_pipe_bundle key (of_nat (pr_pui p))))
              | _ \<Rightarrow> None), p)
         | _ \<Rightarrow> ([], map_option (reply name) (map_of (pr_segments p) name), p))"

section \<open>A relay\<close>

definition relay_serve :: "'sk box_lib \<Rightarrow> interest \<Rightarrow> relay_store \<Rightarrow> 'sig data option" where
  "relay_serve bx i s =
     (let name = in_name i;
          remaining = (case in_hop_limit i of Some h \<Rightarrow> h | None \<Rightarrow> GHL);
          hop = hop_index GHL remaining
      in case classify_message name of
           Some Pipe \<Rightarrow>
             (let resealed = (case (Option.bind (component_value name 1) (relay_bundle s), in_app_parameters i) of
                  (Some (key, pui), Some pubkey) \<Rightarrow> bx_seal bx pubkey (encode_pipe_bundle key (of_nat pui))
                | _ \<Rightarrow> None)
              in case resealed of
                   Some sealed \<Rightarrow> Some (reply name sealed)
                 | None \<Rightarrow> Some (reply name [hop]))
         | Some Context \<Rightarrow> Some (reply name [hop])
         | Some Link \<Rightarrow> Some (reply name [hop])
         | _ \<Rightarrow> None)"

text \<open>The request side of the PIPE exchange.\<close>

definition fetch_pipe_key :: "'sk box_lib \<Rightarrow> 'sk consumer_session \<Rightarrow> (interest \<Rightarrow> 'sig data option) \<Rightarrow> pipe_id \<Rightarrow> u32 \<Rightarrow> (u8 list \<times> u64) option" where
  "fetch_pipe_key bx session upstream i upstream_hop =
     (case upstream \<lparr>in_name = pipe_name i upstream_hop, in_app_parameters = Some (ss_public session),
          in_hop_limit = None, in_reflexive_name = None\<rparr> of
        None \<Rightarrow> None
      | Some d \<Rightarrow>
          (case da_content d of
             None \<Rightarrow> None
           | Some sealed \<Rightarrow> Option.bind (bx_open bx (ss_secret session) sealed) decode_pipe_bundle))"

definition learn_pipe_key ::
    "'sk box_lib \<Rightarrow> nat \<Rightarrow> 'sk consumer_session \<Rightarrow> (interest \<Rightarrow> 'sig data option) \<Rightarrow> pname \<Rightarrow> pipe_id \<Rightarrow> u32 \<Rightarrow> u32
      \<Rightarrow> relay_store \<Rightarrow> bool \<times> relay_store" where
  "learn_pipe_key bx now session upstream namespace i hop upstream_hop s =
     (case fetch_pipe_key bx session upstream i upstream_hop of
        Some (key, pui) \<Rightarrow> (True, relay_insert now i namespace hop key (unat pui) s)
      | None \<Rightarrow> (False, s))"

section \<open>The consumer\<close>

datatype app_error = Timeout | OtherAppError

datatype pipe_error = NoProducer pname | App app_error | Coding | Crypto string

text \<open>The validator, and the check of a signature against the pinned key.\<close>

record 'sig pipe_consumer =
  co_validator :: "('sig data \<Rightarrow> bool) option"
  co_trust_anchor :: "('sig data \<Rightarrow> bool) option"

record seeked =
  sk_pipe_id :: pipe_id
  sk_teardown_secret :: "u8 list"
  sk_pipe_len :: u32

record pipe =
  pp_namespace :: pname
  pp_id :: pipe_id
  pp_pipe_len :: u32
  pp_teardown_secret :: "u8 list"

type_synonym ('s, 'sig) network = "interest \<Rightarrow> 's \<Rightarrow> (app_error + 'sig data) \<times> 's"

definition authenticated :: "'sig pipe_consumer \<Rightarrow> 'sig data \<Rightarrow> pipe_error option" where
  "authenticated c d =
     (case co_validator c of
        Some valid \<Rightarrow> if valid d then None else Some (Crypto ''SEEK reply did not validate to a trusted producer'')
      | None \<Rightarrow>
          (case co_trust_anchor c of
             Some verify \<Rightarrow> if verify d then None else Some (Crypto ''SEEK reply not signed by the trusted producer'')
           | None \<Rightarrow> None))"

definition seek :: "'sk box_lib \<Rightarrow> 'sig pipe_consumer \<Rightarrow> 'sk consumer_session option \<Rightarrow> pname \<Rightarrow> ('s, 'sig) network \<Rightarrow> 's \<Rightarrow> (pipe_error + seeked) \<times> 's" where
  "seek bx c session ns net s =
     (case session of
        None \<Rightarrow> (Inl (Crypto ''handshake keygen failed''), s)
      | Some session \<Rightarrow>
          (case net \<lparr>in_name = seek_name ns, in_app_parameters = Some (ss_public session), in_hop_limit = Some GHL,
               in_reflexive_name = None\<rparr> s of
             (Inl Timeout, s) \<Rightarrow> (Inl (NoProducer ns), s)
           | (Inl e, s) \<Rightarrow> (Inl (App e), s)
           | (Inr d, s) \<Rightarrow>
               (case authenticated c d of
                  Some e \<Rightarrow> (Inl e, s)
                | None \<Rightarrow>
                    (case decode_seek_reply (case da_content d of Some b \<Rightarrow> b | None \<Rightarrow> []) of
                       None \<Rightarrow> (Inl (Crypto ''SEEK reply was malformed''), s)
                     | Some (sealed, pipe_len) \<Rightarrow>
                         (case bx_open bx (ss_secret session) sealed of
                            None \<Rightarrow> (Inl (Crypto ''SEEK reply not sealed for us''), s)
                          | Some bundle \<Rightarrow>
                              if length bundle \<noteq> PIPE_ID_LEN + PIPE_KEY_LEN then (Inl (Crypto ''handshake bundle malformed''), s)
                              else (Inr \<lparr>sk_pipe_id = take PIPE_ID_LEN bundle, sk_teardown_secret = drop PIPE_ID_LEN bundle,
                                  sk_pipe_len = ucast pipe_len\<rparr>, s))))))"

definition reflexive_name :: "pipe_id \<Rightarrow> pname" where
  "reflexive_name i = [generic (ascii ''rfx'')] @ [generic i]"

definition check_interest :: "pipe_id \<Rightarrow> u32 \<Rightarrow> interest" where
  "check_interest i pipe_len = \<lparr>in_name = check_name i pipe_len, in_app_parameters = None, in_hop_limit = Some GHL, in_reflexive_name = None\<rparr>"

definition pipe_open ::
    "'sk box_lib \<Rightarrow> 'sig pipe_consumer \<Rightarrow> 'sk consumer_session option \<Rightarrow> pname \<Rightarrow> ('s, 'sig) network \<Rightarrow> 's \<Rightarrow> (pipe_error + pipe) \<times> 's" where
  "pipe_open bx c session ns net s =
     (case seek bx c session ns net s of
        (Inl e, s) \<Rightarrow> (Inl e, s)
      | (Inr sk, s) \<Rightarrow>
          (case net \<lparr>in_name = join_name ns (sk_pipe_id sk), in_app_parameters = None, in_hop_limit = Some GHL,
               in_reflexive_name = Some (reflexive_name (sk_pipe_id sk))\<rparr> s of
             (Inl e, s) \<Rightarrow> (Inl (App e), s)
           | (Inr _, s) \<Rightarrow>
               (case net (check_interest (sk_pipe_id sk) (sk_pipe_len sk)) s of
                  (Inl e, s) \<Rightarrow> (Inl (App e), s)
                | (Inr d, s) \<Rightarrow>
                    if da_content d \<noteq> Some (ascii ''OK'') then (Inl (Crypto ''CHECK was not OK''), s)
                    else (Inr \<lparr>pp_namespace = ns, pp_id = sk_pipe_id sk, pp_pipe_len = sk_pipe_len sk,
                        pp_teardown_secret = sk_teardown_secret sk\<rparr>, s))))"

definition is_alive :: "pipe \<Rightarrow> ('s, 'sig) network \<Rightarrow> 's \<Rightarrow> bool \<times> 's" where
  "is_alive pp net s =
     (case net (check_interest (pp_id pp) (pp_pipe_len pp)) s of
        (Inr d, s) \<Rightarrow> (da_content d = Some (ascii ''OK''), s)
      | (Inl _, s) \<Rightarrow> (False, s))"

definition context_probe :: "pipe \<Rightarrow> u32 \<Rightarrow> ('s, 'sig) network \<Rightarrow> 's \<Rightarrow> (pipe_error + u8) \<times> 's" where
  "context_probe pp hop net s =
     (case net \<lparr>in_name = context_name (pp_id pp) hop, in_app_parameters = None, in_hop_limit = Some GHL, in_reflexive_name = None\<rparr> s of
        (Inl e, s) \<Rightarrow> (Inl (App e), s)
      | (Inr d, s) \<Rightarrow> (case da_content d of Some (b # _) \<Rightarrow> Inr b | _ \<Rightarrow> Inl (Crypto ''CONTEXT reply was empty''), s))"

text \<open>The message \<open>close\<close> sends.\<close>

definition pipe_close :: "'op path_lib \<Rightarrow> pipe \<Rightarrow> u64 \<Rightarrow> 'op path_control \<times> u8 list" where
  "pipe_close lib pp seq = pipe_teardown_interest lib (pp_namespace pp) (pp_id pp) (pp_teardown_secret pp) seq"

section \<open>Protection of the bulk\<close>

datatype confidentiality = Cleartext | Aead "u8 list"

text \<open>Encryption gives ciphertext and tag; decryption checks the tag.\<close>

record aead_lib =
  ae_seal :: "u8 list \<Rightarrow> u8 list \<Rightarrow> u8 list \<Rightarrow> u8 list \<times> u8 list"
  ae_open :: "u8 list \<Rightarrow> u8 list \<Rightarrow> u8 list \<Rightarrow> u8 list \<Rightarrow> u8 list option"

definition NONCE_LEN :: nat where "NONCE_LEN = 12"

definition TAG_LEN :: nat where "TAG_LEN = 16"

definition conf_seal :: "aead_lib \<Rightarrow> confidentiality \<Rightarrow> u8 list \<Rightarrow> u8 list" where
  "conf_seal ae c plaintext =
     (case c of
        Cleartext \<Rightarrow> plaintext
      | Aead key \<Rightarrow>
          (let nonce = replicate NONCE_LEN 0; (ct, tag) = ae_seal ae key nonce plaintext in nonce @ tag @ ct))"

definition conf_open :: "aead_lib \<Rightarrow> confidentiality \<Rightarrow> u8 list \<Rightarrow> u8 list option" where
  "conf_open ae c sealed =
     (case c of
        Cleartext \<Rightarrow> Some sealed
      | Aead key \<Rightarrow>
          if length sealed < NONCE_LEN + TAG_LEN then None
          else ae_open ae key (take NONCE_LEN sealed) (drop (NONCE_LEN + TAG_LEN) sealed) (take TAG_LEN (drop NONCE_LEN sealed)))"

lemma conf_open_seal:
  assumes "\<And>key nonce m ct tag. ae_seal ae key nonce m = (ct, tag) \<Longrightarrow> length tag = TAG_LEN \<and> ae_open ae key nonce ct tag = Some m"
  shows "conf_open ae c (conf_seal ae c m) = Some m"
proof (cases c)
  case (Aead key)
  obtain ct tag where e: "ae_seal ae key (replicate NONCE_LEN 0) m = (ct, tag)" by force
  then show ?thesis using assms [OF e] by (simp add: conf_open_def conf_seal_def Aead Let_def)
qed (simp add: conf_open_def conf_seal_def)

end
