(* ===== verification/Pipe_Teardown.thy ===== *)
theory Pipe_Teardown
  imports Pipe_Store
begin

text \<open>
  What a teardown proof is worth (\<open>pathcontrol.rs\<close>), and what the monitor of a relay announces
  (\<open>relay.rs\<close>). The trait \<open>PipeMembership\<close> is the locale \<open>pipe_node\<close>, interpreted for the
  tables of a relay and of a producer.
\<close>

section \<open>The proof binds the teardown\<close>

text \<open>
  No input of the hash is a proper prefix of another, and equal inputs have equal parts: a proof that is
  lengthened, as SHA-256 allows, is the proof of no other teardown.
\<close>

lemma teardown_input_prefix_free:
  assumes eq: "teardown_input lib k t p q i = teardown_input lib k' t' p' q' i' @ x"
    and "pl_name_to_tlv lib t = pl_name_to_tlv lib t' \<Longrightarrow> t = t'" and "inj (pl_op_byte lib)"
    and "length k < 2 ^ 32" and "length k' < 2 ^ 32" and "length i < 2 ^ 32" and "length i' < 2 ^ 32"
    and "length (pl_name_to_tlv lib t) < 2 ^ 32" and "length (pl_name_to_tlv lib t') < 2 ^ 32"
  shows "k = k' \<and> t = t' \<and> p = p' \<and> q = q' \<and> i = i' \<and> x = []"
proof -
  let ?w = "\<lambda>xs. to_be 4 (of_nat (length xs) :: u32)"
  have 1: "?w k @ k @ (?w (pl_name_to_tlv lib t) @ pl_name_to_tlv lib t @ [pl_op_byte lib p] @ to_be 8 q @ ?w i @ i)
      = ?w k' @ k' @ (?w (pl_name_to_tlv lib t') @ pl_name_to_tlv lib t' @ [pl_op_byte lib p'] @ to_be 8 q' @ ?w i' @ i' @ x)"
    using eq unfolding teardown_input_def append_assoc by (simp only: same_append_eq)
  note k = length_field_inj [OF 1 assms(4,5)]
  note n = length_field_inj [OF k(2) assms(8,9)]
  have "pl_op_byte lib p = pl_op_byte lib p'"
    and tail: "to_be 8 q @ (?w i @ i @ []) = to_be 8 q' @ (?w i' @ i' @ x)"
    using n(2) by (simp_all only: append_Cons append_Nil append_Nil2 list.inject)
  have q: "to_be 8 q = to_be 8 q'" and 2: "?w i @ i @ [] = ?w i' @ i' @ x"
    using append_eq_append_conv [THEN iffD1, OF _ tail] by (simp_all only: length_to_be simp_thms)
  note i = length_field_inj [OF 2 assms(6,7)]
  have "(from_be (to_be 8 q) :: u64) = from_be (to_be 8 q')" using q by simp
  then have "q = q'" by (simp add: from_be_to_be take_bit_word_eq_self)
  then show ?thesis
    using k(1) n(1) i \<open>pl_op_byte lib p = pl_op_byte lib p'\<close> assms(2,3) by (metis injD)
qed

locale pipe_node =
  fixes m :: "'s pipe_membership"
  assumes reap_keys: "pm_pipe_key m (snd (pm_reap_authorized m i s)) = (pm_pipe_key m s)(i := None)"
    and suppress_keys: "pm_pipe_key m (pm_suppress_namespace m namespace s) = pm_pipe_key m s"
begin

lemma on_teardown_keys:
  "pm_pipe_key m (on_teardown lib m pc params s) =
     (case decode_pipe_teardown_params params of
        None \<Rightarrow> pm_pipe_key m s
      | Some (i, mac) \<Rightarrow> if verify_teardown lib m s pc i mac then (pm_pipe_key m s)(i := None) else pm_pipe_key m s)"
proof -
  have reap: "pm_pipe_key m (case pm_reap_authorized m i s of (Some namespace, s') \<Rightarrow> pm_suppress_namespace m namespace s' | (None, s') \<Rightarrow> s')
      = (pm_pipe_key m s)(i := None)" for i
    using reap_keys [of i s] suppress_keys by (auto split: prod.split option.split)
  show ?thesis by (simp add: on_teardown_def reap split: option.split prod.split)
qed

text \<open>The proof of a teardown is accepted where its key is held, and for that teardown only.\<close>

lemma proof_exact:
  assumes "pl_name_to_tlv lib (pc_target pc) = pl_name_to_tlv lib t \<Longrightarrow> pc_target pc = t" and "inj (pl_op_byte lib)"
    and "length (pl_name_to_tlv lib (pc_target pc)) < 2 ^ 32" and "length (pl_name_to_tlv lib t) < 2 ^ 32"
    and "length k < 2 ^ 32" and "length i < 2 ^ 32" and "length j < 2 ^ 32"
    and held: "\<And>key. pm_pipe_key m s i = Some key \<Longrightarrow> length key < 2 ^ 32"
    and no_collision: "\<And>key. pm_pipe_key m s i = Some key \<Longrightarrow>
      teardown_mac lib key (pc_target pc) (pc_op pc) (pc_seq pc) i = teardown_mac lib k t p q j \<Longrightarrow>
      teardown_input lib key (pc_target pc) (pc_op pc) (pc_seq pc) i = teardown_input lib k t p q j"
  shows "verify_teardown lib m s pc i (teardown_mac lib k t p q j) \<longleftrightarrow>
    pm_pipe_key m s i = Some k \<and> (t, p, q, j) = (pc_target pc, pc_op pc, pc_seq pc, i)"
proof (cases "pm_pipe_key m s i")
  case None
  then show ?thesis by (simp add: verify_teardown_def)
next
  case (Some key)
  have "teardown_mac lib key (pc_target pc) (pc_op pc) (pc_seq pc) i = teardown_mac lib k t p q j \<longleftrightarrow>
      key = k \<and> (t, p, q, j) = (pc_target pc, pc_op pc, pc_seq pc, i)"
    using no_collision [OF Some] teardown_input_prefix_free [of lib key "pc_target pc" "pc_op pc" "pc_seq pc" i k t p q j "[]"]
      held [OF Some] assms(1-7) by auto
  then show ?thesis using Some by (simp add: verify_teardown_def ct_eq_iff)
qed

end

lemma relay_pipe_key_eq: "relay_pipe_key s i = map_option re_pipe_key (map_of s i)"
  by (simp add: relay_pipe_key_def relay_bundle_def option.map_comp comp_def)

lemma map_of_entries: "map_of (map (\<lambda>(i, e). (i, f e)) s) i = map_option f (map_of s i)"
  by (induction s) auto

lemma map_of_suppress:
  "map_of (suppress namespace s) i = map_option (\<lambda>e. if re_namespace e = namespace then e\<lparr>re_announced := True\<rparr> else e) (map_of s i)"
  unfolding suppress_def by (rule map_of_entries)

lemma map_of_traffic:
  "map_of (note_traffic now name s) i = map_option (\<lambda>e. if has_prefix name (re_namespace e) then renew now e else e) (map_of s i)"
  unfolding note_traffic_def by (rule map_of_entries)

lemma map_of_activity:
  "map_of (note_activity now namespace s) i = map_option (\<lambda>e. if re_namespace e = namespace then renew now e else e) (map_of s i)"
  unfolding note_activity_def by (rule map_of_entries)

lemma map_of_due:
  "map_of (snd (relay_due now quantum s)) i = map_option (\<lambda>e. if is_due now quantum e then e\<lparr>re_announced := True\<rparr> else e) (map_of s i)"
  unfolding relay_due_def snd_conv by (rule map_of_entries)

interpretation relay: pipe_node relay_membership
  by unfold_locales
    (auto simp: relay_membership_def relay_reap_now_def fun_eq_iff relay_pipe_key_eq map_of_delete map_of_suppress
      option.map_comp comp_def if_distrib cong: if_cong)

interpretation producer: pipe_node "registry_membership now" for now
  by unfold_locales (auto simp: registry_membership_def registry_reap_now_def fun_eq_iff registry_pipe_key_def map_of_delete)

text \<open>
  (C29) A teardown works with the pipe key only. Take a message whose proof was made with a key \<open>k\<close> for some target,
  operation, sequence number and pipe. A relay accepts it exactly when \<open>k\<close> is the key it holds for the pipe
  the message names and the proof is of this very message; then it forgets that pipe and no other, and
  otherwise its keys stay as they are. Of SHA-256 it is used that these two inputs do not collide.
\<close>

theorem teardown_needs_pipe_key:
  fixes lib :: "'op path_lib"
  assumes "pl_name_to_tlv lib (pc_target pc) = pl_name_to_tlv lib t \<Longrightarrow> pc_target pc = t" and "inj (pl_op_byte lib)"
    and "length (pl_name_to_tlv lib (pc_target pc)) < 2 ^ 32" and "length (pl_name_to_tlv lib t) < 2 ^ 32"
    and "length k < 2 ^ 32" and "length i < 2 ^ 32" and "length j < 2 ^ 32"
    and "\<And>key. relay_pipe_key s i = Some key \<Longrightarrow> length key < 2 ^ 32"
    and "\<And>key. relay_pipe_key s i = Some key \<Longrightarrow>
      teardown_mac lib key (pc_target pc) (pc_op pc) (pc_seq pc) i = teardown_mac lib k t p q j \<Longrightarrow>
      teardown_input lib key (pc_target pc) (pc_op pc) (pc_seq pc) i = teardown_input lib k t p q j"
    and "length (teardown_mac lib k t p q j) = TEARDOWN_MAC_LEN"
    and "params = encode_pipe_teardown_params i (teardown_mac lib k t p q j)"
    and "genuine \<longleftrightarrow> relay_pipe_key s i = Some k \<and> (t, p, q, j) = (pc_target pc, pc_op pc, pc_seq pc, i)"
  shows "authorize lib relay_membership s pc (Some params) = (pc_op pc = pl_teardown lib \<and> genuine)
    \<and> relay_pipe_key (on_teardown lib relay_membership pc params s)
      = (if genuine then (relay_pipe_key s)(i := None) else relay_pipe_key s)"
proof -
  have key: "pm_pipe_key relay_membership = relay_pipe_key" by (simp add: relay_membership_def)
  have decoded: "decode_pipe_teardown_params params = Some (i, teardown_mac lib k t p q j)"
    using assms(6,10,11) by (simp add: teardown_params_back)
  have "verify_teardown lib relay_membership s pc i (teardown_mac lib k t p q j) \<longleftrightarrow> genuine"
    using relay.proof_exact [of lib pc t k i j s p q] assms(1-9,12) unfolding key by blast
  then show ?thesis
    using relay.on_teardown_keys [of lib pc params s] by (simp add: decoded authorize_def key)
qed

text \<open>A toy package: names by their values, operations by a bit, and the end of the input as the hash.\<close>

definition toy_path :: "bool path_lib" where
  "toy_path = \<lparr>pl_name_to_tlv = (\<lambda>n. concat (map nc_value n)),
     pl_sha256 = (\<lambda>bs. take 32 (drop 29 bs @ replicate 32 0)), pl_op_byte = (\<lambda>b. if b then 1 else 0), pl_teardown = True\<rparr>"

definition two_pipes :: relay_store where
  "two_pipes = relay_insert 0 [2] [generic [5]] 1 [7, 7] 60 (relay_insert 0 [1] [generic [5]] 1 [9, 9] 10 [])"

theorem teardown_needs_pipe_key_witness:
  "let (pc, params) = pipe_teardown_interest toy_path [generic [5]] [1] [9, 9] 3
   in authorize toy_path relay_membership two_pipes pc (Some params)
      \<and> relay_pipe_key (on_teardown toy_path relay_membership pc params two_pipes) = (relay_pipe_key two_pipes)([1] := None)"
proof -
  let ?t = "[generic [5], generic [1]]"
  let ?pc = "\<lparr>pc_target = ?t, pc_op = True, pc_seq = 3\<rparr>"
  have key: "relay_pipe_key two_pipes [1] = Some [9, 9]" by code_simp
  have "authorize toy_path relay_membership two_pipes ?pc (Some (encode_pipe_teardown_params [1] (teardown_mac toy_path [9, 9] ?t True 3 [1])))
      = (pc_op ?pc = pl_teardown toy_path \<and> True)
    \<and> relay_pipe_key (on_teardown toy_path relay_membership ?pc (encode_pipe_teardown_params [1] (teardown_mac toy_path [9, 9] ?t True 3 [1])) two_pipes)
      = (if True then (relay_pipe_key two_pipes)([1] := None) else relay_pipe_key two_pipes)"
  proof (rule teardown_needs_pipe_key [where k = "[9, 9]" and t = ?t and p = True and q = 3 and j = "[1]"])
    show "inj (pl_op_byte toy_path)" by (simp add: inj_def toy_path_def)
    show "length (teardown_mac toy_path [9, 9] ?t True 3 [1]) = TEARDOWN_MAC_LEN" by code_simp
  qed (simp_all add: key generic_def toy_path_def)
  then show ?thesis by (simp add: pipe_teardown_interest_def Let_def pipe_teardown_target_def toy_path_def)
qed

end
