(* ===== verification/Pipe_Life.thy ===== *)
theory Pipe_Life
  imports Pipe_Node Pipe_Teardown
begin

text \<open>
  The life of a pipe across the nodes of a path: a consumer opens it to a producer some hops away, the relays
  learn its key from each other, the consumer closes it.
\<close>

section \<open>Opening\<close>

text \<open>
  The path: the builder appends a digest component to an Interest with parameters, every forwarder takes
  one from the hop limit, and the producer serves at the next of the given instants.
\<close>

definition delivered :: "(u8 list \<Rightarrow> u8 list) \<Rightarrow> u8 \<Rightarrow> interest \<Rightarrow> interest" where
  "delivered digest n i =
     i\<lparr>in_name := in_name i @ (case in_app_parameters i of None \<Rightarrow> [] | Some b \<Rightarrow> [\<lparr>nc_typ = PARAMETERS_SHA256, nc_value = digest b\<rparr>]),
       in_hop_limit := map_option (\<lambda>h. h - n) (in_hop_limit i)\<rparr>"

fun path_net ::
    "'sk box_lib \<Rightarrow> (u8 list \<Rightarrow> u8 list) \<Rightarrow> u8 \<Rightarrow> u8 list \<Rightarrow> u8 list \<Rightarrow> (nat list \<times> 'sig pipe_producer, 'sig) network" where
  "path_net bx digest n pid key i ([], p) = (Inl Timeout, ([], p))"
| "path_net bx digest n pid key i (t # ts, p) =
     (case producer_serve bx t (Some pid) (Some key) (delivered digest n i) p of
        (_, Some d, p') \<Rightarrow> (Inr d, (ts, p'))
      | (_, None, p') \<Rightarrow> (Inl Timeout, (ts, p')))"

lemma delivered_simps [simp]:
  "in_app_parameters (delivered digest n i) = in_app_parameters i"
  "in_hop_limit (delivered digest n i) = map_option (\<lambda>h. h - n) (in_hop_limit i)"
  by (simp_all add: delivered_def)

lemma delivered_name:
  "\<exists>d. in_name (delivered digest n i) = in_name i @ d \<and> list_all (\<lambda>c. nc_typ c = PARAMETERS_SHA256) d
    \<and> (in_app_parameters i = None \<longrightarrow> d = [])"
  by (simp add: delivered_def split: option.split)

lemma registry_key_insert:
  "registry_pipe_key t (registry_insert i d key r) j = (if j = i then (if t \<le> d then Some key else None) else registry_pipe_key t r j)"
  by (simp add: registry_pipe_key_def registry_insert_def hm_insert_def update_conv')

lemma check_id: "component_value (check_name i l) 0 = Some i"
  by (simp add: component_value_def check_name_def generic_def)

text \<open>
  (C27) A pipe opens. When the sealed box works for the consumer's session and the consumer accepts the signature of the reply, the
  three exchanges give a pipe with the producer's id and key and, as length, the number of hops of the path,
  which nobody was told; the producer then holds that key until the promised interval after the CHECK has passed, and
  its other pipes are as before.
\<close>

theorem pipe_opens:
  assumes box: "bx_seal bx (ss_public session) (pid @ key) = Some sealed" "sealed \<noteq> []"
      "bx_open bx (ss_secret session) sealed = Some (pid @ key)"
    and lengths: "length pid = PIPE_ID_LEN" "length key = PIPE_KEY_LEN" and "n \<le> GHL"
    and d: "d = \<lparr>da_name = name, da_content = Some (encode_seek_reply sealed n),
        da_signature = seek_signature p name (encode_seek_reply sealed n)\<rparr>"
      "name = seek_name ns @ [\<lparr>nc_typ = PARAMETERS_SHA256, nc_value = digest (ss_public session)\<rparr>]"
    and trusted: "authenticated c d = None"
    and "t3 \<le> t1 + pr_pui p"
  shows "\<exists>p'. pipe_open bx c (Some session) ns (path_net bx digest n pid key) ([t1, t2, t3], p)
      = (Inr \<lparr>pp_namespace = ns, pp_id = pid, pp_pipe_len = ucast n, pp_teardown_secret = key\<rparr>, ([], p'))
    \<and> (\<forall>t i. registry_pipe_key t (pr_registry p') i =
        (if i = pid then (if t \<le> t3 + pr_pui p then Some key else None) else registry_pipe_key t (pr_registry p) i))"
proof -
  define p1 where "p1 = p\<lparr>pr_registry := registry_insert pid (t1 + pr_pui p) key (pr_registry p)\<rparr>"
  define p2 where "p2 = p\<lparr>pr_registry := hm_insert pid \<lparr>pe_deadline = t3 + pr_pui p, pe_pipe_key = key\<rparr> (pr_registry p1)\<rparr>"
  note kinds = classify_names [of "[\<lparr>nc_typ = PARAMETERS_SHA256, nc_value = digest (ss_public session)\<rparr>]", simplified]
    classify_names [of "[]", simplified]
  have seek: "path_net bx digest n pid key \<lparr>in_name = seek_name ns, in_app_parameters = Some (ss_public session),
      in_hop_limit = Some GHL, in_reflexive_name = None\<rparr> ([t1, t2, t3], p) = (Inr d, ([t2, t3], p1))"
    using assms(6) by (simp add: delivered_def producer_serve_def kinds d mint_and_seal_def box hop_index_GHL p1_def Let_def)
  have parts: "take PIPE_ID_LEN (pid @ key) = pid" "drop PIPE_ID_LEN (pid @ key) = key"
    "length (pid @ key) = PIPE_ID_LEN + PIPE_KEY_LEN" using lengths by simp_all
  have decoded: "decode_seek_reply (encode_seek_reply sealed n) = Some (sealed, n)" using box(2) by (simp add: seek_reply_back)
  have one: "Pipe_Node.seek bx c (Some session) ns (path_net bx digest n pid key) ([t1, t2, t3], p)
      = (Inr \<lparr>sk_pipe_id = pid, sk_teardown_secret = key, sk_pipe_len = ucast n\<rparr>, ([t2, t3], p1))"
    unfolding Pipe_Node.seek_def using trusted by (simp add: seek parts decoded d(1) box(3) lengths del: path_net.simps)
  have join: "path_net bx digest n pid key \<lparr>in_name = join_name ns pid, in_app_parameters = None, in_hop_limit = Some GHL,
      in_reflexive_name = Some (reflexive_name pid)\<rparr> ([t2, t3], p1) = (Inr (reply (join_name ns pid) (ascii ''JOINED'')), ([t3], p1))"
    by (simp add: delivered_def producer_serve_def kinds Let_def)
  have live: "refresh_if_live t3 pid (pr_pui p) (pr_registry p1) = (True, pr_registry p2)"
    using assms(10) by (simp add: refresh_if_live_def p1_def p2_def registry_insert_def hm_insert_def update_conv')
  have check: "path_net bx digest n pid key (check_interest pid (ucast n)) ([t3], p1)
      = (Inr (reply (check_name pid (ucast n)) (ascii ''OK'')), ([], p2))"
    using live by (simp add: check_interest_def delivered_def producer_serve_def kinds Let_def check_id p1_def p2_def)
  have "pipe_open bx c (Some session) ns (path_net bx digest n pid key) ([t1, t2, t3], p)
      = (Inr \<lparr>pp_namespace = ns, pp_id = pid, pp_pipe_len = ucast n, pp_teardown_secret = key\<rparr>, ([], p2))"
    unfolding pipe_open_def by (simp add: one join check reply_def del: path_net.simps)
  moreover have "registry_pipe_key t (pr_registry p2) i =
      (if i = pid then (if t \<le> t3 + pr_pui p then Some key else None) else registry_pipe_key t (pr_registry p) i)" for t i
    by (simp add: registry_pipe_key_def p2_def p1_def registry_insert_def hm_insert_def update_conv')
  ultimately show ?thesis by blast
qed

definition toy_box :: "unit box_lib" where
  "toy_box = \<lparr>bx_seal = (\<lambda>pk m. Some (pk @ m)), bx_open = (\<lambda>_ b. if take 1 b = [9] then Some (drop 1 b) else None)\<rparr>"

definition toy_producer :: "bool pipe_producer" where
  "toy_producer = pipe_producer_new\<lparr>pr_identity := Some (\<lambda>_ _. True)\<rparr>"

definition toy_consumer :: "bool pipe_consumer" where
  "toy_consumer = \<lparr>co_validator = None, co_trust_anchor = Some (\<lambda>d. da_signature d = Signed True)\<rparr>"

definition toy_session :: "unit consumer_session" where
  "toy_session = \<lparr>ss_public = [9], ss_secret = ()\<rparr>"

theorem pipe_opens_witness:
  "\<exists>p'. pipe_open toy_box toy_consumer (Some toy_session) [generic [5]]
      (path_net toy_box (\<lambda>_. [7]) 3 (replicate 16 1) (replicate 16 2)) ([100, 200, 300], toy_producer)
    = (Inr \<lparr>pp_namespace = [generic [5]], pp_id = replicate 16 1, pp_pipe_len = ucast (3 :: u8), pp_teardown_secret = replicate 16 2\<rparr>, ([], p'))
  \<and> (\<forall>t i. registry_pipe_key t (pr_registry p') i =
      (if i = replicate 16 1 then (if t \<le> 300 + pr_pui toy_producer then Some (replicate 16 2) else None)
       else registry_pipe_key t (pr_registry toy_producer) i))"
  by (rule pipe_opens [where sealed = "9 # replicate 16 1 @ replicate 16 2", OF _ _ _ _ _ _ refl refl])
    (simp_all add: toy_box_def toy_session_def PIPE_ID_LEN_def PIPE_KEY_LEN_def GHL_def toy_consumer_def authenticated_def
      seek_signature_def toy_producer_def pipe_producer_new_def DEFAULT_PUI_def)

section \<open>Learning the key, and closing\<close>

text \<open>Relays learn in turn, each from the node before it, the first from the producer.\<close>

fun learn_chain ::
    "'sk box_lib \<Rightarrow> (u8 list \<Rightarrow> u8 list) \<Rightarrow> nat \<Rightarrow> pname \<Rightarrow> pipe_id \<Rightarrow> (interest \<Rightarrow> 'sig data option)
      \<Rightarrow> ('sk consumer_session \<times> u32 \<times> relay_store) list \<Rightarrow> (bool \<times> relay_store) list" where
  "learn_chain bx digest now ns pid upstream [] = []"
| "learn_chain bx digest now ns pid upstream ((session, hop, s) # relays) =
     (let (learned, s') = learn_pipe_key bx now session (\<lambda>i. upstream (delivered digest 0 i)) ns pid hop (hop + 1) s
      in (learned, s') # learn_chain bx digest now ns pid (\<lambda>i. relay_serve bx i s' :: 'sig data option) relays)"

definition box_ok :: "'sk box_lib \<Rightarrow> 'sk consumer_session \<Rightarrow> bool" where
  "box_ok bx session \<longleftrightarrow> (\<forall>m. \<exists>b. bx_seal bx (ss_public session) m = Some b \<and> bx_open bx (ss_secret session) b = Some m)"

text \<open>A node that answers a PIPE request with the sealed bundle.\<close>

definition hands_out :: "'sk box_lib \<Rightarrow> pipe_id \<Rightarrow> u8 list \<Rightarrow> nat \<Rightarrow> (interest \<Rightarrow> 'sig data option) \<Rightarrow> bool" where
  "hands_out bx pid key pui serve \<longleftrightarrow>
     (\<forall>i hop pk d b. in_name i = pipe_name pid hop @ [d] \<longrightarrow> nc_typ d = PARAMETERS_SHA256 \<longrightarrow> in_app_parameters i = Some pk \<longrightarrow>
        bx_seal bx pk (encode_pipe_bundle key (of_nat pui)) = Some b \<longrightarrow> (\<exists>n. serve i = Some (reply n b)))"

lemma pipe_id_of: "component_value (pipe_name i hop @ ds) (Suc 0) = Some i"
  by (simp add: component_value_def pipe_name_def COMMON_PREFIX_def generic_def)

lemma producer_hands_out:
  assumes "registry_pipe_key now (pr_registry p) pid = Some key"
  shows "hands_out bx pid key (pr_pui p) (\<lambda>i. fst (snd (producer_serve bx now r1 r2 i p)))"
  using assms by (auto simp: hands_out_def producer_serve_def Let_def classify_names pipe_id_of)

lemma relay_hands_out:
  assumes "relay_bundle s pid = Some (key, pui)"
  shows "hands_out bx pid key pui (\<lambda>i. relay_serve bx i s)"
  using assms by (auto simp: hands_out_def relay_serve_def Let_def classify_names pipe_id_of)

lemma learn_from:
  assumes "hands_out bx pid key pui upstream" and "box_ok bx session" and "key \<noteq> []" and "pui < 2 ^ 64"
  shows "\<exists>s'. learn_pipe_key bx now session (\<lambda>i. upstream (delivered digest 0 i)) ns pid hop up s = (True, s')
    \<and> relay_bundle s' pid = Some (key, pui) \<and> (\<forall>j. j \<noteq> pid \<longrightarrow> map_of s' j = map_of s j)"
proof -
  obtain b where b: "bx_seal bx (ss_public session) (encode_pipe_bundle key (of_nat pui)) = Some b"
    "bx_open bx (ss_secret session) b = Some (encode_pipe_bundle key (of_nat pui))"
    using assms(2) unfolding box_ok_def by blast
  obtain n where "upstream (delivered digest 0 \<lparr>in_name = pipe_name pid up, in_app_parameters = Some (ss_public session),
      in_hop_limit = None, in_reflexive_name = None\<rparr>) = Some (reply n b)"
    using assms(1) b(1) unfolding hands_out_def by (fastforce simp: delivered_def)
  then have "fetch_pipe_key bx session (\<lambda>i. upstream (delivered digest 0 i)) pid up = Some (key, of_nat pui)"
    using b(2) assms(3) by (simp add: fetch_pipe_key_def reply_def pipe_bundle_back)
  then show ?thesis
    using assms(4)
    by (simp add: learn_pipe_key_def relay_bundle_def relay_insert_def hm_insert_def update_conv' unsigned_of_nat take_bit_nat_eq_self)
qed

lemma chain_learns:
  assumes "hands_out bx pid key pui upstream" and "\<forall>(session, hop, s)\<in>set relays. box_ok bx session"
    and "key \<noteq> []" and "pui < 2 ^ 64"
  shows "\<forall>(learned, s)\<in>set (learn_chain bx digest now ns pid upstream relays). learned \<and> relay_bundle s pid = Some (key, pui)"
  using assms(1,2)
proof (induction relays arbitrary: upstream)
  case (Cons r relays)
  obtain session hop s where r: "r = (session, hop, s)" by (cases r)
  have ok: "box_ok bx session" using Cons.prems(2) r by auto
  obtain s' where s': "learn_pipe_key bx now session (\<lambda>i. upstream (delivered digest 0 i)) ns pid hop (hop + 1) s = (True, s')"
    "relay_bundle s' pid = Some (key, pui)"
    using learn_from [OF Cons.prems(1) ok assms(3,4), where digest = digest and now = now and ns = ns and hop = hop and up = "hop + 1" and s = s]
    by blast
  then show ?case using Cons.IH [OF relay_hands_out [OF s'(2)]] Cons.prems(2) r by simp
qed simp

text \<open>The message of a member is accepted wherever the key is held.\<close>

context pipe_node
begin

lemma member_closes:
  assumes "pm_pipe_key m s pid = Some key" and "length pid < 2 ^ 32"
    and "length (teardown_mac lib key (pipe_teardown_target ns pid) (pl_teardown lib) seq pid) = TEARDOWN_MAC_LEN"
    and "pipe_teardown_interest lib ns pid key seq = (pc, params)"
  shows "authorize lib m s pc (Some params)" and "pm_pipe_key m (on_teardown lib m pc params s) = (pm_pipe_key m s)(pid := None)"
proof -
  note sent = assms(4) [unfolded pipe_teardown_interest_def Let_def, THEN sym]
  have "decode_pipe_teardown_params params = Some (pid, teardown_mac lib key (pc_target pc) (pc_op pc) (pc_seq pc) pid)"
    and "pc_op pc = pl_teardown lib"
    using sent teardown_params_back [OF assms(2,3)] by simp_all
  then show "authorize lib m s pc (Some params)" and "pm_pipe_key m (on_teardown lib m pc params s) = (pm_pipe_key m s)(pid := None)"
    using assms(1) on_teardown_keys [of lib pc params s] by (simp_all add: authorize_def verify_teardown_def ct_eq_iff)
qed

end

text \<open>
  (C28) The key reaches every relay, and closing reaches every node. While the producer holds the pipe, every relay of the
  path that asks the node before it obtains the same key and promised interval; the one message with
  which the consumer closes is then accepted by each relay and by the producer, and each of them forgets
  this pipe and no other.
\<close>

theorem pipe_key_spreads_and_close_reaps:
  fixes p :: "'sig pipe_producer" and lib :: "'op path_lib"
  assumes held: "registry_pipe_key now (pr_registry p) pid = Some key" and "key \<noteq> []" and "pr_pui p < 2 ^ 64"
    and "list_all (\<lambda>(session, hop, s). box_ok bx session) relays"
    and "pp_id pp = pid" and "pp_teardown_secret pp = key" and "pp_namespace pp = ns" and "length pid < 2 ^ 32"
    and "length (teardown_mac lib key (pipe_teardown_target ns pid) (pl_teardown lib) seq pid) = TEARDOWN_MAC_LEN"
    and close: "pipe_close lib pp seq = (pc, params)"
  shows "list_all (\<lambda>(learned, s). learned \<and> relay_bundle s pid = Some (key, pr_pui p)
        \<and> authorize lib relay_membership s pc (Some params)
        \<and> relay_pipe_key (on_teardown lib relay_membership pc params s) = (relay_pipe_key s)(pid := None))
      (learn_chain bx digest now ns pid (\<lambda>i. fst (snd (producer_serve bx now None None i p))) relays)
    \<and> authorize lib (registry_membership now) (pr_registry p) pc (Some params)
    \<and> registry_pipe_key now (on_teardown lib (registry_membership now) pc params (pr_registry p))
      = (registry_pipe_key now (pr_registry p))(pid := None)"
proof -
  have sent: "pipe_teardown_interest lib ns pid key seq = (pc, params)" using close assms(5-7) by (simp add: pipe_close_def)
  have relays: "\<forall>(learned, s)\<in>set (learn_chain bx digest now ns pid (\<lambda>i. fst (snd (producer_serve bx now None None i p))) relays).
      learned \<and> relay_bundle s pid = Some (key, pr_pui p)"
    using assms(2-4) by (intro chain_learns producer_hands_out [OF held]) (simp_all add: list_all_iff)
  have keys: "pm_pipe_key relay_membership = relay_pipe_key" "pm_pipe_key (registry_membership now) = registry_pipe_key now"
    by (simp_all add: relay_membership_def registry_membership_def)
  have "authorize lib relay_membership s pc (Some params)
      \<and> relay_pipe_key (on_teardown lib relay_membership pc params s) = (relay_pipe_key s)(pid := None)"
    if "relay_bundle s pid = Some (key, pr_pui p)" for s
    using relay.member_closes [OF _ assms(8,9) sent, of s] that by (simp add: keys relay_pipe_key_def)
  then show ?thesis
    using relays producer.member_closes [where now = now, OF _ assms(8,9) sent, of "pr_registry p"] held
    by (fastforce simp: keys list_all_iff)
qed

text \<open>Two relays learn from the producer of the toy packages, and the consumer closes.\<close>

definition toy_pipe :: pipe where
  "toy_pipe = \<lparr>pp_namespace = [generic [5]], pp_id = [1], pp_pipe_len = 3, pp_teardown_secret = [9, 9]\<rparr>"

definition holding_producer :: "bool pipe_producer" where
  "holding_producer = toy_producer\<lparr>pr_registry := registry_insert [1] 500 [9, 9] []\<rparr>"

definition two_relays :: "(unit consumer_session \<times> u32 \<times> relay_store) list" where
  "two_relays = [(toy_session, 2, []), (toy_session, 1, relay_insert 0 [2] [generic [5]] 1 [7, 7] 60 [])]"

theorem pipe_key_spreads_and_close_reaps_witness:
  "let (pc, params) = pipe_close toy_path toy_pipe 4
   in list_all (\<lambda>(learned, s). learned \<and> relay_bundle s [1] = Some ([9, 9], 10000)
        \<and> authorize toy_path relay_membership s pc (Some params)
        \<and> relay_pipe_key (on_teardown toy_path relay_membership pc params s) = (relay_pipe_key s)([1] := None))
      (learn_chain toy_box (\<lambda>_. [7]) 100 [generic [5]] [1] (\<lambda>i. fst (snd (producer_serve toy_box 100 None None i holding_producer))) two_relays)
    \<and> authorize toy_path (registry_membership 100) (pr_registry holding_producer) pc (Some params)"
proof -
  obtain pc params where close: "pipe_close toy_path toy_pipe 4 = (pc, params)" by force
  have pui: "pr_pui holding_producer = 10000" by code_simp
  have "box_ok toy_box toy_session" by (simp add: box_ok_def toy_box_def toy_session_def)
  moreover have "registry_pipe_key 100 (pr_registry holding_producer) [1] = Some [9, 9]" by code_simp
  moreover have "length (teardown_mac toy_path [9, 9] (pipe_teardown_target [generic [5]] [1]) (pl_teardown toy_path) 4 [1]) = TEARDOWN_MAC_LEN"
    by code_simp
  ultimately show ?thesis
    using pipe_key_spreads_and_close_reaps [of 100 holding_producer "[1]" "[9, 9]" toy_box two_relays toy_pipe "[generic [5]]" toy_path 4 pc params
        "\<lambda>_. [7]"] close pui
    by (simp add: two_relays_def toy_pipe_def)
qed

section \<open>What the producer does not check\<close>

text \<open>A JOIN is acknowledged, and the object pushed, for any pipe id: the table of pipes is not consulted.\<close>

lemma join_of_any_id_acknowledged:
  "producer_serve bx now r1 r2 \<lparr>in_name = join_name ns pid, in_app_parameters = None, in_hop_limit = h, in_reflexive_name = Some r\<rparr> p =
     (push_interests p \<lparr>in_name = join_name ns pid, in_app_parameters = None, in_hop_limit = h, in_reflexive_name = Some r\<rparr>,
      Some (reply (join_name ns pid) (ascii ''JOINED'')), p)"
  using classify_names(2) [of "[]"] by (simp add: producer_serve_def Let_def)

text \<open>
  A pipe whose interval has passed stays in the table until a CHECK names it: no other Interest removes it, and a
  teardown does not, since its key is no longer given out to verify the proof.
\<close>

lemma only_check_reaps:
  assumes "map_of (pr_registry p) j = Some e" and "random_id \<noteq> Some j"
    and "classify_message (in_name i) = Some Check \<Longrightarrow> component_value (in_name i) 0 \<noteq> Some j"
  shows "map_of (pr_registry (snd (snd (producer_serve bx now random_id random_key i p)))) j = Some e"
proof -
  have minted: "r \<noteq> j" if "mint_and_seal bx a random_id random_key = Some (r, k, b)" for a r k b
    using that assms(2) by (auto simp: mint_and_seal_def split: option.splits)
  have check: "map_of (snd (refresh_if_live now k pui r)) j = map_of r j" if "k \<noteq> j" for k pui r
    using that by (simp add: refresh_if_live_def hm_insert_def update_conv' map_of_delete split: option.split)
  show ?thesis
    using assms(1,3) minted check
    by (auto simp: producer_serve_def Let_def registry_insert_def hm_insert_def update_conv' case_prod_unfold
      split: option.split message_kind.split)
qed

lemma lapsed_pipe_ignores_teardown:
  assumes "map_of r j = Some e" and "pe_deadline e < now"
  shows "map_of (on_teardown lib (registry_membership now) pc params r) j = Some e"
proof (cases "decode_pipe_teardown_params params")
  case (Some im)
  obtain i mac where im: "im = (i, mac)" by force
  have "registry_pipe_key now r j = None" using assms by (simp add: registry_pipe_key_def)
  then show ?thesis
    using assms(1) Some im
    by (cases "i = j") (auto simp: on_teardown_def verify_teardown_def registry_membership_def registry_reap_now_def map_of_delete
      split: option.split)
qed (simp add: assms on_teardown_def)

end
