(* ===== verification/Pipe_Monitor.thy ===== *)
theory Pipe_Monitor
  imports Pipe_Teardown
begin

text \<open>
  Runs of a relay's table (\<open>relay.rs\<close>): pipes are learned, packets pass, the monitor polls, teardowns of
  other nodes arrive. What the monitor announces, and what a teardown of one pipe does to the
  other pipes of its namespace.
\<close>

datatype 'op relay_event =
  Learn nat pipe_id pname u32 "u8 list" nat
| Traffic nat pname
| Activity nat pname
| Poll nat nat
| PeerTeardown nat "'op path_control" "u8 list"

fun event_time :: "'op relay_event \<Rightarrow> nat" where
  "event_time (Learn now _ _ _ _ _) = now"
| "event_time (Traffic now _) = now"
| "event_time (Activity now _) = now"
| "event_time (Poll now _) = now"
| "event_time (PeerTeardown now _ _) = now"

fun relay_do :: "'op path_lib \<Rightarrow> 'op relay_event \<Rightarrow> relay_store \<Rightarrow> relay_store" where
  "relay_do lib (Learn now i namespace hop key pui) s = relay_insert now i namespace hop key pui s"
| "relay_do lib (Traffic now name) s = note_traffic now name s"
| "relay_do lib (Activity now namespace) s = note_activity now namespace s"
| "relay_do lib (Poll now quantum) s = snd (relay_due now quantum s)"
| "relay_do lib (PeerTeardown now pc params) s = on_teardown lib relay_membership pc params s"

definition relay_run :: "'op path_lib \<Rightarrow> 'op relay_event list \<Rightarrow> relay_store \<Rightarrow> relay_store" where
  "relay_run lib evs s = fold (relay_do lib) evs s"

definition announces :: "nat \<Rightarrow> nat \<Rightarrow> pipe_id \<Rightarrow> relay_store \<Rightarrow> bool" where
  "announces now quantum i s \<longleftrightarrow> i \<in> dt_id ` set (fst (relay_due now quantum s))"

text \<open>What starts a new quiet time of a pipe: it is learned anew, or its namespace shows traffic.\<close>

fun renews :: "pipe_id \<Rightarrow> relay_store \<Rightarrow> 'op relay_event \<Rightarrow> bool" where
  "renews i s (Learn _ j _ _ _ _) \<longleftrightarrow> j = i"
| "renews i s (Traffic _ name) \<longleftrightarrow> (case namespace_of s i of Some p \<Rightarrow> has_prefix name p | None \<Rightarrow> False)"
| "renews i s (Activity _ namespace) \<longleftrightarrow> namespace_of s i = Some namespace"
| "renews i s (Poll _ _) \<longleftrightarrow> False"
| "renews i s (PeerTeardown _ _ _) \<longleftrightarrow> False"

lemma on_teardown_relay:
  "on_teardown lib relay_membership pc params s =
     (case decode_pipe_teardown_params params of
        None \<Rightarrow> s
      | Some (i, mac) \<Rightarrow>
          if verify_teardown lib relay_membership s pc i mac
          then (case namespace_of s i of Some namespace \<Rightarrow> suppress namespace (map_delete i s) | None \<Rightarrow> map_delete i s)
          else s)"
  by (simp add: on_teardown_def relay_membership_def relay_reap_now_def namespace_of_def split: option.split prod.split)

lemma fst_map_entries: "map fst (map (\<lambda>(i, e). (i, f e)) s) = map fst s"
  by (simp add: comp_def case_prod_unfold)

lemma hm_ok_entries: "hm_ok (map (\<lambda>(i, e). (i, f e)) s) = hm_ok s"
  unfolding hm_ok_def fst_map_entries ..

lemma hm_ok_relay_do: "hm_ok s \<Longrightarrow> hm_ok (relay_do lib ev s)"
  by (cases ev)
    (auto simp: relay_insert_def hm.ok_insert note_traffic_def note_activity_def relay_due_def hm_ok_entries
      on_teardown_relay suppress_def hm_ok_delete simp del: map_map split: option.split prod.split)

lemma hm_ok_relay_run: "hm_ok s \<Longrightarrow> hm_ok (relay_run lib evs s)"
  by (induction evs arbitrary: s) (simp_all add: relay_run_def hm_ok_relay_do)

lemma announces_iff:
  assumes "hm_ok s"
  shows "announces now quantum i s \<longleftrightarrow> (\<exists>e. map_of s i = Some e \<and> is_due now quantum e)"
proof -
  have "announces now quantum i s \<longleftrightarrow> (\<exists>e. (i, e) \<in> set s \<and> is_due now quantum e)"
    by (force simp: announces_def relay_due_def image_iff)
  then show ?thesis using hm.mem_iff [OF assms] by auto
qed

lemma renew_fixed: "renew now e = e \<Longrightarrow> re_last_activity e = now"
  by (cases e) (simp add: renew_def)

lemma renew_simps [simp]: "re_last_activity (renew now e) = now" "\<not> re_announced (renew now e)"
  by (simp_all add: renew_def)

text \<open>A step that does not renew a pipe leaves its entry as it was, or announced, or drops it.\<close>

lemma unannounced_step:
  assumes "map_of (relay_do lib ev s) i = Some e" and "\<not> re_announced e"
  shows "if renews i s ev then re_last_activity e = event_time ev else map_of s i = Some e"
proof (cases ev)
  case (Learn now j namespace hop key pui)
  then show ?thesis using assms by (auto simp: relay_insert_def hm_insert_def update_conv' split: if_splits)
next
  case (Traffic now name)
  then show ?thesis using assms by (auto simp: map_of_traffic namespace_of_def dest: renew_fixed split: if_splits)
next
  case (Activity now name)
  then show ?thesis using assms by (auto simp: map_of_activity namespace_of_def dest: renew_fixed split: if_splits)
next
  case (Poll now quantum)
  then show ?thesis using assms by (auto simp: map_of_due split: if_splits)
next
  case (PeerTeardown now pc params)
  then show ?thesis
    using assms by (auto simp: on_teardown_relay map_of_suppress map_of_delete split: option.splits prod.splits if_splits)
qed

lemma unannounced_was_renewed:
  assumes "map_of (relay_run lib evs s) i = Some e" and "\<not> re_announced e"
    and "\<And>e. map_of s i = Some e \<Longrightarrow> re_announced e"
  shows "\<exists>xs ev ys. evs = xs @ ev # ys \<and> renews i (relay_run lib xs s) ev \<and> re_last_activity e = event_time ev"
  using assms(1,2)
proof (induction evs arbitrary: e rule: rev_induct)
  case Nil
  then show ?case using assms(3) by (auto simp: relay_run_def)
next
  case (snoc ev evs)
  have step: "if renews i (relay_run lib evs s) ev then re_last_activity e = event_time ev else map_of (relay_run lib evs s) i = Some e"
    using unannounced_step [of lib ev "relay_run lib evs s" i e] snoc.prems by (simp add: relay_run_def)
  show ?case
  proof (cases "renews i (relay_run lib evs s) ev")
    case True
    then show ?thesis using step by auto
  next
    case False
    then obtain xs ev' ys where "evs = xs @ ev' # ys" "renews i (relay_run lib xs s) ev'" "re_last_activity e = event_time ev'"
      using step snoc.IH snoc.prems(2) by fastforce
    then have "evs @ [ev] = xs @ ev' # (ys @ [ev])" by simp
    then show ?thesis using \<open>renews i (relay_run lib xs s) ev'\<close> \<open>re_last_activity e = event_time ev'\<close> by blast
  qed
qed

text \<open>
  (C30) One announcement for every quiet time. If the monitor announces the teardown of a pipe and later again, then in
  between the pipe was learned anew or its namespace showed traffic, and the second announcement comes
  only when more than the promised interval and the delay of this relay's hop have passed since then.
\<close>

theorem announced_once_per_quiet_time:
  assumes "hm_ok s" and "announces t1 q1 i s"
    and "s' = relay_run lib evs (relay_do lib (Poll t1 q1) s)" and "announces t2 q2 i s'" and "map_of s' i = Some e"
  shows "\<exists>xs ev ys. evs = xs @ ev # ys \<and> renews i (relay_run lib xs (relay_do lib (Poll t1 q1) s)) ev
    \<and> event_time ev + re_pui e + q2 * unat (re_hop e) < t2"
proof -
  have ok: "hm_ok s'" using assms(1,3) hm_ok_relay_run hm_ok_relay_do by metis
  have due: "is_due t2 q2 e" using assms(4,5) announces_iff [OF ok] by auto
  have "re_announced e'" if "map_of (relay_do lib (Poll t1 q1) s) i = Some e'" for e'
    using that assms(2) announces_iff [OF assms(1)] by (auto simp: map_of_due)
  then obtain xs ev ys where "evs = xs @ ev # ys" "renews i (relay_run lib xs (relay_do lib (Poll t1 q1) s)) ev"
    "re_last_activity e = event_time ev"
    using unannounced_was_renewed [of lib evs "relay_do lib (Poll t1 q1) s" i e] assms(3,5) due by (auto simp: is_due_def)
  moreover have "event_time ev + re_pui e + q2 * unat (re_hop e) < t2"
    using due \<open>re_last_activity e = event_time ev\<close> by (simp add: is_due_def threshold_def less_diff_conv ac_simps)
  ultimately show ?thesis by blast
qed

text \<open>The two pipes of one namespace: polled, renewed by a packet, polled again.\<close>

definition quiet_then_traffic :: "bool relay_event list" where
  "quiet_then_traffic = [Poll 25 5, Traffic 40 [generic [5], generic [8]], Poll 50 5]"

theorem announced_once_per_quiet_time_witness:
  "\<exists>xs ev ys. quiet_then_traffic = xs @ ev # ys \<and> renews [1] (relay_run toy_path xs (relay_do toy_path (Poll 20 5) two_pipes)) ev
    \<and> event_time ev + 10 + 5 * 1 < 60"
proof -
  let ?s' = "relay_run toy_path quiet_then_traffic (relay_do toy_path (Poll 20 5) two_pipes)"
  let ?e = "\<lparr>re_namespace = [generic [5]], re_hop = 1, re_pipe_key = [9, 9], re_pui = 10, re_last_activity = 40, re_announced = False\<rparr>"
  have "hm_ok two_pipes" by code_simp
  moreover have "announces 20 5 [1] two_pipes" by code_simp
  moreover have "announces 60 5 [1] ?s'" by code_simp
  moreover have "map_of ?s' [1] = Some ?e" by code_simp
  ultimately show ?thesis
    using announced_once_per_quiet_time [of two_pipes 20 5 "[1]" ?s' toy_path quiet_then_traffic 60 5 ?e, OF _ _ refl] by simp
qed

section \<open>Siblings\<close>

text \<open>
  An announced pipe that is not renewed is never announced again; in particular one whose announcement was
  cancelled because a teardown of another pipe of its namespace went by.
\<close>

lemma suppressed_stays_silent:
  assumes "hm_ok s" and "\<And>e. map_of s i = Some e \<Longrightarrow> re_announced e"
    and "\<And>xs ev ys. evs = xs @ ev # ys \<Longrightarrow> \<not> renews i (relay_run lib xs s) ev"
  shows "\<not> announces now quantum i (relay_run lib evs s)"
  using announces_iff [OF hm_ok_relay_run [OF assms(1)], of now quantum i lib evs]
    unannounced_was_renewed [of lib evs s i] assms(2,3) unfolding is_due_def by metis

text \<open>
  So pipes of one namespace with different intervals leak. The first to be idle for its interval is announced; that
  teardown also comes back to the node that sent it, drops the one pipe and cancels the announcement of
  the other, which is never torn down while its namespace stays quiet.
\<close>

definition own_teardown :: "nat \<Rightarrow> bool relay_event" where
  "own_teardown now = (let (pc, params) = pipe_teardown_interest toy_path [generic [5]] [1] [9, 9] 1 in PeerTeardown now pc params)"

lemma idle_sibling_leaks:
  "let s = relay_run toy_path [Poll 20 5, own_teardown 21] two_pipes
   in map fst s = [[2]] \<and> announces 20 5 [1] two_pipes \<and> \<not> announces 1000 5 [2] s \<and> announces 1000 5 [2] two_pipes"
  by code_simp

end
