(* ===== verification/Spec2Isabelle.thy ===== *)
theory Spec2Isabelle
  imports Nan_Teardown Nan_Driver Nan_Codecs Cobs Reorder Dv_Prefix Shm_Wake Nlsr_Network Nlsr_Names
    Session_Guarantee Session_Producer Fetch_Life Dv_Converge Dv_Fib
    Dv_Tlv Nlsr_Wire Nlsr_Hello Nsf_Guarantee Lease_Guarantee
    Link_Pair Link_Guarantee Link_Policy Link_Waiting Link_Relays Pipe_Life Pipe_Monitor
begin

text \<open>
  A verification development for \<open>ndn-ext\<close>, the extension crates of an NDN forwarder: faces, routing
  protocols, streams, rate limiting and a service framework. It models the parts of \<open>src/crates\<close>
  that decide something (state machines, tables, codecs, algorithms) and leaves out what only moves
  bytes between them and the operating system.

  The parts and how they interact. A face carries packets: Wi-Fi Aware through the engine of
  \<open>ndn-nan-core\<close>, a serial line through the COBS codec of \<open>ndn-face-serial\<close>, a process on the same host
  through the rings of \<open>ndn-face-shm\<close>. The routing protocols of \<open>ndn-routing\<close> fill the forwarder's tables:
  the distance-vector protocol exchanges advertisements (RIB), replicates announced prefixes
  (prefix table) and joins both with the faces of its neighbours (FIB rows); NLSR floods link-state
  advertisements into a database, computes shortest paths from it and joins them with the announced names.
  \<open>ndn-stream-session\<close> carries a numbered stream: a producer that adds parity, a consumer that fetches,
  repairs and reorders. \<open>ndn-ratelimit\<close> decides on packets; the service framework \<open>ndnsf-rs\<close> uses its
  buckets and runs calls between users and providers over published messages. \<open>ndn-lease\<close> reserves exclusive
  keys for a limited time. \<open>ndn-link\<close> keeps one link to each device, over whatever paths there are, and
  routes through relays. \<open>ndn-pipes\<close> opens a pipe from a consumer to a producer, spreads its key to the
  relays between them and tears it down.
\<close>

text \<open>
  Theories, in the order of the code (each opens with its own account of its definitions):

  \<open>Prelude\<close>: words, byte arrays, little-endian numbers, positions in lists. \<open>Maps\<close>: the two map types
  of the standard library and their contract, the locale \<open>map_store\<close>, interpreted for both.

  \<open>faces/ndn-nan-core\<close>. \<open>Wire\<close> (\<open>wire.rs\<close>), \<open>Attr\<close>, \<open>Attr_Types\<close>, \<open>Attr_Sched\<close>, \<open>Ndpe\<close> (\<open>attr.rs\<close>), \<open>Frame\<close>
  (\<open>frame.rs\<close>), \<open>Rendezvous\<close> (\<open>rendezvous.rs\<close>), \<open>Nan_Engine\<close> (\<open>engine.rs\<close>, \<open>service.rs\<close>; the struct
  \<open>NanEngine\<close> is the record \<open>nan_engine\<close>, a method is a function from engine and step to engine and step).
  \<open>Nan_Codecs\<close>: round trips and bounds of every parser. \<open>Nan_Handshake\<close>, \<open>Nan_Dataplane\<close>, \<open>Nan_Teardown\<close>: the
  data-path handshake between two engines through the wire format. \<open>Nan_Progress\<close>, \<open>Nan_Reach\<close>,
  \<open>Nan_Safety\<close>: the step relation over all public operations and its invariants. \<open>Nan_Cluster\<close>, \<open>Nan_Driver\<close>:
  cluster merge, and wake times under the contract of a schedule.

  \<open>faces/ndn-face-serial\<close>: \<open>Cobs\<close> (\<open>cobs.rs\<close>).

  \<open>faces/ndn-face-shm\<close> (\<open>spsc.rs\<close>): \<open>Shm_Memory\<close> (mapped bytes and geometry), \<open>Shm_Ring\<close> (the ring
  operations), \<open>Shm_Queue\<close> (refinement of a bounded FIFO queue, locale \<open>queue\<close>), \<open>Shm_Safety\<close>, \<open>Shm_Limits\<close>
  (sizes, wrap-around), \<open>Shm_Wake\<close> (sender and receiver as processes that interleave load by load, with and
  without a store buffer).

  \<open>streams/ndn-stream-session\<close>: \<open>Reorder\<close> (\<open>reorder.rs\<close>), \<open>Fec\<close> (\<open>fec.rs\<close>), \<open>Fetch\<close> (\<open>fetch.rs\<close>), \<open>Session\<close>
  (\<open>lib.rs\<close>); their guarantees in \<open>Fec_Recovery\<close>, \<open>Fec_Guarantee\<close>, \<open>Fetch_Life\<close>, \<open>Session_Run\<close>,
  \<open>Session_Guarantee\<close>, \<open>Session_Producer\<close>.

  \<open>routing/ndn-routing\<close>, distance vector: \<open>Dv_Rib\<close> (\<open>rib.rs\<close>), \<open>Dv_Prefix\<close> (\<open>prefix.rs\<close>), \<open>Dv_Fib\<close> (\<open>fib.rs\<close>),
  \<open>Dv_Tlv\<close> (\<open>tlv.rs\<close>) over \<open>Tlv\<close>; \<open>Dv_Routes\<close>, \<open>Dv_Exchange\<close> (reachable tables, best routes, split
  horizon) and \<open>Dv_Converge\<close> (a network of routers). NLSR: \<open>Nlsr_Lsa\<close> (\<open>lsa/\<close>), \<open>Nlsr_Lsdb\<close>
  (\<open>lsdb.rs\<close>), \<open>Nlsr_Date\<close> and \<open>Nlsr_Wire\<close> (the LSAs on the wire, with dates as text), \<open>Nlsr_Hello\<close>
  (\<open>hello.rs\<close>: neighbour states and the router's own adjacency LSA), \<open>Nlsr_Dijkstra\<close>, \<open>Nlsr_Routes\<close> (\<open>routing_table.rs\<close>), \<open>Nlsr_Names\<close> (\<open>name_prefix_table.rs\<close>);
  \<open>Nlsr_Paths\<close> and \<open>Nlsr_Network\<close>: what the computed next hops mean, in one router and across a network.

  \<open>ratelimit/ndn-ratelimit\<close>: \<open>Ratelimit\<close> (\<open>bucket.rs\<close>, \<open>policy.rs\<close>, \<open>stage.rs\<close>).

  \<open>service/ndnsf-rs\<close>: \<open>Nsf_Messages\<close> (\<open>messages.rs\<close>), \<open>Nsf_Tokens\<close> (\<open>tokens.rs\<close>), \<open>Nsf_Flow\<close> (\<open>flow.rs\<close>),
  \<open>Nsf_Driver\<close> and \<open>Nsf_User\<close> (\<open>names.rs\<close>, \<open>trust.rs\<close>, \<open>driver.rs\<close>: one turn of the provider's loop, the
  user's calls); \<open>Nsf_Provider\<close>, \<open>Nsf_Exchange\<close>, \<open>Nsf_Guarantee\<close>: runs of the loop and a whole call.

  \<open>service/ndn-lease\<close>: \<open>Lease\<close> (\<open>lib.rs\<close>), \<open>Lease_Life\<close> (one operation, the invariant), \<open>Lease_Guarantee\<close>
  (runs: exclusion, the life of a lease, its end).

  \<open>faces/ndn-link\<close>: \<open>Link_Table\<close> (\<open>table.rs\<close>), \<open>Link_Policy\<close> (\<open>policy.rs\<close>, \<open>slots.rs\<close>), \<open>Link_Waiting\<close>
  (\<open>waiting.rs\<close>), \<open>Link_Relays\<close> (\<open>peer.rs\<close>, \<open>relays.rs\<close>, \<open>routes.rs\<close>); \<open>Link_Pair\<close> and \<open>Link_Guarantee\<close>: two devices
  that dial each other, and every run of one table.

  \<open>pipes/ndn-pipes\<close>: \<open>Pipe_Messages\<close> (\<open>message.rs\<close>), \<open>Pipe_Store\<close> (\<open>registry.rs\<close>, \<open>relay.rs\<close>, \<open>pathcontrol.rs\<close>),
  \<open>Pipe_Node\<close> (\<open>producer.rs\<close>, \<open>consumer.rs\<close>, \<open>keyexchange.rs\<close>, \<open>confidentiality.rs\<close>); \<open>Pipe_Teardown\<close> (the trait
  \<open>PipeMembership\<close> as the locale \<open>pipe_node\<close>, and what a proof is worth), \<open>Pipe_Monitor\<close> (runs of a relay),
  \<open>Pipe_Life\<close> (opening, learning the key and closing along a path).
\<close>

text \<open>
  What is shown, by kind. Codecs: encoders and decoders are inverse and parsers stay inside their
  buffers. Tables: an invariant over every sequence of operations, and what one operation changes.
  State machines: safety over every run, and liveness (a handshake completes, an unanswered request
  times out, a stream is delivered, routing converges, a call is answered) with the conditions it
  needs written out. Refinement: the ring is a bounded queue, the prefix table a replica. The places
  where code and comments disagree, or the code falls short of its purpose, are lemmas of their own.

  Conventions and assumptions. Machine integers are words that wrap, as in a release build;
  \<open>usize\<close> has 64 bits and the host is little-endian. A \<open>HashMap\<close> is a list of pairs with distinct keys
  of whose order nothing is assumed; where the code iterates one, the order is a parameter (some
  permutation). Time and randomness are arguments. Names of the packet crate are any type, or any linear
  order where their order is used, or lists of components. Packages outside the repository are
  parameters with their documented behaviour as a named hypothesis: the TLV reader and writer with names
  (\<open>wire_ok\<close>), the URI form of names and SHA-256 (\<open>uri_ok\<close>), the erasure code (\<open>fec_codec\<close>), the limiter of a
  token bucket (\<open>limiter_lib\<close>), Data packets, signers and validators (\<open>nsf_lib\<close>, \<open>trust_ctx\<close>), sealed boxes
  and the hash of a teardown proof (\<open>box_lib\<close>, \<open>path_lib\<close>).
  Link costs of NLSR are exact rationals instead of doubles. Shared memory is sequentially consistent,
  with a store buffer added where the order of a store and a load matters. Advertisements in the
  convergence of the distance-vector protocol are exchanged one at a time.

  Bounds and fuel. Loops over the bytes of a buffer take its length as fuel, which every reader's
  progress makes enough (\<open>tlv_loop_fuel\<close> and its likes); Dijkstra's loop is a \<open>while\<close> whose
  termination is a property; sixteen phases suffice for the distance-vector protocol because its
  infinity is sixteen.

  Not modelled: drivers of radios, sockets, QUIC, web transports and kernel interfaces; asynchronous
  tasks as such (their bodies are modelled as steps where they decide something); management and
  configuration parsing; dashboards; encryption and certificates; of links, the tasks that dial, admit and
  punch; the crates of discovery, compute, time, surfaces and strategies, whose decisions rest on packages
  outside the repository or on floating-point measurements.
\<close>

end
